(* ===== verification/Prelude.thy ===== *)
theory Prelude
  imports Main "HOL-Library.AList" "HOL-Library.Char_ord" "HOL-Library.List_Lexorder"
begin

text \<open>
  Shared vocabulary of the development: JavaScript objects and \<open>Map\<close>s as insertion-ordered
  association lists, the \<open>??\<close> and \<open>new Set\<close> idioms, decimal printing, and the generic
  fold and invariant lemmas that every component uses.
\<close>

named_theorems obj_simps \<open>lookup laws of the insertion-ordered objects\<close>

section \<open>JavaScript objects and maps\<close>

text \<open>
  A \<open>Record<string, V>\<close> and a \<open>Map<K, V>\<close> both keep their entries in insertion order;
  storing an existing key replaces its value in place. This is \<open>AList.update\<close>, and
  deleting a key is \<open>AList.delete\<close>. (JavaScript moves integer-like property names to the
  front; the code's keys are entity, node, tag and account ids, for which it does not.)
\<close>

type_synonym ('k, 'v) jsmap = "('k \<times> 'v) list"
type_synonym 'v obj = "(string, 'v) jsmap"

definition obj_keys :: "('k, 'v) jsmap \<Rightarrow> 'k list" where
  "obj_keys m = map fst m"

text \<open>\<open>o[k] ?? d\<close>\<close>

definition obj_or :: "'v \<Rightarrow> ('k, 'v) jsmap \<Rightarrow> 'k \<Rightarrow> 'v" where
  "obj_or d m k = (case map_of m k of None \<Rightarrow> d | Some v \<Rightarrow> v)"

definition obj_ok :: "('k, 'v) jsmap \<Rightarrow> bool" where
  "obj_ok m = distinct (obj_keys m)"

lemma obj_ok_Nil [simp]: "obj_ok []"
  by (simp add: obj_ok_def obj_keys_def)

lemma obj_ok_update [simp, intro]: "obj_ok m \<Longrightarrow> obj_ok (AList.update k v m)"
  unfolding obj_ok_def obj_keys_def by (rule distinct_update)

lemma obj_ok_delete [simp, intro]: "obj_ok m \<Longrightarrow> obj_ok (AList.delete k m)"
  unfolding obj_ok_def obj_keys_def by (rule distinct_delete)

lemma obj_get_update [simp, obj_simps]: "map_of (AList.update k v m) = (map_of m)(k \<mapsto> v)"
  by (rule update_conv')

lemma obj_get_delete [simp, obj_simps]: "map_of (AList.delete k m) = (map_of m)(k := None)"
  by (rule delete_conv')

lemma obj_or_update [simp, obj_simps]:
  "obj_or d (AList.update k v m) k' = (if k' = k then v else obj_or d m k')"
  by (simp add: obj_or_def)

lemma obj_or_Nil [simp]: "obj_or d [] k = d"
  by (simp add: obj_or_def)

lemma set_update: "set (AList.update k v m) \<subseteq> insert (k, v) (set m)"
  by (induction m) auto

lemma obj_update_all: "\<forall>p \<in> set m. Q p \<Longrightarrow> Q (k, v) \<Longrightarrow> \<forall>p \<in> set (AList.update k v m). Q p"
  using set_update by fastforce

lemma set_obj_keys: "set (obj_keys m) = dom (map_of m)"
  by (simp add: obj_keys_def dom_map_of_conv_image_fst)

text \<open>
  The merge loop \<open>for (const [k, v] of Object.entries(b)) r[k] = f(r[k], v)\<close> that starts
  from a copy of \<open>a\<close>.
\<close>

definition obj_merge :: "('v option \<Rightarrow> 'w \<Rightarrow> 'v) \<Rightarrow> ('k, 'v) jsmap \<Rightarrow> ('k, 'w) jsmap \<Rightarrow> ('k, 'v) jsmap" where
  "obj_merge f a b = foldl (\<lambda>r (k, v). AList.update k (f (map_of r k) v) r) a b"

lemma obj_merge_Nil [simp]: "obj_merge f a [] = a"
  by (simp add: obj_merge_def)

lemma obj_merge_Cons:
  "obj_merge f a ((k, v) # b) = obj_merge f (AList.update k (f (map_of a k) v) a) b"
  by (simp add: obj_merge_def)

lemma obj_ok_merge [simp, intro]: "obj_ok a \<Longrightarrow> obj_ok (obj_merge f a b)"
  by (induction b arbitrary: a) (auto simp: obj_merge_Cons)

lemma map_of_obj_merge [obj_simps]:
  "obj_ok b \<Longrightarrow> map_of (obj_merge f a b) k =
     (case map_of b k of None \<Rightarrow> map_of a k | Some v \<Rightarrow> Some (f (map_of a k) v))"
proof (induction b arbitrary: a)
  case Nil
  then show ?case by simp
next
  case (Cons p b)
  obtain k' v' where p: "p = (k', v')" by (cases p)
  from Cons.prems p have ok: "obj_ok b" and fresh: "k' \<notin> fst ` set b"
    by (auto simp: obj_ok_def obj_keys_def)
  from fresh have "map_of b k' = None" by (simp add: map_of_eq_None_iff)
  then show ?case
    by (simp add: p obj_merge_Cons Cons.IH [OF ok] split: option.split)
qed

section \<open>Arrays and sets\<close>

text \<open>\<open>Array.from(new Set(xs))\<close>: the first occurrence of every element, in order.\<close>

fun js_uniq :: "'a list \<Rightarrow> 'a list" where
  "js_uniq [] = []"
| "js_uniq (x # xs) = x # filter (\<lambda>y. y \<noteq> x) (js_uniq xs)"

lemma set_js_uniq [simp]: "set (js_uniq xs) = set xs"
  by (induction xs) auto

lemma distinct_js_uniq [simp]: "distinct (js_uniq xs)"
  by (induction xs) auto

lemma js_uniq_distinct: "distinct xs \<Longrightarrow> js_uniq xs = xs"
proof (induction xs)
  case Nil
  then show ?case by simp
next
  case (Cons x xs)
  then have "filter (\<lambda>y. y \<noteq> x) xs = xs" by (auto intro: filter_True)
  with Cons show ?case by simp
qed

text \<open>\<open>xs.find(p)\<close>\<close>

definition js_find :: "('a \<Rightarrow> bool) \<Rightarrow> 'a list \<Rightarrow> 'a option" where
  "js_find p xs = List.find p xs"

lemma js_find_Some: "js_find p xs = Some x \<Longrightarrow> x \<in> set xs \<and> p x"
  by (auto simp: js_find_def find_Some_iff)

lemma js_find_None: "js_find p xs = None \<longleftrightarrow> (\<forall>x \<in> set xs. \<not> p x)"
  by (auto simp: js_find_def find_None_iff)

text \<open>\<open>x ?? d\<close>\<close>

definition the_or :: "'a option \<Rightarrow> 'a \<Rightarrow> 'a" where
  "the_or a d = (case a of Some x \<Rightarrow> x | None \<Rightarrow> d)"

lemma the_or_simps [simp]: "the_or (Some x) d = x" "the_or None d = d"
  by (simp_all add: the_or_def)

text \<open>\<open>a || d\<close> on optional strings, and truthiness.\<close>

definition truthy :: "string option \<Rightarrow> bool" where
  "truthy v = (case v of None \<Rightarrow> False | Some s \<Rightarrow> s \<noteq> '''')"

definition or_default :: "string option \<Rightarrow> string \<Rightarrow> string" where
  "or_default v d = (case v of None \<Rightarrow> d | Some s \<Rightarrow> if s = '''' then d else s)"

definition opt_or :: "'a option \<Rightarrow> 'a option \<Rightarrow> 'a option" where
  "opt_or a b = (case a of Some x \<Rightarrow> Some x | None \<Rightarrow> b)"

section \<open>Decimal printing\<close>

text \<open>\<open>String(n)\<close> for an integer below the range where JavaScript switches to exponents.\<close>

fun show_nat :: "nat \<Rightarrow> string" where
  "show_nat n = (if n < 10 then [char_of (48 + n)] else show_nat (n div 10) @ [char_of (48 + n mod 10)])"

declare show_nat.simps [simp del]

definition show_int :: "int \<Rightarrow> string" where
  "show_int i = (if i < 0 then ''-'' @ show_nat (nat (- i)) else show_nat (nat i))"

section \<open>Runs of a component and their invariants\<close>

text \<open>
  Every stateful component here is a deterministic step function; \<open>machine\<close> is the contract
  "each operation keeps the invariant", and gives it for whole runs and for every prefix.
\<close>

locale machine =
  fixes step :: "'s \<Rightarrow> 'e \<Rightarrow> 's"
    and inv :: "'s \<Rightarrow> bool"
  assumes step_inv: "inv s \<Longrightarrow> inv (step s e)"
begin

lemma run_inv: "inv s \<Longrightarrow> inv (foldl step s es)"
  by (induction es arbitrary: s) (auto intro: step_inv)

lemma prefix_inv: "inv s \<Longrightarrow> inv (foldl step s (take n es))"
  by (rule run_inv)

end

text \<open>A fold with a quantity that every step conserves or changes by a known amount.\<close>

locale accounted = machine +
  fixes measure_of :: "'s \<Rightarrow> int" and delta :: "'s \<Rightarrow> 'e \<Rightarrow> int"
  assumes step_delta: "inv s \<Longrightarrow> measure_of (step s e) = measure_of s + delta s e"
begin

fun total_delta :: "'s \<Rightarrow> 'e list \<Rightarrow> int" where
  "total_delta s [] = 0"
| "total_delta s (e # es) = delta s e + total_delta (step s e) es"

lemma run_delta: "inv s \<Longrightarrow> measure_of (foldl step s es) = measure_of s + total_delta s es"
  by (induction es arbitrary: s) (auto simp: step_delta step_inv)

end

section \<open>Sums over lists\<close>

lemma sum_list_map_cong_set: "(\<And>x. x \<in> set xs \<Longrightarrow> f x = g x) \<Longrightarrow> sum_list (map f xs) = sum_list (map g xs)"
  by (metis map_eq_conv)

lemma sum_list_nonneg_int: "(\<And>x. x \<in> set xs \<Longrightarrow> 0 \<le> f x) \<Longrightarrow> 0 \<le> (sum_list (map f xs) :: int)"
  by (induction xs) (auto intro: add_nonneg_nonneg)

text \<open>A quantity summed over the values of an object.\<close>

definition obj_sum :: "('v \<Rightarrow> int) \<Rightarrow> ('k, 'v) jsmap \<Rightarrow> int" where
  "obj_sum f m = sum_list (map (f \<circ> snd) m)"

lemma obj_sum_simps [simp]: "obj_sum f [] = 0" "obj_sum f (p # m) = f (snd p) + obj_sum f m"
  by (simp_all add: obj_sum_def)

lemma obj_sum_update:
  "obj_ok m \<Longrightarrow> obj_sum f (AList.update k v m) =
     obj_sum f m - (case map_of m k of None \<Rightarrow> 0 | Some w \<Rightarrow> f w) + f v"
  by (induction m) (auto simp: obj_ok_def obj_keys_def split: option.split)

section \<open>Slices and divisions\<close>

text \<open>\<open>xs.slice(a, b)\<close>: negative indices count from the end.\<close>

definition js_index :: "int \<Rightarrow> int \<Rightarrow> int" where
  "js_index n i = (if i < 0 then max 0 (n + i) else min i n)"

definition js_slice :: "int \<Rightarrow> int \<Rightarrow> 'a list \<Rightarrow> 'a list" where
  "js_slice a b xs =
     (let n = int (length xs); i = js_index n a; j = js_index n b
      in take (nat (j - i)) (drop (nat i) xs))"

lemma js_slice_page:
  "0 \<le> a \<Longrightarrow> 0 \<le> n \<Longrightarrow> js_slice a (a + n) xs = take (nat n) (drop (nat a) xs)"
  by (cases "a \<le> int (length xs)"; cases "a + n \<le> int (length xs)")
    (auto simp: js_slice_def js_index_def Let_def min_def nat_diff_distrib)

text \<open>\<open>Math.ceil(x / d)\<close> of integers.\<close>

definition ceil_div :: "int \<Rightarrow> int \<Rightarrow> int" where
  "ceil_div x d = - ((- x) div d)"

text \<open>\<open>xs.join(sep)\<close> and \<open>xs.findIndex(p)\<close>.\<close>

fun js_join :: "string \<Rightarrow> string list \<Rightarrow> string" where
  "js_join sep [] = ''''"
| "js_join sep [x] = x"
| "js_join sep (x # y # zs) = x @ sep @ js_join sep (y # zs)"

fun js_findIndex :: "('a \<Rightarrow> bool) \<Rightarrow> 'a list \<Rightarrow> nat option" where
  "js_findIndex p [] = None"
| "js_findIndex p (x # xs) = (if p x then Some 0 else map_option Suc (js_findIndex p xs))"

lemma js_findIndex_Some: "js_findIndex p xs = Some i \<Longrightarrow> i < length xs \<and> p (xs ! i) \<and> (\<forall>j<i. \<not> p (xs ! j))"
proof (induction xs arbitrary: i)
  case (Cons x xs)
  show ?case
  proof (cases "p x")
    case False
    with Cons.prems obtain k where k: "js_findIndex p xs = Some k" "i = Suc k" by auto
    have "\<not> p ((x # xs) ! j)" if "j < i" for j
      using that False Cons.IH [OF k(1)] k(2) by (cases j) auto
    with Cons.IH [OF k(1)] k(2) show ?thesis by simp
  qed (use Cons.prems in auto)
qed simp

lemma js_findIndex_unique:
  assumes "distinct (map f xs)" "i < length xs" "f (xs ! i) = k"
  shows "js_findIndex (\<lambda>x. f x = k) xs = Some i"
  using assms
proof (induction xs arbitrary: i)
  case (Cons x xs)
  show ?case
  proof (cases i)
    case (Suc j)
    with Cons.prems have "f x \<noteq> k" by auto
    with Suc Cons show ?thesis by simp
  qed (use Cons.prems in simp)
qed simp

end
