(* ===== verification/Convergence.thy ===== *)
theory Convergence
  imports Prelude
begin

text \<open>
  The contract of a state-based replicated data type: merging two replica states is
  associative, commutative and idempotent up to what a reader can observe. From it follows
  strong eventual consistency: replicas that have received the same set of states, in any order
  and with any duplication, agree. The replicated types of \<^verbatim>\<open>shared/types/crdt.ts\<close> and the
  server's entity states interpret it in the theories \<open>Crdt\<close> and \<open>CrdtSync\<close>.
\<close>

locale state_crdt =
  fixes merge :: "'s \<Rightarrow> 's \<Rightarrow> 's"
    and inv :: "'s \<Rightarrow> bool"
    and eqv :: "'s \<Rightarrow> 's \<Rightarrow> bool"
  assumes merge_inv: "inv a \<Longrightarrow> inv b \<Longrightarrow> inv (merge a b)"
    and eqv_refl: "eqv a a"
    and eqv_sym: "eqv a b \<Longrightarrow> eqv b a"
    and eqv_trans [trans]: "eqv a b \<Longrightarrow> eqv b c \<Longrightarrow> eqv a c"
    and merge_cong: "inv a \<Longrightarrow> inv a' \<Longrightarrow> inv b \<Longrightarrow> inv b' \<Longrightarrow> eqv a a' \<Longrightarrow> eqv b b' \<Longrightarrow>
      eqv (merge a b) (merge a' b')"
    and merge_comm: "inv a \<Longrightarrow> inv b \<Longrightarrow> eqv (merge a b) (merge b a)"
    and merge_assoc: "inv a \<Longrightarrow> inv b \<Longrightarrow> inv c \<Longrightarrow> eqv (merge (merge a b) c) (merge a (merge b c))"
    and merge_idem: "inv a \<Longrightarrow> eqv (merge a a) a"
begin

text \<open>\<open>below a b\<close>: the state \<open>b\<close> already contains everything in \<open>a\<close>.\<close>

definition below :: "'s \<Rightarrow> 's \<Rightarrow> bool" where
  "below a b \<longleftrightarrow> eqv (merge a b) b"

lemma below_refl: "inv a \<Longrightarrow> below a a"
  by (simp add: below_def merge_idem)

lemma below_antisym:
  assumes "inv a" "inv b" "below a b" "below b a"
  shows "eqv a b"
proof -
  have "eqv a (merge b a)" using assms(4) by (simp add: below_def eqv_sym)
  moreover have "eqv (merge b a) (merge a b)" using assms(1,2) by (intro merge_comm)
  moreover have "eqv (merge a b) b" using assms(3) by (simp add: below_def)
  ultimately show ?thesis by (meson eqv_trans)
qed

lemma below_trans:
  assumes inv: "inv a" "inv b" "inv c" and ab: "below a b" and bc: "below b c"
  shows "below a c"
proof -
  have "eqv (merge a c) (merge a (merge b c))"
    using inv bc by (intro merge_cong merge_inv) (auto simp: below_def intro: eqv_refl eqv_sym)
  also have "eqv \<dots> (merge (merge a b) c)" using inv by (intro eqv_sym [OF merge_assoc])
  finally have 1: "eqv (merge a c) (merge (merge a b) c)" .
  have "eqv (merge (merge a b) c) (merge b c)"
    using inv ab by (intro merge_cong merge_inv) (auto simp: below_def intro: eqv_refl)
  with 1 bc show ?thesis by (meson below_def eqv_trans)
qed

lemma below_merge_left:
  assumes "inv a" "inv b"
  shows "below a (merge a b)"
proof -
  have "eqv (merge a (merge a b)) (merge (merge a a) b)"
    using assms by (intro eqv_sym [OF merge_assoc])
  also have "eqv \<dots> (merge a b)"
    using assms by (intro merge_cong merge_inv merge_idem eqv_refl)
  finally show ?thesis by (simp add: below_def)
qed

lemma below_merge_right:
  assumes "inv a" "inv b"
  shows "below b (merge a b)"
proof -
  have "below b (merge b a)" using assms by (rule below_merge_left [rotated])
  moreover have "below (merge b a) (merge a b)"
  proof -
    have "eqv (merge (merge b a) (merge a b)) (merge (merge a b) (merge a b))"
      using assms by (intro merge_cong merge_inv merge_comm eqv_refl)
    also have "eqv \<dots> (merge a b)" using assms by (intro merge_idem merge_inv)
    finally show ?thesis by (simp add: below_def)
  qed
  ultimately show ?thesis using assms by (meson below_trans merge_inv)
qed

lemma merge_least:
  assumes "inv a" "inv b" "inv u" "below a u" "below b u"
  shows "below (merge a b) u"
proof -
  have "eqv (merge (merge a b) u) (merge a (merge b u))" using assms by (intro merge_assoc)
  also have "eqv \<dots> (merge a u)"
    using assms by (intro merge_cong merge_inv) (auto simp: below_def intro: eqv_refl)
  also have "eqv \<dots> u" using assms by (simp add: below_def)
  finally show ?thesis by (simp add: below_def)
qed

lemma fold_inv: "inv s \<Longrightarrow> (\<And>x. x \<in> set xs \<Longrightarrow> inv x) \<Longrightarrow> inv (foldl merge s xs)"
  by (induction xs arbitrary: s) (auto intro: merge_inv)

lemma fold_start: "inv s \<Longrightarrow> (\<And>x. x \<in> set xs \<Longrightarrow> inv x) \<Longrightarrow> below s (foldl merge s xs)"
proof (induction xs arbitrary: s)
  case Nil
  then show ?case by (simp add: below_refl)
next
  case (Cons x xs)
  then have "inv x" "inv (merge s x)" by (auto intro: merge_inv)
  with Cons have "below (merge s x) (foldl merge (merge s x) xs)" "inv (foldl merge (merge s x) xs)"
    by (auto intro: fold_inv)
  moreover have "below s (merge s x)" using Cons.prems \<open>inv x\<close> by (intro below_merge_left)
  ultimately show ?case using Cons.prems(1) \<open>inv (merge s x)\<close> by (simp) (meson below_trans)
qed

lemma fold_upper:
  "inv s \<Longrightarrow> (\<And>x. x \<in> set xs \<Longrightarrow> inv x) \<Longrightarrow> x \<in> set xs \<Longrightarrow> below x (foldl merge s xs)"
proof (induction xs arbitrary: s)
  case Nil
  then show ?case by simp
next
  case (Cons y ys)
  then have y: "inv y" and sy: "inv (merge s y)" by (auto intro: merge_inv)
  have fin: "inv (foldl merge (merge s y) ys)" using sy Cons.prems(2) by (intro fold_inv) auto
  show ?case
  proof (cases "x = y")
    case True
    have "below y (merge s y)" using Cons.prems(1) y by (intro below_merge_right)
    moreover have "below (merge s y) (foldl merge (merge s y) ys)"
      using sy Cons.prems(2) by (intro fold_start) auto
    ultimately show ?thesis using True y sy fin by simp (meson below_trans)
  next
    case False
    with Cons sy show ?thesis by simp
  qed
qed

lemma fold_least:
  "inv s \<Longrightarrow> inv u \<Longrightarrow> below s u \<Longrightarrow> (\<And>x. x \<in> set xs \<Longrightarrow> inv x \<and> below x u) \<Longrightarrow> below (foldl merge s xs) u"
proof (induction xs arbitrary: s)
  case Nil
  then show ?case by simp
next
  case (Cons x xs)
  then have "inv (merge s x)" "below (merge s x) u" by (auto intro: merge_inv merge_least)
  with Cons show ?case by simp
qed

lemma fold_below:
  assumes "inv s" "\<And>x. x \<in> set xs \<Longrightarrow> inv x" "set ys \<subseteq> set xs"
  shows "below (foldl merge s ys) (foldl merge s xs)"
proof (rule fold_least)
  show "inv s" by fact
  show "inv (foldl merge s xs)" using assms(1,2) by (rule fold_inv)
  show "below s (foldl merge s xs)" using assms(1,2) by (rule fold_start)
  show "inv y \<and> below y (foldl merge s xs)" if "y \<in> set ys" for y
    using assms that by (blast intro: fold_upper)
qed

theorem converge:
  assumes "inv s" "\<And>x. x \<in> set xs \<Longrightarrow> inv x" "set xs = set ys"
  shows "eqv (foldl merge s xs) (foldl merge s ys)"
proof (rule below_antisym)
  show "inv (foldl merge s xs)" "inv (foldl merge s ys)" using assms by (auto intro: fold_inv)
  show "below (foldl merge s xs) (foldl merge s ys)" using assms by (intro fold_below) auto
  show "below (foldl merge s ys) (foldl merge s xs)" using assms by (intro fold_below) auto
qed

lemma redeliver:
  assumes "inv s" "\<And>x. x \<in> set xs \<Longrightarrow> inv x" "x \<in> set xs"
  shows "eqv (merge (foldl merge s xs) x) (foldl merge s xs)"
proof -
  have "eqv (foldl merge s (xs @ [x])) (foldl merge s xs)"
    using assms by (intro converge) auto
  then show ?thesis by simp
qed

end

text \<open>
  The usual way to meet the contract: an abstraction of the replica into a domain whose join is
  a semilattice, which the merge implements.
\<close>

locale abs_crdt =
  fixes merge :: "'s \<Rightarrow> 's \<Rightarrow> 's"
    and inv :: "'s \<Rightarrow> bool"
    and abs :: "'s \<Rightarrow> 'a"
    and join :: "'a \<Rightarrow> 'a \<Rightarrow> 'a"
    and dom_ok :: "'a \<Rightarrow> bool"
  assumes abs_inv: "inv a \<Longrightarrow> inv b \<Longrightarrow> inv (merge a b)"
    and abs_dom: "inv a \<Longrightarrow> dom_ok (abs a)"
    and abs_merge: "inv a \<Longrightarrow> inv b \<Longrightarrow> abs (merge a b) = join (abs a) (abs b)"
    and join_comm: "dom_ok x \<Longrightarrow> dom_ok y \<Longrightarrow> join x y = join y x"
    and join_assoc: "dom_ok x \<Longrightarrow> dom_ok y \<Longrightarrow> dom_ok z \<Longrightarrow> join (join x y) z = join x (join y z)"
    and join_idem: "dom_ok x \<Longrightarrow> join x x = x"

sublocale abs_crdt \<subseteq> state_crdt merge inv "\<lambda>a b. abs a = abs b"
  by unfold_locales (auto simp: abs_inv abs_merge abs_dom join_comm join_assoc join_idem)

end
