(* ===== verification/Crdt.thy ===== *)
theory Crdt
  imports Convergence "HOL-Library.Product_Lexorder"
begin

text \<open>
  The replicated types of \<^verbatim>\<open>shared/types/crdt.ts\<close>: vector clocks, last-writer-wins registers
  and maps, observed-remove sets and positive-negative counters. Timestamps and counters are
  integers (the code's numbers are integral here); node ids are compared as JavaScript compares
  strings, lexicographically by character.
\<close>

section \<open>Vector clocks\<close>

type_synonym VectorClock = "int obj"

datatype ClockRelation = Before | After | Concurrent | Equal

definition compareClocks :: "VectorClock \<Rightarrow> VectorClock \<Rightarrow> ClockRelation" where
  "compareClocks a b =
     (let nodes = js_uniq (obj_keys a @ obj_keys b);
          aLessB = list_ex (\<lambda>node. obj_or 0 a node < obj_or 0 b node) nodes;
          bLessA = list_ex (\<lambda>node. obj_or 0 b node < obj_or 0 a node) nodes
      in if \<not> aLessB \<and> \<not> bLessA then Equal
         else if aLessB \<and> \<not> bLessA then Before
         else if bLessA \<and> \<not> aLessB then After
         else Concurrent)"

definition max_default :: "int option \<Rightarrow> int \<Rightarrow> int" where
  "max_default cur v = max (case cur of None \<Rightarrow> 0 | Some c \<Rightarrow> c) v"

definition mergeClocks :: "VectorClock \<Rightarrow> VectorClock \<Rightarrow> VectorClock" where
  "mergeClocks a b = obj_merge max_default a b"

definition incrementClock :: "VectorClock \<Rightarrow> string \<Rightarrow> VectorClock" where
  "incrementClock clock nodeId = AList.update nodeId (obj_or 0 clock nodeId + 1) clock"

section \<open>Last-writer-wins registers\<close>

record 'a LWWRegister =
  reg_value :: 'a
  reg_timestamp :: int
  reg_nodeId :: string
  reg_clock :: VectorClock

definition mergeLWWRegister :: "'a LWWRegister \<Rightarrow> 'a LWWRegister \<Rightarrow> 'a LWWRegister" where
  "mergeLWWRegister local remote =
     (if reg_timestamp remote > reg_timestamp local then remote
      else if reg_timestamp remote < reg_timestamp local then local
      else if reg_nodeId remote > reg_nodeId local then remote else local)"

section \<open>Observed-remove sets\<close>

record ORSet =
  added :: "string list obj"
  removed :: "string list"

definition orSetAdd :: "ORSet \<Rightarrow> string \<Rightarrow> string \<Rightarrow> ORSet" where
  "orSetAdd s key tag =
     (let existing = obj_or [] (added s) key
      in s\<lparr>added := AList.update key (existing @ [tag]) (added s)\<rparr>)"

definition orSetRemove :: "ORSet \<Rightarrow> string \<Rightarrow> ORSet" where
  "orSetRemove s key = (let tags = obj_or [] (added s) key in s\<lparr>removed := removed s @ tags\<rparr>)"

definition orSetContains :: "ORSet \<Rightarrow> string \<Rightarrow> bool" where
  "orSetContains s key = list_ex (\<lambda>tag. tag \<notin> set (removed s)) (obj_or [] (added s) key)"

definition orSetValues :: "ORSet \<Rightarrow> string list" where
  "orSetValues s = filter (orSetContains s) (obj_keys (added s))"

definition union_tags :: "string list option \<Rightarrow> string list \<Rightarrow> string list" where
  "union_tags cur tags = js_uniq ((case cur of None \<Rightarrow> [] | Some ts \<Rightarrow> ts) @ tags)"

definition mergeORSet :: "ORSet \<Rightarrow> ORSet \<Rightarrow> ORSet" where
  "mergeORSet local remote =
     \<lparr>added = obj_merge union_tags (added local) (added remote),
      removed = js_uniq (removed local @ removed remote)\<rparr>"

section \<open>Positive-negative counters\<close>

record PNCounter =
  positive :: "int obj"
  negative :: "int obj"

definition obj_total :: "int obj \<Rightarrow> int" where
  "obj_total m = foldl (+) 0 (map snd m)"

definition pnCounterValue :: "PNCounter \<Rightarrow> int" where
  "pnCounterValue counter = obj_total (positive counter) - obj_total (negative counter)"

definition pnCounterIncrement :: "PNCounter \<Rightarrow> string \<Rightarrow> int \<Rightarrow> PNCounter" where
  "pnCounterIncrement counter nodeId amount =
     counter\<lparr>positive := AList.update nodeId (obj_or 0 (positive counter) nodeId + amount) (positive counter)\<rparr>"

definition pnCounterDecrement :: "PNCounter \<Rightarrow> string \<Rightarrow> int \<Rightarrow> PNCounter" where
  "pnCounterDecrement counter nodeId amount =
     counter\<lparr>negative := AList.update nodeId (obj_or 0 (negative counter) nodeId + amount) (negative counter)\<rparr>"

definition mergePNCounter :: "PNCounter \<Rightarrow> PNCounter \<Rightarrow> PNCounter" where
  "mergePNCounter local remote =
     \<lparr>positive = obj_merge max_default (positive local) (positive remote),
      negative = obj_merge max_default (negative local) (negative remote)\<rparr>"

section \<open>Last-writer-wins maps\<close>

type_synonym 'a LWWMap = "'a LWWRegister obj"

definition lwwMapSet :: "int \<Rightarrow> 'a LWWMap \<Rightarrow> string \<Rightarrow> 'a \<Rightarrow> string \<Rightarrow> VectorClock \<Rightarrow> 'a LWWMap" where
  "lwwMapSet now m key v nodeId clock =
     AList.update key \<lparr>reg_value = v, reg_timestamp = now, reg_nodeId = nodeId, reg_clock = clock\<rparr> m"

definition merge_reg_option :: "'a LWWRegister option \<Rightarrow> 'a LWWRegister \<Rightarrow> 'a LWWRegister" where
  "merge_reg_option localReg remoteReg =
     (case localReg of None \<Rightarrow> remoteReg | Some l \<Rightarrow> mergeLWWRegister l remoteReg)"

definition mergeLWWMap :: "'a LWWMap \<Rightarrow> 'a LWWMap \<Rightarrow> 'a LWWMap" where
  "mergeLWWMap local remote = obj_merge merge_reg_option local remote"

section \<open>What the clocks promise\<close>

text \<open>The causal order: a clock is below another when no node's counter is larger.\<close>

definition clock_le :: "VectorClock \<Rightarrow> VectorClock \<Rightarrow> bool" where
  "clock_le a b \<longleftrightarrow> (\<forall>node. obj_or 0 a node \<le> obj_or 0 b node)"

definition clock_ok :: "VectorClock \<Rightarrow> bool" where
  "clock_ok c \<longleftrightarrow> obj_ok c \<and> list_all (\<lambda>v. 0 \<le> v) (map snd c)"

lemma clock_ok_Nil [simp]: "clock_ok []"
  by (simp add: clock_ok_def)

lemma obj_or_absent: "k \<notin> set (obj_keys m) \<Longrightarrow> obj_or d m k = d"
  by (auto simp: obj_or_def set_obj_keys domIff)

lemma obj_or_nonneg: "clock_ok c \<Longrightarrow> 0 \<le> obj_or 0 c k"
  by (auto simp: obj_or_def clock_ok_def list_all_iff split: option.split dest!: map_of_SomeD)

lemma set_obj_update_vals: "set (map snd (AList.update k v m)) \<subseteq> insert v (set (map snd m))"
  by (induction m) auto

lemma clock_ok_update: "clock_ok c \<Longrightarrow> 0 \<le> v \<Longrightarrow> clock_ok (AList.update k v c)"
  using set_obj_update_vals [of k v c] unfolding clock_ok_def list_all_iff by blast

lemma clock_ok_merge_max: "clock_ok a \<Longrightarrow> clock_ok b \<Longrightarrow> clock_ok (obj_merge max_default a b)"
proof (induction b arbitrary: a)
  case Nil
  then show ?case by simp
next
  case (Cons p b)
  obtain k v where p: "p = (k, v)" by (cases p)
  from Cons.prems p have v: "0 \<le> v" and b: "clock_ok b" by (auto simp: clock_ok_def obj_ok_def obj_keys_def)
  have "0 \<le> max_default (map_of a k) v" using v by (simp add: max_default_def)
  with Cons.prems(1) have "clock_ok (AList.update k (max_default (map_of a k) v) a)"
    by (intro clock_ok_update)
  with b show ?case by (simp add: p obj_merge_Cons Cons.IH)
qed

lemma obj_or_merge_max:
  assumes "clock_ok a" "clock_ok b"
  shows "obj_or 0 (obj_merge max_default a b) k = max (obj_or 0 a k) (obj_or 0 b k)"
proof -
  have "obj_ok b" using assms by (simp add: clock_ok_def)
  then have "obj_or 0 (obj_merge max_default a b) k =
      (case map_of b k of None \<Rightarrow> obj_or 0 a k | Some v \<Rightarrow> max (obj_or 0 a k) v)"
    by (simp add: obj_or_def map_of_obj_merge max_default_def split: option.split)
  moreover have "0 \<le> obj_or 0 a k" using assms(1) by (rule obj_or_nonneg)
  ultimately show ?thesis by (simp add: obj_or_def split: option.splits)
qed

lemma ex_ahead_iff:
  "list_ex (\<lambda>node. obj_or 0 a node < obj_or 0 b node) (js_uniq (obj_keys x @ obj_keys y)) \<longleftrightarrow> \<not> clock_le b a"
  if "{a, b} = {x, y}"
proof -
  have "obj_or 0 a k = 0 \<and> obj_or 0 b k = 0" if "k \<notin> set (obj_keys x) \<union> set (obj_keys y)" for k
    using that \<open>{a, b} = {x, y}\<close> by (auto simp: doubleton_eq_iff obj_or_absent)
  then have "obj_or 0 a k < obj_or 0 b k \<Longrightarrow> k \<in> set (obj_keys x) \<union> set (obj_keys y)" for k
    by fastforce
  then show ?thesis by (auto simp: list_ex_iff clock_le_def not_le)
qed

lemma compareClocks_alt:
  "compareClocks a b =
     (if clock_le a b then (if clock_le b a then Equal else Before)
      else if clock_le b a then After else Concurrent)"
  using ex_ahead_iff [of a b a b] ex_ahead_iff [of b a a b]
  by (simp add: compareClocks_def Let_def insert_commute)

lemma incrementClock_ok: "clock_ok c \<Longrightarrow> clock_ok (incrementClock c n)"
  unfolding incrementClock_def by (rule clock_ok_update) (auto dest: obj_or_nonneg [of _ n])

lemma incrementClock_after: "compareClocks c (incrementClock c n) = Before"
proof -
  have "clock_le c (incrementClock c n)" by (simp add: clock_le_def incrementClock_def)
  moreover have "\<not> clock_le (incrementClock c n) c"
    by (auto simp: clock_le_def incrementClock_def intro!: exI [of _ n])
  ultimately show ?thesis by (simp add: compareClocks_alt)
qed

interpretation clocks: abs_crdt mergeClocks clock_ok "obj_or 0" "\<lambda>f g k. max (f k) (g k)" "\<lambda>_. True"
  by unfold_locales (auto simp: mergeClocks_def clock_ok_merge_max obj_or_merge_max max.assoc max.commute)

lemma clock_le_merge:
  assumes "clock_ok a" "clock_ok b"
  shows "clock_le (mergeClocks a b) c \<longleftrightarrow> clock_le a c \<and> clock_le b c"
  using assms by (auto simp: clock_le_def mergeClocks_def obj_or_merge_max)

lemma clock_le_merge_upper:
  assumes "clock_ok a" "clock_ok b"
  shows "clock_le a (mergeClocks a b)" "clock_le b (mergeClocks a b)"
  using assms by (simp_all add: clock_le_def mergeClocks_def obj_or_merge_max)

section \<open>Convergence of registers and maps\<close>

text \<open>
  A register is a write of some replica. The code relies on one node not writing two different
  values at the same instant: \<open>W\<close> gives the value and clock that a node wrote at a time.
\<close>

definition reg_from :: "(int \<Rightarrow> string \<Rightarrow> ('a \<times> VectorClock) option) \<Rightarrow> 'a LWWRegister \<Rightarrow> bool" where
  "reg_from W r \<longleftrightarrow> W (reg_timestamp r) (reg_nodeId r) = Some (reg_value r, reg_clock r)"

lemma reg_from_eq:
  assumes "reg_from W a" "reg_from W b" "reg_timestamp a = reg_timestamp b" "reg_nodeId a = reg_nodeId b"
  shows "a = b"
  using assms by (auto simp: reg_from_def intro!: LWWRegister.equality)

lemma merge_reg_cases: "mergeLWWRegister a b = a \<or> mergeLWWRegister a b = b"
  by (simp add: mergeLWWRegister_def)

text \<open>The order of writes: later instant first, then larger node id.\<close>

definition reg_stamp :: "'a LWWRegister \<Rightarrow> int \<times> string" where
  "reg_stamp r = (reg_timestamp r, reg_nodeId r)"

lemma mergeLWWRegister_alt: "mergeLWWRegister a b = (if reg_stamp a < reg_stamp b then b else a)"
  by (auto simp: mergeLWWRegister_def reg_stamp_def)

interpretation lww_reg: state_crdt mergeLWWRegister "reg_from W" "(=)"
  for W :: "int \<Rightarrow> string \<Rightarrow> ('a \<times> VectorClock) option"
proof
  fix a b c :: "'a LWWRegister"
  assume ab: "reg_from W a" "reg_from W b"
  show "reg_from W (mergeLWWRegister a b)" using ab merge_reg_cases [of a b] by metis
  show "mergeLWWRegister a b = mergeLWWRegister b a"
    using reg_from_eq [OF ab] by (auto simp: mergeLWWRegister_def)
  assume c: "reg_from W c"
  show "mergeLWWRegister (mergeLWWRegister a b) c = mergeLWWRegister a (mergeLWWRegister b c)"
    by (auto simp: mergeLWWRegister_alt)
qed (auto simp: mergeLWWRegister_def)

definition lww_map_from :: "(string \<Rightarrow> int \<Rightarrow> string \<Rightarrow> ('a \<times> VectorClock) option) \<Rightarrow> 'a LWWMap \<Rightarrow> bool" where
  "lww_map_from W m \<longleftrightarrow> obj_ok m \<and> (\<forall>k r. map_of m k = Some r \<longrightarrow> reg_from (W k) r)"

definition join_regs :: "(string \<Rightarrow> 'a LWWRegister option) \<Rightarrow> (string \<Rightarrow> 'a LWWRegister option) \<Rightarrow> string \<Rightarrow> 'a LWWRegister option" where
  "join_regs f g k = combine_options mergeLWWRegister (f k) (g k)"

lemma map_of_mergeLWWMap:
  "obj_ok b \<Longrightarrow> map_of (mergeLWWMap a b) = join_regs (map_of a) (map_of b)"
  by (rule ext) (simp add: mergeLWWMap_def join_regs_def map_of_obj_merge merge_reg_option_def split: option.split)

lemma lww_map_from_merge:
  assumes "lww_map_from W a" "lww_map_from W b"
  shows "lww_map_from W (mergeLWWMap a b)"
proof -
  have "reg_from (W k) r" if "map_of (mergeLWWMap a b) k = Some r" for k r
    using that assms lww_reg.merge_inv [of "W k"]
    by (auto simp: lww_map_from_def map_of_mergeLWWMap join_regs_def combine_options_def split: option.splits)
  then show ?thesis using assms by (simp add: lww_map_from_def mergeLWWMap_def)
qed

interpretation lww_map: abs_crdt mergeLWWMap "lww_map_from W" map_of join_regs
    "\<lambda>f. \<forall>k r. f k = Some r \<longrightarrow> reg_from (W k) r"
  for W :: "string \<Rightarrow> int \<Rightarrow> string \<Rightarrow> ('a \<times> VectorClock) option"
proof
  fix a b :: "'a LWWMap"
  assume ab: "lww_map_from W a" "lww_map_from W b"
  show "lww_map_from W (mergeLWWMap a b)" using ab by (rule lww_map_from_merge)
  show "map_of (mergeLWWMap a b) = join_regs (map_of a) (map_of b)"
    using ab by (simp add: map_of_mergeLWWMap lww_map_from_def)
  show "\<forall>k r. map_of a k = Some r \<longrightarrow> reg_from (W k) r" using ab by (simp add: lww_map_from_def)
next
  fix x y z :: "string \<Rightarrow> 'a LWWRegister option"
  assume x: "\<forall>k r. x k = Some r \<longrightarrow> reg_from (W k) r" and y: "\<forall>k r. y k = Some r \<longrightarrow> reg_from (W k) r"
  show "join_regs x y = join_regs y x"
    using x y lww_reg.merge_comm by (fastforce simp: join_regs_def combine_options_def split: option.split)
  show "join_regs x x = x"
    using x by (auto simp: join_regs_def combine_options_def mergeLWWRegister_def split: option.split)
  assume z: "\<forall>k r. z k = Some r \<longrightarrow> reg_from (W k) r"
  show "join_regs (join_regs x y) z = join_regs x (join_regs y z)"
    using x y z lww_reg.merge_assoc by (fastforce simp: join_regs_def combine_options_def split: option.split)
qed

section \<open>Convergence of sets\<close>

text \<open>What a reader can observe of an OR-set: the tags of each key, and the removed tags.\<close>

definition tags_of :: "ORSet \<Rightarrow> string \<Rightarrow> string set" where
  "tags_of s k = set (obj_or [] (added s) k)"

definition orset_abs :: "ORSet \<Rightarrow> (string \<Rightarrow> string set) \<times> string set" where
  "orset_abs s = (tags_of s, set (removed s))"

definition orset_ok :: "ORSet \<Rightarrow> bool" where
  "orset_ok s \<longleftrightarrow> obj_ok (added s)"

definition join_tags :: "(string \<Rightarrow> string set) \<times> string set \<Rightarrow> (string \<Rightarrow> string set) \<times> string set
    \<Rightarrow> (string \<Rightarrow> string set) \<times> string set" where
  "join_tags x y = (\<lambda>k. fst x k \<union> fst y k, snd x \<union> snd y)"

lemma tags_of_merge:
  "orset_ok b \<Longrightarrow> tags_of (mergeORSet a b) k = tags_of a k \<union> tags_of b k"
  by (auto simp: tags_of_def mergeORSet_def obj_or_def map_of_obj_merge union_tags_def orset_ok_def
      split: option.split)

lemma removed_merge: "set (removed (mergeORSet a b)) = set (removed a) \<union> set (removed b)"
  by (simp add: mergeORSet_def)

lemma tags_of_add [simp]: "tags_of (orSetAdd s k t) k' = (if k' = k then insert t (tags_of s k) else tags_of s k')"
  by (simp add: tags_of_def orSetAdd_def)

lemma removed_add [simp]: "removed (orSetAdd s k t) = removed s"
  by (simp add: orSetAdd_def)

lemma tags_of_remove [simp]: "tags_of (orSetRemove s k) = tags_of s"
  by (rule ext) (simp add: tags_of_def orSetRemove_def)

lemma removed_remove [simp]: "set (removed (orSetRemove s k)) = set (removed s) \<union> tags_of s k"
  by (simp add: orSetRemove_def tags_of_def)

lemma orset_ok_ops [simp]:
  "orset_ok s \<Longrightarrow> orset_ok (orSetAdd s k t)"
  "orset_ok s \<Longrightarrow> orset_ok (orSetRemove s k)"
  "orset_ok a \<Longrightarrow> orset_ok (mergeORSet a b)"
  by (simp_all add: orset_ok_def orSetAdd_def orSetRemove_def mergeORSet_def)

lemma contains_iff: "orSetContains s k \<longleftrightarrow> \<not> tags_of s k \<subseteq> set (removed s)"
  by (auto simp: orSetContains_def tags_of_def list_ex_iff)

lemma values_iff: "k \<in> set (orSetValues s) \<longleftrightarrow> orSetContains s k"
proof -
  have "orSetContains s k \<Longrightarrow> k \<in> set (obj_keys (added s))"
    by (rule ccontr) (simp add: orSetContains_def obj_or_absent)
  then show ?thesis by (auto simp: orSetValues_def)
qed

interpretation orset: abs_crdt mergeORSet orset_ok orset_abs join_tags "\<lambda>_. True"
proof
  fix a b
  assume "orset_ok a" "orset_ok b"
  then show "orset_abs (mergeORSet a b) = join_tags (orset_abs a) (orset_abs b)"
    by (auto simp: orset_abs_def join_tags_def tags_of_merge removed_merge)
qed (auto simp: join_tags_def)

section \<open>Convergence of counters\<close>

definition pn_ok :: "PNCounter \<Rightarrow> bool" where
  "pn_ok c \<longleftrightarrow> clock_ok (positive c) \<and> clock_ok (negative c)"

definition pn_abs :: "PNCounter \<Rightarrow> (string \<Rightarrow> int) \<times> (string \<Rightarrow> int)" where
  "pn_abs c = (obj_or 0 (positive c), obj_or 0 (negative c))"

definition join_max :: "(string \<Rightarrow> int) \<times> (string \<Rightarrow> int) \<Rightarrow> (string \<Rightarrow> int) \<times> (string \<Rightarrow> int)
    \<Rightarrow> (string \<Rightarrow> int) \<times> (string \<Rightarrow> int)" where
  "join_max x y = (\<lambda>k. max (fst x k) (fst y k), \<lambda>k. max (snd x k) (snd y k))"

lemma obj_total_alt: "obj_total m = sum_list (map snd m)"
proof -
  have "foldl (+) z xs = z + sum_list xs" for z :: int and xs
    by (induction xs arbitrary: z) simp_all
  then show ?thesis by (simp add: obj_total_def)
qed

lemma obj_total_sum:
  assumes "obj_ok m" "finite K" "set (obj_keys m) \<subseteq> K"
  shows "obj_total m = (\<Sum>k\<in>K. obj_or 0 m k)"
proof -
  have dist: "distinct (map fst m)" using assms(1) by (simp add: obj_ok_def obj_keys_def)
  have "(\<Sum>k\<in>K. obj_or 0 m k) = (\<Sum>k\<in>set (obj_keys m). obj_or 0 m k)"
    using assms by (intro sum.mono_neutral_right) (auto simp: obj_or_absent)
  also have "\<dots> = sum_list (map (obj_or 0 m) (map fst m))"
    using dist by (simp add: obj_keys_def sum_list_distinct_conv_sum_set del: map_map)
  also have "map (obj_or 0 m) (map fst m) = map snd m"
    using dist by (auto simp: obj_or_def map_of_is_SomeI)
  finally show ?thesis by (simp add: obj_total_alt)
qed

text \<open>The value shown to the user depends on the observable state only.\<close>

lemma pn_value_abs:
  assumes "pn_ok a" "pn_ok b" "pn_abs a = pn_abs b"
  shows "pnCounterValue a = pnCounterValue b"
proof -
  have total: "obj_total m = obj_total m'"
    if "clock_ok m" "clock_ok m'" "obj_or 0 m = obj_or 0 m'" for m m' :: "int obj"
    using that obj_total_sum [of m "set (obj_keys m) \<union> set (obj_keys m')"]
      obj_total_sum [of m' "set (obj_keys m) \<union> set (obj_keys m')"]
    by (simp add: clock_ok_def)
  show ?thesis
    using assms total [of "positive a" "positive b"] total [of "negative a" "negative b"]
    by (simp add: pnCounterValue_def pn_ok_def pn_abs_def)
qed

lemma obj_total_update:
  assumes "obj_ok m"
  shows "obj_total (AList.update k v m) = obj_total m - obj_or 0 m k + v"
proof -
  let ?K = "insert k (set (obj_keys m))"
  have sub: "set (obj_keys (AList.update k v m)) \<subseteq> ?K" by (auto simp: set_obj_keys)
  have "obj_total (AList.update k v m) = (\<Sum>j\<in>?K. obj_or 0 (AList.update k v m) j)"
    by (rule obj_total_sum) (use assms sub in auto)
  also have "\<dots> = v + (\<Sum>j\<in>?K - {k}. obj_or 0 (AList.update k v m) j)"
    by (subst sum.remove [of _ k]) simp_all
  also have "(\<Sum>j\<in>?K - {k}. obj_or 0 (AList.update k v m) j) = (\<Sum>j\<in>?K - {k}. obj_or 0 m j)"
    by (rule sum.cong) simp_all
  also have "\<dots> = obj_total m - obj_or 0 m k"
    by (subst obj_total_sum [of m ?K], (use assms in auto) [3]) (simp add: sum_diff1 insert_absorb)
  finally show ?thesis by simp
qed

lemma pn_ok_ops [simp]:
  "pn_ok c \<Longrightarrow> 0 \<le> n \<Longrightarrow> pn_ok (pnCounterIncrement c node n)"
  "pn_ok c \<Longrightarrow> 0 \<le> n \<Longrightarrow> pn_ok (pnCounterDecrement c node n)"
  by (simp_all add: pn_ok_def pnCounterIncrement_def pnCounterDecrement_def clock_ok_update obj_or_nonneg)

lemma pn_value_ops [simp]:
  "pn_ok c \<Longrightarrow> pnCounterValue (pnCounterIncrement c node n) = pnCounterValue c + n"
  "pn_ok c \<Longrightarrow> pnCounterValue (pnCounterDecrement c node n) = pnCounterValue c - n"
  by (simp_all add: pn_ok_def clock_ok_def pnCounterValue_def pnCounterIncrement_def
      pnCounterDecrement_def obj_total_update)

interpretation pn: abs_crdt mergePNCounter pn_ok pn_abs join_max "\<lambda>_. True"
  by unfold_locales
    (auto simp: mergePNCounter_def pn_ok_def pn_abs_def join_max_def clock_ok_merge_max obj_or_merge_max
      max.assoc max.commute)

section \<open>Properties\<close>

text \<open>\<open>compareClocks\<close> decides the causal order: it answers before, after, equal or
  concurrent exactly as the two clocks are related counter by counter (a node missing from a
  clock counts as 0), and a node's own mutation always moves its clock strictly forward.\<close>

theorem compareClocks_decides_causality:
  "(compareClocks a b = Equal \<longleftrightarrow> clock_le a b \<and> clock_le b a) \<and>
   (compareClocks a b = Before \<longleftrightarrow> clock_le a b \<and> \<not> clock_le b a) \<and>
   (compareClocks a b = After \<longleftrightarrow> clock_le b a \<and> \<not> clock_le a b) \<and>
   (compareClocks a b = Concurrent \<longleftrightarrow> \<not> clock_le a b \<and> \<not> clock_le b a) \<and>
   compareClocks a (incrementClock a node) = Before"
  by (simp add: compareClocks_alt [of a b] incrementClock_after)

text \<open>What a sequence of merges holds: the tags and the tombstones of every replica that took part.\<close>

lemma fold_merge_tags:
  "\<forall>x\<in>set xs. orset_ok x \<Longrightarrow> tags_of (foldl mergeORSet s xs) k = (\<Union>x\<in>set (s # xs). tags_of x k)"
  by (induction xs arbitrary: s) (auto simp: tags_of_merge)

lemma fold_merge_removed: "set (removed (foldl mergeORSet s xs)) = (\<Union>x\<in>set (s # xs). set (removed x))"
  by (induction xs arbitrary: s) (auto simp: removed_merge)

text \<open>C33: Observed-remove semantics. A key is in the result of merging replicas, whichever of them starts and in whatever order
  the others arrive, exactly when one of them holds a tag of it that none of them has removed. So a remove made on any of the
  replicas holds after the merge unless another replica knows a tag of the key that the remover had not seen, and an add whose
  tag nobody removed wins over every remove. On its own replica a remove takes effect at once, and so does an add under a new tag.\<close>

theorem orset_add_wins:
  assumes "\<forall>x\<in>set xs. orset_ok x"
  shows "(orSetContains (foldl mergeORSet s xs) key \<longleftrightarrow>
        (\<exists>tag. (\<exists>x\<in>set (s # xs). tag \<in> tags_of x key) \<and> (\<forall>x\<in>set (s # xs). tag \<notin> set (removed x))))
    \<and> (\<forall>a. orSetRemove a key \<in> set (s # xs) \<and> (\<forall>x\<in>set (s # xs). tags_of x key \<subseteq> tags_of a key)
         \<longrightarrow> \<not> orSetContains (foldl mergeORSet s xs) key)
    \<and> (\<forall>a tag. orSetAdd a key tag \<in> set (s # xs) \<and> (\<forall>x\<in>set (s # xs). tag \<notin> set (removed x))
         \<longrightarrow> orSetContains (foldl mergeORSet s xs) key)
    \<and> \<not> orSetContains (orSetRemove s key) key
    \<and> (\<forall>tag. tag \<notin> set (removed s) \<longrightarrow> orSetContains (orSetAdd s key tag) key)"
proof -
  have mem: "orSetContains (foldl mergeORSet s xs) key \<longleftrightarrow>
      (\<exists>tag. (\<exists>x\<in>set (s # xs). tag \<in> tags_of x key) \<and> (\<forall>x\<in>set (s # xs). tag \<notin> set (removed x)))"
    unfolding contains_iff fold_merge_tags [OF assms] fold_merge_removed by blast
  have gone: "\<not> orSetContains (foldl mergeORSet s xs) key"
    if "orSetRemove a key \<in> set (s # xs)" "\<forall>x\<in>set (s # xs). tags_of x key \<subseteq> tags_of a key" for a
  proof -
    have "tags_of a key \<subseteq> set (removed (orSetRemove a key))" by simp
    then show ?thesis unfolding mem using that by blast
  qed
  have wins: "orSetContains (foldl mergeORSet s xs) key"
    if "orSetAdd a key tag \<in> set (s # xs)" "\<forall>x\<in>set (s # xs). tag \<notin> set (removed x)" for a tag
  proof -
    have "tag \<in> tags_of (orSetAdd a key tag) key" by simp
    then show ?thesis unfolding mem using that by blast
  qed
  have own: "\<not> orSetContains (orSetRemove s key) key" "tag \<notin> set (removed s) \<Longrightarrow> orSetContains (orSetAdd s key tag) key" for tag
    by (auto simp: contains_iff)
  show ?thesis by (intro conjI allI impI; (elim conjE)?) (rule mem, erule (1) gone, erule (1) wins, rule own(1), erule own(2))
qed

text \<open>The phone removes a key while the laptop adds it again: the server, which knew only the old tag, keeps the new one; when the
  laptop does nothing the remove goes through.\<close>

lemma orset_add_wins_witness:
  "let old = \<lparr>added = [(''k'', [''t0''])], removed = []\<rparr>
   in orSetContains (foldl mergeORSet old [orSetRemove old ''k'', orSetAdd old ''k'' ''t1'']) ''k''
     \<and> \<not> orSetContains (foldl mergeORSet old [orSetRemove old ''k'', old]) ''k''"
proof -
  let ?old = "\<lparr>added = [(''k'', [''t0''])], removed = []\<rparr>"
  have ok: "orset_ok ?old" by (simp add: orset_ok_def obj_ok_def obj_keys_def)
  then have "\<forall>x\<in>set [orSetRemove ?old ''k'', orSetAdd ?old ''k'' ''t1'']. orset_ok x" "\<forall>x\<in>set [orSetRemove ?old ''k'', ?old]. orset_ok x"
    by simp_all
  note t = orset_add_wins [OF this(1), of ?old "''k''"] orset_add_wins [OF this(2), of ?old "''k''"]
  have tags: "tags_of ?old ''k'' = {''t0''}" by (simp add: tags_of_def obj_or_def)
  have "\<forall>x\<in>set (?old # [orSetRemove ?old ''k'', orSetAdd ?old ''k'' ''t1'']). ''t1'' \<notin> set (removed x)" by (simp add: tags)
  moreover have "\<forall>x\<in>set (?old # [orSetRemove ?old ''k'', ?old]). tags_of x ''k'' \<subseteq> tags_of ?old ''k''" by simp
  ultimately show ?thesis unfolding Let_def using t by (meson list.set_intros)
qed

text \<open>Registers with one stamp. A node that writes two values in one millisecond gives both writes the same stamp; then each
  replica keeps the one it has, so the outcome depends on the order and the replicas stay apart.\<close>

lemma equal_stamps_keep_local:
  assumes "reg_timestamp a = reg_timestamp b" "reg_nodeId a = reg_nodeId b"
  shows "mergeLWWRegister a b = a" "mergeLWWRegister b a = b"
  using assms by (simp_all add: mergeLWWRegister_def)

text \<open>Counter replicas converge: after receiving the same set of replica states, in any order
  and with any repetition, two nodes show the same value; an increment or decrement changes the
  value by its amount.\<close>

theorem pn_counter_converges:
  assumes "pn_ok s" "\<forall>x \<in> set xs. pn_ok x" "set xs = set ys" "0 \<le> amount"
  shows "pnCounterValue (foldl mergePNCounter s xs) = pnCounterValue (foldl mergePNCounter s ys) \<and>
    pnCounterValue (pnCounterIncrement s node amount) = pnCounterValue s + amount \<and>
    pnCounterValue (pnCounterDecrement s node amount) = pnCounterValue s - amount"
proof -
  have "pn_ok (foldl mergePNCounter s xs)" "pn_ok (foldl mergePNCounter s ys)"
    using assms by (auto intro: pn.fold_inv)
  moreover have "pn_abs (foldl mergePNCounter s xs) = pn_abs (foldl mergePNCounter s ys)"
    using assms by (intro pn.converge) auto
  ultimately have "pnCounterValue (foldl mergePNCounter s xs) = pnCounterValue (foldl mergePNCounter s ys)"
    by (rule pn_value_abs)
  then show ?thesis using assms(1) by simp
qed

lemma pn_counter_converges_witness:
  "pnCounterValue (foldl mergePNCounter \<lparr>positive = [(''a'', 2)], negative = []\<rparr>
       [\<lparr>positive = [(''b'', 5)], negative = [(''a'', 1)]\<rparr>, \<lparr>positive = [(''a'', 3)], negative = []\<rparr>]) =
   pnCounterValue (foldl mergePNCounter \<lparr>positive = [(''a'', 2)], negative = []\<rparr>
       [\<lparr>positive = [(''a'', 3)], negative = []\<rparr>, \<lparr>positive = [(''b'', 5)], negative = [(''a'', 1)]\<rparr>,
        \<lparr>positive = [(''a'', 3)], negative = []\<rparr>])"
  by (rule pn_counter_converges [where amount = 0, THEN conjunct1])
    (auto simp: pn_ok_def clock_ok_def obj_ok_def obj_keys_def)

text \<open>Maps of last-writer-wins registers converge for every delivery order and repetition, provided
  no node wrote two different values to one field at one instant.\<close>

theorem lww_map_converges:
  assumes "lww_map_from W s" "\<forall>x \<in> set xs. lww_map_from W x" "set xs = set ys"
  shows "map_of (foldl mergeLWWMap s xs) = map_of (foldl mergeLWWMap s ys)"
  using assms by (intro lww_map.converge [of W]) auto

lemma lww_map_converges_witness:
  "map_of (foldl mergeLWWMap [] [lwwMapSet 5 [] ''name'' (1::int) ''a'' [], lwwMapSet 5 [] ''name'' 2 ''b'' []]) =
   map_of (foldl mergeLWWMap [] [lwwMapSet 5 [] ''name'' 2 ''b'' [], lwwMapSet 5 [] ''name'' 1 ''a'' []])"
  by (rule lww_map_converges [where W = "\<lambda>k t n. Some (if n = ''a'' then 1 else 2, [])"])
    (auto simp: lww_map_from_def reg_from_def lwwMapSet_def obj_ok_def obj_keys_def)

end
