(* ===== verification/CrdtSync.thy ===== *)
theory CrdtSync
  imports Crdt
begin

text \<open>
  The server-side merge service \<^verbatim>\<open>backend/sync/crdtMergeService.ts\<close>: applying operation batches
  and client snapshots to the in-memory entity store. The store is passed explicitly; conflicts
  are the list the code pushes to. The clock string \<open>new Date().toISOString()\<close> is an argument.
\<close>

section \<open>Payloads\<close>

text \<open>
  A payload is \<open>unknown\<close>. Objects are values with an identity, as \<open>!==\<close> compares them by
  reference; two parsed objects are never the same one. (A payload that is an array is not
  modelled: its \<open>String\<close> is the joined elements.)
\<close>

datatype jsval = JUndefined | JNull | JBool bool | JNum int | JStr string | JObj nat

fun js_String :: "jsval \<Rightarrow> string" where
  "js_String JUndefined = ''undefined''"
| "js_String JNull = ''null''"
| "js_String (JBool b) = (if b then ''true'' else ''false'')"
| "js_String (JNum n) = show_int n"
| "js_String (JStr s) = s"
| "js_String (JObj _) = ''[object Object]''"

text \<open>\<open>typeof op.payload === 'number' ? op.payload : 1\<close>\<close>

fun payload_amount :: "jsval \<Rightarrow> int" where
  "payload_amount (JNum n) = n"
| "payload_amount _ = 1"

datatype CRDTOpType = LwwSet | OrsetAdd | OrsetRemove | PncounterIncrement | PncounterDecrement

record CRDTOperation =
  op_id :: string
  op_entityId :: string
  op_field :: string
  op_type :: CRDTOpType
  op_payload :: jsval
  op_tag :: "string option"
  op_nodeId :: string
  op_timestamp :: int
  op_clock :: VectorClock

record EntityCRDTState =
  es_entityId :: string
  es_lwwFields :: "jsval LWWMap"
  es_orSets :: "ORSet obj"
  es_counters :: "PNCounter obj"
  es_clock :: VectorClock
  es_lastSyncedAt :: "string option"

record CRDTConflict =
  cf_entityId :: string
  cf_field :: string
  cf_localValue :: jsval
  cf_remoteValue :: jsval
  cf_localTimestamp :: int
  cf_remoteTimestamp :: int
  cf_resolvedValue :: jsval
  cf_resolvedBy :: string

record CRDTSyncRequest =
  rq_nodeId :: "string option"
  rq_operations :: "CRDTOperation list option"
  rq_entityStates :: "EntityCRDTState list option"

record CRDTSyncResponse =
  rs_remoteOperations :: "CRDTOperation list"
  rs_mergedStates :: "EntityCRDTState list"
  rs_conflicts :: "CRDTConflict list"
  rs_syncedAt :: string

section \<open>The entity store\<close>

type_synonym entityStore = "EntityCRDTState obj"

definition empty_entity :: "string \<Rightarrow> EntityCRDTState" where
  "empty_entity entityId = \<lparr>es_entityId = entityId, es_lwwFields = [], es_orSets = [],
     es_counters = [], es_clock = [], es_lastSyncedAt = None\<rparr>"

definition getOrCreateEntity :: "entityStore \<Rightarrow> string \<Rightarrow> EntityCRDTState \<times> entityStore" where
  "getOrCreateEntity store entityId =
     (case map_of store entityId of
        Some e \<Rightarrow> (e, store)
      | None \<Rightarrow> (empty_entity entityId, AList.update entityId (empty_entity entityId) store))"

definition empty_orset :: ORSet where
  "empty_orset = \<lparr>added = [], removed = []\<rparr>"

definition empty_counter :: PNCounter where
  "empty_counter = \<lparr>positive = [], negative = []\<rparr>"

section \<open>Applying one operation\<close>

definition mk_conflict :: "string \<Rightarrow> string \<Rightarrow> jsval LWWRegister \<Rightarrow> jsval LWWRegister \<Rightarrow> CRDTConflict" where
  "mk_conflict entityId field local remote =
     \<lparr>cf_entityId = entityId, cf_field = field, cf_localValue = reg_value local,
      cf_remoteValue = reg_value remote, cf_localTimestamp = reg_timestamp local,
      cf_remoteTimestamp = reg_timestamp remote,
      cf_resolvedValue = reg_value (mergeLWWRegister local remote), cf_resolvedBy = ''lww''\<rparr>"

definition op_register :: "CRDTOperation \<Rightarrow> jsval LWWRegister" where
  "op_register op = \<lparr>reg_value = op_payload op, reg_timestamp = op_timestamp op,
     reg_nodeId = op_nodeId op, reg_clock = op_clock op\<rparr>"

text \<open>\<open>op.tag ?? `${op.nodeId}-${op.timestamp}`\<close>\<close>

definition op_tag_or_default :: "CRDTOperation \<Rightarrow> string" where
  "op_tag_or_default op =
     (case op_tag op of Some t \<Rightarrow> t | None \<Rightarrow> op_nodeId op @ ''-'' @ show_int (op_timestamp op))"

definition applyOperation :: "EntityCRDTState \<Rightarrow> CRDTOperation \<Rightarrow> CRDTConflict list
    \<Rightarrow> EntityCRDTState \<times> CRDTConflict list" where
  "applyOperation entity op conflicts = (case op_type op of
     LwwSet \<Rightarrow>
       (let incoming = op_register op in
        case map_of (es_lwwFields entity) (op_field op) of
          Some existing \<Rightarrow>
            (let relation = compareClocks (reg_clock existing) (reg_clock incoming);
                 merged = mergeLWWRegister existing incoming;
                 conflicts' = (if relation = Concurrent \<and> reg_value existing \<noteq> reg_value incoming
                   then conflicts @ [mk_conflict (es_entityId entity) (op_field op) existing incoming]
                   else conflicts)
             in (entity\<lparr>es_lwwFields := AList.update (op_field op) merged (es_lwwFields entity)\<rparr>, conflicts'))
        | None \<Rightarrow>
            (entity\<lparr>es_lwwFields := AList.update (op_field op) incoming (es_lwwFields entity)\<rparr>, conflicts))
   | OrsetAdd \<Rightarrow>
       (let s = obj_or empty_orset (es_orSets entity) (op_field op);
            key = js_String (op_payload op);
            tag = op_tag_or_default op;
            s' = \<lparr>added = AList.update key (obj_or [] (added s) key @ [tag]) (added s), removed = removed s\<rparr>
        in (entity\<lparr>es_orSets := AList.update (op_field op) s' (es_orSets entity)\<rparr>, conflicts))
   | OrsetRemove \<Rightarrow>
       (let s = obj_or empty_orset (es_orSets entity) (op_field op);
            tagsToRemove = obj_or [] (added s) (js_String (op_payload op));
            s' = \<lparr>added = added s, removed = removed s @ tagsToRemove\<rparr>
        in (entity\<lparr>es_orSets := AList.update (op_field op) s' (es_orSets entity)\<rparr>, conflicts))
   | PncounterIncrement \<Rightarrow>
       (let counter = obj_or empty_counter (es_counters entity) (op_field op);
            amount = payload_amount (op_payload op);
            c' = counter\<lparr>positive := AList.update (op_nodeId op)
                   (obj_or 0 (positive counter) (op_nodeId op) + amount) (positive counter)\<rparr>
        in (entity\<lparr>es_counters := AList.update (op_field op) c' (es_counters entity)\<rparr>, conflicts))
   | PncounterDecrement \<Rightarrow>
       (let counter = obj_or empty_counter (es_counters entity) (op_field op);
            amount = payload_amount (op_payload op);
            c' = counter\<lparr>negative := AList.update (op_nodeId op)
                   (obj_or 0 (negative counter) (op_nodeId op) + amount) (negative counter)\<rparr>
        in (entity\<lparr>es_counters := AList.update (op_field op) c' (es_counters entity)\<rparr>, conflicts)))"

section \<open>Merging snapshots\<close>

text \<open>One turn of the loop over the client's registers: the fields so far and the conflicts.\<close>

definition merge_field :: "string \<Rightarrow> jsval LWWMap \<times> CRDTConflict list \<Rightarrow> string \<times> jsval LWWRegister
    \<Rightarrow> jsval LWWMap \<times> CRDTConflict list" where
  "merge_field entityId acc entry =
     (case (acc, entry) of ((lwwFields, conflicts), (field, remoteReg)) \<Rightarrow>
       (case map_of lwwFields field of
          Some serverReg \<Rightarrow>
            (if compareClocks (reg_clock serverReg) (reg_clock remoteReg) = Concurrent
                \<and> reg_value serverReg \<noteq> reg_value remoteReg
             then (AList.update field (mergeLWWRegister serverReg remoteReg) lwwFields,
                   conflicts @ [mk_conflict entityId field serverReg remoteReg])
             else (AList.update field (mergeLWWRegister serverReg remoteReg) lwwFields, conflicts))
        | None \<Rightarrow> (AList.update field remoteReg lwwFields, conflicts)))"

definition or_empty_orset :: "ORSet option \<Rightarrow> ORSet \<Rightarrow> ORSet" where
  "or_empty_orset local remote = mergeORSet (case local of None \<Rightarrow> empty_orset | Some s \<Rightarrow> s) remote"

definition or_empty_counter :: "PNCounter option \<Rightarrow> PNCounter \<Rightarrow> PNCounter" where
  "or_empty_counter local remote = mergePNCounter (case local of None \<Rightarrow> empty_counter | Some c \<Rightarrow> c) remote"

definition mergeEntityStates :: "EntityCRDTState \<Rightarrow> EntityCRDTState \<Rightarrow> CRDTConflict list
    \<Rightarrow> EntityCRDTState \<times> CRDTConflict list" where
  "mergeEntityStates server client conflicts =
     (let (lwwFields, conflicts') =
            foldl (merge_field (es_entityId server)) (es_lwwFields server, conflicts) (es_lwwFields client);
          orSets = obj_merge or_empty_orset (es_orSets server) (es_orSets client);
          counters = obj_merge or_empty_counter (es_counters server) (es_counters client);
          clock = mergeClocks (es_clock server) (es_clock client)
      in (\<lparr>es_entityId = es_entityId server, es_lwwFields = lwwFields, es_orSets = orSets,
           es_counters = counters, es_clock = clock, es_lastSyncedAt = None\<rparr>, conflicts'))"

section \<open>A sync request\<close>

datatype sync_error = InvalidSyncRequest | NotIterable

definition sync_op :: "entityStore \<times> CRDTConflict list \<Rightarrow> CRDTOperation \<Rightarrow> entityStore \<times> CRDTConflict list" where
  "sync_op acc op =
     (case acc of (store, conflicts) \<Rightarrow>
       (let (serverEntity, store1) = getOrCreateEntity store (op_entityId op);
            (updated, conflicts1) = applyOperation serverEntity op conflicts;
            updated' = updated\<lparr>es_clock := mergeClocks (es_clock updated) (op_clock op)\<rparr>
        in (AList.update (op_entityId op) updated' store1, conflicts1)))"

definition sync_state :: "entityStore \<times> CRDTConflict list \<times> EntityCRDTState list \<Rightarrow> EntityCRDTState
    \<Rightarrow> entityStore \<times> CRDTConflict list \<times> EntityCRDTState list" where
  "sync_state acc clientState =
     (case acc of (store, conflicts, mergedStates) \<Rightarrow>
       (let (serverEntity, store1) = getOrCreateEntity store (es_entityId clientState);
            (merged, conflicts1) = mergeEntityStates serverEntity clientState conflicts
        in (AList.update (es_entityId clientState) merged store1, conflicts1, mergedStates @ [merged])))"

text \<open>
  The merged states are the very objects of the store, so stamping them with the sync time
  stamps the store's entries for the snapshots' ids.
\<close>

definition stamp :: "string \<Rightarrow> EntityCRDTState \<Rightarrow> EntityCRDTState" where
  "stamp syncedAt s = s\<lparr>es_lastSyncedAt := Some syncedAt\<rparr>"

definition stamp_store :: "string \<Rightarrow> string set \<Rightarrow> entityStore \<Rightarrow> entityStore" where
  "stamp_store syncedAt ids store = map (\<lambda>(k, e). (k, if k \<in> ids then stamp syncedAt e else e)) store"

definition processSyncRequest :: "string \<Rightarrow> entityStore \<Rightarrow> CRDTSyncRequest
    \<Rightarrow> (sync_error + CRDTSyncResponse) \<times> entityStore" where
  "processSyncRequest syncedAt store rq =
     (case rq_operations rq of
        None \<Rightarrow> (Inl NotIterable, store)
      | Some ops \<Rightarrow>
          (let (store1, conflicts1) = foldl sync_op (store, []) (sort_key op_timestamp ops)
           in case rq_entityStates rq of
                None \<Rightarrow> (Inl NotIterable, store1)
              | Some states \<Rightarrow>
                  (let (store2, conflicts2, mergedStates) = foldl sync_state (store1, conflicts1, []) states
                   in (Inr \<lparr>rs_remoteOperations = [], rs_mergedStates = map (stamp syncedAt) mergedStates,
                            rs_conflicts = conflicts2, rs_syncedAt = syncedAt\<rparr>,
                       stamp_store syncedAt (set (map es_entityId states)) store2))))"

definition handleSyncRequest :: "string \<Rightarrow> entityStore \<Rightarrow> CRDTSyncRequest
    \<Rightarrow> (sync_error + CRDTSyncResponse) \<times> entityStore" where
  "handleSyncRequest syncedAt store rq =
     (if rq_nodeId rq \<in> {None, Some ''''} \<or> rq_operations rq = None
      then (Inl InvalidSyncRequest, store)
      else processSyncRequest syncedAt store rq)"

section \<open>Convergence of entity states\<close>

definition merge_entity :: "EntityCRDTState \<Rightarrow> EntityCRDTState \<Rightarrow> EntityCRDTState" where
  "merge_entity server client = fst (mergeEntityStates server client [])"

text \<open>The loop over the registers is the map merge, whatever conflicts it reports.\<close>

lemma merge_field_fst: "fst (merge_field i (m, cs) (f, r)) = AList.update f (merge_reg_option (map_of m f) r) m"
  by (simp add: merge_field_def merge_reg_option_def split: option.split)

lemma fold_merge_field_fst: "fst (foldl (merge_field i) (m, cs) rs) = mergeLWWMap m rs"
proof (induction rs arbitrary: m cs)
  case Nil
  then show ?case by (simp add: mergeLWWMap_def)
next
  case (Cons p rs)
  obtain f r where p: "p = (f, r)" by (cases p)
  obtain m' cs' where step: "merge_field i (m, cs) (f, r) = (m', cs')"
    by (cases "merge_field i (m, cs) (f, r)")
  then have "m' = AList.update f (merge_reg_option (map_of m f) r) m"
    using merge_field_fst [of i m cs f r] by simp
  then show ?case by (simp add: step Cons.IH p mergeLWWMap_def obj_merge_Cons)
qed

lemma merge_entity_simps [simp]:
  "es_entityId (merge_entity a b) = es_entityId a"
  "es_lwwFields (merge_entity a b) = mergeLWWMap (es_lwwFields a) (es_lwwFields b)"
  "es_orSets (merge_entity a b) = obj_merge or_empty_orset (es_orSets a) (es_orSets b)"
  "es_counters (merge_entity a b) = obj_merge or_empty_counter (es_counters a) (es_counters b)"
  "es_clock (merge_entity a b) = mergeClocks (es_clock a) (es_clock b)"
  using fold_merge_field_fst [of "es_entityId a" "es_lwwFields a" "[]" "es_lwwFields b"]
  by (simp_all add: merge_entity_def mergeEntityStates_def Let_def case_prod_unfold)

lemma mergeEntityStates_fst: "fst (mergeEntityStates a b cs) = merge_entity a b"
  using fold_merge_field_fst [of "es_entityId a" "es_lwwFields a" cs "es_lwwFields b"]
    fold_merge_field_fst [of "es_entityId a" "es_lwwFields a" "[]" "es_lwwFields b"]
  by (simp add: merge_entity_def mergeEntityStates_def Let_def case_prod_unfold)

text \<open>What is observable of an entity, and the well-formedness that every client state has.\<close>

type_synonym entity_view =
  "(string \<Rightarrow> jsval LWWRegister option) \<times> (string \<Rightarrow> (string \<Rightarrow> string set) \<times> string set)
    \<times> (string \<Rightarrow> (string \<Rightarrow> int) \<times> (string \<Rightarrow> int)) \<times> (string \<Rightarrow> int)"

definition entity_view :: "EntityCRDTState \<Rightarrow> entity_view" where
  "entity_view e =
     (map_of (es_lwwFields e),
      \<lambda>f. orset_abs (obj_or empty_orset (es_orSets e) f),
      \<lambda>f. pn_abs (obj_or empty_counter (es_counters e) f),
      obj_or 0 (es_clock e))"

definition entity_ok :: "(string \<Rightarrow> int \<Rightarrow> string \<Rightarrow> (jsval \<times> VectorClock) option) \<Rightarrow> EntityCRDTState \<Rightarrow> bool" where
  "entity_ok W e \<longleftrightarrow> lww_map_from W (es_lwwFields e)
     \<and> obj_ok (es_orSets e) \<and> (\<forall>f. orset_ok (obj_or empty_orset (es_orSets e) f))
     \<and> obj_ok (es_counters e) \<and> (\<forall>f. pn_ok (obj_or empty_counter (es_counters e) f))
     \<and> clock_ok (es_clock e)"

lemma orset_ok_empty [simp]: "orset_ok empty_orset"
  by (simp add: orset_ok_def empty_orset_def)

lemma pn_ok_empty [simp]: "pn_ok empty_counter"
  by (simp add: pn_ok_def empty_counter_def)

lemma orset_abs_empty [simp]: "orset_abs empty_orset = (\<lambda>_. {}, {})"
  by (rule prod_eqI) (auto simp: orset_abs_def empty_orset_def tags_of_def)

lemma pn_abs_empty [simp]: "pn_abs empty_counter = (\<lambda>_. 0, \<lambda>_. 0)"
  by (simp add: pn_abs_def empty_counter_def fun_eq_iff)

lemma join_tags_empty [simp]: "join_tags x (\<lambda>_. {}, {}) = x"
  by (simp add: join_tags_def)

lemma join_max_empty:
  "pn_ok c \<Longrightarrow> join_max (pn_abs c) (\<lambda>_. 0, \<lambda>_. 0) = pn_abs c"
  by (simp add: join_max_def pn_abs_def pn_ok_def obj_or_nonneg max.absorb1)

lemma orset_fields_merge:
  assumes "obj_ok (es_orSets b)"
  shows "obj_or empty_orset (obj_merge or_empty_orset (es_orSets a) (es_orSets b)) f =
     (case map_of (es_orSets b) f of None \<Rightarrow> obj_or empty_orset (es_orSets a) f
      | Some s \<Rightarrow> mergeORSet (obj_or empty_orset (es_orSets a) f) s)"
  using assms by (simp add: obj_or_def map_of_obj_merge or_empty_orset_def split: option.split)

lemma counter_fields_merge:
  assumes "obj_ok (es_counters b)"
  shows "obj_or empty_counter (obj_merge or_empty_counter (es_counters a) (es_counters b)) f =
     (case map_of (es_counters b) f of None \<Rightarrow> obj_or empty_counter (es_counters a) f
      | Some c \<Rightarrow> mergePNCounter (obj_or empty_counter (es_counters a) f) c)"
  using assms by (simp add: obj_or_def map_of_obj_merge or_empty_counter_def split: option.split)

lemma obj_or_Some: "map_of m k = Some v \<Longrightarrow> obj_or d m k = v"
  by (simp add: obj_or_def)

lemma obj_or_None: "map_of m k = None \<Longrightarrow> obj_or d m k = d"
  by (simp add: obj_or_def)

lemma entity_ok_fields:
  assumes "entity_ok W e"
  shows "lww_map_from W (es_lwwFields e)" "obj_ok (es_orSets e)" "obj_ok (es_counters e)" "clock_ok (es_clock e)"
    "orset_ok (obj_or empty_orset (es_orSets e) f)" "pn_ok (obj_or empty_counter (es_counters e) f)"
  using assms by (auto simp: entity_ok_def)

lemma entity_ok_merge:
  assumes "entity_ok W a" "entity_ok W b"
  shows "entity_ok W (merge_entity a b)"
proof -
  note a = entity_ok_fields [OF assms(1)] and b = entity_ok_fields [OF assms(2)]
  have "orset_ok (obj_or empty_orset (es_orSets (merge_entity a b)) f)" for f
    using a(5) [of f] b(5) [of f]
    by (cases "map_of (es_orSets b) f") (simp_all add: orset_fields_merge [OF b(2)] obj_or_Some)
  moreover have "pn_ok (obj_or empty_counter (es_counters (merge_entity a b)) f)" for f
    using a(6) [of f] b(6) [of f] pn.abs_inv
    by (cases "map_of (es_counters b) f") (simp_all add: counter_fields_merge [OF b(3)] obj_or_Some)
  ultimately show ?thesis
    using a b by (simp add: entity_ok_def lww_map_from_merge clocks.abs_inv obj_ok_merge)
qed

definition join_view :: "entity_view \<Rightarrow> entity_view \<Rightarrow> entity_view" where
  "join_view x y =
     (join_regs (fst x) (fst y),
      \<lambda>f. join_tags (fst (snd x) f) (fst (snd y) f),
      \<lambda>f. join_max (fst (snd (snd x)) f) (fst (snd (snd y)) f),
      \<lambda>n. max (snd (snd (snd x)) n) (snd (snd (snd y)) n))"

text \<open>Well-formedness alone, without the condition on writes.\<close>

definition entity_wf :: "EntityCRDTState \<Rightarrow> bool" where
  "entity_wf e \<longleftrightarrow> obj_ok (es_lwwFields e) \<and> obj_ok (es_orSets e) \<and> (\<forall>f. orset_ok (obj_or empty_orset (es_orSets e) f))
     \<and> obj_ok (es_counters e) \<and> (\<forall>f. pn_ok (obj_or empty_counter (es_counters e) f)) \<and> clock_ok (es_clock e)"

lemma entity_ok_wf: "entity_ok W e \<Longrightarrow> entity_wf e"
  by (simp add: entity_ok_def entity_wf_def lww_map_from_def)

lemma entity_wfD:
  assumes "entity_wf e"
  shows "obj_ok (es_lwwFields e)" "obj_ok (es_orSets e)" "orset_ok (obj_or empty_orset (es_orSets e) f)"
    "obj_ok (es_counters e)" "pn_ok (obj_or empty_counter (es_counters e) f)" "clock_ok (es_clock e)"
  using assms by (simp_all add: entity_wf_def)

lemma entity_wf_merge:
  assumes "entity_wf a" "entity_wf b"
  shows "entity_wf (merge_entity a b)"
proof -
  note a = entity_wfD [OF assms(1)] and b = entity_wfD [OF assms(2)]
  have "orset_ok (obj_or empty_orset (es_orSets (merge_entity a b)) f)" for f
    using a(3) [of f] b(3) [of f]
    by (cases "map_of (es_orSets b) f") (simp_all add: orset_fields_merge [OF b(2)] obj_or_Some)
  moreover have "pn_ok (obj_or empty_counter (es_counters (merge_entity a b)) f)" for f
    using a(5) [of f] b(5) [of f] pn.abs_inv
    by (cases "map_of (es_counters b) f") (simp_all add: counter_fields_merge [OF b(4)] obj_or_Some)
  ultimately show ?thesis
    using a b by (simp add: entity_wf_def mergeLWWMap_def clocks.abs_inv obj_ok_merge)
qed

lemma entity_view_merge_wf:
  assumes "entity_wf a" "entity_wf b"
  shows "entity_view (merge_entity a b) = join_view (entity_view a) (entity_view b)"
proof -
  note a = entity_wfD [OF assms(1)] and b = entity_wfD [OF assms(2)]
  have "orset_abs (obj_or empty_orset (es_orSets (merge_entity a b)) f) =
      join_tags (orset_abs (obj_or empty_orset (es_orSets a) f)) (orset_abs (obj_or empty_orset (es_orSets b) f))" for f
    using a(3) [of f] b(3) [of f] orset.abs_merge
    by (cases "map_of (es_orSets b) f") (simp_all add: orset_fields_merge [OF b(2)] obj_or_Some obj_or_None)
  moreover have "pn_abs (obj_or empty_counter (es_counters (merge_entity a b)) f) =
      join_max (pn_abs (obj_or empty_counter (es_counters a) f)) (pn_abs (obj_or empty_counter (es_counters b) f))" for f
    using a(5) [of f] b(5) [of f] pn.abs_merge
    by (cases "map_of (es_counters b) f")
      (simp_all add: counter_fields_merge [OF b(4)] obj_or_Some obj_or_None join_max_empty)
  ultimately show ?thesis
    using a b by (simp add: entity_view_def join_view_def map_of_mergeLWWMap clocks.abs_merge)
qed

lemma entity_view_merge: "entity_ok W a \<Longrightarrow> entity_ok W b \<Longrightarrow> entity_view (merge_entity a b) = join_view (entity_view a) (entity_view b)"
  by (intro entity_view_merge_wf entity_ok_wf)

interpretation entity: abs_crdt merge_entity "entity_ok W" entity_view join_view
    "\<lambda>v. \<forall>k r. fst v k = Some r \<longrightarrow> reg_from (W k) r"
  for W :: "string \<Rightarrow> int \<Rightarrow> string \<Rightarrow> (jsval \<times> VectorClock) option"
proof
  fix a b
  assume ab: "entity_ok W a" "entity_ok W b"
  show "entity_ok W (merge_entity a b)" using ab by (rule entity_ok_merge)
  show "entity_view (merge_entity a b) = join_view (entity_view a) (entity_view b)"
    using ab by (rule entity_view_merge)
  show "\<forall>k r. fst (entity_view a) k = Some r \<longrightarrow> reg_from (W k) r"
    using ab by (simp add: entity_view_def entity_ok_def lww_map_from_def)
next
  fix x y z :: entity_view
  assume x: "\<forall>k r. fst x k = Some r \<longrightarrow> reg_from (W k) r" and y: "\<forall>k r. fst y k = Some r \<longrightarrow> reg_from (W k) r"
  show "join_view x y = join_view y x"
    using lww_map.join_comm [OF x y] by (simp add: join_view_def orset.join_comm pn.join_comm max.commute)
  show "join_view x x = x"
    using lww_map.join_idem [OF x] by (simp add: join_view_def orset.join_idem pn.join_idem)
  assume z: "\<forall>k r. fst z k = Some r \<longrightarrow> reg_from (W k) r"
  show "join_view (join_view x y) z = join_view x (join_view y z)"
    using lww_map.join_assoc [OF x y z]
    by (simp add: join_view_def orset.join_assoc pn.join_assoc max.assoc)
qed

section \<open>What a sync request leaves in the store\<close>

text \<open>The store's entries are filed under their own ids and carry well-formed clocks.\<close>

definition store_ok :: "entityStore \<Rightarrow> bool" where
  "store_ok store \<longleftrightarrow> obj_ok store \<and>
     (\<forall>k e. map_of store k = Some e \<longrightarrow> es_entityId e = k \<and> clock_ok (es_clock e))"

definition clock_in :: "entityStore \<Rightarrow> string \<Rightarrow> VectorClock" where
  "clock_in store k = (case map_of store k of None \<Rightarrow> [] | Some e \<Rightarrow> es_clock e)"

definition store_le :: "entityStore \<Rightarrow> entityStore \<Rightarrow> bool" where
  "store_le s t \<longleftrightarrow> (\<forall>k. clock_le (clock_in s k) (clock_in t k))"

lemma clock_le_refl [simp]: "clock_le c c"
  by (simp add: clock_le_def)

lemma clock_le_trans: "clock_le a b \<Longrightarrow> clock_le b c \<Longrightarrow> clock_le a c"
  unfolding clock_le_def by (meson order_trans)

lemma store_le_refl [simp]: "store_le s s"
  by (simp add: store_le_def)

lemma store_le_trans: "store_le a b \<Longrightarrow> store_le b c \<Longrightarrow> store_le a c"
  unfolding store_le_def by (meson clock_le_trans)

lemma store_le_update:
  assumes "clock_le (clock_in s k) (es_clock e)"
  shows "store_le s (AList.update k e s)"
  using assms by (simp add: store_le_def clock_in_def)

lemma store_ok_update:
  assumes "store_ok s" "es_entityId e = k" "clock_ok (es_clock e)"
  shows "store_ok (AList.update k e s)"
  using assms by (auto simp: store_ok_def)

lemma clock_in_ok: "store_ok s \<Longrightarrow> clock_ok (clock_in s k)"
  by (auto simp: clock_in_def store_ok_def split: option.split)

lemma getOrCreateEntity_spec:
  assumes "store_ok s" "getOrCreateEntity s k = (e, s')"
  shows "store_ok s' \<and> store_le s s' \<and> es_entityId e = k \<and> es_clock e = clock_in s k
    \<and> map_of s' k = Some e \<and> clock_in s' k = clock_in s k"
proof (cases "map_of s k")
  case None
  then have "e = empty_entity k" "s' = AList.update k (empty_entity k) s"
    using assms(2) by (auto simp: getOrCreateEntity_def)
  then show ?thesis
    using assms(1) None store_ok_update [OF assms(1), of "empty_entity k" k]
    by (simp add: store_le_def clock_in_def empty_entity_def)
next
  case (Some e')
  then show ?thesis using assms by (auto simp: getOrCreateEntity_def clock_in_def store_ok_def)
qed

lemma applyOperation_frame:
  "es_entityId (fst (applyOperation e op cs)) = es_entityId e \<and>
   es_clock (fst (applyOperation e op cs)) = es_clock e"
  by (simp add: applyOperation_def Let_def split: CRDTOpType.split option.split)

lemma sync_op_spec:
  assumes ok: "store_ok s" and cl: "clock_ok (op_clock op)" and step: "sync_op (s, cs) op = (s', cs')"
  shows "store_ok s' \<and> store_le s s' \<and> clock_le (op_clock op) (clock_in s' (op_entityId op))"
proof -
  obtain e s1 where g: "getOrCreateEntity s (op_entityId op) = (e, s1)"
    by (cases "getOrCreateEntity s (op_entityId op)")
  note spec = getOrCreateEntity_spec [OF ok g]
  let ?u = "fst (applyOperation e op cs)\<lparr>es_clock := mergeClocks (es_clock e) (op_clock op)\<rparr>"
  have s': "s' = AList.update (op_entityId op) ?u s1"
    using step g applyOperation_frame [of e op cs]
    by (simp add: sync_op_def Let_def case_prod_unfold)
  have "clock_ok (es_clock e)" using spec clock_in_ok [OF ok] by simp
  then have "clock_ok (es_clock ?u)" "clock_le (es_clock e) (es_clock ?u)" "clock_le (op_clock op) (es_clock ?u)"
    using cl by (simp_all add: clocks.abs_inv clock_le_merge_upper)
  moreover have "store_ok s'" unfolding s'
    using spec calculation applyOperation_frame [of e op cs] by (intro store_ok_update) auto
  moreover have "store_le s1 s'" unfolding s'
    using spec calculation by (intro store_le_update) simp
  moreover have "clock_in s' (op_entityId op) = es_clock ?u" by (simp add: s' clock_in_def)
  ultimately show ?thesis using spec by (metis store_le_trans)
qed

lemma fold_sync_op_spec:
  assumes "store_ok s" "\<forall>op \<in> set ops. clock_ok (op_clock op)" "foldl sync_op (s, cs) ops = (s', cs')"
  shows "store_ok s' \<and> store_le s s' \<and> (\<forall>op \<in> set ops. clock_le (op_clock op) (clock_in s' (op_entityId op)))"
  using assms
proof (induction ops arbitrary: s cs)
  case Nil
  then show ?case by simp
next
  case (Cons op ops)
  obtain s1 cs1 where step: "sync_op (s, cs) op = (s1, cs1)" by (cases "sync_op (s, cs) op")
  with Cons.prems have one: "store_ok s1" "store_le s s1" "clock_le (op_clock op) (clock_in s1 (op_entityId op))"
    using sync_op_spec [of s op cs s1 cs1] by auto
  with Cons step have rest: "store_ok s'" "store_le s1 s'"
      "\<forall>op \<in> set ops. clock_le (op_clock op) (clock_in s' (op_entityId op))"
    by auto
  have "clock_le (op_clock op) (clock_in s' (op_entityId op))"
    using one(3) rest(2) by (meson store_le_def clock_le_trans)
  with one rest show ?case by (auto intro: store_le_trans)
qed

lemma sync_state_spec:
  assumes ok: "store_ok s" and cl: "clock_ok (es_clock c)"
    and step: "sync_state (s, cs, ms) c = (s', cs', ms')"
  shows "store_ok s' \<and> store_le s s' \<and> clock_le (es_clock c) (clock_in s' (es_entityId c)) \<and>
    (\<exists>m. ms' = ms @ [m] \<and> es_entityId m = es_entityId c)"
proof -
  obtain e s1 where g: "getOrCreateEntity s (es_entityId c) = (e, s1)"
    by (cases "getOrCreateEntity s (es_entityId c)")
  note spec = getOrCreateEntity_spec [OF ok g]
  let ?m = "merge_entity e c"
  have s': "s' = AList.update (es_entityId c) ?m s1" and ms': "ms' = ms @ [?m]"
    using step g mergeEntityStates_fst [of e c cs]
    by (auto simp add: sync_state_def Let_def split: prod.splits)
  have "clock_ok (es_clock e)" using spec clock_in_ok [OF ok] by simp
  then have "clock_ok (es_clock ?m)" "clock_le (es_clock e) (es_clock ?m)" "clock_le (es_clock c) (es_clock ?m)"
    using cl by (simp_all add: clocks.abs_inv clock_le_merge_upper)
  moreover have "store_ok s'" unfolding s' using spec calculation by (intro store_ok_update) auto
  moreover have "store_le s1 s'" unfolding s' using spec calculation by (intro store_le_update) simp
  moreover have "clock_in s' (es_entityId c) = es_clock ?m" by (simp add: s' clock_in_def)
  moreover have "es_entityId ?m = es_entityId c" using spec by simp
  ultimately show ?thesis using spec ms' by (metis store_le_trans)
qed

lemma fold_sync_state_spec:
  assumes "store_ok s" "\<forall>c \<in> set sts. clock_ok (es_clock c)" "foldl sync_state (s, cs, ms) sts = (s', cs', ms')"
  shows "store_ok s' \<and> store_le s s' \<and> (\<forall>c \<in> set sts. clock_le (es_clock c) (clock_in s' (es_entityId c)))
    \<and> map es_entityId ms' = map es_entityId ms @ map es_entityId sts"
  using assms
proof (induction sts arbitrary: s cs ms)
  case Nil
  then show ?case by simp
next
  case (Cons c sts)
  obtain s1 cs1 ms1 where step: "sync_state (s, cs, ms) c = (s1, cs1, ms1)"
    by (cases "sync_state (s, cs, ms) c")
  with Cons.prems have one: "store_ok s1" "store_le s s1" "clock_le (es_clock c) (clock_in s1 (es_entityId c))"
      "map es_entityId ms1 = map es_entityId ms @ [es_entityId c]"
    using sync_state_spec [of s c cs ms s1 cs1 ms1] by auto
  with Cons step have rest: "store_ok s'" "store_le s1 s'"
      "\<forall>c \<in> set sts. clock_le (es_clock c) (clock_in s' (es_entityId c))"
      "map es_entityId ms' = map es_entityId ms1 @ map es_entityId sts"
    by auto
  have "clock_le (es_clock c) (clock_in s' (es_entityId c))"
    using one(3) rest(2) by (meson store_le_def clock_le_trans)
  with one rest show ?case by (auto intro: store_le_trans)
qed

section \<open>Properties\<close>

lemma stamp_store_simps:
  "obj_keys (stamp_store now ids s) = obj_keys s"
  "clock_in (stamp_store now ids s) k = clock_in s k"
  "map_of (stamp_store now ids s) k = map_option (\<lambda>e. if k \<in> ids then stamp now e else e) (map_of s k)"
proof -
  show lookup: "map_of (stamp_store now ids s) k = map_option (\<lambda>e. if k \<in> ids then stamp now e else e) (map_of s k)"
    by (induction s) (auto simp: stamp_store_def)
  show "obj_keys (stamp_store now ids s) = obj_keys s"
    by (induction s) (auto simp: stamp_store_def obj_keys_def)
  show "clock_in (stamp_store now ids s) k = clock_in s k"
    by (simp add: clock_in_def lookup stamp_def split: option.split)
qed

lemma store_ok_stamp: "store_ok s \<Longrightarrow> store_ok (stamp_store now ids s)"
  by (auto simp: store_ok_def stamp_store_simps obj_ok_def stamp_def)

text \<open>The clocks: no entity's clock goes down, and every operation and snapshot is covered by the clock of its entity.\<close>

lemma sync_covers_clocks:
  assumes "store_ok store" "\<forall>op \<in> set ops. clock_ok (op_clock op)" "\<forall>c \<in> set sts. clock_ok (es_clock c)"
    and "rq_operations rq = Some ops" "rq_entityStates rq = Some sts"
    and "processSyncRequest syncedAt store rq = (res, store')"
  shows "store_ok store' \<and> store_le store store' \<and>
    (\<forall>op \<in> set ops. clock_le (op_clock op) (clock_in store' (op_entityId op))) \<and>
    (\<forall>c \<in> set sts. clock_le (es_clock c) (clock_in store' (es_entityId c))) \<and>
    (\<exists>r. res = Inr r \<and> map es_entityId (rs_mergedStates r) = map es_entityId sts \<and>
         (\<forall>m \<in> set (rs_mergedStates r). es_lastSyncedAt m = Some syncedAt))"
proof -
  obtain s1 cs1 where f1: "foldl sync_op (store, []) (sort_key op_timestamp ops) = (s1, cs1)"
    by (cases "foldl sync_op (store, []) (sort_key op_timestamp ops)")
  obtain s2 cs2 ms where f2: "foldl sync_state (s1, cs1, []) sts = (s2, cs2, ms)"
    by (cases "foldl sync_state (s1, cs1, []) sts")
  have one: "store_ok s1" "store_le store s1" "\<forall>op \<in> set ops. clock_le (op_clock op) (clock_in s1 (op_entityId op))"
    using fold_sync_op_spec [OF assms(1) _ f1] assms(2) by auto
  have two: "store_ok s2" "store_le s1 s2" "\<forall>c \<in> set sts. clock_le (es_clock c) (clock_in s2 (es_entityId c))"
      "map es_entityId ms = map es_entityId sts"
    using fold_sync_state_spec [OF one(1) assms(3) f2] by auto
  have res: "store' = stamp_store syncedAt (set (map es_entityId sts)) s2"
      "res = Inr \<lparr>rs_remoteOperations = [], rs_mergedStates = map (stamp syncedAt) ms,
                  rs_conflicts = cs2, rs_syncedAt = syncedAt\<rparr>"
    using assms(4-6) f1 f2 by (simp_all add: processSyncRequest_def)
  have "\<forall>op \<in> set ops. clock_le (op_clock op) (clock_in s2 (op_entityId op))"
    using one(3) two(2) by (meson store_le_def clock_le_trans)
  moreover have "store_le store s2" using one(2) two(2) by (rule store_le_trans)
  moreover have "map es_entityId (map (stamp syncedAt) ms) = map es_entityId sts"
    using two(4) by (simp add: stamp_def comp_def)
  ultimately show ?thesis using two(1,3) res
    by (auto simp: stamp_store_simps store_le_def store_ok_stamp stamp_def)
qed

section \<open>A sync request as a fold over observable states\<close>

text \<open>The specification of an operation on what is observable of an entity: a write sets its register unless a later one is
  there, an add puts its tag under its key, a remove buries the tags its key has, a counter moves by the amount at its node,
  and the clock takes in the clock of the operation.\<close>

definition newest :: "jsval LWWRegister option \<Rightarrow> jsval LWWRegister \<Rightarrow> jsval LWWRegister" where
  "newest old new = (case old of None \<Rightarrow> new | Some r \<Rightarrow> if reg_stamp r < reg_stamp new then new else r)"

definition write_view :: "entity_view \<Rightarrow> CRDTOperation \<Rightarrow> entity_view" where
  "write_view v op =
     (case v of (regs, sets, counters, clock) \<Rightarrow>
        let f = op_field op; key = js_String (op_payload op); n = op_nodeId op; amount = payload_amount (op_payload op);
            (tags, gone) = sets f; (up, down) = counters f; seen = (\<lambda>m. max (clock m) (obj_or 0 (op_clock op) m))
        in case op_type op of
             LwwSet \<Rightarrow> (regs(f \<mapsto> newest (regs f) (op_register op)), sets, counters, seen)
           | OrsetAdd \<Rightarrow> (regs, sets(f := (tags(key := insert (op_tag_or_default op) (tags key)), gone)), counters, seen)
           | OrsetRemove \<Rightarrow> (regs, sets(f := (tags, gone \<union> tags key)), counters, seen)
           | PncounterIncrement \<Rightarrow> (regs, sets, counters(f := (up(n := up n + amount), down)), seen)
           | PncounterDecrement \<Rightarrow> (regs, sets, counters(f := (up, down(n := down n + amount))), seen))"

definition op_wf :: "CRDTOperation \<Rightarrow> bool" where
  "op_wf op \<longleftrightarrow> clock_ok (op_clock op) \<and> (op_type op \<in> {PncounterIncrement, PncounterDecrement} \<longrightarrow> 0 \<le> payload_amount (op_payload op))"

definition apply_op :: "EntityCRDTState \<Rightarrow> CRDTOperation \<Rightarrow> CRDTConflict list \<Rightarrow> EntityCRDTState" where
  "apply_op e op cs = (fst (applyOperation e op cs))\<lparr>es_clock := mergeClocks (es_clock e) (op_clock op)\<rparr>"

lemma apply_op_id: "es_entityId (apply_op e op cs) = es_entityId e"
  by (simp add: apply_op_def applyOperation_frame)

lemma apply_op_wf:
  assumes "entity_wf e" "op_wf op"
  shows "entity_wf (apply_op e op cs)"
proof -
  note e = entity_wfD [OF assms(1)]
  have c: "clock_ok (mergeClocks (es_clock e) (op_clock op))" using e(6) assms(2) by (simp add: op_wf_def clocks.abs_inv)
  have s: "orset_ok \<lparr>added = AList.update k ts (added (obj_or empty_orset (es_orSets e) f)), removed = gone\<rparr>"
    "orset_ok \<lparr>added = added (obj_or empty_orset (es_orSets e) f), removed = gone\<rparr>" for k ts f gone
    using e(3) [of f] by (simp_all add: orset_ok_def)
  have p: "clock_ok (positive (obj_or empty_counter (es_counters e) f))" "clock_ok (negative (obj_or empty_counter (es_counters e) f))" for f
    using e(5) [of f] by (simp_all add: pn_ok_def)
  have up: "0 \<le> n \<Longrightarrow> clock_ok (AList.update node (obj_or 0 m node + n) m)" if "clock_ok m" for node n m
    using that by (simp add: clock_ok_update obj_or_nonneg)
  show ?thesis
    by (cases "op_type op"; cases "map_of (es_lwwFields e) (op_field op)")
      (use e c s p up assms(2) in \<open>simp_all add: entity_wf_def apply_op_def applyOperation_def Let_def pn_ok_def op_wf_def\<close>)
qed

lemma apply_op_view:
  assumes "entity_wf e" "op_wf op"
  shows "entity_view (apply_op e op cs) = write_view (entity_view e) op"
proof -
  note e = entity_wfD [OF assms(1)]
  have clock: "obj_or 0 (mergeClocks (es_clock e) (op_clock op)) = (\<lambda>m. max (obj_or 0 (es_clock e) m) (obj_or 0 (op_clock op) m))"
    using e(6) assms(2) by (simp add: op_wf_def clocks.abs_merge)
  show ?thesis
  proof (cases "op_type op")
    case LwwSet
    then show ?thesis
      by (cases "map_of (es_lwwFields e) (op_field op)")
        (auto simp: apply_op_def applyOperation_def write_view_def entity_view_def Let_def clock newest_def mergeLWWRegister_alt split: prod.split)
  next
    case OrsetAdd
    then show ?thesis
      by (auto simp: apply_op_def applyOperation_def write_view_def entity_view_def Let_def clock orset_abs_def tags_of_def fun_eq_iff split: prod.split)
  next
    case OrsetRemove
    then show ?thesis
      by (auto simp: apply_op_def applyOperation_def write_view_def entity_view_def Let_def clock orset_abs_def tags_of_def fun_eq_iff split: prod.split)
  next
    case PncounterIncrement
    then show ?thesis
      by (auto simp: apply_op_def applyOperation_def write_view_def entity_view_def Let_def clock pn_abs_def fun_eq_iff split: prod.split)
  next
    case PncounterDecrement
    then show ?thesis
      by (auto simp: apply_op_def applyOperation_def write_view_def entity_view_def Let_def clock pn_abs_def fun_eq_iff split: prod.split)
  qed
qed
text \<open>What is observable of an entity in the store; one that is not there yet is empty.\<close>

definition view_in :: "entityStore \<Rightarrow> string \<Rightarrow> entity_view" where
  "view_in store k = entity_view (case map_of store k of None \<Rightarrow> empty_entity k | Some e \<Rightarrow> e)"

definition store_wf :: "entityStore \<Rightarrow> bool" where
  "store_wf store \<longleftrightarrow> obj_ok store \<and> (\<forall>k e. map_of store k = Some e \<longrightarrow> es_entityId e = k \<and> entity_wf e)"

lemma store_wf_ok: "store_wf s \<Longrightarrow> store_ok s"
  by (auto simp: store_wf_def store_ok_def entity_wf_def)

lemma empty_entity_wf: "entity_wf (empty_entity k)"
  by (simp add: entity_wf_def empty_entity_def)

lemma store_wf_update: "store_wf s \<Longrightarrow> es_entityId e = k \<Longrightarrow> entity_wf e \<Longrightarrow> store_wf (AList.update k e s)"
  by (auto simp: store_wf_def)

lemma view_in_update: "view_in (AList.update k e s) j = (if j = k then entity_view e else view_in s j)"
  by (simp add: view_in_def)

lemma getOrCreateEntity_view:
  assumes "store_wf s" "getOrCreateEntity s k = (e, s1)"
  shows "store_wf s1" "view_in s1 = view_in s" "es_entityId e = k" "entity_wf e" "entity_view e = view_in s k"
proof -
  have both: "store_wf s1 \<and> view_in s1 = view_in s \<and> es_entityId e = k \<and> entity_wf e \<and> entity_view e = view_in s k"
  proof (cases "map_of s k")
    case None
    have idk: "es_entityId (empty_entity k) = k" by (simp add: empty_entity_def)
    note store_wf_update [OF assms(1) idk empty_entity_wf] idk
    moreover have "e = empty_entity k" "s1 = AList.update k (empty_entity k) s" using None assms(2) by (auto simp: getOrCreateEntity_def)
    moreover have "view_in (AList.update k (empty_entity k) s) = view_in s" by (rule ext) (simp add: view_in_def None)
    ultimately show ?thesis using None by (simp add: view_in_def empty_entity_wf)
  next
    case (Some x)
    then show ?thesis using assms by (auto simp: getOrCreateEntity_def store_wf_def view_in_def)
  qed
  then show "store_wf s1" "view_in s1 = view_in s" "es_entityId e = k" "entity_wf e" "entity_view e = view_in s k" by blast+
qed

lemma sync_op_view:
  assumes "store_wf s" "op_wf op" "sync_op (s, cs) op = (s1, cs1)"
  shows "store_wf s1 \<and> view_in s1 k = (if op_entityId op = k then write_view (view_in s k) op else view_in s k)"
proof -
  obtain e s0 where g: "getOrCreateEntity s (op_entityId op) = (e, s0)" by (cases "getOrCreateEntity s (op_entityId op)")
  note v = getOrCreateEntity_view [OF assms(1) g]
  have s1: "s1 = AList.update (op_entityId op) (apply_op e op cs) s0"
    using assms(3) g applyOperation_frame [of e op cs] by (simp add: sync_op_def Let_def case_prod_unfold apply_op_def)
  have "store_wf s1" unfolding s1 by (rule store_wf_update [OF v(1)]) (simp_all add: apply_op_id v(3) apply_op_wf [OF v(4) assms(2)])
  then show ?thesis unfolding s1 view_in_update apply_op_view [OF v(4) assms(2)] using v(2,5) by auto
qed

lemma fold_sync_op_view:
  assumes "store_wf s" "\<forall>op\<in>set ops. op_wf op" "foldl sync_op (s, cs) ops = (s1, cs1)"
  shows "store_wf s1 \<and> view_in s1 k = foldl write_view (view_in s k) (filter (\<lambda>op. op_entityId op = k) ops)"
  using assms
proof (induction ops arbitrary: s cs)
  case (Cons op ops)
  obtain s0 cs0 where step: "sync_op (s, cs) op = (s0, cs0)" by (cases "sync_op (s, cs) op")
  with Cons.prems sync_op_view [of s op cs s0 cs0 k] have "store_wf s0"
    "view_in s0 k = (if op_entityId op = k then write_view (view_in s k) op else view_in s k)" by auto
  then show ?case using Cons.IH [of s0 cs0] Cons.prems step by auto
qed simp

lemma sync_state_view:
  assumes "store_wf s" "entity_wf c" "sync_state (s, cs, ms) c = (s1, cs1, ms1)"
  shows "store_wf s1 \<and> view_in s1 k = (if es_entityId c = k then join_view (view_in s k) (entity_view c) else view_in s k)
    \<and> (\<exists>m. ms1 = ms @ [m] \<and> es_entityId m = es_entityId c \<and> entity_view m = view_in s1 (es_entityId c))"
proof -
  obtain e s0 where g: "getOrCreateEntity s (es_entityId c) = (e, s0)" by (cases "getOrCreateEntity s (es_entityId c)")
  note v = getOrCreateEntity_view [OF assms(1) g]
  have s1: "s1 = AList.update (es_entityId c) (merge_entity e c) s0" and ms1: "ms1 = ms @ [merge_entity e c]"
    using assms(3) g mergeEntityStates_fst [of e c cs] by (auto simp: sync_state_def Let_def split: prod.splits)
  have wf: "store_wf s1" unfolding s1 by (rule store_wf_update [OF v(1)]) (simp_all add: v(3) entity_wf_merge [OF v(4) assms(2)])
  have view: "view_in s1 j = (if es_entityId c = j then join_view (view_in s j) (entity_view c) else view_in s j)" for j
    unfolding s1 view_in_update entity_view_merge_wf [OF v(4) assms(2)] using v(2,5) by auto
  have "view_in s1 (es_entityId c) = entity_view (merge_entity e c)" unfolding s1 view_in_update by simp
  then show ?thesis using wf view ms1 v(3) by simp
qed

text \<open>The views of an entity after the first snapshots of a request.\<close>

definition joined :: "entity_view \<Rightarrow> string \<Rightarrow> EntityCRDTState list \<Rightarrow> entity_view" where
  "joined v k sts = foldl join_view v (map entity_view (filter (\<lambda>c. es_entityId c = k) sts))"

lemma fold_sync_state_view:
  assumes "store_wf s" "\<forall>c\<in>set sts. entity_wf c" "foldl sync_state (s, cs, ms) sts = (s1, cs1, ms1)"
  shows "store_wf s1 \<and> (\<forall>k. view_in s1 k = joined (view_in s k) k sts)
    \<and> (\<exists>new. ms1 = ms @ new \<and> length new = length sts
        \<and> (\<forall>i<length sts. es_entityId (new ! i) = es_entityId (sts ! i)
            \<and> entity_view (new ! i) = joined (view_in s (es_entityId (sts ! i))) (es_entityId (sts ! i)) (take (Suc i) sts)))"
  using assms
proof (induction sts arbitrary: s cs ms)
  case Nil
  then show ?case by (simp add: joined_def)
next
  case (Cons c sts)
  obtain s0 cs0 ms0 where step: "sync_state (s, cs, ms) c = (s0, cs0, ms0)" by (cases "sync_state (s, cs, ms) c")
  have wf: "store_wf s0" and
    view: "view_in s0 k = (if es_entityId c = k then join_view (view_in s k) (entity_view c) else view_in s k)" for k
    using sync_state_view [of s c cs ms s0 cs0 ms0] Cons.prems step by auto
  obtain m where m: "ms0 = ms @ [m]" "es_entityId m = es_entityId c" "entity_view m = view_in s0 (es_entityId c)"
    using sync_state_view [of s c cs ms s0 cs0 ms0 k] Cons.prems(1,2) step by auto
  have shift: "joined (view_in s k) k (c # cs) = joined (view_in s0 k) k cs" for k cs
    by (simp add: joined_def view)
  have IH: "store_wf s1" "\<forall>k. view_in s1 k = joined (view_in s0 k) k sts"
    "\<exists>new. ms1 = ms0 @ new \<and> length new = length sts \<and> (\<forall>i<length sts. es_entityId (new ! i) = es_entityId (sts ! i)
       \<and> entity_view (new ! i) = joined (view_in s0 (es_entityId (sts ! i))) (es_entityId (sts ! i)) (take (Suc i) sts))"
    using Cons.IH [OF wf, of cs0 ms0] Cons.prems step by auto
  from IH(3) obtain new where new: "ms1 = ms0 @ new" "length new = length sts"
    "\<forall>i<length sts. es_entityId (new ! i) = es_entityId (sts ! i)
       \<and> entity_view (new ! i) = joined (view_in s0 (es_entityId (sts ! i))) (es_entityId (sts ! i)) (take (Suc i) sts)" by blast
  have first: "entity_view m = joined (view_in s (es_entityId c)) (es_entityId c) [c]" using m(3) by (simp add: joined_def view)
  have "\<forall>i<length (c # sts). es_entityId ((m # new) ! i) = es_entityId ((c # sts) ! i)
       \<and> entity_view ((m # new) ! i) = joined (view_in s (es_entityId ((c # sts) ! i))) (es_entityId ((c # sts) ! i)) (take (Suc i) (c # sts))"
  proof (intro allI impI)
    fix i assume "i < length (c # sts)"
    then show "es_entityId ((m # new) ! i) = es_entityId ((c # sts) ! i)
       \<and> entity_view ((m # new) ! i) = joined (view_in s (es_entityId ((c # sts) ! i))) (es_entityId ((c # sts) ! i)) (take (Suc i) (c # sts))"
      using m(2) first new(3) by (cases i) (simp_all add: shift)
  qed
  moreover have "ms1 = ms @ m # new" "length (m # new) = length (c # sts)" using new(1,2) m(1) by simp_all
  ultimately show ?case using IH(1,2) shift by metis
qed

lemma stamp_view: "entity_view (stamp now e) = entity_view e" "es_entityId (stamp now e) = es_entityId e"
  "es_lastSyncedAt (stamp now e) = Some now" "entity_wf (stamp now e) = entity_wf e"
  by (simp_all add: stamp_def entity_view_def entity_wf_def)

lemma stamp_store_view: "view_in (stamp_store now ids s) k = view_in s k"
  by (simp add: view_in_def stamp_store_simps stamp_view split: option.split)

lemma stamp_store_wf: "store_wf s \<Longrightarrow> store_wf (stamp_store now ids s)"
  by (auto simp: store_wf_def stamp_store_simps obj_ok_def stamp_view)

definition demo_op :: CRDTOperation where
  "demo_op = \<lparr>op_id = ''o1'', op_entityId = ''sub1'', op_field = ''seats'', op_type = PncounterIncrement,
     op_payload = JNum 2, op_tag = None, op_nodeId = ''phone'', op_timestamp = 10, op_clock = [(''phone'', 1)]\<rparr>"

definition demo_request :: CRDTSyncRequest where
  "demo_request = \<lparr>rq_nodeId = Some ''phone'', rq_operations = Some [demo_op], rq_entityStates = Some [empty_entity ''sub1'']\<rparr>"

text \<open>C7: A sync request does what its operations and snapshots say. On a well-formed store, with operations whose clocks are
  well formed and whose counter amounts are not negative, and with well-formed snapshots: each entity ends observably as it was
  with its operations applied in the order of their times (the spec of each operation is \<open>write_view\<close>) and then its snapshots
  joined in the order of the request, and no other entity changes; the i-th merged state of the response is that
  of the i-th snapshot's entity after the first i snapshots and carries the time of the sync; the store stays well formed, no
  clock goes down, and every operation and snapshot is covered by the clock of its entity.\<close>

theorem sync_covers_request:
  assumes "store_wf store" "\<forall>op\<in>set ops. op_wf op" "\<forall>c\<in>set sts. entity_wf c"
    and "rq_operations rq = Some ops" "rq_entityStates rq = Some sts"
    and "processSyncRequest syncedAt store rq = (res, store')"
  shows "let written = (\<lambda>k. foldl write_view (view_in store k) (filter (\<lambda>op. op_entityId op = k) (sort_key op_timestamp ops)))
    in store_wf store' \<and> (\<forall>k. view_in store' k = joined (written k) k sts)
      \<and> (\<exists>r. res = Inr r \<and> length (rs_mergedStates r) = length sts
          \<and> (\<forall>i<length sts. let m = rs_mergedStates r ! i; k = es_entityId (sts ! i)
               in es_entityId m = k \<and> es_lastSyncedAt m = Some syncedAt \<and> entity_view m = joined (written k) k (take (Suc i) sts)))
      \<and> store_le store store'
      \<and> (\<forall>op\<in>set ops. clock_le (op_clock op) (clock_in store' (op_entityId op)))
      \<and> (\<forall>c\<in>set sts. clock_le (es_clock c) (clock_in store' (es_entityId c)))"
proof -
  let ?written = "\<lambda>k. foldl write_view (view_in store k) (filter (\<lambda>op. op_entityId op = k) (sort_key op_timestamp ops))"
  obtain s1 cs1 where f1: "foldl sync_op (store, []) (sort_key op_timestamp ops) = (s1, cs1)"
    by (cases "foldl sync_op (store, []) (sort_key op_timestamp ops)")
  obtain s2 cs2 ms where f2: "foldl sync_state (s1, cs1, []) sts = (s2, cs2, ms)"
    by (cases "foldl sync_state (s1, cs1, []) sts")
  have one: "store_wf s1" "view_in s1 k = ?written k" for k
    using fold_sync_op_view [OF assms(1) _ f1, of k] assms(2) by auto
  have two: "store_wf s2" "\<forall>k. view_in s2 k = joined (?written k) k sts" "length ms = length sts"
    "\<forall>i<length sts. es_entityId (ms ! i) = es_entityId (sts ! i)
       \<and> entity_view (ms ! i) = joined (?written (es_entityId (sts ! i))) (es_entityId (sts ! i)) (take (Suc i) sts)"
    using fold_sync_state_view [OF one(1) assms(3) f2] unfolding one(2) by auto
  have res: "store' = stamp_store syncedAt (set (map es_entityId sts)) s2"
      "res = Inr \<lparr>rs_remoteOperations = [], rs_mergedStates = map (stamp syncedAt) ms,
                  rs_conflicts = cs2, rs_syncedAt = syncedAt\<rparr>"
    using assms(4-6) f1 f2 by (simp_all add: processSyncRequest_def)
  have clocks: "store_le store store'" "\<forall>op\<in>set ops. clock_le (op_clock op) (clock_in store' (op_entityId op))"
    "\<forall>c\<in>set sts. clock_le (es_clock c) (clock_in store' (es_entityId c))"
    using sync_covers_clocks [OF store_wf_ok [OF assms(1)] _ _ assms(4-6)] assms(2,3) by (auto simp: op_wf_def entity_wf_def)
  have merged: "\<forall>i<length sts. es_entityId (map (stamp syncedAt) ms ! i) = es_entityId (sts ! i)
      \<and> es_lastSyncedAt (map (stamp syncedAt) ms ! i) = Some syncedAt
      \<and> entity_view (map (stamp syncedAt) ms ! i) = joined (?written (es_entityId (sts ! i))) (es_entityId (sts ! i)) (take (Suc i) sts)"
    using two(3,4) by (simp add: stamp_view)
  show ?thesis unfolding Let_def res(2) CRDTSyncResponse.simps sum.inject
    using clocks merged two(1,2,3) res(1) by (simp add: stamp_store_view stamp_store_wf)
qed

lemma sync_covers_request_witness:
  "let store' = snd (processSyncRequest ''t'' [] demo_request)
   in fst (fst (snd (snd (view_in store' ''sub1''))) ''seats'') ''phone'' = 2 \<and> clock_le [(''phone'', 1)] (clock_in store' ''sub1'')"
proof -
  obtain res store' where p: "processSyncRequest ''t'' [] demo_request = (res, store')"
    by (cases "processSyncRequest ''t'' [] demo_request")
  have h: "store_wf []" "\<forall>op \<in> set [demo_op]. op_wf op" "\<forall>c \<in> set [empty_entity ''sub1'']. entity_wf c"
    "rq_operations demo_request = Some [demo_op]" "rq_entityStates demo_request = Some [empty_entity ''sub1'']"
    by (simp_all add: store_wf_def op_wf_def demo_op_def empty_entity_wf clock_ok_def obj_ok_def obj_keys_def demo_request_def)
  note t = sync_covers_request [OF h p, unfolded Let_def]
  have "view_in store' ''sub1'' = joined (foldl write_view (view_in [] ''sub1'') [demo_op]) ''sub1'' [empty_entity ''sub1'']"
    using t by (simp add: demo_op_def)
  then have "fst (fst (snd (snd (view_in store' ''sub1''))) ''seats'') ''phone'' = 2"
    by (simp add: joined_def write_view_def demo_op_def view_in_def entity_view_def empty_entity_def join_view_def join_max_def
        pn_abs_def empty_counter_def Let_def orset_abs_def split_beta)
  moreover have "clock_le [(''phone'', 1)] (clock_in store' ''sub1'')" using t by (simp add: demo_op_def)
  ultimately show ?thesis using p by simp
qed

text \<open>C1: Snapshot convergence: servers that start from the same entity state and merge the same set of
  client snapshots, in any order and with any snapshot sent again, end in states that agree on every
  register, every set membership, every counter value and the vector clock. The states are well formed
  (objects without repeated keys, counters and clocks not negative), and no node writes two different values, or one
  value with two clocks, to one field in the same millisecond: \<open>W\<close> gives the one write for each field, time and node. Without that
  the registers can stay apart, as the next theorem shows.\<close>

theorem snapshots_converge:
  assumes "entity_ok W s" "\<forall>c \<in> set xs. entity_ok W c" "set xs = set ys"
    and "a = foldl (\<lambda>e c. fst (mergeEntityStates e c [])) s xs"
    and "b = foldl (\<lambda>e c. fst (mergeEntityStates e c [])) s ys"
  shows "map_of (es_lwwFields a) f = map_of (es_lwwFields b) f \<and>
    orSetContains (obj_or empty_orset (es_orSets a) f) k = orSetContains (obj_or empty_orset (es_orSets b) f) k \<and>
    pnCounterValue (obj_or empty_counter (es_counters a) f) = pnCounterValue (obj_or empty_counter (es_counters b) f) \<and>
    compareClocks (es_clock a) (es_clock b) = Equal"
proof -
  have eq: "entity_view a = entity_view b"
    using entity.converge [OF assms(1), of xs ys] assms(2-5) by (simp add: mergeEntityStates_fst)
  have ok: "entity_ok W a" "entity_ok W b"
    using entity.fold_inv [OF assms(1), of xs] entity.fold_inv [OF assms(1), of ys] assms(2-5)
    by (simp_all add: mergeEntityStates_fst)
  have lww: "map_of (es_lwwFields a) = map_of (es_lwwFields b)"
    and sets: "orset_abs (obj_or empty_orset (es_orSets a) f) = orset_abs (obj_or empty_orset (es_orSets b) f)"
    and counters: "pn_abs (obj_or empty_counter (es_counters a) f) = pn_abs (obj_or empty_counter (es_counters b) f)"
    and clock: "obj_or 0 (es_clock a) = obj_or 0 (es_clock b)"
    using eq by (simp_all add: entity_view_def fun_eq_iff)
  have "pnCounterValue (obj_or empty_counter (es_counters a) f) = pnCounterValue (obj_or empty_counter (es_counters b) f)"
    using ok counters by (intro pn_value_abs) (auto simp: entity_ok_def)
  moreover have "compareClocks (es_clock a) (es_clock b) = Equal"
    by (simp add: compareClocks_alt clock_le_def clock)
  ultimately show ?thesis using lww sets by (simp add: contains_iff orset_abs_def)
qed

text \<open>The condition on writes is needed: of two snapshots that hold different values under one stamp each server keeps the one it
  has first.\<close>

lemma equal_stamps_diverge:
  assumes "map_of (es_lwwFields a) f = Some x" "map_of (es_lwwFields b) f = Some y" "obj_ok (es_lwwFields a)" "obj_ok (es_lwwFields b)"
    "reg_timestamp x = reg_timestamp y" "reg_nodeId x = reg_nodeId y"
  shows "map_of (es_lwwFields (foldl merge_entity (empty_entity k) [a, b])) f = Some x"
    and "map_of (es_lwwFields (foldl merge_entity (empty_entity k) [b, a])) f = Some y"
  using assms equal_stamps_keep_local [OF assms(5,6)]
  by (simp_all add: map_of_mergeLWWMap join_regs_def empty_entity_def)

definition demo_reg :: "int \<Rightarrow> string \<Rightarrow> jsval \<Rightarrow> jsval LWWRegister" where
  "demo_reg t n v = \<lparr>reg_value = v, reg_timestamp = t, reg_nodeId = n, reg_clock = [(n, 1)]\<rparr>"

definition demo_state :: "int \<Rightarrow> string \<Rightarrow> jsval \<Rightarrow> EntityCRDTState" where
  "demo_state t n v = (empty_entity ''sub1'')\<lparr>es_lwwFields := [(''name'', demo_reg t n v)], es_clock := [(n, 1)]\<rparr>"

lemma snapshots_converge_witness:
  "map_of (es_lwwFields (foldl (\<lambda>e c. fst (mergeEntityStates e c [])) (empty_entity ''sub1'')
       [demo_state 7 ''a'' (JNum 1), demo_state 7 ''b'' (JNum 2)])) ''name'' =
   map_of (es_lwwFields (foldl (\<lambda>e c. fst (mergeEntityStates e c [])) (empty_entity ''sub1'')
       [demo_state 7 ''b'' (JNum 2), demo_state 7 ''a'' (JNum 1), demo_state 7 ''b'' (JNum 2)])) ''name''"
  by (rule snapshots_converge [where W = "\<lambda>k t n. Some (if n = ''a'' then JNum 1 else JNum 2, [(n, 1)])", THEN conjunct1,
        OF _ _ _ refl refl])
    (auto simp: entity_ok_def demo_state_def demo_reg_def empty_entity_def lww_map_from_def reg_from_def
      clock_ok_def obj_ok_def obj_keys_def)

text \<open>The conflicts of a snapshot merge, written as the specification: one for each register of the
  client that meets a concurrent register of the server with another value.\<close>

definition snapshot_conflicts :: "EntityCRDTState \<Rightarrow> EntityCRDTState \<Rightarrow> CRDTConflict list" where
  "snapshot_conflicts server client =
     concat (map (\<lambda>(field, r). case map_of (es_lwwFields server) field of
        None \<Rightarrow> []
      | Some s \<Rightarrow> (if compareClocks (reg_clock s) (reg_clock r) = Concurrent \<and> reg_value s \<noteq> reg_value r
                  then [mk_conflict (es_entityId server) field s r] else [])) (es_lwwFields client))"

lemma fold_merge_field_conflicts:
  assumes "obj_ok rs" "\<forall>f \<in> fst ` set rs. map_of m f = map_of m0 f"
  shows "snd (foldl (merge_field i) (m, cs) rs) = cs @
     concat (map (\<lambda>(field, r). case map_of m0 field of
        None \<Rightarrow> []
      | Some s \<Rightarrow> (if compareClocks (reg_clock s) (reg_clock r) = Concurrent \<and> reg_value s \<noteq> reg_value r
                  then [mk_conflict i field s r] else [])) rs)"
  using assms
proof (induction rs arbitrary: m cs)
  case Nil
  then show ?case by simp
next
  case (Cons p rs)
  obtain f r where p: "p = (f, r)" by (cases p)
  obtain m' cs' where step: "merge_field i (m, cs) (f, r) = (m', cs')"
    by (cases "merge_field i (m, cs) (f, r)")
  have fresh: "f \<notin> fst ` set rs" and ok: "obj_ok rs"
    using Cons.prems(1) p by (auto simp: obj_ok_def obj_keys_def)
  have "m' = AList.update f (merge_reg_option (map_of m f) r) m"
    using step merge_field_fst [of i m cs f r] by simp
  then have "\<forall>g \<in> fst ` set rs. map_of m' g = map_of m0 g" using Cons.prems(2) fresh p by auto
  note IH = Cons.IH [OF ok this, of cs']
  have "map_of m f = map_of m0 f" using Cons.prems(2) p by simp
  then have "cs' = cs @ (case map_of m0 f of None \<Rightarrow> []
      | Some s \<Rightarrow> (if compareClocks (reg_clock s) (reg_clock r) = Concurrent \<and> reg_value s \<noteq> reg_value r
                  then [mk_conflict i f s r] else []))"
    using step by (auto simp: merge_field_def split: option.splits if_splits)
  with IH show ?case by (simp add: p step)
qed

text \<open>C32: Conflict reports are exact: merging a snapshot reports one conflict for each register that both
  sides wrote concurrently with different values, in the client's field order, resolved to the value
  the merged state holds, and reports nothing else.\<close>

theorem snapshot_conflicts_exact:
  assumes "obj_ok (es_lwwFields client)"
  shows "snd (mergeEntityStates server client conflicts) = conflicts @ snapshot_conflicts server client \<and>
    (\<forall>c \<in> set (snapshot_conflicts server client). \<exists>r.
       map_of (es_lwwFields (fst (mergeEntityStates server client conflicts))) (cf_field c) = Some r \<and>
       cf_resolvedValue c = reg_value r)"
proof
  show "snd (mergeEntityStates server client conflicts) = conflicts @ snapshot_conflicts server client"
    using fold_merge_field_conflicts [OF assms, of "es_lwwFields server" "es_lwwFields server"
        "es_entityId server" conflicts]
    by (simp add: mergeEntityStates_def snapshot_conflicts_def Let_def case_prod_unfold)
  have "map_of (mergeLWWMap (es_lwwFields server) (es_lwwFields client)) f = Some (mergeLWWRegister s r)"
    if "(f, r) \<in> set (es_lwwFields client)" "map_of (es_lwwFields server) f = Some s" for f r s
  proof -
    have "map_of (es_lwwFields client) f = Some r"
      using that(1) assms by (simp add: obj_ok_def obj_keys_def)
    then show ?thesis using that(2) assms by (simp add: map_of_mergeLWWMap join_regs_def)
  qed
  then show "\<forall>c \<in> set (snapshot_conflicts server client). \<exists>r.
       map_of (es_lwwFields (fst (mergeEntityStates server client conflicts))) (cf_field c) = Some r \<and>
       cf_resolvedValue c = reg_value r"
    by (force simp: snapshot_conflicts_def mergeEntityStates_fst mk_conflict_def split: option.splits if_splits)
qed

lemma snapshot_conflicts_exact_witness:
  "snd (mergeEntityStates (demo_state 7 ''a'' (JNum 1)) (demo_state 9 ''b'' (JNum 2)) []) =
     [mk_conflict ''sub1'' ''name'' (demo_reg 7 ''a'' (JNum 1)) (demo_reg 9 ''b'' (JNum 2))]"
proof -
  have "obj_ok (es_lwwFields (demo_state 9 ''b'' (JNum 2)))"
    by (simp add: demo_state_def obj_ok_def obj_keys_def)
  from snapshot_conflicts_exact [OF this, of "demo_state 7 ''a'' (JNum 1)" "[]", THEN conjunct1]
  show ?thesis
    by (simp add: snapshot_conflicts_def demo_state_def demo_reg_def empty_entity_def compareClocks_def
        obj_or_def obj_keys_def Let_def)
qed

text \<open>Counter operations are not deduplicated: an increment that the client sends \<open>n\<close> times (its
  request was retried) is counted \<open>n\<close> times, although every copy carries the same operation id.\<close>

theorem counter_replay_counts_again:
  assumes "op_type op = PncounterIncrement"
    and "pn_ok (obj_or empty_counter (es_counters e) (op_field op))" "0 \<le> payload_amount (op_payload op)"
  shows "pnCounterValue (obj_or empty_counter (es_counters
      (((\<lambda>e. fst (applyOperation e op [])) ^^ n) e)) (op_field op)) =
    pnCounterValue (obj_or empty_counter (es_counters e) (op_field op)) + int n * payload_amount (op_payload op)"
proof -
  let ?c = "\<lambda>e. obj_or empty_counter (es_counters e) (op_field op)"
  let ?k = "payload_amount (op_payload op)"
  have step: "?c (fst (applyOperation e op [])) = pnCounterIncrement (?c e) (op_nodeId op) ?k" for e
    using assms(1) by (simp add: applyOperation_def Let_def pnCounterIncrement_def)
  have "pn_ok (?c (((\<lambda>e. fst (applyOperation e op [])) ^^ n) e)) \<and>
      pnCounterValue (?c (((\<lambda>e. fst (applyOperation e op [])) ^^ n) e)) = pnCounterValue (?c e) + int n * ?k"
    by (induction n) (use assms in \<open>auto simp: step algebra_simps\<close>)
  then show ?thesis by simp
qed

lemma counter_replay_counts_again_witness:
  "pnCounterValue (obj_or empty_counter (es_counters
      (((\<lambda>e. fst (applyOperation e demo_op [])) ^^ 2) (empty_entity ''sub1''))) ''seats'') = 4"
proof -
  have h: "op_type demo_op = PncounterIncrement"
    "pn_ok (obj_or empty_counter (es_counters (empty_entity ''sub1'')) (op_field demo_op))"
    "0 \<le> payload_amount (op_payload demo_op)"
    by (simp_all add: demo_op_def empty_entity_def)
  from counter_replay_counts_again [OF h, of 2] show ?thesis
    by (simp add: demo_op_def empty_entity_def empty_counter_def pnCounterValue_def obj_total_def)
qed

text \<open>Rejected requests: a request with no node id or no operation array is refused and leaves the
  store as it was; one whose snapshots are missing also ends in an error, but only after its
  operations have been applied to the store.\<close>

theorem handleSyncRequest_errors:
  "(rq_nodeId rq = None \<or> rq_nodeId rq = Some [] \<or> rq_operations rq = None \<longrightarrow>
      handleSyncRequest syncedAt store rq = (Inl InvalidSyncRequest, store)) \<and>
   (rq_nodeId rq = Some (c # cs) \<and> rq_operations rq = Some ops \<and> rq_entityStates rq = None \<longrightarrow>
      handleSyncRequest syncedAt store rq =
        (Inl NotIterable, fst (foldl sync_op (store, []) (sort_key op_timestamp ops))))"
  by (auto simp: handleSyncRequest_def processSyncRequest_def Let_def case_prod_unfold)

lemma handleSyncRequest_errors_witness:
  "map_of (snd (handleSyncRequest ''t'' [] (demo_request\<lparr>rq_entityStates := None\<rparr>))) ''sub1'' \<noteq> None"
proof -
  have "handleSyncRequest ''t'' [] (demo_request\<lparr>rq_entityStates := None\<rparr>) =
      (Inl NotIterable, fst (foldl sync_op ([], []) (sort_key op_timestamp [demo_op])))"
    using handleSyncRequest_errors [of "demo_request\<lparr>rq_entityStates := None\<rparr>" "''t''" "[]" "CHR ''p''" "''hone''" "[demo_op]"]
    by (simp add: demo_request_def)
  then show ?thesis
    by (simp add: sync_op_def getOrCreateEntity_def case_prod_unfold Let_def demo_op_def)
qed

end
