(* ===== verification/CircuitBreaker.thy ===== *)
theory CircuitBreaker
  imports Prelude
begin

text \<open>
  The RPC circuit breaker \<^verbatim>\<open>backend/services/rpc/circuitBreaker.ts\<close>. The object's fields are a
  record, and every method takes the value of \<open>Date.now()\<close> at the call. The armed
  \<open>setTimeout\<close> of \<open>scheduleRecovery\<close> is the instant at which it is due; its callback is
  a step of its own. The emitted \<open>stateChange\<close> events are collected in a list.
\<close>

section \<open>State\<close>

datatype CircuitState = CLOSED | OPEN | HALF_OPEN

record CircuitBreakerConfig =
  failureThreshold :: int
  recoveryTimeoutMs :: int
  halfOpenMaxRequests :: int
  autoReset :: bool

definition DEFAULT_CIRCUIT_BREAKER_CONFIG :: CircuitBreakerConfig where
  "DEFAULT_CIRCUIT_BREAKER_CONFIG =
     \<lparr>failureThreshold = 5, recoveryTimeoutMs = 30000, halfOpenMaxRequests = 3, autoReset = True\<rparr>"

record CircuitBreakerEvent =
  ev_endpoint :: string
  ev_chainId :: int
  ev_previousState :: CircuitState
  ev_newState :: CircuitState
  ev_timestamp :: int
  ev_reason :: string
  ev_failuresAtTransition :: int

record CircuitBreaker =
  cb_state :: CircuitState
  consecutiveFailures :: int
  totalFailures :: int
  totalSuccesses :: int
  lastFailureAt :: "int option"
  lastSuccessAt :: "int option"
  lastStateChangeAt :: int
  openedAt :: "int option"
  recoveryScheduledAt :: "int option"
  halfOpenProbeCount :: int
  pendingProbeRequests :: int
  cumulativeDowntimeMs :: int
  manuallyReset :: bool
  recoveryTimer :: "int option"
  cb_config :: CircuitBreakerConfig
  cb_chainId :: int
  cb_endpointUrl :: string
  cb_endpointLabel :: string
  cb_emitted :: "CircuitBreakerEvent list"

definition newCircuitBreaker :: "int \<Rightarrow> string \<Rightarrow> string \<Rightarrow> CircuitBreakerConfig \<Rightarrow> int \<Rightarrow> CircuitBreaker" where
  "newCircuitBreaker chainId url label config now =
     \<lparr>cb_state = CLOSED, consecutiveFailures = 0, totalFailures = 0, totalSuccesses = 0,
      lastFailureAt = None, lastSuccessAt = None, lastStateChangeAt = now, openedAt = None,
      recoveryScheduledAt = None, halfOpenProbeCount = 0, pendingProbeRequests = 0,
      cumulativeDowntimeMs = 0, manuallyReset = False, recoveryTimer = None,
      cb_config = config, cb_chainId = chainId, cb_endpointUrl = url, cb_endpointLabel = label,
      cb_emitted = []\<rparr>"

section \<open>Transitions\<close>

definition cancelRecoveryTimer :: "CircuitBreaker \<Rightarrow> CircuitBreaker" where
  "cancelRecoveryTimer cb = cb\<lparr>recoveryTimer := None\<rparr>"

definition scheduleRecovery :: "int \<Rightarrow> CircuitBreaker \<Rightarrow> CircuitBreaker" where
  "scheduleRecovery now cb =
     (cancelRecoveryTimer cb)\<lparr>recoveryTimer := Some (now + recoveryTimeoutMs (cb_config cb))\<rparr>"

definition enterState :: "int \<Rightarrow> CircuitState \<Rightarrow> CircuitState \<Rightarrow> CircuitBreaker \<Rightarrow> CircuitBreaker" where
  "enterState now previousState newState cb = (case newState of
     OPEN \<Rightarrow>
       (let cb1 = cb\<lparr>openedAt := Some now, recoveryScheduledAt := Some now,
                     halfOpenProbeCount := 0, pendingProbeRequests := 0\<rparr>
        in if autoReset (cb_config cb1) then scheduleRecovery now cb1 else cb1)
   | HALF_OPEN \<Rightarrow>
       cb\<lparr>openedAt := None, recoveryScheduledAt := None, halfOpenProbeCount := 0, pendingProbeRequests := 0\<rparr>
   | CLOSED \<Rightarrow>
       (let cb1 = (case (previousState, openedAt cb) of
                     (OPEN, Some t) \<Rightarrow> cb\<lparr>cumulativeDowntimeMs := cumulativeDowntimeMs cb + (now - t)\<rparr>
                   | _ \<Rightarrow> cb)
        in cancelRecoveryTimer (cb1\<lparr>openedAt := None, recoveryScheduledAt := None,
             halfOpenProbeCount := 0, pendingProbeRequests := 0, consecutiveFailures := 0\<rparr>)))"

definition transitionTo :: "int \<Rightarrow> CircuitState \<Rightarrow> string \<Rightarrow> CircuitBreaker \<Rightarrow> CircuitBreaker" where
  "transitionTo now newState reason cb =
     (let previousState = cb_state cb;
          cb1 = enterState now previousState newState (cb\<lparr>cb_state := newState, lastStateChangeAt := now\<rparr>);
          event = \<lparr>ev_endpoint = cb_endpointUrl cb1, ev_chainId = cb_chainId cb1,
                   ev_previousState = previousState, ev_newState = newState, ev_timestamp = now,
                   ev_reason = reason, ev_failuresAtTransition = consecutiveFailures cb1\<rparr>
      in cb1\<lparr>cb_emitted := cb_emitted cb1 @ [event]\<rparr>)"

text \<open>The callback of the recovery timer, run once the timer is due.\<close>

definition timerFires :: "int \<Rightarrow> CircuitBreaker \<Rightarrow> CircuitBreaker" where
  "timerFires now cb = (case recoveryTimer cb of
     None \<Rightarrow> cb
   | Some due \<Rightarrow>
       (if due \<le> now
        then (let cb1 = cb\<lparr>recoveryTimer := None\<rparr>
              in if cb_state cb1 = OPEN then transitionTo now HALF_OPEN ''Recovery timer fired'' cb1 else cb1)
        else cb))"

section \<open>Public operations\<close>

definition getState :: "int \<Rightarrow> CircuitBreaker \<Rightarrow> CircuitState \<times> CircuitBreaker" where
  "getState now cb =
     (let cb1 = (case (cb_state cb, recoveryScheduledAt cb) of
                   (OPEN, Some t) \<Rightarrow>
                     (if recoveryTimeoutMs (cb_config cb) \<le> now - t
                      then transitionTo now HALF_OPEN ''Recovery timeout elapsed'' cb else cb)
                 | _ \<Rightarrow> cb)
      in (cb_state cb1, cb1))"

datatype rpc_error = CircuitOpenError string int CircuitState | RpcTimeoutError string int int
  | AllProvidersFailedError int "string list" | CallFailed string

definition allowRequest :: "int \<Rightarrow> CircuitBreaker \<Rightarrow> (rpc_error + bool) \<times> CircuitBreaker" where
  "allowRequest now cb =
     (let (currentState, cb1) = getState now cb
      in if currentState = CLOSED then (Inr True, cb1)
         else if currentState = OPEN
           then (Inl (CircuitOpenError (cb_endpointUrl cb1) (cb_chainId cb1) currentState), cb1)
         else if halfOpenMaxRequests (cb_config cb1) \<le> halfOpenProbeCount cb1 then (Inr False, cb1)
         else (Inr True, cb1\<lparr>halfOpenProbeCount := halfOpenProbeCount cb1 + 1,
                             pendingProbeRequests := pendingProbeRequests cb1 + 1\<rparr>))"

definition recordSuccess :: "int \<Rightarrow> bool \<Rightarrow> CircuitBreaker \<Rightarrow> CircuitBreaker" where
  "recordSuccess now wasProbe cb =
     (let cb1 = cb\<lparr>totalSuccesses := totalSuccesses cb + 1, lastSuccessAt := Some now, consecutiveFailures := 0\<rparr>;
          cb2 = (if wasProbe then cb1\<lparr>pendingProbeRequests := pendingProbeRequests cb1 - 1\<rparr> else cb1)
      in if cb_state cb2 = HALF_OPEN then transitionTo now CLOSED ''Half-open probe succeeded'' cb2
         else if cb_state cb2 = CLOSED \<and> 0 < consecutiveFailures cb2 then cb2\<lparr>consecutiveFailures := 0\<rparr>
         else cb2)"

definition recordFailure :: "int \<Rightarrow> bool \<Rightarrow> CircuitBreaker \<Rightarrow> CircuitBreaker" where
  "recordFailure now wasProbe cb =
     (let cb1 = cb\<lparr>totalFailures := totalFailures cb + 1, lastFailureAt := Some now,
                   consecutiveFailures := consecutiveFailures cb + 1\<rparr>;
          cb2 = (if wasProbe then cb1\<lparr>pendingProbeRequests := pendingProbeRequests cb1 - 1\<rparr> else cb1)
      in if cb_state cb2 = HALF_OPEN then transitionTo now OPEN ''Half-open probe failed'' cb2
         else if cb_state cb2 = CLOSED \<and> failureThreshold (cb_config cb2) \<le> consecutiveFailures cb2
           then transitionTo now OPEN
                  (''Failure threshold reached ('' @ show_int (consecutiveFailures cb2) @ '' consecutive)'') cb2
         else cb2)"

definition manualReset :: "int \<Rightarrow> CircuitBreaker \<Rightarrow> CircuitBreaker" where
  "manualReset now cb =
     transitionTo now CLOSED ''Manual reset by operator''
       ((cancelRecoveryTimer cb)\<lparr>consecutiveFailures := 0, totalFailures := 0, totalSuccesses := 0,
          halfOpenProbeCount := 0, pendingProbeRequests := 0, manuallyReset := True\<rparr>)"

definition manualOpen :: "int \<Rightarrow> CircuitBreaker \<Rightarrow> CircuitBreaker" where
  "manualOpen now cb =
     transitionTo now OPEN ''Manually opened by operator'' ((cancelRecoveryTimer cb)\<lparr>manuallyReset := True\<rparr>)"

definition resetMetrics :: "CircuitBreaker \<Rightarrow> CircuitBreaker" where
  "resetMetrics cb = cb\<lparr>consecutiveFailures := 0, totalFailures := 0, totalSuccesses := 0,
     halfOpenProbeCount := 0, pendingProbeRequests := 0, cumulativeDowntimeMs := 0, manuallyReset := False\<rparr>"

text \<open>The snapshot is the state with the running downtime added; it changes nothing.\<close>

definition snapshot :: "int \<Rightarrow> CircuitBreaker \<Rightarrow> CircuitBreaker" where
  "snapshot now cb =
     (let currentDowntime = (case (cb_state cb, openedAt cb) of
            (OPEN, Some t) \<Rightarrow> cumulativeDowntimeMs cb + (now - t)
          | _ \<Rightarrow> cumulativeDowntimeMs cb)
      in cb\<lparr>cumulativeDowntimeMs := currentDowntime\<rparr>)"

section \<open>The breaker as a machine\<close>

datatype cb_call = GetState | AllowRequest | RecordSuccess bool | RecordFailure bool
  | ManualReset | ManualOpen | ResetMetrics | TimerFires

fun cb_step :: "CircuitBreaker \<Rightarrow> int \<times> cb_call \<Rightarrow> CircuitBreaker" where
  "cb_step cb (now, GetState) = snd (getState now cb)"
| "cb_step cb (now, AllowRequest) = snd (allowRequest now cb)"
| "cb_step cb (now, RecordSuccess p) = recordSuccess now p cb"
| "cb_step cb (now, RecordFailure p) = recordFailure now p cb"
| "cb_step cb (now, ManualReset) = manualReset now cb"
| "cb_step cb (now, ManualOpen) = manualOpen now cb"
| "cb_step cb (now, ResetMetrics) = resetMetrics cb"
| "cb_step cb (now, TimerFires) = timerFires now cb"

text \<open>The transitions that the header of the source documents, and the operator's two.\<close>

inductive documented :: "cb_call \<Rightarrow> CircuitState \<Rightarrow> CircuitState \<Rightarrow> bool" where
  stay: "documented c s s"
| trip: "documented (RecordFailure p) CLOSED OPEN"
| probe_failed: "documented (RecordFailure p) HALF_OPEN OPEN"
| probe_succeeded: "documented (RecordSuccess p) HALF_OPEN CLOSED"
| recover_on_read: "documented GetState OPEN HALF_OPEN"
| recover_on_request: "documented AllowRequest OPEN HALF_OPEN"
| recover_on_timer: "documented TimerFires OPEN HALF_OPEN"
| operator_reset: "documented ManualReset s CLOSED"
| operator_open: "documented ManualOpen s OPEN"

inductive_cases documented_to_closed: "documented c s CLOSED"
inductive_cases documented_from_open: "documented c OPEN s"
inductive_simps documented_half_open_iff: "documented c s HALF_OPEN"

code_pred documented .

lemmas cb_op_defs = getState_def allowRequest_def recordSuccess_def recordFailure_def manualReset_def
  manualOpen_def resetMetrics_def timerFires_def Let_def

lemmas cb_transition_defs = transitionTo_def enterState_def scheduleRecovery_def cancelRecoveryTimer_def Let_def

text \<open>What a transition does to the fields, state by state.\<close>

lemma transitionTo_common [simp]:
  "cb_state (transitionTo now s r cb) = s"
  "cb_config (transitionTo now s r cb) = cb_config cb"
  "lastStateChangeAt (transitionTo now s r cb) = now"
  "halfOpenProbeCount (transitionTo now s r cb) = 0"
  "pendingProbeRequests (transitionTo now s r cb) = 0"
  "manuallyReset (transitionTo now s r cb) = manuallyReset cb"
  "cb_endpointUrl (transitionTo now s r cb) = cb_endpointUrl cb"
  "cb_chainId (transitionTo now s r cb) = cb_chainId cb"
  by (cases s; simp add: cb_transition_defs split: CircuitState.split option.split)+

lemma transitionTo_times [simp]:
  "openedAt (transitionTo now s r cb) = (if s = OPEN then Some now else None)"
  "recoveryScheduledAt (transitionTo now s r cb) = (if s = OPEN then Some now else None)"
  by (cases s; simp add: cb_transition_defs split: CircuitState.split option.split)+

lemma transitionTo_failures [simp]:
  "consecutiveFailures (transitionTo now s r cb) = (if s = CLOSED then 0 else consecutiveFailures cb)"
  by (cases s) (simp_all add: cb_transition_defs split: CircuitState.split option.split)

lemma transitionTo_timer [simp]:
  "recoveryTimer (transitionTo now OPEN r cb) =
     (if autoReset (cb_config cb) then Some (now + recoveryTimeoutMs (cb_config cb)) else recoveryTimer cb)"
  "recoveryTimer (transitionTo now HALF_OPEN r cb) = recoveryTimer cb"
  "recoveryTimer (transitionTo now CLOSED r cb) = None"
  by (simp_all add: cb_transition_defs split: CircuitState.split option.split)

lemma transitionTo_downtime [simp]:
  "s \<noteq> CLOSED \<Longrightarrow> cumulativeDowntimeMs (transitionTo now s r cb) = cumulativeDowntimeMs cb"
  "cumulativeDowntimeMs (transitionTo now CLOSED r cb) =
     (case (cb_state cb, openedAt cb) of
        (OPEN, Some t) \<Rightarrow> cumulativeDowntimeMs cb + (now - t) | _ \<Rightarrow> cumulativeDowntimeMs cb)"
  by (cases s) (auto simp: cb_transition_defs split: CircuitState.split option.split)

section \<open>The invariant\<close>

definition config_ok :: "CircuitBreakerConfig \<Rightarrow> bool" where
  "config_ok c \<longleftrightarrow> 1 \<le> failureThreshold c \<and> 1 \<le> halfOpenMaxRequests c \<and> 0 \<le> recoveryTimeoutMs c"

definition cb_inv :: "CircuitBreaker \<Rightarrow> bool" where
  "cb_inv cb \<longleftrightarrow> config_ok (cb_config cb) \<and>
     0 \<le> consecutiveFailures cb \<and>
     (cb_state cb = CLOSED \<longrightarrow> consecutiveFailures cb < failureThreshold (cb_config cb)) \<and>
     0 \<le> halfOpenProbeCount cb \<and> halfOpenProbeCount cb \<le> halfOpenMaxRequests (cb_config cb) \<and>
     (cb_state cb \<noteq> HALF_OPEN \<longrightarrow> halfOpenProbeCount cb = 0) \<and>
     openedAt cb = (if cb_state cb = OPEN then Some (lastStateChangeAt cb) else None) \<and>
     recoveryScheduledAt cb = openedAt cb \<and>
     (cb_state cb = OPEN \<and> autoReset (cb_config cb) \<longrightarrow>
        recoveryTimer cb = Some (lastStateChangeAt cb + recoveryTimeoutMs (cb_config cb))) \<and>
     (\<not> autoReset (cb_config cb) \<longrightarrow> recoveryTimer cb = None)"

lemma cb_inv_new: "config_ok c \<Longrightarrow> cb_inv (newCircuitBreaker chainId url label c now)"
  by (simp add: cb_inv_def newCircuitBreaker_def config_ok_def)

lemma cb_inv_transition:
  assumes "cb_inv cb" "0 \<le> consecutiveFailures cb"
  shows "cb_inv (transitionTo now s r cb)"
  using assms by (cases s) (auto simp: cb_inv_def config_ok_def)

lemma cb_inv_getState: "cb_inv cb \<Longrightarrow> cb_inv (snd (getState now cb))"
  by (auto simp: getState_def Let_def cb_inv_transition cb_inv_def [of cb] split: CircuitState.split option.split)

lemma getState_eq:
  assumes "cb_inv cb"
  shows "getState now cb =
     (if cb_state cb = OPEN \<and> recoveryTimeoutMs (cb_config cb) \<le> now - lastStateChangeAt cb
      then (HALF_OPEN, transitionTo now HALF_OPEN ''Recovery timeout elapsed'' cb) else (cb_state cb, cb))"
  using assms by (cases "cb_state cb") (simp_all add: getState_def cb_inv_def Let_def)

lemma fst_getState: "fst (getState now cb) = cb_state (snd (getState now cb))"
  by (simp add: getState_def Let_def)

lemma cb_inv_probe:
  assumes "cb_inv cb" "cb_state cb = HALF_OPEN" "halfOpenProbeCount cb < halfOpenMaxRequests (cb_config cb)"
  shows "cb_inv (cb\<lparr>halfOpenProbeCount := halfOpenProbeCount cb + 1, pendingProbeRequests := n\<rparr>)"
  using assms by (simp add: cb_inv_def)

lemma cb_inv_allowRequest:
  assumes "cb_inv cb"
  shows "cb_inv (snd (allowRequest now cb))"
proof -
  obtain st cb1 where g: "getState now cb = (st, cb1)" by (cases "getState now cb")
  then have "cb_inv cb1" "st = cb_state cb1"
    using cb_inv_getState [OF assms, of now] fst_getState [of now cb] by simp_all
  then show ?thesis
    using cb_inv_probe [of cb1] by (cases st) (simp_all add: allowRequest_def g)
qed

lemma transitionTo_inv_fields:
  assumes "config_ok (cb_config cb)" "0 \<le> consecutiveFailures cb" "\<not> autoReset (cb_config cb) \<longrightarrow> recoveryTimer cb = None"
  shows "cb_inv (transitionTo now s r cb)"
  using assms by (cases s) (auto simp: cb_inv_def config_ok_def)

lemma cb_inv_step: "cb_inv cb \<Longrightarrow> cb_inv (cb_step cb e)"
proof (induction cb e rule: cb_step.induct)
  case (1 cb now)
  then show ?case by (simp add: cb_inv_getState)
next
  case (2 cb now)
  then show ?case by (simp add: cb_inv_allowRequest)
next
  case (3 cb now p)
  then show ?case
    by (cases "cb_state cb"; cases p) (simp_all add: recordSuccess_def Let_def transitionTo_inv_fields cb_inv_def [of cb],
        simp_all add: cb_inv_def config_ok_def)
next
  case (4 cb now p)
  then show ?case
    by (cases "cb_state cb"; cases p) (simp_all add: recordFailure_def Let_def transitionTo_inv_fields cb_inv_def [of cb],
        simp_all add: cb_inv_def)
next
  case (5 cb now)
  then show ?case
    by (auto simp: manualReset_def cancelRecoveryTimer_def cb_inv_def [of cb] intro!: transitionTo_inv_fields)
next
  case (6 cb now)
  then show ?case
    by (auto simp: manualOpen_def cancelRecoveryTimer_def cb_inv_def [of cb] intro!: transitionTo_inv_fields)
next
  case (7 cb now)
  then show ?case by (auto simp: resetMetrics_def cb_inv_def config_ok_def)
next
  case (8 cb now)
  then show ?case
    by (auto simp: timerFires_def Let_def cb_inv_def [of cb] intro!: transitionTo_inv_fields split: option.split)
      (auto simp: cb_inv_def)
qed

interpretation breaker: machine cb_step cb_inv
  by unfold_locales (rule cb_inv_step)

section \<open>Properties\<close>

text \<open>The breaker only moves along the documented transitions: whatever operation runs in whatever
  state, the state before and after is a pair of the diagram in the source's header (trip, probe
  failed, probe succeeded, recovery on read, on request or on the timer) or an operator's override.\<close>

theorem breaker_transitions_documented: "documented c (cb_state cb) (cb_state (cb_step cb (now, c)))"
proof (cases c)
  case GetState
  then show ?thesis by (auto simp: getState_def Let_def intro: documented.intros split: CircuitState.split option.split)
next
  case AllowRequest
  then show ?thesis
    by (cases "cb_state cb")
      (auto simp: allowRequest_def getState_def Let_def case_prod_unfold intro: documented.intros split: option.split)
next
  case (RecordSuccess p)
  then show ?thesis by (cases "cb_state cb") (auto simp: recordSuccess_def Let_def intro: documented.intros)
next
  case (RecordFailure p)
  then show ?thesis by (cases "cb_state cb") (auto simp: recordFailure_def Let_def intro: documented.intros)
next
  case ManualReset
  then show ?thesis by (simp add: manualReset_def documented.intros)
next
  case ManualOpen
  then show ?thesis by (simp add: manualOpen_def documented.intros)
next
  case ResetMetrics
  then show ?thesis by (simp add: resetMetrics_def documented.intros)
next
  case TimerFires
  then show ?thesis by (auto simp: timerFires_def Let_def intro: documented.intros split: option.split)
qed

text \<open>C13: In every state a run of operations can reach: a closed circuit has seen fewer consecutive
  failures than the threshold; the admitted probes never exceed the configured maximum and are
  zero outside HALF_OPEN; the opening time is recorded exactly while the circuit is open and is the
  time of the last state change; and with \<open>autoReset\<close> an open circuit has its recovery timer armed.\<close>

theorem breaker_run_invariant:
  assumes "config_ok c" "cb = foldl cb_step (newCircuitBreaker chainId url label c now) calls"
  shows "(cb_state cb = CLOSED \<longrightarrow> consecutiveFailures cb < failureThreshold (cb_config cb)) \<and>
    0 \<le> halfOpenProbeCount cb \<and> halfOpenProbeCount cb \<le> halfOpenMaxRequests (cb_config cb) \<and>
    (cb_state cb \<noteq> HALF_OPEN \<longrightarrow> halfOpenProbeCount cb = 0) \<and>
    openedAt cb = (if cb_state cb = OPEN then Some (lastStateChangeAt cb) else None) \<and>
    (cb_state cb = OPEN \<and> autoReset (cb_config cb) \<longrightarrow>
       recoveryTimer cb = Some (lastStateChangeAt cb + recoveryTimeoutMs (cb_config cb)))"
proof -
  have "cb_inv cb" using assms breaker.run_inv [OF cb_inv_new [OF assms(1)]] by simp
  then show ?thesis by (simp add: cb_inv_def)
qed

definition demo_config :: CircuitBreakerConfig where
  "demo_config = \<lparr>failureThreshold = 2, recoveryTimeoutMs = 100, halfOpenMaxRequests = 1, autoReset = True\<rparr>"

definition demo_breaker :: CircuitBreaker where
  "demo_breaker = newCircuitBreaker 1 ''u'' ''l'' demo_config 0"

lemma breaker_run_invariant_witness:
  "openedAt (foldl cb_step demo_breaker [(5, RecordFailure False), (6, RecordFailure False)]) = Some 6"
proof -
  let ?cb = "foldl cb_step demo_breaker [(5, RecordFailure False), (6, RecordFailure False)]"
  have ok: "config_ok demo_config" by (simp add: demo_config_def config_ok_def)
  have st: "cb_state ?cb = OPEN" "lastStateChangeAt ?cb = 6"
    by (simp_all add: demo_breaker_def demo_config_def newCircuitBreaker_def recordFailure_def Let_def)
  have "?cb = foldl cb_step (newCircuitBreaker 1 ''u'' ''l'' demo_config 0) [(5, RecordFailure False), (6, RecordFailure False)]"
    by (simp only: demo_breaker_def)
  from breaker_run_invariant [OF ok this] have "openedAt ?cb = (if cb_state ?cb = OPEN then Some (lastStateChangeAt ?cb) else None)"
    by blast
  then show ?thesis by (simp only: st simp_thms if_True)
qed

text \<open>Fail fast and recover: in any invariant state that is open, a request before the recovery
  timeout is refused with \<open>CircuitOpenError\<close> and leaves the breaker untouched; the first request at
  or after the timeout is admitted as the first half-open probe, whether or not \<open>autoReset\<close> is set.\<close>

theorem open_fails_fast_then_probes:
  assumes "cb_inv cb" "cb_state cb = OPEN"
  shows "(now - lastStateChangeAt cb < recoveryTimeoutMs (cb_config cb) \<longrightarrow>
      allowRequest now cb = (Inl (CircuitOpenError (cb_endpointUrl cb) (cb_chainId cb) OPEN), cb)) \<and>
    (recoveryTimeoutMs (cb_config cb) \<le> now - lastStateChangeAt cb \<longrightarrow>
      fst (allowRequest now cb) = Inr True \<and>
      cb_state (snd (allowRequest now cb)) = HALF_OPEN \<and> halfOpenProbeCount (snd (allowRequest now cb)) = 1)"
  using assms by (auto simp: allowRequest_def getState_eq Let_def cb_inv_def config_ok_def)

lemma open_fails_fast_then_probes_witness:
  "fst (allowRequest 150 (manualOpen 100 demo_breaker)) = Inl (CircuitOpenError ''u'' 1 OPEN) \<and>
   fst (allowRequest 200 (manualOpen 100 demo_breaker)) = Inr True"
proof -
  let ?cb = "manualOpen 100 demo_breaker"
  have "cb_inv demo_breaker" unfolding demo_breaker_def
    by (rule cb_inv_new) (simp add: demo_config_def config_ok_def)
  then have inv: "cb_inv ?cb" using cb_inv_step [of demo_breaker "(100, ManualOpen)"] by simp
  have cb: "cb_state ?cb = OPEN" "lastStateChangeAt ?cb = 100" "recoveryTimeoutMs (cb_config ?cb) = 100"
      "cb_endpointUrl ?cb = ''u''" "cb_chainId ?cb = 1"
    by (simp_all add: manualOpen_def cancelRecoveryTimer_def demo_breaker_def newCircuitBreaker_def demo_config_def)
  show ?thesis
    using open_fails_fast_then_probes [OF inv cb(1), of 150] open_fails_fast_then_probes [OF inv cb(1), of 200]
    by (simp add: cb)
qed

text \<open>One failure recorded at each of the given instants.\<close>

abbreviation failures_at :: "CircuitBreaker \<Rightarrow> int list \<Rightarrow> CircuitBreaker" where
  "failures_at cb ts \<equiv> foldl (\<lambda>cb t. recordFailure t False cb) cb ts"

lemma failures_below_threshold:
  assumes "cb_state cb = CLOSED" "consecutiveFailures cb + int (length ts) < failureThreshold (cb_config cb)"
  shows "cb_state (failures_at cb ts) = CLOSED \<and>
    consecutiveFailures (failures_at cb ts) = consecutiveFailures cb + int (length ts) \<and>
    cb_config (failures_at cb ts) = cb_config cb"
  using assms by (induction ts arbitrary: cb) (auto simp: recordFailure_def Let_def)

text \<open>The circuit trips on exactly the threshold's failure: a closed circuit whose count was just
  reset stays closed through every shorter row of failures, counting them, and opens at the instant
  of the failure that completes \<open>failureThreshold\<close> of them.\<close>

theorem trips_exactly_at_threshold:
  assumes "cb_state cb = CLOSED" "consecutiveFailures cb = 0"
  shows "(int (length ts) < failureThreshold (cb_config cb) \<longrightarrow>
      cb_state (failures_at cb ts) = CLOSED \<and> consecutiveFailures (failures_at cb ts) = int (length ts)) \<and>
    (int (length ts) + 1 = failureThreshold (cb_config cb) \<longrightarrow>
      cb_state (failures_at cb (ts @ [t])) = OPEN \<and> openedAt (failures_at cb (ts @ [t])) = Some t)"
  using failures_below_threshold [OF assms(1), of ts] assms by (auto simp: recordFailure_def Let_def)

lemma trips_exactly_at_threshold_witness:
  "cb_state (failures_at demo_breaker [3]) = CLOSED \<and> cb_state (failures_at demo_breaker [3, 9]) = OPEN"
proof -
  have cb: "cb_state demo_breaker = CLOSED" "consecutiveFailures demo_breaker = 0"
      "failureThreshold (cb_config demo_breaker) = 2"
    by (simp_all add: demo_breaker_def newCircuitBreaker_def demo_config_def)
  show ?thesis using trips_exactly_at_threshold [OF cb(1,2), of "[3]" 9] cb(3) by simp
qed

text \<open>The number of requests that a row of \<open>allowRequest\<close> calls lets through.\<close>

fun admitted :: "CircuitBreaker \<Rightarrow> int list \<Rightarrow> int" where
  "admitted cb [] = 0"
| "admitted cb (t # ts) =
     (if fst (allowRequest t cb) = Inr True then 1 else 0) + admitted (snd (allowRequest t cb)) ts"

text \<open>The half-open gate: while the probes in flight have not reported, \<open>allowRequest\<close> says yes
  to exactly the probes still free and no to every later request.\<close>

theorem half_open_admits_exactly_free_probes:
  assumes "cb_state cb = HALF_OPEN" "halfOpenProbeCount cb \<le> halfOpenMaxRequests (cb_config cb)"
  shows "admitted cb ts = min (int (length ts)) (halfOpenMaxRequests (cb_config cb) - halfOpenProbeCount cb)"
  using assms by (induction ts arbitrary: cb) (auto simp: allowRequest_def getState_def Let_def)

lemma half_open_admits_exactly_free_probes_witness:
  "admitted (timerFires 200 (manualOpen 100 demo_breaker)) [200, 201, 202] = 1"
proof -
  let ?cb = "timerFires 200 (manualOpen 100 demo_breaker)"
  have "cb_state ?cb = HALF_OPEN" "halfOpenProbeCount ?cb = 0" "halfOpenMaxRequests (cb_config ?cb) = 1"
    by (simp_all add: timerFires_def manualOpen_def cancelRecoveryTimer_def demo_breaker_def
        newCircuitBreaker_def demo_config_def Let_def)
  then show ?thesis using half_open_admits_exactly_free_probes [of ?cb "[200, 201, 202]"] by simp
qed

text \<open>Downtime is added only when a circuit goes straight from OPEN to CLOSED.\<close>

lemma step_downtime:
  assumes "snd e \<noteq> ManualReset" "cumulativeDowntimeMs cb = 0"
  shows "cumulativeDowntimeMs (cb_step cb e) = 0"
proof -
  obtain now c where e: "e = (now, c)" by (cases e)
  show ?thesis
  proof (cases c)
    case AllowRequest
    then show ?thesis using assms e
      by (auto simp: allowRequest_def getState_def Let_def case_prod_unfold split: CircuitState.split option.split)
  next
    case (RecordSuccess p)
    then show ?thesis using assms e by (cases "cb_state cb"; cases p) (simp_all add: recordSuccess_def Let_def)
  next
    case (RecordFailure p)
    then show ?thesis using assms e by (cases "cb_state cb"; cases p) (simp_all add: recordFailure_def Let_def)
  next
    case TimerFires
    then show ?thesis using assms e by (auto simp: timerFires_def Let_def split: option.split)
  qed (use assms e in \<open>auto simp: getState_def manualOpen_def cancelRecoveryTimer_def resetMetrics_def Let_def
        split: CircuitState.split option.split\<close>)
qed

text \<open>The downtime metric misses every outage that recovers on its own: however often the circuit
  opens and closes through half-open probes, \<open>cumulativeDowntimeMs\<close> stays 0 unless an operator resets
  an open circuit by hand.\<close>

theorem downtime_not_accumulated_on_recovery:
  assumes "\<forall>e \<in> set calls. snd e \<noteq> ManualReset"
  shows "cumulativeDowntimeMs (foldl cb_step (newCircuitBreaker chainId url label c now) calls) = 0"
proof -
  have "cumulativeDowntimeMs (foldl cb_step cb calls) = 0" if "cumulativeDowntimeMs cb = 0" for cb
    using assms that by (induction calls arbitrary: cb) (simp_all add: step_downtime)
  then show ?thesis by (simp add: newCircuitBreaker_def)
qed

lemma downtime_not_accumulated_on_recovery_witness:
  "cumulativeDowntimeMs (foldl cb_step demo_breaker
     [(5, ManualOpen), (1000, AllowRequest), (1001, RecordSuccess True)]) = 0"
  unfolding demo_breaker_def by (rule downtime_not_accumulated_on_recovery) simp

end
