(* ===== verification/RpcFallback.thy ===== *)
theory RpcFallback
  imports CircuitBreaker
begin

text \<open>
  Calls across the providers of a chain, \<^verbatim>\<open>backend/services/rpc/rpcProviderFallback.ts\<close>: the
  endpoints are tried in order behind their circuit breakers, and when all fail a stale response
  may be served. The network (\<open>fetch\<close>) is a parameter: for the attempt at an endpoint, started
  at a time, it gives the time of the answer and the parsed result or the error message. One call
  runs at a time; another call's steps between the await and the record are not interleaved.
\<close>

section \<open>Configuration and state\<close>

record RpcEndpointConfig =
  ep_chainId :: int
  ep_label :: string
  ep_url :: string
  ep_circuitBreaker :: CircuitBreakerConfig
  ep_supportsRead :: bool
  ep_supportsWrite :: bool

datatype degradation = FailFast | CacheStale | Degraded

datatype data_type = ReadCall | WriteCall | QueryCall

record 'r RpcProviderFallback =
  rp_chainId :: int
  rp_endpoints :: "RpcEndpointConfig list"
  rp_onAllFailed :: degradation
  rp_circuitBreakers :: "CircuitBreaker obj"
  rp_cache :: "'r obj"
  rp_cacheTimestamps :: "int obj"

record fallback_error =
  fe_endpoint :: string
  fe_error :: string
  fe_durationMs :: int

record 'r RpcCallResult =
  rr_data :: 'r
  rr_usedEndpoint :: string
  rr_usedProviderIndex :: int
  rr_durationMs :: int
  rr_degraded :: bool
  rr_fallbackErrors :: "fallback_error list"

type_synonym 'r network = "RpcEndpointConfig \<Rightarrow> int \<Rightarrow> int \<times> (string + 'r)"

definition add_breakers :: "int \<Rightarrow> RpcEndpointConfig list \<Rightarrow> CircuitBreaker obj \<Rightarrow> CircuitBreaker obj" where
  "add_breakers now eps m =
     foldl (\<lambda>m ep. AList.update (ep_url ep)
        (newCircuitBreaker (ep_chainId ep) (ep_url ep) (ep_label ep) (ep_circuitBreaker ep) now) m) m eps"

definition newProvider :: "int \<Rightarrow> int \<Rightarrow> RpcEndpointConfig list \<Rightarrow> degradation \<Rightarrow> 'r RpcProviderFallback" where
  "newProvider now chainId eps policy =
     \<lparr>rp_chainId = chainId, rp_endpoints = eps, rp_onAllFailed = policy,
      rp_circuitBreakers = add_breakers now eps [], rp_cache = [], rp_cacheTimestamps = []\<rparr>"

text \<open>Hot reload: the endpoints are replaced, breakers are added for new urls and never dropped.\<close>

definition updateChainConfig :: "int \<Rightarrow> RpcEndpointConfig list \<Rightarrow> 'r RpcProviderFallback \<Rightarrow> 'r RpcProviderFallback" where
  "updateChainConfig now eps p =
     p\<lparr>rp_endpoints := eps,
       rp_circuitBreakers := foldl (\<lambda>m ep. if map_of m (ep_url ep) = None
          then AList.update (ep_url ep)
                 (newCircuitBreaker (ep_chainId ep) (ep_url ep) (ep_label ep) (ep_circuitBreaker ep) now) m
          else m) (rp_circuitBreakers p) eps\<rparr>"

definition getEligibleEndpoints :: "data_type \<Rightarrow> RpcEndpointConfig list \<Rightarrow> RpcEndpointConfig list" where
  "getEligibleEndpoints dt eps =
     filter (\<lambda>ep. \<not> (dt = ReadCall \<and> \<not> ep_supportsRead ep) \<and> \<not> (dt = WriteCall \<and> \<not> ep_supportsWrite ep)) eps"

section \<open>The response cache\<close>

definition cacheResponse :: "int \<Rightarrow> string \<Rightarrow> 'r \<Rightarrow> 'r RpcProviderFallback \<Rightarrow> 'r RpcProviderFallback" where
  "cacheResponse now key v p =
     (let cache = AList.update key v (rp_cache p);
          times = AList.update key now (rp_cacheTimestamps p)
      in if 500 < length cache
         then (case times of
                 [] \<Rightarrow> p\<lparr>rp_cache := cache, rp_cacheTimestamps := times\<rparr>
               | (oldestKey, _) # _ \<Rightarrow>
                   (if oldestKey = [] then p\<lparr>rp_cache := cache, rp_cacheTimestamps := times\<rparr>
                    else p\<lparr>rp_cache := AList.delete oldestKey cache,
                           rp_cacheTimestamps := AList.delete oldestKey times\<rparr>))
         else p\<lparr>rp_cache := cache, rp_cacheTimestamps := times\<rparr>)"

section \<open>A call\<close>

text \<open>The text of the errors that \<open>allowRequest\<close> throws.\<close>

definition circuit_open_message :: "rpc_error \<Rightarrow> string" where
  "circuit_open_message e = (case e of
     CircuitOpenError url chainId st \<Rightarrow>
       ''Circuit breaker is '' @ (case st of CLOSED \<Rightarrow> ''CLOSED'' | OPEN \<Rightarrow> ''OPEN'' | HALF_OPEN \<Rightarrow> ''HALF_OPEN'')
       @ '' for RPC endpoint '' @ url @ '' (chain '' @ show_int chainId @ ''). ''
       @ ''Request blocked to prevent cascading failure.''
   | CallFailed m \<Rightarrow> m
   | _ \<Rightarrow> [])"

datatype 'r attempt = Skipped fallback_error | Failed fallback_error | Succeeded 'r

text \<open>
  One turn of the loop at time \<open>now\<close>: the time after it, the endpoint's outcome and the
  breakers. As in the code, the value \<open>false\<close> of \<open>allowRequest\<close> is not looked at.
\<close>

definition try_endpoint :: "'r network \<Rightarrow> RpcEndpointConfig \<Rightarrow> int \<Rightarrow> CircuitBreaker obj
    \<Rightarrow> int \<times> 'r attempt \<times> CircuitBreaker obj" where
  "try_endpoint net ep now breakers = (case map_of breakers (ep_url ep) of
     None \<Rightarrow> (now, Skipped \<lparr>fe_endpoint = ep_url ep, fe_error = ''No circuit breaker registered'', fe_durationMs = 0\<rparr>,
             breakers)
   | Some cb \<Rightarrow>
       (case allowRequest now cb of
          (Inl err, cb1) \<Rightarrow>
            (now, Skipped \<lparr>fe_endpoint = ep_url ep, fe_error = circuit_open_message err, fe_durationMs = 0\<rparr>,
             AList.update (ep_url ep) cb1 breakers)
        | (Inr _, cb1) \<Rightarrow>
            (let (st, cb2) = getState now cb1;
                 isProbe = (st = HALF_OPEN)
             in case net ep now of
                  (done, Inr result) \<Rightarrow>
                    (done, Succeeded result, AList.update (ep_url ep) (recordSuccess done isProbe cb2) breakers)
                | (done, Inl msg) \<Rightarrow>
                    (done, Failed \<lparr>fe_endpoint = ep_url ep, fe_error = msg, fe_durationMs = done - now\<rparr>,
                     AList.update (ep_url ep) (recordFailure done isProbe cb2) breakers))))"

fun call_loop :: "'r network \<Rightarrow> RpcEndpointConfig list \<Rightarrow> int \<Rightarrow> CircuitBreaker obj \<Rightarrow> fallback_error list
    \<Rightarrow> int \<times> (RpcEndpointConfig \<times> 'r) option \<times> fallback_error list \<times> CircuitBreaker obj" where
  "call_loop net [] now breakers errs = (now, None, errs, breakers)"
| "call_loop net (ep # eps) now breakers errs =
     (case try_endpoint net ep now breakers of
        (now', Succeeded r, breakers') \<Rightarrow> (now', Some (ep, r), errs, breakers')
      | (now', Skipped e, breakers') \<Rightarrow> call_loop net eps now' breakers' (errs @ [e])
      | (now', Failed e, breakers') \<Rightarrow> call_loop net eps now' breakers' (errs @ [e]))"

definition handleDegraded :: "string \<Rightarrow> int \<Rightarrow> 'r RpcProviderFallback \<Rightarrow> rpc_error + 'r RpcCallResult" where
  "handleDegraded key totalDurationMs p =
     (case (rp_onAllFailed p, map_of (rp_cache p) key) of
        (CacheStale, Some cached) \<Rightarrow>
          Inr \<lparr>rr_data = cached, rr_usedEndpoint = ''degraded_cache'', rr_usedProviderIndex = -1,
               rr_durationMs = totalDurationMs, rr_degraded = True,
               rr_fallbackErrors = [\<lparr>fe_endpoint = ''all'',
                  fe_error = ''All providers exhausted, serving stale cache'', fe_durationMs = totalDurationMs\<rparr>]\<rparr>
      | _ \<Rightarrow> Inl (AllProvidersFailedError (rp_chainId p) (map ep_url (rp_endpoints p))))"

text \<open>\<open>endpoints.indexOf(endpoint)\<close>\<close>

fun index_of :: "'a \<Rightarrow> 'a list \<Rightarrow> int" where
  "index_of x [] = -1"
| "index_of x (y # ys) = (if x = y then 0 else (let i = index_of x ys in if i = -1 then -1 else i + 1))"

definition rpc_call :: "'r network \<Rightarrow> int \<Rightarrow> string \<Rightarrow> data_type \<Rightarrow> 'r RpcProviderFallback
    \<Rightarrow> (rpc_error + 'r RpcCallResult) \<times> 'r RpcProviderFallback" where
  "rpc_call net startTime key dt p =
     (let endpointsToTry = getEligibleEndpoints dt (rp_endpoints p)
      in if endpointsToTry = [] then (handleDegraded key 0 p, p)
         else case call_loop net endpointsToTry startTime (rp_circuitBreakers p) [] of
           (now, Some (ep, result), errs, breakers) \<Rightarrow>
             (Inr \<lparr>rr_data = result, rr_usedEndpoint = ep_url ep,
                   rr_usedProviderIndex = index_of ep (rp_endpoints p), rr_durationMs = now - startTime,
                   rr_degraded = False, rr_fallbackErrors = errs\<rparr>,
              cacheResponse now key result (p\<lparr>rp_circuitBreakers := breakers\<rparr>))
         | (now, None, errs, breakers) \<Rightarrow>
             (let p' = p\<lparr>rp_circuitBreakers := breakers\<rparr> in (handleDegraded key (now - startTime) p', p')))"

definition manualResetEndpoint :: "int \<Rightarrow> string \<Rightarrow> 'r RpcProviderFallback \<Rightarrow> bool \<times> 'r RpcProviderFallback" where
  "manualResetEndpoint now url p = (case map_of (rp_circuitBreakers p) url of
     None \<Rightarrow> (False, p)
   | Some cb \<Rightarrow> (True, p\<lparr>rp_circuitBreakers := AList.update url (manualReset now cb) (rp_circuitBreakers p)\<rparr>))"

definition manualResetAll :: "int \<Rightarrow> 'r RpcProviderFallback \<Rightarrow> 'r RpcProviderFallback" where
  "manualResetAll now p =
     p\<lparr>rp_circuitBreakers := map (\<lambda>(url, cb). (url, manualReset now cb)) (rp_circuitBreakers p)\<rparr>"

definition manualOpenEndpoint :: "int \<Rightarrow> string \<Rightarrow> 'r RpcProviderFallback \<Rightarrow> bool \<times> 'r RpcProviderFallback" where
  "manualOpenEndpoint now url p = (case map_of (rp_circuitBreakers p) url of
     None \<Rightarrow> (False, p)
   | Some cb \<Rightarrow> (True, p\<lparr>rp_circuitBreakers := AList.update url (manualOpen now cb) (rp_circuitBreakers p)\<rparr>))"

section \<open>The loop over the endpoints\<close>

lemma try_endpoint_error:
  "try_endpoint net ep now b = (now', Skipped e, b') \<Longrightarrow> fe_endpoint e = ep_url ep"
  "try_endpoint net ep now b = (now', Failed e, b') \<Longrightarrow> fe_endpoint e = ep_url ep"
  by (auto simp: try_endpoint_def Let_def split: option.splits prod.splits sum.splits)

lemma try_endpoint_success:
  "try_endpoint net ep now b = (now', Succeeded r, b') \<Longrightarrow> net ep now = (now', Inr r)"
  by (auto simp: try_endpoint_def Let_def split: option.splits prod.splits sum.splits)

lemma try_endpoint_other:
  "url \<noteq> ep_url ep \<Longrightarrow> try_endpoint net ep now b = (now', a, b') \<Longrightarrow> map_of b' url = map_of b url"
  by (auto simp: try_endpoint_def Let_def split: option.splits prod.splits sum.splits)

lemma call_loop_trace:
  assumes "call_loop net eps now b errs = (now', res, errs', b')"
  shows "case res of
      None \<Rightarrow> map fe_endpoint errs' = map fe_endpoint errs @ map ep_url eps
    | Some (ep, r) \<Rightarrow> \<exists>before after t done. eps = before @ ep # after \<and> net ep t = (done, Inr r) \<and>
        map fe_endpoint errs' = map fe_endpoint errs @ map ep_url before"
  using assms
proof (induction eps arbitrary: now b errs)
  case Nil
  then show ?case by auto
next
  case (Cons ep eps)
  obtain t1 a b1 where turn: "try_endpoint net ep now b = (t1, a, b1)" by (cases "try_endpoint net ep now b")
  show ?case
  proof (cases a)
    case (Succeeded r)
    then have "net ep now = (t1, Inr r)" using turn by (blast dest: try_endpoint_success)
    then show ?thesis using Cons.prems turn Succeeded by auto blast
  next
    case (Skipped e)
    with turn have e: "fe_endpoint e = ep_url ep" by (blast dest: try_endpoint_error)
    have "call_loop net eps t1 b1 (errs @ [e]) = (now', res, errs', b')" using Cons.prems turn Skipped by simp
    from Cons.IH [OF this] show ?thesis by (fastforce simp: e split: option.splits intro: exI [of _ "ep # _"])
  next
    case (Failed e)
    with turn have e: "fe_endpoint e = ep_url ep" by (blast dest: try_endpoint_error)
    have "call_loop net eps t1 b1 (errs @ [e]) = (now', res, errs', b')" using Cons.prems turn Failed by simp
    from Cons.IH [OF this] show ?thesis by (fastforce simp: e split: option.splits intro: exI [of _ "ep # _"])
  qed
qed

lemma call_loop_healthy:
  assumes "ep \<in> set eps" "distinct (map ep_url eps)" "map_of b (ep_url ep) = Some cb" "cb_state cb = CLOSED"
    and "\<forall>t. \<exists>done r. net ep t = (done, Inr r)"
  shows "\<exists>now' ep' r errs' b'. call_loop net eps now b errs = (now', Some (ep', r), errs', b')"
  using assms
proof (induction eps arbitrary: now b errs)
  case Nil
  then show ?case by simp
next
  case (Cons ep0 eps)
  obtain t1 a b1 where turn: "try_endpoint net ep0 now b = (t1, a, b1)" by (cases "try_endpoint net ep0 now b")
  show ?case
  proof (cases "ep0 = ep")
    case True
    obtain fin r where "net ep now = (fin, Inr r)" using Cons.prems(5) by blast
    then have "\<exists>r. a = Succeeded r"
      using turn True Cons.prems(3,4)
      by (auto simp: try_endpoint_def allowRequest_def getState_def Let_def split: prod.splits)
    then show ?thesis using turn by auto
  next
    case False
    then have "ep \<in> set eps" using Cons.prems(1) by auto
    then have "ep_url ep \<in> ep_url ` set eps" by (rule imageI)
    then have "ep_url ep \<noteq> ep_url ep0" using Cons.prems(2) by auto
    then have "map_of b1 (ep_url ep) = Some cb" using try_endpoint_other [OF _ turn] Cons.prems(3) by simp
    then show ?thesis
      using Cons.IH [OF \<open>ep \<in> set eps\<close> _ _ Cons.prems(4,5), of b1] Cons.prems(2) turn by (cases a) auto
  qed
qed

section \<open>Properties\<close>

text \<open>A call walks the eligible endpoints in order: when an endpoint serves it, the network gave
  that result at that endpoint, and the errors list names exactly the endpoints before it, once
  each and in order; when none does, the answer is the degraded one, and nothing is invented.\<close>

theorem rpc_call_walks_endpoints:
  assumes "rpc_call net t0 key dt p = (Inr res, p')" "\<not> rr_degraded res"
  shows "\<exists>before ep after t done. getEligibleEndpoints dt (rp_endpoints p) = before @ ep # after \<and>
     net ep t = (done, Inr (rr_data res)) \<and> rr_usedEndpoint res = ep_url ep \<and>
     map fe_endpoint (rr_fallbackErrors res) = map ep_url before"
proof -
  let ?eps = "getEligibleEndpoints dt (rp_endpoints p)"
  have deg: "\<not> (\<exists>q d. handleDegraded key d q = Inr res)"
    using assms(2) by (auto simp: handleDegraded_def split: degradation.splits option.splits)
  obtain now' o' errs b where loop: "call_loop net ?eps t0 (rp_circuitBreakers p) [] = (now', o', errs, b)"
    by (cases "call_loop net ?eps t0 (rp_circuitBreakers p) []")
  with assms(1) deg obtain ep r where o': "o' = Some (ep, r)" and "?eps \<noteq> []"
    by (cases o') (auto simp: rpc_call_def Let_def split: if_splits)
  with loop assms(1) have "rr_data res = r" "rr_usedEndpoint res = ep_url ep" "rr_fallbackErrors res = errs"
    by (auto simp: rpc_call_def Let_def)
  with call_loop_trace [OF loop] o' show ?thesis by auto
qed

definition demo_endpoint :: "string \<Rightarrow> RpcEndpointConfig" where
  "demo_endpoint url = \<lparr>ep_chainId = 1, ep_label = url, ep_url = url, ep_circuitBreaker = demo_config,
     ep_supportsRead = True, ep_supportsWrite = True\<rparr>"

definition demo_net :: "int network" where
  "demo_net ep t = (t + 10, if ep_url ep = ''a'' then Inl ''HTTP 500'' else Inr 42)"

definition demo_provider :: "int RpcProviderFallback" where
  "demo_provider = newProvider 0 1 [demo_endpoint ''a'', demo_endpoint ''b''] CacheStale"

lemmas demo_provider_defs = demo_provider_def newProvider_def add_breakers_def demo_endpoint_def demo_net_def
  demo_config_def newCircuitBreaker_def

lemma rpc_call_walks_endpoints_witness:
  "\<exists>res p'. rpc_call demo_net 5 ''k'' ReadCall demo_provider = (Inr res, p') \<and>
     rr_usedEndpoint res = ''b'' \<and> map fe_endpoint (rr_fallbackErrors res) = [''a'']"
proof -
  obtain res p' where call: "rpc_call demo_net 5 ''k'' ReadCall demo_provider = (Inr res, p')"
    "\<not> rr_degraded res" "rr_usedEndpoint res = ''b''"
    by (simp add: demo_provider_defs rpc_call_def getEligibleEndpoints_def try_endpoint_def allowRequest_def
        getState_def recordFailure_def recordSuccess_def Let_def)
  from rpc_call_walks_endpoints [OF call(1,2)] call(3) have "map fe_endpoint (rr_fallbackErrors res) = [''a'']"
    by (auto simp: getEligibleEndpoints_def demo_provider_def newProvider_def demo_endpoint_def Cons_eq_append_conv)
  with call show ?thesis by auto
qed

text \<open>One healthy provider is enough: if some eligible endpoint's circuit is closed and the network
  answers there, the call returns a fresh result, whatever state every other circuit is in and
  however the other providers fail.\<close>

theorem one_healthy_provider_serves:
  assumes "ep \<in> set (getEligibleEndpoints dt (rp_endpoints p))" "distinct (map ep_url (rp_endpoints p))"
    and "map_of (rp_circuitBreakers p) (ep_url ep) = Some cb" "cb_state cb = CLOSED"
    and "\<forall>t. \<exists>done r. net ep t = (done, Inr r)"
  shows "\<exists>res p'. rpc_call net t0 key dt p = (Inr res, p') \<and> \<not> rr_degraded res"
proof -
  let ?eps = "getEligibleEndpoints dt (rp_endpoints p)"
  have "distinct (map ep_url ?eps)"
    using assms(2) by (simp add: getEligibleEndpoints_def distinct_map_filter)
  then obtain t1 ep' r errs b'
    where "call_loop net ?eps t0 (rp_circuitBreakers p) [] = (t1, Some (ep', r), errs, b')"
    using call_loop_healthy [where ep = ep and eps = ?eps and b = "rp_circuitBreakers p" and cb = cb and net = net]
      assms by blast
  moreover have "?eps \<noteq> []" using assms(1) by auto
  ultimately show ?thesis by (simp add: rpc_call_def Let_def)
qed

lemma one_healthy_provider_serves_witness:
  "\<exists>res p'. rpc_call demo_net 5 ''k'' WriteCall demo_provider = (Inr res, p') \<and> \<not> rr_degraded res"
proof (rule one_healthy_provider_serves [where ep = "demo_endpoint ''b''"])
  show "map_of (rp_circuitBreakers demo_provider) (ep_url (demo_endpoint ''b'')) =
      Some (newCircuitBreaker 1 ''b'' ''b'' demo_config 0)"
    by (simp add: demo_provider_defs)
qed (simp_all add: demo_provider_defs getEligibleEndpoints_def)

text \<open>Open circuits shield the network: while every eligible endpoint's circuit is open and inside
  its recovery timeout, a call does not depend on the network at all and changes no breaker.\<close>

theorem open_circuits_shield_network:
  assumes "\<forall>ep \<in> set (getEligibleEndpoints dt (rp_endpoints p)). \<exists>cb. map_of (rp_circuitBreakers p) (ep_url ep) = Some cb \<and>
      cb_inv cb \<and> cb_state cb = OPEN \<and> t0 - lastStateChangeAt cb < recoveryTimeoutMs (cb_config cb)"
  shows "rpc_call net t0 key dt p = rpc_call net' t0 key dt p \<and>
    map_of (rp_circuitBreakers (snd (rpc_call net t0 key dt p))) = map_of (rp_circuitBreakers p)"
proof -
  have loop: "\<exists>errs' b'. map_of b' = map_of b \<and>
      call_loop net eps t0 b errs = (t0, None, errs', b') \<and> call_loop net' eps t0 b errs = (t0, None, errs', b')"
    if "\<forall>ep \<in> set eps. \<exists>cb. map_of b (ep_url ep) = Some cb \<and>
      cb_inv cb \<and> cb_state cb = OPEN \<and> t0 - lastStateChangeAt cb < recoveryTimeoutMs (cb_config cb)" for eps b errs
    using that
  proof (induction eps arbitrary: b errs)
    case Nil
    then show ?case by simp
  next
    case (Cons ep eps)
    then obtain cb where cb: "map_of b (ep_url ep) = Some cb" "cb_inv cb" "cb_state cb = OPEN"
        "t0 - lastStateChangeAt cb < recoveryTimeoutMs (cb_config cb)" by auto
    have "allowRequest t0 cb = (Inl (CircuitOpenError (cb_endpointUrl cb) (cb_chainId cb) OPEN), cb)"
      using cb(2-4) by (simp add: allowRequest_def getState_eq)
    let ?e = "\<lparr>fe_endpoint = ep_url ep, fe_error = circuit_open_message
       (CircuitOpenError (cb_endpointUrl cb) (cb_chainId cb) OPEN), fe_durationMs = 0\<rparr>"
      and ?b = "AList.update (ep_url ep) cb b"
    have turn: "try_endpoint n ep t0 b = (t0, Skipped ?e, ?b)" for n :: "'a network"
      using cb(1) \<open>allowRequest t0 cb = _\<close> by (simp add: try_endpoint_def)
    have same: "map_of ?b = map_of b" using cb(1) by auto
    then obtain errs' b' where "map_of b' = map_of ?b"
        "call_loop net eps t0 ?b (errs @ [?e]) = (t0, None, errs', b')"
        "call_loop net' eps t0 ?b (errs @ [?e]) = (t0, None, errs', b')"
      using Cons.IH [of ?b "errs @ [?e]"] Cons.prems by auto
    then show ?case using same by (simp add: turn)
  qed
  obtain errs' b' where b': "map_of b' = map_of (rp_circuitBreakers p)"
      "call_loop net (getEligibleEndpoints dt (rp_endpoints p)) t0 (rp_circuitBreakers p) [] = (t0, None, errs', b')"
      "call_loop net' (getEligibleEndpoints dt (rp_endpoints p)) t0 (rp_circuitBreakers p) [] = (t0, None, errs', b')"
    using loop [OF assms, of "[]"] by blast
  then show ?thesis by (simp add: rpc_call_def Let_def)
qed

lemma open_circuits_shield_network_witness:
  "rpc_call demo_net 50 ''k'' QueryCall (snd (manualOpenEndpoint 0 ''a'' (newProvider 0 1 [demo_endpoint ''a''] FailFast))) =
   rpc_call (\<lambda>_ t. (t, Inr 7)) 50 ''k'' QueryCall (snd (manualOpenEndpoint 0 ''a'' (newProvider 0 1 [demo_endpoint ''a''] FailFast)))"
proof (rule open_circuits_shield_network [THEN conjunct1])
  have "cb_inv (manualOpen 0 (newCircuitBreaker 1 ''a'' ''a'' demo_config 0))"
    using cb_inv_step [of "newCircuitBreaker 1 ''a'' ''a'' demo_config 0" "(0, ManualOpen)"]
      cb_inv_new [of demo_config] by (simp add: demo_config_def config_ok_def)
  then show "\<forall>ep \<in> set (getEligibleEndpoints QueryCall (rp_endpoints (snd (manualOpenEndpoint 0 ''a''
      (newProvider 0 1 [demo_endpoint ''a''] FailFast :: int RpcProviderFallback))))).
    \<exists>cb. map_of (rp_circuitBreakers (snd (manualOpenEndpoint 0 ''a'' (newProvider 0 1 [demo_endpoint ''a''] FailFast
      :: int RpcProviderFallback)))) (ep_url ep) = Some cb \<and>
      cb_inv cb \<and> cb_state cb = OPEN \<and> 50 - lastStateChangeAt cb < recoveryTimeoutMs (cb_config cb)"
    by (simp add: getEligibleEndpoints_def manualOpenEndpoint_def newProvider_def add_breakers_def demo_endpoint_def
        demo_config_def) (simp add: manualOpen_def cancelRecoveryTimer_def newCircuitBreaker_def)
qed

end
