(* ===== verification/PriorityQueues.thy ===== *)
theory PriorityQueues
  imports Prelude "HOL-Library.Multiset"
begin

text \<open>
  One priority class of the job system, \<^verbatim>\<open>backend/shared/queue/priorityQueue.ts\<close> with the types
  of \<^verbatim>\<open>types.ts\<close>. The in-memory \<open>pending\<close> list is the scheduling truth; BullMQ is
  outside: what its \<open>add\<close> and \<open>remove\<close> answer is an argument of the operation. \<open>add\<close>
  is also given as its two halves around the \<open>await\<close>, so that interleavings can be stated.
\<close>

section \<open>Types\<close>

datatype PriorityClass = Critical | High | Normal | Low

definition PRIORITY_ORDER :: "PriorityClass list" where
  "PRIORITY_ORDER = [Critical, High, Normal, Low]"

text \<open>BullMQ's numbers: lower is more urgent. They order the classes.\<close>

fun BULLMQ_PRIORITY :: "PriorityClass \<Rightarrow> int" where
  "BULLMQ_PRIORITY Critical = 1"
| "BULLMQ_PRIORITY High = 2"
| "BULLMQ_PRIORITY Normal = 3"
| "BULLMQ_PRIORITY Low = 4"

instantiation PriorityClass :: linorder
begin

definition less_eq_PriorityClass :: "PriorityClass \<Rightarrow> PriorityClass \<Rightarrow> bool" where
  "p \<le> q \<longleftrightarrow> BULLMQ_PRIORITY p \<le> BULLMQ_PRIORITY q"

definition less_PriorityClass :: "PriorityClass \<Rightarrow> PriorityClass \<Rightarrow> bool" where
  "p < q \<longleftrightarrow> BULLMQ_PRIORITY p < BULLMQ_PRIORITY q"

instance
proof
  fix p q :: PriorityClass
  show "p \<le> q \<Longrightarrow> q \<le> p \<Longrightarrow> p = q"
    by (cases p; cases q) (simp_all add: less_eq_PriorityClass_def)
qed (auto simp: less_eq_PriorityClass_def less_PriorityClass_def)

end

lemma UNIV_PriorityClass: "UNIV = {Critical, High, Normal, Low}"
  by (auto intro: PriorityClass.exhaust)

instance PriorityClass :: finite
  by standard (simp add: UNIV_PriorityClass)

lemma set_PRIORITY_ORDER [simp]: "set PRIORITY_ORDER = UNIV"
  by (simp add: PRIORITY_ORDER_def UNIV_PriorityClass)

lemma distinct_PRIORITY_ORDER [simp]: "distinct PRIORITY_ORDER"
  by (simp add: PRIORITY_ORDER_def)

text \<open>Latency objectives in milliseconds; \<open>None\<close> is \<open>Infinity\<close>.\<close>

fun LATENCY_SLO_MS :: "PriorityClass \<Rightarrow> int option" where
  "LATENCY_SLO_MS Critical = Some 30000"
| "LATENCY_SLO_MS High = Some 120000"
| "LATENCY_SLO_MS Normal = Some 600000"
| "LATENCY_SLO_MS Low = None"

fun priority_name :: "PriorityClass \<Rightarrow> string" where
  "priority_name Critical = ''critical''"
| "priority_name High = ''high''"
| "priority_name Normal = ''normal''"
| "priority_name Low = ''low''"

record EnqueueOptions =
  eo_parentPriority :: "PriorityClass option"
  eo_delay :: "int option"
  eo_jobId :: "string option"

record 'a QueueJob =
  job_id :: string
  job_name :: string
  job_data :: 'a
  job_priority :: PriorityClass
  job_enqueuedAt :: int
  job_bullJobId :: "string option"

record PriorityQueueStats =
  st_depth :: int
  st_paused :: bool
  st_maxSize :: int
  st_totalEnqueued :: int
  st_totalProcessed :: int
  st_totalWaitTimeMs :: int
  st_totalProcessingTimeMs :: int
  st_sloViolations :: int
  st_lastWaitTimeMs :: int
  st_lastProcessingTimeMs :: int

definition emptyStats :: "int \<Rightarrow> PriorityQueueStats" where
  "emptyStats maxSize = \<lparr>st_depth = 0, st_paused = False, st_maxSize = maxSize, st_totalEnqueued = 0,
     st_totalProcessed = 0, st_totalWaitTimeMs = 0, st_totalProcessingTimeMs = 0, st_sloViolations = 0,
     st_lastWaitTimeMs = 0, st_lastProcessingTimeMs = 0\<rparr>"

definition createEmptyStats :: "int \<Rightarrow> PriorityClass \<Rightarrow> PriorityQueueStats" where
  "createEmptyStats maxSize = (\<lambda>p. emptyStats maxSize)"

record 'a PriorityQueue =
  pq_priority :: PriorityClass
  pq_maxSize :: int
  pq_pending :: "'a QueueJob list"
  pq_paused :: bool
  pq_stats :: PriorityQueueStats

definition newPriorityQueue :: "PriorityClass \<Rightarrow> int option \<Rightarrow> 'a PriorityQueue" where
  "newPriorityQueue p maxSize =
     (let m = (case maxSize of None \<Rightarrow> 10000 | Some n \<Rightarrow> n)
      in \<lparr>pq_priority = p, pq_maxSize = m, pq_pending = [], pq_paused = False, pq_stats = emptyStats m\<rparr>)"

section \<open>Operations\<close>

definition pq_depth :: "'a PriorityQueue \<Rightarrow> int" where
  "pq_depth q = int (length (pq_pending q))"

definition pq_isFull :: "'a PriorityQueue \<Rightarrow> bool" where
  "pq_isFull q \<longleftrightarrow> pq_maxSize q \<le> pq_depth q"

definition pq_getStats :: "'a PriorityQueue \<Rightarrow> PriorityQueueStats" where
  "pq_getStats q = (pq_stats q)\<lparr>st_depth := pq_depth q, st_paused := pq_paused q\<rparr>"

datatype queue_error = QueuePaused PriorityClass | QueueFull PriorityClass int
  | PriorityMismatch PriorityClass PriorityClass | BullFailed | NoHandler string

text \<open>The checks before the \<open>await this.queue.add\<close>.\<close>

definition pq_add_begin :: "'a PriorityQueue \<Rightarrow> queue_error option" where
  "pq_add_begin q =
     (if pq_paused q then Some (QueuePaused (pq_priority q))
      else if pq_isFull q then Some (QueueFull (pq_priority q) (pq_maxSize q))
      else None)"

text \<open>The job built from BullMQ's answer (\<open>result.id\<close>).\<close>

definition mk_job :: "int \<Rightarrow> PriorityClass \<Rightarrow> string \<Rightarrow> 'a \<Rightarrow> EnqueueOptions \<Rightarrow> string option \<Rightarrow> 'a QueueJob" where
  "mk_job now prio name data opts bullId =
     (let effectivePriority = (case eo_parentPriority opts of None \<Rightarrow> prio | Some p \<Rightarrow> p);
          bullJobId = (case bullId of Some i \<Rightarrow> Some i | None \<Rightarrow> eo_jobId opts)
      in \<lparr>job_id = (case bullJobId of Some i \<Rightarrow> i | None \<Rightarrow> name @ ''_'' @ show_int now),
          job_name = name, job_data = data, job_priority = effectivePriority,
          job_enqueuedAt = now, job_bullJobId = bullJobId\<rparr>)"

definition pq_push :: "'a QueueJob \<Rightarrow> 'a PriorityQueue \<Rightarrow> 'a PriorityQueue" where
  "pq_push job q =
     (let pending = pq_pending q @ [job]
      in q\<lparr>pq_pending := pending,
           pq_stats := (pq_stats q)\<lparr>st_totalEnqueued := st_totalEnqueued (pq_stats q) + 1,
                                    st_depth := int (length pending)\<rparr>\<rparr>)"

text \<open>The whole \<open>add\<close>, nothing else running during the \<open>await\<close>; \<open>bull\<close> is BullMQ's answer.\<close>

definition pq_add :: "int \<Rightarrow> (unit + string option) \<Rightarrow> string \<Rightarrow> 'a \<Rightarrow> EnqueueOptions \<Rightarrow> 'a PriorityQueue
    \<Rightarrow> (queue_error + 'a QueueJob) \<times> 'a PriorityQueue" where
  "pq_add now bull name data opts q =
     (case pq_add_begin q of
        Some err \<Rightarrow> (Inl err, q)
      | None \<Rightarrow>
          (case bull of
             Inl _ \<Rightarrow> (Inl BullFailed, q)
           | Inr bullId \<Rightarrow>
               (let job = mk_job now (pq_priority q) name data opts bullId in (Inr job, pq_push job q))))"

definition pq_spawnSubJob :: "int \<Rightarrow> (unit + string option) \<Rightarrow> string \<Rightarrow> 'a \<Rightarrow> PriorityClass \<Rightarrow> 'a PriorityQueue
    \<Rightarrow> (queue_error + 'a QueueJob) \<times> 'a PriorityQueue" where
  "pq_spawnSubJob now bull name data parentPriority q =
     (if parentPriority \<noteq> pq_priority q then (Inl (PriorityMismatch parentPriority (pq_priority q)), q)
      else pq_add now bull name data \<lparr>eo_parentPriority = Some parentPriority, eo_delay = None, eo_jobId = None\<rparr> q)"

text \<open>
  \<open>dequeue\<close> takes the first pending job before it awaits BullMQ's removal; \<open>removed\<close> says
  whether that removal (of the job's BullMQ id, if it has one) succeeded.
\<close>

definition pq_dequeue :: "bool \<Rightarrow> 'a PriorityQueue \<Rightarrow> (queue_error + 'a QueueJob option) \<times> 'a PriorityQueue" where
  "pq_dequeue removed q =
     (if pq_paused q \<or> pq_pending q = [] then (Inr None, q)
      else case pq_pending q of
        [] \<Rightarrow> (Inr None, q)
      | job # rest \<Rightarrow>
          (let q1 = q\<lparr>pq_pending := rest\<rparr>
           in if job_bullJobId job \<notin> {None, Some ''''} \<and> \<not> removed then (Inl BullFailed, q1)
              else (Inr (Some job), q1\<lparr>pq_stats := (pq_stats q1)\<lparr>st_depth := int (length rest)\<rparr>\<rparr>)))"

definition pq_peek :: "'a PriorityQueue \<Rightarrow> 'a QueueJob option" where
  "pq_peek q = (case pq_pending q of [] \<Rightarrow> None | job # _ \<Rightarrow> Some job)"

definition pq_recordProcessed :: "int \<Rightarrow> int \<Rightarrow> PriorityClass \<Rightarrow> 'a PriorityQueue \<Rightarrow> 'a PriorityQueue" where
  "pq_recordProcessed waitTimeMs processingTimeMs jobPriority q =
     (let s = pq_stats q;
          s1 = s\<lparr>st_totalProcessed := st_totalProcessed s + 1,
                 st_totalWaitTimeMs := st_totalWaitTimeMs s + waitTimeMs,
                 st_totalProcessingTimeMs := st_totalProcessingTimeMs s + processingTimeMs,
                 st_lastWaitTimeMs := waitTimeMs, st_lastProcessingTimeMs := processingTimeMs\<rparr>
      in q\<lparr>pq_stats := (case LATENCY_SLO_MS jobPriority of
             Some slo \<Rightarrow> (if slo < waitTimeMs then s1\<lparr>st_sloViolations := st_sloViolations s1 + 1\<rparr> else s1)
           | None \<Rightarrow> s1)\<rparr>)"

definition pq_pause :: "'a PriorityQueue \<Rightarrow> 'a PriorityQueue" where
  "pq_pause q = q\<lparr>pq_paused := True, pq_stats := (pq_stats q)\<lparr>st_paused := True\<rparr>\<rparr>"

definition pq_resume :: "'a PriorityQueue \<Rightarrow> 'a PriorityQueue" where
  "pq_resume q = q\<lparr>pq_paused := False, pq_stats := (pq_stats q)\<lparr>st_paused := False\<rparr>\<rparr>"

section \<open>The queue contract\<close>

text \<open>
  What the scheduler needs of a class queue: enqueuing puts a job last, dequeuing takes the first,
  and nothing else is lost or reordered.
\<close>

locale fifo =
  fixes enq :: "'j \<Rightarrow> 'q \<Rightarrow> 'q option"
    and deq :: "'q \<Rightarrow> ('j \<times> 'q) option"
    and contents :: "'q \<Rightarrow> 'j list"
    and inv :: "'q \<Rightarrow> bool"
  assumes enq_contents: "inv q \<Longrightarrow> enq j q = Some q' \<Longrightarrow> inv q' \<and> contents q' = contents q @ [j]"
    and deq_contents: "inv q \<Longrightarrow> deq q = Some (j, q') \<Longrightarrow> inv q' \<and> contents q = j # contents q'"
begin

text \<open>A run of enqueues (\<open>Some j\<close>) and dequeues (\<open>None\<close>): what went in, what came out, the end.\<close>

fun trace :: "'q \<Rightarrow> 'j option list \<Rightarrow> 'j list \<times> 'j list \<times> 'q" where
  "trace q [] = ([], [], q)"
| "trace q (Some j # ops) =
     (case enq j q of
        None \<Rightarrow> trace q ops
      | Some q' \<Rightarrow> (case trace q' ops of (ins, outs, r) \<Rightarrow> (j # ins, outs, r)))"
| "trace q (None # ops) =
     (case deq q of
        None \<Rightarrow> trace q ops
      | Some (j, q') \<Rightarrow> (case trace q' ops of (ins, outs, r) \<Rightarrow> (ins, j # outs, r)))"

lemma trace_fifo:
  assumes "inv q" "trace q ops = (ins, outs, r)"
  shows "inv r \<and> contents q @ ins = outs @ contents r"
  using assms
proof (induction q ops arbitrary: ins outs r rule: trace.induct)
  case (1 q)
  then show ?case by simp
next
  case (2 q j ops)
  show ?case
  proof (cases "enq j q")
    case None
    with 2 show ?thesis by auto
  next
    case (Some q')
    with 2(3) have q': "inv q'" "contents q' = contents q @ [j]" by (auto dest: enq_contents)
    obtain ins' outs' r' where t: "trace q' ops = (ins', outs', r')" by (cases "trace q' ops")
    with 2(2) [OF Some q'(1)] have "inv r'" "contents q' @ ins' = outs' @ contents r'" by auto
    with 2(4) Some t q' show ?thesis by auto
  qed
next
  case (3 q ops)
  show ?case
  proof (cases "deq q")
    case None
    with 3 show ?thesis by auto
  next
    case (Some p)
    obtain j q' where p: "p = (j, q')" by (cases p)
    with Some 3(3) have q': "inv q'" "contents q = j # contents q'" by (auto dest: deq_contents)
    obtain ins' outs' r' where t: "trace q' ops = (ins', outs', r')" by (cases "trace q' ops")
    with 3(2) [OF Some p [symmetric] q'(1)] have "inv r'" "contents q' @ ins' = outs' @ contents r'" by auto
    with 3(4) Some p t q' show ?thesis by auto
  qed
qed

end

text \<open>Well-formed: the mirrored depth is the list's length, and the capacity is respected.\<close>

definition pq_ok :: "'a PriorityQueue \<Rightarrow> bool" where
  "pq_ok q \<longleftrightarrow> st_depth (pq_stats q) = pq_depth q \<and> pq_depth q \<le> pq_maxSize q \<and>
     st_paused (pq_stats q) = pq_paused q \<and> pq_depth q \<le> st_totalEnqueued (pq_stats q)"

definition pq_enq :: "'a QueueJob \<Rightarrow> 'a PriorityQueue \<Rightarrow> 'a PriorityQueue option" where
  "pq_enq job q = (if pq_add_begin q = None then Some (pq_push job q) else None)"

definition pq_deq :: "'a PriorityQueue \<Rightarrow> ('a QueueJob \<times> 'a PriorityQueue) option" where
  "pq_deq q = (case pq_dequeue True q of (Inr (Some job), q') \<Rightarrow> Some (job, q') | _ \<Rightarrow> None)"

lemma pq_ok_push: "pq_ok q \<Longrightarrow> \<not> pq_isFull q \<Longrightarrow> pq_ok (pq_push job q)"
  by (auto simp: pq_ok_def pq_push_def pq_depth_def pq_isFull_def Let_def)

lemma pq_ok_dequeue: "pq_ok q \<Longrightarrow> pq_dequeue True q = (r, q') \<Longrightarrow> pq_ok q'"
  by (auto simp: pq_ok_def pq_dequeue_def pq_depth_def Let_def split: list.splits if_splits)

interpretation class_queue: fifo pq_enq pq_deq pq_pending pq_ok
proof
  fix q :: "'a PriorityQueue" and j q'
  assume ok: "pq_ok q"
  show "pq_enq j q = Some q' \<Longrightarrow> pq_ok q' \<and> pq_pending q' = pq_pending q @ [j]"
    using ok pq_ok_push [of q j]
    by (auto simp: pq_enq_def pq_add_begin_def pq_push_def Let_def split: if_splits)
  show "pq_deq q = Some (j, q') \<Longrightarrow> pq_ok q' \<and> pq_pending q = j # pq_pending q'"
    using ok pq_ok_dequeue [OF ok]
    by (auto simp: pq_deq_def pq_dequeue_def Let_def split: list.splits if_splits)
qed

section \<open>Segments and runs\<close>

text \<open>
  \<open>add\<close> and \<open>dequeue\<close> await BullMQ, and other operations run meanwhile. Here both are split
  at their awaits. \<open>add\<close>: the checks and the arguments it keeps (\<open>pq_add_begin\<close>), then
  \<open>pq_add_finish\<close> on BullMQ's answer. \<open>dequeue\<close>: the shift (\<open>pq_take\<close>), then
  \<open>pq_take_finish\<close> on the outcome of the removal, for a job that has a BullMQ id.
\<close>

record 'a add_call =
  ac_now :: int
  ac_name :: string
  ac_data :: 'a
  ac_opts :: EnqueueOptions

definition pq_add_finish :: "'a add_call \<Rightarrow> (unit + string option) \<Rightarrow> 'a PriorityQueue
    \<Rightarrow> (queue_error + 'a QueueJob) \<times> 'a PriorityQueue" where
  "pq_add_finish c bull q =
     (case bull of
        Inl _ \<Rightarrow> (Inl BullFailed, q)
      | Inr bullId \<Rightarrow>
          (let job = mk_job (ac_now c) (pq_priority q) (ac_name c) (ac_data c) (ac_opts c) bullId
           in (Inr job, pq_push job q)))"

definition awaits_removal :: "'a QueueJob \<Rightarrow> bool" where
  "awaits_removal job \<longleftrightarrow> job_bullJobId job \<notin> {None, Some ''''}"

definition pq_take :: "'a PriorityQueue \<Rightarrow> 'a QueueJob option \<times> 'a PriorityQueue" where
  "pq_take q =
     (if pq_paused q \<or> pq_pending q = [] then (None, q)
      else case pq_pending q of
        [] \<Rightarrow> (None, q)
      | job # rest \<Rightarrow> (Some job, q\<lparr>pq_pending := rest\<rparr>))"

definition pq_take_finish :: "'a QueueJob \<Rightarrow> bool \<Rightarrow> 'a PriorityQueue
    \<Rightarrow> (queue_error + 'a QueueJob option) \<times> 'a PriorityQueue" where
  "pq_take_finish job removed q =
     (if awaits_removal job \<and> \<not> removed then (Inl BullFailed, q)
      else (Inr (Some job), q\<lparr>pq_stats := (pq_stats q)\<lparr>st_depth := pq_depth q\<rparr>\<rparr>))"

text \<open>Run without interruption the segments are the operations.\<close>

lemma pq_add_segments:
  "pq_add now bull name data opts q =
     (case pq_add_begin q of
        Some err \<Rightarrow> (Inl err, q)
      | None \<Rightarrow> pq_add_finish \<lparr>ac_now = now, ac_name = name, ac_data = data, ac_opts = opts\<rparr> bull q)"
  by (simp add: pq_add_def pq_add_finish_def split: option.split sum.split)

lemma pq_dequeue_segments:
  "pq_dequeue removed q =
     (case pq_take q of
        (None, q1) \<Rightarrow> (Inr None, q1)
      | (Some job, q1) \<Rightarrow> pq_take_finish job removed q1)"
  by (auto simp: pq_dequeue_def pq_take_def pq_take_finish_def awaits_removal_def pq_depth_def Let_def
      split: list.split)

datatype 'a pq_event =
    PAddStart int string 'a EnqueueOptions
  | PAddAnswer nat "unit + string option"
  | PDequeue
  | PRemoval nat bool
  | PPause
  | PResume
  | PRecord int int PriorityClass

text \<open>
  A class queue with the calls that wait for BullMQ, and the history of the run: the jobs accepted
  (pushed), taken (shifted), handed to a caller, lost (their removal failed), and the largest number
  of adds that were open when another one passed its checks.
\<close>

record 'a pq_sys =
  ps_queue :: "'a PriorityQueue"
  ps_adds :: "'a add_call list"
  ps_removing :: "'a QueueJob list"
  ps_accepted :: "'a QueueJob list"
  ps_taken :: "'a QueueJob list"
  ps_handed :: "'a QueueJob list"
  ps_lost :: "'a QueueJob list"
  ps_overlap :: nat

definition pq_started :: "'a PriorityQueue \<Rightarrow> 'a pq_sys" where
  "pq_started q = \<lparr>ps_queue = q, ps_adds = [], ps_removing = [], ps_accepted = [], ps_taken = [],
     ps_handed = [], ps_lost = [], ps_overlap = 0\<rparr>"

definition remove_nth :: "nat \<Rightarrow> 'b list \<Rightarrow> 'b list" where
  "remove_nth i xs = take i xs @ drop (Suc i) xs"

fun pq_step :: "'a pq_sys \<Rightarrow> 'a pq_event \<Rightarrow> 'a pq_sys" where
  "pq_step S (PAddStart now name data opts) =
     (case pq_add_begin (ps_queue S) of
        Some err \<Rightarrow> S
      | None \<Rightarrow>
          S\<lparr>ps_adds := ps_adds S @ [\<lparr>ac_now = now, ac_name = name, ac_data = data, ac_opts = opts\<rparr>],
            ps_overlap := max (ps_overlap S) (length (ps_adds S))\<rparr>)"
| "pq_step S (PAddAnswer i bull) =
     (if i < length (ps_adds S) then
        (case pq_add_finish (ps_adds S ! i) bull (ps_queue S) of
           (Inl err, q) \<Rightarrow> S\<lparr>ps_queue := q, ps_adds := remove_nth i (ps_adds S)\<rparr>
         | (Inr job, q) \<Rightarrow>
             S\<lparr>ps_queue := q, ps_adds := remove_nth i (ps_adds S), ps_accepted := ps_accepted S @ [job]\<rparr>)
      else S)"
| "pq_step S PDequeue =
     (case pq_take (ps_queue S) of
        (None, q) \<Rightarrow> S\<lparr>ps_queue := q\<rparr>
      | (Some job, q) \<Rightarrow>
          (let S1 = S\<lparr>ps_queue := q, ps_taken := ps_taken S @ [job]\<rparr>
           in if awaits_removal job then S1\<lparr>ps_removing := ps_removing S @ [job]\<rparr>
              else S1\<lparr>ps_queue := snd (pq_take_finish job True q), ps_handed := ps_handed S @ [job]\<rparr>))"
| "pq_step S (PRemoval i removed) =
     (if i < length (ps_removing S) then
        (let job = ps_removing S ! i; S1 = S\<lparr>ps_removing := remove_nth i (ps_removing S)\<rparr>
         in case pq_take_finish job removed (ps_queue S) of
              (Inr _, q) \<Rightarrow> S1\<lparr>ps_queue := q, ps_handed := ps_handed S @ [job]\<rparr>
            | (Inl _, q) \<Rightarrow> S1\<lparr>ps_queue := q, ps_lost := ps_lost S @ [job]\<rparr>)
      else S)"
| "pq_step S PPause = S\<lparr>ps_queue := pq_pause (ps_queue S)\<rparr>"
| "pq_step S PResume = S\<lparr>ps_queue := pq_resume (ps_queue S)\<rparr>"
| "pq_step S (PRecord w t p) = S\<lparr>ps_queue := pq_recordProcessed w t p (ps_queue S)\<rparr>"

abbreviation pq_run :: "'a PriorityQueue \<Rightarrow> 'a pq_event list \<Rightarrow> 'a pq_sys" where
  "pq_run q es \<equiv> foldl pq_step (pq_started q) es"

section \<open>Properties\<close>

lemma mset_remove_nth: "i < length xs \<Longrightarrow> mset xs = add_mset (xs ! i) (mset (remove_nth i xs))"
  by (metis add_mset_add_single id_take_nth_drop mset.simps(2) mset_append remove_nth_def union_mset_add_mset_right)

lemma length_remove_nth [simp]: "i < length xs \<Longrightarrow> length (remove_nth i xs) = length xs - 1"
  by (simp add: remove_nth_def min_def)

lemma pq_mode_views:
  "pq_pending (pq_pause q) = pq_pending q" "pq_pending (pq_resume q) = pq_pending q"
  "pq_pending (pq_recordProcessed w t p q) = pq_pending q"
  "pq_maxSize (pq_pause q) = pq_maxSize q" "pq_maxSize (pq_resume q) = pq_maxSize q"
  "pq_maxSize (pq_recordProcessed w t p q) = pq_maxSize q"
  "st_depth (pq_stats (pq_pause q)) = st_depth (pq_stats q)" "st_depth (pq_stats (pq_resume q)) = st_depth (pq_stats q)"
  "st_depth (pq_stats (pq_recordProcessed w t p q)) = st_depth (pq_stats q)"
  "st_totalEnqueued (pq_stats (pq_pause q)) = st_totalEnqueued (pq_stats q)"
  "st_totalEnqueued (pq_stats (pq_resume q)) = st_totalEnqueued (pq_stats q)"
  "st_totalEnqueued (pq_stats (pq_recordProcessed w t p q)) = st_totalEnqueued (pq_stats q)"
  by (simp_all add: pq_pause_def pq_resume_def pq_recordProcessed_def Let_def split: option.split)

lemma pq_push_views:
  "pq_pending (pq_push job q) = pq_pending q @ [job]" "pq_maxSize (pq_push job q) = pq_maxSize q"
  "st_depth (pq_stats (pq_push job q)) = int (length (pq_pending q)) + 1"
  "st_totalEnqueued (pq_stats (pq_push job q)) = st_totalEnqueued (pq_stats q) + 1"
  by (simp_all add: pq_push_def Let_def)

text \<open>What every step keeps, started from the queue \<open>q0\<close>.\<close>

definition pq_sys_ok :: "'a PriorityQueue \<Rightarrow> 'a pq_sys \<Rightarrow> bool" where
  "pq_sys_ok q0 S \<longleftrightarrow>
     pq_pending q0 @ ps_accepted S = ps_taken S @ pq_pending (ps_queue S) \<and>
     mset (ps_taken S) = mset (ps_handed S) + mset (ps_lost S) + mset (ps_removing S) \<and>
     pq_maxSize (ps_queue S) = pq_maxSize q0 \<and>
     pq_depth (ps_queue S) + int (length (ps_adds S)) \<le> pq_maxSize q0 + int (ps_overlap S) \<and>
     (ps_removing S = [] \<and> ps_lost S = [] \<longrightarrow> st_depth (pq_stats (ps_queue S)) = pq_depth (ps_queue S)) \<and>
     st_totalEnqueued (pq_stats (ps_queue S)) = st_totalEnqueued (pq_stats q0) + int (length (ps_accepted S))"

lemma pq_sys_ok_started: "pq_ok q \<Longrightarrow> pq_sys_ok q (pq_started q)"
  by (simp add: pq_sys_ok_def pq_started_def pq_ok_def)

lemma pq_sys_ok_add_start:
  assumes "pq_sys_ok q0 S"
  shows "pq_sys_ok q0 (pq_step S (PAddStart now name data opts))"
  using assms
  by (auto simp: pq_sys_ok_def pq_add_begin_def pq_isFull_def split: option.splits if_splits)

lemma pq_sys_ok_add_answer:
  assumes "pq_sys_ok q0 S"
  shows "pq_sys_ok q0 (pq_step S (PAddAnswer i bull))"
proof (cases "i < length (ps_adds S)")
  case True
  then have len: "int (length (remove_nth i (ps_adds S))) = int (length (ps_adds S)) - 1" by simp
  show ?thesis
  proof (cases bull)
    case (Inl u)
    then have "pq_step S (PAddAnswer i bull) = S\<lparr>ps_adds := remove_nth i (ps_adds S)\<rparr>"
      using True by (simp add: pq_add_finish_def)
    then show ?thesis using assms len by (simp add: pq_sys_ok_def)
  next
    case (Inr bullId)
    then obtain job where "pq_step S (PAddAnswer i bull) = S\<lparr>ps_queue := pq_push job (ps_queue S),
        ps_adds := remove_nth i (ps_adds S), ps_accepted := ps_accepted S @ [job]\<rparr>"
      using True by (simp add: pq_add_finish_def Let_def)
    then show ?thesis using assms len by (simp add: pq_sys_ok_def pq_push_views pq_depth_def)
  qed
qed (use assms in simp)

lemma pq_sys_ok_dequeue:
  assumes "pq_sys_ok q0 S"
  shows "pq_sys_ok q0 (pq_step S PDequeue)"
proof (cases "pq_take (ps_queue S)")
  case (Pair r q)
  show ?thesis
  proof (cases r)
    case None
    with Pair have "q = ps_queue S" by (auto simp: pq_take_def split: list.splits if_splits)
    with Pair None assms show ?thesis by simp
  next
    case (Some job)
    with Pair have q: "pq_pending (ps_queue S) = job # pq_pending q" "q = (ps_queue S)\<lparr>pq_pending := pq_pending q\<rparr>"
      by (auto simp: pq_take_def split: list.splits if_splits)
    have "pq_maxSize q = pq_maxSize (ps_queue S)" "pq_stats q = pq_stats (ps_queue S)"
      by (subst q(2), simp)+
    then show ?thesis using assms Pair Some q(1)
      by (auto simp: pq_sys_ok_def pq_take_finish_def pq_depth_def Let_def)
  qed
qed

lemma pq_sys_ok_removal:
  assumes "pq_sys_ok q0 S"
  shows "pq_sys_ok q0 (pq_step S (PRemoval i removed))"
proof (cases "i < length (ps_removing S)")
  case True
  let ?job = "ps_removing S ! i"
  have ms: "mset (ps_removing S) = add_mset ?job (mset (remove_nth i (ps_removing S)))"
    by (rule mset_remove_nth [OF True])
  have ne: "ps_removing S \<noteq> []" using True by auto
  show ?thesis
  proof (cases "awaits_removal ?job \<and> \<not> removed")
    case lost: True
    then have "pq_step S (PRemoval i removed) = S\<lparr>ps_removing := remove_nth i (ps_removing S), ps_lost := ps_lost S @ [?job]\<rparr>"
      using True by (simp add: pq_take_finish_def Let_def)
    then show ?thesis using assms ms by (simp add: pq_sys_ok_def)
  next
    case handed: False
    let ?q = "(ps_queue S)\<lparr>pq_stats := (pq_stats (ps_queue S))\<lparr>st_depth := pq_depth (ps_queue S)\<rparr>\<rparr>"
    have fin: "pq_take_finish ?job removed (ps_queue S) = (Inr (Some ?job), ?q)"
      using handed by (auto simp: pq_take_finish_def)
    have "pq_step S (PRemoval i removed) = S\<lparr>ps_removing := remove_nth i (ps_removing S), ps_queue := ?q,
        ps_handed := ps_handed S @ [?job]\<rparr>"
      using True by (simp add: fin Let_def)
    then show ?thesis using assms ms by (simp add: pq_sys_ok_def pq_depth_def)
  qed
qed (use assms in simp)

lemma pq_sys_ok_step: "pq_sys_ok q0 S \<Longrightarrow> pq_sys_ok q0 (pq_step S e)"
proof (cases e)
  case PDequeue
  assume "pq_sys_ok q0 S"
  then show ?thesis unfolding PDequeue by (rule pq_sys_ok_dequeue)
qed (simp_all only: pq_sys_ok_add_start pq_sys_ok_add_answer pq_sys_ok_removal,
  simp_all add: pq_sys_ok_def pq_mode_views pq_depth_def)

interpretation class_queue_runs: machine pq_step "pq_sys_ok q0" for q0 :: "'a PriorityQueue"
  by unfold_locales (rule pq_sys_ok_step)

text \<open>C38: A class queue is first-in first-out and accounts for every job, whatever the interleaving:
  \<open>add\<close> and \<open>dequeue\<close> are split at their awaits, adds and removals may overlap, BullMQ may refuse an
  add or fail a removal, and pauses, resumes and completions come in between. The jobs taken, followed
  by the jobs still pending, are the jobs pending before followed by the accepted ones, in order. Every
  job taken is exactly once handed to a caller, or still waiting for its removal, or lost because its
  removal failed. The pending jobs and the open adds together exceed the capacity by no more than the
  largest number of adds that were open when another add passed its check; so when adds do not overlap
  the capacity holds. The number enqueued is counted right, and the mirrored depth is right whenever
  no removal is open and none has failed.\<close>

theorem class_queue_is_fifo:
  fixes q :: "'a PriorityQueue"
  assumes "pq_ok q"
  shows "let S = pq_run q es; q' = ps_queue S in
      pq_pending q @ ps_accepted S = ps_taken S @ pq_pending q' \<and>
      mset (ps_taken S) = mset (ps_handed S) + mset (ps_lost S) + mset (ps_removing S) \<and>
      pq_depth q' + int (length (ps_adds S)) \<le> pq_maxSize q' + int (ps_overlap S) \<and>
      (ps_overlap S = 0 \<longrightarrow> pq_depth q' \<le> pq_maxSize q') \<and>
      st_totalEnqueued (pq_stats q') = st_totalEnqueued (pq_stats q) + int (length (ps_accepted S)) \<and>
      (ps_removing S = [] \<and> ps_lost S = [] \<longrightarrow> st_depth (pq_stats q') = pq_depth q')"
proof -
  have "pq_sys_ok q (pq_run q es)"
    by (rule class_queue_runs.run_inv [OF pq_sys_ok_started [OF assms]])
  then show ?thesis by (auto simp: pq_sys_ok_def Let_def)
qed

definition no_options :: EnqueueOptions where
  "no_options = \<lparr>eo_parentPriority = None, eo_delay = None, eo_jobId = None\<rparr>"

lemma class_queue_is_fifo_witness:
  "let S = pq_run (newPriorityQueue High (Some 1)) [PAddStart 1 ''a'' (7::int) no_options, PAddStart 2 ''b'' 8 no_options,
       PAddAnswer 1 (Inr (Some ''b2'')), PAddAnswer 0 (Inr (Some ''a1'')), PDequeue, PDequeue, PRemoval 0 False, PRemoval 0 True]
   in ps_accepted S = ps_taken S \<and> mset (ps_taken S) = mset (ps_handed S) + mset (ps_lost S) \<and>
      length (ps_handed S) = 1 \<and> length (ps_lost S) = 1 \<and> ps_overlap S = 1"
proof -
  let ?q = "newPriorityQueue High (Some 1) :: int PriorityQueue"
  let ?es = "[PAddStart 1 ''a'' (7::int) no_options, PAddStart 2 ''b'' 8 no_options,
       PAddAnswer 1 (Inr (Some ''b2'')), PAddAnswer 0 (Inr (Some ''a1'')), PDequeue, PDequeue, PRemoval 0 False, PRemoval 0 True]"
  have ok: "pq_ok ?q" by (simp add: pq_ok_def newPriorityQueue_def emptyStats_def pq_depth_def Let_def)
  define S where "S = pq_run ?q ?es"
  have "length (ps_handed S) = 1 \<and> length (ps_lost S) = 1 \<and>
      ps_overlap S = 1 \<and> ps_removing S = [] \<and> pq_pending (ps_queue S) = []"
    unfolding S_def by code_simp
  moreover have "pq_pending ?q = []" by (simp add: newPriorityQueue_def Let_def)
  moreover note class_queue_is_fifo [OF ok, of ?es, unfolded Let_def, folded S_def]
  ultimately show ?thesis unfolding S_def [symmetric] by (simp add: Let_def)
qed

lemma pq_add_cases:
  "case pq_add now bull name data opts q of
      (Inl e, q') \<Rightarrow> q' = q
    | (Inr job, q') \<Rightarrow> pq_enq job q = Some q'"
  by (auto simp: pq_add_def pq_enq_def Let_def split: option.split sum.split)

text \<open>The capacity is checked before an \<open>await\<close> and the job pushed after it: adds that overlap all
  pass the check on the same queue, so \<open>n\<close> of them that started while there was room end with \<open>n\<close>
  more pending jobs, beyond \<open>maxSize\<close> when \<open>n\<close> exceeds the room; run one after another they
  never exceed it.\<close>

theorem overlapping_adds_exceed_capacity:
  assumes "pq_ok q" "pq_add_begin q = None"
  shows "pq_depth (foldl (\<lambda>q job. pq_push job q) q jobs) = pq_depth q + int (length jobs) \<and>
    (pq_maxSize q < pq_depth q + int (length jobs) \<longrightarrow>
      pq_maxSize (foldl (\<lambda>q job. pq_push job q) q jobs) < pq_depth (foldl (\<lambda>q job. pq_push job q) q jobs)) \<and>
    pq_depth (snd (pq_add now bull name data opts q)) \<le> pq_maxSize (snd (pq_add now bull name data opts q))"
proof -
  have push: "pq_depth (foldl (\<lambda>q job. pq_push job q) q jobs) = pq_depth q + int (length jobs) \<and>
      pq_maxSize (foldl (\<lambda>q job. pq_push job q) q jobs) = pq_maxSize q" for q
    by (induction jobs arbitrary: q) (auto simp: pq_push_def pq_depth_def Let_def)
  have "pq_ok (snd (pq_add now bull name data opts q))"
    using assms(1) pq_add_cases [where q = q and now = now and bull = bull and name = name and data = data and opts = opts] class_queue.enq_contents [OF assms(1)]
    by (cases "pq_add now bull name data opts q"; cases "fst (pq_add now bull name data opts q)") auto
  then show ?thesis using push [of q] by (simp add: pq_ok_def)
qed

lemma overlapping_adds_exceed_capacity_witness:
  "pq_depth (foldl (\<lambda>q job. pq_push job q) (newPriorityQueue Low (Some 1))
      [mk_job 1 Low ''a'' (1::int) no_options None, mk_job 1 Low ''b'' 2 no_options None]) = 2"
proof -
  have h: "pq_ok (newPriorityQueue Low (Some 1) :: int PriorityQueue)"
    "pq_add_begin (newPriorityQueue Low (Some 1) :: int PriorityQueue) = None"
    by (simp_all add: pq_ok_def newPriorityQueue_def emptyStats_def pq_depth_def pq_add_begin_def pq_isFull_def Let_def)
  from overlapping_adds_exceed_capacity [OF h, of "[mk_job 1 Low ''a'' (1::int) no_options None, mk_job 1 Low ''b'' 2 no_options None]"]
  show ?thesis by (simp add: newPriorityQueue_def pq_depth_def Let_def)
qed

end
