(* ===== verification/FairQueue.thy ===== *)
theory FairQueue
  imports Complex_Main PriorityQueues
begin

text \<open>
  The weighted fair queue of \<^verbatim>\<open>backend/shared/queue/weightedFairQueue.ts\<close>: deficit round robin over
  the four class queues of \<open>PriorityQueues\<close>, with idle capacity shared out, a floor for the low
  class and backpressure. A \<open>Record<PriorityClass, number>\<close> is a function of the class, weights and
  deficits are rationals, the \<open>Set\<close> of paused classes is the list of its insertion order.
  JavaScript's \<open>0 / 0\<close> of an all-zero weight table is excluded by positive weights.
\<close>

section \<open>The pure scheduling functions\<close>

definition DEFAULT_PRIORITY_WEIGHTS :: "PriorityClass \<Rightarrow> rat" where
  "DEFAULT_PRIORITY_WEIGHTS p = (case p of Critical \<Rightarrow> 50 | High \<Rightarrow> 25 | Normal \<Rightarrow> 15 | Low \<Rightarrow> 10)"

definition LOW_PRIORITY_MIN_CAPACITY_PERCENT :: rat where
  "LOW_PRIORITY_MIN_CAPACITY_PERCENT = 1"

definition class_sum :: "(PriorityClass \<Rightarrow> rat) \<Rightarrow> rat" where
  "class_sum f = sum_list (map f PRIORITY_ORDER)"

text \<open>Lines 47-56: idle or paused classes give their weight up.\<close>

definition zero_idle :: "PriorityClass set \<Rightarrow> (PriorityClass \<Rightarrow> int) \<Rightarrow> (PriorityClass \<Rightarrow> rat)
    \<Rightarrow> (PriorityClass \<Rightarrow> rat) \<times> rat" where
  "zero_idle paused depths base =
     fold (\<lambda>p (effective, redistributable).
        if p \<in> paused \<or> depths p = 0 then (effective(p := 0), redistributable + effective p)
        else (effective, redistributable)) PRIORITY_ORDER (base, 0)"

definition active_classes :: "PriorityClass set \<Rightarrow> (PriorityClass \<Rightarrow> int) \<Rightarrow> PriorityClass list" where
  "active_classes paused depths = filter (\<lambda>p. p \<notin> paused \<and> 0 < depths p) PRIORITY_ORDER"

text \<open>Lines 58-65: the capacity given up is shared in proportion to the base weights.\<close>

definition share_idle :: "(PriorityClass \<Rightarrow> rat) \<Rightarrow> PriorityClass list \<Rightarrow> rat \<Rightarrow> (PriorityClass \<Rightarrow> rat)
    \<Rightarrow> PriorityClass \<Rightarrow> rat" where
  "share_idle base active redistributable effective =
     (if active \<noteq> [] \<and> 0 < redistributable then
        (let activeWeightSum = sum_list (map base active)
         in fold (\<lambda>p e. e(p := e p + redistributable * (base p / activeWeightSum))) active effective)
      else effective)"

text \<open>Lines 76-83: the donors are asked in order until nothing remains to be given.\<close>

definition donate_step :: "rat \<Rightarrow> PriorityClass \<Rightarrow> (PriorityClass \<Rightarrow> rat) \<times> rat \<Rightarrow> (PriorityClass \<Rightarrow> rat) \<times> rat" where
  "donate_step minLow donor s =
     (case s of (e, remaining) \<Rightarrow>
        if remaining \<le> 0 then (e, remaining)
        else (let take = min remaining (e donor - minLow);
                  e1 = e(donor := e donor - take);
                  e2 = e1(Low := e1 Low + take)
              in (e2, remaining - take)))"

definition protect_low :: "PriorityClass set \<Rightarrow> (PriorityClass \<Rightarrow> int) \<Rightarrow> (PriorityClass \<Rightarrow> rat)
    \<Rightarrow> PriorityClass \<Rightarrow> rat" where
  "protect_low paused depths effective =
     (if Low \<notin> paused \<and> 0 < depths Low then
        (let total = class_sum effective;
             minLow = (LOW_PRIORITY_MIN_CAPACITY_PERCENT / 100) * max total 100
         in if effective Low < minLow then
              (let donors = filter (\<lambda>p. p \<noteq> Low \<and> minLow < effective p) PRIORITY_ORDER
               in fst (fold (donate_step minLow) donors (effective, minLow - effective Low)))
            else effective)
      else effective)"

definition computeEffectiveWeights :: "(PriorityClass \<Rightarrow> rat) \<Rightarrow> (PriorityClass \<Rightarrow> int) \<Rightarrow> PriorityClass set
    \<Rightarrow> PriorityClass \<Rightarrow> rat" where
  "computeEffectiveWeights base depths paused =
     (case zero_idle paused depths base of (effective, redistributable) \<Rightarrow>
        protect_low paused depths
          (share_idle base (active_classes paused depths) redistributable effective))"

text \<open>Lines 96-106: each class with work earns its weight; the first largest deficit wins.\<close>

definition earn_step :: "PriorityClass set \<Rightarrow> (PriorityClass \<Rightarrow> int) \<Rightarrow> (PriorityClass \<Rightarrow> rat) \<Rightarrow> PriorityClass
    \<Rightarrow> (PriorityClass \<Rightarrow> rat) \<times> PriorityClass option \<Rightarrow> (PriorityClass \<Rightarrow> rat) \<times> PriorityClass option" where
  "earn_step paused depths weights p s =
     (case s of (deficits, best) \<Rightarrow>
        if p \<in> paused \<or> depths p = 0 then (deficits, best)
        else (let d = deficits(p := deficits p + weights p)
              in (d, case best of
                   None \<Rightarrow> Some p
                 | Some b \<Rightarrow> if d b < d p then Some p else Some b)))"

text \<open>The answer and the deficits, which the code updates in place.\<close>

definition selectNextPriority :: "(PriorityClass \<Rightarrow> rat) \<Rightarrow> (PriorityClass \<Rightarrow> int) \<Rightarrow> (PriorityClass \<Rightarrow> rat)
    \<Rightarrow> PriorityClass set \<Rightarrow> PriorityClass option \<times> (PriorityClass \<Rightarrow> rat)" where
  "selectNextPriority deficits depths effectiveWeights paused =
     (case fold (earn_step paused depths effectiveWeights) PRIORITY_ORDER (deficits, None) of
        (d, None) \<Rightarrow> (None, d)
      | (d, Some best) \<Rightarrow>
          (let weightSum = class_sum (\<lambda>p. if 0 < depths p \<and> p \<notin> paused then effectiveWeights p else 0)
           in (Some best, d(best := d best - (if 0 < weightSum then weightSum else effectiveWeights best)))))"

definition resolveBackpressure :: "(PriorityClass \<Rightarrow> int) \<Rightarrow> int \<Rightarrow> PriorityClass set \<Rightarrow> PriorityClass option" where
  "resolveBackpressure depths maxSize currentlyPaused =
     (if list_all (\<lambda>p. p \<in> currentlyPaused \<or> maxSize \<le> depths p) PRIORITY_ORDER
      then js_find (\<lambda>p. p \<notin> currentlyPaused) (rev (tl PRIORITY_ORDER))
      else None)"

section \<open>The scheduler\<close>

record 'a WeightedFairQueue =
  wfq_queues :: "PriorityClass \<Rightarrow> 'a PriorityQueue"
  wfq_weights :: "PriorityClass \<Rightarrow> rat"
  wfq_maxSize :: int
  wfq_deficits :: "PriorityClass \<Rightarrow> rat"
  wfq_paused :: "PriorityClass list"
  wfq_workerTimer :: bool
  wfq_processing :: bool

definition newWeightedFairQueue :: "(PriorityClass \<Rightarrow> 'a PriorityQueue) \<Rightarrow> (PriorityClass \<Rightarrow> rat) option
    \<Rightarrow> int option \<Rightarrow> 'a WeightedFairQueue" where
  "newWeightedFairQueue queues weights maxQueueSize =
     \<lparr>wfq_queues = queues,
      wfq_weights = (case weights of None \<Rightarrow> DEFAULT_PRIORITY_WEIGHTS | Some w \<Rightarrow> w),
      wfq_maxSize = (case maxQueueSize of None \<Rightarrow> 10000 | Some n \<Rightarrow> n),
      wfq_deficits = (\<lambda>p. 0), wfq_paused = [], wfq_workerTimer = False, wfq_processing = False\<rparr>"

definition getDepths :: "'a WeightedFairQueue \<Rightarrow> PriorityClass \<Rightarrow> int" where
  "getDepths w = (\<lambda>p. pq_depth (wfq_queues w p))"

definition wfq_effective :: "'a WeightedFairQueue \<Rightarrow> PriorityClass \<Rightarrow> rat" where
  "wfq_effective w = computeEffectiveWeights (wfq_weights w) (getDepths w) (set (wfq_paused w))"

record SchedulerSnapshot =
  ss_effectiveWeights :: "PriorityClass \<Rightarrow> rat"
  ss_deficits :: "PriorityClass \<Rightarrow> rat"
  ss_depths :: "PriorityClass \<Rightarrow> int"
  ss_paused :: "PriorityClass list"

definition wfq_getSnapshot :: "'a WeightedFairQueue \<Rightarrow> SchedulerSnapshot" where
  "wfq_getSnapshot w = \<lparr>ss_effectiveWeights = wfq_effective w, ss_deficits = wfq_deficits w,
     ss_depths = getDepths w, ss_paused = wfq_paused w\<rparr>"

definition wfq_getStats :: "'a WeightedFairQueue \<Rightarrow> PriorityClass \<Rightarrow> PriorityQueueStats" where
  "wfq_getStats w = (\<lambda>p. pq_getStats (wfq_queues w p))"

definition set_queue :: "PriorityClass \<Rightarrow> 'a PriorityQueue \<Rightarrow> 'a WeightedFairQueue \<Rightarrow> 'a WeightedFairQueue" where
  "set_queue p q w = w\<lparr>wfq_queues := (wfq_queues w)(p := q)\<rparr>"

definition applyBackpressure :: "'a WeightedFairQueue \<Rightarrow> PriorityClass option \<times> 'a WeightedFairQueue" where
  "applyBackpressure w =
     (case resolveBackpressure (getDepths w) (wfq_maxSize w) (set (wfq_paused w)) of
        None \<Rightarrow> (None, w)
      | Some p \<Rightarrow> (Some p, (set_queue p (pq_pause (wfq_queues w p)) w)
                     \<lparr>wfq_paused := wfq_paused w @ (if p \<in> set (wfq_paused w) then [] else [p])\<rparr>))"

definition wfq_enqueue :: "int \<Rightarrow> (unit + string option) \<Rightarrow> PriorityClass \<Rightarrow> string \<Rightarrow> 'a \<Rightarrow> EnqueueOptions
    \<Rightarrow> 'a WeightedFairQueue \<Rightarrow> (queue_error + 'a QueueJob) \<times> 'a WeightedFairQueue" where
  "wfq_enqueue now bull priority name data opts w =
     (let w1 = snd (applyBackpressure w)
      in if priority \<in> set (wfq_paused w1) \<or> pq_paused (wfq_queues w1 priority)
         then (Inl (QueuePaused priority), w1)
         else (case pq_add now bull name data opts (wfq_queues w1 priority) of
                 (r, q) \<Rightarrow> (r, set_queue priority q w1)))"

definition wfq_spawnSubJob :: "int \<Rightarrow> (unit + string option) \<Rightarrow> PriorityClass \<Rightarrow> string \<Rightarrow> 'a
    \<Rightarrow> 'a WeightedFairQueue \<Rightarrow> (queue_error + 'a QueueJob) \<times> 'a WeightedFairQueue" where
  "wfq_spawnSubJob now bull parentPriority name data w =
     wfq_enqueue now bull parentPriority name data
       \<lparr>eo_parentPriority = Some parentPriority, eo_delay = None, eo_jobId = None\<rparr> w"

definition scheduleNext :: "bool \<Rightarrow> 'a WeightedFairQueue
    \<Rightarrow> (queue_error + (PriorityClass \<times> 'a QueueJob) option) \<times> 'a WeightedFairQueue" where
  "scheduleNext removed w =
     (case selectNextPriority (wfq_deficits w) (getDepths w) (wfq_effective w) (set (wfq_paused w)) of
        (None, d) \<Rightarrow> (Inr None, w\<lparr>wfq_deficits := d\<rparr>)
      | (Some priority, d) \<Rightarrow>
          (let w1 = w\<lparr>wfq_deficits := d\<rparr>
           in case pq_dequeue removed (wfq_queues w priority) of
                (Inl e, q) \<Rightarrow> (Inl e, set_queue priority q w1)
              | (Inr None, q) \<Rightarrow> (Inr None, set_queue priority q w1)
              | (Inr (Some job), q) \<Rightarrow> (Inr (Some (priority, job)), set_queue priority q w1)))"

definition recordCompletion :: "int \<Rightarrow> PriorityClass \<Rightarrow> 'a QueueJob \<Rightarrow> int \<Rightarrow> 'a WeightedFairQueue \<Rightarrow> 'a WeightedFairQueue" where
  "recordCompletion now queuePriority job processingTimeMs w =
     set_queue queuePriority
       (pq_recordProcessed (now - job_enqueuedAt job) processingTimeMs (job_priority job)
          (wfq_queues w queuePriority)) w"

text \<open>
  \<open>processNext\<close>: the handlers are the caller's, so a handler is only whether it returns. The
  handler's exception is rethrown after the completion was recorded (\<open>finally\<close>).
\<close>

datatype process_error = ScheduleFailed queue_error | NoHandlerRegistered string | HandlerThrew

definition processNext :: "bool \<Rightarrow> (string \<Rightarrow> ('a QueueJob \<Rightarrow> bool) option) \<Rightarrow> int \<Rightarrow> int \<Rightarrow> int
    \<Rightarrow> 'a WeightedFairQueue \<Rightarrow> (process_error + bool) \<times> 'a WeightedFairQueue" where
  "processNext removed handlers start stop now w =
     (case scheduleNext removed w of
        (Inl e, w1) \<Rightarrow> (Inl (ScheduleFailed e), w1)
      | (Inr None, w1) \<Rightarrow> (Inr False, w1)
      | (Inr (Some (priority, job)), w1) \<Rightarrow>
          (case handlers (job_name job) of
             None \<Rightarrow> (Inl (NoHandlerRegistered (job_name job)), w1)
           | Some handler \<Rightarrow>
               (let w2 = recordCompletion now priority job (stop - start) w1
                in (if handler job then Inr True else Inl HandlerThrew, w2))))"

definition startProcessing :: "'a WeightedFairQueue \<Rightarrow> 'a WeightedFairQueue" where
  "startProcessing w = (if wfq_workerTimer w then w else w\<lparr>wfq_workerTimer := True\<rparr>)"

text \<open>A tick of the interval starts a round unless one is running; \<open>tick_end\<close> is its \<open>finally\<close>.\<close>

definition tick_begin :: "'a WeightedFairQueue \<Rightarrow> bool \<times> 'a WeightedFairQueue" where
  "tick_begin w = (if wfq_processing w then (False, w) else (True, w\<lparr>wfq_processing := True\<rparr>))"

definition tick_end :: "'a WeightedFairQueue \<Rightarrow> 'a WeightedFairQueue" where
  "tick_end w = w\<lparr>wfq_processing := False\<rparr>"

definition stopProcessing :: "'a WeightedFairQueue \<Rightarrow> 'a WeightedFairQueue" where
  "stopProcessing w = (if wfq_workerTimer w then w\<lparr>wfq_workerTimer := False\<rparr> else w)"

definition resumeAll :: "'a WeightedFairQueue \<Rightarrow> 'a WeightedFairQueue" where
  "resumeAll w =
     (fold (\<lambda>p w. set_queue p (pq_resume (wfq_queues w p)) w) (wfq_paused w) w)\<lparr>wfq_paused := []\<rparr>"

section \<open>Effective weights\<close>

lemma class_sum_UNIV: "class_sum f = sum f UNIV"
  unfolding class_sum_def using sum_list_distinct_conv_sum_set [OF distinct_PRIORITY_ORDER, of f] by simp

lemma sum_UNIV_4: "sum f UNIV = f Critical + f High + f Normal + (f Low :: rat)"
  by (simp add: UNIV_PriorityClass algebra_simps)

lemma all_classes: "(\<forall>p. P p) \<longleftrightarrow> P Critical \<and> P High \<and> P Normal \<and> P Low"
  by (metis PriorityClass.exhaust)

lemma sum_fun_upd_class: "sum (f(p := (x::rat))) UNIV = sum f UNIV - f p + x" for p :: PriorityClass
  by (cases p) (simp_all add: sum_UNIV_4)

text \<open>The classes that have work and may run.\<close>

definition runnable :: "PriorityClass set \<Rightarrow> (PriorityClass \<Rightarrow> int) \<Rightarrow> PriorityClass set" where
  "runnable paused depths = {p. p \<notin> paused \<and> 0 < depths p}"

lemma set_active [simp]: "set (active_classes paused depths) = runnable paused depths"
  by (auto simp: active_classes_def runnable_def)

lemma active_Nil_iff [simp]: "active_classes paused depths = [] \<longleftrightarrow> runnable paused depths = {}"
  by (metis set_active set_empty)

lemma distinct_active [simp]: "distinct (active_classes paused depths)"
  by (simp add: active_classes_def)

lemma zero_idle_eq:
  assumes "\<forall>p. 0 \<le> depths p"
  shows "zero_idle paused depths base =
    ((\<lambda>p. if p \<in> runnable paused depths then base p else 0), sum base (- runnable paused depths))"
proof -
  have idle: "(p \<in> paused \<or> depths p = 0) \<longleftrightarrow> p \<notin> runnable paused depths" for p
    using spec [OF assms, of p] by (auto simp: runnable_def)
  have "sum base (- A) = sum (\<lambda>p. if p \<in> A then 0 else base p) UNIV" for A :: "PriorityClass set"
    by (simp add: sum.If_cases Collect_neg_eq)
  then show ?thesis
    by (auto simp: zero_idle_def idle PRIORITY_ORDER_def sum_UNIV_4 fun_eq_iff all_classes)
qed

lemma share_fold:
  assumes "distinct ps"
  shows "fold (\<lambda>p e. e(p := e p + r * (base p / S))) ps e =
    (\<lambda>p. if p \<in> set ps then e p + r * (base p / S) else (e p :: rat))"
  using assms by (induction ps arbitrary: e) (auto simp: fun_eq_iff)

text \<open>The weights before the floor for the low class, in closed form.\<close>

lemma shared_weights:
  fixes base :: "PriorityClass \<Rightarrow> rat" and depths :: "PriorityClass \<Rightarrow> int" and paused :: "PriorityClass set"
  assumes "\<forall>p. 0 \<le> depths p" "\<forall>p. 0 < base p"
  defines "A \<equiv> runnable paused depths"
  shows "(case zero_idle paused depths base of (e, r) \<Rightarrow> share_idle base (active_classes paused depths) r e) =
    (\<lambda>p. if p \<in> A then base p * (sum base UNIV / sum base A) else 0)"
proof (cases "A = {}")
  case True
  then show ?thesis by (simp add: zero_idle_eq [OF assms(1)] share_idle_def A_def)
next
  case False
  have S: "sum base A > 0" using False assms(2) by (intro sum_pos) auto
  have listsum: "sum_list (map base (active_classes paused depths)) = sum base A"
    using sum_list_distinct_conv_sum_set [OF distinct_active] by (simp add: A_def)
  have split: "sum base UNIV = sum base A + sum base (- A)"
    using sum.Int_Diff [of UNIV base A] by (simp add: Compl_eq_Diff_UNIV)
  have rest: "0 \<le> sum base (- A)" using assms(2) by (intro sum_nonneg) (auto simp: less_imp_le)
  have "base p * (sum base UNIV / sum base A) = base p + sum base (- A) * (base p / sum base A)" for p
    using S by (simp add: split field_simps)
  with rest False show ?thesis
    by (auto simp: zero_idle_eq [OF assms(1)] share_idle_def listsum share_fold fun_eq_iff
        A_def [symmetric] Let_def simp del: times_divide_eq_right)
qed

text \<open>The donations: what the donors give is what the low class gets, and no donor falls below the floor.\<close>

lemma donate_fold:
  assumes "distinct ds" "Low \<notin> set ds" "\<forall>d\<in>set ds. m \<le> e d" "0 \<le> rem"
    "fold (donate_step m) ds (e, rem) = (e', rem')"
  shows "sum e' UNIV = sum e UNIV \<and> e' Low + rem' = e Low + rem \<and> 0 \<le> rem' \<and>
    (0 < rem' \<longrightarrow> rem' = rem - sum (\<lambda>d. e d - m) (set ds)) \<and>
    (\<forall>d\<in>set ds. m \<le> e' d \<and> e' d \<le> e d) \<and> (\<forall>p. p \<notin> set ds \<longrightarrow> p \<noteq> Low \<longrightarrow> e' p = e p)"
  using assms
proof (induction ds arbitrary: e rem)
  case Nil
  then show ?case by auto
next
  case (Cons d ds)
  obtain e1 r1 where step: "donate_step m d (e, rem) = (e1, r1)" by (cases "donate_step m d (e, rem)")
  have e1: "sum e1 UNIV = sum e UNIV" "e1 Low + r1 = e Low + rem" "0 \<le> r1"
    "0 < r1 \<Longrightarrow> r1 = rem - (e d - m)" "m \<le> e1 d" "e1 d \<le> e d" "\<And>p. p \<noteq> d \<Longrightarrow> p \<noteq> Low \<Longrightarrow> e1 p = e p"
    using step Cons.prems(2,3,4)
    by (auto simp: donate_step_def Let_def sum_fun_upd_class min_def simp del: fun_upd_apply
        split: if_splits) (auto split: if_splits)
  have keep: "e1 x = e x" if "x \<in> set ds" for x
    using e1(7) [of x] that Cons.prems(1,2) by auto
  have sums: "sum (\<lambda>d. e1 d - m) (set ds) = sum (\<lambda>d. e d - m) (set ds)"
    by (rule sum.cong) (simp_all add: keep)
  have gifts: "0 \<le> sum (\<lambda>d. e d - m) (set ds)"
    using Cons.prems(3) by (intro sum_nonneg) auto
  have IH: "sum e' UNIV = sum e1 UNIV" "e' Low + rem' = e1 Low + r1" "0 \<le> rem'"
      "0 < rem' \<Longrightarrow> rem' = r1 - sum (\<lambda>d. e1 d - m) (set ds)"
      "\<forall>x\<in>set ds. m \<le> e' x \<and> e' x \<le> e1 x" "\<forall>p. p \<notin> set ds \<longrightarrow> p \<noteq> Low \<longrightarrow> e' p = e1 p"
    using Cons.IH [of e1 r1] Cons.prems step keep e1(3) by auto
  have d: "d \<notin> set ds" "d \<noteq> Low" using Cons.prems(1,2) by auto
  have "0 < rem' \<Longrightarrow> rem' = rem - sum (\<lambda>d. e d - m) (set (d # ds))"
    using IH(4) e1(4) sums gifts d(1) by auto
  moreover have "\<forall>x\<in>set (d # ds). m \<le> e' x \<and> e' x \<le> e x"
    using IH(5,6) keep e1(5,6) d by auto
  moreover have "\<forall>p. p \<notin> set (d # ds) \<longrightarrow> p \<noteq> Low \<longrightarrow> e' p = e p"
    using IH(6) e1(7) by auto
  ultimately show ?case using IH(1-3) e1(1,2) by auto
qed

lemma protect_low_facts:
  fixes e :: "PriorityClass \<Rightarrow> rat" and depths :: "PriorityClass \<Rightarrow> int" and paused :: "PriorityClass set"
  assumes nonneg: "\<forall>p. 0 \<le> e p" and big: "4 \<le> sum e UNIV"
  defines "w \<equiv> protect_low paused depths e"
  shows "sum w UNIV = sum e UNIV" "\<forall>p. 0 \<le> w p" "\<forall>p. e p = 0 \<longrightarrow> p \<noteq> Low \<longrightarrow> w p = 0"
    "Low \<notin> runnable paused depths \<Longrightarrow> w = e"
    "Low \<in> runnable paused depths \<Longrightarrow> max (sum e UNIV) 100 / 100 \<le> w Low"
proof -
  define m where "m = max (sum e UNIV) 100 / 100"
  define ds where "ds = filter (\<lambda>p. p \<noteq> Low \<and> m < e p) PRIORITY_ORDER"
  have m: "0 < m" "4 * m \<le> sum e UNIV" using big by (auto simp: m_def max_def)
  have floor: "(LOW_PRIORITY_MIN_CAPACITY_PERCENT / 100) * max (class_sum e) 100 = m"
    by (simp add: LOW_PRIORITY_MIN_CAPACITY_PERCENT_def class_sum_UNIV m_def)
  have w: "w = (if Low \<in> runnable paused depths \<and> e Low < m then fst (fold (donate_step m) ds (e, m - e Low)) else e)"
    unfolding w_def protect_low_def Let_def floor ds_def [symmetric] by (simp add: runnable_def)
  show idle: "Low \<notin> runnable paused depths \<Longrightarrow> w = e" by (simp add: w)
  consider (keep) "w = e" "Low \<in> runnable paused depths \<longrightarrow> m \<le> e Low" | (give) "e Low < m"
      "w = fst (fold (donate_step m) ds (e, m - e Low))"
    using w by (cases "Low \<in> runnable paused depths \<and> e Low < m") auto
  then have all: "sum w UNIV = sum e UNIV \<and> (\<forall>p. 0 \<le> w p) \<and> (\<forall>p. e p = 0 \<longrightarrow> p \<noteq> Low \<longrightarrow> w p = 0) \<and>
      (Low \<in> runnable paused depths \<longrightarrow> m \<le> w Low)"
  proof cases
    case keep
    with nonneg show ?thesis by simp
  next
    case give
    obtain r where fold: "fold (donate_step m) ds (e, m - e Low) = (w, r)"
      using give(2) by (metis prod.collapse)
    have ds: "set ds = {p. p \<noteq> Low \<and> m < e p}" by (auto simp: ds_def)
    have "distinct ds" by (simp add: ds_def)
    note D = donate_fold [OF this _ _ _ fold]
    have D: "sum w UNIV = sum e UNIV" "w Low + r = m" "0 \<le> r"
        "0 < r \<Longrightarrow> r = (m - e Low) - sum (\<lambda>d. e d - m) (set ds)"
        "\<forall>d\<in>set ds. m \<le> w d" "\<forall>p. p \<notin> set ds \<longrightarrow> p \<noteq> Low \<longrightarrow> w p = e p"
      using D give(1) by (auto simp: ds)
    have "r = 0"
    proof (rule ccontr)
      assume "r \<noteq> 0"
      with D(3,4) have r: "0 < m - e Low - sum (\<lambda>d. e d - m) (set ds)" by simp
      have "sum (\<lambda>d. e d - m) (set ds) = sum (\<lambda>p. if p \<noteq> Low \<and> m < e p then e p - m else 0) UNIV"
        by (simp add: ds sum.If_cases)
      then have "e Critical + e High + e Normal - 3 * m \<le> sum (\<lambda>d. e d - m) (set ds)"
        by (simp add: sum_UNIV_4)
      with r m show False by (simp add: sum_UNIV_4)
    qed
    have "0 \<le> w p" for p
      using D(2,5,6) nonneg m(1) \<open>r = 0\<close> by (cases "p = Low"; cases "p \<in> set ds") auto
    with D \<open>r = 0\<close> m(1) ds show ?thesis by auto
  qed
  then show "sum w UNIV = sum e UNIV" "\<forall>p. 0 \<le> w p" "\<forall>p. e p = 0 \<longrightarrow> p \<noteq> Low \<longrightarrow> w p = 0" by blast+
  show "Low \<in> runnable paused depths \<Longrightarrow> max (sum e UNIV) 100 / 100 \<le> w Low"
    using all by (simp add: m_def)
qed

lemma effective_weights_facts:
  fixes base :: "PriorityClass \<Rightarrow> rat"
  assumes depths: "\<forall>p. 0 \<le> depths p" and base: "\<forall>p. 0 < base p" and big: "4 \<le> class_sum base"
    and work: "runnable paused depths \<noteq> {}"
  defines "w \<equiv> computeEffectiveWeights base depths paused"
  shows "sum w UNIV = class_sum base" "\<forall>p. 0 \<le> w p" "\<forall>p. p \<notin> runnable paused depths \<longrightarrow> w p = 0"
    "sum w (runnable paused depths) = class_sum base"
    "Low \<in> runnable paused depths \<longrightarrow> max (class_sum base) 100 / 100 \<le> w Low"
    "Low \<notin> runnable paused depths \<longrightarrow>
      (\<forall>p\<in>runnable paused depths. w p = base p * (class_sum base / sum base (runnable paused depths)))"
proof -
  let ?A = "runnable paused depths"
  define e where "e = (\<lambda>p. if p \<in> ?A then base p * (sum base UNIV / sum base ?A) else 0)"
  have S: "0 < sum base ?A" using work base by (intro sum_pos) auto
  have w: "w = protect_low paused depths e"
    using shared_weights [OF depths base, of paused]
    by (simp add: w_def computeEffectiveWeights_def e_def case_prod_unfold)
  have "sum e UNIV = sum (\<lambda>p. base p * (sum base UNIV / sum base ?A)) ?A"
    by (simp add: e_def sum.If_cases)
  also have "\<dots> = sum base UNIV"
    using S by (simp only: sum_distrib_right [symmetric]) simp
  finally have total: "sum e UNIV = sum base UNIV" .
  have pos: "\<forall>p. 0 \<le> e p" using S base by (auto simp: e_def less_imp_le sum_nonneg)
  have four: "4 \<le> sum e UNIV" using big by (simp only: class_sum_UNIV total)
  note P = protect_low_facts [OF pos four, of paused depths, folded w]
  have idle: "e p = 0" if "p \<notin> ?A" for p using that by (simp add: e_def)
  show sums: "sum w UNIV = class_sum base" using P(1) total by (simp only: class_sum_UNIV)
  show "\<forall>p. 0 \<le> w p" by (rule P(2))
  show zero: "\<forall>p. p \<notin> ?A \<longrightarrow> w p = 0"
  proof (intro allI impI)
    fix p assume "p \<notin> ?A"
    then show "w p = 0"
      using P(3,4) idle by (cases "p = Low") auto
  qed
  have "sum w UNIV = sum w ?A"
    using zero by (intro sum.mono_neutral_right) auto
  then show "sum w ?A = class_sum base" using sums by simp
  show "Low \<in> ?A \<longrightarrow> max (class_sum base) 100 / 100 \<le> w Low"
    using P(5) unfolding total class_sum_UNIV by blast
  have "w p = base p * (class_sum base / sum base ?A)" if "Low \<notin> ?A" "p \<in> ?A" for p
    using P(4) [OF that(1)] that(2) by (simp only: e_def class_sum_UNIV if_True)
  then show "Low \<notin> ?A \<longrightarrow> (\<forall>p\<in>?A. w p = base p * (class_sum base / sum base ?A))" by blast
qed

text \<open>Only the set of classes with work matters.\<close>

lemma effective_weights_cong:
  fixes base :: "PriorityClass \<Rightarrow> rat"
  assumes "\<forall>p. 0 \<le> d p" "\<forall>p. 0 \<le> d' p" "\<forall>p. 0 < base p" "runnable paused d = runnable paused d'"
  shows "computeEffectiveWeights base d paused = computeEffectiveWeights base d' paused"
proof -
  have "(Low \<notin> paused \<and> 0 < d Low) = (Low \<notin> paused \<and> 0 < d' Low)"
    using assms(4) by (auto simp: runnable_def)
  then have "protect_low paused d = protect_low paused d'"
    by (auto simp: protect_low_def fun_eq_iff)
  moreover have "share_idle base (active_classes paused d) (snd (zero_idle paused d base)) (fst (zero_idle paused d base)) =
      share_idle base (active_classes paused d') (snd (zero_idle paused d' base)) (fst (zero_idle paused d' base))"
    using shared_weights [OF assms(1,3), of paused] shared_weights [OF assms(2,3), of paused]
    by (simp only: assms(4) case_prod_unfold)
  ultimately show ?thesis
    by (simp add: computeEffectiveWeights_def case_prod_unfold)
qed

section \<open>Deficit round robin\<close>

definition earned :: "(PriorityClass \<Rightarrow> rat) \<Rightarrow> (PriorityClass \<Rightarrow> rat) \<Rightarrow> PriorityClass set \<Rightarrow> PriorityClass set
    \<Rightarrow> (PriorityClass \<Rightarrow> rat) \<Rightarrow> PriorityClass option \<Rightarrow> bool" where
  "earned d w A S d1 best \<longleftrightarrow>
     (\<forall>x. d1 x = d x + (if x \<in> S \<and> x \<in> A then w x else 0)) \<and>
     (case best of None \<Rightarrow> S \<inter> A = {} | Some b \<Rightarrow> b \<in> S \<inter> A \<and> (\<forall>x\<in>S \<inter> A. d1 x \<le> d1 b))"

lemma earn_step_inv:
  fixes w :: "PriorityClass \<Rightarrow> rat"
  assumes depths: "\<forall>p. 0 \<le> depths p" and "p \<notin> S"
    and earned: "earned d w (runnable paused depths) S d1 best"
    and step: "earn_step paused depths w p (d1, best) = (d2, best2)"
  shows "earned d w (runnable paused depths) (insert p S) d2 best2"
proof (cases "p \<in> runnable paused depths")
  case False
  note inv = earned [unfolded earned_def]
  have "p \<in> paused \<or> depths p = 0"
    using False spec [OF depths, of p] by (auto simp: runnable_def)
  with step have "d2 = d1" "best2 = best" by (simp_all add: earn_step_def)
  with inv False show ?thesis by (cases best) (auto simp: earned_def)
next
  case True
  note inv = earned [unfolded earned_def, THEN conjunct1] earned [unfolded earned_def, THEN conjunct2]
  from True have "\<not> (p \<in> paused \<or> depths p = 0)" by (auto simp: runnable_def)
  with step have d2: "d2 = d1(p := d1 p + w p)"
    and b2: "best2 = (case best of None \<Rightarrow> Some p | Some b \<Rightarrow> if d2 b < d2 p then Some p else Some b)"
    by (auto simp: earn_step_def Let_def)
  have same: "d2 x = d1 x" if "x \<in> S" for x using that \<open>p \<notin> S\<close> by (auto simp: d2)
  have "\<forall>x. d2 x = d x + (if x \<in> insert p S \<and> x \<in> runnable paused depths then w x else 0)"
    using inv(1) True \<open>p \<notin> S\<close> by (auto simp: d2)
  moreover have "case best2 of None \<Rightarrow> insert p S \<inter> runnable paused depths = {}
        | Some b \<Rightarrow> b \<in> insert p S \<inter> runnable paused depths \<and>
            (\<forall>x\<in>insert p S \<inter> runnable paused depths. d2 x \<le> d2 b)"
  proof (cases best)
    case None
    with inv(2) True show ?thesis by (auto simp: b2)
  next
    case (Some b)
    with inv(2) have b: "b \<in> S \<inter> runnable paused depths" "\<forall>x\<in>S \<inter> runnable paused depths. d2 x \<le> d2 b"
      using same by auto
    with Some True show ?thesis
      by (cases "d2 b < d2 p") (auto simp: b2 dest: bspec intro: order.trans [OF _ less_imp_le])
  qed
  ultimately show ?thesis unfolding earned_def by blast
qed

lemma earn_fold:
  fixes w :: "PriorityClass \<Rightarrow> rat"
  assumes "\<forall>p. 0 \<le> depths p" "distinct ps" "set ps \<inter> S = {}"
    "earned d w (runnable paused depths) S d1 b1"
    "fold (earn_step paused depths w) ps (d1, b1) = (d2, b2)"
  shows "earned d w (runnable paused depths) (S \<union> set ps) d2 b2"
  using assms(2-)
proof (induction ps arbitrary: S d1 b1)
  case Nil
  then show ?case by simp
next
  case (Cons p ps)
  obtain e b where step: "earn_step paused depths w p (d1, b1) = (e, b)"
    by (cases "earn_step paused depths w p (d1, b1)")
  have "earned d w (runnable paused depths) (insert p S) e b"
    using earn_step_inv [OF assms(1) _ Cons.prems(3) step] Cons.prems(2) by simp
  from Cons.IH [OF _ _ this] Cons.prems(1,2,4) step show ?case by simp
qed

lemma earn_all:
  fixes w :: "PriorityClass \<Rightarrow> rat"
  assumes "\<forall>p. 0 \<le> depths p" "fold (earn_step paused depths w) PRIORITY_ORDER (d, None) = (d', best)"
  shows "(\<forall>x. d' x = d x + (if x \<in> runnable paused depths then w x else 0)) \<and>
    (case best of None \<Rightarrow> runnable paused depths = {}
      | Some b \<Rightarrow> b \<in> runnable paused depths \<and> (\<forall>x\<in>runnable paused depths. d' x \<le> d' b))"
  using earn_fold [OF assms(1) distinct_PRIORITY_ORDER _ _ assms(2), of "{}" d]
  by (cases best) (auto simp: earned_def)

lemma selectNextPriority_cases:
  fixes w :: "PriorityClass \<Rightarrow> rat"
  assumes depths: "\<forall>p. 0 \<le> depths p" and W: "0 < sum w (runnable paused depths)"
    and sel: "selectNextPriority d depths w paused = (r, d')"
  defines "A \<equiv> runnable paused depths"
  obtains b where "r = Some b" "b \<in> A" "\<forall>x\<in>A. d x + w x \<le> d b + w b"
    "d' = (\<lambda>x. d x + (if x \<in> A then w x else 0) - (if x = b then sum w A else 0))"
proof -
  obtain e best where f: "fold (earn_step paused depths w) PRIORITY_ORDER (d, None) = (e, best)"
    by (cases "fold (earn_step paused depths w) PRIORITY_ORDER (d, None)")
  note F = earn_all [OF depths f, folded A_def]
  have "class_sum (\<lambda>p. if 0 < depths p \<and> p \<notin> paused then w p else 0) = sum w A"
    by (simp add: class_sum_UNIV sum.If_cases A_def runnable_def conj_commute)
  note W' = this
  have "A \<noteq> {}" using W by (auto simp: A_def)
  with F obtain b where b: "best = Some b" "b \<in> A" "\<forall>x\<in>A. e x \<le> e b" by (cases best) auto
  have e: "e x = d x + (if x \<in> A then w x else 0)" for x using F by blast
  have "r = Some b" "d' = e(b := e b - sum w A)"
    using sel f b(1) W W' by (auto simp: selectNextPriority_def Let_def A_def)
  with b that [of b] show ?thesis by (auto simp: e fun_eq_iff)
qed

lemma selectNextPriority_none:
  fixes w :: "PriorityClass \<Rightarrow> rat"
  assumes "\<forall>p. 0 \<le> depths p" "runnable paused depths = {}"
  shows "selectNextPriority d depths w paused = (None, d)"
proof -
  obtain e best where f: "fold (earn_step paused depths w) PRIORITY_ORDER (d, None) = (e, best)"
    by (cases "fold (earn_step paused depths w) PRIORITY_ORDER (d, None)")
  from earn_all [OF assms(1) f] assms(2) have "best = None" "e = d"
    by (auto simp: fun_eq_iff split: option.splits)
  with f show ?thesis by (simp add: selectNextPriority_def)
qed

text \<open>Rounds of the scheduler: the deficits are carried, the depths are read anew in each.\<close>

fun serve_rounds :: "(PriorityClass \<Rightarrow> rat) \<Rightarrow> PriorityClass set \<Rightarrow> (PriorityClass \<Rightarrow> rat)
    \<Rightarrow> (PriorityClass \<Rightarrow> int) list \<Rightarrow> PriorityClass option list \<times> (PriorityClass \<Rightarrow> rat)" where
  "serve_rounds base paused d [] = ([], d)"
| "serve_rounds base paused d (depths # rest) =
     (case selectNextPriority d depths (computeEffectiveWeights base depths paused) paused of
        (r, d1) \<Rightarrow> (case serve_rounds base paused d1 rest of (rs, d2) \<Rightarrow> (r # rs, d2)))"

definition balanced :: "PriorityClass set \<Rightarrow> rat \<Rightarrow> (PriorityClass \<Rightarrow> rat) \<Rightarrow> bool" where
  "balanced A W d \<longleftrightarrow> sum d A = 0 \<and> (\<forall>p\<in>A. - (3/4) * W \<le> d p)"

lemma card_classes: "card A \<le> 4" for A :: "PriorityClass set"
proof -
  have "card (UNIV :: PriorityClass set) = 4" by (simp add: UNIV_PriorityClass)
  with card_mono [of UNIV A] show ?thesis by simp
qed

lemma balanced_upper:
  assumes "balanced A W d" "p \<in> A" "0 \<le> W"
  shows "d p \<le> 9/4 * W"
proof -
  have split: "sum d A = d p + sum d (A - {p})" using assms(2) by (simp add: sum.remove)
  have "(\<Sum>x\<in>A - {p}. - (3/4) * W) \<le> sum d (A - {p})"
    using assms(1) by (intro sum_mono) (auto simp: balanced_def)
  moreover have "- (9/4 * W) \<le> (\<Sum>x\<in>A - {p}. - (3/4) * W)"
  proof -
    have "of_nat (card (A - {p})) \<le> (3 :: rat)"
      using card_classes [of A] assms(2) by (simp add: card_Diff_singleton)
    from mult_right_mono [OF this, of "3/4 * W"] assms(3) show ?thesis by simp
  qed
  ultimately have "- (9/4 * W) \<le> sum d (A - {p})" by (rule order_trans [rotated])
  moreover have "d p = - sum d (A - {p})" using assms(1) split by (simp add: balanced_def)
  ultimately show ?thesis by (simp only: neg_le_iff_le minus_le_iff)
qed

lemma balanced_step:
  assumes bal: "balanced A W d" and W: "W = sum w A" "0 < W" and "\<forall>x\<in>A. 0 \<le> w x" "b \<in> A"
    and best: "\<forall>x\<in>A. d x + w x \<le> d b + w b"
    and d': "d' = (\<lambda>x. d x + (if x \<in> A then w x else 0) - (if x = b then W else 0))"
  shows "balanced A W d'"
proof -
  have "sum d' A = sum d A + sum w A - W"
    using \<open>b \<in> A\<close> by (simp add: d' sum.distrib sum_subtractf)
  then have zero: "sum d' A = 0" using bal W(1) by (simp add: balanced_def)
  have "W = (\<Sum>x\<in>A. d x + w x)" using bal W(1) by (simp add: sum.distrib balanced_def)
  also have "\<dots> \<le> of_nat (card A) * (d b + w b)" by (rule sum_bounded_above) (use best in blast)
  finally have avg: "W \<le> of_nat (card A) * (d b + w b)" .
  have pos: "0 \<le> d b + w b"
  proof (rule ccontr)
    assume "\<not> 0 \<le> d b + w b"
    then have "of_nat (card A) * (d b + w b) \<le> 0" by (simp add: mult_nonneg_nonpos)
    with avg W(2) show False by simp
  qed
  have "of_nat (card A) \<le> (4 :: rat)" using card_classes [of A] by simp
  from mult_right_mono [OF this pos] avg have "W / 4 \<le> d b + w b" by simp
  then have "- (3/4) * W \<le> d' b" using \<open>b \<in> A\<close> by (simp add: d')
  moreover have "- (3/4) * W \<le> d' p" if "p \<in> A" "p \<noteq> b" for p
  proof -
    have "- (3/4) * W \<le> d p" "0 \<le> w p" using that bal assms(4) by (auto simp: balanced_def)
    with that show ?thesis by (simp add: d')
  qed
  ultimately have "\<forall>p\<in>A. - (3/4) * W \<le> d' p" by metis
  with zero show ?thesis by (simp add: balanced_def)
qed

text \<open>What a run of rounds with the same classes at work serves, in terms of the deficits it leaves.\<close>

lemma serve_rounds_facts:
  fixes base :: "PriorityClass \<Rightarrow> rat"
  assumes base: "\<forall>p. 0 < base p" "4 \<le> class_sum base"
    and depths0: "\<forall>p. 0 \<le> depths0 p" and work: "runnable paused depths0 \<noteq> {}"
  defines "A \<equiv> runnable paused depths0" and "w \<equiv> computeEffectiveWeights base depths0 paused"
  assumes same: "\<forall>depths\<in>set ds. (\<forall>p. 0 \<le> depths p) \<and> runnable paused depths = A"
    and run: "serve_rounds base paused d ds = (served, d')" and bal: "balanced A (class_sum base) d"
  shows "length served = length ds \<and> set served \<subseteq> Some ` A \<and> balanced A (class_sum base) d' \<and>
    (\<forall>p\<in>A. d' p = d p + of_nat (length ds) * w p - of_nat (count_list served (Some p)) * class_sum base)"
  using same run bal
proof (induction ds arbitrary: d served)
  case Nil
  then show ?case by simp
next
  case (Cons depths rest)
  have dp: "\<forall>p. 0 \<le> depths p" and A: "runnable paused depths = A" using Cons.prems(1) by auto
  have w: "computeEffectiveWeights base depths paused = w"
    unfolding w_def by (rule effective_weights_cong [OF dp depths0 base(1)]) (simp add: A A_def)
  note W = effective_weights_facts [OF depths0 base work, folded w_def A_def]
  obtain r d1 where sel: "selectNextPriority d depths w paused = (r, d1)"
    by (cases "selectNextPriority d depths w paused")
  obtain rs d2 where rest: "serve_rounds base paused d1 rest = (rs, d2)"
    by (cases "serve_rounds base paused d1 rest")
  have res: "served = r # rs" "d' = d2" using Cons.prems(2) sel rest w by auto
  have pos: "0 < sum w (runnable paused depths)" using W(4) base(2) by (simp add: A)
  obtain b where b: "r = Some b" "b \<in> A" "\<forall>x\<in>A. d x + w x \<le> d b + w b"
    "d1 = (\<lambda>x. d x + (if x \<in> A then w x else 0) - (if x = b then sum w A else 0))"
    using selectNextPriority_cases [OF dp pos sel] unfolding A by metis
  have "balanced A (class_sum base) d1"
    by (rule balanced_step [OF Cons.prems(3) W(4) [symmetric] _ _ b(2,3)])
      (use W(2) b(4) base(2) in \<open>simp_all only: W(4)\<close>, simp_all)
  from Cons.IH [OF _ rest [folded res(2)] this] Cons.prems(1)
  have IH: "length rs = length rest \<and> set rs \<subseteq> Some ` A \<and> balanced A (class_sum base) d' \<and>
    (\<forall>p\<in>A. d' p = d1 p + of_nat (length rest) * w p - of_nat (count_list rs (Some p)) * class_sum base)"
    by simp
  have "d' p = d p + of_nat (length (depths # rest)) * w p - of_nat (count_list served (Some p)) * class_sum base"
    if "p \<in> A" for p
  proof -
    have "d' p = d1 p + of_nat (length rest) * w p - of_nat (count_list rs (Some p)) * class_sum base"
      using IH that by blast
    also have "d1 p = d p + w p - (if p = b then class_sum base else 0)"
      using that by (simp add: b(4) W(4))
    finally show ?thesis by (cases "p = b") (simp_all add: b(1) res(1) algebra_simps)
  qed
  with IH b(1,2) res(1) show ?case by auto
qed

section \<open>The scheduler over the class queues\<close>

definition pq_bounded :: "'a PriorityQueue \<Rightarrow> bool" where
  "pq_bounded q \<longleftrightarrow> pq_depth q \<le> pq_maxSize q"

text \<open>Well-formed: sane weights, sane queues, and the scheduler's paused set is the queues' flags.\<close>

definition wfq_ok :: "'a WeightedFairQueue \<Rightarrow> bool" where
  "wfq_ok w \<longleftrightarrow> (\<forall>p. 0 < wfq_weights w p) \<and> 4 \<le> class_sum (wfq_weights w) \<and>
     (\<forall>p. pq_bounded (wfq_queues w p)) \<and> (\<forall>p. pq_paused (wfq_queues w p) \<longleftrightarrow> p \<in> set (wfq_paused w)) \<and>
     (\<exists>n. wfq_paused w = take n [Low, Normal, High])"

datatype 'a wfq_event =
    WEnqueue int "unit + string option" PriorityClass string 'a EnqueueOptions
  | WSpawn int "unit + string option" PriorityClass string 'a
  | WSchedule bool
  | WProcess bool "string \<Rightarrow> ('a QueueJob \<Rightarrow> bool) option" int int int
  | WBackpressure | WStart | WTick | WTickEnd | WStop | WResumeAll

fun wfq_step :: "'a wfq_event \<Rightarrow> 'a WeightedFairQueue \<Rightarrow> 'a WeightedFairQueue" where
  "wfq_step (WEnqueue now bull p name data opts) w = snd (wfq_enqueue now bull p name data opts w)"
| "wfq_step (WSpawn now bull p name data) w = snd (wfq_spawnSubJob now bull p name data w)"
| "wfq_step (WSchedule removed) w = snd (scheduleNext removed w)"
| "wfq_step (WProcess removed hs start stop now) w = snd (processNext removed hs start stop now w)"
| "wfq_step WBackpressure w = snd (applyBackpressure w)"
| "wfq_step WStart w = startProcessing w"
| "wfq_step WTick w = snd (tick_begin w)"
| "wfq_step WTickEnd w = tick_end w"
| "wfq_step WStop w = stopProcessing w"
| "wfq_step WResumeAll w = resumeAll w"

lemma depth_nonneg [simp]: "0 \<le> getDepths w p"
  by (simp add: getDepths_def pq_depth_def)

lemma resolve_ladder:
  assumes "currentlyPaused = set (take n [Low, Normal, High])"
  shows "resolveBackpressure depths maxSize currentlyPaused =
    (if \<forall>p. p \<in> currentlyPaused \<or> maxSize \<le> depths p
     then (if n = 0 then Some Low else if n = 1 then Some Normal else if n = 2 then Some High else None) else None)"
proof -
  have "list_all P PRIORITY_ORDER \<longleftrightarrow> (\<forall>p. P p)" for P by (simp add: list_all_iff)
  moreover consider "n = 0" | "n = 1" | "n = 2" | k where "n = Suc (Suc (Suc k))"
    by (metis One_nat_def Suc_1 not0_implies_Suc)
  then have "js_find (\<lambda>p. p \<notin> currentlyPaused) (rev (tl PRIORITY_ORDER)) =
      (if n = 0 then Some Low else if n = 1 then Some Normal else if n = 2 then Some High else None)"
    by cases (simp_all add: assms PRIORITY_ORDER_def js_find_def numeral_2_eq_2)
  ultimately show ?thesis by (simp add: resolveBackpressure_def)
qed

lemma resumeAll_fold:
  "wfq_queues (fold (\<lambda>p w. set_queue p (pq_resume (wfq_queues w p)) w) ps w) p =
     (if p \<in> set ps then pq_resume (wfq_queues w p) else wfq_queues w p)"
  "wfq_weights (fold (\<lambda>p w. set_queue p (pq_resume (wfq_queues w p)) w) ps w) = wfq_weights w"
  "wfq_paused (fold (\<lambda>p w. set_queue p (pq_resume (wfq_queues w p)) w) ps w) = wfq_paused w"
  by (induction ps arbitrary: w) (auto simp: set_queue_def pq_resume_def)

lemma ok_set_queue:
  assumes "wfq_ok w" "pq_bounded q" "pq_paused q = pq_paused (wfq_queues w p)"
  shows "wfq_ok (set_queue p q w)"
  using assms by (auto simp: wfq_ok_def set_queue_def)

lemma ok_pq_add:
  assumes "pq_bounded q" "pq_add now bull name data opts q = (r, q')"
  shows "pq_bounded q' \<and> pq_paused q' = pq_paused q"
  using assms
  by (auto simp: pq_add_def pq_add_begin_def Let_def pq_push_def pq_bounded_def pq_depth_def pq_isFull_def
      split: option.splits sum.splits if_splits)

lemma ok_pq_dequeue:
  assumes "pq_bounded q" "pq_dequeue removed q = (r, q')"
  shows "pq_bounded q' \<and> pq_paused q' = pq_paused q"
  using assms by (auto simp: pq_dequeue_def Let_def pq_bounded_def pq_depth_def split: list.splits if_splits)

lemma bounded_mode [simp]:
  "pq_bounded (pq_pause q) = pq_bounded q" "pq_bounded (pq_resume q) = pq_bounded q"
  "pq_bounded (pq_recordProcessed a t c q) = pq_bounded q"
  by (simp_all add: pq_bounded_def pq_depth_def pq_pause_def pq_resume_def pq_recordProcessed_def Let_def)

lemma ok_applyBackpressure:
  assumes "wfq_ok w"
  shows "wfq_ok (snd (applyBackpressure w))"
proof -
  obtain n where n: "wfq_paused w = take n [Low, Normal, High]" using assms by (auto simp: wfq_ok_def)
  have res: "resolveBackpressure (getDepths w) (wfq_maxSize w) (set (wfq_paused w)) = r \<Longrightarrow>
      r = None \<or> (n = 0 \<and> r = Some Low) \<or> (n = 1 \<and> r = Some Normal) \<or> (n = 2 \<and> r = Some High)" for r
    using resolve_ladder [OF arg_cong [OF n, of set]] by (auto split: if_splits)
  consider "resolveBackpressure (getDepths w) (wfq_maxSize w) (set (wfq_paused w)) = None"
    | "n = 0" "resolveBackpressure (getDepths w) (wfq_maxSize w) (set (wfq_paused w)) = Some Low"
    | "n = 1" "resolveBackpressure (getDepths w) (wfq_maxSize w) (set (wfq_paused w)) = Some Normal"
    | "n = 2" "resolveBackpressure (getDepths w) (wfq_maxSize w) (set (wfq_paused w)) = Some High"
    using res [OF refl] by auto
  then show ?thesis
  proof cases
    case 1
    with assms show ?thesis by (simp add: applyBackpressure_def)
  next
    case 2
    have "\<exists>k. [Low] = take k [Low, Normal, High]" by (rule exI [of _ 1]) simp
    with 2 assms n show ?thesis by (auto simp: applyBackpressure_def wfq_ok_def set_queue_def) (simp_all add: pq_pause_def)
  next
    case 3
    have "\<exists>k. [Low, Normal] = take k [Low, Normal, High]" by (rule exI [of _ 2]) (simp add: numeral_2_eq_2)
    with 3 assms n show ?thesis by (auto simp: applyBackpressure_def wfq_ok_def set_queue_def) (simp_all add: pq_pause_def)
  next
    case 4
    have "\<exists>k. [Low, Normal, High] = take k [Low, Normal, High]" by (rule exI [of _ 3]) simp
    with 4 assms n show ?thesis
      by (auto simp: applyBackpressure_def wfq_ok_def set_queue_def numeral_2_eq_2) (simp_all add: pq_pause_def)
  qed
qed

lemma runnable_ok:
  assumes "wfq_ok w"
  shows "p \<in> runnable (set (wfq_paused w)) (getDepths w) \<longleftrightarrow>
    \<not> pq_paused (wfq_queues w p) \<and> pq_pending (wfq_queues w p) \<noteq> []"
  using assms by (auto simp: runnable_def wfq_ok_def getDepths_def pq_depth_def)

text \<open>Both outcomes of a round: nothing can run, or the oldest job of the class with the largest deficit.\<close>

lemma scheduleNext_idle:
  assumes "runnable (set (wfq_paused w)) (getDepths w) = {}"
  shows "scheduleNext removed w = (Inr None, w)"
proof -
  have "selectNextPriority (wfq_deficits w) (getDepths w) (wfq_effective w) (set (wfq_paused w)) = (None, wfq_deficits w)"
    by (rule selectNextPriority_none) (simp_all add: assms)
  then show ?thesis by (simp add: scheduleNext_def)
qed

lemma scheduleNext_busy:
  assumes ok: "wfq_ok w" and work: "runnable (set (wfq_paused w)) (getDepths w) \<noteq> {}"
  obtains p d where "p \<in> runnable (set (wfq_paused w)) (getDepths w)"
    "selectNextPriority (wfq_deficits w) (getDepths w) (wfq_effective w) (set (wfq_paused w)) = (Some p, d)"
proof -
  have base: "\<forall>p. 0 < wfq_weights w p" "4 \<le> class_sum (wfq_weights w)"
    using ok by (simp_all add: wfq_ok_def)
  have pos: "0 < sum (wfq_effective w) (runnable (set (wfq_paused w)) (getDepths w))"
    using effective_weights_facts(4) [OF _ base work] base(2) by (simp add: wfq_effective_def)
  obtain r d where sel: "selectNextPriority (wfq_deficits w) (getDepths w) (wfq_effective w) (set (wfq_paused w)) = (r, d)"
    by (cases "selectNextPriority (wfq_deficits w) (getDepths w) (wfq_effective w) (set (wfq_paused w))")
  from selectNextPriority_cases [OF _ pos sel] obtain b where "r = Some b"
      "b \<in> runnable (set (wfq_paused w)) (getDepths w)"
    by auto
  with sel that show ?thesis by blast
qed

lemma ok_scheduleNext:
  assumes "wfq_ok w"
  shows "wfq_ok (snd (scheduleNext removed w))"
proof (cases "runnable (set (wfq_paused w)) (getDepths w) = {}")
  case True
  then show ?thesis using assms by (simp add: scheduleNext_idle)
next
  case False
  from scheduleNext_busy [OF assms False] obtain p d where
    sel: "selectNextPriority (wfq_deficits w) (getDepths w) (wfq_effective w) (set (wfq_paused w)) = (Some p, d)"
    by blast
  obtain r q where deq: "pq_dequeue removed (wfq_queues w p) = (r, q)" by (cases "pq_dequeue removed (wfq_queues w p)")
  have "wfq_ok (w\<lparr>wfq_deficits := d\<rparr>)" using assms by (simp add: wfq_ok_def)
  then have "wfq_ok (set_queue p q (w\<lparr>wfq_deficits := d\<rparr>))"
    using ok_pq_dequeue [OF _ deq] assms by (intro ok_set_queue) (simp_all add: wfq_ok_def)
  then show ?thesis
    using sel deq by (auto simp: scheduleNext_def Let_def split: sum.splits option.splits)
qed

lemma ok_enqueue:
  assumes "wfq_ok w"
  shows "wfq_ok (snd (wfq_enqueue now bull p name data opts w))"
proof -
  let ?w = "snd (applyBackpressure w)"
  have ok: "wfq_ok ?w" by (rule ok_applyBackpressure [OF assms])
  obtain r q where add: "pq_add now bull name data opts (wfq_queues ?w p) = (r, q)"
    by (cases "pq_add now bull name data opts (wfq_queues ?w p)")
  have "wfq_ok (set_queue p q ?w)"
    using ok_pq_add [OF _ add] ok by (intro ok_set_queue) (simp_all add: wfq_ok_def)
  with ok add show ?thesis by (simp add: wfq_enqueue_def Let_def)
qed

lemma ok_record:
  assumes "wfq_ok w"
  shows "wfq_ok (recordCompletion now p job t w)"
proof -
  have "pq_paused (pq_recordProcessed a t c q) = pq_paused q" for a c and q :: "'a PriorityQueue"
    by (simp add: pq_recordProcessed_def Let_def)
  with assms show ?thesis
    unfolding recordCompletion_def by (intro ok_set_queue) (simp_all add: wfq_ok_def)
qed

lemma ok_processNext:
  assumes "wfq_ok w"
  shows "wfq_ok (snd (processNext removed hs start stop now w))"
proof -
  obtain r w1 where s: "scheduleNext removed w = (r, w1)" by (cases "scheduleNext removed w")
  then have "wfq_ok w1" using ok_scheduleNext [OF assms, of removed] by simp
  then show ?thesis
    using s ok_record by (auto simp: processNext_def Let_def split: sum.splits option.splits)
qed

lemma ok_resumeAll:
  assumes "wfq_ok w"
  shows "wfq_ok (resumeAll w)"
proof -
  have "wfq_paused (resumeAll w) = take 0 [Low, Normal, High]" by (simp add: resumeAll_def)
  moreover have "\<not> pq_paused (wfq_queues (resumeAll w) p)" "pq_bounded (wfq_queues (resumeAll w) p)" for p
    using assms by (auto simp: resumeAll_def resumeAll_fold wfq_ok_def) (simp_all add: pq_resume_def)
  moreover have "wfq_weights (resumeAll w) = wfq_weights w" by (simp add: resumeAll_def resumeAll_fold)
  ultimately show ?thesis using assms unfolding wfq_ok_def by auto
qed

lemma ok_worker:
  "wfq_ok w \<Longrightarrow> wfq_ok (startProcessing w)" "wfq_ok w \<Longrightarrow> wfq_ok (snd (tick_begin w))"
  "wfq_ok w \<Longrightarrow> wfq_ok (tick_end w)" "wfq_ok w \<Longrightarrow> wfq_ok (stopProcessing w)"
  by (simp_all add: startProcessing_def tick_begin_def tick_end_def stopProcessing_def wfq_ok_def)

text \<open>Every event of the scheduler keeps it well formed.\<close>

interpretation scheduler: machine "\<lambda>w e. wfq_step e w" wfq_ok
proof
  fix w :: "'a WeightedFairQueue" and e
  assume "wfq_ok w"
  then show "wfq_ok (wfq_step e w)"
    by (cases e) (simp_all add: ok_enqueue ok_scheduleNext ok_processNext ok_applyBackpressure ok_worker
        ok_resumeAll wfq_spawnSubJob_def)
qed

definition wfq_run :: "'a wfq_event list \<Rightarrow> 'a WeightedFairQueue \<Rightarrow> 'a WeightedFairQueue" where
  "wfq_run es w = foldl (\<lambda>w e. wfq_step e w) w es"

lemma wfq_run_simps [simp]: "wfq_run [] w = w" "wfq_run (e # es) w = wfq_run es (wfq_step e w)"
  by (simp_all add: wfq_run_def)

section \<open>Paused classes\<close>

lemma pending_applyBackpressure [simp]:
  "pq_pending (wfq_queues (snd (applyBackpressure w)) p) = pq_pending (wfq_queues w p)"
  by (auto simp: applyBackpressure_def set_queue_def pq_pause_def split: option.split)

lemma paused_applyBackpressure:
  "set (wfq_paused w) \<subseteq> set (wfq_paused (snd (applyBackpressure w)))"
  by (auto simp: applyBackpressure_def set_queue_def split: option.split)

lemma pending_record [simp]:
  "pq_pending (wfq_queues (recordCompletion now c job t w) p) = pq_pending (wfq_queues w p)"
  "wfq_paused (recordCompletion now c job t w) = wfq_paused w"
  by (auto simp: recordCompletion_def set_queue_def pq_recordProcessed_def Let_def)

lemma select_runnable:
  fixes w :: "PriorityClass \<Rightarrow> rat"
  assumes "\<forall>p. 0 \<le> depths p" "selectNextPriority d depths w paused = (Some b, d')"
  shows "b \<in> runnable paused depths"
proof -
  obtain e best where f: "fold (earn_step paused depths w) PRIORITY_ORDER (d, None) = (e, best)"
    by (cases "fold (earn_step paused depths w) PRIORITY_ORDER (d, None)")
  with assms(2) have "best = Some b"
    by (cases best) (auto simp: selectNextPriority_def Let_def)
  with earn_all [OF assms(1) f] show ?thesis by simp
qed

lemma schedule_other_class:
  assumes "p \<in> set (wfq_paused w)"
  shows "pq_pending (wfq_queues (snd (scheduleNext removed w)) p) = pq_pending (wfq_queues w p) \<and>
    wfq_paused (snd (scheduleNext removed w)) = wfq_paused w"
proof -
  obtain r d where sel: "selectNextPriority (wfq_deficits w) (getDepths w) (wfq_effective w) (set (wfq_paused w)) = (r, d)"
    by (cases "selectNextPriority (wfq_deficits w) (getDepths w) (wfq_effective w) (set (wfq_paused w))")
  show ?thesis
  proof (cases r)
    case None
    with sel show ?thesis by (simp add: scheduleNext_def)
  next
    case (Some b)
    with sel select_runnable [of "getDepths w"] have "b \<in> runnable (set (wfq_paused w)) (getDepths w)" by fastforce
    with assms have "b \<noteq> p" by (auto simp: runnable_def)
    with sel Some show ?thesis
      by (cases "pq_dequeue removed (wfq_queues w b)")
        (auto simp: scheduleNext_def Let_def set_queue_def split: sum.split option.split)
  qed
qed

section \<open>Properties\<close>

text \<open>Reweighting conserves capacity: with positive weights that sum to at least 4 and some class at
  work, the effective weights sum to the configured total, none is negative, idle and paused
  classes have none, and the low class has at least one percent of the total (of 100 when the total
  is less) whenever it has work; when it has none, the others keep their proportions.\<close>

theorem reweighting_conserves_capacity:
  assumes "\<forall>p. 0 \<le> depths p" "\<forall>p. 0 < base p" "4 \<le> class_sum base"
    "\<exists>p. p \<notin> paused \<and> 0 < depths p"
  defines "w \<equiv> computeEffectiveWeights base depths paused"
  shows "class_sum w = class_sum base \<and> (\<forall>p. 0 \<le> w p) \<and>
    (\<forall>p. p \<in> paused \<or> depths p = 0 \<longrightarrow> w p = 0) \<and>
    (Low \<notin> paused \<and> 0 < depths Low \<longrightarrow> max (class_sum base) 100 / 100 \<le> w Low) \<and>
    (Low \<in> paused \<or> depths Low = 0 \<longrightarrow>
      (\<forall>p q. p \<notin> paused \<and> 0 < depths p \<and> q \<notin> paused \<and> 0 < depths q \<longrightarrow> w p * base q = w q * base p))"
proof -
  have work: "runnable paused depths \<noteq> {}" using assms(4) by (auto simp: runnable_def)
  note W = effective_weights_facts [OF assms(1-3) work, folded w_def]
  have idle: "p \<notin> runnable paused depths" if "p \<in> paused \<or> depths p = 0" for p
    using that by (auto simp: runnable_def)
  have "w p * base q = w q * base p"
    if "Low \<notin> runnable paused depths" "p \<in> runnable paused depths" "q \<in> runnable paused depths" for p q
    using W(6) that by simp
  with W(1,2,3,5) idle show ?thesis
    by (simp add: class_sum_UNIV) (simp add: runnable_def)
qed

lemma reweighting_conserves_capacity_witness:
  "class_sum (computeEffectiveWeights DEFAULT_PRIORITY_WEIGHTS (\<lambda>p. if p = Critical then 0 else 1) {}) = 100"
proof -
  have sum: "class_sum DEFAULT_PRIORITY_WEIGHTS = 100"
    by (simp add: class_sum_UNIV sum_UNIV_4 DEFAULT_PRIORITY_WEIGHTS_def)
  have pos: "\<forall>p. 0 < DEFAULT_PRIORITY_WEIGHTS p"
    by (simp add: DEFAULT_PRIORITY_WEIGHTS_def split: PriorityClass.split)
  have "\<exists>p. p \<notin> {} \<and> 0 < (if p = Critical then 0 else (1::int))" by (intro exI [of _ Low]) simp
  from reweighting_conserves_capacity [OF _ pos _ this, THEN conjunct1] sum show ?thesis by simp
qed

text \<open>C9: Weighted fairness and freedom from starvation: from a fresh scheduler, in any number \<open>n\<close> of rounds
  in which the same classes have work, every round serves one of them, and each class \<open>p\<close> is
  served between \<open>n * share - 9/4\<close> and \<open>n * share + 3/4\<close> times, \<open>share\<close> its part of
  the total weight, at least one percent for the low class.\<close>

theorem rounds_follow_the_weights:
  assumes "\<forall>p. 0 < base p" "4 \<le> class_sum base" "\<forall>p. 0 \<le> depths0 p"
    "\<forall>depths\<in>set ds. \<forall>p. 0 \<le> depths p \<and> (0 < depths p \<longleftrightarrow> 0 < depths0 p)"
    "p \<notin> paused" "0 < depths0 p"
    "serve_rounds base paused (\<lambda>p. 0) ds = (served, d)"
  defines "share \<equiv> computeEffectiveWeights base depths0 paused p / class_sum base"
  shows "length served = length ds \<and> None \<notin> set served \<and>
    of_nat (length ds) * share - 9/4 \<le> of_nat (count_list served (Some p)) \<and>
    of_nat (count_list served (Some p)) \<le> of_nat (length ds) * share + 3/4 \<and>
    (p = Low \<longrightarrow> 1/100 \<le> share)"
proof -
  let ?A = "runnable paused depths0" and ?W = "class_sum base" and ?n = "of_nat (length ds) :: rat"
  let ?w = "computeEffectiveWeights base depths0 paused" and ?c = "of_nat (count_list served (Some p)) :: rat"
  have p: "p \<in> ?A" using assms(5,6) by (simp add: runnable_def)
  then have work: "?A \<noteq> {}" by auto
  have same: "\<forall>depths\<in>set ds. (\<forall>p. 0 \<le> depths p) \<and> runnable paused depths = ?A"
    using assms(4) by (auto simp: runnable_def)
  have "balanced ?A ?W (\<lambda>p. 0)" using assms(2) by (simp add: balanced_def)
  note F = serve_rounds_facts [OF assms(1-3) work same assms(7) this]
  have d: "d p = ?n * ?w p - ?c * ?W" and bal: "balanced ?A ?W d" using F p by auto
  have W: "0 < ?W" using assms(2) by simp
  have lower: "- (3/4) * ?W \<le> d p" using bal p by (auto simp: balanced_def)
  have upper: "d p \<le> 9/4 * ?W" using balanced_upper [OF bal p] W by simp
  have "?n * share - 9/4 \<le> ?c"
    using upper W by (simp add: d share_def field_simps)
  moreover have "?c \<le> ?n * share + 3/4"
    using lower W by (simp add: d share_def field_simps)
  moreover have "p = Low \<longrightarrow> 1/100 \<le> share"
  proof
    assume "p = Low"
    then have "max ?W 100 / 100 \<le> ?w p"
      using effective_weights_facts(5) [OF assms(3,1,2) work] p by simp
    then have "?W / 100 \<le> ?w p" by (simp add: max_def split: if_splits)
    with W show "1/100 \<le> share" by (simp add: share_def field_simps)
  qed
  ultimately show ?thesis using F by auto
qed

lemma rounds_follow_the_weights_witness:
  "\<exists>served d. serve_rounds DEFAULT_PRIORITY_WEIGHTS {High} (\<lambda>p. 0) (replicate 400 (\<lambda>p. 1)) = (served, d) \<and>
     length served = 400 \<and> 1 < count_list served (Some Low)"
proof -
  obtain served d where run:
    "serve_rounds DEFAULT_PRIORITY_WEIGHTS {High} (\<lambda>p. 0) (replicate 400 (\<lambda>p. 1)) = (served, d)"
    by (cases "serve_rounds DEFAULT_PRIORITY_WEIGHTS {High} (\<lambda>p. 0) (replicate 400 (\<lambda>p. 1))")
  have sum: "4 \<le> class_sum DEFAULT_PRIORITY_WEIGHTS"
    by (simp add: class_sum_UNIV sum_UNIV_4 DEFAULT_PRIORITY_WEIGHTS_def)
  have pos: "\<forall>p. 0 < DEFAULT_PRIORITY_WEIGHTS p"
    by (simp add: DEFAULT_PRIORITY_WEIGHTS_def split: PriorityClass.split)
  note F = rounds_follow_the_weights [OF pos sum _ _ _ _ run, of "\<lambda>p. 1" Low]
  let ?share = "computeEffectiveWeights DEFAULT_PRIORITY_WEIGHTS (\<lambda>p. 1) {High} Low / class_sum DEFAULT_PRIORITY_WEIGHTS"
  have "400 * ?share - 9/4 \<le> of_nat (count_list served (Some Low))" "1/100 \<le> ?share" "length served = 400"
    using F by simp_all
  then have "1 < (of_nat (count_list served (Some Low)) :: rat)" by linarith
  then have "1 < count_list served (Some Low)" by simp
  with run \<open>length served = 400\<close> show ?thesis by blast
qed

text \<open>Scheduling is work conserving and in order: \<open>scheduleNext\<close> answers nothing only when every class
  that is not paused is empty, and then changes nothing; otherwise it hands out the oldest job of an
  unpaused class and touches no other class. When BullMQ's removal fails it throws after taking the
  job, which is then in no queue.\<close>

theorem scheduling_is_work_conserving:
  assumes "wfq_ok w"
  shows "case scheduleNext removed w of
      (Inr None, w') \<Rightarrow> w' = w \<and> (\<forall>p. pq_paused (wfq_queues w p) \<or> pq_pending (wfq_queues w p) = [])
    | (Inr (Some (p, job)), w') \<Rightarrow> \<not> pq_paused (wfq_queues w p) \<and>
        pq_pending (wfq_queues w p) = job # pq_pending (wfq_queues w' p) \<and>
        (\<forall>q. q \<noteq> p \<longrightarrow> wfq_queues w' q = wfq_queues w q)
    | (Inl e, w') \<Rightarrow> \<not> removed \<and> (\<exists>p job. pq_pending (wfq_queues w p) = job # pq_pending (wfq_queues w' p) \<and>
        (\<forall>q. q \<noteq> p \<longrightarrow> wfq_queues w' q = wfq_queues w q))"
proof (cases "runnable (set (wfq_paused w)) (getDepths w) = {}")
  case True
  then show ?thesis using runnable_ok [OF assms] by (auto simp: scheduleNext_idle)
next
  case False
  from scheduleNext_busy [OF assms False] obtain p d where
    p: "p \<in> runnable (set (wfq_paused w)) (getDepths w)" and
    sel: "selectNextPriority (wfq_deficits w) (getDepths w) (wfq_effective w) (set (wfq_paused w)) = (Some p, d)" .
  from p have p: "\<not> pq_paused (wfq_queues w p)" "pq_pending (wfq_queues w p) \<noteq> []"
    by (simp_all add: runnable_ok [OF assms])
  then obtain job rest where pend: "pq_pending (wfq_queues w p) = job # rest" by (cases "pq_pending (wfq_queues w p)") auto
  show ?thesis
  proof (cases "job_bullJobId job \<notin> {None, Some ''''} \<and> \<not> removed")
    case True
    with p pend have "pq_dequeue removed (wfq_queues w p) = (Inl BullFailed, (wfq_queues w p)\<lparr>pq_pending := rest\<rparr>)"
      by (simp add: pq_dequeue_def Let_def)
    with sel True pend show ?thesis by (auto simp: scheduleNext_def set_queue_def Let_def)
  next
    case False
    then obtain q where "pq_dequeue removed (wfq_queues w p) = (Inr (Some job), q)" "pq_pending q = rest"
      using p(1) pend by (auto simp: pq_dequeue_def Let_def)
    with sel p pend show ?thesis by (simp add: scheduleNext_def set_queue_def Let_def)
  qed
qed

definition demo_scheduler :: "int WeightedFairQueue" where
  "demo_scheduler =
     newWeightedFairQueue ((\<lambda>p. newPriorityQueue p (Some 1))
       (Low := pq_push (mk_job 5 Low ''j'' 7 no_options None) (newPriorityQueue Low (Some 1)))) None (Some 1)"

lemma demo_scheduler_ok: "wfq_ok demo_scheduler"
proof -
  have "\<exists>n. [] = take n [Low, Normal, High]" by (rule exI [of _ 0]) simp
  moreover have "4 \<le> class_sum DEFAULT_PRIORITY_WEIGHTS" "\<forall>p. 0 < DEFAULT_PRIORITY_WEIGHTS p"
    by (simp_all add: class_sum_UNIV sum_UNIV_4 DEFAULT_PRIORITY_WEIGHTS_def split: PriorityClass.split)
  ultimately show ?thesis
    by (simp add: wfq_ok_def demo_scheduler_def newWeightedFairQueue_def newPriorityQueue_def pq_push_def
        pq_bounded_def pq_depth_def Let_def)
qed

lemma scheduling_is_work_conserving_witness:
  "\<not> (\<exists>w'. scheduleNext True demo_scheduler = (Inr None, w'))"
proof
  assume "\<exists>w'. scheduleNext True demo_scheduler = (Inr None, w')"
  then obtain w' where "scheduleNext True demo_scheduler = (Inr None, w')" ..
  with scheduling_is_work_conserving [OF demo_scheduler_ok, of True]
  have "pq_paused (wfq_queues demo_scheduler Low) \<or> pq_pending (wfq_queues demo_scheduler Low) = []" by simp
  then show False
    by (simp add: demo_scheduler_def newWeightedFairQueue_def newPriorityQueue_def pq_push_def Let_def)
qed

text \<open>Backpressure pauses the lowest class first and never the critical one: in every run of a
  well-formed scheduler the paused classes are, in order, none, low, low and normal, or low, normal
  and high; the critical queue is never paused and no queue exceeds its capacity.\<close>

theorem backpressure_pauses_lowest_first:
  assumes "wfq_ok w" "w' = wfq_run es w"
  shows "wfq_paused w' \<in> {[], [Low], [Low, Normal], [Low, Normal, High]} \<and>
    \<not> pq_paused (wfq_queues w' Critical) \<and>
    (\<forall>p. pq_depth (wfq_queues w' p) \<le> pq_maxSize (wfq_queues w' p))"
proof -
  have ok: "wfq_ok w'" unfolding assms(2) wfq_run_def by (rule scheduler.run_inv [OF assms(1)])
  then obtain n where n: "wfq_paused w' = take n [Low, Normal, High]" by (auto simp: wfq_ok_def)
  consider "n = 0" | "n = 1" | "n = 2" | k where "n = Suc (Suc (Suc k))"
    by (metis One_nat_def Suc_1 not0_implies_Suc)
  then have "wfq_paused w' \<in> {[], [Low], [Low, Normal], [Low, Normal, High]}"
    by cases (simp_all add: n numeral_2_eq_2)
  moreover have "pq_paused (wfq_queues w' Critical) \<longleftrightarrow> Critical \<in> set (wfq_paused w')"
    using ok by (simp add: wfq_ok_def)
  with calculation have "\<not> pq_paused (wfq_queues w' Critical)" by auto
  ultimately show ?thesis using ok by (simp add: wfq_ok_def pq_bounded_def)
qed

lemma backpressure_pauses_lowest_first_witness:
  "\<not> pq_paused (wfq_queues (wfq_run [WBackpressure, WBackpressure, WSchedule True] demo_scheduler) Critical)"
  by (rule backpressure_pauses_lowest_first [OF demo_scheduler_ok refl, THEN conjunct2, THEN conjunct1])

text \<open>A class paused by backpressure is stuck: until \<open>resumeAll\<close> is called, which nothing in the
  repository does, no run of enqueues, rounds, completions, backpressure and worker ticks resumes it,
  hands out one of its jobs or accepts a new one, even when every other class is empty.\<close>

theorem paused_class_is_stuck:
  assumes "p \<in> set (wfq_paused w)" "WResumeAll \<notin> set es"
  shows "p \<in> set (wfq_paused (wfq_run es w)) \<and>
    pq_pending (wfq_queues (wfq_run es w) p) = pq_pending (wfq_queues w p)"
  using assms
proof (induction es arbitrary: w)
  case Nil
  then show ?case by simp
next
  case (Cons e es)
  have enq: "p \<in> set (wfq_paused (snd (wfq_enqueue now bull c name data opts w))) \<and>
      pq_pending (wfq_queues (snd (wfq_enqueue now bull c name data opts w)) p) = pq_pending (wfq_queues w p)"
    for now bull c name data opts
    using paused_applyBackpressure [of w] Cons.prems(1)
    by (cases "pq_add now bull name data opts (wfq_queues (snd (applyBackpressure w)) c)")
      (auto simp: wfq_enqueue_def Let_def set_queue_def)
  note sched = schedule_other_class [OF Cons.prems(1)]
  have "p \<in> set (wfq_paused (wfq_step e w)) \<and> pq_pending (wfq_queues (wfq_step e w) p) = pq_pending (wfq_queues w p)"
  proof (cases e)
    case (WProcess removed hs start stop now)
    have "pq_pending (wfq_queues (snd (processNext removed hs start stop now w)) p) =
        pq_pending (wfq_queues (snd (scheduleNext removed w)) p) \<and>
      wfq_paused (snd (processNext removed hs start stop now w)) = wfq_paused (snd (scheduleNext removed w))"
      by (auto simp: processNext_def Let_def split: sum.split option.split prod.split)
    with WProcess sched [of removed] Cons.prems(1) show ?thesis by simp
  qed (use enq sched Cons.prems paused_applyBackpressure [of w] in
      \<open>auto simp: wfq_spawnSubJob_def startProcessing_def tick_begin_def tick_end_def stopProcessing_def\<close>)
  with Cons.IH [of "wfq_step e w"] Cons.prems(2) show ?case by simp
qed

lemma paused_class_is_stuck_witness:
  "Low \<in> set (wfq_paused (wfq_run [WSchedule True, WStart] (demo_scheduler\<lparr>wfq_paused := [Low]\<rparr>))) \<and>
   pq_pending (wfq_queues (wfq_run [WSchedule True, WStart] (demo_scheduler\<lparr>wfq_paused := [Low]\<rparr>)) Low) =
     pq_pending (wfq_queues (demo_scheduler\<lparr>wfq_paused := [Low]\<rparr>) Low)"
  by (rule paused_class_is_stuck) simp_all

end
