(* ===== verification/Credit.thy ===== *)
theory Credit
  imports Complex_Main Prelude "HOL-Library.Multiset"
begin

text \<open>
  The credit ledger and prepayment wallets of \<^verbatim>\<open>backend/services/billing/creditService.ts\<close> with the
  types of \<^verbatim>\<open>creditTypes.ts\<close>. Amounts are integers in the smallest unit, times are Unix seconds;
  the injected clock is read as the argument \<open>now\<close> of each (synchronous) operation. The
  service's \<open>Map\<close>s and counters are the record \<open>CreditService\<close>; an operation returns its
  result or its \<open>BillingError\<close> together with the state, which a failed operation can change.
  Cloning an account is the identity of a pure model.
\<close>

section \<open>Types\<close>

datatype ExpirationPolicy = Never | AfterSecs int

record CreditLot =
  lot_id :: int
  lot_remaining :: int
  lot_issuedAt :: int
  lot_expiresAt :: "int option"

datatype CreditEntryKind = Issue | Apply | TransferIn | TransferOut | Expire | Deposit | Withdraw

record CreditEntry =
  en_id :: int
  en_kind :: CreditEntryKind
  en_amount :: int
  en_timestamp :: int
  en_reason :: string
  en_counterparty :: "string option"

record CreditAccount =
  ac_accountId :: string
  ac_balance :: int
  ac_available :: int
  ac_lots :: "CreditLot list"
  ac_entries :: "CreditEntry list"
  ac_expirationPolicy :: ExpirationPolicy

datatype PrepaymentTxKind = TxDeposit | TxWithdraw | TxDrawdown

record PrepaymentTransaction =
  tx_id :: int
  tx_walletId :: int
  tx_kind :: PrepaymentTxKind
  tx_amount :: int
  tx_balanceAfter :: int
  tx_invoiceId :: "string option"
  tx_timestamp :: int

record PrepaymentWallet =
  wa_id :: int
  wa_accountId :: string
  wa_subscriptionId :: string
  wa_currency :: string
  wa_balance :: int
  wa_totalDeposited :: int
  wa_totalWithdrawn :: int
  wa_createdAt :: int
  wa_updatedAt :: int

record IssueCreditInput =
  ii_accountId :: string
  ii_actor :: string
  ii_amount :: int
  ii_reason :: string
  ii_expiresAt :: "int option"

record ApplyCreditInput =
  ai_accountId :: string
  ai_subscriptionId :: string
  ai_amountDue :: int

record ApplyCreditResult =
  ar_accountId :: string
  ar_subscriptionId :: string
  ar_applied :: int
  ar_remainingDue :: int
  ar_balanceAfter :: int

record TransferCreditInput =
  ti_fromAccountId :: string
  ti_toAccountId :: string
  ti_amount :: int
  ti_reason :: string

datatype credit_error = CreditInvalidAmount string | CreditInsufficient string int int
  | CreditSelfTransfer string | WalletNotFound int

record CreditService =
  cs_accounts :: "CreditAccount obj"
  cs_wallets :: "(int, PrepaymentWallet) jsmap"
  cs_walletTx :: "(int, PrepaymentTransaction list) jsmap"
  cs_nextLotId :: int
  cs_nextEntryId :: int
  cs_nextWalletId :: int
  cs_nextTxId :: int

definition newCreditService :: CreditService where
  "newCreditService = \<lparr>cs_accounts = [], cs_wallets = [], cs_walletTx = [], cs_nextLotId = 1,
     cs_nextEntryId = 1, cs_nextWalletId = 1, cs_nextTxId = 1\<rparr>"

definition ONE_DAY_SECS :: int where "ONE_DAY_SECS = 86400"

section \<open>Lots and entries\<close>

definition isExpiredLot :: "int \<Rightarrow> CreditLot \<Rightarrow> bool" where
  "isExpiredLot now lot = (case lot_expiresAt lot of None \<Rightarrow> False | Some t \<Rightarrow> t \<le> now)"

definition availableOf :: "CreditAccount \<Rightarrow> int \<Rightarrow> int" where
  "availableOf account now =
     fold (\<lambda>lot sum. if 0 < lot_remaining lot \<and> \<not> isExpiredLot now lot then sum + lot_remaining lot else sum)
       (ac_lots account) 0"

definition empty_account :: "string \<Rightarrow> CreditAccount" where
  "empty_account accountId = \<lparr>ac_accountId = accountId, ac_balance = 0, ac_available = 0, ac_lots = [],
     ac_entries = [], ac_expirationPolicy = Never\<rparr>"

definition commit :: "CreditAccount \<Rightarrow> CreditService \<Rightarrow> CreditService" where
  "commit acc s = s\<lparr>cs_accounts := AList.update (ac_accountId acc) acc (cs_accounts s)\<rparr>"

definition ensureAccount :: "string \<Rightarrow> CreditService \<Rightarrow> CreditAccount \<times> CreditService" where
  "ensureAccount accountId s =
     (case map_of (cs_accounts s) accountId of
        Some acc \<Rightarrow> (acc, s)
      | None \<Rightarrow> (empty_account accountId,
          s\<lparr>cs_accounts := AList.update accountId (empty_account accountId) (cs_accounts s)\<rparr>))"

text \<open>\<open>record\<close>: one entry with the next id; the counter is threaded with the service.\<close>

definition record_entry :: "int \<Rightarrow> CreditEntryKind \<Rightarrow> int \<Rightarrow> string \<Rightarrow> string option
    \<Rightarrow> CreditAccount \<times> CreditService \<Rightarrow> CreditAccount \<times> CreditService" where
  "record_entry now kind amount reason counterparty = (\<lambda>(acc, s).
     (acc\<lparr>ac_entries := ac_entries acc @ [\<lparr>en_id = cs_nextEntryId s, en_kind = kind, en_amount = amount,
         en_timestamp = now, en_reason = reason, en_counterparty = counterparty\<rparr>]\<rparr>,
      s\<lparr>cs_nextEntryId := cs_nextEntryId s + 1\<rparr>))"

definition expire_lot :: "int \<Rightarrow> CreditLot \<Rightarrow> CreditLot" where
  "expire_lot now lot =
     (if 0 < lot_remaining lot \<and> isExpiredLot now lot then lot\<lparr>lot_remaining := 0\<rparr> else lot)"

text \<open>What is past due: the sum the two expiry loops collect.\<close>

definition past_due :: "int \<Rightarrow> CreditAccount \<Rightarrow> int" where
  "past_due now acc =
     sum_list (map lot_remaining (filter (\<lambda>lot. 0 < lot_remaining lot \<and> isExpiredLot now lot) (ac_lots acc)))"

definition realiseExpiryInPlace :: "int \<Rightarrow> CreditAccount \<Rightarrow> int \<times> CreditAccount" where
  "realiseExpiryInPlace now acc =
     (let expired = past_due now acc;
          acc1 = acc\<lparr>ac_lots := map (expire_lot now) (ac_lots acc)\<rparr>
      in (expired, if 0 < expired then acc1\<lparr>ac_balance := ac_balance acc1 - expired\<rparr> else acc1))"

definition realiseExpiry :: "int \<Rightarrow> CreditAccount \<times> CreditService \<Rightarrow> int \<times> CreditAccount \<times> CreditService" where
  "realiseExpiry now = (\<lambda>(acc, s).
     (case realiseExpiryInPlace now acc of (expired, acc1) \<Rightarrow>
        (expired, if 0 < expired then record_entry now Expire (- expired) ''expired'' None (acc1, s)
                  else (acc1, s))))"

definition refreshAvailable :: "int \<Rightarrow> CreditAccount \<Rightarrow> CreditAccount" where
  "refreshAvailable now acc = acc\<lparr>ac_available := availableOf acc now\<rparr>"

definition projectExpiry :: "int \<Rightarrow> CreditAccount \<Rightarrow> CreditAccount" where
  "projectExpiry now acc =
     (let pastDueTotal = past_due now acc;
          p1 = acc\<lparr>ac_lots := map (expire_lot now) (ac_lots acc)\<rparr>;
          p2 = p1\<lparr>ac_available := availableOf p1 now\<rparr>
      in if 0 < pastDueTotal then p2\<lparr>ac_balance := ac_balance p2 - pastDueTotal\<rparr> else p2)"

text \<open>The lots in order give up to \<open>remaining\<close>; the lots and what is still wanted.\<close>

fun consume_lots :: "int \<Rightarrow> int \<Rightarrow> CreditLot list \<Rightarrow> CreditLot list \<times> int" where
  "consume_lots now remaining [] = ([], remaining)"
| "consume_lots now remaining (lot # lots) =
     (if remaining \<le> 0 \<or> lot_remaining lot \<le> 0 \<or> isExpiredLot now lot
      then (case consume_lots now remaining lots of (ls, r) \<Rightarrow> (lot # ls, r))
      else (let take = min (lot_remaining lot) remaining
            in case consume_lots now (remaining - take) lots of
                 (ls, r) \<Rightarrow> (lot\<lparr>lot_remaining := lot_remaining lot - take\<rparr> # ls, r)))"

definition consume :: "CreditAccount \<Rightarrow> int \<Rightarrow> int \<Rightarrow> int \<times> CreditAccount" where
  "consume acc now amount =
     (case consume_lots now amount (ac_lots acc) of
        (lots, remaining) \<Rightarrow> (amount - remaining, acc\<lparr>ac_lots := lots\<rparr>))"

section \<open>Account operations\<close>

definition setExpirationPolicy :: "string \<Rightarrow> ExpirationPolicy \<Rightarrow> CreditService \<Rightarrow> CreditService" where
  "setExpirationPolicy accountId policy s =
     (case ensureAccount accountId s of (acc, s1) \<Rightarrow> commit (acc\<lparr>ac_expirationPolicy := policy\<rparr>) s1)"

definition getAccount :: "int \<Rightarrow> string \<Rightarrow> CreditService \<Rightarrow> CreditAccount \<times> CreditService" where
  "getAccount now accountId s =
     (case ensureAccount accountId s of (acc, s1) \<Rightarrow> (refreshAvailable now (projectExpiry now acc), s1))"

definition getBalance :: "int \<Rightarrow> string \<Rightarrow> CreditService \<Rightarrow> int \<times> CreditService" where
  "getBalance now accountId s = (case ensureAccount accountId s of (acc, s1) \<Rightarrow> (availableOf acc now, s1))"

definition policy_expiry :: "int \<Rightarrow> ExpirationPolicy \<Rightarrow> int option" where
  "policy_expiry now policy = (case policy of AfterSecs seconds \<Rightarrow> Some (now + seconds) | Never \<Rightarrow> None)"

text \<open>A new lot on the account, with its balance and entry: the part \<open>issue\<close> and \<open>transfer\<close> share.\<close>

definition add_lot :: "int \<Rightarrow> CreditEntryKind \<Rightarrow> int \<Rightarrow> int option \<Rightarrow> string \<Rightarrow> string option
    \<Rightarrow> CreditAccount \<times> CreditService \<Rightarrow> CreditAccount \<times> CreditService" where
  "add_lot now kind amount expiry reason counterparty = (\<lambda>(acc, s).
     record_entry now kind amount reason counterparty
       (acc\<lparr>ac_lots := ac_lots acc @ [\<lparr>lot_id = cs_nextLotId s, lot_remaining = amount, lot_issuedAt = now,
              lot_expiresAt = expiry\<rparr>],
            ac_balance := ac_balance acc + amount\<rparr>,
        s\<lparr>cs_nextLotId := cs_nextLotId s + 1\<rparr>))"

definition issueCredit :: "int \<Rightarrow> IssueCreditInput \<Rightarrow> CreditService
    \<Rightarrow> (credit_error + CreditAccount) \<times> CreditService" where
  "issueCredit now input s =
     (if ii_amount input \<le> 0 then (Inl (CreditInvalidAmount ''amount must be positive''), s)
      else
        (case realiseExpiry now (ensureAccount (ii_accountId input) s) of (_, acc1, s1) \<Rightarrow>
           (let expiry = (case ii_expiresAt input of
                    Some t \<Rightarrow> Some t | None \<Rightarrow> policy_expiry now (ac_expirationPolicy acc1))
            in case add_lot now Issue (ii_amount input) expiry (ii_reason input) (Some (ii_actor input)) (acc1, s1) of
                 (acc2, s2) \<Rightarrow>
                   (let s3 = commit (refreshAvailable now acc2) s2
                    in case getAccount now (ac_accountId acc2) s3 of (res, s4) \<Rightarrow> (Inr res, s4)))))"

definition applyCreditToCharge :: "int \<Rightarrow> ApplyCreditInput \<Rightarrow> CreditService
    \<Rightarrow> (credit_error + ApplyCreditResult) \<times> CreditService" where
  "applyCreditToCharge now input s =
     (if ai_amountDue input < 0 then (Inl (CreditInvalidAmount ''amountDue may not be negative''), s)
      else
        (case realiseExpiry now (ensureAccount (ai_accountId input) s) of (_, acc1, s1) \<Rightarrow>
           (case consume acc1 now (min (ai_amountDue input) (availableOf acc1 now)) of (applied, acc2) \<Rightarrow>
              (case (if 0 < applied
                     then record_entry now Apply (- applied) ''charge_application'' None
                            (acc2\<lparr>ac_balance := ac_balance acc2 - applied\<rparr>, s1)
                     else (acc2, s1)) of
                 (acc3, s2) \<Rightarrow>
                   (Inr \<lparr>ar_accountId = ac_accountId acc3, ar_subscriptionId = ai_subscriptionId input,
                         ar_applied = applied, ar_remainingDue = ai_amountDue input - applied,
                         ar_balanceAfter = ac_balance acc3\<rparr>,
                    commit (refreshAvailable now acc3) s2)))))"

definition transferCredit :: "int \<Rightarrow> TransferCreditInput \<Rightarrow> CreditService
    \<Rightarrow> (credit_error + CreditAccount \<times> CreditAccount) \<times> CreditService" where
  "transferCredit now input s =
     (if ti_amount input \<le> 0 then (Inl (CreditInvalidAmount ''amount must be positive''), s)
      else if ti_fromAccountId input = ti_toAccountId input
      then (Inl (CreditSelfTransfer (ti_fromAccountId input)), s)
      else
        (case realiseExpiry now (ensureAccount (ti_fromAccountId input) s) of (_, sender, s1) \<Rightarrow>
           if availableOf sender now < ti_amount input
           then (Inl (CreditInsufficient (ti_fromAccountId input) (ti_amount input) (availableOf sender now)), s1)
           else
             (case consume sender now (ti_amount input) of (moved, sender1) \<Rightarrow>
                (case record_entry now TransferOut (- moved) (ti_reason input) (Some (ti_toAccountId input))
                        (sender1\<lparr>ac_balance := ac_balance sender1 - moved\<rparr>, s1) of
                   (sender2, s2) \<Rightarrow>
                     (let s3 = commit (refreshAvailable now sender2) s2
                      in case realiseExpiry now (ensureAccount (ti_toAccountId input) s3) of
                           (_, recipient, s4) \<Rightarrow>
                             (case add_lot now TransferIn moved (policy_expiry now (ac_expirationPolicy recipient))
                                     (ti_reason input) (Some (ti_fromAccountId input)) (recipient, s4) of
                                (recipient1, s5) \<Rightarrow>
                                  (let s6 = commit (refreshAvailable now recipient1) s5
                                   in case getAccount now (ac_accountId sender2) s6 of (a, s7) \<Rightarrow>
                                        (case getAccount now (ac_accountId recipient1) s7 of (b, s8) \<Rightarrow>
                                           (Inr (a, b), s8)))))))))"

definition expireAccount :: "int \<Rightarrow> string \<Rightarrow> CreditService \<Rightarrow> (int \<times> CreditAccount) \<times> CreditService" where
  "expireAccount now accountId s =
     (case realiseExpiry now (ensureAccount accountId s) of (expired, acc, s1) \<Rightarrow>
        (case getAccount now accountId (commit (refreshAvailable now acc) s1) of
           (res, s2) \<Rightarrow> ((expired, res), s2)))"

fun expire_each :: "int \<Rightarrow> string list \<Rightarrow> CreditService \<Rightarrow> (string \<times> int) list \<times> CreditService" where
  "expire_each now [] s = ([], s)"
| "expire_each now (a # as) s =
     (case expireAccount now a s of ((expired, _), s1) \<Rightarrow>
        (case expire_each now as s1 of (rs, s2) \<Rightarrow> ((a, expired) # rs, s2)))"

definition expireAll :: "int \<Rightarrow> string list option \<Rightarrow> CreditService \<Rightarrow> (string \<times> int) list \<times> CreditService" where
  "expireAll now accounts s =
     expire_each now (case accounts of Some xs \<Rightarrow> xs | None \<Rightarrow> obj_keys (cs_accounts s)) s"

section \<open>Prepayment wallets\<close>

definition createWallet :: "int \<Rightarrow> string \<Rightarrow> string \<Rightarrow> string \<Rightarrow> CreditService \<Rightarrow> PrepaymentWallet \<times> CreditService" where
  "createWallet now accountId subscriptionId currency s =
     (let wallet = \<lparr>wa_id = cs_nextWalletId s, wa_accountId = accountId, wa_subscriptionId = subscriptionId,
            wa_currency = currency, wa_balance = 0, wa_totalDeposited = 0, wa_totalWithdrawn = 0,
            wa_createdAt = now, wa_updatedAt = now\<rparr>
      in (wallet, s\<lparr>cs_nextWalletId := cs_nextWalletId s + 1,
            cs_wallets := AList.update (wa_id wallet) wallet (cs_wallets s),
            cs_walletTx := AList.update (wa_id wallet) [] (cs_walletTx s)\<rparr>))"

text \<open>The lookup the three movements share; a wallet of another account is not found.\<close>

definition own_wallet :: "int \<Rightarrow> string \<Rightarrow> CreditService \<Rightarrow> PrepaymentWallet option" where
  "own_wallet walletId accountId s =
     (case map_of (cs_wallets s) walletId of
        Some w \<Rightarrow> if wa_accountId w = accountId then Some w else None
      | None \<Rightarrow> None)"

text \<open>
  The tail of each movement: the wallet (updated in place in the \<open>Map\<close>) and its transaction,
  numbered and appended. \<open>w\<close> is the wallet after the movement.
\<close>

definition post_movement :: "int \<Rightarrow> PrepaymentTxKind \<Rightarrow> int \<Rightarrow> string option \<Rightarrow> PrepaymentWallet
    \<Rightarrow> CreditService \<Rightarrow> PrepaymentWallet \<times> CreditService" where
  "post_movement now kind amount invoiceId w s =
     (let w1 = w\<lparr>wa_updatedAt := now\<rparr>;
          tx = \<lparr>tx_id = cs_nextTxId s, tx_walletId = wa_id w, tx_kind = kind, tx_amount = amount,
                tx_balanceAfter = wa_balance w, tx_invoiceId = invoiceId, tx_timestamp = now\<rparr>
      in (w1, s\<lparr>cs_nextTxId := cs_nextTxId s + 1,
            cs_wallets := AList.update (wa_id w1) w1 (cs_wallets s),
            cs_walletTx := AList.update (wa_id w1) (obj_or [] (cs_walletTx s) (wa_id w1) @ [tx]) (cs_walletTx s)\<rparr>))"

definition deposit :: "int \<Rightarrow> int \<Rightarrow> string \<Rightarrow> int \<Rightarrow> CreditService
    \<Rightarrow> (credit_error + PrepaymentWallet) \<times> CreditService" where
  "deposit now walletId accountId amount s =
     (if amount \<le> 0 then (Inl (CreditInvalidAmount ''deposit must be positive''), s)
      else case own_wallet walletId accountId s of
        None \<Rightarrow> (Inl (WalletNotFound walletId), s)
      | Some w \<Rightarrow>
          (case post_movement now TxDeposit amount None
                  (w\<lparr>wa_balance := wa_balance w + amount, wa_totalDeposited := wa_totalDeposited w + amount\<rparr>) s of
             (w1, s1) \<Rightarrow> (Inr w1, s1)))"

definition withdraw :: "int \<Rightarrow> int \<Rightarrow> string \<Rightarrow> int \<Rightarrow> CreditService
    \<Rightarrow> (credit_error + PrepaymentWallet) \<times> CreditService" where
  "withdraw now walletId accountId amount s =
     (if amount \<le> 0 then (Inl (CreditInvalidAmount ''withdraw must be positive''), s)
      else case own_wallet walletId accountId s of
        None \<Rightarrow> (Inl (WalletNotFound walletId), s)
      | Some w \<Rightarrow>
          if wa_balance w < amount
          then (Inl (CreditInsufficient (''wallet:'' @ show_int walletId) amount (wa_balance w)), s)
          else
            (case post_movement now TxWithdraw amount None
                    (w\<lparr>wa_balance := wa_balance w - amount, wa_totalWithdrawn := wa_totalWithdrawn w + amount\<rparr>) s of
               (w1, s1) \<Rightarrow> (Inr w1, s1)))"

definition drawdown :: "int \<Rightarrow> int \<Rightarrow> string \<Rightarrow> string \<Rightarrow> int \<Rightarrow> CreditService
    \<Rightarrow> (credit_error + PrepaymentWallet) \<times> CreditService" where
  "drawdown now walletId accountId invoiceId amount s =
     (if amount \<le> 0 then (Inl (CreditInvalidAmount ''drawdown must be positive''), s)
      else case own_wallet walletId accountId s of
        None \<Rightarrow> (Inl (WalletNotFound walletId), s)
      | Some w \<Rightarrow>
          (let drawdownAmount = min (wa_balance w) amount
           in if drawdownAmount \<le> 0 then (Inr w, s)
              else
                (case post_movement now TxDrawdown drawdownAmount (Some invoiceId)
                        (w\<lparr>wa_balance := wa_balance w - drawdownAmount,
                           wa_totalWithdrawn := wa_totalWithdrawn w + drawdownAmount\<rparr>) s of
                   (w1, s1) \<Rightarrow> (Inr w1, s1))))"

definition getWallet :: "int \<Rightarrow> CreditService \<Rightarrow> PrepaymentWallet option" where
  "getWallet walletId s = map_of (cs_wallets s) walletId"

definition getWalletTransactions :: "int \<Rightarrow> CreditService \<Rightarrow> PrepaymentTransaction list" where
  "getWalletTransactions walletId s = obj_or [] (cs_walletTx s) walletId"

definition listWalletsForAccount :: "string \<Rightarrow> CreditService \<Rightarrow> PrepaymentWallet list" where
  "listWalletsForAccount accountId s = filter (\<lambda>w. wa_accountId w = accountId) (map snd (cs_wallets s))"

section \<open>Analytics and reports\<close>

record AccountCreditSummary =
  su_accountId :: string
  su_balance :: int
  su_availableBalance :: int
  su_totalIssued :: int
  su_totalApplied :: int
  su_totalTransferredIn :: int
  su_totalTransferredOut :: int
  su_totalExpired :: int
  su_within7d :: int
  su_within30d :: int
  su_noExpiry :: int
  su_averageConsumptionDays :: rat

text \<open>The latest \<open>issue\<close> entry at or before the given application.\<close>

definition findMatchingIssue :: "CreditEntry list \<Rightarrow> CreditEntry \<Rightarrow> CreditEntry option" where
  "findMatchingIssue entries app =
     fold (\<lambda>e candidate. if en_kind e = Issue \<and> 0 < en_amount e \<and> en_timestamp e \<le> en_timestamp app
                          then Some e else candidate) entries None"

definition lifetime :: "CreditEntryKind \<Rightarrow> int \<Rightarrow> CreditEntry list \<Rightarrow> int" where
  "lifetime kind sign entries =
     fold (\<lambda>e sum. if en_kind e = kind then sum + sign * en_amount e else sum) entries 0"

definition consumption_latencies :: "CreditEntry list \<Rightarrow> rat list" where
  "consumption_latencies entries =
     concat (map (\<lambda>e. if en_kind e = Apply
         then (case findMatchingIssue entries e of
                 Some i \<Rightarrow> [rat_of_int (en_timestamp e - en_timestamp i) / rat_of_int ONE_DAY_SECS]
               | None \<Rightarrow> [])
         else []) entries)"

text \<open>The three buckets; an \<open>expiresAt\<close> of 0 is falsy and counts as no expiry.\<close>

definition bucket_lot :: "int \<Rightarrow> CreditLot \<Rightarrow> int \<times> int \<times> int \<Rightarrow> int \<times> int \<times> int" where
  "bucket_lot now lot = (\<lambda>(w7, w30, none).
     if lot_remaining lot \<le> 0 then (w7, w30, none)
     else case lot_expiresAt lot of
       None \<Rightarrow> (w7, w30, none + lot_remaining lot)
     | Some t \<Rightarrow>
         if t = 0 then (w7, w30, none + lot_remaining lot)
         else (let days = ceil_div (t - now) ONE_DAY_SECS
               in if days \<le> 7 then (w7 + lot_remaining lot, w30, none)
                  else if days \<le> 30 then (w7, w30 + lot_remaining lot, none)
                  else (w7, w30, none + lot_remaining lot)))"

definition computeSummary :: "CreditAccount \<Rightarrow> int \<Rightarrow> AccountCreditSummary" where
  "computeSummary acc now =
     (let lat = consumption_latencies (ac_entries acc)
      in case fold (bucket_lot now) (ac_lots acc) (0, 0, 0) of (w7, w30, none) \<Rightarrow>
        \<lparr>su_accountId = ac_accountId acc, su_balance = ac_balance acc, su_availableBalance = availableOf acc now,
         su_totalIssued = lifetime Issue 1 (ac_entries acc), su_totalApplied = lifetime Apply (-1) (ac_entries acc),
         su_totalTransferredIn = lifetime TransferIn 1 (ac_entries acc),
         su_totalTransferredOut = lifetime TransferOut (-1) (ac_entries acc),
         su_totalExpired = lifetime Expire (-1) (ac_entries acc),
         su_within7d = w7, su_within30d = w30, su_noExpiry = none,
         su_averageConsumptionDays = (if lat = [] then 0 else sum_list lat / of_nat (length lat))\<rparr>)"

definition getAccountSummary :: "int \<Rightarrow> string \<Rightarrow> CreditService \<Rightarrow> AccountCreditSummary \<times> CreditService" where
  "getAccountSummary now accountId s =
     (case ensureAccount accountId s of (acc, s1) \<Rightarrow> (computeSummary (projectExpiry now acc) now, s1))"

record CreditBucketBreakdown =
  br_totalActiveAccounts :: int
  br_totalOutstandingLiability :: int
  br_totalOutstandingLiabilityCommitted :: int
  br_totalIssuedAllTime :: int
  br_totalAppliedAllTime :: int
  br_totalExpiredAllTime :: int
  br_totalExpiredProjectedAllTime :: int
  br_issuanceByReason :: "int obj"

definition breakdown_entry :: "CreditEntry \<Rightarrow> CreditBucketBreakdown \<Rightarrow> CreditBucketBreakdown" where
  "breakdown_entry e b =
     (if en_kind e = Issue \<and> 0 < en_amount e then
        b\<lparr>br_totalIssuedAllTime := br_totalIssuedAllTime b + en_amount e,
          br_issuanceByReason := AList.update (en_reason e)
            (obj_or 0 (br_issuanceByReason b) (en_reason e) + en_amount e) (br_issuanceByReason b)\<rparr>
      else if en_kind e = Apply \<and> en_amount e < 0 then
        b\<lparr>br_totalAppliedAllTime := br_totalAppliedAllTime b + - en_amount e\<rparr>
      else if en_kind e = Expire \<and> en_amount e < 0 then
        b\<lparr>br_totalExpiredAllTime := br_totalExpiredAllTime b + - en_amount e\<rparr>
      else b)"

definition projected_loss :: "int \<Rightarrow> CreditAccount \<Rightarrow> int" where
  "projected_loss now acc =
     (if ac_balance (projectExpiry now acc) < ac_balance acc
      then ac_balance acc - ac_balance (projectExpiry now acc) else 0)"

definition breakdown_account :: "int \<Rightarrow> CreditAccount \<Rightarrow> CreditBucketBreakdown \<Rightarrow> CreditBucketBreakdown" where
  "breakdown_account now acc b =
     (let projected = projectExpiry now acc
      in fold breakdown_entry (ac_entries acc)
           (b\<lparr>br_totalActiveAccounts := br_totalActiveAccounts b + (if 0 < ac_available projected then 1 else 0),
              br_totalOutstandingLiability := br_totalOutstandingLiability b + ac_available projected,
              br_totalOutstandingLiabilityCommitted :=
                br_totalOutstandingLiabilityCommitted b + sum_list (map lot_remaining (ac_lots acc)),
              br_totalExpiredProjectedAllTime := br_totalExpiredProjectedAllTime b + projected_loss now acc\<rparr>))"

definition empty_breakdown :: CreditBucketBreakdown where
  "empty_breakdown = \<lparr>br_totalActiveAccounts = 0, br_totalOutstandingLiability = 0,
     br_totalOutstandingLiabilityCommitted = 0, br_totalIssuedAllTime = 0, br_totalAppliedAllTime = 0,
     br_totalExpiredAllTime = 0, br_totalExpiredProjectedAllTime = 0, br_issuanceByReason = []\<rparr>"

definition getGlobalBreakdown :: "int \<Rightarrow> CreditService \<Rightarrow> CreditBucketBreakdown" where
  "getGlobalBreakdown now s =
     fold (breakdown_account now) (map snd (cs_accounts s)) empty_breakdown"

record CreditUsageTrendPoint =
  tp_timestamp :: int
  tp_issued :: int
  tp_applied :: int
  tp_expired :: int
  tp_expiredProjected :: int
  tp_netIssuance :: int

text \<open>The \<open>Map\<close> of empty buckets, keyed by their start.\<close>

definition trend_buckets :: "int \<Rightarrow> int \<Rightarrow> int \<Rightarrow> (int, CreditUsageTrendPoint) jsmap" where
  "trend_buckets start days bucketSecs =
     fold (\<lambda>i m. (let ts = start + int i * bucketSecs
                  in AList.update ts \<lparr>tp_timestamp = ts, tp_issued = 0, tp_applied = 0, tp_expired = 0,
                       tp_expiredProjected = 0, tp_netIssuance = 0\<rparr> m)) [0..<nat days] []"

definition on_bucket :: "int \<Rightarrow> (CreditUsageTrendPoint \<Rightarrow> CreditUsageTrendPoint)
    \<Rightarrow> (int, CreditUsageTrendPoint) jsmap \<Rightarrow> (int, CreditUsageTrendPoint) jsmap" where
  "on_bucket ts f m = (case map_of m ts of None \<Rightarrow> m | Some b \<Rightarrow> AList.update ts (f b) m)"

text \<open>The start of the bucket an entry falls into (lines 574-575); \<open>bucketSecs\<close> is positive.\<close>

definition trend_bucket_of :: "int \<Rightarrow> int \<Rightarrow> int \<Rightarrow> int \<Rightarrow> int" where
  "trend_bucket_of start days bucketSecs t =
     start + min (days - 1) ((t - start) div bucketSecs) * bucketSecs"

definition trend_entry :: "int \<Rightarrow> int \<Rightarrow> int \<Rightarrow> int \<Rightarrow> CreditEntry
    \<Rightarrow> (int, CreditUsageTrendPoint) jsmap \<Rightarrow> (int, CreditUsageTrendPoint) jsmap" where
  "trend_entry now start days bucketSecs e m =
     (if en_timestamp e < start \<or> now < en_timestamp e then m
      else on_bucket (trend_bucket_of start days bucketSecs (en_timestamp e)) (\<lambda>b.
        (case en_kind e of
           Issue \<Rightarrow> b\<lparr>tp_issued := tp_issued b + en_amount e, tp_netIssuance := tp_netIssuance b + en_amount e\<rparr>
         | Apply \<Rightarrow> b\<lparr>tp_applied := tp_applied b + - en_amount e, tp_netIssuance := tp_netIssuance b - - en_amount e\<rparr>
         | Expire \<Rightarrow> b\<lparr>tp_expired := tp_expired b + - en_amount e\<rparr>
         | _ \<Rightarrow> b)) m)"

definition trend_account :: "int \<Rightarrow> int \<Rightarrow> int \<Rightarrow> int \<Rightarrow> CreditAccount
    \<Rightarrow> (int, CreditUsageTrendPoint) jsmap \<Rightarrow> (int, CreditUsageTrendPoint) jsmap" where
  "trend_account now start days bucketSecs acc m =
     (let d = projected_loss now acc;
          m1 = (if 0 < d then on_bucket (start + (days - 1) * bucketSecs)
                  (\<lambda>b. b\<lparr>tp_expiredProjected := tp_expiredProjected b + d\<rparr>) m else m)
      in fold (trend_entry now start days bucketSecs) (ac_entries acc) m1)"

definition getUsageTrend :: "int \<Rightarrow> int \<Rightarrow> int \<Rightarrow> CreditService \<Rightarrow> CreditUsageTrendPoint list" where
  "getUsageTrend now days bucketSecs s =
     (if days \<le> 0 then []
      else (let start = now - (days - 1) * bucketSecs
            in sort_key tp_timestamp (map snd
                 (fold (trend_account now start days bucketSecs) (map snd (cs_accounts s))
                   (trend_buckets start days bucketSecs)))))"

record CreditExpiryForecast =
  fc_accountId :: string
  fc_amount :: int
  fc_expiresAt :: int
  fc_daysRemaining :: int

definition forecast_lot :: "int \<Rightarrow> int \<Rightarrow> string \<Rightarrow> CreditLot \<Rightarrow> CreditExpiryForecast list" where
  "forecast_lot now horizonEnd accountId lot =
     (case lot_expiresAt lot of
        None \<Rightarrow> []
      | Some t \<Rightarrow>
          if lot_remaining lot \<le> 0 \<or> t \<le> now \<or> horizonEnd < t then []
          else [\<lparr>fc_accountId = accountId, fc_amount = lot_remaining lot, fc_expiresAt = t,
                 fc_daysRemaining = max 1 (ceil_div (t - now) ONE_DAY_SECS)\<rparr>])"

definition getExpiryForecast :: "int \<Rightarrow> string \<Rightarrow> int \<Rightarrow> CreditService \<Rightarrow> CreditExpiryForecast list \<times> CreditService" where
  "getExpiryForecast now accountId horizonSecs s =
     (case ensureAccount accountId s of (acc, s1) \<Rightarrow>
        (sort_key fc_expiresAt (concat (map (forecast_lot now (now + horizonSecs) accountId) (ac_lots acc))), s1))"

record TopAccount =
  ta_accountId :: string
  ta_balance :: int
  ta_availableBalance :: int
  ta_rank :: int

definition topAccountsByBalance :: "int \<Rightarrow> int \<Rightarrow> CreditService \<Rightarrow> TopAccount list" where
  "topAccountsByBalance now limit s =
     (let snapshot = map (\<lambda>acc. let p = projectExpiry now acc
            in (ac_accountId acc, ac_balance p, ac_available p)) (map snd (cs_accounts s));
          sorted = sort_key (\<lambda>(_, _, available). - available) snapshot
      in map (\<lambda>(idx, (a, b, v)). \<lparr>ta_accountId = a, ta_balance = b, ta_availableBalance = v, ta_rank = int idx + 1\<rparr>)
           (enumerate 0 (js_slice 0 limit sorted)))"

definition listAccounts :: "int \<Rightarrow> CreditService \<Rightarrow> CreditAccount list" where
  "listAccounts now s = map (projectExpiry now) (map snd (cs_accounts s))"

record CreditReport =
  rp_generatedAt :: int
  rp_accountId :: string
  rp_summary :: AccountCreditSummary
  rp_entries :: "CreditEntry list"
  rp_wallets :: "PrepaymentWallet list"
  rp_transactions :: "PrepaymentTransaction list"
  rp_issued :: int
  rp_applied :: int
  rp_expired :: int

definition printReport :: "int \<Rightarrow> string \<Rightarrow> CreditService \<Rightarrow> CreditReport \<times> CreditService" where
  "printReport now accountId s =
     (case ensureAccount accountId s of (acc, s1) \<Rightarrow>
        (let live = projectExpiry now acc;
             wallets = listWalletsForAccount accountId s1;
             of_kind = (\<lambda>k. map en_amount (filter (\<lambda>e. en_kind e = k) (ac_entries live)))
         in (\<lparr>rp_generatedAt = now, rp_accountId = accountId, rp_summary = computeSummary live now,
              rp_entries = ac_entries live, rp_wallets = wallets,
              rp_transactions = concat (map (\<lambda>w. getWalletTransactions (wa_id w) s1) wallets),
              rp_issued = sum_list (of_kind Issue), rp_applied = sum_list (map uminus (of_kind Apply)),
              rp_expired = sum_list (map uminus (of_kind Expire))\<rparr>, s1)))"

record CreditAuditQuery =
  aq_accountId :: string
  aq_fromTime :: "int option"
  aq_toTime :: "int option"
  aq_kinds :: "CreditEntryKind list option"
  aq_limit :: "int option"
  aq_offset :: "int option"

record CreditAuditPage =
  ap_entries :: "CreditEntry list"
  ap_totalEntries :: int
  ap_hasMore :: bool
  ap_nextOffset :: "int option"

definition audit_matches :: "CreditAuditQuery \<Rightarrow> CreditEntry \<Rightarrow> bool" where
  "audit_matches query e \<longleftrightarrow>
     (case aq_fromTime query of None \<Rightarrow> True | Some f \<Rightarrow> f \<le> en_timestamp e) \<and>
     (case aq_toTime query of None \<Rightarrow> True | Some t \<Rightarrow> en_timestamp e \<le> t) \<and>
     (case aq_kinds query of None \<Rightarrow> True | Some ks \<Rightarrow> ks = [] \<or> en_kind e \<in> set ks)"

definition getAuditTrail :: "int \<Rightarrow> CreditAuditQuery \<Rightarrow> CreditService \<Rightarrow> CreditAuditPage \<times> CreditService" where
  "getAuditTrail now query s =
     (case ensureAccount (aq_accountId query) s of (acc, s1) \<Rightarrow>
        (let entries = sort_key (\<lambda>e. - en_timestamp e)
               (filter (audit_matches query) (ac_entries (projectExpiry now acc)));
             offset = max 0 (case aq_offset query of None \<Rightarrow> 0 | Some n \<Rightarrow> n);
             limit = max 1 (case aq_limit query of None \<Rightarrow> 100 | Some n \<Rightarrow> n);
             total = int (length entries)
         in (\<lparr>ap_entries = js_slice offset (offset + limit) entries, ap_totalEntries = total,
              ap_hasMore = (offset + limit < total),
              ap_nextOffset = (if offset + limit < total then Some (offset + limit) else None)\<rparr>, s1)))"

section \<open>Sums of lots\<close>

definition live :: "int \<Rightarrow> CreditLot \<Rightarrow> bool" where
  "live now lot \<longleftrightarrow> 0 < lot_remaining lot \<and> \<not> isExpiredLot now lot"

definition lots_total :: "CreditLot list \<Rightarrow> int" where
  "lots_total lots = sum_list (map lot_remaining lots)"

definition live_total :: "int \<Rightarrow> CreditLot list \<Rightarrow> int" where
  "live_total now lots = sum_list (map lot_remaining (filter (live now) lots))"

definition entries_total :: "CreditEntry list \<Rightarrow> int" where
  "entries_total es = sum_list (map en_amount es)"

definition lots_ok :: "CreditLot list \<Rightarrow> bool" where
  "lots_ok lots \<longleftrightarrow> (\<forall>lot\<in>set lots. 0 \<le> lot_remaining lot)"

lemma lots_ok_simps [simp]:
  "lots_ok []" "lots_ok (lot # lots) \<longleftrightarrow> 0 \<le> lot_remaining lot \<and> lots_ok lots"
  "lots_ok (as @ bs) \<longleftrightarrow> lots_ok as \<and> lots_ok bs"
  by (auto simp: lots_ok_def)

lemma total_simps [simp]:
  "lots_total [] = 0" "lots_total (lot # lots) = lot_remaining lot + lots_total lots"
  "lots_total (as @ bs) = lots_total as + lots_total bs"
  "live_total now [] = 0"
  "live_total now (lot # lots) = (if live now lot then lot_remaining lot else 0) + live_total now lots"
  "live_total now (as @ bs) = live_total now as + live_total now bs"
  "entries_total [] = 0" "entries_total (e # es) = en_amount e + entries_total es"
  "entries_total (xs @ ys) = entries_total xs + entries_total ys"
  by (simp_all add: lots_total_def live_total_def entries_total_def)

lemma availableOf_eq [simp]: "availableOf acc now = live_total now (ac_lots acc)"
proof -
  have "fold (\<lambda>lot sum. if 0 < lot_remaining lot \<and> \<not> isExpiredLot now lot then sum + lot_remaining lot else sum) lots n
      = n + live_total now lots" for lots n
    by (induction lots arbitrary: n) (simp_all add: live_def)
  from this [of "ac_lots acc" 0] show ?thesis by (simp add: availableOf_def)
qed

definition due_total :: "int \<Rightarrow> CreditLot list \<Rightarrow> int" where
  "due_total now lots = lots_total lots - live_total now lots"

lemma past_due_eq: "lots_ok (ac_lots acc) \<Longrightarrow> past_due now acc = due_total now (ac_lots acc)"
proof -
  have "lots_ok lots \<Longrightarrow>
      sum_list (map lot_remaining (filter (\<lambda>lot. 0 < lot_remaining lot \<and> isExpiredLot now lot) lots)) = due_total now lots"
    for lots by (induction lots) (auto simp: live_def due_total_def)
  then show "lots_ok (ac_lots acc) \<Longrightarrow> past_due now acc = due_total now (ac_lots acc)" by (simp add: past_due_def)
qed

lemma live_nonneg: "0 \<le> live_total now lots"
  by (induction lots) (auto simp: live_def)

lemma due_nonneg: "lots_ok lots \<Longrightarrow> 0 \<le> due_total now lots"
  by (induction lots) (auto simp: due_total_def live_def)

lemma expire_lots:
  assumes "lots_ok lots"
  shows "lots_ok (map (expire_lot now) lots)" "lots_total (map (expire_lot now) lots) = live_total now lots"
    "live_total now (map (expire_lot now) lots) = live_total now lots"
    "map lot_id (map (expire_lot now) lots) = map lot_id lots"
  using assms by (induction lots) (auto simp: expire_lot_def live_def isExpiredLot_def)

lemma live_expire_lot:
  "live now (expire_lot now lot) = live now lot" "live now lot \<Longrightarrow> expire_lot now lot = lot"
  by (auto simp: expire_lot_def live_def isExpiredLot_def)

lemma consume_lots_facts:
  assumes "lots_ok lots" "0 \<le> r" "consume_lots now r lots = (ls, r')"
  shows "0 \<le> r' \<and> r' \<le> r \<and> r' = max 0 (r - live_total now lots) \<and> lots_ok ls \<and>
    lots_total ls = lots_total lots - (r - r') \<and> live_total now ls = live_total now lots - (r - r') \<and>
    map lot_id ls = map lot_id lots \<and> length ls = length lots"
  using assms
proof (induction lots arbitrary: r ls r')
  case Nil
  then show ?case by simp
next
  case (Cons lot lots)
  show ?case
  proof (cases "r \<le> 0 \<or> lot_remaining lot \<le> 0 \<or> isExpiredLot now lot")
    case True
    obtain l q where rest: "consume_lots now r lots = (l, q)" by (cases "consume_lots now r lots")
    with Cons.prems(3) True have "ls = lot # l" "r' = q" by auto
    with Cons.IH [OF _ Cons.prems(2) rest] Cons.prems(1,2) True live_nonneg [of now lots] show ?thesis
      by (auto simp: live_def)
  next
    case False
    let ?t = "min (lot_remaining lot) r"
    obtain l q where rest: "consume_lots now (r - ?t) lots = (l, q)" by (cases "consume_lots now (r - ?t) lots")
    with Cons.prems(3) False have ls: "ls = lot\<lparr>lot_remaining := lot_remaining lot - ?t\<rparr> # l" "r' = q"
      by (auto simp: Let_def)
    have "isExpiredLot now (lot\<lparr>lot_remaining := x\<rparr>) = isExpiredLot now lot" for x by (simp add: isExpiredLot_def)
    with Cons.IH [OF _ _ rest] Cons.prems(1,2) False ls live_nonneg [of now lots] show ?thesis
      by (cases "lot_remaining lot \<le> r") (auto simp: live_def)
  qed
qed

lemma consume_lots_zero: "consume_lots now r lots = (lots, r)" if "r \<le> 0"
  using that by (induction lots) auto

text \<open>First in, first out: a lot that keeps something shields every later one.\<close>

lemma consume_lots_fifo:
  assumes "consume_lots now r lots = (ls, r')" "i < j" "j < length lots" "live now (lots ! i)" "0 < lot_remaining (ls ! i)"
  shows "ls ! j = lots ! j"
  using assms
proof (induction lots arbitrary: r ls i j r')
  case Nil
  then show ?case by simp
next
  case (Cons lot lots)
  obtain j' where j: "j = Suc j'" using Cons.prems(2) by (cases j) auto
  show ?case
  proof (cases "r \<le> 0 \<or> lot_remaining lot \<le> 0 \<or> isExpiredLot now lot")
    case True
    obtain l q where rest: "consume_lots now r lots = (l, q)" by (cases "consume_lots now r lots")
    with Cons.prems(1) True have ls: "ls = lot # l" by auto
    show ?thesis
    proof (cases i)
      case 0
      with Cons.prems(4) True have "r \<le> 0" by (auto simp: live_def)
      with rest ls j show ?thesis by (simp add: consume_lots_zero)
    next
      case (Suc i')
      with Cons.IH [OF rest, of i' j'] Cons.prems ls j show ?thesis by simp
    qed
  next
    case False
    let ?t = "min (lot_remaining lot) r"
    obtain l q where rest: "consume_lots now (r - ?t) lots = (l, q)" by (cases "consume_lots now (r - ?t) lots")
    with Cons.prems(1) False have ls: "ls = lot\<lparr>lot_remaining := lot_remaining lot - ?t\<rparr> # l"
      by (auto simp: Let_def)
    show ?thesis
    proof (cases i)
      case 0
      with Cons.prems(5) ls have "r - ?t \<le> 0" by auto
      with rest ls j show ?thesis by (simp add: consume_lots_zero)
    next
      case (Suc i')
      with Cons.IH [OF rest, of i' j'] Cons.prems ls j show ?thesis by simp
    qed
  qed
qed

section \<open>The ledger invariant\<close>

text \<open>An account's balance is both what its lots hold and what its entries add up to.\<close>

definition acc_ok :: "CreditAccount \<Rightarrow> bool" where
  "acc_ok acc \<longleftrightarrow> lots_ok (ac_lots acc) \<and> ac_balance acc = lots_total (ac_lots acc) \<and>
     ac_balance acc = entries_total (ac_entries acc)"

definition ids_ok :: "CreditService \<Rightarrow> CreditAccount \<Rightarrow> bool" where
  "ids_ok s acc \<longleftrightarrow> sorted_wrt (<) (map lot_id (ac_lots acc)) \<and> (\<forall>i\<in>set (map lot_id (ac_lots acc)). i < cs_nextLotId s) \<and>
     sorted_wrt (<) (map en_id (ac_entries acc)) \<and> (\<forall>i\<in>set (map en_id (ac_entries acc)). i < cs_nextEntryId s)"

definition ledger_ok :: "CreditService \<Rightarrow> bool" where
  "ledger_ok s \<longleftrightarrow> obj_ok (cs_accounts s) \<and>
     (\<forall>k acc. map_of (cs_accounts s) k = Some acc \<longrightarrow> ac_accountId acc = k \<and> acc_ok acc \<and> ids_ok s acc)"

text \<open>Only the counters moved, and only up.\<close>

definition grown :: "CreditService \<Rightarrow> CreditService \<Rightarrow> bool" where
  "grown s s1 \<longleftrightarrow> (\<exists>l e. 0 \<le> l \<and> 0 \<le> e \<and>
     s1 = s\<lparr>cs_nextLotId := cs_nextLotId s + l, cs_nextEntryId := cs_nextEntryId s + e\<rparr>)"

lemma grown_refl [simp]: "grown s s"
  unfolding grown_def by (intro exI [of _ 0]) simp

lemma grown_trans: "grown s t \<Longrightarrow> grown t u \<Longrightarrow> grown s u"
  unfolding grown_def by (elim exE conjE, rule_tac x = "l + la" in exI, rule_tac x = "e + ea" in exI) simp

lemma grown_same: "grown s s1 \<Longrightarrow> cs_accounts s1 = cs_accounts s \<and> cs_wallets s1 = cs_wallets s \<and>
    cs_walletTx s1 = cs_walletTx s \<and> cs_nextWalletId s1 = cs_nextWalletId s \<and> cs_nextTxId s1 = cs_nextTxId s"
  by (auto simp: grown_def)

lemma ids_balance [simp]: "ids_ok s (acc\<lparr>ac_balance := b\<rparr>) = ids_ok s acc"
  by (simp add: ids_ok_def)

lemma below_mono: "\<forall>x\<in>A. f x < (n::int) \<Longrightarrow> n \<le> m \<Longrightarrow> \<forall>x\<in>A. f x < m"
proof
  fix x assume "\<forall>x\<in>A. f x < n" "n \<le> m" "x \<in> A"
  then have "f x < n" "n \<le> m" by blast+
  then show "f x < m" by (rule less_le_trans)
qed

lemma below_le: "\<forall>x\<in>A. f x < (n::int) \<Longrightarrow> x \<in> A \<Longrightarrow> f x \<le> n"
  by (drule (1) bspec) simp

lemma ids_mono:
  assumes "ids_ok s acc" "cs_nextLotId s \<le> cs_nextLotId s1" "cs_nextEntryId s \<le> cs_nextEntryId s1"
  shows "ids_ok s1 acc"
  unfolding ids_ok_def
proof (intro conjI)
  note ok = assms(1) [unfolded ids_ok_def]
  show "sorted_wrt (<) (map lot_id (ac_lots acc))" "sorted_wrt (<) (map en_id (ac_entries acc))"
    using ok by blast+
  show "\<forall>i\<in>set (map lot_id (ac_lots acc)). i < cs_nextLotId s1"
    by (rule below_mono [OF _ assms(2)]) (use ok in blast)
  show "\<forall>i\<in>set (map en_id (ac_entries acc)). i < cs_nextEntryId s1"
    by (rule below_mono [OF _ assms(3)]) (use ok in blast)
qed

lemma ids_grown: "grown s s1 \<Longrightarrow> ids_ok s acc \<Longrightarrow> ids_ok s1 acc"
  by (rule ids_mono) (auto simp: grown_def)

lemma ledger_grown: "grown s s1 \<Longrightarrow> ledger_ok s \<Longrightarrow> ledger_ok s1"
  using ids_grown [of s s1] grown_same [of s s1] by (auto simp: ledger_ok_def)

lemma ledger_ensure:
  assumes "ledger_ok s" "ensureAccount a s = (acc, s1)"
  shows "ledger_ok s1 \<and> ac_accountId acc = a \<and> acc_ok acc \<and> ids_ok s1 acc \<and> map_of (cs_accounts s1) a = Some acc \<and>
    (\<forall>b. b \<noteq> a \<longrightarrow> map_of (cs_accounts s1) b = map_of (cs_accounts s) b) \<and>
    s1\<lparr>cs_accounts := cs_accounts s\<rparr> = s"
proof (cases "map_of (cs_accounts s) a")
  case None
  have "acc_ok (empty_account a)" "ids_ok t (empty_account a)" for t
    by (simp_all add: acc_ok_def ids_ok_def empty_account_def)
  moreover have "ids_ok (s\<lparr>cs_accounts := x\<rparr>) b = ids_ok s b" for x b by (simp add: ids_ok_def)
  ultimately show ?thesis
    using assms None by (auto simp: ensureAccount_def ledger_ok_def empty_account_def split: if_splits)
next
  case (Some acc')
  with assms show ?thesis by (auto simp: ensureAccount_def ledger_ok_def)
qed

lemma ledger_commit:
  assumes "ledger_ok s" "acc_ok acc" "ids_ok s acc"
  shows "ledger_ok (commit acc s)"
proof -
  have "ids_ok (commit acc s) b = ids_ok s b" for b by (simp add: ids_ok_def commit_def)
  with assms show ?thesis
    by (auto simp: ledger_ok_def commit_def split: if_splits)
qed

lemma record_entry_facts:
  assumes "record_entry now kind amount reason cp (acc, s) = (acc1, s1)" "ids_ok s acc"
  shows "ids_ok s1 acc1 \<and> grown s s1 \<and> ac_lots acc1 = ac_lots acc \<and> ac_balance acc1 = ac_balance acc \<and>
    entries_total (ac_entries acc1) = entries_total (ac_entries acc) + amount \<and>
    ac_accountId acc1 = ac_accountId acc \<and> ac_expirationPolicy acc1 = ac_expirationPolicy acc \<and>
    ac_available acc1 = ac_available acc"
proof -
  have s1: "s1 = s\<lparr>cs_nextEntryId := cs_nextEntryId s + 1\<rparr>" using assms(1) by (auto simp: record_entry_def)
  have "grown s s1" unfolding grown_def by (rule exI [of _ 0], rule exI [of _ 1]) (simp add: s1)
  moreover have "ids_ok s1 acc1"
    using assms below_le [of "set (ac_entries acc)" en_id "cs_nextEntryId s"]
    by (auto simp: record_entry_def ids_ok_def sorted_wrt_append)
  ultimately show ?thesis using assms by (auto simp: record_entry_def)
qed

lemma realiseExpiry_facts:
  assumes "acc_ok acc" "ids_ok s acc" "realiseExpiry now (acc, s) = (e, acc1, s1)"
  shows "acc_ok acc1 \<and> ids_ok s1 acc1 \<and> grown s s1 \<and> e = due_total now (ac_lots acc) \<and>
    ac_balance acc1 = live_total now (ac_lots acc) \<and> live_total now (ac_lots acc1) = live_total now (ac_lots acc) \<and>
    ac_lots acc1 = map (expire_lot now) (ac_lots acc) \<and>
    ac_accountId acc1 = ac_accountId acc \<and> ac_expirationPolicy acc1 = ac_expirationPolicy acc"
proof -
  let ?l = "ac_lots acc"
  have ok: "lots_ok ?l" "ac_balance acc = lots_total ?l" "ac_balance acc = entries_total (ac_entries acc)"
    using assms(1) by (auto simp: acc_ok_def)
  define acc0 where "acc0 = snd (realiseExpiryInPlace now acc)"
  have e: "realiseExpiryInPlace now acc = (due_total now ?l, acc0)"
    using past_due_eq [OF ok(1)] by (simp add: acc0_def realiseExpiryInPlace_def Let_def)
  have acc0: "ac_lots acc0 = map (expire_lot now) ?l" "ac_balance acc0 = live_total now ?l"
    "ac_entries acc0 = ac_entries acc" "ac_accountId acc0 = ac_accountId acc"
    "ac_expirationPolicy acc0 = ac_expirationPolicy acc"
    using past_due_eq [OF ok(1)] due_nonneg [OF ok(1), of now] ok(2)
    by (auto simp: acc0_def realiseExpiryInPlace_def Let_def due_total_def)
  note L = expire_lots [OF ok(1), of now]
  have ids0: "ids_ok s acc0" using assms(2) unfolding ids_ok_def acc0 L(4) by blast
  show ?thesis
  proof (cases "0 < due_total now ?l")
    case True
    with assms(3) e have r: "record_entry now Expire (- due_total now ?l) ''expired'' None (acc0, s) = (acc1, s1)"
      "e = due_total now ?l" by (auto simp: realiseExpiry_def)
    from record_entry_facts [OF r(1) ids0] L acc0 ok r(2) show ?thesis
      by (auto simp: acc_ok_def due_total_def)
  next
    case False
    with due_nonneg [OF ok(1), of now] have "due_total now ?l = 0" by simp
    with False assms(3) e have "acc1 = acc0" "s1 = s" "e = 0" by (auto simp: realiseExpiry_def)
    with L acc0 ok ids0 \<open>due_total now ?l = 0\<close> show ?thesis
      by (auto simp: acc_ok_def due_total_def)
  qed
qed

lemma add_lot_facts:
  assumes "acc_ok acc" "ids_ok s acc" "0 \<le> amount"
    "add_lot now kind amount expiry reason cp (acc, s) = (acc1, s1)"
  shows "acc_ok acc1 \<and> ids_ok s1 acc1 \<and> grown s s1 \<and> ac_balance acc1 = ac_balance acc + amount \<and>
    ac_accountId acc1 = ac_accountId acc \<and> ac_expirationPolicy acc1 = ac_expirationPolicy acc \<and>
    ac_lots acc1 = ac_lots acc @ [\<lparr>lot_id = cs_nextLotId s, lot_remaining = amount, lot_issuedAt = now, lot_expiresAt = expiry\<rparr>]"
proof -
  let ?lot = "\<lparr>lot_id = cs_nextLotId s, lot_remaining = amount, lot_issuedAt = now, lot_expiresAt = expiry\<rparr>"
  let ?acc = "acc\<lparr>ac_lots := ac_lots acc @ [?lot], ac_balance := ac_balance acc + amount\<rparr>"
  let ?s = "s\<lparr>cs_nextLotId := cs_nextLotId s + 1\<rparr>"
  have r: "record_entry now kind amount reason cp (?acc, ?s) = (acc1, s1)"
    using assms(4) by (simp add: add_lot_def)
  have ids: "ids_ok ?s ?acc"
    using assms(2) below_le [of "set (ac_lots acc)" lot_id "cs_nextLotId s"]
    by (auto simp: ids_ok_def sorted_wrt_append)
  have "grown s ?s" unfolding grown_def by (rule exI [of _ 1], rule exI [of _ 0]) simp
  with record_entry_facts [OF r ids] assms(1,3) show ?thesis
    by (auto simp: acc_ok_def intro: grown_trans)
qed

lemma refresh_ok [simp]:
  "acc_ok (refreshAvailable now acc) = acc_ok acc" "ids_ok s (refreshAvailable now acc) = ids_ok s acc"
  "ac_accountId (refreshAvailable now acc) = ac_accountId acc" "ac_lots (refreshAvailable now acc) = ac_lots acc"
  "ac_balance (refreshAvailable now acc) = ac_balance acc" "ac_entries (refreshAvailable now acc) = ac_entries acc"
  by (simp_all add: refreshAvailable_def acc_ok_def ids_ok_def)

section \<open>Accounts as a total function\<close>

definition acct :: "CreditService \<Rightarrow> string \<Rightarrow> CreditAccount" where
  "acct s a = (case map_of (cs_accounts s) a of None \<Rightarrow> empty_account a | Some acc \<Rightarrow> acc)"

definition total_credit :: "CreditService \<Rightarrow> int" where
  "total_credit s = obj_sum ac_balance (cs_accounts s)"

abbreviation due :: "int \<Rightarrow> CreditService \<Rightarrow> string \<Rightarrow> int" where
  "due now s a \<equiv> due_total now (ac_lots (acct s a))"

abbreviation avail :: "int \<Rightarrow> CreditService \<Rightarrow> string \<Rightarrow> int" where
  "avail now s a \<equiv> live_total now (ac_lots (acct s a))"

definition ensured :: "string \<Rightarrow> CreditService \<Rightarrow> CreditService" where
  "ensured a s = snd (ensureAccount a s)"

lemma acct_ok:
  assumes "ledger_ok s"
  shows "acc_ok (acct s a)" "ids_ok s (acct s a)" "ac_accountId (acct s a) = a"
proof -
  have "acc_ok (acct s a) \<and> ids_ok s (acct s a) \<and> ac_accountId (acct s a) = a"
  proof (cases "map_of (cs_accounts s) a")
    case None
    then show ?thesis by (simp add: acct_def empty_account_def acc_ok_def ids_ok_def)
  next
    case (Some acc)
    with assms show ?thesis by (simp add: acct_def ledger_ok_def)
  qed
  then show "acc_ok (acct s a)" "ids_ok s (acct s a)" "ac_accountId (acct s a) = a" by blast+
qed

lemma ensure_acct:
  "ensureAccount a s = (acct s a, ensured a s)" "acct (ensured a s) = acct s"
  "map_of (cs_accounts (ensured a s)) a = Some (acct s a)"
  "cs_nextLotId (ensured a s) = cs_nextLotId s" "cs_nextEntryId (ensured a s) = cs_nextEntryId s"
  "cs_wallets (ensured a s) = cs_wallets s" "cs_walletTx (ensured a s) = cs_walletTx s"
  "cs_nextWalletId (ensured a s) = cs_nextWalletId s" "cs_nextTxId (ensured a s) = cs_nextTxId s"
  by (auto simp: ensured_def ensureAccount_def acct_def fun_eq_iff split: option.split)

lemma ensure_ledger:
  assumes "ledger_ok s"
  shows "ledger_ok (ensured a s)" "total_credit (ensured a s) = total_credit s"
  using ledger_ensure [OF assms ensure_acct(1), of a] assms
  by (auto simp: ensured_def total_credit_def ensureAccount_def obj_sum_update ledger_ok_def obj_or_def empty_account_def
      split: option.split)

lemma commit_facts:
  assumes "ledger_ok s" "acc_ok acc" "ids_ok s1 acc" "grown s s1"
  shows "ledger_ok (commit acc s1)" "acct (commit acc s1) = (acct s)(ac_accountId acc := acc)"
    "total_credit (commit acc s1) = total_credit s - ac_balance (acct s (ac_accountId acc)) + ac_balance acc"
    "map_of (cs_accounts (commit acc s1)) (ac_accountId acc) = Some acc"
proof -
  have s1: "ledger_ok s1" "cs_accounts s1 = cs_accounts s"
    using ledger_grown [OF assms(4,1)] grown_same [OF assms(4)] by auto
  show "ledger_ok (commit acc s1)" by (rule ledger_commit [OF s1(1) assms(2,3)])
  show "acct (commit acc s1) = (acct s)(ac_accountId acc := acc)"
    by (auto simp: acct_def commit_def s1(2) fun_eq_iff)
  show "total_credit (commit acc s1) = total_credit s - ac_balance (acct s (ac_accountId acc)) + ac_balance acc"
    using assms(1) by (auto simp: total_credit_def commit_def s1(2) obj_sum_update acct_def ledger_ok_def
        empty_account_def split: option.split)
  show "map_of (cs_accounts (commit acc s1)) (ac_accountId acc) = Some acc" by (simp add: commit_def)
qed

lemma realise_begin:
  assumes "ledger_ok s" "realiseExpiry now (ensureAccount a s) = (e, acc1, s1)"
  shows "acc_ok acc1" "ids_ok s1 acc1" "grown (ensured a s) s1" "e = due now s a" "ac_balance acc1 = avail now s a"
    "live_total now (ac_lots acc1) = avail now s a" "ac_lots acc1 = map (expire_lot now) (ac_lots (acct s a))"
    "ac_accountId acc1 = a" "ac_expirationPolicy acc1 = ac_expirationPolicy (acct s a)"
proof -
  have "ids_ok (ensured a s) (acct s a)"
    using acct_ok(2) [OF ensure_ledger(1) [OF assms(1)], of a a] ensure_acct(2) by simp
  note F = realiseExpiry_facts [OF acct_ok(1) [OF assms(1)] this assms(2) [unfolded ensure_acct(1)]]
  from F show "acc_ok acc1" "ids_ok s1 acc1" "grown (ensured a s) s1" "e = due now s a" "ac_balance acc1 = avail now s a"
    "live_total now (ac_lots acc1) = avail now s a" "ac_lots acc1 = map (expire_lot now) (ac_lots (acct s a))"
    "ac_expirationPolicy acc1 = ac_expirationPolicy (acct s a)"
    by blast+
  from F show "ac_accountId acc1 = a" using acct_ok(3) [OF assms(1), of a] by simp
qed

text \<open>The end of every operation: a well-formed account, reached with grown counters, is committed.\<close>

lemma commit_end:
  assumes "ledger_ok s" "acc_ok acc" "ids_ok s1 acc" "grown (ensured a s) s1" "ac_accountId acc = a"
  shows "ledger_ok (commit (refreshAvailable now acc) s1)"
    "acct (commit (refreshAvailable now acc) s1) = (acct s)(a := refreshAvailable now acc)"
    "total_credit (commit (refreshAvailable now acc) s1) = total_credit s - ac_balance (acct s a) + ac_balance acc"
    "map_of (cs_accounts (commit (refreshAvailable now acc) s1)) a = Some (refreshAvailable now acc)"
    "cs_wallets (commit (refreshAvailable now acc) s1) = cs_wallets s \<and>
     cs_walletTx (commit (refreshAvailable now acc) s1) = cs_walletTx s \<and>
     cs_nextWalletId (commit (refreshAvailable now acc) s1) = cs_nextWalletId s \<and>
     cs_nextTxId (commit (refreshAvailable now acc) s1) = cs_nextTxId s"
  using commit_facts [OF ensure_ledger(1) [OF assms(1)], of "refreshAvailable now acc" s1 a] assms
    grown_same [OF assms(4)]
  by (simp_all add: ensure_acct ensure_ledger commit_def)

lemma getAccount_eq:
  "getAccount now a s = (refreshAvailable now (projectExpiry now (acct s a)), ensured a s)"
  by (simp add: getAccount_def ensure_acct(1))

lemma ensured_present: "map_of (cs_accounts s) a = Some acc \<Longrightarrow> ensured a s = s"
  by (simp add: ensured_def ensureAccount_def)

lemma issueCredit_facts:
  assumes "ledger_ok s" "0 < ii_amount input" "issueCredit now input s = (r, s')"
  defines "a \<equiv> ii_accountId input"
  obtains acc where "ledger_ok s'" "acct s' = (acct s)(a := acc)"
    "r = Inr (refreshAvailable now (projectExpiry now acc))"
    "ac_lots acc = map (expire_lot now) (ac_lots (acct s a)) @
       [\<lparr>lot_id = lot_id (last (ac_lots acc)), lot_remaining = ii_amount input, lot_issuedAt = now,
         lot_expiresAt = (case ii_expiresAt input of Some t \<Rightarrow> Some t
           | None \<Rightarrow> policy_expiry now (ac_expirationPolicy (acct s a)))\<rparr>]"
    "ac_balance acc = avail now s a + ii_amount input"
    "total_credit s' = total_credit s - due now s a + ii_amount input"
    "cs_wallets s' = cs_wallets s \<and> cs_walletTx s' = cs_walletTx s \<and> cs_nextWalletId s' = cs_nextWalletId s \<and>
     cs_nextTxId s' = cs_nextTxId s"
proof -
  obtain e acc1 s1 where b: "realiseExpiry now (ensureAccount a s) = (e, acc1, s1)"
    by (cases "realiseExpiry now (ensureAccount a s)")
  note B = realise_begin [OF assms(1) b]
  let ?x = "case ii_expiresAt input of Some t \<Rightarrow> Some t | None \<Rightarrow> policy_expiry now (ac_expirationPolicy acc1)"
  obtain acc2 s2 where l: "add_lot now Issue (ii_amount input) ?x (ii_reason input) (Some (ii_actor input)) (acc1, s1) = (acc2, s2)"
    by (cases "add_lot now Issue (ii_amount input) ?x (ii_reason input) (Some (ii_actor input)) (acc1, s1)")
  note L = add_lot_facts [OF B(1,2) less_imp_le [OF assms(2)] l, unfolded B(9)]
  have g: "grown (ensured a s) s2" using grown_trans [OF B(3)] L by blast
  note E = commit_end [OF assms(1) conjunct1 [OF L] _ g, of now]
  have id: "ac_accountId acc2 = a" "ids_ok s2 acc2" using L B(8) by auto
  note E = E [OF id(2,1)]
  have s': "s' = commit (refreshAvailable now acc2) s2"
    "r = Inr (refreshAvailable now (projectExpiry now (refreshAvailable now acc2)))"
    using assms(2,3) b l E(2) ensured_present [OF E(4)]
    by (auto simp: issueCredit_def a_def [symmetric] Let_def getAccount_eq id)
  have "ac_balance (acct s a) = avail now s a + due now s a"
    using acct_ok(1) [OF assms(1), of a] by (simp add: acc_ok_def due_total_def)
  note bal = this
  show ?thesis
  proof (rule that [of "refreshAvailable now acc2"])
    show "total_credit s' = total_credit s - due now s a + ii_amount input"
      using E(3) L B(5) bal by (simp add: s')
  qed (use E L B in \<open>simp_all add: s'\<close>)
qed

lemma consume_facts:
  assumes "acc_ok acc" "ids_ok s acc" "0 \<le> amount" "consume acc now amount = (applied, acc1)"
  shows "applied = min amount (live_total now (ac_lots acc)) \<and> 0 \<le> applied \<and> lots_ok (ac_lots acc1) \<and>
    lots_total (ac_lots acc1) = lots_total (ac_lots acc) - applied \<and>
    live_total now (ac_lots acc1) = live_total now (ac_lots acc) - applied \<and>
    ids_ok s acc1 \<and> ac_balance acc1 = ac_balance acc \<and> ac_entries acc1 = ac_entries acc \<and>
    ac_accountId acc1 = ac_accountId acc \<and> ac_expirationPolicy acc1 = ac_expirationPolicy acc"
proof -
  obtain ls r where c: "consume_lots now amount (ac_lots acc) = (ls, r)"
    by (cases "consume_lots now amount (ac_lots acc)")
  have "lots_ok (ac_lots acc)" using assms(1) by (simp add: acc_ok_def)
  note C = consume_lots_facts [OF this assms(3) c]
  have a: "applied = amount - r" "acc1 = acc\<lparr>ac_lots := ls\<rparr>" using assms(4) c by (auto simp: consume_def)
  have "ids_ok s acc1"
    using assms(2) C unfolding ids_ok_def a by simp
  moreover have "applied = min amount (live_total now (ac_lots acc))"
    using C a(1) by (auto simp: min_def max_def)
  ultimately show ?thesis using C a c live_nonneg [of now "ac_lots acc"] by simp
qed

lemma consume_lots_acc: "consume acc now amount = (x, acc1) \<Longrightarrow> ac_lots acc1 = fst (consume_lots now amount (ac_lots acc))"
  by (auto simp: consume_def split: prod.splits)

lemma applyCreditToCharge_facts:
  assumes "ledger_ok s" "0 \<le> ai_amountDue input" "applyCreditToCharge now input s = (r, s')"
  defines "a \<equiv> ai_accountId input"
  defines "applied \<equiv> min (ai_amountDue input) (avail now s a)"
  obtains acc where "ledger_ok s'" "acct s' = (acct s)(a := acc)"
    "r = Inr \<lparr>ar_accountId = a, ar_subscriptionId = ai_subscriptionId input, ar_applied = applied,
       ar_remainingDue = ai_amountDue input - applied, ar_balanceAfter = avail now s a - applied\<rparr>"
    "ac_lots acc = fst (consume_lots now applied (map (expire_lot now) (ac_lots (acct s a))))"
    "ac_balance acc = avail now s a - applied"
    "total_credit s' = total_credit s - due now s a - applied"
    "cs_wallets s' = cs_wallets s \<and> cs_walletTx s' = cs_walletTx s \<and> cs_nextWalletId s' = cs_nextWalletId s \<and>
     cs_nextTxId s' = cs_nextTxId s"
proof -
  obtain e acc1 s1 where b: "realiseExpiry now (ensureAccount a s) = (e, acc1, s1)"
    by (cases "realiseExpiry now (ensureAccount a s)")
  note B = realise_begin [OF assms(1) b]
  have pos: "0 \<le> applied" using assms(2) live_nonneg by (simp add: applied_def)
  obtain x acc2 where c: "consume acc1 now applied = (x, acc2)" by (cases "consume acc1 now applied")
  note C = consume_facts [OF B(1,2) pos c]
  have x: "x = applied" using C B(6) by (simp add: applied_def)
  define p where "p = (if 0 < applied
    then record_entry now Apply (- applied) ''charge_application'' None (acc2\<lparr>ac_balance := ac_balance acc2 - applied\<rparr>, s1)
    else (acc2, s1))"
  obtain acc3 s2 where p: "p = (acc3, s2)" by (cases p)
  have ok1: "acc_ok acc1" using B(1) .
  have P: "acc_ok acc3 \<and> ids_ok s2 acc3 \<and> grown s1 s2 \<and> ac_lots acc3 = ac_lots acc2 \<and>
      ac_balance acc3 = ac_balance acc1 - applied \<and> ac_accountId acc3 = a"
  proof (cases "0 < applied")
    case True
    with p p_def have r: "record_entry now Apply (- applied) ''charge_application'' None
        (acc2\<lparr>ac_balance := ac_balance acc2 - applied\<rparr>, s1) = (acc3, s2)" by simp
    have "ids_ok s1 (acc2\<lparr>ac_balance := ac_balance acc2 - applied\<rparr>)" using C by simp
    from record_entry_facts [OF r this] C B(8) ok1 x show ?thesis by (simp add: acc_ok_def)
  next
    case False
    with pos p p_def have "acc3 = acc2" "s2 = s1" "applied = 0" by simp_all
    with C B(8) ok1 x show ?thesis by (simp add: acc_ok_def)
  qed
  have g: "grown (ensured a s) s2" using grown_trans [OF B(3)] P by blast
  note E = commit_end [OF assms(1) conjunct1 [OF P] _ g, of now]
  have id: "ac_accountId acc3 = a" "ids_ok s2 acc3" using P by auto
  note E = E [OF id(2,1)]
  have s': "s' = commit (refreshAvailable now acc3) s2"
    "r = Inr \<lparr>ar_accountId = a, ar_subscriptionId = ai_subscriptionId input, ar_applied = applied,
       ar_remainingDue = ai_amountDue input - applied, ar_balanceAfter = ac_balance acc3\<rparr>"
    using assms(2,3) b c x p B(6) P
    by (auto simp: applyCreditToCharge_def a_def [symmetric] applied_def [symmetric] p_def [symmetric] min.commute)
  have bal: "ac_balance (acct s a) = avail now s a + due now s a"
    using acct_ok(1) [OF assms(1), of a] by (simp add: acc_ok_def due_total_def)
  show ?thesis
  proof (rule that [of "refreshAvailable now acc3"])
    show "total_credit s' = total_credit s - due now s a - applied"
      using E(3) P B(5) bal by (simp add: s')
  qed (use E P B(5,7) consume_lots_acc [OF c] in \<open>simp_all add: s'\<close>)
qed

lemma expireAccount_facts:
  assumes "ledger_ok s" "expireAccount now a s = (r, s')"
  obtains acc where "ledger_ok s'" "acct s' = (acct s)(a := acc)"
    "r = (due now s a, refreshAvailable now (projectExpiry now acc))"
    "ac_lots acc = map (expire_lot now) (ac_lots (acct s a))" "ac_balance acc = avail now s a"
    "ac_available acc = avail now s a"
    "total_credit s' = total_credit s - due now s a"
    "cs_wallets s' = cs_wallets s \<and> cs_walletTx s' = cs_walletTx s \<and> cs_nextWalletId s' = cs_nextWalletId s \<and>
     cs_nextTxId s' = cs_nextTxId s"
proof -
  obtain e acc1 s1 where b: "realiseExpiry now (ensureAccount a s) = (e, acc1, s1)"
    by (cases "realiseExpiry now (ensureAccount a s)")
  note B = realise_begin [OF assms(1) b]
  note E = commit_end [OF assms(1) B(1,2,3,8), of now]
  have s': "s' = commit (refreshAvailable now acc1) s1"
    "r = (due now s a, refreshAvailable now (projectExpiry now (refreshAvailable now acc1)))"
    using assms(2) b E(2) ensured_present [OF E(4)] B(4)
    by (auto simp: expireAccount_def getAccount_eq)
  have bal: "ac_balance (acct s a) = avail now s a + due now s a"
    using acct_ok(1) [OF assms(1), of a] by (simp add: acc_ok_def due_total_def)
  show ?thesis
  proof (rule that [of "refreshAvailable now acc1"])
    show "total_credit s' = total_credit s - due now s a" using E(3) B(5) bal by (simp add: s')
    show "ac_available (refreshAvailable now acc1) = avail now s a" using B(6) by (simp add: refreshAvailable_def)
  qed (use E B in \<open>simp_all add: s'\<close>)
qed

text \<open>A transfer's refusals: the sender may be created and entry numbers used, nothing else.\<close>

lemma transferCredit_fails:
  assumes "ledger_ok s" "transferCredit now input s = (Inl e, s')"
  shows "ledger_ok s' \<and> acct s' = acct s \<and> total_credit s' = total_credit s \<and>
    cs_wallets s' = cs_wallets s \<and> cs_walletTx s' = cs_walletTx s \<and> cs_nextWalletId s' = cs_nextWalletId s \<and>
    cs_nextTxId s' = cs_nextTxId s \<and>
    (ti_amount input \<le> 0 \<or> ti_fromAccountId input = ti_toAccountId input \<or>
     avail now s (ti_fromAccountId input) < ti_amount input)"
proof -
  obtain x sender s1 where b: "realiseExpiry now (ensureAccount (ti_fromAccountId input) s) = (x, sender, s1)"
    by (cases "realiseExpiry now (ensureAccount (ti_fromAccountId input) s)")
  note B = realise_begin [OF assms(1) b]
  have s1: "ledger_ok s1" "cs_accounts s1 = cs_accounts (ensured (ti_fromAccountId input) s)"
    using ledger_grown [OF B(3) ensure_ledger(1) [OF assms(1)]] grown_same [OF B(3)] by auto
  have "acct s1 = acct s" "total_credit s1 = total_credit s"
    using ensure_acct(2) [of "ti_fromAccountId input" s] ensure_ledger(2) [OF assms(1)] s1(2)
    by (simp_all add: acct_def fun_eq_iff total_credit_def)
  with s1 b B(6) assms grown_same [OF B(3)] ensure_acct show ?thesis
    by (auto simp: transferCredit_def Let_def split: if_splits prod.splits)
qed

lemma transferCredit_facts:
  assumes "ledger_ok s" "0 < ti_amount input" "ti_fromAccountId input \<noteq> ti_toAccountId input"
    "ti_amount input \<le> avail now s (ti_fromAccountId input)" "transferCredit now input s = (r, s')"
  defines "a \<equiv> ti_fromAccountId input" and "b \<equiv> ti_toAccountId input"
  obtains sender recipient where "ledger_ok s'" "acct s' = (acct s)(a := sender, b := recipient)"
    "r = Inr (refreshAvailable now (projectExpiry now sender), refreshAvailable now (projectExpiry now recipient))"
    "ac_balance sender = avail now s a - ti_amount input"
    "ac_lots sender = fst (consume_lots now (ti_amount input) (map (expire_lot now) (ac_lots (acct s a))))"
    "ac_balance recipient = avail now s b + ti_amount input"
    "butlast (ac_lots recipient) = map (expire_lot now) (ac_lots (acct s b))"
    "lot_expiresAt (last (ac_lots recipient)) = policy_expiry now (ac_expirationPolicy (acct s b))"
    "total_credit s' = total_credit s - due now s a - due now s b"
    "cs_wallets s' = cs_wallets s \<and> cs_walletTx s' = cs_walletTx s \<and> cs_nextWalletId s' = cs_nextWalletId s \<and>
     cs_nextTxId s' = cs_nextTxId s"
proof -
  let ?n = "ti_amount input"
  have pos: "0 \<le> ?n" and ne: "a \<noteq> b" using assms(2,3) by (simp_all add: a_def b_def)
  obtain e1 acc1 s1 where b1: "realiseExpiry now (ensureAccount a s) = (e1, acc1, s1)"
    by (cases "realiseExpiry now (ensureAccount a s)")
  note B = realise_begin [OF assms(1) b1]
  obtain x acc2 where c: "consume acc1 now ?n = (x, acc2)" by (cases "consume acc1 now ?n")
  note C = consume_facts [OF B(1,2) pos c]
  have x: "x = ?n" using C B(6) assms(4) by (simp add: a_def)
  obtain acc3 s2 where r1: "record_entry now TransferOut (- ?n) (ti_reason input) (Some b)
      (acc2\<lparr>ac_balance := ac_balance acc2 - ?n\<rparr>, s1) = (acc3, s2)"
    by (cases "record_entry now TransferOut (- ?n) (ti_reason input) (Some b)
      (acc2\<lparr>ac_balance := ac_balance acc2 - ?n\<rparr>, s1)")
  have "ids_ok s1 (acc2\<lparr>ac_balance := ac_balance acc2 - ?n\<rparr>)" using C by simp
  note R = record_entry_facts [OF r1 this]
  have ok3: "acc_ok acc3" using R C x B(1) by (simp add: acc_ok_def)
  have g: "grown (ensured a s) s2" using grown_trans [OF B(3)] R by blast
  have id3: "ac_accountId acc3 = a" using R C B(8) by simp
  note E = commit_end [OF assms(1) ok3 conjunct1 [OF R] g id3, of now]
  define s3 where "s3 = commit (refreshAvailable now acc3) s2"
  note E = E [folded s3_def]
  obtain e2 rec1 s4 where b2: "realiseExpiry now (ensureAccount b s3) = (e2, rec1, s4)"
    by (cases "realiseExpiry now (ensureAccount b s3)")
  note B2 = realise_begin [OF E(1) b2]
  have sb: "acct s3 b = acct s b" using E(2) ne by simp
  let ?exp = "policy_expiry now (ac_expirationPolicy rec1)"
  obtain rec2 s5 where l: "add_lot now TransferIn ?n ?exp (ti_reason input) (Some a) (rec1, s4) = (rec2, s5)"
    by (cases "add_lot now TransferIn ?n ?exp (ti_reason input) (Some a) (rec1, s4)")
  note L = add_lot_facts [OF B2(1,2) pos l]
  have g2: "grown (ensured b s3) s5" using grown_trans [OF B2(3)] L by blast
  have id5: "ac_accountId rec2 = b" using L B2(8) by simp
  note E2 = commit_end [OF E(1) conjunct1 [OF L] _ g2 id5, of now]
  have "ids_ok s5 rec2" using L by blast
  note E2 = E2 [OF this]
  define s6 where "s6 = commit (refreshAvailable now rec2) s5"
  note E2 = E2 [folded s6_def]
  have acct6: "acct s6 = (acct s)(a := refreshAvailable now acc3, b := refreshAvailable now rec2)"
    using E(2) E2(2) by simp
  have "map_of (cs_accounts s6) a = Some (refreshAvailable now acc3)"
  proof -
    have "map_of (cs_accounts s5) a = map_of (cs_accounts (ensured b s3)) a"
      using grown_same [OF g2] by simp
    also have "\<dots> = map_of (cs_accounts s3) a" using ne by (simp add: ensured_def ensureAccount_def split: option.split)
    finally show ?thesis using E(4) ne id5 by (simp add: s6_def commit_def)
  qed
  then have stay: "ensured a s6 = s6" "ensured b s6 = s6" using E2(4) by (auto intro: ensured_present)
  have fin: "s' = s6" "r = Inr (refreshAvailable now (projectExpiry now (refreshAvailable now acc3)),
      refreshAvailable now (projectExpiry now (refreshAvailable now rec2)))"
    using assms(2-5) ne b1 B(6) c x r1 b2 l stay acct6
    by (simp_all add: transferCredit_def a_def [symmetric] b_def [symmetric] Let_def s3_def [symmetric]
        s6_def [symmetric] getAccount_eq id3 id5)
  have bal: "ac_balance (acct s y) = avail now s y + due now s y" for y
    using acct_ok(1) [OF assms(1), of y] by (simp add: acc_ok_def due_total_def)
  show ?thesis
  proof (rule that [of "refreshAvailable now acc3" "refreshAvailable now rec2"])
    show "total_credit s' = total_credit s - due now s a - due now s b"
      using E(3) E2(3) R C L B(5) B2(5) bal [of a] bal [of b] sb by (simp add: fin)
    show "butlast (ac_lots (refreshAvailable now rec2)) = map (expire_lot now) (ac_lots (acct s b))"
      "lot_expiresAt (last (ac_lots (refreshAvailable now rec2))) = policy_expiry now (ac_expirationPolicy (acct s b))"
      using L B2(7,9) sb by simp_all
    show "ac_balance (refreshAvailable now rec2) = avail now s b + ?n" using L B2(5) sb by simp
  qed (use E E2 acct6 R C B(5,7) consume_lots_acc [OF c] in \<open>simp_all add: fin\<close>)
qed

lemma readAccount_facts:
  assumes "ledger_ok s"
  shows "ledger_ok (ensured a s)" "acct (ensured a s) = acct s" "total_credit (ensured a s) = total_credit s"
  using ensure_ledger [OF assms] ensure_acct(2) by auto

lemma setExpirationPolicy_facts:
  assumes "ledger_ok s"
  shows "ledger_ok (setExpirationPolicy a p s)"
    "acct (setExpirationPolicy a p s) = (acct s)(a := (acct s a)\<lparr>ac_expirationPolicy := p\<rparr>)"
    "total_credit (setExpirationPolicy a p s) = total_credit s"
    "cs_wallets (setExpirationPolicy a p s) = cs_wallets s \<and> cs_walletTx (setExpirationPolicy a p s) = cs_walletTx s \<and>
     cs_nextWalletId (setExpirationPolicy a p s) = cs_nextWalletId s \<and> cs_nextTxId (setExpirationPolicy a p s) = cs_nextTxId s"
proof -
  let ?acc = "(acct s a)\<lparr>ac_expirationPolicy := p\<rparr>"
  have A: "acc_ok (acct s a)" "ids_ok (ensured a s) (acct s a)" "ac_accountId (acct s a) = a"
    using acct_ok [OF ensure_ledger(1) [OF assms], of a a] ensure_acct(2) by auto
  then have "acc_ok ?acc" "ids_ok (ensured a s) ?acc" "ac_accountId ?acc = a"
    by (simp_all add: acc_ok_def ids_ok_def)
  from commit_facts [OF ensure_ledger(1) [OF assms] this(1,2) grown_refl] this(3)
  show "ledger_ok (setExpirationPolicy a p s)"
    "acct (setExpirationPolicy a p s) = (acct s)(a := (acct s a)\<lparr>ac_expirationPolicy := p\<rparr>)"
    "total_credit (setExpirationPolicy a p s) = total_credit s"
    "cs_wallets (setExpirationPolicy a p s) = cs_wallets s \<and> cs_walletTx (setExpirationPolicy a p s) = cs_walletTx s \<and>
     cs_nextWalletId (setExpirationPolicy a p s) = cs_nextWalletId s \<and> cs_nextTxId (setExpirationPolicy a p s) = cs_nextTxId s"
    using ensure_ledger(2) [OF assms] by (simp_all add: setExpirationPolicy_def ensure_acct commit_def)
qed

section \<open>Wallet facts\<close>

definition tx_effect :: "PrepaymentTransaction \<Rightarrow> int" where
  "tx_effect tx = (case tx_kind tx of TxDeposit \<Rightarrow> tx_amount tx | TxWithdraw \<Rightarrow> - tx_amount tx | TxDrawdown \<Rightarrow> - tx_amount tx)"

text \<open>A wallet agrees with its transactions: the balance, and the balance each of them noted.\<close>

fun tx_chain :: "int \<Rightarrow> PrepaymentTransaction list \<Rightarrow> int \<Rightarrow> bool" where
  "tx_chain b [] final \<longleftrightarrow> b = final"
| "tx_chain b (tx # txs) final \<longleftrightarrow> 0 < tx_amount tx \<and> tx_balanceAfter tx = b + tx_effect tx \<and> 0 \<le> tx_balanceAfter tx \<and>
     tx_chain (tx_balanceAfter tx) txs final"

lemma tx_chain_snoc:
  "tx_chain b (txs @ [tx]) final \<longleftrightarrow> (\<exists>m. tx_chain b txs m \<and> 0 < tx_amount tx \<and> tx_balanceAfter tx = m + tx_effect tx \<and>
     0 \<le> tx_balanceAfter tx \<and> tx_balanceAfter tx = final)"
  by (induction txs arbitrary: b) auto

definition wallet_ok :: "PrepaymentTransaction list \<Rightarrow> PrepaymentWallet \<Rightarrow> bool" where
  "wallet_ok txs w \<longleftrightarrow> 0 \<le> wa_balance w \<and> wa_balance w = wa_totalDeposited w - wa_totalWithdrawn w \<and>
     tx_chain 0 txs (wa_balance w) \<and> (\<forall>tx\<in>set txs. tx_walletId tx = wa_id w)"

definition wallets_ok :: "CreditService \<Rightarrow> bool" where
  "wallets_ok s \<longleftrightarrow> obj_ok (cs_wallets s) \<and>
     (\<forall>i w. map_of (cs_wallets s) i = Some w \<longrightarrow>
        wa_id w = i \<and> i < cs_nextWalletId s \<and> wallet_ok (obj_or [] (cs_walletTx s) i) w)"

definition total_wallets :: "CreditService \<Rightarrow> int" where
  "total_wallets s = obj_sum wa_balance (cs_wallets s)"

lemma wallets_cong:
  assumes "cs_wallets s' = cs_wallets s \<and> cs_walletTx s' = cs_walletTx s \<and> cs_nextWalletId s' = cs_nextWalletId s \<and>
     cs_nextTxId s' = cs_nextTxId s"
  shows "wallets_ok s' = wallets_ok s" "total_wallets s' = total_wallets s"
  using assms by (simp_all add: wallets_ok_def total_wallets_def)

lemma wallets_update:
  assumes ok: "wallets_ok s" and w: "wallet_ok txs w" and n: "wa_id w < cs_nextWalletId s'" "cs_nextWalletId s \<le> cs_nextWalletId s'"
    and s': "cs_wallets s' = AList.update (wa_id w) w (cs_wallets s)" "cs_walletTx s' = AList.update (wa_id w) txs (cs_walletTx s)"
  shows "wallets_ok s'"
    "total_wallets s' = total_wallets s - (case map_of (cs_wallets s) (wa_id w) of None \<Rightarrow> 0 | Some v \<Rightarrow> wa_balance v) + wa_balance w"
proof -
  have obj: "obj_ok (cs_wallets s)" using ok by (simp add: wallets_ok_def)
  show "wallets_ok s'"
    unfolding wallets_ok_def
  proof (intro conjI allI impI)
    show "obj_ok (cs_wallets s')" using obj by (simp add: s')
    fix i v assume v: "map_of (cs_wallets s') i = Some v"
    have "wa_id v = i \<and> i < cs_nextWalletId s' \<and> wallet_ok (obj_or [] (cs_walletTx s') i) v"
    proof (cases "i = wa_id w")
      case True
      with v w n s' show ?thesis by simp
    next
      case False
      with v s' have v': "map_of (cs_wallets s) i = Some v" by simp
      with ok have "wa_id v = i \<and> i < cs_nextWalletId s \<and> wallet_ok (obj_or [] (cs_walletTx s) i) v"
        unfolding wallets_ok_def by blast
      with False n(2) s'(2) show ?thesis by simp
    qed
    then show "wa_id v = i" "i < cs_nextWalletId s'" "wallet_ok (obj_or [] (cs_walletTx s') i) v" by blast+
  qed
  show "total_wallets s' = total_wallets s - (case map_of (cs_wallets s) (wa_id w) of None \<Rightarrow> 0 | Some v \<Rightarrow> wa_balance v) + wa_balance w"
    using obj by (simp add: total_wallets_def s' obj_sum_update)
qed

lemma createWallet_facts:
  assumes "wallets_ok s" "createWallet now a sub cur s = (w, s')"
  shows "wallets_ok s' \<and> total_wallets s' = total_wallets s \<and> cs_accounts s' = cs_accounts s \<and>
    cs_nextLotId s' = cs_nextLotId s \<and> cs_nextEntryId s' = cs_nextEntryId s \<and> map_of (cs_wallets s) (wa_id w) = None"
proof -
  have w: "w = \<lparr>wa_id = cs_nextWalletId s, wa_accountId = a, wa_subscriptionId = sub, wa_currency = cur, wa_balance = 0,
      wa_totalDeposited = 0, wa_totalWithdrawn = 0, wa_createdAt = now, wa_updatedAt = now\<rparr>"
    and s': "s' = s\<lparr>cs_nextWalletId := cs_nextWalletId s + 1, cs_wallets := AList.update (wa_id w) w (cs_wallets s),
            cs_walletTx := AList.update (wa_id w) [] (cs_walletTx s)\<rparr>"
    using assms(2) by (auto simp: createWallet_def Let_def)
  have fresh: "map_of (cs_wallets s) (wa_id w) = None"
  proof (cases "map_of (cs_wallets s) (wa_id w)")
    case (Some v)
    with assms(1) have "wa_id w < cs_nextWalletId s" unfolding wallets_ok_def by blast
    then show ?thesis by (simp add: w)
  qed
  have "wallet_ok [] w" by (simp add: w wallet_ok_def)
  from wallets_update [OF assms(1) this, of s'] fresh show ?thesis
    by (simp add: s') (simp add: w)
qed

lemma post_movement_facts:
  assumes ok: "wallets_ok s" and w0: "map_of (cs_wallets s) i = Some w0"
    and m: "wa_id w = wa_id w0" "0 < amount" "0 \<le> wa_balance w"
      "wa_balance w = wa_totalDeposited w - wa_totalWithdrawn w"
      "wa_balance w = wa_balance w0 + (case kind of TxDeposit \<Rightarrow> amount | TxWithdraw \<Rightarrow> - amount | TxDrawdown \<Rightarrow> - amount)"
    and post: "post_movement now kind amount ref w s = (w1, s')"
  shows "wallets_ok s' \<and> total_wallets s' = total_wallets s + (wa_balance w - wa_balance w0) \<and>
    map_of (cs_wallets s') = (map_of (cs_wallets s))(i \<mapsto> w1) \<and> w1 = w\<lparr>wa_updatedAt := now\<rparr> \<and>
    cs_accounts s' = cs_accounts s \<and> cs_nextLotId s' = cs_nextLotId s \<and> cs_nextEntryId s' = cs_nextEntryId s"
proof -
  have i: "wa_id w0 = i" "i < cs_nextWalletId s" "wallet_ok (obj_or [] (cs_walletTx s) i) w0"
    using ok w0 unfolding wallets_ok_def by blast+
  define tx where "tx = \<lparr>tx_id = cs_nextTxId s, tx_walletId = i, tx_kind = kind, tx_amount = amount,
                tx_balanceAfter = wa_balance w, tx_invoiceId = ref, tx_timestamp = now\<rparr>"
  have w1: "w1 = w\<lparr>wa_updatedAt := now\<rparr>" and s': "s' = s\<lparr>cs_nextTxId := cs_nextTxId s + 1,
      cs_wallets := AList.update i w1 (cs_wallets s),
      cs_walletTx := AList.update i (obj_or [] (cs_walletTx s) i @ [tx]) (cs_walletTx s)\<rparr>"
    using post i(1) m(1) by (auto simp: post_movement_def Let_def tx_def)
  have id: "wa_id w1 = i" using i(1) m(1) by (simp add: w1)
  have chain: "tx_chain 0 (obj_or [] (cs_walletTx s) i) (wa_balance w0)"
    and owner: "\<forall>tx\<in>set (obj_or [] (cs_walletTx s) i). tx_walletId tx = i"
    using i(3) unfolding wallet_ok_def i(1) by blast+
  have "wa_balance w = wa_balance w0 + tx_effect tx"
    using m(5) by (cases kind) (simp_all add: tx_effect_def tx_def)
  moreover have tx: "tx_amount tx = amount" "tx_balanceAfter tx = wa_balance w" by (simp_all add: tx_def)
  ultimately have "tx_chain 0 (obj_or [] (cs_walletTx s) i @ [tx]) (wa_balance w1)"
    using chain m(2,3) unfolding tx_chain_snoc tx by (intro exI [of _ "wa_balance w0"]) (simp add: w1)
  moreover have "0 \<le> wa_balance w1 \<and> wa_balance w1 = wa_totalDeposited w1 - wa_totalWithdrawn w1"
    unfolding w1 using m(3,4) by simp
  ultimately have "wallet_ok (obj_or [] (cs_walletTx s) i @ [tx]) w1"
    using owner id by (simp add: wallet_ok_def tx_def)
  from wallets_update [OF ok this, of s'] w0 i(2) id show ?thesis by (simp add: s') (simp add: w1)
qed

lemma deposit_facts:
  assumes "wallets_ok s" "deposit now i a amount s = (r, s')"
  shows "wallets_ok s' \<and> cs_accounts s' = cs_accounts s \<and> cs_nextLotId s' = cs_nextLotId s \<and>
    cs_nextEntryId s' = cs_nextEntryId s \<and>
    (case r of Inl e \<Rightarrow> s' = s
     | Inr w \<Rightarrow> 0 < amount \<and> total_wallets s' = total_wallets s + amount \<and>
         (\<exists>w0. own_wallet i a s = Some w0 \<and> wa_balance w = wa_balance w0 + amount \<and>
            map_of (cs_wallets s') = (map_of (cs_wallets s))(i \<mapsto> w)))"
proof (cases "amount \<le> 0 \<or> own_wallet i a s = None")
  case True
  with assms show ?thesis by (auto simp: deposit_def split: if_splits)
next
  case False
  then obtain w0 where w0: "own_wallet i a s = Some w0" "map_of (cs_wallets s) i = Some w0"
    by (auto simp: own_wallet_def split: option.splits if_splits)
  let ?w = "w0\<lparr>wa_balance := wa_balance w0 + amount, wa_totalDeposited := wa_totalDeposited w0 + amount\<rparr>"
  obtain w1 s1 where p: "post_movement now TxDeposit amount None ?w s = (w1, s1)"
    by (cases "post_movement now TxDeposit amount None ?w s")
  have bal: "0 \<le> wa_balance w0" "wa_balance w0 = wa_totalDeposited w0 - wa_totalWithdrawn w0"
    using assms(1) w0(2) unfolding wallets_ok_def wallet_ok_def by blast+
  have "r = Inr w1" "s' = s1" using assms(2) False w0 p by (auto simp: deposit_def)
  with post_movement_facts [OF assms(1) w0(2) _ _ _ _ _ p] False bal w0(1) show ?thesis by simp
qed

lemma withdraw_facts:
  assumes "wallets_ok s" "withdraw now i a amount s = (r, s')"
  shows "wallets_ok s' \<and> cs_accounts s' = cs_accounts s \<and> cs_nextLotId s' = cs_nextLotId s \<and>
    cs_nextEntryId s' = cs_nextEntryId s \<and>
    (case r of Inl e \<Rightarrow> s' = s
     | Inr w \<Rightarrow> 0 < amount \<and> total_wallets s' = total_wallets s - amount \<and>
         (\<exists>w0. own_wallet i a s = Some w0 \<and> wa_balance w = wa_balance w0 - amount \<and>
            map_of (cs_wallets s') = (map_of (cs_wallets s))(i \<mapsto> w)))"
proof (cases "amount \<le> 0 \<or> own_wallet i a s = None \<or> (\<exists>w. own_wallet i a s = Some w \<and> wa_balance w < amount)")
  case True
  with assms show ?thesis by (auto simp: withdraw_def split: if_splits option.splits)
next
  case False
  then obtain w0 where w0: "own_wallet i a s = Some w0" "map_of (cs_wallets s) i = Some w0"
    by (auto simp: own_wallet_def split: option.splits if_splits)
  let ?w = "w0\<lparr>wa_balance := wa_balance w0 - amount, wa_totalWithdrawn := wa_totalWithdrawn w0 + amount\<rparr>"
  obtain w1 s1 where p: "post_movement now TxWithdraw amount None ?w s = (w1, s1)"
    by (cases "post_movement now TxWithdraw amount None ?w s")
  have bal: "0 \<le> wa_balance w0" "wa_balance w0 = wa_totalDeposited w0 - wa_totalWithdrawn w0"
    using assms(1) w0(2) unfolding wallets_ok_def wallet_ok_def by blast+
  have "r = Inr w1" "s' = s1" using assms(2) False w0 p by (auto simp: withdraw_def)
  with post_movement_facts [OF assms(1) w0(2) _ _ _ _ _ p] False bal w0(1) show ?thesis by simp
qed

text \<open>A drawdown takes what there is, up to the amount asked for.\<close>

lemma drawdown_facts:
  assumes "wallets_ok s" "drawdown now i a ref amount s = (r, s')"
  shows "wallets_ok s' \<and> cs_accounts s' = cs_accounts s \<and> cs_nextLotId s' = cs_nextLotId s \<and>
    cs_nextEntryId s' = cs_nextEntryId s \<and>
    (case r of Inl e \<Rightarrow> s' = s
     | Inr w \<Rightarrow> (\<exists>w0. own_wallet i a s = Some w0 \<and> wa_balance w = wa_balance w0 - min (wa_balance w0) amount \<and>
            total_wallets s' = total_wallets s - min (wa_balance w0) amount \<and> 0 < amount \<and>
            map_of (cs_wallets s') = (map_of (cs_wallets s))(i \<mapsto> w)))"
proof (cases "amount \<le> 0 \<or> own_wallet i a s = None")
  case True
  with assms show ?thesis by (auto simp: drawdown_def split: if_splits)
next
  case False
  then obtain w0 where w0: "own_wallet i a s = Some w0" "map_of (cs_wallets s) i = Some w0"
    by (auto simp: own_wallet_def split: option.splits if_splits)
  have bal: "0 \<le> wa_balance w0" "wa_balance w0 = wa_totalDeposited w0 - wa_totalWithdrawn w0"
    using assms(1) w0(2) unfolding wallets_ok_def wallet_ok_def by blast+
  define d where "d = min (wa_balance w0) amount"
  show ?thesis
  proof (cases "d \<le> 0")
    case True
    then have "d = 0" using bal(1) False by (auto simp: d_def)
    moreover from this have "r = Inr w0" "s' = s"
      using assms(2) False w0 unfolding drawdown_def d_def by (simp_all add: Let_def)
    ultimately show ?thesis using assms(1) w0 False by (auto simp: d_def [symmetric])
  next
    case pos: False
    let ?w = "w0\<lparr>wa_balance := wa_balance w0 - d, wa_totalWithdrawn := wa_totalWithdrawn w0 + d\<rparr>"
    obtain w1 s1 where p: "post_movement now TxDrawdown d (Some ref) ?w s = (w1, s1)"
      by (cases "post_movement now TxDrawdown d (Some ref) ?w s")
    have "r = Inr w1" "s' = s1"
      using assms(2) False w0 p pos by (auto simp: drawdown_def Let_def d_def)
    moreover have "d \<le> wa_balance w0" by (simp add: d_def)
    with post_movement_facts [OF assms(1) w0(2) _ _ _ _ _ p] bal pos
    have "wallets_ok s1 \<and> total_wallets s1 = total_wallets s - d \<and>
      map_of (cs_wallets s1) = (map_of (cs_wallets s))(i \<mapsto> w1) \<and> wa_balance w1 = wa_balance w0 - d \<and>
      cs_accounts s1 = cs_accounts s \<and> cs_nextLotId s1 = cs_nextLotId s \<and> cs_nextEntryId s1 = cs_nextEntryId s"
      by simp
    ultimately show ?thesis using False w0(1) by (simp add: d_def [symmetric])
  qed
qed

section \<open>Runs\<close>

datatype credit_event =
    CPolicy string ExpirationPolicy
  | CRead string
  | CIssue int IssueCreditInput
  | CApply int ApplyCreditInput
  | CTransfer int TransferCreditInput
  | CExpire int string
  | CExpireAll int "string list option"
  | CWallet int string string string
  | CDeposit int int string int
  | CWithdraw int int string int
  | CDrawdown int int string string int

text \<open>\<open>CRead\<close> is any of the reads: each begins with \<open>ensureAccount\<close> and changes nothing more.\<close>

fun credit_step :: "CreditService \<Rightarrow> credit_event \<Rightarrow> CreditService" where
  "credit_step s (CPolicy a p) = setExpirationPolicy a p s"
| "credit_step s (CRead a) = snd (ensureAccount a s)"
| "credit_step s (CIssue now i) = snd (issueCredit now i s)"
| "credit_step s (CApply now i) = snd (applyCreditToCharge now i s)"
| "credit_step s (CTransfer now i) = snd (transferCredit now i s)"
| "credit_step s (CExpire now a) = snd (expireAccount now a s)"
| "credit_step s (CExpireAll now as) = snd (expireAll now as s)"
| "credit_step s (CWallet now a sub cur) = snd (createWallet now a sub cur s)"
| "credit_step s (CDeposit now i a n) = snd (deposit now i a n s)"
| "credit_step s (CWithdraw now i a n) = snd (withdraw now i a n s)"
| "credit_step s (CDrawdown now i a ref n) = snd (drawdown now i a ref n s)"

definition credit_ok :: "CreditService \<Rightarrow> bool" where
  "credit_ok s \<longleftrightarrow> ledger_ok s \<and> wallets_ok s"

lemma credit_ok_new: "credit_ok newCreditService"
  by (simp add: credit_ok_def ledger_ok_def wallets_ok_def newCreditService_def)

lemma ledger_cong:
  assumes "cs_accounts s' = cs_accounts s" "cs_nextLotId s' = cs_nextLotId s" "cs_nextEntryId s' = cs_nextEntryId s"
  shows "ledger_ok s' = ledger_ok s" "total_credit s' = total_credit s" "acct s' = acct s"
proof -
  have "ids_ok s' = ids_ok s" using assms by (simp add: ids_ok_def fun_eq_iff)
  then show "ledger_ok s' = ledger_ok s" using assms by (simp add: ledger_ok_def)
qed (simp_all add: assms total_credit_def acct_def fun_eq_iff)

lemma issueCredit_error:
  "ii_amount input \<le> 0 \<Longrightarrow> issueCredit now input s = (Inl (CreditInvalidAmount ''amount must be positive''), s)"
  by (simp add: issueCredit_def)

lemma apply_error:
  "ai_amountDue input < 0 \<Longrightarrow>
     applyCreditToCharge now input s = (Inl (CreditInvalidAmount ''amountDue may not be negative''), s)"
  by (simp add: applyCreditToCharge_def)

text \<open>What each event adds to the credit outstanding, read off the state before it.\<close>

fun expired_by :: "int \<Rightarrow> string list \<Rightarrow> CreditService \<Rightarrow> int" where
  "expired_by now [] s = 0"
| "expired_by now (a # as) s = due now s a + expired_by now as (snd (expireAccount now a s))"

fun credit_delta :: "CreditService \<Rightarrow> credit_event \<Rightarrow> int" where
  "credit_delta s (CIssue now i) =
     (if ii_amount i \<le> 0 then 0 else ii_amount i - due now s (ii_accountId i))"
| "credit_delta s (CApply now i) =
     (if ai_amountDue i < 0 then 0
      else - due now s (ai_accountId i) - min (ai_amountDue i) (avail now s (ai_accountId i)))"
| "credit_delta s (CTransfer now i) =
     (if ti_amount i \<le> 0 \<or> ti_fromAccountId i = ti_toAccountId i \<or> avail now s (ti_fromAccountId i) < ti_amount i
      then 0 else - due now s (ti_fromAccountId i) - due now s (ti_toAccountId i))"
| "credit_delta s (CExpire now a) = - due now s a"
| "credit_delta s (CExpireAll now as) =
     - expired_by now (case as of Some xs \<Rightarrow> xs | None \<Rightarrow> obj_keys (cs_accounts s)) s"
| "credit_delta s _ = 0"

lemma expire_each_facts:
  assumes "credit_ok s" "expire_each now as s = (rs, s')"
  shows "credit_ok s' \<and> total_credit s' = total_credit s - expired_by now as s \<and> map fst rs = as \<and>
    sum_list (map snd rs) = expired_by now as s \<and> total_wallets s' = total_wallets s"
  using assms
proof (induction as arbitrary: s rs s')
  case Nil
  then show ?case by simp
next
  case (Cons a as)
  obtain e acc s1 where x: "expireAccount now a s = ((e, acc), s1)" by (metis prod.collapse)
  obtain rs2 s2 where rest: "expire_each now as s1 = (rs2, s2)" by (cases "expire_each now as s1")
  have ok: "ledger_ok s" "wallets_ok s" using Cons.prems(1) by (simp_all add: credit_ok_def)
  from expireAccount_facts [OF ok(1) x] have s1: "ledger_ok s1" "e = due now s a"
    "total_credit s1 = total_credit s - due now s a" "wallets_ok s1 = wallets_ok s" "total_wallets s1 = total_wallets s"
    using wallets_cong [of s1 s] by auto
  have "credit_ok s1" using s1 ok(2) by (simp add: credit_ok_def)
  with Cons.IH [OF this rest] Cons.prems(2) x rest s1 show ?case by auto
qed

fun wallet_delta :: "CreditService \<Rightarrow> credit_event \<Rightarrow> int" where
  "wallet_delta s (CDeposit now i a n) = (case deposit now i a n s of (Inr _, _) \<Rightarrow> n | _ \<Rightarrow> 0)"
| "wallet_delta s (CWithdraw now i a n) = (case withdraw now i a n s of (Inr _, _) \<Rightarrow> - n | _ \<Rightarrow> 0)"
| "wallet_delta s (CDrawdown now i a ref n) =
     (case own_wallet i a s of Some w \<Rightarrow> (if 0 < n then - min (wa_balance w) n else 0) | None \<Rightarrow> 0)"
| "wallet_delta s _ = 0"

definition step_facts :: "CreditService \<Rightarrow> credit_event \<Rightarrow> bool" where
  "step_facts s e \<longleftrightarrow> credit_ok (credit_step s e) \<and>
     total_credit (credit_step s e) = total_credit s + credit_delta s e \<and>
     total_wallets (credit_step s e) = total_wallets s + wallet_delta s e"

lemma step_policy: "credit_ok s \<Longrightarrow> step_facts s (CPolicy a p)"
  using setExpirationPolicy_facts [of s a p] wallets_cong [of "setExpirationPolicy a p s" s]
  by (simp add: step_facts_def credit_ok_def)

lemma step_read: "credit_ok s \<Longrightarrow> step_facts s (CRead a)"
  using readAccount_facts [of s a] wallets_cong [of "ensured a s" s] ensure_acct [where a = a and s = s]
  by (simp add: step_facts_def credit_ok_def ensured_def [symmetric])

lemma step_issue: assumes "credit_ok s" shows "step_facts s (CIssue now i)"
proof (cases "ii_amount i \<le> 0")
  case True
  with assms show ?thesis by (simp add: step_facts_def issueCredit_error)
next
  case False
  obtain r s' where x: "issueCredit now i s = (r, s')" by (cases "issueCredit now i s")
  from assms have ok: "ledger_ok s" "wallets_ok s" by (simp_all add: credit_ok_def)
  from False have "0 < ii_amount i" by simp
  from issueCredit_facts [OF ok(1) this x] have "ledger_ok s'"
    "total_credit s' = total_credit s - due now s (ii_accountId i) + ii_amount i"
    "wallets_ok s' = wallets_ok s" "total_wallets s' = total_wallets s"
    using wallets_cong [of s' s] by metis+
  with ok False x show ?thesis by (simp add: step_facts_def credit_ok_def)
qed

lemma step_apply: assumes "credit_ok s" shows "step_facts s (CApply now i)"
proof (cases "ai_amountDue i < 0")
  case True
  with assms show ?thesis by (simp add: step_facts_def apply_error)
next
  case False
  obtain r s' where x: "applyCreditToCharge now i s = (r, s')" by (cases "applyCreditToCharge now i s")
  from assms have ok: "ledger_ok s" "wallets_ok s" by (simp_all add: credit_ok_def)
  from False have "0 \<le> ai_amountDue i" by simp
  from applyCreditToCharge_facts [OF ok(1) this x] have "ledger_ok s'"
    "total_credit s' = total_credit s - due now s (ai_accountId i) - min (ai_amountDue i) (avail now s (ai_accountId i))"
    "wallets_ok s' = wallets_ok s" "total_wallets s' = total_wallets s"
    using wallets_cong [of s' s] by metis+
  with ok False x show ?thesis by (simp add: step_facts_def credit_ok_def)
qed

lemma transfer_succeeds_iff:
  assumes "ledger_ok s" "transferCredit now i s = (r, s')"
  shows "(\<exists>e. r = Inl e) \<longleftrightarrow> ti_amount i \<le> 0 \<or> ti_fromAccountId i = ti_toAccountId i \<or>
    avail now s (ti_fromAccountId i) < ti_amount i"
proof
  assume "\<exists>e. r = Inl e"
  with transferCredit_fails [OF assms(1), of now i] assms(2) show "ti_amount i \<le> 0 \<or>
    ti_fromAccountId i = ti_toAccountId i \<or> avail now s (ti_fromAccountId i) < ti_amount i" by blast
next
  assume bad: "ti_amount i \<le> 0 \<or> ti_fromAccountId i = ti_toAccountId i \<or> avail now s (ti_fromAccountId i) < ti_amount i"
  obtain x sender s1 where b: "realiseExpiry now (ensureAccount (ti_fromAccountId i) s) = (x, sender, s1)"
    by (cases "realiseExpiry now (ensureAccount (ti_fromAccountId i) s)")
  from realise_begin(6) [OF assms(1) b] bad b assms(2) show "\<exists>e. r = Inl e"
    by (auto simp: transferCredit_def split: if_splits)
qed

lemma step_transfer: assumes "credit_ok s" shows "step_facts s (CTransfer now i)"
proof -
  obtain r s' where x: "transferCredit now i s = (r, s')" by (cases "transferCredit now i s")
  from assms have ok: "ledger_ok s" "wallets_ok s" by (simp_all add: credit_ok_def)
  show ?thesis
  proof (cases r)
    case (Inl e)
    with x transferCredit_fails [OF ok(1), of now i e s'] have f: "ledger_ok s'" "total_credit s' = total_credit s"
      "wallets_ok s' = wallets_ok s" "total_wallets s' = total_wallets s"
      "ti_amount i \<le> 0 \<or> ti_fromAccountId i = ti_toAccountId i \<or> avail now s (ti_fromAccountId i) < ti_amount i"
      using wallets_cong [of s' s] by auto
    then have "credit_delta s (CTransfer now i) = 0" by (simp only: credit_delta.simps if_True)
    with f x ok show ?thesis by (simp add: step_facts_def credit_ok_def del: credit_delta.simps)
  next
    case (Inr p)
    with transfer_succeeds_iff [OF ok(1) x] have good: "0 < ti_amount i" "ti_fromAccountId i \<noteq> ti_toAccountId i"
      "ti_amount i \<le> avail now s (ti_fromAccountId i)" by auto
    from transferCredit_facts [OF ok(1) good x] have "ledger_ok s'"
      "total_credit s' = total_credit s - due now s (ti_fromAccountId i) - due now s (ti_toAccountId i)"
      "wallets_ok s' = wallets_ok s" "total_wallets s' = total_wallets s"
      using wallets_cong [of s' s] by metis+
    with good x ok show ?thesis by (simp add: step_facts_def credit_ok_def)
  qed
qed

lemma step_expire: assumes "credit_ok s" shows "step_facts s (CExpire now a)"
proof -
  obtain r s' where x: "expireAccount now a s = (r, s')" by (cases "expireAccount now a s")
  from assms have ok: "ledger_ok s" "wallets_ok s" by (simp_all add: credit_ok_def)
  from expireAccount_facts [OF ok(1) x] have "ledger_ok s'" "total_credit s' = total_credit s - due now s a"
      "wallets_ok s' = wallets_ok s" "total_wallets s' = total_wallets s"
      using wallets_cong [of s' s] by metis+
  with x ok show ?thesis by (simp add: step_facts_def credit_ok_def)
qed

lemma step_expireAll: assumes "credit_ok s" shows "step_facts s (CExpireAll now as)"
proof -
  let ?as = "case as of Some xs \<Rightarrow> xs | None \<Rightarrow> obj_keys (cs_accounts s)"
  obtain r s' where x: "expire_each now ?as s = (r, s')" by (cases "expire_each now ?as s")
  from expire_each_facts [OF assms x] x show ?thesis
    by (simp add: step_facts_def expireAll_def)
qed

lemma step_wallets:
  assumes "credit_ok s"
  shows "step_facts s (CWallet now a sub cur)" "step_facts s (CDeposit now i a n)"
    "step_facts s (CWithdraw now i a n)" "step_facts s (CDrawdown now i a ref n)"
proof -
  from assms have ok: "ledger_ok s" "wallets_ok s" by (simp_all add: credit_ok_def)
  obtain w s1 where x: "createWallet now a sub cur s = (w, s1)" by (cases "createWallet now a sub cur s")
  from createWallet_facts [OF ok(2) x] ledger_cong [of s1 s] x ok(1) show "step_facts s (CWallet now a sub cur)"
    by (simp add: step_facts_def credit_ok_def)
  obtain r s2 where y: "deposit now i a n s = (r, s2)" by (cases "deposit now i a n s")
  from deposit_facts [OF ok(2) y] ledger_cong [of s2 s] y ok show "step_facts s (CDeposit now i a n)"
    by (cases r) (simp_all add: step_facts_def credit_ok_def)
  obtain r s3 where z: "withdraw now i a n s = (r, s3)" by (cases "withdraw now i a n s")
  from withdraw_facts [OF ok(2) z] ledger_cong [of s3 s] z ok show "step_facts s (CWithdraw now i a n)"
    by (cases r) (simp_all add: step_facts_def credit_ok_def)
  obtain r s4 where d: "drawdown now i a ref n s = (r, s4)" by (cases "drawdown now i a ref n s")
  show "step_facts s (CDrawdown now i a ref n)"
  proof (cases r)
    case (Inr w)
    with drawdown_facts [OF ok(2) d] ledger_cong [of s4 s] d ok show ?thesis
      by (auto simp: step_facts_def credit_ok_def)
  next
    case (Inl e)
    with drawdown_facts [OF ok(2) d] have "s4 = s" by simp
    moreover from Inl d have "n \<le> 0 \<or> own_wallet i a s = None"
      by (auto simp: drawdown_def Let_def split: option.splits if_splits prod.splits)
    ultimately show ?thesis using d assms by (auto simp: step_facts_def split: option.split)
  qed
qed

lemma step_ok: "credit_ok s \<Longrightarrow> step_facts s e"
  by (cases e) (simp_all add: step_policy step_read step_issue step_apply step_transfer step_expire
      step_expireAll step_wallets)

interpretation credits: accounted credit_step credit_ok total_credit credit_delta
  by unfold_locales (use step_ok in \<open>auto simp: step_facts_def\<close>)

interpretation funds: accounted credit_step credit_ok total_wallets wallet_delta
  by unfold_locales (use step_ok in \<open>auto simp: step_facts_def\<close>)

section \<open>Properties\<close>

definition credit_run :: "CreditService \<Rightarrow> credit_event list \<Rightarrow> CreditService" where
  "credit_run s es = foldl credit_step s es"

lemma credit_run_ok: "credit_ok s \<Longrightarrow> credit_ok (credit_run s es)"
  unfolding credit_run_def by (rule credits.run_inv)

text \<open>C2: The ledger balances: whatever operations a service has executed, failed ones included, each
  account is stored under its own id, its balance is the sum of what its lots hold and the sum of its
  signed entries, no lot is negative, and lot and entry ids are strictly increasing.\<close>

theorem ledger_always_balances:
  assumes "map_of (cs_accounts (credit_run newCreditService es)) a = Some acc"
  shows "ac_accountId acc = a \<and> ac_balance acc = sum_list (map lot_remaining (ac_lots acc)) \<and>
    ac_balance acc = sum_list (map en_amount (ac_entries acc)) \<and> (\<forall>lot\<in>set (ac_lots acc). 0 \<le> lot_remaining lot) \<and>
    sorted_wrt (<) (map lot_id (ac_lots acc)) \<and> sorted_wrt (<) (map en_id (ac_entries acc))"
proof -
  have "ledger_ok (credit_run newCreditService es)"
    using credit_run_ok [OF credit_ok_new] by (simp add: credit_ok_def)
  with assms have "ac_accountId acc = a" "acc_ok acc" "ids_ok (credit_run newCreditService es) acc"
    unfolding ledger_ok_def by blast+
  then show ?thesis
    unfolding acc_ok_def ids_ok_def lots_ok_def lots_total_def entries_total_def by blast
qed

definition demo_issue :: "int \<Rightarrow> string \<Rightarrow> int \<Rightarrow> int option \<Rightarrow> credit_event" where
  "demo_issue now a n expiry = CIssue now \<lparr>ii_accountId = a, ii_actor = ''admin'', ii_amount = n,
     ii_reason = ''refund'', ii_expiresAt = expiry\<rparr>"

definition demo_credit :: CreditService where
  "demo_credit = credit_run newCreditService [demo_issue 10 ''ann'' 70 (Some 50), demo_issue 20 ''ann'' 30 None]"

lemma ledger_always_balances_witness:
  "\<exists>acc. map_of (cs_accounts demo_credit) ''ann'' = Some acc \<and> ac_balance acc = 100 \<and>
     ac_balance acc = sum_list (map lot_remaining (ac_lots acc)) \<and>
     ac_balance acc = sum_list (map en_amount (ac_entries acc))"
proof -
  have "map_option ac_balance (map_of (cs_accounts demo_credit) ''ann'') = Some 100" by code_simp
  then obtain acc where acc: "map_of (cs_accounts demo_credit) ''ann'' = Some acc" "ac_balance acc = 100" by auto
  from ledger_always_balances [OF acc(1) [unfolded demo_credit_def]] acc show ?thesis by blast
qed

text \<open>Applying credit to a charge takes exactly the smaller of the charge and the unexpired credit,
  oldest lots first (a lot that keeps something shields every later one) and leaves the rest due;
  what was past due is expired first, no other account changes, and the charge net of the credit
  and the credit used add up to the charge.\<close>

theorem apply_credit_contract:
  assumes "credit_ok s" "0 \<le> ai_amountDue input" "applyCreditToCharge now input s = (r, s')"
  defines "before \<equiv> acct s (ai_accountId input)" and "after \<equiv> acct s' (ai_accountId input)"
  shows "\<exists>res. r = Inr res \<and> ar_applied res = min (ai_amountDue input) (availableOf before now) \<and>
    ar_remainingDue res + ar_applied res = ai_amountDue input \<and> 0 \<le> ar_remainingDue res \<and>
    ar_balanceAfter res = ac_balance after \<and> ac_balance after = availableOf before now - ar_applied res \<and>
    length (ac_lots after) = length (ac_lots before) \<and>
    (\<forall>j<length (ac_lots before). \<forall>i<j. live now (ac_lots before ! i) \<and> 0 < lot_remaining (ac_lots after ! i) \<longrightarrow>
       ac_lots after ! j = expire_lot now (ac_lots before ! j)) \<and>
    (\<forall>b. b \<noteq> ai_accountId input \<longrightarrow> acct s' b = acct s b)"
proof -
  let ?a = "ai_accountId input" and ?n = "min (ai_amountDue input) (avail now s (ai_accountId input))"
  have ok: "ledger_ok s" using assms(1) by (simp add: credit_ok_def)
  obtain acc' where A: "ledger_ok s'" "acct s' = (acct s)(?a := acc')"
    "r = Inr \<lparr>ar_accountId = ?a, ar_subscriptionId = ai_subscriptionId input, ar_applied = ?n,
       ar_remainingDue = ai_amountDue input - ?n, ar_balanceAfter = avail now s ?a - ?n\<rparr>"
    "ac_lots acc' = fst (consume_lots now ?n (map (expire_lot now) (ac_lots (acct s ?a))))"
    "ac_balance acc' = avail now s ?a - ?n"
    using applyCreditToCharge_facts [OF ok assms(2,3)] by metis
  have after: "after = acc'" using A(2) by (simp add: after_def)
  let ?lots = "map (expire_lot now) (ac_lots before)"
  obtain ls q where c: "consume_lots now ?n ?lots = (ls, q)" by (cases "consume_lots now ?n ?lots")
  have ls: "ac_lots after = ls" using A(4) c by (simp add: before_def after)
  have "lots_ok (ac_lots before)" using acct_ok(1) [OF ok, of ?a] by (simp add: acc_ok_def before_def)
  then have lok: "lots_ok ?lots" by (rule expire_lots(1))
  have "0 \<le> ?n" using assms(2) live_nonneg by simp
  from consume_lots_facts [OF lok this c] have len: "length ls = length (ac_lots before)" by simp
  have fifo: "ls ! j = expire_lot now (ac_lots before ! j)"
    if "j < length (ac_lots before)" "i < j" "live now (ac_lots before ! i)" "0 < lot_remaining (ls ! i)" for i j
    using consume_lots_fifo [OF c, of i j] that by (simp add: live_expire_lot)
  have "ac_balance after = avail now s ?a - ?n" using A(5) after by simp
  moreover have "\<forall>b. b \<noteq> ?a \<longrightarrow> acct s' b = acct s b" using A(2) by simp
  ultimately show ?thesis
    using A(3) ls len fifo by (intro exI [of _ "projr r"]) (auto simp: before_def)
qed

definition demo_charge :: ApplyCreditInput where
  "demo_charge = \<lparr>ai_accountId = ''ann'', ai_subscriptionId = ''sub'', ai_amountDue = 80\<rparr>"

lemma demo_credit_ok: "credit_ok demo_credit"
  unfolding demo_credit_def by (rule credit_run_ok [OF credit_ok_new])

lemma apply_credit_contract_witness:
  "\<exists>r s' res. applyCreditToCharge 30 demo_charge demo_credit = (r, s') \<and> r = Inr res \<and> ar_applied res = 80 \<and>
     ar_remainingDue res = 0"
proof -
  obtain r s' where x: "applyCreditToCharge 30 demo_charge demo_credit = (r, s')"
    by (cases "applyCreditToCharge 30 demo_charge demo_credit")
  have "0 \<le> ai_amountDue demo_charge" by (simp add: demo_charge_def)
  from apply_credit_contract [OF demo_credit_ok this x] obtain res where res: "r = Inr res"
    "ar_applied res = min (ai_amountDue demo_charge) (availableOf (acct demo_credit (ai_accountId demo_charge)) 30)"
    "ar_remainingDue res + ar_applied res = ai_amountDue demo_charge" by blast
  have "min (ai_amountDue demo_charge) (availableOf (acct demo_credit (ai_accountId demo_charge)) 30) = 80"
    by code_simp
  with res x show ?thesis by (auto simp: demo_charge_def)
qed

text \<open>A transfer moves credit and makes none: it is refused exactly when the amount is not positive, the
  accounts are the same or the sender's unexpired credit is too small, and then no account changes;
  otherwise the sender loses and the recipient gains the amount, nobody else changes, and the total
  credit falls by exactly what was past due on the two accounts.\<close>

theorem transfer_moves_credit:
  assumes "credit_ok s" "transferCredit now input s = (r, s')"
  defines "a \<equiv> ti_fromAccountId input" and "b \<equiv> ti_toAccountId input"
  shows "if ti_amount input \<le> 0 \<or> a = b \<or> availableOf (acct s a) now < ti_amount input
    then (\<exists>e. r = Inl e) \<and> acct s' = acct s
    else (\<exists>from to. r = Inr (from, to) \<and>
      ac_balance (acct s' a) = availableOf (acct s a) now - ti_amount input \<and>
      ac_balance (acct s' b) = availableOf (acct s b) now + ti_amount input \<and>
      (\<forall>c. c \<noteq> a \<and> c \<noteq> b \<longrightarrow> acct s' c = acct s c) \<and>
      total_credit s' = total_credit s - past_due now (acct s a) - past_due now (acct s b))"
proof (cases "ti_amount input \<le> 0 \<or> a = b \<or> availableOf (acct s a) now < ti_amount input")
  case True
  have ok: "ledger_ok s" using assms(1) by (simp add: credit_ok_def)
  from True transfer_succeeds_iff [OF ok assms(2)] obtain e where "r = Inl e"
    by (auto simp: a_def b_def)
  with transferCredit_fails [OF ok, of now input e s'] assms(2) True show ?thesis by auto
next
  case False
  have ok: "ledger_ok s" using assms(1) by (simp add: credit_ok_def)
  have good: "0 < ti_amount input" "ti_fromAccountId input \<noteq> ti_toAccountId input"
    "ti_amount input \<le> avail now s (ti_fromAccountId input)" using False by (auto simp: a_def b_def)
  have due: "past_due now (acct s x) = due now s x" for x
    using acct_ok(1) [OF ok, of x] by (intro past_due_eq) (simp add: acc_ok_def)
  obtain sender recipient where T: "acct s' = (acct s)(a := sender, b := recipient)"
    "r = Inr (refreshAvailable now (projectExpiry now sender), refreshAvailable now (projectExpiry now recipient))"
    "ac_balance sender = avail now s a - ti_amount input" "ac_balance recipient = avail now s b + ti_amount input"
    "total_credit s' = total_credit s - due now s a - due now s b"
    using transferCredit_facts [OF ok good assms(2)] unfolding a_def b_def by metis
  with False show ?thesis by (simp add: due)
qed

definition demo_transfer :: TransferCreditInput where
  "demo_transfer = \<lparr>ti_fromAccountId = ''ann'', ti_toAccountId = ''bob'', ti_amount = 25, ti_reason = ''gift''\<rparr>"

lemma transfer_moves_credit_witness:
  "\<exists>r s'. transferCredit 60 demo_transfer demo_credit = (r, s') \<and> ac_balance (acct s' ''ann'') = 5 \<and>
     ac_balance (acct s' ''bob'') = 25 \<and> total_credit s' = 30"
proof -
  obtain r s' where x: "transferCredit 60 demo_transfer demo_credit = (r, s')"
    by (cases "transferCredit 60 demo_transfer demo_credit")
  have v: "availableOf (acct demo_credit ''ann'') 60 = 30" "availableOf (acct demo_credit ''bob'') 60 = 0"
    "total_credit demo_credit = 100" "past_due 60 (acct demo_credit ''ann'') = 70"
    "past_due 60 (acct demo_credit ''bob'') = 0" by code_simp+
  have f: "ti_amount demo_transfer = 25" "ti_fromAccountId demo_transfer = ''ann''"
    "ti_toAccountId demo_transfer = ''bob''" by (simp_all add: demo_transfer_def)
  from transfer_moves_credit [OF demo_credit_ok x] have "ac_balance (acct s' ''ann'') = 5 \<and>
     ac_balance (acct s' ''bob'') = 25 \<and> total_credit s' = 30"
    by (simp add: f v del: availableOf_eq)
  with x show ?thesis by blast
qed

fun credit_flow :: "CreditService \<Rightarrow> credit_event list \<Rightarrow> int" where
  "credit_flow s [] = 0"
| "credit_flow s (e # es) = credit_delta s e + credit_flow (credit_step s e) es"

fun wallet_flow :: "CreditService \<Rightarrow> credit_event list \<Rightarrow> int" where
  "wallet_flow s [] = 0"
| "wallet_flow s (e # es) = wallet_delta s e + wallet_flow (credit_step s e) es"

lemma flows: "credits.total_delta s es = credit_flow s es" "funds.total_delta s es = wallet_flow s es"
  by (induction es arbitrary: s) simp_all

text \<open>C12: Money is accounted for: over any run the credit outstanding changes by exactly what was issued
  less what was applied and what expired (transfers, policies and reads add nothing), and the funds in
  the wallets by exactly the accepted deposits less the accepted withdrawals and drawdowns, a drawdown
  counting the smaller of its amount and the wallet's balance; neither is ever negative.\<close>

theorem money_is_accounted_for:
  assumes "credit_ok s"
  shows "total_credit (credit_run s es) = total_credit s + credit_flow s es \<and>
    total_wallets (credit_run s es) = total_wallets s + wallet_flow s es \<and>
    0 \<le> total_credit (credit_run s es) \<and> 0 \<le> total_wallets (credit_run s es)"
proof -
  have ok: "credit_ok (credit_run s es)" by (rule credit_run_ok [OF assms])
  have "0 \<le> ac_balance acc" if "(k, acc) \<in> set (cs_accounts (credit_run s es))" for k acc
  proof -
    have "map_of (cs_accounts (credit_run s es)) k = Some acc"
      using that ok by (simp add: credit_ok_def ledger_ok_def obj_ok_def obj_keys_def)
    with ok have "acc_ok acc" unfolding credit_ok_def ledger_ok_def by blast
    moreover have "lots_ok lots \<Longrightarrow> 0 \<le> lots_total lots" for lots by (induction lots) auto
    ultimately show ?thesis by (simp add: acc_ok_def)
  qed
  then have "0 \<le> total_credit (credit_run s es)"
    unfolding total_credit_def obj_sum_def by (intro sum_list_nonneg) auto
  moreover have "0 \<le> wa_balance w" if "(k, w) \<in> set (cs_wallets (credit_run s es))" for k w
  proof -
    have "map_of (cs_wallets (credit_run s es)) k = Some w"
      using that ok by (simp add: credit_ok_def wallets_ok_def obj_ok_def obj_keys_def)
    with ok show ?thesis unfolding credit_ok_def wallets_ok_def wallet_ok_def by blast
  qed
  then have "0 \<le> total_wallets (credit_run s es)"
    unfolding total_wallets_def obj_sum_def by (intro sum_list_nonneg) auto
  ultimately show ?thesis
    using credits.run_delta [OF assms, of es] funds.run_delta [OF assms, of es]
    by (simp add: credit_run_def flows)
qed

lemma money_is_accounted_for_witness:
  "total_credit (credit_run demo_credit [CApply 30 demo_charge]) = 20"
proof -
  have "total_credit demo_credit + credit_flow demo_credit [CApply 30 demo_charge] = 20" by code_simp
  with money_is_accounted_for [OF demo_credit_ok, THEN conjunct1, of "[CApply 30 demo_charge]"] show ?thesis by simp
qed

text \<open>A wallet's history explains it: in every reachable state a wallet's balance is what was deposited
  less what was withdrawn, never negative, its transactions replay from zero to that balance with each
  noted balance right, and an accepted movement touches only the wallet of the account that asked.\<close>

theorem wallet_history_explains_balance:
  assumes "map_of (cs_wallets (credit_run newCreditService es)) i = Some w"
  shows "0 \<le> wa_balance w \<and> wa_balance w = wa_totalDeposited w - wa_totalWithdrawn w \<and>
    tx_chain 0 (getWalletTransactions i (credit_run newCreditService es)) (wa_balance w) \<and>
    (\<forall>now a ref n w' s'. drawdown now i a ref n (credit_run newCreditService es) = (Inr w', s') \<longrightarrow>
       a = wa_accountId w \<and> wa_balance w' = wa_balance w - min (wa_balance w) n \<and>
       (\<forall>j. j \<noteq> i \<longrightarrow> getWallet j s' = getWallet j (credit_run newCreditService es)))"
proof -
  let ?s = "credit_run newCreditService es"
  have ok: "wallets_ok ?s" using credit_run_ok [OF credit_ok_new] by (simp add: credit_ok_def)
  with assms have w: "wallet_ok (obj_or [] (cs_walletTx ?s) i) w" unfolding wallets_ok_def by blast
  have "a = wa_accountId w \<and> wa_balance w' = wa_balance w - min (wa_balance w) n \<and>
       (\<forall>j. j \<noteq> i \<longrightarrow> getWallet j s' = getWallet j ?s)"
    if d: "drawdown now i a ref n ?s = (Inr w', s')" for now a ref n w' s'
  proof -
    from drawdown_facts [OF ok d] obtain w0 where w0: "own_wallet i a ?s = Some w0"
      "wa_balance w' = wa_balance w0 - min (wa_balance w0) n"
      "map_of (cs_wallets s') = (map_of (cs_wallets ?s))(i \<mapsto> w')" by auto
    moreover from w0(1) assms have "w0 = w" "a = wa_accountId w"
      by (auto simp: own_wallet_def split: if_splits)
    ultimately show ?thesis by (simp add: getWallet_def)
  qed
  with w show ?thesis unfolding wallet_ok_def getWalletTransactions_def by blast
qed

lemma wallet_history_explains_balance_witness:
  "\<exists>w. map_of (cs_wallets (credit_run newCreditService [CWallet 1 ''ann'' ''s'' ''USD'', CDeposit 2 1 ''ann'' 9,
       CDrawdown 3 1 ''ann'' ''inv'' 4])) 1 = Some w \<and> wa_balance w = wa_totalDeposited w - wa_totalWithdrawn w \<and> wa_balance w = 5"
proof -
  let ?s = "credit_run newCreditService [CWallet 1 ''ann'' ''s'' ''USD'', CDeposit 2 1 ''ann'' 9,
       CDrawdown 3 1 ''ann'' ''inv'' 4]"
  have "map_option wa_balance (map_of (cs_wallets ?s) 1) = Some 5" by code_simp
  then obtain w where w: "map_of (cs_wallets ?s) 1 = Some w" "wa_balance w = 5" by auto
  from wallet_history_explains_balance [OF w(1)] w show ?thesis by blast
qed

text \<open>A read shows what an expiry would commit: \<open>getAccount\<close> answers the lots, balance and available
  credit that \<open>expireAccount\<close> at the same time stores, and stores none of it; but a read of an unknown
  account is not without effect, it creates the account.\<close>

theorem reads_project_expiry:
  assumes "credit_ok s"
  shows "case (getAccount now a s, expireAccount now a s) of
      ((acc, s1), ((expired, _), s2)) \<Rightarrow>
        ac_lots acc = ac_lots (acct s2 a) \<and> ac_balance acc = ac_balance (acct s2 a) \<and>
        ac_available acc = ac_available (acct s2 a) \<and> ac_balance acc = ac_balance (acct s a) - expired \<and>
        acct s1 = acct s \<and> a \<in> set (obj_keys (cs_accounts s1)) \<and>
        (a \<in> set (obj_keys (cs_accounts s)) \<longrightarrow> s1 = s)"
proof -
  have ok: "ledger_ok s" using assms by (simp add: credit_ok_def)
  obtain e acc2 s2 where x: "expireAccount now a s = ((e, acc2), s2)" by (metis prod.collapse)
  from expireAccount_facts [OF ok x] obtain acc where X: "acct s2 = (acct s)(a := acc)" "e = due now s a"
    "ac_lots acc = map (expire_lot now) (ac_lots (acct s a))" "ac_balance acc = avail now s a"
    "ac_available acc = avail now s a" by auto
  let ?p = "refreshAvailable now (projectExpiry now (acct s a))"
  have A: "lots_ok (ac_lots (acct s a))" "ac_balance (acct s a) = avail now s a + due now s a"
    using acct_ok(1) [OF ok, of a] by (simp_all add: acc_ok_def due_total_def)
  note due = past_due_eq [OF A(1), of now]
  have p: "ac_lots ?p = map (expire_lot now) (ac_lots (acct s a))"
    "ac_balance ?p = avail now s a" "ac_available ?p = avail now s a"
    using due due_nonneg [OF A(1), of now] A(2) expire_lots(3) [OF A(1), of now]
    by (auto simp: projectExpiry_def Let_def refreshAvailable_def)
  have "a \<in> set (obj_keys (cs_accounts (ensured a s)))"
    using ensure_acct(3) [of a s] by (auto simp: set_obj_keys)
  moreover have "ensured a s = s" if "a \<in> set (obj_keys (cs_accounts s))"
    using that by (auto simp: set_obj_keys intro: ensured_present)
  ultimately show ?thesis
    using X p A(2) by (auto simp: getAccount_eq x ensure_acct(2))
qed

lemma reads_project_expiry_witness:
  "ac_balance (fst (getAccount 60 ''ann'' demo_credit)) = ac_balance (acct (snd (expireAccount 60 ''ann'' demo_credit)) ''ann'')"
  using reads_project_expiry [OF demo_credit_ok, where now = 60 and a = "''ann''"]
  by (auto simp: case_prod_unfold)

text \<open>Following \<open>nextOffset\<close> from page to page; \<open>None\<close> when the fuel runs out first.\<close>

fun audit_pages :: "nat \<Rightarrow> int \<Rightarrow> CreditAuditQuery \<Rightarrow> CreditService \<Rightarrow> CreditEntry list option" where
  "audit_pages 0 now query s = None"
| "audit_pages (Suc fuel) now query s =
     (case getAuditTrail now query s of (page, s1) \<Rightarrow>
        (case ap_nextOffset page of
           None \<Rightarrow> Some (ap_entries page)
         | Some n \<Rightarrow> (case audit_pages fuel now (query\<lparr>aq_offset := Some n\<rparr>) s1 of
             None \<Rightarrow> None | Some rest \<Rightarrow> Some (ap_entries page @ rest))))"

definition audit_answer :: "CreditAuditQuery \<Rightarrow> CreditService \<Rightarrow> CreditEntry list" where
  "audit_answer query s = sort_key (\<lambda>e. - en_timestamp e)
     (filter (audit_matches query) (ac_entries (acct s (aq_accountId query))))"

lemma getAuditTrail_eq:
  assumes "aq_offset query = Some o'" "0 \<le> o'"
  defines "l \<equiv> max 1 (case aq_limit query of None \<Rightarrow> 100 | Some n \<Rightarrow> n)"
  shows "getAuditTrail now query s =
    (\<lparr>ap_entries = take (nat l) (drop (nat o') (audit_answer query s)), ap_totalEntries = int (length (audit_answer query s)),
      ap_hasMore = (o' + l < int (length (audit_answer query s))),
      ap_nextOffset = (if o' + l < int (length (audit_answer query s)) then Some (o' + l) else None)\<rparr>,
     ensured (aq_accountId query) s)"
proof -
  have l0: "0 \<le> l" by (simp add: l_def)
  have "ac_entries (projectExpiry now acc) = ac_entries acc" for acc by (simp add: projectExpiry_def Let_def)
  then show ?thesis
    using assms(1,2) js_slice_page [of o' l] l0
    by (simp add: getAuditTrail_def ensure_acct(1) Let_def audit_answer_def l_def [symmetric])
qed

lemma audit_answer_page [simp]: "audit_answer (query\<lparr>aq_offset := x\<rparr>) (ensured a s) = audit_answer query s"
proof -
  have "audit_matches (query\<lparr>aq_offset := x\<rparr>) = audit_matches query" by (simp add: audit_matches_def fun_eq_iff)
  then show ?thesis by (simp add: audit_answer_def ensure_acct(2))
qed

lemma audit_pages_from:
  assumes "aq_offset query = Some o'" "0 \<le> o'" "length (audit_answer query s) < fuel + nat o'"
  shows "audit_pages fuel now query s = Some (drop (nat o') (audit_answer query s)) \<or>
    (fuel = 0 \<and> length (audit_answer query s) < nat o')"
  using assms
proof (induction fuel arbitrary: query o' s)
  case 0
  then show ?case by simp
next
  case (Suc fuel)
  define l where "l = max 1 (case aq_limit query of None \<Rightarrow> 100 | Some n \<Rightarrow> n)"
  let ?xs = "audit_answer query s"
  have l: "1 \<le> l" by (simp add: l_def)
  note T = getAuditTrail_eq [OF Suc.prems(1,2), of now s, folded l_def]
  show ?case
  proof (cases "o' + l < int (length ?xs)")
    case False
    then have "take (nat l) (drop (nat o') ?xs) = drop (nat o') ?xs" using Suc.prems(2) l by simp
    with False T show ?thesis by simp
  next
    case True
    let ?q = "query\<lparr>aq_offset := Some (o' + l)\<rparr>" and ?s = "ensured (aq_accountId query) s"
    have same: "audit_answer ?q ?s = ?xs" by simp
    have "length (audit_answer ?q ?s) < fuel + nat (o' + l)"
      unfolding same using Suc.prems(2,3) l by linarith
    from Suc.IH [OF _ _ this] Suc.prems(2) l True same
    have "audit_pages fuel now ?q ?s = Some (drop (nat (o' + l)) ?xs)" by auto
    moreover have "take (nat l) (drop (nat o') ?xs) @ drop (nat (o' + l)) ?xs = drop (nat o') ?xs"
    proof -
      have "drop (nat (o' + l)) ?xs = drop (nat l) (drop (nat o') ?xs)"
        using Suc.prems(2) l by (simp add: nat_add_distrib add.commute)
      then show ?thesis by (metis append_take_drop_id)
    qed
    ultimately show ?thesis using True T by simp
  qed
qed

text \<open>Paging through the audit trail terminates and is complete: following \<open>nextOffset\<close> from offset 0,
  whatever the limit, ends after at most one request more than there are matching entries, and the
  pages together are exactly the account's entries that match the query, newest first.\<close>

theorem audit_paging_complete:
  assumes "aq_offset query = Some 0" "length (audit_answer query s) < fuel"
  shows "audit_pages fuel now query s = Some (audit_answer query s) \<and>
    sorted_wrt (\<lambda>x y. en_timestamp y \<le> en_timestamp x) (audit_answer query s) \<and>
    mset (audit_answer query s) = mset (filter (audit_matches query) (ac_entries (acct s (aq_accountId query))))"
proof -
  have "sorted (map (\<lambda>e. - en_timestamp e) (audit_answer query s))" by (simp add: audit_answer_def)
  then have "sorted_wrt (\<lambda>x y. en_timestamp y \<le> en_timestamp x) (audit_answer query s)"
    by (simp add: sorted_wrt_map)
  moreover have "audit_pages fuel now query s = Some (audit_answer query s)"
    using audit_pages_from [OF assms(1), of s fuel now] assms(2) by auto
  ultimately show ?thesis by (simp add: audit_answer_def)
qed

lemma audit_paging_complete_witness:
  "audit_pages 3 60 \<lparr>aq_accountId = ''ann'', aq_fromTime = None, aq_toTime = None, aq_kinds = Some [Issue],
     aq_limit = Some 1, aq_offset = Some 0\<rparr> demo_credit =
   Some (audit_answer \<lparr>aq_accountId = ''ann'', aq_fromTime = None, aq_toTime = None, aq_kinds = Some [Issue],
     aq_limit = Some 1, aq_offset = Some 0\<rparr> demo_credit)"
proof -
  let ?q = "\<lparr>aq_accountId = ''ann'', aq_fromTime = None, aq_toTime = None, aq_kinds = Some [Issue],
     aq_limit = Some 1, aq_offset = Some 0\<rparr> :: CreditAuditQuery"
  have "length (audit_answer ?q demo_credit) < 3" by code_simp
  then show ?thesis by (rule audit_paging_complete [THEN conjunct1, rotated]) simp
qed

text \<open>The last bucket of the usage trend is empty but for the present second: the window starts
  \<open>(days - 1) * bucketSecs\<close> before now, so every entry older than now falls into an earlier bucket,
  although the code's comment has the last bucket end at now.\<close>

theorem usage_trend_last_bucket:
  assumes "0 < bucketSecs" "1 < days" "start = now - (days - 1) * bucketSecs" "start \<le> t" "t \<le> now"
  shows "trend_bucket_of start days bucketSecs t = start + (days - 1) * bucketSecs \<longleftrightarrow> t = now"
    (is "?L \<longleftrightarrow> ?R")
proof
  assume ?R
  then show ?L using assms(1,3) by (simp add: trend_bucket_of_def)
next
  assume ?L
  then have "min (days - 1) ((t - start) div bucketSecs) * bucketSecs = (days - 1) * bucketSecs"
    by (simp add: trend_bucket_of_def)
  then have "days - 1 \<le> (t - start) div bucketSecs" using assms(1) by simp
  then have "(days - 1) * bucketSecs \<le> (t - start) div bucketSecs * bucketSecs"
    using assms(1) by (simp add: mult_right_mono)
  also have "\<dots> \<le> t - start"
    using pos_mod_sign [OF assms(1), of "t - start"] by (simp add: minus_mod_eq_div_mult [symmetric])
  finally show ?R using assms(3,5) by simp
qed

lemma usage_trend_last_bucket_witness:
  "trend_bucket_of (1000 - 2 * 86400) 3 86400 999 \<noteq> (1000 - 2 * 86400) + (3 - 1) * 86400"
  using usage_trend_last_bucket [of 86400 3 "1000 - 2 * 86400" 1000 999] by simp

end
