(* ===== verification/DeadLetter.thy ===== *)
theory DeadLetter
  imports Complex_Main PriorityQueues
begin

text \<open>
  What happens to failed jobs: the retry policy of \<^verbatim>\<open>backend/shared/queue/retryPolicy.ts\<close> and
  the dead letter queue of \<^verbatim>\<open>deadLetterQueue.ts\<close>. The random source and the clock are arguments;
  delays are rationals before \<open>Math.floor\<close>. Persisting an entry to BullMQ and the alert callback
  have no effect on the buffer and are left out.
\<close>

section \<open>Retry policy\<close>

record RetryPolicy =
  rt_baseDelayMs :: rat
  rt_maxDelayMs :: rat
  rt_maxAttempts :: "PriorityClass \<Rightarrow> int"
  rt_backoffMultiplier :: rat
  rt_jitter :: bool

fun DEFAULT_MAX_ATTEMPTS :: "PriorityClass \<Rightarrow> int" where
  "DEFAULT_MAX_ATTEMPTS Critical = 10"
| "DEFAULT_MAX_ATTEMPTS High = 7"
| "DEFAULT_MAX_ATTEMPTS Normal = 5"
| "DEFAULT_MAX_ATTEMPTS Low = 3"

record RetryPolicyConfig =
  rc_baseDelayMs :: "rat option"
  rc_maxDelayMs :: "rat option"
  rc_maxAttempts :: "PriorityClass \<Rightarrow> int option"
  rc_backoffMultiplier :: "rat option"
  rc_jitter :: "bool option"

definition newRetryPolicy :: "RetryPolicyConfig \<Rightarrow> RetryPolicy" where
  "newRetryPolicy c = \<lparr>
     rt_baseDelayMs = (case rc_baseDelayMs c of None \<Rightarrow> 1000 | Some v \<Rightarrow> v),
     rt_maxDelayMs = (case rc_maxDelayMs c of None \<Rightarrow> 60000 | Some v \<Rightarrow> v),
     rt_maxAttempts = (\<lambda>p. case rc_maxAttempts c p of None \<Rightarrow> DEFAULT_MAX_ATTEMPTS p | Some v \<Rightarrow> v),
     rt_backoffMultiplier = (case rc_backoffMultiplier c of None \<Rightarrow> 2 | Some v \<Rightarrow> v),
     rt_jitter = (case rc_jitter c of None \<Rightarrow> True | Some v \<Rightarrow> v)\<rparr>"

text \<open>\<open>random\<close> is what the injected source answers, in \<open>[0, 1)\<close>.\<close>

definition computeDelay :: "rat \<Rightarrow> RetryPolicy \<Rightarrow> nat \<Rightarrow> int" where
  "computeDelay random p attempt =
     (let exponential = rt_baseDelayMs p * rt_backoffMultiplier p ^ attempt;
          capped = min exponential (rt_maxDelayMs p)
      in if rt_jitter p then \<lfloor>random * capped\<rfloor> else \<lfloor>capped\<rfloor>)"

record RetryDecision =
  rd_shouldRetry :: bool
  rd_delayMs :: int
  rd_attempt :: nat
  rd_reason :: "string option"

definition decide :: "rat \<Rightarrow> RetryPolicy \<Rightarrow> PriorityClass \<Rightarrow> nat \<Rightarrow> string option \<Rightarrow> RetryDecision" where
  "decide random p priority attempt error =
     (if rt_maxAttempts p priority \<le> int attempt
      then \<lparr>rd_shouldRetry = False, rd_delayMs = 0, rd_attempt = attempt,
            rd_reason = Some (''Max attempts ('' @ show_int (rt_maxAttempts p priority) @
              '') exceeded for priority \"'' @ priority_name priority @ ''\"'')\<rparr>
      else \<lparr>rd_shouldRetry = True, rd_delayMs = computeDelay random p attempt, rd_attempt = attempt + 1,
            rd_reason = error\<rparr>)"

section \<open>Dead letter queue\<close>

record 'a DeadLetterEntry =
  dl_id :: string
  dl_job :: "'a QueueJob"
  dl_failureReason :: string
  dl_attempts :: int
  dl_failedAt :: int
  dl_totalWaitMs :: int

record 'a DeadLetterQueue =
  dq_entries :: "'a DeadLetterEntry list"
  dq_maxEntries :: int
  dq_retentionMs :: int

definition newDeadLetterQueue :: "int option \<Rightarrow> int option \<Rightarrow> 'a DeadLetterQueue" where
  "newDeadLetterQueue maxEntries retentionMs =
     \<lparr>dq_entries = [], dq_maxEntries = (case maxEntries of None \<Rightarrow> 1000 | Some n \<Rightarrow> n),
      dq_retentionMs = (case retentionMs of None \<Rightarrow> 7 * 24 * 60 * 60000 | Some n \<Rightarrow> n)\<rparr>"

definition dlq_add :: "int \<Rightarrow> 'a QueueJob \<Rightarrow> string \<Rightarrow> int \<Rightarrow> 'a DeadLetterQueue
    \<Rightarrow> 'a DeadLetterEntry \<times> 'a DeadLetterQueue" where
  "dlq_add now job failureReason attempts q =
     (let entry = \<lparr>dl_id = ''dlq:'' @ job_id job @ '':'' @ show_int now, dl_job = job,
            dl_failureReason = failureReason, dl_attempts = attempts, dl_failedAt = now,
            dl_totalWaitMs = now - job_enqueuedAt job\<rparr>;
          pushed = dq_entries q @ [entry]
      in (entry, q\<lparr>dq_entries := (if dq_maxEntries q < int (length pushed) then tl pushed else pushed)\<rparr>))"

definition dlq_pruneStale :: "int \<Rightarrow> 'a DeadLetterQueue \<Rightarrow> 'a DeadLetterQueue" where
  "dlq_pruneStale now q =
     q\<lparr>dq_entries := dropWhile (\<lambda>e. dl_failedAt e < now - dq_retentionMs q) (dq_entries q)\<rparr>"

definition dlq_getEntries :: "int \<Rightarrow> 'a DeadLetterQueue \<Rightarrow> 'a DeadLetterEntry list \<times> 'a DeadLetterQueue" where
  "dlq_getEntries now q = (let q1 = dlq_pruneStale now q in (dq_entries q1, q1))"

definition dlq_getEntriesByPriority :: "int \<Rightarrow> PriorityClass \<Rightarrow> 'a DeadLetterQueue
    \<Rightarrow> 'a DeadLetterEntry list \<times> 'a DeadLetterQueue" where
  "dlq_getEntriesByPriority now priority q =
     (case dlq_getEntries now q of (es, q1) \<Rightarrow> (filter (\<lambda>e. job_priority (dl_job e) = priority) es, q1))"

definition dlq_depth :: "int \<Rightarrow> 'a DeadLetterQueue \<Rightarrow> int \<times> 'a DeadLetterQueue" where
  "dlq_depth now q = (let q1 = dlq_pruneStale now q in (int (length (dq_entries q1)), q1))"

text \<open>The first entry with the id is spliced out.\<close>

fun splice_out :: "string \<Rightarrow> 'a DeadLetterEntry list \<Rightarrow> ('a DeadLetterEntry \<times> 'a DeadLetterEntry list) option" where
  "splice_out entryId [] = None"
| "splice_out entryId (e # es) =
     (if dl_id e = entryId then Some (e, es)
      else (case splice_out entryId es of None \<Rightarrow> None | Some (x, rest) \<Rightarrow> Some (x, e # rest)))"

definition dlq_remove :: "string \<Rightarrow> 'a DeadLetterQueue \<Rightarrow> 'a DeadLetterEntry option \<times> 'a DeadLetterQueue" where
  "dlq_remove entryId q =
     (case splice_out entryId (dq_entries q) of
        None \<Rightarrow> (None, q)
      | Some (e, rest) \<Rightarrow> (Some e, q\<lparr>dq_entries := rest\<rparr>))"

definition dlq_clear :: "'a DeadLetterQueue \<Rightarrow> 'a DeadLetterQueue" where
  "dlq_clear q = q\<lparr>dq_entries := []\<rparr>"

section \<open>Runs under a clock that does not go back\<close>

datatype 'a dlq_event = DAdd int "'a QueueJob" string int | DRead int | DRemove string | DClear

fun dlq_step :: "'a DeadLetterQueue \<Rightarrow> 'a dlq_event \<Rightarrow> 'a DeadLetterQueue" where
  "dlq_step q (DAdd now job reason n) = snd (dlq_add now job reason n q)"
| "dlq_step q (DRead now) = snd (dlq_getEntries now q)"
| "dlq_step q (DRemove i) = snd (dlq_remove i q)"
| "dlq_step q DClear = dlq_clear q"

fun event_time :: "'a dlq_event \<Rightarrow> int option" where
  "event_time (DAdd now job reason n) = Some now"
| "event_time (DRead now) = Some now"
| "event_time _ = None"

definition dlq_ok :: "int \<Rightarrow> 'a DeadLetterQueue \<Rightarrow> bool" where
  "dlq_ok latest q \<longleftrightarrow> sorted (map dl_failedAt (dq_entries q)) \<and> (\<forall>e\<in>set (dq_entries q). dl_failedAt e \<le> latest) \<and>
     (0 \<le> dq_maxEntries q \<longrightarrow> int (length (dq_entries q)) \<le> dq_maxEntries q)"

lemma splice_out_facts:
  "splice_out i es = Some (e, rest) \<Longrightarrow> dl_id e = i \<and> (\<exists>as bs. es = as @ e # bs \<and> rest = as @ bs)"
proof (induction es arbitrary: rest)
  case (Cons x es)
  show ?case
  proof (cases "dl_id x = i")
    case True
    with Cons.prems show ?thesis by (auto intro: exI [of _ "[]"])
  next
    case False
    with Cons.prems obtain r where r: "splice_out i es = Some (e, r)" "rest = x # r"
      by (auto split: option.splits)
    from Cons.IH [OF r(1)] obtain as bs where "dl_id e = i" "es = as @ e # bs" "r = as @ bs" by blast
    with r(2) show ?thesis by (intro conjI exI [of _ "x # as"] exI [of _ bs]) simp_all
  qed
qed simp

lemma dlq_ok_step:
  assumes "dlq_ok t q" "case event_time e of None \<Rightarrow> t' = t | Some n \<Rightarrow> t \<le> n \<and> t' = n"
  shows "dlq_ok t' (dlq_step q e)"
proof (cases e)
  case (DAdd now job reason n)
  have "sorted (map dl_failedAt (tl xs))" if "sorted (map dl_failedAt xs)" for xs :: "'a DeadLetterEntry list"
    using that by (cases xs) auto
  with DAdd assms show ?thesis
    by (cases "dq_entries q") (auto simp: dlq_ok_def dlq_add_def Let_def sorted_append)
next
  case (DRead now)
  have "sorted (dropWhile P (map dl_failedAt xs))" if "sorted (map dl_failedAt xs)" for P and xs :: "'a DeadLetterEntry list"
    using that by (rule sorted_dropWhile)
  moreover have "length (dropWhile P xs) \<le> length xs" for P and xs :: "'a DeadLetterEntry list"
    by (rule length_dropWhile_le)
  ultimately show ?thesis
    using DRead assms set_dropWhileD
    by (fastforce simp: dlq_ok_def dlq_getEntries_def dlq_pruneStale_def Let_def dropWhile_map comp_def
        intro: order_trans [OF zle_int [THEN iffD2]])
next
  case (DRemove i)
  show ?thesis
  proof (cases "splice_out i (dq_entries q)")
    case None
    with DRemove assms show ?thesis by (simp add: dlq_remove_def)
  next
    case (Some p)
    obtain x rest where p: "p = (x, rest)" by (cases p)
    with Some splice_out_facts obtain as bs where "dq_entries q = as @ x # bs" "rest = as @ bs" by blast
    with DRemove Some p assms show ?thesis
      by (auto simp: dlq_ok_def dlq_remove_def sorted_append)
  qed
next
  case DClear
  with assms show ?thesis by (simp add: dlq_ok_def dlq_clear_def)
qed

fun clock_ok :: "int \<Rightarrow> 'a dlq_event list \<Rightarrow> bool" where
  "clock_ok t [] \<longleftrightarrow> True"
| "clock_ok t (e # es) \<longleftrightarrow> (case event_time e of None \<Rightarrow> clock_ok t es | Some n \<Rightarrow> t \<le> n \<and> clock_ok n es)"

lemma dlq_ok_run:
  assumes "dlq_ok t q" "clock_ok t es"
  shows "\<exists>t'. dlq_ok t' (foldl dlq_step q es)"
  using assms
proof (induction es arbitrary: t q)
  case (Cons e es)
  show ?case
  proof (cases "event_time e")
    case None
    with dlq_ok_step [OF Cons.prems(1), where e = e and t' = t] Cons.IH [of t "dlq_step q e"] Cons.prems(2) show ?thesis by simp
  next
    case (Some n)
    with dlq_ok_step [OF Cons.prems(1), where e = e and t' = n] Cons.IH [of n "dlq_step q e"] Cons.prems(2) show ?thesis by simp
  qed
qed auto

lemma dropWhile_sorted_filter:
  "sorted (map f xs) \<Longrightarrow> dropWhile (\<lambda>x. f x < (c::int)) xs = filter (\<lambda>x. c \<le> f x) xs"
proof (induction xs)
  case (Cons x xs)
  show ?case
  proof (cases "f x < c")
    case False
    with Cons.prems have "\<forall>y\<in>set (x # xs). c \<le> f y" by auto
    then have "filter (\<lambda>x. c \<le> f x) (x # xs) = x # xs" by (rule filter_True)
    with False show ?thesis by simp
  qed (use Cons in auto)
qed simp

lemma dlq_config_run:
  "dq_maxEntries (foldl dlq_step q es) = dq_maxEntries q \<and> dq_retentionMs (foldl dlq_step q es) = dq_retentionMs q"
proof (induction es arbitrary: q)
  case (Cons e es)
  have "dq_maxEntries (dlq_step q e) = dq_maxEntries q \<and> dq_retentionMs (dlq_step q e) = dq_retentionMs q"
    by (cases e) (auto simp: dlq_add_def dlq_getEntries_def dlq_pruneStale_def dlq_remove_def dlq_clear_def Let_def
        split: option.split)
  with Cons.IH [of "dlq_step q e"] show ?case by simp
qed simp

section \<open>Properties\<close>

text \<open>The dead letter queue is a bounded, ordered buffer: under a clock that does not go back, any run of
  additions, reads, removals and clears leaves at most \<open>maxEntries\<close> entries in order of failure, so
  that a read returns exactly the entries still within the retention period although it only prunes
  a prefix; and adding to a full buffer drops the oldest entry and no other.\<close>

theorem dlq_bounded_and_fresh:
  assumes "clock_ok t es" "0 \<le> n" "q = foldl dlq_step (newDeadLetterQueue (Some n) (Some r)) es"
  shows "int (length (dq_entries q)) \<le> n \<and> sorted (map dl_failedAt (dq_entries q)) \<and>
    fst (dlq_getEntries now q) = filter (\<lambda>e. now - r \<le> dl_failedAt e) (dq_entries q) \<and>
    (int (length (dq_entries q)) = n \<longrightarrow> 0 < n \<longrightarrow>
      dq_entries (snd (dlq_add now job reason k q)) = tl (dq_entries q) @ [fst (dlq_add now job reason k q)])"
proof -
  have "dlq_ok t (newDeadLetterQueue (Some n) (Some r) :: 'a DeadLetterQueue)"
    by (simp add: dlq_ok_def newDeadLetterQueue_def)
  from dlq_ok_run [OF this assms(1)] obtain t' where ok: "dlq_ok t' q" unfolding assms(3) by blast
  have cfg: "dq_maxEntries q = n" "dq_retentionMs q = r"
    using dlq_config_run [of "newDeadLetterQueue (Some n) (Some r)" es] by (simp_all add: assms(3) newDeadLetterQueue_def)
  from ok have s: "sorted (map dl_failedAt (dq_entries q))" by (simp add: dlq_ok_def)
  moreover have "fst (dlq_getEntries now q) = filter (\<lambda>e. now - r \<le> dl_failedAt e) (dq_entries q)"
    using dropWhile_sorted_filter [OF s] by (simp add: dlq_getEntries_def dlq_pruneStale_def Let_def cfg)
  moreover have "int (length (dq_entries q)) = n \<longrightarrow> 0 < n \<longrightarrow>
      dq_entries (snd (dlq_add now job reason k q)) = tl (dq_entries q) @ [fst (dlq_add now job reason k q)]"
    by (cases "dq_entries q") (auto simp: dlq_add_def Let_def cfg)
  ultimately show ?thesis using ok assms(2) by (simp add: dlq_ok_def cfg)
qed

definition dead_job :: "int QueueJob" where
  "dead_job = mk_job 1 Low ''j'' 7 \<lparr>eo_parentPriority = None, eo_delay = None, eo_jobId = None\<rparr> None"

lemma dlq_bounded_and_fresh_witness:
  "int (length (dq_entries (foldl dlq_step (newDeadLetterQueue (Some 1) (Some 100))
     [DAdd 5 dead_job ''x'' 3, DAdd 9 dead_job ''y'' 3]))) \<le> 1"
  by (rule dlq_bounded_and_fresh [where t = 0, OF _ _ refl, THEN conjunct1]) simp_all

text \<open>The attempts a job is given: \<open>decide\<close> is asked after each failure until it refuses.\<close>

fun retries :: "nat \<Rightarrow> (nat \<Rightarrow> rat) \<Rightarrow> RetryPolicy \<Rightarrow> PriorityClass \<Rightarrow> nat \<Rightarrow> int list option" where
  "retries 0 random p c attempt = None"
| "retries (Suc fuel) random p c attempt =
     (let d = decide (random attempt) p c attempt None
      in if rd_shouldRetry d
         then (case retries fuel random p c (rd_attempt d) of None \<Rightarrow> None | Some ds \<Rightarrow> Some (rd_delayMs d # ds))
         else Some [])"

lemma computeDelay_bounds:
  assumes "0 \<le> random" "random < 1" "0 \<le> rt_baseDelayMs p" "0 \<le> rt_backoffMultiplier p" "0 \<le> rt_maxDelayMs p"
  shows "0 \<le> computeDelay random p k" "of_int (computeDelay random p k) \<le> rt_maxDelayMs p"
proof -
  define c where "c = min (rt_baseDelayMs p * rt_backoffMultiplier p ^ k) (rt_maxDelayMs p)"
  have c: "0 \<le> c" "c \<le> rt_maxDelayMs p" using assms by (simp_all add: c_def)
  have r: "0 \<le> random * c" "random * c \<le> c" using c(1) assms(1,2) by (simp_all add: mult_left_le_one_le)
  show "0 \<le> computeDelay random p k" using c r by (simp add: computeDelay_def Let_def c_def [symmetric])
  have "of_int \<lfloor>random * c\<rfloor> \<le> rt_maxDelayMs p" "of_int \<lfloor>c\<rfloor> \<le> rt_maxDelayMs p"
    using of_int_floor_le [of "random * c"] of_int_floor_le [of c] r(2) c(2) by linarith+
  then show "of_int (computeDelay random p k) \<le> rt_maxDelayMs p"
    by (simp add: computeDelay_def Let_def c_def [symmetric])
qed

lemma retries_from:
  assumes "\<forall>k. 0 \<le> random k \<and> random k < 1" "0 \<le> rt_baseDelayMs p" "0 \<le> rt_backoffMultiplier p" "0 \<le> rt_maxDelayMs p"
    "nat (rt_maxAttempts p c) < fuel + attempt"
  shows "(fuel = 0 \<and> nat (rt_maxAttempts p c) < attempt) \<or> (\<exists>ds. retries fuel random p c attempt = Some ds \<and>
    length ds = nat (rt_maxAttempts p c) - attempt \<and> (\<forall>d\<in>set ds. 0 \<le> d \<and> of_int d \<le> rt_maxDelayMs p))"
  using assms(5)
proof (induction fuel arbitrary: attempt)
  case (Suc fuel)
  show ?case
  proof (cases "rt_maxAttempts p c \<le> int attempt")
    case True
    then show ?thesis by (simp add: decide_def)
  next
    case False
    then have more: "attempt < nat (rt_maxAttempts p c)" by simp
    with Suc.IH [of "Suc attempt"] Suc.prems obtain ds where ds: "retries fuel random p c (Suc attempt) = Some ds"
      "length ds = nat (rt_maxAttempts p c) - Suc attempt" "\<forall>d\<in>set ds. 0 \<le> d \<and> of_int d \<le> rt_maxDelayMs p" by auto
    have "0 \<le> computeDelay (random attempt) p attempt" "of_int (computeDelay (random attempt) p attempt) \<le> rt_maxDelayMs p"
      using computeDelay_bounds assms(1-4) by blast+
    with ds more False show ?thesis by (simp add: decide_def)
  qed
qed simp

text \<open>Retrying ends: a job that always fails is retried exactly \<open>maxAttempts\<close> times of its class and then
  refused, and every delay lies between zero and the configured cap, whatever the random source.\<close>

theorem retries_are_bounded:
  assumes "\<forall>k. 0 \<le> random k \<and> random k < 1" "0 \<le> rt_baseDelayMs p" "0 \<le> rt_backoffMultiplier p" "0 \<le> rt_maxDelayMs p"
    "nat (rt_maxAttempts p c) < fuel"
  shows "\<exists>ds. retries fuel random p c 0 = Some ds \<and> length ds = nat (rt_maxAttempts p c) \<and>
    (\<forall>d\<in>set ds. 0 \<le> d \<and> of_int d \<le> rt_maxDelayMs p)"
  using retries_from [OF assms(1-4), of c fuel 0] assms(5) by auto

lemma retries_are_bounded_witness:
  "\<exists>ds. retries 11 (\<lambda>k. 1/2) (newRetryPolicy \<lparr>rc_baseDelayMs = None, rc_maxDelayMs = None,
     rc_maxAttempts = (\<lambda>p. None), rc_backoffMultiplier = None, rc_jitter = None\<rparr>) Critical 0 = Some ds \<and> length ds = 10"
  using retries_are_bounded [of "\<lambda>k. 1/2" "newRetryPolicy \<lparr>rc_baseDelayMs = None, rc_maxDelayMs = None,
     rc_maxAttempts = (\<lambda>p. None), rc_backoffMultiplier = None, rc_jitter = None\<rparr>" Critical 11]
  by (auto simp: newRetryPolicy_def)

end
