(* ===== verification/RateLimits.thy ===== *)
theory RateLimits
  imports Complex_Main Prelude
begin

text \<open>
  The two rate limiters: the token bucket of \<^verbatim>\<open>backend/services/shared/tokenBucket.ts\<close> with exact
  rational tokens, and the per-service job limiter of \<^verbatim>\<open>backend/shared/queue/jobRateLimiter.ts\<close>.
  The injected clocks are the argument \<open>now\<close>, in milliseconds.
\<close>

section \<open>Token bucket\<close>

record TokenBucket =
  tb_tokens :: rat
  tb_lastRefillAt :: int
  tb_capacity :: rat
  tb_rate :: rat

datatype bucket_error = BadCapacity | BadRefillRate

definition newTokenBucket :: "int \<Rightarrow> rat \<Rightarrow> rat \<Rightarrow> rat option \<Rightarrow> bucket_error + TokenBucket" where
  "newTokenBucket now capacity rate initialTokens =
     (if capacity \<le> 0 then Inl BadCapacity
      else if rate \<le> 0 then Inl BadRefillRate
      else Inr \<lparr>tb_tokens = (case initialTokens of None \<Rightarrow> capacity | Some n \<Rightarrow> n), tb_lastRefillAt = now,
                tb_capacity = capacity, tb_rate = rate\<rparr>)"

definition refill :: "int \<Rightarrow> TokenBucket \<Rightarrow> TokenBucket" where
  "refill ts b =
     (let elapsedMs = ts - tb_lastRefillAt b
      in if 0 < elapsedMs
         then b\<lparr>tb_tokens := min (tb_capacity b) (tb_tokens b + (of_int elapsedMs / 1000) * tb_rate b),
                tb_lastRefillAt := ts\<rparr>
         else b)"

record ConsumeResult =
  cr_allowed :: bool
  cr_remaining :: rat
  cr_retryAfterMs :: int

definition tryConsume :: "int \<Rightarrow> rat \<Rightarrow> TokenBucket \<Rightarrow> ConsumeResult \<times> TokenBucket" where
  "tryConsume now cost b0 =
     (let b = refill now b0
      in if cost \<le> tb_tokens b
         then (let b1 = b\<lparr>tb_tokens := tb_tokens b - cost\<rparr>
               in (\<lparr>cr_allowed = True, cr_remaining = tb_tokens b1, cr_retryAfterMs = 0\<rparr>, b1))
         else (let deficit = cost - tb_tokens b;
                   retryAfterMs = \<lceil>(deficit / tb_rate b) * 1000\<rceil>
               in (\<lparr>cr_allowed = False, cr_remaining = tb_tokens b, cr_retryAfterMs = retryAfterMs\<rparr>, b)))"

definition getRemaining :: "int \<Rightarrow> TokenBucket \<Rightarrow> int \<times> TokenBucket" where
  "getRemaining now b = (let b1 = refill now b in (\<lfloor>tb_tokens b1\<rfloor>, b1))"

text \<open>The capacity is replaced before a bad rate is refused.\<close>

definition reconfigure :: "int \<Rightarrow> rat option \<Rightarrow> rat option \<Rightarrow> TokenBucket \<Rightarrow> bucket_error option \<times> TokenBucket" where
  "reconfigure now capacity rate b0 =
     (let b = refill now b0
      in case (case capacity of
                 None \<Rightarrow> Inr b
               | Some c \<Rightarrow> if c \<le> 0 then Inl BadCapacity
                   else Inr (b\<lparr>tb_capacity := c, tb_tokens := min (tb_tokens b) c\<rparr>)) of
           Inl e \<Rightarrow> (Some e, b)
         | Inr b1 \<Rightarrow>
             (case rate of
                None \<Rightarrow> (None, b1)
              | Some r \<Rightarrow> if r \<le> 0 then (Some BadRefillRate, b1) else (None, b1\<lparr>tb_rate := r\<rparr>)))"

definition setTokens :: "int \<Rightarrow> rat \<Rightarrow> TokenBucket \<Rightarrow> TokenBucket" where
  "setTokens now tokens b = b\<lparr>tb_tokens := max 0 (min (tb_capacity b) tokens), tb_lastRefillAt := now\<rparr>"

definition bucket_snapshot :: "int \<Rightarrow> TokenBucket \<Rightarrow> TokenBucket" where
  "bucket_snapshot now b = refill now b"

definition refillRateFromHourlyLimit :: "rat \<Rightarrow> rat" where
  "refillRateFromHourlyLimit hourlyLimit = max (hourlyLimit / 3600) (1 / 1000)"

section \<open>Job rate limiter\<close>

record Bucket =
  bk_requestsPerWindow :: int
  bk_windowMs :: int
  bk_label :: string
  bk_windowStart :: int
  bk_windowCount :: int
  bk_throttledCount :: int

type_synonym JobRateLimiter = "Bucket obj"

definition limiter_register :: "int \<Rightarrow> string \<Rightarrow> int \<Rightarrow> int option \<Rightarrow> string option \<Rightarrow> JobRateLimiter \<Rightarrow> JobRateLimiter" where
  "limiter_register now service requestsPerWindow windowMs label m =
     (let existing = map_of m service
      in AList.update service
           \<lparr>bk_requestsPerWindow = requestsPerWindow,
            bk_windowMs = (case windowMs of None \<Rightarrow> 1000 | Some w \<Rightarrow> w),
            bk_label = (case label of None \<Rightarrow> service | Some l \<Rightarrow> l),
            bk_windowStart = (case existing of None \<Rightarrow> now | Some b \<Rightarrow> bk_windowStart b),
            bk_windowCount = (case existing of None \<Rightarrow> 0 | Some b \<Rightarrow> bk_windowCount b),
            bk_throttledCount = (case existing of None \<Rightarrow> 0 | Some b \<Rightarrow> bk_throttledCount b)\<rparr> m)"

text \<open>\<open>remaining\<close> is \<open>None\<close> for \<open>Infinity\<close>.\<close>

record RateLimitDecision =
  ld_allowed :: bool
  ld_remaining :: "int option"
  ld_retryAfterMs :: int
  ld_windowCount :: int
  ld_service :: string

definition slide_window :: "int \<Rightarrow> Bucket \<Rightarrow> Bucket" where
  "slide_window now b =
     (if bk_windowMs b \<le> now - bk_windowStart b then b\<lparr>bk_windowStart := now, bk_windowCount := 0\<rparr> else b)"

definition limiter_check :: "int \<Rightarrow> string \<Rightarrow> JobRateLimiter \<Rightarrow> RateLimitDecision \<times> JobRateLimiter" where
  "limiter_check now service m =
     (case map_of m service of
        None \<Rightarrow> (\<lparr>ld_allowed = True, ld_remaining = None, ld_retryAfterMs = 0, ld_windowCount = 0,
                  ld_service = service\<rparr>, m)
      | Some b0 \<Rightarrow>
          (let b = slide_window now b0;
               remaining = bk_requestsPerWindow b - bk_windowCount b
           in if remaining \<le> 0
              then (\<lparr>ld_allowed = False, ld_remaining = Some 0,
                     ld_retryAfterMs = max 0 (bk_windowStart b + bk_windowMs b - now),
                     ld_windowCount = bk_windowCount b, ld_service = service\<rparr>,
                    AList.update service (b\<lparr>bk_throttledCount := bk_throttledCount b + 1\<rparr>) m)
              else (\<lparr>ld_allowed = True, ld_remaining = Some (remaining - 1), ld_retryAfterMs = 0,
                     ld_windowCount = bk_windowCount b + 1, ld_service = service\<rparr>,
                    AList.update service (b\<lparr>bk_windowCount := bk_windowCount b + 1\<rparr>) m)))"

record RateLimitStats =
  ls_service :: string
  ls_label :: string
  ls_requestsPerWindow :: int
  ls_windowMs :: int
  ls_windowCount :: int
  ls_remaining :: int
  ls_throttledCount :: int
  ls_windowResetsAt :: int

definition limiter_getStats :: "int \<Rightarrow> JobRateLimiter \<Rightarrow> RateLimitStats list" where
  "limiter_getStats now m = map (\<lambda>(service, b).
     let windowActive = now - bk_windowStart b < bk_windowMs b
     in \<lparr>ls_service = service, ls_label = bk_label b, ls_requestsPerWindow = bk_requestsPerWindow b,
         ls_windowMs = bk_windowMs b, ls_windowCount = (if windowActive then bk_windowCount b else 0),
         ls_remaining = (if windowActive then max 0 (bk_requestsPerWindow b - bk_windowCount b)
                         else bk_requestsPerWindow b),
         ls_throttledCount = bk_throttledCount b, ls_windowResetsAt = bk_windowStart b + bk_windowMs b\<rparr>) m"

definition reset_bucket :: "int \<Rightarrow> Bucket \<Rightarrow> Bucket" where
  "reset_bucket now b = b\<lparr>bk_windowStart := now, bk_windowCount := 0, bk_throttledCount := 0\<rparr>"

definition limiter_reset :: "int \<Rightarrow> string \<Rightarrow> JobRateLimiter \<Rightarrow> JobRateLimiter" where
  "limiter_reset now service m =
     (case map_of m service of None \<Rightarrow> m | Some b \<Rightarrow> AList.update service (reset_bucket now b) m)"

definition limiter_resetAll :: "int \<Rightarrow> JobRateLimiter \<Rightarrow> JobRateLimiter" where
  "limiter_resetAll now m = map (\<lambda>(k, b). (k, reset_bucket now b)) m"

definition createDefaultJobRateLimiter :: "int \<Rightarrow> JobRateLimiter" where
  "createDefaultJobRateLimiter now =
     limiter_register now ''blockchain-rpc'' 30 (Some 1000) (Some ''Blockchain RPC'')
       (limiter_register now ''expo-push'' 900 (Some 1000) (Some ''Expo Push'')
         (limiter_register now ''twilio'' 80 (Some 1000) (Some ''Twilio SMS'')
           (limiter_register now ''sendgrid'' 550 (Some 60000) (Some ''SendGrid Email'')
             (limiter_register now ''stripe'' 90 (Some 1000) (Some ''Stripe API'') []))))"

section \<open>Bucket laws\<close>

definition bucket_ok :: "TokenBucket \<Rightarrow> bool" where
  "bucket_ok b \<longleftrightarrow> 0 \<le> tb_tokens b \<and> tb_tokens b \<le> tb_capacity b \<and> 0 < tb_rate b"

lemma refill_facts:
  assumes "bucket_ok b"
  shows "bucket_ok (refill now b)" "tb_capacity (refill now b) = tb_capacity b" "tb_rate (refill now b) = tb_rate b"
    "tb_lastRefillAt (refill now b) = max now (tb_lastRefillAt b)"
    "tb_tokens (refill now b) \<le> tb_tokens b + of_int (max now (tb_lastRefillAt b) - tb_lastRefillAt b) / 1000 * tb_rate b"
proof -
  have "0 < now - tb_lastRefillAt b \<Longrightarrow> 0 \<le> of_int (now - tb_lastRefillAt b) / 1000 * tb_rate b"
    using assms by (intro mult_nonneg_nonneg) (auto simp: bucket_ok_def)
  then show "bucket_ok (refill now b)" "tb_capacity (refill now b) = tb_capacity b" "tb_rate (refill now b) = tb_rate b"
    "tb_lastRefillAt (refill now b) = max now (tb_lastRefillAt b)"
    "tb_tokens (refill now b) \<le> tb_tokens b + of_int (max now (tb_lastRefillAt b) - tb_lastRefillAt b) / 1000 * tb_rate b"
    using assms by (auto simp: bucket_ok_def refill_def Let_def max_def)
qed

text \<open>A run of attempts: the cost of those allowed, and the bucket after.\<close>

fun consume_run :: "TokenBucket \<Rightarrow> (int \<times> rat) list \<Rightarrow> rat \<times> TokenBucket" where
  "consume_run b [] = (0, b)"
| "consume_run b ((now, cost) # rs) =
     (case tryConsume now cost b of (res, b1) \<Rightarrow>
        (case consume_run b1 rs of (spent, b2) \<Rightarrow> ((if cr_allowed res then cost else 0) + spent, b2)))"

lemma tryConsume_facts:
  assumes "bucket_ok b" "0 \<le> cost" "tryConsume now cost b = (res, b1)"
  shows "bucket_ok b1 \<and> tb_rate b1 = tb_rate b \<and> tb_capacity b1 = tb_capacity b \<and>
    tb_lastRefillAt b1 = max now (tb_lastRefillAt b) \<and>
    (if cr_allowed res then cost else 0) + tb_tokens b1 \<le>
      tb_tokens b + of_int (tb_lastRefillAt b1 - tb_lastRefillAt b) / 1000 * tb_rate b"
  using refill_facts [OF assms(1), of now] assms(2,3)
  by (auto simp: tryConsume_def Let_def bucket_ok_def split: if_splits)

section \<open>Properties\<close>

text \<open>C36: The token bucket enforces its rate: whatever the attempts, their costs and the clock (even one that
  goes back), what is allowed in total is at most the tokens there were plus the refill rate times the
  time that passed, so never more than the capacity in a burst; and the tokens stay between zero and
  the capacity.\<close>

theorem token_bucket_rate_bound:
  assumes "bucket_ok b" "\<forall>(now, cost)\<in>set rs. 0 \<le> cost" "consume_run b rs = (spent, b')"
  shows "spent + tb_tokens b' \<le> tb_tokens b + of_int (tb_lastRefillAt b' - tb_lastRefillAt b) / 1000 * tb_rate b \<and>
    tb_lastRefillAt b' = fold max (map fst rs) (tb_lastRefillAt b) \<and>
    0 \<le> tb_tokens b' \<and> tb_tokens b' \<le> tb_capacity b"
proof -
  have "bucket_ok b' \<and> tb_rate b' = tb_rate b \<and> tb_capacity b' = tb_capacity b \<and>
    tb_lastRefillAt b' = fold max (map fst rs) (tb_lastRefillAt b) \<and>
    spent + tb_tokens b' \<le> tb_tokens b + of_int (tb_lastRefillAt b' - tb_lastRefillAt b) / 1000 * tb_rate b"
    using assms
  proof (induction rs arbitrary: b spent)
    case Nil
    then show ?case by simp
  next
    case (Cons r rs)
    obtain now cost where r: "r = (now, cost)" by (cases r)
    obtain res b1 where c: "tryConsume now cost b = (res, b1)" by (cases "tryConsume now cost b")
    obtain t b2 where rest: "consume_run b1 rs = (t, b2)" by (cases "consume_run b1 rs")
    have F: "bucket_ok b1" "tb_rate b1 = tb_rate b" "tb_capacity b1 = tb_capacity b"
      "tb_lastRefillAt b1 = max now (tb_lastRefillAt b)"
      "(if cr_allowed res then cost else 0) + tb_tokens b1 \<le>
        tb_tokens b + of_int (tb_lastRefillAt b1 - tb_lastRefillAt b) / 1000 * tb_rate b"
      using tryConsume_facts [OF Cons.prems(1) _ c] Cons.prems(2) r by auto
    have eq: "spent = (if cr_allowed res then cost else 0) + t" "b' = b2" using Cons.prems(3) r c rest by auto
    have IH: "bucket_ok b' \<and> tb_rate b' = tb_rate b1 \<and> tb_capacity b' = tb_capacity b1 \<and>
      tb_lastRefillAt b' = fold max (map fst rs) (tb_lastRefillAt b1) \<and>
      t + tb_tokens b' \<le> tb_tokens b1 + of_int (tb_lastRefillAt b' - tb_lastRefillAt b1) / 1000 * tb_rate b1"
      by (rule Cons.IH [OF F(1) _ rest [folded eq(2)]]) (use Cons.prems(2) in simp)
    have "spent + tb_tokens b' \<le> tb_tokens b + of_int (tb_lastRefillAt b1 - tb_lastRefillAt b) / 1000 * tb_rate b +
        of_int (tb_lastRefillAt b' - tb_lastRefillAt b1) / 1000 * tb_rate b"
      using IH [THEN conjunct2, THEN conjunct2, THEN conjunct2, THEN conjunct2, unfolded F(2)] F(5)
      unfolding eq(1) by linarith
    also have "\<dots> = tb_tokens b + of_int (tb_lastRefillAt b' - tb_lastRefillAt b) / 1000 * tb_rate b"
      by (simp add: field_simps)
    finally have bound: "spent + tb_tokens b' \<le> tb_tokens b + of_int (tb_lastRefillAt b' - tb_lastRefillAt b) / 1000 * tb_rate b" .
    have "tb_lastRefillAt b' = fold max (map fst (r # rs)) (tb_lastRefillAt b)" using IH F(4) r by simp
    with IH F(2,3) bound show ?case by (simp only: simp_thms)
  qed
  then show ?thesis unfolding bucket_ok_def by metis
qed

definition demo_bucket :: TokenBucket where
  "demo_bucket = \<lparr>tb_tokens = 2, tb_lastRefillAt = 0, tb_capacity = 2, tb_rate = 1\<rparr>"

lemma token_bucket_rate_bound_witness:
  "fst (consume_run demo_bucket [(0, 1), (0, 1), (0, 1), (500, 1), (1000, 1)]) \<le> 3"
proof -
  let ?rs = "[(0, 1), (0, 1), (0, 1), (500, 1), (1000, 1)] :: (int \<times> rat) list"
  obtain spent b' where run: "consume_run demo_bucket ?rs = (spent, b')" by (cases "consume_run demo_bucket ?rs")
  have "bucket_ok demo_bucket" by (simp add: bucket_ok_def demo_bucket_def)
  from token_bucket_rate_bound [OF this _ run] have
    "spent + tb_tokens b' \<le> 2 + of_int (tb_lastRefillAt b') / 1000" "tb_lastRefillAt b' = 1000" "0 \<le> tb_tokens b'"
    by (simp_all add: demo_bucket_def)
  then show ?thesis using run by simp
qed

text \<open>The retry hint is exact: when an attempt that the bucket could ever hold is refused, the same attempt
  is still refused at every instant before \<open>retryAfterMs\<close> has passed and allowed at every instant from
  then on, if nothing else is consumed in between.\<close>

theorem retry_hint_is_exact:
  assumes "bucket_ok b" "tb_lastRefillAt b \<le> now" "0 \<le> cost" "cost \<le> tb_capacity b"
    "tryConsume now cost b = (res, b1)" "\<not> cr_allowed res" "now \<le> later"
  shows "cr_allowed (fst (tryConsume later cost b1)) \<longleftrightarrow> now + cr_retryAfterMs res \<le> later"
proof -
  note R = refill_facts [OF assms(1), of now]
  have b1: "b1 = refill now b" "tb_tokens b1 < cost"
    "cr_retryAfterMs res = \<lceil>(cost - tb_tokens b1) / tb_rate b1 * 1000\<rceil>"
    using assms(5,6) by (auto simp: tryConsume_def Let_def split: if_splits)
  have ok: "bucket_ok b1" "0 < tb_rate b1" "tb_capacity b1 = tb_capacity b" "tb_lastRefillAt b1 = now"
    using R assms(1,2) b1(1) by (auto simp: bucket_ok_def)
  let ?e = "of_int (later - now) :: rat"
  have "cr_allowed (fst (tryConsume later cost b1)) \<longleftrightarrow> cost \<le> tb_tokens (refill later b1)"
    by (simp add: tryConsume_def Let_def)
  also have "\<dots> \<longleftrightarrow> cost \<le> tb_tokens b1 + ?e / 1000 * tb_rate b1"
    using assms(4,7) b1(2) ok(3,4) by (auto simp: refill_def Let_def)
  also have "\<dots> \<longleftrightarrow> (cost - tb_tokens b1) / tb_rate b1 * 1000 \<le> ?e"
    using ok(2) by (simp add: field_simps)
  also have "\<dots> \<longleftrightarrow> cr_retryAfterMs res \<le> later - now" by (simp add: b1(3) ceiling_le_iff)
  finally show ?thesis by auto
qed

lemma retry_hint_is_exact_witness:
  "\<not> cr_allowed (fst (tryConsume 999 1 (demo_bucket\<lparr>tb_tokens := 0\<rparr>)))"
proof -
  let ?b = "demo_bucket\<lparr>tb_tokens := 0\<rparr>"
  have ok: "bucket_ok ?b" by (simp add: bucket_ok_def demo_bucket_def)
  have c: "tryConsume 0 1 ?b = (\<lparr>cr_allowed = False, cr_remaining = 0, cr_retryAfterMs = 1000\<rparr>, ?b)"
    by (simp add: tryConsume_def refill_def demo_bucket_def Let_def)
  from retry_hint_is_exact [OF ok _ _ _ c, of 999] show ?thesis by (simp add: demo_bucket_def)
qed

text \<open>Checks of one service at the given times: how many were allowed.\<close>

fun check_all :: "string \<Rightarrow> int list \<Rightarrow> JobRateLimiter \<Rightarrow> nat \<times> JobRateLimiter" where
  "check_all service [] m = (0, m)"
| "check_all service (t # ts) m =
     (case limiter_check t service m of (d, m1) \<Rightarrow>
        (case check_all service ts m1 of (n, m2) \<Rightarrow> ((if ld_allowed d then 1 else 0) + n, m2)))"

lemma check_in_window:
  assumes "map_of m service = Some b" "bk_windowCount b \<le> bk_requestsPerWindow b" "0 \<le> bk_windowCount b"
    "\<forall>t\<in>set ts. bk_windowStart b \<le> t \<and> t < bk_windowStart b + bk_windowMs b"
  shows "\<exists>b'. check_all service ts m = (min (length ts) (nat (bk_requestsPerWindow b - bk_windowCount b)), snd (check_all service ts m)) \<and>
    map_of (snd (check_all service ts m)) service = Some b' \<and> bk_requestsPerWindow b' = bk_requestsPerWindow b \<and>
    bk_windowMs b' = bk_windowMs b \<and> bk_windowStart b' = bk_windowStart b \<and> 0 \<le> bk_windowCount b' \<and>
    bk_windowCount b' \<le> bk_requestsPerWindow b'"
  using assms
proof (induction ts arbitrary: m b)
  case Nil
  then show ?case by simp
next
  case (Cons t ts)
  have slide: "slide_window t b = b" using Cons.prems(4) by (auto simp: slide_window_def)
  show ?case
  proof (cases "bk_requestsPerWindow b - bk_windowCount b \<le> 0")
    case True
    let ?b = "b\<lparr>bk_throttledCount := bk_throttledCount b + 1\<rparr>"
    have c: "limiter_check t service m = (\<lparr>ld_allowed = False, ld_remaining = Some 0,
        ld_retryAfterMs = max 0 (bk_windowStart b + bk_windowMs b - t), ld_windowCount = bk_windowCount b,
        ld_service = service\<rparr>, AList.update service ?b m)"
      using True Cons.prems(1) slide by (simp add: limiter_check_def Let_def)
    from Cons.IH [of "AList.update service ?b m" ?b] Cons.prems True show ?thesis
      by (cases "check_all service ts (AList.update service ?b m)") (auto simp: c)
  next
    case False
    let ?b = "b\<lparr>bk_windowCount := bk_windowCount b + 1\<rparr>"
    have c: "limiter_check t service m = (\<lparr>ld_allowed = True, ld_remaining = Some (bk_requestsPerWindow b - bk_windowCount b - 1),
        ld_retryAfterMs = 0, ld_windowCount = bk_windowCount b + 1,
        ld_service = service\<rparr>, AList.update service ?b m)"
      using False Cons.prems(1) slide by (simp add: limiter_check_def Let_def)
    have "nat (bk_requestsPerWindow b - bk_windowCount b) = Suc (nat (bk_requestsPerWindow b - (bk_windowCount b + 1)))"
      using False by simp
    with Cons.IH [of "AList.update service ?b m" ?b] Cons.prems False show ?thesis
      by (cases "check_all service ts (AList.update service ?b m)") (auto simp: c)
  qed
qed

lemma check_all_append:
  "check_all service (as @ bs) m =
     (fst (check_all service as m) + fst (check_all service bs (snd (check_all service as m))),
      snd (check_all service bs (snd (check_all service as m))))"
  by (induction as arbitrary: m) (auto simp: case_prod_unfold)

lemma check_next_window:
  assumes "map_of m service = Some b" "bk_windowStart b + bk_windowMs b \<le> t" "0 < bk_requestsPerWindow b" "0 < bk_windowMs b"
  shows "fst (check_all service (replicate (Suc k) t) m) = min (Suc k) (nat (bk_requestsPerWindow b))"
proof -
  let ?b = "b\<lparr>bk_windowStart := t, bk_windowCount := 1\<rparr>"
  have "slide_window t b = b\<lparr>bk_windowStart := t, bk_windowCount := 0\<rparr>" using assms(2) by (simp add: slide_window_def)
  then have c: "limiter_check t service m = (\<lparr>ld_allowed = True, ld_remaining = Some (bk_requestsPerWindow b - 1),
        ld_retryAfterMs = 0, ld_windowCount = 1, ld_service = service\<rparr>, AList.update service ?b m)"
    using assms(1,3) by (simp add: limiter_check_def Let_def)
  have "\<forall>x\<in>set (replicate k t). bk_windowStart ?b \<le> x \<and> x < bk_windowStart ?b + bk_windowMs ?b"
    using assms(4) by auto
  from check_in_window [OF _ _ _ this, of "AList.update service ?b m" service] assms(3)
  have "fst (check_all service (replicate k t) (AList.update service ?b m)) = min k (nat (bk_requestsPerWindow b - 1))"
    by (auto simp: prod_eq_iff)
  moreover have "nat (bk_requestsPerWindow b) = Suc (nat (bk_requestsPerWindow b - 1))" using assms(3) by simp
  ultimately show ?thesis by (simp add: c case_prod_unfold)
qed

text \<open>The job limiter counts fixed windows: of any checks within one window exactly the first \<open>n\<close> are
  allowed, but \<open>n\<close> checks in a window's last millisecond and \<open>n\<close> more in the next one are all allowed,
  twice the limit within two milliseconds, although the file describes a sliding window.\<close>

theorem job_limiter_fixed_window:
  assumes "map_of m service = Some b" "bk_requestsPerWindow b = int n" "0 < n" "0 < bk_windowMs b" "bk_windowCount b = 0"
  shows "(\<forall>ts. (\<forall>t\<in>set ts. bk_windowStart b \<le> t \<and> t < bk_windowStart b + bk_windowMs b) \<longrightarrow>
      fst (check_all service ts m) = min (length ts) n) \<and>
    fst (check_all service (replicate n (bk_windowStart b + bk_windowMs b - 1) @
      replicate n (bk_windowStart b + bk_windowMs b)) m) = 2 * n"
proof -
  let ?s = "bk_windowStart b" and ?w = "bk_windowMs b"
  have win: "fst (check_all service ts m) = min (length ts) n"
    if "\<forall>t\<in>set ts. ?s \<le> t \<and> t < ?s + ?w" for ts
    using check_in_window [OF assms(1) _ _ that] assms(2,5) by (auto simp: prod_eq_iff)
  let ?a = "replicate n (?s + ?w - 1)"
  have "\<forall>t\<in>set ?a. ?s \<le> t \<and> t < ?s + ?w" using assms(4) by auto
  note in_a = this
  from check_in_window [OF assms(1) _ _ this] assms(2,5) obtain b' where
    b': "map_of (snd (check_all service ?a m)) service = Some b'" "bk_requestsPerWindow b' = int n" "bk_windowMs b' = ?w"
    "bk_windowStart b' = ?s" by auto
  obtain k where k: "n = Suc k" using assms(3) by (cases n) auto
  have "fst (check_all service (replicate n (?s + ?w)) (snd (check_all service ?a m))) = n"
    using check_next_window [OF b'(1), of "?s + ?w" k] b' assms(3,4) by (simp add: k del: replicate_Suc)
  moreover have "fst (check_all service ?a m) = n" using win [OF in_a] by simp
  ultimately show ?thesis using win by (simp add: check_all_append)
qed

lemma job_limiter_fixed_window_witness:
  "fst (check_all ''twilio'' (replicate 80 (5 + 1000 - 1) @ replicate 80 (5 + 1000)) (createDefaultJobRateLimiter 5)) = 160"
proof -
  have "map_of (createDefaultJobRateLimiter 5) ''twilio'' = Some \<lparr>bk_requestsPerWindow = 80, bk_windowMs = 1000,
      bk_label = ''Twilio SMS'', bk_windowStart = 5, bk_windowCount = 0, bk_throttledCount = 0\<rparr>"
    by (simp add: createDefaultJobRateLimiter_def limiter_register_def Let_def)
  from job_limiter_fixed_window [OF this, of 80, THEN conjunct2] show ?thesis by simp
qed

end
