(* ===== verification/AtomicBatch.thy ===== *)
theory AtomicBatch
  imports Prelude "HOL-Library.Word"
begin

unbundle bit_operations_syntax

text \<open>
  Atomic batches of subscription operations, \<^verbatim>\<open>app/services/atomicBatchService.ts\<close>: validation,
  the idempotency key, and the executor with its snapshot, execution and rollback phases. The three
  callbacks belong to the caller: they are functions on an arbitrary world \<open>'w\<close>. A callback that
  throws answers the message the code would record; an execution that loses the race against its
  timeout answers the timeout message, with whatever effect it has had. Instants stand for the ISO
  strings, and the progress callback only observes.
\<close>

section \<open>Types\<close>

datatype BatchOperationType = OpCreate | OpUpdate | OpCharge | OpCancel

fun operation_name :: "BatchOperationType \<Rightarrow> string" where
  "operation_name OpCreate = ''create''"
| "operation_name OpUpdate = ''update''"
| "operation_name OpCharge = ''charge''"
| "operation_name OpCancel = ''cancel''"

datatype AtomicBatchStatus = Idle | Validating | Snapshotting | Executing | Committing | RollingBack
  | Committed | RolledBack | Failed

record 'p AtomicBatchItem =
  ab_id :: string
  ab_subscriptionId :: string
  ab_operation :: BatchOperationType
  ab_payload :: 'p

record 'n AtomicItemResult =
  ir_id :: string
  ir_subscriptionId :: string
  ir_success :: bool
  ir_error :: "string option"
  ir_snapshot :: "'n option"
  ir_executedAt :: "int option"

record 'n AtomicBatchReport =
  br_batchId :: string
  br_idempotencyKey :: string
  br_status :: AtomicBatchStatus
  br_items :: "'n AtomicItemResult list"
  br_totalItems :: nat
  br_succeededItems :: nat
  br_failedItems :: nat
  br_rolledBackItems :: nat
  br_startedAt :: int
  br_completedAt :: int
  br_durationMs :: "int option"
  br_rollbackReason :: "string option"

section \<open>Validation\<close>

record AtomicBatchValidationResult =
  va_valid :: bool
  va_errors :: "string list"
  va_warnings :: "string list"

text \<open>The white space \<open>trim\<close> removes, among the characters of the model.\<close>

definition js_blank :: "string \<Rightarrow> bool" where
  "js_blank s \<longleftrightarrow> list_all (\<lambda>c. c \<in> {CHR 0x09, CHR 0x0A, CHR 0x0B, CHR 0x0C, CHR 0x0D, CHR '' '', CHR 0xA0}) s"

definition validate_item :: "'p AtomicBatchItem \<Rightarrow> string list \<times> string list \<times> string list
    \<Rightarrow> string list \<times> string list \<times> string list" where
  "validate_item item = (\<lambda>(seen, errors, warnings).
     (ab_subscriptionId item # seen,
      errors @ (if js_blank (ab_subscriptionId item)
        then [''Item '' @ ab_id item @ '': subscriptionId must not be empty.''] else []),
      warnings @ (if ab_subscriptionId item \<in> set seen
        then [''Item '' @ ab_id item @ '': duplicate subscriptionId \"'' @ ab_subscriptionId item @
              ''\" - may cause conflicts in atomic mode.''] else [])))"

definition validateAtomicBatch :: "'p AtomicBatchItem list \<Rightarrow> AtomicBatchValidationResult" where
  "validateAtomicBatch items =
     (let e0 = (if items = [] then [''Batch must contain at least one item.''] else []) @
               (if 100 < length items
                then [''Batch cannot exceed 100 items (Soroban on-chain hard limit).''] else [])
      in case fold validate_item items ([], e0, []) of (_, errors, warnings) \<Rightarrow>
        (let ops = map ab_operation items;
             w = warnings @ (if OpCreate \<in> set ops \<and> OpCancel \<in> set ops
               then [''Mixing \"create\" and \"cancel\" operations in a single atomic batch is unusual; verify intent.'']
               else [])
         in \<lparr>va_valid = (errors = []), va_errors = errors, va_warnings = w\<rparr>))"

section \<open>Idempotency key\<close>

definition key_payload :: "'p AtomicBatchItem list \<Rightarrow> string" where
  "key_payload items =
     js_join ''|'' (map (\<lambda>i. ab_subscriptionId i @ '':'' @ operation_name (ab_operation i)) items)"

text \<open>The djb2 step on 32-bit integers: \<open>((hash << 5) + hash) ^ c\<close>.\<close>

definition djb2_step :: "char \<Rightarrow> 32 word \<Rightarrow> 32 word" where
  "djb2_step c hash = (push_bit 5 hash + hash) XOR word_of_nat (of_char c)"

definition djb2 :: "string \<Rightarrow> 32 word" where
  "djb2 payload = fold djb2_step payload 5381"

definition hex_digit :: "nat \<Rightarrow> char" where
  "hex_digit d = ''0123456789abcdef'' ! d"

fun show_hex :: "nat \<Rightarrow> string" where
  "show_hex n = (if n < 16 then [hex_digit n] else show_hex (n div 16) @ [hex_digit (n mod 16)])"

declare show_hex.simps [simp del]

definition padStart :: "nat \<Rightarrow> char \<Rightarrow> string \<Rightarrow> string" where
  "padStart n c s = replicate (n - length s) c @ s"

definition deriveIdempotencyKey :: "'p AtomicBatchItem list \<Rightarrow> string" where
  "deriveIdempotencyKey items = ''batch_'' @ padStart 8 (CHR ''0'') (show_hex (unat (djb2 (key_payload items))))"

section \<open>The executor\<close>

text \<open>Phase 1: a snapshot of every item; in atomic mode the first failure ends the batch.\<close>

fun snapshot_phase :: "bool \<Rightarrow> ('p AtomicBatchItem \<Rightarrow> 'w \<Rightarrow> (string + 'n) \<times> 'w) \<Rightarrow> 'p AtomicBatchItem list
    \<Rightarrow> 'n AtomicItemResult list \<Rightarrow> 'n obj \<Rightarrow> 'w \<Rightarrow> bool \<times> 'n AtomicItemResult list \<times> 'n obj \<times> 'w" where
  "snapshot_phase failFast snapshot [] results snapshots w = (False, results, snapshots, w)"
| "snapshot_phase failFast snapshot (item # items) results snapshots w =
     (case snapshot item w of
        (Inr snap, w1) \<Rightarrow>
          snapshot_phase failFast snapshot items
            (results @ [\<lparr>ir_id = ab_id item, ir_subscriptionId = ab_subscriptionId item, ir_success = False,
               ir_error = None, ir_snapshot = Some snap, ir_executedAt = None\<rparr>])
            (AList.update (ab_id item) snap snapshots) w1
      | (Inl message, w1) \<Rightarrow>
          (let results1 = results @ [\<lparr>ir_id = ab_id item, ir_subscriptionId = ab_subscriptionId item,
                 ir_success = False, ir_error = Some message, ir_snapshot = None, ir_executedAt = None\<rparr>]
           in if failFast then (True, results1, snapshots, w1)
              else snapshot_phase failFast snapshot items results1 snapshots w1))"

definition set_result :: "nat option \<Rightarrow> ('n AtomicItemResult \<Rightarrow> 'n AtomicItemResult)
    \<Rightarrow> 'n AtomicItemResult list \<Rightarrow> 'n AtomicItemResult list" where
  "set_result i f results = (case i of None \<Rightarrow> results | Some k \<Rightarrow> results[k := f (results ! k)])"

text \<open>Phase 2: the items in order; \<open>at\<close> gives the instants. The reason of the first failure in atomic mode.\<close>

fun execute_phase :: "bool \<Rightarrow> ('p AtomicBatchItem \<Rightarrow> 'w \<Rightarrow> string option \<times> 'w) \<Rightarrow> (nat \<Rightarrow> int) \<Rightarrow> nat
    \<Rightarrow> 'p AtomicBatchItem list \<Rightarrow> 'n AtomicItemResult list \<Rightarrow> 'w
    \<Rightarrow> string option \<times> 'n AtomicItemResult list \<times> 'w" where
  "execute_phase failFast execute at k [] results w = (None, results, w)"
| "execute_phase failFast execute at k (item # items) results w =
     (let i = js_findIndex (\<lambda>r. ir_id r = ab_id item) results
      in case execute item w of
           (None, w1) \<Rightarrow>
             execute_phase failFast execute at (Suc k) items
               (set_result i (\<lambda>r. r\<lparr>ir_success := True, ir_executedAt := Some (at k)\<rparr>) results) w1
         | (Some error, w1) \<Rightarrow>
             (let results1 = set_result i (\<lambda>r. r\<lparr>ir_success := False, ir_error := Some error,
                    ir_executedAt := Some (at k)\<rparr>) results
              in if failFast then (Some error, results1, w1)
                 else execute_phase failFast execute at (Suc k) items results1 w1))"

text \<open>Phase 3: every item that succeeded is put back, in order; a failing rollback is skipped.\<close>

fun rollback_phase :: "('p AtomicBatchItem \<Rightarrow> 'n \<Rightarrow> 'w \<Rightarrow> bool \<times> 'w) \<Rightarrow> 'p AtomicBatchItem list \<Rightarrow> 'n obj
    \<Rightarrow> 'n AtomicItemResult list \<Rightarrow> 'w \<Rightarrow> 'w" where
  "rollback_phase rollback items snapshots [] w = w"
| "rollback_phase rollback items snapshots (result # results) w =
     rollback_phase rollback items snapshots results
       (if ir_success result
        then (case map_of snapshots (ir_id result) of
                None \<Rightarrow> w
              | Some snap \<Rightarrow> (case js_find (\<lambda>i. ab_id i = ir_id result) items of
                    None \<Rightarrow> w | Some item \<Rightarrow> snd (rollback item snap w)))
        else w)"

definition buildReport :: "string \<Rightarrow> string \<Rightarrow> AtomicBatchStatus \<Rightarrow> 'n AtomicItemResult list \<Rightarrow> int \<Rightarrow> int
    \<Rightarrow> string option \<Rightarrow> 'n AtomicBatchReport" where
  "buildReport batchId key status results startedAt completedAt reason =
     (let succeeded = length (filter ir_success results);
          failed = length (filter (\<lambda>r. \<not> ir_success r) results)
      in \<lparr>br_batchId = batchId, br_idempotencyKey = key, br_status = status, br_items = results,
          br_totalItems = length results, br_succeededItems = (if status = RolledBack then 0 else succeeded),
          br_failedItems = failed, br_rolledBackItems = (if status = RolledBack then succeeded else 0),
          br_startedAt = startedAt, br_completedAt = completedAt,
          br_durationMs = Some (completedAt - startedAt), br_rollbackReason = reason\<rparr>)"

definition refusal :: "string \<Rightarrow> string \<Rightarrow> nat \<Rightarrow> nat \<Rightarrow> int \<Rightarrow> int \<Rightarrow> string \<Rightarrow> 'n AtomicBatchReport" where
  "refusal batchId key n failed startedAt completedAt reason =
     \<lparr>br_batchId = batchId, br_idempotencyKey = key, br_status = Failed, br_items = [],
      br_totalItems = n, br_succeededItems = 0, br_failedItems = failed, br_rolledBackItems = 0,
      br_startedAt = startedAt, br_completedAt = completedAt, br_durationMs = None,
      br_rollbackReason = Some reason\<rparr>"

text \<open>The executor's state is the list of keys it has executed.\<close>

definition execute_batch :: "('p AtomicBatchItem \<Rightarrow> 'w \<Rightarrow> string option \<times> 'w)
    \<Rightarrow> ('p AtomicBatchItem \<Rightarrow> 'w \<Rightarrow> (string + 'n) \<times> 'w) \<Rightarrow> ('p AtomicBatchItem \<Rightarrow> 'n \<Rightarrow> 'w \<Rightarrow> bool \<times> 'w)
    \<Rightarrow> bool \<Rightarrow> (nat \<Rightarrow> int) \<Rightarrow> int \<Rightarrow> int \<Rightarrow> string \<Rightarrow> 'p AtomicBatchItem list \<Rightarrow> string list \<times> 'w
    \<Rightarrow> 'n AtomicBatchReport \<times> string list \<times> 'w" where
  "execute_batch execute snapshot rollback failFast at startedAt completedAt batchId items = (\<lambda>(keys, w).
     (let key = deriveIdempotencyKey items
      in if key \<in> set keys
         then (refusal batchId key (length items) 0 startedAt completedAt
                 ''Duplicate batch rejected (idempotency key already used in this session).'', keys, w)
         else if \<not> va_valid (validateAtomicBatch items)
         then (refusal batchId key (length items) (length items) startedAt completedAt
                 (js_join ''; '' (va_errors (validateAtomicBatch items))), keys, w)
         else
           (case snapshot_phase failFast snapshot items [] [] w of
              (True, results, _, w1) \<Rightarrow>
                (buildReport batchId key Failed results startedAt completedAt (Some ''Snapshot phase failed''), keys, w1)
            | (False, results, snapshots, w1) \<Rightarrow>
                (case execute_phase failFast execute at 0 items results w1 of
                   (reason, results1, w2) \<Rightarrow>
                     if reason \<notin> {None, Some ''''} \<and> failFast
                     then (buildReport batchId key RolledBack results1 startedAt completedAt reason,
                           keys @ (if key \<in> set keys then [] else [key]),
                           rollback_phase rollback items snapshots results1 w2)
                     else (buildReport batchId key Committed results1 startedAt completedAt None,
                           keys @ (if key \<in> set keys then [] else [key]), w2)))))"

text \<open>The callbacks of the hook \<open>useAtomicBatch\<close>: stubs that wait and change nothing.\<close>

definition stub_execute :: "'p AtomicBatchItem \<Rightarrow> 'w \<Rightarrow> string option \<times> 'w" where
  "stub_execute item w = (None, w)"

definition stub_snapshot :: "int \<Rightarrow> 'p AtomicBatchItem \<Rightarrow> 'w \<Rightarrow> (string + (string \<times> int)) \<times> 'w" where
  "stub_snapshot now item w = (Inr (ab_subscriptionId item, now), w)"

definition stub_rollback :: "'p AtomicBatchItem \<Rightarrow> string \<times> int \<Rightarrow> 'w \<Rightarrow> bool \<times> 'w" where
  "stub_rollback item snap w = (True, w)"

definition runAtomic :: "bool \<Rightarrow> (nat \<Rightarrow> int) \<Rightarrow> int \<Rightarrow> int \<Rightarrow> string \<Rightarrow> 'p AtomicBatchItem list \<Rightarrow> string list \<times> 'w
    \<Rightarrow> (string \<times> int) AtomicBatchReport \<times> string list \<times> 'w" where
  "runAtomic failFast at startedAt completedAt batchId items =
     execute_batch stub_execute (stub_snapshot startedAt) stub_rollback failFast at startedAt completedAt batchId items"

section \<open>Undoable operations\<close>

text \<open>
  What the executor relies on: a snapshot only looks, an execution touches only its own item and
  leaves no trace (and says why) when it fails, a rollback to a snapshot puts the item back to what
  it was. \<open>sel\<close> observes the item with an id in the world.
\<close>

definition undoable :: "('p AtomicBatchItem \<Rightarrow> 'w \<Rightarrow> string option \<times> 'w) \<Rightarrow> ('p AtomicBatchItem \<Rightarrow> 'w \<Rightarrow> (string + 'n) \<times> 'w)
    \<Rightarrow> ('p AtomicBatchItem \<Rightarrow> 'n \<Rightarrow> 'w \<Rightarrow> bool \<times> 'w) \<Rightarrow> (string \<Rightarrow> 'w \<Rightarrow> 's) \<Rightarrow> bool" where
  "undoable execute snapshot rollback sel \<longleftrightarrow>
     (\<forall>item w. snd (snapshot item w) = w) \<and>
     (\<forall>item w i. i \<noteq> ab_id item \<longrightarrow> sel i (snd (execute item w)) = sel i w) \<and>
     (\<forall>item w e i. fst (execute item w) = Some e \<longrightarrow> e \<noteq> '''' \<and> sel i (snd (execute item w)) = sel i w) \<and>
     (\<forall>item w0 n w i. fst (snapshot item w0) = Inr n \<longrightarrow>
        sel i (snd (rollback item n w)) = (if i = ab_id item then sel i w0 else sel i w))"

lemma snapshot_phase_facts:
  assumes "\<forall>item w. snd (snapshot item w) = w"
    "snapshot_phase True snapshot items results snaps w = (aborted, results', snaps', w')"
  shows "w' = w \<and> (\<not> aborted \<longrightarrow> map ir_id results' = map ir_id results @ map ab_id items \<and>
    (\<forall>r\<in>set results'. r \<in> set results \<or> \<not> ir_success r) \<and>
    (distinct (map ab_id items) \<longrightarrow> (\<forall>item\<in>set items. \<exists>n. map_of snaps' (ab_id item) = Some n \<and> fst (snapshot item w) = Inr n)) \<and>
    (\<forall>i. i \<notin> ab_id ` set items \<longrightarrow> map_of snaps' i = map_of snaps i))"
  using assms(2)
proof (induction items arbitrary: results snaps w)
  case Nil
  then show ?case by auto
next
  case (Cons item items)
  obtain res w1 where s: "snapshot item w = (res, w1)" by (cases "snapshot item w")
  have w1: "w1 = w" using assms(1) s by (metis snd_conv)
  show ?case
  proof (cases res)
    case (Inl message)
    with Cons.prems s w1 show ?thesis by (auto simp: Let_def)
  next
    case (Inr n)
    let ?r = "\<lparr>ir_id = ab_id item, ir_subscriptionId = ab_subscriptionId item, ir_success = False,
               ir_error = None, ir_snapshot = Some n, ir_executedAt = None\<rparr>"
    from Cons.prems s Inr w1
    have "snapshot_phase True snapshot items (results @ [?r]) (AList.update (ab_id item) n snaps) w = (aborted, results', snaps', w')"
      by simp
    note IH = Cons.IH [OF this]
    show ?thesis
    proof (cases aborted)
      case False
      with IH have A: "w' = w" "map ir_id results' = map ir_id results @ map ab_id (item # items)"
        "\<forall>r\<in>set results'. r \<in> set results \<or> r = ?r \<or> \<not> ir_success r"
        "distinct (map ab_id items) \<Longrightarrow> \<forall>item\<in>set items. \<exists>n. map_of snaps' (ab_id item) = Some n \<and> fst (snapshot item w) = Inr n"
        "\<forall>i. i \<notin> ab_id ` set items \<longrightarrow> map_of snaps' i = map_of (AList.update (ab_id item) n snaps) i"
        by auto
      have "map_of snaps' (ab_id item) = Some n" if "distinct (map ab_id (item # items))"
        using A(5) that by simp
      with A s Inr show ?thesis by auto
    qed (use IH in simp)
  qed
qed

definition marks :: "string set \<Rightarrow> 'n AtomicItemResult list \<Rightarrow> bool" where
  "marks S results \<longleftrightarrow> (\<forall>r\<in>set results. ir_success r \<longleftrightarrow> ir_id r \<in> S)"

lemma set_result_facts:
  assumes "distinct (map ir_id results)" "i < length results" "ir_id (results ! i) = k" "\<And>r. ir_id (f r) = ir_id r"
  shows "map ir_id (set_result (js_findIndex (\<lambda>r. ir_id r = k) results) f results) = map ir_id results"
    "\<forall>r\<in>set (set_result (js_findIndex (\<lambda>r. ir_id r = k) results) f results).
       (ir_id r \<noteq> k \<and> r \<in> set results) \<or> (\<exists>r0\<in>set results. r = f r0 \<and> ir_id r0 = k)"
proof -
  have find: "js_findIndex (\<lambda>r. ir_id r = k) results = Some i" by (rule js_findIndex_unique [OF assms(1-3)])
  show "map ir_id (set_result (js_findIndex (\<lambda>r. ir_id r = k) results) f results) = map ir_id results"
    using assms(2,4) by (simp add: find set_result_def map_update) (metis list_update_id length_map nth_map)
  show "\<forall>r\<in>set (set_result (js_findIndex (\<lambda>r. ir_id r = k) results) f results).
       (ir_id r \<noteq> k \<and> r \<in> set results) \<or> (\<exists>r0\<in>set results. r = f r0 \<and> ir_id r0 = k)"
  proof
    fix r assume "r \<in> set (set_result (js_findIndex (\<lambda>r. ir_id r = k) results) f results)"
    then obtain j where j: "j < length results" "r = (if j = i then f (results ! i) else results ! j)"
      by (auto simp: find set_result_def in_set_conv_nth nth_list_update split: if_splits)
    show "(ir_id r \<noteq> k \<and> r \<in> set results) \<or> (\<exists>r0\<in>set results. r = f r0 \<and> ir_id r0 = k)"
    proof (cases "j = i")
      case True
      with j assms(2,3) show ?thesis by auto
    next
      case False
      with assms(1-3) j have "ir_id (results ! j) \<noteq> k"
        by (metis length_map nth_eq_iff_index_eq nth_map)
      with False j show ?thesis by simp
    qed
  qed
qed

lemma execute_phase_facts:
  fixes results results' :: "'r AtomicItemResult list"
  assumes law: "undoable execute snapshot rollback sel"
    and ids: "map ir_id results = map ab_id (P @ items)" "distinct (map ab_id (P @ items))"
    and marks: "marks (ab_id ` set P) results"
    and untouched: "\<forall>i. i \<notin> ab_id ` set P \<longrightarrow> sel i w = sel i w0"
    and run: "execute_phase True execute at k items results w = (reason, results', w')"
  shows "\<exists>Q. map ir_id results' = map ir_id results \<and> marks (ab_id ` set Q) results' \<and> set Q \<subseteq> set (P @ items) \<and>
    (\<forall>i. i \<notin> ab_id ` set Q \<longrightarrow> sel i w' = sel i w0) \<and> (reason = None \<longrightarrow> Q = P @ items) \<and> reason \<noteq> Some ''''"
  using ids marks untouched run
proof (induction items arbitrary: P results w k)
  case Nil
  then show ?case by (intro exI [of _ P]) auto
next
  case (Cons item items)
  let ?k = "ab_id item" and ?i = "length P"
  have len: "?i < length results" using arg_cong [OF Cons.prems(1), of length] by simp
  have at: "ir_id (results ! ?i) = ?k"
    using arg_cong [OF Cons.prems(1), of "\<lambda>xs. xs ! ?i"] len by (simp add: nth_append)
  have dist: "distinct (map ir_id results)" using Cons.prems(1,2) by simp
  obtain r w1 where x: "execute item w = (r, w1)" by (cases "execute item w")
  have other: "sel i w1 = sel i w" if "i \<noteq> ?k" for i
    using law x that unfolding undoable_def by (metis snd_conv)
  show ?case
  proof (cases r)
    case None
    let ?f = "\<lambda>r. r\<lparr>ir_success := True, ir_executedAt := Some (at k)\<rparr> :: 'r AtomicItemResult"
    let ?results = "set_result (js_findIndex (\<lambda>r. ir_id r = ?k) results) ?f results"
    have S: "map ir_id ?results = map ir_id results"
      "\<forall>r\<in>set ?results. (ir_id r \<noteq> ?k \<and> r \<in> set results) \<or> (\<exists>r0\<in>set results. r = ?f r0 \<and> ir_id r0 = ?k)"
      using set_result_facts [OF dist len at, of ?f] by simp_all
    have "marks (ab_id ` set (P @ [item])) ?results"
      using S(2) Cons.prems(3) by (fastforce simp: marks_def)
    moreover have "map ir_id ?results = map ab_id ((P @ [item]) @ items)" using S(1) Cons.prems(1) by simp
    moreover have "distinct (map ab_id ((P @ [item]) @ items))" using Cons.prems(2) by simp
    moreover have "\<forall>i. i \<notin> ab_id ` set (P @ [item]) \<longrightarrow> sel i w1 = sel i w0" using other Cons.prems(4) by simp
    moreover have "execute_phase True execute at (Suc k) items ?results w1 = (reason, results', w')"
      using Cons.prems(5) x None by (simp add: Let_def)
    ultimately obtain Q where "map ir_id results' = map ir_id ?results" "marks (ab_id ` set Q) results'"
      "set Q \<subseteq> set ((P @ [item]) @ items)" "\<forall>i. i \<notin> ab_id ` set Q \<longrightarrow> sel i w' = sel i w0"
      "reason = None \<longrightarrow> Q = (P @ [item]) @ items" "reason \<noteq> Some ''''"
      using Cons.IH [of ?results "P @ [item]" w1 "Suc k"] by blast
    then show ?thesis using S(1) by (intro exI [of _ Q]) auto
  next
    case (Some e)
    let ?f = "\<lambda>r. r\<lparr>ir_success := False, ir_error := Some e, ir_executedAt := Some (at k)\<rparr> :: 'r AtomicItemResult"
    have S: "map ir_id results' = map ir_id results" "reason = Some e" "w' = w1"
      "\<forall>r\<in>set results'. (ir_id r \<noteq> ?k \<and> r \<in> set results) \<or> (\<exists>r0\<in>set results. r = ?f r0 \<and> ir_id r0 = ?k)"
      using set_result_facts [OF dist len at, of ?f] Cons.prems(5) x Some by (auto simp: Let_def)
    have notP: "?k \<notin> ab_id ` set P" using Cons.prems(2) by auto
    have "marks (ab_id ` set P) results'"
      using S(4) Cons.prems(3) notP by (fastforce simp: marks_def)
    moreover have "e \<noteq> ''''" "sel i w1 = sel i w" for i
      using law x Some unfolding undoable_def by (metis fst_conv snd_conv)+
    ultimately show ?thesis using S Cons.prems(4) by (intro exI [of _ P]) auto
  qed
qed

lemma js_find_unique:
  assumes "distinct (map ab_id items)" "item \<in> set items"
  shows "js_find (\<lambda>i. ab_id i = ab_id item) items = Some item"
  using assms by (induction items) (auto simp: js_find_def)

lemma rollback_phase_facts:
  assumes law: "undoable execute snapshot rollback sel" and "distinct (map ab_id items)"
    and snaps: "\<forall>item\<in>set items. \<exists>n. map_of snaps (ab_id item) = Some n \<and> fst (snapshot item w0) = Inr n"
    and "\<forall>r\<in>set results. ir_id r \<in> ab_id ` set items"
  shows "sel i (rollback_phase rollback items snaps results w) =
    (if \<exists>r\<in>set results. ir_success r \<and> ir_id r = i then sel i w0 else sel i w)"
  using assms(4)
proof (induction results arbitrary: w)
  case Nil
  then show ?case by simp
next
  case (Cons r results)
  show ?case
  proof (cases "ir_success r")
    case False
    with Cons show ?thesis by simp
  next
    case True
    from Cons.prems obtain item where item: "item \<in> set items" "ir_id r = ab_id item" by auto
    with snaps obtain n where n: "map_of snaps (ab_id item) = Some n" "fst (snapshot item w0) = Inr n" by blast
    have find: "js_find (\<lambda>i. ab_id i = ab_id item) items = Some item"
      by (rule js_find_unique [OF assms(2) item(1)])
    have "sel j (snd (rollback item n w)) = (if j = ab_id item then sel j w0 else sel j w)" for j
      using law n(2) unfolding undoable_def by blast
    with Cons True item(2) n find show ?thesis by auto
  qed
qed

section \<open>Properties\<close>

text \<open>What a batch is meant to do: its operations one after the other on the world, until one fails.\<close>

fun run_in_turn :: "('p AtomicBatchItem \<Rightarrow> 'w \<Rightarrow> string option \<times> 'w) \<Rightarrow> 'p AtomicBatchItem list \<Rightarrow> 'w \<Rightarrow> string + 'w" where
  "run_in_turn execute [] w = Inr w"
| "run_in_turn execute (item # items) w =
     (case execute item w of (None, w1) \<Rightarrow> run_in_turn execute items w1 | (Some e, w1) \<Rightarrow> Inl e)"

lemma execute_phase_in_turn:
  "execute_phase True execute at k items results w = (reason, results1, w1) \<Longrightarrow>
     run_in_turn execute items w = (case reason of None \<Rightarrow> Inr w1 | Some e \<Rightarrow> Inl e)"
  by (induction items arbitrary: k results w) (auto simp: Let_def split: prod.splits option.splits)

text \<open>C10: Atomicity: when the operations can be undone (a failing one says why and leaves no trace, each touches only its own item,
  a rollback to a snapshot restores it), a batch of items with distinct ids run in atomic mode ends in one of three ways.
  It is committed: every operation succeeded, the world is the one they leave when run one after the other, and each item is
  reported as a success. It is rolled back: some operation failed, the first such failure is the reason reported,
  and every item is exactly what it was. Or it is refused before any operation ran, and every item is what it was.\<close>

theorem batch_is_atomic:
  assumes law: "undoable execute snapshot rollback sel" and ids: "distinct (map ab_id items)"
    and run: "execute_batch execute snapshot rollback True at t0 t1 batchId items (keys, w) = (report, keys', w')"
  shows "(br_status report = Committed \<and> run_in_turn execute items w = Inr w' \<and> map ir_id (br_items report) = map ab_id items \<and>
      (\<forall>r\<in>set (br_items report). ir_success r)) \<or>
    (br_status report = RolledBack \<and> (\<exists>e. run_in_turn execute items w = Inl e \<and> br_rollbackReason report = Some e) \<and>
      (\<forall>i. sel i w' = sel i w)) \<or>
    (br_status report = Failed \<and> (\<forall>i. sel i w' = sel i w))"
proof (cases "deriveIdempotencyKey items \<in> set keys \<or> \<not> va_valid (validateAtomicBatch items)")
  case True
  with run show ?thesis
    by (cases "deriveIdempotencyKey items \<in> set keys") (auto simp: execute_batch_def Let_def refusal_def)
next
  case False
  obtain aborted results snaps w1 where s: "snapshot_phase True snapshot items [] [] w = (aborted, results, snaps, w1)"
    by (cases "snapshot_phase True snapshot items [] [] w")
  have "\<forall>item w. snd (snapshot item w) = w" using law unfolding undoable_def by blast
  note S = snapshot_phase_facts [OF this s]
  show ?thesis
  proof (cases aborted)
    case True
    with S run False s show ?thesis by (auto simp: execute_batch_def Let_def buildReport_def)
  next
    case go: False
    obtain reason results1 w2 where x: "execute_phase True execute at 0 items results w1 = (reason, results1, w2)"
      by (cases "execute_phase True execute at 0 items results w1")
    have w1: "w1 = w" using S by simp
    note turn = execute_phase_in_turn [OF x, unfolded w1]
    have R: "map ir_id results = map ab_id ([] @ items)" "marks (ab_id ` set []) results"
      "\<forall>i. i \<notin> ab_id ` set [] \<longrightarrow> sel i w1 = sel i w"
      using S go by (auto simp: marks_def)
    from execute_phase_facts [OF law R(1) _ R(2,3) x] ids obtain Q where
      Q: "map ir_id results1 = map ab_id items" "marks (ab_id ` set Q) results1" "set Q \<subseteq> set items"
      "\<forall>i. i \<notin> ab_id ` set Q \<longrightarrow> sel i w2 = sel i w" "reason = None \<longrightarrow> Q = items" "reason \<noteq> Some ''''"
      using R(1) by auto
    have ids1: "ir_id ` set results1 = ab_id ` set items" using Q(1) by (metis set_map)
    have mem1: "ir_id r \<in> ab_id ` set items" if "r \<in> set results1" for r using ids1 that by blast
    show ?thesis
    proof (cases reason)
      case None
      with run False s x go Q(1,2,5) mem1 turn show ?thesis
        by (auto simp: execute_batch_def Let_def buildReport_def marks_def)
    next
      case (Some e)
      have fin: "br_status report = RolledBack" "w' = rollback_phase rollback items snaps results1 w2" "br_rollbackReason report = Some e"
        using run False s x go Some Q(6) by (auto simp: execute_batch_def Let_def buildReport_def)
      have snaps: "\<forall>item\<in>set items. \<exists>n. map_of snaps (ab_id item) = Some n \<and> fst (snapshot item w) = Inr n"
        using S go ids by blast
      have "sel i w' = sel i w" for i
      proof -
        have "sel i w' = (if \<exists>r\<in>set results1. ir_success r \<and> ir_id r = i then sel i w else sel i w2)"
          unfolding fin(2) by (rule rollback_phase_facts [OF law ids snaps]) (use ids1 in blast)
        moreover have "sel i w2 = sel i w" if none: "\<not> (\<exists>r\<in>set results1. ir_success r \<and> ir_id r = i)"
        proof -
          have "i \<notin> ab_id ` set Q"
          proof
            assume i: "i \<in> ab_id ` set Q"
            with Q(3) have "i \<in> ir_id ` set results1" unfolding ids1 by blast
            then obtain r where r: "r \<in> set results1" "ir_id r = i" by blast
            with Q(2) i have "ir_success r" by (simp add: marks_def)
            with none r show False by blast
          qed
          with Q(4) show ?thesis by blast
        qed
        ultimately show ?thesis by presburger
      qed
      with fin(1,3) turn Some show ?thesis by simp
    qed
  qed
qed

text \<open>A store of numbers: an operation writes its payload, and a negative one is refused.\<close>

definition put_value :: "int AtomicBatchItem \<Rightarrow> (string \<Rightarrow> int) \<Rightarrow> string option \<times> (string \<Rightarrow> int)" where
  "put_value item w = (if ab_payload item < 0 then (Some ''negative'', w) else (None, w(ab_id item := ab_payload item)))"

definition look_value :: "int AtomicBatchItem \<Rightarrow> (string \<Rightarrow> int) \<Rightarrow> (string + int) \<times> (string \<Rightarrow> int)" where
  "look_value item w = (Inr (w (ab_id item)), w)"

definition restore_value :: "int AtomicBatchItem \<Rightarrow> int \<Rightarrow> (string \<Rightarrow> int) \<Rightarrow> bool \<times> (string \<Rightarrow> int)" where
  "restore_value item n w = (True, w(ab_id item := n))"

lemma store_undoable: "undoable put_value look_value restore_value (\<lambda>i w. w i)"
  by (auto simp: undoable_def put_value_def look_value_def restore_value_def)

definition demo_items :: "int \<Rightarrow> int \<Rightarrow> int AtomicBatchItem list" where
  "demo_items x y =
     [\<lparr>ab_id = ''a'', ab_subscriptionId = ''s1'', ab_operation = OpCharge, ab_payload = x\<rparr>,
      \<lparr>ab_id = ''b'', ab_subscriptionId = ''s2'', ab_operation = OpUpdate, ab_payload = y\<rparr>]"

lemmas execute_demo = execute_batch_def demo_items_def validateAtomicBatch_def validate_item_def js_blank_def
  put_value_def look_value_def set_result_def buildReport_def Let_def

text \<open>One batch that is rolled back and one that is committed.\<close>

lemma batch_is_atomic_witness:
  "snd (snd (execute_batch put_value look_value restore_value True int 0 9 ''k'' (demo_items 5 (-1)) ([], \<lambda>i. 3))) ''a'' = 3 \<and>
   snd (snd (execute_batch put_value look_value restore_value True int 0 9 ''k'' (demo_items 5 6) ([], \<lambda>i. 3))) ''a'' = 5"
proof
  have ids: "distinct (map ab_id (demo_items x y))" for x y by (simp add: demo_items_def)
  obtain report keys' w' where run: "execute_batch put_value look_value restore_value True int 0 9 ''k''
      (demo_items 5 (-1)) ([], \<lambda>i. 3) = (report, keys', w')"
    by (metis prod.collapse)
  have "run_in_turn put_value (demo_items 5 (-1)) (\<lambda>i. 3) = Inl ''negative''" by (simp add: demo_items_def put_value_def)
  with batch_is_atomic [OF store_undoable ids run] have "w' ''a'' = 3" by auto
  with run show "snd (snd (execute_batch put_value look_value restore_value True int 0 9 ''k'' (demo_items 5 (-1)) ([], \<lambda>i. 3))) ''a'' = 3"
    by simp
  obtain report keys' w' where run: "execute_batch put_value look_value restore_value True int 0 9 ''k''
      (demo_items 5 6) ([], \<lambda>i. 3) = (report, keys', w')"
    by (metis prod.collapse)
  have "br_status (fst (execute_batch put_value look_value restore_value True int 0 9 ''k''
      (demo_items 5 6) ([], \<lambda>i. 3))) = Committed"
    by (simp add: execute_demo)
  with batch_is_atomic [OF store_undoable ids run] run have "run_in_turn put_value (demo_items 5 6) (\<lambda>i. 3) = Inr w'" by auto
  then have "w' ''a'' = 5" by (auto simp: demo_items_def put_value_def)
  with run show "snd (snd (execute_batch put_value look_value restore_value True int 0 9 ''k'' (demo_items 5 6) ([], \<lambda>i. 3))) ''a'' = 5"
    by simp
qed

text \<open>The idempotency key forgets the payload: once a batch has been executed (committed or rolled back),
  every batch with the same subscriptions and operations in the same order is rejected unexecuted as a
  duplicate, whatever its payloads, and so is the retry of a batch that was rolled back.\<close>

theorem key_ignores_payload:
  assumes "execute_batch execute snapshot rollback failFast at t0 t1 batchId items (keys, w) = (report, keys', w')"
    "br_status report \<in> {Committed, RolledBack}"
    "map ab_subscriptionId items' = map ab_subscriptionId items" "map ab_operation items' = map ab_operation items"
  shows "\<exists>report'. execute_batch execute snapshot rollback failFast' at' t0' t1' batchId' items' (keys', w') = (report', keys', w') \<and>
    br_status report' = Failed \<and> br_succeededItems report' = 0"
proof -
  have "map (\<lambda>i. ab_subscriptionId i @ '':'' @ operation_name (ab_operation i)) items' =
      map (\<lambda>i. ab_subscriptionId i @ '':'' @ operation_name (ab_operation i)) items"
  proof (rule nth_equalityI)
    have len: "length items' = length items" using map_eq_imp_length_eq [OF assms(3)] .
    then show "length (map (\<lambda>i. ab_subscriptionId i @ '':'' @ operation_name (ab_operation i)) items') =
      length (map (\<lambda>i. ab_subscriptionId i @ '':'' @ operation_name (ab_operation i)) items)" by simp
    fix k assume "k < length (map (\<lambda>i. ab_subscriptionId i @ '':'' @ operation_name (ab_operation i)) items')"
    then have k: "k < length items'" "k < length items" using len by simp_all
    have "ab_subscriptionId (items' ! k) = ab_subscriptionId (items ! k)" "ab_operation (items' ! k) = ab_operation (items ! k)"
      using arg_cong [OF assms(3), of "\<lambda>xs. xs ! k"] arg_cong [OF assms(4), of "\<lambda>xs. xs ! k"] k by simp_all
    with k show "map (\<lambda>i. ab_subscriptionId i @ '':'' @ operation_name (ab_operation i)) items' ! k =
      map (\<lambda>i. ab_subscriptionId i @ '':'' @ operation_name (ab_operation i)) items ! k" by simp
  qed
  then have "deriveIdempotencyKey items' = deriveIdempotencyKey items"
    by (simp add: deriveIdempotencyKey_def key_payload_def)
  moreover have "deriveIdempotencyKey items \<in> set keys'"
    using assms(1,2) by (auto simp: execute_batch_def Let_def refusal_def buildReport_def split: if_splits prod.splits bool.splits)
  ultimately show ?thesis by (simp add: execute_batch_def Let_def refusal_def)
qed

lemma key_ignores_payload_witness:
  "\<exists>keys' w' report'. execute_batch put_value look_value restore_value True int 0 9 ''k'' (demo_items 5 6) ([], \<lambda>i. 3) =
       (report', keys', w') \<and>
     br_status (fst (execute_batch put_value look_value restore_value True int 10 19 ''l'' (demo_items 70 80) (keys', w'))) = Failed"
proof -
  obtain report keys' w' where run: "execute_batch put_value look_value restore_value True int 0 9 ''k''
      (demo_items 5 6) ([], \<lambda>i. 3) = (report, keys', w')"
    by (metis prod.collapse)
  have "br_status (fst (execute_batch put_value look_value restore_value True int 0 9 ''k'' (demo_items 5 6) ([], \<lambda>i. 3))) = Committed"
    by (simp add: execute_demo)
  then have "br_status report \<in> {Committed, RolledBack}" using run by simp
  from key_ignores_payload [OF run this, where items' = "demo_items 70 80" and failFast' = True and at' = int
      and t0' = 10 and t1' = 19 and batchId' = "''l''"]
  obtain report' where
    "execute_batch put_value look_value restore_value True int 10 19 ''l'' (demo_items 70 80) (keys', w') = (report', keys', w')"
    "br_status report' = Failed" unfolding demo_items_def by auto
  with run show ?thesis by (intro exI conjI) auto
qed

end
