(* ===== verification/Lockout.thy ===== *)
theory Lockout
  imports Prelude
begin

text \<open>
  Progressive account lockout, \<^verbatim>\<open>backend/services/shared/accountLockoutService.ts\<close>. \<open>Date.now()\<close>
  is the argument \<open>now\<close> of each operation; whether the random one-in-a-hundred cleanup runs is the
  argument \<open>clean\<close>. Logging is left out.
\<close>

section \<open>State\<close>

record LockoutTier =
  ti_threshold :: int
  ti_lockoutMinutes :: int

record LockoutConfig =
  lc_tiers :: "LockoutTier list"
  lc_retentionMs :: int

record AccountLockoutData =
  ld_failedAttempts :: int
  ld_lockoutUntil :: int
  ld_lastUpdated :: int

record LockoutStatus =
  lo_locked :: bool
  lo_remainingMs :: int
  lo_failedAttempts :: int

record AccountLockoutService =
  al_store :: "AccountLockoutData obj"
  al_config :: LockoutConfig

definition DEFAULT_CONFIG :: LockoutConfig where
  "DEFAULT_CONFIG = \<lparr>lc_tiers = [\<lparr>ti_threshold = 3, ti_lockoutMinutes = 5\<rparr>,
     \<lparr>ti_threshold = 6, ti_lockoutMinutes = 15\<rparr>, \<lparr>ti_threshold = 9, ti_lockoutMinutes = 60\<rparr>],
     lc_retentionMs = 24 * 60 * 60 * 1000\<rparr>"

text \<open>The constructor sorts the tiers, highest threshold first.\<close>

definition newLockoutService :: "LockoutTier list option \<Rightarrow> int option \<Rightarrow> AccountLockoutService" where
  "newLockoutService tiers retentionMs =
     \<lparr>al_store = [],
      al_config = \<lparr>lc_tiers = sort_key (\<lambda>t. - ti_threshold t)
                     (case tiers of None \<Rightarrow> lc_tiers DEFAULT_CONFIG | Some ts \<Rightarrow> ts),
                   lc_retentionMs = (case retentionMs of None \<Rightarrow> lc_retentionMs DEFAULT_CONFIG | Some r \<Rightarrow> r)\<rparr>\<rparr>"

section \<open>Operations\<close>

definition lockout_cleanup :: "int \<Rightarrow> AccountLockoutService \<Rightarrow> AccountLockoutService" where
  "lockout_cleanup now s =
     s\<lparr>al_store := filter (\<lambda>(k, d). \<not> lc_retentionMs (al_config s) < now - ld_lastUpdated d) (al_store s)\<rparr>"

definition fresh_data :: "int \<Rightarrow> AccountLockoutData" where
  "fresh_data now = \<lparr>ld_failedAttempts = 0, ld_lockoutUntil = 0, ld_lastUpdated = now\<rparr>"

definition getValidData :: "string \<Rightarrow> int \<Rightarrow> AccountLockoutService \<Rightarrow> AccountLockoutData \<times> AccountLockoutService" where
  "getValidData identifier now s =
     (case map_of (al_store s) identifier of
        None \<Rightarrow> (fresh_data now, s)
      | Some d \<Rightarrow>
          if lc_retentionMs (al_config s) < now - ld_lastUpdated d
          then (fresh_data now, s\<lparr>al_store := AList.delete identifier (al_store s)\<rparr>)
          else (d, s))"

definition checkLockout :: "string \<Rightarrow> int \<Rightarrow> AccountLockoutService \<Rightarrow> LockoutStatus \<times> AccountLockoutService" where
  "checkLockout identifier now s =
     (case getValidData identifier now s of (d, s1) \<Rightarrow>
        (if now < ld_lockoutUntil d
         then \<lparr>lo_locked = True, lo_remainingMs = ld_lockoutUntil d - now, lo_failedAttempts = ld_failedAttempts d\<rparr>
         else \<lparr>lo_locked = False, lo_remainingMs = 0, lo_failedAttempts = ld_failedAttempts d\<rparr>, s1))"

text \<open>The minutes of the first tier, highest threshold first, that the failures reach; 0 for none.\<close>

definition applyLockoutMinutes :: "LockoutTier list \<Rightarrow> int \<Rightarrow> int" where
  "applyLockoutMinutes tiers failedAttempts =
     (case js_find (\<lambda>t. ti_threshold t \<le> failedAttempts) tiers of None \<Rightarrow> 0 | Some t \<Rightarrow> ti_lockoutMinutes t)"

definition lockout_recordFailure :: "string \<Rightarrow> int \<Rightarrow> bool \<Rightarrow> AccountLockoutService
    \<Rightarrow> LockoutStatus \<times> AccountLockoutService" where
  "lockout_recordFailure identifier now clean s0 =
     (let s = (if clean then lockout_cleanup now s0 else s0)
      in case getValidData identifier now s of (d, s1) \<Rightarrow>
           if now < ld_lockoutUntil d
           then (\<lparr>lo_locked = True, lo_remainingMs = ld_lockoutUntil d - now,
                  lo_failedAttempts = ld_failedAttempts d\<rparr>, s1)
           else
             (let n = ld_failedAttempts d + 1;
                  minutes = applyLockoutMinutes (lc_tiers (al_config s)) n;
                  d1 = \<lparr>ld_failedAttempts = n,
                        ld_lockoutUntil = (if 0 < minutes then now + minutes * 60 * 1000 else ld_lockoutUntil d),
                        ld_lastUpdated = now\<rparr>;
                  locked = 0 < minutes
              in (\<lparr>lo_locked = locked, lo_remainingMs = (if locked then minutes * 60 * 1000 else 0),
                   lo_failedAttempts = n\<rparr>,
                  s1\<lparr>al_store := AList.update identifier d1 (al_store s1)\<rparr>)))"

definition resetFailures :: "string \<Rightarrow> AccountLockoutService \<Rightarrow> AccountLockoutService" where
  "resetFailures identifier s =
     (case map_of (al_store s) identifier of
        None \<Rightarrow> s | Some _ \<Rightarrow> s\<lparr>al_store := AList.delete identifier (al_store s)\<rparr>)"

definition clearStore :: "AccountLockoutService \<Rightarrow> AccountLockoutService" where
  "clearStore s = s\<lparr>al_store := []\<rparr>"

section \<open>Facts\<close>

lemma map_of_filter_val:
  assumes "obj_ok m"
  shows "map_of (filter (\<lambda>(k, v). P v) m) k = (case map_of m k of Some v \<Rightarrow> if P v then Some v else None | None \<Rightarrow> None)"
  using assms
proof (induction m)
  case (Cons kv m)
  obtain k' v where kv: "kv = (k', v)" by (cases kv)
  have ok: "obj_ok m" "k' \<notin> fst ` set m" using Cons.prems by (auto simp: obj_ok_def obj_keys_def kv)
  then have "map_of m k' = None" by (simp add: map_of_eq_None_iff)
  with Cons.IH [OF ok(1)] show ?case by (auto simp: kv)
qed simp

text \<open>The record of an identifier that counts at an instant: stale ones do not.\<close>

definition valid_data :: "AccountLockoutService \<Rightarrow> string \<Rightarrow> int \<Rightarrow> AccountLockoutData option" where
  "valid_data s i now = (case map_of (al_store s) i of
     Some d \<Rightarrow> if lc_retentionMs (al_config s) < now - ld_lastUpdated d then None else Some d | None \<Rightarrow> None)"

datatype lockout_event = LCheck string int | LFail string int bool | LReset string

fun lockout_step :: "AccountLockoutService \<Rightarrow> lockout_event \<Rightarrow> AccountLockoutService" where
  "lockout_step s (LCheck i now) = snd (checkLockout i now s)"
| "lockout_step s (LFail i now clean) = snd (lockout_recordFailure i now clean s)"
| "lockout_step s (LReset i) = resetFailures i s"

definition lockout_ok :: "AccountLockoutService \<Rightarrow> bool" where
  "lockout_ok s \<longleftrightarrow> obj_ok (al_store s)"

lemma lockout_ok_cleanup: "lockout_ok s \<Longrightarrow> lockout_ok (lockout_cleanup now s)"
  by (auto simp: lockout_ok_def lockout_cleanup_def obj_ok_def obj_keys_def intro: distinct_map_filter)

lemma lockout_ok_valid: "lockout_ok s \<Longrightarrow> lockout_ok (snd (getValidData i now s))"
  by (auto simp: lockout_ok_def getValidData_def split: option.split)

interpretation lockouts: machine lockout_step lockout_ok
proof
  fix s e
  assume ok: "lockout_ok s"
  show "lockout_ok (lockout_step s e)"
  proof (cases e)
    case (LCheck i now)
    with ok lockout_ok_valid [OF ok, of i now] show ?thesis by (simp add: checkLockout_def case_prod_unfold)
  next
    case (LFail i now clean)
    have "lockout_ok (if clean then lockout_cleanup now s else s)" using ok lockout_ok_cleanup by simp
    from lockout_ok_valid [OF this, of i now] LFail show ?thesis
      by (auto simp: lockout_recordFailure_def Let_def case_prod_unfold lockout_ok_def)
  next
    case (LReset i)
    with ok show ?thesis by (auto simp: resetFailures_def lockout_ok_def split: option.split)
  qed
qed

text \<open>What a step leaves of an identifier that is locked: everything.\<close>

lemma cleanup_keeps:
  assumes "lockout_ok s" "map_of (al_store s) i = Some d" "now - ld_lastUpdated d \<le> lc_retentionMs (al_config s)"
  shows "map_of (al_store (lockout_cleanup now s)) i = Some d"
  using assms map_of_filter_val [of "al_store s" "\<lambda>d. \<not> lc_retentionMs (al_config s) < now - ld_lastUpdated d" i]
  by (simp add: lockout_cleanup_def lockout_ok_def)

lemma valid_other:
  assumes "map_of (al_store s) i = Some d" "now - ld_lastUpdated d \<le> lc_retentionMs (al_config s)"
  shows "map_of (al_store (snd (getValidData j now s))) i = Some d"
    "al_config (snd (getValidData j now s)) = al_config s" "getValidData i now s = (d, s)"
  using assms by (auto simp: getValidData_def split: option.split)

fun event_at :: "lockout_event \<Rightarrow> int option" where
  "event_at (LCheck i now) = Some now"
| "event_at (LFail i now clean) = Some now"
| "event_at (LReset i) = None"

lemma locked_step:
  assumes ok: "lockout_ok s" and d: "map_of (al_store s) i = Some d"
    and now: "\<forall>now. event_at e = Some now \<longrightarrow> now < ld_lockoutUntil d \<and> now - ld_lastUpdated d \<le> lc_retentionMs (al_config s)"
    and "e \<noteq> LReset i"
  shows "map_of (al_store (lockout_step s e)) i = Some d \<and> al_config (lockout_step s e) = al_config s"
proof (cases e)
  case (LCheck j t)
  with now have "t - ld_lastUpdated d \<le> lc_retentionMs (al_config s)" by simp
  from valid_other [OF d this] LCheck show ?thesis by (simp add: checkLockout_def case_prod_unfold)
next
  case (LReset j)
  with assms show ?thesis by (auto simp: resetFailures_def split: option.split)
next
  case (LFail j t clean)
  with now have t: "t < ld_lockoutUntil d" "t - ld_lastUpdated d \<le> lc_retentionMs (al_config s)" by simp_all
  define s1 where "s1 = (if clean then lockout_cleanup t s else s)"
  have cfg: "al_config s1 = al_config s" by (simp add: s1_def lockout_cleanup_def)
  have d1: "map_of (al_store s1) i = Some d" using cleanup_keeps [OF ok d t(2)] d by (simp add: s1_def)
  note V = valid_other [OF d1, of t, unfolded cfg, OF t(2)]
  show ?thesis
  proof (cases "j = i")
    case True
    with LFail t(1) V(3) d1 cfg show ?thesis by (simp add: lockout_recordFailure_def s1_def [symmetric])
  next
    case False
    with LFail V(1,2) show ?thesis
      by (simp add: lockout_recordFailure_def s1_def [symmetric] case_prod_unfold Let_def)
  qed
qed

lemma locked_run:
  assumes "lockout_ok s" "map_of (al_store s) i = Some d"
    "\<forall>e\<in>set es. e \<noteq> LReset i \<and> (\<forall>now. event_at e = Some now \<longrightarrow>
       now < ld_lockoutUntil d \<and> now - ld_lastUpdated d \<le> lc_retentionMs (al_config s))"
  shows "map_of (al_store (foldl lockout_step s es)) i = Some d \<and> al_config (foldl lockout_step s es) = al_config s"
  using assms
proof (induction es arbitrary: s)
  case (Cons e es)
  have "map_of (al_store (lockout_step s e)) i = Some d \<and> al_config (lockout_step s e) = al_config s"
    by (rule locked_step [OF Cons.prems(1,2)]) (use Cons.prems(3) in auto)
  with Cons.IH [OF lockouts.step_inv [OF Cons.prems(1)], of e] Cons.prems(3) show ?case by simp
qed simp

text \<open>What the failure that locks stores.\<close>

lemma failure_locks:
  assumes "lockout_ok s" "lockout_recordFailure i t clean s = (status, s1)" "lo_locked status" "0 \<le> t"
    "\<forall>d. map_of (al_store s) i = Some d \<longrightarrow> ld_lockoutUntil d \<le> t"
  shows "map_of (al_store s1) i = Some \<lparr>ld_failedAttempts = lo_failedAttempts status,
      ld_lockoutUntil = t + lo_remainingMs status, ld_lastUpdated = t\<rparr> \<and> al_config s1 = al_config s"
proof -
  define s0 where "s0 = (if clean then lockout_cleanup t s else s)"
  obtain d sv where v: "getValidData i t s0 = (d, sv)" by (cases "getValidData i t s0")
  have store0: "map_of (al_store s0) i = Some x \<Longrightarrow> map_of (al_store s) i = Some x" for x
    using assms(1) map_of_filter_val [of "al_store s" "\<lambda>d. \<not> lc_retentionMs (al_config s) < t - ld_lastUpdated d" i]
    by (auto simp: s0_def lockout_cleanup_def lockout_ok_def split: option.splits if_splits)
  have cfg: "al_config s0 = al_config s" "al_config sv = al_config s0"
    using v by (auto simp: s0_def lockout_cleanup_def getValidData_def split: option.splits if_splits)
  have "\<not> t < ld_lockoutUntil d"
    using v store0 assms(4,5) by (auto simp: getValidData_def fresh_data_def split: option.splits if_splits)
  then show ?thesis
    using assms(2,3) v cfg by (auto simp: lockout_recordFailure_def s0_def [symmetric] Let_def split: if_splits)
qed

section \<open>Properties\<close>

text \<open>C37: A lockout holds for exactly its time: once a failure of an identifier that is not locked locks it for \<open>r\<close>
  milliseconds, then after any checks and failures of any identifiers meanwhile, with or without cleanups and short of a
  reset, a check reports it locked at every moment before the end, with exactly the time that is left and the same number
  of failures (failures recorded meanwhile are not counted), and not locked from the end on. The end is \<open>r\<close> after the failure
  when \<open>r\<close> is at most the retention; a longer lockout is cut short, because the record is thrown away once it is older
  than the retention. Up to the retention the failures stay counted after the lockout, then they are forgotten.\<close>

theorem lockout_holds:
  fixes s :: AccountLockoutService
  defines "keep \<equiv> lc_retentionMs (al_config s)"
  assumes "lockout_ok s" "lockout_recordFailure i t clean s = (status, s1)" "lo_locked status" "0 \<le> t" "0 \<le> now"
    and "\<forall>d. map_of (al_store s) i = Some d \<longrightarrow> ld_lockoutUntil d \<le> t"
    and "LReset i \<notin> set es"
    and "\<forall>e\<in>set es. \<forall>u. event_at e = Some u \<longrightarrow> u < t + lo_remainingMs status \<and> u \<le> t + keep"
  shows "fst (checkLockout i now (foldl lockout_step s1 es)) =
    (if now < t + lo_remainingMs status \<and> now \<le> t + keep
     then \<lparr>lo_locked = True, lo_remainingMs = t + lo_remainingMs status - now, lo_failedAttempts = lo_failedAttempts status\<rparr>
     else \<lparr>lo_locked = False, lo_remainingMs = 0, lo_failedAttempts = (if now \<le> t + keep then lo_failedAttempts status else 0)\<rparr>)
   \<and> (lo_remainingMs status \<le> keep \<longrightarrow>
        (lo_locked (fst (checkLockout i now (foldl lockout_step s1 es))) \<longleftrightarrow> now < t + lo_remainingMs status))"
proof -
  let ?d = "\<lparr>ld_failedAttempts = lo_failedAttempts status, ld_lockoutUntil = t + lo_remainingMs status, ld_lastUpdated = t\<rparr>"
  let ?s = "foldl lockout_step s1 es"
  have d: "map_of (al_store s1) i = Some ?d" and cfg: "al_config s1 = al_config s"
    using failure_locks [OF assms(2-5,7)] by simp_all
  have ok1: "lockout_ok s1" using lockouts.step_inv [OF assms(2), of "LFail i t clean"] assms(3) by simp
  have run: "map_of (al_store ?s) i = Some ?d \<and> al_config ?s = al_config s1"
    by (rule locked_run [OF ok1 d]) (use assms(1,8,9) cfg in fastforce)
  show ?thesis using run assms(1,6) cfg
    by (auto simp: checkLockout_def getValidData_def fresh_data_def)
qed

definition three_failures :: AccountLockoutService where
  "three_failures = foldl lockout_step (newLockoutService None None) [LFail ''eve'' 10 False, LFail ''eve'' 20 False]"

lemma lockout_holds_witness:
  "let s = foldl lockout_step (snd (lockout_recordFailure ''eve'' 30 False three_failures)) [LFail ''eve'' 40 True, LFail ''bob'' 50 False]
   in lo_locked (fst (checkLockout ''eve'' 300029 s)) \<and> \<not> lo_locked (fst (checkLockout ''eve'' 300030 s))"
proof -
  have ok: "lockout_ok three_failures"
    unfolding three_failures_def by (rule lockouts.run_inv) (simp add: lockout_ok_def newLockoutService_def)
  have f: "fst (lockout_recordFailure ''eve'' 30 False three_failures) = \<lparr>lo_locked = True, lo_remainingMs = 300000, lo_failedAttempts = 3\<rparr>"
    "map_option ld_lockoutUntil (map_of (al_store three_failures) ''eve'') = Some 0"
    "lc_retentionMs (al_config three_failures) = 86400000" by code_simp+
  have r: "lockout_recordFailure ''eve'' 30 False three_failures =
      (\<lparr>lo_locked = True, lo_remainingMs = 300000, lo_failedAttempts = 3\<rparr>, snd (lockout_recordFailure ''eve'' 30 False three_failures))"
    by (metis f(1) prod.collapse)
  note holds = lockout_holds [OF ok r, where es = "[LFail ''eve'' 40 True, LFail ''bob'' 50 False]"]
  show ?thesis using holds [where now = 300029] holds [where now = 300030] f(2,3) by (auto simp: Let_def)
qed

text \<open>Lockouts are progressive: a failure of an identifier that is not locked counts one more, and locks it
  exactly when the count reaches some tier, for the minutes of the highest tier reached; under the
  default tiers that is nothing for the first two, 5 minutes from the third, 15 from the sixth and 60
  from the ninth failure on.\<close>

theorem lockout_is_progressive:
  assumes "\<forall>d. map_of (al_store s) i = Some d \<longrightarrow> ld_lockoutUntil d \<le> t" "0 \<le> t"
    "al_config s = al_config (newLockoutService None None)"
  shows "\<exists>n. lo_failedAttempts (fst (lockout_recordFailure i t False s)) = n \<and>
    n = (case valid_data s i t of None \<Rightarrow> 1 | Some d \<Rightarrow> ld_failedAttempts d + 1) \<and>
    lo_remainingMs (fst (lockout_recordFailure i t False s)) =
      (if n < 3 then 0 else if n < 6 then 5 * 60000 else if n < 9 then 15 * 60000 else 60 * 60000) \<and>
    lo_locked (fst (lockout_recordFailure i t False s)) = (3 \<le> n)"
proof -
  have tiers: "lc_tiers (al_config s) = [\<lparr>ti_threshold = 9, ti_lockoutMinutes = 60\<rparr>,
      \<lparr>ti_threshold = 6, ti_lockoutMinutes = 15\<rparr>, \<lparr>ti_threshold = 3, ti_lockoutMinutes = 5\<rparr>]"
    unfolding assms(3) by (simp add: newLockoutService_def DEFAULT_CONFIG_def)
  have mins: "applyLockoutMinutes (lc_tiers (al_config s)) n =
      (if n < 3 then 0 else if n < 6 then 5 else if n < 9 then 15 else 60)" for n
    unfolding tiers by (simp add: applyLockoutMinutes_def js_find_def)
  obtain d sv where v: "getValidData i t s = (d, sv)" by (cases "getValidData i t s")
  have d: "\<not> t < ld_lockoutUntil d"
    "ld_failedAttempts d = (case valid_data s i t of None \<Rightarrow> 0 | Some d \<Rightarrow> ld_failedAttempts d)"
    using v assms(1,2) by (auto simp: getValidData_def valid_data_def fresh_data_def split: option.splits if_splits)
  show ?thesis
    using v d by (cases "valid_data s i t") (simp_all add: lockout_recordFailure_def Let_def mins)
qed

lemma lockout_is_progressive_witness:
  "lo_failedAttempts (fst (lockout_recordFailure ''eve'' 10 False (newLockoutService None None))) = 1"
  using lockout_is_progressive [of "newLockoutService None None" "''eve''" 10]
  by (simp add: newLockoutService_def valid_data_def)

end
