(* ===== verification/Idempotency.thy ===== *)
theory Idempotency
  imports Prelude "HOL-Library.Word"
begin

text \<open>
  Idempotent payment execution, \<^verbatim>\<open>backend/services/idempotencyService.ts\<close>. A running
  \<open>execute\<close> keeps a reference to the record it stored and writes through it when its operation
  ends, so records live in a heap and the \<open>Map\<close> holds references. \<open>execute\<close> is given as its two
  halves around the \<open>await\<close>, which may interleave with other calls. The cleanup timer's firing is
  the operation \<open>cleanup\<close>.
\<close>

section \<open>State\<close>

datatype IdempotencyStatus = Pending | Completed | FailedStatus

record 'r IdempotencyRecord =
  ir_key :: string
  ir_requestHash :: string
  ir_status :: IdempotencyStatus
  ir_response :: "'r option"
  ir_createdAt :: int
  ir_completedAt :: "int option"

record 'r IdempotencyService =
  id_store :: "nat obj"
  id_heap :: "nat \<Rightarrow> 'r IdempotencyRecord"
  id_next :: nat
  id_windowMs :: int

definition MAX_KEYS :: nat where "MAX_KEYS = 100000"

definition WINDOW_MS :: int where "WINDOW_MS = 24 * 60 * 60 * 1000"

definition null_record :: "'r IdempotencyRecord" where
  "null_record = \<lparr>ir_key = '''', ir_requestHash = '''', ir_status = FailedStatus, ir_response = None,
     ir_createdAt = 0, ir_completedAt = None\<rparr>"

definition newIdempotencyService :: "int option \<Rightarrow> 'r IdempotencyService" where
  "newIdempotencyService windowMs = \<lparr>id_store = [], id_heap = (\<lambda>_. null_record), id_next = 0,
     id_windowMs = (case windowMs of None \<Rightarrow> WINDOW_MS | Some w \<Rightarrow> w)\<rparr>"

section \<open>Operations\<close>

definition enforceStorageLimit :: "'r IdempotencyService \<Rightarrow> 'r IdempotencyService" where
  "enforceStorageLimit s =
     (if MAX_KEYS \<le> length (id_store s) then s\<lparr>id_store := drop (MAX_KEYS div 10) (id_store s)\<rparr> else s)"

text \<open>Storing a new pending record: a fresh object.\<close>

definition store_pending :: "int \<Rightarrow> string \<Rightarrow> string \<Rightarrow> 'r IdempotencyService \<Rightarrow> nat \<times> 'r IdempotencyService" where
  "store_pending now key requestHash s =
     (let ref = id_next s
      in (ref, s\<lparr>id_heap := (id_heap s)(ref := \<lparr>ir_key = key, ir_requestHash = requestHash, ir_status = Pending,
                   ir_response = None, ir_createdAt = now, ir_completedAt = None\<rparr>),
                 id_next := Suc ref, id_store := AList.update key ref (id_store s)\<rparr>))"

datatype 'r begin_outcome = Cached "'r option" | KeyCollision string | RequestInFlight string | Started nat

text \<open>\<open>execute\<close> up to the call of the operation.\<close>

definition execute_begin :: "int \<Rightarrow> string \<Rightarrow> string \<Rightarrow> 'r IdempotencyService
    \<Rightarrow> 'r begin_outcome \<times> 'r IdempotencyService" where
  "execute_begin now key requestHash s0 =
     (let s = enforceStorageLimit s0
      in case map_of (id_store s) key of
           None \<Rightarrow> (case store_pending now key requestHash s of (ref, s1) \<Rightarrow> (Started ref, s1))
         | Some ref \<Rightarrow>
             (let existing = id_heap s ref
              in if ir_requestHash existing \<noteq> requestHash then (KeyCollision key, s)
                 else if ir_status existing = Pending then (RequestInFlight key, s)
                 else if ir_status existing = Completed then (Cached (ir_response existing), s)
                 else (case store_pending now key requestHash (s\<lparr>id_store := AList.delete key (id_store s)\<rparr>) of
                         (ref1, s1) \<Rightarrow> (Started ref1, s1))))"

text \<open>
  The rest of \<open>execute\<close>, when the operation of the record \<open>ref\<close> of \<open>key\<close> returned
  (\<open>Inr\<close>) or threw: success is written through the reference, failure also deletes the key.
\<close>

definition execute_end :: "int \<Rightarrow> string \<Rightarrow> nat \<Rightarrow> unit + 'r \<Rightarrow> 'r IdempotencyService \<Rightarrow> 'r IdempotencyService" where
  "execute_end now key ref result s =
     (case result of
        Inr response \<Rightarrow> s\<lparr>id_heap := (id_heap s)(ref := (id_heap s ref)\<lparr>ir_status := Completed,
          ir_response := Some response, ir_completedAt := Some now\<rparr>)\<rparr>
      | Inl _ \<Rightarrow> s\<lparr>id_heap := (id_heap s)(ref := (id_heap s ref)\<lparr>ir_status := FailedStatus\<rparr>),
          id_store := AList.delete key (id_store s)\<rparr>)"

definition idem_get :: "string \<Rightarrow> 'r IdempotencyService \<Rightarrow> 'r IdempotencyRecord option" where
  "idem_get key s = map_option (id_heap s) (map_of (id_store s) key)"

definition idem_delete :: "string \<Rightarrow> 'r IdempotencyService \<Rightarrow> bool \<times> 'r IdempotencyService" where
  "idem_delete key s = (map_of (id_store s) key \<noteq> None, s\<lparr>id_store := AList.delete key (id_store s)\<rparr>)"

definition registerPending :: "int \<Rightarrow> string \<Rightarrow> string \<Rightarrow> 'r IdempotencyService \<Rightarrow> 'r IdempotencyService" where
  "registerPending now key requestHash s = snd (store_pending now key requestHash (enforceStorageLimit s))"

definition idem_complete :: "int \<Rightarrow> string \<Rightarrow> 'r \<Rightarrow> 'r IdempotencyService \<Rightarrow> 'r IdempotencyService" where
  "idem_complete now key response s =
     (case map_of (id_store s) key of
        None \<Rightarrow> s
      | Some ref \<Rightarrow>
          if ir_status (id_heap s ref) = Pending
          then s\<lparr>id_heap := (id_heap s)(ref := (id_heap s ref)\<lparr>ir_status := Completed, ir_response := Some response,
                   ir_completedAt := Some now\<rparr>)\<rparr>
          else s)"

definition idem_cleanup :: "int \<Rightarrow> 'r IdempotencyService \<Rightarrow> nat \<times> 'r IdempotencyService" where
  "idem_cleanup now s =
     (let cutoff = now - id_windowMs s;
          kept = filter (\<lambda>(k, ref). \<not> ir_createdAt (id_heap s ref) < cutoff) (id_store s)
      in (length (id_store s) - length kept, s\<lparr>id_store := kept\<rparr>))"

definition idem_size :: "'r IdempotencyService \<Rightarrow> nat" where
  "idem_size s = length (id_store s)"

section \<open>Concurrent executions\<close>

text \<open>
  The service with the executions that are running (their record and key), and those that succeeded
  so far (key and response), in order.
\<close>

record 'r payments =
  py_service :: "'r IdempotencyService"
  py_running :: "(nat \<times> string) list"
  py_done :: "(string \<times> 'r) list"

datatype 'r payment_event = PBegin int string string | PEnd int nat "unit + 'r" | PSweep int

definition payment_step :: "'r payments \<Rightarrow> 'r payment_event \<Rightarrow> 'r payments" where
  "payment_step p e =
     (case e of
        PBegin now key hash \<Rightarrow>
          (case execute_begin now key hash (py_service p) of
             (Started ref, s) \<Rightarrow> p\<lparr>py_service := s, py_running := (ref, key) # py_running p\<rparr>
           | (_, s) \<Rightarrow> p\<lparr>py_service := s\<rparr>)
      | PEnd now ref result \<Rightarrow>
          (case map_of (py_running p) ref of
             None \<Rightarrow> p
           | Some key \<Rightarrow>
               p\<lparr>py_service := execute_end now key ref result (py_service p),
                 py_running := AList.delete ref (py_running p),
                 py_done := py_done p @ (case result of Inr r \<Rightarrow> [(key, r)] | Inl _ \<Rightarrow> [])\<rparr>)
      | PSweep now \<Rightarrow> p\<lparr>py_service := snd (idem_cleanup now (py_service p))\<rparr>)"

definition is_begin :: "'r payment_event \<Rightarrow> bool" where
  "is_begin e = (case e of PBegin _ _ _ \<Rightarrow> True | _ \<Rightarrow> False)"

definition begins :: "'r payment_event list \<Rightarrow> nat" where
  "begins es = length (filter is_begin es)"

definition payments_ok :: "'r payments \<Rightarrow> bool" where
  "payments_ok p \<longleftrightarrow>
     obj_ok (id_store (py_service p)) \<and> distinct (map fst (py_running p)) \<and> distinct (map fst (py_done p)) \<and>
     (\<forall>r k. (r, k) \<in> set (py_running p) \<longrightarrow>
        map_of (id_store (py_service p)) k = Some r \<and> ir_status (id_heap (py_service p) r) = Pending) \<and>
     (\<forall>k v. (k, v) \<in> set (py_done p) \<longrightarrow> (\<exists>r. map_of (id_store (py_service p)) k = Some r \<and>
        ir_status (id_heap (py_service p) r) = Completed \<and> ir_response (id_heap (py_service p) r) = Some v)) \<and>
     (\<forall>k r. map_of (id_store (py_service p)) k = Some r \<longrightarrow> r < id_next (py_service p) \<and>
        ir_key (id_heap (py_service p) r) = k \<and>
        (ir_status (id_heap (py_service p) r) = Pending \<and> (r, k) \<in> set (py_running p) \<or>
         ir_status (id_heap (py_service p) r) = Completed \<and> k \<in> fst ` set (py_done p)))"

lemma enforce_below: "length (id_store s) < MAX_KEYS \<Longrightarrow> enforceStorageLimit s = s"
  by (simp add: enforceStorageLimit_def)

lemma begin_cases:
  assumes ok: "payments_ok p" and "length (id_store (py_service p)) < MAX_KEYS"
  defines "s \<equiv> py_service p"
  shows "(map_of (id_store s) key = None \<and> execute_begin now key hash s =
       (Started (id_next s), snd (store_pending now key hash s))) \<or>
    (\<exists>r. map_of (id_store s) key = Some r \<and> snd (execute_begin now key hash s) = s \<and>
       (ir_status (id_heap s r) = Pending \<longrightarrow>
          fst (execute_begin now key hash s) \<in> {KeyCollision key, RequestInFlight key}) \<and>
       (ir_status (id_heap s r) = Completed \<longrightarrow>
          fst (execute_begin now key hash s) \<in> {KeyCollision key, Cached (ir_response (id_heap s r))}) \<and>
       ir_status (id_heap s r) \<in> {Pending, Completed})"
proof (cases "map_of (id_store s) key")
  case None
  then show ?thesis
    using enforce_below [OF assms(2)] by (simp add: execute_begin_def store_pending_def Let_def s_def)
next
  case (Some r)
  with ok have "ir_status (id_heap s r) \<in> {Pending, Completed}" unfolding payments_ok_def s_def by blast
  then show ?thesis
    using Some enforce_below [OF assms(2)] by (auto simp: execute_begin_def Let_def s_def)
qed

lemma begin_ok:
  assumes ok: "payments_ok p" and "length (id_store (py_service p)) < MAX_KEYS"
  shows "payments_ok (payment_step p (PBegin now key hash))"
proof -
  define s where "s = py_service p"
  from begin_cases [OF assms, of key now hash, folded s_def] show ?thesis
  proof (elim disjE exE conjE)
    fix r
    assume A: "snd (execute_begin now key hash s) = s" "map_of (id_store s) key = Some r"
      "ir_status (id_heap s r) = Pending \<longrightarrow> fst (execute_begin now key hash s) \<in> {KeyCollision key, RequestInFlight key}"
      "ir_status (id_heap s r) = Completed \<longrightarrow>
          fst (execute_begin now key hash s) \<in> {KeyCollision key, Cached (ir_response (id_heap s r))}"
      "ir_status (id_heap s r) \<in> {Pending, Completed}"
    then have "payment_step p (PBegin now key hash) = p"
      by (cases "execute_begin now key hash s") (auto simp: payment_step_def s_def split: begin_outcome.splits)
    with ok show ?thesis by simp
  next
    assume none: "map_of (id_store s) key = None"
      and st: "execute_begin now key hash s = (Started (id_next s), snd (store_pending now key hash s))"
    let ?n = "id_next s"
    define s1 where "s1 = snd (store_pending now key hash s)"
    have p1: "payment_step p (PBegin now key hash) = p\<lparr>py_service := s1, py_running := (?n, key) # py_running p\<rparr>"
      using st by (simp add: payment_step_def s_def s1_def)
    have store1: "map_of (id_store s1) = (map_of (id_store s))(key \<mapsto> ?n)" "id_next s1 = Suc ?n" "obj_ok (id_store s1)"
      using ok by (simp_all add: s1_def store_pending_def Let_def payments_ok_def s_def)
    have heap1: "ir_status (id_heap s1 ?n) = Pending" "ir_key (id_heap s1 ?n) = key" "\<And>r. r \<noteq> ?n \<Longrightarrow> id_heap s1 r = id_heap s r"
      by (simp_all add: s1_def store_pending_def Let_def)
    have D: "\<And>k r. map_of (id_store s) k = Some r \<Longrightarrow> r < ?n \<and> ir_key (id_heap s r) = k \<and>
        (ir_status (id_heap s r) = Pending \<and> (r, k) \<in> set (py_running p) \<or>
         ir_status (id_heap s r) = Completed \<and> k \<in> fst ` set (py_done p))"
      and A: "\<And>r k. (r, k) \<in> set (py_running p) \<Longrightarrow> map_of (id_store s) k = Some r \<and> ir_status (id_heap s r) = Pending"
      and B: "\<And>k v. (k, v) \<in> set (py_done p) \<Longrightarrow> \<exists>r. map_of (id_store s) k = Some r \<and>
        ir_status (id_heap s r) = Completed \<and> ir_response (id_heap s r) = Some v"
      and dist: "distinct (map fst (py_running p))" "distinct (map fst (py_done p))"
      using ok unfolding payments_ok_def s_def by blast+
    have A': "map_of (id_store s1) k = Some r \<and> ir_status (id_heap s1 r) = Pending"
      if "(r, k) \<in> set ((?n, key) # py_running p)" for r k
    proof (cases "(r, k) = (?n, key)")
      case True
      then show ?thesis using store1(1) heap1(1) by simp
    next
      case False
      with that A have "map_of (id_store s) k = Some r" "ir_status (id_heap s r) = Pending" by auto
      moreover from this D have "r \<noteq> ?n" by fastforce
      ultimately show ?thesis using none store1(1) heap1(3) by auto
    qed
    have B': "\<exists>r. map_of (id_store s1) k = Some r \<and> ir_status (id_heap s1 r) = Completed \<and> ir_response (id_heap s1 r) = Some v"
      if kv: "(k, v) \<in> set (py_done p)" for k v
    proof -
      from B [OF kv] obtain r where r: "map_of (id_store s) k = Some r" "ir_status (id_heap s r) = Completed"
        "ir_response (id_heap s r) = Some v" by blast
      with D have "r \<noteq> ?n" by fastforce
      with r none store1(1) heap1(3) show ?thesis by (intro exI [of _ r]) auto
    qed
    have D': "r < Suc ?n \<and> ir_key (id_heap s1 r) = k \<and>
        (ir_status (id_heap s1 r) = Pending \<and> (r, k) \<in> set ((?n, key) # py_running p) \<or>
         ir_status (id_heap s1 r) = Completed \<and> k \<in> fst ` set (py_done p))"
      if kr: "map_of (id_store s1) k = Some r" for k r
    proof (cases "k = key")
      case True
      with kr store1(1) heap1(1,2) show ?thesis by simp
    next
      case False
      with kr store1(1) have "map_of (id_store s) k = Some r" by simp
      from D [OF this] heap1(3) [of r] show ?thesis by auto
    qed
    have "?n \<notin> fst ` set (py_running p)" using A D by fastforce
    then show ?thesis
      using A' B' D' dist store1(2,3) unfolding payments_ok_def p1 by simp
  qed
qed

lemma end_ok:
  assumes ok: "payments_ok p"
  shows "payments_ok (payment_step p (PEnd now ref result))"
proof (cases "map_of (py_running p) ref")
  case None
  with ok show ?thesis by (simp add: payment_step_def)
next
  case (Some key)
  define s where "s = py_service p"
  have D: "\<And>k r. map_of (id_store s) k = Some r \<Longrightarrow> r < id_next s \<and> ir_key (id_heap s r) = k \<and>
      (ir_status (id_heap s r) = Pending \<and> (r, k) \<in> set (py_running p) \<or>
       ir_status (id_heap s r) = Completed \<and> k \<in> fst ` set (py_done p))"
    and A: "\<And>r k. (r, k) \<in> set (py_running p) \<Longrightarrow> map_of (id_store s) k = Some r \<and> ir_status (id_heap s r) = Pending"
    and B: "\<And>k v. (k, v) \<in> set (py_done p) \<Longrightarrow> \<exists>r. map_of (id_store s) k = Some r \<and>
      ir_status (id_heap s r) = Completed \<and> ir_response (id_heap s r) = Some v"
    and dist: "distinct (map fst (py_running p))" "distinct (map fst (py_done p))" "obj_ok (id_store s)"
    using ok unfolding payments_ok_def s_def by blast+
  from Some have run: "(ref, key) \<in> set (py_running p)" by (rule map_of_SomeD)
  from A [OF run] have mine: "map_of (id_store s) key = Some ref" "ir_status (id_heap s ref) = Pending" by auto
  have fresh: "key \<notin> fst ` set (py_done p)"
    using B mine by fastforce
  have rest: "set (AList.delete ref (py_running p)) = {q \<in> set (py_running p). fst q \<noteq> ref}"
    by (auto simp: AList.delete_eq)
  have other: "k \<noteq> key" if "(r, k) \<in> set (py_running p)" "r \<noteq> ref" for r k
    using A [OF that(1)] mine that(2) by auto
  have same: "r = ref \<longleftrightarrow> k = key" if "map_of (id_store s) k = Some r" for k r
    using D [OF that] D [OF mine(1)] that mine(1) by (metis option.inject)
  have drun: "distinct (map fst (AList.delete ref (py_running p)))"
    by (rule distinct_delete [OF dist(1)])
  show ?thesis
  proof (cases result)
    case (Inl u)
    define s1 where "s1 = execute_end now key ref result s"
    have p1: "payment_step p (PEnd now ref result) =
        p\<lparr>py_service := s1, py_running := AList.delete ref (py_running p)\<rparr>"
      by (simp add: payment_step_def Some s1_def s_def Inl)
    have st: "map_of (id_store s1) = (map_of (id_store s))(key := None)" "id_next s1 = id_next s" "obj_ok (id_store s1)"
      "\<And>r. r \<noteq> ref \<Longrightarrow> id_heap s1 r = id_heap s r"
      using dist(3) by (simp_all add: s1_def execute_end_def Inl)
    have "map_of (id_store s1) k = Some r \<and> ir_status (id_heap s1 r) = Pending"
      if "(r, k) \<in> set (py_running p)" "r \<noteq> ref" for r k
      using A [OF that(1)] other [OF that] st that(2) by simp
    moreover have "\<exists>r. map_of (id_store s1) k = Some r \<and> ir_status (id_heap s1 r) = Completed \<and>
        ir_response (id_heap s1 r) = Some v" if "(k, v) \<in> set (py_done p)" for k v
    proof -
      from B [OF that] obtain r where r: "map_of (id_store s) k = Some r" "ir_status (id_heap s r) = Completed"
        "ir_response (id_heap s r) = Some v" by blast
      moreover from fresh that have "k \<noteq> key" by force
      ultimately show ?thesis using same [OF r(1)] st by (intro exI [of _ r]) simp
    qed
    moreover have "r < id_next s1 \<and> ir_key (id_heap s1 r) = k \<and>
        (ir_status (id_heap s1 r) = Pending \<and> (r, k) \<in> set (AList.delete ref (py_running p)) \<or>
         ir_status (id_heap s1 r) = Completed \<and> k \<in> fst ` set (py_done p))"
      if "map_of (id_store s1) k = Some r" for k r
    proof -
      from that st have k: "k \<noteq> key" "map_of (id_store s) k = Some r" by (auto split: if_splits)
      with same have "r \<noteq> ref" by blast
      with D [OF k(2)] st rest show ?thesis by simp
    qed
    ultimately show ?thesis using st(3) drun dist(2) rest unfolding payments_ok_def p1 by (simp, blast)
  next
    case (Inr v)
    define s1 where "s1 = execute_end now key ref result s"
    have p1: "payment_step p (PEnd now ref result) =
        p\<lparr>py_service := s1, py_running := AList.delete ref (py_running p), py_done := py_done p @ [(key, v)]\<rparr>"
      by (simp add: payment_step_def Some s1_def s_def Inr)
    have st: "id_store s1 = id_store s" "id_next s1 = id_next s"
      "\<And>r. r \<noteq> ref \<Longrightarrow> id_heap s1 r = id_heap s r" "ir_status (id_heap s1 ref) = Completed"
      "ir_response (id_heap s1 ref) = Some v" "ir_key (id_heap s1 ref) = ir_key (id_heap s ref)"
      by (simp_all add: s1_def execute_end_def Inr)
    have "map_of (id_store s1) k = Some r \<and> ir_status (id_heap s1 r) = Pending"
      if "(r, k) \<in> set (py_running p)" "r \<noteq> ref" for r k
      using A [OF that(1)] st that(2) by simp
    moreover have "\<exists>r. map_of (id_store s1) k = Some r \<and> ir_status (id_heap s1 r) = Completed \<and>
        ir_response (id_heap s1 r) = Some w" if "(k, w) \<in> set (py_done p @ [(key, v)])" for k w
    proof (cases "(k, w) = (key, v)")
      case True
      then show ?thesis using mine st by auto
    next
      case False
      with that have kw: "(k, w) \<in> set (py_done p)" by auto
      from B [OF kw] obtain r where r: "map_of (id_store s) k = Some r" "ir_status (id_heap s r) = Completed"
        "ir_response (id_heap s r) = Some w" by blast
      moreover from fresh kw have "k \<noteq> key" by force
      ultimately show ?thesis using same [OF r(1)] st by (intro exI [of _ r]) simp
    qed
    moreover have "r < id_next s1 \<and> ir_key (id_heap s1 r) = k \<and>
        (ir_status (id_heap s1 r) = Pending \<and> (r, k) \<in> set (AList.delete ref (py_running p)) \<or>
         ir_status (id_heap s1 r) = Completed \<and> k \<in> fst ` set (py_done p @ [(key, v)]))"
      if "map_of (id_store s1) k = Some r" for k r
    proof -
      from that st have k: "map_of (id_store s) k = Some r" by simp
      show ?thesis
      proof (cases "r = ref")
        case True
        with same [OF k] D [OF k] st show ?thesis by simp
      next
        case False
        with D [OF k] st rest show ?thesis by auto
      qed
    qed
    ultimately show ?thesis using st(1) dist fresh drun rest unfolding payments_ok_def p1 by (simp, blast)
  qed
qed

text \<open>Records stored since \<open>T\<close>: a sweep up to \<open>T\<close> plus the window removes none.\<close>

definition stored_since :: "int \<Rightarrow> 'r payments \<Rightarrow> bool" where
  "stored_since T p \<longleftrightarrow> (\<forall>(k, r) \<in> set (id_store (py_service p)). T \<le> ir_createdAt (id_heap (py_service p) r))"

definition event_in_window :: "int \<Rightarrow> int \<Rightarrow> 'r payment_event \<Rightarrow> bool" where
  "event_in_window T w e = (case e of PBegin now _ _ \<Rightarrow> T \<le> now | PEnd _ _ _ \<Rightarrow> True | PSweep now \<Rightarrow> now \<le> T + w)"

definition payments0 :: "int option \<Rightarrow> 'r payments" where
  "payments0 w = \<lparr>py_service = newIdempotencyService w, py_running = [], py_done = []\<rparr>"

lemma payments0_ok [simp]: "payments_ok (payments0 w)" "stored_since T (payments0 w)"
  by (simp_all add: payments0_def payments_ok_def newIdempotencyService_def stored_since_def)

lemma length_update: "length (AList.update k v m) \<le> Suc (length m)"
  by (induction m) auto

lemma length_delete: "length (AList.delete k m) \<le> length m"
  by (simp add: AList.delete_eq)

lemma sweep_young:
  "stored_since T p \<Longrightarrow> now \<le> T + id_windowMs (py_service p) \<Longrightarrow> payment_step p (PSweep now) = p"
proof -
  assume "stored_since T p" "now \<le> T + id_windowMs (py_service p)"
  then have "filter (\<lambda>(k, ref). \<not> ir_createdAt (id_heap (py_service p) ref) < now - id_windowMs (py_service p))
      (id_store (py_service p)) = id_store (py_service p)"
    by (intro filter_True) (fastforce simp: stored_since_def)
  then show ?thesis by (simp add: payment_step_def idem_cleanup_def Let_def)
qed


lemma begin_outcome_of:
  assumes ok: "payments_ok p" and "length (id_store (py_service p)) < MAX_KEYS"
  shows "k \<in> snd ` set (py_running p) \<Longrightarrow>
      fst (execute_begin now k h (py_service p)) \<in> {KeyCollision k, RequestInFlight k}"
    and "(k, v) \<in> set (py_done p) \<Longrightarrow>
      fst (execute_begin now k h (py_service p)) \<in> {KeyCollision k, Cached (Some v)}"
    and "k \<notin> snd ` set (py_running p) \<Longrightarrow> k \<notin> fst ` set (py_done p) \<Longrightarrow>
      \<exists>ref. fst (execute_begin now k h (py_service p)) = Started ref"
proof -
  note split = begin_cases [OF assms, of k now h]
  have A: "\<And>r k. (r, k) \<in> set (py_running p) \<Longrightarrow> map_of (id_store (py_service p)) k = Some r \<and>
      ir_status (id_heap (py_service p) r) = Pending"
    and B: "\<And>k v. (k, v) \<in> set (py_done p) \<Longrightarrow> \<exists>r. map_of (id_store (py_service p)) k = Some r \<and>
      ir_status (id_heap (py_service p) r) = Completed \<and> ir_response (id_heap (py_service p) r) = Some v"
    and D: "\<And>k r. map_of (id_store (py_service p)) k = Some r \<Longrightarrow>
      (r, k) \<in> set (py_running p) \<or> k \<in> fst ` set (py_done p)"
    using ok unfolding payments_ok_def by blast+
  show "k \<in> snd ` set (py_running p) \<Longrightarrow>
      fst (execute_begin now k h (py_service p)) \<in> {KeyCollision k, RequestInFlight k}"
    using A split by fastforce
  show "(k, v) \<in> set (py_done p) \<Longrightarrow>
      fst (execute_begin now k h (py_service p)) \<in> {KeyCollision k, Cached (Some v)}"
    using B split by fastforce
  show "\<exists>ref. fst (execute_begin now k h (py_service p)) = Started ref"
    if "k \<notin> snd ` set (py_running p)" "k \<notin> fst ` set (py_done p)"
    using split D [of k] that by force
qed

lemma begin_store:
  assumes "length (id_store (py_service p)) < MAX_KEYS" "stored_since T p" "T \<le> now" "payments_ok p"
  shows "length (id_store (py_service (payment_step p (PBegin now key hash)))) \<le> Suc (length (id_store (py_service p)))"
    and "stored_since T (payment_step p (PBegin now key hash))"
    and "id_windowMs (py_service (payment_step p (PBegin now key hash))) = id_windowMs (py_service p)"
proof -
  have fresh: "map_of (id_store (py_service p)) k = Some r \<Longrightarrow> r < id_next (py_service p)" for k r
    using assms(4) unfolding payments_ok_def by blast
  have mem: "map_of (id_store (py_service p)) k = Some r" if "(k, r) \<in> set (id_store (py_service p))" for k r
    using assms(4) that unfolding payments_ok_def obj_ok_def obj_keys_def by simp
  have eq: "payment_step p (PBegin now key hash) = p \<or>
      payment_step p (PBegin now key hash) = p\<lparr>py_service := snd (store_pending now key hash (py_service p)),
        py_running := (id_next (py_service p), key) # py_running p\<rparr>"
    using begin_cases [OF assms(4,1), of key now hash]
    by (cases "execute_begin now key hash (py_service p)")
      (auto simp: payment_step_def split: begin_outcome.splits)
  have new: "stored_since T (p\<lparr>py_service := snd (store_pending now key hash (py_service p)),
      py_running := (id_next (py_service p), key) # py_running p\<rparr>)"
    unfolding stored_since_def
  proof (clarify)
    fix k r
    assume "(k, r) \<in> set (id_store (py_service (p\<lparr>py_service := snd (store_pending now key hash (py_service p)),
      py_running := (id_next (py_service p), key) # py_running p\<rparr>)))"
    then have "(k, r) \<in> set (AList.update key (id_next (py_service p)) (id_store (py_service p)))"
      by (simp add: store_pending_def Let_def)
    then have "(k, r) = (key, id_next (py_service p)) \<or> (k, r) \<in> set (id_store (py_service p))"
      by (meson insertE set_update subsetD)
    then show "T \<le> ir_createdAt (id_heap (py_service (p\<lparr>py_service := snd (store_pending now key hash (py_service p)),
      py_running := (id_next (py_service p), key) # py_running p\<rparr>)) r)"
    proof
      assume "(k, r) \<in> set (id_store (py_service p))"
      with fresh [OF mem] assms(2) show ?thesis
        by (fastforce simp: store_pending_def Let_def stored_since_def)
    qed (use assms(3) in \<open>simp add: store_pending_def Let_def\<close>)
  qed
  show "length (id_store (py_service (payment_step p (PBegin now key hash)))) \<le> Suc (length (id_store (py_service p)))"
    using eq length_update [of key "id_next (py_service p)" "id_store (py_service p)"]
    by (auto simp: store_pending_def Let_def)
  show "stored_since T (payment_step p (PBegin now key hash))"
    using eq new assms(2) by metis
  show "id_windowMs (py_service (payment_step p (PBegin now key hash))) = id_windowMs (py_service p)"
    using eq by (auto simp: store_pending_def Let_def)
qed

lemma end_store:
  assumes "stored_since T p"
  shows "length (id_store (py_service (payment_step p (PEnd now ref result)))) \<le> length (id_store (py_service p))"
    and "stored_since T (payment_step p (PEnd now ref result))"
    and "id_windowMs (py_service (payment_step p (PEnd now ref result))) = id_windowMs (py_service p)"
proof -
  have same: "id_windowMs (execute_end now k ref result s) = id_windowMs s"
    "length (id_store (execute_end now k ref result s)) \<le> length (id_store s)"
    "set (id_store (execute_end now k ref result s)) \<subseteq> set (id_store s)"
    "ir_createdAt (id_heap (execute_end now k ref result s) r) = ir_createdAt (id_heap s r)" for k s r
    by (cases result; simp add: execute_end_def AList.delete_eq length_filter_le)+
  show "length (id_store (py_service (payment_step p (PEnd now ref result)))) \<le> length (id_store (py_service p))"
    "id_windowMs (py_service (payment_step p (PEnd now ref result))) = id_windowMs (py_service p)"
    by (simp_all add: payment_step_def same split: option.split)
  show "stored_since T (payment_step p (PEnd now ref result))"
    using assms same(3) unfolding stored_since_def
    by (fastforce simp: payment_step_def same(4) split: option.split)
qed

lemma payments_run:
  assumes "payments_ok p" "stored_since T p" "id_windowMs (py_service p) = w"
    "length (id_store (py_service p)) + begins es \<le> n" "n \<le> MAX_KEYS" "\<forall>e \<in> set es. event_in_window T w e"
  shows "payments_ok (foldl payment_step p es) \<and> length (id_store (py_service (foldl payment_step p es))) \<le> n"
  using assms
proof (induction es arbitrary: p)
  case Nil
  then show ?case by (simp add: begins_def)
next
  case (Cons e es)
  have "payments_ok (payment_step p e) \<and> stored_since T (payment_step p e) \<and>
      id_windowMs (py_service (payment_step p e)) = w \<and>
      length (id_store (py_service (payment_step p e))) + begins es \<le> n"
  proof (cases e)
    case (PBegin now key hash)
    with Cons.prems have "length (id_store (py_service p)) < MAX_KEYS" "T \<le> now"
      "Suc (length (id_store (py_service p))) + begins es \<le> n"
      by (auto simp: begins_def is_begin_def event_in_window_def)
    with begin_ok [OF Cons.prems(1)] begin_store [OF _ Cons.prems(2) _ Cons.prems(1)] Cons.prems(3) PBegin
    show ?thesis by (meson add_le_mono1 le_trans)
  next
    case (PEnd now ref result)
    have "begins (e # es) = begins es" by (simp add: begins_def is_begin_def PEnd)
    with end_ok [OF Cons.prems(1)] end_store [OF Cons.prems(2), of now ref result] Cons.prems(3,4) PEnd
    show ?thesis by simp
  next
    case (PSweep now)
    have "begins (e # es) = begins es" by (simp add: begins_def is_begin_def PSweep)
    with sweep_young [OF Cons.prems(2), of now] Cons.prems PSweep show ?thesis
      by (simp add: event_in_window_def)
  qed
  with Cons.IH [of "payment_step p e"] Cons.prems(5,6) show ?case by simp
qed


section \<open>Properties\<close>

text \<open>C8: At most once. As long as fewer than \<open>MAX_KEYS\<close> executions begin and nothing is swept that is
  younger than the window, in every interleaving of executions, their ends and the cleanup timer, no
  key is executed successfully twice, no two executions of one key overlap, and no finished key runs
  again. A repeat of a finished key gets the stored response (or the collision error for another
  payload), a repeat of a running key one of the two errors, and a key that never ran or failed may
  run.\<close>

theorem payments_run_at_most_once:
  assumes "begins es < MAX_KEYS" "\<forall>e \<in> set es. event_in_window T (id_windowMs (newIdempotencyService w)) e"
    and p: "p = foldl payment_step (payments0 w) es"
  shows "distinct (map fst (py_done p)) \<and> distinct (map snd (py_running p)) \<and>
    snd ` set (py_running p) \<inter> fst ` set (py_done p) = {} \<and>
    (\<forall>k v now h. (k, v) \<in> set (py_done p) \<longrightarrow>
       fst (execute_begin now k h (py_service p)) \<in> {KeyCollision k, Cached (Some v)}) \<and>
    (\<forall>k \<in> snd ` set (py_running p). \<forall>now h.
       fst (execute_begin now k h (py_service p)) \<in> {KeyCollision k, RequestInFlight k}) \<and>
    (\<forall>k now h. k \<notin> snd ` set (py_running p) \<union> fst ` set (py_done p) \<longrightarrow>
       (\<exists>ref. fst (execute_begin now k h (py_service p)) = Started ref))"
proof -
  have "payments_ok p \<and> length (id_store (py_service p)) \<le> begins es" unfolding p
    by (rule payments_run [where T = T and w = "id_windowMs (newIdempotencyService w)"])
      (use assms(1,2) in \<open>simp_all add: payments0_def payments_ok_def stored_since_def newIdempotencyService_def\<close>)
  then have ok: "payments_ok p" and len: "length (id_store (py_service p)) < MAX_KEYS" using assms(1) by auto
  have A: "\<And>r k. (r, k) \<in> set (py_running p) \<Longrightarrow> map_of (id_store (py_service p)) k = Some r \<and>
      ir_status (id_heap (py_service p) r) = Pending"
    and B: "\<And>k v. (k, v) \<in> set (py_done p) \<Longrightarrow> \<exists>r. map_of (id_store (py_service p)) k = Some r \<and>
      ir_status (id_heap (py_service p) r) = Completed"
    and dist: "distinct (map fst (py_running p))" "distinct (map fst (py_done p))"
    using ok unfolding payments_ok_def by blast+
  have "distinct (map snd (py_running p))"
    unfolding distinct_map
  proof
    from dist(1) show "distinct (py_running p)" by (simp add: distinct_map)
    show "inj_on snd (set (py_running p))"
      by (rule inj_onI) (metis A option.inject prod.collapse)
  qed
  moreover have "snd ` set (py_running p) \<inter> fst ` set (py_done p) = {}"
    using A B by fastforce
  ultimately show ?thesis
    using dist(2) begin_outcome_of [OF ok len]
    by (intro conjI allI ballI impI) (assumption | simp only: Un_iff de_Morgan_disj | elim conjE)+
qed

definition payments_demo :: "nat payments" where
  "payments_demo = foldl payment_step (payments0 None)
     [PBegin 0 ''k'' ''h'', PBegin 1 ''k'' ''h'', PEnd 2 0 (Inr 7), PSweep 5, PBegin 6 ''k'' ''h'']"

lemma payments_run_at_most_once_witness:
  "py_done payments_demo = [(''k'', 7)] \<and>
   fst (execute_begin 8 ''k'' ''h'' (py_service payments_demo)) \<in> {KeyCollision ''k'', Cached (Some 7)}"
proof -
  have "py_done payments_demo = [(''k'', 7)]"
    by (simp add: payments_demo_def payment_step_def execute_begin_def execute_end_def enforceStorageLimit_def
        store_pending_def payments0_def newIdempotencyService_def MAX_KEYS_def WINDOW_MS_def idem_cleanup_def Let_def)
  then show ?thesis
    using payments_run_at_most_once [of "[PBegin 0 ''k'' ''h'', PBegin 1 ''k'' ''h'', PEnd 2 0 (Inr 7), PSweep 5,
      PBegin 6 ''k'' ''h'']" 0 None payments_demo]
    by (simp add: payments_demo_def begins_def is_begin_def MAX_KEYS_def event_in_window_def
        newIdempotencyService_def WINDOW_MS_def)
qed

text \<open>At the storage limit the guarantee ends: the eviction of the oldest tenth does not spare
  executions in flight. A repeat of a running payment whose key is in that tenth is started again,
  and both executions then succeed.\<close>

theorem eviction_forgets_running_payments:
  assumes "obj_ok (id_store (py_service p))" "MAX_KEYS \<le> length (id_store (py_service p))"
    and "map_of (py_running p) r = Some k" "id_next (py_service p) \<notin> fst ` set (py_running p)"
    and "k \<in> fst ` set (take (MAX_KEYS div 10) (id_store (py_service p)))"
  shows "py_done (foldl payment_step p [PBegin t1 k h, PEnd t2 r (Inr v), PEnd t3 (id_next (py_service p)) (Inr v')]) =
    py_done p @ [(k, v), (k, v')]"
proof -
  let ?n = "MAX_KEYS div 10" and ?s = "py_service p"
  have "distinct (map fst (take ?n (id_store ?s) @ drop ?n (id_store ?s)))"
    using assms(1) by (simp add: obj_ok_def obj_keys_def)
  then have "k \<notin> fst ` set (drop ?n (id_store ?s))" using assms(5) unfolding map_append distinct_append by auto
  then have "map_of (drop ?n (id_store ?s)) k = None" by (simp add: map_of_eq_None_iff)
  then have "\<exists>s. execute_begin t1 k h ?s = (Started (id_next ?s), s)"
    using assms(2) by (simp add: execute_begin_def enforceStorageLimit_def store_pending_def Let_def)
  then obtain s where started: "execute_begin t1 k h ?s = (Started (id_next ?s), s)" by blast
  have r: "r \<noteq> id_next ?s" using map_of_SomeD [OF assms(3)] assms(4) by force
  define p1 where "p1 = p\<lparr>py_service := s, py_running := (id_next ?s, k) # py_running p\<rparr>"
  have p1: "payment_step p (PBegin t1 k h) = p1"
    by (simp add: payment_step_def started p1_def)
  have run1: "map_of (py_running p1) r = Some k" "map_of (py_running p1) (id_next ?s) = Some k" "py_done p1 = py_done p"
    using r assms(3) by (simp_all add: p1_def)
  define p2 where "p2 = payment_step p1 (PEnd t2 r (Inr v))"
  have "map_of (py_running p2) (id_next ?s) = Some k" "py_done p2 = py_done p @ [(k, v)]"
    using r run1 by (simp_all add: p2_def payment_step_def)
  then have "py_done (payment_step p2 (PEnd t3 (id_next ?s) (Inr v'))) = py_done p @ [(k, v), (k, v')]"
    by (simp add: payment_step_def)
  then show ?thesis by (simp add: p1 p2_def)
qed

definition full_payments :: "nat payments" where
  "full_payments = \<lparr>py_service = \<lparr>id_store = map (\<lambda>i. (replicate i (CHR ''k''), i)) [0..<MAX_KEYS],
     id_heap = (\<lambda>_. null_record), id_next = MAX_KEYS, id_windowMs = WINDOW_MS\<rparr>,
     py_running = [(0, '''')], py_done = []\<rparr>"

lemma eviction_forgets_running_payments_witness:
  "py_done (foldl payment_step full_payments [PBegin 1 '''' ''h'', PEnd 2 0 (Inr 7), PEnd 3 MAX_KEYS (Inr 8)]) =
    [('''', 7), ('''', 8)]"
proof -
  have keys: "obj_keys (id_store (py_service full_payments)) = map (\<lambda>i. replicate i (CHR ''k'')) [0..<MAX_KEYS]"
    by (simp add: full_payments_def obj_keys_def)
  have "obj_ok (id_store (py_service full_payments))"
    unfolding obj_ok_def keys distinct_map by (auto intro!: inj_onI dest: arg_cong [of _ _ length])
  moreover have "('''', 0) \<in> set (take (MAX_KEYS div 10) (id_store (py_service full_payments)))"
    unfolding in_set_conv_nth by (rule exI [of _ 0]) (simp add: full_payments_def MAX_KEYS_def del: upt_rec_numeral)
  then have "'''' \<in> fst ` set (take (MAX_KEYS div 10) (id_store (py_service full_payments)))" by force
  moreover have "MAX_KEYS \<le> length (id_store (py_service full_payments))"
    "map_of (py_running full_payments) 0 = Some ''''"
    "id_next (py_service full_payments) = MAX_KEYS" "MAX_KEYS \<notin> fst ` set (py_running full_payments)"
    "py_done full_payments = []"
    by (simp_all add: full_payments_def) (simp add: MAX_KEYS_def)
  ultimately show ?thesis
    using eviction_forgets_running_payments [of full_payments 0 "''''" 1 "''h''" 2 7 3 8]
    by simp
qed

end
