(* ===== verification/JsNumber.thy ===== *)
theory JsNumber
  imports Complex_Main Prelude
begin

text \<open>
  The number idioms of the billing code: \<open>Math.round\<close> and \<open>toFixed(1)\<close> on rationals (numbers are
  exact here, without the rounding of 64-bit floats), clock arithmetic in milliseconds, and the
  UTC hour of an instant.
\<close>

definition ONE_HOUR_MS :: int where "ONE_HOUR_MS = 3600000"
definition ONE_DAY_MS :: int where "ONE_DAY_MS = 86400000"

text \<open>\<open>Math.round(x)\<close>: halves go up.\<close>

definition js_round :: "rat \<Rightarrow> int" where
  "js_round x = \<lfloor>x + 1/2\<rfloor>"

lemma js_round_bounds: "x - 1/2 < of_int (js_round x) \<and> of_int (js_round x) \<le> x + 1/2"
  unfolding js_round_def by linarith

lemma js_round_mono: "x \<le> y \<Longrightarrow> js_round x \<le> js_round y"
  unfolding js_round_def by (intro floor_mono) simp

lemma js_round_int [simp]: "js_round (of_int n) = n"
  unfolding js_round_def by (simp add: floor_unique)

lemma js_round_0 [simp]: "js_round 0 = 0"
  using js_round_int [of 0] by simp

text \<open>\<open>x.toFixed(1)\<close> for a number that is not negative.\<close>

definition toFixed1 :: "rat \<Rightarrow> string" where
  "toFixed1 x = (let n = nat (js_round (10 * x)) in show_nat (n div 10) @ ''.'' @ show_nat (n mod 10))"

text \<open>\<open>new Date(ms).getUTCHours()\<close> and \<open>getUTCDay()\<close> (the epoch was a Thursday).\<close>

definition utcHours :: "int \<Rightarrow> nat" where
  "utcHours ms = nat (ms div ONE_HOUR_MS mod 24)"

definition utcDay :: "int \<Rightarrow> nat" where
  "utcDay ms = nat ((ms div ONE_DAY_MS + 4) mod 7)"

lemma utcHours_less [simp]: "utcHours ms < 24"
  by (simp add: utcHours_def nat_less_iff)

text \<open>A list of counters, one of them incremented.\<close>

definition bump :: "nat list \<Rightarrow> nat \<Rightarrow> nat list" where
  "bump xs i = xs[i := xs ! i + 1]"

lemma length_bump [simp]: "length (bump xs i) = length xs"
  by (simp add: bump_def)

lemma sum_list_bump: "i < length xs \<Longrightarrow> sum_list (bump xs i) = sum_list xs + 1"
  by (simp add: bump_def sum_list_update)

definition rat_sum :: "rat list \<Rightarrow> rat" where
  "rat_sum xs = foldl (+) 0 xs"

lemma rat_sum_sum_list: "rat_sum xs = sum_list xs"
proof -
  have "foldl (+) a xs = a + sum_list xs" for a :: rat
    by (induction xs arbitrary: a) (auto simp: add.assoc)
  then show ?thesis by (simp add: rat_sum_def)
qed

end
