(* ===== verification/Dunning.thy ===== *)
theory Dunning
  imports JsNumber
begin

text \<open>
  Payment retries and grace periods, \<^verbatim>\<open>backend/services/billing/dunning.ts\<close>: the
  \<open>IntelligentRetryScheduler\<close> and the \<open>DunningOrchestrator\<close> around it. The clock and
  \<open>Math.random()\<close> are arguments, hours are rationals, time stamps (also the ISO strings) are
  milliseconds, and the outreach dispatcher is a parameter that says which payloads are delivered.
\<close>

section \<open>Constants and types\<close>

definition MAX_RETRIES_CAP :: int where "MAX_RETRIES_CAP = 10"
definition MIN_RETRY_DELAY_HOURS :: rat where "MIN_RETRY_DELAY_HOURS = 1/4"
definition SPLIT_THRESHOLD_AMOUNT :: rat where "SPLIT_THRESHOLD_AMOUNT = 500"

datatype DeclineCode = InsufficientFunds | CardExpired | CardLostStolen | DoNotHonor
  | AuthenticationRequired | GenericDecline | NetworkError | ProcessingError

datatype OutreachChannel = Email | Sms | Push

record PlanRetryPolicy =
  rp_maxRetries :: int
  rp_baseDelayHours :: rat
  rp_backoffMultiplier :: rat
  rp_maxDelayHours :: rat
  rp_circuitBreakerThreshold :: int
  rp_circuitBreakerCooldownHours :: rat
  rp_jitterHours :: rat

text \<open>\<open>Partial<RetryPolicy>\<close>\<close>

record PartialRetryPolicy =
  pp_maxRetries :: "int option"
  pp_baseDelayHours :: "rat option"
  pp_backoffMultiplier :: "rat option"
  pp_maxDelayHours :: "rat option"
  pp_circuitBreakerThreshold :: "int option"
  pp_circuitBreakerCooldownHours :: "rat option"
  pp_jitterHours :: "rat option"

record PlanRetryDecision =
  pd_shouldRetry :: bool
  pd_delayHours :: rat
  pd_outreachChannel :: OutreachChannel
  pd_reason :: string
  pd_escalatePriority :: bool
  pd_splitAmount :: "int option"

record SuccessDataPoint =
  sp_utcHour :: nat
  sp_utcDayOfWeek :: nat

record RetryRecord =
  rr_invoiceId :: string
  rr_subscriptionId :: string
  rr_amount :: rat
  rr_currency :: string
  rr_attempts :: nat
  rr_maxAttempts :: int
  rr_lastDeclineCode :: "DeclineCode option"
  rr_cardUpdaterTriggered :: bool
  rr_circuitBreakerUntil :: "rat option"
  rr_successHistory :: "SuccessDataPoint list"
  rr_createdAt :: int
  rr_updatedAt :: int

record CircuitBreakerStatus =
  cs_isOpen :: bool
  cs_opensUntil :: "rat option"

text \<open>The em dash of the reasons, in UTF-8.\<close>

definition em_dash :: string where
  "em_dash = [CHR 0xE2, CHR 0x80, CHR 0x94]"

fun DECLINE_PROFILES :: "DeclineCode \<Rightarrow> PlanRetryDecision" where
  "DECLINE_PROFILES InsufficientFunds = \<lparr>pd_shouldRetry = True, pd_delayHours = 24, pd_outreachChannel = Push,
     pd_reason = ''Insufficient funds '' @ em_dash @ '' retry after 24 h'', pd_escalatePriority = False, pd_splitAmount = None\<rparr>"
| "DECLINE_PROFILES CardExpired = \<lparr>pd_shouldRetry = True, pd_delayHours = 1, pd_outreachChannel = Email,
     pd_reason = ''Card expired '' @ em_dash @ '' trigger card updater, retry after 1 h'', pd_escalatePriority = False, pd_splitAmount = None\<rparr>"
| "DECLINE_PROFILES CardLostStolen = \<lparr>pd_shouldRetry = False, pd_delayHours = 0, pd_outreachChannel = Email,
     pd_reason = ''Card lost/stolen '' @ em_dash @ '' do not retry, contact subscriber'', pd_escalatePriority = True, pd_splitAmount = None\<rparr>"
| "DECLINE_PROFILES DoNotHonor = \<lparr>pd_shouldRetry = True, pd_delayHours = 48, pd_outreachChannel = Email,
     pd_reason = ''Do not honor '' @ em_dash @ '' retry after 48 h'', pd_escalatePriority = False, pd_splitAmount = None\<rparr>"
| "DECLINE_PROFILES AuthenticationRequired = \<lparr>pd_shouldRetry = True, pd_delayHours = 1/2, pd_outreachChannel = Push,
     pd_reason = ''Authentication required '' @ em_dash @ '' prompt subscriber via push'', pd_escalatePriority = False, pd_splitAmount = None\<rparr>"
| "DECLINE_PROFILES GenericDecline = \<lparr>pd_shouldRetry = True, pd_delayHours = 6, pd_outreachChannel = Email,
     pd_reason = ''Generic decline '' @ em_dash @ '' retry after 6 h'', pd_escalatePriority = False, pd_splitAmount = None\<rparr>"
| "DECLINE_PROFILES NetworkError = \<lparr>pd_shouldRetry = True, pd_delayHours = 1/2, pd_outreachChannel = Email,
     pd_reason = ''Network error '' @ em_dash @ '' retry after 30 min'', pd_escalatePriority = False, pd_splitAmount = None\<rparr>"
| "DECLINE_PROFILES ProcessingError = \<lparr>pd_shouldRetry = True, pd_delayHours = 1, pd_outreachChannel = Email,
     pd_reason = ''Processing error '' @ em_dash @ '' retry after 1 h'', pd_escalatePriority = False, pd_splitAmount = None\<rparr>"

definition DEFAULT_RETRY_POLICY :: PlanRetryPolicy where
  "DEFAULT_RETRY_POLICY = \<lparr>rp_maxRetries = 4, rp_baseDelayHours = 1, rp_backoffMultiplier = 2, rp_maxDelayHours = 72,
     rp_circuitBreakerThreshold = 5, rp_circuitBreakerCooldownHours = 24, rp_jitterHours = 1/2\<rparr>"

section \<open>The retry scheduler\<close>

record RetryScheduler =
  rs_records :: "RetryRecord obj"
  rs_policies :: "PlanRetryPolicy obj"

definition newRetryScheduler :: RetryScheduler where
  "newRetryScheduler = \<lparr>rs_records = [], rs_policies = []\<rparr>"

definition getPlanPolicy :: "string \<Rightarrow> RetryScheduler \<Rightarrow> PlanRetryPolicy" where
  "getPlanPolicy planId s = obj_or DEFAULT_RETRY_POLICY (rs_policies s) planId"

definition or_else :: "'a option \<Rightarrow> 'a \<Rightarrow> 'a" where
  "or_else v d = (case v of None \<Rightarrow> d | Some x \<Rightarrow> x)"

definition setPlanPolicy :: "string \<Rightarrow> PartialRetryPolicy \<Rightarrow> RetryScheduler \<Rightarrow> PlanRetryPolicy \<times> RetryScheduler" where
  "setPlanPolicy planId policy s =
     (let base = getPlanPolicy planId s;
          merged = \<lparr>rp_maxRetries = min (or_else (pp_maxRetries policy) (rp_maxRetries base)) MAX_RETRIES_CAP,
            rp_baseDelayHours = or_else (pp_baseDelayHours policy) (rp_baseDelayHours base),
            rp_backoffMultiplier = or_else (pp_backoffMultiplier policy) (rp_backoffMultiplier base),
            rp_maxDelayHours = or_else (pp_maxDelayHours policy) (rp_maxDelayHours base),
            rp_circuitBreakerThreshold = or_else (pp_circuitBreakerThreshold policy) (rp_circuitBreakerThreshold base),
            rp_circuitBreakerCooldownHours = or_else (pp_circuitBreakerCooldownHours policy) (rp_circuitBreakerCooldownHours base),
            rp_jitterHours = or_else (pp_jitterHours policy) (rp_jitterHours base)\<rparr>
      in (merged, s\<lparr>rs_policies := AList.update planId merged (rs_policies s)\<rparr>))"

definition new_record :: "int \<Rightarrow> string \<Rightarrow> string \<Rightarrow> PlanRetryPolicy \<Rightarrow> rat \<Rightarrow> string \<Rightarrow> RetryRecord" where
  "new_record now invoiceId subscriptionId policy amount currency =
     \<lparr>rr_invoiceId = invoiceId, rr_subscriptionId = subscriptionId, rr_amount = amount, rr_currency = currency,
      rr_attempts = 0, rr_maxAttempts = rp_maxRetries policy, rr_lastDeclineCode = None,
      rr_cardUpdaterTriggered = False, rr_circuitBreakerUntil = None, rr_successHistory = [],
      rr_createdAt = now, rr_updatedAt = now\<rparr>"

definition register_invoice :: "int \<Rightarrow> string \<Rightarrow> string \<Rightarrow> string \<Rightarrow> rat \<Rightarrow> string \<Rightarrow> RetryScheduler \<Rightarrow> RetryScheduler" where
  "register_invoice now invoiceId subscriptionId planId amount currency s =
     s\<lparr>rs_records := AList.update invoiceId
         (new_record now invoiceId subscriptionId (getPlanPolicy planId s) amount currency) (rs_records s)\<rparr>"

text \<open>The status, and the record as the call leaves it (it may trip or reset the breaker).\<close>

definition getCircuitBreakerStatus :: "int \<Rightarrow> PlanRetryPolicy \<Rightarrow> RetryRecord \<Rightarrow> CircuitBreakerStatus \<times> RetryRecord" where
  "getCircuitBreakerStatus now policy rec =
     (if int (rr_attempts rec) < rp_circuitBreakerThreshold policy then (\<lparr>cs_isOpen = False, cs_opensUntil = None\<rparr>, rec)
      else
        let until = (case rr_circuitBreakerUntil rec of
              None \<Rightarrow> of_int now + rp_circuitBreakerCooldownHours policy * of_int ONE_HOUR_MS
            | Some u \<Rightarrow> u)
        in if of_int now < until
           then (\<lparr>cs_isOpen = True, cs_opensUntil = Some until\<rparr>, rec\<lparr>rr_circuitBreakerUntil := Some until\<rparr>)
           else (\<lparr>cs_isOpen = False, cs_opensUntil = None\<rparr>, rec\<lparr>rr_circuitBreakerUntil := None, rr_attempts := 0\<rparr>))"

definition applyExponentialBackoff :: "rat \<Rightarrow> nat \<Rightarrow> PlanRetryPolicy \<Rightarrow> rat" where
  "applyExponentialBackoff baseHours n policy =
     (if n = 0 then baseHours else min (baseHours * rp_backoffMultiplier policy ^ n) (rp_maxDelayHours policy))"

definition hour_counts :: "SuccessDataPoint list \<Rightarrow> nat list" where
  "hour_counts history = foldl (\<lambda>counts h. bump counts (sp_utcHour h)) (replicate 24 0) history"

definition best_hour :: "SuccessDataPoint list \<Rightarrow> nat" where
  "best_hour history =
     (let counts = hour_counts history
      in case js_findIndex (\<lambda>n. n = Max (set counts)) counts of None \<Rightarrow> 0 | Some i \<Rightarrow> i)"

definition applyHistoricalShift :: "int \<Rightarrow> rat \<Rightarrow> SuccessDataPoint list \<Rightarrow> rat" where
  "applyHistoricalShift now delayHours history =
     (if history = [] then delayHours
      else let hoursUntilBest = (int (best_hour history) - int (utcHours now) + 24) mod 24
           in if \<bar>of_int hoursUntilBest - delayHours\<bar> \<le> 2
              then (if 0 < hoursUntilBest then of_int hoursUntilBest else delayHours)
              else delayHours)"

definition applyJitter :: "rat \<Rightarrow> rat \<Rightarrow> rat \<Rightarrow> rat" where
  "applyJitter random delayHours jitterHours =
     (if jitterHours \<le> 0 then delayHours
      else max (delayHours + (random - 1/2) * jitterHours) MIN_RETRY_DELAY_HOURS)"

definition retry_delay :: "int \<Rightarrow> rat \<Rightarrow> PlanRetryPolicy \<Rightarrow> PlanRetryDecision \<Rightarrow> RetryRecord \<Rightarrow> rat" where
  "retry_delay now random policy profile rec =
     min (max (applyJitter random
                 (applyHistoricalShift now
                    (applyExponentialBackoff (pd_delayHours profile) (rr_attempts rec) policy)
                    (rr_successHistory rec))
                 (rp_jitterHours policy))
              MIN_RETRY_DELAY_HOURS)
         (rp_maxDelayHours policy)"

definition hours_left :: "int \<Rightarrow> CircuitBreakerStatus \<Rightarrow> PlanRetryPolicy \<Rightarrow> rat" where
  "hours_left now cbStatus policy =
     (case cs_opensUntil cbStatus of
        Some u \<Rightarrow> if u \<noteq> 0 then (u - of_int now) / of_int ONE_HOUR_MS else rp_circuitBreakerCooldownHours policy
      | None \<Rightarrow> rp_circuitBreakerCooldownHours policy)"

definition refuse :: "rat \<Rightarrow> OutreachChannel \<Rightarrow> string \<Rightarrow> bool \<Rightarrow> PlanRetryDecision" where
  "refuse delayHours channel reason escalate =
     \<lparr>pd_shouldRetry = False, pd_delayHours = delayHours, pd_outreachChannel = channel, pd_reason = reason,
      pd_escalatePriority = escalate, pd_splitAmount = None\<rparr>"

definition split_amount :: "RetryRecord \<Rightarrow> int option" where
  "split_amount rec =
     (if SPLIT_THRESHOLD_AMOUNT < rr_amount rec \<and> rr_attempts rec \<le> 1 then Some (js_round (rr_amount rec / 2)) else None)"

definition decideRetry :: "int \<Rightarrow> rat \<Rightarrow> string \<Rightarrow> DeclineCode \<Rightarrow> string \<Rightarrow> RetryScheduler
    \<Rightarrow> PlanRetryDecision \<times> RetryScheduler" where
  "decideRetry now random invoiceId declineCode planId s =
     (case map_of (rs_records s) invoiceId of
        None \<Rightarrow> (refuse 0 Email (''Invoice '' @ invoiceId @ '' not registered'') False, s)
      | Some rec0 \<Rightarrow>
          (let policy = getPlanPolicy planId s; profile = DECLINE_PROFILES declineCode
           in if \<not> pd_shouldRetry profile then (profile, s)
              else if rr_maxAttempts rec0 \<le> int (rr_attempts rec0)
              then (refuse 0 Sms (''Max retries ('' @ show_int (rr_maxAttempts rec0) @ '') reached'') True, s)
              else
                (case getCircuitBreakerStatus now policy rec0 of
                   (cbStatus, rec) \<Rightarrow>
                     if cs_isOpen cbStatus
                     then (refuse (hours_left now cbStatus policy) Email
                             (''Circuit breaker open '' @ em_dash @ '' resume after '' @
                                toFixed1 (hours_left now cbStatus policy) @ '' h'') False,
                           s\<lparr>rs_records := AList.update invoiceId rec (rs_records s)\<rparr>)
                     else (\<lparr>pd_shouldRetry = True, pd_delayHours = retry_delay now random policy profile rec,
                             pd_outreachChannel = pd_outreachChannel profile, pd_reason = pd_reason profile,
                             pd_escalatePriority = pd_escalatePriority profile, pd_splitAmount = split_amount rec\<rparr>,
                           s\<lparr>rs_records := AList.update invoiceId
                               (rec\<lparr>rr_cardUpdaterTriggered := rr_cardUpdaterTriggered rec \<or> declineCode = CardExpired,
                                    rr_attempts := rr_attempts rec + 1, rr_lastDeclineCode := Some declineCode,
                                    rr_updatedAt := now\<rparr>) (rs_records s)\<rparr>))))"

definition recordPaymentSuccess :: "int \<Rightarrow> string \<Rightarrow> RetryScheduler \<Rightarrow> RetryScheduler" where
  "recordPaymentSuccess now invoiceId s =
     (case map_of (rs_records s) invoiceId of
        None \<Rightarrow> s
      | Some rec \<Rightarrow> s\<lparr>rs_records := AList.update invoiceId
          (rec\<lparr>rr_successHistory := rr_successHistory rec @ [\<lparr>sp_utcHour = utcHours now, sp_utcDayOfWeek = utcDay now\<rparr>],
               rr_updatedAt := now\<rparr>) (rs_records s)\<rparr>)"

definition getRecord :: "string \<Rightarrow> RetryScheduler \<Rightarrow> RetryRecord option" where
  "getRecord invoiceId s = map_of (rs_records s) invoiceId"

definition getAllRecords :: "RetryScheduler \<Rightarrow> RetryRecord list" where
  "getAllRecords s = map snd (rs_records s)"

record RetryAnalytics =
  ra_totalInvoices :: int
  ra_exhaustedInvoices :: int
  ra_retryingInvoices :: int
  ra_successRate :: int
  ra_avgAttemptsToSuccess :: rat
  ra_declineBreakdown :: "(DeclineCode, int) jsmap"
  ra_hourlySuccessHeatmap :: "nat list"

definition count_decline :: "(DeclineCode, int) jsmap \<Rightarrow> RetryRecord \<Rightarrow> (DeclineCode, int) jsmap" where
  "count_decline breakdown r =
     (case rr_lastDeclineCode r of
        None \<Rightarrow> breakdown
      | Some code \<Rightarrow> AList.update code (obj_or 0 breakdown code + 1) breakdown)"

definition getRetryAnalytics :: "RetryScheduler \<Rightarrow> RetryAnalytics" where
  "getRetryAnalytics s =
     (let all = getAllRecords s;
          succeeded = filter (\<lambda>r. rr_successHistory r \<noteq> []) all;
          avgAttempts = (if 0 < length succeeded
            then rat_sum (map (\<lambda>r. of_nat (rr_attempts r)) succeeded) / of_nat (length succeeded) else 0)
      in \<lparr>ra_totalInvoices = int (length all),
          ra_exhaustedInvoices = int (length (filter (\<lambda>r. rr_maxAttempts r \<le> int (rr_attempts r)) all)),
          ra_retryingInvoices = int (length (filter (\<lambda>r. \<not> rr_maxAttempts r \<le> int (rr_attempts r) \<and> 0 < rr_attempts r) all)),
          ra_successRate = (if 0 < length all
            then js_round (of_nat (length succeeded) / of_nat (length all) * 100) else 0),
          ra_avgAttemptsToSuccess = of_int (js_round (avgAttempts * 10)) / 10,
          ra_declineBreakdown = foldl count_decline [] all,
          ra_hourlySuccessHeatmap = foldl (\<lambda>heatmap r. foldl (\<lambda>hm p. bump hm (sp_utcHour p)) heatmap (rr_successHistory r))
            (replicate 24 0) all\<rparr>)"

section \<open>Grace periods and the orchestrator\<close>

record GracePeriodConfig =
  gc_durationHours :: rat
  gc_sendReminders :: bool
  gc_reminderIntervalHours :: rat

definition DEFAULT_GRACE_PERIOD_CONFIG :: GracePeriodConfig where
  "DEFAULT_GRACE_PERIOD_CONFIG = \<lparr>gc_durationHours = 72, gc_sendReminders = True, gc_reminderIntervalHours = 24\<rparr>"

datatype GracePeriodStatus = GpActive | GpExpired | GpRecovered

record GracePeriod =
  gp_invoiceId :: string
  gp_subscriptionId :: string
  gp_startedAt :: int
  gp_expiresAt :: rat
  gp_status :: GracePeriodStatus
  gp_remindersSent :: nat
  gp_lastReminderAt :: "int option"

record OutreachPayload =
  op_subscriptionId :: string
  op_invoiceId :: string
  op_channel :: OutreachChannel
  op_message :: string
  op_escalate :: bool
  op_splitAmount :: "int option"

record DunningOrchestrator =
  do_scheduler :: RetryScheduler
  do_gracePeriodConfigs :: "GracePeriodConfig obj"
  do_defaultGracePeriod :: GracePeriodConfig
  do_gracePeriods :: "GracePeriod obj"

definition newDunningOrchestrator :: "RetryScheduler option \<Rightarrow> GracePeriodConfig obj option
    \<Rightarrow> GracePeriodConfig option \<Rightarrow> DunningOrchestrator" where
  "newDunningOrchestrator scheduler configs def =
     \<lparr>do_scheduler = or_else scheduler newRetryScheduler, do_gracePeriodConfigs = or_else configs [],
      do_defaultGracePeriod = or_else def DEFAULT_GRACE_PERIOD_CONFIG, do_gracePeriods = []\<rparr>"

definition orchestrator_setPlanPolicy :: "string \<Rightarrow> PartialRetryPolicy \<Rightarrow> DunningOrchestrator \<Rightarrow> PlanRetryPolicy \<times> DunningOrchestrator" where
  "orchestrator_setPlanPolicy planId policy d =
     (case setPlanPolicy planId policy (do_scheduler d) of (merged, s) \<Rightarrow> (merged, d\<lparr>do_scheduler := s\<rparr>))"

definition setGracePeriodConfig :: "string \<Rightarrow> GracePeriodConfig \<Rightarrow> DunningOrchestrator \<Rightarrow> DunningOrchestrator" where
  "setGracePeriodConfig planId config d =
     d\<lparr>do_gracePeriodConfigs := AList.update planId config (do_gracePeriodConfigs d)\<rparr>"

definition upsertGracePeriod :: "int \<Rightarrow> string \<Rightarrow> string \<Rightarrow> string \<Rightarrow> PlanRetryDecision \<Rightarrow> DunningOrchestrator
    \<Rightarrow> GracePeriod option \<times> DunningOrchestrator" where
  "upsertGracePeriod now invoiceId subscriptionId planId decision d =
     (if \<not> pd_shouldRetry decision \<and> \<not> pd_escalatePriority decision then (None, d)
      else
        (case map_of (do_gracePeriods d) invoiceId of
           Some existing \<Rightarrow> (Some existing, d)
         | None \<Rightarrow>
             (let config = obj_or (do_defaultGracePeriod d) (do_gracePeriodConfigs d) planId;
                  gp = \<lparr>gp_invoiceId = invoiceId, gp_subscriptionId = subscriptionId, gp_startedAt = now,
                    gp_expiresAt = of_int now + gc_durationHours config * of_int ONE_HOUR_MS, gp_status = GpActive,
                    gp_remindersSent = 0, gp_lastReminderAt = None\<rparr>
              in (Some gp, d\<lparr>do_gracePeriods := AList.update invoiceId gp (do_gracePeriods d)\<rparr>))))"

record ProcessFailedInput =
  pf_invoiceId :: string
  pf_subscriptionId :: string
  pf_planId :: string
  pf_amount :: rat
  pf_currency :: string
  pf_declineCode :: DeclineCode

record ProcessFailedResult =
  pr_decision :: PlanRetryDecision
  pr_gracePeriod :: "GracePeriod option"
  pr_outreachSent :: bool

definition should_notify :: "PlanRetryDecision \<Rightarrow> GracePeriod option \<Rightarrow> bool" where
  "should_notify decision gracePeriod \<longleftrightarrow> pd_shouldRetry decision \<or> pd_escalatePriority decision \<or>
     (case gracePeriod of None \<Rightarrow> False | Some gp \<Rightarrow> gp_status gp = GpActive)"

definition processFailed :: "(OutreachPayload \<Rightarrow> bool) \<Rightarrow> int \<Rightarrow> rat \<Rightarrow> ProcessFailedInput \<Rightarrow> DunningOrchestrator
    \<Rightarrow> ProcessFailedResult \<times> DunningOrchestrator" where
  "processFailed dispatcher now random input d =
     (let s0 = do_scheduler d;
          s1 = (case getRecord (pf_invoiceId input) s0 of
                  None \<Rightarrow> register_invoice now (pf_invoiceId input) (pf_subscriptionId input) (pf_planId input)
                            (pf_amount input) (pf_currency input) s0
                | Some _ \<Rightarrow> s0)
      in case decideRetry now random (pf_invoiceId input) (pf_declineCode input) (pf_planId input) s1 of
           (decision, s2) \<Rightarrow>
             (case upsertGracePeriod now (pf_invoiceId input) (pf_subscriptionId input) (pf_planId input) decision
                     (d\<lparr>do_scheduler := s2\<rparr>) of
                (gracePeriod, d2) \<Rightarrow>
                  (\<lparr>pr_decision = decision, pr_gracePeriod = gracePeriod,
                    pr_outreachSent = (should_notify decision gracePeriod \<and>
                      dispatcher \<lparr>op_subscriptionId = pf_subscriptionId input, op_invoiceId = pf_invoiceId input,
                        op_channel = pd_outreachChannel decision, op_message = pd_reason decision,
                        op_escalate = pd_escalatePriority decision, op_splitAmount = pd_splitAmount decision\<rparr>)\<rparr>, d2)))"

definition processSuccess :: "int \<Rightarrow> string \<Rightarrow> DunningOrchestrator \<Rightarrow> DunningOrchestrator" where
  "processSuccess now invoiceId d =
     (let d1 = d\<lparr>do_scheduler := recordPaymentSuccess now invoiceId (do_scheduler d)\<rparr>
      in case map_of (do_gracePeriods d1) invoiceId of
           None \<Rightarrow> d1
         | Some gp \<Rightarrow> d1\<lparr>do_gracePeriods := AList.update invoiceId (gp\<lparr>gp_status := GpRecovered\<rparr>) (do_gracePeriods d1)\<rparr>)"

definition getGracePeriod :: "string \<Rightarrow> DunningOrchestrator \<Rightarrow> GracePeriod option" where
  "getGracePeriod invoiceId d = map_of (do_gracePeriods d) invoiceId"

definition is_due :: "int \<Rightarrow> GracePeriod \<Rightarrow> bool" where
  "is_due now gp \<longleftrightarrow> gp_status gp = GpActive \<and> gp_expiresAt gp \<le> of_int now"

definition sweepExpiredGracePeriods :: "int \<Rightarrow> DunningOrchestrator \<Rightarrow> string list \<times> DunningOrchestrator" where
  "sweepExpiredGracePeriods now d =
     (map fst (filter (\<lambda>(i, gp). is_due now gp) (do_gracePeriods d)),
      d\<lparr>do_gracePeriods := map (\<lambda>(i, gp). (i, if is_due now gp then gp\<lparr>gp_status := GpExpired\<rparr> else gp)) (do_gracePeriods d)\<rparr>)"

definition reminder_payload :: "int \<Rightarrow> string \<Rightarrow> GracePeriod \<Rightarrow> OutreachPayload" where
  "reminder_payload now invoiceId gp =
     \<lparr>op_subscriptionId = gp_subscriptionId gp, op_invoiceId = invoiceId, op_channel = Email,
      op_message = ''Grace period reminder: payment still pending. Expires in '' @
        show_int (max 0 \<lceil>(gp_expiresAt gp - of_int now) / of_int ONE_HOUR_MS\<rceil>) @ '' hour(s).'',
      op_escalate = False, op_splitAmount = None\<rparr>"

text \<open>The configuration used for reminders is the default one in every branch.\<close>

definition getGracePeriodConfigForInvoice :: "string \<Rightarrow> DunningOrchestrator \<Rightarrow> GracePeriodConfig" where
  "getGracePeriodConfigForInvoice invoiceId d =
     (case map_of (do_gracePeriods d) invoiceId of
        None \<Rightarrow> do_defaultGracePeriod d
      | Some gp \<Rightarrow> (case getRecord invoiceId (do_scheduler d) of
                       None \<Rightarrow> do_defaultGracePeriod d
                     | Some rec \<Rightarrow> do_defaultGracePeriod d))"

definition reminder_due :: "int \<Rightarrow> DunningOrchestrator \<Rightarrow> string \<Rightarrow> GracePeriod \<Rightarrow> bool" where
  "reminder_due now d invoiceId gp \<longleftrightarrow>
     gp_status gp = GpActive \<and> getRecord invoiceId (do_scheduler d) \<noteq> None \<and>
     (let gpConfig = getGracePeriodConfigForInvoice invoiceId d
      in gc_sendReminders gpConfig \<and>
         gc_reminderIntervalHours gpConfig * of_int ONE_HOUR_MS
           \<le> of_int (now - (case gp_lastReminderAt gp of None \<Rightarrow> gp_startedAt gp | Some t \<Rightarrow> t)))"

definition tickGracePeriodReminders :: "(OutreachPayload \<Rightarrow> bool) \<Rightarrow> int \<Rightarrow> DunningOrchestrator \<Rightarrow> string list \<times> DunningOrchestrator" where
  "tickGracePeriodReminders dispatcher now d =
     (let sent = (\<lambda>i gp. reminder_due now d i gp \<and> dispatcher (reminder_payload now i gp))
      in (map fst (filter (\<lambda>(i, gp). sent i gp) (do_gracePeriods d)),
          d\<lparr>do_gracePeriods := map (\<lambda>(i, gp). (i, if sent i gp
              then gp\<lparr>gp_remindersSent := gp_remindersSent gp + 1, gp_lastReminderAt := Some now\<rparr> else gp)) (do_gracePeriods d)\<rparr>))"

definition getAllGracePeriods :: "DunningOrchestrator \<Rightarrow> GracePeriod list" where
  "getAllGracePeriods d = map snd (do_gracePeriods d)"

definition getActiveGracePeriods :: "DunningOrchestrator \<Rightarrow> GracePeriod list" where
  "getActiveGracePeriods d = filter (\<lambda>gp. gp_status gp = GpActive) (getAllGracePeriods d)"


section \<open>Decisions\<close>

text \<open>Whether the breaker lets a retry through now, and whether it resets the attempts doing so.\<close>

definition breaker_open :: "int \<Rightarrow> PlanRetryPolicy \<Rightarrow> RetryRecord \<Rightarrow> bool" where
  "breaker_open now policy rec = cs_isOpen (fst (getCircuitBreakerStatus now policy rec))"

lemma breaker_below [simp]:
  "int (rr_attempts rec) < rp_circuitBreakerThreshold policy \<Longrightarrow>
     getCircuitBreakerStatus now policy rec = (\<lparr>cs_isOpen = False, cs_opensUntil = None\<rparr>, rec)"
  by (simp add: getCircuitBreakerStatus_def)

lemma breaker_keeps:
  "rr_maxAttempts (snd (getCircuitBreakerStatus now policy rec)) = rr_maxAttempts rec"
  "rr_attempts (snd (getCircuitBreakerStatus now policy rec)) =
     (if int (rr_attempts rec) < rp_circuitBreakerThreshold policy \<or> breaker_open now policy rec then rr_attempts rec else 0)"
  by (simp_all add: getCircuitBreakerStatus_def breaker_open_def Let_def)

lemma retry_delay_bounds:
  "min MIN_RETRY_DELAY_HOURS (rp_maxDelayHours policy) \<le> retry_delay now random policy profile rec \<and>
   retry_delay now random policy profile rec \<le> rp_maxDelayHours policy"
  by (simp add: retry_delay_def min_def max_def)

lemma profile_retry: "pd_shouldRetry (DECLINE_PROFILES code) \<longleftrightarrow> code \<noteq> CardLostStolen"
  by (cases code) simp_all

lemma decideRetry_unknown:
  "map_of (rs_records s) i = None \<Longrightarrow> \<not> pd_shouldRetry (fst (decideRetry now random i code planId s)) \<and>
     snd (decideRetry now random i code planId s) = s"
  by (simp add: decideRetry_def refuse_def)

lemma decideRetry_policies [simp]: "rs_policies (snd (decideRetry now random i code planId s)) = rs_policies s"
  by (simp add: decideRetry_def Let_def split: option.split prod.split)

lemma decideRetry_other:
  "j \<noteq> i \<Longrightarrow> map_of (rs_records (snd (decideRetry now random i code planId s))) j = map_of (rs_records s) j"
  by (simp add: decideRetry_def Let_def split: option.split prod.split)

lemma decideRetry_cases:
  fixes planId and s :: RetryScheduler
  defines "policy \<equiv> getPlanPolicy planId s"
  assumes rec: "map_of (rs_records s) i = Some rec"
  shows "pd_shouldRetry (fst (decideRetry now random i code planId s)) \<longleftrightarrow>
      code \<noteq> CardLostStolen \<and> int (rr_attempts rec) < rr_maxAttempts rec \<and> \<not> breaker_open now policy rec"
    and "\<exists>rec'. map_of (rs_records (snd (decideRetry now random i code planId s))) i = Some rec' \<and>
      rr_maxAttempts rec' = rr_maxAttempts rec \<and>
      rr_attempts rec' =
        (if pd_shouldRetry (fst (decideRetry now random i code planId s))
         then (if int (rr_attempts rec) < rp_circuitBreakerThreshold policy then rr_attempts rec else 0) + 1
         else rr_attempts rec)"
    and "pd_shouldRetry (fst (decideRetry now random i code planId s)) \<Longrightarrow>
      min MIN_RETRY_DELAY_HOURS (rp_maxDelayHours policy) \<le> pd_delayHours (fst (decideRetry now random i code planId s)) \<and>
      pd_delayHours (fst (decideRetry now random i code planId s)) \<le> rp_maxDelayHours policy"
proof -
  obtain st rec1 where b: "getCircuitBreakerStatus now policy rec = (st, rec1)" by fastforce
  have k: "rr_maxAttempts rec1 = rr_maxAttempts rec" "cs_isOpen st = breaker_open now policy rec"
    "rr_attempts rec1 = (if int (rr_attempts rec) < rp_circuitBreakerThreshold policy \<or> breaker_open now policy rec
      then rr_attempts rec else 0)"
    using breaker_keeps [of now policy rec] b by (simp_all add: breaker_open_def)
  note b' = b [unfolded policy_def]
  show "pd_shouldRetry (fst (decideRetry now random i code planId s)) \<longleftrightarrow>
      code \<noteq> CardLostStolen \<and> int (rr_attempts rec) < rr_maxAttempts rec \<and> \<not> breaker_open now policy rec"
    using k(2) by (auto simp: decideRetry_def rec Let_def b' profile_retry refuse_def)
  show "\<exists>rec'. map_of (rs_records (snd (decideRetry now random i code planId s))) i = Some rec' \<and>
      rr_maxAttempts rec' = rr_maxAttempts rec \<and>
      rr_attempts rec' =
        (if pd_shouldRetry (fst (decideRetry now random i code planId s))
         then (if int (rr_attempts rec) < rp_circuitBreakerThreshold policy then rr_attempts rec else 0) + 1
         else rr_attempts rec)"
    using k by (auto simp: decideRetry_def rec Let_def b' refuse_def)
  show "pd_shouldRetry (fst (decideRetry now random i code planId s)) \<Longrightarrow>
      min MIN_RETRY_DELAY_HOURS (rp_maxDelayHours policy) \<le> pd_delayHours (fst (decideRetry now random i code planId s)) \<and>
      pd_delayHours (fst (decideRetry now random i code planId s)) \<le> rp_maxDelayHours policy"
    using retry_delay_bounds [of policy]
    by (auto simp: decideRetry_def rec Let_def b' refuse_def policy_def split: if_splits)
qed

section \<open>Runs of the orchestrator\<close>

datatype dunning_event = EFail int rat ProcessFailedInput | ESuccess int string | ESweep int | ETick int
  | EGrace string GracePeriodConfig

definition dunning_step :: "(OutreachPayload \<Rightarrow> bool) \<Rightarrow> DunningOrchestrator \<Rightarrow> dunning_event \<Rightarrow> DunningOrchestrator" where
  "dunning_step dispatcher d e =
     (case e of
        EFail now random input \<Rightarrow> snd (processFailed dispatcher now random input d)
      | ESuccess now i \<Rightarrow> processSuccess now i d
      | ESweep now \<Rightarrow> snd (sweepExpiredGracePeriods now d)
      | ETick now \<Rightarrow> snd (tickGracePeriodReminders dispatcher now d)
      | EGrace planId config \<Rightarrow> setGracePeriodConfig planId config d)"

text \<open>How many retries a run grants an invoice.\<close>

definition grants :: "(OutreachPayload \<Rightarrow> bool) \<Rightarrow> string \<Rightarrow> DunningOrchestrator \<Rightarrow> dunning_event \<Rightarrow> nat" where
  "grants dispatcher i d e =
     (case e of
        EFail now random input \<Rightarrow>
          if pf_invoiceId input = i \<and> pd_shouldRetry (pr_decision (fst (processFailed dispatcher now random input d))) then 1 else 0
      | _ \<Rightarrow> 0)"

fun granted :: "(OutreachPayload \<Rightarrow> bool) \<Rightarrow> string \<Rightarrow> DunningOrchestrator \<Rightarrow> dunning_event list \<Rightarrow> nat" where
  "granted dispatcher i d [] = 0"
| "granted dispatcher i d (e # es) = grants dispatcher i d e + granted dispatcher i (dunning_step dispatcher d e) es"

lemma granted_append:
  "granted dispatcher i d (es @ fs) = granted dispatcher i d es + granted dispatcher i (foldl (dunning_step dispatcher) d es) fs"
  by (induction es arbitrary: d) auto

text \<open>The scheduler as a failed charge finds it, with the invoice registered.\<close>

definition known :: "int \<Rightarrow> ProcessFailedInput \<Rightarrow> RetryScheduler \<Rightarrow> RetryScheduler" where
  "known now input s =
     (case getRecord (pf_invoiceId input) s of
        None \<Rightarrow> register_invoice now (pf_invoiceId input) (pf_subscriptionId input) (pf_planId input)
                  (pf_amount input) (pf_currency input) s
      | Some _ \<Rightarrow> s)"

lemma upsert_scheduler [simp]: "do_scheduler (snd (upsertGracePeriod now i sub p dec d)) = do_scheduler d"
  by (simp add: upsertGracePeriod_def Let_def split: option.split)

lemma processFailed_scheduler:
  "do_scheduler (snd (processFailed dispatcher now random input d)) =
     snd (decideRetry now random (pf_invoiceId input) (pf_declineCode input) (pf_planId input) (known now input (do_scheduler d)))"
  "pr_decision (fst (processFailed dispatcher now random input d)) =
     fst (decideRetry now random (pf_invoiceId input) (pf_declineCode input) (pf_planId input) (known now input (do_scheduler d)))"
proof -
  obtain dec s2 where dec: "decideRetry now random (pf_invoiceId input) (pf_declineCode input) (pf_planId input)
      (known now input (do_scheduler d)) = (dec, s2)" by fastforce
  obtain gp d2 where up: "upsertGracePeriod now (pf_invoiceId input) (pf_subscriptionId input) (pf_planId input) dec
      (d\<lparr>do_scheduler := s2\<rparr>) = (gp, d2)" by fastforce
  then have d2: "do_scheduler d2 = s2"
    using upsert_scheduler [of now "pf_invoiceId input" "pf_subscriptionId input" "pf_planId input" dec "d\<lparr>do_scheduler := s2\<rparr>"]
    by simp
  note eq = processFailed_def Let_def known_def [symmetric] dec up
  show "do_scheduler (snd (processFailed dispatcher now random input d)) =
     snd (decideRetry now random (pf_invoiceId input) (pf_declineCode input) (pf_planId input) (known now input (do_scheduler d)))"
    by (simp add: eq d2)
  show "pr_decision (fst (processFailed dispatcher now random input d)) =
     fst (decideRetry now random (pf_invoiceId input) (pf_declineCode input) (pf_planId input) (known now input (do_scheduler d)))"
    by (simp add: eq)
qed

lemma known_simps:
  "rs_policies (known now input s) = rs_policies s"
  "j \<noteq> pf_invoiceId input \<Longrightarrow> map_of (rs_records (known now input s)) j = map_of (rs_records s) j"
  "map_of (rs_records s) (pf_invoiceId input) = Some rec \<Longrightarrow> known now input s = s"
  by (simp_all add: known_def register_invoice_def getRecord_def split: option.split)

lemma known_new:
  "map_of (rs_records s) (pf_invoiceId input) = None \<Longrightarrow>
     map_of (rs_records (known now input s)) (pf_invoiceId input) =
       Some (new_record now (pf_invoiceId input) (pf_subscriptionId input) (getPlanPolicy (pf_planId input) s)
         (pf_amount input) (pf_currency input))"
  by (simp add: known_def register_invoice_def getRecord_def)

definition used :: "string \<Rightarrow> DunningOrchestrator \<Rightarrow> nat" where
  "used i d = (case map_of (rs_records (do_scheduler d)) i of None \<Rightarrow> 0 | Some rec \<Rightarrow> rr_attempts rec)"

definition within_budget :: "string \<Rightarrow> PlanRetryPolicy obj \<Rightarrow> int \<Rightarrow> DunningOrchestrator \<Rightarrow> bool" where
  "within_budget i P M d \<longleftrightarrow> rs_policies (do_scheduler d) = P \<and>
     (\<forall>rec. map_of (rs_records (do_scheduler d)) i = Some rec \<longrightarrow>
        rr_maxAttempts rec = M \<and> int (rr_attempts rec) \<le> max 0 M)"

text \<open>Every failed charge of the invoice names the plan.\<close>

definition on_plan :: "string \<Rightarrow> string \<Rightarrow> dunning_event \<Rightarrow> bool" where
  "on_plan i p e = (case e of EFail _ _ input \<Rightarrow> pf_invoiceId input = i \<longrightarrow> pf_planId input = p | _ \<Rightarrow> True)"

lemma success_records:
  "rs_policies (recordPaymentSuccess now j s) = rs_policies s"
  "map_of (rs_records (recordPaymentSuccess now j s)) i = Some r' \<Longrightarrow>
     \<exists>r. map_of (rs_records s) i = Some r \<and> rr_attempts r = rr_attempts r' \<and> rr_maxAttempts r = rr_maxAttempts r'"
  "map_of (rs_records s) i = Some r \<Longrightarrow>
     \<exists>r'. map_of (rs_records (recordPaymentSuccess now j s)) i = Some r' \<and> rr_attempts r' = rr_attempts r"
  by (auto simp: recordPaymentSuccess_def split: option.splits if_splits)

lemma quiet_scheduler:
  "do_scheduler (processSuccess now j d) = recordPaymentSuccess now j (do_scheduler d)"
  "do_scheduler (snd (sweepExpiredGracePeriods now d)) = do_scheduler d"
  "do_scheduler (snd (tickGracePeriodReminders dispatcher now d)) = do_scheduler d"
  "do_scheduler (setGracePeriodConfig planId config d) = do_scheduler d"
  by (simp_all add: processSuccess_def sweepExpiredGracePeriods_def tickGracePeriodReminders_def
      setGracePeriodConfig_def Let_def split: option.split)

lemma budget_step:
  fixes i p :: string and P :: "PlanRetryPolicy obj"
  defines "M \<equiv> rp_maxRetries (obj_or DEFAULT_RETRY_POLICY P p)"
  assumes ok: "within_budget i P M d" and thr: "M \<le> rp_circuitBreakerThreshold (obj_or DEFAULT_RETRY_POLICY P p)"
    and e: "on_plan i p e"
  shows "within_budget i P M (dunning_step dispatcher d e) \<and>
    used i (dunning_step dispatcher d e) = used i d + grants dispatcher i d e"
proof (cases e)
  case (EFail now random input)
  define s where "s = do_scheduler d"
  define s1 where "s1 = known now input s"
  define s2 where "s2 = snd (decideRetry now random (pf_invoiceId input) (pf_declineCode input) (pf_planId input) s1)"
  have step: "do_scheduler (dunning_step dispatcher d e) = s2"
    and dec: "pr_decision (fst (processFailed dispatcher now random input d)) =
      fst (decideRetry now random (pf_invoiceId input) (pf_declineCode input) (pf_planId input) s1)"
    by (simp_all add: dunning_step_def EFail processFailed_scheduler s2_def s1_def s_def)
  have P: "rs_policies s = P" "rs_policies s1 = P" "rs_policies s2 = P"
    using ok by (simp_all add: within_budget_def s_def s1_def s2_def known_simps)
  show ?thesis
  proof (cases "pf_invoiceId input = i")
    case False
    then have "map_of (rs_records s2) i = map_of (rs_records s) i"
      by (simp add: s2_def decideRetry_other s1_def known_simps)
    then show ?thesis using ok P False step
      by (simp add: within_budget_def used_def s_def grants_def EFail)
  next
    case True
    with e EFail have plan: "pf_planId input = p" by (simp add: on_plan_def)
    obtain rec where rec: "map_of (rs_records s1) i = Some rec" and recM: "rr_maxAttempts rec = M"
      "int (rr_attempts rec) \<le> max 0 M" and u: "used i d = rr_attempts rec"
    proof (cases "map_of (rs_records s) i")
      case None
      show thesis
        using None known_new [of s input now] True P
        by (intro that) (auto simp: s1_def new_record_def getPlanPolicy_def plan M_def used_def s_def)
    next
      case (Some r)
      then have "s1 = s" using known_simps(3) [of s input] True by (simp add: s1_def)
      with Some ok show thesis by (intro that [of r]) (auto simp: within_budget_def used_def s_def)
    qed
    have pol: "getPlanPolicy p s1 = obj_or DEFAULT_RETRY_POLICY P p" by (simp add: getPlanPolicy_def P)
    note c = decideRetry_cases [OF rec, of now random "pf_declineCode input" p]
    obtain rec' where rec': "map_of (rs_records s2) i = Some rec'" "rr_maxAttempts rec' = rr_maxAttempts rec"
      "rr_attempts rec' = (if pd_shouldRetry (fst (decideRetry now random i (pf_declineCode input) p s1))
         then (if int (rr_attempts rec) < rp_circuitBreakerThreshold (getPlanPolicy p s1) then rr_attempts rec else 0) + 1
         else rr_attempts rec)"
      using c(2) unfolding s2_def True plan by blast
    have g: "grants dispatcher i d e =
        (if pd_shouldRetry (fst (decideRetry now random i (pf_declineCode input) p s1)) then 1 else 0)"
      using dec True plan by (simp add: grants_def EFail)
    have "int (rr_attempts rec) < M \<Longrightarrow> int (rr_attempts rec) < rp_circuitBreakerThreshold (getPlanPolicy p s1)"
      using thr by (simp add: pol)
    then have "rr_attempts rec' = rr_attempts rec + grants dispatcher i d e \<and>
        int (rr_attempts rec') \<le> max 0 M"
      using c(1) recM rec'(3) g by auto
    then show ?thesis
      using rec' recM u P step by (simp add: within_budget_def used_def)
  qed
next
  case (ESuccess now j)
  define s where "s = do_scheduler d"
  note r = success_records [where now = now and j = j and s = s]
  have "used i (processSuccess now j d) = used i d"
  proof (cases "map_of (rs_records s) i")
    case None
    then have "map_of (rs_records (recordPaymentSuccess now j s)) i = None"
      using r(2) by (metis not_None_eq option.distinct(1))
    with None show ?thesis by (simp add: used_def quiet_scheduler s_def)
  next
    case (Some rec)
    with r(3) [of i rec] show ?thesis by (auto simp: used_def quiet_scheduler s_def)
  qed
  moreover have "within_budget i P M (processSuccess now j d)"
    using ok r(1,2) unfolding within_budget_def quiet_scheduler s_def by metis
  ultimately show ?thesis
    by (simp add: ESuccess dunning_step_def grants_def)
qed (use ok in \<open>simp_all add: dunning_step_def quiet_scheduler within_budget_def used_def grants_def\<close>)

lemma budget_run:
  fixes i p :: string and P :: "PlanRetryPolicy obj"
  defines "M \<equiv> rp_maxRetries (obj_or DEFAULT_RETRY_POLICY P p)"
  assumes "within_budget i P M d" "M \<le> rp_circuitBreakerThreshold (obj_or DEFAULT_RETRY_POLICY P p)"
    "\<forall>e \<in> set es. on_plan i p e"
  shows "within_budget i P M (foldl (dunning_step dispatcher) d es) \<and>
    used i (foldl (dunning_step dispatcher) d es) = used i d + granted dispatcher i d es"
  using assms(2,4)
proof (induction es arbitrary: d)
  case (Cons e es)
  have "within_budget i P M (dunning_step dispatcher d e) \<and>
      used i (dunning_step dispatcher d e) = used i d + grants dispatcher i d e"
    using budget_step [OF Cons.prems(1) [unfolded M_def] assms(3) [unfolded M_def], of e dispatcher] Cons.prems(2)
    unfolding M_def by simp
  with Cons.IH [of "dunning_step dispatcher d e"] Cons.prems(2) show ?case by simp
qed simp

text \<open>The other direction: a breaker that opens below the limit gives the attempts back when it closes.\<close>

definition eager :: "string \<Rightarrow> PlanRetryPolicy obj \<Rightarrow> int \<Rightarrow> int \<Rightarrow> DunningOrchestrator \<Rightarrow> bool" where
  "eager i P M thr d \<longleftrightarrow> rs_policies (do_scheduler d) = P \<and>
     (\<forall>rec. map_of (rs_records (do_scheduler d)) i = Some rec \<longrightarrow>
        rr_maxAttempts rec = M \<and> int (rr_attempts rec) \<le> thr)"

definition failed_at :: "string \<Rightarrow> string \<Rightarrow> int \<Rightarrow> dunning_event" where
  "failed_at i p now = EFail now 0 \<lparr>pf_invoiceId = i, pf_subscriptionId = ''sub'', pf_planId = p, pf_amount = 1,
     pf_currency = ''USD'', pf_declineCode = NetworkError\<rparr>"

lemma decideRetry_trip:
  assumes rec: "map_of (rs_records s) i = Some rec" and lim: "int (rr_attempts rec) < rr_maxAttempts rec"
    and opn: "breaker_open now (getPlanPolicy p s) rec"
  shows "\<exists>u. map_of (rs_records (snd (decideRetry now random i NetworkError p s))) i =
      Some (rec\<lparr>rr_circuitBreakerUntil := Some u\<rparr>)"
proof -
  from opn obtain u where "getCircuitBreakerStatus now (getPlanPolicy p s) rec =
      (\<lparr>cs_isOpen = True, cs_opensUntil = Some u\<rparr>, rec\<lparr>rr_circuitBreakerUntil := Some u\<rparr>)"
    unfolding breaker_open_def getCircuitBreakerStatus_def by (auto simp: Let_def split: if_splits)
  with rec lim show ?thesis by (intro exI [of _ u]) (simp add: decideRetry_def Let_def)
qed

lemma closes_after:
  assumes "rr_circuitBreakerUntil rec = Some u"
  shows "\<not> breaker_open \<lceil>u\<rceil> policy rec"
proof -
  have "\<not> of_int \<lceil>u\<rceil> < u" by (metis le_of_int_ceiling not_le)
  with assms show ?thesis by (simp add: breaker_open_def getCircuitBreakerStatus_def Let_def)
qed

lemma eager_call:
  fixes i p :: string and P :: "PlanRetryPolicy obj"
  defines "M \<equiv> rp_maxRetries (obj_or DEFAULT_RETRY_POLICY P p)"
    and "thr \<equiv> rp_circuitBreakerThreshold (obj_or DEFAULT_RETRY_POLICY P p)"
  assumes ok: "eager i P M thr d" and thr: "0 < thr" "thr < M"
  shows "eager i P M thr (dunning_step dispatcher d (failed_at i p now)) \<and>
    (grants dispatcher i d (failed_at i p now) = 1 \<or>
     grants dispatcher i d (failed_at i p now) = 0 \<and>
     (\<exists>rec u. map_of (rs_records (do_scheduler (dunning_step dispatcher d (failed_at i p now)))) i = Some rec \<and>
        rr_circuitBreakerUntil rec = Some u)) \<and>
    (\<forall>rec u. map_of (rs_records (do_scheduler d)) i = Some rec \<longrightarrow> rr_circuitBreakerUntil rec = Some u \<longrightarrow> now = \<lceil>u\<rceil> \<longrightarrow>
       grants dispatcher i d (failed_at i p now) = 1)"
proof -
  define input where "input = \<lparr>pf_invoiceId = i, pf_subscriptionId = ''sub'', pf_planId = p, pf_amount = (1::rat),
     pf_currency = ''USD'', pf_declineCode = NetworkError\<rparr>"
  define s where "s = do_scheduler d"
  define s1 where "s1 = known now input s"
  define s2 where "s2 = snd (decideRetry now 0 i NetworkError p s1)"
  let ?g = "pd_shouldRetry (fst (decideRetry now 0 i NetworkError p s1))"
  have e: "failed_at i p now = EFail now 0 input" by (simp add: failed_at_def input_def)
  have step: "do_scheduler (dunning_step dispatcher d (failed_at i p now)) = s2"
    by (simp add: dunning_step_def e processFailed_scheduler s2_def s1_def s_def) (simp add: input_def)
  have g: "grants dispatcher i d (failed_at i p now) = (if ?g then 1 else 0)"
    by (simp add: grants_def e processFailed_scheduler s1_def s_def) (simp add: input_def)
  have P: "rs_policies s = P" "rs_policies s1 = P" "rs_policies s2 = P"
    using ok by (simp_all add: eager_def s_def s1_def s2_def known_simps)
  have pol: "getPlanPolicy p s1 = obj_or DEFAULT_RETRY_POLICY P p" by (simp add: getPlanPolicy_def P)
  obtain rec where rec: "map_of (rs_records s1) i = Some rec" and recM: "rr_maxAttempts rec = M"
    "int (rr_attempts rec) \<le> thr"
    and old: "\<And>r. map_of (rs_records s) i = Some r \<Longrightarrow> r = rec"
  proof (cases "map_of (rs_records s) i")
    case None
    show thesis
      using None known_new [of s input now] P thr(1)
      by (intro that) (auto simp: s1_def new_record_def getPlanPolicy_def M_def input_def)
  next
    case (Some r)
    then have "s1 = s" using known_simps(3) [of s input] by (simp add: s1_def input_def)
    with Some ok show thesis by (intro that [of r]) (auto simp: eager_def s_def)
  qed
  have lim: "int (rr_attempts rec) < rr_maxAttempts rec" using recM thr by simp
  note c = decideRetry_cases [OF rec, of now 0 NetworkError p]
  from c(2) obtain rec' where rec': "map_of (rs_records s2) i = Some rec'" "rr_maxAttempts rec' = rr_maxAttempts rec"
    "rr_attempts rec' = (if ?g then (if int (rr_attempts rec) < rp_circuitBreakerThreshold (getPlanPolicy p s1)
        then rr_attempts rec else 0) + 1 else rr_attempts rec)"
    unfolding s2_def by blast
  have "int (rr_attempts rec') \<le> thr" using rec'(3) recM(2) thr(1) pol by (auto simp: thr_def)
  then have eager: "eager i P M thr (dunning_step dispatcher d (failed_at i p now))"
    using rec' recM P by (simp add: eager_def step)
  have shut: "?g \<longleftrightarrow> \<not> breaker_open now (getPlanPolicy p s1) rec" using c(1) lim by simp
  have "?g \<or> (\<exists>rec u. map_of (rs_records s2) i = Some rec \<and> rr_circuitBreakerUntil rec = Some u)"
    using decideRetry_trip [OF rec lim, of now p 0] shut unfolding s2_def by auto
  moreover have "?g" if "map_of (rs_records s) i = Some r" "rr_circuitBreakerUntil r = Some u" "now = \<lceil>u\<rceil>" for r u
    using old [OF that(1)] closes_after that(2,3) shut by blast
  ultimately show ?thesis using eager g step by (auto simp: s_def)
qed

lemma eager_run:
  fixes i p :: string and P :: "PlanRetryPolicy obj"
  defines "M \<equiv> rp_maxRetries (obj_or DEFAULT_RETRY_POLICY P p)"
    and "thr \<equiv> rp_circuitBreakerThreshold (obj_or DEFAULT_RETRY_POLICY P p)"
  assumes ok: "eager i P M thr d" and thr: "0 < thr" "thr < M"
  shows "\<exists>ts. granted dispatcher i d (map (failed_at i p) ts) = n"
  using ok
proof (induction n arbitrary: d)
  case 0
  show ?case by (rule exI [of _ "[]"]) simp
next
  case (Suc n)
  have call: "eager i P M thr (dunning_step dispatcher d (failed_at i p now)) \<and>
    (grants dispatcher i d (failed_at i p now) = 1 \<or>
     grants dispatcher i d (failed_at i p now) = 0 \<and>
     (\<exists>rec u. map_of (rs_records (do_scheduler (dunning_step dispatcher d (failed_at i p now)))) i = Some rec \<and>
        rr_circuitBreakerUntil rec = Some u)) \<and>
    (\<forall>rec u. map_of (rs_records (do_scheduler d)) i = Some rec \<longrightarrow> rr_circuitBreakerUntil rec = Some u \<longrightarrow> now = \<lceil>u\<rceil> \<longrightarrow>
       grants dispatcher i d (failed_at i p now) = 1)" if "eager i P M thr d" for d now
    using eager_call [of i P p d dispatcher now] that thr unfolding M_def thr_def by blast
  let ?d1 = "dunning_step dispatcher d (failed_at i p 0)"
  from call [OF Suc.prems, of 0] have e1: "eager i P M thr ?d1" by blast
  from Suc.IH [OF e1] obtain ts where ts: "granted dispatcher i ?d1 (map (failed_at i p) ts) = n" by blast
  from call [OF Suc.prems, of 0] consider "grants dispatcher i d (failed_at i p 0) = 1"
    | rec u where "grants dispatcher i d (failed_at i p 0) = 0" "map_of (rs_records (do_scheduler ?d1)) i = Some rec"
        "rr_circuitBreakerUntil rec = Some u" by blast
  then show ?case
  proof cases
    case 1
    with ts show ?thesis by (intro exI [of _ "0 # ts"]) simp
  next
    case 2
    let ?d2 = "dunning_step dispatcher ?d1 (failed_at i p \<lceil>u\<rceil>)"
    from call [OF e1, of "\<lceil>u\<rceil>"] 2 have g: "grants dispatcher i ?d1 (failed_at i p \<lceil>u\<rceil>) = 1" "eager i P M thr ?d2" by blast+
    from Suc.IH [OF g(2)] obtain ts where "granted dispatcher i ?d2 (map (failed_at i p) ts) = n" by blast
    with 2(1) g(1) show ?thesis by (intro exI [of _ "0 # \<lceil>u\<rceil> # ts"]) simp
  qed
qed


section \<open>Grace periods\<close>

text \<open>
  The reminders sent were spaced by the interval of the default configuration, whatever the clock did,
  and the keys are the invoices.
\<close>

definition last_contact :: "GracePeriod \<Rightarrow> int" where
  "last_contact gp = (case gp_lastReminderAt gp of None \<Rightarrow> gp_startedAt gp | Some t \<Rightarrow> t)"

definition spaced :: "rat \<Rightarrow> GracePeriod \<Rightarrow> bool" where
  "spaced h gp \<longleftrightarrow> of_nat (gp_remindersSent gp) * (h * of_int ONE_HOUR_MS) \<le> of_int (last_contact gp - gp_startedAt gp)"

lemma spaced_same:
  "gp_startedAt gp' = gp_startedAt gp \<Longrightarrow> gp_remindersSent gp' = gp_remindersSent gp \<Longrightarrow>
     gp_lastReminderAt gp' = gp_lastReminderAt gp \<Longrightarrow> spaced h gp' = spaced h gp"
  by (cases "gp_lastReminderAt gp") (simp_all add: spaced_def last_contact_def)

lemma spaced_remind:
  assumes "spaced h gp" "h * of_int ONE_HOUR_MS \<le> of_int (now - last_contact gp)"
  shows "spaced h (gp\<lparr>gp_remindersSent := gp_remindersSent gp + 1, gp_lastReminderAt := Some now\<rparr>)"
proof -
  have "of_nat (gp_remindersSent gp + 1) * (h * of_int ONE_HOUR_MS) =
      of_nat (gp_remindersSent gp) * (h * of_int ONE_HOUR_MS) + h * of_int ONE_HOUR_MS"
    by (simp add: algebra_simps)
  also have "\<dots> \<le> of_int (now - gp_startedAt gp)" using assms by (simp add: spaced_def)
  finally show ?thesis by (simp add: spaced_def last_contact_def)
qed

definition grace_ok :: "rat \<Rightarrow> DunningOrchestrator \<Rightarrow> bool" where
  "grace_ok h d \<longleftrightarrow> obj_ok (do_gracePeriods d) \<and> gc_reminderIntervalHours (do_defaultGracePeriod d) = h \<and>
     (\<forall>p \<in> set (do_gracePeriods d). gp_invoiceId (snd p) = fst p \<and> spaced h (snd p))"

text \<open>How a grace period may look later: same times, never active again, a recovery final.\<close>

definition grace_later :: "GracePeriod \<Rightarrow> GracePeriod \<Rightarrow> bool" where
  "grace_later gp gp' \<longleftrightarrow> gp_startedAt gp' = gp_startedAt gp \<and> gp_expiresAt gp' = gp_expiresAt gp \<and>
     gp_remindersSent gp \<le> gp_remindersSent gp' \<and>
     (gp_status gp \<noteq> GpActive \<longrightarrow> gp_status gp' \<noteq> GpActive \<and> gp_remindersSent gp' = gp_remindersSent gp) \<and>
     (gp_status gp = GpRecovered \<longrightarrow> gp_status gp' = GpRecovered)"

lemma grace_later_refl [simp]: "grace_later gp gp"
  by (simp add: grace_later_def)

lemma grace_later_trans: "grace_later a b \<Longrightarrow> grace_later b c \<Longrightarrow> grace_later a c"
  by (auto simp: grace_later_def)

lemma default_kept:
  "do_defaultGracePeriod (dunning_step dispatcher d e) = do_defaultGracePeriod d"
  by (cases e) (auto simp: dunning_step_def processFailed_def Let_def upsertGracePeriod_def processSuccess_def
      sweepExpiredGracePeriods_def tickGracePeriodReminders_def setGracePeriodConfig_def split: option.split prod.split if_split)

lemma upsert_periods:
  "do_gracePeriods (snd (upsertGracePeriod now i sub p dec d)) = do_gracePeriods d \<or>
   map_of (do_gracePeriods d) i = None \<and>
   (\<exists>gp. do_gracePeriods (snd (upsertGracePeriod now i sub p dec d)) = AList.update i gp (do_gracePeriods d) \<and>
      gp_invoiceId gp = i \<and> gp_remindersSent gp = 0 \<and> gp_lastReminderAt gp = None)"
proof (cases "map_of (do_gracePeriods d) i")
  case None
  then show ?thesis
    by (cases "\<not> pd_shouldRetry dec \<and> \<not> pd_escalatePriority dec")
      (auto simp: upsertGracePeriod_def Let_def intro!: exI)
qed (simp add: upsertGracePeriod_def)

lemma fail_periods:
  "do_gracePeriods (snd (processFailed dispatcher now random input d)) = do_gracePeriods d \<or>
   map_of (do_gracePeriods d) (pf_invoiceId input) = None \<and>
   (\<exists>gp. do_gracePeriods (snd (processFailed dispatcher now random input d)) = AList.update (pf_invoiceId input) gp (do_gracePeriods d) \<and>
      gp_invoiceId gp = pf_invoiceId input \<and> gp_remindersSent gp = 0 \<and> gp_lastReminderAt gp = None)"
proof -
  obtain dec s2 where dec: "decideRetry now random (pf_invoiceId input) (pf_declineCode input) (pf_planId input)
      (known now input (do_scheduler d)) = (dec, s2)" by fastforce
  obtain gp d2 where up: "upsertGracePeriod now (pf_invoiceId input) (pf_subscriptionId input) (pf_planId input) dec
      (d\<lparr>do_scheduler := s2\<rparr>) = (gp, d2)" by fastforce
  have "snd (processFailed dispatcher now random input d) = d2"
    by (simp add: processFailed_def Let_def known_def [symmetric] dec up)
  with upsert_periods [of now "pf_invoiceId input" "pf_subscriptionId input" "pf_planId input" dec "d\<lparr>do_scheduler := s2\<rparr>"] up
  show ?thesis by simp
qed

lemma map_keys: "map fst (map (\<lambda>(i, gp). (i, f i gp)) m) = map fst m"
  by (induction m) auto

lemma map_of_map_pair: "map_of (map (\<lambda>(i, gp). (i, f i gp)) m) k = map_option (f k) (map_of m k)"
  by (induction m) auto

lemma grace_map:
  assumes "grace_ok h d" and "\<And>i gp. gp_invoiceId (f i gp) = gp_invoiceId gp"
    and "\<And>i gp. spaced h gp \<Longrightarrow> spaced h (f i gp)"
  shows "grace_ok h (d\<lparr>do_gracePeriods := map (\<lambda>(i, gp). (i, f i gp)) (do_gracePeriods d)\<rparr>)"
proof -
  have "\<forall>p \<in> set (map (\<lambda>(i, gp). (i, f i gp)) (do_gracePeriods d)). gp_invoiceId (snd p) = fst p \<and> spaced h (snd p)"
    using assms by (auto simp: grace_ok_def)
  with assms(1) show ?thesis
    unfolding grace_ok_def obj_ok_def obj_keys_def by (simp add: map_keys del: map_map)
qed

lemma grace_update:
  assumes "grace_ok h d" "gp_invoiceId gp = i" "spaced h gp"
    and "do_gracePeriods d' = AList.update i gp (do_gracePeriods d)" "do_defaultGracePeriod d' = do_defaultGracePeriod d"
  shows "grace_ok h d'"
proof -
  have "\<forall>p \<in> set (AList.update i gp (do_gracePeriods d)). gp_invoiceId (snd p) = fst p \<and> spaced h (snd p)"
    by (rule obj_update_all) (use assms(1-3) in \<open>simp_all add: grace_ok_def\<close>)
  then show ?thesis using assms by (simp add: grace_ok_def)
qed

lemma grace_step:
  assumes ok: "grace_ok h d"
  shows "grace_ok h (dunning_step dispatcher d e)"
proof (cases e)
  case (EFail now random input)
  let ?d = "snd (processFailed dispatcher now random input d)"
  have def: "do_defaultGracePeriod ?d = do_defaultGracePeriod d"
    using default_kept [of dispatcher d e] by (simp add: EFail dunning_step_def)
  from fail_periods [of dispatcher now random input d] have "grace_ok h ?d"
  proof (elim disjE exE conjE)
    fix gp
    assume gp: "do_gracePeriods ?d = AList.update (pf_invoiceId input) gp (do_gracePeriods d)"
      "gp_invoiceId gp = pf_invoiceId input" "gp_remindersSent gp = 0" "gp_lastReminderAt gp = None"
    then have "spaced h gp" by (simp add: spaced_def last_contact_def)
    from grace_update [OF ok gp(2) this gp(1) def] show ?thesis .
  qed (use ok def in \<open>simp add: grace_ok_def\<close>)
  then show ?thesis by (simp add: EFail dunning_step_def)
next
  case (ESuccess now i)
  have "grace_ok h (processSuccess now i d)"
  proof (cases "map_of (do_gracePeriods d) i")
    case None
    then show ?thesis using ok by (simp add: processSuccess_def grace_ok_def)
  next
    case (Some gp)
    have "gp_invoiceId gp = i" "spaced h gp"
      using ok map_of_SomeD [OF Some] by (auto simp: grace_ok_def)
    then show ?thesis
      by (intro grace_update [OF ok, of "gp\<lparr>gp_status := GpRecovered\<rparr>" i])
        (simp_all add: processSuccess_def Let_def Some spaced_same [of "gp\<lparr>gp_status := GpRecovered\<rparr>" gp])
  qed
  then show ?thesis by (simp add: ESuccess dunning_step_def)
next
  case (ESweep now)
  have "grace_ok h (snd (sweepExpiredGracePeriods now d))"
    using grace_map [OF ok, of "\<lambda>i gp. if is_due now gp then gp\<lparr>gp_status := GpExpired\<rparr> else gp"]
    by (simp add: sweepExpiredGracePeriods_def spaced_same [of "gp\<lparr>gp_status := GpExpired\<rparr>" gp for gp])
  then show ?thesis by (simp add: ESweep dunning_step_def)
next
  case (ETick now)
  have iv: "gc_reminderIntervalHours (getGracePeriodConfigForInvoice i d) = h" for i
    using ok by (simp add: grace_ok_def getGracePeriodConfigForInvoice_def split: option.split)
  have "grace_ok h (snd (tickGracePeriodReminders dispatcher now d))"
    using grace_map [OF ok, of "\<lambda>i gp. if reminder_due now d i gp \<and> dispatcher (reminder_payload now i gp)
      then gp\<lparr>gp_remindersSent := gp_remindersSent gp + 1, gp_lastReminderAt := Some now\<rparr> else gp"] iv
      spaced_remind [of h _ now]
    by (simp add: tickGracePeriodReminders_def reminder_due_def Let_def last_contact_def [symmetric])
  then show ?thesis by (simp add: ETick dunning_step_def)
next
  case (EGrace planId config)
  then show ?thesis using ok by (simp add: dunning_step_def setGracePeriodConfig_def grace_ok_def)
qed

interpretation grace: machine "dunning_step dispatcher" "grace_ok h" for dispatcher h
  by unfold_locales (rule grace_step)

lemma grace_step_later:
  assumes ok: "grace_ok h d" and gp: "map_of (do_gracePeriods d) i = Some gp"
  shows "\<exists>gp'. map_of (do_gracePeriods (dunning_step dispatcher d e)) i = Some gp' \<and> grace_later gp gp'"
proof (cases e)
  case (EFail now random input)
  with fail_periods [of dispatcher now random input d] gp show ?thesis
    by (auto simp: dunning_step_def)
next
  case (ESuccess now j)
  with gp show ?thesis
    by (auto simp: dunning_step_def processSuccess_def Let_def grace_later_def split: option.split)
next
  case (ESweep now)
  with gp show ?thesis
    by (auto simp: dunning_step_def sweepExpiredGracePeriods_def map_of_map_pair grace_later_def is_due_def)
next
  case (ETick now)
  with gp show ?thesis
    by (auto simp: dunning_step_def tickGracePeriodReminders_def map_of_map_pair grace_later_def reminder_due_def Let_def)
next
  case (EGrace planId config)
  with gp show ?thesis by (simp add: dunning_step_def setGracePeriodConfig_def)
qed

lemma grace_run_later:
  "grace_ok h d \<Longrightarrow> map_of (do_gracePeriods d) i = Some gp \<Longrightarrow>
     \<exists>gp'. map_of (do_gracePeriods (foldl (dunning_step dispatcher) d es)) i = Some gp' \<and> grace_later gp gp'"
proof (induction es arbitrary: d gp)
  case (Cons e es)
  from grace_step_later [OF Cons.prems, of dispatcher e] obtain gp1 where
    gp1: "map_of (do_gracePeriods (dunning_step dispatcher d e)) i = Some gp1" "grace_later gp gp1" by blast
  from Cons.IH [OF grace_step [OF Cons.prems(1)] gp1(1)] gp1(2) show ?case
    by (auto intro: grace_later_trans)
qed simp


section \<open>Properties\<close>

text \<open>The retry decision of a known invoice: a retry is granted exactly when the decline is not a lost or
  stolen card, attempts are left and the breaker is not open; its delay lies between a quarter of an
  hour and the plan's maximum, whatever the history and the random source; a granted retry counts one
  attempt, from zero when it closes the breaker, a refused one none; no other invoice changes.\<close>

theorem retry_decision_contract:
  assumes "map_of (rs_records s) i = Some rec" "decideRetry now random i code planId s = (dec, s')"
    and "policy = getPlanPolicy planId s"
  shows "(pd_shouldRetry dec \<longleftrightarrow>
      code \<noteq> CardLostStolen \<and> int (rr_attempts rec) < rr_maxAttempts rec \<and> \<not> breaker_open now policy rec) \<and>
    (pd_shouldRetry dec \<longrightarrow> min MIN_RETRY_DELAY_HOURS (rp_maxDelayHours policy) \<le> pd_delayHours dec \<and>
      pd_delayHours dec \<le> rp_maxDelayHours policy) \<and>
    (\<exists>rec'. map_of (rs_records s') i = Some rec' \<and> rr_maxAttempts rec' = rr_maxAttempts rec \<and>
      rr_attempts rec' = (if pd_shouldRetry dec
        then (if int (rr_attempts rec) < rp_circuitBreakerThreshold policy then rr_attempts rec else 0) + 1
        else rr_attempts rec)) \<and>
    (\<forall>j. j \<noteq> i \<longrightarrow> map_of (rs_records s') j = map_of (rs_records s) j)"
  using decideRetry_cases [OF assms(1), of now random code planId] decideRetry_other [of _ i now random code planId s]
    assms(2,3) by auto

definition demo_scheduler :: RetryScheduler where
  "demo_scheduler = register_invoice 0 ''inv'' ''sub'' ''plan'' 800 ''USD'' newRetryScheduler"

lemma retry_decision_contract_witness:
  "map_option rr_attempts (map_of (rs_records (snd (decideRetry 0 (1/2) ''inv'' CardExpired ''plan'' demo_scheduler))) ''inv'') = Some 1 \<and>
   pd_delayHours (fst (decideRetry 0 (1/2) ''inv'' CardExpired ''plan'' demo_scheduler)) \<le> 72"
proof -
  have rec: "map_of (rs_records demo_scheduler) ''inv'' =
      Some (new_record 0 ''inv'' ''sub'' DEFAULT_RETRY_POLICY 800 ''USD'')"
    by (simp add: demo_scheduler_def register_invoice_def newRetryScheduler_def getPlanPolicy_def)
  obtain dec s' where dec: "decideRetry 0 (1/2) ''inv'' CardExpired ''plan'' demo_scheduler = (dec, s')" by fastforce
  have pol: "getPlanPolicy ''plan'' demo_scheduler = DEFAULT_RETRY_POLICY"
    by (simp add: demo_scheduler_def register_invoice_def newRetryScheduler_def getPlanPolicy_def)
  from retry_decision_contract [OF rec dec pol [symmetric]] dec show ?thesis
    by (auto simp: new_record_def DEFAULT_RETRY_POLICY_def breaker_open_def)
qed

text \<open>C30: The retry budget and the breaker: if a plan's breaker threshold is not below its retry limit, then in
  every run an invoice of the plan is granted at most that many retries, so never more than the hard
  cap of ten. If the threshold is positive but below the limit, the breaker gives the attempts back
  each time its cooldown ends, and runs exist that grant the invoice any number of retries.\<close>

theorem retry_budget_needs_a_lazy_breaker:
  assumes set: "orchestrator_setPlanPolicy p policy d0 = (pol, d)" and new: "getRecord i (do_scheduler d0) = None"
  shows "(rp_maxRetries pol \<le> rp_circuitBreakerThreshold pol \<longrightarrow>
      (\<forall>es. (\<forall>e \<in> set es. on_plan i p e) \<longrightarrow>
         int (granted dispatcher i d es) \<le> max 0 (rp_maxRetries pol) \<and> granted dispatcher i d es \<le> 10)) \<and>
    (0 < rp_circuitBreakerThreshold pol \<longrightarrow> rp_circuitBreakerThreshold pol < rp_maxRetries pol \<longrightarrow>
      (\<forall>n. \<exists>ts. granted dispatcher i d (map (failed_at i p) ts) = n))"
proof -
  let ?P = "rs_policies (do_scheduler d)"
  have pol: "obj_or DEFAULT_RETRY_POLICY ?P p = pol" and cap: "rp_maxRetries pol \<le> 10"
    and none: "map_of (rs_records (do_scheduler d)) i = None"
    using set new by (auto simp: orchestrator_setPlanPolicy_def setPlanPolicy_def Let_def getRecord_def MAX_RETRIES_CAP_def)
  have "int (granted dispatcher i d es) \<le> max 0 (rp_maxRetries pol)"
    if "rp_maxRetries pol \<le> rp_circuitBreakerThreshold pol" "\<forall>e \<in> set es. on_plan i p e" for es
  proof -
    have "within_budget i ?P (rp_maxRetries pol) d" using none by (simp add: within_budget_def)
    from budget_run [of i ?P p, unfolded pol, OF this that] have
      "within_budget i ?P (rp_maxRetries pol) (foldl (dunning_step dispatcher) d es)"
      "used i (foldl (dunning_step dispatcher) d es) = granted dispatcher i d es"
      using none by (auto simp: used_def)
    then show ?thesis
      by (auto simp: within_budget_def used_def split: option.splits)
  qed
  moreover have "\<exists>ts. granted dispatcher i d (map (failed_at i p) ts) = n"
    if "0 < rp_circuitBreakerThreshold pol" "rp_circuitBreakerThreshold pol < rp_maxRetries pol" for n
    using eager_run [of i ?P p d dispatcher n, unfolded pol] that none by (simp add: eager_def)
  ultimately show ?thesis using cap by fastforce
qed

definition strict_policy :: PartialRetryPolicy where
  "strict_policy = \<lparr>pp_maxRetries = Some 20, pp_baseDelayHours = None, pp_backoffMultiplier = None,
     pp_maxDelayHours = None, pp_circuitBreakerThreshold = Some 3, pp_circuitBreakerCooldownHours = None, pp_jitterHours = None\<rparr>"

lemma retry_budget_needs_a_lazy_breaker_witness:
  "\<exists>ts. granted (\<lambda>_. True) ''inv'' (snd (orchestrator_setPlanPolicy ''plan'' strict_policy
     (newDunningOrchestrator None None None))) (map (failed_at ''inv'' ''plan'') ts) = 100"
proof -
  obtain pol d where set: "orchestrator_setPlanPolicy ''plan'' strict_policy (newDunningOrchestrator None None None) = (pol, d)"
    by fastforce
  then have "rp_maxRetries pol = 10" "rp_circuitBreakerThreshold pol = 3"
    by (auto simp: orchestrator_setPlanPolicy_def setPlanPolicy_def strict_policy_def or_else_def Let_def MAX_RETRIES_CAP_def)
  moreover have "getRecord ''inv'' (do_scheduler (newDunningOrchestrator None None None)) = None"
    by (simp add: getRecord_def newDunningOrchestrator_def newRetryScheduler_def or_else_def)
  ultimately show ?thesis
    using retry_budget_needs_a_lazy_breaker [OF set, of "''inv''" "\<lambda>_. True"] set by simp
qed

text \<open>The life of a grace period: in every run it keeps its times, once expired or recovered it is never
  active again and gets no more reminders, a recovery is final, and its reminders are so spaced that
  their number times the interval never exceeds the time from its start to the last of them. A sweep reports
  exactly the active periods whose time has come and leaves none of them active. The plan's own
  configuration has no influence on reminders.\<close>

theorem grace_period_lifecycle:
  assumes d: "d = foldl (dunning_step dispatcher) (newDunningOrchestrator scheduler configs def) es"
    and gp: "getGracePeriod i d = Some gp"
  shows "of_nat (gp_remindersSent gp) * (gc_reminderIntervalHours (or_else def DEFAULT_GRACE_PERIOD_CONFIG) * of_int ONE_HOUR_MS)
      \<le> of_int (last_contact gp - gp_startedAt gp) \<and>
    (\<forall>fs. \<exists>gp'. getGracePeriod i (foldl (dunning_step dispatcher) d fs) = Some gp' \<and> grace_later gp gp') \<and>
    (i \<in> set (fst (sweepExpiredGracePeriods now d)) \<longleftrightarrow> gp_status gp = GpActive \<and> gp_expiresAt gp \<le> of_int now) \<and>
    (\<forall>gp' \<in> set (getActiveGracePeriods (snd (sweepExpiredGracePeriods now d))). of_int now < gp_expiresAt gp') \<and>
    tickGracePeriodReminders dispatcher now (setGracePeriodConfig p config d) =
      map_prod id (setGracePeriodConfig p config) (tickGracePeriodReminders dispatcher now d)"
proof -
  define h where "h = gc_reminderIntervalHours (or_else def DEFAULT_GRACE_PERIOD_CONFIG)"
  have "grace_ok h (newDunningOrchestrator scheduler configs def)"
    by (simp add: grace_ok_def newDunningOrchestrator_def h_def)
  then have ok: "grace_ok h d" unfolding d by (rule grace.run_inv)
  have lookup: "map_of (do_gracePeriods d) i = Some gp" using gp by (simp add: getGracePeriod_def)
  have mem: "(i, gp) \<in> set (do_gracePeriods d)" by (rule map_of_SomeD [OF lookup])
  have uniq: "(i, gp') \<in> set (do_gracePeriods d) \<Longrightarrow> gp' = gp" for gp'
    using ok lookup by (simp add: grace_ok_def obj_ok_def obj_keys_def)
  have "spaced h gp" using ok mem by (auto simp: grace_ok_def)
  moreover have "\<forall>fs. \<exists>gp'. getGracePeriod i (foldl (dunning_step dispatcher) d fs) = Some gp' \<and> grace_later gp gp'"
    using grace_run_later [OF ok lookup] by (simp add: getGracePeriod_def)
  moreover have "i \<in> set (fst (sweepExpiredGracePeriods now d)) \<longleftrightarrow> gp_status gp = GpActive \<and> gp_expiresAt gp \<le> of_int now"
  proof -
    have "i \<in> set (fst (sweepExpiredGracePeriods now d)) \<longleftrightarrow> (\<exists>v. (i, v) \<in> set (do_gracePeriods d) \<and> is_due now v)"
      by (simp add: sweepExpiredGracePeriods_def image_iff split_beta)
    also have "\<dots> \<longleftrightarrow> is_due now gp" using mem uniq by blast
    finally show ?thesis by (simp add: is_due_def)
  qed
  moreover have "\<forall>gp' \<in> set (getActiveGracePeriods (snd (sweepExpiredGracePeriods now d))). of_int now < gp_expiresAt gp'"
    by (auto simp: getActiveGracePeriods_def getAllGracePeriods_def sweepExpiredGracePeriods_def is_due_def not_le split: if_splits)
  moreover have "reminder_due now (setGracePeriodConfig p config d) = reminder_due now d"
    by (intro ext) (simp add: reminder_due_def setGracePeriodConfig_def getGracePeriodConfigForInvoice_def
        split: option.split)
  then have "tickGracePeriodReminders dispatcher now (setGracePeriodConfig p config d) =
      map_prod id (setGracePeriodConfig p config) (tickGracePeriodReminders dispatcher now d)"
    by (simp add: tickGracePeriodReminders_def Let_def) (simp add: setGracePeriodConfig_def)
  ultimately show ?thesis by (simp add: spaced_def h_def)
qed

definition demo_failure :: ProcessFailedInput where
  "demo_failure = \<lparr>pf_invoiceId = ''inv'', pf_subscriptionId = ''sub'', pf_planId = ''plan'', pf_amount = 10,
     pf_currency = ''USD'', pf_declineCode = InsufficientFunds\<rparr>"

lemma grace_period_lifecycle_witness:
  "''inv'' \<in> set (fst (sweepExpiredGracePeriods 259200000
     (dunning_step (\<lambda>_. True) (newDunningOrchestrator None None None) (EFail 0 (1/2) demo_failure))))"
proof -
  define d where "d = dunning_step (\<lambda>_. True) (newDunningOrchestrator None None None) (EFail 0 (1/2) demo_failure)"
  have "map_of (do_gracePeriods d) ''inv'' = Some \<lparr>gp_invoiceId = ''inv'', gp_subscriptionId = ''sub'', gp_startedAt = 0,
      gp_expiresAt = 259200000, gp_status = GpActive, gp_remindersSent = 0, gp_lastReminderAt = None\<rparr>"
  proof -
    let ?s = "known 0 demo_failure newRetryScheduler"
    have rec: "map_of (rs_records ?s) ''inv'' = Some (new_record 0 ''inv'' ''sub'' DEFAULT_RETRY_POLICY 10 ''USD'')"
      by (simp add: known_def getRecord_def newRetryScheduler_def register_invoice_def demo_failure_def getPlanPolicy_def)
    obtain dec s2 where dec: "decideRetry 0 (1/2) ''inv'' InsufficientFunds ''plan'' ?s = (dec, s2)" by fastforce
    have pol: "getPlanPolicy ''plan'' ?s = DEFAULT_RETRY_POLICY"
      by (simp add: getPlanPolicy_def known_simps newRetryScheduler_def)
    from decideRetry_cases(1) [OF rec, of 0 "1/2" InsufficientFunds "''plan''"] dec have "pd_shouldRetry dec"
      unfolding pol breaker_open_def by (simp add: new_record_def DEFAULT_RETRY_POLICY_def)
    with dec show ?thesis
      by (simp add: d_def dunning_step_def processFailed_def Let_def known_def [symmetric] newDunningOrchestrator_def
          or_else_def upsertGracePeriod_def DEFAULT_GRACE_PERIOD_CONFIG_def ONE_HOUR_MS_def)
        (simp add: demo_failure_def DEFAULT_GRACE_PERIOD_CONFIG_def ONE_HOUR_MS_def upsertGracePeriod_def Let_def)
  qed
  with grace_period_lifecycle [of d "\<lambda>_. True" None None None "[EFail 0 (1/2) demo_failure]" "''inv''" _ 259200000]
  show ?thesis by (simp add: d_def getGracePeriod_def)
qed

end
