(* ===== verification/ProgressiveDunning.thy ===== *)
theory ProgressiveDunning
  imports JsNumber
begin

text \<open>
  Progressive escalation of failed payments, \<^verbatim>\<open>src/services/progressiveDunningEngine.ts\<close> with the
  types of \<^verbatim>\<open>src/types/dunning.ts\<close> and \<^verbatim>\<open>src/types/dunningEscalation.ts\<close>. \<open>Date.now()\<close> and the
  generated ids are arguments, hours are rationals, exceptions are values. The suggestions of
  \<open>optimizePolicy\<close> are not modelled.
\<close>

section \<open>Types\<close>

datatype DunningStage = Retry | Warn | Suspend | Cancel

datatype FailureReason = FrInsufficientFunds | FrExpiredCard | FrNetwork | FrDefault

datatype CommunicationChannel = ChEmail | ChPush | ChInApp | ChSms | ChSupport

datatype CommunicationStatus = CmSent | CmFailed | CmOpened | CmClicked

record DunningStageConfig =
  sc_stage :: DunningStage
  sc_delayHours :: rat
  sc_maxAttempts :: int
  sc_templateId :: string

record RetryStrategy =
  st_stages :: "DunningStageConfig list"
  st_maxRetries :: int
  st_retryIntervalHours :: rat
  st_warnAfterFailures :: int
  st_suspendAfterDays :: int
  st_cancelAfterDays :: int
  st_communicationChannels :: "CommunicationChannel list"

record DunningCommunication =
  dc_id :: string
  dc_stage :: DunningStage
  dc_channel :: CommunicationChannel
  dc_templateId :: string
  dc_sentAt :: int
  dc_status :: CommunicationStatus
  dc_metadata :: "string obj"

record DunningEntry =
  de_id :: string
  de_subscriptionId :: string
  de_subscriberId :: string
  de_merchantId :: string
  de_planId :: string
  de_failureReason :: FailureReason
  de_abTestVariant :: "string option"
  de_currentStage :: DunningStage
  de_failedAttempts :: int
  de_totalFailedCharges :: int
  de_firstFailureAt :: int
  de_lastFailureAt :: int
  de_lastAttemptAt :: int
  de_nextActionAt :: rat
  de_isPaused :: bool
  de_communicationLog :: "DunningCommunication list"
  de_createdAt :: int
  de_updatedAt :: int

record DunningTemplate =
  dt_id :: string
  dt_stage :: DunningStage
  dt_subject :: string
  dt_body :: string
  dt_pushTitle :: string
  dt_pushBody :: string
  dt_actionLabel :: string
  dt_actionUrl :: string

definition DEFAULT_DUNNING_STAGES :: "DunningStageConfig list" where
  "DEFAULT_DUNNING_STAGES =
     [\<lparr>sc_stage = Retry, sc_delayHours = 1, sc_maxAttempts = 3, sc_templateId = ''payment_retry''\<rparr>,
      \<lparr>sc_stage = Warn, sc_delayHours = 24, sc_maxAttempts = 2, sc_templateId = ''payment_warning''\<rparr>,
      \<lparr>sc_stage = Suspend, sc_delayHours = 72, sc_maxAttempts = 1, sc_templateId = ''service_suspension''\<rparr>,
      \<lparr>sc_stage = Cancel, sc_delayHours = 168, sc_maxAttempts = 1, sc_templateId = ''subscription_cancellation''\<rparr>]"

definition DUNNING_TEMPLATES :: "DunningTemplate list" where
  "DUNNING_TEMPLATES =
     [\<lparr>dt_id = ''payment_retry'', dt_stage = Retry,
       dt_subject = ''Payment retry initiated for {subscription_name}'',
       dt_body = ''We were unable to process your payment of {amount} {currency} for {subscription_name}. We will automatically retry up to {max_retries} times. No action needed at this time.'',
       dt_pushTitle = ''Payment retry: {subscription_name}'',
       dt_pushBody = ''Retrying payment of {amount} {currency}. No action needed.'',
       dt_actionLabel = ''View subscription'', dt_actionUrl = ''/subscription/{subscription_id}''\<rparr>,
      \<lparr>dt_id = ''payment_warning'', dt_stage = Warn,
       dt_subject = ''Action needed: {subscription_name} payment failing'',
       dt_body = ''We have been unable to process your payment of {amount} {currency} for {subscription_name} after {attempts} attempts. Please update your payment method to avoid service interruption.'',
       dt_pushTitle = ''Payment failing: {subscription_name}'',
       dt_pushBody = ''{attempts} attempts failed. Update payment method to avoid interruption.'',
       dt_actionLabel = ''Update payment method'', dt_actionUrl = ''/subscription/{subscription_id}/payment''\<rparr>,
      \<lparr>dt_id = ''service_suspension'', dt_stage = Suspend,
       dt_subject = ''{subscription_name} has been suspended'',
       dt_body = ''Due to continued payment failures, your subscription to {subscription_name} has been temporarily suspended. You can restore access by updating your payment method.'',
       dt_pushTitle = ''{subscription_name} suspended'',
       dt_pushBody = ''Update payment method to restore service.'',
       dt_actionLabel = ''Restore subscription'', dt_actionUrl = ''/subscription/{subscription_id}/restore''\<rparr>,
      \<lparr>dt_id = ''subscription_cancellation'', dt_stage = Cancel,
       dt_subject = ''{subscription_name} has been cancelled'',
       dt_body = ''Your subscription to {subscription_name} has been cancelled due to unresolved payment issues. Your data will be retained for {retention_days} days.'',
       dt_pushTitle = ''{subscription_name} cancelled'',
       dt_pushBody = ''Subscription cancelled due to payment issues.'',
       dt_actionLabel = ''Reactivate subscription'', dt_actionUrl = ''/subscription/{subscription_id}/reactivate''\<rparr>]"

record EscalationRule =
  er_id :: string
  er_fromStage :: DunningStage
  er_toStage :: DunningStage
  er_afterFailedAttempts :: "int option"
  er_afterHours :: "rat option"
  er_minRecoveryProbability :: "rat option"
  er_channels :: "CommunicationChannel list"
  er_templateId :: string
  er_priority :: int

record EscalationPolicy =
  ep_planId :: string
  ep_rules :: "EscalationRule list"
  ep_enabled :: bool
  ep_maxEscalations :: int

record EscalationEvent =
  ev_id :: string
  ev_subscriptionId :: string
  ev_planId :: string
  ev_ruleId :: string
  ev_fromStage :: DunningStage
  ev_toStage :: DunningStage
  ev_channels :: "CommunicationChannel list"
  ev_templateId :: string
  ev_triggeredAt :: int
  ev_reason :: string

definition STAGE_ORDER :: "DunningStage list" where
  "STAGE_ORDER = [Retry, Warn, Suspend, Cancel]"

definition stageIndex :: "DunningStage \<Rightarrow> int" where
  "stageIndex stage = (case js_findIndex (\<lambda>x. x = stage) STAGE_ORDER of None \<Rightarrow> -1 | Some i \<Rightarrow> int i)"

definition isForwardEscalation :: "DunningStage \<Rightarrow> DunningStage \<Rightarrow> bool" where
  "isForwardEscalation from to \<longleftrightarrow> stageIndex from < stageIndex to"

fun stage_name :: "DunningStage \<Rightarrow> string" where
  "stage_name Retry = ''retry''"
| "stage_name Warn = ''warn''"
| "stage_name Suspend = ''suspend''"
| "stage_name Cancel = ''cancel''"

definition default_rule :: "nat \<Rightarrow> DunningStageConfig \<Rightarrow> DunningStageConfig \<Rightarrow> EscalationRule" where
  "default_rule i from to =
     \<lparr>er_id = ''rule_'' @ stage_name (sc_stage from) @ ''_to_'' @ stage_name (sc_stage to),
      er_fromStage = sc_stage from, er_toStage = sc_stage to,
      er_afterFailedAttempts = Some (sc_maxAttempts from),
      er_afterHours = Some (sc_delayHours from * of_int (max (sc_maxAttempts from) 1)),
      er_minRecoveryProbability = None, er_channels = [ChEmail, ChPush], er_templateId = sc_templateId to,
      er_priority = 100 - int i * 10\<rparr>"

definition createDefaultEscalationPolicy :: "string \<Rightarrow> EscalationPolicy" where
  "createDefaultEscalationPolicy planId =
     \<lparr>ep_planId = planId,
      ep_rules = map (\<lambda>i. default_rule i (DEFAULT_DUNNING_STAGES ! i) (DEFAULT_DUNNING_STAGES ! (i + 1)))
        [0..<length DEFAULT_DUNNING_STAGES - 1],
      ep_enabled = True, ep_maxEscalations = int (length STAGE_ORDER) - 1\<rparr>"

section \<open>The engine\<close>

record RecoveryRecord =
  rv_subscriptionId :: string
  rv_path :: string
  rv_recovered :: bool
  rv_escalationCount :: nat
  rv_at :: int

record ProgressiveEngine =
  pe_policies :: "EscalationPolicy obj"
  pe_events :: "EscalationEvent list"
  pe_escalationCounts :: "nat obj"
  pe_stageEnteredAt :: "int obj"
  pe_recoveryEstimates :: "rat obj"
  pe_timingSamples :: "(DunningStage \<times> rat) list"
  pe_recoveryRecords :: "RecoveryRecord list"
  pe_stageEntries :: "DunningStage \<Rightarrow> nat"
  pe_stageExits :: "DunningStage \<Rightarrow> nat"
  pe_stageRecoveries :: "DunningStage \<Rightarrow> nat"
  pe_stageEscalations :: "DunningStage \<Rightarrow> nat"
  pe_pathCounts :: "(nat \<times> nat) obj"
  pe_activeStageCounts :: "DunningStage obj"

definition configurePolicy :: "EscalationPolicy \<Rightarrow> ProgressiveEngine \<Rightarrow> EscalationPolicy \<times> ProgressiveEngine" where
  "configurePolicy policy eng =
     (let normalized = policy\<lparr>ep_rules := sort_key (\<lambda>r. - er_priority r)
              (filter (\<lambda>r. isForwardEscalation (er_fromStage r) (er_toStage r)) (ep_rules policy)),
            ep_maxEscalations := max 1 (ep_maxEscalations policy)\<rparr>
      in (normalized, eng\<lparr>pe_policies := AList.update (ep_planId policy) normalized (pe_policies eng)\<rparr>))"

definition newProgressiveEngine :: "bool \<Rightarrow> ProgressiveEngine" where
  "newProgressiveEngine seedDefaultPolicy =
     (let eng = \<lparr>pe_policies = [], pe_events = [], pe_escalationCounts = [], pe_stageEnteredAt = [],
            pe_recoveryEstimates = [], pe_timingSamples = [], pe_recoveryRecords = [],
            pe_stageEntries = (\<lambda>_. 0), pe_stageExits = (\<lambda>_. 0), pe_stageRecoveries = (\<lambda>_. 0),
            pe_stageEscalations = (\<lambda>_. 0), pe_pathCounts = [], pe_activeStageCounts = []\<rparr>
      in if seedDefaultPolicy then snd (configurePolicy (createDefaultEscalationPolicy ''default'') eng) else eng)"

definition getPolicy :: "string \<Rightarrow> ProgressiveEngine \<Rightarrow> EscalationPolicy option" where
  "getPolicy planId eng = map_of (pe_policies eng) planId"

definition setRecoveryEstimate :: "string \<Rightarrow> rat \<Rightarrow> ProgressiveEngine \<Rightarrow> ProgressiveEngine" where
  "setRecoveryEstimate sub probability eng =
     eng\<lparr>pe_recoveryEstimates := AList.update sub (max 0 (min 1 probability)) (pe_recoveryEstimates eng)\<rparr>"

definition count_stage :: "DunningStage \<Rightarrow> (DunningStage \<Rightarrow> nat) \<Rightarrow> DunningStage \<Rightarrow> nat" where
  "count_stage stage f = f(stage := f stage + 1)"

definition trackStageEntry :: "DunningEntry \<Rightarrow> int \<Rightarrow> ProgressiveEngine \<Rightarrow> ProgressiveEngine" where
  "trackStageEntry entry time eng =
     eng\<lparr>pe_stageEnteredAt := AList.update (de_subscriptionId entry) time (pe_stageEnteredAt eng),
         pe_stageEntries := count_stage (de_currentStage entry) (pe_stageEntries eng),
         pe_activeStageCounts := AList.update (de_subscriptionId entry) (de_currentStage entry) (pe_activeStageCounts eng)\<rparr>"

definition buildPath :: "string \<Rightarrow> DunningStage \<Rightarrow> ProgressiveEngine \<Rightarrow> string" where
  "buildPath sub currentStage eng =
     (let evs = filter (\<lambda>e. ev_subscriptionId e = sub) (pe_events eng)
      in if evs = [] then stage_name currentStage
         else js_join ''->'' (stage_name (ev_fromStage (hd evs)) # map (stage_name \<circ> ev_toStage) evs))"

definition recordRecovery :: "DunningEntry \<Rightarrow> int \<Rightarrow> ProgressiveEngine \<Rightarrow> ProgressiveEngine" where
  "recordRecovery entry time eng =
     (let sub = de_subscriptionId entry; stage = de_currentStage entry; path = buildPath sub stage eng;
          stats = obj_or (0, 0) (pe_pathCounts eng) path
      in eng\<lparr>pe_stageRecoveries := count_stage stage (pe_stageRecoveries eng),
             pe_stageExits := count_stage stage (pe_stageExits eng),
             pe_timingSamples := pe_timingSamples eng @
               (case map_of (pe_stageEnteredAt eng) sub of
                  None \<Rightarrow> [] | Some enteredAt \<Rightarrow> [(stage, of_int (time - enteredAt) / of_int ONE_HOUR_MS)]),
             pe_recoveryRecords := pe_recoveryRecords eng @
               [\<lparr>rv_subscriptionId = sub, rv_path = path, rv_recovered = True,
                 rv_escalationCount = obj_or 0 (pe_escalationCounts eng) sub, rv_at = time\<rparr>],
             pe_pathCounts := AList.update path (fst stats, snd stats + 1) (pe_pathCounts eng),
             pe_activeStageCounts := AList.delete sub (pe_activeStageCounts eng),
             pe_stageEnteredAt := AList.delete sub (pe_stageEnteredAt eng),
             pe_escalationCounts := AList.delete sub (pe_escalationCounts eng),
             pe_recoveryEstimates := AList.delete sub (pe_recoveryEstimates eng)\<rparr>)"

definition hoursInCurrentStage :: "DunningEntry \<Rightarrow> int \<Rightarrow> ProgressiveEngine \<Rightarrow> rat" where
  "hoursInCurrentStage entry now eng =
     (let enteredAt = obj_or (de_updatedAt entry) (pe_stageEnteredAt eng) (de_subscriptionId entry)
      in max 0 (of_int (now - enteredAt) / of_int ONE_HOUR_MS))"

definition ruleMatches :: "EscalationRule \<Rightarrow> DunningEntry \<Rightarrow> rat \<Rightarrow> rat \<Rightarrow> bool" where
  "ruleMatches rule entry hoursInStage recoveryProb \<longleftrightarrow>
     (case er_minRecoveryProbability rule of None \<Rightarrow> True | Some p \<Rightarrow> \<not> recoveryProb < p) \<and>
     ((er_afterFailedAttempts rule = None \<and> er_afterHours rule = None) \<or>
      (case er_afterFailedAttempts rule of None \<Rightarrow> False | Some n \<Rightarrow> n \<le> de_failedAttempts entry) \<or>
      (case er_afterHours rule of None \<Rightarrow> False | Some h \<Rightarrow> h \<le> hoursInStage))"

definition policy_for :: "string \<Rightarrow> ProgressiveEngine \<Rightarrow> EscalationPolicy option" where
  "policy_for planId eng =
     (case map_of (pe_policies eng) planId of None \<Rightarrow> map_of (pe_policies eng) ''default'' | Some p \<Rightarrow> Some p)"

definition findMatchingRule :: "DunningEntry \<Rightarrow> int \<Rightarrow> ProgressiveEngine \<Rightarrow> EscalationRule option" where
  "findMatchingRule entry now eng =
     (if de_isPaused entry then None
      else case policy_for (de_planId entry) eng of
        None \<Rightarrow> None
      | Some policy \<Rightarrow>
          if \<not> ep_enabled policy then None
          else if ep_maxEscalations policy \<le> int (obj_or 0 (pe_escalationCounts eng) (de_subscriptionId entry)) then None
          else
            let hoursInStage = hoursInCurrentStage entry now eng;
                recoveryProb = obj_or (1/2) (pe_recoveryEstimates eng) (de_subscriptionId entry);
                candidates = sort_key (\<lambda>r. - er_priority r)
                  (filter (\<lambda>rule. ruleMatches rule entry hoursInStage recoveryProb)
                    (filter (\<lambda>rule. isForwardEscalation (er_fromStage rule) (er_toStage rule))
                      (filter (\<lambda>rule. er_fromStage rule = de_currentStage entry) (ep_rules policy))))
            in (case candidates of [] \<Rightarrow> None | rule # _ \<Rightarrow> Some rule))"

definition evaluateEscalation :: "DunningEntry \<Rightarrow> int \<Rightarrow> ProgressiveEngine \<Rightarrow> DunningStage option" where
  "evaluateEscalation entry now eng = map_option er_toStage (findMatchingRule entry now eng)"

text \<open>A number with one decimal, \<open>String(n / 10)\<close>, and the arrow of the messages in UTF-8.\<close>

definition show_tenths :: "nat \<Rightarrow> string" where
  "show_tenths n = (if n mod 10 = 0 then show_nat (n div 10) else show_nat (n div 10) @ ''.'' @ show_nat (n mod 10))"

definition arrow :: string where
  "arrow = '' '' @ [CHR 0xE2, CHR 0x86, CHR 0x92] @ '' ''"

definition describeReason :: "EscalationRule \<Rightarrow> DunningEntry \<Rightarrow> int \<Rightarrow> ProgressiveEngine \<Rightarrow> string" where
  "describeReason rule entry now eng =
     (let byAttempts = (case er_afterFailedAttempts rule of
              None \<Rightarrow> []
            | Some n \<Rightarrow> if n \<le> de_failedAttempts entry then [show_int (de_failedAttempts entry) @ '' failed attempts''] else []);
          tenths = nat (js_round (hoursInCurrentStage entry now eng * 10));
          byHours = (case er_afterHours rule of
              None \<Rightarrow> []
            | Some h \<Rightarrow> if h \<le> of_nat tenths / 10 then [show_tenths tenths @ ''h in '' @ stage_name (de_currentStage entry)] else []);
          parts = (if byAttempts @ byHours = [] then [''rule '' @ er_id rule @ '' matched''] else byAttempts @ byHours)
      in ''Escalated '' @ stage_name (er_fromStage rule) @ arrow @ stage_name (er_toStage rule) @ '': '' @
           js_join '', '' parts)"

fun delayHoursForStage :: "DunningStage \<Rightarrow> rat" where
  "delayHoursForStage Retry = 1"
| "delayHoursForStage Warn = 24"
| "delayHoursForStage Suspend = 72"
| "delayHoursForStage Cancel = 168"

datatype escalation_error = NonProgressive DunningStage DunningStage | WrongStage DunningStage DunningStage

record ApplyEscalationResult =
  ae_entry :: DunningEntry
  ae_event :: EscalationEvent

definition escalation_path :: "EscalationRule \<Rightarrow> string" where
  "escalation_path rule = stage_name (er_fromStage rule) @ ''->'' @ stage_name (er_toStage rule)"

definition escalation_event :: "int \<Rightarrow> string \<Rightarrow> DunningEntry \<Rightarrow> EscalationRule \<Rightarrow> ProgressiveEngine \<Rightarrow> EscalationEvent" where
  "escalation_event now eid entry rule eng =
     \<lparr>ev_id = eid, ev_subscriptionId = de_subscriptionId entry, ev_planId = de_planId entry, ev_ruleId = er_id rule,
      ev_fromStage = er_fromStage rule, ev_toStage = er_toStage rule, ev_channels = er_channels rule,
      ev_templateId = er_templateId rule, ev_triggeredAt = now, ev_reason = describeReason rule entry now eng\<rparr>"

definition escalated_entry :: "int \<Rightarrow> DunningEntry \<Rightarrow> EscalationRule \<Rightarrow> DunningEntry" where
  "escalated_entry now entry rule =
     entry\<lparr>de_currentStage := er_toStage rule, de_failedAttempts := 0,
       de_nextActionAt := of_int now + delayHoursForStage (er_toStage rule) * of_int ONE_HOUR_MS, de_updatedAt := now\<rparr>"

definition escalated_engine :: "int \<Rightarrow> string \<Rightarrow> DunningEntry \<Rightarrow> EscalationRule \<Rightarrow> ProgressiveEngine \<Rightarrow> ProgressiveEngine" where
  "escalated_engine now eid entry rule eng =
     (let sub = de_subscriptionId entry; stage = de_currentStage entry;
          enteredAt = obj_or (de_updatedAt entry) (pe_stageEnteredAt eng) sub;
          stats = obj_or (0, 0) (pe_pathCounts eng) (escalation_path rule)
      in eng\<lparr>pe_timingSamples := pe_timingSamples eng @ [(stage, of_int (now - enteredAt) / of_int ONE_HOUR_MS)],
             pe_stageExits := count_stage stage (pe_stageExits eng),
             pe_stageEscalations := count_stage stage (pe_stageEscalations eng),
             pe_events := pe_events eng @ [escalation_event now eid entry rule eng],
             pe_escalationCounts := AList.update sub (obj_or 0 (pe_escalationCounts eng) sub + 1) (pe_escalationCounts eng),
             pe_pathCounts := AList.update (escalation_path rule) (fst stats + 1, snd stats) (pe_pathCounts eng),
             pe_stageEnteredAt := AList.update sub now (pe_stageEnteredAt eng),
             pe_stageEntries := count_stage (er_toStage rule) (pe_stageEntries eng),
             pe_activeStageCounts := AList.update sub (er_toStage rule) (pe_activeStageCounts eng)\<rparr>)"

definition applyEscalation :: "int \<Rightarrow> string \<Rightarrow> DunningEntry \<Rightarrow> EscalationRule \<Rightarrow> ProgressiveEngine
    \<Rightarrow> escalation_error + (ApplyEscalationResult \<times> ProgressiveEngine)" where
  "applyEscalation now eid entry rule eng =
     (if \<not> isForwardEscalation (er_fromStage rule) (er_toStage rule)
      then Inl (NonProgressive (er_fromStage rule) (er_toStage rule))
      else if de_currentStage entry \<noteq> er_fromStage rule
      then Inl (WrongStage (er_fromStage rule) (de_currentStage entry))
      else Inr (\<lparr>ae_entry = escalated_entry now entry rule, ae_event = escalation_event now eid entry rule eng\<rparr>,
                escalated_engine now eid entry rule eng))"

record ProcessDueResult =
  du_processed :: "ApplyEscalationResult list"
  du_skipped :: "string list"

text \<open>\<open>now\<close> is the parameter, \<open>clock\<close> the \<open>Date.now()\<close> of the escalations, \<open>ids k\<close> the id of event \<open>k\<close>.\<close>

fun due_loop :: "int \<Rightarrow> int \<Rightarrow> (nat \<Rightarrow> string) \<Rightarrow> DunningEntry list \<Rightarrow> ProcessDueResult \<Rightarrow> ProgressiveEngine
    \<Rightarrow> escalation_error + (ProcessDueResult \<times> ProgressiveEngine)" where
  "due_loop now clock ids [] result eng = Inr (result, eng)"
| "due_loop now clock ids (entry # entries) result eng =
     (if de_isPaused entry
      then due_loop now clock ids entries (result\<lparr>du_skipped := du_skipped result @ [de_subscriptionId entry]\<rparr>) eng
      else (case findMatchingRule entry now eng of
              None \<Rightarrow> due_loop now clock ids entries (result\<lparr>du_skipped := du_skipped result @ [de_subscriptionId entry]\<rparr>) eng
            | Some rule \<Rightarrow>
                (case applyEscalation clock (ids (length (pe_events eng))) entry rule eng of
                   Inl err \<Rightarrow> Inl err
                 | Inr (applied, eng1) \<Rightarrow>
                     due_loop now clock ids entries (result\<lparr>du_processed := du_processed result @ [applied]\<rparr>) eng1)))"

definition processDueEscalations :: "int \<Rightarrow> int \<Rightarrow> (nat \<Rightarrow> string) \<Rightarrow> DunningEntry list \<Rightarrow> ProgressiveEngine
    \<Rightarrow> escalation_error + (ProcessDueResult \<times> ProgressiveEngine)" where
  "processDueEscalations now clock ids entries eng = due_loop now clock ids entries \<lparr>du_processed = [], du_skipped = []\<rparr> eng"

definition getEvents :: "string option \<Rightarrow> ProgressiveEngine \<Rightarrow> EscalationEvent list" where
  "getEvents sub eng =
     (case sub of
        None \<Rightarrow> pe_events eng
      | Some s \<Rightarrow> if s = '''' then pe_events eng else filter (\<lambda>e. ev_subscriptionId e = s) (pe_events eng))"

section \<open>Analytics\<close>

record StageFunnelStats =
  sf_stage :: DunningStage
  sf_entered :: nat
  sf_exited :: nat
  sf_recovered :: nat
  sf_escalated :: nat
  sf_currentlyInStage :: nat

record TimeInStageStats =
  ts_stage :: DunningStage
  ts_averageHours :: rat
  ts_medianHours :: rat
  ts_sampleSize :: nat

record EscalationPathRecovery =
  px_path :: string
  px_escalations :: nat
  px_recoveries :: nat
  px_recoveryRate :: int

record ProgressiveAnalytics =
  pa_totalEscalations :: nat
  pa_activePolicies :: nat
  pa_stageFunnel :: "StageFunnelStats list"
  pa_timeInStage :: "TimeInStageStats list"
  pa_recoveryByEscalationPath :: "EscalationPathRecovery list"
  pa_averageEscalationsBeforeRecovery :: rat
  pa_overallRecoveryRate :: int

definition round_tenth :: "rat \<Rightarrow> rat" where
  "round_tenth x = of_int (js_round (x * 10)) / 10"

definition stage_funnel :: "ProgressiveEngine \<Rightarrow> DunningStage \<Rightarrow> StageFunnelStats" where
  "stage_funnel eng stage =
     \<lparr>sf_stage = stage, sf_entered = pe_stageEntries eng stage, sf_exited = pe_stageExits eng stage,
      sf_recovered = pe_stageRecoveries eng stage, sf_escalated = pe_stageEscalations eng stage,
      sf_currentlyInStage = length (filter (\<lambda>s. s = stage) (map snd (pe_activeStageCounts eng)))\<rparr>"

definition time_in_stage :: "ProgressiveEngine \<Rightarrow> DunningStage \<Rightarrow> TimeInStageStats" where
  "time_in_stage eng stage =
     (let samples = sort (map snd (filter (\<lambda>(s, h). s = stage) (pe_timingSamples eng))); n = length samples
      in \<lparr>ts_stage = stage,
          ts_averageHours = (if 0 < n then round_tenth (rat_sum samples / of_nat n) else 0),
          ts_medianHours = (if n = 0 then 0 else if n mod 2 = 1 then samples ! (n div 2)
            else round_tenth ((samples ! (n div 2 - 1) + samples ! (n div 2)) / 2)),
          ts_sampleSize = n\<rparr>)"

definition path_recovery :: "string \<times> (nat \<times> nat) \<Rightarrow> EscalationPathRecovery" where
  "path_recovery p =
     (case p of (path, escalations, recoveries) \<Rightarrow>
        \<lparr>px_path = path, px_escalations = escalations, px_recoveries = recoveries,
         px_recoveryRate = (if 0 < escalations then js_round (of_nat recoveries / of_nat escalations * 100) else 0)\<rparr>)"

definition getProgressiveAnalytics :: "ProgressiveEngine \<Rightarrow> ProgressiveAnalytics" where
  "getProgressiveAnalytics eng =
     (let recovered = filter rv_recovered (pe_recoveryRecords eng); totalEscalations = length (pe_events eng)
      in \<lparr>pa_totalEscalations = totalEscalations,
          pa_activePolicies = length (filter ep_enabled (map snd (pe_policies eng))),
          pa_stageFunnel = map (stage_funnel eng) STAGE_ORDER,
          pa_timeInStage = map (time_in_stage eng) STAGE_ORDER,
          pa_recoveryByEscalationPath = map path_recovery (pe_pathCounts eng),
          pa_averageEscalationsBeforeRecovery = (if 0 < length recovered
            then round_tenth (rat_sum (map (\<lambda>r. of_nat (rv_escalationCount r)) recovered) / of_nat (length recovered)) else 0),
          pa_overallRecoveryRate = (if 0 < totalEscalations
            then js_round (of_nat (length recovered) / of_nat (max totalEscalations 1) * 100)
            else if 0 < length recovered then 100 else 0)\<rparr>)"

section \<open>Templates\<close>

text \<open>\<open>text.replace(/\{([a-z_]+)\}/g, ...)\<close>: the values are given printed.\<close>

definition is_key_char :: "char \<Rightarrow> bool" where
  "is_key_char c \<longleftrightarrow> (CHR ''a'' \<le> c \<and> c \<le> CHR ''z'') \<or> c = CHR ''_''"

function replace_vars :: "string obj \<Rightarrow> string \<Rightarrow> string" where
  "replace_vars vars [] = []"
| "replace_vars vars (c # cs) =
     (let key = takeWhile is_key_char cs; rest = dropWhile is_key_char cs
      in if c = CHR ''{'' \<and> key \<noteq> [] \<and> rest \<noteq> [] \<and> hd rest = CHR ''}''
         then (case map_of vars key of None \<Rightarrow> ''{'' @ key @ ''}'' | Some v \<Rightarrow> v) @ replace_vars vars (tl rest)
         else c # replace_vars vars cs)"
  by pat_completeness auto
termination
  by (relation "measure (\<lambda>(vars, cs). length cs)")
    (auto simp: less_Suc_eq_le length_dropWhile_le intro: le_trans [OF diff_le_self length_dropWhile_le])

record RenderedTemplate =
  rt_subject :: string
  rt_body :: string
  rt_pushTitle :: string
  rt_pushBody :: string
  rt_actionLabel :: string
  rt_actionUrl :: string

definition renderTemplate :: "string \<Rightarrow> string obj \<Rightarrow> RenderedTemplate option" where
  "renderTemplate templateId vars =
     map_option (\<lambda>t. \<lparr>rt_subject = replace_vars vars (dt_subject t), rt_body = replace_vars vars (dt_body t),
         rt_pushTitle = replace_vars vars (dt_pushTitle t), rt_pushBody = replace_vars vars (dt_pushBody t),
         rt_actionLabel = replace_vars vars (dt_actionLabel t), rt_actionUrl = replace_vars vars (dt_actionUrl t)\<rparr>)
       (js_find (\<lambda>t. dt_id t = templateId) DUNNING_TEMPLATES)"


section \<open>Escalations are progressive\<close>

lemma stageIndex_simps [simp]:
  "stageIndex Retry = 0" "stageIndex Warn = 1" "stageIndex Suspend = 2" "stageIndex Cancel = 3"
  by (simp_all add: stageIndex_def STAGE_ORDER_def)

lemma hd_sort_key_in: "sort_key f xs = y # ys \<Longrightarrow> y \<in> set xs \<and> (\<forall>x \<in> set xs. f y \<le> f x)"
proof -
  assume eq: "sort_key f xs = y # ys"
  then have "set xs = set (y # ys)" by (metis set_sort)
  moreover have "sorted (map f (y # ys))" using sorted_sort_key [of f xs] eq by simp
  ultimately show ?thesis by auto
qed

definition applicable :: "EscalationRule \<Rightarrow> DunningEntry \<Rightarrow> int \<Rightarrow> ProgressiveEngine \<Rightarrow> bool" where
  "applicable rule entry now eng \<longleftrightarrow>
     er_fromStage rule = de_currentStage entry \<and> isForwardEscalation (er_fromStage rule) (er_toStage rule) \<and>
     ruleMatches rule entry (hoursInCurrentStage entry now eng) (obj_or (1/2) (pe_recoveryEstimates eng) (de_subscriptionId entry))"

lemma findMatchingRule_Some:
  assumes "findMatchingRule entry now eng = Some rule"
  shows "\<exists>policy. policy_for (de_planId entry) eng = Some policy \<and> ep_enabled policy \<and> \<not> de_isPaused entry \<and>
    int (obj_or 0 (pe_escalationCounts eng) (de_subscriptionId entry)) < ep_maxEscalations policy \<and>
    rule \<in> set (ep_rules policy) \<and> applicable rule entry now eng \<and>
    (\<forall>r \<in> set (ep_rules policy). applicable r entry now eng \<longrightarrow> er_priority r \<le> er_priority rule)"
proof -
  from assms obtain policy where p: "policy_for (de_planId entry) eng = Some policy" "\<not> de_isPaused entry" "ep_enabled policy"
    "\<not> ep_maxEscalations policy \<le> int (obj_or 0 (pe_escalationCounts eng) (de_subscriptionId entry))"
    by (auto simp: findMatchingRule_def split: option.splits if_splits)
  let ?rs = "filter (\<lambda>rule. ruleMatches rule entry (hoursInCurrentStage entry now eng)
      (obj_or (1/2) (pe_recoveryEstimates eng) (de_subscriptionId entry)))
    (filter (\<lambda>rule. isForwardEscalation (er_fromStage rule) (er_toStage rule))
      (filter (\<lambda>rule. er_fromStage rule = de_currentStage entry) (ep_rules policy)))"
  have set: "set ?rs = {r \<in> set (ep_rules policy). applicable r entry now eng}"
    by (auto simp: applicable_def)
  from assms p obtain ys where "sort_key (\<lambda>r. - er_priority r) ?rs = rule # ys"
    by (auto simp: findMatchingRule_def Let_def split: list.splits)
  from hd_sort_key_in [OF this] have "rule \<in> set ?rs" "\<forall>x \<in> set ?rs. - er_priority rule \<le> - er_priority x" by auto
  with p set show ?thesis by auto
qed

lemma applyEscalation_ok:
  "applicable rule entry now eng \<Longrightarrow> applyEscalation clock eid entry rule eng =
     Inr (\<lparr>ae_entry = escalated_entry clock entry rule, ae_event = escalation_event clock eid entry rule eng\<rparr>,
          escalated_engine clock eid entry rule eng)"
  by (auto simp: applyEscalation_def applicable_def)

text \<open>What the loop promises, apart from how it computes it. A rule is due for an entry when it starts at the entry's stage,
  goes forward, asks for no higher recovery probability than estimated (a half if nothing is known), and has a
  threshold that is reached, the failed attempts or the hours since the stage was entered, or no threshold at all.\<close>

definition rule_due :: "EscalationRule \<Rightarrow> DunningEntry \<Rightarrow> int \<Rightarrow> ProgressiveEngine \<Rightarrow> bool" where
  "rule_due rule entry now eng \<longleftrightarrow>
     er_fromStage rule = de_currentStage entry \<and> stageIndex (er_fromStage rule) < stageIndex (er_toStage rule) \<and>
     (\<forall>p. er_minRecoveryProbability rule = Some p \<longrightarrow>
        p \<le> (case map_of (pe_recoveryEstimates eng) (de_subscriptionId entry) of None \<Rightarrow> 1/2 | Some q \<Rightarrow> q)) \<and>
     (er_afterFailedAttempts rule = None \<and> er_afterHours rule = None \<or>
      (\<exists>n. er_afterFailedAttempts rule = Some n \<and> n \<le> de_failedAttempts entry) \<or>
      (\<exists>h. er_afterHours rule = Some h \<and> h * 3600000 \<le> of_int (max 0 (now -
         (case map_of (pe_stageEnteredAt eng) (de_subscriptionId entry) of None \<Rightarrow> de_updatedAt entry | Some t \<Rightarrow> t)))))"

lemma rule_due_applicable: "rule_due rule entry now eng \<longleftrightarrow> applicable rule entry now eng"
proof -
  have hours: "h \<le> max 0 (of_int x / of_int ONE_HOUR_MS) \<longleftrightarrow> h * 3600000 \<le> of_int (max 0 x)" for h :: rat and x :: int
  proof (cases "0 \<le> x")
    case True
    then have "0 \<le> (of_int x / of_int ONE_HOUR_MS :: rat)" by (simp add: ONE_HOUR_MS_def)
    then show ?thesis using True by (simp add: max_def ONE_HOUR_MS_def le_divide_eq)
  next
    case False
    then have "(of_int x / of_int ONE_HOUR_MS :: rat) < 0" by (simp add: ONE_HOUR_MS_def divide_less_0_iff)
    then show ?thesis using False by (auto simp: max_def)
  qed
  show ?thesis
    unfolding rule_due_def applicable_def ruleMatches_def isForwardEscalation_def hoursInCurrentStage_def Let_def obj_or_def hours [symmetric]
    by (cases "er_minRecoveryProbability rule"; cases "er_afterFailedAttempts rule"; cases "er_afterHours rule") (simp_all add: not_less)
qed

text \<open>The policy that may act on an entry: the enabled one of its plan (or the default), its limit not used up, the entry
  not paused.\<close>

definition acting_policy :: "DunningEntry \<Rightarrow> ProgressiveEngine \<Rightarrow> EscalationPolicy \<Rightarrow> bool" where
  "acting_policy entry eng policy \<longleftrightarrow> \<not> de_isPaused entry \<and> policy_for (de_planId entry) eng = Some policy \<and> ep_enabled policy \<and>
     int (obj_or 0 (pe_escalationCounts eng) (de_subscriptionId entry)) < ep_maxEscalations policy"

text \<open>The rule to apply: due, of the highest priority among the due rules, and the first of these in the policy.\<close>

definition best_rule :: "DunningEntry \<Rightarrow> int \<Rightarrow> ProgressiveEngine \<Rightarrow> EscalationRule \<Rightarrow> bool" where
  "best_rule entry now eng rule \<longleftrightarrow> (\<exists>policy before after. acting_policy entry eng policy \<and>
     ep_rules policy = before @ rule # after \<and> rule_due rule entry now eng \<and>
     (\<forall>r \<in> set before. rule_due r entry now eng \<longrightarrow> er_priority r < er_priority rule) \<and>
     (\<forall>r \<in> set after. rule_due r entry now eng \<longrightarrow> er_priority r \<le> er_priority rule))"

definition nothing_due :: "DunningEntry \<Rightarrow> int \<Rightarrow> ProgressiveEngine \<Rightarrow> bool" where
  "nothing_due entry now eng \<longleftrightarrow>
     (\<forall>policy. acting_policy entry eng policy \<longrightarrow> (\<forall>rule \<in> set (ep_rules policy). \<not> rule_due rule entry now eng))"

text \<open>What applying a rule does: the entry goes to the rule's stage with its attempts reset and nothing else but its times
  changed, the event names subscription, plan, rule and stages, and the engine logs it, counts one escalation more for
  this subscription alone, and lets its stage begin now. Policies and estimates stay.\<close>

definition escalates :: "int \<Rightarrow> DunningEntry \<Rightarrow> EscalationRule \<Rightarrow> ProgressiveEngine \<Rightarrow> ApplyEscalationResult \<Rightarrow> ProgressiveEngine \<Rightarrow> bool" where
  "escalates clock entry rule eng r eng' \<longleftrightarrow>
     (\<exists>next_action. ae_entry r = entry\<lparr>de_currentStage := er_toStage rule, de_failedAttempts := 0, de_nextActionAt := next_action, de_updatedAt := clock\<rparr>) \<and>
     ev_subscriptionId (ae_event r) = de_subscriptionId entry \<and> ev_planId (ae_event r) = de_planId entry \<and>
     ev_ruleId (ae_event r) = er_id rule \<and> ev_fromStage (ae_event r) = de_currentStage entry \<and> ev_toStage (ae_event r) = er_toStage rule \<and>
     ev_triggeredAt (ae_event r) = clock \<and>
     pe_events eng' = pe_events eng @ [ae_event r] \<and>
     (\<forall>sub. obj_or 0 (pe_escalationCounts eng') sub =
        obj_or 0 (pe_escalationCounts eng) sub + (if sub = de_subscriptionId entry then 1 else 0)) \<and>
     map_of (pe_stageEnteredAt eng') = (map_of (pe_stageEnteredAt eng))(de_subscriptionId entry \<mapsto> clock) \<and>
     pe_policies eng' = pe_policies eng \<and> pe_recoveryEstimates eng' = pe_recoveryEstimates eng"

text \<open>Working off a list: each entry in turn, on the engine as the entries before it left it, is escalated by its best rule,
  or passed over when no rule is due.\<close>

inductive works_off :: "int \<Rightarrow> int \<Rightarrow> ProgressiveEngine \<Rightarrow> DunningEntry list \<Rightarrow> ApplyEscalationResult option list \<Rightarrow> ProgressiveEngine \<Rightarrow> bool"
  for now clock where
  worked_off: "works_off now clock eng [] [] eng"
| passed_over: "nothing_due entry now eng \<Longrightarrow> works_off now clock eng entries outcomes eng'
    \<Longrightarrow> works_off now clock eng (entry # entries) (None # outcomes) eng'"
| escalated: "best_rule entry now eng rule \<Longrightarrow> escalates clock entry rule eng r eng1
    \<Longrightarrow> works_off now clock eng1 entries outcomes eng'
    \<Longrightarrow> works_off now clock eng (entry # entries) (Some r # outcomes) eng'"

inductive_cases works_off_ConsE: "works_off now clock eng (entry # entries) outcomes eng'"
inductive_cases works_off_NilE: "works_off now clock eng [] outcomes eng'"

lemma works_off_length: "works_off now clock eng entries outcomes eng' \<Longrightarrow> length outcomes = length entries"
  by (induction rule: works_off.induct) simp_all

lemma works_off_forward:
  "works_off now clock eng entries outcomes eng' \<Longrightarrow> i < length entries \<Longrightarrow> outcomes ! i = Some r \<Longrightarrow>
     stageIndex (de_currentStage (entries ! i)) < stageIndex (de_currentStage (ae_entry r))"
proof (induction arbitrary: i rule: works_off.induct)
  case (escalated entry eng rule r1 eng1 entries outcomes eng')
  have "stageIndex (de_currentStage entry) < stageIndex (de_currentStage (ae_entry r1))"
    using escalated.hyps(1, 2) by (auto simp: best_rule_def rule_due_def escalates_def)
  then show ?case using escalated by (cases i) auto
qed (auto simp: less_Suc_eq_0_disj)

lemma hd_sort_key_first:
  assumes "sort_key f xs = y # ys"
  shows "\<exists>before after. xs = before @ y # after \<and> (\<forall>x\<in>set before. f y < f x) \<and> (\<forall>x\<in>set after. f y \<le> f x)"
proof -
  have le: "\<forall>x\<in>set xs. f y \<le> f x" using hd_sort_key_in [OF assms] by blast
  have "filter (\<lambda>x. f x = f y) xs = y # filter (\<lambda>x. f x = f y) ys"
    using sort_key_stable [of f "f y" xs] by (simp add: assms)
  then obtain before after where "xs = before @ y # after" "\<forall>x\<in>set before. f x \<noteq> f y"
    by (auto simp: filter_eq_Cons_iff)
  note parts = this
  have "f y < f x" if "x \<in> set before" for x
  proof -
    have "f y \<le> f x" using le parts(1) that by simp
    moreover have "f y \<noteq> f x" using parts(2) that by (metis (full_types))
    ultimately show ?thesis by (rule order_le_neq_trans)
  qed
  moreover have "f y \<le> f x" if "x \<in> set after" for x using le parts(1) that by simp
  ultimately show ?thesis using parts(1) by blast
qed

lemma filter_split:
  "filter p xs = before @ y # after \<Longrightarrow>
     \<exists>us vs. xs = us @ y # vs \<and> filter p us = before \<and> filter p vs = after \<and> p y"
proof (induction xs arbitrary: before)
  case (Cons x xs)
  show ?case
  proof (cases "p x")
    case False
    then obtain us vs where "xs = us @ y # vs \<and> filter p us = before \<and> filter p vs = after \<and> p y"
      using Cons by (auto simp del: split_paired_Ex)
    then have "x # xs = (x # us) @ y # vs \<and> filter p (x # us) = before \<and> filter p vs = after \<and> p y" using False by simp
    then show ?thesis by blast
  next
    case True
    show ?thesis
    proof (cases before)
      case Nil
      then have "x # xs = [] @ y # xs \<and> filter p [] = before \<and> filter p xs = after \<and> p y" using True Cons.prems by simp
      then show ?thesis by blast
    next
      case tail: (Cons b bs)
      then have "filter p xs = bs @ y # after" "x = b" using True Cons.prems by simp_all
      then obtain us vs where "xs = us @ y # vs \<and> filter p us = bs \<and> filter p vs = after \<and> p y"
        using Cons.IH by blast
      then have "x # xs = (x # us) @ y # vs \<and> filter p (x # us) = before \<and> filter p vs = after \<and> p y"
        using True tail \<open>x = b\<close> by simp
      then show ?thesis by blast
    qed
  qed
qed simp

lemma findMatchingRule_cases:
  "case findMatchingRule entry now eng of
     None \<Rightarrow> nothing_due entry now eng
   | Some rule \<Rightarrow> best_rule entry now eng rule"
proof -
  let ?used = "int (obj_or 0 (pe_escalationCounts eng) (de_subscriptionId entry))"
  show ?thesis
  proof (cases "\<exists>policy. acting_policy entry eng policy")
    case False
    then have "findMatchingRule entry now eng = None"
      by (auto simp: findMatchingRule_def acting_policy_def split: option.splits)
    then show ?thesis using False by (simp add: nothing_due_def)
  next
    case True
    then obtain policy where p: "acting_policy entry eng policy" by blast
    then have only: "policy' = policy" if "acting_policy entry eng policy'" for policy'
      using that by (simp add: acting_policy_def)
    let ?rs = "filter (\<lambda>rule. rule_due rule entry now eng) (ep_rules policy)"
    have rs: "?rs = filter (\<lambda>rule. ruleMatches rule entry (hoursInCurrentStage entry now eng)
          (obj_or (1/2) (pe_recoveryEstimates eng) (de_subscriptionId entry)))
        (filter (\<lambda>rule. isForwardEscalation (er_fromStage rule) (er_toStage rule))
          (filter (\<lambda>rule. er_fromStage rule = de_currentStage entry) (ep_rules policy)))"
      by (simp add: rule_due_applicable applicable_def conj_ac)
    have find: "findMatchingRule entry now eng =
        (case sort_key (\<lambda>r. - er_priority r) ?rs of [] \<Rightarrow> None | rule # _ \<Rightarrow> Some rule)"
      unfolding rs using p by (simp add: findMatchingRule_def acting_policy_def Let_def)
    show ?thesis
    proof (cases "sort_key (\<lambda>r. - er_priority r) ?rs")
      case Nil
      then have "?rs = []" by (metis set_empty set_sort)
      then have "\<not> rule_due rule entry now eng" if "rule \<in> set (ep_rules policy)" for rule
        using that by (simp add: filter_empty_conv)
      then show ?thesis using only Nil by (auto simp: find nothing_due_def)
    next
      case (Cons rule ys)
      from hd_sort_key_first [OF this] obtain before after where ba: "?rs = before @ rule # after"
        "\<forall>x\<in>set before. er_priority x < er_priority rule" "\<forall>x\<in>set after. er_priority x \<le> er_priority rule" by auto
      from filter_split [OF ba(1)] obtain us vs where uv: "ep_rules policy = us @ rule # vs"
        "filter (\<lambda>rule. rule_due rule entry now eng) us = before" "filter (\<lambda>rule. rule_due rule entry now eng) vs = after"
        "rule_due rule entry now eng" by blast
      have us: "er_priority r < er_priority rule" if "r \<in> set us" "rule_due r entry now eng" for r
        using ba(2) uv(2) that by auto
      have vs: "er_priority r \<le> er_priority rule" if "r \<in> set vs" "rule_due r entry now eng" for r
        using ba(3) uv(3) that by auto
      have "best_rule entry now eng rule"
        unfolding best_rule_def
        by (intro exI [of _ policy] exI [of _ us] exI [of _ vs] conjI ballI impI) (use p uv us vs in auto)
      then show ?thesis by (simp add: find Cons)
    qed
  qed
qed

lemma best_rule_applicable: "best_rule entry now eng rule \<Longrightarrow> applicable rule entry now eng \<and> \<not> de_isPaused entry"
  by (auto simp: best_rule_def rule_due_applicable acting_policy_def)

lemma apply_escalates:
  assumes "applicable rule entry now eng"
  shows "\<exists>r eng1. applyEscalation clock eid entry rule eng = Inr (r, eng1) \<and> escalates clock entry rule eng r eng1"
  unfolding applyEscalation_ok [OF assms]
proof (intro exI conjI)
  show "escalates clock entry rule eng
      \<lparr>ae_entry = escalated_entry clock entry rule, ae_event = escalation_event clock eid entry rule eng\<rparr>
      (escalated_engine clock eid entry rule eng)"
    using assms
    by (auto simp: escalates_def escalated_entry_def escalation_event_def escalated_engine_def Let_def obj_or_def update_conv applicable_def)
qed simp

lemma due_loop_works_off:
  "\<exists>outcomes result' eng'. due_loop now clock ids entries result eng = Inr (result', eng') \<and>
     works_off now clock eng entries outcomes eng' \<and>
     du_processed result' = du_processed result @ List.map_filter id outcomes \<and>
     du_skipped result' = du_skipped result @
       map (de_subscriptionId \<circ> fst) (filter (\<lambda>p. snd p = None) (zip entries outcomes)) \<and>
     pe_events eng' = pe_events eng @ map ae_event (List.map_filter id outcomes)"
proof (induction entries arbitrary: result eng)
  case Nil
  then show ?case by (intro exI [of _ "[]"]) (auto intro: worked_off simp: List.map_filter_def)
next
  case (Cons entry entries)
  show ?case
  proof (cases "findMatchingRule entry now eng")
    case None
    then have none: "nothing_due entry now eng" using findMatchingRule_cases [of entry now eng] by simp
    let ?r = "result\<lparr>du_skipped := du_skipped result @ [de_subscriptionId entry]\<rparr>"
    obtain outcomes result' eng' where ih: "due_loop now clock ids entries ?r eng = Inr (result', eng')"
        "works_off now clock eng entries outcomes eng'" "du_processed result' = du_processed ?r @ List.map_filter id outcomes"
        "du_skipped result' = du_skipped ?r @ map (de_subscriptionId \<circ> fst) (filter (\<lambda>p. snd p = None) (zip entries outcomes))"
        "pe_events eng' = pe_events eng @ map ae_event (List.map_filter id outcomes)"
      using Cons.IH [of ?r eng] by blast
    show ?thesis
      by (rule exI [of _ "None # outcomes"], rule exI [of _ result'], rule exI [of _ eng'])
        (use ih None passed_over [OF none ih(2)] in \<open>simp add: List.map_filter_def\<close>)
  next
    case (Some rule)
    then have best: "best_rule entry now eng rule" using findMatchingRule_cases [of entry now eng] by simp
    note ap = best_rule_applicable [OF best]
    obtain r eng1 where r: "applyEscalation clock (ids (length (pe_events eng))) entry rule eng = Inr (r, eng1)"
        "escalates clock entry rule eng r eng1" using apply_escalates ap by blast
    let ?r = "result\<lparr>du_processed := du_processed result @ [r]\<rparr>"
    obtain outcomes result' eng' where ih: "due_loop now clock ids entries ?r eng1 = Inr (result', eng')"
        "works_off now clock eng1 entries outcomes eng'" "du_processed result' = du_processed ?r @ List.map_filter id outcomes"
        "du_skipped result' = du_skipped ?r @ map (de_subscriptionId \<circ> fst) (filter (\<lambda>p. snd p = None) (zip entries outcomes))"
        "pe_events eng' = pe_events eng1 @ map ae_event (List.map_filter id outcomes)"
      using Cons.IH [of ?r eng1] by blast
    have ev: "pe_events eng1 = pe_events eng @ [ae_event r]" using r(2) by (simp add: escalates_def)
    show ?thesis
      by (rule exI [of _ "Some r # outcomes"], rule exI [of _ result'], rule exI [of _ eng'])
        (use ih ap Some r(1) ev works_off.escalated [OF best r(2) ih(2)] in \<open>simp add: List.map_filter_def\<close>)
  qed
qed


section \<open>Runs of the engine\<close>

datatype engine_event = XConfigure EscalationPolicy | XEstimate string rat | XTrack DunningEntry int
  | XRecover DunningEntry int | XEscalate int int string DunningEntry

definition engine_step :: "ProgressiveEngine \<Rightarrow> engine_event \<Rightarrow> ProgressiveEngine" where
  "engine_step eng e =
     (case e of
        XConfigure policy \<Rightarrow> snd (configurePolicy policy eng)
      | XEstimate sub p \<Rightarrow> setRecoveryEstimate sub p eng
      | XTrack entry time \<Rightarrow> trackStageEntry entry time eng
      | XRecover entry time \<Rightarrow> recordRecovery entry time eng
      | XEscalate now clock eid entry \<Rightarrow>
          (case findMatchingRule entry now eng of
             None \<Rightarrow> eng
           | Some rule \<Rightarrow> (case applyEscalation clock eid entry rule eng of Inl _ \<Rightarrow> eng | Inr (_, eng1) \<Rightarrow> eng1)))"

lemma engine_escalate_cases:
  "engine_step eng (XEscalate now clock eid entry) = eng \<or>
   (\<exists>rule. findMatchingRule entry now eng = Some rule \<and> applicable rule entry now eng \<and>
      engine_step eng (XEscalate now clock eid entry) = escalated_engine clock eid entry rule eng)"
proof (cases "findMatchingRule entry now eng")
  case (Some rule)
  from findMatchingRule_Some [OF this] have "applicable rule entry now eng" by blast
  with Some applyEscalation_ok [OF this, of clock eid] show ?thesis by (simp add: engine_step_def)
qed (simp add: engine_step_def)

text \<open>
  The books of the engine: stages are left by escalation or recovery only, events and path counts
  agree, and policies are normalized.
\<close>

definition policy_normal :: "EscalationPolicy \<Rightarrow> bool" where
  "policy_normal p \<longleftrightarrow> 1 \<le> ep_maxEscalations p \<and> sorted (map (\<lambda>r. - er_priority r) (ep_rules p)) \<and>
     (\<forall>r \<in> set (ep_rules p). isForwardEscalation (er_fromStage r) (er_toStage r))"

definition funnel_ok :: "ProgressiveEngine \<Rightarrow> bool" where
  "funnel_ok eng \<longleftrightarrow> obj_ok (pe_pathCounts eng) \<and>
     (\<forall>p \<in> set (pe_policies eng). policy_normal (snd p)) \<and>
     (\<forall>stage. pe_stageExits eng stage = pe_stageRecoveries eng stage + pe_stageEscalations eng stage) \<and>
     (\<forall>stage. pe_stageEscalations eng stage = length (filter (\<lambda>e. ev_fromStage e = stage) (pe_events eng))) \<and>
     obj_sum (\<lambda>c. int (fst c)) (pe_pathCounts eng) = int (length (pe_events eng)) \<and>
     obj_sum (\<lambda>c. int (snd c)) (pe_pathCounts eng) = int (length (pe_recoveryRecords eng)) \<and>
     (\<forall>e \<in> set (pe_events eng). stageIndex (ev_fromStage e) < stageIndex (ev_toStage e)) \<and>
     (\<forall>r \<in> set (pe_recoveryRecords eng). rv_recovered r)"

lemma sort_key_sorted: "sorted (map f (sort_key f xs))"
  by (rule sorted_sort_key)

lemma configure_ok:
  "funnel_ok eng \<Longrightarrow> funnel_ok (snd (configurePolicy policy eng))"
proof -
  assume ok: "funnel_ok eng"
  let ?n = "fst (configurePolicy policy eng)"
  have "policy_normal ?n" by (simp add: configurePolicy_def Let_def policy_normal_def)
  then have "\<forall>p \<in> set (AList.update (ep_planId policy) ?n (pe_policies eng)). policy_normal (snd p)"
    by (intro obj_update_all) (use ok in \<open>auto simp: funnel_ok_def\<close>)
  then show ?thesis using ok by (simp add: funnel_ok_def configurePolicy_def Let_def)
qed

lemma obj_or_case: "(case map_of m k of None \<Rightarrow> 0 | Some w \<Rightarrow> f w) = f (obj_or (0, 0) m k)" if "f (0, 0) = 0"
  using that by (simp add: obj_or_def split: option.split)

lemma engine_step_funnel: "funnel_ok eng \<Longrightarrow> funnel_ok (engine_step eng e)"
proof (cases e)
  case (XRecover entry time)
  assume ok: "funnel_ok eng"
  then show ?thesis unfolding XRecover engine_step_def
    by (auto simp: funnel_ok_def recordRecovery_def Let_def count_stage_def obj_sum_update obj_or_case)
next
  case (XEscalate now clock eid entry)
  assume ok: "funnel_ok eng"
  from engine_escalate_cases [of eng now clock eid entry] show ?thesis
  proof (elim disjE exE conjE)
    fix rule
    assume ap: "applicable rule entry now eng"
      and eq: "engine_step eng (XEscalate now clock eid entry) = escalated_engine clock eid entry rule eng"
    from ok ap have "funnel_ok (escalated_engine clock eid entry rule eng)"
      by (auto simp: funnel_ok_def escalated_engine_def Let_def count_stage_def obj_sum_update obj_or_case
          escalation_event_def applicable_def isForwardEscalation_def)
    then show ?thesis by (simp add: XEscalate eq)
  qed (use ok XEscalate in simp)
next
  case (XConfigure policy)
  assume "funnel_ok eng"
  then show ?thesis by (simp add: XConfigure engine_step_def configure_ok)
qed (simp_all add: engine_step_def funnel_ok_def setRecoveryEstimate_def trackStageEntry_def)

interpretation funnel: machine engine_step funnel_ok
  by unfold_locales (rule engine_step_funnel)

lemma newProgressiveEngine_ok: "funnel_ok (newProgressiveEngine seed)"
  by (auto simp: newProgressiveEngine_def Let_def intro!: configure_ok) (simp_all add: funnel_ok_def)


text \<open>Every subscription's first escalation left the retry stage.\<close>

definition begins_in_retry :: "EscalationEvent list \<Rightarrow> bool" where
  "begins_in_retry evs \<longleftrightarrow> (\<forall>sub e rest. filter (\<lambda>e. ev_subscriptionId e = sub) evs = e # rest \<longrightarrow> ev_fromStage e = Retry)"

definition later_paths :: "string list" where
  "later_paths = [''warn->suspend'', ''warn->cancel'', ''suspend->cancel'']"

lemma engine_events_prefix: "\<exists>new. pe_events (engine_step eng e) = pe_events eng @ new"
proof (cases e)
  case (XEscalate now clock eid entry)
  with engine_escalate_cases [of eng now clock eid entry] show ?thesis
    by (auto simp: escalated_engine_def Let_def)
qed (simp_all add: engine_step_def configurePolicy_def setRecoveryEstimate_def trackStageEntry_def recordRecovery_def Let_def)

lemma begins_in_retry_prefix: "begins_in_retry (evs @ new) \<Longrightarrow> begins_in_retry evs"
  unfolding begins_in_retry_def by (metis append_Cons filter_append)

lemma buildPath_not_later:
  assumes "begins_in_retry (pe_events eng)"
  shows "buildPath sub stage eng \<notin> set later_paths"
proof (cases "filter (\<lambda>e. ev_subscriptionId e = sub) (pe_events eng)")
  case Nil
  then show ?thesis by (cases stage) (simp_all add: buildPath_def later_paths_def)
next
  case (Cons e rest)
  with assms have "ev_fromStage e = Retry" unfolding begins_in_retry_def by blast
  then have "hd (buildPath sub stage eng) = CHR ''r''"
    using Cons by (simp add: buildPath_def Let_def)
  then show ?thesis by (auto simp: later_paths_def)
qed

definition no_later_recoveries :: "ProgressiveEngine \<Rightarrow> bool" where
  "no_later_recoveries eng \<longleftrightarrow> (\<forall>p \<in> set (pe_pathCounts eng). fst p \<in> set later_paths \<longrightarrow> snd (snd p) = 0)"

lemma no_later_step:
  assumes "no_later_recoveries eng" "begins_in_retry (pe_events eng)" "obj_ok (pe_pathCounts eng)"
  shows "no_later_recoveries (engine_step eng e)"
proof (cases e)
  case (XRecover entry time)
  let ?path = "buildPath (de_subscriptionId entry) (de_currentStage entry) eng"
  have "\<forall>p \<in> set (AList.update ?path v (pe_pathCounts eng)). fst p \<in> set later_paths \<longrightarrow> snd (snd p) = 0" for v
    by (rule obj_update_all) (use assms buildPath_not_later [OF assms(2)] in \<open>auto simp: no_later_recoveries_def\<close>)
  then show ?thesis
    by (simp add: XRecover engine_step_def recordRecovery_def Let_def no_later_recoveries_def)
next
  case (XEscalate now clock eid entry)
  from engine_escalate_cases [of eng now clock eid entry] show ?thesis
  proof (elim disjE exE conjE)
    fix rule
    assume eq: "engine_step eng (XEscalate now clock eid entry) = escalated_engine clock eid entry rule eng"
    let ?path = "escalation_path rule" and ?old = "obj_or (0, 0) (pe_pathCounts eng) (escalation_path rule)"
    have "?path \<in> set later_paths \<longrightarrow> snd ?old = 0"
      using assms(1) map_of_SomeD [of "pe_pathCounts eng" ?path]
      by (fastforce simp: no_later_recoveries_def obj_or_def split: option.split)
    then have "\<forall>p \<in> set (AList.update ?path (fst ?old + 1, snd ?old) (pe_pathCounts eng)).
        fst p \<in> set later_paths \<longrightarrow> snd (snd p) = 0"
      by (intro obj_update_all) (use assms in \<open>auto simp: no_later_recoveries_def\<close>)
    then show ?thesis
      by (simp add: XEscalate eq escalated_engine_def Let_def no_later_recoveries_def)
  qed (use assms XEscalate in simp)
qed (use assms in \<open>simp_all add: engine_step_def configurePolicy_def setRecoveryEstimate_def trackStageEntry_def
      no_later_recoveries_def Let_def\<close>)

lemma no_later_run:
  "begins_in_retry (pe_events (foldl engine_step (newProgressiveEngine seed) es)) \<Longrightarrow>
     no_later_recoveries (foldl engine_step (newProgressiveEngine seed) es)"
proof (induction es rule: rev_induct)
  case Nil
  show ?case by (simp add: newProgressiveEngine_def Let_def no_later_recoveries_def configurePolicy_def)
next
  case (snoc e es)
  let ?eng = "foldl engine_step (newProgressiveEngine seed) es"
  obtain new where "pe_events (engine_step ?eng e) = pe_events ?eng @ new" using engine_events_prefix by blast
  with snoc.prems begins_in_retry_prefix have pre: "begins_in_retry (pe_events ?eng)" by simp
  have "obj_ok (pe_pathCounts ?eng)"
    using funnel.run_inv [OF newProgressiveEngine_ok] by (simp add: funnel_ok_def)
  with no_later_step [OF snoc.IH [OF pre] pre] show ?case by simp
qed

section \<open>Properties\<close>

text \<open>C35: Escalation is progressive and every entry gets what it is due: working off a list of entries never throws, whatever
  policies are configured, and takes the entries in turn, each on the engine as the entries before it left it. An entry that is
  paused, has no enabled policy (its plan's or the default one), has used up that policy's limit of escalations, or for which no
  rule of the policy is due, is passed over and changes nothing; every other entry is escalated by the due rule of highest priority
  (the first in the policy among equals). An escalation moves the entry to the rule's stage, strictly forward along retry, warn,
  suspend, cancel, resets its attempts, is logged, and counts against the limit of its subscription alone. The answer
  lists exactly the escalations, in order, as processed and exactly the subscriptions passed over as skipped.\<close>

theorem escalation_is_progressive:
  "\<exists>outcomes result eng'. processDueEscalations now clock ids entries eng = Inr (result, eng') \<and>
     works_off now clock eng entries outcomes eng' \<and>
     (\<forall>i < length entries. \<forall>r. outcomes ! i = Some r \<longrightarrow>
        stageIndex (de_currentStage (entries ! i)) < stageIndex (de_currentStage (ae_entry r))) \<and>
     du_processed result = List.map_filter id outcomes \<and>
     du_skipped result = map (de_subscriptionId \<circ> fst) (filter (\<lambda>p. snd p = None) (zip entries outcomes)) \<and>
     length outcomes = length entries \<and>
     pe_events eng' = pe_events eng @ map ae_event (du_processed result)"
proof -
  obtain outcomes result eng' where r: "due_loop now clock ids entries \<lparr>du_processed = [], du_skipped = []\<rparr> eng = Inr (result, eng')"
      "works_off now clock eng entries outcomes eng'" "du_processed result = List.map_filter id outcomes"
      "du_skipped result = map (de_subscriptionId \<circ> fst) (filter (\<lambda>p. snd p = None) (zip entries outcomes))"
      "pe_events eng' = pe_events eng @ map ae_event (List.map_filter id outcomes)"
    using due_loop_works_off [of now clock ids entries "\<lparr>du_processed = [], du_skipped = []\<rparr>" eng] by auto
  show ?thesis unfolding processDueEscalations_def
    by (rule exI [of _ outcomes], rule exI [of _ result], rule exI [of _ eng'])
      (use r works_off_forward [OF r(2)] works_off_length [OF r(2)] in simp)
qed

definition demo_entry :: DunningEntry where
  "demo_entry = \<lparr>de_id = ''d1'', de_subscriptionId = ''s1'', de_subscriberId = ''u1'', de_merchantId = ''m1'',
     de_planId = ''p1'', de_failureReason = FrDefault, de_abTestVariant = None, de_currentStage = Retry,
     de_failedAttempts = 3, de_totalFailedCharges = 3, de_firstFailureAt = 0, de_lastFailureAt = 0, de_lastAttemptAt = 0,
     de_nextActionAt = 0, de_isPaused = False, de_communicationLog = [], de_createdAt = 0, de_updatedAt = 0\<rparr>"

definition demo_engine :: ProgressiveEngine where
  "demo_engine = foldl engine_step (newProgressiveEngine True)
     [XTrack demo_entry 0, XEscalate 0 0 ''e1'' demo_entry,
      XEscalate 0 0 ''e2'' (demo_entry\<lparr>de_currentStage := Warn\<rparr>),
      XRecover (demo_entry\<lparr>de_currentStage := Suspend\<rparr>) 10]"

lemma demo_rule: "map_option er_toStage (findMatchingRule demo_entry 0 (newProgressiveEngine True)) = Some Warn"
  by code_simp

text \<open>The first of two entries of one subscription is escalated to the warning stage, the second passed over: it is paused.\<close>

lemma escalation_is_progressive_witness:
  "\<exists>result eng'. processDueEscalations 0 0 (\<lambda>_. ''e'') [demo_entry, demo_entry\<lparr>de_isPaused := True\<rparr>] (newProgressiveEngine True) = Inr (result, eng')
     \<and> map (de_currentStage \<circ> ae_entry) (du_processed result) = [Warn] \<and> du_skipped result = [''s1'']
     \<and> pe_events eng' = map ae_event (du_processed result)"
proof -
  let ?run = "processDueEscalations 0 0 (\<lambda>_. ''e'') [demo_entry, demo_entry\<lparr>de_isPaused := True\<rparr>] (newProgressiveEngine True)"
  obtain result eng' where r: "?run = Inr (result, eng')"
      "pe_events eng' = pe_events (newProgressiveEngine True) @ map ae_event (du_processed result)"
    using escalation_is_progressive [of 0 0 "\<lambda>_. ''e''" "[demo_entry, demo_entry\<lparr>de_isPaused := True\<rparr>]" "newProgressiveEngine True"] by blast
  have "case ?run of Inl _ \<Rightarrow> False | Inr (result, _) \<Rightarrow>
      map (de_currentStage \<circ> ae_entry) (du_processed result) = [Warn] \<and> du_skipped result = [''s1'']" by code_simp
  moreover have "pe_events (newProgressiveEngine True) = []" by (simp add: newProgressiveEngine_def configurePolicy_def Let_def)
  ultimately show ?thesis using r by simp
qed

text \<open>The books balance: in every run of the engine each stage was left exactly as often as entries were
  recovered from it or escalated out of it, its escalations are the logged events that start there, the
  path statistics add up to all escalations and all recoveries, every logged event goes forward, and
  every policy in force is normalized.\<close>

theorem funnel_balances:
  assumes "eng = foldl engine_step (newProgressiveEngine seed) es"
  shows "(\<forall>f \<in> set (pa_stageFunnel (getProgressiveAnalytics eng)).
      sf_exited f = sf_recovered f + sf_escalated f \<and>
      sf_escalated f = length (filter (\<lambda>e. ev_fromStage e = sf_stage f) (getEvents None eng))) \<and>
    sum_list (map px_escalations (pa_recoveryByEscalationPath (getProgressiveAnalytics eng))) =
      pa_totalEscalations (getProgressiveAnalytics eng) \<and>
    sum_list (map px_recoveries (pa_recoveryByEscalationPath (getProgressiveAnalytics eng))) = length (pe_recoveryRecords eng) \<and>
    (\<forall>e \<in> set (getEvents None eng). isForwardEscalation (ev_fromStage e) (ev_toStage e)) \<and>
    (\<forall>p \<in> set (pe_policies eng). policy_normal (snd p))"
proof -
  have ok: "funnel_ok eng" unfolding assms by (rule funnel.run_inv [OF newProgressiveEngine_ok])
  have sums: "int (sum_list (map (f \<circ> snd) m)) = obj_sum (\<lambda>c. int (f c)) m" for f and m :: "(nat \<times> nat) obj"
    by (induction m) auto
  have "px_escalations (path_recovery p) = (fst \<circ> snd) p" "px_recoveries (path_recovery p) = (snd \<circ> snd) p" for p
    by (simp_all add: path_recovery_def split: prod.split)
  then have "map px_escalations (map path_recovery (pe_pathCounts eng)) = map (fst \<circ> snd) (pe_pathCounts eng)"
    "map px_recoveries (map path_recovery (pe_pathCounts eng)) = map (snd \<circ> snd) (pe_pathCounts eng)" by simp_all
  then show ?thesis
    using ok sums [of fst "pe_pathCounts eng"] sums [of snd "pe_pathCounts eng"]
    by (simp add: funnel_ok_def getProgressiveAnalytics_def Let_def stage_funnel_def getEvents_def
        isForwardEscalation_def STAGE_ORDER_def del: map_map)
qed

lemma funnel_balances_witness:
  "sum_list (map px_recoveries (pa_recoveryByEscalationPath (getProgressiveAnalytics demo_engine))) =
     length (pe_recoveryRecords demo_engine)"
  using funnel_balances [OF demo_engine_def] by blast

text \<open>A recovery is credited to the path from the first escalation on: as long as every subscription's first
  escalation left the retry stage, the statistics of the later single steps (warn to suspend, warn to cancel,
  suspend to cancel) never show a recovery, and their recovery rate is zero however many accounts recovered
  after them.\<close>

theorem later_paths_never_recover:
  assumes "eng = foldl engine_step (newProgressiveEngine seed) es" "begins_in_retry (pe_events eng)"
    "x \<in> set (pa_recoveryByEscalationPath (getProgressiveAnalytics eng))" "px_path x \<in> set later_paths"
  shows "px_recoveries x = 0 \<and> px_recoveryRate x = 0"
proof -
  have "no_later_recoveries eng" using no_later_run assms(1,2) by blast
  moreover from assms(3) obtain p where p: "p \<in> set (pe_pathCounts eng)" "x = path_recovery p"
    by (auto simp: getProgressiveAnalytics_def Let_def)
  ultimately have "px_path x \<in> set later_paths \<longrightarrow> px_recoveries x = 0"
    unfolding no_later_recoveries_def by (auto simp: path_recovery_def split: prod.split)
  with assms(4) have "snd (snd p) = 0" by (simp add: p(2) path_recovery_def split: prod.splits)
  then show ?thesis by (cases p) (simp add: p(2) path_recovery_def)
qed

lemma demo_events: "map (\<lambda>e. (ev_subscriptionId e, ev_fromStage e)) (pe_events demo_engine) = [(''s1'', Retry), (''s1'', Warn)]"
  by code_simp

lemma demo_paths: "pe_pathCounts demo_engine =
    [(''retry->warn'', 1, 0), (''warn->suspend'', 1, 0), (''retry->warn->suspend'', 0, 1)]"
  by code_simp

lemma later_paths_never_recover_witness:
  "\<exists>x \<in> set (pa_recoveryByEscalationPath (getProgressiveAnalytics demo_engine)).
     px_path x = ''warn->suspend'' \<and> px_escalations x = 1 \<and> px_recoveries x = 0"
proof -
  let ?x = "path_recovery (''warn->suspend'', 1, 0)"
  have "\<exists>a b. pe_events demo_engine = [a, b] \<and> ev_subscriptionId a = ''s1'' \<and> ev_fromStage a = Retry \<and> ev_subscriptionId b = ''s1''"
    using demo_events by (auto simp: map_eq_Cons_conv)
  then have "begins_in_retry (pe_events demo_engine)"
    unfolding begins_in_retry_def by (auto split: if_splits)
  moreover have x: "?x \<in> set (pa_recoveryByEscalationPath (getProgressiveAnalytics demo_engine))"
    by (simp add: getProgressiveAnalytics_def Let_def demo_paths)
  moreover have "px_path ?x \<in> set later_paths" by (simp add: path_recovery_def later_paths_def)
  ultimately have "px_recoveries ?x = 0" using later_paths_never_recover [OF demo_engine_def] by blast
  with x show ?thesis by (intro bexI [of _ ?x]) (simp_all add: path_recovery_def)
qed

end
