(* ===== verification/DunningStages.thy ===== *)
theory DunningStages
  imports ProgressiveDunning
begin

text \<open>
  The dunning service, \<^verbatim>\<open>backend/services/billing/dunningService.ts\<close>: plan configurations with
  A/B variants, retry schedules, the stages of an entry, communications and the statistics, over the
  escalation engine. The clock, \<open>Math.random()\<close> and generated ids are arguments.
\<close>

section \<open>Retry schedules\<close>

datatype FailureType = FtInsufficientFunds | FtCardDeclined | FtExpiredCard | FtNetworkError
  | FtProcessingError | FtAuthRequired | FtUnknown

datatype BackoffPolicy = Fixed | Linear | Exponential | ExponentialJitter

record RetryScheduleConfig =
  rc_failureType :: FailureType
  rc_baseDelayHours :: rat
  rc_maxRetries :: int
  rc_backoffMultiplier :: rat
  rc_maxDelayHours :: rat
  rc_backoffPolicy :: BackoffPolicy
  rc_jitterRatio :: rat
  rc_retryable :: bool

definition FAILURE_TYPES :: "FailureType list" where
  "FAILURE_TYPES = [FtInsufficientFunds, FtCardDeclined, FtExpiredCard, FtNetworkError, FtProcessingError,
     FtAuthRequired, FtUnknown]"

definition DEFAULT_RETRY_SCHEDULES :: "RetryScheduleConfig list" where
  "DEFAULT_RETRY_SCHEDULES =
     [\<lparr>rc_failureType = FtInsufficientFunds, rc_baseDelayHours = 1, rc_maxRetries = 5, rc_backoffMultiplier = 2,
       rc_maxDelayHours = 48, rc_backoffPolicy = ExponentialJitter, rc_jitterRatio = 2/10, rc_retryable = True\<rparr>,
      \<lparr>rc_failureType = FtCardDeclined, rc_baseDelayHours = 2, rc_maxRetries = 3, rc_backoffMultiplier = 3,
       rc_maxDelayHours = 72, rc_backoffPolicy = Exponential, rc_jitterRatio = 0, rc_retryable = True\<rparr>,
      \<lparr>rc_failureType = FtExpiredCard, rc_baseDelayHours = 24, rc_maxRetries = 2, rc_backoffMultiplier = 1,
       rc_maxDelayHours = 24, rc_backoffPolicy = Fixed, rc_jitterRatio = 0, rc_retryable = True\<rparr>,
      \<lparr>rc_failureType = FtNetworkError, rc_baseDelayHours = 1/2, rc_maxRetries = 6, rc_backoffMultiplier = 3/2,
       rc_maxDelayHours = 12, rc_backoffPolicy = ExponentialJitter, rc_jitterRatio = 3/10, rc_retryable = True\<rparr>,
      \<lparr>rc_failureType = FtProcessingError, rc_baseDelayHours = 1, rc_maxRetries = 4, rc_backoffMultiplier = 2,
       rc_maxDelayHours = 24, rc_backoffPolicy = Exponential, rc_jitterRatio = 0, rc_retryable = True\<rparr>,
      \<lparr>rc_failureType = FtAuthRequired, rc_baseDelayHours = 1/4, rc_maxRetries = 3, rc_backoffMultiplier = 1,
       rc_maxDelayHours = 1, rc_backoffPolicy = Linear, rc_jitterRatio = 0, rc_retryable = True\<rparr>,
      \<lparr>rc_failureType = FtUnknown, rc_baseDelayHours = 1, rc_maxRetries = 3, rc_backoffMultiplier = 2,
       rc_maxDelayHours = 24, rc_backoffPolicy = Exponential, rc_jitterRatio = 0, rc_retryable = True\<rparr>]"

fun FAILURE_TYPE_TO_REASON :: "FailureType \<Rightarrow> FailureReason" where
  "FAILURE_TYPE_TO_REASON FtInsufficientFunds = FrInsufficientFunds"
| "FAILURE_TYPE_TO_REASON FtCardDeclined = FrDefault"
| "FAILURE_TYPE_TO_REASON FtExpiredCard = FrExpiredCard"
| "FAILURE_TYPE_TO_REASON FtNetworkError = FrNetwork"
| "FAILURE_TYPE_TO_REASON FtProcessingError = FrDefault"
| "FAILURE_TYPE_TO_REASON FtAuthRequired = FrDefault"
| "FAILURE_TYPE_TO_REASON FtUnknown = FrDefault"

definition FALLBACK_STRATEGY :: RetryStrategy where
  "FALLBACK_STRATEGY = \<lparr>st_stages = DEFAULT_DUNNING_STAGES, st_maxRetries = 3, st_retryIntervalHours = 1,
     st_warnAfterFailures = 3, st_suspendAfterDays = 3, st_cancelAfterDays = 7,
     st_communicationChannels = [ChEmail, ChPush]\<rparr>"

section \<open>State\<close>

record Variant =
  va_id :: string
  va_weight :: rat
  va_strategy :: RetryStrategy

record ABTestConfig =
  ab_enabled :: bool
  ab_variants :: "Variant list"

record DunningConfiguration =
  dg_planId :: string
  dg_defaultStrategy :: RetryStrategy
  dg_strategies :: "(FailureReason, RetryStrategy) jsmap"
  dg_abTestConfig :: "ABTestConfig option"

record RetryHistoryRecord =
  rh_subscriptionId :: string
  rh_merchantId :: string
  rh_failureType :: FailureType
  rh_attempt :: int
  rh_success :: bool
  rh_timestamp :: int
  rh_delayHours :: rat

record DunningService =
  ds_entries :: "DunningEntry obj"
  ds_configurations :: "DunningConfiguration obj"
  ds_communicationLog :: "DunningCommunication list obj"
  ds_templates :: "DunningTemplate list"
  ds_retrySchedules :: "RetryScheduleConfig list"
  ds_retryHistory :: "RetryHistoryRecord list"
  ds_recoveredEntries :: "DunningEntry list"
  ds_engine :: ProgressiveEngine

definition newDunningService :: "ProgressiveEngine \<Rightarrow> DunningService" where
  "newDunningService eng = \<lparr>ds_entries = [], ds_configurations = [], ds_communicationLog = [],
     ds_templates = DUNNING_TEMPLATES, ds_retrySchedules = DEFAULT_RETRY_SCHEDULES, ds_retryHistory = [],
     ds_recoveredEntries = [], ds_engine = eng\<rparr>"

section \<open>Configuration\<close>

text \<open>\<open>Partial<DunningConfiguration>\<close>\<close>

record PartialConfiguration =
  pc_defaultStrategy :: "RetryStrategy option"
  pc_strategies :: "(FailureReason, RetryStrategy) jsmap option"
  pc_abTestConfig :: "ABTestConfig option"

text \<open>\<open>a ?? b?.f ?? d\<close>\<close>

definition first_of :: "'a option \<Rightarrow> 'a option \<Rightarrow> 'a \<Rightarrow> 'a" where
  "first_of a b d = (case a of Some x \<Rightarrow> x | None \<Rightarrow> (case b of Some y \<Rightarrow> y | None \<Rightarrow> d))"

definition configurePlan :: "string \<Rightarrow> PartialConfiguration \<Rightarrow> DunningService \<Rightarrow> DunningConfiguration \<times> DunningService" where
  "configurePlan planId config d =
     (let existing = map_of (ds_configurations d) planId;
          merged = \<lparr>dg_planId = planId,
            dg_defaultStrategy = first_of (pc_defaultStrategy config) (map_option dg_defaultStrategy existing) FALLBACK_STRATEGY,
            dg_strategies = first_of (pc_strategies config) (map_option dg_strategies existing) [],
            dg_abTestConfig = (case pc_abTestConfig config of
               Some c \<Rightarrow> Some c | None \<Rightarrow> (case existing of None \<Rightarrow> None | Some e \<Rightarrow> dg_abTestConfig e))\<rparr>
      in (merged, d\<lparr>ds_configurations := AList.update planId merged (ds_configurations d)\<rparr>))"

definition configureABTest :: "string \<Rightarrow> bool \<Rightarrow> Variant list \<Rightarrow> DunningService \<Rightarrow> DunningService" where
  "configureABTest planId enabled variants d =
     (case map_of (ds_configurations d) planId of
        Some config \<Rightarrow> d\<lparr>ds_configurations := AList.update planId
          (config\<lparr>dg_abTestConfig := Some \<lparr>ab_enabled = enabled, ab_variants = variants\<rparr>\<rparr>) (ds_configurations d)\<rparr>
      | None \<Rightarrow> snd (configurePlan planId \<lparr>pc_defaultStrategy = None, pc_strategies = None,
          pc_abTestConfig = Some \<lparr>ab_enabled = enabled, ab_variants = variants\<rparr>\<rparr> d))"

definition getConfiguration :: "string \<Rightarrow> DunningService \<Rightarrow> DunningConfiguration option" where
  "getConfiguration planId d = map_of (ds_configurations d) planId"

definition ab_enabled_config :: "DunningConfiguration \<Rightarrow> ABTestConfig option" where
  "ab_enabled_config config =
     (case dg_abTestConfig config of None \<Rightarrow> None | Some c \<Rightarrow> if ab_enabled c then Some c else None)"

definition getStrategy :: "string \<Rightarrow> FailureReason \<Rightarrow> string option \<Rightarrow> DunningService \<Rightarrow> RetryStrategy" where
  "getStrategy planId failureReason abTestVariant d =
     (case map_of (ds_configurations d) planId of
        None \<Rightarrow> FALLBACK_STRATEGY
      | Some config \<Rightarrow>
          (let byReason = obj_or (dg_defaultStrategy config) (dg_strategies config) failureReason
           in case abTestVariant of
                None \<Rightarrow> byReason
              | Some v \<Rightarrow>
                  if v = '''' then byReason
                  else (case ab_enabled_config config of
                          None \<Rightarrow> byReason
                        | Some c \<Rightarrow> (case js_find (\<lambda>x. va_id x = v) (ab_variants c) of
                                      None \<Rightarrow> byReason | Some x \<Rightarrow> va_strategy x))))"

text \<open>\<open>Partial<RetryScheduleConfig>\<close> with its failure type\<close>

record PartialSchedule =
  ps_failureType :: FailureType
  ps_baseDelayHours :: "rat option"
  ps_maxRetries :: "int option"
  ps_backoffMultiplier :: "rat option"
  ps_maxDelayHours :: "rat option"
  ps_backoffPolicy :: "BackoffPolicy option"
  ps_jitterRatio :: "rat option"
  ps_retryable :: "bool option"

definition configureRetrySchedule :: "PartialSchedule \<Rightarrow> DunningService \<Rightarrow> DunningService" where
  "configureRetrySchedule schedule d =
     (let idx = js_findIndex (\<lambda>s. rc_failureType s = ps_failureType schedule) (ds_retrySchedules d);
          existing = map_option (\<lambda>i. ds_retrySchedules d ! i) idx;
          merged = \<lparr>rc_failureType = ps_failureType schedule,
            rc_baseDelayHours = first_of (ps_baseDelayHours schedule) (map_option rc_baseDelayHours existing) 1,
            rc_maxRetries = first_of (ps_maxRetries schedule) (map_option rc_maxRetries existing) 3,
            rc_backoffMultiplier = first_of (ps_backoffMultiplier schedule) (map_option rc_backoffMultiplier existing) 2,
            rc_maxDelayHours = first_of (ps_maxDelayHours schedule) (map_option rc_maxDelayHours existing) 24,
            rc_backoffPolicy = first_of (ps_backoffPolicy schedule) (map_option rc_backoffPolicy existing) Exponential,
            rc_jitterRatio = first_of (ps_jitterRatio schedule) (map_option rc_jitterRatio existing) 0,
            rc_retryable = first_of (ps_retryable schedule) (map_option rc_retryable existing) True\<rparr>
      in d\<lparr>ds_retrySchedules := (case idx of
             Some i \<Rightarrow> (ds_retrySchedules d)[i := merged]
           | None \<Rightarrow> ds_retrySchedules d @ [merged])\<rparr>)"

definition getRetrySchedule :: "FailureType \<Rightarrow> DunningService \<Rightarrow> RetryScheduleConfig" where
  "getRetrySchedule failureType d =
     first_of (js_find (\<lambda>s. rc_failureType s = failureType) (ds_retrySchedules d))
       (js_find (\<lambda>s. rc_failureType s = FtUnknown) (ds_retrySchedules d))
       (DEFAULT_RETRY_SCHEDULES ! (length DEFAULT_RETRY_SCHEDULES - 1))"

definition listRetrySchedules :: "DunningService \<Rightarrow> RetryScheduleConfig list" where
  "listRetrySchedules d = ds_retrySchedules d"

definition base_delay :: "RetryScheduleConfig \<Rightarrow> nat \<Rightarrow> rat" where
  "base_delay schedule attempt =
     (case rc_backoffPolicy schedule of
        Fixed \<Rightarrow> rc_baseDelayHours schedule
      | Linear \<Rightarrow> rc_baseDelayHours schedule * of_nat attempt
      | _ \<Rightarrow> rc_baseDelayHours schedule * rc_backoffMultiplier schedule ^ (attempt - 1))"

definition calculateRetryDelay :: "rat \<Rightarrow> FailureType \<Rightarrow> int \<Rightarrow> DunningService \<Rightarrow> rat" where
  "calculateRetryDelay random failureType attemptNumber d =
     (let schedule = getRetrySchedule failureType d;
          delay = min (base_delay schedule (nat (max 1 attemptNumber))) (rc_maxDelayHours schedule)
      in if rc_backoffPolicy schedule = ExponentialJitter \<and> 0 < rc_jitterRatio schedule
         then min (max (delay + (random * 2 - 1) * (delay * rc_jitterRatio schedule)) 0) (rc_maxDelayHours schedule)
         else delay)"

section \<open>Entries\<close>

text \<open>The weighted choice: \<open>r\<close> is reduced by the weights until it is not positive.\<close>

fun pick_variant :: "rat \<Rightarrow> Variant list \<Rightarrow> string option" where
  "pick_variant r [] = None"
| "pick_variant r (v # vs) = (if r - va_weight v \<le> 0 then Some (va_id v) else pick_variant (r - va_weight v) vs)"

definition choose_variant :: "rat \<Rightarrow> string \<Rightarrow> DunningService \<Rightarrow> string option" where
  "choose_variant random planId d =
     (case map_of (ds_configurations d) planId of
        None \<Rightarrow> None
      | Some config \<Rightarrow>
          (case ab_enabled_config config of
             None \<Rightarrow> None
           | Some c \<Rightarrow>
               if ab_variants c = [] then None
               else pick_variant (random * rat_sum (map va_weight (ab_variants c))) (ab_variants c)))"

definition startDunning :: "int \<Rightarrow> rat \<Rightarrow> string \<Rightarrow> string \<Rightarrow> string \<Rightarrow> string \<Rightarrow> string \<Rightarrow> FailureReason
    \<Rightarrow> DunningService \<Rightarrow> DunningEntry \<times> DunningService" where
  "startDunning now random eid subscriptionId subscriberId merchantId planId failureReason d =
     (case map_of (ds_entries d) subscriptionId of
        Some existing \<Rightarrow> (existing, d)
      | None \<Rightarrow>
          (let abTestVariant = choose_variant random planId d;
               strategy = getStrategy planId failureReason abTestVariant d;
               firstStage = (case st_stages strategy of s # _ \<Rightarrow> s | [] \<Rightarrow> DEFAULT_DUNNING_STAGES ! 0);
               entry = \<lparr>de_id = eid, de_subscriptionId = subscriptionId, de_subscriberId = subscriberId,
                 de_merchantId = merchantId, de_planId = planId, de_failureReason = failureReason,
                 de_abTestVariant = abTestVariant, de_currentStage = sc_stage firstStage, de_failedAttempts = 0,
                 de_totalFailedCharges = 0, de_firstFailureAt = now, de_lastFailureAt = now, de_lastAttemptAt = now,
                 de_nextActionAt = of_int now + sc_delayHours firstStage * of_int ONE_HOUR_MS, de_isPaused = False,
                 de_communicationLog = [], de_createdAt = now, de_updatedAt = now\<rparr>
           in (entry, d\<lparr>ds_entries := AList.update subscriptionId entry (ds_entries d),
                        ds_communicationLog := AList.update subscriptionId [] (ds_communicationLog d),
                        ds_engine := trackStageEntry entry now (ds_engine d)\<rparr>)))"

definition mk_communication :: "int \<Rightarrow> string \<Rightarrow> DunningEntry \<Rightarrow> DunningStageConfig \<Rightarrow> RetryStrategy \<Rightarrow> DunningService
    \<Rightarrow> DunningCommunication" where
  "mk_communication now cid entry stageConfig strategy d =
     (let template = js_find (\<lambda>t. dt_id t = sc_templateId stageConfig) (ds_templates d)
      in \<lparr>dc_id = cid, dc_stage = sc_stage stageConfig,
          dc_channel = (case st_communicationChannels strategy of c # _ \<Rightarrow> c | [] \<Rightarrow> ChPush),
          dc_templateId = sc_templateId stageConfig, dc_sentAt = now, dc_status = CmSent,
          dc_metadata = [(''subscription_id'', de_subscriptionId entry),
            (''template_subject'', case template of None \<Rightarrow> '''' | Some t \<Rightarrow> dt_subject t)]\<rparr>)"

text \<open>The entry with the communication added to its own log, and the service with it in the log of the subscription.\<close>

definition sendCommunication :: "int \<Rightarrow> string \<Rightarrow> DunningEntry \<Rightarrow> DunningStageConfig \<Rightarrow> RetryStrategy \<Rightarrow> DunningService
    \<Rightarrow> DunningEntry \<times> DunningService" where
  "sendCommunication now cid entry stageConfig strategy d =
     (let comm = mk_communication now cid entry stageConfig strategy d;
          log = obj_or [] (ds_communicationLog d) (de_subscriptionId entry)
      in (entry\<lparr>de_communicationLog := de_communicationLog entry @ [comm]\<rparr>,
          d\<lparr>ds_communicationLog := AList.update (de_subscriptionId entry) (log @ [comm]) (ds_communicationLog d)\<rparr>))"

definition history_record :: "DunningEntry \<Rightarrow> FailureType \<Rightarrow> int \<Rightarrow> bool \<Rightarrow> int \<Rightarrow> rat \<Rightarrow> RetryHistoryRecord" where
  "history_record entry failureType attempt success now delayHours =
     \<lparr>rh_subscriptionId = de_subscriptionId entry, rh_merchantId = de_merchantId entry, rh_failureType = failureType,
      rh_attempt = attempt, rh_success = success, rh_timestamp = now, rh_delayHours = delayHours\<rparr>"

definition enter_stage :: "int \<Rightarrow> DunningStage \<Rightarrow> rat \<Rightarrow> DunningEntry \<Rightarrow> DunningEntry" where
  "enter_stage now stage delayHours entry =
     entry\<lparr>de_currentStage := stage, de_failedAttempts := 0,
       de_nextActionAt := of_int now + delayHours * of_int ONE_HOUR_MS\<rparr>"

definition strategy_stages :: "RetryStrategy \<Rightarrow> DunningStageConfig list" where
  "strategy_stages strategy = (if 0 < length (st_stages strategy) then st_stages strategy else DEFAULT_DUNNING_STAGES)"

definition budget_exhausted :: "RetryScheduleConfig \<Rightarrow> DunningStageConfig option \<Rightarrow> int \<Rightarrow> bool" where
  "budget_exhausted schedule stageConfig failedAttempts \<longleftrightarrow>
     \<not> rc_retryable schedule \<or> rc_maxRetries schedule \<le> failedAttempts \<or>
     (case stageConfig of None \<Rightarrow> False | Some s \<Rightarrow> sc_maxAttempts s \<le> failedAttempts)"

text \<open>
  The effect of an exhausted budget: the next stage, or \<open>cancel\<close> behind the last or an unknown one.
  The result is the delay, the entry and the service.
\<close>

definition escalate_stage :: "int \<Rightarrow> string \<Rightarrow> DunningStageConfig list \<Rightarrow> nat option \<Rightarrow> RetryStrategy \<Rightarrow> DunningEntry
    \<Rightarrow> DunningService \<Rightarrow> rat \<times> DunningEntry \<times> DunningService" where
  "escalate_stage now cid stages idx strategy entry d =
     (case (case idx of None \<Rightarrow> None | Some i \<Rightarrow> if i + 1 < length stages then Some (stages ! (i + 1)) else None) of
        Some nextStage \<Rightarrow>
          (let entry1 = enter_stage now (sc_stage nextStage) (sc_delayHours nextStage) entry;
               d1 = d\<lparr>ds_engine := trackStageEntry entry1 now (ds_engine d)\<rparr>
           in (sc_delayHours nextStage, sendCommunication now cid entry1 nextStage strategy d1))
      | None \<Rightarrow>
          (let entry1 = enter_stage now Cancel 24 entry;
               d1 = d\<lparr>ds_engine := trackStageEntry entry1 now (ds_engine d)\<rparr>
           in case (case js_find (\<lambda>s. sc_stage s = Cancel) stages of
                      Some s \<Rightarrow> Some s | None \<Rightarrow> js_find (\<lambda>s. sc_stage s = Cancel) DEFAULT_DUNNING_STAGES) of
                Some cancelStage \<Rightarrow> (24, sendCommunication now cid entry1 cancelStage strategy d1)
              | None \<Rightarrow> (24, entry1, d1)))"

definition recordFailedCharge :: "int \<Rightarrow> rat \<Rightarrow> string \<Rightarrow> string \<Rightarrow> FailureType \<Rightarrow> DunningService
    \<Rightarrow> DunningEntry option \<times> DunningService" where
  "recordFailedCharge now random cid subscriptionId failureType d =
     (case map_of (ds_entries d) subscriptionId of
        None \<Rightarrow> (None, d)
      | Some entry0 \<Rightarrow>
          if de_isPaused entry0 then (None, d)
          else
            (let strategy = getStrategy (de_planId entry0) (de_failureReason entry0) (de_abTestVariant entry0) d;
                 schedule = getRetrySchedule failureType d;
                 entry = entry0\<lparr>de_failedAttempts := de_failedAttempts entry0 + 1,
                   de_totalFailedCharges := de_totalFailedCharges entry0 + 1, de_lastFailureAt := now,
                   de_lastAttemptAt := now, de_updatedAt := now\<rparr>;
                 stages = strategy_stages strategy;
                 idx = js_findIndex (\<lambda>s. sc_stage s = de_currentStage entry) stages;
                 stageConfig = map_option (\<lambda>i. stages ! i) idx
             in case (if budget_exhausted schedule stageConfig (de_failedAttempts entry)
                      then escalate_stage now cid stages idx strategy entry d
                      else let delay = calculateRetryDelay random failureType (de_failedAttempts entry) d
                           in (delay, entry\<lparr>de_nextActionAt := of_int now + delay * of_int ONE_HOUR_MS\<rparr>, d)) of
                  (delayHours, entry1, d1) \<Rightarrow>
                    (Some entry1,
                     d1\<lparr>ds_retryHistory := ds_retryHistory d1 @
                           [history_record entry1 failureType (de_totalFailedCharges entry1) False now delayHours],
                        ds_entries := AList.update subscriptionId entry1 (ds_entries d1)\<rparr>)))"

definition recordSuccessfulCharge :: "int \<Rightarrow> string \<Rightarrow> DunningService \<Rightarrow> DunningEntry option \<times> DunningService" where
  "recordSuccessfulCharge now subscriptionId d =
     (case map_of (ds_entries d) subscriptionId of
        None \<Rightarrow> (None, d)
      | Some entry \<Rightarrow>
          (let failureType = (case js_find (\<lambda>t. FAILURE_TYPE_TO_REASON t = de_failureReason entry) FAILURE_TYPES of
                 None \<Rightarrow> FtUnknown | Some t \<Rightarrow> t);
               entry1 = entry\<lparr>de_updatedAt := now\<rparr>
           in (Some entry1,
               d\<lparr>ds_retryHistory := ds_retryHistory d @
                   [history_record entry failureType (de_totalFailedCharges entry + 1) True now 0],
                 ds_engine := recordRecovery entry now (ds_engine d),
                 ds_recoveredEntries := ds_recoveredEntries d @ [entry1],
                 ds_entries := AList.delete subscriptionId (ds_entries d)\<rparr>)))"

text \<open>\<open>clock\<close> is the \<open>Date.now()\<close> inside the call, \<open>now\<close> its parameter.\<close>

definition progressiveEscalate :: "int \<Rightarrow> int \<Rightarrow> string \<Rightarrow> string \<Rightarrow> string \<Rightarrow> DunningService
    \<Rightarrow> escalation_error + (ApplyEscalationResult option \<times> DunningService)" where
  "progressiveEscalate now clock eid cid subscriptionId d =
     (case map_of (ds_entries d) subscriptionId of
        None \<Rightarrow> Inr (None, d)
      | Some entry \<Rightarrow>
          if de_isPaused entry then Inr (None, d)
          else (case findMatchingRule entry now (ds_engine d) of
                  None \<Rightarrow> Inr (None, d)
                | Some rule \<Rightarrow>
                    (case applyEscalation clock eid entry rule (ds_engine d) of
                       Inl err \<Rightarrow> Inl err
                     | Inr (res, eng1) \<Rightarrow>
                         (let updated = ae_entry res;
                              d1 = d\<lparr>ds_engine := eng1, ds_entries := AList.update subscriptionId updated (ds_entries d)\<rparr>;
                              strategy = getStrategy (de_planId updated) (de_failureReason updated) (de_abTestVariant updated) d1
                          in case (case js_find (\<lambda>s. sc_stage s = de_currentStage updated) (st_stages strategy) of
                                     Some s \<Rightarrow> Some s
                                   | None \<Rightarrow> js_find (\<lambda>s. sc_stage s = de_currentStage updated) DEFAULT_DUNNING_STAGES) of
                               None \<Rightarrow> Inr (Some res, d1)
                             | Some stageConfig \<Rightarrow>
                                 (case sendCommunication clock cid updated stageConfig strategy d1 of
                                    (entry2, d2) \<Rightarrow>
                                      Inr (Some (res\<lparr>ae_entry := entry2\<rparr>),
                                           d2\<lparr>ds_entries := AList.update subscriptionId entry2 (ds_entries d2)\<rparr>))))))"

definition getDunningEntry :: "string \<Rightarrow> DunningService \<Rightarrow> DunningEntry option" where
  "getDunningEntry subscriptionId d = map_of (ds_entries d) subscriptionId"

definition of_merchant :: "string option \<Rightarrow> ('a \<Rightarrow> string) \<Rightarrow> 'a list \<Rightarrow> 'a list" where
  "of_merchant merchantId f xs =
     (case merchantId of None \<Rightarrow> xs | Some m \<Rightarrow> if m = '''' then xs else filter (\<lambda>x. f x = m) xs)"

definition listActiveDunning :: "string option \<Rightarrow> DunningService \<Rightarrow> DunningEntry list" where
  "listActiveDunning merchantId d = of_merchant merchantId de_merchantId (map snd (ds_entries d))"

definition listRecoveredDunning :: "string option \<Rightarrow> DunningService \<Rightarrow> DunningEntry list" where
  "listRecoveredDunning merchantId d = of_merchant merchantId de_merchantId (ds_recoveredEntries d)"

definition change_entry :: "string \<Rightarrow> (DunningEntry \<Rightarrow> DunningEntry) \<Rightarrow> DunningService \<Rightarrow> DunningEntry option \<times> DunningService" where
  "change_entry subscriptionId f d =
     (case map_of (ds_entries d) subscriptionId of
        None \<Rightarrow> (None, d)
      | Some entry \<Rightarrow> (Some (f entry), d\<lparr>ds_entries := AList.update subscriptionId (f entry) (ds_entries d)\<rparr>))"

definition pauseDunning :: "int \<Rightarrow> string \<Rightarrow> DunningService \<Rightarrow> DunningEntry option \<times> DunningService" where
  "pauseDunning now subscriptionId d =
     change_entry subscriptionId (\<lambda>e. e\<lparr>de_isPaused := True, de_updatedAt := now\<rparr>) d"

definition stage_delay :: "DunningStage \<Rightarrow> RetryStrategy \<Rightarrow> rat" where
  "stage_delay stage strategy =
     (case js_find (\<lambda>s. sc_stage s = stage) (st_stages strategy) of None \<Rightarrow> 24 | Some s \<Rightarrow> sc_delayHours s)"

definition entry_strategy :: "DunningEntry \<Rightarrow> DunningService \<Rightarrow> RetryStrategy" where
  "entry_strategy entry d = getStrategy (de_planId entry) (de_failureReason entry) (de_abTestVariant entry) d"

definition resumeDunning :: "int \<Rightarrow> string \<Rightarrow> DunningService \<Rightarrow> DunningEntry option \<times> DunningService" where
  "resumeDunning now subscriptionId d =
     change_entry subscriptionId (\<lambda>e. e\<lparr>de_isPaused := False,
       de_nextActionAt := of_int now + stage_delay (de_currentStage e) (entry_strategy e d) * of_int ONE_HOUR_MS,
       de_updatedAt := now\<rparr>) d"

definition overrideStage :: "int \<Rightarrow> string \<Rightarrow> DunningStage \<Rightarrow> DunningService \<Rightarrow> DunningEntry option \<times> DunningService" where
  "overrideStage now subscriptionId stage d =
     (case change_entry subscriptionId (\<lambda>e. e\<lparr>de_currentStage := stage, de_failedAttempts := 0,
         de_nextActionAt := of_int now + stage_delay stage (entry_strategy e d) * of_int ONE_HOUR_MS,
         de_updatedAt := now\<rparr>) d of
        (None, d1) \<Rightarrow> (None, d1)
      | (Some entry, d1) \<Rightarrow> (Some entry, d1\<lparr>ds_engine := trackStageEntry entry now (ds_engine d1)\<rparr>))"

definition getCommunications :: "string \<Rightarrow> DunningService \<Rightarrow> DunningCommunication list" where
  "getCommunications subscriptionId d = obj_or [] (ds_communicationLog d) subscriptionId"

definition getProcessableEntries :: "int \<Rightarrow> DunningService \<Rightarrow> DunningEntry list" where
  "getProcessableEntries now d =
     filter (\<lambda>e. \<not> de_isPaused e \<and> de_nextActionAt e \<le> of_int now) (map snd (ds_entries d))"

definition addTemplate :: "DunningTemplate \<Rightarrow> DunningService \<Rightarrow> DunningService" where
  "addTemplate template d =
     (if js_find (\<lambda>t. dt_id t = dt_id template) (ds_templates d) = None
      then d\<lparr>ds_templates := ds_templates d @ [template]\<rparr> else d)"

text \<open>\<open>change\<close> is the update by the given \<open>Partial\<close> template.\<close>

definition updateTemplate :: "string \<Rightarrow> (DunningTemplate \<Rightarrow> DunningTemplate) \<Rightarrow> DunningService \<Rightarrow> DunningService" where
  "updateTemplate i change d =
     (case js_findIndex (\<lambda>t. dt_id t = i) (ds_templates d) of
        None \<Rightarrow> d
      | Some k \<Rightarrow> d\<lparr>ds_templates := (ds_templates d)[k := change (ds_templates d ! k)]\<rparr>)"

definition removeTemplate :: "string \<Rightarrow> DunningService \<Rightarrow> DunningService" where
  "removeTemplate i d = d\<lparr>ds_templates := filter (\<lambda>t. dt_id t \<noteq> i) (ds_templates d)\<rparr>"

definition resetDunning :: "DunningService \<Rightarrow> DunningService" where
  "resetDunning d = newDunningService (ds_engine d)"

section \<open>Statistics\<close>

record DunningRetryAnalytics =
  ya_totalRetries :: nat
  ya_successfulRetries :: nat
  ya_failedRetries :: nat
  ya_retryRate :: int
  ya_successRate :: int
  ya_averageRetriesBeforeSuccess :: int
  ya_retriesByFailureType :: "FailureType \<Rightarrow> nat"
  ya_retriesByStage :: "DunningStage \<Rightarrow> nat"
  ya_averageTimeToRecovery :: rat

definition percent_of :: "nat \<Rightarrow> nat \<Rightarrow> int" where
  "percent_of a b = (if 0 < b then js_round (of_nat a / of_nat b * 100) else 0)"

definition average :: "rat list \<Rightarrow> rat" where
  "average xs = (if 0 < length xs then rat_sum xs / of_nat (length xs) else 0)"

definition stage_counts :: "DunningEntry list \<Rightarrow> DunningStage \<Rightarrow> nat" where
  "stage_counts entries = foldl (\<lambda>f e. count_stage (de_currentStage e) f) (\<lambda>_. 0) entries"

definition dunning_getRetryAnalytics :: "string option \<Rightarrow> DunningService \<Rightarrow> DunningRetryAnalytics" where
  "dunning_getRetryAnalytics merchantId d =
     (let history = of_merchant merchantId rh_merchantId (ds_retryHistory d);
          total = length history; successful = length (filter rh_success history);
          subs = js_uniq (map rh_subscriptionId (filter rh_success history));
          sub_history = (\<lambda>s. filter (\<lambda>h. rh_subscriptionId h = s) history);
          attempts = map (\<lambda>s. of_nat (length (sub_history s))) subs;
          times = map (\<lambda>s. of_int (rh_timestamp (last (sub_history s)) - rh_timestamp (hd (sub_history s))) / of_int ONE_DAY_MS)
            (filter (\<lambda>s. 2 \<le> length (sub_history s)) subs)
      in \<lparr>ya_totalRetries = total, ya_successfulRetries = successful, ya_failedRetries = total - successful,
          ya_retryRate = percent_of (total - successful) total, ya_successRate = percent_of successful total,
          ya_averageRetriesBeforeSuccess = js_round (average attempts),
          ya_retriesByFailureType = foldl (\<lambda>f h. f(rh_failureType h := f (rh_failureType h) + 1)) (\<lambda>_. 0) history,
          ya_retriesByStage = stage_counts (listActiveDunning merchantId d),
          ya_averageTimeToRecovery = round_tenth (average times)\<rparr>)"

record DunningAnalytics =
  yd_totalActiveDunning :: nat
  yd_stageBreakdown :: "DunningStage \<Rightarrow> nat"
  yd_recoveryRate :: int
  yd_totalRecovered :: nat
  yd_totalLost :: nat
  yd_averageDaysToRecovery :: rat
  yd_stageSuccessRates :: "DunningStage \<Rightarrow> nat"

definition dunning_getAnalytics :: "string option \<Rightarrow> DunningService \<Rightarrow> DunningAnalytics" where
  "dunning_getAnalytics merchantId d =
     (let allEntries = listActiveDunning merchantId d; recovered = listRecoveredDunning merchantId d;
          breakdown = stage_counts allEntries;
          days = filter (\<lambda>x. 0 \<le> x) (map (\<lambda>e. of_int (de_updatedAt e - de_firstFailureAt e) / of_int ONE_DAY_MS) recovered)
      in \<lparr>yd_totalActiveDunning = length allEntries, yd_stageBreakdown = breakdown,
          yd_recoveryRate = percent_of (length recovered) (length recovered + breakdown Cancel),
          yd_totalRecovered = length recovered, yd_totalLost = breakdown Cancel,
          yd_averageDaysToRecovery = round_tenth (average days),
          yd_stageSuccessRates = ya_retriesByStage (dunning_getRetryAnalytics merchantId d)\<rparr>)"


section \<open>Retry delays\<close>

definition schedule_ok :: "RetryScheduleConfig \<Rightarrow> bool" where
  "schedule_ok s \<longleftrightarrow> 0 \<le> rc_baseDelayHours s \<and> 0 \<le> rc_backoffMultiplier s \<and> 0 \<le> rc_maxDelayHours s \<and>
     0 \<le> rc_jitterRatio s"

lemma base_delay_nonneg: "schedule_ok s \<Longrightarrow> 0 \<le> base_delay s n"
  by (auto simp: base_delay_def schedule_ok_def split: BackoffPolicy.split)

lemma base_delay_mono:
  assumes "schedule_ok s" "1 \<le> rc_backoffMultiplier s" "m \<le> n"
  shows "base_delay s m \<le> base_delay s n"
  using assms
  by (auto simp: base_delay_def schedule_ok_def intro!: mult_left_mono power_increasing split: BackoffPolicy.split)

lemma jitter_close:
  fixes r d j :: rat
  assumes "0 \<le> r" "r < 1" "0 \<le> d" "0 \<le> j"
  shows "\<bar>(r * 2 - 1) * (d * j)\<bar> \<le> d * j"
proof -
  have "\<bar>r * 2 - 1\<bar> \<le> 1" using assms by (auto simp: abs_if)
  then have "\<bar>r * 2 - 1\<bar> * \<bar>d * j\<bar> \<le> 1 * \<bar>d * j\<bar>" by (intro mult_right_mono) auto
  then show ?thesis using assms by (simp add: abs_mult)
qed

lemma clamp_close:
  fixes d x m b :: rat
  assumes "\<bar>x\<bar> \<le> b" "0 \<le> d" "d \<le> m"
  shows "\<bar>min (max (d + x) 0) m - d\<bar> \<le> b"
  using assms by (auto simp: min_def max_def abs_if split: if_splits)

section \<open>Stages\<close>

definition stage_budget :: "RetryScheduleConfig \<Rightarrow> DunningStageConfig \<Rightarrow> nat" where
  "stage_budget schedule s =
     (if rc_retryable schedule then nat (max 1 (min (rc_maxRetries schedule) (sc_maxAttempts s))) else 1)"

text \<open>Where an entry is after \<open>n\<close> failures, by the budgets of the stages alone.\<close>

fun stage_after :: "(DunningStageConfig \<Rightarrow> nat) \<Rightarrow> DunningStageConfig list \<Rightarrow> nat \<Rightarrow> DunningStage" where
  "stage_after b [] n = Cancel"
| "stage_after b (s # ss) n = (if n < b s then sc_stage s else stage_after b ss (n - b s))"

lemma stage_budget_pos: "0 < stage_budget schedule s"
  by (auto simp: stage_budget_def)

lemma budget_exhausted_iff:
  "0 \<le> k \<Longrightarrow> budget_exhausted schedule (Some s) (k + 1) \<longleftrightarrow> int (stage_budget schedule s) \<le> k + 1"
  by (auto simp: budget_exhausted_def stage_budget_def)

lemma stage_after_cancel:
  "\<forall>s. 0 < b s \<Longrightarrow> stages \<noteq> [] \<Longrightarrow> distinct (map sc_stage stages) \<Longrightarrow> sc_stage (last stages) = Cancel \<Longrightarrow>
     stage_after b stages n = Cancel \<longleftrightarrow> sum_list (map b (butlast stages)) \<le> n"
proof (induction stages arbitrary: n)
  case (Cons s ss)
  show ?case
  proof (cases "ss = []")
    case False
    then have "sc_stage (last ss) \<in> sc_stage ` set ss" by simp
    with False have "sc_stage s \<noteq> Cancel" using Cons.prems(3,4) by (metis distinct.simps(2) last_ConsR list.map(2) list.set_map)
    then show ?thesis using False Cons.IH [of "n - b s"] Cons.prems by auto
  qed (use Cons.prems in simp)
qed simp

lemma send_keeps:
  "de_subscriptionId (fst (sendCommunication now cid e sc st d)) = de_subscriptionId e"
  "de_planId (fst (sendCommunication now cid e sc st d)) = de_planId e"
  "de_failureReason (fst (sendCommunication now cid e sc st d)) = de_failureReason e"
  "de_abTestVariant (fst (sendCommunication now cid e sc st d)) = de_abTestVariant e"
  "de_currentStage (fst (sendCommunication now cid e sc st d)) = de_currentStage e"
  "de_failedAttempts (fst (sendCommunication now cid e sc st d)) = de_failedAttempts e"
  "de_totalFailedCharges (fst (sendCommunication now cid e sc st d)) = de_totalFailedCharges e"
  "de_isPaused (fst (sendCommunication now cid e sc st d)) = de_isPaused e"
  "ds_configurations (snd (sendCommunication now cid e sc st d)) = ds_configurations d"
  "ds_retrySchedules (snd (sendCommunication now cid e sc st d)) = ds_retrySchedules d"
  "ds_entries (snd (sendCommunication now cid e sc st d)) = ds_entries d"
  by (simp_all add: sendCommunication_def Let_def)

text \<open>What a change of stage leaves as it was.\<close>

definition same_entry :: "DunningEntry \<Rightarrow> DunningEntry \<Rightarrow> bool" where
  "same_entry e e' \<longleftrightarrow> de_subscriptionId e' = de_subscriptionId e \<and> de_planId e' = de_planId e \<and>
     de_failureReason e' = de_failureReason e \<and> de_abTestVariant e' = de_abTestVariant e \<and>
     de_totalFailedCharges e' = de_totalFailedCharges e \<and> de_isPaused e' = de_isPaused e"

definition same_rules :: "DunningService \<Rightarrow> DunningService \<Rightarrow> bool" where
  "same_rules d d' \<longleftrightarrow> ds_configurations d' = ds_configurations d \<and> ds_retrySchedules d' = ds_retrySchedules d"

lemma escalate_stage_effect:
  assumes "escalate_stage now cid stages idx strategy e d = (delay, e', d')"
  shows "same_entry e e' \<and> same_rules d d' \<and> ds_entries d' = ds_entries d \<and> de_failedAttempts e' = 0 \<and>
    de_currentStage e' = (case idx of
      None \<Rightarrow> Cancel | Some i \<Rightarrow> if i + 1 < length stages then sc_stage (stages ! (i + 1)) else Cancel)"
proof -
  let ?next = "case idx of None \<Rightarrow> None | Some i \<Rightarrow> if i + 1 < length stages then Some (stages ! (i + 1)) else None"
  note sk = send_keeps [of now cid]
  show ?thesis
  proof (cases ?next)
    case (Some s)
    then have st: "(case idx of None \<Rightarrow> Cancel | Some i \<Rightarrow> if i + 1 < length stages then sc_stage (stages ! (i + 1)) else Cancel) = sc_stage s"
      by (auto split: option.splits if_splits)
    let ?e1 = "enter_stage now (sc_stage s) (sc_delayHours s) e"
    from assms Some have "(e', d') = sendCommunication now cid ?e1 s strategy
        (d\<lparr>ds_engine := trackStageEntry ?e1 now (ds_engine d)\<rparr>)"
      by (auto simp: escalate_stage_def Let_def)
    then have "e' = fst (sendCommunication now cid ?e1 s strategy (d\<lparr>ds_engine := trackStageEntry ?e1 now (ds_engine d)\<rparr>))"
      "d' = snd (sendCommunication now cid ?e1 s strategy (d\<lparr>ds_engine := trackStageEntry ?e1 now (ds_engine d)\<rparr>))"
      by (metis fst_conv snd_conv)+
    then show ?thesis unfolding st by (simp add: sk same_entry_def same_rules_def enter_stage_def)
  next
    case None
    then have st: "(case idx of None \<Rightarrow> Cancel | Some i \<Rightarrow> if i + 1 < length stages then sc_stage (stages ! (i + 1)) else Cancel) = Cancel"
      by (auto split: option.splits if_splits)
    let ?e1 = "enter_stage now Cancel 24 e"
    let ?d1 = "d\<lparr>ds_engine := trackStageEntry ?e1 now (ds_engine d)\<rparr>"
    from assms None have "(e', d') = (?e1, ?d1) \<or> (\<exists>s. sendCommunication now cid ?e1 s strategy ?d1 = (e', d'))"
      by (auto simp only: escalate_stage_def Let_def fst_conv snd_conv prod.inject option.case split: option.splits)
    then have "(e' = ?e1 \<and> d' = ?d1) \<or> (\<exists>s. e' = fst (sendCommunication now cid ?e1 s strategy ?d1) \<and>
        d' = snd (sendCommunication now cid ?e1 s strategy ?d1))"
      by (metis fst_conv snd_conv)
    then show ?thesis unfolding st by (auto simp: sk same_entry_def same_rules_def enter_stage_def)
  qed
qed

definition failed_entry :: "int \<Rightarrow> DunningEntry \<Rightarrow> DunningEntry" where
  "failed_entry now e = e\<lparr>de_failedAttempts := de_failedAttempts e + 1,
     de_totalFailedCharges := de_totalFailedCharges e + 1, de_lastFailureAt := now, de_lastAttemptAt := now, de_updatedAt := now\<rparr>"

definition current_index :: "DunningEntry \<Rightarrow> DunningService \<Rightarrow> nat option" where
  "current_index e d = js_findIndex (\<lambda>s. sc_stage s = de_currentStage e) (strategy_stages (entry_strategy e d))"

text \<open>A failed charge is an escalation when the budget is exhausted, and otherwise schedules the next attempt.\<close>

lemma recordFailedCharge_cases:
  assumes e: "map_of (ds_entries d) sub = Some e" "\<not> de_isPaused e"
  obtains delay e2 d2 where
    "if budget_exhausted (getRetrySchedule ft d)
        (map_option (\<lambda>i. strategy_stages (entry_strategy e d) ! i) (current_index e d)) (de_failedAttempts e + 1)
     then escalate_stage now cid (strategy_stages (entry_strategy e d)) (current_index e d) (entry_strategy e d)
        (failed_entry now e) d = (delay, e2, d2)
     else e2 = (failed_entry now e)\<lparr>de_nextActionAt := of_int now + delay * of_int ONE_HOUR_MS\<rparr> \<and> d2 = d"
    "snd (recordFailedCharge now random cid sub ft d) =
       d2\<lparr>ds_retryHistory := ds_retryHistory d2 @ [history_record e2 ft (de_totalFailedCharges e2) False now delay],
          ds_entries := AList.update sub e2 (ds_entries d2)\<rparr>"
proof (cases "budget_exhausted (getRetrySchedule ft d)
    (map_option (\<lambda>i. strategy_stages (entry_strategy e d) ! i) (current_index e d)) (de_failedAttempts e + 1)")
  case True
  obtain delay e2 d2 where esc: "escalate_stage now cid (strategy_stages (entry_strategy e d)) (current_index e d)
      (entry_strategy e d) (failed_entry now e) d = (delay, e2, d2)" by (metis prod_cases3)
  show thesis
    by (rule that [of delay e2 d2])
      (use True esc e in \<open>simp_all add: recordFailedCharge_def Let_def entry_strategy_def [symmetric]
        failed_entry_def [symmetric], simp add: failed_entry_def current_index_def\<close>)
next
  case False
  let ?delay = "calculateRetryDelay random ft (de_failedAttempts e + 1) d"
  show thesis
    by (rule that [of ?delay "(failed_entry now e)\<lparr>de_nextActionAt := of_int now + ?delay * of_int ONE_HOUR_MS\<rparr>" d])
      (use False e in \<open>simp_all add: recordFailedCharge_def Let_def entry_strategy_def [symmetric]
        failed_entry_def current_index_def\<close>)
qed

lemma recordFailedCharge_step:
  assumes e: "map_of (ds_entries d) sub = Some e" "\<not> de_isPaused e" "0 \<le> de_failedAttempts e"
    and st: "strategy_stages (entry_strategy e d) = pre @ s # post" "distinct (map sc_stage (pre @ s # post))"
      "de_currentStage e = sc_stage s"
    and d': "d' = snd (recordFailedCharge now random cid sub ft d)"
  shows "\<exists>e'. map_of (ds_entries d') sub = Some e' \<and> same_rules d d' \<and> \<not> de_isPaused e' \<and>
    de_planId e' = de_planId e \<and> de_failureReason e' = de_failureReason e \<and> de_abTestVariant e' = de_abTestVariant e \<and>
    de_totalFailedCharges e' = de_totalFailedCharges e + 1 \<and>
    (if int (stage_budget (getRetrySchedule ft d) s) \<le> de_failedAttempts e + 1
     then de_failedAttempts e' = 0 \<and> de_currentStage e' = (case post of [] \<Rightarrow> Cancel | t # _ \<Rightarrow> sc_stage t)
     else de_failedAttempts e' = de_failedAttempts e + 1 \<and> de_currentStage e' = sc_stage s)"
proof -
  let ?stages = "pre @ s # post"
  have idx: "current_index e d = Some (length pre)"
    unfolding current_index_def st(1,3) by (rule js_findIndex_unique [OF st(2)]) simp_all
  have at: "?stages ! length pre = s" by simp
  obtain delay e2 d2 where r: "if budget_exhausted (getRetrySchedule ft d) (Some s) (de_failedAttempts e + 1)
     then escalate_stage now cid ?stages (Some (length pre)) (entry_strategy e d) (failed_entry now e) d = (delay, e2, d2)
     else e2 = (failed_entry now e)\<lparr>de_nextActionAt := of_int now + delay * of_int ONE_HOUR_MS\<rparr> \<and> d2 = d"
    and eq: "snd (recordFailedCharge now random cid sub ft d) =
     d2\<lparr>ds_retryHistory := ds_retryHistory d2 @ [history_record e2 ft (de_totalFailedCharges e2) False now delay],
        ds_entries := AList.update sub e2 (ds_entries d2)\<rparr>"
    using recordFailedCharge_cases [OF e(1,2), of ft now cid random] unfolding idx st(1) option.map at by blast
  have lookup: "map_of (ds_entries d') sub = Some e2" and rules: "same_rules d2 d'"
    by (simp_all add: d' eq same_rules_def)
  show ?thesis
  proof (cases "int (stage_budget (getRetrySchedule ft d) s) \<le> de_failedAttempts e + 1")
    case True
    with r budget_exhausted_iff [OF e(3)] have "escalate_stage now cid ?stages (Some (length pre)) (entry_strategy e d)
        (failed_entry now e) d = (delay, e2, d2)" by simp
    from escalate_stage_effect [OF this] True lookup rules e(2) show ?thesis
      by (intro exI [of _ e2]) (auto simp: same_entry_def same_rules_def failed_entry_def nth_append split: list.split)
  next
    case False
    with r budget_exhausted_iff [OF e(3)] have
      "e2 = (failed_entry now e)\<lparr>de_nextActionAt := of_int now + delay * of_int ONE_HOUR_MS\<rparr>" "d2 = d"
      by auto
    with False lookup rules e(2) st(3) show ?thesis by (intro exI [of _ e2]) (simp add: failed_entry_def)
  qed
qed

definition failures :: "string \<Rightarrow> FailureType \<Rightarrow> (int \<times> rat \<times> string) list \<Rightarrow> DunningService \<Rightarrow> DunningService" where
  "failures sub ft es d = foldl (\<lambda>d (now, random, cid). snd (recordFailedCharge now random cid sub ft d)) d es"

lemma same_rules_strategy:
  "same_rules d d' \<Longrightarrow> de_planId e' = de_planId e \<Longrightarrow> de_failureReason e' = de_failureReason e \<Longrightarrow>
     de_abTestVariant e' = de_abTestVariant e \<Longrightarrow> entry_strategy e' d' = entry_strategy e d"
  "same_rules d d' \<Longrightarrow> getRetrySchedule ft d' = getRetrySchedule ft d"
  by (simp_all add: same_rules_def entry_strategy_def getStrategy_def getRetrySchedule_def)

lemma failures_stage:
  assumes "map_of (ds_entries d) sub = Some e" "\<not> de_isPaused e" "de_failedAttempts e = int k"
    and "strategy_stages (entry_strategy e d) = pre @ s # post" "distinct (map sc_stage (pre @ s # post))"
      "sc_stage (last (s # post)) = Cancel" "de_currentStage e = sc_stage s" "k < stage_budget (getRetrySchedule ft d) s"
  shows "\<exists>e'. map_of (ds_entries (failures sub ft es d)) sub = Some e' \<and>
    de_currentStage e' = stage_after (stage_budget (getRetrySchedule ft d)) (s # post) (k + length es) \<and>
    de_totalFailedCharges e' = de_totalFailedCharges e + int (length es)"
  using assms
proof (induction es arbitrary: d e k pre s post)
  case Nil
  then show ?case by (simp add: failures_def)
next
  case (Cons ev es)
  obtain now random cid where ev: "ev = (now, random, cid)" by (metis prod_cases3)
  define d1 where "d1 = snd (recordFailedCharge now random cid sub ft d)"
  let ?b = "stage_budget (getRetrySchedule ft d)"
  from recordFailedCharge_step [OF Cons.prems(1,2) _ Cons.prems(4,5,7) d1_def] Cons.prems(3) obtain e1 where
    e1: "map_of (ds_entries d1) sub = Some e1" "same_rules d d1" "\<not> de_isPaused e1"
    "de_planId e1 = de_planId e" "de_failureReason e1 = de_failureReason e" "de_abTestVariant e1 = de_abTestVariant e"
    "de_totalFailedCharges e1 = de_totalFailedCharges e + 1"
    "if int (?b s) \<le> int k + 1
     then de_failedAttempts e1 = 0 \<and> de_currentStage e1 = (case post of [] \<Rightarrow> Cancel | t # _ \<Rightarrow> sc_stage t)
     else de_failedAttempts e1 = int k + 1 \<and> de_currentStage e1 = sc_stage s"
    by auto
  have strat: "strategy_stages (entry_strategy e1 d1) = pre @ s # post" "getRetrySchedule ft d1 = getRetrySchedule ft d"
    using same_rules_strategy [OF e1(2)] e1(4-6) Cons.prems(4) by simp_all
  have run: "failures sub ft (ev # es) d = failures sub ft es d1" by (simp add: failures_def ev d1_def)
  note IH = Cons.IH [OF e1(1,3), unfolded strat(2), folded run]
  show ?case
  proof (cases "Suc k < ?b s")
    case True
    with e1(8) have f: "de_failedAttempts e1 = int (Suc k)" "de_currentStage e1 = sc_stage s" by auto
    from IH [OF f(1) strat(1) Cons.prems(5,6) f(2) True] True e1(7) show ?thesis by auto
  next
    case False
    with Cons.prems(8) have b: "?b s = Suc k" by simp
    with e1(8) have f: "de_failedAttempts e1 = int 0" "de_currentStage e1 = (case post of [] \<Rightarrow> Cancel | t # _ \<Rightarrow> sc_stage t)"
      by auto
    show ?thesis
    proof (cases post)
      case Nil
      with Cons.prems(6) f(2) have c: "sc_stage s = Cancel" "de_currentStage e1 = sc_stage s" by auto
      from IH [OF f(1) strat(1) Cons.prems(5,6) c(2)] stage_budget_pos c(1) Nil e1(7) show ?thesis by auto
    next
      case (Cons t ts)
      have st: "strategy_stages (entry_strategy e1 d1) = (pre @ [s]) @ t # ts" "distinct (map sc_stage ((pre @ [s]) @ t # ts))"
        "sc_stage (last (t # ts)) = Cancel" "de_currentStage e1 = sc_stage t"
        using strat(1) Cons.prems(5,6) f(2) Cons by simp_all
      from IH [OF f(1) st stage_budget_pos] Cons b e1(7) show ?thesis by auto
    qed
  qed
qed


section \<open>Runs of the service\<close>

datatype dunning_call = SConfigure string PartialConfiguration | SVariants string bool "Variant list"
  | SSchedule PartialSchedule | SStart int rat string string string string string FailureReason
  | SFail int rat string string FailureType | SSuccess int string | SEscalate int int string string string
  | SPause int string | SResume int string | SOverride int string DunningStage | SAddTemplate DunningTemplate
  | SRemoveTemplate string | SReset

definition service_step :: "DunningService \<Rightarrow> dunning_call \<Rightarrow> DunningService" where
  "service_step d c =
     (case c of
        SConfigure p config \<Rightarrow> snd (configurePlan p config d)
      | SVariants p enabled vs \<Rightarrow> configureABTest p enabled vs d
      | SSchedule s \<Rightarrow> configureRetrySchedule s d
      | SStart now random eid sub subscriber merchant p reason \<Rightarrow> snd (startDunning now random eid sub subscriber merchant p reason d)
      | SFail now random cid sub ft \<Rightarrow> snd (recordFailedCharge now random cid sub ft d)
      | SSuccess now sub \<Rightarrow> snd (recordSuccessfulCharge now sub d)
      | SEscalate now clock eid cid sub \<Rightarrow> (case progressiveEscalate now clock eid cid sub d of Inl _ \<Rightarrow> d | Inr (_, d1) \<Rightarrow> d1)
      | SPause now sub \<Rightarrow> snd (pauseDunning now sub d)
      | SResume now sub \<Rightarrow> snd (resumeDunning now sub d)
      | SOverride now sub stage \<Rightarrow> snd (overrideStage now sub stage d)
      | SAddTemplate t \<Rightarrow> addTemplate t d
      | SRemoveTemplate i \<Rightarrow> removeTemplate i d
      | SReset \<Rightarrow> resetDunning d)"

definition entry_ok :: "DunningService \<Rightarrow> string \<Rightarrow> DunningEntry \<Rightarrow> bool" where
  "entry_ok d sub e \<longleftrightarrow> de_subscriptionId e = sub \<and> getCommunications sub d = de_communicationLog e \<and>
     0 \<le> de_failedAttempts e \<and> de_failedAttempts e \<le> de_totalFailedCharges e"

definition dunning_ok :: "DunningService \<Rightarrow> bool" where
  "dunning_ok d \<longleftrightarrow> (\<forall>sub e. map_of (ds_entries d) sub = Some e \<longrightarrow> entry_ok d sub e)"

lemma put_ok:
  assumes "dunning_ok d" "map_of (ds_entries d') = (map_of (ds_entries d))(sub \<mapsto> e')" "entry_ok d' sub e'"
    "\<And>k. k \<noteq> sub \<Longrightarrow> getCommunications k d' = getCommunications k d"
  shows "dunning_ok d'"
  using assms unfolding dunning_ok_def entry_ok_def by auto

lemma send_log:
  assumes "getCommunications (de_subscriptionId e) d = de_communicationLog e"
  shows "getCommunications (de_subscriptionId e) (snd (sendCommunication now cid e sc st d)) =
      de_communicationLog (fst (sendCommunication now cid e sc st d))"
    and "k \<noteq> de_subscriptionId e \<Longrightarrow> getCommunications k (snd (sendCommunication now cid e sc st d)) = getCommunications k d"
  using assms by (simp_all add: sendCommunication_def Let_def getCommunications_def)

lemma escalate_log:
  assumes "escalate_stage now cid stages idx strategy e d = (delay, e', d')"
    and log: "getCommunications (de_subscriptionId e) d = de_communicationLog e"
  shows "getCommunications (de_subscriptionId e) d' = de_communicationLog e' \<and>
    (\<forall>k. k \<noteq> de_subscriptionId e \<longrightarrow> getCommunications k d' = getCommunications k d)"
proof -
  have "\<exists>e1 d1. de_subscriptionId e1 = de_subscriptionId e \<and> de_communicationLog e1 = de_communicationLog e \<and>
      ds_communicationLog d1 = ds_communicationLog d \<and>
      ((e', d') = (e1, d1) \<or> (\<exists>s. sendCommunication now cid e1 s strategy d1 = (e', d')))"
  proof -
    from assms(1) consider s where "sendCommunication now cid (enter_stage now (sc_stage s) (sc_delayHours s) e) s strategy
        (d\<lparr>ds_engine := trackStageEntry (enter_stage now (sc_stage s) (sc_delayHours s) e) now (ds_engine d)\<rparr>) = (e', d')"
      | s where "sendCommunication now cid (enter_stage now Cancel 24 e) s strategy
        (d\<lparr>ds_engine := trackStageEntry (enter_stage now Cancel 24 e) now (ds_engine d)\<rparr>) = (e', d')"
      | "(e', d') = (enter_stage now Cancel 24 e, d\<lparr>ds_engine := trackStageEntry (enter_stage now Cancel 24 e) now (ds_engine d)\<rparr>)"
      by (auto simp only: escalate_stage_def Let_def fst_conv snd_conv prod.inject option.case split: option.splits)
    then show ?thesis
    proof cases
      case (1 s)
      then show ?thesis
        by (intro exI [of _ "enter_stage now (sc_stage s) (sc_delayHours s) e"]
            exI [of _ "d\<lparr>ds_engine := trackStageEntry (enter_stage now (sc_stage s) (sc_delayHours s) e) now (ds_engine d)\<rparr>"]
            conjI disjI2 exI [of _ s]) (simp_all add: enter_stage_def)
    next
      case (2 s)
      then show ?thesis
        by (intro exI [of _ "enter_stage now Cancel 24 e"]
            exI [of _ "d\<lparr>ds_engine := trackStageEntry (enter_stage now Cancel 24 e) now (ds_engine d)\<rparr>"]
            conjI disjI2 exI [of _ s]) (simp_all add: enter_stage_def)
    next
      case 3
      then show ?thesis
        by (intro exI [of _ "enter_stage now Cancel 24 e"]
            exI [of _ "d\<lparr>ds_engine := trackStageEntry (enter_stage now Cancel 24 e) now (ds_engine d)\<rparr>"]
            conjI disjI1) (simp_all add: enter_stage_def)
    qed
  qed
  then obtain e1 d1 where e1: "de_subscriptionId e1 = de_subscriptionId e" "de_communicationLog e1 = de_communicationLog e"
    "ds_communicationLog d1 = ds_communicationLog d"
    and "(e', d') = (e1, d1) \<or> (\<exists>s. sendCommunication now cid e1 s strategy d1 = (e', d'))" by blast
  moreover from log e1 have "getCommunications (de_subscriptionId e1) d1 = de_communicationLog e1"
    "\<And>k. getCommunications k d1 = getCommunications k d" by (simp_all add: getCommunications_def)
  ultimately show ?thesis
    using send_log [where e = e1 and d = d1 and now = now and cid = cid and st = strategy] by (metis fst_conv snd_conv prod.inject)
qed


lemma fail_ok:
  assumes ok: "dunning_ok d"
  shows "dunning_ok (snd (recordFailedCharge now random cid sub ft d))"
proof (cases "map_of (ds_entries d) sub")
  case None
  then show ?thesis using ok by (simp add: recordFailedCharge_def)
next
  case (Some e)
  show ?thesis
  proof (cases "de_isPaused e")
    case True
    then show ?thesis using ok Some by (simp add: recordFailedCharge_def)
  next
    case False
    from ok Some have e: "entry_ok d sub e" by (simp add: dunning_ok_def)
    let ?stages = "strategy_stages (entry_strategy e d)"
    obtain delay e2 d2 where r: "if budget_exhausted (getRetrySchedule ft d) (map_option (\<lambda>i. ?stages ! i) (current_index e d)) (de_failedAttempts e + 1)
       then escalate_stage now cid ?stages (current_index e d) (entry_strategy e d) (failed_entry now e) d = (delay, e2, d2)
       else e2 = (failed_entry now e)\<lparr>de_nextActionAt := of_int now + delay * of_int ONE_HOUR_MS\<rparr> \<and> d2 = d"
      and eq: "snd (recordFailedCharge now random cid sub ft d) =
       d2\<lparr>ds_retryHistory := ds_retryHistory d2 @ [history_record e2 ft (de_totalFailedCharges e2) False now delay],
          ds_entries := AList.update sub e2 (ds_entries d2)\<rparr>"
      using recordFailedCharge_cases [OF Some False, of ft now cid random] by blast
    have e1: "getCommunications (de_subscriptionId (failed_entry now e)) d = de_communicationLog (failed_entry now e)"
      "de_subscriptionId (failed_entry now e) = sub"
      using e by (simp_all add: failed_entry_def entry_ok_def)
    have "ds_entries d2 = ds_entries d \<and> de_subscriptionId e2 = sub \<and> getCommunications sub d2 = de_communicationLog e2 \<and>
        0 \<le> de_failedAttempts e2 \<and> de_failedAttempts e2 \<le> de_totalFailedCharges e2 \<and>
        (\<forall>k. k \<noteq> sub \<longrightarrow> getCommunications k d2 = getCommunications k d)"
    proof (cases "budget_exhausted (getRetrySchedule ft d) (map_option (\<lambda>i. ?stages ! i) (current_index e d)) (de_failedAttempts e + 1)")
      case True
      with r have esc: "escalate_stage now cid ?stages (current_index e d) (entry_strategy e d) (failed_entry now e) d = (delay, e2, d2)"
        by simp
      from escalate_stage_effect [OF esc] escalate_log [OF esc e1(1)] e1(2) e show ?thesis
        by (auto simp: same_entry_def failed_entry_def entry_ok_def)
    next
      case False
      with r have "e2 = (failed_entry now e)\<lparr>de_nextActionAt := of_int now + delay * of_int ONE_HOUR_MS\<rparr>" "d2 = d" by auto
      with e1 e show ?thesis by (simp add: failed_entry_def entry_ok_def)
    qed
    then show ?thesis unfolding eq
      by (intro put_ok [OF ok, of _ sub e2]) (simp_all add: entry_ok_def getCommunications_def)
  qed
qed

lemma change_ok:
  assumes "dunning_ok d" "\<And>e. entry_ok d sub e \<Longrightarrow> entry_ok d sub (f e)"
  shows "dunning_ok (snd (change_entry sub f d))"
proof (cases "map_of (ds_entries d) sub")
  case (Some e)
  with assms(1) have "entry_ok d sub e" by (simp add: dunning_ok_def)
  from assms(2) [OF this] have "entry_ok (snd (change_entry sub f d)) sub (f e)"
    by (simp add: change_entry_def Some entry_ok_def getCommunications_def)
  then show ?thesis
    by (intro put_ok [OF assms(1), of _ sub "f e"]) (simp_all add: change_entry_def Some getCommunications_def)
qed (use assms in \<open>simp add: change_entry_def\<close>)

lemma escalate_ok:
  assumes ok: "dunning_ok d" and esc: "progressiveEscalate now clock eid cid sub d = Inr (res, d')"
  shows "dunning_ok d'"
proof (cases "map_of (ds_entries d) sub")
  case None
  then show ?thesis using ok esc by (simp add: progressiveEscalate_def)
next
  case (Some e)
  show ?thesis
  proof (cases "de_isPaused e \<or> findMatchingRule e now (ds_engine d) = None")
    case True
    then show ?thesis using ok esc Some by (cases "de_isPaused e") (simp_all add: progressiveEscalate_def)
  next
    case False
    then obtain rule where rule: "findMatchingRule e now (ds_engine d) = Some rule" "\<not> de_isPaused e" by auto
    from ok Some have e: "entry_ok d sub e" by (simp add: dunning_ok_def)
    from findMatchingRule_Some [OF rule(1)] have ap: "applicable rule e now (ds_engine d)" by blast
    define up where "up = escalated_entry clock e rule"
    define d1 where "d1 = d\<lparr>ds_engine := escalated_engine clock eid e rule (ds_engine d),
      ds_entries := AList.update sub up (ds_entries d)\<rparr>"
    have up: "de_subscriptionId up = sub" "getCommunications (de_subscriptionId up) d1 = de_communicationLog up"
      "de_failedAttempts up = 0" "0 \<le> de_totalFailedCharges up"
      using e by (auto simp: up_def escalated_entry_def entry_ok_def d1_def getCommunications_def)
    have keep: "getCommunications k d1 = getCommunications k d" for k by (simp add: d1_def getCommunications_def)
    from esc consider "d' = d1" | s st e2 d2 where "sendCommunication clock cid up s st d1 = (e2, d2)"
        "d' = d2\<lparr>ds_entries := AList.update sub e2 (ds_entries d2)\<rparr>"
      by (simp add: progressiveEscalate_def Some rule applyEscalation_ok [OF ap] Let_def up_def [symmetric]
          d1_def [symmetric] split: option.splits prod.splits) blast?
    then show ?thesis
    proof cases
      case 1
      then show ?thesis
        using up keep by (intro put_ok [OF ok, of _ sub up]) (simp_all add: d1_def entry_ok_def)
    next
      case (2 s st e2 d2)
      then have e2: "e2 = fst (sendCommunication clock cid up s st d1)" "d2 = snd (sendCommunication clock cid up s st d1)" by simp_all
      have ent: "ds_entries d2 = AList.update sub up (ds_entries d)" by (simp add: e2 send_keeps) (simp add: d1_def)
      show ?thesis
      proof (rule put_ok [OF ok, of _ sub e2])
        show "map_of (ds_entries d') = (map_of (ds_entries d))(sub \<mapsto> e2)" by (simp add: 2 ent)
        show "entry_ok d' sub e2"
          using send_log(1) [OF up(2), where now = clock and cid = cid and sc = s and st = st] up
          by (simp add: 2(2) entry_ok_def getCommunications_def) (simp add: e2 send_keeps up)
        show "getCommunications k d' = getCommunications k d" if "k \<noteq> sub" for k
          using send_log(2) [OF up(2), where k = k and now = clock and cid = cid and sc = s and st = st] up(1) keep that
          by (simp add: 2(2) getCommunications_def) (simp add: e2)
      qed
    qed
  qed
qed


lemma quiet_ok:
  "dunning_ok d \<Longrightarrow> ds_entries d' = ds_entries d \<Longrightarrow> ds_communicationLog d' = ds_communicationLog d \<Longrightarrow> dunning_ok d'"
  by (simp add: dunning_ok_def entry_ok_def getCommunications_def)

lemma start_ok: "dunning_ok d \<Longrightarrow> dunning_ok (snd (startDunning now random eid sub subscriber merchant p reason d))"
proof (cases "map_of (ds_entries d) sub")
  case None
  assume ok: "dunning_ok d"
  let ?r = "startDunning now random eid sub subscriber merchant p reason d"
  show ?thesis
    by (rule put_ok [OF ok, of _ sub "fst ?r"])
      (simp_all add: startDunning_def None Let_def entry_ok_def getCommunications_def)
qed (simp add: startDunning_def)

lemma service_step_ok: "dunning_ok d \<Longrightarrow> dunning_ok (service_step d c)"
proof (cases c)
  case (SConfigure p config)
  assume "dunning_ok d"
  then show ?thesis by (rule quiet_ok) (simp_all add: SConfigure service_step_def configurePlan_def Let_def)
next
  case (SVariants p enabled vs)
  assume "dunning_ok d"
  then show ?thesis
    by (rule quiet_ok) (simp_all add: SVariants service_step_def configureABTest_def configurePlan_def Let_def split: option.split)
next
  case (SSchedule s)
  assume "dunning_ok d"
  then show ?thesis by (rule quiet_ok) (simp_all add: SSchedule service_step_def configureRetrySchedule_def Let_def)
next
  case (SEscalate now clock eid cid sub)
  assume ok: "dunning_ok d"
  show ?thesis
  proof (cases "progressiveEscalate now clock eid cid sub d")
    case (Inr x)
    obtain res d' where "x = (res, d')" by (cases x)
    with Inr escalate_ok [OF ok, of now clock eid cid sub res d'] show ?thesis by (simp add: SEscalate service_step_def)
  qed (use ok SEscalate in \<open>simp add: service_step_def\<close>)
next
  case (SSuccess now sub)
  assume ok: "dunning_ok d"
  then show ?thesis
    by (auto simp: SSuccess service_step_def recordSuccessfulCharge_def Let_def dunning_ok_def entry_ok_def
        getCommunications_def split: option.split)
next
  case (SOverride now sub stage)
  assume ok: "dunning_ok d"
  define f where "f = (\<lambda>e. e\<lparr>de_currentStage := stage, de_failedAttempts := 0,
         de_nextActionAt := of_int now + stage_delay stage (entry_strategy e d) * of_int ONE_HOUR_MS, de_updatedAt := now\<rparr>)"
  have "dunning_ok (snd (change_entry sub f d))"
    by (rule change_ok [OF ok]) (simp add: entry_ok_def f_def)
  moreover have "dunning_ok (snd (overrideStage now sub stage d)) = dunning_ok (snd (change_entry sub f d))"
    by (simp add: overrideStage_def f_def [symmetric] change_entry_def dunning_ok_def entry_ok_def getCommunications_def
        split: option.split)
  ultimately show ?thesis by (simp add: SOverride service_step_def)
next
  case SReset
  then show ?thesis by (simp add: service_step_def resetDunning_def newDunningService_def dunning_ok_def)
qed (auto simp: service_step_def start_ok fail_ok pauseDunning_def resumeDunning_def addTemplate_def removeTemplate_def
    entry_ok_def intro!: change_ok intro: quiet_ok)

interpretation dunning: machine service_step dunning_ok
  by unfold_locales (rule service_step_ok)

section \<open>Properties\<close>

text \<open>C31: Failures drive an entry through the stages of its strategy: for a strategy whose stages are distinct and
  end with the cancellation, after n failed charges of one type an entry that started in the first
  stage is in the stage that the budgets alone determine (the smaller of the schedule's and the stage's
  attempts, one for a failure that is not retryable), and it is cancelled exactly from the sum of the budgets of
  the earlier stages on, whatever the times and the random delays.\<close>

theorem failures_walk_the_stages:
  assumes "map_of (ds_entries d) sub = Some e" "\<not> de_isPaused e" "de_failedAttempts e = 0"
    and "strategy_stages (entry_strategy e d) = stages" "stages \<noteq> []" "distinct (map sc_stage stages)"
      "sc_stage (last stages) = Cancel" "de_currentStage e = sc_stage (hd stages)"
    and b: "b = stage_budget (getRetrySchedule ft d)"
  shows "\<exists>e'. getDunningEntry sub (failures sub ft es d) = Some e' \<and>
    de_currentStage e' = stage_after b stages (length es) \<and>
    (de_currentStage e' = Cancel \<longleftrightarrow> sum_list (map b (butlast stages)) \<le> length es) \<and>
    de_totalFailedCharges e' = de_totalFailedCharges e + int (length es)"
proof -
  obtain s post where stages: "stages = [] @ s # post" using assms(5) by (cases stages) auto
  from failures_stage [OF assms(1,2), of 0 "[]" s post ft es] assms stages stage_budget_pos
  obtain e' where e': "map_of (ds_entries (failures sub ft es d)) sub = Some e'"
    "de_currentStage e' = stage_after b stages (length es)" "de_totalFailedCharges e' = de_totalFailedCharges e + int (length es)"
    by auto
  have "(stage_after b stages (length es) = Cancel) = (sum_list (map b (butlast stages)) \<le> length es)"
    by (rule stage_after_cancel) (use assms stage_budget_pos in auto)
  with e' show ?thesis by (auto simp: getDunningEntry_def)
qed

definition demo_dunning :: DunningService where
  "demo_dunning = snd (startDunning 0 (1/2) ''d1'' ''s1'' ''u1'' ''m1'' ''p1'' FrDefault (newDunningService (newProgressiveEngine True)))"

lemma failures_walk_the_stages_witness:
  "map_option de_currentStage (getDunningEntry ''s1'' (failures ''s1'' FtUnknown
     [(1, 0, ''c''), (2, 0, ''c''), (3, 0, ''c''), (4, 0, ''c''), (5, 0, ''c''), (6, 0, ''c'')] demo_dunning)) = Some Cancel"
proof -
  obtain e where e: "map_of (ds_entries demo_dunning) ''s1'' = Some e" "\<not> de_isPaused e" "de_failedAttempts e = 0"
    "de_planId e = ''p1''" "de_currentStage e = Retry"
    by (simp add: demo_dunning_def startDunning_def newDunningService_def Let_def getStrategy_def choose_variant_def
        FALLBACK_STRATEGY_def DEFAULT_DUNNING_STAGES_def)
  have conf: "ds_configurations demo_dunning = []" "ds_retrySchedules demo_dunning = DEFAULT_RETRY_SCHEDULES"
    by (simp_all add: demo_dunning_def startDunning_def newDunningService_def Let_def)
  have st: "strategy_stages (entry_strategy e demo_dunning) = DEFAULT_DUNNING_STAGES"
    by (simp add: entry_strategy_def getStrategy_def conf FALLBACK_STRATEGY_def strategy_stages_def DEFAULT_DUNNING_STAGES_def)
  have sched: "rc_retryable (getRetrySchedule FtUnknown demo_dunning)" "rc_maxRetries (getRetrySchedule FtUnknown demo_dunning) = 3"
    by (simp_all add: getRetrySchedule_def conf first_of_def DEFAULT_RETRY_SCHEDULES_def js_find_def)
  from failures_walk_the_stages [OF e(1,2,3) st _ _ _ _ refl, of FtUnknown
      "[(1, 0, ''c''), (2, 0, ''c''), (3, 0, ''c''), (4, 0, ''c''), (5, 0, ''c''), (6, 0, ''c'')]"] e(5) sched
  show ?thesis by (auto simp: DEFAULT_DUNNING_STAGES_def stage_budget_def)
qed

text \<open>Retry delays stay in their envelope: for a schedule without negative entries a delay is never negative or
  above the maximum, the jitter moves it by at most its ratio, whatever the random source, and without
  jitter, with a multiplier of at least one, it never decreases from attempt to attempt.\<close>

theorem retry_delays_bounded:
  assumes "schedule_ok (getRetrySchedule ft d)" "0 \<le> random" "random < 1"
  shows "(let s = getRetrySchedule ft d; delay = calculateRetryDelay random ft n d;
      plain = min (base_delay s (nat (max 1 n))) (rc_maxDelayHours s)
    in 0 \<le> delay \<and> delay \<le> rc_maxDelayHours s \<and> \<bar>delay - plain\<bar> \<le> plain * rc_jitterRatio s \<and>
      (rc_backoffPolicy s \<noteq> ExponentialJitter \<longrightarrow> 1 \<le> rc_backoffMultiplier s \<longrightarrow> n \<le> m \<longrightarrow>
         delay \<le> calculateRetryDelay random ft m d))"
proof -
  let ?s = "getRetrySchedule ft d"
  let ?plain = "min (base_delay ?s (nat (max 1 n))) (rc_maxDelayHours ?s)"
  have p: "0 \<le> ?plain" "?plain \<le> rc_maxDelayHours ?s" "0 \<le> rc_jitterRatio ?s"
    using base_delay_nonneg [OF assms(1)] assms(1) by (auto simp: schedule_ok_def)
  have j: "\<bar>(random * 2 - 1) * (?plain * rc_jitterRatio ?s)\<bar> \<le> ?plain * rc_jitterRatio ?s"
    by (rule jitter_close [OF assms(2,3) p(1,3)])
  define x where "x = (random * 2 - 1) * (?plain * rc_jitterRatio ?s)"
  have eq: "calculateRetryDelay random ft n d =
      (if rc_backoffPolicy ?s = ExponentialJitter \<and> 0 < rc_jitterRatio ?s
       then min (max (?plain + x) 0) (rc_maxDelayHours ?s) else ?plain)"
    by (simp only: calculateRetryDelay_def Let_def x_def)
  have pj: "0 \<le> ?plain * rc_jitterRatio ?s" using p(1,3) by (rule mult_nonneg_nonneg)
  have M: "0 \<le> rc_maxDelayHours ?s" using assms(1) by (simp add: schedule_ok_def)
  have "\<bar>calculateRetryDelay random ft n d - ?plain\<bar> \<le> ?plain * rc_jitterRatio ?s"
    unfolding eq using clamp_close [OF j [folded x_def] p(1,2)] pj by (simp only: split: if_split) simp
  moreover have "0 \<le> calculateRetryDelay random ft n d \<and> calculateRetryDelay random ft n d \<le> rc_maxDelayHours ?s"
    unfolding eq using p(1,2) M by (simp split: if_split)
  moreover have "calculateRetryDelay random ft n d \<le> calculateRetryDelay random ft m d"
    if "rc_backoffPolicy ?s \<noteq> ExponentialJitter" "1 \<le> rc_backoffMultiplier ?s" "n \<le> m"
  proof -
    have "nat (max 1 n) \<le> nat (max 1 m)" using that(3) by (simp add: nat_mono)
    from base_delay_mono [OF assms(1) that(2) this] that(1) show ?thesis
      by (simp add: calculateRetryDelay_def Let_def min_le_iff_disj)
  qed
  ultimately show ?thesis by (simp add: Let_def)
qed

lemma retry_delays_bounded_witness:
  "calculateRetryDelay (9/10) FtNetworkError 3 demo_dunning \<le> 12"
proof -
  have s: "getRetrySchedule FtNetworkError demo_dunning = DEFAULT_RETRY_SCHEDULES ! 3"
    by (simp add: demo_dunning_def startDunning_def newDunningService_def Let_def getRetrySchedule_def first_of_def
        DEFAULT_RETRY_SCHEDULES_def js_find_def)
  have "schedule_ok (getRetrySchedule FtNetworkError demo_dunning)" "rc_maxDelayHours (getRetrySchedule FtNetworkError demo_dunning) = 12"
    by (simp_all add: s schedule_ok_def DEFAULT_RETRY_SCHEDULES_def)
  then show ?thesis
    using retry_delays_bounded [of FtNetworkError demo_dunning "9/10" 3] by (simp add: Let_def)
qed

text \<open>The records of an active entry agree: in every run of the service the entry stored under a subscription is
  of that subscription, its own communication log is the one the service answers for the subscription, and
  its attempts in the stage are between zero and all its failures.\<close>

theorem dunning_records_agree:
  assumes "d = foldl service_step (newDunningService eng) cs" "getDunningEntry sub d = Some e"
  shows "de_subscriptionId e = sub \<and> getCommunications sub d = de_communicationLog e \<and>
    0 \<le> de_failedAttempts e \<and> de_failedAttempts e \<le> de_totalFailedCharges e"
proof -
  have "dunning_ok (newDunningService eng)" by (simp add: dunning_ok_def newDunningService_def)
  then have "dunning_ok d" unfolding assms(1) by (rule dunning.run_inv)
  with assms(2) show ?thesis by (simp add: dunning_ok_def entry_ok_def getDunningEntry_def)
qed

lemma dunning_records_agree_witness:
  "\<exists>e. getDunningEntry ''s1'' demo_dunning = Some e \<and> getCommunications ''s1'' demo_dunning = de_communicationLog e"
proof -
  have run: "demo_dunning = foldl service_step (newDunningService (newProgressiveEngine True))
      [SStart 0 (1/2) ''d1'' ''s1'' ''u1'' ''m1'' ''p1'' FrDefault]"
    by (simp add: demo_dunning_def service_step_def)
  have "\<exists>e. getDunningEntry ''s1'' demo_dunning = Some e"
    by (simp add: demo_dunning_def startDunning_def newDunningService_def Let_def getDunningEntry_def)
  with dunning_records_agree [OF run] show ?thesis by blast
qed

end
