(* ===== verification/JsString.thy ===== *)
theory JsString
  imports JsNumber
begin

text \<open>
  The string idioms of the import and parsing code: trimming, case conversion, substring search,
  splitting, decimal literals (\<open>parseFloat\<close>, \<open>Number\<close>) and the printing of numbers and
  calendar dates. Characters are Latin-1 code units; numbers are exact and printed to six decimals.
\<close>

section \<open>Trimming and case\<close>

definition js_space :: "char \<Rightarrow> bool" where
  "js_space c \<longleftrightarrow> (of_char c :: nat) \<in> {9, 10, 11, 12, 13, 32, 160}"

definition js_trimStart :: "string \<Rightarrow> string" where
  "js_trimStart s = dropWhile js_space s"

definition js_trim :: "string \<Rightarrow> string" where
  "js_trim s = rev (dropWhile js_space (rev (dropWhile js_space s)))"

text \<open>\<open>toLowerCase\<close> and \<open>toUpperCase\<close>; the few letters whose capitals lie outside Latin-1 are kept.\<close>

definition lower_char :: "char \<Rightarrow> char" where
  "lower_char c = (let n = of_char c :: nat
     in if (65 \<le> n \<and> n \<le> 90) \<or> (192 \<le> n \<and> n \<le> 222 \<and> n \<noteq> 215) then char_of (n + 32) else c)"

definition upper_char :: "char \<Rightarrow> char" where
  "upper_char c = (let n = of_char c :: nat
     in if (97 \<le> n \<and> n \<le> 122) \<or> (224 \<le> n \<and> n \<le> 254 \<and> n \<noteq> 247) then char_of (n - 32) else c)"

definition js_lower :: "string \<Rightarrow> string" where
  "js_lower = map lower_char"

definition js_upper :: "string \<Rightarrow> string" where
  "js_upper = map upper_char"

text \<open>A string that trimming leaves alone and that is not empty.\<close>

definition trimmed :: "string \<Rightarrow> bool" where
  "trimmed s \<longleftrightarrow> s \<noteq> [] \<and> \<not> js_space (hd s) \<and> \<not> js_space (last s)"

lemma dropWhile_hd: "s \<noteq> [] \<Longrightarrow> \<not> p (hd s) \<Longrightarrow> dropWhile p s = s"
  by (cases s) simp_all

lemma js_trim_trimmed [simp]: "trimmed s \<Longrightarrow> js_trim s = s"
  by (simp add: trimmed_def js_trim_def dropWhile_hd hd_rev)

lemma js_trim_Nil [simp]: "js_trim [] = []"
  by (simp add: js_trim_def)

lemma trimmed_nonempty [simp]: "trimmed s \<Longrightarrow> s \<noteq> []"
  by (simp add: trimmed_def)

section \<open>Searching and splitting\<close>

definition js_includes :: "string \<Rightarrow> string \<Rightarrow> bool" where
  "js_includes s sub = list_ex (\<lambda>i. take (length sub) (drop i s) = sub) [0..<Suc (length s)]"

lemma js_includes_self [simp]: "js_includes s s"
  by (auto simp: js_includes_def list_ex_iff intro: bexI [of _ 0])

fun split_lines :: "string \<Rightarrow> string \<Rightarrow> string list" where
  "split_lines cur [] = [cur]"
| "split_lines cur (c # cs) =
     (if c = CHR 0x0A then cur # split_lines [] cs
      else if c = CHR 0x0D \<and> cs \<noteq> [] \<and> hd cs = CHR 0x0A then split_lines cur cs
      else split_lines (cur @ [c]) cs)"

lemma split_lines_plain:
  "CHR 0x0A \<notin> set s \<Longrightarrow> split_lines cur s = [cur @ s]"
  by (induction s arbitrary: cur) (auto dest: hd_in_set)

lemma split_lines_append:
  "CHR 0x0A \<notin> set s \<Longrightarrow> s \<noteq> [] \<Longrightarrow> last s \<noteq> CHR 0x0D \<Longrightarrow>
     split_lines cur (s @ CHR 0x0A # rest) = (cur @ s) # split_lines [] rest"
proof (induction s arbitrary: cur)
  case (Cons c s)
  then show ?case by (cases s) auto
qed simp

lemma split_lines_join:
  "\<forall>s \<in> set ls. CHR 0x0A \<notin> set s \<and> s \<noteq> [] \<and> last s \<noteq> CHR 0x0D \<Longrightarrow> ls \<noteq> [] \<Longrightarrow>
     split_lines [] (js_join [CHR 0x0A] ls) = ls"
proof (induction ls)
  case (Cons l ls)
  then show ?case by (cases ls) (auto simp: split_lines_plain split_lines_append)
qed simp

section \<open>Numbers\<close>

datatype jsnum = NaN | Infinite bool | Fin rat

definition is_digit :: "char \<Rightarrow> bool" where
  "is_digit c \<longleftrightarrow> (of_char c :: nat) \<in> {48..57}"

definition digit_val :: "char \<Rightarrow> nat" where
  "digit_val c = of_char c - 48"

definition digits_val :: "string \<Rightarrow> nat" where
  "digits_val s = foldl (\<lambda>n c. 10 * n + digit_val c) 0 s"

lemma digits_val_Nil [simp]: "digits_val [] = 0"
  by (simp add: digits_val_def)

lemma digits_fold: "foldl (\<lambda>n c. 10 * n + digit_val c) a s = a * 10 ^ length s + digits_val s"
proof (induction s arbitrary: a)
  case (Cons c s)
  from Cons.IH [of "10 * a + digit_val c"] Cons.IH [of "digit_val c"] show ?case
    by (simp add: digits_val_def algebra_simps)
qed simp

lemma digits_val_append: "digits_val (xs @ ys) = digits_val xs * 10 ^ length ys + digits_val ys"
proof -
  have "digits_val (xs @ ys) = foldl (\<lambda>n c. 10 * n + digit_val c) (digits_val xs) ys"
    by (simp only: digits_val_def foldl_append)
  then show ?thesis by (simp only: digits_fold)
qed

lemma digit_of [simp]:
  assumes "n < 10"
  shows "is_digit (char_of (48 + n))" "digit_val (char_of (48 + n)) = n"
proof -
  have "48 + n < 256" using assms by linarith
  then have eq: "(of_char (char_of (48 + n) :: char) :: nat) = 48 + n"
    by (simp only: of_char_of mod_less)
  have mem: "48 + n \<in> {48..57}" using assms by auto
  show "is_digit (char_of (48 + n))" "digit_val (char_of (48 + n)) = n"
    unfolding is_digit_def digit_val_def eq by (rule mem, rule diff_add_inverse)
qed

lemma digits_show_nat: "digits_val (show_nat n) = n \<and> list_all is_digit (show_nat n) \<and> show_nat n \<noteq> []"
proof (induction n rule: show_nat.induct)
  case (1 n)
  show ?case
  proof (cases "n < 10")
    case True
    then have "show_nat n = [char_of (48 + n)]" by (subst show_nat.simps) simp
    then show ?thesis using True by (simp add: digits_val_def)
  next
    case False
    then have eq: "show_nat n = show_nat (n div 10) @ [char_of (48 + n mod 10)]" by (subst show_nat.simps) simp
    have "digits_val [char_of (48 + n mod 10)] = n mod 10" by (simp add: digits_val_def)
    then show ?thesis using 1 [OF False] by (simp add: eq digits_val_append)
  qed
qed

text \<open>The literal at the start of a string: digits, a point, an exponent.\<close>

definition parse_exponent :: "string \<Rightarrow> int \<times> string" where
  "parse_exponent s =
     (case s of
        [] \<Rightarrow> (0, s)
      | c # t \<Rightarrow>
          if c = CHR ''e'' \<or> c = CHR ''E'' then
            (let neg = (t \<noteq> [] \<and> hd t = CHR ''-''); u = (if t \<noteq> [] \<and> (hd t = CHR ''-'' \<or> hd t = CHR ''+'') then tl t else t);
                 ds = takeWhile is_digit u
             in if ds = [] then (0, s) else ((if neg then - int (digits_val ds) else int (digits_val ds)), dropWhile is_digit u))
          else (0, s))"

definition scale10 :: "rat \<Rightarrow> int \<Rightarrow> rat" where
  "scale10 x e = (if 0 \<le> e then x * 10 ^ nat e else x / 10 ^ nat (- e))"

definition parse_decimal :: "string \<Rightarrow> (rat \<times> string) option" where
  "parse_decimal s =
     (let ip = takeWhile is_digit s; r = dropWhile is_digit s;
          point = (r \<noteq> [] \<and> hd r = CHR ''.'');
          fp = (if point then takeWhile is_digit (tl r) else []);
          r2 = (if point then dropWhile is_digit (tl r) else r)
      in if ip = [] \<and> fp = [] then None
         else case parse_exponent r2 of
                (e, rest) \<Rightarrow> Some (scale10 (of_nat (digits_val (ip @ fp)) / 10 ^ length fp) e, rest))"

definition parse_sign :: "string \<Rightarrow> bool \<times> string" where
  "parse_sign s = (if s \<noteq> [] \<and> hd s = CHR ''-'' then (True, tl s)
     else if s \<noteq> [] \<and> hd s = CHR ''+'' then (False, tl s) else (False, s))"

definition js_infinity :: string where "js_infinity = ''Infinity''"

definition parseFloat :: "string \<Rightarrow> jsnum" where
  "parseFloat s =
     (case parse_sign (js_trimStart s) of
        (neg, t) \<Rightarrow>
          if take 8 t = js_infinity then Infinite neg
          else case parse_decimal t of None \<Rightarrow> NaN | Some (x, _) \<Rightarrow> Fin (if neg then - x else x))"

text \<open>\<open>Number(s)\<close>: the whole trimmed string; blank is zero. Literals with a radix prefix have no sign.\<close>

definition radix_digit :: "nat \<Rightarrow> char \<Rightarrow> nat option" where
  "radix_digit b c =
     (let n = of_char (lower_char c) :: nat;
          v = (if 48 \<le> n \<and> n \<le> 57 then n - 48 else if 97 \<le> n \<and> n \<le> 102 then n - 87 else b)
      in if v < b then Some v else None)"

fun radix_val :: "nat \<Rightarrow> nat \<Rightarrow> string \<Rightarrow> nat option" where
  "radix_val b a [] = Some a"
| "radix_val b a (c # cs) = (case radix_digit b c of None \<Rightarrow> None | Some d \<Rightarrow> radix_val b (b * a + d) cs)"

definition parse_radix :: "string \<Rightarrow> jsnum option" where
  "parse_radix s =
     (case map lower_char (take 2 s) of
        p \<Rightarrow>
          let b = (if p = ''0x'' then 16 else if p = ''0o'' then 8 else if p = ''0b'' then 2 else 0)
          in if b = 0 then None
             else if drop 2 s = [] then Some NaN
             else Some (case radix_val b 0 (drop 2 s) of None \<Rightarrow> NaN | Some n \<Rightarrow> Fin (of_nat n)))"

definition js_Number :: "string \<Rightarrow> jsnum" where
  "js_Number s0 =
     (let s = js_trim s0
      in if s = [] then Fin 0
         else case parse_radix s of
           Some v \<Rightarrow> v
         | None \<Rightarrow>
             (case parse_sign s of
                (neg, t) \<Rightarrow>
                  if t = js_infinity then Infinite neg
                  else case parse_decimal t of
                         Some (x, []) \<Rightarrow> Fin (if neg then - x else x)
                       | _ \<Rightarrow> NaN))"

text \<open>\<open>String(x)\<close> of a number with at most six decimals.\<close>

definition pad_left :: "nat \<Rightarrow> string \<Rightarrow> string" where
  "pad_left n s = replicate (n - length s) (CHR ''0'') @ s"

definition strip_zeros :: "string \<Rightarrow> string" where
  "strip_zeros s = rev (dropWhile (\<lambda>c. c = CHR ''0'') (rev s))"

definition show_micros :: "nat \<Rightarrow> string" where
  "show_micros n = show_nat (n div 1000000) @
     (if n mod 1000000 = 0 then '''' else ''.'' @ strip_zeros (pad_left 6 (show_nat (n mod 1000000))))"

definition show_num :: "rat \<Rightarrow> string" where
  "show_num x = (let n = js_round (x * 1000000) in if n < 0 then ''-'' @ show_micros (nat (- n)) else show_micros (nat n))"

section \<open>Dates\<close>

text \<open>\<open>toISOString().split('T')[0]\<close> of an instant.\<close>

definition civil :: "int \<Rightarrow> int \<times> int \<times> int" where
  "civil days =
     (let z = days + 719468; era = z div 146097; doe = z mod 146097;
          yoe = (doe - doe div 1460 + doe div 36524 - doe div 146096) div 365;
          doy = doe - (365 * yoe + yoe div 4 - yoe div 100);
          mp = (5 * doy + 2) div 153;
          m = (if mp < 10 then mp + 3 else mp - 9)
      in (yoe + era * 400 + (if m \<le> 2 then 1 else 0), m, doy - (153 * mp + 2) div 5 + 1))"

definition show_year :: "int \<Rightarrow> string" where
  "show_year y =
     (if 0 \<le> y \<and> y \<le> 9999 then pad_left 4 (show_nat (nat y))
      else (if y < 0 then ''-'' else ''+'') @ pad_left 6 (show_nat (nat \<bar>y\<bar>)))"

definition isoDate :: "int \<Rightarrow> string" where
  "isoDate ms =
     (case civil (ms div ONE_DAY_MS) of
        (y, m, d) \<Rightarrow> show_year y @ ''-'' @ pad_left 2 (show_nat (nat m)) @ ''-'' @ pad_left 2 (show_nat (nat d)))"

lemma isoDate_examples:
  "isoDate 0 = ''1970-01-01''" "isoDate 951782400000 = ''2000-02-29''" "isoDate (- 86400000) = ''1969-12-31''"
  "isoDate 1777593600000 = ''2026-05-01''"
  by code_simp+

section \<open>Printed numbers parse back\<close>

lemma is_digit_zero [simp]: "is_digit (CHR ''0'')" "digit_val (CHR ''0'') = 0"
  by (simp_all add: is_digit_def digit_val_def)

lemma not_digit [simp]: "\<not> is_digit (CHR ''.'')" "\<not> is_digit (CHR ''-'')"
  by (simp_all add: is_digit_def)

lemma digits_zeros: "digits_val (replicate n (CHR ''0'')) = 0"
  by (induction n) (simp_all add: digits_val_def)

lemma strip_zeros_split: "\<exists>k. s = strip_zeros s @ replicate k (CHR ''0'')"
proof -
  let ?p = "\<lambda>c. c = CHR ''0''"
  have "takeWhile ?p (rev s) = replicate (length (takeWhile ?p (rev s))) (CHR ''0'')"
    by (metis (full_types) replicate_length_same set_takeWhileD)
  then have "rev (takeWhile ?p (rev s)) = replicate (length (takeWhile ?p (rev s))) (CHR ''0'')"
    by (metis rev_replicate)
  moreover have "s = rev (dropWhile ?p (rev s)) @ rev (takeWhile ?p (rev s))"
    by (metis rev_append rev_rev_ident takeWhile_dropWhile_id)
  ultimately show ?thesis unfolding strip_zeros_def by metis
qed

lemma show_nat_length: "n < 10 ^ k \<Longrightarrow> 0 < k \<Longrightarrow> length (show_nat n) \<le> k"
proof (induction k arbitrary: n)
  case (Suc k)
  show ?case
  proof (cases "n < 10")
    case True
    then have "show_nat n = [char_of (48 + n)]" by (subst show_nat.simps) simp
    then show ?thesis by simp
  next
    case False
    then have eq: "show_nat n = show_nat (n div 10) @ [char_of (48 + n mod 10)]" by (subst show_nat.simps) simp
    have "n div 10 < 10 ^ k" using Suc.prems(1) by (simp add: less_mult_imp_div_less mult.commute)
    moreover have "0 < k" using False Suc.prems(1) by (cases k) auto
    ultimately show ?thesis using Suc.IH [of "n div 10"] by (simp add: eq)
  qed
qed simp

lemma takeWhile_digits: "list_all is_digit s \<Longrightarrow> rest = [] \<or> \<not> is_digit (hd rest) \<Longrightarrow>
    takeWhile is_digit (s @ rest) = s \<and> dropWhile is_digit (s @ rest) = rest"
  by (induction s) (cases rest; simp)+

lemma parse_exponent_none: "rest = [] \<or> hd rest \<notin> {CHR ''e'', CHR ''E''} \<Longrightarrow> parse_exponent rest = (0, rest)"
  by (cases rest) (simp_all add: parse_exponent_def)

lemma parse_show_micros_rest:
  assumes "rest = [] \<or> \<not> is_digit (hd rest) \<and> hd rest \<notin> {CHR ''.'', CHR ''e'', CHR ''E''}"
  shows "parse_decimal (show_micros n @ rest) = Some (of_nat n / 1000000, rest)"
proof (cases "n mod 1000000 = 0")
  case True
  have tw: "takeWhile is_digit (show_nat (n div 1000000) @ rest) = show_nat (n div 1000000)"
    "dropWhile is_digit (show_nat (n div 1000000) @ rest) = rest"
    using takeWhile_digits [of "show_nat (n div 1000000)" rest] digits_show_nat [of "n div 1000000"] assms by auto
  have sm: "show_micros n = show_nat (n div 1000000)" by (simp add: show_micros_def True)
  have pt: "(rest \<noteq> [] \<and> hd rest = CHR ''.'') = False" using assms by auto
  have ex: "parse_exponent rest = (0, rest)" by (rule parse_exponent_none) (use assms in auto)
  have "rat_of_nat (n div 1000000) = of_nat n / 1000000"
    using True by (metis mult_div_mod_eq add.right_neutral nonzero_mult_div_cancel_left of_nat_mult of_nat_numeral zero_neq_numeral)
  then show ?thesis
    using digits_show_nat [of "n div 1000000"]
    unfolding sm parse_decimal_def Let_def tw pt if_False ex by (simp add: scale10_def)
next
  case False
  define ip where "ip = show_nat (n div 1000000)"
  define pad where "pad = pad_left 6 (show_nat (n mod 1000000))"
  define fp where "fp = strip_zeros pad"
  have m: "n mod 1000000 < 10 ^ 6" by simp
  have lenpad: "length pad = 6" using show_nat_length [OF m] by (simp add: pad_def pad_left_def)
  have padval: "digits_val pad = n mod 1000000" "list_all is_digit pad"
    using digits_show_nat [of "n mod 1000000"]
    by (auto simp: pad_def pad_left_def digits_val_append digits_zeros list_all_iff)
  obtain k where k: "pad = fp @ replicate k (CHR ''0'')" using strip_zeros_split unfolding fp_def by blast
  have fpval: "digits_val pad = digits_val fp * 10 ^ k" by (simp add: k digits_val_append digits_zeros)
  with padval False have "fp \<noteq> []" by auto
  have len: "length fp + k = 6" using lenpad k by simp
  have dig: "list_all is_digit ip" "list_all is_digit fp" "ip \<noteq> []" "digits_val ip = n div 1000000"
    using padval(2) digits_show_nat [of "n div 1000000"] by (simp_all add: k list_all_iff ip_def)
  have sm: "show_micros n @ rest = ip @ CHR ''.'' # fp @ rest" using False by (simp add: show_micros_def ip_def fp_def pad_def)
  have tw: "takeWhile is_digit (ip @ CHR ''.'' # fp @ rest) = ip" "dropWhile is_digit (ip @ CHR ''.'' # fp @ rest) = CHR ''.'' # fp @ rest"
    using takeWhile_digits [OF dig(1), of "CHR ''.'' # fp @ rest"] by simp_all
  have tw2: "takeWhile is_digit (fp @ rest) = fp" "dropWhile is_digit (fp @ rest) = rest"
    using takeWhile_digits [OF dig(2), of rest] assms by auto
  have ex: "parse_exponent rest = (0, rest)" by (rule parse_exponent_none) (use assms in auto)
  have "(of_nat (digits_val (ip @ fp)) / 10 ^ length fp :: rat) = of_nat n / 1000000"
  proof -
    have "digits_val (ip @ fp) * 10 ^ k = (n div 1000000) * 10 ^ (length fp + k) + digits_val fp * 10 ^ k"
      by (simp add: digits_val_append dig(4) algebra_simps power_add)
    also have "\<dots> = (n div 1000000) * 1000000 + n mod 1000000" using fpval padval(1) by (simp add: len)
    also have "\<dots> = n" by simp
    finally have "of_nat (digits_val (ip @ fp)) * 10 ^ k = (of_nat n :: rat)" by (metis of_nat_mult of_nat_numeral of_nat_power)
    moreover have "(10 :: rat) ^ length fp * 10 ^ k = 1000000" by (simp add: power_add [symmetric] len)
    ultimately show ?thesis
      by (metis (no_types, lifting) mult_divide_mult_cancel_right power_not_zero zero_neq_numeral)
  qed
  then show ?thesis
    unfolding sm parse_decimal_def Let_def tw using dig(3)
    by (simp add: tw2 ex scale10_def)
qed

lemma parse_show_micros: "parse_decimal (show_micros n) = Some (of_nat n / 1000000, [])"
  using parse_show_micros_rest [of "[]" n] by simp

lemma show_micros_shape: "show_micros n \<noteq> [] \<and> is_digit (hd (show_micros n)) \<and>
    (\<forall>c \<in> set (show_micros n). is_digit c \<or> c = CHR ''.'')"
proof -
  have d: "show_nat m \<noteq> [] \<and> (\<forall>c \<in> set (show_nat m). is_digit c) \<and> is_digit (hd (show_nat m))" for m
    using digits_show_nat [of m] by (simp add: list_all_iff)
  have "c \<in> set (strip_zeros s) \<Longrightarrow> c \<in> set s" for c s
    unfolding strip_zeros_def using set_dropWhileD by fastforce
  then have "c \<in> set (strip_zeros (pad_left 6 (show_nat m))) \<Longrightarrow> is_digit c" for c m
    using d by (fastforce simp: pad_left_def)
  with d show ?thesis by (auto simp: show_micros_def hd_append)
qed

lemma digit_not_space: "is_digit c \<Longrightarrow> \<not> js_space c"
  by (auto simp: is_digit_def js_space_def)

text \<open>A non-negative multiple of a millionth prints to a string that parses back to it.\<close>

lemma parseFloat_show_num:
  assumes "0 \<le> x" "of_int n = x * 1000000"
  shows "parseFloat (show_num x) = Fin x"
proof -
  have n: "js_round (x * 1000000) = n" using assms(2) by (metis js_round_int)
  have "0 \<le> (of_int n :: rat)" using assms by simp
  then have "0 \<le> n" by simp
  then have show_eq: "show_num x = show_micros (nat n)" by (simp add: show_num_def Let_def n)
  let ?s = "show_micros (nat n)"
  have nd: "\<not> js_space (hd ?s)" using show_micros_shape [of "nat n"] digit_not_space by blast
  have sign: "parse_sign (js_trimStart ?s) = (False, ?s)"
    using show_micros_shape [of "nat n"] nd
    by (auto simp: js_trimStart_def dropWhile_hd parse_sign_def) (simp add: is_digit_def)+
  have "take 8 ?s \<noteq> js_infinity"
    using show_micros_shape [of "nat n"] by (cases ?s) (auto simp: js_infinity_def is_digit_def)
  moreover have "(of_nat (nat n) / 1000000 :: rat) = x"
    using assms(2) \<open>0 \<le> n\<close> by simp
  ultimately show ?thesis
    by (simp add: parseFloat_def show_eq sign parse_show_micros)
qed

end
