(* ===== verification/ImportExport.thy ===== *)
theory ImportExport
  imports JsString
begin

text \<open>
  Import and export of subscriptions, \<^verbatim>\<open>src/utils/importExport.ts\<close>: CSV parsing and printing, row
  validation and the plan of import actions. \<open>date_parse\<close> stands for \<open>Date.parse\<close> on free-form
  strings, whose formats the language leaves to the engine; the clock and generated ids are arguments; a
  thrown \<open>TypeError\<close> is a value. JSON documents and the history in device storage are not modelled.
\<close>

section \<open>Types\<close>

datatype SubscriptionCategory = STREAMING | SOFTWARE | GAMING | PRODUCTIVITY | FITNESS | EDUCATION | FINANCE | OTHER

fun category_name :: "SubscriptionCategory \<Rightarrow> string" where
  "category_name STREAMING = ''streaming''"
| "category_name SOFTWARE = ''software''"
| "category_name GAMING = ''gaming''"
| "category_name PRODUCTIVITY = ''productivity''"
| "category_name FITNESS = ''fitness''"
| "category_name EDUCATION = ''education''"
| "category_name FINANCE = ''finance''"
| "category_name OTHER = ''other''"

datatype BillingCycle = MONTHLY | YEARLY | WEEKLY | CUSTOM

fun cycle_name :: "BillingCycle \<Rightarrow> string" where
  "cycle_name MONTHLY = ''monthly''"
| "cycle_name YEARLY = ''yearly''"
| "cycle_name WEEKLY = ''weekly''"
| "cycle_name CUSTOM = ''custom''"

record SubscriptionInput =
  si_id :: "string option"
  si_externalId :: "string option"
  si_externalSource :: "string option"
  si_name :: "string option"
  si_description :: "string option"
  si_category :: "string option"
  si_price :: "jsnum option"
  si_currency :: "string option"
  si_billingCycle :: "string option"
  si_nextBillingDate :: "string option"
  si_isActive :: "bool option"
  si_notificationsEnabled :: "bool option"
  si_isCryptoEnabled :: "bool option"
  si_cryptoToken :: "string option"
  si_cryptoAmount :: "jsnum option"

definition empty_input :: SubscriptionInput where
  "empty_input = \<lparr>si_id = None, si_externalId = None, si_externalSource = None, si_name = None, si_description = None,
     si_category = None, si_price = None, si_currency = None, si_billingCycle = None, si_nextBillingDate = None,
     si_isActive = None, si_notificationsEnabled = None, si_isCryptoEnabled = None, si_cryptoToken = None,
     si_cryptoAmount = None\<rparr>"

text \<open>A subscription; \<open>None\<close> as its next billing date is an invalid \<open>Date\<close>.\<close>

record Subscription =
  sb_id :: string
  sb_name :: string
  sb_description :: "string option"
  sb_category :: SubscriptionCategory
  sb_price :: jsnum
  sb_currency :: string
  sb_billingCycle :: BillingCycle
  sb_nextBillingDate :: "int option"
  sb_isActive :: bool
  sb_notificationsEnabled :: "bool option"
  sb_isCryptoEnabled :: bool
  sb_cryptoToken :: "string option"
  sb_cryptoAmount :: "jsnum option"
  sb_externalId :: "string option"
  sb_externalSource :: "string option"
  sb_createdAt :: int
  sb_updatedAt :: int

datatype ImportMode = ModeCreate | ModeUpsert | ModeReplace

record ImportError =
  ie_row :: nat
  ie_field :: string
  ie_message :: string
  ie_value :: "string option"

datatype ImportAction = CreateAction nat Subscription | UpdateAction nat string Subscription

record ValidationResult =
  vr_isValid :: bool
  vr_errors :: "ImportError list"
  vr_warnings :: "ImportError list"
  vr_validRows :: "SubscriptionInput list"

record ImportResult =
  im_success :: bool
  im_imported :: nat
  im_updated :: nat
  im_failed :: nat
  im_errors :: "ImportError list"
  im_warnings :: "ImportError list"
  im_actions :: "ImportAction list"

definition VALID_CATEGORIES :: "SubscriptionCategory list" where
  "VALID_CATEGORIES = [STREAMING, SOFTWARE, GAMING, PRODUCTIVITY, FITNESS, EDUCATION, FINANCE, OTHER]"

definition VALID_BILLING_CYCLES :: "BillingCycle list" where
  "VALID_BILLING_CYCLES = [MONTHLY, YEARLY, WEEKLY, CUSTOM]"

definition VALID_CURRENCIES :: "string list" where
  "VALID_CURRENCIES = [''USD'', ''EUR'', ''GBP'', ''JPY'', ''CAD'', ''AUD'', ''CHF'', ''XLM'']"

section \<open>Normalisation\<close>

definition parseBoolean :: "string \<Rightarrow> bool" where
  "parseBoolean value = (js_trim (js_lower value) \<in> {''true'', ''1'', ''yes''})"

definition normalizeCategory :: "string \<Rightarrow> SubscriptionCategory" where
  "normalizeCategory value =
     (let normalized = js_trim (js_lower value)
      in case js_find (\<lambda>c. category_name c = normalized) VALID_CATEGORIES of
           Some c \<Rightarrow> c
         | None \<Rightarrow>
             (case js_find (\<lambda>c. js_includes (category_name c) normalized \<or> js_includes normalized (category_name c)) VALID_CATEGORIES of
                Some c \<Rightarrow> c | None \<Rightarrow> OTHER))"

definition cycleMap :: "(string \<times> BillingCycle) list" where
  "cycleMap = [(''month'', MONTHLY), (''year'', YEARLY), (''week'', WEEKLY), (''custom'', CUSTOM)]"

definition normalizeBillingCycle :: "string \<Rightarrow> BillingCycle" where
  "normalizeBillingCycle value =
     (let normalized = js_trim (js_lower value)
      in case js_find (\<lambda>c. cycle_name c = normalized) VALID_BILLING_CYCLES of
           Some c \<Rightarrow> c
         | None \<Rightarrow> (case js_find (\<lambda>(key, c). js_includes normalized key) cycleMap of Some (_, c) \<Rightarrow> c | None \<Rightarrow> MONTHLY))"

definition is_date_only :: "string \<Rightarrow> bool" where
  "is_date_only s \<longleftrightarrow> length s = 10 \<and> s ! 4 = CHR ''-'' \<and> s ! 7 = CHR ''-'' \<and>
     list_all is_digit (take 4 s) \<and> list_all is_digit (take 2 (drop 5 s)) \<and> list_all is_digit (drop 8 s)"

text \<open>\<open>new Date(n)\<close> truncates towards zero; beyond the range of dates, or for infinities, it is invalid.\<close>

definition date_of_number :: "rat \<Rightarrow> int option" where
  "date_of_number x = (let t = (if 0 \<le> x then \<lfloor>x\<rfloor> else \<lceil>x\<rceil>) in if \<bar>t\<bar> \<le> 8640000000000000 then Some t else None)"

definition parseDate :: "(string \<Rightarrow> int option) \<Rightarrow> int \<Rightarrow> string option \<Rightarrow> int option" where
  "parseDate date_parse now value =
     (case value of
        None \<Rightarrow> Some now
      | Some v \<Rightarrow>
          (let normalized = js_trim v
           in if normalized = '''' then Some now
              else case js_Number normalized of
                Fin x \<Rightarrow> date_of_number (if 13 \<le> length normalized then x else x * 1000)
              | Infinite _ \<Rightarrow> None
              | NaN \<Rightarrow>
                  (case date_parse normalized of
                     Some t \<Rightarrow> Some t
                   | None \<Rightarrow> if is_date_only normalized then date_parse (normalized @ ''T00:00:00Z'') else Some now)))"

text \<open>Reading \<open>toLowerCase\<close> of an absent category or cycle throws.\<close>

definition type_error :: string where
  "type_error = ''Cannot read properties of undefined''"

definition buildSubscriptionFromInput :: "(string \<Rightarrow> int option) \<Rightarrow> int \<Rightarrow> string \<Rightarrow> SubscriptionInput \<Rightarrow> Subscription option
    \<Rightarrow> string + Subscription" where
  "buildSubscriptionFromInput date_parse now uniqueId input existing =
     (case (si_category input, si_billingCycle input) of
        (Some category, Some cycle) \<Rightarrow>
          Inr \<lparr>sb_id = the_or (map_option sb_id existing) (the_or (si_id input) uniqueId),
            sb_name = the_or (si_name input) '''', sb_description = si_description input,
            sb_category = normalizeCategory category, sb_price = the_or (si_price input) NaN,
            sb_currency = or_default (map_option js_upper (si_currency input)) ''USD'',
            sb_billingCycle = normalizeBillingCycle cycle,
            sb_nextBillingDate = parseDate date_parse now (si_nextBillingDate input),
            sb_isActive = the_or (opt_or (si_isActive input) (map_option sb_isActive existing)) True,
            sb_notificationsEnabled = Some (the_or (opt_or (si_notificationsEnabled input)
              (Option.bind existing sb_notificationsEnabled)) True),
            sb_isCryptoEnabled = the_or (opt_or (si_isCryptoEnabled input) (map_option sb_isCryptoEnabled existing)) False,
            sb_cryptoToken = opt_or (si_cryptoToken input) (Option.bind existing sb_cryptoToken),
            sb_cryptoAmount = opt_or (si_cryptoAmount input) (Option.bind existing sb_cryptoAmount),
            sb_externalId = opt_or (si_externalId input) (Option.bind existing sb_externalId),
            sb_externalSource = opt_or (si_externalSource input) (Option.bind existing sb_externalSource),
            sb_createdAt = the_or (map_option sb_createdAt existing) now, sb_updatedAt = now\<rparr>
      | _ \<Rightarrow> Inl type_error)"

section \<open>Validation\<close>

definition mk_error :: "nat \<Rightarrow> string \<Rightarrow> string \<Rightarrow> string option \<Rightarrow> ImportError" where
  "mk_error row field message value = \<lparr>ie_row = row, ie_field = field, ie_message = message, ie_value = value\<rparr>"

fun show_jsnum :: "jsnum \<Rightarrow> string" where
  "show_jsnum NaN = ''NaN''"
| "show_jsnum (Infinite neg) = (if neg then ''-Infinity'' else ''Infinity'')"
| "show_jsnum (Fin x) = show_num x"

fun bad_price :: "jsnum \<Rightarrow> bool" where
  "bad_price NaN = True"
| "bad_price (Infinite neg) = neg"
| "bad_price (Fin x) = (x < 0)"

definition category_check :: "nat \<Rightarrow> string option \<Rightarrow> ImportError list \<times> ImportError list" where
  "category_check row value =
     (if \<not> truthy value then ([mk_error row ''category'' ''Category is required'' value], [])
      else if js_lower (the_or value '''') \<notin> set (map category_name VALID_CATEGORIES)
      then ([], [mk_error row ''category'' (''Invalid category \"'' @ the_or value '''' @ ''\", defaulting to \"other\"'') value])
      else ([], []))"

definition cycle_check :: "nat \<Rightarrow> string option \<Rightarrow> ImportError list \<times> ImportError list" where
  "cycle_check row value =
     (if \<not> truthy value then ([mk_error row ''billingCycle'' ''Billing cycle is required'' value], [])
      else if js_lower (the_or value '''') \<notin> set (map cycle_name VALID_BILLING_CYCLES)
      then ([], [mk_error row ''billingCycle'' (''Invalid billing cycle \"'' @ the_or value '''' @ ''\", defaulting to \"monthly\"'') value])
      else ([], []))"

definition currency_check :: "nat \<Rightarrow> string option \<Rightarrow> ImportError list" where
  "currency_check row value =
     (if truthy value \<and> js_upper (the_or value '''') \<notin> set VALID_CURRENCIES
      then [mk_error row ''currency'' (''Non-standard currency \"'' @ the_or value '''' @ ''\"'') value] else [])"

text \<open>The errors and warnings of one row, and whether the row is kept.\<close>

definition validate_row :: "(string \<Rightarrow> int option) \<Rightarrow> nat \<Rightarrow> SubscriptionInput
    \<Rightarrow> ImportError list \<times> ImportError list \<times> bool" where
  "validate_row date_parse row s =
     (if \<not> truthy (si_name s) \<or> js_trim (the_or (si_name s) '''') = ''''
      then ([mk_error row ''name'' ''Name is required'' (si_name s)], [], False)
      else case category_check row (si_category s) of
        (e1, w1) \<Rightarrow>
          (case si_price s of
             None \<Rightarrow> (e1 @ [mk_error row ''price'' ''Price is required'' (Some ''undefined'')], w1, False)
           | Some p \<Rightarrow>
               if bad_price p
               then (e1 @ [mk_error row ''price'' ''Price must be a valid positive number'' (Some (show_jsnum p))], w1, False)
               else (case cycle_check row (si_billingCycle s) of
                 (e2, w2) \<Rightarrow>
                   (let w3 = w1 @ w2 @ currency_check row (si_currency s)
                    in if truthy (si_nextBillingDate s) \<and> date_parse (the_or (si_nextBillingDate s) '''') = None
                       then (e1 @ e2 @ [mk_error row ''nextBillingDate'' ''Invalid date format'' (si_nextBillingDate s)], w3, False)
                       else (e1 @ e2,
                             w3 @ (if si_isCryptoEnabled s = Some True \<and> \<not> truthy (si_cryptoToken s)
                               then [mk_error row ''cryptoToken'' ''Crypto enabled but no token specified'' (si_cryptoToken s)] else []),
                             True)))))"

definition validate_step :: "(string \<Rightarrow> int option) \<Rightarrow> ValidationResult \<Rightarrow> nat \<times> SubscriptionInput \<Rightarrow> ValidationResult" where
  "validate_step date_parse v p =
     (case p of (index, s) \<Rightarrow>
        (case validate_row date_parse (index + 1) s of
           (es, ws, keep) \<Rightarrow>
             v\<lparr>vr_errors := vr_errors v @ es, vr_warnings := vr_warnings v @ ws,
               vr_validRows := (if keep then vr_validRows v @ [s] else vr_validRows v)\<rparr>))"

definition validateImport :: "(string \<Rightarrow> int option) \<Rightarrow> SubscriptionInput list \<Rightarrow> ValidationResult" where
  "validateImport date_parse subscriptions =
     (let v = foldl (validate_step date_parse) \<lparr>vr_isValid = True, vr_errors = [], vr_warnings = [], vr_validRows = []\<rparr>
            (enumerate 0 subscriptions)
      in v\<lparr>vr_isValid := (vr_errors v = [])\<rparr>)"

section \<open>The plan of an import\<close>

definition find_existing :: "Subscription obj \<Rightarrow> string option \<Rightarrow> Subscription option" where
  "find_existing m key = (case key of None \<Rightarrow> None | Some k \<Rightarrow> if k = '''' then None else map_of m k)"

text \<open>The three indices over the existing subscriptions.\<close>

record ExistingIndex =
  ex_byName :: "Subscription obj"
  ex_byId :: "Subscription obj"
  ex_byExternalId :: "Subscription obj"

definition index_existing :: "Subscription list \<Rightarrow> ExistingIndex" where
  "index_existing subs =
     foldl (\<lambda>ix sub. ix\<lparr>ex_byName := AList.update (js_lower (sb_name sub)) sub (ex_byName ix),
         ex_byId := (if sb_id sub \<noteq> '''' then AList.update (sb_id sub) sub (ex_byId ix) else ex_byId ix),
         ex_byExternalId := (if truthy (sb_externalId sub)
           then AList.update (the_or (sb_externalId sub) '''') sub (ex_byExternalId ix) else ex_byExternalId ix)\<rparr>)
       \<lparr>ex_byName = [], ex_byId = [], ex_byExternalId = []\<rparr> subs"

record ImportState =
  is_seenNames :: "string list"
  is_seenIds :: "string list"
  is_seenExternalIds :: "string list"
  is_actions :: "ImportAction list"
  is_errors :: "ImportError list"

definition plan_row :: "(string \<Rightarrow> int option) \<Rightarrow> int \<Rightarrow> (nat \<Rightarrow> string) \<Rightarrow> ImportMode \<Rightarrow> ExistingIndex \<Rightarrow> ImportState
    \<Rightarrow> nat \<times> SubscriptionInput \<Rightarrow> string + ImportState" where
  "plan_row date_parse now ids mode ix st p =
     (case p of (index, input) \<Rightarrow>
        (let row = index + 1; name = the_or (si_name input) ''''; normalizedName = js_trim (js_lower name)
         in if normalizedName \<in> set (is_seenNames st)
            then Inr (st\<lparr>is_errors := is_errors st @ [mk_error row ''name'' ''Duplicate subscription name found in import file'' (si_name input)]\<rparr>)
            else if truthy (si_id input) \<and> the_or (si_id input) '''' \<in> set (is_seenIds st)
            then Inr (st\<lparr>is_errors := is_errors st @ [mk_error row ''id'' ''Duplicate subscription id found in import file'' (si_id input)]\<rparr>)
            else if truthy (si_externalId input) \<and> the_or (si_externalId input) '''' \<in> set (is_seenExternalIds st)
            then Inr (st\<lparr>is_errors := is_errors st @ [mk_error row ''externalId'' ''Duplicate external id found in import file'' (si_externalId input)]\<rparr>)
            else
              (let st1 = st\<lparr>is_seenNames := normalizedName # is_seenNames st,
                     is_seenIds := (if truthy (si_id input) then the_or (si_id input) '''' # is_seenIds st else is_seenIds st),
                     is_seenExternalIds := (if truthy (si_externalId input)
                       then the_or (si_externalId input) '''' # is_seenExternalIds st else is_seenExternalIds st)\<rparr>;
                   byId = find_existing (ex_byId ix) (si_id input);
                   byExternalId = find_existing (ex_byExternalId ix) (si_externalId input);
                   existing = opt_or byId (opt_or byExternalId (map_of (ex_byName ix) normalizedName))
               in case (mode, existing) of
                    (ModeCreate, Some _) \<Rightarrow>
                      Inr (st1\<lparr>is_errors := is_errors st1 @
                        [mk_error row (if byId \<noteq> None then ''id'' else if byExternalId \<noteq> None then ''externalId'' else ''name'')
                           ''Duplicate subscription found; create mode skips existing items''
                           (if byId \<noteq> None then si_id input else Some (or_default (si_externalId input) name))]\<rparr>)
                  | (_, Some e) \<Rightarrow>
                      (case buildSubscriptionFromInput date_parse now (ids row) input (Some e) of
                         Inl err \<Rightarrow> Inl err
                       | Inr sub \<Rightarrow> Inr (st1\<lparr>is_actions := is_actions st1 @ [UpdateAction row (sb_id e) sub]\<rparr>))
                  | (_, None) \<Rightarrow>
                      (case buildSubscriptionFromInput date_parse now (ids row) input None of
                         Inl err \<Rightarrow> Inl err
                       | Inr sub \<Rightarrow> Inr (st1\<lparr>is_actions := is_actions st1 @ [CreateAction row sub]\<rparr>)))))"

fun plan_rows :: "(string \<Rightarrow> int option) \<Rightarrow> int \<Rightarrow> (nat \<Rightarrow> string) \<Rightarrow> ImportMode \<Rightarrow> ExistingIndex \<Rightarrow> ImportState
    \<Rightarrow> (nat \<times> SubscriptionInput) list \<Rightarrow> string + ImportState" where
  "plan_rows date_parse now ids mode ix st [] = Inr st"
| "plan_rows date_parse now ids mode ix st (p # ps) =
     (case plan_row date_parse now ids mode ix st p of
        Inl err \<Rightarrow> Inl err
      | Inr st1 \<Rightarrow> plan_rows date_parse now ids mode ix st1 ps)"

definition buildImportActions :: "(string \<Rightarrow> int option) \<Rightarrow> int \<Rightarrow> (nat \<Rightarrow> string) \<Rightarrow> ImportMode \<Rightarrow> SubscriptionInput list
    \<Rightarrow> Subscription list \<Rightarrow> string + (ImportAction list \<times> ImportError list \<times> ImportError list)" where
  "buildImportActions date_parse now ids mode subscriptions existing =
     (let validation = validateImport date_parse subscriptions
      in case plan_rows date_parse now ids mode (index_existing existing)
              \<lparr>is_seenNames = [], is_seenIds = [], is_seenExternalIds = [], is_actions = [], is_errors = vr_errors validation\<rparr>
              (enumerate 0 (vr_validRows validation)) of
           Inl err \<Rightarrow> Inl err
         | Inr st \<Rightarrow> Inr (is_actions st, is_errors st, vr_warnings validation))"

fun is_create :: "ImportAction \<Rightarrow> bool" where
  "is_create (CreateAction _ _) = True"
| "is_create (UpdateAction _ _ _) = False"

definition processImport :: "(string \<Rightarrow> int option) \<Rightarrow> int \<Rightarrow> (nat \<Rightarrow> string) \<Rightarrow> ImportMode \<Rightarrow> SubscriptionInput list
    \<Rightarrow> Subscription list \<Rightarrow> string + ImportResult" where
  "processImport date_parse now ids mode subscriptions existing =
     (case buildImportActions date_parse now ids mode subscriptions existing of
        Inl err \<Rightarrow> Inl err
      | Inr (actions, errors, warnings) \<Rightarrow>
          Inr \<lparr>im_success = (errors = []), im_imported = length (filter is_create actions),
            im_updated = length (filter (\<lambda>a. \<not> is_create a) actions), im_failed = length errors,
            im_errors = errors, im_warnings = warnings, im_actions = actions\<rparr>)"


section \<open>Validation keeps the rows that pass\<close>

definition row_ok :: "(string \<Rightarrow> int option) \<Rightarrow> SubscriptionInput \<Rightarrow> bool" where
  "row_ok date_parse s \<longleftrightarrow> truthy (si_name s) \<and> js_trim (the_or (si_name s) '''') \<noteq> '''' \<and>
     \<not> bad_price (the_or (si_price s) NaN) \<and>
     \<not> (truthy (si_nextBillingDate s) \<and> date_parse (the_or (si_nextBillingDate s) '''') = None)"

lemma validate_row_keeps: "snd (snd (validate_row date_parse row s)) = row_ok date_parse s"
proof (cases "si_price s")
  case None
  then show ?thesis by (simp add: validate_row_def row_ok_def split: prod.split)
next
  case (Some p)
  obtain e1 w1 where c: "category_check row (si_category s) = (e1, w1)" by fastforce
  obtain e2 w2 where b: "cycle_check row (si_billingCycle s) = (e2, w2)" by fastforce
  define late where "late = (truthy (si_nextBillingDate s) \<and> date_parse (the_or (si_nextBillingDate s) '''') = None)"
  show ?thesis
    unfolding validate_row_def row_ok_def Let_def Some late_def [symmetric] c b prod.case option.case
    by (simp only: the_or_simps if_distrib [of snd] if_distrib [of "\<lambda>p. snd (snd p)"] snd_conv split: if_split) blast
qed

lemma validate_step_keeps:
  "vr_validRows (validate_step date_parse v (n, s)) = vr_validRows v @ (if row_ok date_parse s then [s] else [])"
proof -
  obtain es ws keep where r: "validate_row date_parse (n + 1) s = (es, ws, keep)" by (metis prod_cases3)
  then have "keep = row_ok date_parse s" using validate_row_keeps [of date_parse "n + 1" s] by simp
  then show ?thesis using r by (simp add: validate_step_def)
qed

lemma validate_fold:
  "vr_validRows (foldl (validate_step date_parse) v (enumerate n subs)) = vr_validRows v @ filter (row_ok date_parse) subs"
  by (induction subs arbitrary: n v) (simp_all add: validate_step_keeps)

lemma valid_rows: "vr_validRows (validateImport date_parse subs) = filter (row_ok date_parse) subs"
  by (simp add: validateImport_def Let_def validate_fold)

section \<open>One row of the plan\<close>

definition norm_name :: "SubscriptionInput \<Rightarrow> string" where
  "norm_name s = js_trim (js_lower (the_or (si_name s) ''''))"

definition indexed :: "ExistingIndex \<Rightarrow> Subscription \<Rightarrow> bool" where
  "indexed ix e \<longleftrightarrow> e \<in> snd ` (set (ex_byName ix) \<union> set (ex_byId ix) \<union> set (ex_byExternalId ix))"

fun action_sub :: "ImportAction \<Rightarrow> Subscription" where
  "action_sub (CreateAction _ s) = s"
| "action_sub (UpdateAction _ _ s) = s"

text \<open>An action planned for an input: built from it, creating, or updating an indexed subscription.\<close>

definition planned :: "(string \<Rightarrow> int option) \<Rightarrow> int \<Rightarrow> (nat \<Rightarrow> string) \<Rightarrow> ImportMode \<Rightarrow> ExistingIndex \<Rightarrow> nat \<Rightarrow> SubscriptionInput
    \<Rightarrow> ImportAction \<Rightarrow> bool" where
  "planned date_parse now ids mode ix row input a \<longleftrightarrow>
     (buildSubscriptionFromInput date_parse now (ids row) input None = Inr (action_sub a) \<and> a = CreateAction row (action_sub a)) \<or>
     (\<exists>e. mode \<noteq> ModeCreate \<and> indexed ix e \<and> a = UpdateAction row (sb_id e) (action_sub a) \<and>
        buildSubscriptionFromInput date_parse now (ids row) input (Some e) = Inr (action_sub a))"

lemma find_existing_indexed:
  "find_existing (ex_byId ix) k = Some e \<Longrightarrow> indexed ix e"
  "find_existing (ex_byExternalId ix) k = Some e \<Longrightarrow> indexed ix e"
  "map_of (ex_byName ix) n = Some e \<Longrightarrow> indexed ix e"
  by (auto simp: find_existing_def indexed_def split: option.splits if_splits dest!: map_of_SomeD intro: rev_image_eqI)

definition match_existing :: "ExistingIndex \<Rightarrow> SubscriptionInput \<Rightarrow> Subscription option" where
  "match_existing ix input = opt_or (find_existing (ex_byId ix) (si_id input))
     (opt_or (find_existing (ex_byExternalId ix) (si_externalId input)) (map_of (ex_byName ix) (norm_name input)))"

lemma match_indexed: "match_existing ix input = Some e \<Longrightarrow> indexed ix e"
  using find_existing_indexed by (auto simp: match_existing_def opt_or_def split: option.splits)

lemma plan_row_cases:
  assumes "plan_row date_parse now ids mode ix st (n, input) = Inr st'"
  shows "(is_actions st' = is_actions st \<and> (\<exists>e. is_errors st' = is_errors st @ [e]) \<and>
        set (is_seenNames st) \<subseteq> set (is_seenNames st')) \<or>
     (\<exists>a. is_actions st' = is_actions st @ [a] \<and> is_errors st' = is_errors st \<and>
        norm_name input \<notin> set (is_seenNames st) \<and> is_seenNames st' = norm_name input # is_seenNames st \<and>
        planned date_parse now ids mode ix (n + 1) input a)"
proof -
  let ?dup = "norm_name input \<in> set (is_seenNames st)
    \<or> (truthy (si_id input) \<and> the_or (si_id input) '''' \<in> set (is_seenIds st))
    \<or> (truthy (si_externalId input) \<and> the_or (si_externalId input) '''' \<in> set (is_seenExternalIds st))"
  show ?thesis
  proof (cases ?dup)
    case True
    then show ?thesis using assms by (auto simp: plan_row_def Let_def norm_name_def split: if_splits)
  next
    case False
    note nodup = False
    define M where "M = match_existing ix input"
    show ?thesis
    proof (cases M)
      case None
      then have "match_existing ix input = None" by (simp add: M_def)
      then show ?thesis using assms nodup
        by (auto simp: plan_row_def Let_def norm_name_def match_existing_def planned_def
            split: sum.splits ImportMode.splits)
    next
      case (Some e)
      then have m: "match_existing ix input = Some e" by (simp add: M_def)
      show ?thesis
      proof (cases "mode = ModeCreate")
        case True
        then show ?thesis using assms nodup m
          by (auto simp: plan_row_def Let_def norm_name_def match_existing_def)
      next
        case False
        then obtain sub where "buildSubscriptionFromInput date_parse now (ids (n + 1)) input (Some e) = Inr sub"
          "is_actions st' = is_actions st @ [UpdateAction (n + 1) (sb_id e) sub]" "is_errors st' = is_errors st"
          "is_seenNames st' = norm_name input # is_seenNames st"
          using assms nodup m
          by (cases mode) (auto simp: plan_row_def Let_def norm_name_def match_existing_def split: sum.splits)
        then show ?thesis using False nodup match_indexed [OF m] by (auto simp: planned_def)
      qed
    qed
  qed
qed


section \<open>The whole plan\<close>

lemma existing_indexed:
  "\<forall>e. indexed (index_existing subs) e \<longrightarrow> e \<in> set subs"
proof -
  have upd: "snd ` set (AList.update k v m) \<subseteq> insert v (snd ` set m)" for k :: string and v :: Subscription and m
    by (induction m) auto
  define step where "step = (\<lambda>(ix :: ExistingIndex) sub. ix\<lparr>ex_byName := AList.update (js_lower (sb_name sub)) sub (ex_byName ix),
         ex_byId := (if sb_id sub \<noteq> '''' then AList.update (sb_id sub) sub (ex_byId ix) else ex_byId ix),
         ex_byExternalId := (if truthy (sb_externalId sub)
           then AList.update (the_or (sb_externalId sub) '''') sub (ex_byExternalId ix) else ex_byExternalId ix)\<rparr>)"
  have one: "e = s \<or> indexed ix e" if "indexed (step ix s) e" for ix s e
  proof -
    have "ex_byName (step ix s) = AList.update (js_lower (sb_name s)) s (ex_byName ix)"
      "ex_byId (step ix s) = (if sb_id s \<noteq> '''' then AList.update (sb_id s) s (ex_byId ix) else ex_byId ix)"
      "ex_byExternalId (step ix s) = (if truthy (sb_externalId s)
         then AList.update (the_or (sb_externalId s) '''') s (ex_byExternalId ix) else ex_byExternalId ix)"
      by (simp_all add: step_def)
    then have "snd ` set (ex_byName (step ix s)) \<subseteq> insert s (snd ` set (ex_byName ix))"
      "snd ` set (ex_byId (step ix s)) \<subseteq> insert s (snd ` set (ex_byId ix))"
      "snd ` set (ex_byExternalId (step ix s)) \<subseteq> insert s (snd ` set (ex_byExternalId ix))"
      using upd by (simp_all add: subset_insertI)
    then show ?thesis using that unfolding indexed_def image_Un by blast
  qed
  have fold: "indexed (foldl step ix subs) e \<Longrightarrow> e \<in> set subs \<or> indexed ix e" for ix e
  proof (induction subs arbitrary: ix)
    case (Cons s subs)
    then show ?case using one [of ix s e] by auto
  qed simp
  have "\<not> indexed \<lparr>ex_byName = [], ex_byId = [], ex_byExternalId = []\<rparr> e" for e by (simp add: indexed_def)
  then show ?thesis using fold unfolding index_existing_def step_def by blast
qed

text \<open>What a plan over the rows keeps: each row gives an action or an error, and the names acted on are distinct.\<close>

definition plan_inv :: "nat \<Rightarrow> (ImportAction \<Rightarrow> string \<Rightarrow> bool) \<Rightarrow> ImportState \<Rightarrow> bool" where
  "plan_inv n P st \<longleftrightarrow> length (is_actions st) + length (is_errors st) = n \<and>
     (\<exists>names. distinct names \<and> set names \<subseteq> set (is_seenNames st) \<and> list_all2 P (is_actions st) names)"

lemma plan_row_inv:
  assumes "plan_row date_parse now ids mode ix st (i, input) = Inr st'" "plan_inv n P st"
    "\<And>a. planned date_parse now ids mode ix (i + 1) input a \<Longrightarrow> P a (norm_name input)"
  shows "plan_inv (n + 1) P st'"
proof -
  obtain names where nm: "distinct names" "set names \<subseteq> set (is_seenNames st)" "list_all2 P (is_actions st) names"
    and len: "length (is_actions st) + length (is_errors st) = n"
    using assms(2) by (auto simp: plan_inv_def)
  from plan_row_cases [OF assms(1)] show ?thesis
  proof
    assume e: "is_actions st' = is_actions st \<and> (\<exists>e. is_errors st' = is_errors st @ [e]) \<and>
      set (is_seenNames st) \<subseteq> set (is_seenNames st')"
    have "set names \<subseteq> set (is_seenNames st')" using e nm(2) by blast
    moreover have "length (is_actions st') + length (is_errors st') = n + 1" using e len by auto
    moreover have "list_all2 P (is_actions st') names" using e nm(3) by simp
    ultimately show ?thesis using nm(1) unfolding plan_inv_def by blast
  next
    assume "\<exists>a. is_actions st' = is_actions st @ [a] \<and> is_errors st' = is_errors st \<and>
      norm_name input \<notin> set (is_seenNames st) \<and> is_seenNames st' = norm_name input # is_seenNames st \<and>
      planned date_parse now ids mode ix (i + 1) input a"
    then obtain a where a: "is_actions st' = is_actions st @ [a]" "is_errors st' = is_errors st"
      "norm_name input \<notin> set (is_seenNames st)" "is_seenNames st' = norm_name input # is_seenNames st" "P a (norm_name input)"
      using assms(3) by blast
    have "list_all2 P (is_actions st') (names @ [norm_name input])"
      unfolding a(1) by (rule list_all2_appendI [OF nm(3)]) (simp add: a(5))
    moreover have "distinct (names @ [norm_name input])" "set (names @ [norm_name input]) \<subseteq> set (is_seenNames st')"
      using nm(1,2) a(3,4) by auto
    moreover have "length (is_actions st') + length (is_errors st') = n + 1" using len a(1,2) by simp
    ultimately show ?thesis unfolding plan_inv_def by blast  qed
qed

lemma plan_rows_inv:
  assumes "plan_rows date_parse now ids mode ix st (enumerate i rows) = Inr st'" "plan_inv n P st"
    "\<And>j input a. input \<in> set rows \<Longrightarrow> planned date_parse now ids mode ix j input a \<Longrightarrow> P a (norm_name input)"
  shows "plan_inv (n + length rows) P st'"
  using assms
proof (induction rows arbitrary: i st n)
  case (Cons input rows)
  from Cons.prems(1) obtain st1 where st1: "plan_row date_parse now ids mode ix st (i, input) = Inr st1"
    "plan_rows date_parse now ids mode ix st1 (enumerate (Suc i) rows) = Inr st'"
    by (auto split: sum.splits)
  have "plan_inv (n + 1) P st1"
    by (rule plan_row_inv [OF st1(1) Cons.prems(2)]) (use Cons.prems(3) in auto)
  then have "plan_inv (n + 1 + length rows) P st'"
    by (rule Cons.IH [OF st1(2)]) (use Cons.prems(3) in auto)
  then show ?case by simp
qed simp


lemma upper_idem: "js_upper (js_upper s) = js_upper s"
proof -
  have "upper_char (upper_char c) = upper_char c" for c
  proof (cases "upper_char c = c")
    case False
    define n where "n = (of_char c :: nat)"
    have r: "(97 \<le> n \<and> n \<le> 122) \<or> (224 \<le> n \<and> n \<le> 254 \<and> n \<noteq> 247)"
      using False by (auto simp: upper_char_def Let_def n_def split: if_splits)
    then have u: "upper_char c = char_of (n - 32)" by (simp add: upper_char_def Let_def n_def)
    have "n - 32 < 256" using r by auto
    then have "(of_char (char_of (n - 32) :: char) :: nat) = n - 32" by (simp only: of_char_of mod_less)
    then show ?thesis using r unfolding u by (auto simp: upper_char_def Let_def)
  qed simp
  then show ?thesis by (simp add: js_upper_def)
qed

definition well_typed :: "int \<Rightarrow> Subscription \<Rightarrow> bool" where
  "well_typed now s \<longleftrightarrow> js_trim (sb_name s) \<noteq> '''' \<and> \<not> bad_price (sb_price s) \<and> sb_currency s \<noteq> '''' \<and>
     js_upper (sb_currency s) = sb_currency s \<and> sb_notificationsEnabled s \<noteq> None \<and> sb_updatedAt s = now"

lemma build_fields:
  assumes "buildSubscriptionFromInput date_parse now uid input existing = Inr s"
  shows "sb_id s = the_or (map_option sb_id existing) (the_or (si_id input) uid)"
    "sb_name s = the_or (si_name input) ''''" "sb_price s = the_or (si_price input) NaN"
    "sb_currency s = or_default (map_option js_upper (si_currency input)) ''USD''"
    "sb_notificationsEnabled s \<noteq> None" "sb_updatedAt s = now"
    "sb_createdAt s = the_or (map_option sb_createdAt existing) now"
  using assms by (auto simp: buildSubscriptionFromInput_def split: option.splits)

lemma build_well_typed:
  assumes "buildSubscriptionFromInput date_parse now uid input existing = Inr s" "row_ok date_parse input"
  shows "well_typed now s \<and> js_trim (js_lower (sb_name s)) = norm_name input"
proof -
  have usd: "js_upper ''USD'' = ''USD''" by code_simp
  have "js_upper (sb_currency s) = sb_currency s \<and> sb_currency s \<noteq> ''''"
    unfolding build_fields(4) [OF assms(1)]
    by (cases "si_currency input") (simp_all add: or_default_def upper_idem usd)
  then show ?thesis using assms(2) build_fields(2,3,5,6) [OF assms(1)]
    by (simp add: well_typed_def row_ok_def norm_name_def)
qed

text \<open>An action keeps the identity of what it touches: an update names an existing subscription and carries its id
  and creation time; a new subscription is created now. In create mode there are no updates.\<close>

fun keeps_identity :: "int \<Rightarrow> ImportMode \<Rightarrow> Subscription list \<Rightarrow> ImportAction \<Rightarrow> bool" where
  "keeps_identity now mode existing (CreateAction row s) = (sb_createdAt s = now)"
| "keeps_identity now mode existing (UpdateAction row i s) =
     (mode \<noteq> ModeCreate \<and> sb_id s = i \<and> list_ex (\<lambda>e. sb_id e = i \<and> sb_createdAt e = sb_createdAt s) existing)"

definition good_action :: "int \<Rightarrow> ImportMode \<Rightarrow> Subscription list \<Rightarrow> ImportAction \<Rightarrow> string \<Rightarrow> bool" where
  "good_action now mode existing a name \<longleftrightarrow> well_typed now (action_sub a) \<and> keeps_identity now mode existing a \<and>
     js_trim (js_lower (sb_name (action_sub a))) = name"

lemma planned_good:
  assumes "planned date_parse now ids mode (index_existing existing) row input a" "row_ok date_parse input"
  shows "good_action now mode existing a (norm_name input)"
  using assms(1) unfolding planned_def
proof
  assume c: "buildSubscriptionFromInput date_parse now (ids row) input None = Inr (action_sub a) \<and> a = CreateAction row (action_sub a)"
  then have "sb_createdAt (action_sub a) = now" using build_fields(7) [of date_parse now "ids row" input None] by simp
  then have "keeps_identity now mode existing (CreateAction row (action_sub a))" by simp
  then show ?thesis using build_well_typed [OF _ assms(2)] c unfolding good_action_def by metis
next
  assume "\<exists>e. mode \<noteq> ModeCreate \<and> indexed (index_existing existing) e \<and> a = UpdateAction row (sb_id e) (action_sub a) \<and>
    buildSubscriptionFromInput date_parse now (ids row) input (Some e) = Inr (action_sub a)"
  then obtain e where e: "mode \<noteq> ModeCreate" "e \<in> set existing" "a = UpdateAction row (sb_id e) (action_sub a)"
    "buildSubscriptionFromInput date_parse now (ids row) input (Some e) = Inr (action_sub a)"
    using existing_indexed by blast
  have "keeps_identity now mode existing (UpdateAction row (sb_id e) (action_sub a))"
    using e(1,2) build_fields(1,7) [OF e(4)] by (auto simp: list_ex_iff)
  then show ?thesis using build_well_typed [OF e(4) assms(2)] e(3) unfolding good_action_def by metis
qed

lemma import_plan:
  assumes "processImport date_parse now ids mode subs existing = Inr r"
  shows "length (im_actions r) + im_failed r = length (vr_errors (validateImport date_parse subs)) + length (filter (row_ok date_parse) subs)"
    "\<exists>names. distinct names \<and> list_all2 (good_action now mode existing) (im_actions r) names"
    "im_imported r + im_updated r = length (im_actions r)" "im_success r \<longleftrightarrow> im_failed r = 0"
proof -
  let ?v = "validateImport date_parse subs"
  define st0 where "st0 = \<lparr>is_seenNames = [], is_seenIds = [], is_seenExternalIds = [], is_actions = [], is_errors = vr_errors ?v\<rparr>"
  obtain st where st: "plan_rows date_parse now ids mode (index_existing existing) st0 (enumerate 0 (vr_validRows ?v)) = Inr st"
    and r: "im_actions r = is_actions st" "im_failed r = length (is_errors st)" "im_success r = (is_errors st = [])"
    "im_imported r = length (filter is_create (is_actions st))"
    "im_updated r = length (filter (\<lambda>a. \<not> is_create a) (is_actions st))"
    using assms by (auto simp: processImport_def buildImportActions_def Let_def st0_def split: sum.splits)
  have "plan_inv (length (vr_errors ?v)) (good_action now mode existing) st0"
    by (simp add: plan_inv_def st0_def)
  then have "plan_inv (length (vr_errors ?v) + length (vr_validRows ?v)) (good_action now mode existing) st"
    by (rule plan_rows_inv [OF st]) (use planned_good valid_rows in fastforce)
  then show "length (im_actions r) + im_failed r = length (vr_errors ?v) + length (filter (row_ok date_parse) subs)"
    "\<exists>names. distinct names \<and> list_all2 (good_action now mode existing) (im_actions r) names"
    by (auto simp: plan_inv_def r valid_rows)
  show "im_imported r + im_updated r = length (im_actions r)"
    unfolding r by (rule sum_length_filter_compl)
  show "im_success r \<longleftrightarrow> im_failed r = 0" by (simp add: r)
qed


lemma good_actions_all: "list_all2 (good_action now mode existing) acts names \<Longrightarrow>
    list_all (\<lambda>a. well_typed now (action_sub a) \<and> keeps_identity now mode existing a) acts \<and>
    names = map (\<lambda>a. js_trim (js_lower (sb_name (action_sub a)))) acts"
  by (induction acts names rule: list_all2_induct) (simp_all add: good_action_def)

section \<open>Properties\<close>

text \<open>C21: Every subscription an import creates or updates is well typed, whatever the file held: a name that is not
  blank, a price that is a number and not negative, a currency in capitals, notifications set, and the time of
  the import as its update time.\<close>

theorem imports_are_well_typed:
  assumes "processImport date_parse now ids mode subs existing = Inr r"
  shows "list_all (\<lambda>a. well_typed now (action_sub a)) (im_actions r)"
  using import_plan(2) [OF assms] good_actions_all by (metis (no_types, lifting) list_all_iff)

definition netflix :: SubscriptionInput where
  "netflix = empty_input\<lparr>si_name := Some ''Netflix'', si_category := Some ''Streaming'', si_price := Some (Fin (1599 / 100)),
     si_currency := Some ''usd'', si_billingCycle := Some ''monthly''\<rparr>"

definition stored :: Subscription where
  "stored = \<lparr>sb_id = ''s1'', sb_name = ''Netflix'', sb_description = None, sb_category = OTHER, sb_price = Fin 9,
     sb_currency = ''EUR'', sb_billingCycle = YEARLY, sb_nextBillingDate = Some 0, sb_isActive = False,
     sb_notificationsEnabled = None, sb_isCryptoEnabled = False, sb_cryptoToken = None, sb_cryptoAmount = None,
     sb_externalId = None, sb_externalSource = None, sb_createdAt = 3, sb_updatedAt = 4\<rparr>"

definition merged :: Subscription where
  "merged = stored\<lparr>sb_category := STREAMING, sb_price := Fin (1599 / 100), sb_currency := ''USD'', sb_billingCycle := MONTHLY,
     sb_nextBillingDate := Some 7, sb_notificationsEnabled := Some True, sb_updatedAt := 7\<rparr>"

lemma netflix_upsert:
  "processImport (\<lambda>_. None) 7 (\<lambda>_. ''u'') ModeUpsert [netflix, netflix] [stored] =
     Inr \<lparr>im_success = False, im_imported = 0, im_updated = 1, im_failed = 1,
       im_errors = [mk_error 2 ''name'' ''Duplicate subscription name found in import file'' (Some ''Netflix'')],
       im_warnings = [], im_actions = [UpdateAction 1 ''s1'' merged]\<rparr>"
  by code_simp

theorem imports_are_well_typed_witness:
  "list_all (\<lambda>a. well_typed 7 (action_sub a)) [UpdateAction 1 ''s1'' merged]"
  using imports_are_well_typed [OF netflix_upsert] by simp

text \<open>An import accounts for every row: each row that passes validation gives exactly one action or one error, the
  counts of the result are those of its actions, success means no error at all, and no two actions share a name.\<close>

theorem import_accounts_for_rows:
  assumes "processImport date_parse now ids mode subs existing = Inr r"
  shows "im_imported r + im_updated r = length (im_actions r) \<and>
    length (im_actions r) + im_failed r =
      length (vr_errors (validateImport date_parse subs)) + length (filter (row_ok date_parse) subs) \<and>
    (im_success r \<longleftrightarrow> im_failed r = 0) \<and>
    distinct (map (\<lambda>a. js_trim (js_lower (sb_name (action_sub a)))) (im_actions r))"
proof -
  obtain names where "distinct names" "list_all2 (good_action now mode existing) (im_actions r) names"
    using import_plan(2) [OF assms] by blast
  then have "distinct (map (\<lambda>a. js_trim (js_lower (sb_name (action_sub a)))) (im_actions r))"
    using good_actions_all by metis
  then show ?thesis using import_plan(1,3,4) [OF assms] by (intro conjI)
qed

theorem import_accounts_for_rows_witness:
  "length [UpdateAction 1 ''s1'' merged] + 1 =
     length (vr_errors (validateImport (\<lambda>_. None) [netflix, netflix])) + length (filter (row_ok (\<lambda>_. None)) [netflix, netflix])"
  using import_accounts_for_rows [OF netflix_upsert] by simp

text \<open>An import never takes over an identity: an update names a subscription that is in the store and keeps its id
  and creation time, a new subscription is created at the time of the import, and in create mode nothing that
  exists is updated.\<close>

theorem import_keeps_identities:
  assumes "processImport date_parse now ids mode subs existing = Inr r"
  shows "list_all (keeps_identity now mode existing) (im_actions r)"
  using import_plan(2) [OF assms] good_actions_all by (metis (no_types, lifting) list_all_iff)

theorem import_keeps_identities_witness:
  "keeps_identity 7 ModeUpsert [stored] (UpdateAction 1 ''s1'' merged)"
  using import_keeps_identities [OF netflix_upsert] by simp

text \<open>A row without a category (or billing cycle) is reported by the validation yet kept; the plan then reads
  the missing text and throws, so that one such row, first in the file, takes the whole import down.\<close>

theorem missing_category_aborts_import:
  assumes "row_ok date_parse s" "si_category s = None \<or> si_billingCycle s = None" "mode \<noteq> ModeCreate"
  shows "processImport date_parse now ids mode (s # rows) existing = Inl type_error \<and>
    vr_errors (validateImport date_parse [s]) \<noteq> []"
proof -
  have b: "buildSubscriptionFromInput date_parse now (ids 1) s ex = Inl type_error" for ex
    using assms(2) by (auto simp: buildSubscriptionFromInput_def split: option.splits)
  define ix where "ix = index_existing existing"
  define es where "es = vr_errors (validateImport date_parse (s # rows))"
  define st0 where "st0 = \<lparr>is_seenNames = [], is_seenIds = [], is_seenExternalIds = [], is_actions = [], is_errors = es\<rparr>"
  have "plan_row date_parse now ids mode ix st0 (0, s) = Inl type_error"
    using assms(3) b by (cases mode) (simp_all add: plan_row_def st0_def Let_def split: option.split)
  moreover have "vr_validRows (validateImport date_parse (s # rows)) = s # filter (row_ok date_parse) rows"
    using assms(1) by (simp add: valid_rows)
  ultimately have "buildImportActions date_parse now ids mode (s # rows) existing = Inl type_error"
    by (simp add: buildImportActions_def Let_def ix_def st0_def es_def)
  moreover have "vr_errors (validateImport date_parse [s]) \<noteq> []"
    using assms(1,2) by (cases "si_price s")
      (auto simp: validateImport_def validate_step_def validate_row_def row_ok_def category_check_def cycle_check_def Let_def
        truthy_def split: option.splits)
  ultimately show ?thesis by (simp add: processImport_def)
qed

theorem missing_category_aborts_import_witness:
  "processImport (\<lambda>_. None) 7 (\<lambda>_. ''u'') ModeUpsert [netflix\<lparr>si_category := None\<rparr>, netflix] [] = Inl type_error"
proof -
  have "row_ok (\<lambda>_. None) (netflix\<lparr>si_category := None\<rparr>)" by code_simp
  then show ?thesis
    using missing_category_aborts_import [of "\<lambda>_. None" "netflix\<lparr>si_category := None\<rparr>" ModeUpsert 7 "\<lambda>_. ''u''" "[netflix]" "[]"]
    by simp
qed

end
