(* ===== verification/CsvFormat.thy ===== *)
theory CsvFormat
  imports ImportExport
begin

text \<open>
  The CSV form of subscriptions, \<^verbatim>\<open>src/utils/importExport.ts\<close> (\<open>parseCSV\<close>, \<open>parseCSVLine\<close>,
  \<open>generateCSV\<close>), and its round trip: what \<open>generateCSV\<close> prints, \<open>parseCSV\<close> reads back, for
  subscriptions whose texts are trimmed and hold no line feed and whose amounts are whole millionths.
\<close>

section \<open>CSV\<close>

text \<open>The columns of the file, the field each one fills and how its text is read.\<close>

datatype CsvField = F_name | F_description | F_category | F_price | F_currency | F_billingCycle | F_nextBillingDate
  | F_isActive | F_notificationsEnabled | F_isCryptoEnabled | F_cryptoToken | F_cryptoAmount | F_externalId

datatype FieldValue = Undefined | Str string | Num jsnum | Boolean bool | DateValue "int option"

record ColumnMapping =
  cm_csvColumn :: string
  cm_fieldName :: CsvField
  cm_required :: bool
  cm_transform :: "(string \<Rightarrow> FieldValue) option"

definition CSV_COLUMN_MAPPING :: "ColumnMapping list" where
  "CSV_COLUMN_MAPPING =
     [\<lparr>cm_csvColumn = ''name'', cm_fieldName = F_name, cm_required = True, cm_transform = None\<rparr>,
      \<lparr>cm_csvColumn = ''description'', cm_fieldName = F_description, cm_required = False, cm_transform = None\<rparr>,
      \<lparr>cm_csvColumn = ''category'', cm_fieldName = F_category, cm_required = True, cm_transform = None\<rparr>,
      \<lparr>cm_csvColumn = ''price'', cm_fieldName = F_price, cm_required = True, cm_transform = Some (Num \<circ> parseFloat)\<rparr>,
      \<lparr>cm_csvColumn = ''currency'', cm_fieldName = F_currency, cm_required = False, cm_transform = None\<rparr>,
      \<lparr>cm_csvColumn = ''billingCycle'', cm_fieldName = F_billingCycle, cm_required = True, cm_transform = None\<rparr>,
      \<lparr>cm_csvColumn = ''nextBillingDate'', cm_fieldName = F_nextBillingDate, cm_required = True, cm_transform = None\<rparr>,
      \<lparr>cm_csvColumn = ''isActive'', cm_fieldName = F_isActive, cm_required = False, cm_transform = Some (Boolean \<circ> parseBoolean)\<rparr>,
      \<lparr>cm_csvColumn = ''notificationsEnabled'', cm_fieldName = F_notificationsEnabled, cm_required = False,
        cm_transform = Some (Boolean \<circ> parseBoolean)\<rparr>,
      \<lparr>cm_csvColumn = ''isCryptoEnabled'', cm_fieldName = F_isCryptoEnabled, cm_required = False,
        cm_transform = Some (Boolean \<circ> parseBoolean)\<rparr>,
      \<lparr>cm_csvColumn = ''cryptoToken'', cm_fieldName = F_cryptoToken, cm_required = False, cm_transform = None\<rparr>,
      \<lparr>cm_csvColumn = ''cryptoAmount'', cm_fieldName = F_cryptoAmount, cm_required = False, cm_transform = Some (Num \<circ> parseFloat)\<rparr>,
      \<lparr>cm_csvColumn = ''externalId'', cm_fieldName = F_externalId, cm_required = False, cm_transform = None\<rparr>]"

definition parseSubscriptionField :: "CsvField \<Rightarrow> string \<Rightarrow> FieldValue" where
  "parseSubscriptionField field rawValue =
     (let trimmed = js_trim rawValue
      in if trimmed = '''' then Undefined
         else case field of
           F_price \<Rightarrow> Num (js_Number trimmed)
         | F_cryptoAmount \<Rightarrow> Num (js_Number trimmed)
         | F_isActive \<Rightarrow> Boolean (parseBoolean trimmed)
         | F_notificationsEnabled \<Rightarrow> Boolean (parseBoolean trimmed)
         | F_isCryptoEnabled \<Rightarrow> Boolean (parseBoolean trimmed)
         | _ \<Rightarrow> Str trimmed)"

text \<open>One line: quotes toggle, a doubled quote inside quotes is one, commas outside quotes separate.\<close>

fun parse_cells :: "bool \<Rightarrow> string \<Rightarrow> string \<Rightarrow> string list" where
  "parse_cells inQuotes current [] = [js_trim current]"
| "parse_cells inQuotes current (c # cs) =
     (if c = CHR ''\"'' then
        (if inQuotes \<and> cs \<noteq> [] \<and> hd cs = CHR ''\"'' then parse_cells inQuotes (current @ [c]) (tl cs)
         else parse_cells (\<not> inQuotes) current cs)
      else if c = CHR '','' \<and> \<not> inQuotes then js_trim current # parse_cells inQuotes [] cs
      else parse_cells inQuotes (current @ [c]) cs)"

definition parseCSVLine :: "string \<Rightarrow> string list" where
  "parseCSVLine line = parse_cells False [] line"

fun as_string :: "FieldValue \<Rightarrow> string option" where
  "as_string (Str s) = Some s"
| "as_string _ = None"

fun as_number :: "FieldValue \<Rightarrow> jsnum option" where
  "as_number (Num x) = Some x"
| "as_number _ = None"

fun as_boolean :: "FieldValue \<Rightarrow> bool option" where
  "as_boolean (Boolean b) = Some b"
| "as_boolean _ = None"

fun assign_field :: "CsvField \<Rightarrow> FieldValue \<Rightarrow> SubscriptionInput \<Rightarrow> SubscriptionInput" where
  "assign_field F_name v s = s\<lparr>si_name := as_string v\<rparr>"
| "assign_field F_description v s = s\<lparr>si_description := as_string v\<rparr>"
| "assign_field F_category v s = s\<lparr>si_category := as_string v\<rparr>"
| "assign_field F_price v s = s\<lparr>si_price := as_number v\<rparr>"
| "assign_field F_currency v s = s\<lparr>si_currency := as_string v\<rparr>"
| "assign_field F_billingCycle v s = s\<lparr>si_billingCycle := as_string v\<rparr>"
| "assign_field F_nextBillingDate v s = s\<lparr>si_nextBillingDate := as_string v\<rparr>"
| "assign_field F_isActive v s = s\<lparr>si_isActive := as_boolean v\<rparr>"
| "assign_field F_notificationsEnabled v s = s\<lparr>si_notificationsEnabled := as_boolean v\<rparr>"
| "assign_field F_isCryptoEnabled v s = s\<lparr>si_isCryptoEnabled := as_boolean v\<rparr>"
| "assign_field F_cryptoToken v s = s\<lparr>si_cryptoToken := as_string v\<rparr>"
| "assign_field F_cryptoAmount v s = s\<lparr>si_cryptoAmount := as_number v\<rparr>"
| "assign_field F_externalId v s = s\<lparr>si_externalId := as_string v\<rparr>"

definition header_map :: "string list \<Rightarrow> nat obj" where
  "header_map headers = foldl (\<lambda>m (i, h). AList.update (js_trim (js_lower h)) i m) [] (enumerate 0 headers)"

definition read_column :: "nat obj \<Rightarrow> string list \<Rightarrow> SubscriptionInput \<Rightarrow> ColumnMapping \<Rightarrow> SubscriptionInput" where
  "read_column headerMap values subscription mapping =
     (case map_of headerMap (js_lower (cm_csvColumn mapping)) of
        None \<Rightarrow> subscription
      | Some i \<Rightarrow>
          if i < length values \<and> values ! i \<noteq> ''''
          then assign_field (cm_fieldName mapping)
                 ((case cm_transform mapping of Some f \<Rightarrow> f (values ! i)
                   | None \<Rightarrow> parseSubscriptionField (cm_fieldName mapping) (values ! i))) subscription
          else subscription)"

definition parse_data_row :: "nat obj \<Rightarrow> string \<Rightarrow> SubscriptionInput list" where
  "parse_data_row headerMap line =
     (let values = parseCSVLine line
      in if values = [] \<or> list_all (\<lambda>v. js_trim v = '''') values then []
         else let s = foldl (read_column headerMap values) empty_input CSV_COLUMN_MAPPING
              in if truthy (si_name s) then [s] else [])"

definition csv_error :: string where
  "csv_error = ''CSV must contain at least a header row and one data row''"

definition parseCSV :: "string \<Rightarrow> string + SubscriptionInput list" where
  "parseCSV csvContent =
     (case filter (\<lambda>line. js_trim line \<noteq> '''') (split_lines [] csvContent) of
        headerLine # row # rows \<Rightarrow>
          Inr (concat (map (parse_data_row (header_map (parseCSVLine headerLine))) (row # rows)))
      | _ \<Rightarrow> Inl csv_error)"

text \<open>Printing: strings with a comma or a quote are quoted, dates are cut to the day; an invalid date throws.\<close>

fun field_value :: "CsvField \<Rightarrow> Subscription \<Rightarrow> FieldValue" where
  "field_value F_name s = Str (sb_name s)"
| "field_value F_description s = (case sb_description s of None \<Rightarrow> Undefined | Some d \<Rightarrow> Str d)"
| "field_value F_category s = Str (category_name (sb_category s))"
| "field_value F_price s = Num (sb_price s)"
| "field_value F_currency s = Str (sb_currency s)"
| "field_value F_billingCycle s = Str (cycle_name (sb_billingCycle s))"
| "field_value F_nextBillingDate s = DateValue (sb_nextBillingDate s)"
| "field_value F_isActive s = Boolean (sb_isActive s)"
| "field_value F_notificationsEnabled s = (case sb_notificationsEnabled s of None \<Rightarrow> Undefined | Some b \<Rightarrow> Boolean b)"
| "field_value F_isCryptoEnabled s = Boolean (sb_isCryptoEnabled s)"
| "field_value F_cryptoToken s = (case sb_cryptoToken s of None \<Rightarrow> Undefined | Some t \<Rightarrow> Str t)"
| "field_value F_cryptoAmount s = (case sb_cryptoAmount s of None \<Rightarrow> Undefined | Some x \<Rightarrow> Num x)"
| "field_value F_externalId s = (case sb_externalId s of None \<Rightarrow> Undefined | Some e \<Rightarrow> Str e)"

fun double_quotes :: "string \<Rightarrow> string" where
  "double_quotes [] = []"
| "double_quotes (c # cs) = (if c = CHR ''\"'' then [c, c] else [c]) @ double_quotes cs"

definition quote_cell :: "string \<Rightarrow> string" where
  "quote_cell s = (if CHR '','' \<in> set s \<or> CHR ''\"'' \<in> set s then [CHR ''\"''] @ double_quotes s @ [CHR ''\"''] else s)"

definition range_error :: string where
  "range_error = ''Invalid time value''"

fun csv_cell :: "FieldValue \<Rightarrow> string + string" where
  "csv_cell Undefined = Inr ''''"
| "csv_cell (Str s) = Inr (quote_cell s)"
| "csv_cell (Num x) = Inr (show_jsnum x)"
| "csv_cell (Boolean b) = Inr (if b then ''true'' else ''false'')"
| "csv_cell (DateValue (Some t)) = Inr (isoDate t)"
| "csv_cell (DateValue None) = Inl range_error"

text \<open>\<open>map\<close> with a body that may throw.\<close>

fun map_throws :: "('a \<Rightarrow> 'e + 'b) \<Rightarrow> 'a list \<Rightarrow> 'e + 'b list" where
  "map_throws f [] = Inr []"
| "map_throws f (x # xs) =
     (case f x of Inl e \<Rightarrow> Inl e | Inr y \<Rightarrow> (case map_throws f xs of Inl e \<Rightarrow> Inl e | Inr ys \<Rightarrow> Inr (y # ys)))"

definition csv_row :: "Subscription \<Rightarrow> string + string" where
  "csv_row sub = map_sum id (js_join '','') (map_throws (\<lambda>m. csv_cell (field_value (cm_fieldName m) sub)) CSV_COLUMN_MAPPING)"

definition generateCSV :: "Subscription list \<Rightarrow> string + string" where
  "generateCSV subscriptions =
     map_sum id (\<lambda>rows. js_join [CHR 0x0A] (js_join '','' (map cm_csvColumn CSV_COLUMN_MAPPING) # rows))
       (map_throws csv_row subscriptions)"

section \<open>Reading back a printed line\<close>

lemma parse_plain:
  "CHR ''\"'' \<notin> set s \<Longrightarrow> CHR '','' \<notin> set s \<Longrightarrow> parse_cells False cur (s @ rest) = parse_cells False (cur @ s) rest"
  by (induction s arbitrary: cur) auto

lemma parse_quoted:
  "rest = [] \<or> hd rest \<noteq> CHR ''\"'' \<Longrightarrow>
     parse_cells True cur (double_quotes s @ CHR ''\"'' # rest) = parse_cells False (cur @ s) rest"
  by (induction s arbitrary: cur) auto

lemma parse_cell:
  assumes "rest = [] \<or> hd rest = CHR '',''"
  shows "parse_cells False [] (quote_cell s @ rest) = parse_cells False s rest"
proof (cases "CHR '','' \<in> set s \<or> CHR ''\"'' \<in> set s")
  case True
  have "rest = [] \<or> hd rest \<noteq> CHR ''\"''" using assms by auto
  then show ?thesis using True parse_quoted [of rest "[]" s] by (simp add: quote_cell_def)
next
  case False
  then show ?thesis using parse_plain [of s "[]" rest] by (simp add: quote_cell_def)
qed

lemma parse_line_join:
  "\<forall>s \<in> set cells. js_trim s = s \<Longrightarrow> cells \<noteq> [] \<Longrightarrow> parseCSVLine (js_join '','' (map quote_cell cells)) = cells"
  unfolding parseCSVLine_def
proof (induction cells)
  case (Cons c cells)
  show ?case
  proof (cases cells)
    case Nil
    then show ?thesis using Cons.prems parse_cell [of "[]" c] by simp
  next
    case (Cons d ds)
    have "parse_cells False [] (quote_cell c @ CHR '','' # js_join '','' (map quote_cell (d # ds)))
        = c # parse_cells False [] (js_join '','' (map quote_cell (d # ds)))"
      using Cons.prems(1) parse_cell [of "CHR '','' # js_join '','' (map quote_cell (d # ds))" c] by simp
    then show ?thesis using Cons Cons.IH Cons.prems by simp
  qed
qed simp


section \<open>What survives a round trip\<close>

fun printable :: "jsnum \<Rightarrow> bool" where
  "printable (Fin x) \<longleftrightarrow> 0 \<le> x \<and> of_int (js_round (x * 1000000)) = x * 1000000"
| "printable _ = False"

definition cell_ok :: "string \<Rightarrow> bool" where
  "cell_ok s \<longleftrightarrow> (s = '''' \<or> trimmed s) \<and> CHR 0x0A \<notin> set s"

definition csv_ok :: "Subscription \<Rightarrow> bool" where
  "csv_ok s \<longleftrightarrow> sb_name s \<noteq> '''' \<and> cell_ok (sb_name s) \<and> cell_ok (the_or (sb_description s) '''') \<and>
     cell_ok (sb_currency s) \<and> cell_ok (the_or (sb_cryptoToken s) '''') \<and> cell_ok (the_or (sb_externalId s) '''') \<and>
     sb_nextBillingDate s \<noteq> None \<and> printable (sb_price s) \<and> printable (the_or (sb_cryptoAmount s) (Fin 0))"

definition nonempty :: "string \<Rightarrow> string option" where
  "nonempty s = (if s = '''' then None else Some s)"

text \<open>The view of a subscription that its CSV row carries: no id and no source, the date cut to the day.\<close>

definition csv_view :: "Subscription \<Rightarrow> SubscriptionInput" where
  "csv_view s =
     \<lparr>si_id = None, si_externalId = nonempty (the_or (sb_externalId s) ''''), si_externalSource = None,
      si_name = Some (sb_name s), si_description = nonempty (the_or (sb_description s) ''''),
      si_category = Some (category_name (sb_category s)), si_price = Some (sb_price s),
      si_currency = nonempty (sb_currency s), si_billingCycle = Some (cycle_name (sb_billingCycle s)),
      si_nextBillingDate = map_option isoDate (sb_nextBillingDate s), si_isActive = Some (sb_isActive s),
      si_notificationsEnabled = sb_notificationsEnabled s, si_isCryptoEnabled = Some (sb_isCryptoEnabled s),
      si_cryptoToken = nonempty (the_or (sb_cryptoToken s) ''''), si_cryptoAmount = sb_cryptoAmount s\<rparr>"

fun plain_cell :: "FieldValue \<Rightarrow> string" where
  "plain_cell Undefined = ''''"
| "plain_cell (Str s) = s"
| "plain_cell (Num x) = show_jsnum x"
| "plain_cell (Boolean b) = (if b then ''true'' else ''false'')"
| "plain_cell (DateValue t) = (case t of None \<Rightarrow> '''' | Some t \<Rightarrow> isoDate t)"

definition fields :: "CsvField list" where
  "fields = [F_name, F_description, F_category, F_price, F_currency, F_billingCycle, F_nextBillingDate, F_isActive,
     F_notificationsEnabled, F_isCryptoEnabled, F_cryptoToken, F_cryptoAmount, F_externalId]"

definition plain_cells :: "Subscription \<Rightarrow> string list" where
  "plain_cells s = map (\<lambda>f. plain_cell (field_value f s)) fields"

lemma mapping_fields: "map cm_fieldName CSV_COLUMN_MAPPING = fields"
  by (simp add: CSV_COLUMN_MAPPING_def fields_def)

fun value_ok :: "FieldValue \<Rightarrow> bool" where
  "value_ok (Str s) = cell_ok s"
| "value_ok (Num x) = printable x"
| "value_ok (DateValue t) = (t \<noteq> None)"
| "value_ok _ = True"

lemma printable_shape:
  assumes "printable x"
  obtains n where "show_jsnum x = show_micros n" "parseFloat (show_jsnum x) = x"
proof (cases x)
  case (Fin r)
  then have r: "0 \<le> r" "of_int (js_round (r * 1000000)) = r * 1000000" using assms by simp_all
  have "0 \<le> (of_int (js_round (r * 1000000)) :: rat)" unfolding r(2) using r(1) by simp
  then have "0 \<le> js_round (r * 1000000)" by simp
  then have "show_jsnum x = show_micros (nat (js_round (r * 1000000)))" by (simp add: Fin show_num_def Let_def)
  moreover have "parseFloat (show_jsnum x) = x" using parseFloat_show_num [OF r] by (simp add: Fin)
  ultimately show ?thesis by (rule that)
qed (use assms in auto)

text \<open>Text made of digits, signs and points is a cell that needs no quotes.\<close>

definition numeric_char :: "char \<Rightarrow> bool" where
  "numeric_char c \<longleftrightarrow> is_digit c \<or> c \<in> {CHR ''.'', CHR ''-'', CHR ''+''}"

lemma numeric_char_plain: "numeric_char c \<Longrightarrow> \<not> js_space c \<and> c \<noteq> CHR '','' \<and> c \<noteq> CHR ''\"'' \<and> c \<noteq> CHR 0x0A"
  by (auto simp: numeric_char_def is_digit_def js_space_def)

lemma numeric_cell:
  assumes "s \<noteq> []" "\<forall>c \<in> set s. numeric_char c"
  shows "trimmed s \<and> CHR 0x0A \<notin> set s \<and> quote_cell s = s"
proof -
  have "hd s \<in> set s" "last s \<in> set s" using assms(1) by simp_all
  then have ends: "numeric_char (hd s)" "numeric_char (last s)" using assms(2) by blast+
  have trim: "trimmed s" using assms(1) numeric_char_plain [OF ends(1)] numeric_char_plain [OF ends(2)] by (simp add: trimmed_def)
  have plain: "CHR '','' \<notin> set s" "CHR ''\"'' \<notin> set s" "CHR 0x0A \<notin> set s" using assms(2) numeric_char_plain by blast+
  show ?thesis using trim plain by (simp add: quote_cell_def)
qed

lemma show_nat_digits: "c \<in> set (show_nat n) \<Longrightarrow> is_digit c"
  using digits_show_nat [of n] by (simp add: list_all_iff)

lemma pad_left_digits: "c \<in> set (pad_left k (show_nat n)) \<Longrightarrow> is_digit c"
  using show_nat_digits by (auto simp: pad_left_def)

lemma isoDate_numeric: "isoDate t \<noteq> [] \<and> (\<forall>c \<in> set (isoDate t). numeric_char c)"
proof -
  obtain y m d where c: "civil (t div ONE_DAY_MS) = (y, m, d)" by (metis prod_cases3)
  have year: "show_year y \<noteq> [] \<and> (\<forall>c \<in> set (show_year y). numeric_char c)"
    using digits_show_nat [of "nat y"] by (auto simp: show_year_def pad_left_def numeric_char_def dest: show_nat_digits)
  have pad: "numeric_char c" if "c \<in> set (pad_left 2 (show_nat n))" for c n
    using pad_left_digits [OF that] by (simp add: numeric_char_def)
  have dash: "numeric_char (CHR ''-'')" by (simp add: numeric_char_def)
  have eq: "isoDate t = show_year y @ ''-'' @ pad_left 2 (show_nat (nat m)) @ ''-'' @ pad_left 2 (show_nat (nat d))"
    by (simp only: isoDate_def c prod.case)
  show ?thesis using year unfolding eq by (auto simp only: set_append Un_iff append_is_Nil_conv list.set insert_iff dash dest: pad)
qed

lemma show_micros_numeric: "show_micros n \<noteq> [] \<and> (\<forall>c \<in> set (show_micros n). numeric_char c)"
  using show_micros_shape [of n] by (auto simp: numeric_char_def)


lemma cell_okD: "cell_ok s \<Longrightarrow> js_trim s = s \<and> CHR 0x0A \<notin> set s"
  by (auto simp: cell_ok_def)

lemma plain_cell_ok:
  assumes "value_ok v"
  shows "cell_ok (plain_cell v)" and "csv_cell v = Inr (quote_cell (plain_cell v))"
proof -
  have "cell_ok (plain_cell v) \<and> csv_cell v = Inr (quote_cell (plain_cell v))"
  proof (cases v)
    case (Num x)
    then have "printable x" using assms by simp
    then obtain n where "show_jsnum x = show_micros n" by (rule printable_shape)
    then show ?thesis using show_micros_numeric [of n] numeric_cell [of "show_micros n"] by (simp add: Num cell_ok_def)
  next
    case (Boolean b)
    then show ?thesis by (auto simp: cell_ok_def trimmed_def js_space_def quote_cell_def)
  next
    case (DateValue t)
    then obtain d where d: "t = Some d" using assms by auto
    then show ?thesis using isoDate_numeric [of d] numeric_cell [of "isoDate d"] by (simp add: DateValue d cell_ok_def)
  next
    case (Str x)
    then show ?thesis using assms by simp
  next
    case Undefined
    then show ?thesis by (simp add: cell_ok_def quote_cell_def)
  qed
  then show "cell_ok (plain_cell v)" "csv_cell v = Inr (quote_cell (plain_cell v))" by auto
qed

lemma category_cell: "cell_ok (category_name c)"
  by (cases c) (simp_all add: cell_ok_def trimmed_def js_space_def)

lemma cycle_cell: "cell_ok (cycle_name c)"
  by (cases c) (simp_all add: cell_ok_def trimmed_def js_space_def)

lemma csv_values_ok:
  assumes "csv_ok s"
  shows "value_ok (field_value f s)"
  using assms category_cell [of "sb_category s"] cycle_cell [of "sb_billingCycle s"] unfolding csv_ok_def
  by (cases f) (simp_all add: the_or_def split: option.splits)

lemma map_throws_Inr: "(\<And>x. x \<in> set xs \<Longrightarrow> f x = Inr (g x)) \<Longrightarrow> map_throws f xs = Inr (map g xs)"
  by (induction xs) simp_all

lemma csv_row_ok: "csv_ok s \<Longrightarrow> csv_row s = Inr (js_join '','' (map quote_cell (plain_cells s)))"
proof -
  assume ok: "csv_ok s"
  have "map_throws (\<lambda>m. csv_cell (field_value (cm_fieldName m) s)) CSV_COLUMN_MAPPING
      = Inr (map (\<lambda>m. quote_cell (plain_cell (field_value (cm_fieldName m) s))) CSV_COLUMN_MAPPING)"
    by (rule map_throws_Inr) (simp add: plain_cell_ok(2) csv_values_ok [OF ok])
  moreover have "map (\<lambda>m. quote_cell (plain_cell (field_value (cm_fieldName m) s))) CSV_COLUMN_MAPPING
      = map quote_cell (plain_cells s)"
    unfolding plain_cells_def mapping_fields [symmetric] by (simp only: map_map comp_def)
  ultimately show ?thesis by (simp add: csv_row_def)
qed

text \<open>A printed line is not blank and does not end in white space.\<close>

lemma js_trim_empty: "js_trim s = [] \<longleftrightarrow> (\<forall>c \<in> set s. js_space c)"
proof -
  have "js_trim s = [] \<longleftrightarrow> (\<forall>c \<in> set (dropWhile js_space s). js_space c)"
    by (simp only: js_trim_def rev_is_Nil_conv dropWhile_eq_Nil_conv set_rev)
  also have "\<dots> \<longleftrightarrow> (\<forall>c \<in> set s. js_space c)" by (induction s) simp_all
  finally show ?thesis .
qed

lemma quote_cell_last: "cell_ok s \<Longrightarrow> s \<noteq> [] \<Longrightarrow> quote_cell s \<noteq> [] \<and> \<not> js_space (last (quote_cell s))
    \<and> \<not> js_space (hd (quote_cell s))"
  by (auto simp: quote_cell_def cell_ok_def trimmed_def js_space_def)

lemma double_quotes_set: "c \<in> set (double_quotes s) \<Longrightarrow> c \<in> set s"
  by (induction s) (auto split: if_splits)

lemma quote_cell_newline:
  assumes "CHR 0x0A \<notin> set s"
  shows "CHR 0x0A \<notin> set (quote_cell s)"
proof -
  have "CHR 0x0A \<notin> set (double_quotes s)" using assms double_quotes_set by blast
  then show ?thesis using assms by (simp add: quote_cell_def)
qed

lemma join_newline: "\<forall>s \<in> set xs. CHR 0x0A \<notin> set s \<Longrightarrow> CHR 0x0A \<notin> set (js_join '','' xs)"
proof (induction xs)
  case (Cons x xs)
  then show ?case by (cases xs) simp_all
qed simp

lemma comma_not_space: "\<not> js_space (CHR '','')"
  by (simp add: js_space_def)

lemma join_nonempty: "xs \<noteq> [] \<Longrightarrow> tl xs \<noteq> [] \<Longrightarrow> js_join '','' xs \<noteq> []"
  by (cases xs; cases "tl xs") simp_all

lemma join_last:
  "xs \<noteq> [] \<Longrightarrow> tl xs \<noteq> [] \<Longrightarrow> last xs = [] \<or> \<not> js_space (last (last xs)) \<Longrightarrow> \<not> js_space (last (js_join '','' xs))"
proof (induction xs)
  case (Cons x xs)
  then obtain y ys where xs: "xs = y # ys" by (cases xs) auto
  show ?case
  proof (cases ys)
    case Nil
    then show ?thesis using Cons.prems comma_not_space by (cases "y = []") (simp_all add: xs)
  next
    case (Cons z zs)
    then have "\<not> js_space (last (js_join '','' xs))" using Cons.IH Cons.prems by (simp add: xs)
    moreover have "js_join '','' xs \<noteq> []" by (rule join_nonempty) (simp_all add: xs Cons)
    ultimately show ?thesis by (simp add: xs)
  qed
qed simp


lemma row_line:
  assumes "csv_ok s"
  defines "line \<equiv> js_join '','' (map quote_cell (plain_cells s))"
  shows "parseCSVLine line = plain_cells s" "js_trim line \<noteq> ''''"
    "CHR 0x0A \<notin> set line \<and> line \<noteq> [] \<and> last line \<noteq> CHR 0x0D"
proof -
  have ok: "cell_ok c" if "c \<in> set (plain_cells s)" for c
    using that plain_cell_ok(1) [OF csv_values_ok [OF assms(1)]] by (auto simp: plain_cells_def)
  have shape: "plain_cells s = sb_name s # tl (plain_cells s)" "tl (tl (plain_cells s)) \<noteq> []" "tl (plain_cells s) \<noteq> []"
    by (simp_all add: plain_cells_def fields_def)
  show "parseCSVLine line = plain_cells s" unfolding line_def
    by (rule parse_line_join) (use ok cell_okD in blast, simp add: plain_cells_def fields_def)
  have last_in: "last (plain_cells s) \<in> set (plain_cells s)" using shape(1) by (metis last_in_set list.distinct(1))
  have last_cell: "last (map quote_cell (plain_cells s)) = quote_cell (last (plain_cells s))"
    using shape(1) by (metis last_map list.distinct(1))
  have "quote_cell '''' = ''''" by (simp add: quote_cell_def)
  then have "last (map quote_cell (plain_cells s)) = [] \<or> \<not> js_space (last (last (map quote_cell (plain_cells s))))"
    unfolding last_cell using quote_cell_last [OF ok [OF last_in]] by (cases "last (plain_cells s) = []") simp_all
  then have last: "\<not> js_space (last line)"
    unfolding line_def by (intro join_last) (simp_all add: plain_cells_def fields_def)
  have ne: "line \<noteq> []" unfolding line_def by (intro join_nonempty) (simp_all add: plain_cells_def fields_def)
  show "js_trim line \<noteq> ''''" using ne last js_trim_empty [of line] by auto
  have "CHR 0x0A \<notin> set line" unfolding line_def
    by (rule join_newline) (use ok cell_okD quote_cell_newline in auto)
  moreover have "last line \<noteq> CHR 0x0D" using last by (auto simp: js_space_def)
  ultimately show "CHR 0x0A \<notin> set line \<and> line \<noteq> [] \<and> last line \<noteq> CHR 0x0D" using ne by blast
qed

definition csv_header :: string where
  "csv_header = js_join '','' (map cm_csvColumn CSV_COLUMN_MAPPING)"

lemma csv_header_ok:
  "parseCSVLine csv_header = map cm_csvColumn CSV_COLUMN_MAPPING"
  "js_trim csv_header \<noteq> ''''"
  "CHR 0x0A \<notin> set csv_header \<and> csv_header \<noteq> [] \<and> last csv_header \<noteq> CHR 0x0D"
  by code_simp+

text \<open>Every column of the file is found where it was printed.\<close>

lemma header_columns:
  "map (\<lambda>m. map_of (header_map (map cm_csvColumn CSV_COLUMN_MAPPING)) (js_lower (cm_csvColumn m))) CSV_COLUMN_MAPPING
     = map Some [0..<13]"
  by code_simp


definition printed_columns :: "nat obj" where
  "printed_columns = header_map (map cm_csvColumn CSV_COLUMN_MAPPING)"

lemma printed_column:
  assumes "i < 13"
  shows "map_of printed_columns (js_lower (cm_csvColumn (CSV_COLUMN_MAPPING ! i))) = Some i"
proof -
  have len: "length CSV_COLUMN_MAPPING = 13" by (simp add: CSV_COLUMN_MAPPING_def)
  have "map (\<lambda>m. map_of printed_columns (js_lower (cm_csvColumn m))) CSV_COLUMN_MAPPING ! i = map Some [0..<13] ! i"
    unfolding printed_columns_def by (rule arg_cong [where f = "\<lambda>l. l ! i", OF header_columns])
  then show ?thesis using assms len by simp
qed

text \<open>The value a column gives for a printed cell: absent when blank, else the cell through the column's reader.\<close>

definition read_cell :: "ColumnMapping \<Rightarrow> string \<Rightarrow> FieldValue" where
  "read_cell m s = (if s = '''' then Undefined
     else case cm_transform m of Some f \<Rightarrow> f s | None \<Rightarrow> parseSubscriptionField (cm_fieldName m) s)"

lemma read_printed:
  assumes "i < 13" "length values = 13"
  shows "read_column printed_columns values s (CSV_COLUMN_MAPPING ! i) =
     (if values ! i = '''' then s
      else assign_field (cm_fieldName (CSV_COLUMN_MAPPING ! i)) (read_cell (CSV_COLUMN_MAPPING ! i) (values ! i)) s)"
  using assms by (simp add: read_column_def printed_column read_cell_def)

lemma assign_unset [simp]:
  "si_name s = None \<Longrightarrow> assign_field F_name Undefined s = s"
  "si_description s = None \<Longrightarrow> assign_field F_description Undefined s = s"
  "si_category s = None \<Longrightarrow> assign_field F_category Undefined s = s"
  "si_price s = None \<Longrightarrow> assign_field F_price Undefined s = s"
  "si_currency s = None \<Longrightarrow> assign_field F_currency Undefined s = s"
  "si_billingCycle s = None \<Longrightarrow> assign_field F_billingCycle Undefined s = s"
  "si_nextBillingDate s = None \<Longrightarrow> assign_field F_nextBillingDate Undefined s = s"
  "si_isActive s = None \<Longrightarrow> assign_field F_isActive Undefined s = s"
  "si_notificationsEnabled s = None \<Longrightarrow> assign_field F_notificationsEnabled Undefined s = s"
  "si_isCryptoEnabled s = None \<Longrightarrow> assign_field F_isCryptoEnabled Undefined s = s"
  "si_cryptoToken s = None \<Longrightarrow> assign_field F_cryptoToken Undefined s = s"
  "si_cryptoAmount s = None \<Longrightarrow> assign_field F_cryptoAmount Undefined s = s"
  "si_externalId s = None \<Longrightarrow> assign_field F_externalId Undefined s = s"
  by (cases s; simp)+


definition unset :: "CsvField \<Rightarrow> SubscriptionInput \<Rightarrow> bool" where
  "unset f s = (assign_field f Undefined s = s)"

lemma read_unset:
  assumes "i < 13" "length values = 13" "cm_fieldName (CSV_COLUMN_MAPPING ! i) = f" "unset f s"
  shows "read_column printed_columns values s (CSV_COLUMN_MAPPING ! i) =
     assign_field f (read_cell (CSV_COLUMN_MAPPING ! i) (values ! i)) s"
  using read_printed [OF assms(1,2), of s] assms(3,4) by (simp add: read_cell_def unset_def)

lemma mapping_nth:
  "CSV_COLUMN_MAPPING = map (\<lambda>i. CSV_COLUMN_MAPPING ! i) [0, 1, 2, 3, 4, 5, 6, 7, 8, 9, 10, 11, 12]"
proof -
  have len: "length CSV_COLUMN_MAPPING = 13" by (simp add: CSV_COLUMN_MAPPING_def)
  have "[0, 1, 2, 3, 4, 5, 6, 7, 8, 9, 10, 11, 12] = [0..<13]" by code_simp
  then show ?thesis using map_nth [of CSV_COLUMN_MAPPING] len by simp
qed

lemma mapping_field: "i < 13 \<Longrightarrow> cm_fieldName (CSV_COLUMN_MAPPING ! i) = fields ! i"
proof -
  assume "i < 13"
  then have "i < length CSV_COLUMN_MAPPING" by (simp add: CSV_COLUMN_MAPPING_def)
  then show ?thesis unfolding mapping_fields [symmetric] by simp
qed

lemma read_row:
  assumes "length values = 13"
  shows "foldl (read_column printed_columns values) empty_input CSV_COLUMN_MAPPING =
    (let v = (\<lambda>i. read_cell (CSV_COLUMN_MAPPING ! i) (values ! i))
     in \<lparr>si_id = None, si_externalId = as_string (v 12), si_externalSource = None, si_name = as_string (v 0),
         si_description = as_string (v 1), si_category = as_string (v 2), si_price = as_number (v 3),
         si_currency = as_string (v 4), si_billingCycle = as_string (v 5), si_nextBillingDate = as_string (v 6),
         si_isActive = as_boolean (v 7), si_notificationsEnabled = as_boolean (v 8), si_isCryptoEnabled = as_boolean (v 9),
         si_cryptoToken = as_string (v 10), si_cryptoAmount = as_number (v 11)\<rparr>)"
proof -
  define M where "M = CSV_COLUMN_MAPPING"
  have step: "read_column printed_columns values s (M ! i) = assign_field (fields ! i) (read_cell (M ! i) (values ! i)) s"
    if "i < 13" "unset (fields ! i) s" for i s
    unfolding M_def by (rule read_unset [OF that(1) assms mapping_field [OF that(1)] that(2)])
  have M: "M = map (\<lambda>i. M ! i) [0, 1, 2, 3, 4, 5, 6, 7, 8, 9, 10, 11, 12]" unfolding M_def by (rule mapping_nth)
  show ?thesis unfolding M_def [symmetric]
    by (subst M) (simp add: step unset_def fields_def empty_input_def Let_def)
qed


lemma read_string: "cm_transform m = None \<Longrightarrow> cm_fieldName m \<in> {F_name, F_description, F_category, F_currency,
    F_billingCycle, F_nextBillingDate, F_cryptoToken, F_externalId} \<Longrightarrow> cell_ok s \<Longrightarrow>
    as_string (read_cell m s) = nonempty s"
  using cell_okD [of s] by (auto simp: read_cell_def parseSubscriptionField_def nonempty_def)

lemma read_number:
  assumes "cm_transform m = Some (Num \<circ> parseFloat)" "printable x"
  shows "as_number (read_cell m (show_jsnum x)) = Some x"
proof -
  obtain n where n: "show_jsnum x = show_micros n" "parseFloat (show_jsnum x) = x" using printable_shape [OF assms(2)] by metis
  then have "show_jsnum x \<noteq> ''''" using show_micros_numeric by simp
  then show ?thesis using assms(1) n(2) by (simp add: read_cell_def)
qed

lemma read_boolean: "cm_transform m = Some (Boolean \<circ> parseBoolean) \<Longrightarrow>
    as_boolean (read_cell m (if b then ''true'' else ''false'')) = Some b"
proof -
  have "parseBoolean ''true'' = True" "parseBoolean ''false'' = False" by code_simp+
  then show "cm_transform m = Some (Boolean \<circ> parseBoolean) \<Longrightarrow> ?thesis" by (simp add: read_cell_def)
qed

lemma read_blank [simp]: "read_cell m '''' = Undefined"
  by (simp add: read_cell_def)

lemma csv_view_row:
  assumes "csv_ok s"
  shows "foldl (read_column printed_columns (plain_cells s)) empty_input CSV_COLUMN_MAPPING = csv_view s"
proof -
  have len: "length (plain_cells s) = 13" by (simp add: plain_cells_def fields_def)
  have tr: "cm_transform (CSV_COLUMN_MAPPING ! i) = None" "cm_fieldName (CSV_COLUMN_MAPPING ! i) = fields ! i"
    if "i \<in> {0, 1, 2, 4, 5, 6, 10, 12}" for i
    using that by (auto simp: CSV_COLUMN_MAPPING_def fields_def)
  have num: "cm_transform (CSV_COLUMN_MAPPING ! 3) = Some (Num \<circ> parseFloat)"
    "cm_transform (CSV_COLUMN_MAPPING ! 11) = Some (Num \<circ> parseFloat)" by (simp_all add: CSV_COLUMN_MAPPING_def)
  have bool: "cm_transform (CSV_COLUMN_MAPPING ! i) = Some (Boolean \<circ> parseBoolean)" if "i \<in> {7, 8, 9}" for i
    using that by (auto simp: CSV_COLUMN_MAPPING_def)
  have cell: "cell_ok (plain_cell (field_value f s))" for f by (rule plain_cell_ok(1) [OF csv_values_ok [OF assms]])
  have str: "as_string (read_cell (CSV_COLUMN_MAPPING ! i) (plain_cell (field_value (fields ! i) s)))
      = nonempty (plain_cell (field_value (fields ! i) s))" if "i \<in> {0, 1, 2, 4, 5, 6, 10, 12}" for i
    by (rule read_string [OF tr(1) [OF that] _ cell]) (use tr(2) [OF that] that in \<open>auto simp: fields_def\<close>)
  have strs: "as_string (read_cell (CSV_COLUMN_MAPPING ! 0) (sb_name s)) = nonempty (sb_name s)"
    "as_string (read_cell (CSV_COLUMN_MAPPING ! 2) (category_name (sb_category s))) = nonempty (category_name (sb_category s))"
    "as_string (read_cell (CSV_COLUMN_MAPPING ! 4) (sb_currency s)) = nonempty (sb_currency s)"
    "as_string (read_cell (CSV_COLUMN_MAPPING ! 5) (cycle_name (sb_billingCycle s))) = nonempty (cycle_name (sb_billingCycle s))"
    using str [of 0] str [of 2] str [of 4] str [of 5] by (simp_all add: fields_def)
  obtain d where d: "sb_nextBillingDate s = Some d" "isoDate d \<noteq> ''''" using assms isoDate_numeric by (auto simp: csv_ok_def)
  have date: "as_string (read_cell (CSV_COLUMN_MAPPING ! 6) (isoDate d)) = Some (isoDate d)"
    using str [of 6] d by (simp add: fields_def nonempty_def)
  have opt: "as_string (read_cell (CSV_COLUMN_MAPPING ! i) (plain_cell (case v of None \<Rightarrow> Undefined | Some t \<Rightarrow> Str t)))
      = nonempty (the_or v '''')" if "i \<in> {1, 10, 12}" "field_value (fields ! i) s = (case v of None \<Rightarrow> Undefined | Some t \<Rightarrow> Str t)" for i v
    using str [of i] that by (cases v) (auto simp: the_or_def nonempty_def)
  have price: "as_number (read_cell (CSV_COLUMN_MAPPING ! 3) (show_jsnum (sb_price s))) = Some (sb_price s)"
    by (rule read_number [OF num(1)]) (use assms in \<open>simp add: csv_ok_def\<close>)
  have amount: "as_number (read_cell (CSV_COLUMN_MAPPING ! 11) (plain_cell (case sb_cryptoAmount s of None \<Rightarrow> Undefined | Some x \<Rightarrow> Num x)))
      = sb_cryptoAmount s"
    using read_number [OF num(2)] assms by (auto simp: csv_ok_def the_or_def split: option.splits)
  have notif: "as_boolean (read_cell (CSV_COLUMN_MAPPING ! 8) (plain_cell (case sb_notificationsEnabled s of None \<Rightarrow> Undefined | Some b \<Rightarrow> Boolean b)))
      = sb_notificationsEnabled s"
    using read_boolean [OF bool [of 8]] by (cases "sb_notificationsEnabled s") simp_all
  have bools: "as_boolean (read_cell (CSV_COLUMN_MAPPING ! i) (if b then ''true'' else ''false'')) = Some b" if "i \<in> {7, 9}" for i b
    by (rule read_boolean, rule bool) (use that in auto)
  have ne: "sb_name s \<noteq> ''''" "category_name (sb_category s) \<noteq> ''''" "cycle_name (sb_billingCycle s) \<noteq> ''''"
    using assms by (simp add: csv_ok_def, cases "sb_category s", simp_all, cases "sb_billingCycle s", simp_all)
  have cells: "plain_cells s ! i = plain_cell (field_value (fields ! i) s)" if "i < 13" for i
    using that unfolding plain_cells_def by (subst nth_map) (simp_all add: fields_def)
  show ?thesis unfolding read_row [OF len] Let_def
    using ne opt [of 1 "sb_description s"] opt [of 10 "sb_cryptoToken s"] opt [of 12 "sb_externalId s"]
    by (simp add: cells fields_def strs d date price amount notif bools csv_view_def nonempty_def)
qed


lemma parse_printed_row:
  assumes "csv_ok s"
  shows "parse_data_row printed_columns (js_join '','' (map quote_cell (plain_cells s))) = [csv_view s]"
proof -
  have name: "sb_name s \<in> set (plain_cells s)" by (simp add: plain_cells_def fields_def)
  have "js_trim (sb_name s) \<noteq> ''''" using assms cell_okD [of "sb_name s"] by (auto simp: csv_ok_def)
  then have "\<not> list_all (\<lambda>v. js_trim v = '''') (plain_cells s)" using name by (auto simp: list_all_iff)
  moreover have "plain_cells s \<noteq> []" by (simp add: plain_cells_def fields_def)
  moreover have "truthy (si_name (csv_view s))" using assms by (simp add: csv_view_def truthy_def csv_ok_def)
  ultimately show ?thesis by (simp add: parse_data_row_def row_line(1) [OF assms] csv_view_row [OF assms] Let_def)
qed

lemma generate_ok:
  "\<forall>s \<in> set subs. csv_ok s \<Longrightarrow>
     generateCSV subs = Inr (js_join [CHR 0x0A] (csv_header # map (\<lambda>s. js_join '','' (map quote_cell (plain_cells s))) subs))"
  using map_throws_Inr [of subs csv_row "\<lambda>s. js_join '','' (map quote_cell (plain_cells s))"] csv_row_ok
  by (simp add: generateCSV_def csv_header_def)

lemma export_parse:
  assumes "\<forall>s \<in> set subs. csv_ok s"
  shows "parseCSV (js_join [CHR 0x0A] (csv_header # map (\<lambda>s. js_join '','' (map quote_cell (plain_cells s))) subs))
    = (if subs = [] then Inl csv_error else Inr (map csv_view subs))"
proof -
  let ?row = "\<lambda>s. js_join '','' (map quote_cell (plain_cells s))"
  let ?lines = "csv_header # map ?row subs"
  have lines: "split_lines [] (js_join [CHR 0x0A] ?lines) = ?lines"
    by (rule split_lines_join) (use assms row_line(3) csv_header_ok(3) in auto)
  have "filter (\<lambda>line. js_trim line \<noteq> '''') ?lines = ?lines"
    using assms row_line(2) csv_header_ok(2) by (auto simp: filter_id_conv)
  then have "parseCSV (js_join [CHR 0x0A] ?lines)
      = (case ?lines of h # r # rs \<Rightarrow> Inr (concat (map (parse_data_row (header_map (parseCSVLine h))) (r # rs))) | _ \<Rightarrow> Inl csv_error)"
    by (simp only: parseCSV_def lines)
  moreover have "concat (map (parse_data_row printed_columns) (map ?row subs)) = map csv_view subs"
    using assms parse_printed_row by (induction subs) simp_all
  ultimately have "parseCSV (js_join [CHR 0x0A] ?lines) = (if subs = [] then Inl csv_error else Inr (map csv_view subs))"
    by (cases subs) (simp_all add: csv_header_ok(1) printed_columns_def)
  then show ?thesis .
qed

section \<open>Properties\<close>

text \<open>C11: Exporting then parsing: for subscriptions with a name and a valid billing date whose texts are trimmed and without line
  feeds and whose amounts are whole millionths and not negative, the printed file parses to one row per subscription, in order, with every
  exported field: commas and quotes in texts included. An empty list prints a lone header, which is refused.\<close>

theorem export_round_trip:
  assumes "\<forall>s \<in> set subs. csv_ok s"
  shows "\<exists>csv. generateCSV subs = Inr csv \<and>
     parseCSV csv = (if subs = [] then Inl csv_error else Inr (map csv_view subs))"
  using generate_ok [OF assms] export_parse [OF assms] by blast

definition sample_subscription :: Subscription where
  "sample_subscription = \<lparr>sb_id = ''s1'', sb_name = ''Disney+, \"HD\"'', sb_description = None, sb_category = STREAMING,
     sb_price = Fin (1599 / 100), sb_currency = ''USD'', sb_billingCycle = MONTHLY, sb_nextBillingDate = Some 1777593600000,
     sb_isActive = True, sb_notificationsEnabled = None, sb_isCryptoEnabled = False, sb_cryptoToken = Some ''XLM'',
     sb_cryptoAmount = Some (Fin (1 / 2)), sb_externalId = None, sb_externalSource = None, sb_createdAt = 0, sb_updatedAt = 0\<rparr>"

lemma sample_ok: "csv_ok sample_subscription"
  by code_simp

theorem export_round_trip_witness:
  "\<exists>csv. generateCSV [sample_subscription] = Inr csv \<and> parseCSV csv = Inr [csv_view sample_subscription]"
  using export_round_trip [of "[sample_subscription]"] sample_ok by simp


section \<open>Restoring an export\<close>

lemma category_round_trip: "normalizeCategory (category_name c) = c \<and> category_check row (Some (category_name c)) = ([], [])"
proof -
  have "list_all (\<lambda>c. normalizeCategory (category_name c) = c \<and> category_name c \<noteq> '''' \<and>
      js_lower (category_name c) \<in> set (map category_name VALID_CATEGORIES)) VALID_CATEGORIES" by code_simp
  moreover have "c \<in> set VALID_CATEGORIES" by (cases c) (simp_all add: VALID_CATEGORIES_def)
  ultimately have "normalizeCategory (category_name c) = c \<and> category_name c \<noteq> '''' \<and>
      js_lower (category_name c) \<in> set (map category_name VALID_CATEGORIES)" unfolding list_all_iff by (rule bspec)
  then show ?thesis by (simp add: category_check_def truthy_def)
qed

lemma cycle_round_trip: "normalizeBillingCycle (cycle_name c) = c \<and> cycle_check row (Some (cycle_name c)) = ([], [])"
proof -
  have "list_all (\<lambda>c. normalizeBillingCycle (cycle_name c) = c \<and> cycle_name c \<noteq> '''' \<and>
      js_lower (cycle_name c) \<in> set (map cycle_name VALID_BILLING_CYCLES)) VALID_BILLING_CYCLES" by code_simp
  moreover have "c \<in> set VALID_BILLING_CYCLES" by (cases c) (simp_all add: VALID_BILLING_CYCLES_def)
  ultimately have "normalizeBillingCycle (cycle_name c) = c \<and> cycle_name c \<noteq> '''' \<and>
      js_lower (cycle_name c) \<in> set (map cycle_name VALID_BILLING_CYCLES)" unfolding list_all_iff by (rule bspec)
  then show ?thesis by (simp add: cycle_check_def truthy_def)
qed

lemma parse_decimal_dash:
  assumes "list_all is_digit ds" "ds \<noteq> []"
  shows "\<exists>x. parse_decimal (ds @ CHR ''-'' # rest) = Some (x, CHR ''-'' # rest)"
proof -
  have "takeWhile is_digit (ds @ CHR ''-'' # rest) = ds" "dropWhile is_digit (ds @ CHR ''-'' # rest) = CHR ''-'' # rest"
    using takeWhile_digits [OF assms(1), of "CHR ''-'' # rest"] by simp_all
  then show ?thesis using assms(2) by (simp add: parse_decimal_def parse_exponent_def Let_def)
qed

lemma digit_lower: "is_digit c \<Longrightarrow> lower_char c = c \<and> c \<notin> {CHR ''x'', CHR ''o'', CHR ''b'', CHR ''-'', CHR ''+'', CHR ''I''}"
  by (auto simp: is_digit_def lower_char_def Let_def)

lemma no_radix: "\<forall>c \<in> set s. numeric_char c \<Longrightarrow> parse_radix s = None"
proof -
  assume num: "\<forall>c \<in> set s. numeric_char c"
  have low: "lower_char c \<notin> {CHR ''x'', CHR ''o'', CHR ''b''}" if "numeric_char c" for c
  proof (cases "is_digit c")
    case True
    then show ?thesis using digit_lower by simp
  next
    case False
    then show ?thesis using that by (auto simp: numeric_char_def lower_char_def)
  qed
  have "map lower_char (take 2 s) \<noteq> [a, b]" if "b \<in> {CHR ''x'', CHR ''o'', CHR ''b''}" for a b
  proof
    assume eq: "map lower_char (take 2 s) = [a, b]"
    have "b \<in> set (map lower_char (take 2 s))" unfolding eq by simp
    then obtain c where c: "c \<in> set (take 2 s)" "b = lower_char c" by auto
    have "numeric_char c" using num in_set_takeD [OF c(1)] by blast
    from low [OF this] show False using that unfolding c(2) by (rule notE)
  qed
  then have "map lower_char (take 2 s) \<noteq> ''0x''" "map lower_char (take 2 s) \<noteq> ''0o''" "map lower_char (take 2 s) \<noteq> ''0b''"
    by simp_all
  then show ?thesis unfolding parse_radix_def Let_def by (simp only: if_False if_True simp_thms)
qed

lemma isoDate_not_number: "js_Number (isoDate t) = NaN"
proof -
  obtain y m d where c: "civil (t div ONE_DAY_MS) = (y, m, d)" by (metis prod_cases3)
  define rest where "rest = pad_left 2 (show_nat (nat m)) @ ''-'' @ pad_left 2 (show_nat (nat d))"
  have eq: "isoDate t = show_year y @ CHR ''-'' # rest" by (simp add: isoDate_def c rest_def)
  have dig: "list_all is_digit (pad_left k (show_nat n))" "pad_left k (show_nat n) \<noteq> []" for k n
    using pad_left_digits digits_show_nat [of n] by (auto simp: list_all_iff pad_left_def)
  have trim: "js_trim (isoDate t) = isoDate t" "isoDate t \<noteq> []" using isoDate_numeric [of t] numeric_cell js_trim_trimmed by blast+
  obtain neg ds where year: "parse_sign (isoDate t) = (neg, ds @ CHR ''-'' # rest)" "list_all is_digit ds" "ds \<noteq> []"
  proof (cases "0 \<le> y \<and> y \<le> 9999")
    case True
    define ds where "ds = pad_left 4 (show_nat (nat y))"
    have s: "isoDate t = ds @ CHR ''-'' # rest" using True by (simp add: eq show_year_def ds_def)
    have ds: "list_all is_digit ds" "ds \<noteq> []" unfolding ds_def by (rule dig)+
    then have "is_digit (hd ds)" by (cases ds) simp_all
    then have "parse_sign (isoDate t) = (False, ds @ CHR ''-'' # rest)"
      using digit_lower [of "hd ds"] ds(2) unfolding s by (simp add: parse_sign_def)
    then show ?thesis using ds that by blast
  next
    case False
    have "isoDate t = (if y < 0 then CHR ''-'' else CHR ''+'') # pad_left 6 (show_nat (nat \<bar>y\<bar>)) @ CHR ''-'' # rest"
      using False by (auto simp: eq show_year_def)
    then have "parse_sign (isoDate t) = (y < 0, pad_left 6 (show_nat (nat \<bar>y\<bar>)) @ CHR ''-'' # rest)"
      by (simp add: parse_sign_def)
    then show ?thesis using dig that by blast
  qed
  obtain x where x: "parse_decimal (ds @ CHR ''-'' # rest) = Some (x, CHR ''-'' # rest)"
    using parse_decimal_dash [OF year(2,3)] by blast
  have "hd ds \<noteq> CHR ''I''" using year(2,3) digit_lower [of "hd ds"] by (cases ds) auto
  then have "ds @ CHR ''-'' # rest \<noteq> js_infinity" using year(3) by (cases ds) (auto simp: js_infinity_def)
  moreover have "parse_radix (isoDate t) = None" by (rule no_radix) (use isoDate_numeric in blast)
  ultimately show ?thesis using trim year(1) x by (simp add: js_Number_def Let_def)
qed


text \<open>What an import of the printed file makes of a subscription: a fresh id and times, the date cut to its day.\<close>

definition restored :: "int \<Rightarrow> string \<Rightarrow> Subscription \<Rightarrow> Subscription" where
  "restored now uid s =
     s\<lparr>sb_id := uid, sb_description := nonempty (the_or (sb_description s) ''''),
       sb_currency := js_upper (or_default (Some (sb_currency s)) ''USD''),
       sb_nextBillingDate := map_option (\<lambda>t. ONE_DAY_MS * (t div ONE_DAY_MS)) (sb_nextBillingDate s),
       sb_notificationsEnabled := Some (the_or (sb_notificationsEnabled s) True),
       sb_cryptoToken := nonempty (the_or (sb_cryptoToken s) ''''), sb_externalId := nonempty (the_or (sb_externalId s) ''''),
       sb_externalSource := None, sb_createdAt := now, sb_updatedAt := now\<rparr>"

text \<open>\<open>Date.parse\<close> reads a calendar date as midnight UTC, as the language specifies.\<close>

definition reads_dates :: "(string \<Rightarrow> int option) \<Rightarrow> Subscription \<Rightarrow> bool" where
  "reads_dates date_parse s \<longleftrightarrow>
     (case sb_nextBillingDate s of None \<Rightarrow> False | Some t \<Rightarrow> date_parse (isoDate t) = Some (ONE_DAY_MS * (t div ONE_DAY_MS)))"

lemma js_upper_usd: "js_upper ''USD'' = ''USD''"
  by code_simp

lemma build_restored:
  assumes "csv_ok s" "reads_dates date_parse s"
  shows "buildSubscriptionFromInput date_parse now uid (csv_view s) None = Inr (restored now uid s)"
proof -
  obtain t where t: "sb_nextBillingDate s = Some t" "date_parse (isoDate t) = Some (ONE_DAY_MS * (t div ONE_DAY_MS))"
    using assms(2) by (auto simp: reads_dates_def split: option.splits)
  have trim: "js_trim (isoDate t) = isoDate t" "isoDate t \<noteq> []" using isoDate_numeric [of t] numeric_cell js_trim_trimmed by blast+
  have date: "parseDate date_parse now (Some (isoDate t)) = Some (ONE_DAY_MS * (t div ONE_DAY_MS))"
    using trim t(2) by (simp add: parseDate_def Let_def isoDate_not_number)
  have cur: "or_default (map_option js_upper (nonempty (sb_currency s))) ''USD'' = js_upper (or_default (Some (sb_currency s)) ''USD'')"
    by (simp add: nonempty_def or_default_def js_upper_usd) (simp add: js_upper_def)
  show ?thesis
    by (cases s) (use cur date t(1) category_round_trip cycle_round_trip in
      \<open>simp add: buildSubscriptionFromInput_def csv_view_def restored_def opt_or_def bind_eq_None_conv split: option.split\<close>)
qed

lemma view_valid:
  assumes "csv_ok s" "reads_dates date_parse s"
  shows "row_ok date_parse (csv_view s)" "fst (validate_row date_parse row (csv_view s)) = []"
proof -
  obtain t where t: "sb_nextBillingDate s = Some t" "date_parse (isoDate t) = Some (ONE_DAY_MS * (t div ONE_DAY_MS))"
    using assms(2) by (auto simp: reads_dates_def split: option.splits)
  have name: "sb_name s \<noteq> ''''" "js_trim (sb_name s) = sb_name s" using assms(1) cell_okD [of "sb_name s"] by (auto simp: csv_ok_def)
  have "printable (sb_price s)" using assms(1) by (simp add: csv_ok_def)
  then have price: "\<not> bad_price (sb_price s)" by (cases "sb_price s") simp_all
  have view: "si_name (csv_view s) = Some (sb_name s)" "si_price (csv_view s) = Some (sb_price s)"
    "si_category (csv_view s) = Some (category_name (sb_category s))" "si_nextBillingDate (csv_view s) = Some (isoDate t)"
    "si_billingCycle (csv_view s) = Some (cycle_name (sb_billingCycle s))"
    by (simp_all add: csv_view_def t(1))
  show "row_ok date_parse (csv_view s)" using name price t(2) by (simp add: row_ok_def view truthy_def)
  have cat: "category_check row (Some (category_name (sb_category s))) = ([], [])"
    and cyc: "cycle_check row (Some (cycle_name (sb_billingCycle s))) = ([], [])"
    using category_round_trip cycle_round_trip by blast+
  show "fst (validate_row date_parse row (csv_view s)) = []"
    using name price t(2) by (simp add: validate_row_def view truthy_def cat cyc Let_def)
qed


lemma validate_views:
  assumes "\<forall>s \<in> set subs. csv_ok s \<and> reads_dates date_parse s"
  shows "vr_errors (validateImport date_parse (map csv_view subs)) = []"
    "vr_validRows (validateImport date_parse (map csv_view subs)) = map csv_view subs"
proof -
  have "vr_errors (foldl (validate_step date_parse) v (enumerate n (map csv_view subs))) = vr_errors v" for v n
    using assms
  proof (induction subs arbitrary: v n)
    case (Cons s subs)
    obtain es ws keep where r: "validate_row date_parse (n + 1) (csv_view s) = (es, ws, keep)" by (metis prod_cases3)
    have "es = []" using view_valid(2) [of s date_parse "n + 1"] Cons.prems r by simp
    then have "vr_errors (validate_step date_parse v (n, csv_view s)) = vr_errors v" using r by (simp add: validate_step_def)
    then show ?case using Cons by simp
  qed simp
  then show "vr_errors (validateImport date_parse (map csv_view subs)) = []" by (simp add: validateImport_def Let_def)
  show "vr_validRows (validateImport date_parse (map csv_view subs)) = map csv_view subs"
    unfolding valid_rows using assms view_valid(1) by (auto simp: filter_id_conv)
qed

definition empty_index :: ExistingIndex where
  "empty_index = \<lparr>ex_byName = [], ex_byId = [], ex_byExternalId = []\<rparr>"

definition restore_name :: "Subscription \<Rightarrow> string" where
  "restore_name s = js_trim (js_lower (sb_name s))"

definition restore_external :: "Subscription \<Rightarrow> string" where
  "restore_external s = the_or (sb_externalId s) ''''"

definition restore_action :: "int \<Rightarrow> (nat \<Rightarrow> string) \<Rightarrow> nat \<times> Subscription \<Rightarrow> ImportAction" where
  "restore_action now ids p = CreateAction (fst p + 1) (restored now (ids (fst p + 1)) (snd p))"

lemma plan_restored_row:
  assumes "csv_ok s" "reads_dates date_parse s" "restore_name s \<notin> set (is_seenNames st)"
    "restore_external s \<notin> set (is_seenExternalIds st)"
  shows "plan_row date_parse now ids mode empty_index st (i, csv_view s) =
    Inr (st\<lparr>is_seenNames := restore_name s # is_seenNames st,
      is_seenExternalIds := (if restore_external s = '''' then is_seenExternalIds st else restore_external s # is_seenExternalIds st),
      is_actions := is_actions st @ [restore_action now ids (i, s)]\<rparr>)"
proof -
  have view: "si_name (csv_view s) = Some (sb_name s)" "si_id (csv_view s) = None"
    "si_externalId (csv_view s) = nonempty (restore_external s)"
    by (simp_all add: csv_view_def restore_external_def)
  have no: "find_existing (ex_byId empty_index) k = None" "find_existing (ex_byExternalId empty_index) k = None"
    "map_of (ex_byName empty_index) n = None" for k n
    by (simp_all add: empty_index_def find_existing_def split: option.split)
  have t: "truthy None = False" "truthy (nonempty x) = (x \<noteq> '''')" "the_or (nonempty x) '''' = x" for x
    by (simp_all add: truthy_def nonempty_def)
  show ?thesis
    using assms(3,4) build_restored [OF assms(1,2), of now "ids (i + 1)"]
    by (cases mode) (simp_all add: plan_row_def Let_def view no t opt_or_def restore_name_def [symmetric] restore_action_def)
qed

lemma plan_restored:
  assumes "\<forall>s \<in> set subs. csv_ok s \<and> reads_dates date_parse s" "distinct (map restore_name subs)"
    "distinct (filter (\<lambda>e. e \<noteq> '''') (map restore_external subs))"
    "set (is_seenNames st) \<inter> restore_name ` set subs = {}" "set (is_seenExternalIds st) \<inter> restore_external ` set subs = {}"
    "'''' \<notin> set (is_seenExternalIds st)"
  shows "\<exists>st'. plan_rows date_parse now ids mode empty_index st (enumerate i (map csv_view subs)) = Inr st' \<and>
    is_errors st' = is_errors st \<and> is_actions st' = is_actions st @ map (restore_action now ids) (enumerate i subs)"
  using assms
proof (induction subs arbitrary: st i)
  case (Cons s subs)
  define st1 where "st1 = st\<lparr>is_seenNames := restore_name s # is_seenNames st,
      is_seenExternalIds := (if restore_external s = '''' then is_seenExternalIds st else restore_external s # is_seenExternalIds st),
      is_actions := is_actions st @ [restore_action now ids (i, s)]\<rparr>"
  have row: "plan_row date_parse now ids mode empty_index st (i, csv_view s) = Inr st1"
    unfolding st1_def by (rule plan_restored_row) (use Cons.prems in auto)
  have ext: "set (is_seenExternalIds st1) \<inter> restore_external ` set subs = {}"
    using Cons.prems(3,5) by (auto simp: st1_def split: if_splits)
  have "\<exists>st'. plan_rows date_parse now ids mode empty_index st1 (enumerate (Suc i) (map csv_view subs)) = Inr st' \<and>
    is_errors st' = is_errors st1 \<and> is_actions st' = is_actions st1 @ map (restore_action now ids) (enumerate (Suc i) subs)"
    by (rule Cons.IH) (use Cons.prems ext in \<open>auto simp: st1_def split: if_splits\<close>)
  then show ?case using row by (simp add: st1_def)
qed simp

text \<open>C6: A backup restores. Take a non-empty list of subscriptions that each have a name and a valid billing date, texts that are
  trimmed and without line feeds, and amounts of whole millionths and not negative, with names that differ after trimming and lower-casing and
  external ids that differ where there are any, and let \<open>Date.parse\<close> read the printed dates back. Then exporting them and
  importing the file into an empty store succeeds in any mode and creates exactly those subscriptions, in order, but for what
  \<open>restored\<close> names: they get new ids and times, the billing date loses its hour, the external source is lost, an unset
  notification flag becomes true, the currency is upper-cased (USD when it was empty), and an empty description, token or external id
  becomes none.\<close>

theorem backup_restores:
  assumes "\<forall>s \<in> set subs. csv_ok s \<and> reads_dates date_parse s" "distinct (map restore_name subs)"
    "distinct (filter (\<lambda>e. e \<noteq> '''') (map restore_external subs))" "subs \<noteq> []"
  shows "\<exists>csv rows r. generateCSV subs = Inr csv \<and> parseCSV csv = Inr rows \<and>
    processImport date_parse now ids mode rows [] = Inr r \<and> im_success r \<and> im_imported r = length subs \<and>
    im_actions r = map (restore_action now ids) (enumerate 0 subs)"
proof -
  obtain csv where csv: "generateCSV subs = Inr csv" "parseCSV csv = Inr (map csv_view subs)"
    using generate_ok [of subs] export_parse [of subs] assms(1,4) by simp
  define st0 where "st0 = \<lparr>is_seenNames = [], is_seenIds = [], is_seenExternalIds = [], is_actions = [], is_errors = []\<rparr>"
  obtain st where st: "plan_rows date_parse now ids mode empty_index st0 (enumerate 0 (map csv_view subs)) = Inr st"
    "is_errors st = []" "is_actions st = map (restore_action now ids) (enumerate 0 subs)"
    using plan_restored [OF assms(1-3), of st0 now ids mode 0] by (auto simp: st0_def)
  have "index_existing [] = empty_index" by (simp add: index_existing_def empty_index_def)
  then have plan: "buildImportActions date_parse now ids mode (map csv_view subs) []
      = Inr (is_actions st, [], vr_warnings (validateImport date_parse (map csv_view subs)))"
    using st(1,2) validate_views [OF assms(1)] by (simp add: buildImportActions_def Let_def st0_def)
  have "filter is_create (map (restore_action now ids) ps) = map (restore_action now ids) ps" for ps
    by (induction ps) (simp_all add: restore_action_def)
  then have "length (filter is_create (is_actions st)) = length subs" unfolding st(3) by simp
  then obtain r where "processImport date_parse now ids mode (map csv_view subs) [] = Inr r" "im_success r"
    "im_imported r = length subs" "im_actions r = is_actions st"
    by (simp add: processImport_def plan)
  then show ?thesis using csv st(3) by (intro exI [of _ csv] exI [of _ "map csv_view subs"] exI [of _ r] conjI) simp_all
qed

theorem backup_restores_witness:
  "\<exists>csv rows r. generateCSV [sample_subscription] = Inr csv \<and> parseCSV csv = Inr rows \<and>
    processImport (\<lambda>_. Some 1777593600000) 9 (\<lambda>_. ''u'') ModeCreate rows [] = Inr r \<and> im_success r \<and> im_imported r = 1 \<and>
    im_actions r = [CreateAction 1 (restored 9 ''u'' sample_subscription)]"
proof -
  have "reads_dates (\<lambda>_. Some 1777593600000) sample_subscription" by code_simp
  then show ?thesis
    using backup_restores [of "[sample_subscription]" "\<lambda>_. Some 1777593600000" 9 "\<lambda>_. ''u''" ModeCreate] sample_ok
    by (simp add: restore_action_def)
qed

end
