(* ===== verification/JsonText.thy ===== *)
theory JsonText
  imports JsString
begin

text \<open>
  JSON documents, \<open>JSON.stringify\<close> (with the array of property names that filters and orders the
  members of every object in the document) and \<open>JSON.parse\<close>. Members that are \<open>undefined\<close>
  are absent. Texts are Latin-1; numbers are exact and printed to six decimals. The main lemma is
  the round trip \<open>parse_stringify\<close>, and with it the injectivity of \<open>stringify\<close>.
\<close>

section \<open>Documents and printing\<close>

datatype json = JNull | JBool bool | JNum rat | JStr string | JArr "json list" | JObj "(string \<times> json) list"

definition hex_char :: "nat \<Rightarrow> char" where
  "hex_char n = (if n < 10 then char_of (48 + n) else char_of (87 + n))"

definition json_char :: "char \<Rightarrow> string" where
  "json_char c =
     (let n = of_char c :: nat
      in if n = 34 then [CHR 0x5C, c] else if n = 92 then [CHR 0x5C, c]
         else if n = 8 then [CHR 0x5C, CHR ''b''] else if n = 12 then [CHR 0x5C, CHR ''f'']
         else if n = 10 then [CHR 0x5C, CHR ''n''] else if n = 13 then [CHR 0x5C, CHR ''r'']
         else if n = 9 then [CHR 0x5C, CHR ''t'']
         else if n < 32 then [CHR 0x5C, CHR ''u'', CHR ''0'', CHR ''0'', hex_char (n div 16), hex_char (n mod 16)]
         else [c])"

definition json_quote :: "string \<Rightarrow> string" where
  "json_quote s = CHR 0x22 # concat (map json_char s) @ [CHR 0x22]"

fun stringify :: "json \<Rightarrow> string" and stringify_items :: "json list \<Rightarrow> string"
  and stringify_members :: "(string \<times> json) list \<Rightarrow> string" where
  "stringify JNull = ''null''"
| "stringify (JBool b) = (if b then ''true'' else ''false'')"
| "stringify (JNum x) = show_num x"
| "stringify (JStr s) = json_quote s"
| "stringify (JArr xs) = CHR ''['' # stringify_items xs @ '']''"
| "stringify (JObj ps) = CHR ''{'' # stringify_members ps @ ''}''"
| "stringify_items [] = ''''"
| "stringify_items (x # xs) = stringify x @ (if xs = [] then '''' else CHR '','' # stringify_items xs)"
| "stringify_members [] = ''''"
| "stringify_members ((k, v) # ps) =
     json_quote k @ CHR '':'' # stringify v @ (if ps = [] then '''' else CHR '','' # stringify_members ps)"

text \<open>The members named in a list, in the order of the list, in every object of a document.\<close>

definition pick :: "string list \<Rightarrow> (string \<times> 'a) list \<Rightarrow> (string \<times> 'a) list" where
  "pick names ps = List.map_filter (\<lambda>k. map_option (Pair k) (map_of ps k)) names"

fun select_props :: "string list \<Rightarrow> json \<Rightarrow> json" and select_items :: "string list \<Rightarrow> json list \<Rightarrow> json list"
  and select_members :: "string list \<Rightarrow> (string \<times> json) list \<Rightarrow> (string \<times> json) list" where
  "select_props names (JArr xs) = JArr (select_items names xs)"
| "select_props names (JObj ps) = JObj (pick names (select_members names ps))"
| "select_props names v = v"
| "select_items names [] = []"
| "select_items names (x # xs) = select_props names x # select_items names xs"
| "select_members names [] = []"
| "select_members names ((k, v) # ps) = (k, select_props names v) # select_members names ps"

section \<open>Parsing\<close>

definition json_space :: "char \<Rightarrow> bool" where
  "json_space c \<longleftrightarrow> c \<in> {CHR 0x09, CHR 0x0A, CHR 0x0D, CHR 0x20}"

definition skip_ws :: "string \<Rightarrow> string" where
  "skip_ws s = dropWhile json_space s"

definition hex_digit_val :: "char \<Rightarrow> nat option" where
  "hex_digit_val c = radix_digit 16 c"

definition hex4 :: "char \<Rightarrow> char \<Rightarrow> char \<Rightarrow> char \<Rightarrow> nat option" where
  "hex4 a b c d = (case (hex_digit_val a, hex_digit_val b, hex_digit_val c, hex_digit_val d) of
     (Some p, Some q, Some r, Some s) \<Rightarrow> Some (4096 * p + 256 * q + 16 * r + s) | _ \<Rightarrow> None)"

definition unescape :: "char \<Rightarrow> char option" where
  "unescape e =
     (if e \<in> {CHR 0x22, CHR 0x5C, CHR ''/''} then Some e
      else if e = CHR ''b'' then Some (CHR 0x08) else if e = CHR ''f'' then Some (CHR 0x0C)
      else if e = CHR ''n'' then Some (CHR 0x0A) else if e = CHR ''r'' then Some (CHR 0x0D)
      else if e = CHR ''t'' then Some (CHR 0x09) else None)"

text \<open>The characters of a string after its opening quote; code units beyond Latin-1 are refused.\<close>

fun parse_chars :: "string \<Rightarrow> string \<Rightarrow> (string \<times> string) option" where
  "parse_chars acc [] = None"
| "parse_chars acc (c # cs) =
     (if c = CHR 0x22 then Some (acc, cs)
      else if c = CHR 0x5C then
        (case cs of
           [] \<Rightarrow> None
         | e # r \<Rightarrow>
             if e = CHR ''u'' then
               (case r of
                  a # b # c # d # r1 \<Rightarrow>
                    (case hex4 a b c d of
                       None \<Rightarrow> None
                     | Some n \<Rightarrow> if n < 256 then parse_chars (acc @ [char_of n]) r1 else None)
                | _ \<Rightarrow> None)
             else (case unescape e of None \<Rightarrow> None | Some u \<Rightarrow> parse_chars (acc @ [u]) r))
      else if (of_char c :: nat) < 32 then None
      else parse_chars (acc @ [c]) cs)"

definition parse_unsigned :: "string \<Rightarrow> (rat \<times> string) option" where
  "parse_unsigned s =
     (let ip = takeWhile is_digit s; r = dropWhile is_digit s
      in if ip = [] \<or> (hd ip = CHR ''0'' \<and> tl ip \<noteq> []) then None
         else if r \<noteq> [] \<and> hd r = CHR ''.'' \<and> takeWhile is_digit (tl r) = [] then None
         else parse_decimal s)"

definition parse_json_number :: "string \<Rightarrow> (rat \<times> string) option" where
  "parse_json_number s =
     (if s \<noteq> [] \<and> hd s = CHR ''-'' then map_option (\<lambda>(x, r). (- x, r)) (parse_unsigned (tl s)) else parse_unsigned s)"

fun parse_value :: "nat \<Rightarrow> string \<Rightarrow> (json \<times> string) option"
  and parse_items :: "nat \<Rightarrow> string \<Rightarrow> (json list \<times> string) option"
  and parse_members :: "nat \<Rightarrow> string \<Rightarrow> ((string \<times> json) list \<times> string) option" where
  "parse_value 0 s = None"
| "parse_value (Suc n) s =
     (case skip_ws s of
        [] \<Rightarrow> None
      | c # cs \<Rightarrow>
          if c = CHR 0x22 then map_option (\<lambda>(k, r). (JStr k, r)) (parse_chars [] cs)
          else if c = CHR ''['' then
            (if skip_ws cs \<noteq> [] \<and> hd (skip_ws cs) = CHR '']'' then Some (JArr [], tl (skip_ws cs))
             else map_option (\<lambda>(xs, r). (JArr xs, r)) (parse_items n cs))
          else if c = CHR ''{'' then
            (if skip_ws cs \<noteq> [] \<and> hd (skip_ws cs) = CHR ''}'' then Some (JObj [], tl (skip_ws cs))
             else map_option (\<lambda>(ps, r). (JObj (foldl (\<lambda>m (k, v). AList.update k v m) [] ps), r)) (parse_members n cs))
          else if take 4 (c # cs) = ''null'' then Some (JNull, drop 4 (c # cs))
          else if take 4 (c # cs) = ''true'' then Some (JBool True, drop 4 (c # cs))
          else if take 5 (c # cs) = ''false'' then Some (JBool False, drop 5 (c # cs))
          else map_option (\<lambda>(x, r). (JNum x, r)) (parse_json_number (c # cs)))"
| "parse_items 0 s = None"
| "parse_items (Suc n) s =
     (case parse_value n s of
        None \<Rightarrow> None
      | Some (v, r) \<Rightarrow>
          (case skip_ws r of
             [] \<Rightarrow> None
           | c # r1 \<Rightarrow>
               if c = CHR '']'' then Some ([v], r1)
               else if c = CHR '','' then map_option (\<lambda>(vs, r2). (v # vs, r2)) (parse_items n r1)
               else None))"
| "parse_members 0 s = None"
| "parse_members (Suc n) s =
     (case skip_ws s of
        [] \<Rightarrow> None
      | q # t \<Rightarrow>
          if q \<noteq> CHR 0x22 then None
          else case parse_chars [] t of
            None \<Rightarrow> None
          | Some (k, r) \<Rightarrow>
              (case skip_ws r of
                 [] \<Rightarrow> None
               | c # r1 \<Rightarrow>
                   if c \<noteq> CHR '':'' then None
                   else case parse_value n r1 of
                     None \<Rightarrow> None
                   | Some (v, r2) \<Rightarrow>
                       (case skip_ws r2 of
                          [] \<Rightarrow> None
                        | d # r3 \<Rightarrow>
                            if d = CHR ''}'' then Some ([(k, v)], r3)
                            else if d = CHR '','' then map_option (\<lambda>(ps, r4). ((k, v) # ps, r4)) (parse_members n r3)
                            else None)))"

text \<open>Every two nested calls consume a character, so that twice the length of the text is enough fuel.\<close>

definition JSON_parse :: "string \<Rightarrow> json option" where
  "JSON_parse s =
     (case parse_value (2 * length s + 2) s of
        None \<Rightarrow> None
      | Some (v, r) \<Rightarrow> if skip_ws r = [] then Some v else None)"


section \<open>Printed texts parse back\<close>

definition delim :: "string \<Rightarrow> bool" where
  "delim rest \<longleftrightarrow> rest = [] \<or> hd rest \<in> {CHR '','', CHR '']'', CHR ''}''}"

lemma delimD:
  assumes "delim rest"
  shows "rest = [] \<or> \<not> is_digit (hd rest) \<and> hd rest \<notin> {CHR ''.'', CHR ''e'', CHR ''E''}"
proof -
  have "\<not> is_digit d \<and> d \<notin> {CHR ''.'', CHR ''e'', CHR ''E''}" if "d \<in> {CHR '','', CHR '']'', CHR ''}''}" for d
    using that by (elim insertE emptyE; hypsubst) (simp_all add: is_digit_def)
  then show ?thesis using assms unfolding delim_def by blast
qed

lemma delim_Cons [simp]: "delim (CHR '','' # r)" "delim (CHR '']'' # r)" "delim (CHR ''}'' # r)" "delim []"
  by (simp_all add: delim_def)

lemma hex_digit_char:
  assumes "n < 16"
  shows "hex_digit_val (hex_char n) = Some n"
proof -
  define m where "m = (if n < 10 then 48 + n else 87 + n)"
  have m: "m < 256" "hex_char n = char_of m" using assms by (simp_all add: m_def hex_char_def)
  then have oc: "(of_char (hex_char n) :: nat) = m" by (simp only: of_char_of mod_less)
  have low: "lower_char (hex_char n) = hex_char n" using assms unfolding lower_char_def oc Let_def by (simp add: m_def)
  show ?thesis using assms unfolding hex_digit_val_def radix_digit_def low oc Let_def by (simp add: m_def)
qed

lemma hex4_char: "n < 32 \<Longrightarrow> hex4 (CHR ''0'') (CHR ''0'') (hex_char (n div 16)) (hex_char (n mod 16)) = Some n"
proof -
  assume n: "n < 32"
  have z: "hex_digit_val (CHR ''0'') = Some 0" by code_simp
  have "n div 16 < 16" "n mod 16 < 16" using n by auto
  then show ?thesis by (simp add: hex4_def z hex_digit_char)
qed

lemma parse_json_char: "parse_chars acc (json_char c @ rest) = parse_chars (acc @ [c]) rest"
proof -
  define n where "n = (of_char c :: nat)"
  have c: "c = char_of n" by (simp add: n_def)
  have jc: "json_char c = (if n = 34 then [CHR 0x5C, c] else if n = 92 then [CHR 0x5C, c]
         else if n = 8 then [CHR 0x5C, CHR ''b''] else if n = 12 then [CHR 0x5C, CHR ''f'']
         else if n = 10 then [CHR 0x5C, CHR ''n''] else if n = 13 then [CHR 0x5C, CHR ''r'']
         else if n = 9 then [CHR 0x5C, CHR ''t'']
         else if n < 32 then [CHR 0x5C, CHR ''u'', CHR ''0'', CHR ''0'', hex_char (n div 16), hex_char (n mod 16)]
         else [c])"
    by (simp only: json_char_def Let_def n_def)
  consider (esc) "n = 34" | (bs) "n = 92" | (b) "n = 8" | (f) "n = 12" | (nl) "n = 10" | (cr) "n = 13" | (tab) "n = 9"
    | (ctl) "n < 32" "n \<notin> {8, 12, 10, 13, 9}" | (plain) "32 \<le> n" "n \<noteq> 34" "n \<noteq> 92" by force
  then show ?thesis
  proof cases
    case esc
    then have c: "c = CHR 0x22" unfolding c by (simp only:) code_simp
    have "json_char (CHR 0x22) = [CHR 0x5C, CHR 0x22]" "unescape (CHR 0x22) = Some (CHR 0x22)" by code_simp+
    then show ?thesis unfolding c by simp
  next
    case bs
    then have c: "c = CHR 0x5C" unfolding c by (simp only:) code_simp
    have "json_char (CHR 0x5C) = [CHR 0x5C, CHR 0x5C]" "unescape (CHR 0x5C) = Some (CHR 0x5C)" by code_simp+
    then show ?thesis unfolding c by simp
  next
    case b
    then have c: "c = CHR 0x08" unfolding c by (simp only:) code_simp
    have "json_char (CHR 0x08) = [CHR 0x5C, CHR ''b'']" "unescape (CHR ''b'') = Some (CHR 0x08)" by code_simp+
    then show ?thesis unfolding c by simp
  next
    case f
    then have c: "c = CHR 0x0C" unfolding c by (simp only:) code_simp
    have "json_char (CHR 0x0C) = [CHR 0x5C, CHR ''f'']" "unescape (CHR ''f'') = Some (CHR 0x0C)" by code_simp+
    then show ?thesis unfolding c by simp
  next
    case nl
    then have c: "c = CHR 0x0A" unfolding c by (simp only:) code_simp
    have "json_char (CHR 0x0A) = [CHR 0x5C, CHR ''n'']" "unescape (CHR ''n'') = Some (CHR 0x0A)" by code_simp+
    then show ?thesis unfolding c by simp
  next
    case cr
    then have c: "c = CHR 0x0D" unfolding c by (simp only:) code_simp
    have "json_char (CHR 0x0D) = [CHR 0x5C, CHR ''r'']" "unescape (CHR ''r'') = Some (CHR 0x0D)" by code_simp+
    then show ?thesis unfolding c by simp
  next
    case tab
    then have c: "c = CHR 0x09" unfolding c by (simp only:) code_simp
    have "json_char (CHR 0x09) = [CHR 0x5C, CHR ''t'']" "unescape (CHR ''t'') = Some (CHR 0x09)" by code_simp+
    then show ?thesis unfolding c by simp
  next
    case ctl
    then have "json_char c = [CHR 0x5C, CHR ''u'', CHR ''0'', CHR ''0'', hex_char (n div 16), hex_char (n mod 16)]"
      unfolding jc by simp
    then show ?thesis using hex4_char [OF ctl(1)] ctl(1) by (simp add: c)
  next
    case plain
    then have "json_char c = [c]" unfolding jc by simp
    moreover have "c \<noteq> CHR 0x22" "c \<noteq> CHR 0x5C" using plain by (auto simp: n_def)
    moreover have "\<not> (of_char c :: nat) < 32" using plain by (simp add: n_def)
    ultimately show ?thesis by simp
  qed
qed

lemma parse_quoted_chars: "parse_chars acc (concat (map json_char s) @ CHR 0x22 # rest) = Some (acc @ s, rest)"
  by (induction s arbitrary: acc) (simp_all add: parse_json_char)

definition json_printable :: "rat \<Rightarrow> bool" where
  "json_printable x \<longleftrightarrow> of_int (js_round (x * 1000000)) = x * 1000000"

lemma show_nat_leading: "n = 0 \<or> hd (show_nat n) \<noteq> CHR ''0''"
proof (induction n rule: show_nat.induct)
  case (1 n)
  show ?case
  proof (cases "n < 10")
    case True
    then have s: "show_nat n = [char_of (48 + n)]" by (subst show_nat.simps) simp
    show ?thesis
    proof (cases "n = 0")
      case False
      have "48 + n < 256" using True by simp
      then have "(of_char (char_of (48 + n) :: char) :: nat) = 48 + n" by (simp only: of_char_of mod_less)
      then have "(char_of (48 + n) :: char) \<noteq> CHR ''0''"
      proof -
        have "(of_char (CHR ''0'') :: nat) = 48" by simp
        then show ?thesis using \<open>of_char (char_of (48 + n)) = 48 + n\<close> False by (metis add_cancel_right_right)
      qed
      then show ?thesis by (simp add: s)
    qed simp
  next
    case False
    then have eq: "show_nat n = show_nat (n div 10) @ [char_of (48 + n mod 10)]" by (subst show_nat.simps) simp
    have "n div 10 \<noteq> 0" using False by simp
    then show ?thesis using 1 [OF False] digits_show_nat [of "n div 10"] by (simp add: eq)
  qed
qed

lemma show_nat_zero: "show_nat 0 = ''0''"
  by code_simp

lemma show_micros_int: "\<exists>fp. show_micros n = show_nat (n div 1000000) @ fp \<and>
    (fp = [] \<or> (\<exists>ds. fp = CHR ''.'' # ds \<and> ds \<noteq> [] \<and> list_all is_digit ds))"
proof (cases "n mod 1000000 = 0")
  case False
  define pad where "pad = pad_left 6 (show_nat (n mod 1000000))"
  have dig: "digits_val pad = n mod 1000000" "list_all is_digit pad"
    using digits_show_nat [of "n mod 1000000"]
    by (auto simp: pad_def pad_left_def digits_val_append digits_zeros list_all_iff)
  obtain k where k: "pad = strip_zeros pad @ replicate k (CHR ''0'')" using strip_zeros_split by blast
  have "list_all is_digit (strip_zeros pad)" using dig(2) k by (metis list_all_append)
  moreover have "strip_zeros pad \<noteq> []"
  proof
    assume "strip_zeros pad = []"
    then have "digits_val pad = 0" using k by (metis append_Nil digits_zeros)
    then show False using dig(1) False by simp
  qed
  ultimately show ?thesis using False by (simp add: show_micros_def pad_def)
qed (simp add: show_micros_def)

lemma parse_json_micros:
  assumes "delim rest"
  shows "parse_unsigned (show_micros n @ rest) = Some (of_nat n / 1000000, rest)"
proof -
  obtain fp where fp: "show_micros n = show_nat (n div 1000000) @ fp"
    "fp = [] \<or> (\<exists>ds. fp = CHR ''.'' # ds \<and> ds \<noteq> [] \<and> list_all is_digit ds)" using show_micros_int by blast
  define ip where "ip = show_nat (n div 1000000)"
  have ip: "list_all is_digit ip" "ip \<noteq> []" using digits_show_nat [of "n div 1000000"] by (simp_all add: ip_def)
  have lead: "\<not> (hd ip = CHR ''0'' \<and> tl ip \<noteq> [])"
    using show_nat_leading [of "n div 1000000"] show_nat_zero by (cases "n div 1000000 = 0") (auto simp: ip_def)
  have nd: "fp @ rest = [] \<or> \<not> is_digit (hd (fp @ rest))"
    using fp(2) delimD [OF assms] by auto
  have tw: "takeWhile is_digit (ip @ fp @ rest) = ip" "dropWhile is_digit (ip @ fp @ rest) = fp @ rest"
    using takeWhile_digits [OF ip(1) nd] by simp_all
  have pt: "(fp @ rest \<noteq> [] \<and> hd (fp @ rest) = CHR ''.'' \<and> takeWhile is_digit (tl (fp @ rest)) = []) = False"
    using fp(2)
  proof
    assume "fp = []"
    then show ?thesis using delimD [OF assms] by auto
  next
    assume "\<exists>ds. fp = CHR ''.'' # ds \<and> ds \<noteq> [] \<and> list_all is_digit ds"
    then obtain ds where ds: "fp = CHR ''.'' # ds" "ds \<noteq> []" "list_all is_digit ds" by blast
    then show ?thesis by (cases ds) simp_all
  qed
  have sm: "show_micros n @ rest = ip @ fp @ rest" by (simp add: fp(1) ip_def)
  have ok: "(ip = [] \<or> hd ip = CHR ''0'' \<and> tl ip \<noteq> []) = False" using lead ip(2) by simp
  have "parse_decimal (ip @ fp @ rest) = Some (of_nat n / 1000000, rest)"
    using parse_show_micros_rest [OF delimD [OF assms], of n] unfolding sm .
  then show ?thesis unfolding sm parse_unsigned_def Let_def tw ok pt if_False .
qed

lemma micros_not_minus: "(show_micros m @ rest \<noteq> [] \<and> hd (show_micros m @ rest) = CHR ''-'') = False"
  using show_micros_shape [of m] by (cases "show_micros m") (auto simp: is_digit_def)

lemma parse_json_show:
  assumes "delim rest" "json_printable x"
  shows "parse_json_number (show_num x @ rest) = Some (x, rest)"
proof -
  define n where "n = js_round (x * 1000000)"
  have x: "x = of_int n / 1000000" using assms(2) by (simp add: json_printable_def n_def)
  show ?thesis
  proof (cases "n < 0")
    case True
    define m where "m = nat (- n)"
    have s: "show_num x = CHR ''-'' # show_micros m" using True by (simp add: show_num_def n_def [symmetric] m_def)
    have "- (of_nat m / 1000000) = x" using True by (simp add: x m_def)
    then show ?thesis using parse_json_micros [OF assms(1), of m] by (simp add: s parse_json_number_def)
  next
    case False
    then have s: "show_num x = show_micros (nat n)" by (simp add: show_num_def n_def [symmetric])
    have "(of_nat (nat n) :: rat) / 1000000 = x" using False by (simp add: x)
    then show ?thesis unfolding s parse_json_number_def micros_not_minus if_False using parse_json_micros [OF assms(1), of "nat n"] by simp
  qed
qed


text \<open>Documents that print exactly: numbers are whole millionths and no object repeats a name.\<close>

fun json_ok :: "json \<Rightarrow> bool" and json_items_ok :: "json list \<Rightarrow> bool" and json_members_ok :: "(string \<times> json) list \<Rightarrow> bool" where
  "json_ok (JNum x) = json_printable x"
| "json_ok (JArr xs) = json_items_ok xs"
| "json_ok (JObj ps) = (distinct (map fst ps) \<and> json_members_ok ps)"
| "json_ok _ = True"
| "json_items_ok [] = True"
| "json_items_ok (x # xs) = (json_ok x \<and> json_items_ok xs)"
| "json_members_ok [] = True"
| "json_members_ok ((k, v) # ps) = (json_ok v \<and> json_members_ok ps)"

definition json_head :: "char \<Rightarrow> bool" where
  "json_head c \<longleftrightarrow> is_digit c \<or> c \<in> {CHR ''-'', CHR ''n'', CHR ''t'', CHR ''f'', CHR 0x22, CHR ''['', CHR ''{''}"

lemma json_head_ok: "json_head c \<Longrightarrow> \<not> json_space c \<and> c \<notin> {CHR '']'', CHR ''}'', CHR '',''}"
  unfolding json_head_def by (elim disjE insertE emptyE; (hypsubst | simp add: is_digit_def json_space_def)?)
    (auto simp: is_digit_def json_space_def)

lemma show_num_head: "show_num x \<noteq> [] \<and> (is_digit (hd (show_num x)) \<or> hd (show_num x) = CHR ''-'')"
  using show_micros_shape by (auto simp: show_num_def Let_def)

lemma stringify_head: "stringify v \<noteq> [] \<and> json_head (hd (stringify v))"
  using show_num_head by (cases v) (auto simp: json_head_def json_quote_def)

lemma skip_ws_head: "json_head c \<Longrightarrow> skip_ws (c # s) = c # s"
  using json_head_ok by (simp add: skip_ws_def)

lemma skip_ws_stringify: "skip_ws (stringify v @ r) = stringify v @ r"
  using stringify_head [of v] skip_ws_head by (cases "stringify v") simp_all

lemma skip_ws_delim [simp]:
  "skip_ws (CHR '','' # r) = CHR '','' # r" "skip_ws (CHR '']'' # r) = CHR '']'' # r" "skip_ws (CHR ''}'' # r) = CHR ''}'' # r"
  "skip_ws (CHR '':'' # r) = CHR '':'' # r" "skip_ws (CHR 0x22 # r) = CHR 0x22 # r" "skip_ws [] = []"
  by (simp_all add: skip_ws_def json_space_def)

lemma stringify_items_head: "xs \<noteq> [] \<Longrightarrow> stringify_items xs \<noteq> [] \<and> json_head (hd (stringify_items xs))"
  using stringify_head by (cases xs) auto

lemma stringify_members_head: "ps \<noteq> [] \<Longrightarrow> \<exists>t. stringify_members ps = CHR 0x22 # t"
  by (cases ps) (auto simp: json_quote_def)

lemma update_distinct: "distinct (map fst (qs @ ps)) \<Longrightarrow> foldl (\<lambda>m (k, v). AList.update k v m) qs ps = qs @ ps"
proof (induction ps arbitrary: qs)
  case (Cons p ps)
  obtain k v where p: "p = (k, v)" by (cases p)
  have "k \<notin> fst ` set qs" using Cons.prems by (auto simp: p)
  then have "AList.update k v qs = qs @ [(k, v)]" by (induction qs) auto
  then show ?case using Cons by (simp add: p)
qed simp


lemma parse_value_num:
  assumes "json_printable x" "delim rest"
  shows "parse_value (Suc n) (show_num x @ rest) = Some (JNum x, rest)"
proof -
  obtain c cs where c: "show_num x @ rest = c # cs" "is_digit c \<or> c = CHR ''-''"
    using show_num_head [of x] by (cases "show_num x") auto
  have ne: "c \<noteq> CHR 0x22" "c \<noteq> CHR ''[''" "c \<noteq> CHR ''{''" "c \<noteq> CHR ''n''" "c \<noteq> CHR ''t''" "c \<noteq> CHR ''f''"
    using c(2) by (auto simp: is_digit_def)
  have "json_head c" using c(2) by (auto simp: json_head_def)
  then have "skip_ws (show_num x @ rest) = c # cs" using c(1) skip_ws_head by simp
  moreover have "parse_json_number (c # cs) = Some (x, rest)" using parse_json_show [OF assms(2,1)] c(1) by simp
  ultimately show ?thesis using ne by simp
qed

lemma parse_stringify_at:
  "json_ok v \<Longrightarrow> delim rest \<Longrightarrow> 2 * length (stringify v) \<le> n \<Longrightarrow> parse_value n (stringify v @ rest) = Some (v, rest)"
  "xs \<noteq> [] \<Longrightarrow> json_items_ok xs \<Longrightarrow> 2 * length (stringify_items xs) + 1 \<le> n \<Longrightarrow>
     parse_items n (stringify_items xs @ CHR '']'' # rest) = Some (xs, rest)"
  "ps \<noteq> [] \<Longrightarrow> json_members_ok ps \<Longrightarrow> 2 * length (stringify_members ps) + 1 \<le> n \<Longrightarrow>
     parse_members n (stringify_members ps @ CHR ''}'' # rest) = Some (ps, rest)"
proof (induction v and xs and ps arbitrary: rest n and rest n and rest n
    rule: stringify_stringify_items_stringify_members.induct)
  case 1
  then show ?case by (cases n) (simp_all add: skip_ws_def json_space_def)
next
  case (2 b)
  then show ?case by (cases n; cases b) (simp_all add: skip_ws_def json_space_def)
next
  case (3 x)
  then show ?case using show_num_head [of x] by (cases n) (simp_all add: parse_value_num del: parse_value.simps)
next
  case (4 s)
  then show ?case using parse_quoted_chars [of "[]" s rest] by (cases n) (simp_all add: json_quote_def)
next
  case (5 xs)
  obtain m where n: "n = Suc m" using 5 by (cases n) auto
  have ws: "skip_ws (CHR ''['' # s) = CHR ''['' # s" for s by (simp add: skip_ws_def json_space_def)
  show ?case
  proof (cases "xs = []")
    case True
    then show ?thesis by (simp add: n ws)
  next
    case False
    obtain c t where c: "stringify_items xs = c # t" "json_head c"
      using stringify_items_head [OF False] by (cases "stringify_items xs") auto
    have items: "parse_items m (stringify_items xs @ CHR '']'' # rest) = Some (xs, rest)"
      by (rule "5.IH" [OF False]) (use "5.prems" in \<open>simp_all add: n\<close>)
    have "skip_ws (stringify_items xs @ CHR '']'' # rest) = stringify_items xs @ CHR '']'' # rest"
      using c skip_ws_head by simp
    then show ?thesis using items c json_head_ok [OF c(2)] by (simp add: n ws)
  qed
next
  case (6 ps)
  obtain m where n: "n = Suc m" using 6 by (cases n) auto
  have ws: "skip_ws (CHR ''{'' # s) = CHR ''{'' # s" for s by (simp add: skip_ws_def json_space_def)
  show ?case
  proof (cases "ps = []")
    case True
    then show ?thesis by (simp add: n ws)
  next
    case False
    obtain t where c: "stringify_members ps = CHR 0x22 # t" using stringify_members_head [OF False] by blast
    have mem: "parse_members m (stringify_members ps @ CHR ''}'' # rest) = Some (ps, rest)"
      by (rule "6.IH" [OF False]) (use "6.prems" in \<open>simp_all add: n\<close>)
    have "foldl (\<lambda>m (k, v). AList.update k v m) [] ps = ps" using update_distinct [of "[]" ps] "6.prems"(1) by simp
    then show ?thesis using mem c by (simp add: n ws)
  qed
next
  case (8 x xs)
  obtain m where n: "n = Suc m" using 8 by (cases n) auto
  show ?case
  proof (cases "xs = []")
    case True
    have "parse_value m (stringify x @ CHR '']'' # rest) = Some (x, CHR '']'' # rest)"
      by (rule "8.IH"(1)) (use "8.prems" n in auto)
    then show ?thesis by (simp add: n True)
  next
    case False
    have "parse_value m (stringify x @ CHR '','' # stringify_items xs @ CHR '']'' # rest)
        = Some (x, CHR '','' # stringify_items xs @ CHR '']'' # rest)"
      by (rule "8.IH"(1)) (use "8.prems" n in auto)
    moreover have "parse_items m (stringify_items xs @ CHR '']'' # rest) = Some (xs, rest)"
      by (rule "8.IH"(2)) (use "8.prems" n False in auto)
    ultimately show ?thesis by (simp add: n False)
  qed
next
  case (10 k v ps)
  obtain m where n: "n = Suc m" using 10 by (cases n) auto
  define tail where "tail = (if ps = [] then '''' else CHR '','' # stringify_members ps) @ CHR ''}'' # rest"
  have eqt: "stringify_members ((k, v) # ps) @ CHR ''}'' # rest
      = CHR 0x22 # concat (map json_char k) @ CHR 0x22 # CHR '':'' # stringify v @ tail"
    by (simp add: json_quote_def tail_def)
  have chs: "parse_chars [] (concat (map json_char k) @ CHR 0x22 # CHR '':'' # stringify v @ tail)
      = Some (k, CHR '':'' # stringify v @ tail)" using parse_quoted_chars [of "[]" k] by simp
  have vl: "parse_value m (stringify v @ tail) = Some (v, tail)"
    by (rule "10.IH"(1)) (use "10.prems" n in \<open>auto simp: tail_def\<close>)
  show ?case
  proof (cases "ps = []")
    case True
    then show ?thesis unfolding eqt n by (simp add: chs vl) (simp add: tail_def)
  next
    case False
    have mem: "parse_members m (stringify_members ps @ CHR ''}'' # rest) = Some (ps, rest)"
      by (rule "10.IH"(2)) (use "10.prems" n False in auto)
    then show ?thesis unfolding eqt n using False by (simp add: chs vl) (simp add: tail_def mem)
  qed
qed simp_all

lemma parse_stringify: "json_ok v \<Longrightarrow> JSON_parse (stringify v) = Some v"
  using parse_stringify_at(1) [of v "[]" "2 * length (stringify v) + 2"] by (simp add: JSON_parse_def)

lemma stringify_inj: "json_ok v \<Longrightarrow> json_ok w \<Longrightarrow> stringify v = stringify w \<Longrightarrow> v = w"
  using parse_stringify by (metis option.inject)

lemma json_examples:
  "JSON_parse '' {\"id\" : [true, \"x\"] } '' = Some (JObj [(''id'', JArr [JBool True, JStr ''x''])])"
  "stringify (JObj [(''id'', JArr [JBool True, JStr ''x''])]) = ''{\"id\":[true,\"x\"]}''"
  "stringify (select_props [''b'', ''a''] (JObj [(''a'', JNull), (''c'', JNull), (''b'', JObj [(''d'', JNull)])])) = ''{\"b\":{},\"a\":null}''"
  by code_simp+

end
