(* ===== verification/AuditLog.thy ===== *)
theory AuditLog
  imports JsonText
begin

text \<open>
  The audit service, \<^verbatim>\<open>backend/services/shared/auditService.ts\<close>: capture of events into a hash chain,
  redaction of personal data, verification, queries, reports, retention and alerts. The keyed hash (HMAC of
  the crypto library) is the parameter \<open>hmac\<close>; ids and the clock are arguments; the delivery channels of
  an alert are the list of alerts sent. Saving to device storage is not modelled.
\<close>

section \<open>Types\<close>

datatype AuditSeverity = SevLow | SevMedium | SevHigh | SevCritical

fun severity_name :: "AuditSeverity \<Rightarrow> string" where
  "severity_name SevLow = ''low''"
| "severity_name SevMedium = ''medium''"
| "severity_name SevHigh = ''high''"
| "severity_name SevCritical = ''critical''"

datatype AlertSeverity = AlertInfo | AlertWarning | AlertCritical

definition AUDIT_SEVERITY_MAP :: "AuditSeverity \<Rightarrow> AlertSeverity" where
  "AUDIT_SEVERITY_MAP s = (case s of SevLow \<Rightarrow> AlertInfo | SevMedium \<Rightarrow> AlertWarning | SevHigh \<Rightarrow> AlertCritical | SevCritical \<Rightarrow> AlertCritical)"

text \<open>Actions are the string literals of the union type.\<close>

type_synonym AuditAction = string
type_synonym metadata = "(string \<times> json) list"

record AuditEvent =
  ae_id :: string
  ae_action :: AuditAction
  ae_actorId :: string
  ae_resourceId :: string
  ae_resourceType :: string
  ae_metadata :: metadata
  ae_timestamp :: int
  ae_severity :: AuditSeverity
  ae_context :: "metadata option"
  ae_hash :: string
  ae_prevHash :: string

record AuditArchiveEntry =
  ar_archiveId :: string
  ar_originalCount :: nat
  ar_periodStart :: int
  ar_periodEnd :: int
  ar_archivedAt :: int
  ar_events :: "AuditEvent list"

record Alert =
  al_id :: string
  al_severity :: AlertSeverity
  al_title :: string
  al_message :: string
  al_timestamp :: int
  al_resolved :: bool
  al_ruleId :: string

text \<open>The alerting service: ids already sent, and what the channels were given.\<close>

record AlertingService =
  as_sent :: "string list"
  as_delivered :: "Alert list"

definition alert_dispatch :: "Alert \<Rightarrow> AlertingService \<Rightarrow> AlertingService" where
  "alert_dispatch a s =
     (if al_id a \<in> set (as_sent s) then s
      else s\<lparr>as_sent := al_id a # as_sent s, as_delivered := as_delivered s @ [a]\<rparr>)"

record AuditService =
  au_log :: "AuditEvent list"
  au_archive :: "AuditArchiveEntry list"
  au_maxAgeMs :: int
  au_archiveEnabled :: bool
  au_maxLogSize :: nat
  au_alerting :: "AlertingService option"

definition GENESIS_HASH :: string where "GENESIS_HASH = replicate 64 (CHR ''0'')"
definition SEVEN_YEARS_MS :: int where "SEVEN_YEARS_MS = 7 * 365 * 24 * 60 * 60 * 1000"

definition newAuditService :: "string \<Rightarrow> int option \<Rightarrow> bool option \<Rightarrow> nat option \<Rightarrow> AlertingService option \<Rightarrow> string + AuditService" where
  "newAuditService secret maxAgeMs archive maxLogSize alerting =
     (if secret = '''' then Inl ''AuditService requires a non-empty HMAC secret''
      else Inr \<lparr>au_log = [], au_archive = [], au_maxAgeMs = (case maxAgeMs of None \<Rightarrow> SEVEN_YEARS_MS | Some a \<Rightarrow> a),
        au_archiveEnabled = (case archive of None \<Rightarrow> False | Some b \<Rightarrow> b),
        au_maxLogSize = (case maxLogSize of None \<Rightarrow> 100000 | Some n \<Rightarrow> n), au_alerting = alerting\<rparr>)"

section \<open>Redaction\<close>

definition is_letter :: "char \<Rightarrow> bool" where
  "is_letter c \<longleftrightarrow> (of_char c :: nat) \<in> {65..90} \<union> {97..122}"

definition local_char :: "char \<Rightarrow> bool" where
  "local_char c \<longleftrightarrow> is_letter c \<or> is_digit c \<or> c \<in> {CHR ''.'', CHR ''_'', CHR ''%'', CHR ''+'', CHR ''-''}"

definition domain_char :: "char \<Rightarrow> bool" where
  "domain_char c \<longleftrightarrow> is_letter c \<or> is_digit c \<or> c \<in> {CHR ''.'', CHR ''-''}"

definition word_char :: "char \<Rightarrow> bool" where
  "word_char c \<longleftrightarrow> is_letter c \<or> is_digit c \<or> c = CHR ''_''"

text \<open>The length of the match of a pattern at the head of a text, after the character before it.\<close>

type_synonym pattern = "char option \<Rightarrow> string \<Rightarrow> nat option"

definition boundary :: "char option \<Rightarrow> string \<Rightarrow> bool" where
  "boundary prev s \<longleftrightarrow> (case prev of None \<Rightarrow> False | Some c \<Rightarrow> word_char c) \<noteq> (s \<noteq> [] \<and> word_char (hd s))"

text \<open>The longest domain ends at the last point with at least two letters after it.\<close>

fun email_domain :: "string \<Rightarrow> nat \<Rightarrow> nat option" where
  "email_domain d 0 = None"
| "email_domain d (Suc j) =
     (if d ! Suc j = CHR ''.'' \<and> 2 \<le> length (takeWhile is_letter (drop (Suc (Suc j)) d))
      then Some (Suc (Suc j) + length (takeWhile is_letter (drop (Suc (Suc j)) d)))
      else email_domain d j)"

definition match_email :: pattern where
  "match_email prev s =
     (let loc = takeWhile local_char s; r = dropWhile local_char s
      in if loc = [] \<or> r = [] \<or> hd r \<noteq> CHR ''@'' then None
         else let d = takeWhile domain_char (tl r)
              in map_option (\<lambda>n. length loc + 1 + n) (email_domain d (length d - 1)))"

definition match_ssn :: pattern where
  "match_ssn prev s =
     (if boundary prev s \<and> 11 \<le> length s \<and> list_all is_digit (take 3 s) \<and> s ! 3 = CHR ''-'' \<and>
         list_all is_digit (take 2 (drop 4 s)) \<and> s ! 6 = CHR ''-'' \<and> list_all is_digit (take 4 (drop 7 s)) \<and>
         boundary (Some (s ! 10)) (drop 11 s)
      then Some 11 else None)"

definition match_card :: pattern where
  "match_card prev s =
     (if boundary prev s \<and> 16 \<le> length s \<and> list_all is_digit (take 16 s) \<and> boundary (Some (s ! 15)) (drop 16 s)
      then Some 16 else None)"

fun replace_all :: "pattern \<Rightarrow> string \<Rightarrow> char option \<Rightarrow> string \<Rightarrow> string" where
  "replace_all p repl prev [] = []"
| "replace_all p repl prev (c # cs) =
     (case p prev (c # cs) of
        None \<Rightarrow> c # replace_all p repl (Some c) cs
      | Some n \<Rightarrow> if n = 0 then c # replace_all p repl (Some c) cs
          else repl @ replace_all p repl (Some ((c # cs) ! (n - 1))) (drop (n - 1) cs))"

definition stripPii :: "string \<Rightarrow> string" where
  "stripPii value =
     replace_all match_card ''[REDACTED_CARD]'' None
       (replace_all match_ssn ''[REDACTED_SSN]'' None
         (replace_all match_email ''[REDACTED_EMAIL]'' None value))"

text \<open>\<open>/a.?b/i\<close>: at most one character, not a line end, between the two words.\<close>

definition includes_gap :: "string \<Rightarrow> string \<Rightarrow> string \<Rightarrow> bool" where
  "includes_gap s a b \<longleftrightarrow>
     list_ex (\<lambda>i. take (length a) (drop i s) = a \<and>
         (take (length b) (drop (i + length a) s) = b \<or>
          (i + length a < length s \<and> s ! (i + length a) \<notin> {CHR 0x0A, CHR 0x0D} \<and> take (length b) (drop (i + length a + 1) s) = b)))
       [0..<Suc (length s)]"

definition pii_key :: "string \<Rightarrow> bool" where
  "pii_key key =
     (let k = js_lower key
      in list_ex (js_includes k) [''email'', ''phone'', ''ssn'', ''password'', ''secret'', ''token'', ''cvv'', ''address'', ''dob''] \<or>
         includes_gap k ''credit'' ''card'' \<or> includes_gap k ''birth'' ''date'')"

text \<open>Nested values are walked as objects, arrays too, whose entries become members named by their index.\<close>

fun sanitize_members :: "metadata \<Rightarrow> metadata" and sanitize_value :: "json \<Rightarrow> json"
  and sanitize_items :: "nat \<Rightarrow> json list \<Rightarrow> metadata" where
  "sanitize_members [] = []"
| "sanitize_members ((k, v) # m) = (k, if pii_key k then JStr ''[REDACTED]'' else sanitize_value v) # sanitize_members m"
| "sanitize_value (JStr s) = JStr (stripPii s)"
| "sanitize_value (JObj m) = JObj (sanitize_members m)"
| "sanitize_value (JArr xs) = JObj (sanitize_items 0 xs)"
| "sanitize_value v = v"
| "sanitize_items i [] = []"
| "sanitize_items i (v # xs) = (show_nat i, sanitize_value v) # sanitize_items (Suc i) xs"

definition sanitizeInput :: "string \<Rightarrow> string" where
  "sanitizeInput input =
     filter (\<lambda>c. c \<notin> {CHR 0x22, CHR 0x27, CHR 0x5C, CHR '';''})
       (map (\<lambda>c. if c \<in> {CHR 0x0D, CHR 0x0A} then CHR '' '' else c) input)"


section \<open>Capture and verification\<close>

text \<open>The hashed data, and the sorted names of its own members that \<open>JSON.stringify\<close> is given as a filter.\<close>

definition event_members :: "AuditEvent \<Rightarrow> metadata" where
  "event_members e =
     [(''id'', JStr (ae_id e)), (''action'', JStr (ae_action e)), (''actorId'', JStr (ae_actorId e)),
      (''resourceId'', JStr (ae_resourceId e)), (''resourceType'', JStr (ae_resourceType e)),
      (''metadata'', JObj (ae_metadata e)), (''timestamp'', JNum (of_int (ae_timestamp e))),
      (''severity'', JStr (severity_name (ae_severity e)))] @
     (case ae_context e of None \<Rightarrow> [] | Some c \<Rightarrow> [(''context'', JObj c)]) @ [(''prevHash'', JStr (ae_prevHash e))]"

definition hashed_names :: "string list" where
  "hashed_names = [''action'', ''actorId'', ''context'', ''id'', ''metadata'', ''prevHash'', ''resourceId'', ''resourceType'',
     ''severity'', ''timestamp'']"

definition event_hash :: "(string \<Rightarrow> string) \<Rightarrow> AuditEvent \<Rightarrow> string" where
  "event_hash hmac e = hmac (stringify (select_props hashed_names (JObj (event_members e))))"

definition last_hash :: "AuditEvent list \<Rightarrow> string" where
  "last_hash l = (if l = [] then GENESIS_HASH else ae_hash (last l))"

definition audit_alert :: "AuditEvent \<Rightarrow> Alert" where
  "audit_alert e = \<lparr>al_id = ''audit_'' @ ae_id e, al_severity = AUDIT_SEVERITY_MAP (ae_severity e),
     al_title = ''Audit: '' @ ae_action e,
     al_message = ''Actor '' @ ae_actorId e @ '' performed '' @ ae_action e @ '' on '' @ ae_resourceType e @ '':'' @ ae_resourceId e,
     al_timestamp = ae_timestamp e, al_resolved = False, al_ruleId = ''audit-critical-event''\<rparr>"

definition dispatchAlert :: "AuditEvent \<Rightarrow> AuditService \<Rightarrow> AuditService" where
  "dispatchAlert e s = s\<lparr>au_alerting := map_option (alert_dispatch (audit_alert e)) (au_alerting s)\<rparr>"

definition capture :: "(string \<Rightarrow> string) \<Rightarrow> string \<Rightarrow> int \<Rightarrow> AuditAction \<Rightarrow> string \<Rightarrow> string \<Rightarrow> string \<Rightarrow> metadata \<Rightarrow> AuditSeverity
    \<Rightarrow> metadata option \<Rightarrow> AuditService \<Rightarrow> AuditEvent \<times> AuditService" where
  "capture hmac uuid now action actorId resourceId resourceType metadata severity context s =
     (let e0 = \<lparr>ae_id = uuid, ae_action = action, ae_actorId = sanitizeInput actorId,
                ae_resourceId = sanitizeInput resourceId, ae_resourceType = sanitizeInput resourceType,
                ae_metadata = sanitize_members metadata, ae_timestamp = now, ae_severity = severity,
                ae_context = context, ae_hash = '''', ae_prevHash = last_hash (au_log s)\<rparr>;
          e = e0\<lparr>ae_hash := event_hash hmac e0\<rparr>;
          log1 = au_log s @ [e];
          s1 = s\<lparr>au_log := (if au_maxLogSize s < length log1 then tl log1 else log1)\<rparr>
      in (e, if severity = SevCritical \<or> severity = SevHigh then dispatchAlert e s1 else s1))"

fun verify_from :: "(string \<Rightarrow> string) \<Rightarrow> nat \<Rightarrow> string \<Rightarrow> AuditEvent list \<Rightarrow> bool \<times> nat option" where
  "verify_from hmac i prev [] = (True, None)"
| "verify_from hmac i prev (e # l) =
     (if ae_prevHash e \<noteq> prev then (False, Some i)
      else if event_hash hmac e \<noteq> ae_hash e then (False, Some i)
      else verify_from hmac (Suc i) (ae_hash e) l)"

definition verify :: "(string \<Rightarrow> string) \<Rightarrow> AuditService \<Rightarrow> bool \<times> nat option" where
  "verify hmac s = verify_from hmac 0 GENESIS_HASH (au_log s)"

section \<open>Queries and reports\<close>

datatype AuditSort = SortTimestamp | SortAction | SortActor

record AuditQueryFilter =
  aq_from :: "int option"
  aq_to :: "int option"
  aq_action :: "string option"
  aq_actorId :: "string option"
  aq_resourceId :: "string option"
  aq_resourceType :: "string option"
  aq_severity :: "AuditSeverity option"
  aq_search :: "string option"
  aq_sortBy :: "AuditSort option"
  aq_ascending :: bool
  aq_offset :: "int option"
  aq_limit :: "int option"

definition no_filter :: AuditQueryFilter where
  "no_filter = \<lparr>aq_from = None, aq_to = None, aq_action = None, aq_actorId = None, aq_resourceId = None,
     aq_resourceType = None, aq_severity = None, aq_search = None, aq_sortBy = None, aq_ascending = False,
     aq_offset = None, aq_limit = None\<rparr>"

text \<open>A filter on a text is off when absent or empty.\<close>

definition wanted :: "string option \<Rightarrow> string \<Rightarrow> bool" where
  "wanted f v = (case f of None \<Rightarrow> True | Some x \<Rightarrow> x = '''' \<or> v = x)"

definition matches_search :: "string option \<Rightarrow> AuditEvent \<Rightarrow> bool" where
  "matches_search search e =
     (case search of
        None \<Rightarrow> True
      | Some s \<Rightarrow> s = '''' \<or>
          list_ex (\<lambda>t. js_includes (js_lower t) (js_lower s))
            [ae_actorId e, ae_resourceId e, ae_action e, stringify (JObj (ae_metadata e))])"

definition audit_matches :: "AuditQueryFilter \<Rightarrow> AuditEvent \<Rightarrow> bool" where
  "audit_matches f e \<longleftrightarrow>
     (case aq_from f of None \<Rightarrow> True | Some t \<Rightarrow> t \<le> ae_timestamp e) \<and>
     (case aq_to f of None \<Rightarrow> True | Some t \<Rightarrow> ae_timestamp e \<le> t) \<and>
     wanted (aq_action f) (ae_action e) \<and> wanted (aq_actorId f) (ae_actorId e) \<and>
     wanted (aq_resourceId f) (ae_resourceId e) \<and> wanted (aq_resourceType f) (ae_resourceType e) \<and>
     (case aq_severity f of None \<Rightarrow> True | Some s \<Rightarrow> ae_severity e = s) \<and> matches_search (aq_search f) e"

text \<open>A stable sort by a comparator.\<close>

fun insert_by :: "('a \<Rightarrow> 'a \<Rightarrow> int) \<Rightarrow> 'a \<Rightarrow> 'a list \<Rightarrow> 'a list" where
  "insert_by cmp x [] = [x]"
| "insert_by cmp x (y # ys) = (if cmp x y \<le> 0 then x # y # ys else y # insert_by cmp x ys)"

definition js_sort :: "('a \<Rightarrow> 'a \<Rightarrow> int) \<Rightarrow> 'a list \<Rightarrow> 'a list" where
  "js_sort cmp xs = foldr (insert_by cmp) xs []"

definition audit_compare :: "(string \<Rightarrow> string \<Rightarrow> int) \<Rightarrow> AuditSort \<Rightarrow> bool \<Rightarrow> AuditEvent \<Rightarrow> AuditEvent \<Rightarrow> int" where
  "audit_compare collate by ascending a b =
     (let c = (case by of SortTimestamp \<Rightarrow> ae_timestamp a - ae_timestamp b
                | SortAction \<Rightarrow> collate (ae_action a) (ae_action b)
                | SortActor \<Rightarrow> collate (ae_actorId a) (ae_actorId b))
      in if ascending then c else - c)"

text \<open>\<open>collate\<close> stands for \<open>localeCompare\<close>, which the language leaves to the locale.\<close>

definition audit_query :: "(string \<Rightarrow> string \<Rightarrow> int) \<Rightarrow> AuditQueryFilter \<Rightarrow> AuditService \<Rightarrow> AuditEvent list" where
  "audit_query collate f s =
     (let results = filter (audit_matches f) (au_log s)
      in case aq_sortBy f of None \<Rightarrow> results | Some by \<Rightarrow> js_sort (audit_compare collate by (aq_ascending f)) results)"

record AuditQueryResult =
  qr_events :: "AuditEvent list"
  qr_total :: nat
  qr_offset :: int
  qr_limit :: int

definition queryPaginated :: "(string \<Rightarrow> string \<Rightarrow> int) \<Rightarrow> AuditQueryFilter \<Rightarrow> AuditService \<Rightarrow> AuditQueryResult" where
  "queryPaginated collate f s =
     (let filtered = audit_query collate f s; n = length filtered;
          offset = (case aq_offset f of None \<Rightarrow> 0 | Some k \<Rightarrow> k);
          limit = (case aq_limit f of None \<Rightarrow> int n | Some k \<Rightarrow> k)
      in \<lparr>qr_events = js_slice offset (offset + limit) filtered, qr_total = n, qr_offset = offset, qr_limit = limit\<rparr>)"

text \<open>\<open>counts[k] = (counts[k] ?? 0) + 1\<close> over a list of keys.\<close>

definition tally :: "string list \<Rightarrow> nat obj" where
  "tally ks = foldl (\<lambda>m k. AList.update k (obj_or 0 m k + 1) m) [] ks"

definition period_filter :: "int \<Rightarrow> int \<Rightarrow> AuditQueryFilter" where
  "period_filter since until = no_filter\<lparr>aq_from := Some since, aq_to := Some until\<rparr>"

record AuditReport =
  rp_generatedAt :: int
  rp_periodStart :: int
  rp_periodEnd :: int
  rp_totalEvents :: nat
  rp_byAction :: "nat obj"
  rp_bySeverity :: "nat obj"
  rp_events :: "AuditEvent list"

definition generateReport :: "(string \<Rightarrow> string \<Rightarrow> int) \<Rightarrow> int \<Rightarrow> int \<Rightarrow> int \<Rightarrow> AuditService \<Rightarrow> AuditReport" where
  "generateReport collate now since until s =
     (let events = audit_query collate (period_filter since until) s
      in \<lparr>rp_generatedAt = now, rp_periodStart = since, rp_periodEnd = until, rp_totalEvents = length events,
          rp_byAction = tally (map ae_action events), rp_bySeverity = tally (map (severity_name \<circ> ae_severity) events),
          rp_events = events\<rparr>)"

record ComplianceAuditReport = AuditReport +
  rp_criticalEvents :: nat
  rp_highSeverityEvents :: nat
  rp_byActor :: "nat obj"
  rp_uniqueActors :: nat
  rp_uniqueResources :: nat
  rp_integrityValid :: bool
  rp_firstInvalidIndex :: "nat option"
  rp_retentionDays :: int

definition generateComplianceReport :: "(string \<Rightarrow> string) \<Rightarrow> (string \<Rightarrow> string \<Rightarrow> int) \<Rightarrow> int \<Rightarrow> int \<Rightarrow> int \<Rightarrow> AuditService
    \<Rightarrow> ComplianceAuditReport" where
  "generateComplianceReport hmac collate now since until s =
     (let events = audit_query collate (period_filter since until) s
      in \<lparr>rp_generatedAt = now, rp_periodStart = since, rp_periodEnd = until, rp_totalEvents = length events,
          rp_byAction = tally (map ae_action events), rp_bySeverity = tally (map (severity_name \<circ> ae_severity) events),
          rp_events = events,
          rp_criticalEvents = length (filter (\<lambda>e. ae_severity e = SevCritical) events),
          rp_highSeverityEvents = length (filter (\<lambda>e. ae_severity e = SevHigh) events),
          rp_byActor = tally (map ae_actorId events),
          rp_uniqueActors = length (js_uniq (map ae_actorId events)),
          rp_uniqueResources = length (js_uniq (map ae_resourceId events)),
          rp_integrityValid = fst (verify hmac s), rp_firstInvalidIndex = snd (verify hmac s),
          rp_retentionDays = au_maxAgeMs s div ONE_DAY_MS\<rparr>)"

section \<open>Export and retention\<close>

definition csv_quoted :: "string \<Rightarrow> string" where
  "csv_quoted s = [CHR 0x22] @ concat (map (\<lambda>c. if c = CHR 0x22 then [c, c] else [c]) s) @ [CHR 0x22]"

definition audit_csv_row :: "AuditEvent \<Rightarrow> string" where
  "audit_csv_row e = js_join '','' (map csv_quoted [ae_id e, ae_action e, ae_actorId e, ae_resourceId e, ae_resourceType e,
     severity_name (ae_severity e), show_int (ae_timestamp e), ae_hash e, ae_prevHash e])"

definition audit_export_csv :: "int option \<Rightarrow> int option \<Rightarrow> AuditService \<Rightarrow> string" where
  "audit_export_csv since until s =
     js_join [CHR 0x0A] (''id,action,actorId,resourceId,resourceType,severity,timestamp,hash,prevHash'' #
       map audit_csv_row (audit_query (\<lambda>_ _. 0) (no_filter\<lparr>aq_from := since, aq_to := until\<rparr>) s))"

definition applyRetention :: "string \<Rightarrow> int \<Rightarrow> AuditService \<Rightarrow> (nat \<times> nat) \<times> AuditService" where
  "applyRetention archiveId now s =
     (let cutoff = now - au_maxAgeMs s;
          toKeep = filter (\<lambda>e. cutoff < ae_timestamp e) (au_log s);
          toPrune = filter (\<lambda>e. ae_timestamp e \<le> cutoff) (au_log s);
          archived = au_archiveEnabled s \<and> toPrune \<noteq> []
      in ((length (au_log s) - length toKeep, if archived then length toPrune else 0),
          s\<lparr>au_log := toKeep,
            au_archive := au_archive s @
              (if archived
               then [\<lparr>ar_archiveId = archiveId, ar_originalCount = length toPrune,
                      ar_periodStart = Min (set (map ae_timestamp toPrune)), ar_periodEnd = Max (set (map ae_timestamp toPrune)),
                      ar_archivedAt = now, ar_events = toPrune\<rparr>]
               else [])\<rparr>))"

definition setAlertingService :: "AlertingService \<Rightarrow> AuditService \<Rightarrow> AuditService" where
  "setAlertingService a s = s\<lparr>au_alerting := Some a\<rparr>"

definition queryWithoutPii :: "(string \<Rightarrow> string \<Rightarrow> int) \<Rightarrow> AuditQueryFilter \<Rightarrow> AuditService \<Rightarrow> AuditEvent list" where
  "queryWithoutPii collate f s = map (\<lambda>e. e\<lparr>ae_metadata := sanitize_members (ae_metadata e)\<rparr>) (audit_query collate f s)"

definition audit_clear :: "AuditService \<Rightarrow> AuditService" where
  "audit_clear s = s\<lparr>au_log := [], au_archive := []\<rparr>"


section \<open>The chain\<close>

fun chain :: "(string \<Rightarrow> string) \<Rightarrow> string \<Rightarrow> AuditEvent list \<Rightarrow> bool" where
  "chain hmac prev [] = True"
| "chain hmac prev (e # l) \<longleftrightarrow> ae_prevHash e = prev \<and> ae_hash e = event_hash hmac e \<and> chain hmac (ae_hash e) l"

lemma verify_from_chain: "verify_from hmac i prev l = (True, None) \<longleftrightarrow> chain hmac prev l"
  by (induction l arbitrary: i prev) auto

lemma chain_append: "chain hmac prev (l @ [e]) \<longleftrightarrow>
    chain hmac prev l \<and> ae_prevHash e = (if l = [] then prev else ae_hash (last l)) \<and> ae_hash e = event_hash hmac e"
  by (induction l arbitrary: prev) auto

lemma chain_drop: "chain hmac prev l \<Longrightarrow> n < length l \<Longrightarrow>
    ae_prevHash (hd (drop n l)) = (if n = 0 then prev else ae_hash (l ! (n - 1)))"
proof (induction l arbitrary: prev n)
  case (Cons e l)
  show ?case
  proof (cases n)
    case (Suc m)
    then show ?thesis using Cons.IH [of "ae_hash e" m] Cons.prems by (cases m) auto
  qed (use Cons.prems in simp)
qed simp

lemma chain_hash: "chain hmac prev l \<Longrightarrow> n < length l \<Longrightarrow> ae_hash (l ! n) = event_hash hmac (l ! n)"
  by (induction l arbitrary: prev n) (auto simp: nth_Cons split: nat.split)

section \<open>What the hash covers\<close>

definition hash_text :: "AuditEvent \<Rightarrow> string" where
  "hash_text e = stringify (select_props hashed_names (JObj (event_members e)))"

lemma event_hash_text: "event_hash hmac e = hmac (hash_text e)"
  by (simp add: event_hash_def hash_text_def)

text \<open>The part of a nested object that is hashed: its members that happen to bear a hashed name.\<close>

definition covered_members :: "metadata \<Rightarrow> metadata" where
  "covered_members m = pick hashed_names (select_members hashed_names m)"

definition covered :: "AuditEvent \<Rightarrow> AuditEvent" where
  "covered e = e\<lparr>ae_metadata := covered_members (ae_metadata e), ae_context := map_option covered_members (ae_context e)\<rparr>"

lemma pick_simps [simp]:
  "pick [] ps = []"
  "pick (k # ks) ps = (case map_of ps k of None \<Rightarrow> pick ks ps | Some v \<Rightarrow> (k, v) # pick ks ps)"
  by (simp_all add: pick_def map_filter_simps split: option.split)

lemma hashed_document:
  "select_props hashed_names (JObj (event_members e)) =
     JObj ([(''action'', JStr (ae_action e)), (''actorId'', JStr (ae_actorId e))] @
       (case ae_context e of None \<Rightarrow> [] | Some c \<Rightarrow> [(''context'', JObj (covered_members c))]) @
       [(''id'', JStr (ae_id e)), (''metadata'', JObj (covered_members (ae_metadata e))), (''prevHash'', JStr (ae_prevHash e)),
        (''resourceId'', JStr (ae_resourceId e)), (''resourceType'', JStr (ae_resourceType e)),
        (''severity'', JStr (severity_name (ae_severity e))), (''timestamp'', JNum (of_int (ae_timestamp e)))])"
proof -
  have inner: "pick hashed_names (select_members hashed_names m) = covered_members m" for m
    by (simp add: covered_members_def)
  have sel: "select_members hashed_names (event_members e) =
     [(''id'', JStr (ae_id e)), (''action'', JStr (ae_action e)), (''actorId'', JStr (ae_actorId e)),
      (''resourceId'', JStr (ae_resourceId e)), (''resourceType'', JStr (ae_resourceType e)),
      (''metadata'', JObj (covered_members (ae_metadata e))), (''timestamp'', JNum (of_int (ae_timestamp e))),
      (''severity'', JStr (severity_name (ae_severity e)))] @
     (case ae_context e of None \<Rightarrow> [] | Some c \<Rightarrow> [(''context'', JObj (covered_members c))]) @ [(''prevHash'', JStr (ae_prevHash e))]"
    by (simp add: event_members_def inner split: option.split)
  show ?thesis unfolding select_props.simps sel
    by (cases "ae_context e") (simp_all add: hashed_names_def)
qed

lemma severity_name_inj: "severity_name a = severity_name b \<Longrightarrow> a = b"
  by (cases a; cases b) simp_all

lemma members_ok_iff: "json_members_ok ps \<longleftrightarrow> (\<forall>v \<in> snd ` set ps. json_ok v)"
  by (induction ps) auto

lemma pick_ok: "json_members_ok ps \<Longrightarrow> json_members_ok (pick names ps)"
  by (induction names) (auto simp: members_ok_iff split: option.split dest!: map_of_SomeD)

lemma pick_keys: "set (map fst (pick names ps)) \<subseteq> set names"
  by (induction names) (auto split: option.splits)

lemma pick_distinct: "distinct names \<Longrightarrow> distinct (map fst (pick names ps))"
proof (induction names)
  case (Cons k names)
  then show ?case using pick_keys [of names ps] by (auto split: option.split)
qed simp

lemma select_ok:
  assumes "distinct names"
  shows "json_ok v \<Longrightarrow> json_ok (select_props names v)"
    "json_items_ok xs \<Longrightarrow> json_items_ok (select_items names xs)"
    "json_members_ok ps \<Longrightarrow> json_members_ok (select_members names ps)"
  by (induction v and xs and ps rule: json_ok_json_items_ok_json_members_ok.induct)
    (simp_all add: pick_ok pick_distinct [OF assms])

definition event_ok :: "AuditEvent \<Rightarrow> bool" where
  "event_ok e \<longleftrightarrow> json_members_ok (ae_metadata e) \<and> json_members_ok (case ae_context e of None \<Rightarrow> [] | Some c \<Rightarrow> c)"

lemma covered_ok: "json_members_ok m \<Longrightarrow> json_ok (JObj (covered_members m))"
proof -
  assume m: "json_members_ok m"
  have d: "distinct hashed_names" by code_simp
  show ?thesis using pick_ok [OF select_ok(3) [OF d m]] pick_distinct [OF d] by (simp add: covered_members_def)
qed

lemma int_printable: "json_printable (of_int t)"
proof -
  have "js_round (of_int (t * 1000000) :: rat) = t * 1000000" by (rule js_round_int)
  then show ?thesis by (simp add: json_printable_def)
qed

lemma hashed_document_ok: "event_ok e \<Longrightarrow> json_ok (select_props hashed_names (JObj (event_members e)))"
  unfolding hashed_document using covered_ok [of "ae_metadata e"]
  by (cases "ae_context e") (use covered_ok in \<open>auto simp: event_ok_def int_printable\<close>)

text \<open>Equal hashes of two events, when the hash does not collide on their texts, mean equal covered fields.\<close>

lemma event_hash_covers:
  assumes "inj_on hmac {hash_text e, hash_text f}" "event_hash hmac e = event_hash hmac f" "event_ok e" "event_ok f"
    "ae_hash e = ae_hash f"
  shows "covered e = covered f"
proof -
  have "hash_text e = hash_text f"
    by (rule inj_onD [OF assms(1)]) (use assms(2) in \<open>simp_all only: event_hash_text insert_iff simp_thms\<close>)
  then have "select_props hashed_names (JObj (event_members e)) = select_props hashed_names (JObj (event_members f))"
    using stringify_inj [OF hashed_document_ok [OF assms(3)] hashed_document_ok [OF assms(4)]] by (simp add: hash_text_def)
  then show ?thesis unfolding hashed_document using assms(5) severity_name_inj
    by (cases e; cases f; cases "ae_context e"; cases "ae_context f") (auto simp: covered_def)
qed


section \<open>Properties\<close>

lemma chain_covers:
  assumes "chain hmac p l" "chain hmac q m" "length l = length m" "last_hash l = last_hash m"
    "\<forall>e \<in> set l \<union> set m. event_ok e" "inj_on hmac (hash_text ` (set l \<union> set m))"
  shows "map covered l = map covered m"
  using assms
proof (induction l arbitrary: m rule: rev_induct)
  case (snoc e l)
  then obtain f m' where m: "m = m' @ [f]" by (cases m rule: rev_cases) auto
  have h: "ae_hash e = ae_hash f" using snoc.prems(4) by (simp add: m last_hash_def)
  have ev: "ae_hash e = event_hash hmac e" "ae_hash f = event_hash hmac f"
    using snoc.prems(1,2) by (simp_all add: m chain_append)
  have "inj_on hmac {hash_text e, hash_text f}" by (rule inj_on_subset [OF snoc.prems(6)]) (auto simp: m)
  then have cov: "covered e = covered f" using event_hash_covers h ev snoc.prems(5) by (simp add: m)
  then have prev: "ae_prevHash e = ae_prevHash f" by (cases e; cases f) (simp add: covered_def)
  have "map covered l = map covered m'"
  proof (cases "l = []")
    case True
    then show ?thesis using snoc.prems(3) by (simp add: m)
  next
    case False
    have ne: "m' \<noteq> []" using False snoc.prems(3) by (auto simp: m)
    have "last_hash l = last_hash m'" using snoc.prems(1,2) prev False ne by (simp add: m chain_append last_hash_def)
    moreover have "inj_on hmac (hash_text ` (set l \<union> set m'))" by (rule inj_on_subset [OF snoc.prems(6)]) (auto simp: m)
    ultimately show ?thesis using snoc.prems by (intro snoc.IH) (simp_all add: m chain_append)
  qed
  then show ?case by (simp add: m cov)
qed simp

text \<open>C4: The log is tamper evident: of two logs of the same length that verify and end in the same hash, where the
  keyed hash does not collide on their texts, every covered field agrees, event by event: ids, actions,
  actors, resources, times, severities and hashes. (Covered of the metadata and the context is only what
  bears the name of a top-level field.)\<close>

theorem audit_log_tamper_evident:
  assumes "verify hmac s = (True, None)" "verify hmac t = (True, None)"
    "length (au_log s) = length (au_log t)" "last_hash (au_log s) = last_hash (au_log t)"
    "\<forall>e \<in> set (au_log s) \<union> set (au_log t). event_ok e" "inj_on hmac (hash_text ` (set (au_log s) \<union> set (au_log t)))"
  shows "map covered (au_log s) = map covered (au_log t)"
  using chain_covers [OF _ _ assms(3-6)] assms(1,2) verify_from_chain unfolding verify_def by blast

definition demo_audit :: AuditService where
  "demo_audit = \<lparr>au_log = [], au_archive = [], au_maxAgeMs = 1000, au_archiveEnabled = True, au_maxLogSize = 2, au_alerting = None\<rparr>"

definition demo_hash :: "string \<Rightarrow> string" where
  "demo_hash s = CHR ''h'' # s"

definition demo_login :: AuditService where
  "demo_login = snd (capture demo_hash ''1'' 0 ''auth.login'' ''alice'' ''session'' ''s'' [(''ip'', JStr ''10.0.0.1'')] SevLow None demo_audit)"

lemma capture_event:
  "ae_actorId (fst (capture hmac uuid now action actor rid rtype meta sev ctx s)) = sanitizeInput actor"
  "ae_resourceType (fst (capture hmac uuid now action actor rid rtype meta sev ctx s)) = sanitizeInput rtype"
  by (simp_all add: capture_def Let_def)

lemma capture_last:
  assumes "0 < au_maxLogSize s"
  shows "last (au_log (snd (capture hmac uuid now action actor rid rtype meta sev ctx s))) =
    fst (capture hmac uuid now action actor rid rtype meta sev ctx s)"
proof -
  define e where "e = fst (capture hmac uuid now action actor rid rtype meta sev ctx s)"
  have log: "au_log (snd (capture hmac uuid now action actor rid rtype meta sev ctx s))
      = (if au_maxLogSize s < length (au_log s @ [e]) then tl (au_log s @ [e]) else au_log s @ [e])"
    by (simp add: capture_def Let_def dispatchAlert_def e_def)
  show ?thesis
  proof (cases "au_maxLogSize s < length (au_log s @ [e])")
    case True
    then have "au_log s \<noteq> []" using assms by auto
    then show ?thesis using True unfolding log e_def [symmetric] by (simp add: last_tl)
  qed (simp add: log e_def [symmetric])
qed

text \<open>A member of the metadata that bears no top-level name is not hashed: \<open>JSON.stringify\<close> applies the list of
  names to nested objects too. Adding it, or changing it to any value, in any event of the log is not noticed
  by the verification.\<close>

theorem metadata_outside_hash:
  assumes "i < length (au_log s)" "k \<notin> set hashed_names"
  shows "verify hmac (s\<lparr>au_log := (au_log s)[i := (au_log s ! i)\<lparr>ae_metadata := AList.update k v (ae_metadata (au_log s ! i))\<rparr>]\<rparr>)
    = verify hmac s"
proof -
  have map: "select_members names (AList.update k v m) = AList.update k (select_props names v) (select_members names m)" for names m
    by (induction m) auto
  have pick_update: "pick names (AList.update k w m) = pick names m" if "k \<notin> set names" for names and w :: json and m
    using that by (induction names) (auto split: option.split)
  let ?f = "\<lambda>e. e\<lparr>ae_metadata := AList.update k v (ae_metadata e)\<rparr>"
  have cov: "covered_members (AList.update k v m) = covered_members m" for m
    using pick_update [OF assms(2)] by (simp add: covered_members_def map)
  have "hash_text (?f e) = hash_text e" for e unfolding hash_text_def hashed_document by (simp add: cov)
  then have "event_hash hmac (?f e) = event_hash hmac e" for e by (simp add: event_hash_text)
  then have "verify_from hmac j prev (l[n := ?f (l ! n)]) = verify_from hmac j prev l" if "n < length l" for j prev l n
    using that by (induction l arbitrary: j prev n) (auto simp: nth_Cons split: nat.split)
  then show ?thesis using assms(1) by (simp add: verify_def)
qed

text \<open>Verification accepts what capture wrote as long as nothing was dropped, but refuses a log whose oldest events
  were: at the size limit every further capture, and a retention run that prunes older events, make the
  verification report tampering at the first event.\<close>

theorem pruning_looks_like_tampering:
  assumes "verify hmac s = (True, None)" "\<forall>x. hmac x \<noteq> GENESIS_HASH"
  shows "(length (au_log s) < au_maxLogSize s \<longrightarrow>
      verify hmac (snd (capture hmac uuid now action actor rid rtype meta sev ctx s)) = (True, None)) \<and>
    (au_log s \<noteq> [] \<and> length (au_log s) = au_maxLogSize s \<longrightarrow>
      verify hmac (snd (capture hmac uuid now action actor rid rtype meta sev ctx s)) = (False, Some 0)) \<and>
    (\<forall>n. 0 < n \<and> n < length (au_log s) \<longrightarrow> verify hmac (s\<lparr>au_log := drop n (au_log s)\<rparr>) = (False, Some 0))"
proof -
  define e0 where "e0 = \<lparr>ae_id = uuid, ae_action = action, ae_actorId = sanitizeInput actor,
                ae_resourceId = sanitizeInput rid, ae_resourceType = sanitizeInput rtype,
                ae_metadata = sanitize_members meta, ae_timestamp = now, ae_severity = sev,
                ae_context = ctx, ae_hash = '''', ae_prevHash = last_hash (au_log s)\<rparr>"
  define e where "e = e0\<lparr>ae_hash := event_hash hmac e0\<rparr>"
  have c: "chain hmac GENESIS_HASH (au_log s)" using assms(1) verify_from_chain unfolding verify_def by blast
  have log: "au_log (snd (capture hmac uuid now action actor rid rtype meta sev ctx s))
      = (if au_maxLogSize s < length (au_log s @ [e]) then tl (au_log s @ [e]) else au_log s @ [e])"
    by (simp add: capture_def Let_def dispatchAlert_def e_def e0_def)
  have "event_hash hmac e = event_hash hmac e0" by (simp add: e_def event_hash_def event_members_def)
  then have ce: "chain hmac GENESIS_HASH (au_log s @ [e])"
    using c by (simp add: chain_append) (simp add: e_def e0_def last_hash_def)
  have drop: "verify_from hmac 0 GENESIS_HASH (drop n l) = (False, Some 0)"
    if "chain hmac GENESIS_HASH l" "0 < n" "n < length l" for n l
  proof -
    have "drop n l \<noteq> []" using that(3) by simp
    then obtain x l' where x: "drop n l = x # l'" by (cases "drop n l") auto
    have "ae_prevHash x = event_hash hmac (l ! (n - 1))"
      using chain_drop [OF that(1,3)] that(2,3) chain_hash [OF that(1), of "n - 1"] by (simp add: x)
    then have "ae_prevHash x \<noteq> GENESIS_HASH" using assms(2) by (simp add: event_hash_def)
    then show ?thesis by (simp add: x)
  qed
  have one: "verify hmac (snd (capture hmac uuid now action actor rid rtype meta sev ctx s)) = (True, None)"
    if "length (au_log s) < au_maxLogSize s"
    using ce verify_from_chain that unfolding verify_def log by simp
  have two: "verify hmac (snd (capture hmac uuid now action actor rid rtype meta sev ctx s)) = (False, Some 0)"
    if "au_log s \<noteq> []" "length (au_log s) = au_maxLogSize s"
  proof -
    have "0 < length (au_log s)" using that(1) by simp
    then show ?thesis using drop [OF ce, of 1] that unfolding verify_def log by (simp add: drop_Suc)
  qed
  show ?thesis using one two drop [OF c] by (auto simp: verify_def)
qed

lemma demo_login_verifies: "verify demo_hash demo_login = (True, None)"
  by (simp add: demo_login_def verify_def capture_def demo_audit_def Let_def last_hash_def event_hash_def event_members_def)

text \<open>Two different logs of one event that end in the same hash. In the first the address is gone from the metadata, which the hash
  does not cover: it verifies, and agrees with the original on the covered fields. In the second another actor does, so it
  cannot verify.\<close>

definition demo_event :: AuditEvent where
  "demo_event = hd (au_log demo_login)"

definition demo_moved :: AuditService where
  "demo_moved = demo_login\<lparr>au_log := [demo_event\<lparr>ae_metadata := []\<rparr>]\<rparr>"

definition demo_forged :: AuditService where
  "demo_forged = demo_login\<lparr>au_log := [demo_event\<lparr>ae_actorId := ''mallory''\<rparr>]\<rparr>"

lemma demo_log: "au_log demo_login = [demo_event]"
  by (simp add: demo_event_def demo_login_def capture_def demo_audit_def Let_def)

lemma demo_event_fields:
  "ae_actorId demo_event = sanitizeInput ''alice''" "ae_metadata demo_event = sanitize_members [(''ip'', JStr ''10.0.0.1'')]"
  "ae_context demo_event = None"
  by (simp_all add: demo_event_def demo_login_def capture_def demo_audit_def Let_def)

lemma demo_metadata: "\<exists>x. sanitize_members [(''ip'', JStr ''10.0.0.1'')] = [(''ip'', JStr x)]"
  by simp

lemma demo_actor: "sanitizeInput ''alice'' = ''alice''"
  by code_simp

lemma demo_moved_verifies: "verify demo_hash demo_moved = (True, None)"
proof -
  obtain x where x: "ae_metadata demo_event = [(''ip'', JStr x)]" using demo_metadata demo_event_fields(2) by auto
  have cov: "covered_members [(''ip'', JStr x)] = []" "covered_members [] = []" for x by (simp_all add: covered_members_def hashed_names_def)
  have "hash_text (demo_event\<lparr>ae_metadata := []\<rparr>) = hash_text demo_event"
    unfolding hash_text_def hashed_document by (simp add: cov x demo_event_fields(3))
  then have "event_hash demo_hash (demo_event\<lparr>ae_metadata := []\<rparr>) = event_hash demo_hash demo_event" by (simp only: event_hash_text)
  then show ?thesis using demo_login_verifies by (simp add: verify_def demo_log demo_moved_def split: if_splits)
qed

lemma demo_hash_inj: "inj_on demo_hash A"
  by (simp add: inj_on_def demo_hash_def)

theorem audit_log_tamper_evident_witness:
  "au_log demo_moved \<noteq> au_log demo_login \<and> map covered (au_log demo_moved) = map covered (au_log demo_login)
    \<and> last_hash (au_log demo_forged) = last_hash (au_log demo_login) \<and> verify demo_hash demo_forged \<noteq> (True, None)"
proof (intro conjI notI)
  have ok: "event_ok demo_event" "event_ok (demo_event\<lparr>ae_metadata := []\<rparr>)" "event_ok (demo_event\<lparr>ae_actorId := ''mallory''\<rparr>)"
    using demo_metadata by (auto simp: event_ok_def demo_event_fields)
  show "map covered (au_log demo_moved) = map covered (au_log demo_login)"
    by (rule audit_log_tamper_evident [OF demo_moved_verifies demo_login_verifies _ _ _ demo_hash_inj])
      (use ok in \<open>simp_all add: demo_log demo_moved_def last_hash_def\<close>)
  show same: "last_hash (au_log demo_forged) = last_hash (au_log demo_login)" by (simp add: demo_log demo_forged_def last_hash_def)
  assume v: "verify demo_hash demo_forged = (True, None)"
  have "map covered (au_log demo_forged) = map covered (au_log demo_login)"
    by (rule audit_log_tamper_evident [OF v demo_login_verifies _ same _ demo_hash_inj])
      (use ok in \<open>simp_all add: demo_log demo_forged_def\<close>)
  then have "ae_actorId (covered (demo_event\<lparr>ae_actorId := ''mallory''\<rparr>)) = ae_actorId (covered demo_event)" by (simp add: demo_log demo_forged_def)
  then show False by (simp add: covered_def demo_event_fields demo_actor)
next
  assume "au_log demo_moved = au_log demo_login"
  then have "ae_metadata (demo_event\<lparr>ae_metadata := []\<rparr>) = ae_metadata demo_event"
    by (simp only: demo_log demo_moved_def AuditService.simps list.inject) simp
  then show False using demo_metadata by (auto simp: demo_event_fields)
qed

theorem metadata_outside_hash_witness:
  "verify demo_hash (demo_login\<lparr>au_log := (au_log demo_login)[0 := (au_log demo_login ! 0)\<lparr>ae_metadata :=
     AList.update ''ip'' (JStr ''6.6.6.6'') (ae_metadata (au_log demo_login ! 0))\<rparr>]\<rparr>) = (True, None)"
proof -
  have "0 < length (au_log demo_login)" by (simp add: demo_login_def capture_def demo_audit_def Let_def)
  moreover have "''ip'' \<notin> set hashed_names" by (simp add: hashed_names_def)
  ultimately show ?thesis using metadata_outside_hash [of 0 demo_login "''ip''" demo_hash "JStr ''6.6.6.6''"] demo_login_verifies by simp
qed

theorem pruning_looks_like_tampering_witness:
  "verify demo_hash (snd (capture demo_hash ''2'' 1 ''auth.logout'' ''alice'' ''session'' ''s'' [] SevLow None
     (demo_login\<lparr>au_maxLogSize := 1\<rparr>))) = (False, Some 0)"
proof -
  have v: "verify demo_hash (demo_login\<lparr>au_maxLogSize := 1\<rparr>) = (True, None)" using demo_login_verifies by (simp add: verify_def)
  have g: "\<forall>x. demo_hash x \<noteq> GENESIS_HASH" by (simp add: demo_hash_def GENESIS_HASH_def eval_nat_numeral)
  have "au_log (demo_login\<lparr>au_maxLogSize := 1\<rparr>) \<noteq> [] \<and>
    length (au_log (demo_login\<lparr>au_maxLogSize := 1\<rparr>)) = au_maxLogSize (demo_login\<lparr>au_maxLogSize := 1\<rparr>)"
    by (simp add: demo_login_def capture_def demo_audit_def Let_def)
  then show ?thesis using pruning_looks_like_tampering [OF v g] by blast
qed

end
