(* ===== verification/AccessControl.thy ===== *)
theory AccessControl
  imports AuditLog
begin

text \<open>
  Role based access control, \<^verbatim>\<open>backend/services/accessControl.ts\<close>: roles and their permissions, role
  assignment, temporary elevation, scopes of API keys, and the record of denied accesses, which feeds the
  audit log and the alerts of theory \<open>AuditLog\<close>. Every operation takes the time and the random ids it draws;
  thrown errors are values. Reading an assignment deletes it when it has expired, so that reads return the
  changed state as well.
\<close>

section \<open>Resources, actions and roles\<close>

datatype Resource = Subscriptions | Plans | Users | Billing | Analytics | Settings | Features | ApiKeys | AuditLogs
  | Webhooks | Campaigns | SupportTickets | FraudRules

fun resource_name :: "Resource \<Rightarrow> string" where
  "resource_name Subscriptions = ''subscriptions''"
| "resource_name Plans = ''plans''"
| "resource_name Users = ''users''"
| "resource_name Billing = ''billing''"
| "resource_name Analytics = ''analytics''"
| "resource_name Settings = ''settings''"
| "resource_name Features = ''features''"
| "resource_name ApiKeys = ''api_keys''"
| "resource_name AuditLogs = ''audit_logs''"
| "resource_name Webhooks = ''webhooks''"
| "resource_name Campaigns = ''campaigns''"
| "resource_name SupportTickets = ''support_tickets''"
| "resource_name FraudRules = ''fraud_rules''"

datatype Action = Create | Read | Update | Delete | Manage

fun action_name :: "Action \<Rightarrow> string" where
  "action_name Create = ''create''"
| "action_name Read = ''read''"
| "action_name Update = ''update''"
| "action_name Delete = ''delete''"
| "action_name Manage = ''manage''"

datatype Effect = Allow | Deny

record Permission =
  pm_resource :: Resource
  pm_actions :: "Action list"
  pm_effect :: "Effect option"

datatype Role = Admin | Manager | Viewer

fun role_name :: "Role \<Rightarrow> string" where
  "role_name Admin = ''admin''"
| "role_name Manager = ''manager''"
| "role_name Viewer = ''viewer''"

definition perm :: "Resource \<Rightarrow> Action list \<Rightarrow> Permission" where
  "perm r as = \<lparr>pm_resource = r, pm_actions = as, pm_effect = None\<rparr>"

fun ROLE_PERMISSIONS :: "Role \<Rightarrow> Permission list" where
  "ROLE_PERMISSIONS Admin =
     [perm Subscriptions [Create, Read, Update, Delete, Manage], perm Plans [Create, Read, Update, Delete, Manage],
      perm Users [Create, Read, Update, Delete, Manage], perm Billing [Create, Read, Update, Delete, Manage],
      perm Analytics [Create, Read, Update, Delete, Manage], perm Settings [Create, Read, Update, Delete, Manage],
      perm Features [Create, Read, Update, Delete, Manage], perm ApiKeys [Create, Read, Update, Delete, Manage],
      perm AuditLogs [Read, Manage], perm Webhooks [Create, Read, Update, Delete, Manage],
      perm Campaigns [Create, Read, Update, Delete, Manage], perm SupportTickets [Create, Read, Update, Delete, Manage],
      perm FraudRules [Create, Read, Update, Delete, Manage]]"
| "ROLE_PERMISSIONS Manager =
     [perm Subscriptions [Create, Read, Update], perm Plans [Read, Update], perm Users [Read], perm Billing [Read, Update],
      perm Analytics [Read], perm Features [Read], perm ApiKeys [Read, Create], perm Webhooks [Read, Create, Update],
      perm Campaigns [Read, Create, Update], perm SupportTickets [Read, Update]]"
| "ROLE_PERMISSIONS Viewer =
     [perm Subscriptions [Read], perm Plans [Read], perm Users [Read], perm Billing [Read], perm Analytics [Read],
      perm Features [Read], perm AuditLogs [Read], perm Webhooks [Read], perm Campaigns [Read], perm SupportTickets [Read]]"

fun ROLE_HIERARCHY :: "Role \<Rightarrow> nat" where
  "ROLE_HIERARCHY Admin = 100"
| "ROLE_HIERARCHY Manager = 50"
| "ROLE_HIERARCHY Viewer = 10"

section \<open>State\<close>

record TemporaryElevation =
  el_id :: string
  el_userId :: string
  el_elevatedRole :: Role
  el_originalRole :: Role
  el_grantedBy :: string
  el_reason :: string
  el_expiresAt :: int
  el_active :: bool

record ApiKeyScope =
  ks_apiKeyId :: string
  ks_permissions :: "Permission list"
  ks_allowedResources :: "Resource list option"
  ks_maxRatePerMinute :: "int option"

record UnauthorizedAccessEvent =
  ua_id :: string
  ua_actorId :: string
  ua_actorRole :: "Role option"
  ua_resource :: Resource
  ua_action :: Action
  ua_deniedAt :: int
  ua_reason :: string
  ua_resolved :: bool

record RoleAssignment =
  ra_userId :: string
  ra_role :: Role
  ra_assignedBy :: string
  ra_assignedAt :: int
  ra_expiresAt :: "int option"

record AccessControl =
  ac_assignments :: "RoleAssignment obj"
  ac_elevations :: "TemporaryElevation obj"
  ac_apiKeyScopes :: "ApiKeyScope obj"
  ac_unauthorizedEvents :: "UnauthorizedAccessEvent list"
  ac_audit :: AuditService
  ac_alerting :: AlertingService
  ac_bootstrapped :: bool

definition maxUnauthorizedEvents :: nat where "maxUnauthorizedEvents = 10000"

definition newAccessControl :: "AuditService \<Rightarrow> AlertingService \<Rightarrow> AccessControl" where
  "newAccessControl audit alerting = \<lparr>ac_assignments = [], ac_elevations = [], ac_apiKeyScopes = [],
     ac_unauthorizedEvents = [], ac_audit = audit, ac_alerting = alerting, ac_bootstrapped = False\<rparr>"

datatype ac_error = AlreadyBootstrapped | CannotAssign string Role | NoAssignment string | CannotElevate Role Role
  | UserUnassigned string | ElevationNotFound string | AccessDenied string Resource Action Role
  | PermissionEscalation string Role Role

fun ac_message :: "ac_error \<Rightarrow> string" where
  "ac_message AlreadyBootstrapped = ''System already bootstrapped''"
| "ac_message (CannotAssign actor role) = ''Actor '' @ actor @ '' cannot assign role '' @ role_name role"
| "ac_message (NoAssignment user) = ''No role assignment found for user '' @ user"
| "ac_message (CannotElevate actor target) = ''Actor with role '' @ role_name actor @ '' cannot elevate to '' @ role_name target"
| "ac_message (UserUnassigned user) = ''User '' @ user @ '' has no role assignment''"
| "ac_message (ElevationNotFound i) = ''Elevation '' @ i @ '' not found''"
| "ac_message (AccessDenied user resource action role) = ''Access denied: user '' @ user @ '' (role: '' @ role_name role @
     '') cannot '' @ action_name action @ '' '' @ resource_name resource"
| "ac_message (PermissionEscalation actor role target) = ''Permission escalation prevented: '' @ role_name role @
     '' cannot assign '' @ role_name target"

text \<open>What one call draws from its environment: the keyed hash, the time and the random ids.\<close>

record env =
  en_hmac :: "string \<Rightarrow> string"
  en_now :: int
  en_uuid :: string
  en_auditUuid :: string

definition audit :: "env \<Rightarrow> string \<Rightarrow> string \<Rightarrow> string \<Rightarrow> metadata \<Rightarrow> AccessControl \<Rightarrow> AccessControl" where
  "audit en actor rid rtype meta s =
     s\<lparr>ac_audit := snd (capture (en_hmac en) (en_auditUuid en) (en_now en) ''admin.action'' actor rid rtype meta SevLow None (ac_audit s))\<rparr>"

section \<open>Roles\<close>

definition ac_bootstrap :: "env \<Rightarrow> string \<Rightarrow> AccessControl \<Rightarrow> (ac_error + RoleAssignment) \<times> AccessControl" where
  "ac_bootstrap en userId s =
     (if ac_bootstrapped s then (Inl AlreadyBootstrapped, s)
      else let a = \<lparr>ra_userId = userId, ra_role = Admin, ra_assignedBy = ''system'', ra_assignedAt = en_now en, ra_expiresAt = None\<rparr>;
               s1 = s\<lparr>ac_assignments := AList.update userId a (ac_assignments s), ac_bootstrapped := True\<rparr>
           in (Inr a, audit en ''system'' userId ''role_assignment'' [(''role'', JStr ''admin''), (''bootstrap'', JBool True)] s1))"

definition expired :: "int \<Rightarrow> RoleAssignment \<Rightarrow> bool" where
  "expired now a = (case ra_expiresAt a of None \<Rightarrow> False | Some t \<Rightarrow> t \<noteq> 0 \<and> t < now)"

definition getAssignment :: "int \<Rightarrow> string \<Rightarrow> AccessControl \<Rightarrow> RoleAssignment option \<times> AccessControl" where
  "getAssignment now userId s =
     (case map_of (ac_assignments s) userId of
        None \<Rightarrow> (None, s)
      | Some a \<Rightarrow> if expired now a then (None, s\<lparr>ac_assignments := AList.delete userId (ac_assignments s)\<rparr>) else (Some a, s))"

definition getActiveElevation :: "int \<Rightarrow> string \<Rightarrow> AccessControl \<Rightarrow> TemporaryElevation option" where
  "getActiveElevation now userId s =
     js_find (\<lambda>e. el_userId e = userId \<and> el_active e \<and> now < el_expiresAt e) (map snd (ac_elevations s))"

definition getUserRole :: "int \<Rightarrow> string \<Rightarrow> AccessControl \<Rightarrow> Role \<times> AccessControl" where
  "getUserRole now userId s =
     (case getAssignment now userId s of
        (None, s1) \<Rightarrow> (Viewer, s1)
      | (Some a, s1) \<Rightarrow> (case getActiveElevation now userId s1 of Some e \<Rightarrow> (el_elevatedRole e, s1) | None \<Rightarrow> (ra_role a, s1)))"

definition canAssignRole :: "int \<Rightarrow> string \<Rightarrow> Role \<Rightarrow> AccessControl \<Rightarrow> bool \<times> AccessControl" where
  "canAssignRole now actorId targetRole s =
     (case getUserRole now actorId s of (r, s1) \<Rightarrow> (ROLE_HIERARCHY targetRole \<le> ROLE_HIERARCHY r, s1))"

text \<open>An \<open>undefined\<close> member of the audited metadata is absent.\<close>

definition opt_member :: "string \<Rightarrow> int option \<Rightarrow> metadata" where
  "opt_member k v = (case v of None \<Rightarrow> [] | Some t \<Rightarrow> [(k, JNum (of_int t))])"

definition assignRole :: "env \<Rightarrow> string \<Rightarrow> Role \<Rightarrow> string \<Rightarrow> int option \<Rightarrow> AccessControl
    \<Rightarrow> (ac_error + RoleAssignment) \<times> AccessControl" where
  "assignRole en userId role assignedBy expiresAt s =
     (case canAssignRole (en_now en) assignedBy role s of
        (ok, s1) \<Rightarrow>
          if \<not> ok then (Inl (CannotAssign assignedBy role), s1)
          else let a = \<lparr>ra_userId = userId, ra_role = role, ra_assignedBy = assignedBy, ra_assignedAt = en_now en,
                     ra_expiresAt = expiresAt\<rparr>;
                   s2 = s1\<lparr>ac_assignments := AList.update userId a (ac_assignments s1)\<rparr>
               in (Inr a, audit en assignedBy userId ''role_assignment''
                     ((''role'', JStr (role_name role)) # opt_member ''expiresAt'' expiresAt) s2))"

definition revokeRole :: "env \<Rightarrow> string \<Rightarrow> string \<Rightarrow> AccessControl \<Rightarrow> (ac_error + unit) \<times> AccessControl" where
  "revokeRole en userId revokedBy s =
     (case map_of (ac_assignments s) userId of
        None \<Rightarrow> (Inl (NoAssignment userId), s)
      | Some existing \<Rightarrow>
          (Inr (), audit en revokedBy userId ''role_revocation'' [(''previousRole'', JStr (role_name (ra_role existing)))]
             (s\<lparr>ac_assignments := AList.delete userId (ac_assignments s)\<rparr>)))"

definition getAllAssignments :: "AccessControl \<Rightarrow> RoleAssignment list" where
  "getAllAssignments s = map snd (ac_assignments s)"

section \<open>Temporary elevation\<close>

definition grantTemporaryElevation :: "env \<Rightarrow> string \<Rightarrow> Role \<Rightarrow> string \<Rightarrow> int \<Rightarrow> string \<Rightarrow> AccessControl
    \<Rightarrow> (ac_error + TemporaryElevation) \<times> AccessControl" where
  "grantTemporaryElevation en userId elevatedRole grantedBy durationMs reason s =
     (case getUserRole (en_now en) grantedBy s of
        (actorRole, s1) \<Rightarrow>
          if ROLE_HIERARCHY actorRole \<le> ROLE_HIERARCHY elevatedRole then (Inl (CannotElevate actorRole elevatedRole), s1)
          else (case getAssignment (en_now en) userId s1 of
            (None, s2) \<Rightarrow> (Inl (UserUnassigned userId), s2)
          | (Some existing, s2) \<Rightarrow>
              (let e = \<lparr>el_id = en_uuid en, el_userId = userId, el_elevatedRole = elevatedRole, el_originalRole = ra_role existing,
                     el_grantedBy = grantedBy, el_reason = reason, el_expiresAt = en_now en + durationMs, el_active = True\<rparr>;
                   s3 = s2\<lparr>ac_elevations := AList.update (el_id e) e (ac_elevations s2)\<rparr>
               in (Inr e, audit en grantedBy userId ''temporary_elevation''
                     [(''elevationId'', JStr (el_id e)), (''originalRole'', JStr (role_name (el_originalRole e))),
                      (''elevatedRole'', JStr (role_name elevatedRole)), (''durationMs'', JNum (of_int durationMs)),
                      (''reason'', JStr reason)] s3))))"

definition revokeElevation :: "env \<Rightarrow> string \<Rightarrow> string \<Rightarrow> AccessControl \<Rightarrow> (ac_error + unit) \<times> AccessControl" where
  "revokeElevation en elevationId revokedBy s =
     (case map_of (ac_elevations s) elevationId of
        None \<Rightarrow> (Inl (ElevationNotFound elevationId), s)
      | Some e \<Rightarrow>
          (Inr (), audit en revokedBy (el_userId e) ''elevation_revocation''
             [(''elevationId'', JStr elevationId), (''originalRole'', JStr (role_name (el_originalRole e))),
              (''elevatedRole'', JStr (role_name (el_elevatedRole e)))]
             (s\<lparr>ac_elevations := AList.update elevationId (e\<lparr>el_active := False\<rparr>) (ac_elevations s)\<rparr>)))"

definition getElevationsForUser :: "string \<Rightarrow> AccessControl \<Rightarrow> TemporaryElevation list" where
  "getElevationsForUser userId s = filter (\<lambda>e. el_userId e = userId) (map snd (ac_elevations s))"

section \<open>Permissions\<close>

text \<open>The loop returns at the first entry with \<open>manage\<close>; both branches on \<open>requireAllActions\<close> are the same.\<close>

definition checkPermissions :: "Permission list \<Rightarrow> Resource \<Rightarrow> Action \<Rightarrow> bool" where
  "checkPermissions permissions resource action =
     (let resourcePerms = filter (\<lambda>p. pm_resource p = resource \<and> pm_effect p \<noteq> Some Deny) permissions
      in if resourcePerms = [] then False
         else if list_ex (\<lambda>p. Manage \<in> set (pm_actions p)) resourcePerms then True
         else action \<in> set (concat (map pm_actions resourcePerms)))"

definition hasPermission :: "int \<Rightarrow> string \<Rightarrow> Resource \<Rightarrow> Action \<Rightarrow> bool option \<Rightarrow> AccessControl \<Rightarrow> bool \<times> AccessControl" where
  "hasPermission now userId resource action allowElevated s =
     (case getUserRole now userId s of
        (role, s1) \<Rightarrow>
          (case (if allowElevated = Some False then getActiveElevation now userId s1 else None) of
             Some e \<Rightarrow> (checkPermissions (ROLE_PERMISSIONS (el_originalRole e)) resource action, s1)
           | None \<Rightarrow> (checkPermissions (ROLE_PERMISSIONS role) resource action, s1)))"

definition recordUnauthorizedAccess :: "env \<Rightarrow> string \<Rightarrow> Role option \<Rightarrow> Resource \<Rightarrow> Action \<Rightarrow> string \<Rightarrow> AccessControl \<Rightarrow> AccessControl" where
  "recordUnauthorizedAccess en actorId actorRole resource action reason s =
     (let e = \<lparr>ua_id = en_uuid en, ua_actorId = actorId, ua_actorRole = actorRole, ua_resource = resource, ua_action = action,
            ua_deniedAt = en_now en, ua_reason = reason, ua_resolved = False\<rparr>;
          evs = ac_unauthorizedEvents s @ [e];
          evs1 = (if maxUnauthorizedEvents < length evs then drop (length evs - 5000) evs else evs);
          s1 = audit en actorId (resource_name resource) ''access_denied''
                 [(''action'', JStr (action_name action)), (''reason'', JStr reason)] (s\<lparr>ac_unauthorizedEvents := evs1\<rparr>);
          recent = length (filter (\<lambda>x. ua_actorId x = actorId \<and> \<not> ua_resolved x) evs1)
      in if 5 \<le> recent
         then s1\<lparr>ac_alerting := alert_dispatch
                \<lparr>al_id = ''unauthorized-burst-'' @ actorId @ ''-'' @ show_int (en_now en), al_severity = AlertWarning,
                 al_title = ''Repeated unauthorized access attempts'',
                 al_message = ''User '' @ actorId @ '' has '' @ show_nat recent @
                   '' denied access events. Possible permission escalation attempt.'',
                 al_timestamp = en_now en, al_resolved = False, al_ruleId = ''unauthorized-access-burst''\<rparr> (ac_alerting s1)\<rparr>
         else s1)"

definition requirePermission :: "env \<Rightarrow> string \<Rightarrow> Resource \<Rightarrow> Action \<Rightarrow> bool option \<Rightarrow> AccessControl
    \<Rightarrow> (ac_error + unit) \<times> AccessControl" where
  "requirePermission en userId resource action allowElevated s =
     (case hasPermission (en_now en) userId resource action allowElevated s of
        (True, s1) \<Rightarrow> (Inr (), s1)
      | (False, s1) \<Rightarrow>
          (case getUserRole (en_now en) userId s1 of
             (role, s2) \<Rightarrow>
               (Inl (AccessDenied userId resource action role),
                recordUnauthorizedAccess en userId (Some role) resource action ''Insufficient permissions'' s2)))"

section \<open>API keys\<close>

definition registerApiKeyScope :: "string \<Rightarrow> Permission list \<Rightarrow> Resource list option \<Rightarrow> int option \<Rightarrow> AccessControl
    \<Rightarrow> ApiKeyScope \<times> AccessControl" where
  "registerApiKeyScope key permissions allowed rate s =
     (let k = \<lparr>ks_apiKeyId = key, ks_permissions = permissions, ks_allowedResources = allowed, ks_maxRatePerMinute = rate\<rparr>
      in (k, s\<lparr>ac_apiKeyScopes := AList.update key k (ac_apiKeyScopes s)\<rparr>))"

text \<open>A partial update: only the given members replace the stored ones.\<close>

definition updateApiKeyScope :: "string \<Rightarrow> Permission list option \<Rightarrow> Resource list option option \<Rightarrow> int option option \<Rightarrow> AccessControl
    \<Rightarrow> ApiKeyScope option \<times> AccessControl" where
  "updateApiKeyScope key permissions allowed rate s =
     (case map_of (ac_apiKeyScopes s) key of
        None \<Rightarrow> (None, s)
      | Some k \<Rightarrow>
          (let k1 = k\<lparr>ks_permissions := (case permissions of None \<Rightarrow> ks_permissions k | Some p \<Rightarrow> p),
                 ks_allowedResources := (case allowed of None \<Rightarrow> ks_allowedResources k | Some a \<Rightarrow> a),
                 ks_maxRatePerMinute := (case rate of None \<Rightarrow> ks_maxRatePerMinute k | Some r \<Rightarrow> r)\<rparr>
           in (Some k1, s\<lparr>ac_apiKeyScopes := AList.update key k1 (ac_apiKeyScopes s)\<rparr>)))"

definition getApiKeyScope :: "string \<Rightarrow> AccessControl \<Rightarrow> ApiKeyScope option" where
  "getApiKeyScope key s = map_of (ac_apiKeyScopes s) key"

definition removeApiKeyScope :: "string \<Rightarrow> AccessControl \<Rightarrow> AccessControl" where
  "removeApiKeyScope key s = s\<lparr>ac_apiKeyScopes := AList.delete key (ac_apiKeyScopes s)\<rparr>"

definition checkApiKeyPermission :: "string \<Rightarrow> Resource \<Rightarrow> Action \<Rightarrow> AccessControl \<Rightarrow> bool" where
  "checkApiKeyPermission key resource action s =
     (case map_of (ac_apiKeyScopes s) key of
        None \<Rightarrow> False
      | Some k \<Rightarrow>
          (case ks_allowedResources k of
             Some rs \<Rightarrow> resource \<in> set rs \<and> checkPermissions (ks_permissions k) resource action
           | None \<Rightarrow> checkPermissions (ks_permissions k) resource action))"

section \<open>Denied accesses\<close>

definition getUnauthorizedEvents :: "string option \<Rightarrow> bool option \<Rightarrow> int option \<Rightarrow> AccessControl \<Rightarrow> UnauthorizedAccessEvent list" where
  "getUnauthorizedEvents actorId resolved since s =
     filter (\<lambda>e. wanted actorId (ua_actorId e) \<and> (case resolved of None \<Rightarrow> True | Some b \<Rightarrow> ua_resolved e = b) \<and>
         (case since of None \<Rightarrow> True | Some t \<Rightarrow> t = 0 \<or> t \<le> ua_deniedAt e)) (ac_unauthorizedEvents s)"

definition resolveUnauthorizedEvent :: "string \<Rightarrow> AccessControl \<Rightarrow> AccessControl" where
  "resolveUnauthorizedEvent eventId s =
     (case js_findIndex (\<lambda>e. ua_id e = eventId) (ac_unauthorizedEvents s) of
        None \<Rightarrow> s
      | Some i \<Rightarrow> s\<lparr>ac_unauthorizedEvents := (ac_unauthorizedEvents s)[i := (ac_unauthorizedEvents s ! i)\<lparr>ua_resolved := True\<rparr>]\<rparr>)"

definition getUnauthorizedAccessStats :: "AccessControl \<Rightarrow> nat \<times> nat \<times> nat obj \<times> nat obj" where
  "getUnauthorizedAccessStats s =
     (let evs = ac_unauthorizedEvents s
      in (length evs, length (filter (\<lambda>e. \<not> ua_resolved e) evs), tally (map ua_actorId evs),
          tally (map (resource_name \<circ> ua_resource) evs)))"

definition validateRoleHierarchy :: bool where
  "validateRoleHierarchy = distinct (map ROLE_HIERARCHY [Admin, Manager, Viewer])"

definition preventEscalation :: "env \<Rightarrow> string \<Rightarrow> Role \<Rightarrow> AccessControl \<Rightarrow> (ac_error + unit) \<times> AccessControl" where
  "preventEscalation en actorId targetRole s =
     (case getUserRole (en_now en) actorId s of
        (role, s1) \<Rightarrow>
          if ROLE_HIERARCHY role \<le> ROLE_HIERARCHY targetRole
          then (Inl (PermissionEscalation actorId role targetRole),
                recordUnauthorizedAccess en actorId (Some role) Users Manage
                  (''Permission escalation prevention: '' @ role_name role @ '' cannot assign '' @ role_name targetRole) s1)
          else (Inr (), s1))"


definition getAllApiKeyScopes :: "AccessControl \<Rightarrow> ApiKeyScope list" where
  "getAllApiKeyScopes s = map snd (ac_apiKeyScopes s)"

section \<open>Runs\<close>

datatype ac_op = OpBootstrap string | OpAssign string Role string "int option" | OpRevokeRole string string
  | OpGrant string Role string int string | OpRevokeElevation string string | OpGetRole string
  | OpRequire string Resource Action "bool option" | OpPrevent string Role | OpResolve string
  | OpRegisterKey string "Permission list" "Resource list option" "int option"
  | OpUpdateKey string "Permission list option" "Resource list option option" "int option option" | OpRemoveKey string

fun ac_step :: "AccessControl \<Rightarrow> env \<times> ac_op \<Rightarrow> AccessControl" where
  "ac_step s (en, OpBootstrap u) = snd (ac_bootstrap en u s)"
| "ac_step s (en, OpAssign u r by expiry) = snd (assignRole en u r by expiry s)"
| "ac_step s (en, OpRevokeRole u by) = snd (revokeRole en u by s)"
| "ac_step s (en, OpGrant u r by d reason) = snd (grantTemporaryElevation en u r by d reason s)"
| "ac_step s (en, OpRevokeElevation i by) = snd (revokeElevation en i by s)"
| "ac_step s (en, OpGetRole u) = snd (getUserRole (en_now en) u s)"
| "ac_step s (en, OpRequire u r a x) = snd (requirePermission en u r a x s)"
| "ac_step s (en, OpPrevent u r) = snd (preventEscalation en u r s)"
| "ac_step s (en, OpResolve i) = resolveUnauthorizedEvent i s"
| "ac_step s (en, OpRegisterKey k p a r) = snd (registerApiKeyScope k p a r s)"
| "ac_step s (en, OpUpdateKey k p a r) = snd (updateApiKeyScope k p a r s)"
| "ac_step s (en, OpRemoveKey k) = removeApiKeyScope k s"

text \<open>The roles a user may ever act in: by assignment, or by an elevation, active or not.\<close>

definition grants :: "AccessControl \<Rightarrow> (string \<times> Role) list" where
  "grants s = map (\<lambda>(u, a). (u, ra_role a)) (ac_assignments s) @ map (\<lambda>(i, e). (el_userId e, el_elevatedRole e)) (ac_elevations s)"

definition above :: "nat \<Rightarrow> AccessControl \<Rightarrow> string \<Rightarrow> bool" where
  "above l s u \<longleftrightarrow> (\<exists>r. (u, r) \<in> set (grants s) \<and> l < ROLE_HIERARCHY r)"

lemma grants_audit [simp]: "grants (audit en a b c d s) = grants s"
  by (simp add: audit_def grants_def)

lemma grants_record [simp]: "grants (recordUnauthorizedAccess en a b c d e s) = grants s"
  by (simp add: recordUnauthorizedAccess_def audit_def Let_def grants_def)

lemma bootstrapped_frame [simp]:
  "ac_bootstrapped (audit en a b c d s) = ac_bootstrapped s"
  "ac_bootstrapped (recordUnauthorizedAccess en a b' c' d' e s) = ac_bootstrapped s"
  by (simp_all add: recordUnauthorizedAccess_def audit_def Let_def)

lemma delete_subset: "set (AList.delete k m) \<subseteq> set m"
  by (induction m) auto

lemma getAssignment_frame:
  "set (grants (snd (getAssignment now u s))) \<subseteq> set (grants s) \<and> ac_bootstrapped (snd (getAssignment now u s)) = ac_bootstrapped s \<and>
     ac_elevations (snd (getAssignment now u s)) = ac_elevations s \<and>
     set (ac_assignments (snd (getAssignment now u s))) \<subseteq> set (ac_assignments s)"
  using delete_subset [of u "ac_assignments s"] by (auto simp: getAssignment_def grants_def split: option.split)

lemma getAssignment_Some: "fst (getAssignment now u s) = Some a \<Longrightarrow> (u, a) \<in> set (ac_assignments s)"
  by (auto simp: getAssignment_def dest: map_of_SomeD split: option.splits if_splits)

lemma getUserRole_state: "snd (getUserRole now u s) = snd (getAssignment now u s)"
  by (auto simp: getUserRole_def split: option.split prod.split)

lemma getUserRole_granted:
  "fst (getUserRole now u s) = Viewer \<or> (u, fst (getUserRole now u s)) \<in> set (grants s)"
proof -
  obtain a s1 where g: "getAssignment now u s = (a, s1)" by fastforce
  show ?thesis
  proof (cases a)
    case None
    then show ?thesis by (simp add: getUserRole_def g)
  next
    case (Some ra)
    have s1: "ac_elevations s1 = ac_elevations s" using getAssignment_frame [of now u s] g by simp
    have ra: "(u, ra) \<in> set (ac_assignments s)" using getAssignment_Some [of now u s ra] g Some by simp
    show ?thesis
    proof (cases "getActiveElevation now u s1")
      case None
      then show ?thesis using ra by (force simp: getUserRole_def g Some grants_def)
    next
      case (Some e)
      then have "el_userId e = u" "e \<in> snd ` set (ac_elevations s)"
        using js_find_Some [of _ _ e] s1 by (fastforce simp: getActiveElevation_def)+
      moreover have "getUserRole now u s = (el_elevatedRole e, s1)"
        using Some \<open>a = Some ra\<close> by (simp add: getUserRole_def g)
      ultimately show ?thesis by (auto simp: grants_def intro!: rev_image_eqI)
    qed
  qed
qed

text \<open>Who a call needs the authority of.\<close>

fun authority :: "ac_op \<Rightarrow> string option" where
  "authority (OpAssign u r by x) = Some by"
| "authority (OpGrant u r by d reason) = Some by"
| "authority _ = None"

definition stays_within :: "nat \<Rightarrow> (string \<times> Role) list \<Rightarrow> (string \<times> Role) list \<Rightarrow> bool" where
  "stays_within l gs hs \<longleftrightarrow> (\<forall>p \<in> set hs. p \<in> set gs \<or> ROLE_HIERARCHY (snd p) \<le> l)"

lemma stays_within_trans: "stays_within l a b \<Longrightarrow> stays_within l b c \<Longrightarrow> stays_within l a c"
  by (auto simp: stays_within_def)

lemma stays_within_subset: "set hs \<subseteq> set gs \<Longrightarrow> stays_within l gs hs"
  by (auto simp: stays_within_def)

lemma stays_within_above: "stays_within l (grants s) (grants s1) \<Longrightarrow> above l s1 u \<Longrightarrow> above l s u"
  by (fastforce simp: stays_within_def above_def)

lemma role_level: "\<not> above l s a \<Longrightarrow> 10 \<le> l \<Longrightarrow> ROLE_HIERARCHY (fst (getUserRole now a s)) \<le> l"
  using getUserRole_granted [of now a s] by (force simp: above_def)

lemma grants_update:
  "set (grants (s\<lparr>ac_assignments := AList.update u a (ac_assignments s)\<rparr>)) \<subseteq> insert (u, ra_role a) (set (grants s))"
  "set (grants (s\<lparr>ac_elevations := AList.update i e (ac_elevations s)\<rparr>)) \<subseteq> insert (el_userId e, el_elevatedRole e) (set (grants s))"
  using set_update [of u a "ac_assignments s"] set_update [of i e "ac_elevations s"] by (force simp: grants_def)+


lemma grants_role: "set (grants (snd (getUserRole now u s))) \<subseteq> set (grants s)"
  unfolding getUserRole_state using getAssignment_frame by blast

lemma insert_within: "set hs \<subseteq> insert p (set gs) \<Longrightarrow> set gs \<subseteq> set ks \<Longrightarrow> ROLE_HIERARCHY (snd p) \<le> l \<Longrightarrow> stays_within l ks hs"
  by (auto simp: stays_within_def)

lemma assign_within:
  assumes "10 \<le> l" "\<not> above l s by"
  shows "stays_within l (grants s) (grants (snd (assignRole en u r by expiry s)))"
proof -
  obtain q s1 where g: "getUserRole (en_now en) by s = (q, s1)" by fastforce
  have q: "ROLE_HIERARCHY q \<le> l" using role_level [OF assms(2,1), of "en_now en"] g by simp
  have s1: "set (grants s1) \<subseteq> set (grants s)" using grants_role [of "en_now en" "by" s] g by simp
  define a where "a = \<lparr>ra_userId = u, ra_role = r, ra_assignedBy = by, ra_assignedAt = en_now en, ra_expiresAt = expiry\<rparr>"
  show ?thesis
  proof (cases "ROLE_HIERARCHY r \<le> ROLE_HIERARCHY q")
    case True
    then have "grants (snd (assignRole en u r by expiry s)) = grants (s1\<lparr>ac_assignments := AList.update u a (ac_assignments s1)\<rparr>)"
      by (simp add: assignRole_def canAssignRole_def g a_def Let_def)
    then show ?thesis using insert_within [OF grants_update(1) [where u = u and a = a] s1, of l] True q by (simp add: a_def)
  next
    case False
    then show ?thesis using stays_within_subset [OF s1] by (simp add: assignRole_def canAssignRole_def g)
  qed
qed

lemma elevation_within:
  assumes "10 \<le> l" "\<not> above l s by"
  shows "stays_within l (grants s) (grants (snd (grantTemporaryElevation en u r by d reason s)))"
proof -
  obtain q s1 where g: "getUserRole (en_now en) by s = (q, s1)" by fastforce
  have q: "ROLE_HIERARCHY q \<le> l" using role_level [OF assms(2,1), of "en_now en"] g by simp
  have s1: "set (grants s1) \<subseteq> set (grants s)" using grants_role [of "en_now en" "by" s] g by simp
  obtain x s2 where h: "getAssignment (en_now en) u s1 = (x, s2)" by fastforce
  have s2: "set (grants s2) \<subseteq> set (grants s)" using getAssignment_frame [of "en_now en" u s1] h s1 by auto
  show ?thesis
  proof (cases "\<not> ROLE_HIERARCHY q \<le> ROLE_HIERARCHY r \<and> x \<noteq> None")
    case True
    then obtain ex where x: "x = Some ex" by blast
    define e where "e = \<lparr>el_id = en_uuid en, el_userId = u, el_elevatedRole = r, el_originalRole = ra_role ex,
      el_grantedBy = by, el_reason = reason, el_expiresAt = en_now en + d, el_active = True\<rparr>"
    have "grants (snd (grantTemporaryElevation en u r by d reason s))
        = grants (s2\<lparr>ac_elevations := AList.update (el_id e) e (ac_elevations s2)\<rparr>)"
      using True by (simp add: grantTemporaryElevation_def g h x e_def Let_def)
    then show ?thesis using insert_within [OF grants_update(2) [where i = "el_id e" and e = e] s2, of l] True q by (simp add: e_def)
  next
    case False
    then have "set (grants (snd (grantTemporaryElevation en u r by d reason s))) \<subseteq> set (grants s)"
      using s1 s2 by (auto simp: grantTemporaryElevation_def g h split: option.splits)
    then show ?thesis by (rule stays_within_subset)
  qed
qed

lemma other_within:
  "set (grants (snd (revokeRole en u by s))) \<subseteq> set (grants s)"
  "set (grants (snd (revokeElevation en i by s))) \<subseteq> set (grants s)"
  "set (grants (snd (requirePermission en u rs a x s))) \<subseteq> set (grants s)"
  "set (grants (snd (preventEscalation en u r s))) \<subseteq> set (grants s)"
  "grants (resolveUnauthorizedEvent i s) = grants s"
  "grants (snd (registerApiKeyScope k p al rt s)) = grants s"
  "grants (snd (updateApiKeyScope k p' al' rt' s)) = grants s"
  "grants (removeApiKeyScope k s) = grants s"
proof -
  have "set (AList.delete u (ac_assignments s)) \<subseteq> set (ac_assignments s)" by (rule delete_subset)
  then have "set (grants (s\<lparr>ac_assignments := AList.delete u (ac_assignments s)\<rparr>)) \<subseteq> set (grants s)" by (auto simp: grants_def)
  then show "set (grants (snd (revokeRole en u by s))) \<subseteq> set (grants s)" by (auto simp: revokeRole_def split: option.split)
  have "set (grants (s\<lparr>ac_elevations := AList.update i (e\<lparr>el_active := False\<rparr>) (ac_elevations s)\<rparr>)) \<subseteq> set (grants s)"
    if "map_of (ac_elevations s) i = Some e" for e
  proof -
    have "(el_userId e, el_elevatedRole e) \<in> set (grants s)" using map_of_SomeD [OF that] by (force simp: grants_def)
    then show ?thesis using grants_update(2) [where s = s and i = i and e = "e\<lparr>el_active := False\<rparr>"] by auto
  qed
  then show "set (grants (snd (revokeElevation en i by s))) \<subseteq> set (grants s)"
    by (auto simp: revokeElevation_def split: option.split)
  have has: "set (grants (snd (hasPermission now u rs a x s))) \<subseteq> set (grants s)" for now
    using grants_role [of now u s] by (auto simp: hasPermission_def split: prod.splits option.splits)
  have require: "set (grants (snd (requirePermission en u rs a x s))) \<subseteq> set (grants (snd (hasPermission (en_now en) u rs a x s)))"
  proof -
    obtain b s1 where b: "hasPermission (en_now en) u rs a x s = (b, s1)" by fastforce
    show ?thesis using grants_role [of "en_now en" u s1] by (cases b) (auto simp: requirePermission_def b split: prod.splits)
  qed
  then show "set (grants (snd (requirePermission en u rs a x s))) \<subseteq> set (grants s)" using has by blast
  show "set (grants (snd (preventEscalation en u r s))) \<subseteq> set (grants s)"
    using grants_role [of "en_now en" u s] by (auto simp: preventEscalation_def split: prod.splits)
  show "grants (resolveUnauthorizedEvent i s) = grants s"
    "grants (snd (registerApiKeyScope k p al rt s)) = grants s"
    "grants (snd (updateApiKeyScope k p' al' rt' s)) = grants s"
    "grants (removeApiKeyScope k s) = grants s"
    by (simp_all add: resolveUnauthorizedEvent_def registerApiKeyScope_def updateApiKeyScope_def removeApiKeyScope_def
        grants_def Let_def split: option.split)
qed

lemma step_bootstrapped: "ac_bootstrapped s \<Longrightarrow> ac_bootstrapped (ac_step s (en, x))"
proof -
  assume b: "ac_bootstrapped s"
  have role: "ac_bootstrapped (snd (getUserRole now u t)) = ac_bootstrapped t" for now u t
    unfolding getUserRole_state using getAssignment_frame by blast
  have asg: "ac_bootstrapped (snd (getAssignment now u t)) = ac_bootstrapped t" for now u t using getAssignment_frame by blast
  have has: "ac_bootstrapped (snd (hasPermission now u rs a y t)) = ac_bootstrapped t" for now u rs a y t
    using role [of now u t] by (auto simp: hasPermission_def split: prod.splits option.splits)
  show ?thesis
  proof (cases x)
    case (OpAssign u r by' ex)
    then show ?thesis using b role [of "en_now en" by' s] by (auto simp: assignRole_def canAssignRole_def Let_def split: prod.splits)
  next
    case (OpGrant u r by' d reason)
    obtain q s1 where g: "getUserRole (en_now en) by' s = (q, s1)" by fastforce
    have "ac_bootstrapped s1" using role [of "en_now en" by' s] g b by simp
    then show ?thesis using asg [of "en_now en" u s1]
      by (auto simp: OpGrant grantTemporaryElevation_def g Let_def split: prod.splits option.splits)
  next
    case (OpRequire u rs a y)
    obtain q s1 where g: "hasPermission (en_now en) u rs a y s = (q, s1)" by fastforce
    then have s1: "ac_bootstrapped s1" using has [of "en_now en" u rs a y s] b by simp
    show ?thesis using s1 role [of "en_now en" u s1] by (cases q) (auto simp: OpRequire requirePermission_def g split: prod.splits)
  next
    case (OpPrevent u r)
    then show ?thesis using b role [of "en_now en" u s] by (auto simp: preventEscalation_def split: prod.splits)
  qed (use b role in \<open>auto simp: ac_bootstrap_def revokeRole_def revokeElevation_def resolveUnauthorizedEvent_def
        registerApiKeyScope_def updateApiKeyScope_def removeApiKeyScope_def Let_def split: option.split\<close>)
qed

lemma step_within:
  assumes "10 \<le> l" "ac_bootstrapped s" "\<And>a. authority x = Some a \<Longrightarrow> \<not> above l s a"
  shows "stays_within l (grants s) (grants (ac_step s (en, x)))"
proof (cases x)
  case (OpBootstrap u)
  then show ?thesis using assms(2) by (simp add: ac_bootstrap_def stays_within_subset)
next
  case (OpGetRole u)
  then show ?thesis using stays_within_subset [OF grants_role] by simp
qed (use assms assign_within elevation_within stays_within_subset other_within in simp_all)


lemma run_within:
  assumes "10 \<le> l" "ac_bootstrapped s" "\<forall>(en, x) \<in> set ops. \<forall>a. authority x = Some a \<longrightarrow> \<not> above l s a"
  shows "stays_within l (grants s) (grants (foldl ac_step s ops)) \<and> ac_bootstrapped (foldl ac_step s ops)"
  using assms
proof (induction ops rule: rev_induct)
  case Nil
  then show ?case by (simp add: stays_within_subset)
next
  case (snoc p ops)
  obtain en x where p: "p = (en, x)" by (cases p)
  let ?t = "foldl ac_step s ops"
  have ih: "stays_within l (grants s) (grants ?t)" "ac_bootstrapped ?t" using snoc by auto
  have "\<not> above l ?t a" if "authority x = Some a" for a
    using stays_within_above [OF ih(1)] snoc.prems(3) that by (auto simp: p)
  then have "stays_within l (grants ?t) (grants (ac_step ?t (en, x)))" by (rule step_within [OF assms(1) ih(2)])
  then show ?case using stays_within_trans [OF ih(1)] step_bootstrapped [OF ih(2)] by (simp add: p)
qed

section \<open>The record of denied accesses\<close>

lemma check_permissions: "checkPermissions ps r a \<longleftrightarrow>
    (\<exists>p \<in> set ps. pm_resource p = r \<and> pm_effect p \<noteq> Some Deny \<and> (a \<in> set (pm_actions p) \<or> Manage \<in> set (pm_actions p)))"
  by (auto simp: checkPermissions_def Let_def list_ex_iff filter_empty_conv)

text \<open>At most \<open>maxUnauthorizedEvents\<close> denied accesses are kept, and every entry is stored under its own id.\<close>

definition ac_ok :: "AccessControl \<Rightarrow> bool" where
  "ac_ok s \<longleftrightarrow> length (ac_unauthorizedEvents s) \<le> maxUnauthorizedEvents \<and>
     (\<forall>p \<in> set (ac_assignments s). ra_userId (snd p) = fst p) \<and> (\<forall>p \<in> set (ac_elevations s). el_id (snd p) = fst p)"

lemma ac_ok_frame:
  "ac_unauthorizedEvents t = ac_unauthorizedEvents s \<Longrightarrow> set (ac_assignments t) \<subseteq> set (ac_assignments s) \<Longrightarrow>
     ac_elevations t = ac_elevations s \<Longrightarrow> ac_ok s \<Longrightarrow> ac_ok t"
  by (auto simp: ac_ok_def)

lemma ac_ok_audit [simp]: "ac_ok (audit en a b c d s) = ac_ok s"
  by (simp add: ac_ok_def audit_def)

lemma ac_ok_assignment: "ac_ok s \<Longrightarrow> ac_ok (snd (getAssignment now u s))"
  using delete_subset [of u "ac_assignments s"] by (auto simp: getAssignment_def ac_ok_def split: option.split)

lemma ac_ok_role: "ac_ok s \<Longrightarrow> ac_ok (snd (getUserRole now u s))"
  unfolding getUserRole_state by (rule ac_ok_assignment)

lemma ac_ok_record: "ac_ok s \<Longrightarrow> ac_ok (recordUnauthorizedAccess en a b c d e s)"
  by (auto simp: recordUnauthorizedAccess_def ac_ok_def audit_def Let_def maxUnauthorizedEvents_def)

lemma ac_ok_store:
  "ac_ok s \<Longrightarrow> ra_userId a = u \<Longrightarrow> ac_ok (s\<lparr>ac_assignments := AList.update u a (ac_assignments s)\<rparr>)"
  "ac_ok s \<Longrightarrow> el_id e = i \<Longrightarrow> ac_ok (s\<lparr>ac_elevations := AList.update i e (ac_elevations s)\<rparr>)"
  "ac_ok s \<Longrightarrow> ac_ok (s\<lparr>ac_assignments := AList.delete u (ac_assignments s)\<rparr>)"
  using obj_update_all [of "ac_assignments s" "\<lambda>p. ra_userId (snd p) = fst p" u a]
    obj_update_all [of "ac_elevations s" "\<lambda>p. el_id (snd p) = fst p" i e] delete_subset [of u "ac_assignments s"]
  by (auto simp: ac_ok_def)

lemma ac_ok_has: "ac_ok s \<Longrightarrow> ac_ok (snd (hasPermission now u r a x s))"
  using ac_ok_role [of s now u] by (auto simp: hasPermission_def split: prod.splits option.splits)

lemma ac_ok_step: "ac_ok s \<Longrightarrow> ac_ok (ac_step s p)"
proof -
  assume ok: "ac_ok s"
  obtain en x where p: "p = (en, x)" by (cases p)
  show ?thesis
  proof (cases x)
    case (OpAssign u r who ex)
    then show ?thesis using ac_ok_role [OF ok, of "en_now en" who]
      by (auto simp: p assignRole_def canAssignRole_def Let_def ac_ok_store split: prod.splits)
  next
    case (OpGrant u r who d reason)
    obtain q s1 where g: "getUserRole (en_now en) who s = (q, s1)" by fastforce
    have s1: "ac_ok s1" using ac_ok_role [OF ok, of "en_now en" who] g by simp
    show ?thesis using ac_ok_assignment [OF s1, of "en_now en" u] s1
      by (auto simp: p OpGrant grantTemporaryElevation_def g Let_def ac_ok_store split: prod.splits option.splits)
  next
    case (OpRevokeElevation i who)
    have "el_id (e\<lparr>el_active := False\<rparr>) = i" if "map_of (ac_elevations s) i = Some e" for e
      using ok map_of_SomeD [OF that] by (auto simp: ac_ok_def)
    then show ?thesis using ok by (auto simp: p OpRevokeElevation revokeElevation_def ac_ok_store split: option.split)
  next
    case (OpRequire u r a y)
    obtain b s1 where b: "hasPermission (en_now en) u r a y s = (b, s1)" by fastforce
    have s1: "ac_ok s1" using ac_ok_has [OF ok, of "en_now en" u r a y] b by simp
    show ?thesis using s1 ac_ok_role [OF s1, of "en_now en" u]
      by (cases b) (auto simp: p OpRequire requirePermission_def b ac_ok_record split: prod.splits)
  next
    case (OpPrevent u r)
    then show ?thesis using ac_ok_role [OF ok, of "en_now en" u]
      by (auto simp: p preventEscalation_def ac_ok_record split: prod.splits)
  next
    case (OpBootstrap u)
    define a where "a = \<lparr>ra_userId = u, ra_role = Admin, ra_assignedBy = ''system'', ra_assignedAt = en_now en, ra_expiresAt = None\<rparr>"
    have "ac_ok (s\<lparr>ac_assignments := AList.update u a (ac_assignments s)\<rparr>)" by (rule ac_ok_store(1) [OF ok]) (simp add: a_def)
    then have "ac_ok (s\<lparr>ac_assignments := AList.update u a (ac_assignments s), ac_bootstrapped := True\<rparr>)" by (simp add: ac_ok_def)
    then show ?thesis using ok by (simp add: p OpBootstrap ac_bootstrap_def Let_def a_def)
  next
    case (OpRevokeRole u who)
    then show ?thesis using ok ac_ok_store(3) [OF ok, of u] by (simp add: p revokeRole_def split: option.split)
  next
    case (OpResolve i)
    then show ?thesis using ok by (simp add: p resolveUnauthorizedEvent_def ac_ok_def split: option.split)
  next
    case (OpGetRole u)
    then show ?thesis using ac_ok_role [OF ok] by (simp add: p)
  next
    case (OpRegisterKey k q a r)
    then show ?thesis using ok by (simp add: p registerApiKeyScope_def ac_ok_def Let_def)
  next
    case (OpUpdateKey k q a r)
    then show ?thesis using ok by (simp add: p updateApiKeyScope_def ac_ok_def Let_def split: option.split)
  next
    case (OpRemoveKey k)
    then show ?thesis using ok by (simp add: p removeApiKeyScope_def ac_ok_def)
  qed
qed

interpretation access: machine ac_step ac_ok
  by unfold_locales (rule ac_ok_step)


section \<open>Properties\<close>

text \<open>C5: No privilege out of nothing: once the system is bootstrapped, a run in which every assignment and every
  elevation is asked for by users who hold nothing above a level gives nobody anything above that level, whatever
  the interleaving, the expiry of roles and elevations, and the other calls in between.\<close>

theorem no_privilege_escalation:
  assumes "10 \<le> l" "ac_bootstrapped s" "\<forall>(en, x) \<in> set ops. \<forall>a. authority x = Some a \<longrightarrow> \<not> above l s a"
    "above l (foldl ac_step s ops) u"
  shows "above l s u"
  using run_within [OF assms(1-3)] stays_within_above [OF _ assms(4)] by blast

definition demo_env :: env where
  "demo_env = \<lparr>en_hmac = demo_hash, en_now = 100, en_uuid = ''u1'', en_auditUuid = ''a1''\<rparr>"

definition demo_control :: AccessControl where
  "demo_control = snd (ac_bootstrap demo_env ''root'' (newAccessControl demo_audit \<lparr>as_sent = [], as_delivered = []\<rparr>))"

lemma demo_control_state:
  "grants demo_control = [(''root'', Admin)]" "ac_bootstrapped demo_control"
  "ac_assignments demo_control = [(''root'', \<lparr>ra_userId = ''root'', ra_role = Admin, ra_assignedBy = ''system'',
     ra_assignedAt = 100, ra_expiresAt = None\<rparr>)]"
  "ac_elevations demo_control = []" "ac_unauthorizedEvents demo_control = []"
  by (simp_all add: demo_control_def ac_bootstrap_def newAccessControl_def Let_def grants_def audit_def demo_env_def)

theorem no_privilege_escalation_witness:
  "\<not> above 50 (foldl ac_step demo_control
     [(demo_env, OpAssign ''mallory'' Admin ''mallory'' None), (demo_env, OpGrant ''mallory'' Manager ''mallory'' 1000 ''x'')]) ''mallory''"
proof
  assume "above 50 (foldl ac_step demo_control
     [(demo_env, OpAssign ''mallory'' Admin ''mallory'' None), (demo_env, OpGrant ''mallory'' Manager ''mallory'' 1000 ''x'')]) ''mallory''"
  then have "above 50 demo_control ''mallory''"
    by (rule no_privilege_escalation [rotated 3]) (simp_all add: above_def demo_control_state)
  then show False by (simp add: above_def demo_control_state)
qed

text \<open>C34: But role changes downwards are unchecked, and what is temporary need not stay so: any actor, known to the system or
  not, can replace anybody's role, an administrator's too, by viewer, and any user can make the role held now,
  an elevated one too, a permanent assignment.\<close>

theorem role_changes_are_unchecked:
  "(\<exists>a s1. assignRole en victim Viewer anyone None s = (Inr a, s1) \<and> ra_role a = Viewer \<and> (\<forall>t. fst (getAssignment t victim s1) = Some a)) \<and>
   (\<exists>a s1. assignRole en user (fst (getUserRole (en_now en) user s)) user None s = (Inr a, s1) \<and>
      ra_role a = fst (getUserRole (en_now en) user s) \<and> (\<forall>t. fst (getAssignment t user s1) = Some a))"
proof -
  have assign: "\<exists>a s1. assignRole en u r by None s = (Inr a, s1) \<and> ra_role a = r \<and> (\<forall>t. fst (getAssignment t u s1) = Some a)"
    if "ROLE_HIERARCHY r \<le> ROLE_HIERARCHY (fst (getUserRole (en_now en) by s))" for u r "by"
  proof -
    obtain q s1 where g: "getUserRole (en_now en) by s = (q, s1)" by fastforce
    then show ?thesis using that
      by (simp add: assignRole_def canAssignRole_def Let_def getAssignment_def audit_def expired_def)
  qed
  have "10 \<le> ROLE_HIERARCHY r" for r by (cases r) simp_all
  then have "ROLE_HIERARCHY Viewer \<le> ROLE_HIERARCHY (fst (getUserRole (en_now en) anyone s))" by simp
  from assign [OF this] assign [OF order_refl] show ?thesis by blast
qed

text \<open>An administrator may do everything; and the documented inheritance, a higher role has every permission of a lower
  one, holds except for one: a viewer may read the audit logs and a manager may not.\<close>

theorem role_inheritance_gap:
  "(\<forall>r a. checkPermissions (ROLE_PERMISSIONS Admin) r a) \<and>
   (\<forall>r a. checkPermissions (ROLE_PERMISSIONS Viewer) r a \<and> \<not> checkPermissions (ROLE_PERMISSIONS Manager) r a \<longleftrightarrow>
      r = AuditLogs \<and> a = Read)"
proof (intro conjI allI)
  fix r a
  show "checkPermissions (ROLE_PERMISSIONS Admin) r a" by (cases r; cases a) (simp_all add: check_permissions perm_def)
  show "checkPermissions (ROLE_PERMISSIONS Viewer) r a \<and> \<not> checkPermissions (ROLE_PERMISSIONS Manager) r a \<longleftrightarrow>
      r = AuditLogs \<and> a = Read"
    by (cases r; cases a) (simp_all add: check_permissions perm_def)
qed

text \<open>A required permission is refused exactly when it is not held, and then the denial is the newest recorded access
  and the newest audit entry; over any run at most ten thousand denials are kept.\<close>

theorem denials_are_recorded:
  assumes "ac_ok s0" "0 < au_maxLogSize (ac_audit (foldl ac_step s0 ops))"
  shows "let s = foldl ac_step s0 ops; (result, s1) = requirePermission en user r a allow s
     in (result = Inr () \<longleftrightarrow> fst (hasPermission (en_now en) user r a allow s)) \<and>
        length (ac_unauthorizedEvents s1) \<le> 10000 \<and>
        (if result = Inr () then ac_unauthorizedEvents s1 = ac_unauthorizedEvents s
         else ua_actorId (last (ac_unauthorizedEvents s1)) = user \<and> ua_resource (last (ac_unauthorizedEvents s1)) = r \<and>
           ua_action (last (ac_unauthorizedEvents s1)) = a \<and>
           ae_actorId (last (au_log (ac_audit s1))) = sanitizeInput user \<and>
           ae_resourceType (last (au_log (ac_audit s1))) = ''access_denied'')"
proof -
  let ?s = "foldl ac_step s0 ops"
  have ok: "ac_ok ?s" by (rule access.run_inv [OF assms(1)])
  obtain b s1 where b: "hasPermission (en_now en) user r a allow ?s = (b, s1)" by fastforce
  have frame: "ac_unauthorizedEvents (snd (getUserRole now u t)) = ac_unauthorizedEvents t \<and> ac_audit (snd (getUserRole now u t)) = ac_audit t"
    for now u t unfolding getUserRole_state by (auto simp: getAssignment_def split: option.split)
  have s1: "s1 = snd (getUserRole (en_now en) user ?s)"
    using b by (auto simp: hasPermission_def split: prod.splits option.splits)
  obtain q s2 where q: "getUserRole (en_now en) user s1 = (q, s2)" by fastforce
  have s2: "ac_ok s2" "0 < au_maxLogSize (ac_audit s2)"
    using ac_ok_role [OF ac_ok_role [OF ok]] frame [of "en_now en" user s1] frame [of "en_now en" user ?s] assms(2) q s1
    by (metis snd_conv)+
  have last_event: "last (ac_unauthorizedEvents (recordUnauthorizedAccess en user (Some q) r a m s2)) =
      \<lparr>ua_id = en_uuid en, ua_actorId = user, ua_actorRole = Some q, ua_resource = r, ua_action = a,
            ua_deniedAt = en_now en, ua_reason = m, ua_resolved = False\<rparr>" for m
    using s2(1) by (simp add: recordUnauthorizedAccess_def audit_def Let_def ac_ok_def maxUnauthorizedEvents_def)
  have last_audit: "ae_actorId (last (au_log (ac_audit (recordUnauthorizedAccess en user (Some q) r a m s2)))) = sanitizeInput user \<and>
      ae_resourceType (last (au_log (ac_audit (recordUnauthorizedAccess en user (Some q) r a m s2)))) = ''access_denied''" for m
  proof -
    have lg: "ac_audit (recordUnauthorizedAccess en user (Some q) r a m s2) = snd (capture (en_hmac en) (en_auditUuid en) (en_now en)
        ''admin.action'' user (resource_name r) ''access_denied'' [(''action'', JStr (action_name a)), (''reason'', JStr m)] SevLow None (ac_audit s2))"
      by (simp add: recordUnauthorizedAccess_def audit_def Let_def)
    have "sanitizeInput ''access_denied'' = ''access_denied''" by code_simp
    then show ?thesis unfolding lg capture_last [OF s2(2)] capture_event by simp
  qed
  show ?thesis
  proof (cases b)
    case True
    then show ?thesis using ok frame by (simp add: requirePermission_def b s1 ac_ok_def maxUnauthorizedEvents_def)
  next
    case False
    have "length (ac_unauthorizedEvents (recordUnauthorizedAccess en user (Some q) r a m s2)) \<le> 10000" for m
      using ac_ok_record [OF s2(1)] by (simp add: ac_ok_def maxUnauthorizedEvents_def)
    then show ?thesis using False last_event last_audit by (simp add: requirePermission_def b q Let_def)
  qed
qed

theorem denials_are_recorded_witness:
  "let s = foldl ac_step demo_control []; (result, s1) = requirePermission demo_env ''mallory'' Billing Delete None s
   in \<not> (result = Inr ()) \<and> ua_actorId (last (ac_unauthorizedEvents s1)) = ''mallory''"
proof -
  have ok: "ac_ok demo_control" by (simp add: ac_ok_def demo_control_state maxUnauthorizedEvents_def)
  have size: "0 < au_maxLogSize (ac_audit (foldl ac_step demo_control []))"
    by (simp add: demo_control_def ac_bootstrap_def newAccessControl_def Let_def audit_def demo_env_def capture_def demo_audit_def)
  have "\<not> fst (hasPermission (en_now demo_env) ''mallory'' Billing Delete None demo_control)"
    by (simp add: hasPermission_def getUserRole_def getAssignment_def demo_control_state check_permissions perm_def)
  then show ?thesis using denials_are_recorded [OF ok size, of demo_env "''mallory''" Billing Delete None]
    by (simp add: Let_def split: prod.splits)
qed

text \<open>What an API key may do: its scope is registered, lists the resource if it lists resources at all, and has an entry
  for it that is not a deny entry and names the action or \<open>manage\<close>. Entries that deny take nothing away.\<close>

theorem api_key_contract:
  "checkApiKeyPermission key r a s \<longleftrightarrow>
     (case map_of (ac_apiKeyScopes s) key of
        None \<Rightarrow> False
      | Some k \<Rightarrow> (case ks_allowedResources k of None \<Rightarrow> True | Some rs \<Rightarrow> r \<in> set rs) \<and>
          list_ex (\<lambda>p. pm_resource p = r \<and> (a \<in> set (pm_actions p) \<or> Manage \<in> set (pm_actions p)))
            (filter (\<lambda>p. pm_effect p \<noteq> Some Deny) (ks_permissions k)))"
  by (auto simp: checkApiKeyPermission_def check_permissions list_ex_iff split: option.splits)

end
