(* ===== verification/Proration.thy ===== *)
theory Proration
  imports ImportExport
begin

text \<open>
  Proration of plan changes: the calculations of \<^verbatim>\<open>src/utils/proration.ts\<close> and the service of
  \<^verbatim>\<open>backend/services/billing/proration.ts\<close> with plan configurations, the history of changes, credit memos and
  disputes. Amounts are exact rationals rounded where the code rounds; the clock and generated ids are
  arguments.
\<close>

section \<open>Calculations\<close>

text \<open>The fields of a subscription that proration reads.\<close>

record PlanSubscription =
  ps_id :: string
  ps_price :: rat
  ps_billingCycle :: BillingCycle
  ps_nextBillingDate :: int

datatype EffectiveDate = Immediate | EndOfPeriod | OnDate int

record ProrationPreview =
  pv_amount :: rat
  pv_isCredit :: bool
  pv_remainingDays :: int
  pv_periodDays :: int
  pv_oldDailyRate :: rat
  pv_newDailyRate :: rat
  pv_description :: string
  pv_effectiveDate :: EffectiveDate

record CreditMemo =
  me_subscriptionId :: string
  me_amount :: rat
  me_reason :: string
  me_createdAt :: int
  me_applied :: bool
  me_remainingBalance :: rat

fun getPeriodDays :: "BillingCycle \<Rightarrow> int" where
  "getPeriodDays WEEKLY = 7"
| "getPeriodDays MONTHLY = 30"
| "getPeriodDays YEARLY = 365"
| "getPeriodDays CUSTOM = 30"

text \<open>\<open>Math.round(x * 100) / 100\<close>\<close>

definition cents :: "rat \<Rightarrow> rat" where
  "cents x = of_int (js_round (x * 100)) / 100"

definition getRemainingDays :: "int \<Rightarrow> PlanSubscription \<Rightarrow> int" where
  "getRemainingDays now s = max 0 (ceil_div (ps_nextBillingDate s - now) ONE_DAY_MS)"

definition resolveProrationEffectiveDate :: "int \<Rightarrow> PlanSubscription \<Rightarrow> EffectiveDate \<Rightarrow> EffectiveDate" where
  "resolveProrationEffectiveDate now s d =
     (case d of EndOfPeriod \<Rightarrow> EndOfPeriod
      | OnDate t \<Rightarrow> if now < t \<and> t \<le> ps_nextBillingDate s then Immediate else EndOfPeriod
      | Immediate \<Rightarrow> Immediate)"

definition no_proration :: string where "no_proration = ''No proration required''"

definition proration_text :: "rat \<Rightarrow> bool \<Rightarrow> int \<Rightarrow> string \<Rightarrow> string" where
  "proration_text amount isCredit n period =
     (if amount = 0 then no_proration
      else (if isCredit then ''Prorated credit of '' @ show_num amount @ '' for plan downgrade (''
        else ''Prorated charge of '' @ show_num amount @ '' for plan upgrade ('') @ show_int n @ '' '' @ period @ '' remaining)'')"

definition calculateMidCycleProration :: "int \<Rightarrow> PlanSubscription \<Rightarrow> rat \<Rightarrow> EffectiveDate \<Rightarrow> ProrationPreview" where
  "calculateMidCycleProration now s newPrice effectiveDate =
     (let resolved = resolveProrationEffectiveDate now s effectiveDate; periodDays = getPeriodDays (ps_billingCycle s);
          oldRate = cents (ps_price s / of_int periodDays); newRate = cents (newPrice / of_int periodDays)
      in if resolved = EndOfPeriod \<or> ps_price s = newPrice
         then \<lparr>pv_amount = 0, pv_isCredit = False, pv_remainingDays = 0, pv_periodDays = periodDays, pv_oldDailyRate = oldRate,
               pv_newDailyRate = newRate, pv_description = no_proration, pv_effectiveDate = EndOfPeriod\<rparr>
         else let chosen = (case effectiveDate of OnDate t \<Rightarrow> t | _ \<Rightarrow> now);
                  target = min (max chosen now) (ps_nextBillingDate s);
                  remainingMs = max 0 (ps_nextBillingDate s - target);
                  remainingDays = max 0 (ceil_div remainingMs ONE_DAY_MS);
                  rawAmount = (newPrice - ps_price s) * of_int remainingDays / of_int periodDays;
                  amount = cents \<bar>rawAmount\<bar>; isCredit = rawAmount < 0
              in \<lparr>pv_amount = amount, pv_isCredit = isCredit, pv_remainingDays = remainingDays, pv_periodDays = periodDays,
                  pv_oldDailyRate = oldRate, pv_newDailyRate = newRate,
                  pv_description = proration_text amount isCredit remainingDays ''days'', pv_effectiveDate = resolved\<rparr>)"

definition previewProration :: "int \<Rightarrow> PlanSubscription \<Rightarrow> rat \<Rightarrow> EffectiveDate \<Rightarrow> ProrationPreview" where
  "previewProration now s newPrice effectiveDate = calculateMidCycleProration now s newPrice effectiveDate"

definition calculateUpgradeProration :: "int \<Rightarrow> PlanSubscription \<Rightarrow> rat \<Rightarrow> ProrationPreview" where
  "calculateUpgradeProration now s newPrice = previewProration now s newPrice Immediate"

definition calculateDowngradeProration :: "int \<Rightarrow> PlanSubscription \<Rightarrow> rat \<Rightarrow> ProrationPreview" where
  "calculateDowngradeProration now s newPrice = previewProration now s newPrice Immediate"

definition calculateEndOfPeriodChange :: "int \<Rightarrow> PlanSubscription \<Rightarrow> rat \<Rightarrow> ProrationPreview" where
  "calculateEndOfPeriodChange now s newPrice = previewProration now s newPrice EndOfPeriod"

definition generateCreditMemo :: "int \<Rightarrow> string \<Rightarrow> rat \<Rightarrow> string \<Rightarrow> CreditMemo" where
  "generateCreditMemo now subscriptionId amount reason = \<lparr>me_subscriptionId = subscriptionId, me_amount = amount,
     me_reason = reason, me_createdAt = now, me_applied = False, me_remainingBalance = amount\<rparr>"

definition applyCreditMemo :: "rat \<Rightarrow> CreditMemo \<Rightarrow> rat \<times> CreditMemo" where
  "applyCreditMemo chargeAmount memo =
     (if me_applied memo \<or> me_remainingBalance memo \<le> 0 then (chargeAmount, memo)
      else let creditToApply = min chargeAmount (me_remainingBalance memo);
               newRemaining = me_remainingBalance memo - creditToApply
           in (cents (chargeAmount - creditToApply),
               memo\<lparr>me_remainingBalance := cents newRemaining, me_applied := (newRemaining \<le> 0)\<rparr>))"

record PriceChange =
  pc_oldPrice :: rat
  pc_newPrice :: rat
  pc_effectiveDate :: EffectiveDate

definition signed_amount :: "ProrationPreview \<Rightarrow> rat" where
  "signed_amount p = (if pv_isCredit p then - pv_amount p else pv_amount p)"

definition change_preview :: "int \<Rightarrow> PlanSubscription \<Rightarrow> PriceChange \<Rightarrow> ProrationPreview" where
  "change_preview now s c = calculateMidCycleProration now (s\<lparr>ps_price := pc_oldPrice c\<rparr>) (pc_newPrice c) (pc_effectiveDate c)"

definition net_step :: "int \<Rightarrow> PlanSubscription \<Rightarrow> rat \<times> int \<Rightarrow> PriceChange \<Rightarrow> rat \<times> int" where
  "net_step now s acc c =
     (let r = change_preview now s c in (fst acc + signed_amount r, max (snd acc) (pv_remainingDays r)))"

definition calculateNetProration :: "int \<Rightarrow> PlanSubscription \<Rightarrow> PriceChange list \<Rightarrow> ProrationPreview" where
  "calculateNetProration now s changes =
     (case foldl (net_step now s) (0, getRemainingDays now s) changes of
        (netAmount, remainingDays) \<Rightarrow>
          let isCredit = netAmount < 0; amount = cents \<bar>netAmount\<bar>
          in \<lparr>pv_amount = amount, pv_isCredit = isCredit, pv_remainingDays = remainingDays,
              pv_periodDays = getPeriodDays (ps_billingCycle s), pv_oldDailyRate = 0, pv_newDailyRate = 0,
              pv_description = (if amount = 0 then ''No net proration for multiple plan changes''
                else ''Net '' @ (if isCredit then ''credit'' else ''charge'') @ '' of '' @ show_num amount @ '' for multiple plan changes''),
              pv_effectiveDate = Immediate\<rparr>)"

definition isZeroProration :: "ProrationPreview \<Rightarrow> bool" where
  "isZeroProration p = (pv_amount p = 0)"

record InvoiceLineItem =
  il_description :: string
  il_quantity :: nat
  il_unitPrice :: rat
  il_currency :: string
  il_exchangeRate :: rat
  il_taxRateBps :: nat
  il_lineTotal :: rat

definition buildProrationLineItem :: "ProrationPreview \<Rightarrow> string \<Rightarrow> InvoiceLineItem" where
  "buildProrationLineItem p currency = \<lparr>il_description = pv_description p, il_quantity = 1, il_unitPrice = pv_amount p,
     il_currency = currency, il_exchangeRate = 1, il_taxRateBps = 0, il_lineTotal = signed_amount p\<rparr>"

definition calculateHourlyProration :: "int \<Rightarrow> PlanSubscription \<Rightarrow> rat \<Rightarrow> EffectiveDate \<Rightarrow> ProrationPreview" where
  "calculateHourlyProration now s newPrice effectiveDate =
     (let periodDays = getPeriodDays (ps_billingCycle s); periodHours = periodDays * 24;
          remainingDays = (if effectiveDate = EndOfPeriod then 0 else getRemainingDays now s);
          remainingHours = remainingDays * 24;
          rawAmount = (if effectiveDate = EndOfPeriod then 0
            else (newPrice - ps_price s) * of_int remainingHours / of_int periodHours);
          amount = cents \<bar>rawAmount\<bar>; isCredit = rawAmount < 0
      in \<lparr>pv_amount = amount, pv_isCredit = isCredit, pv_remainingDays = remainingDays, pv_periodDays = periodDays,
          pv_oldDailyRate = cents (ps_price s / of_int periodDays), pv_newDailyRate = cents (newPrice / of_int periodDays),
          pv_description = proration_text amount isCredit remainingHours ''hours'', pv_effectiveDate = effectiveDate\<rparr>)"

record ProrationAnalyticsData =
  pa_totalProrations :: nat
  pa_totalCreditsIssued :: rat
  pa_totalChargesApplied :: rat
  pa_netProrationAmount :: rat
  pa_averageProrationAmount :: rat
  pa_prorationCount :: nat
  pa_creditsUsedCount :: nat
  pa_chargesCount :: nat

definition buildProrationAnalytics :: "ProrationPreview list \<Rightarrow> ProrationAnalyticsData" where
  "buildProrationAnalytics previews =
     (let creditPreviews = filter pv_isCredit previews;
          charges = filter (\<lambda>p. \<not> pv_isCredit p \<and> 0 < pv_amount p) previews;
          totalCredits = rat_sum (map pv_amount creditPreviews); totalCharges = rat_sum (map pv_amount charges);
          amounts = filter (\<lambda>a. 0 < a) (map pv_amount previews)
      in \<lparr>pa_totalProrations = length previews, pa_totalCreditsIssued = totalCredits, pa_totalChargesApplied = totalCharges,
          pa_netProrationAmount = cents (totalCharges - totalCredits),
          pa_averageProrationAmount = (if amounts \<noteq> [] then cents (rat_sum amounts / of_nat (length amounts)) else 0),
          pa_prorationCount = length previews, pa_creditsUsedCount = length creditPreviews, pa_chargesCount = length charges\<rparr>)"

definition hasExceededChangeLimit :: "(bool \<times> int) list \<Rightarrow> int \<Rightarrow> int \<Rightarrow> bool" where
  "hasExceededChangeLimit history maxChanges cycleStart \<longleftrightarrow>
     maxChanges \<le> int (length (filter (\<lambda>(applied, t). applied \<and> cycleStart \<le> t) history))"

definition isCreditMemoExpired :: "int \<Rightarrow> CreditMemo \<Rightarrow> rat \<Rightarrow> bool" where
  "isCreditMemoExpired now memo expirationDays \<longleftrightarrow>
     me_applied memo \<or> expirationDays < of_int (now - me_createdAt memo) / of_int ONE_DAY_MS"

section \<open>The service\<close>

datatype ProrationMethod = Daily | Hourly | NoProration

record ProrationConfiguration =
  pg_planId :: string
  pg_method :: ProrationMethod
  pg_allowMidCycleChanges :: bool
  pg_maxChangesPerCycle :: int
  pg_creditExpirationDays :: int
  pg_prorationPrecision :: nat

definition DEFAULT_CONFIG :: ProrationConfiguration where
  "DEFAULT_CONFIG = \<lparr>pg_planId = ''default'', pg_method = Daily, pg_allowMidCycleChanges = True,
     pg_maxChangesPerCycle = 3, pg_creditExpirationDays = 90, pg_prorationPrecision = 2\<rparr>"

text \<open>A partial configuration; absent members keep their value.\<close>

record PartialProrationConfig =
  pp_method :: "ProrationMethod option"
  pp_allowMidCycleChanges :: "bool option"
  pp_maxChangesPerCycle :: "int option"
  pp_creditExpirationDays :: "int option"
  pp_prorationPrecision :: "nat option"

datatype DisputeStatus = DisputePending | DisputeInvestigating | DisputeResolved | DisputeRejected

record ProrationDispute =
  di_id :: string
  di_subscriptionId :: string
  di_prorationId :: string
  di_amount :: rat
  di_reason :: string
  di_status :: DisputeStatus
  di_createdAt :: int
  di_resolvedAt :: "int option"
  di_resolution :: "string option"

record HistoryEntry =
  ph_subscriptionId :: string
  ph_preview :: ProrationPreview
  ph_timestamp :: int
  ph_applied :: bool

record ProrationService =
  pr_configurations :: "ProrationConfiguration obj"
  pr_disputes :: "ProrationDispute list"
  pr_history :: "HistoryEntry list"

definition newProrationService :: ProrationService where
  "newProrationService = \<lparr>pr_configurations = [], pr_disputes = [], pr_history = []\<rparr>"

definition proration_configurePlan :: "string \<Rightarrow> PartialProrationConfig \<Rightarrow> ProrationService \<Rightarrow> ProrationConfiguration \<times> ProrationService" where
  "proration_configurePlan planId config s =
     (let base = obj_or DEFAULT_CONFIG (pr_configurations s) planId;
          merged = \<lparr>pg_planId = planId, pg_method = the_or (pp_method config) (pg_method base),
            pg_allowMidCycleChanges = the_or (pp_allowMidCycleChanges config) (pg_allowMidCycleChanges base),
            pg_maxChangesPerCycle = the_or (pp_maxChangesPerCycle config) (pg_maxChangesPerCycle base),
            pg_creditExpirationDays = the_or (pp_creditExpirationDays config) (pg_creditExpirationDays base),
            pg_prorationPrecision = the_or (pp_prorationPrecision config) (pg_prorationPrecision base)\<rparr>
      in (merged, s\<lparr>pr_configurations := AList.update planId merged (pr_configurations s)\<rparr>))"

definition proration_getConfiguration :: "string \<Rightarrow> ProrationService \<Rightarrow> ProrationConfiguration" where
  "proration_getConfiguration planId s = obj_or DEFAULT_CONFIG (pr_configurations s) planId"

definition round_to :: "nat \<Rightarrow> rat \<Rightarrow> rat" where
  "round_to p x = of_int (js_round (x * 10 ^ p)) / 10 ^ p"

definition calculateProration :: "int \<Rightarrow> PlanSubscription \<Rightarrow> rat \<Rightarrow> EffectiveDate \<Rightarrow> string option \<Rightarrow> ProrationService \<Rightarrow> ProrationPreview" where
  "calculateProration now sub newPrice effectiveDate planId s =
     (let config = proration_getConfiguration (the_or planId (ps_id sub)) s
      in if pg_method config = NoProration
         then \<lparr>pv_amount = 0, pv_isCredit = False, pv_remainingDays = 0, pv_periodDays = 0, pv_oldDailyRate = 0,
               pv_newDailyRate = 0, pv_description = ''Proration disabled for this plan'', pv_effectiveDate = EndOfPeriod\<rparr>
         else
           let effectiveType = resolveProrationEffectiveDate now sub effectiveDate;
               preview = (if effectiveType = Immediate \<or> (case effectiveDate of OnDate _ \<Rightarrow> True | _ \<Rightarrow> False)
                 then calculateMidCycleProration now sub newPrice effectiveDate
                 else previewProration now sub newPrice effectiveType)
           in if pg_method config = Hourly
              then let hoursRemaining = pv_remainingDays preview * 24; hoursInPeriod = pv_periodDays preview * 24;
                       amount = (if effectiveType = EndOfPeriod then 0
                         else (newPrice - ps_price sub) * of_int hoursRemaining / of_int hoursInPeriod);
                       rounded = round_to (pg_prorationPrecision config) \<bar>amount\<bar>
                   in preview\<lparr>pv_amount := rounded, pv_isCredit := (amount < 0),
                        pv_description := (if amount < 0
                          then ''Prorated credit of '' @ show_num rounded @ '' for plan downgrade ('' @ show_int hoursRemaining @ '' hours remaining)''
                          else if 0 < amount
                          then ''Prorated charge of '' @ show_num rounded @ '' for plan upgrade ('' @ show_int hoursRemaining @ '' hours remaining)''
                          else no_proration)\<rparr>
              else preview)"

definition CHANGE_WINDOW_MS :: int where "CHANGE_WINDOW_MS = 30 * 24 * 60 * 60 * 1000"

definition recent_changes :: "int \<Rightarrow> string \<Rightarrow> HistoryEntry list \<Rightarrow> HistoryEntry list" where
  "recent_changes now i history =
     filter (\<lambda>h. ph_subscriptionId h = i \<and> ph_applied h \<and> now - CHANGE_WINDOW_MS < ph_timestamp h) history"

datatype proration_error = ChangesNotAllowed | MaximumReached int

definition executeMidCycleChange :: "int \<Rightarrow> PlanSubscription \<Rightarrow> rat \<Rightarrow> EffectiveDate \<Rightarrow> string option \<Rightarrow> ProrationService
    \<Rightarrow> (proration_error + ProrationPreview \<times> CreditMemo option) \<times> ProrationService" where
  "executeMidCycleChange now sub newPrice effectiveDate planId s =
     (let config = proration_getConfiguration (the_or planId (ps_id sub)) s
      in if \<not> pg_allowMidCycleChanges config then (Inl ChangesNotAllowed, s)
         else if pg_maxChangesPerCycle config \<le> int (length (recent_changes now (ps_id sub) (pr_history s)))
         then (Inl (MaximumReached (pg_maxChangesPerCycle config)), s)
         else
           let preview = calculateProration now sub newPrice effectiveDate planId s;
               memo = (if pv_isCredit preview \<and> 0 < pv_amount preview
                 then Some (generateCreditMemo now (ps_id sub) (pv_amount preview) (pv_description preview)) else None)
           in (Inr (preview, memo),
               s\<lparr>pr_history := pr_history s @ [\<lparr>ph_subscriptionId = ps_id sub, ph_preview = preview, ph_timestamp = now, ph_applied = True\<rparr>]\<rparr>))"

definition createDispute :: "string \<Rightarrow> int \<Rightarrow> string \<Rightarrow> string \<Rightarrow> rat \<Rightarrow> string \<Rightarrow> ProrationService \<Rightarrow> ProrationDispute \<times> ProrationService" where
  "createDispute uid now subscriptionId prorationId amount reason s =
     (let d = \<lparr>di_id = uid, di_subscriptionId = subscriptionId, di_prorationId = prorationId, di_amount = amount,
            di_reason = reason, di_status = DisputePending, di_createdAt = now, di_resolvedAt = None, di_resolution = None\<rparr>
      in (d, s\<lparr>pr_disputes := pr_disputes s @ [d]\<rparr>))"

definition resolveDispute :: "int \<Rightarrow> string \<Rightarrow> string \<Rightarrow> bool \<Rightarrow> ProrationService \<Rightarrow> ProrationDispute option \<times> ProrationService" where
  "resolveDispute now disputeId resolution approved s =
     (case js_findIndex (\<lambda>d. di_id d = disputeId) (pr_disputes s) of
        None \<Rightarrow> (None, s)
      | Some i \<Rightarrow>
          (let d = (pr_disputes s ! i)\<lparr>di_status := (if approved then DisputeResolved else DisputeRejected),
                 di_resolvedAt := Some now, di_resolution := Some resolution\<rparr>
           in (Some d, s\<lparr>pr_disputes := (pr_disputes s)[i := d]\<rparr>)))"

definition of_subscription :: "string option \<Rightarrow> string \<Rightarrow> bool" where
  "of_subscription f i = (case f of None \<Rightarrow> True | Some x \<Rightarrow> x = '''' \<or> i = x)"

definition getDisputes :: "string option \<Rightarrow> ProrationService \<Rightarrow> ProrationDispute list" where
  "getDisputes f s = filter (\<lambda>d. of_subscription f (di_subscriptionId d)) (pr_disputes s)"

definition proration_getHistory :: "string option \<Rightarrow> ProrationService \<Rightarrow> HistoryEntry list" where
  "proration_getHistory f s = filter (\<lambda>h. of_subscription f (ph_subscriptionId h)) (pr_history s)"

record ProrationAnalytics = ProrationAnalyticsData +
  pa_disputesCount :: nat
  pa_disputesResolved :: nat
  pa_averageResolutionDays :: rat

definition proration_getAnalytics :: "string option \<Rightarrow> ProrationService \<Rightarrow> ProrationAnalytics" where
  "proration_getAnalytics f s =
     (let previews = map ph_preview (proration_getHistory f s); disputes = getDisputes f s;
          totalCredits = rat_sum (map pv_amount (filter pv_isCredit previews));
          totalCharges = rat_sum (map pv_amount (filter (\<lambda>p. \<not> pv_isCredit p \<and> 0 < pv_amount p) previews));
          amounts = filter (\<lambda>a. 0 < a) (map pv_amount previews);
          settled = filter (\<lambda>d. di_status d = DisputeResolved \<or> di_status d = DisputeRejected) disputes;
          days = map (\<lambda>d. case di_resolvedAt d of None \<Rightarrow> 0
            | Some t \<Rightarrow> of_int (t - di_createdAt d) / of_int ONE_DAY_MS) settled
      in \<lparr>pa_totalProrations = length previews, pa_totalCreditsIssued = totalCredits, pa_totalChargesApplied = totalCharges,
          pa_netProrationAmount = totalCharges - totalCredits,
          pa_averageProrationAmount = cents (if amounts \<noteq> [] then rat_sum amounts / of_nat (length amounts) else 0),
          pa_prorationCount = length previews, pa_creditsUsedCount = length (filter pv_isCredit previews),
          pa_chargesCount = length (filter (\<lambda>p. \<not> pv_isCredit p) previews), pa_disputesCount = length disputes,
          pa_disputesResolved = length settled,
          pa_averageResolutionDays = of_int (js_round ((if settled \<noteq> [] then rat_sum days / of_nat (length settled) else 0) * 10)) / 10\<rparr>)"

section \<open>Amounts\<close>

lemma cents_close: "\<bar>cents x - x\<bar> \<le> 1 / 200"
proof -
  have r: "x * 100 - 1 / 2 < of_int (js_round (x * 100))" "of_int (js_round (x * 100)) \<le> x * 100 + 1 / 2"
    using js_round_bounds [of "x * 100"] by blast+
  show ?thesis unfolding cents_def abs_le_iff using r by (simp add: field_simps)
qed

lemma cents_mono: "x \<le> y \<Longrightarrow> cents x \<le> cents y"
  unfolding cents_def by (simp add: divide_right_mono js_round_mono)

lemma cents_0 [simp]: "cents 0 = 0"
  by (simp add: cents_def)

lemma cents_nonneg: "0 \<le> x \<Longrightarrow> 0 \<le> cents x"
  using cents_mono [of 0 x] by simp

text \<open>Amounts in whole cents, on which rounding does nothing.\<close>

definition whole_cents :: "rat \<Rightarrow> bool" where
  "whole_cents x \<longleftrightarrow> cents x = x"

lemma whole_centsI: "whole_cents (of_int n / 100)"
  by (simp add: whole_cents_def cents_def)

lemma whole_centsE: assumes "whole_cents x" obtains n where "x = of_int n / 100"
  using assms unfolding whole_cents_def cents_def by metis

lemma whole_cents_diff: assumes "whole_cents x" "whole_cents y" shows "whole_cents (x - y)"
proof -
  obtain m n where "x = of_int m / 100" "y = of_int n / 100"
    using assms by (elim whole_centsE)
  then have "x - y = of_int (m - n) / 100" by (simp add: diff_divide_distrib)
  then show ?thesis using whole_centsI by metis
qed

lemma whole_cents_cents [simp]: "whole_cents (cents x)"
  unfolding cents_def by (rule whole_centsI)

lemma getPeriodDays_pos: "0 < getPeriodDays c"
  by (cases c) simp_all

lemma ceil_div_mono: "0 < d \<Longrightarrow> x \<le> y \<Longrightarrow> ceil_div x d \<le> ceil_div y d"
  unfolding ceil_div_def by (simp add: zdiv_mono1)

lemma ceil_div_0 [simp]: "ceil_div 0 d = 0"
  by (simp add: ceil_div_def)

lemma ONE_DAY_MS_pos [simp]: "0 < ONE_DAY_MS"
  by (simp add: ONE_DAY_MS_def)

lemma max_ceil_div: "0 < d \<Longrightarrow> max 0 (ceil_div (max 0 x) d) = max 0 (ceil_div x d)"
  using ceil_div_mono [of d x 0] by (cases "x \<le> 0") (auto simp: max_def)

text \<open>The two branches of the mid-cycle calculation.\<close>

lemma no_mid_cycle:
  assumes "resolveProrationEffectiveDate now s d = EndOfPeriod \<or> ps_price s = newPrice"
  shows "pv_amount (calculateMidCycleProration now s newPrice d) = 0"
    and "\<not> pv_isCredit (calculateMidCycleProration now s newPrice d)"
    and "pv_remainingDays (calculateMidCycleProration now s newPrice d) = 0"
  unfolding calculateMidCycleProration_def Let_def using assms by simp_all

definition days_left :: "int \<Rightarrow> PlanSubscription \<Rightarrow> EffectiveDate \<Rightarrow> int" where
  "days_left now s d = max 0 (ceil_div (max 0 (ps_nextBillingDate s
     - min (max (case d of OnDate t \<Rightarrow> t | _ \<Rightarrow> now) now) (ps_nextBillingDate s))) ONE_DAY_MS)"

lemma days_left_nonneg [simp]: "0 \<le> days_left now s d"
  by (simp add: days_left_def)

lemma days_left_le: "days_left now s d \<le> getRemainingDays now s"
proof -
  have "ceil_div (max 0 (ps_nextBillingDate s - min (max t now) (ps_nextBillingDate s))) ONE_DAY_MS
      \<le> ceil_div (max 0 (ps_nextBillingDate s - now)) ONE_DAY_MS" for t
    by (rule ceil_div_mono) auto
  then have "days_left now s d \<le> max 0 (ceil_div (max 0 (ps_nextBillingDate s - now)) ONE_DAY_MS)"
    unfolding days_left_def by (meson max.mono order_refl)
  then show ?thesis unfolding getRemainingDays_def max_ceil_div [OF ONE_DAY_MS_pos] .
qed

lemma days_left_Immediate: "days_left now s Immediate = getRemainingDays now s"
proof -
  have "max 0 (ps_nextBillingDate s - min now (ps_nextBillingDate s)) = max 0 (ps_nextBillingDate s - now)" by auto
  then show ?thesis unfolding days_left_def getRemainingDays_def by (simp add: max_ceil_div)
qed

definition raw_amount :: "int \<Rightarrow> PlanSubscription \<Rightarrow> rat \<Rightarrow> EffectiveDate \<Rightarrow> rat" where
  "raw_amount now s newPrice d = (newPrice - ps_price s) * of_int (days_left now s d) / of_int (getPeriodDays (ps_billingCycle s))"

lemma mid_cycle:
  assumes "\<not> (resolveProrationEffectiveDate now s d = EndOfPeriod \<or> ps_price s = newPrice)"
  shows "pv_amount (calculateMidCycleProration now s newPrice d) = cents \<bar>raw_amount now s newPrice d\<bar>"
    and "pv_isCredit (calculateMidCycleProration now s newPrice d) \<longleftrightarrow> raw_amount now s newPrice d < 0"
    and "pv_remainingDays (calculateMidCycleProration now s newPrice d) = days_left now s d"
  unfolding calculateMidCycleProration_def Let_def raw_amount_def days_left_def using assms by simp_all

lemma mid_cycle_period [simp]:
  "pv_periodDays (calculateMidCycleProration now s newPrice d) = getPeriodDays (ps_billingCycle s)"
  unfolding calculateMidCycleProration_def Let_def by simp

lemma raw_amount_neg: "raw_amount now s newPrice d < 0 \<longleftrightarrow> newPrice < ps_price s \<and> 0 < days_left now s d"
  unfolding raw_amount_def using getPeriodDays_pos [of "ps_billingCycle s"] days_left_nonneg [of now s d]
  by (simp add: divide_less_0_iff mult_less_0_iff not_less [symmetric] del: days_left_nonneg)

lemma raw_amount_abs:
  "\<bar>raw_amount now s newPrice d\<bar> = \<bar>newPrice - ps_price s\<bar> * of_int (days_left now s d) / of_int (getPeriodDays (ps_billingCycle s))"
  unfolding raw_amount_def using getPeriodDays_pos [of "ps_billingCycle s"] by (simp add: abs_mult abs_divide)

lemma mid_cycle_exact:
  fixes now s newPrice d
  defines "r \<equiv> calculateMidCycleProration now s newPrice d"
  shows "pv_amount r = cents (\<bar>newPrice - ps_price s\<bar> * of_int (pv_remainingDays r) / of_int (getPeriodDays (ps_billingCycle s)))"
    and "pv_isCredit r \<longleftrightarrow> newPrice < ps_price s \<and> 0 < pv_remainingDays r"
    and "0 \<le> pv_remainingDays r" and "pv_remainingDays r \<le> getRemainingDays now s"
proof -
  have "0 \<le> getRemainingDays now s" by (simp add: getRemainingDays_def)
  then show "pv_amount r = cents (\<bar>newPrice - ps_price s\<bar> * of_int (pv_remainingDays r) / of_int (getPeriodDays (ps_billingCycle s)))"
    "pv_isCredit r \<longleftrightarrow> newPrice < ps_price s \<and> 0 < pv_remainingDays r"
    "0 \<le> pv_remainingDays r" "pv_remainingDays r \<le> getRemainingDays now s"
    unfolding r_def using no_mid_cycle [of now s d newPrice] mid_cycle [of now s d newPrice] days_left_le [of now s d]
    by (cases "resolveProrationEffectiveDate now s d = EndOfPeriod \<or> ps_price s = newPrice";
        simp add: raw_amount_abs raw_amount_neg)+
qed

text \<open>A mid-cycle change costs or credits the price difference times the days left over the days of the
  cycle, to half a cent; it is a credit exactly when the price falls with days left; a change never counts more
  days than are left, and when those are no more than the days of the cycle the amount is at most the full
  difference.\<close>

theorem proration_amount_bounds:
  fixes now s newPrice d
  defines "r \<equiv> calculateMidCycleProration now s newPrice d"
  shows "0 \<le> pv_amount r \<and> 0 \<le> pv_remainingDays r \<and> pv_remainingDays r \<le> getRemainingDays now s
    \<and> (pv_isCredit r \<longleftrightarrow> newPrice < ps_price s \<and> 0 < pv_remainingDays r)
    \<and> \<bar>pv_amount r - \<bar>newPrice - ps_price s\<bar> * of_int (pv_remainingDays r) / of_int (getPeriodDays (ps_billingCycle s))\<bar> \<le> 1 / 200
    \<and> (getRemainingDays now s \<le> getPeriodDays (ps_billingCycle s) \<longrightarrow> pv_amount r \<le> cents \<bar>newPrice - ps_price s\<bar>)"
proof -
  let ?x = "\<bar>newPrice - ps_price s\<bar> * of_int (pv_remainingDays r) / of_int (getPeriodDays (ps_billingCycle s))"
  have exact: "pv_amount r = cents ?x" "pv_isCredit r \<longleftrightarrow> newPrice < ps_price s \<and> 0 < pv_remainingDays r"
    "0 \<le> pv_remainingDays r" "pv_remainingDays r \<le> getRemainingDays now s"
    unfolding r_def by (rule mid_cycle_exact)+
  have pos: "0 < (of_int (getPeriodDays (ps_billingCycle s)) :: rat)" using getPeriodDays_pos by simp
  have "0 \<le> ?x" using exact(3) pos by simp
  then have "0 \<le> cents ?x" by (rule cents_nonneg)
  moreover have "cents ?x \<le> cents \<bar>newPrice - ps_price s\<bar>" if "getRemainingDays now s \<le> getPeriodDays (ps_billingCycle s)"
  proof (rule cents_mono)
    have "(of_int (pv_remainingDays r) :: rat) \<le> of_int (getPeriodDays (ps_billingCycle s))"
      using that exact(4) by simp
    then show "?x \<le> \<bar>newPrice - ps_price s\<bar>" using pos by (simp add: pos_divide_le_eq mult_left_mono)
  qed
  ultimately show ?thesis using exact cents_close [of ?x] by simp
qed

definition demo_plan :: PlanSubscription where
  "demo_plan = \<lparr>ps_id = ''s1'', ps_price = 300, ps_billingCycle = MONTHLY, ps_nextBillingDate = 15 * ONE_DAY_MS\<rparr>"

lemma proration_amount_bounds_witness:
  "getRemainingDays 0 demo_plan \<le> getPeriodDays (ps_billingCycle demo_plan)
   \<and> pv_amount (calculateMidCycleProration 0 demo_plan 100 Immediate) \<le> cents \<bar>100 - ps_price demo_plan\<bar>"
proof -
  have "getRemainingDays 0 demo_plan \<le> getPeriodDays (ps_billingCycle demo_plan)"
    by (simp add: demo_plan_def getRemainingDays_def ceil_div_def ONE_DAY_MS_def)
  then show ?thesis using proration_amount_bounds [of 0 demo_plan 100 Immediate] by blast
qed

text \<open>A full 31-day month left on a monthly plan counts 31 of 30 days: more than the whole difference.\<close>

lemma month_of_31_days:
  "pv_amount (calculateMidCycleProration 0 (demo_plan\<lparr>ps_nextBillingDate := 31 * ONE_DAY_MS\<rparr>) 600 Immediate) = 310"
  by (simp add: demo_plan_def calculateMidCycleProration_def resolveProrationEffectiveDate_def cents_def js_round_def
      ceil_div_def ONE_DAY_MS_def floor_unique Let_def)

text \<open>The service's calculation under a plan of a given method.\<close>

lemma calculateProration_daily:
  assumes "pg_method (proration_getConfiguration (the_or planId (ps_id sub)) sv) = Daily"
  shows "calculateProration now sub newPrice d planId sv = calculateMidCycleProration now sub newPrice d"
  unfolding calculateProration_def Let_def previewProration_def using assms
  by (cases d) (simp_all add: resolveProrationEffectiveDate_def)

lemma calculateProration_hourly:
  fixes now sub newPrice d planId sv
  assumes "pg_method (proration_getConfiguration (the_or planId (ps_id sub)) sv) = Hourly"
  defines "m \<equiv> calculateMidCycleProration now sub newPrice d"
  defines "a \<equiv> (if resolveProrationEffectiveDate now sub d = EndOfPeriod then 0
     else (newPrice - ps_price sub) * of_int (pv_remainingDays m * 24) / of_int (pv_periodDays m * 24))"
  shows "pv_amount (calculateProration now sub newPrice d planId sv)
      = round_to (pg_prorationPrecision (proration_getConfiguration (the_or planId (ps_id sub)) sv)) \<bar>a\<bar>"
    and "pv_isCredit (calculateProration now sub newPrice d planId sv) \<longleftrightarrow> a < 0"
  unfolding calculateProration_def Let_def previewProration_def m_def a_def using assms(1)
  by (cases d; simp add: resolveProrationEffectiveDate_def)+

lemma hours_are_days:
  "x * of_int (n * 24) / of_int (p * 24) = x * of_int n / (of_int p :: rat)"
  by simp

text \<open>Hourly proration is daily proration: the hours are whole days times 24, so amount and sign are those
  of the daily calculation, in the utility and, at two decimals, under a plan configured as hourly.\<close>

theorem hourly_is_daily:
  fixes now sub newPrice d planId sv
  defines "m \<equiv> calculateMidCycleProration now sub newPrice d"
  defines "h \<equiv> calculateHourlyProration now sub newPrice d"
  defines "c \<equiv> proration_getConfiguration (the_or planId (ps_id sub)) sv"
  shows "(d = Immediate \<or> d = EndOfPeriod \<longrightarrow> pv_amount h = pv_amount m \<and> pv_isCredit h = pv_isCredit m)
    \<and> (pg_method c = Hourly \<and> pg_prorationPrecision c = 2 \<longrightarrow>
         pv_amount (calculateProration now sub newPrice d planId sv) = pv_amount m
         \<and> pv_isCredit (calculateProration now sub newPrice d planId sv) = pv_isCredit m)"
proof (intro conjI impI)
  let ?E = "resolveProrationEffectiveDate now sub d = EndOfPeriod"
  have raw: "(newPrice - ps_price sub) * of_int (days_left now sub d) / of_int (getPeriodDays (ps_billingCycle sub)) = raw_amount now sub newPrice d"
    by (simp add: raw_amount_def)
  show "pv_amount h = pv_amount m" "pv_isCredit h = pv_isCredit m" if d: "d = Immediate \<or> d = EndOfPeriod"
  proof -
    have E: "?E \<longleftrightarrow> d = EndOfPeriod" using d by (auto simp: resolveProrationEffectiveDate_def)
    have left: "d = Immediate \<Longrightarrow> getRemainingDays now sub = days_left now sub d" by (simp add: days_left_Immediate)
    show "pv_amount h = pv_amount m" "pv_isCredit h = pv_isCredit m"
      unfolding h_def m_def calculateHourlyProration_def Let_def hours_are_days
      using d E left raw no_mid_cycle [of now sub d newPrice] mid_cycle [of now sub d newPrice]
      by (cases "d = EndOfPeriod"; cases "ps_price sub = newPrice"; simp)+
  qed
  show "pv_amount (calculateProration now sub newPrice d planId sv) = pv_amount m"
    "pv_isCredit (calculateProration now sub newPrice d planId sv) = pv_isCredit m"
    if c: "pg_method c = Hourly \<and> pg_prorationPrecision c = 2"
  proof -
    have meth: "pg_method (proration_getConfiguration (the_or planId (ps_id sub)) sv) = Hourly" using c by (simp add: c_def)
    have two: "round_to 2 x = cents x" for x by (simp add: round_to_def cents_def)
    show "pv_amount (calculateProration now sub newPrice d planId sv) = pv_amount m"
      "pv_isCredit (calculateProration now sub newPrice d planId sv) = pv_isCredit m"
      unfolding calculateProration_hourly [OF meth] m_def hours_are_days mid_cycle_period
      using c no_mid_cycle [of now sub d newPrice] mid_cycle [of now sub d newPrice] raw two
      by (cases ?E; cases "ps_price sub = newPrice"; simp add: c_def)+
  qed
qed

definition hourly_service :: ProrationService where
  "hourly_service = snd (proration_configurePlan ''hourly''
     \<lparr>pp_method = Some Hourly, pp_allowMidCycleChanges = None, pp_maxChangesPerCycle = None,
      pp_creditExpirationDays = None, pp_prorationPrecision = None\<rparr> newProrationService)"

lemma hourly_is_daily_witness:
  "pv_amount (calculateProration 0 demo_plan 100 Immediate (Some ''hourly'') hourly_service)
     = pv_amount (calculateMidCycleProration 0 demo_plan 100 Immediate)
   \<and> pv_amount (calculateHourlyProration 0 demo_plan 100 Immediate) = pv_amount (calculateMidCycleProration 0 demo_plan 100 Immediate)"
proof -
  have "pg_method (proration_getConfiguration (the_or (Some ''hourly'') (ps_id demo_plan)) hourly_service) = Hourly
    \<and> pg_prorationPrecision (proration_getConfiguration (the_or (Some ''hourly'') (ps_id demo_plan)) hourly_service) = 2"
    by (simp add: hourly_service_def proration_configurePlan_def proration_getConfiguration_def newProrationService_def
        obj_or_def DEFAULT_CONFIG_def Let_def)
  then show ?thesis
    using hourly_is_daily [of Immediate 0 demo_plan 100 "Some ''hourly''" hourly_service] by blast
qed

section \<open>Credit memos\<close>

text \<open>A memo applied to one charge after the other.\<close>

fun apply_charges :: "rat list \<Rightarrow> CreditMemo \<Rightarrow> rat list \<times> CreditMemo" where
  "apply_charges [] memo = ([], memo)"
| "apply_charges (c # cs) memo =
     (case applyCreditMemo c memo of (final, memo1) \<Rightarrow>
        case apply_charges cs memo1 of (finals, memo2) \<Rightarrow> (final # finals, memo2))"

definition sound_memo :: "CreditMemo \<Rightarrow> bool" where
  "sound_memo memo \<longleftrightarrow> whole_cents (me_remainingBalance memo) \<and> 0 \<le> me_remainingBalance memo
     \<and> (me_applied memo \<longrightarrow> me_remainingBalance memo = 0)"

lemma sound_generated: "whole_cents a \<Longrightarrow> 0 \<le> a \<Longrightarrow> sound_memo (generateCreditMemo now i a reason)"
  by (simp add: sound_memo_def generateCreditMemo_def)

lemma applyCreditMemo_once:
  assumes sound: "sound_memo memo" and c: "whole_cents c" "0 \<le> c"
  shows "fst (applyCreditMemo c memo) = c - min c (me_remainingBalance memo)"
    and "me_remainingBalance (snd (applyCreditMemo c memo)) = me_remainingBalance memo - min c (me_remainingBalance memo)"
    and "sound_memo (snd (applyCreditMemo c memo))"
proof -
  let ?b = "me_remainingBalance memo"
  have w: "whole_cents ?b" "0 \<le> ?b" "me_applied memo \<longrightarrow> ?b = 0" using sound by (simp_all add: sound_memo_def)
  have m: "whole_cents (min c ?b)" using w c by (simp add: min_def)
  have same: "cents (c - min c ?b) = c - min c ?b" "cents (?b - min c ?b) = ?b - min c ?b"
    using whole_cents_diff [OF _ m] c w by (simp_all add: whole_cents_def)
  have w': "whole_cents (?b - min c ?b)" using whole_cents_diff [OF w(1) m] .
  have edge: "min c ?b = 0" if "me_applied memo \<or> ?b \<le> 0" using that w c by auto
  show "fst (applyCreditMemo c memo) = c - min c ?b"
    unfolding applyCreditMemo_def Let_def same using edge by simp
  show "me_remainingBalance (snd (applyCreditMemo c memo)) = ?b - min c ?b"
    unfolding applyCreditMemo_def Let_def same using edge by simp
  show "sound_memo (snd (applyCreditMemo c memo))"
    unfolding applyCreditMemo_def Let_def same using w' sound by (auto simp: sound_memo_def)
qed

text \<open>C28: Applied to any series of whole-cent charges, a credit memo takes off exactly the smaller of the charges'
  total and its balance, never raises or overdraws a charge, keeps the rest, and ends marked as used only when
  nothing is left.\<close>

theorem credit_memo_spent_once:
  assumes "sound_memo memo" and "\<forall>c\<in>set cs. whole_cents c \<and> 0 \<le> c"
  shows "sum_list cs - sum_list (fst (apply_charges cs memo)) = min (sum_list cs) (me_remainingBalance memo)
    \<and> me_remainingBalance (snd (apply_charges cs memo)) = me_remainingBalance memo - min (sum_list cs) (me_remainingBalance memo)
    \<and> list_all2 (\<lambda>c final. 0 \<le> final \<and> final \<le> c) cs (fst (apply_charges cs memo))
    \<and> sound_memo (snd (apply_charges cs memo))"
  using assms
proof (induction cs arbitrary: memo)
  case Nil
  then show ?case by (simp add: sound_memo_def)
next
  case (Cons c cs)
  let ?b = "me_remainingBalance memo"
  obtain final memo1 where one: "applyCreditMemo c memo = (final, memo1)" by (cases "applyCreditMemo c memo")
  obtain finals memo2 where rest: "apply_charges cs memo1 = (finals, memo2)" by (cases "apply_charges cs memo1")
  have c: "whole_cents c" "0 \<le> c" using Cons.prems(2) by simp_all
  have once: "final = c - min c ?b" "me_remainingBalance memo1 = ?b - min c ?b" "sound_memo memo1"
    using applyCreditMemo_once [OF Cons.prems(1) c] one by simp_all
  have ih: "sum_list cs - sum_list finals = min (sum_list cs) (?b - min c ?b)"
    "me_remainingBalance memo2 = ?b - min c ?b - min (sum_list cs) (?b - min c ?b)"
    "list_all2 (\<lambda>c final. 0 \<le> final \<and> final \<le> c) cs finals" "sound_memo memo2"
    using Cons.IH [OF once(3)] Cons.prems(2) rest once(2) by simp_all
  have "0 \<le> sum_list cs" using Cons.prems(2) by (intro sum_list_nonneg) simp
  moreover have "0 \<le> ?b" using Cons.prems(1) by (simp add: sound_memo_def)
  ultimately have "min c ?b + min (sum_list cs) (?b - min c ?b) = min (c + sum_list cs) ?b" "0 \<le> final" "final \<le> c"
    using c once(1) by (auto simp: min_def)
  then show ?case using ih once(1) by (simp add: one rest)
qed

lemma credit_memo_spent_once_witness:
  "sum_list [60, 60, 60] - sum_list (fst (apply_charges [60, 60, 60] (generateCreditMemo 0 ''s1'' 100 ''downgrade''))) = 100"
proof -
  have w: "whole_cents (of_int n)" for n
    using whole_centsI [of "100 * n"] by simp
  have "sound_memo (generateCreditMemo 0 ''s1'' 100 ''downgrade'')"
    using w [of 100] by (intro sound_generated) simp_all
  moreover have "\<forall>c\<in>set [60, 60, 60]. whole_cents c \<and> 0 \<le> c" using w [of 60] by simp
  ultimately have "sum_list [60, 60, 60] - sum_list (fst (apply_charges [60, 60, 60] (generateCreditMemo 0 ''s1'' 100 ''downgrade'')))
    = min (sum_list [60, 60, 60]) (me_remainingBalance (generateCreditMemo 0 ''s1'' 100 ''downgrade''))"
    using credit_memo_spent_once by blast
  then show ?thesis by (simp add: generateCreditMemo_def)
qed

section \<open>Several changes\<close>

fun price_chain :: "rat \<Rightarrow> PriceChange list \<Rightarrow> rat \<Rightarrow> bool" where
  "price_chain p [] q \<longleftrightarrow> p = q"
| "price_chain p (c # cs) q \<longleftrightarrow> pc_oldPrice c = p \<and> pc_effectiveDate c = Immediate \<and> price_chain (pc_newPrice c) cs q"

lemma signed_cents: "\<bar>(if x < 0 then - cents \<bar>x\<bar> else cents \<bar>x\<bar>) - x\<bar> \<le> 1 / 200"
proof (cases "x < 0")
  case True
  moreover have "\<bar>- cents (- x) - x\<bar> \<le> 1 / 200" using cents_close [of "- x"] by linarith
  ultimately show ?thesis by simp
next
  case False
  then show ?thesis using cents_close [of x] by simp
qed

lemma signed_close:
  assumes "pc_effectiveDate c = Immediate"
  shows "\<bar>signed_amount (change_preview now s c)
      - (pc_newPrice c - pc_oldPrice c) * of_int (getRemainingDays now s) / of_int (getPeriodDays (ps_billingCycle s))\<bar> \<le> 1 / 200"
proof -
  let ?s = "s\<lparr>ps_price := pc_oldPrice c\<rparr>"
  let ?x = "(pc_newPrice c - pc_oldPrice c) * of_int (getRemainingDays now s) / of_int (getPeriodDays (ps_billingCycle s))"
  have raw: "raw_amount now ?s (pc_newPrice c) Immediate = ?x"
    by (simp add: raw_amount_def days_left_Immediate getRemainingDays_def)
  show ?thesis
  proof (cases "pc_oldPrice c = pc_newPrice c")
    case True
    then show ?thesis using no_mid_cycle [of now ?s Immediate "pc_newPrice c"] assms
      by (simp add: signed_amount_def change_preview_def)
  next
    case False
    then have n: "\<not> (resolveProrationEffectiveDate now ?s Immediate = EndOfPeriod \<or> ps_price ?s = pc_newPrice c)"
      by (simp add: resolveProrationEffectiveDate_def)
    have "signed_amount (change_preview now s c) = (if ?x < 0 then - cents \<bar>?x\<bar> else cents \<bar>?x\<bar>)"
      unfolding signed_amount_def change_preview_def assms mid_cycle [OF n] raw by simp
    then show ?thesis by (metis signed_cents)
  qed
qed

lemma net_fold_close:
  assumes "price_chain p cs q"
  shows "\<bar>fst (foldl (net_step now s) (a, n) cs)
      - (a + (q - p) * of_int (getRemainingDays now s) / of_int (getPeriodDays (ps_billingCycle s)))\<bar> \<le> of_nat (length cs) / 200"
  using assms
proof (induction cs arbitrary: p a n)
  case Nil
  then show ?case by simp
next
  case (Cons c cs)
  let ?k = "of_int (getRemainingDays now s) / of_int (getPeriodDays (ps_billingCycle s)) :: rat"
  define e where "e = signed_amount (change_preview now s c)"
  obtain n' where st: "net_step now s (a, n) c = (a + e, n')"
    by (simp add: net_step_def Let_def e_def)
  have c: "pc_oldPrice c = p" "pc_effectiveDate c = Immediate" "price_chain (pc_newPrice c) cs q" using Cons.prems by simp_all
  have 1: "\<bar>e - (pc_newPrice c - p) * of_int (getRemainingDays now s) / of_int (getPeriodDays (ps_billingCycle s))\<bar> \<le> 1 / 200"
    using signed_close [OF c(2), of now s] unfolding e_def c(1) .
  have 2: "\<bar>fst (foldl (net_step now s) (a + e, n') cs) - (a + e + (q - pc_newPrice c) * of_int (getRemainingDays now s) / of_int (getPeriodDays (ps_billingCycle s)))\<bar> \<le> of_nat (length cs) / 200"
    by (rule Cons.IH [OF c(3)])
  have split: "(q - p) * k = (pc_newPrice c - p) * k + (q - pc_newPrice c) * k" for k by (simp add: algebra_simps)
  note 3 = split [of ?k, unfolded times_divide_eq_right]
  have "\<bar>fst (foldl (net_step now s) (a, n) (c # cs)) - (a + (q - p) * of_int (getRemainingDays now s) / of_int (getPeriodDays (ps_billingCycle s)))\<bar> \<le> 1 / 200 + of_nat (length cs) / 200"
    unfolding foldl_Cons st 3 using 1 2 by linarith
  then show ?case by (simp add: add_divide_distrib)
qed

text \<open>C27: However often a plan is changed within a cycle, the net of the prorations telescopes: to half a cent per
  change and half a cent for the sum it is the difference of the last and the first price times the days left over
  the days of the cycle, so coming back to the first plan costs nothing but rounding.\<close>

theorem net_proration_telescopes:
  assumes "price_chain p cs q"
  shows "\<bar>signed_amount (calculateNetProration now s cs)
      - (q - p) * of_int (getRemainingDays now s) / of_int (getPeriodDays (ps_billingCycle s))\<bar> \<le> (of_nat (length cs) + 1) / 200"
proof -
  let ?x = "(q - p) * of_int (getRemainingDays now s) / of_int (getPeriodDays (ps_billingCycle s)) :: rat"
  obtain net days where f: "foldl (net_step now s) (0, getRemainingDays now s) cs = (net, days)" by fastforce
  have 1: "\<bar>net - ?x\<bar> \<le> of_nat (length cs) / 200"
    using net_fold_close [OF assms, of now s 0 "getRemainingDays now s"] by (simp add: f)
  have 2: "signed_amount (calculateNetProration now s cs) = (if net < 0 then - cents \<bar>net\<bar> else cents \<bar>net\<bar>)"
    by (simp add: calculateNetProration_def signed_amount_def f Let_def)
  have "\<bar>(if net < 0 then - cents \<bar>net\<bar> else cents \<bar>net\<bar>) - net\<bar> \<le> 1 / 200"
    by (rule signed_cents)
  then have "\<bar>signed_amount (calculateNetProration now s cs) - ?x\<bar> \<le> 1 / 200 + of_nat (length cs) / 200"
    unfolding 2 using 1 by linarith
  then show ?thesis by (simp add: add_divide_distrib)
qed

lemma net_proration_telescopes_witness:
  "\<bar>signed_amount (calculateNetProration 0 demo_plan
      [\<lparr>pc_oldPrice = 300, pc_newPrice = 100, pc_effectiveDate = Immediate\<rparr>,
       \<lparr>pc_oldPrice = 100, pc_newPrice = 300, pc_effectiveDate = Immediate\<rparr>])\<bar> \<le> 3 / 200"
proof -
  have "price_chain 300 [\<lparr>pc_oldPrice = 300, pc_newPrice = 100, pc_effectiveDate = Immediate\<rparr>,
     \<lparr>pc_oldPrice = 100, pc_newPrice = 300, pc_effectiveDate = Immediate\<rparr>] 300" by simp
  from net_proration_telescopes [OF this, of 0 demo_plan] show ?thesis by simp
qed

section \<open>The limit on changes\<close>

record ChangeRequest =
  cr_now :: int
  cr_sub :: PlanSubscription
  cr_newPrice :: rat
  cr_date :: EffectiveDate
  cr_planId :: "string option"

definition run_change :: "ChangeRequest \<Rightarrow> ProrationService \<Rightarrow> ProrationService" where
  "run_change r s = snd (executeMidCycleChange (cr_now r) (cr_sub r) (cr_newPrice r) (cr_date r) (cr_planId r) s)"

text \<open>The changes of a subscription within the 30 days up to an instant.\<close>

definition changes_in_window :: "string \<Rightarrow> int \<Rightarrow> HistoryEntry list \<Rightarrow> HistoryEntry list" where
  "changes_in_window i t h = filter (\<lambda>e. ph_subscriptionId e = i \<and> ph_applied e \<and> t - CHANGE_WINDOW_MS < ph_timestamp e \<and> ph_timestamp e \<le> t) h"

definition change_limit :: "ChangeRequest \<Rightarrow> ProrationService \<Rightarrow> int" where
  "change_limit r s = pg_maxChangesPerCycle (proration_getConfiguration (the_or (cr_planId r) (ps_id (cr_sub r))) s)"

lemma run_change_cases:
  "pr_configurations (run_change r s) = pr_configurations s
   \<and> (pr_history (run_change r s) = pr_history s
      \<or> int (length (recent_changes (cr_now r) (ps_id (cr_sub r)) (pr_history s))) < change_limit r s
        \<and> (\<exists>p. pr_history (run_change r s) = pr_history s @
             [\<lparr>ph_subscriptionId = ps_id (cr_sub r), ph_preview = p, ph_timestamp = cr_now r, ph_applied = True\<rparr>]))"
  unfolding run_change_def executeMidCycleChange_def Let_def change_limit_def by auto

lemma window_within_recent:
  assumes "now \<le> t"
  shows "length (changes_in_window i t h) \<le> length (recent_changes now i h)"
  unfolding changes_in_window_def recent_changes_def using assms
  by (induction h) auto

text \<open>C29: Whatever is asked for and in whatever order the clock is read, if every request for a subscription
  falls under a plan allowing at most m changes, no 30 days hold more than m of its changes.\<close>

theorem change_limit_holds:
  assumes "\<forall>r\<in>set rs. ps_id (cr_sub r) = i \<longrightarrow> change_limit r s \<le> int m"
    and "\<forall>t. length (changes_in_window i t (pr_history s)) \<le> m"
  shows "length (changes_in_window i t (pr_history (fold run_change rs s))) \<le> m"
  using assms
proof (induction rs arbitrary: s)
  case Nil
  then show ?case by simp
next
  case (Cons r rs)
  note run = run_change_cases [of r s]
  have "length (changes_in_window i t (pr_history (run_change r s))) \<le> m" for t
    using run window_within_recent [of "cr_now r" t i "pr_history s"] Cons.prems
    by (auto simp: changes_in_window_def)
  moreover have "change_limit q (run_change r s) = change_limit q s" for q
    using run by (simp add: change_limit_def proration_getConfiguration_def)
  ultimately show ?case using Cons.IH [of "run_change r s"] Cons.prems(1) by simp
qed

definition demo_change :: ChangeRequest where
  "demo_change = \<lparr>cr_now = 0, cr_sub = demo_plan, cr_newPrice = 100, cr_date = Immediate, cr_planId = None\<rparr>"

lemma change_limit_holds_witness:
  "length (changes_in_window ''s1'' 0 (pr_history (fold run_change (replicate 5 demo_change) newProrationService))) \<le> 3"
proof -
  have "\<forall>r\<in>set (replicate 5 demo_change). ps_id (cr_sub r) = ''s1'' \<longrightarrow> change_limit r newProrationService \<le> int 3"
    by (simp add: demo_change_def change_limit_def newProrationService_def proration_getConfiguration_def obj_or_def DEFAULT_CONFIG_def)
  moreover have "\<forall>t. length (changes_in_window ''s1'' t (pr_history newProrationService)) \<le> 3"
    by (simp add: newProrationService_def changes_in_window_def)
  ultimately show ?thesis by (rule change_limit_holds)
qed

end
