(* ===== verification/PaymentTimeout.thy ===== *)
theory PaymentTimeout
  imports AuditLog "HOL-Library.Signed_Division"
begin

text \<open>
  Timeouts and recovery of chain payments, \<^verbatim>\<open>backend/services/paymentTimeoutService.ts\<close>. The operations that
  await the chain are split at the await: the first half runs up to the question, the second continues with
  the answer on the state found then. The chain status provider and the clock are arguments, a rejected
  question is the answer the code gives it (no status, no reorganisation). Gas prices are unbounded integers as
  in the code, divided with truncation.
\<close>

section \<open>Types\<close>

record ChainTimeoutConfig =
  cc_chainId :: int
  cc_timeoutSecs :: rat
  cc_gasBumpBps :: int
  cc_maxRecoveryAttempts :: int
  cc_reorgSafetyLedgers :: int

definition DEFAULT_CHAIN_CONFIGS :: "(int, ChainTimeoutConfig) jsmap" where
  "DEFAULT_CHAIN_CONFIGS =
     [(1, \<lparr>cc_chainId = 1, cc_timeoutSecs = 300, cc_gasBumpBps = 1500, cc_maxRecoveryAttempts = 5, cc_reorgSafetyLedgers = 2\<rparr>),
      (2, \<lparr>cc_chainId = 2, cc_timeoutSecs = 120, cc_gasBumpBps = 1000, cc_maxRecoveryAttempts = 3, cc_reorgSafetyLedgers = 1\<rparr>)]"

datatype TimeoutStatus = TxPending | TxTimedOut | TxRecovering | TxResolved | TxAbandoned

record PaymentTimeoutRecord =
  pt_id :: string
  pt_chargeId :: string
  pt_subscriptionId :: string
  pt_chainId :: int
  pt_status :: TimeoutStatus
  pt_submittedAt :: int
  pt_timedOutAt :: "int option"
  pt_lastRecoveryAt :: "int option"
  pt_recoveryAttempts :: int
  pt_lastGasPrice :: int
  pt_txHash :: "string option"
  pt_note :: string
  pt_createdAt :: int
  pt_updatedAt :: int

record RecoveryResult =
  rs_success :: bool
  rs_record :: PaymentTimeoutRecord
  rs_newGasPrice :: int
  rs_attemptNumber :: int

datatype TxStatus = TxConfirmed | TxStillPending | TxDropped

text \<open>What the chain answers: the status of a transaction, and whether a reorganisation happened.\<close>

record ChainStatusProvider =
  cp_getTxStatus :: "string \<Rightarrow> int \<Rightarrow> TxStatus option"
  cp_detectReorg :: "int \<Rightarrow> int \<Rightarrow> bool"

record PaymentTimeoutService =
  px_records :: "PaymentTimeoutRecord obj"
  px_byCharge :: "string obj"
  px_bySub :: "string list obj"
  px_chainConfigs :: "(int, ChainTimeoutConfig) jsmap"
  px_alerting :: "AlertingService option"

definition newPaymentTimeoutService :: "AlertingService option \<Rightarrow> PaymentTimeoutService" where
  "newPaymentTimeoutService alerting =
     \<lparr>px_records = [], px_byCharge = [], px_bySub = [], px_chainConfigs = DEFAULT_CHAIN_CONFIGS, px_alerting = alerting\<rparr>"

datatype timeout_error = BadTimeout | TooManyAttempts | ChargeNotFound | RecordNotFound | NotRecoverable

section \<open>Configuration\<close>

definition setChainConfig :: "ChainTimeoutConfig \<Rightarrow> PaymentTimeoutService \<Rightarrow> (timeout_error + unit) \<times> PaymentTimeoutService" where
  "setChainConfig c s =
     (if cc_timeoutSecs c \<le> 0 \<or> 3600 < cc_timeoutSecs c then (Inl BadTimeout, s)
      else if 10 < cc_maxRecoveryAttempts c then (Inl TooManyAttempts, s)
      else (Inr (), s\<lparr>px_chainConfigs := AList.update (cc_chainId c) c (px_chainConfigs s)\<rparr>))"

definition getChainConfig :: "int \<Rightarrow> PaymentTimeoutService \<Rightarrow> ChainTimeoutConfig" where
  "getChainConfig chainId s = obj_or
     \<lparr>cc_chainId = chainId, cc_timeoutSecs = 300, cc_gasBumpBps = 1500, cc_maxRecoveryAttempts = 5, cc_reorgSafetyLedgers = 2\<rparr>
     (px_chainConfigs s) chainId"

section \<open>Records and alerts\<close>

definition put_record :: "PaymentTimeoutRecord \<Rightarrow> PaymentTimeoutService \<Rightarrow> PaymentTimeoutService" where
  "put_record r s = s\<lparr>px_records := AList.update (pt_id r) r (px_records s)\<rparr>"

text \<open>The record behind a charge; an empty id counts as none.\<close>

definition px_getRecord :: "string \<Rightarrow> PaymentTimeoutService \<Rightarrow> PaymentTimeoutRecord option" where
  "px_getRecord chargeId s =
     (case map_of (px_byCharge s) chargeId of None \<Rightarrow> None
      | Some rid \<Rightarrow> if rid = '''' then None else map_of (px_records s) rid)"

definition pt_alert :: "PaymentTimeoutRecord \<Rightarrow> string \<Rightarrow> AlertSeverity \<Rightarrow> string \<Rightarrow> string \<Rightarrow> int \<Rightarrow> string \<Rightarrow> Alert" where
  "pt_alert r suffix severity title message now rule =
     \<lparr>al_id = ''pto_'' @ pt_chargeId r @ ''_'' @ suffix, al_severity = severity, al_title = title, al_message = message,
      al_timestamp = now, al_resolved = False, al_ruleId = rule\<rparr>"

definition pt_notify :: "Alert \<Rightarrow> PaymentTimeoutService \<Rightarrow> PaymentTimeoutService" where
  "pt_notify a s = s\<lparr>px_alerting := map_option (alert_dispatch a) (px_alerting s)\<rparr>"

definition dispatchTimeoutAlert :: "int \<Rightarrow> PaymentTimeoutRecord \<Rightarrow> PaymentTimeoutService \<Rightarrow> PaymentTimeoutService" where
  "dispatchTimeoutAlert now r = pt_notify (pt_alert r ''timeout'' AlertWarning ''Payment Transaction Timed Out''
     (''Charge '' @ pt_chargeId r @ '' (sub '' @ pt_subscriptionId r @ '') on chain '' @ show_int (pt_chainId r)
       @ '' has exceeded the timeout window. Automatic recovery will be attempted.'') now ''payment_timeout'')"

definition dispatchRecoveryAlert :: "int \<Rightarrow> PaymentTimeoutRecord \<Rightarrow> int \<Rightarrow> PaymentTimeoutService \<Rightarrow> PaymentTimeoutService" where
  "dispatchRecoveryAlert now r gas = pt_notify (pt_alert r (''recovery_'' @ show_int (pt_recoveryAttempts r)) AlertInfo
     ''Payment Recovery Attempted''
     (''Recovery attempt '' @ show_int (pt_recoveryAttempts r) @ '' for charge '' @ pt_chargeId r
       @ '' with gas price '' @ show_int gas @ ''.'') now ''payment_recovery_attempt'')"

definition dispatchAbandonedAlert :: "int \<Rightarrow> PaymentTimeoutRecord \<Rightarrow> PaymentTimeoutService \<Rightarrow> PaymentTimeoutService" where
  "dispatchAbandonedAlert now r = pt_notify (pt_alert r ''abandoned'' AlertCritical ''Payment Transaction Abandoned''
     (''Charge '' @ pt_chargeId r @ '' (sub '' @ pt_subscriptionId r @ '') has exhausted all ''
       @ show_int (pt_recoveryAttempts r) @ '' recovery attempts. Manual intervention required.'') now ''payment_abandoned'')"

definition dispatchReorgAlert :: "int \<Rightarrow> PaymentTimeoutRecord \<Rightarrow> PaymentTimeoutService \<Rightarrow> PaymentTimeoutService" where
  "dispatchReorgAlert now r = pt_notify (pt_alert r ''reorg'' AlertWarning ''Chain Reorg Detected During Timeout Window''
     (''Charge '' @ pt_chargeId r @ '' recovery deferred due to chain reorg on chain '' @ show_int (pt_chainId r)
       @ ''. Will retry after the reorg safety window.'') now ''chain_reorg_during_timeout'')"

definition resolved_now :: "int \<Rightarrow> string \<Rightarrow> PaymentTimeoutRecord \<Rightarrow> PaymentTimeoutRecord" where
  "resolved_now now note r = r\<lparr>pt_status := TxResolved, pt_note := note, pt_updatedAt := now\<rparr>"

definition resolveRecord :: "int \<Rightarrow> PaymentTimeoutRecord \<Rightarrow> string \<Rightarrow> PaymentTimeoutService \<Rightarrow> PaymentTimeoutRecord \<times> PaymentTimeoutService" where
  "resolveRecord now r note s = (resolved_now now note r, put_record (resolved_now now note r) s)"

section \<open>Lifecycle\<close>

definition pt_registerPending :: "string \<Rightarrow> int \<Rightarrow> string \<Rightarrow> string \<Rightarrow> int \<Rightarrow> int \<Rightarrow> string option \<Rightarrow> PaymentTimeoutService
    \<Rightarrow> PaymentTimeoutRecord \<times> PaymentTimeoutService" where
  "pt_registerPending uid now chargeId subscriptionId chainId gas txHash s =
     (let r = \<lparr>pt_id = uid, pt_chargeId = chargeId, pt_subscriptionId = subscriptionId, pt_chainId = chainId,
            pt_status = TxPending, pt_submittedAt = now, pt_timedOutAt = None, pt_lastRecoveryAt = None,
            pt_recoveryAttempts = 0, pt_lastGasPrice = gas, pt_txHash = txHash, pt_note = ''submitted'',
            pt_createdAt = now, pt_updatedAt = now\<rparr>
      in (r, s\<lparr>px_records := AList.update uid r (px_records s), px_byCharge := AList.update chargeId uid (px_byCharge s),
            px_bySub := AList.update subscriptionId (obj_or [] (px_bySub s) subscriptionId @ [uid]) (px_bySub s)\<rparr>))"

text \<open>An empty hash counts as none.\<close>

definition known_hash :: "PaymentTimeoutRecord \<Rightarrow> string option" where
  "known_hash r = (case pt_txHash r of None \<Rightarrow> None | Some h \<Rightarrow> if h = '''' then None else Some h)"

definition asked_confirmed :: "ChainStatusProvider option \<Rightarrow> PaymentTimeoutRecord \<Rightarrow> bool" where
  "asked_confirmed provider r =
     (case (provider, known_hash r) of
        (Some p, Some h) \<Rightarrow> cp_getTxStatus p h (pt_chainId r) = Some TxConfirmed
      | _ \<Rightarrow> False)"

definition overdue :: "int \<Rightarrow> PaymentTimeoutRecord \<Rightarrow> PaymentTimeoutService \<Rightarrow> bool" where
  "overdue now r s \<longleftrightarrow> pt_status r = TxPending
     \<and> \<not> of_int (now - pt_submittedAt r) / 1000 < cc_timeoutSecs (getChainConfig (pt_chainId r) s)"

definition timed_out :: "int \<Rightarrow> PaymentTimeoutRecord \<Rightarrow> PaymentTimeoutRecord" where
  "timed_out now r = r\<lparr>pt_status := TxTimedOut, pt_timedOutAt := Some now, pt_note := ''timeout_detected'', pt_updatedAt := now\<rparr>"

text \<open>The second half of a scan step, after the chain's answer.\<close>

definition scan_answer :: "int \<Rightarrow> bool \<Rightarrow> string \<Rightarrow> PaymentTimeoutService \<Rightarrow> PaymentTimeoutRecord option \<times> PaymentTimeoutService" where
  "scan_answer now confirmed rid s =
     (case map_of (px_records s) rid of None \<Rightarrow> (None, s)
      | Some r \<Rightarrow>
          if confirmed then (None, snd (resolveRecord now r ''confirmed on-chain during scan'' s))
          else (Some (timed_out now r), dispatchTimeoutAlert now (timed_out now r) (put_record (timed_out now r) s)))"

definition scan_record :: "int \<Rightarrow> ChainStatusProvider option \<Rightarrow> string \<Rightarrow> PaymentTimeoutService
    \<Rightarrow> PaymentTimeoutRecord option \<times> PaymentTimeoutService" where
  "scan_record now provider rid s =
     (case map_of (px_records s) rid of None \<Rightarrow> (None, s)
      | Some r \<Rightarrow> if \<not> overdue now r s then (None, s) else scan_answer now (asked_confirmed provider r) rid s)"

fun scan_all :: "int \<Rightarrow> ChainStatusProvider option \<Rightarrow> string list \<Rightarrow> PaymentTimeoutService
    \<Rightarrow> PaymentTimeoutRecord list \<times> PaymentTimeoutService" where
  "scan_all now provider [] s = ([], s)"
| "scan_all now provider (rid # rids) s =
     (case scan_record now provider rid s of (found, s1) \<Rightarrow>
        case scan_all now provider rids s1 of (rest, s2) \<Rightarrow>
          ((case found of None \<Rightarrow> rest | Some r \<Rightarrow> r # rest), s2))"

definition detectTimeouts :: "int \<Rightarrow> ChainStatusProvider option \<Rightarrow> PaymentTimeoutService \<Rightarrow> PaymentTimeoutRecord list \<times> PaymentTimeoutService" where
  "detectTimeouts now provider s = scan_all now provider (obj_keys (px_records s)) s"

section \<open>Recovery\<close>

definition stuck :: "PaymentTimeoutRecord \<Rightarrow> bool" where
  "stuck r \<longleftrightarrow> pt_status r = TxTimedOut \<or> pt_status r = TxRecovering"

definition abandoned_now :: "int \<Rightarrow> PaymentTimeoutRecord \<Rightarrow> PaymentTimeoutRecord" where
  "abandoned_now now r = r\<lparr>pt_status := TxAbandoned, pt_note := ''max_recovery_attempts_exhausted'', pt_updatedAt := now\<rparr>"

definition bumped :: "ChainTimeoutConfig \<Rightarrow> int \<Rightarrow> int" where
  "bumped c gas = (gas * (10000 + cc_gasBumpBps c)) sdiv 10000"

definition retried :: "int \<Rightarrow> ChainTimeoutConfig \<Rightarrow> PaymentTimeoutRecord \<Rightarrow> PaymentTimeoutRecord" where
  "retried now c r = r\<lparr>pt_recoveryAttempts := pt_recoveryAttempts r + 1, pt_lastRecoveryAt := Some now,
     pt_lastGasPrice := bumped c (pt_lastGasPrice r), pt_status := TxRecovering,
     pt_note := ''recovery_attempt_'' @ show_int (pt_recoveryAttempts r + 1), pt_updatedAt := now\<rparr>"

definition deferred :: "int \<Rightarrow> PaymentTimeoutRecord \<Rightarrow> PaymentTimeoutRecord" where
  "deferred now r = r\<lparr>pt_note := ''reorg_detected_recovery_deferred'', pt_updatedAt := now\<rparr>"

text \<open>The first half of an attempt: the record and configuration it goes on with, if it does.\<close>

definition recovery_begin :: "int \<Rightarrow> string \<Rightarrow> PaymentTimeoutService
    \<Rightarrow> (PaymentTimeoutRecord \<times> ChainTimeoutConfig) option \<times> PaymentTimeoutService" where
  "recovery_begin now chargeId s =
     (case px_getRecord chargeId s of None \<Rightarrow> (None, s)
      | Some r \<Rightarrow>
          if \<not> stuck r then (None, s)
          else let c = getChainConfig (pt_chainId r) s
            in if cc_maxRecoveryAttempts c \<le> pt_recoveryAttempts r
               then (None, dispatchAbandonedAlert now (abandoned_now now r) (put_record (abandoned_now now r) s))
               else (Some (r, c), s))"

text \<open>The second half, on the record as it is then.\<close>

definition recovery_end :: "int \<Rightarrow> bool \<Rightarrow> ChainTimeoutConfig \<Rightarrow> string \<Rightarrow> PaymentTimeoutService
    \<Rightarrow> RecoveryResult option \<times> PaymentTimeoutService" where
  "recovery_end now reorg c rid s =
     (case map_of (px_records s) rid of None \<Rightarrow> (None, s)
      | Some r \<Rightarrow>
          if reorg then (None, dispatchReorgAlert now (deferred now r) (put_record (deferred now r) s))
          else let r' = retried now c r
            in (Some \<lparr>rs_success = True, rs_record = r', rs_newGasPrice = pt_lastGasPrice r',
                  rs_attemptNumber = pt_recoveryAttempts r'\<rparr>,
                dispatchRecoveryAlert now r' (pt_lastGasPrice r') (put_record r' s)))"

definition asked_reorg :: "ChainStatusProvider option \<Rightarrow> PaymentTimeoutRecord \<Rightarrow> ChainTimeoutConfig \<Rightarrow> bool" where
  "asked_reorg provider r c =
     (case (provider, known_hash r) of
        (Some p, Some _) \<Rightarrow> cp_detectReorg p (pt_chainId r) (cc_reorgSafetyLedgers c)
      | _ \<Rightarrow> False)"

definition attemptRecovery :: "int \<Rightarrow> ChainStatusProvider option \<Rightarrow> string \<Rightarrow> PaymentTimeoutService
    \<Rightarrow> RecoveryResult option \<times> PaymentTimeoutService" where
  "attemptRecovery now provider chargeId s =
     (case recovery_begin now chargeId s of
        (None, s1) \<Rightarrow> (None, s1)
      | (Some (r, c), s1) \<Rightarrow> recovery_end now (asked_reorg provider r c) c (pt_id r) s1)"

fun recover_each :: "int \<Rightarrow> ChainStatusProvider option \<Rightarrow> string list \<Rightarrow> PaymentTimeoutService
    \<Rightarrow> RecoveryResult list \<times> PaymentTimeoutService" where
  "recover_each now provider [] s = ([], s)"
| "recover_each now provider (rid # rids) s =
     (case map_of (px_records s) rid of None \<Rightarrow> recover_each now provider rids s
      | Some r \<Rightarrow>
          if \<not> stuck r then recover_each now provider rids s
          else case attemptRecovery now provider (pt_chargeId r) s of (found, s1) \<Rightarrow>
            case recover_each now provider rids s1 of (rest, s2) \<Rightarrow>
              ((case found of None \<Rightarrow> rest | Some x \<Rightarrow> x # rest), s2))"

definition autoRecoverAll :: "int \<Rightarrow> ChainStatusProvider option \<Rightarrow> PaymentTimeoutService \<Rightarrow> RecoveryResult list \<times> PaymentTimeoutService" where
  "autoRecoverAll now provider s = recover_each now provider (obj_keys (px_records s)) s"

definition min_bumped :: "ChainTimeoutConfig \<Rightarrow> int \<Rightarrow> int" where
  "min_bumped c gas = gas + (gas * cc_gasBumpBps c) sdiv 10000"

definition manual_price :: "ChainTimeoutConfig \<Rightarrow> int \<Rightarrow> int \<Rightarrow> int" where
  "manual_price c requested gas = (if min_bumped c gas < requested then requested else min_bumped c gas)"

definition manualRetry :: "int \<Rightarrow> ChainStatusProvider option \<Rightarrow> string \<Rightarrow> int \<Rightarrow> PaymentTimeoutService
    \<Rightarrow> (timeout_error + RecoveryResult option) \<times> PaymentTimeoutService" where
  "manualRetry now provider chargeId requested s =
     (if map_of (px_byCharge s) chargeId = None \<or> map_of (px_byCharge s) chargeId = Some '''' then (Inl ChargeNotFound, s)
      else case px_getRecord chargeId s of None \<Rightarrow> (Inl RecordNotFound, s)
      | Some r \<Rightarrow>
          if pt_status r = TxResolved \<or> pt_status r = TxAbandoned then (Inl NotRecoverable, s)
          else let c = getChainConfig (pt_chainId r) s;
                   r' = r\<lparr>pt_lastGasPrice := manual_price c requested (pt_lastGasPrice r), pt_status := TxTimedOut\<rparr>
            in case attemptRecovery now provider chargeId (put_record r' s) of (res, s') \<Rightarrow> (Inr res, s'))"

definition markResolved :: "int \<Rightarrow> string \<Rightarrow> string \<Rightarrow> PaymentTimeoutService \<Rightarrow> PaymentTimeoutRecord option \<times> PaymentTimeoutService" where
  "markResolved now chargeId note s =
     (case px_getRecord chargeId s of None \<Rightarrow> (None, s)
      | Some r \<Rightarrow> (case resolveRecord now r note s of (r', s') \<Rightarrow> (Some r', s')))"

section \<open>Queries\<close>

definition getSubscriptionTimeouts :: "string \<Rightarrow> PaymentTimeoutService \<Rightarrow> PaymentTimeoutRecord list" where
  "getSubscriptionTimeouts subscriptionId s =
     List.map_filter (map_of (px_records s)) (obj_or [] (px_bySub s) subscriptionId)"

definition timeouts_source :: "string option \<Rightarrow> PaymentTimeoutService \<Rightarrow> PaymentTimeoutRecord list" where
  "timeouts_source f s =
     (case f of None \<Rightarrow> map snd (px_records s)
      | Some i \<Rightarrow> if i = '''' then map snd (px_records s) else getSubscriptionTimeouts i s)"

definition getStuckTransactions :: "string option \<Rightarrow> PaymentTimeoutService \<Rightarrow> PaymentTimeoutRecord list" where
  "getStuckTransactions f s = filter stuck (timeouts_source f s)"

record TimeoutHealthSummary =
  th_total :: nat
  th_pending :: nat
  th_timedOut :: nat
  th_recovering :: nat
  th_resolved :: nat
  th_abandoned :: nat
  th_recoveryRate :: rat

definition getHealthSummary :: "string option \<Rightarrow> PaymentTimeoutService \<Rightarrow> TimeoutHealthSummary" where
  "getHealthSummary f s =
     (let source = timeouts_source f s; n = (\<lambda>st. length (filter (\<lambda>r. pt_status r = st) source));
          terminal = n TxResolved + n TxAbandoned
      in \<lparr>th_total = length source, th_pending = n TxPending, th_timedOut = n TxTimedOut, th_recovering = n TxRecovering,
          th_resolved = n TxResolved, th_abandoned = n TxAbandoned,
          th_recoveryRate = (if 0 < terminal then of_nat (n TxResolved) / of_nat terminal else 0)\<rparr>)"

section \<open>How records advance\<close>

text \<open>What no operation takes back: the identity of a payment, that it left the pending state, that it is
  settled, and the number of attempts. A settled payment keeps attempts and gas price.\<close>

definition advance :: "PaymentTimeoutRecord \<Rightarrow> PaymentTimeoutRecord \<Rightarrow> bool" where
  "advance r r' \<longleftrightarrow> pt_id r' = pt_id r \<and> pt_chargeId r' = pt_chargeId r \<and> pt_subscriptionId r' = pt_subscriptionId r
     \<and> pt_chainId r' = pt_chainId r \<and> pt_submittedAt r' = pt_submittedAt r \<and> pt_txHash r' = pt_txHash r
     \<and> (pt_status r \<noteq> TxPending \<longrightarrow> pt_status r' \<noteq> TxPending)
     \<and> (pt_status r = TxResolved \<longrightarrow> pt_status r' = TxResolved)
     \<and> (pt_status r = TxAbandoned \<longrightarrow> pt_status r' = TxAbandoned \<or> pt_status r' = TxResolved)
     \<and> (pt_status r = TxResolved \<or> pt_status r = TxAbandoned \<longrightarrow>
          pt_recoveryAttempts r' = pt_recoveryAttempts r \<and> pt_lastGasPrice r' = pt_lastGasPrice r)
     \<and> pt_recoveryAttempts r \<le> pt_recoveryAttempts r'"

lemma advance_refl [simp]: "advance r r"
  by (simp add: advance_def)

lemma advance_trans: assumes "advance r r'" "advance r' r''" shows "advance r r''"
  using assms unfolding advance_def by (cases "pt_status r"; cases "pt_status r'") auto

text \<open>Records are stored under their id, no configuration allows more than ten attempts, and none had more.\<close>

definition px_ok :: "PaymentTimeoutService \<Rightarrow> bool" where
  "px_ok s \<longleftrightarrow> (\<forall>rid r. map_of (px_records s) rid = Some r \<longrightarrow> pt_id r = rid \<and> 0 \<le> pt_recoveryAttempts r \<and> pt_recoveryAttempts r \<le> 10)
     \<and> (\<forall>chain c. map_of (px_chainConfigs s) chain = Some c \<longrightarrow> cc_maxRecoveryAttempts c \<le> 10)"

definition evolves :: "PaymentTimeoutService \<Rightarrow> PaymentTimeoutService \<Rightarrow> bool" where
  "evolves s s' \<longleftrightarrow> (px_ok s \<longrightarrow> px_ok s' \<and>
     (\<forall>rid r. map_of (px_records s) rid = Some r \<longrightarrow> (\<exists>r'. map_of (px_records s') rid = Some r' \<and> advance r r')))"

lemma evolves_refl [simp]: "evolves s s"
  by (auto simp: evolves_def)

lemma evolves_trans: assumes "evolves s s'" "evolves s' s''" shows "evolves s s''"
  using assms unfolding evolves_def by (meson advance_trans)

lemma notify_simps [simp]:
  "px_records (pt_notify a s) = px_records s" "px_byCharge (pt_notify a s) = px_byCharge s"
  "px_bySub (pt_notify a s) = px_bySub s" "px_chainConfigs (pt_notify a s) = px_chainConfigs s"
  by (simp_all add: pt_notify_def)

lemma put_simps [simp]:
  "px_records (put_record r s) = AList.update (pt_id r) r (px_records s)" "px_byCharge (put_record r s) = px_byCharge s"
  "px_bySub (put_record r s) = px_bySub s" "px_chainConfigs (put_record r s) = px_chainConfigs s"
  by (simp_all add: put_record_def)

lemmas dispatch_defs = dispatchTimeoutAlert_def dispatchRecoveryAlert_def dispatchAbandonedAlert_def dispatchReorgAlert_def

lemma evolves_notify [simp]: "evolves s (pt_notify a s') \<longleftrightarrow> evolves s s'"
  by (simp add: evolves_def px_ok_def)

lemma evolves_put:
  assumes "map_of (px_records s) rid = Some r" "advance r r'" "px_ok s \<longrightarrow> pt_recoveryAttempts r' \<le> 10"
  shows "evolves s (put_record r' s)"
proof -
  have "px_ok (put_record r' s)
    \<and> (\<forall>k q. map_of (px_records s) k = Some q \<longrightarrow> (\<exists>q'. map_of (px_records (put_record r' s)) k = Some q' \<and> advance q q'))"
    if ok: "px_ok s"
  proof -
    have "pt_id r = rid \<and> 0 \<le> pt_recoveryAttempts r" using ok assms(1) by (simp add: px_ok_def)
    moreover have "pt_id r' = pt_id r \<and> pt_recoveryAttempts r \<le> pt_recoveryAttempts r'" using assms(2) by (simp add: advance_def)
    ultimately have id: "pt_id r' = rid" "0 \<le> pt_recoveryAttempts r'" by auto
    then show ?thesis using ok assms by (auto simp: px_ok_def)
  qed
  then show ?thesis by (simp add: evolves_def)
qed

lemma px_getRecord_Some: "px_getRecord ch s = Some r \<Longrightarrow> \<exists>rid. map_of (px_byCharge s) ch = Some rid \<and> map_of (px_records s) rid = Some r"
  by (auto simp: px_getRecord_def split: option.splits if_splits)

lemma small_steps:
  "advance r (resolved_now now note r)"
  "pt_status r = TxPending \<Longrightarrow> advance r (timed_out now r)"
  "stuck r \<Longrightarrow> advance r (abandoned_now now r)"
  "advance r (deferred now r)"
  "stuck r \<Longrightarrow> advance r (retried now c r)"
  by (auto simp: advance_def resolved_now_def timed_out_def abandoned_now_def deferred_def retried_def stuck_def)

lemma small_attempts [simp]:
  "pt_recoveryAttempts (resolved_now now note r) = pt_recoveryAttempts r"
  "pt_recoveryAttempts (timed_out now r) = pt_recoveryAttempts r"
  "pt_recoveryAttempts (abandoned_now now r) = pt_recoveryAttempts r"
  "pt_recoveryAttempts (deferred now r) = pt_recoveryAttempts r"
  "pt_recoveryAttempts (retried now c r) = pt_recoveryAttempts r + 1"
  by (simp_all add: resolved_now_def timed_out_def abandoned_now_def deferred_def retried_def)

lemma px_okD: "px_ok s \<Longrightarrow> map_of (px_records s) rid = Some r \<Longrightarrow> pt_id r = rid \<and> 0 \<le> pt_recoveryAttempts r \<and> pt_recoveryAttempts r \<le> 10"
  by (simp add: px_ok_def)

lemma config_cap: "px_ok s \<Longrightarrow> cc_maxRecoveryAttempts (getChainConfig k s) \<le> 10"
  by (cases "map_of (px_chainConfigs s) k") (auto simp: px_ok_def getChainConfig_def obj_or_def)

lemma evolves_resolve: "map_of (px_records s) rid = Some r \<Longrightarrow> evolves s (snd (resolveRecord now r note s))"
  unfolding resolveRecord_def snd_conv by (rule evolves_put) (use small_steps px_okD in auto)

lemma evolves_scan: "evolves s (snd (scan_record now provider rid s))"
proof (cases "map_of (px_records s) rid")
  case None
  then show ?thesis by (simp add: scan_record_def)
next
  case (Some r)
  have "evolves s (put_record (timed_out now r) s)" if "overdue now r s"
    using Some by (rule evolves_put) (use that small_steps(2) px_okD [OF _ Some] in \<open>auto simp: overdue_def\<close>)
  then show ?thesis using evolves_resolve [OF Some]
    by (simp add: scan_record_def scan_answer_def Some dispatch_defs)
qed

lemma evolves_scan_all: "evolves s (snd (scan_all now provider rids s))"
proof (induction rids arbitrary: s)
  case (Cons rid rids)
  obtain found s1 where 1: "scan_record now provider rid s = (found, s1)" by fastforce
  obtain rest s2 where 2: "scan_all now provider rids s1 = (rest, s2)" by fastforce
  have "evolves s s1" "evolves s1 s2" using evolves_scan [of s now provider rid] 1 Cons.IH [of s1] 2 by simp_all
  then show ?case by (simp add: 1 2 evolves_trans [of s s1 s2])
qed simp

lemma recovery_begin_cases:
  assumes "recovery_begin now ch s = (x, s')"
  shows "evolves s s' \<and> (\<forall>r c. x = Some (r, c) \<longrightarrow> s' = s \<and> px_getRecord ch s = Some r \<and> stuck r
    \<and> c = getChainConfig (pt_chainId r) s \<and> pt_recoveryAttempts r < cc_maxRecoveryAttempts c)"
proof (cases "px_getRecord ch s")
  case None
  then show ?thesis using assms by (auto simp: recovery_begin_def)
next
  case (Some r)
  then obtain rid where rid: "map_of (px_records s) rid = Some r" using px_getRecord_Some by blast
  have "evolves s (put_record (abandoned_now now r) s)" if "stuck r"
    using rid by (rule evolves_put) (use that small_steps(3) px_okD [OF _ rid] in auto)
  then show ?thesis using assms Some
    by (auto simp: recovery_begin_def Let_def dispatch_defs split: if_splits)
qed

lemma evolves_recovery_end:
  assumes "map_of (px_records s) rid = Some r" "stuck r" "px_ok s \<longrightarrow> pt_recoveryAttempts r < 10"
  shows "evolves s (snd (recovery_end now reorg c rid s))"
proof -
  have "evolves s (put_record (deferred now r) s)" "evolves s (put_record (retried now c r) s)"
    using assms(1) by (rule evolves_put; use assms small_steps px_okD [OF _ assms(1)] in auto)+
  then show ?thesis by (simp add: recovery_end_def assms(1) Let_def dispatch_defs)
qed

lemma evolves_attempt: "evolves s (snd (attemptRecovery now provider ch s))"
proof -
  obtain x s1 where b: "recovery_begin now ch s = (x, s1)" by fastforce
  note cases = recovery_begin_cases [OF b]
  show ?thesis
  proof (cases x)
    case None
    then show ?thesis using cases by (simp add: attemptRecovery_def b)
  next
    case (Some p)
    obtain r c where p: "p = (r, c)" by fastforce
    have s1: "s1 = s" and st: "stuck r" and c: "c = getChainConfig (pt_chainId r) s" "pt_recoveryAttempts r < cc_maxRecoveryAttempts c"
      and g: "px_getRecord ch s = Some r" using cases Some p by auto
    obtain rid where rid: "map_of (px_records s) rid = Some r" using px_getRecord_Some [OF g] by blast
    have "evolves s (snd (recovery_end now (asked_reorg provider r c) c (pt_id r) s))" if ok: "px_ok s"
      using evolves_recovery_end [of s "pt_id r" r] rid px_okD [OF ok rid] st c config_cap [OF ok, of "pt_chainId r"] by auto
    then have "evolves s (snd (recovery_end now (asked_reorg provider r c) c (pt_id r) s))"
      by (cases "px_ok s") (simp_all add: evolves_def)
    then show ?thesis by (simp add: attemptRecovery_def b Some p s1)
  qed
qed

lemma evolves_recover_each: "evolves s (snd (recover_each now provider rids s))"
proof (induction rids arbitrary: s)
  case (Cons rid rids)
  show ?case
  proof (cases "map_of (px_records s) rid")
    case None
    then show ?thesis using Cons.IH by simp
  next
    case (Some r)
    obtain found s1 where 1: "attemptRecovery now provider (pt_chargeId r) s = (found, s1)" by fastforce
    obtain rest s2 where 2: "recover_each now provider rids s1 = (rest, s2)" by fastforce
    have "evolves s s1" "evolves s1 s2"
      using evolves_attempt [of s now provider "pt_chargeId r"] 1 Cons.IH [of s1] 2 by simp_all
    then show ?thesis using Cons.IH by (simp add: Some 1 2 evolves_trans [of s s1 s2])
  qed
qed simp

lemma evolves_manual: "evolves s (snd (manualRetry now provider ch requested s))"
proof (cases "px_getRecord ch s")
  case None
  then show ?thesis by (simp add: manualRetry_def)
next
  case (Some r)
  then obtain rid where rid: "map_of (px_records s) rid = Some r" using px_getRecord_Some by blast
  define c where "c = getChainConfig (pt_chainId r) s"
  define r' where "r' = r\<lparr>pt_lastGasPrice := manual_price c requested (pt_lastGasPrice r), pt_status := TxTimedOut\<rparr>"
  have "evolves s (put_record r' s)" if "\<not> (pt_status r = TxResolved \<or> pt_status r = TxAbandoned)"
    using rid by (rule evolves_put) (use that px_okD [OF _ rid] in \<open>auto simp: advance_def r'_def\<close>)
  then show ?thesis
    using evolves_trans [OF _ evolves_attempt [of "put_record r' s" now provider ch]]
    by (auto simp: manualRetry_def Some Let_def c_def r'_def split: prod.splits)
qed

lemma evolves_mark: "evolves s (snd (markResolved now ch note s))"
proof (cases "px_getRecord ch s")
  case None
  then show ?thesis by (simp add: markResolved_def)
next
  case (Some r)
  then obtain rid where "map_of (px_records s) rid = Some r" using px_getRecord_Some by blast
  from evolves_resolve [OF this] show ?thesis by (simp add: markResolved_def Some case_prod_beta)
qed

lemma evolves_config: "evolves s (snd (setChainConfig c s))"
  by (auto simp: setChainConfig_def evolves_def px_ok_def)

section \<open>Runs\<close>

datatype timeout_op =
    SetConfig ChainTimeoutConfig
  | Register string int string string int int "string option"
  | Scan int "ChainStatusProvider option"
  | RecoverAll int "ChainStatusProvider option"
  | Recover int "ChainStatusProvider option" string
  | Manual int "ChainStatusProvider option" string int
  | Resolve int string string

fun timeout_step :: "PaymentTimeoutService \<Rightarrow> timeout_op \<Rightarrow> PaymentTimeoutService" where
  "timeout_step s (SetConfig c) = snd (setChainConfig c s)"
| "timeout_step s (Register uid now ch sub k gas h) = snd (pt_registerPending uid now ch sub k gas h s)"
| "timeout_step s (Scan now provider) = snd (detectTimeouts now provider s)"
| "timeout_step s (RecoverAll now provider) = snd (autoRecoverAll now provider s)"
| "timeout_step s (Recover now provider ch) = snd (attemptRecovery now provider ch s)"
| "timeout_step s (Manual now provider ch gas) = snd (manualRetry now provider ch gas s)"
| "timeout_step s (Resolve now ch msg) = snd (markResolved now ch msg s)"

fun registers :: "string \<Rightarrow> timeout_op \<Rightarrow> bool" where
  "registers rid (Register uid _ _ _ _ _ _) \<longleftrightarrow> uid = rid"
| "registers rid _ \<longleftrightarrow> False"

lemma register_ok: "px_ok s \<Longrightarrow> px_ok (snd (pt_registerPending uid now ch sub k gas h s))"
  by (auto simp: pt_registerPending_def Let_def px_ok_def)

lemma timeout_step_evolves: "(\<forall>uid now ch sub k gas h. e \<noteq> Register uid now ch sub k gas h) \<Longrightarrow> evolves s (timeout_step s e)"
  by (cases e) (simp_all add: evolves_config evolves_scan_all evolves_recover_each evolves_attempt evolves_manual evolves_mark
      detectTimeouts_def autoRecoverAll_def)

lemma px_ok_step: assumes "px_ok s" shows "px_ok (timeout_step s e)"
proof (cases "\<exists>uid now ch sub k gas h. e = Register uid now ch sub k gas h")
  case True
  then show ?thesis using register_ok [OF assms] by auto
next
  case False
  then show ?thesis using timeout_step_evolves [of e s] assms by (simp add: evolves_def)
qed

interpretation timeouts: machine timeout_step px_ok
  by unfold_locales (rule px_ok_step)

lemma px_ok_new: "px_ok (newPaymentTimeoutService alerting)"
  by (simp add: px_ok_def newPaymentTimeoutService_def DEFAULT_CHAIN_CONFIGS_def)

lemma step_advances:
  assumes "px_ok s" "map_of (px_records s) rid = Some r" "\<not> registers rid e"
  shows "\<exists>r'. map_of (px_records (timeout_step s e)) rid = Some r' \<and> advance r r'"
proof (cases "\<exists>uid now ch sub k gas h. e = Register uid now ch sub k gas h")
  case True
  then show ?thesis using assms by (auto simp: pt_registerPending_def Let_def)
next
  case False
  then have "evolves s (timeout_step s e)" by (intro timeout_step_evolves) auto
  then show ?thesis using assms(1, 2) by (simp add: evolves_def)
qed

section \<open>Interleaved operations\<close>

text \<open>
  While a scan or an attempt awaits the chain other operations run. A run of segments: \<open>SAskStatus\<close> and
  \<open>SBegin\<close>, \<open>SManual\<close> are the halves before the question of a scan step, an attempt and a manual retry, which
  leave a call waiting; \<open>SStatus\<close> and \<open>SReorg\<close> continue the waiting call of that number with the chain's answer, in
  whatever order. The other operations do not wait.
\<close>

definition manual_begin :: "int \<Rightarrow> string \<Rightarrow> int \<Rightarrow> PaymentTimeoutService
    \<Rightarrow> (PaymentTimeoutRecord \<times> ChainTimeoutConfig) option \<times> PaymentTimeoutService" where
  "manual_begin now chargeId requested s =
     (case px_getRecord chargeId s of None \<Rightarrow> (None, s)
      | Some r \<Rightarrow>
          if pt_status r = TxResolved \<or> pt_status r = TxAbandoned then (None, s)
          else recovery_begin now chargeId (put_record
            (r\<lparr>pt_lastGasPrice := manual_price (getChainConfig (pt_chainId r) s) requested (pt_lastGasPrice r), pt_status := TxTimedOut\<rparr>) s))"

lemma manual_segments:
  "snd (manualRetry now provider ch requested s) =
     (case manual_begin now ch requested s of
        (None, s1) \<Rightarrow> s1
      | (Some (r, c), s1) \<Rightarrow> snd (recovery_end now (asked_reorg provider r c) c (pt_id r) s1))"
  by (auto simp: manualRetry_def manual_begin_def attemptRecovery_def px_getRecord_def Let_def
      split: option.splits prod.splits)

datatype segment =
    SConfig ChainTimeoutConfig
  | SRegister string int string string int int "string option"
  | SResolve int string string
  | SAskStatus int string
  | SStatus int nat bool
  | SBegin int string
  | SManual int string int
  | SReorg int nat bool

record waiting =
  wt_service :: PaymentTimeoutService
  wt_scans :: "string list"
  wt_attempts :: "(string \<times> ChainTimeoutConfig) list"

definition drop_nth :: "nat \<Rightarrow> 'a list \<Rightarrow> 'a list" where
  "drop_nth i xs = take i xs @ drop (Suc i) xs"

definition attempt_waits :: "(PaymentTimeoutRecord \<times> ChainTimeoutConfig) option \<times> PaymentTimeoutService \<Rightarrow> waiting \<Rightarrow> waiting" where
  "attempt_waits begun w =
     (case begun of
        (None, s) \<Rightarrow> w\<lparr>wt_service := s\<rparr>
      | (Some (r, c), s) \<Rightarrow> w\<lparr>wt_service := s, wt_attempts := wt_attempts w @ [(pt_id r, c)]\<rparr>)"

fun segment_step :: "waiting \<Rightarrow> segment \<Rightarrow> waiting" where
  "segment_step w (SConfig c) = w\<lparr>wt_service := snd (setChainConfig c (wt_service w))\<rparr>"
| "segment_step w (SRegister uid now ch sub k gas h) = w\<lparr>wt_service := snd (pt_registerPending uid now ch sub k gas h (wt_service w))\<rparr>"
| "segment_step w (SResolve now ch msg) = w\<lparr>wt_service := snd (markResolved now ch msg (wt_service w))\<rparr>"
| "segment_step w (SAskStatus now rid) =
     (case map_of (px_records (wt_service w)) rid of None \<Rightarrow> w
      | Some r \<Rightarrow> if overdue now r (wt_service w) then w\<lparr>wt_scans := wt_scans w @ [rid]\<rparr> else w)"
| "segment_step w (SStatus now i confirmed) =
     (if i < length (wt_scans w)
      then w\<lparr>wt_service := snd (scan_answer now confirmed (wt_scans w ! i) (wt_service w)), wt_scans := drop_nth i (wt_scans w)\<rparr>
      else w)"
| "segment_step w (SBegin now ch) = attempt_waits (recovery_begin now ch (wt_service w)) w"
| "segment_step w (SManual now ch requested) = attempt_waits (manual_begin now ch requested (wt_service w)) w"
| "segment_step w (SReorg now i reorg) =
     (if i < length (wt_attempts w)
      then w\<lparr>wt_service := snd (recovery_end now reorg (snd (wt_attempts w ! i)) (fst (wt_attempts w ! i)) (wt_service w)),
             wt_attempts := drop_nth i (wt_attempts w)\<rparr>
      else w)"

fun starts :: "string \<Rightarrow> segment \<Rightarrow> bool" where
  "starts rid (SRegister uid _ _ _ _ _ _) \<longleftrightarrow> uid = rid"
| "starts rid _ \<longleftrightarrow> False"

definition nothing_waits :: "PaymentTimeoutService \<Rightarrow> waiting" where
  "nothing_waits s = \<lparr>wt_service = s, wt_scans = [], wt_attempts = []\<rparr>"

text \<open>An attempt run without interruption is its two segments.\<close>

lemma attempt_segments:
  "snd (attemptRecovery now provider ch s) =
     (case recovery_begin now ch s of
        (None, s1) \<Rightarrow> wt_service (segment_step (nothing_waits s) (SBegin now ch))
      | (Some (r, c), s1) \<Rightarrow> wt_service (foldl segment_step (nothing_waits s) [SBegin now ch, SReorg now 0 (asked_reorg provider r c)]))"
  by (simp add: attemptRecovery_def nothing_waits_def attempt_waits_def split: option.split prod.split)

definition awaited :: "string \<Rightarrow> waiting \<Rightarrow> bool" where
  "awaited rid w \<longleftrightarrow> rid \<in> set (wt_scans w) \<or> rid \<in> fst ` set (wt_attempts w)"

definition settled :: "PaymentTimeoutRecord \<Rightarrow> bool" where
  "settled r \<longleftrightarrow> pt_status r = TxResolved \<or> pt_status r = TxAbandoned"

text \<open>What even a late answer does not take back.\<close>

definition moves_on :: "PaymentTimeoutRecord \<Rightarrow> PaymentTimeoutRecord \<Rightarrow> bool" where
  "moves_on r r' \<longleftrightarrow> pt_id r' = pt_id r \<and> pt_chargeId r' = pt_chargeId r \<and> pt_subscriptionId r' = pt_subscriptionId r
     \<and> pt_chainId r' = pt_chainId r \<and> pt_submittedAt r' = pt_submittedAt r \<and> pt_txHash r' = pt_txHash r
     \<and> (pt_status r \<noteq> TxPending \<longrightarrow> pt_status r' \<noteq> TxPending) \<and> pt_recoveryAttempts r \<le> pt_recoveryAttempts r'"

lemma moves_on_refl [simp]: "moves_on r r"
  by (simp add: moves_on_def)

lemma moves_on_trans: "moves_on r r' \<Longrightarrow> moves_on r' r'' \<Longrightarrow> moves_on r r''"
  by (auto simp: moves_on_def)

lemma late_moves:
  "moves_on r (resolved_now now msg r)" "moves_on r (timed_out now r)" "moves_on r (abandoned_now now r)"
  "moves_on r (deferred now r)" "moves_on r (retried now c r)"
  "moves_on r (r\<lparr>pt_lastGasPrice := g, pt_status := TxTimedOut\<rparr>)"
  by (simp_all add: moves_on_def resolved_now_def timed_out_def abandoned_now_def deferred_def retried_def)

definition ids_ok :: "PaymentTimeoutService \<Rightarrow> bool" where
  "ids_ok s \<longleftrightarrow> (\<forall>rid r. map_of (px_records s) rid = Some r \<longrightarrow> pt_id r = rid)"

lemma ids_okD: "ids_ok s \<Longrightarrow> map_of (px_records s) rid = Some r \<Longrightarrow> pt_id r = rid"
  by (simp add: ids_ok_def)

lemma px_ids_ok: "px_ok s \<Longrightarrow> ids_ok s"
  by (simp add: px_ok_def ids_ok_def)

text \<open>A change of the records: every record moves on, and the record \<open>rid\<close> is as before, or marked resolved, if it was settled
  and is not awaited.\<close>

definition follows :: "string \<Rightarrow> bool \<Rightarrow> PaymentTimeoutService \<Rightarrow> PaymentTimeoutService \<Rightarrow> bool" where
  "follows rid free s s' \<longleftrightarrow> (ids_ok s \<longrightarrow> ids_ok s' \<and> (\<forall>r. map_of (px_records s) rid = Some r \<longrightarrow>
     (\<exists>r'. map_of (px_records s') rid = Some r' \<and> moves_on r r' \<and> (free \<and> settled r \<longrightarrow> advance r r' \<and> settled r'))))"

lemma follows_refl [simp]: "follows rid free s s"
  by (simp add: follows_def)

lemma follows_trans: "follows rid free s s' \<Longrightarrow> follows rid free s' s'' \<Longrightarrow> follows rid free s s''"
  unfolding follows_def by (meson advance_trans moves_on_trans)

lemma follows_notify [simp]: "follows rid free s (pt_notify a s') \<longleftrightarrow> follows rid free s s'"
  by (simp add: follows_def ids_ok_def)

lemma follows_put:
  assumes "map_of (px_records s) k = Some q" "moves_on q q'" "free \<Longrightarrow> k = rid \<Longrightarrow> settled q \<Longrightarrow> advance q q' \<and> settled q'"
  shows "follows rid free s (put_record q' s)"
proof -
  have "pt_id q' = k" if "ids_ok s" using ids_okD [OF that assms(1)] assms(2) by (simp add: moves_on_def)
  then show ?thesis using assms by (auto simp: follows_def ids_ok_def)
qed

lemma settled_resolved: "settled q \<Longrightarrow> advance q (resolved_now now msg q) \<and> settled (resolved_now now msg q)"
  using small_steps(1) [of q now msg] by (simp add: settled_def resolved_now_def)

lemma follows_resolve: "follows rid free s (snd (markResolved now ch note s))"
proof (cases "px_getRecord ch s")
  case (Some q)
  then obtain k where "map_of (px_records s) k = Some q" using px_getRecord_Some by blast
  from follows_put [OF this late_moves(1) settled_resolved] show ?thesis
    by (simp add: markResolved_def Some resolveRecord_def)
qed (simp add: markResolved_def)

lemma follows_scan_answer:
  assumes "\<not> free \<or> k \<noteq> rid"
  shows "follows rid free s (snd (scan_answer now confirmed k s))"
proof (cases "map_of (px_records s) k")
  case (Some q)
  have "follows rid free s (put_record (resolved_now now msg q) s)" "follows rid free s (put_record (timed_out now q) s)" for msg
    using follows_put [OF Some late_moves(1)] follows_put [OF Some late_moves(2)] assms by blast+
  then show ?thesis by (simp add: scan_answer_def Some resolveRecord_def dispatch_defs)
qed (simp add: scan_answer_def)

lemma follows_recovery_end:
  assumes "\<not> free \<or> k \<noteq> rid"
  shows "follows rid free s (snd (recovery_end now reorg c k s))"
proof (cases "map_of (px_records s) k")
  case (Some q)
  have "follows rid free s (put_record (deferred now q) s)" "follows rid free s (put_record (retried now c q) s)"
    using follows_put [OF Some late_moves(4)] follows_put [OF Some late_moves(5)] assms by blast+
  then show ?thesis by (simp add: recovery_end_def Some Let_def dispatch_defs)
qed (simp add: recovery_end_def)

lemma follows_begin: "follows rid free s (snd (recovery_begin now ch s))"
proof (cases "px_getRecord ch s")
  case (Some q)
  then obtain k where k: "map_of (px_records s) k = Some q" using px_getRecord_Some by blast
  have "follows rid free s (put_record (abandoned_now now q) s)" if "stuck q"
    by (rule follows_put [OF k late_moves(3)]) (use that in \<open>auto simp: stuck_def settled_def\<close>)
  then show ?thesis by (auto simp: recovery_begin_def Some Let_def dispatch_defs)
qed (simp add: recovery_begin_def)

lemma follows_manual: "follows rid free s (snd (manual_begin now ch requested s))"
proof (cases "px_getRecord ch s")
  case (Some q)
  then obtain k where k: "map_of (px_records s) k = Some q" using px_getRecord_Some by blast
  define q' where "q' = q\<lparr>pt_lastGasPrice := manual_price (getChainConfig (pt_chainId q) s) requested (pt_lastGasPrice q), pt_status := TxTimedOut\<rparr>"
  have "follows rid free s (put_record q' s)" if "\<not> settled q"
    unfolding q'_def by (rule follows_put [OF k late_moves(6)]) (use that in simp)
  from follows_trans [OF this follows_begin [of rid free _ now ch]] show ?thesis
    by (simp add: manual_begin_def Some q'_def [symmetric] settled_def)
qed (simp add: manual_begin_def)

lemma begin_waits_on:
  assumes "recovery_begin now ch s = (Some (q, c), s1)"
  shows "\<exists>k. s1 = s \<and> map_of (px_records s) k = Some q \<and> \<not> settled q"
  using recovery_begin_cases [OF assms] px_getRecord_Some [of ch s q] by (auto simp: stuck_def settled_def)

lemma manual_waits_on:
  assumes "manual_begin now ch requested s = (Some (q, c), s1)"
  shows "\<exists>k. map_of (px_records s1) k = Some q \<and> \<not> settled q"
  using assms by (auto simp: manual_begin_def split: option.splits if_splits dest: begin_waits_on)

lemma awaited_drop: "\<not> awaited rid w \<Longrightarrow> \<not> awaited rid (w\<lparr>wt_service := s, wt_scans := drop_nth i (wt_scans w)\<rparr>)"
  "\<not> awaited rid w \<Longrightarrow> \<not> awaited rid (w\<lparr>wt_service := s, wt_attempts := drop_nth i (wt_attempts w)\<rparr>)"
  by (auto simp: awaited_def drop_nth_def dest: in_set_takeD in_set_dropD)

lemma follows_settled:
  assumes "follows rid True s s'" "ids_ok s" "map_of (px_records s) rid = Some r" "settled r" "map_of (px_records s') rid = Some q"
  shows "settled q"
  using assms by (auto simp: follows_def)

lemma attempt_waits_views:
  assumes begun: "follows rid True (wt_service w) (snd begun)" "follows rid False (wt_service w) (snd begun)"
    and new: "\<And>q c s1. begun = (Some (q, c), s1) \<Longrightarrow> \<exists>k. map_of (px_records s1) k = Some q \<and> \<not> settled q"
    and ok: "ids_ok (wt_service w)" "map_of (px_records (wt_service w)) rid = Some r"
  shows "follows rid (\<not> awaited rid w) (wt_service w) (wt_service (attempt_waits begun w))
    \<and> (settled r \<and> \<not> awaited rid w \<longrightarrow> \<not> awaited rid (attempt_waits begun w))"
proof -
  obtain x s1 where b: "begun = (x, s1)" by fastforce
  have srv: "wt_service (attempt_waits begun w) = s1"
    by (simp add: attempt_waits_def b split: option.split prod.split)
  have "\<not> awaited rid (attempt_waits begun w)" if st: "settled r" "\<not> awaited rid w"
  proof (cases x)
    case None
    then show ?thesis using st by (simp add: attempt_waits_def b awaited_def)
  next
    case (Some p)
    obtain q c where p: "p = (q, c)" by fastforce
    obtain k where k: "map_of (px_records s1) k = Some q" "\<not> settled q" using new [of q c s1] b Some p by auto
    have "ids_ok s1" using begun(1) ok(1) by (simp add: follows_def b)
    from ids_okD [OF this k(1)] have id: "pt_id q = k" .
    have "settled q" if "k = rid"
      using follows_settled [OF begun(1) ok st(1), of q] k(1) that by (simp add: b)
    then show ?thesis using st(2) k(2) id by (auto simp: attempt_waits_def b Some p awaited_def)
  qed
  moreover have "follows rid (\<not> awaited rid w) (wt_service w) s1"
    using begun by (cases "awaited rid w") (simp_all add: b)
  ultimately show ?thesis by (simp add: srv)
qed

lemma follows_register: "uid \<noteq> rid \<Longrightarrow> follows rid free s (snd (pt_registerPending uid now ch sub k gas h s))"
  by (auto simp: follows_def pt_registerPending_def Let_def ids_ok_def)

lemma follows_config: "follows rid free s (snd (setChainConfig c s))"
  by (auto simp: follows_def setChainConfig_def ids_ok_def)

lemma segment_follows:
  assumes "ids_ok (wt_service w)" "map_of (px_records (wt_service w)) rid = Some r" "\<not> starts rid e"
  shows "follows rid (\<not> awaited rid w) (wt_service w) (wt_service (segment_step w e))
    \<and> (settled r \<and> \<not> awaited rid w \<longrightarrow> \<not> awaited rid (segment_step w e))"
proof (cases e)
  case (SAskStatus now k)
  have "k \<noteq> rid" if "map_of (px_records (wt_service w)) k = Some q" "overdue now q (wt_service w)" "settled r" for q
    using that assms(2) by (auto simp: overdue_def settled_def)
  then show ?thesis by (auto simp: SAskStatus awaited_def split: option.splits)
next
  case (SStatus now i confirmed)
  have "\<not> \<not> awaited rid w \<or> wt_scans w ! i \<noteq> rid" if "i < length (wt_scans w)"
    using nth_mem [OF that] by (auto simp: awaited_def)
  then show ?thesis using follows_scan_answer [of "\<not> awaited rid w" "wt_scans w ! i" rid] awaited_drop(1)
    by (simp add: SStatus)
next
  case (SBegin now ch)
  show ?thesis unfolding SBegin segment_step.simps
    by (rule attempt_waits_views [OF follows_begin follows_begin _ assms(1, 2)]) (use begin_waits_on in blast)
next
  case (SManual now ch requested)
  show ?thesis unfolding SManual segment_step.simps
    by (rule attempt_waits_views [OF follows_manual follows_manual _ assms(1, 2)]) (use manual_waits_on in blast)
next
  case (SReorg now i reorg)
  have "\<not> \<not> awaited rid w \<or> fst (wt_attempts w ! i) \<noteq> rid" if "i < length (wt_attempts w)"
    using nth_mem [OF that] by (auto simp: awaited_def)
  then show ?thesis using follows_recovery_end [of "\<not> awaited rid w" "fst (wt_attempts w ! i)" rid] awaited_drop(2)
    by (simp add: SReorg)
qed (use assms(3) in \<open>simp_all add: follows_register follows_config follows_resolve awaited_def\<close>)

lemma segments_follow:
  assumes "ids_ok (wt_service w)" "map_of (px_records (wt_service w)) rid = Some r" "\<forall>e\<in>set es. \<not> starts rid e"
  shows "\<exists>r'. map_of (px_records (wt_service (foldl segment_step w es))) rid = Some r' \<and> moves_on r r'
    \<and> (settled r \<and> \<not> awaited rid w \<longrightarrow> advance r r')"
  using assms
proof (induction es arbitrary: w r)
  case (Cons e es)
  note step = segment_follows [OF Cons.prems(1, 2), of e]
  then obtain r1 where r1: "ids_ok (wt_service (segment_step w e))" "map_of (px_records (wt_service (segment_step w e))) rid = Some r1"
      "moves_on r r1" "settled r \<and> \<not> awaited rid w \<longrightarrow> advance r r1 \<and> settled r1 \<and> \<not> awaited rid (segment_step w e)"
    using Cons.prems by (auto simp: follows_def)
  obtain r2 where "map_of (px_records (wt_service (foldl segment_step (segment_step w e) es))) rid = Some r2" "moves_on r1 r2"
      "settled r1 \<and> \<not> awaited rid (segment_step w e) \<longrightarrow> advance r1 r2"
    using Cons.IH [OF r1(1, 2)] Cons.prems(3) by auto
  then show ?case using r1(3, 4) moves_on_trans advance_trans by (auto intro!: exI [of _ r2])
qed simp

section \<open>Payments only advance\<close>

text \<open>C16: A tracked payment, not registered again under its id, only advances. When the operations run one at a time
  (no other operation touches the service while a scan, an attempt or a manual retry waits for the chain), whatever
  sequence of registrations, scans, recoveries, manual retries, resolutions and configuration changes follows, the payment
  keeps its identity, never goes back to pending, stays resolved once resolved and can leave the abandoned state only
  by being marked resolved; settled payments are not retried and no payment is retried more than ten times. When the
  operations interleave at their awaits in any way, it still keeps its identity, never goes back to pending and never loses an
  attempt; and if it is settled and no call is waiting on it, it stays settled as above. (A payment settled while a call does
  wait on it is overwritten: \<open>resolution_lost_while_waiting\<close>.)\<close>

theorem payments_only_advance:
  assumes "px_ok s" "map_of (px_records s) rid = Some r" "\<forall>e\<in>set es. \<not> registers rid e"
    and "wt_service w = s" "\<forall>e\<in>set segments. \<not> starts rid e"
  shows "(\<exists>r'. map_of (px_records (foldl timeout_step s es)) rid = Some r' \<and> advance r r' \<and> pt_recoveryAttempts r' \<le> 10)
    \<and> (\<exists>r'. map_of (px_records (wt_service (foldl segment_step w segments))) rid = Some r' \<and> moves_on r r'
          \<and> (settled r \<and> \<not> awaited rid w \<longrightarrow> advance r r'))"
proof
  have "\<exists>r'. map_of (px_records (foldl timeout_step s es)) rid = Some r' \<and> advance r r'"
    using assms(1-3)
  proof (induction es arbitrary: s r)
    case (Cons e es)
    obtain r1 where r1: "map_of (px_records (timeout_step s e)) rid = Some r1" "advance r r1"
      using step_advances [OF Cons.prems(1, 2)] Cons.prems(3) by auto
    obtain r2 where "map_of (px_records (foldl timeout_step (timeout_step s e) es)) rid = Some r2" "advance r1 r2"
      using Cons.IH [OF px_ok_step [OF Cons.prems(1)] r1(1)] Cons.prems(3) by auto
    then show ?case using advance_trans [OF r1(2)] by auto
  qed simp
  then show "\<exists>r'. map_of (px_records (foldl timeout_step s es)) rid = Some r' \<and> advance r r' \<and> pt_recoveryAttempts r' \<le> 10"
    using px_okD [OF timeouts.run_inv [OF assms(1)]] by blast
  show "\<exists>r'. map_of (px_records (wt_service (foldl segment_step w segments))) rid = Some r' \<and> moves_on r r'
      \<and> (settled r \<and> \<not> awaited rid w \<longrightarrow> advance r r')"
    by (rule segments_follow) (use assms px_ids_ok in auto)
qed

definition demo_timeouts :: PaymentTimeoutService where
  "demo_timeouts = foldl timeout_step (newPaymentTimeoutService None)
     [Register ''t1'' 0 ''ch1'' ''s1'' 2 1000 (Some ''0xabc''), Scan 120000 None]"

definition demo_payment :: PaymentTimeoutRecord where
  "demo_payment = \<lparr>pt_id = ''t1'', pt_chargeId = ''ch1'', pt_subscriptionId = ''s1'', pt_chainId = 2,
     pt_status = TxTimedOut, pt_submittedAt = 0, pt_timedOutAt = Some 120000, pt_lastRecoveryAt = None, pt_recoveryAttempts = 0,
     pt_lastGasPrice = 1000, pt_txHash = Some ''0xabc'', pt_note = ''timeout_detected'', pt_createdAt = 0, pt_updatedAt = 120000\<rparr>"

lemma demo_timeouts_eq:
  "demo_timeouts = \<lparr>px_records = [(''t1'', demo_payment)], px_byCharge = [(''ch1'', ''t1'')], px_bySub = [(''s1'', [''t1''])],
     px_chainConfigs = DEFAULT_CHAIN_CONFIGS, px_alerting = None\<rparr>"
  by (simp add: demo_timeouts_def newPaymentTimeoutService_def pt_registerPending_def detectTimeouts_def Let_def demo_payment_def
      obj_keys_def scan_record_def scan_answer_def overdue_def asked_confirmed_def timed_out_def getChainConfig_def obj_or_def
      dispatchTimeoutAlert_def pt_notify_def put_record_def DEFAULT_CHAIN_CONFIGS_def)

lemma demo_timeouts_record: "map_of (px_records demo_timeouts) ''t1'' = Some demo_payment"
  by (simp add: demo_timeouts_eq)

lemma demo_timeouts_ok: "px_ok demo_timeouts"
  unfolding demo_timeouts_def by (rule timeouts.run_inv [OF px_ok_new])

lemma payments_only_advance_witness:
  "(\<exists>r'. map_of (px_records (foldl timeout_step demo_timeouts [Resolve 130000 ''ch1'' ''seen'', RecoverAll 140000 None])) ''t1'' = Some r'
     \<and> pt_recoveryAttempts r' \<le> 10)
   \<and> (\<exists>r'. map_of (px_records (wt_service (foldl segment_step (nothing_waits demo_timeouts)
        [SBegin 130000 ''ch1'', SResolve 130001 ''ch1'' ''seen'', SReorg 130002 0 False]))) ''t1'' = Some r' \<and> moves_on demo_payment r')"
  using payments_only_advance [OF demo_timeouts_ok demo_timeouts_record, of "[Resolve 130000 ''ch1'' ''seen'', RecoverAll 140000 None]"
      "nothing_waits demo_timeouts" "[SBegin 130000 ''ch1'', SResolve 130001 ''ch1'' ''seen'', SReorg 130002 0 False]"]
  by (auto simp: nothing_waits_def)

section \<open>Repeated sweeps\<close>

text \<open>Every record under its own charge, as after registering each charge once.\<close>

definition well_indexed :: "PaymentTimeoutService \<Rightarrow> bool" where
  "well_indexed s \<longleftrightarrow> obj_ok (px_records s) \<and> (\<forall>rid r. map_of (px_records s) rid = Some r \<longrightarrow>
     pt_id r = rid \<and> rid \<noteq> '''' \<and> map_of (px_byCharge s) (pt_chargeId r) = Some rid)"

lemma well_indexed_new: "well_indexed (newPaymentTimeoutService alerting)"
  by (simp add: well_indexed_def newPaymentTimeoutService_def)

lemma well_indexed_register:
  assumes "well_indexed s" "uid \<noteq> ''''" "map_of (px_records s) uid = None" "\<forall>rid r. map_of (px_records s) rid = Some r \<longrightarrow> pt_chargeId r \<noteq> ch"
  shows "well_indexed (snd (pt_registerPending uid now ch sub k gas h s))"
  using assms by (auto simp: well_indexed_def pt_registerPending_def Let_def)

definition quiet :: "ChainStatusProvider option \<Rightarrow> bool" where
  "quiet provider \<longleftrightarrow> (\<forall>r c. \<not> asked_reorg provider r c)"

text \<open>What one sweep does to one record.\<close>

definition sweep_record :: "int \<Rightarrow> PaymentTimeoutService \<Rightarrow> PaymentTimeoutRecord \<Rightarrow> PaymentTimeoutRecord" where
  "sweep_record now s r =
     (if \<not> stuck r then r
      else let c = getChainConfig (pt_chainId r) s
        in if cc_maxRecoveryAttempts c \<le> pt_recoveryAttempts r then abandoned_now now r else retried now c r)"

lemma sweep_record_keeps [simp]:
  "pt_id (sweep_record now s r) = pt_id r" "pt_chargeId (sweep_record now s r) = pt_chargeId r"
  "pt_chainId (sweep_record now s r) = pt_chainId r"
  by (simp_all add: sweep_record_def Let_def abandoned_now_def retried_def)













section \<open>Manual retries\<close>

lemma raises: "0 \<le> gas \<Longrightarrow> 10000 \<le> gas * cc_gasBumpBps c \<Longrightarrow> gas < bumped c gas"
proof -
  assume a: "0 \<le> gas" "10000 \<le> gas * cc_gasBumpBps c"
  then have "gas * (10000 + cc_gasBumpBps c) = gas * 10000 + gas * cc_gasBumpBps c" "0 \<le> gas * (10000 + cc_gasBumpBps c)"
    by (simp_all add: algebra_simps)
  then have "bumped c gas = gas + gas * cc_gasBumpBps c div 10000"
    using a by (simp add: bumped_def signed_divide_int_def)
  moreover have "1 \<le> gas * cc_gasBumpBps c div 10000" using a(2) by (simp add: zdiv_mono1 [of 10000 _ 10000, simplified])
  ultimately show ?thesis by simp
qed

lemma manual_price_least: "requested \<le> manual_price c requested gas"
  by (simp add: manual_price_def)

text \<open>A manual retry of a payment that is not settled takes a charge out of the pending state without waiting for
  its timeout; the price asked for, raised to the least bump if below, is bumped once more before it is used, so the
  user pays more than asked; when the chain reports a reorganisation nothing is sent, but the raised price is kept as
  the last one.\<close>

theorem manual_retry_bumps_twice:
  assumes "px_ok s" "px_getRecord ch s = Some r" "pt_status r \<noteq> TxResolved" "pt_status r \<noteq> TxAbandoned"
    and "c = getChainConfig (pt_chainId r) s" "pt_recoveryAttempts r < cc_maxRecoveryAttempts c"
  shows "\<exists>r'. px_getRecord ch (snd (manualRetry now provider ch requested s)) = Some r'
    \<and> (if asked_reorg provider r c
       then fst (manualRetry now provider ch requested s) = Inr None
         \<and> pt_lastGasPrice r' = manual_price c requested (pt_lastGasPrice r) \<and> pt_recoveryAttempts r' = pt_recoveryAttempts r
         \<and> pt_status r' = TxTimedOut
       else (\<exists>res. fst (manualRetry now provider ch requested s) = Inr (Some res) \<and> rs_newGasPrice res = pt_lastGasPrice r')
         \<and> pt_lastGasPrice r' = bumped c (manual_price c requested (pt_lastGasPrice r))
         \<and> pt_recoveryAttempts r' = pt_recoveryAttempts r + 1 \<and> pt_status r' = TxRecovering
         \<and> (0 \<le> requested \<and> 0 \<le> cc_gasBumpBps c \<and> 10000 \<le> requested * cc_gasBumpBps c \<longrightarrow> requested < pt_lastGasPrice r'))"
proof -
  obtain rid where rid: "map_of (px_byCharge s) ch = Some rid" "rid \<noteq> ''''" "map_of (px_records s) rid = Some r"
    using assms(2) by (auto simp: px_getRecord_def split: option.splits if_splits)
  have id: "pt_id r = rid" using px_okD [OF assms(1) rid(3)] by simp
  define g where "g = manual_price c requested (pt_lastGasPrice r)"
  define q where "q = r\<lparr>pt_lastGasPrice := g, pt_status := TxTimedOut\<rparr>"
  have qid: "pt_id q = rid" "pt_chainId q = pt_chainId r" "pt_recoveryAttempts q = pt_recoveryAttempts r" "pt_txHash q = pt_txHash r" "stuck q"
    by (simp_all add: q_def id stuck_def)
  have cfg: "getChainConfig (pt_chainId r) (put_record q s) = c" by (simp add: getChainConfig_def assms(5))
  have ask: "asked_reorg provider q c = asked_reorg provider r c" unfolding asked_reorg_def known_hash_def qid ..
  have beg: "recovery_begin now ch (put_record q s) = (Some (q, c), put_record q s)"
    using assms(6) by (simp add: recovery_begin_def px_getRecord_def rid qid cfg)
  have run: "manualRetry now provider ch requested s =
      (case recovery_end now (asked_reorg provider r c) c rid (put_record q s) of (res, s') \<Rightarrow> (Inr res, s'))"
    using assms(3, 4) rid assms(2)
    by (simp add: manualRetry_def Let_def assms(5) [symmetric] g_def [symmetric] q_def [symmetric] attemptRecovery_def beg ask qid)
  have ends: "pt_id (deferred now q) = rid" "pt_status (deferred now q) = TxTimedOut" "pt_lastGasPrice (deferred now q) = g"
      "pt_id (retried now c q) = rid" "pt_status (retried now c q) = TxRecovering" "pt_lastGasPrice (retried now c q) = bumped c g"
    by (simp_all add: deferred_def retried_def q_def id)
  have more: "requested < bumped c g" if "0 \<le> requested" "0 \<le> cc_gasBumpBps c" "10000 \<le> requested * cc_gasBumpBps c"
  proof -
    have "requested \<le> g" by (simp add: g_def manual_price_least)
    moreover from this have "10000 \<le> g * cc_gasBumpBps c" using that mult_right_mono [of requested g "cc_gasBumpBps c"] by linarith
    ultimately show ?thesis using raises [of g c] that(1) by simp
  qed
  show ?thesis
    unfolding run g_def [symmetric] using more
    by (cases "asked_reorg provider r c") (simp_all add: recovery_end_def qid rid ends Let_def dispatch_defs px_getRecord_def)
qed

lemma manual_retry_bumps_twice_witness:
  "\<exists>r'. px_getRecord ''ch1'' (snd (manualRetry 0 None ''ch1'' 2000 demo_timeouts)) = Some r' \<and> pt_lastGasPrice r' = 2200"
proof -
  have g: "px_getRecord ''ch1'' demo_timeouts = Some demo_payment" by (simp add: px_getRecord_def demo_timeouts_eq)
  have c: "getChainConfig 2 demo_timeouts = \<lparr>cc_chainId = 2, cc_timeoutSecs = 120, cc_gasBumpBps = 1000, cc_maxRecoveryAttempts = 3, cc_reorgSafetyLedgers = 1\<rparr>"
    by (simp add: getChainConfig_def demo_timeouts_eq DEFAULT_CHAIN_CONFIGS_def obj_or_def)
  show ?thesis
    using manual_retry_bumps_twice [OF demo_timeouts_ok g _ _ refl, of 0 None 2000]
    by (auto simp: c demo_payment_def asked_reorg_def bumped_def manual_price_def min_bumped_def signed_divide_int_def)
qed

section \<open>Answers that come late\<close>

text \<open>When a payment is marked resolved while an attempt, or a scan, waits for the chain's answer, the operation
  that continues overwrites it: the attempt raises the gas price and leaves the payment recovering, the scan leaves it
  timed out, so a confirmed payment is sent again.\<close>

theorem resolution_lost_while_waiting:
  assumes "px_ok s" "px_getRecord ch s = Some r" "s1 = snd (markResolved now ch msg s)"
  shows "(\<exists>r1. px_getRecord ch s1 = Some r1 \<and> pt_status r1 = TxResolved)
    \<and> (\<forall>c s0. recovery_begin t ch s = (Some (r, c), s0) \<longrightarrow> s0 = s \<and>
         (\<exists>r2. px_getRecord ch (snd (recovery_end t' False c (pt_id r) s1)) = Some r2 \<and> pt_status r2 = TxRecovering
            \<and> pt_recoveryAttempts r2 = pt_recoveryAttempts r + 1 \<and> pt_lastGasPrice r2 = bumped c (pt_lastGasPrice r)))
    \<and> (overdue t r s \<longrightarrow>
         (\<exists>r2. px_getRecord ch (snd (scan_answer t False (pt_id r) s1)) = Some r2 \<and> pt_status r2 = TxTimedOut))"
proof -
  obtain rid where rid: "map_of (px_byCharge s) ch = Some rid" "rid \<noteq> ''''" "map_of (px_records s) rid = Some r"
    using assms(2) by (auto simp: px_getRecord_def split: option.splits if_splits)
  have id: "pt_id r = rid" using px_okD [OF assms(1) rid(3)] by simp
  define q where "q = resolved_now now msg r"
  have q: "pt_id q = rid" "pt_status q = TxResolved" "pt_recoveryAttempts q = pt_recoveryAttempts r" "pt_lastGasPrice q = pt_lastGasPrice r"
    by (simp_all add: q_def resolved_now_def id)
  have s1: "s1 = put_record q s" unfolding assms(3) markResolved_def resolveRecord_def assms(2) by (simp add: q_def)
  have ends: "pt_id (retried t' c q) = rid" "pt_status (retried t' c q) = TxRecovering" "pt_lastGasPrice (retried t' c q) = bumped c (pt_lastGasPrice r)"
      "pt_id (timed_out t q) = rid" "pt_status (timed_out t q) = TxTimedOut" for c
    by (simp_all add: retried_def timed_out_def q)
  show ?thesis unfolding s1
  proof (intro conjI allI impI)
    show "\<exists>r1. px_getRecord ch (put_record q s) = Some r1 \<and> pt_status r1 = TxResolved"
      by (simp add: px_getRecord_def rid q)
    show "s0 = s" if "recovery_begin t ch s = (Some (r, c), s0)" for c s0
      using recovery_begin_cases [OF that] by blast
    show "\<exists>r2. px_getRecord ch (snd (recovery_end t' False c (pt_id r) (put_record q s))) = Some r2 \<and> pt_status r2 = TxRecovering
        \<and> pt_recoveryAttempts r2 = pt_recoveryAttempts r + 1 \<and> pt_lastGasPrice r2 = bumped c (pt_lastGasPrice r)" for c
      by (simp add: px_getRecord_def rid id q ends recovery_end_def Let_def dispatch_defs)
    show "\<exists>r2. px_getRecord ch (snd (scan_answer t False (pt_id r) (put_record q s))) = Some r2 \<and> pt_status r2 = TxTimedOut"
      by (simp add: px_getRecord_def rid id q ends scan_answer_def dispatch_defs)
  qed
qed

lemma resolution_lost_while_waiting_witness:
  "\<exists>r2. px_getRecord ''ch1'' (snd (recovery_end 2 False (getChainConfig 2 demo_timeouts) ''t1''
     (snd (markResolved 1 ''ch1'' ''seen'' demo_timeouts)))) = Some r2 \<and> pt_status r2 = TxRecovering \<and> pt_lastGasPrice r2 = 1100"
proof -
  have g: "px_getRecord ''ch1'' demo_timeouts = Some demo_payment" by (simp add: px_getRecord_def demo_timeouts_eq)
  have c: "getChainConfig 2 demo_timeouts = \<lparr>cc_chainId = 2, cc_timeoutSecs = 120, cc_gasBumpBps = 1000, cc_maxRecoveryAttempts = 3, cc_reorgSafetyLedgers = 1\<rparr>"
    by (simp add: getChainConfig_def demo_timeouts_eq DEFAULT_CHAIN_CONFIGS_def obj_or_def)
  have b: "recovery_begin 0 ''ch1'' demo_timeouts = (Some (demo_payment, getChainConfig 2 demo_timeouts), demo_timeouts)"
    by (simp add: recovery_begin_def g c) (simp add: demo_payment_def stuck_def c)
  have p: "pt_id demo_payment = ''t1''" "pt_lastGasPrice demo_payment = 1000" by (simp_all add: demo_payment_def)
  have gas: "bumped (getChainConfig 2 demo_timeouts) (pt_lastGasPrice demo_payment) = 1100"
    by (simp add: c bumped_def signed_divide_int_def p)
  obtain r2 where "px_getRecord ''ch1'' (snd (recovery_end 2 False (getChainConfig 2 demo_timeouts) (pt_id demo_payment)
     (snd (markResolved 1 ''ch1'' ''seen'' demo_timeouts)))) = Some r2" "pt_status r2 = TxRecovering"
     "pt_lastGasPrice r2 = bumped (getChainConfig 2 demo_timeouts) (pt_lastGasPrice demo_payment)"
    using resolution_lost_while_waiting [OF demo_timeouts_ok g refl, of 1 "''seen''" 0 2] b by blast
  then show ?thesis unfolding p(1) gas by blast
qed

text \<open>Two payments registered for one charge: the older is never retried, the newer twice in one sweep.\<close>

lemma shared_charge_retried_twice:
  assumes "px_records s = [(a, ra), (b, rb)]" "map_of (px_byCharge s) ch = Some b" "b \<noteq> ''''" "a \<noteq> b" "pt_id rb = b"
    and "pt_chargeId ra = ch" "pt_chargeId rb = ch" "stuck ra" "stuck rb" "quiet provider"
    and "pt_recoveryAttempts rb + 1 < cc_maxRecoveryAttempts (getChainConfig (pt_chainId rb) s)"
  shows "\<exists>rb'. px_records (snd (autoRecoverAll now provider s)) = [(a, ra), (b, rb')] \<and> pt_recoveryAttempts rb' = pt_recoveryAttempts rb + 2"
proof -
  have nq: "\<not> asked_reorg provider r c" for r c using assms(10) by (simp add: quiet_def)
  have get: "px_getRecord ch s = Some rb" using assms(4) by (auto simp: px_getRecord_def assms(1-3))
  define c where "c = getChainConfig (pt_chainId rb) s"
  define r1 where "r1 = retried now c rb"
  have r1: "pt_id r1 = b" "pt_chargeId r1 = ch" "stuck r1" "pt_chainId r1 = pt_chainId rb" "pt_recoveryAttempts r1 = pt_recoveryAttempts rb + 1"
    by (simp_all add: r1_def retried_def assms stuck_def)
  obtain found s1 where 1: "attemptRecovery now provider ch s = (found, s1)" by fastforce
  have "attemptRecovery now provider ch s = recovery_end now False c b s"
    using assms(11) nq by (simp add: attemptRecovery_def recovery_begin_def get assms(5, 9) c_def Let_def)
  then have s1: "px_records s1 = [(a, ra), (b, r1)]" "px_byCharge s1 = px_byCharge s" "px_chainConfigs s1 = px_chainConfigs s"
    using 1 assms(4) r1(1) by (auto simp: recovery_end_def assms(1) Let_def r1_def dispatch_defs)
  obtain found2 s2 where 2: "attemptRecovery now provider ch s1 = (found2, s2)" by fastforce
  have cfg: "getChainConfig (pt_chainId rb) s1 = c" by (simp add: getChainConfig_def s1 c_def)
  have get1: "px_getRecord ch s1 = Some r1" using assms(4) by (auto simp: px_getRecord_def assms(1-3) s1)
  have "attemptRecovery now provider ch s1 = recovery_end now False c b s1"
    using assms(11) nq by (simp add: attemptRecovery_def recovery_begin_def get1 r1 cfg c_def [symmetric] Let_def)
  then have s2: "px_records s2 = [(a, ra), (b, retried now c r1)]"
    using 2 assms(4) r1(1) by (auto simp: recovery_end_def s1(1) Let_def dispatch_defs retried_def)
  have "snd (autoRecoverAll now provider s) = s2"
    using assms(4) by (simp add: autoRecoverAll_def obj_keys_def assms(1, 6, 8) 1 s1(1) r1 2 split: prod.splits)
  then show ?thesis using s2 r1(5) by simp
qed

end
