(* ===== verification/Promotion.thy ===== *)
theory Promotion
  imports Proration "HOL-Library.Multiset"
begin

text \<open>
  Coupons and stacked promotions, \<^verbatim>\<open>src/utils/promotionEngine.ts\<close> over the types of
  \<^verbatim>\<open>src/types/campaign.ts\<close>. Amounts are exact rationals; a buy-and-get offer whose set is empty divides by zero,
  and the number that is not one which then spreads through the code is the value None here.
\<close>

section \<open>Types\<close>

datatype DiscountType = PERCENTAGE | FIXED_AMOUNT | FREE_MONTHS | BOGO
datatype StackingRule = NO_STACKING | STACK_WITH_SEGMENT | STACK_WITH_COUPON | FULL_STACKING
datatype TargetAudience = NEW_CUSTOMERS | EXISTING_CUSTOMERS | ALL_CUSTOMERS | SPECIFIC_SEGMENTS | SPECIFIC_PLANS

datatype AutomationTrigger = SUBSCRIPTION_CREATED | SUBSCRIPTION_RENEWED | SUBSCRIPTION_CANCELLED | PAYMENT_FAILED
  | PAYMENT_SUCCESS | INACTIVE_DAYS | BIRTHDAY | CART_VALUE_THRESHOLD | REFERRAL_SIGNUP

record CouponCode =
  co_code :: string
  co_maxUses :: int
  co_usedCount :: int
  co_maxUsesPerUser :: int
  co_expiresAt :: "int option"
  co_isActive :: bool

record PromotionRule =
  pu_discountType :: DiscountType
  pu_discountValue :: rat
  pu_planIds :: "string list option"
  pu_minPurchaseAmount :: "rat option"
  pu_maxDiscountAmount :: "rat option"
  pu_minQuantity :: "int option"
  pu_maxQuantity :: "int option"
  pu_bogoBuyQuantity :: "nat option"
  pu_bogoGetQuantity :: "nat option"

record RedemptionContext =
  rx_planId :: "string option"
  rx_purchaseAmount :: rat
  rx_quantity :: "int option"
  rx_userRedemptionCount :: int
  rx_billingPeriodEnd :: "int option"

record StackingConfig =
  sk_rule :: StackingRule
  sk_priority :: int
  sk_maxStackingDepth :: "int option"

record Campaign =
  ca_id :: string
  ca_name :: string
  ca_automations :: "AutomationTrigger list option"
  ca_couponRedemptions :: "rat option"
  ca_promotionRule :: "PromotionRule option"
  ca_audience :: "TargetAudience option"
  ca_stackingConfig :: "StackingConfig option"
  ca_maxRedemptions :: "int option"
  ca_currentRedemptions :: "int option"

record CouponValidation =
  cv_isValid :: bool
  cv_campaign :: "Campaign option"
  cv_coupon :: "CouponCode option"
  cv_discountAmount :: "rat option"
  cv_finalPrice :: "rat option"
  cv_error :: "string option"
  cv_warnings :: "string list option"

section \<open>Discounts\<close>

definition raw_discount :: "PromotionRule \<Rightarrow> rat \<Rightarrow> int \<Rightarrow> rat option" where
  "raw_discount rule price quantity =
     (case pu_discountType rule of
        PERCENTAGE \<Rightarrow> Some (price * (pu_discountValue rule / 100))
      | FIXED_AMOUNT \<Rightarrow> Some (pu_discountValue rule)
      | FREE_MONTHS \<Rightarrow> Some (price * pu_discountValue rule)
      | BOGO \<Rightarrow>
          (let buyQty = the_or (pu_bogoBuyQuantity rule) 1; getQty = the_or (pu_bogoGetQuantity rule) 1;
               unitPrice = (if 0 < quantity then price / of_int quantity else 0)
           in if buyQty + getQty = 0 then None
              else Some (unitPrice * of_int (quantity div int (buyQty + getQty) * int getQty) * (pu_discountValue rule / 100))))"

definition rule_discount :: "PromotionRule \<Rightarrow> rat \<Rightarrow> int \<Rightarrow> rat option" where
  "rule_discount rule price quantity =
     map_option (\<lambda>raw. max 0 (min (case pu_maxDiscountAmount rule of None \<Rightarrow> raw | Some m \<Rightarrow> min raw m) price))
       (raw_discount rule price quantity)"

definition calculateDiscountForRule :: "PromotionRule \<Rightarrow> rat \<Rightarrow> int \<Rightarrow> rat option \<times> rat option" where
  "calculateDiscountForRule rule price quantity =
     (rule_discount rule price quantity, map_option (\<lambda>d. cents (price - d)) (rule_discount rule price quantity))"

section \<open>Coupon validation\<close>

text \<open>The long dash of the warning is written as a hyphen.\<close>

definition isRetroactiveRedemption :: "int \<Rightarrow> int \<Rightarrow> bool" where
  "isRetroactiveRedemption billingPeriodEnd now \<longleftrightarrow> billingPeriodEnd < now"

definition invalid :: "string \<Rightarrow> CouponValidation" where
  "invalid e = \<lparr>cv_isValid = False, cv_campaign = None, cv_coupon = None, cv_discountAmount = None, cv_finalPrice = None,
     cv_error = Some e, cv_warnings = None\<rparr>"

definition other_plan :: "PromotionRule \<Rightarrow> RedemptionContext \<Rightarrow> bool" where
  "other_plan rule context \<longleftrightarrow>
     (case (pu_planIds rule, rx_planId context) of
        (Some ids, Some p) \<Rightarrow> ids \<noteq> [] \<and> p \<noteq> '''' \<and> p \<notin> set ids
      | _ \<Rightarrow> False)"

definition over :: "('a \<Rightarrow> bool) \<Rightarrow> 'a option \<Rightarrow> bool" where
  "over p x = (case x of None \<Rightarrow> False | Some a \<Rightarrow> p a)"

definition validateCouponRedemption :: "int \<Rightarrow> Campaign option \<Rightarrow> CouponCode option \<Rightarrow> RedemptionContext \<Rightarrow> CouponValidation" where
  "validateCouponRedemption now campaign coupon context =
     (case (campaign, coupon) of
        (Some ca, Some co) \<Rightarrow>
          if \<not> co_isActive co then invalid ''Coupon is no longer active''
          else if over (\<lambda>t. t < now) (co_expiresAt co) then invalid ''Coupon has expired''
          else if co_maxUses co \<le> co_usedCount co then invalid ''Coupon has reached its maximum number of uses''
          else if co_maxUsesPerUser co \<le> rx_userRedemptionCount context
          then invalid ''You have already used this coupon the maximum number of times''
          else (case ca_promotionRule ca of
              None \<Rightarrow> invalid ''Campaign has no promotion rule configured''
            | Some rule \<Rightarrow>
                let quantity = the_or (rx_quantity context) 1
                in if other_plan rule context then invalid ''Coupon is not valid for this plan''
                else if over (\<lambda>m. rx_purchaseAmount context < m) (pu_minPurchaseAmount rule)
                then invalid (''Minimum purchase amount of '' @ show_num (the_or (pu_minPurchaseAmount rule) 0) @ '' not met'')
                else if over (\<lambda>m. quantity < m) (pu_minQuantity rule)
                then invalid (''Minimum quantity of '' @ show_int (the_or (pu_minQuantity rule) 0) @ '' required'')
                else if over (\<lambda>m. m < quantity) (pu_maxQuantity rule)
                then invalid (''Maximum quantity of '' @ show_int (the_or (pu_maxQuantity rule) 0) @ '' exceeded'')
                else if over (\<lambda>m. m \<le> the_or (ca_currentRedemptions ca) 0) (ca_maxRedemptions ca)
                then invalid ''Campaign has reached its redemption budget''
                else \<lparr>cv_isValid = True, cv_campaign = Some ca, cv_coupon = Some co,
                      cv_discountAmount = fst (calculateDiscountForRule rule (rx_purchaseAmount context) quantity),
                      cv_finalPrice = snd (calculateDiscountForRule rule (rx_purchaseAmount context) quantity),
                      cv_error = None,
                      cv_warnings = (if over (\<lambda>t. isRetroactiveRedemption t now) (rx_billingPeriodEnd context)
                        then Some [''Billing period has already closed - this will be applied as a credit memo, not a discount.'']
                        else None)\<rparr>)
      | _ \<Rightarrow> invalid ''Coupon code not found'')"

section \<open>Stacking\<close>

definition priority_of :: "Campaign \<Rightarrow> int" where
  "priority_of c = (case ca_stackingConfig c of None \<Rightarrow> 0 | Some k \<Rightarrow> sk_priority k)"

definition stands_alone :: "Campaign \<Rightarrow> bool" where
  "stands_alone c = (case ca_stackingConfig c of None \<Rightarrow> False | Some k \<Rightarrow> sk_rule k = NO_STACKING)"

text \<open>A depth of zero counts as none.\<close>

definition depth_limit :: "Campaign \<Rightarrow> int option" where
  "depth_limit c = (case ca_stackingConfig c of None \<Rightarrow> None
     | Some k \<Rightarrow> (case sk_maxStackingDepth k of None \<Rightarrow> None | Some d \<Rightarrow> if d = 0 then None else Some d))"

definition by_priority :: "Campaign list \<Rightarrow> Campaign list" where
  "by_priority campaigns = sort_key priority_of campaigns"

definition resolveStackableCampaigns :: "Campaign list \<Rightarrow> Campaign list" where
  "resolveStackableCampaigns campaigns =
     (if campaigns = [] then []
      else let sorted = by_priority campaigns
        in case js_find stands_alone sorted of
             Some c \<Rightarrow> [c]
           | None \<Rightarrow>
               let maxDepth = foldl (\<lambda>least c. case depth_limit c of None \<Rightarrow> least | Some d \<Rightarrow> min least d) (int (length sorted)) sorted
               in js_slice 0 maxDepth sorted)"

record StackedDiscountBreakdown =
  sd_campaignId :: string
  sd_discountType :: DiscountType
  sd_amount :: "rat option"

record StackedDiscountResult =
  sr_finalPrice :: "rat option"
  sr_totalDiscount :: "rat option"
  sr_breakdown :: "StackedDiscountBreakdown list"
  sr_cappedAt100Percent :: bool

text \<open>The loop over the applicable campaigns: the breakdown, and the total discount, from a running price.\<close>

fun stack_discounts :: "int \<Rightarrow> (string \<times> PromotionRule) list \<Rightarrow> rat option \<Rightarrow> rat option \<Rightarrow> StackedDiscountBreakdown list \<times> rat option" where
  "stack_discounts quantity [] running acc = ([], acc)"
| "stack_discounts quantity ((cid, rule) # rest) running acc =
     (let d = Option.bind running (\<lambda>p. rule_discount rule p quantity);
          running1 = Option.bind running (\<lambda>p. map_option (\<lambda>a. max 0 (p - a)) d);
          acc1 = Option.bind acc (\<lambda>t. map_option (\<lambda>a. t + a) d)
      in case stack_discounts quantity rest running1 acc1 of
           (breakdown, result) \<Rightarrow>
             (\<lparr>sd_campaignId = cid, sd_discountType = pu_discountType rule, sd_amount = d\<rparr> # breakdown, result))"

definition applicable_rules :: "Campaign list \<Rightarrow> (string \<times> PromotionRule) list" where
  "applicable_rules campaigns =
     List.map_filter (\<lambda>c. map_option (\<lambda>rule. (ca_id c, rule)) (ca_promotionRule c)) (resolveStackableCampaigns campaigns)"

definition calculateStackedDiscount :: "rat \<Rightarrow> Campaign list \<Rightarrow> int \<Rightarrow> StackedDiscountResult" where
  "calculateStackedDiscount originalPrice campaigns quantity =
     (case stack_discounts quantity (applicable_rules campaigns) (Some originalPrice) (Some 0) of
        (breakdown, acc) \<Rightarrow>
          \<lparr>sr_finalPrice = map_option (\<lambda>t. cents (originalPrice - min t originalPrice)) acc,
           sr_totalDiscount = map_option (\<lambda>t. cents (min t originalPrice)) acc,
           sr_breakdown = breakdown,
           sr_cappedAt100Percent = (over (\<lambda>t. originalPrice \<le> t) acc \<and> 0 < originalPrice)\<rparr>)"

section \<open>Automatic promotions, retroactive credit and analytics\<close>

record AutoPromotionTrigger =
  at_cartValue :: "rat option"
  at_planId :: "string option"
  at_isReferral :: "bool option"

definition auto_eligible :: "AutoPromotionTrigger \<Rightarrow> Campaign \<Rightarrow> bool" where
  "auto_eligible trigger c =
     (case ca_promotionRule c of None \<Rightarrow> False
      | Some rule \<Rightarrow>
          let automations = the_or (ca_automations c) []
          in if REFERRAL_SIGNUP \<in> set automations then the_or (at_isReferral trigger) False
             else if CART_VALUE_THRESHOLD \<in> set automations
             then (case (at_cartValue trigger, pu_minPurchaseAmount rule) of
                     (Some v, Some m) \<Rightarrow> m \<le> v | _ \<Rightarrow> False)
             else (case (pu_planIds rule, at_planId trigger) of
                     (Some ids, Some p) \<Rightarrow> ids \<noteq> [] \<and> p \<noteq> '''' \<and> p \<in> set ids | _ \<Rightarrow> False))"

definition checkAutoPromotionEligibility :: "Campaign list \<Rightarrow> AutoPromotionTrigger \<Rightarrow> Campaign list" where
  "checkAutoPromotionEligibility campaigns trigger = filter (auto_eligible trigger) campaigns"

definition buildRetroactiveCreditMemo :: "int \<Rightarrow> string \<Rightarrow> rat \<Rightarrow> string \<Rightarrow> CreditMemo" where
  "buildRetroactiveCreditMemo now subscriptionId discountAmount campaignName =
     generateCreditMemo now subscriptionId discountAmount (''Retroactive promotion credit: '' @ campaignName)"

definition calculatePromotionAnalytics :: "Campaign \<Rightarrow> rat \<times> rat" where
  "calculatePromotionAnalytics c =
     (let redemptions = (case ca_couponRedemptions c of Some n \<Rightarrow> n | None \<Rightarrow> of_int (the_or (ca_currentRedemptions c) 0));
          redemptionRate = (case ca_maxRedemptions c of None \<Rightarrow> 0
            | Some m \<Rightarrow> if m = 0 then 0 else redemptions / of_int m)
      in (of_int (js_round (redemptionRate * 1000)) / 1000,
          if ca_audience c = Some EXISTING_CUSTOMERS \<or> ca_audience c = Some ALL_CUSTOMERS then 1 / 2 else 1 / 20))"

section \<open>Bounds\<close>

definition offer_ok :: "PromotionRule \<Rightarrow> bool" where
  "offer_ok rule \<longleftrightarrow> (pu_discountType rule = BOGO \<longrightarrow> the_or (pu_bogoBuyQuantity rule) 1 + the_or (pu_bogoGetQuantity rule) 1 \<noteq> 0)"

lemma raw_discount_None: "raw_discount rule p n = None \<longleftrightarrow> \<not> offer_ok rule"
  by (cases "pu_discountType rule") (simp_all add: raw_discount_def offer_ok_def Let_def)

lemma rule_discount_bounds:
  assumes "rule_discount rule p n = Some d" "0 \<le> p"
  shows "0 \<le> d \<and> d \<le> p"
  using assms by (auto simp: rule_discount_def)

lemma rule_discount_ok:
  assumes "offer_ok rule" obtains d where "rule_discount rule p n = Some d"
  using assms raw_discount_None [of rule p n] by (cases "raw_discount rule p n") (auto simp: rule_discount_def)

definition discount_sum :: "StackedDiscountBreakdown list \<Rightarrow> rat" where
  "discount_sum bs = sum_list (map (\<lambda>b. the_or (sd_amount b) 0) bs)"

lemma stack_discounts_bounds:
  assumes "\<forall>(cid, rule)\<in>set rules. offer_ok rule" "0 \<le> p"
  shows "\<exists>bs. stack_discounts n rules (Some p) (Some t) = (bs, Some (t + discount_sum bs))
    \<and> map sd_campaignId bs = map fst rules \<and> (\<forall>b\<in>set bs. \<exists>a. sd_amount b = Some a \<and> 0 \<le> a)
    \<and> 0 \<le> discount_sum bs \<and> discount_sum bs \<le> p"
  using assms
proof (induction rules arbitrary: p t)
  case Nil
  then show ?case by (simp add: discount_sum_def)
next
  case (Cons r rules)
  obtain cid rule where r: "r = (cid, rule)" by fastforce
  have ok: "offer_ok rule" using Cons.prems(1) r by simp
  obtain d where d: "rule_discount rule p n = Some d" using rule_discount_ok [OF ok] .
  note b = rule_discount_bounds [OF d Cons.prems(2)]
  have rest: "\<forall>(cid, rule)\<in>set rules. offer_ok rule" "0 \<le> p - d" using Cons.prems(1) b by simp_all
  obtain bs where bs: "stack_discounts n rules (Some (p - d)) (Some (t + d)) = (bs, Some (t + d + discount_sum bs))"
    "map sd_campaignId bs = map fst rules" "\<forall>b\<in>set bs. \<exists>a. sd_amount b = Some a \<and> 0 \<le> a" "0 \<le> discount_sum bs" "discount_sum bs \<le> p - d"
    using Cons.IH [OF rest, of "t + d"] by blast
  show ?case
  proof (intro exI conjI)
    let ?bs = "\<lparr>sd_campaignId = cid, sd_discountType = pu_discountType rule, sd_amount = Some d\<rparr> # bs"
    have s: "discount_sum ?bs = d + discount_sum bs" by (simp add: discount_sum_def)
    show "stack_discounts n (r # rules) (Some p) (Some t) = (?bs, Some (t + discount_sum ?bs))"
      using bs(1) rest(2) by (simp add: r d s max_def ac_simps)
    show "map sd_campaignId ?bs = map fst (r # rules)" using bs(2) r by simp
    show "\<forall>b\<in>set ?bs. \<exists>a. sd_amount b = Some a \<and> 0 \<le> a" using bs(3) b by simp
    show "0 \<le> discount_sum ?bs" "discount_sum ?bs \<le> p" unfolding s using bs(4, 5) b by linarith+
  qed
qed

text \<open>C25: Unless a buy-and-get offer has an empty set, stacked discounts are each not negative, name the campaigns that
  apply in their order, and add up to no more than the price, so the cap never cuts; the final price is the rest to the
  cent, between zero and the price; price and discount reported add up to within a cent; the cap is reported exactly
  when a positive price is discounted entirely.\<close>

theorem stacked_discount_bounds:
  assumes "\<forall>(cid, rule)\<in>set (applicable_rules cs). offer_ok rule" "0 \<le> price"
  shows "\<exists>total. let r = calculateStackedDiscount price cs n in
     total = discount_sum (sr_breakdown r) \<and> 0 \<le> total \<and> total \<le> price
     \<and> map sd_campaignId (sr_breakdown r) = map fst (applicable_rules cs)
     \<and> (\<forall>b\<in>set (sr_breakdown r). \<exists>a. sd_amount b = Some a \<and> 0 \<le> a)
     \<and> sr_finalPrice r = Some (cents (price - total)) \<and> sr_totalDiscount r = Some (cents total)
     \<and> 0 \<le> cents (price - total) \<and> cents (price - total) \<le> cents price
     \<and> \<bar>cents (price - total) + cents total - price\<bar> \<le> 1 / 100
     \<and> (sr_cappedAt100Percent r \<longleftrightarrow> 0 < price \<and> total = price)"
proof -
  obtain bs where bs: "stack_discounts n (applicable_rules cs) (Some price) (Some 0) = (bs, Some (0 + discount_sum bs))"
    "map sd_campaignId bs = map fst (applicable_rules cs)" "\<forall>b\<in>set bs. \<exists>a. sd_amount b = Some a \<and> 0 \<le> a"
    "0 \<le> discount_sum bs" "discount_sum bs \<le> price"
    using stack_discounts_bounds [OF assms, of n 0] by blast
  have m: "min (discount_sum bs) price = discount_sum bs" using bs(5) by simp
  have "cents (price - discount_sum bs) \<le> cents price" by (rule cents_mono) (use bs(4) in simp)
  moreover have "0 \<le> cents (price - discount_sum bs)" by (rule cents_nonneg) (use bs(5) in simp)
  moreover have "\<bar>cents (price - discount_sum bs) + cents (discount_sum bs) - price\<bar> \<le> 1 / 100"
    using cents_close [of "price - discount_sum bs"] cents_close [of "discount_sum bs"] by linarith
  ultimately show ?thesis using bs
    by (intro exI [of _ "discount_sum bs"]) (auto simp: calculateStackedDiscount_def m over_def Let_def)
qed

definition ten_percent :: PromotionRule where
  "ten_percent = \<lparr>pu_discountType = PERCENTAGE, pu_discountValue = 10, pu_planIds = None, pu_minPurchaseAmount = None,
     pu_maxDiscountAmount = None, pu_minQuantity = None, pu_maxQuantity = None, pu_bogoBuyQuantity = None, pu_bogoGetQuantity = None\<rparr>"

definition demo_campaign :: Campaign where
  "demo_campaign = \<lparr>ca_id = ''c1'', ca_name = ''spring'', ca_automations = None, ca_couponRedemptions = None,
     ca_promotionRule = Some ten_percent, ca_audience = None, ca_stackingConfig = None, ca_maxRedemptions = None, ca_currentRedemptions = None\<rparr>"

lemma demo_applicable: "applicable_rules [demo_campaign] = [(''c1'', ten_percent)]"
  by (simp add: applicable_rules_def resolveStackableCampaigns_def by_priority_def js_find_def demo_campaign_def stands_alone_def
      depth_limit_def js_slice_def js_index_def map_filter_simps Let_def)

lemma stacked_discount_bounds_witness:
  "\<exists>t. sr_finalPrice (calculateStackedDiscount 100 [demo_campaign] 1) = Some (cents (100 - t)) \<and> 0 \<le> t \<and> t \<le> 100"
proof -
  have "\<forall>(cid, rule)\<in>set (applicable_rules [demo_campaign]). offer_ok rule"
    by (simp add: demo_applicable offer_ok_def ten_percent_def)
  from stacked_discount_bounds [OF this, of 100 1] show ?thesis unfolding Let_def by auto
qed

section \<open>Which campaigns apply\<close>

lemma js_find_first:
  assumes "js_find P xs = Some x"
  shows "\<exists>i<length xs. x = xs ! i \<and> P x \<and> (\<forall>j<i. \<not> P (xs ! j))"
  using assms by (auto simp: js_find_def find_Some_iff)

lemma least_depth:
  "\<exists>m. foldl (\<lambda>least c. case depth_limit c of None \<Rightarrow> least | Some d \<Rightarrow> min least d) k cs = m \<and> m \<le> k
     \<and> (\<forall>c\<in>set cs. \<forall>d. depth_limit c = Some d \<longrightarrow> m \<le> d) \<and> (m = k \<or> (\<exists>c\<in>set cs. depth_limit c = Some m))"
proof (induction cs arbitrary: k)
  case (Cons c cs)
  show ?case
  proof (cases "depth_limit c")
    case None
    then show ?thesis using Cons.IH [of k] by auto
  next
    case (Some d)
    obtain m where "foldl (\<lambda>least c. case depth_limit c of None \<Rightarrow> least | Some d \<Rightarrow> min least d) (min k d) cs = m"
      "m \<le> min k d" "\<forall>c\<in>set cs. \<forall>d. depth_limit c = Some d \<longrightarrow> m \<le> d" "m = min k d \<or> (\<exists>c\<in>set cs. depth_limit c = Some m)"
      using Cons.IH [of "min k d"] by blast
    then show ?thesis using Some by (auto simp: min_def split: if_splits)
  qed
qed simp

lemma sorted_by_priority: "sorted (map priority_of (by_priority cs))" "set (by_priority cs) = set cs" "mset (by_priority cs) = mset cs"
  by (simp_all add: by_priority_def)

text \<open>One campaign that excludes stacking displaces all others, also those of better priority that may be stacked:
  of the excluding ones the best alone applies. Otherwise the campaigns apply by priority, all of them or as many as the
  least depth any of them allows.\<close>

theorem stacking_resolution:
  assumes "\<forall>c\<in>set cs. \<forall>d. depth_limit c = Some d \<longrightarrow> 0 \<le> d"
  shows "(if \<exists>c\<in>set cs. stands_alone c
     then \<exists>c\<in>set cs. resolveStackableCampaigns cs = [c] \<and> stands_alone c
       \<and> (\<forall>c'\<in>set cs. stands_alone c' \<longrightarrow> priority_of c \<le> priority_of c')
     else \<exists>k. resolveStackableCampaigns cs = take k (sort_key priority_of cs) \<and> k \<le> length cs
       \<and> (\<forall>c\<in>set cs. \<forall>d. depth_limit c = Some d \<longrightarrow> int k \<le> d)
       \<and> (k = length cs \<or> (\<exists>c\<in>set cs. depth_limit c = Some (int k))))"
proof (cases "\<exists>c\<in>set cs. stands_alone c")
  case True
  let ?xs = "by_priority cs"
  have "js_find stands_alone ?xs \<noteq> None" using True by (simp add: js_find_None sorted_by_priority)
  then obtain c where c: "js_find stands_alone ?xs = Some c" by blast
  obtain i where i: "i < length ?xs" "c = ?xs ! i" "stands_alone c" "\<forall>j<i. \<not> stands_alone (?xs ! j)"
    using js_find_first [OF c] by blast
  have "priority_of c \<le> priority_of c'" if c': "c' \<in> set cs" "stands_alone c'" for c'
  proof -
    have "c' \<in> set ?xs" using c'(1) by (simp add: sorted_by_priority)
    then obtain j where j: "j < length ?xs" "c' = ?xs ! j" by (metis in_set_conv_nth)
    then have "i \<le> j" using i(4) c'(2) not_less by blast
    then show ?thesis using sorted_nth_mono [OF sorted_by_priority(1), of i j cs] i j by simp
  qed
  moreover have "c \<in> set cs" using nth_mem [OF i(1)] i(2) by (simp add: sorted_by_priority)
  moreover have "resolveStackableCampaigns cs = [c]" using True by (auto simp: resolveStackableCampaigns_def c)
  ultimately show ?thesis using True i(3) by auto
next
  case False
  let ?xs = "by_priority cs"
  have none: "js_find stands_alone ?xs = None" using False by (simp add: js_find_None sorted_by_priority)
  obtain m where m: "foldl (\<lambda>least c. case depth_limit c of None \<Rightarrow> least | Some d \<Rightarrow> min least d) (int (length ?xs)) ?xs = m"
    "m \<le> int (length ?xs)" "\<forall>c\<in>set ?xs. \<forall>d. depth_limit c = Some d \<longrightarrow> m \<le> d"
    "m = int (length ?xs) \<or> (\<exists>c\<in>set ?xs. depth_limit c = Some m)"
    using least_depth [of "int (length ?xs)" ?xs] by blast
  have pos: "0 \<le> m" using m(4) assms by (auto simp: sorted_by_priority)
  have len: "length ?xs = length cs" by (simp add: by_priority_def)
  have "js_slice 0 (0 + m) ?xs = take (nat m) (drop (nat 0) ?xs)" using js_slice_page [of 0 m ?xs] pos by simp
  then have "resolveStackableCampaigns cs = take (nat m) (sort_key priority_of cs)"
    by (cases "cs = []") (simp_all add: resolveStackableCampaigns_def none m(1) by_priority_def [symmetric])
  moreover have "nat m \<le> length cs" "\<forall>c\<in>set cs. \<forall>d. depth_limit c = Some d \<longrightarrow> int (nat m) \<le> d"
    "nat m = length cs \<or> (\<exists>c\<in>set cs. depth_limit c = Some (int (nat m)))"
    using m pos len by (auto simp: sorted_by_priority)
  ultimately show ?thesis unfolding if_not_P [OF False] by (intro exI [of _ "nat m"] conjI)
qed

definition exclusive_campaign :: Campaign where
  "exclusive_campaign = demo_campaign\<lparr>ca_id := ''c2'',
     ca_stackingConfig := Some \<lparr>sk_rule = NO_STACKING, sk_priority = 9, sk_maxStackingDepth = None\<rparr>\<rparr>"

lemma stacking_resolution_witness:
  "resolveStackableCampaigns [demo_campaign, exclusive_campaign] = [exclusive_campaign]"
proof -
  have alone: "stands_alone exclusive_campaign" "\<not> stands_alone demo_campaign"
    by (simp_all add: stands_alone_def exclusive_campaign_def demo_campaign_def)
  have "\<forall>c\<in>set [demo_campaign, exclusive_campaign]. \<forall>d. depth_limit c = Some d \<longrightarrow> 0 \<le> d"
    by (simp add: depth_limit_def exclusive_campaign_def demo_campaign_def)
  from stacking_resolution [OF this] alone show ?thesis by auto
qed

section \<open>Percentages\<close>

text \<open>A campaign that takes an uncapped percentage and stacks without limit.\<close>

definition plain_percentage :: "Campaign \<Rightarrow> bool" where
  "plain_percentage c \<longleftrightarrow> \<not> stands_alone c \<and> depth_limit c = None \<and>
     (case ca_promotionRule c of None \<Rightarrow> False
      | Some rule \<Rightarrow> pu_discountType rule = PERCENTAGE \<and> pu_maxDiscountAmount rule = None
          \<and> 0 \<le> pu_discountValue rule \<and> pu_discountValue rule \<le> 100)"

definition kept_share :: "Campaign \<Rightarrow> rat" where
  "kept_share c = (case ca_promotionRule c of None \<Rightarrow> 1 | Some rule \<Rightarrow> 1 - pu_discountValue rule / 100)"

lemma percentage_discount:
  assumes "plain_percentage c" "ca_promotionRule c = Some rule" "0 \<le> p"
  shows "rule_discount rule p n = Some (p - p * kept_share c) \<and> 0 \<le> p * kept_share c"
proof -
  have v: "0 \<le> pu_discountValue rule / 100" "pu_discountValue rule / 100 \<le> 1" "pu_discountType rule = PERCENTAGE" "pu_maxDiscountAmount rule = None"
    using assms(1, 2) by (simp_all add: plain_percentage_def)
  have "p * (pu_discountValue rule / 100) \<le> p * 1" using v(2) assms(3) by (rule mult_left_mono)
  moreover have "0 \<le> p * (pu_discountValue rule / 100)" using assms(3) v(1) by (rule mult_nonneg_nonneg)
  moreover have "p - p * kept_share c = p * (pu_discountValue rule / 100)" by (simp add: kept_share_def assms(2) algebra_simps)
  ultimately show ?thesis by (simp add: rule_discount_def raw_discount_def v(3, 4))
qed

lemma stack_percentages:
  assumes "\<forall>c\<in>set cs. plain_percentage c" "0 \<le> p"
  shows "snd (stack_discounts n (List.map_filter (\<lambda>c. map_option (\<lambda>rule. (ca_id c, rule)) (ca_promotionRule c)) cs) (Some p) (Some t))
    = Some (t + p - p * prod_list (map kept_share cs)) \<and> 0 \<le> p * prod_list (map kept_share cs) \<and> p * prod_list (map kept_share cs) \<le> p"
  using assms
proof (induction cs arbitrary: p t)
  case (Cons c cs)
  obtain rule where rule: "ca_promotionRule c = Some rule" using Cons.prems(1) by (auto simp: plain_percentage_def split: option.splits)
  let ?q = "p * kept_share c"
  note d = percentage_discount [OF _ rule Cons.prems(2), of n]
  have d: "rule_discount rule p n = Some (p - ?q)" "0 \<le> ?q" using d Cons.prems(1) by simp_all
  have le: "?q \<le> p" using rule_discount_bounds [OF d(1) Cons.prems(2)] by simp
  have "\<forall>c\<in>set cs. plain_percentage c" using Cons.prems(1) by simp
  note ih = Cons.IH [OF this d(2), of "t + (p - ?q)"]
  have max: "max 0 (p - (p - ?q)) = ?q" using d(2) by simp
  have "t + (p - ?q) + ?q - ?q * prod_list (map kept_share cs) = t + p - p * prod_list (map kept_share (c # cs))" by (simp add: mult.assoc)
  then show ?case using ih le d(2)
    by (simp add: map_filter_simps rule d(1) max Let_def case_prod_beta mult.assoc)
qed (simp add: map_filter_simps)

lemma no_limit: "\<forall>c\<in>set cs. depth_limit c = None \<Longrightarrow>
  foldl (\<lambda>least c. case depth_limit c of None \<Rightarrow> least | Some d \<Rightarrow> min least d) k cs = k"
  by (induction cs) auto

text \<open>C26: Stacked percentages multiply: whatever the priorities and the order of the list, the final price is the price
  times what each campaign leaves of it, rounded once.\<close>

theorem percentages_multiply:
  assumes "\<forall>c\<in>set cs. plain_percentage c" "0 \<le> price"
  shows "sr_finalPrice (calculateStackedDiscount price cs n) = Some (cents (price * prod_list (map kept_share cs)))"
proof -
  let ?xs = "by_priority cs"
  have plain: "\<forall>c\<in>set ?xs. plain_percentage c" using assms(1) by (simp add: sorted_by_priority)
  have none: "js_find stands_alone ?xs = None" using plain by (simp add: js_find_None plain_percentage_def)
  have deep: "\<forall>c\<in>set ?xs. depth_limit c = None" using plain by (simp add: plain_percentage_def)
  have "js_slice 0 (0 + int (length ?xs)) ?xs = ?xs" using js_slice_page [of 0 "int (length ?xs)" ?xs] by simp
  then have res: "resolveStackableCampaigns cs = ?xs"
    by (cases "cs = []") (simp_all add: resolveStackableCampaigns_def Let_def none no_limit [OF deep], simp add: by_priority_def)
  have "prod_list (map kept_share ?xs) = prod_mset (image_mset kept_share (mset ?xs))" by (simp add: prod_mset_prod_list flip: mset_map)
  also have "\<dots> = prod_list (map kept_share cs)" by (simp add: sorted_by_priority prod_mset_prod_list flip: mset_map)
  finally have prod: "prod_list (map kept_share ?xs) = prod_list (map kept_share cs)" .
  let ?t = "price - price * prod_list (map kept_share cs)"
  have "snd (stack_discounts n (applicable_rules cs) (Some price) (Some 0)) = Some ?t" "min ?t price = ?t"
    using stack_percentages [OF plain assms(2), of n 0] unfolding applicable_rules_def res prod by simp_all
  then show ?thesis by (simp add: calculateStackedDiscount_def case_prod_beta)
qed

lemma percentages_multiply_witness:
  "sr_finalPrice (calculateStackedDiscount 100 [demo_campaign, demo_campaign] 1) = Some (cents 81)"
proof -
  have "\<forall>c\<in>set [demo_campaign, demo_campaign]. plain_percentage c"
    by (simp add: plain_percentage_def demo_campaign_def ten_percent_def stands_alone_def depth_limit_def)
  from percentages_multiply [OF this, of 100 1] show ?thesis by (simp add: kept_share_def demo_campaign_def ten_percent_def)
qed

section \<open>Offers that are not numbers\<close>

text \<open>One applicable buy-and-get offer with an empty set makes the final price and the total of the whole stack not a
  number, whatever the other campaigns give.\<close>

theorem empty_offer_spoils_stack:
  assumes "(cid, rule) \<in> set (applicable_rules cs)" "pu_discountType rule = BOGO"
    and "pu_bogoBuyQuantity rule = Some 0" "pu_bogoGetQuantity rule = Some 0"
  shows "sr_finalPrice (calculateStackedDiscount price cs n) = None \<and> sr_totalDiscount (calculateStackedDiscount price cs n) = None"
proof -
  have bad: "rule_discount rule p n = None" for p using assms(2-4) by (simp add: rule_discount_def raw_discount_def)
  have lost: "snd (stack_discounts n rules None None) = None" for rules
    by (induction rules) (auto simp: Let_def case_prod_beta)
  have "snd (stack_discounts n rules x acc) = None" if "(cid, rule) \<in> set rules" for rules x acc
    using that
  proof (induction rules arbitrary: x acc)
    case (Cons r rules)
    show ?case
    proof (cases "r = (cid, rule)")
      case True
      then show ?thesis using lost bad by (cases x; cases acc) (simp_all add: Let_def case_prod_beta)
    next
      case False
      then show ?thesis using Cons by (cases r) (auto simp: Let_def case_prod_beta)
    qed
  qed simp
  from this [OF assms(1)] show ?thesis by (simp add: calculateStackedDiscount_def case_prod_beta)
qed

definition empty_offer :: Campaign where
  "empty_offer = demo_campaign\<lparr>ca_promotionRule := Some (ten_percent\<lparr>pu_discountType := BOGO, pu_bogoBuyQuantity := Some 0, pu_bogoGetQuantity := Some 0\<rparr>)\<rparr>"

lemma empty_offer_spoils_stack_witness:
  "sr_finalPrice (calculateStackedDiscount 100 [demo_campaign, empty_offer] 1) = None"
proof -
  have "(''c1'', ten_percent\<lparr>pu_discountType := BOGO, pu_bogoBuyQuantity := Some 0, pu_bogoGetQuantity := Some 0\<rparr>)
      \<in> set (applicable_rules [demo_campaign, empty_offer])"
    by (simp add: applicable_rules_def resolveStackableCampaigns_def by_priority_def js_find_def demo_campaign_def empty_offer_def
        stands_alone_def depth_limit_def js_slice_def js_index_def map_filter_simps Let_def priority_of_def)
  from empty_offer_spoils_stack [OF this, of 100 1] show ?thesis by simp
qed
end
