(* ===== verification/BatchTransactions.thy ===== *)
theory BatchTransactions
  imports AtomicBatch JsNumber
begin

text \<open>
  The batch transaction service, \<^verbatim>\<open>app/services/batchTransactionService.ts\<close>: configuration per operation type,
  the chunked runner with per-item status, idempotency and atomic abort, the four kinds of batches, the retry of failed
  items, the rollback of a committed batch, and the history with its analytics. The functions that apply, retry or
  revert an item belong to the caller: they act on an arbitrary world \<open>'w\<close>, which also holds the clock (\<open>now\<close>) and
  passes while a timer is awaited (\<open>sleep\<close>). A function that throws answers the thrown text. The history lives in the
  service, as if the device storage never failed; dashes in messages are written as hyphens.
\<close>

section \<open>Types\<close>

datatype BatchState = BsPending | BsProcessing | BsCompleted | BsPartial | BsFailed | BsRolledBack
datatype PerItemStatus = ItPending | ItProcessing | ItSuccess | ItFailed | ItSkipped

datatype ReasonCode = TooExpensive | NoLongerNeeded | FoundAlternative | PoorService | OtherReason

record CancelReason =
  cx_subscriptionId :: string
  cx_reason :: ReasonCode
  cx_notes :: "string option"

record UpdateFilter =
  uf_planChange :: "bool option"
  uf_minPrice :: "rat option"
  uf_maxPrice :: "rat option"
  uf_categories :: "string list option"
  uf_billingCycle :: "string option"
  uf_isActive :: "bool option"

record PerItemResult =
  pi_index :: nat
  pi_subscriptionId :: string
  pi_subscriptionName :: "string option"
  pi_status :: PerItemStatus
  pi_error :: "string option"
  pi_errorCode :: "int option"
  pi_cancelReason :: "CancelReason option"
  pi_retryCount :: int
  pi_completedAt :: "int option"
  pi_message :: "string option"
  pi_durationMs :: "int option"

record BatchExecutionResult =
  be_batchId :: string
  be_operationType :: BatchOperationType
  be_state :: BatchState
  be_totalItems :: int
  be_successfulItems :: int
  be_failedItems :: int
  be_skippedItems :: int
  be_results :: "PerItemResult list"
  be_atomic :: bool
  be_rolledBack :: bool
  be_gasEstimate :: int
  be_startedAt :: int
  be_completedAt :: "int option"
  be_durationMs :: "int option"
  be_cancelReasons :: "CancelReason list option"
  be_filter :: "UpdateFilter option"
  be_rejectionReason :: "string option"

record BatchHistoryEntry =
  bh_batchId :: string
  bh_operationType :: BatchOperationType
  bh_state :: BatchState
  bh_totalItems :: int
  bh_successfulItems :: int
  bh_failedItems :: int
  bh_timestamp :: int
  bh_summary :: string
  bh_skippedItems :: "int option"
  bh_durationMs :: "int option"
  bh_rolledBack :: "bool option"

record BatchProgress =
  bp_batchId :: string
  bp_state :: BatchState
  bp_total :: int
  bp_completed :: int
  bp_succeeded :: int
  bp_failed :: int
  bp_percentComplete :: int

record RetryConfig =
  rc_maxRetries :: int
  rc_retryDelayMs :: rat
  rc_backoffMultiplier :: rat
  rc_onlyRetryFailed :: bool

record BatchOperationConfig =
  oc_maxItems :: int
  oc_chunkSize :: int
  oc_atomicDefault :: bool
  oc_allowRollback :: bool
  oc_maxRetries :: int
  oc_retryDelayMs :: rat
  oc_backoffMultiplier :: rat
  oc_idempotent :: bool

text \<open>Partial configurations; absent members keep their value.\<close>

record ConfigPatch =
  op_maxItems :: "int option"
  op_chunkSize :: "int option"
  op_atomicDefault :: "bool option"
  op_allowRollback :: "bool option"
  op_maxRetries :: "int option"
  op_retryDelayMs :: "rat option"
  op_backoffMultiplier :: "rat option"
  op_idempotent :: "bool option"

record RetryPatch =
  ry_maxRetries :: "int option"
  ry_retryDelayMs :: "rat option"
  ry_backoffMultiplier :: "rat option"
  ry_onlyRetryFailed :: "bool option"

section \<open>Configuration\<close>

fun DEFAULT_BATCH_CONFIGS :: "BatchOperationType \<Rightarrow> BatchOperationConfig" where
  "DEFAULT_BATCH_CONFIGS OpCreate = \<lparr>oc_maxItems = 100, oc_chunkSize = 50, oc_atomicDefault = False, oc_allowRollback = True,
     oc_maxRetries = 3, oc_retryDelayMs = 300, oc_backoffMultiplier = 2, oc_idempotent = False\<rparr>"
| "DEFAULT_BATCH_CONFIGS OpUpdate = \<lparr>oc_maxItems = 100, oc_chunkSize = 50, oc_atomicDefault = False, oc_allowRollback = True,
     oc_maxRetries = 3, oc_retryDelayMs = 300, oc_backoffMultiplier = 2, oc_idempotent = True\<rparr>"
| "DEFAULT_BATCH_CONFIGS OpCharge = \<lparr>oc_maxItems = 50, oc_chunkSize = 25, oc_atomicDefault = True, oc_allowRollback = True,
     oc_maxRetries = 2, oc_retryDelayMs = 500, oc_backoffMultiplier = 2, oc_idempotent = True\<rparr>"
| "DEFAULT_BATCH_CONFIGS OpCancel = \<lparr>oc_maxItems = 50, oc_chunkSize = 25, oc_atomicDefault = False, oc_allowRollback = False,
     oc_maxRetries = 1, oc_retryDelayMs = 300, oc_backoffMultiplier = 2, oc_idempotent = True\<rparr>"

definition getDefaultBatchConfig :: "BatchOperationType \<Rightarrow> BatchOperationConfig" where
  "getDefaultBatchConfig t = DEFAULT_BATCH_CONFIGS t"

definition MAX_CHUNK_SIZE :: int where "MAX_CHUNK_SIZE = 200"
definition MAX_HISTORY_ENTRIES :: nat where "MAX_HISTORY_ENTRIES = 50"

text \<open>The reason a batch of this size is refused, if it is.\<close>

definition validateBatchSizeFor :: "BatchOperationType \<Rightarrow> int \<Rightarrow> BatchOperationConfig \<Rightarrow> string option" where
  "validateBatchSizeFor t count config =
     (if count \<le> 0 then Some ''A batch must contain at least one item.''
      else if oc_maxItems config < count
      then Some (''A '' @ operation_name t @ '' batch is limited to '' @ show_int (oc_maxItems config) @ '' items (got '' @ show_int count @ '').'')
      else None)"

record BatchTransactionService =
  bt_chunkSizeOverride :: "int option"
  bt_appliedItems :: "string set"
  bt_configOverrides :: "BatchOperationType \<Rightarrow> ConfigPatch"
  bt_currentResult :: "BatchExecutionResult option"
  bt_retryConfigOverride :: RetryPatch
  bt_history :: "BatchHistoryEntry list"

definition no_patch :: ConfigPatch where
  "no_patch = \<lparr>op_maxItems = None, op_chunkSize = None, op_atomicDefault = None, op_allowRollback = None, op_maxRetries = None,
     op_retryDelayMs = None, op_backoffMultiplier = None, op_idempotent = None\<rparr>"

definition setChunkSize :: "int \<Rightarrow> BatchTransactionService \<Rightarrow> BatchTransactionService" where
  "setChunkSize n s = s\<lparr>bt_chunkSizeOverride := Some (min MAX_CHUNK_SIZE (max 1 n))\<rparr>"

definition newBatchTransactionService :: "int option \<Rightarrow> BatchTransactionService" where
  "newBatchTransactionService chunk =
     (let s = \<lparr>bt_chunkSizeOverride = None, bt_appliedItems = {}, bt_configOverrides = (\<lambda>_. no_patch), bt_currentResult = None,
            bt_retryConfigOverride = \<lparr>ry_maxRetries = None, ry_retryDelayMs = None, ry_backoffMultiplier = None, ry_onlyRetryFailed = None\<rparr>,
            bt_history = []\<rparr>
      in case chunk of None \<Rightarrow> s | Some n \<Rightarrow> setChunkSize n s)"

definition setRetryConfig :: "RetryPatch \<Rightarrow> BatchTransactionService \<Rightarrow> BatchTransactionService" where
  "setRetryConfig p s = (let o0 = bt_retryConfigOverride s in s\<lparr>bt_retryConfigOverride :=
     \<lparr>ry_maxRetries = opt_or (ry_maxRetries p) (ry_maxRetries o0), ry_retryDelayMs = opt_or (ry_retryDelayMs p) (ry_retryDelayMs o0),
      ry_backoffMultiplier = opt_or (ry_backoffMultiplier p) (ry_backoffMultiplier o0),
      ry_onlyRetryFailed = opt_or (ry_onlyRetryFailed p) (ry_onlyRetryFailed o0)\<rparr>\<rparr>)"

definition setOperationConfig :: "BatchOperationType \<Rightarrow> ConfigPatch \<Rightarrow> BatchTransactionService \<Rightarrow> BatchTransactionService" where
  "setOperationConfig t p s = (let o0 = bt_configOverrides s t in s\<lparr>bt_configOverrides := (bt_configOverrides s)(t :=
     \<lparr>op_maxItems = opt_or (op_maxItems p) (op_maxItems o0), op_chunkSize = opt_or (op_chunkSize p) (op_chunkSize o0),
      op_atomicDefault = opt_or (op_atomicDefault p) (op_atomicDefault o0), op_allowRollback = opt_or (op_allowRollback p) (op_allowRollback o0),
      op_maxRetries = opt_or (op_maxRetries p) (op_maxRetries o0), op_retryDelayMs = opt_or (op_retryDelayMs p) (op_retryDelayMs o0),
      op_backoffMultiplier = opt_or (op_backoffMultiplier p) (op_backoffMultiplier o0), op_idempotent = opt_or (op_idempotent p) (op_idempotent o0)\<rparr>)\<rparr>)"

definition getOperationConfig :: "BatchOperationType \<Rightarrow> BatchTransactionService \<Rightarrow> BatchOperationConfig" where
  "getOperationConfig t s =
     (let d = DEFAULT_BATCH_CONFIGS t; p = bt_configOverrides s t;
          chunk = the_or (bt_chunkSizeOverride s) (the_or (op_chunkSize p) (oc_chunkSize d))
      in \<lparr>oc_maxItems = the_or (op_maxItems p) (oc_maxItems d), oc_chunkSize = min MAX_CHUNK_SIZE (max 1 chunk),
          oc_atomicDefault = the_or (op_atomicDefault p) (oc_atomicDefault d), oc_allowRollback = the_or (op_allowRollback p) (oc_allowRollback d),
          oc_maxRetries = the_or (op_maxRetries p) (oc_maxRetries d), oc_retryDelayMs = the_or (op_retryDelayMs p) (oc_retryDelayMs d),
          oc_backoffMultiplier = the_or (op_backoffMultiplier p) (oc_backoffMultiplier d), oc_idempotent = the_or (op_idempotent p) (oc_idempotent d)\<rparr>)"

definition getRetryConfig :: "BatchOperationType \<Rightarrow> BatchTransactionService \<Rightarrow> RetryConfig" where
  "getRetryConfig t s =
     (let c = getOperationConfig t s; p = bt_retryConfigOverride s
      in \<lparr>rc_maxRetries = the_or (ry_maxRetries p) (oc_maxRetries c), rc_retryDelayMs = the_or (ry_retryDelayMs p) (oc_retryDelayMs c),
          rc_backoffMultiplier = the_or (ry_backoffMultiplier p) (oc_backoffMultiplier c), rc_onlyRetryFailed = the_or (ry_onlyRetryFailed p) True\<rparr>)"

definition getGasEstimate :: "int \<Rightarrow> int" where
  "getGasEstimate itemCount = 50000 + itemCount * 100000"

definition idempotencyKey :: "BatchOperationType \<Rightarrow> string \<Rightarrow> string" where
  "idempotencyKey t subscriptionId = operation_name t @ '':'' @ subscriptionId"

definition getProgress :: "BatchTransactionService \<Rightarrow> BatchProgress option" where
  "getProgress s = map_option (\<lambda>r.
     let completed = be_successfulItems r + be_failedItems r + be_skippedItems r
     in \<lparr>bp_batchId = be_batchId r, bp_state = be_state r, bp_total = be_totalItems r, bp_completed = completed,
         bp_succeeded = be_successfulItems r, bp_failed = be_failedItems r,
         bp_percentComplete = (if 0 < be_totalItems r then js_round (of_int completed / of_int (be_totalItems r) * 100) else 0)\<rparr>)
     (bt_currentResult s)"

definition canRollback :: "BatchTransactionService \<Rightarrow> bool" where
  "canRollback s = (case bt_currentResult s of None \<Rightarrow> False
     | Some r \<Rightarrow> \<not> (be_rolledBack r \<or> be_state r = BsRolledBack) \<and> be_successfulItems r \<noteq> 0
         \<and> oc_allowRollback (getOperationConfig (be_operationType r) s))"

section \<open>History\<close>

definition toHistoryEntry :: "int \<Rightarrow> BatchExecutionResult \<Rightarrow> BatchHistoryEntry" where
  "toHistoryEntry now r = \<lparr>bh_batchId = be_batchId r, bh_operationType = be_operationType r, bh_state = be_state r,
     bh_totalItems = be_totalItems r, bh_successfulItems = be_successfulItems r, bh_failedItems = be_failedItems r,
     bh_timestamp = the_or (be_completedAt r) now,
     bh_summary = operation_name (be_operationType r) @ '': '' @ show_int (be_successfulItems r) @ ''/'' @ show_int (be_totalItems r) @ '' succeeded'',
     bh_skippedItems = Some (be_skippedItems r), bh_durationMs = be_durationMs r, bh_rolledBack = Some (be_rolledBack r)\<rparr>"

definition recordBatchHistory :: "int \<Rightarrow> BatchExecutionResult \<Rightarrow> BatchTransactionService \<Rightarrow> BatchTransactionService" where
  "recordBatchHistory now r s = s\<lparr>bt_history := take MAX_HISTORY_ENTRIES (toHistoryEntry now r # bt_history s)\<rparr>"

section \<open>The runner\<close>

record BatchItemPlan =
  bi_subscriptionId :: string
  bi_subscriptionName :: "string option"
  bi_cancelReason :: "CancelReason option"
  bi_successMessage :: "string option"

record ApplyResult =
  ap_success :: bool
  ap_id :: "string option"
  ap_error :: "string option"
  ap_errorCode :: "int option"

type_synonym 'w applier = "BatchItemPlan \<Rightarrow> nat \<Rightarrow> 'w \<Rightarrow> (string + ApplyResult) \<times> 'w"

text \<open>A thrown error becomes a failure with its text.\<close>

definition caught :: "string + ApplyResult \<Rightarrow> ApplyResult" where
  "caught x = (case x of Inl e \<Rightarrow> \<lparr>ap_success = False, ap_id = None, ap_error = Some e, ap_errorCode = None\<rparr> | Inr r \<Rightarrow> r)"

record 'w RunState =
  ru_aborted :: bool
  ru_result :: BatchExecutionResult
  ru_applied :: "string set"
  ru_world :: 'w

definition skipped_item :: "nat \<Rightarrow> BatchItemPlan \<Rightarrow> string \<Rightarrow> PerItemResult" where
  "skipped_item i plan msg = \<lparr>pi_index = i, pi_subscriptionId = bi_subscriptionId plan, pi_subscriptionName = bi_subscriptionName plan,
     pi_status = ItSkipped, pi_error = None, pi_errorCode = None, pi_cancelReason = bi_cancelReason plan, pi_retryCount = 0,
     pi_completedAt = None, pi_message = Some msg, pi_durationMs = None\<rparr>"

definition applied_item :: "nat \<Rightarrow> BatchItemPlan \<Rightarrow> ApplyResult \<Rightarrow> int \<Rightarrow> int \<Rightarrow> PerItemResult" where
  "applied_item i plan outcome began ended = \<lparr>pi_index = i, pi_subscriptionId = or_default (ap_id outcome) (bi_subscriptionId plan),
     pi_subscriptionName = bi_subscriptionName plan, pi_status = (if ap_success outcome then ItSuccess else ItFailed),
     pi_error = (if ap_success outcome then None else Some (or_default (ap_error outcome) ''Unknown error'')),
     pi_errorCode = (if ap_success outcome then None else ap_errorCode outcome), pi_cancelReason = bi_cancelReason plan,
     pi_retryCount = 0, pi_completedAt = Some ended,
     pi_message = (if ap_success outcome \<and> bi_successMessage plan \<noteq> Some '''' then bi_successMessage plan else None),
     pi_durationMs = Some (ended - began)\<rparr>"

definition add_item :: "PerItemResult \<Rightarrow> BatchExecutionResult \<Rightarrow> BatchExecutionResult" where
  "add_item item r = r\<lparr>be_results := be_results r @ [item],
     be_successfulItems := be_successfulItems r + (if pi_status item = ItSuccess then 1 else 0),
     be_failedItems := be_failedItems r + (if pi_status item = ItFailed then 1 else 0),
     be_skippedItems := be_skippedItems r + (if pi_status item = ItSkipped then 1 else 0)\<rparr>"

definition run_item :: "('w \<Rightarrow> int) \<Rightarrow> BatchOperationConfig \<Rightarrow> BatchOperationType \<Rightarrow> bool \<Rightarrow> 'w applier
    \<Rightarrow> nat \<times> BatchItemPlan \<Rightarrow> 'w RunState \<Rightarrow> 'w RunState" where
  "run_item now config t atomic act ip st =
     (case ip of (i, plan) \<Rightarrow>
        let key = idempotencyKey t (bi_subscriptionId plan)
        in if ru_aborted st then st\<lparr>ru_result := add_item (skipped_item i plan ''Skipped due to atomic failure'') (ru_result st)\<rparr>
           else if oc_idempotent config \<and> key \<in> ru_applied st
           then st\<lparr>ru_result := add_item (skipped_item i plan ''Already applied - skipped for idempotency'') (ru_result st)\<rparr>
           else case act plan i (ru_world st) of
             (answer, w1) \<Rightarrow>
               let outcome = caught answer
               in \<lparr>ru_aborted = (\<not> ap_success outcome \<and> atomic),
                   ru_result = add_item (applied_item i plan outcome (now (ru_world st)) (now w1)) (ru_result st),
                   ru_applied = (if ap_success outcome \<and> oc_idempotent config then insert key (ru_applied st) else ru_applied st),
                   ru_world = w1\<rparr>)"

text \<open>The loop over chunks: the items of one chunk, and the next offset.\<close>

function run_chunks :: "('w \<Rightarrow> int) \<Rightarrow> BatchOperationConfig \<Rightarrow> BatchOperationType \<Rightarrow> bool \<Rightarrow> 'w applier
    \<Rightarrow> BatchItemPlan list \<Rightarrow> nat \<Rightarrow> 'w RunState \<Rightarrow> 'w RunState" where
  "run_chunks now config t atomic act plans offset st =
     (if length plans \<le> offset then st
      else run_chunks now config t atomic act plans (offset + nat (max 1 (oc_chunkSize config)))
        (fold (run_item now config t atomic act)
           (enumerate offset (take (nat (max 1 (oc_chunkSize config))) (drop offset plans))) st))"
  by pat_completeness auto
termination
  by (relation "measure (\<lambda>(now, config, t, atomic, act, plans, offset, st). length plans - offset)") auto

declare run_chunks.simps [simp del]

text \<open>After an atomic failure: successes are reported as skipped, and their keys forgotten.\<close>

definition undo_item :: "BatchOperationType \<Rightarrow> PerItemResult \<Rightarrow> BatchExecutionResult \<times> string set \<Rightarrow> BatchExecutionResult \<times> string set" where
  "undo_item t item acc =
     (case acc of (r, applied) \<Rightarrow>
        if pi_status item \<noteq> ItSuccess then (r\<lparr>be_results := be_results r @ [item]\<rparr>, applied)
        else (r\<lparr>be_results := be_results r @ [item\<lparr>pi_status := ItSkipped, pi_message := Some ''Rolled back (atomic failure)''\<rparr>],
                be_skippedItems := be_skippedItems r + 1\<rparr>,
              applied - {idempotencyKey t (pi_subscriptionId item)}))"

definition undo_atomic :: "BatchOperationType \<Rightarrow> BatchExecutionResult \<Rightarrow> string set \<Rightarrow> BatchExecutionResult \<times> string set" where
  "undo_atomic t r applied =
     (case fold (undo_item t) (be_results r) (r\<lparr>be_results := []\<rparr>, applied) of
        (r1, applied1) \<Rightarrow> (r1\<lparr>be_successfulItems := 0\<rparr>, applied1))"

record RunOptions =
  ro_atomic :: "bool option"
  ro_filter :: "UpdateFilter option"
  ro_cancelReasons :: "CancelReason list option"

definition fresh_result :: "string \<Rightarrow> BatchOperationType \<Rightarrow> nat \<Rightarrow> bool \<Rightarrow> int \<Rightarrow> RunOptions \<Rightarrow> BatchExecutionResult" where
  "fresh_result uid t n atomic began opts = \<lparr>be_batchId = uid, be_operationType = t, be_state = BsProcessing, be_totalItems = int n,
     be_successfulItems = 0, be_failedItems = 0, be_skippedItems = 0, be_results = [], be_atomic = atomic, be_rolledBack = False,
     be_gasEstimate = getGasEstimate (int n), be_startedAt = began, be_completedAt = None, be_durationMs = None,
     be_cancelReasons = ro_cancelReasons opts, be_filter = ro_filter opts, be_rejectionReason = None\<rparr>"

definition refused_result :: "string \<Rightarrow> int \<Rightarrow> BatchExecutionResult \<Rightarrow> BatchExecutionResult" where
  "refused_result reason now r = r\<lparr>be_state := BsFailed, be_rejectionReason := Some reason, be_completedAt := Some now, be_durationMs := Some 0\<rparr>"

text \<open>What follows the loop: the outcome, and the rollback of the report after an atomic failure.\<close>

definition settle_run :: "('w \<Rightarrow> int) \<Rightarrow> BatchOperationType \<Rightarrow> bool \<Rightarrow> int \<Rightarrow> 'w RunState \<Rightarrow> BatchExecutionResult \<times> string set" where
  "settle_run now t atomic began st =
     (let r = ru_result st; rolledBack = (atomic \<and> 0 < be_failedItems r);
          r1 = r\<lparr>be_rolledBack := rolledBack, be_completedAt := Some (now (ru_world st)), be_durationMs := Some (now (ru_world st) - began),
             be_state := (if rolledBack then BsFailed else if be_failedItems r = 0 then BsCompleted else BsPartial)\<rparr>
      in if rolledBack then undo_atomic t r1 (ru_applied st) else (r1, ru_applied st))"

definition run_batch :: "string \<Rightarrow> ('w \<Rightarrow> int) \<Rightarrow> BatchOperationType \<Rightarrow> BatchItemPlan list \<Rightarrow> 'w applier \<Rightarrow> RunOptions
    \<Rightarrow> BatchTransactionService \<Rightarrow> 'w \<Rightarrow> BatchExecutionResult \<times> BatchTransactionService \<times> 'w" where
  "run_batch uid now t plans act opts s w =
     (let config = getOperationConfig t s; atomic = the_or (ro_atomic opts) (oc_atomicDefault config);
          r0 = fresh_result uid t (length plans) atomic (now w) opts
      in case validateBatchSizeFor t (int (length plans)) config of
           Some reason \<Rightarrow>
             let r = refused_result reason (now w) r0
             in (r, recordBatchHistory (now w) r (s\<lparr>bt_currentResult := Some r\<rparr>), w)
         | None \<Rightarrow>
             let st = run_chunks now config t atomic act plans 0
                   \<lparr>ru_aborted = False, ru_result = r0, ru_applied = bt_appliedItems s, ru_world = w\<rparr>
             in case settle_run now t atomic (now w) st of
                  (r, applied) \<Rightarrow>
                    (r, recordBatchHistory (now (ru_world st)) r (s\<lparr>bt_currentResult := Some r, bt_appliedItems := applied\<rparr>), ru_world st))"

section \<open>The four kinds of batches\<close>

definition simple_plan :: "string \<Rightarrow> BatchItemPlan" where
  "simple_plan i = \<lparr>bi_subscriptionId = i, bi_subscriptionName = None, bi_cancelReason = None, bi_successMessage = None\<rparr>"

definition run_options :: "bool option \<Rightarrow> RunOptions" where
  "run_options atomic = \<lparr>ro_atomic = atomic, ro_filter = None, ro_cancelReasons = None\<rparr>"

definition executeBatchCreate :: "string \<Rightarrow> ('w \<Rightarrow> int) \<Rightarrow> ('i \<Rightarrow> string) \<Rightarrow> 'i list
    \<Rightarrow> ('i \<Rightarrow> 'w \<Rightarrow> (string + ApplyResult) \<times> 'w) \<Rightarrow> bool option \<Rightarrow> BatchTransactionService \<Rightarrow> 'w
    \<Rightarrow> BatchExecutionResult \<times> BatchTransactionService \<times> 'w" where
  "executeBatchCreate uid now input_name inputs addFn atomic s w =
     run_batch uid now OpCreate
       (map (\<lambda>i. (simple_plan (input_name i))\<lparr>bi_subscriptionName := Some (input_name i)\<rparr>) inputs)
       (\<lambda>_ i. addFn (inputs ! i)) (run_options atomic) s w"

definition executeBatchUpdate :: "string \<Rightarrow> ('w \<Rightarrow> int) \<Rightarrow> string list \<Rightarrow> 'u
    \<Rightarrow> (string \<Rightarrow> 'u \<Rightarrow> 'w \<Rightarrow> (string + ApplyResult) \<times> 'w) \<Rightarrow> bool option \<Rightarrow> UpdateFilter option \<Rightarrow> BatchTransactionService \<Rightarrow> 'w
    \<Rightarrow> BatchExecutionResult \<times> BatchTransactionService \<times> 'w" where
  "executeBatchUpdate uid now ids updates updateFn atomic f s w =
     run_batch uid now OpUpdate (map simple_plan ids) (\<lambda>plan _. updateFn (bi_subscriptionId plan) updates)
       ((run_options atomic)\<lparr>ro_filter := f\<rparr>) s w"

definition reason_for :: "CancelReason list \<Rightarrow> string \<Rightarrow> CancelReason" where
  "reason_for reasons i = the_or (js_find (\<lambda>r. cx_subscriptionId r = i) reasons)
     \<lparr>cx_subscriptionId = i, cx_reason = OtherReason, cx_notes = None\<rparr>"

definition executeBatchCancel :: "string \<Rightarrow> ('w \<Rightarrow> int) \<Rightarrow> string list \<Rightarrow> CancelReason list
    \<Rightarrow> (string \<Rightarrow> CancelReason \<Rightarrow> 'w \<Rightarrow> (string + ApplyResult) \<times> 'w) \<Rightarrow> bool option \<Rightarrow> BatchTransactionService \<Rightarrow> 'w
    \<Rightarrow> BatchExecutionResult \<times> BatchTransactionService \<times> 'w" where
  "executeBatchCancel uid now ids reasons cancelFn atomic s w =
     run_batch uid now OpCancel (map (\<lambda>i. (simple_plan i)\<lparr>bi_cancelReason := Some (reason_for reasons i)\<rparr>) ids)
       (\<lambda>plan _. cancelFn (bi_subscriptionId plan) (the (bi_cancelReason plan)))
       ((run_options atomic)\<lparr>ro_cancelReasons := Some reasons\<rparr>) s w"

definition executeBatchCharge :: "string \<Rightarrow> ('w \<Rightarrow> int) \<Rightarrow> (rat \<Rightarrow> string) \<Rightarrow> (string \<times> rat) list
    \<Rightarrow> (string \<Rightarrow> rat \<Rightarrow> 'w \<Rightarrow> (string + ApplyResult) \<times> 'w) \<Rightarrow> bool option \<Rightarrow> BatchTransactionService \<Rightarrow> 'w
    \<Rightarrow> BatchExecutionResult \<times> BatchTransactionService \<times> 'w" where
  "executeBatchCharge uid now show_amount items chargeFn atomic s w =
     run_batch uid now OpCharge
       (map (\<lambda>(i, amount). (simple_plan i)\<lparr>bi_successMessage := Some (''Charged '' @ show_amount amount)\<rparr>) items)
       (\<lambda>plan i. chargeFn (bi_subscriptionId plan) (snd (items ! i))) (run_options atomic) s w"

section \<open>Retry of failed items\<close>

record RetryAnswer =
  ra_success :: bool
  ra_error :: "string option"

record 'w RetryState =
  re_result :: BatchExecutionResult
  re_applied :: "string set"
  re_world :: 'w

definition retried_item :: "int \<Rightarrow> (string + RetryAnswer) \<Rightarrow> PerItemResult \<Rightarrow> PerItemResult" where
  "retried_item now answer item =
     (case answer of
        Inl e \<Rightarrow> item\<lparr>pi_retryCount := pi_retryCount item + 1, pi_error := Some e\<rparr>
      | Inr a \<Rightarrow>
          if ra_success a then item\<lparr>pi_status := ItSuccess, pi_retryCount := pi_retryCount item + 1, pi_error := None, pi_completedAt := Some now\<rparr>
          else item\<lparr>pi_retryCount := pi_retryCount item + 1, pi_error := Some (or_default (ra_error a) ''Retry failed'')\<rparr>)"

definition succeeded :: "string + RetryAnswer \<Rightarrow> bool" where
  "succeeded answer = (case answer of Inl _ \<Rightarrow> False | Inr a \<Rightarrow> ra_success a)"

definition retry_item :: "('w \<Rightarrow> int) \<Rightarrow> (rat \<Rightarrow> 'w \<Rightarrow> 'w) \<Rightarrow> BatchOperationConfig \<Rightarrow> RetryConfig
    \<Rightarrow> (PerItemResult \<Rightarrow> 'w \<Rightarrow> (string + RetryAnswer) \<times> 'w) \<Rightarrow> PerItemResult \<Rightarrow> 'w RetryState \<Rightarrow> 'w RetryState" where
  "retry_item now sleep config retry retryFn item st =
     (let r = re_result st
      in if pi_status item \<noteq> ItFailed \<or> rc_maxRetries retry \<le> pi_retryCount item
         then st\<lparr>re_result := r\<lparr>be_results := be_results r @ [item]\<rparr>\<rparr>
         else case retryFn item (sleep (rc_retryDelayMs retry * rc_backoffMultiplier retry ^ nat (pi_retryCount item)) (re_world st)) of
           (answer, w1) \<Rightarrow>
             let ok = succeeded answer
             in \<lparr>re_result = r\<lparr>be_results := be_results r @ [retried_item (now w1) answer item],
                    be_successfulItems := be_successfulItems r + (if ok then 1 else 0),
                    be_failedItems := be_failedItems r - (if ok then 1 else 0)\<rparr>,
                 re_applied = (if ok \<and> oc_idempotent config then insert (idempotencyKey (be_operationType r) (pi_subscriptionId item)) (re_applied st)
                   else re_applied st),
                 re_world = w1\<rparr>)"

definition retryFailedItems :: "('w \<Rightarrow> int) \<Rightarrow> (rat \<Rightarrow> 'w \<Rightarrow> 'w) \<Rightarrow> (PerItemResult \<Rightarrow> 'w \<Rightarrow> (string + RetryAnswer) \<times> 'w)
    \<Rightarrow> BatchTransactionService \<Rightarrow> 'w \<Rightarrow> BatchExecutionResult option \<times> BatchTransactionService \<times> 'w" where
  "retryFailedItems now sleep retryFn s w =
     (case bt_currentResult s of None \<Rightarrow> (None, s, w)
      | Some r \<Rightarrow>
          if filter (\<lambda>i. pi_status i = ItFailed) (be_results r) = [] then (Some r, s, w)
          else let st = fold (retry_item now sleep (getOperationConfig (be_operationType r) s) (getRetryConfig (be_operationType r) s) retryFn)
                     (be_results r) \<lparr>re_result = r\<lparr>be_state := BsProcessing, be_results := []\<rparr>, re_applied = bt_appliedItems s, re_world = w\<rparr>;
                   r1 = (re_result st)\<lparr>be_completedAt := Some (now (re_world st)),
                      be_state := (if be_failedItems (re_result st) = 0 then BsCompleted else BsPartial)\<rparr>
               in (Some r1, s\<lparr>bt_currentResult := Some r1, bt_appliedItems := re_applied st\<rparr>, re_world st))"

section \<open>Rollback\<close>

record BatchRollbackResult =
  bl_batchId :: string
  bl_operationType :: BatchOperationType
  bl_attempted :: nat
  bl_reverted :: int
  bl_failed :: int
  bl_items :: "PerItemResult list"
  bl_completedAt :: int

record 'w RollbackState =
  rl_reverted :: int
  rl_failed :: int
  rl_items :: "PerItemResult list"
  rl_applied :: "string set"
  rl_world :: 'w

definition revert_item :: "('w \<Rightarrow> int) \<Rightarrow> BatchOperationType \<Rightarrow> (PerItemResult \<Rightarrow> BatchOperationType \<Rightarrow> 'w \<Rightarrow> (string + RetryAnswer) \<times> 'w)
    \<Rightarrow> PerItemResult \<Rightarrow> 'w RollbackState \<Rightarrow> 'w RollbackState" where
  "revert_item now t rollbackFn item st =
     (case rollbackFn item t (rl_world st) of
        (answer, w1) \<Rightarrow>
          if succeeded answer
          then \<lparr>rl_reverted = rl_reverted st + 1, rl_failed = rl_failed st,
                rl_items = rl_items st @ [item\<lparr>pi_status := ItSkipped, pi_message := Some ''Reverted by rollback'', pi_completedAt := Some (now w1)\<rparr>],
                rl_applied = rl_applied st - {idempotencyKey t (pi_subscriptionId item)}, rl_world = w1\<rparr>
          else \<lparr>rl_reverted = rl_reverted st, rl_failed = rl_failed st + 1,
                rl_items = rl_items st @ [item\<lparr>pi_status := ItFailed,
                  pi_error := Some (or_default (case answer of Inl e \<Rightarrow> Some e | Inr a \<Rightarrow> ra_error a) ''Rollback failed''), pi_completedAt := Some (now w1)\<rparr>],
                rl_applied = rl_applied st, rl_world = w1\<rparr>)"

definition merge_items :: "PerItemResult list \<Rightarrow> PerItemResult list \<Rightarrow> PerItemResult list" where
  "merge_items items results = map (\<lambda>r. the_or (map_of (rev (map (\<lambda>i. (pi_index i, i)) items)) (pi_index r)) r) results"

definition rollbackBatch :: "('w \<Rightarrow> int) \<Rightarrow> (PerItemResult \<Rightarrow> BatchOperationType \<Rightarrow> 'w \<Rightarrow> (string + RetryAnswer) \<times> 'w)
    \<Rightarrow> BatchTransactionService \<Rightarrow> 'w \<Rightarrow> BatchRollbackResult option \<times> BatchTransactionService \<times> 'w" where
  "rollbackBatch now rollbackFn s w =
     (case bt_currentResult s of None \<Rightarrow> (None, s, w)
      | Some r \<Rightarrow>
          if \<not> canRollback s then (None, s, w)
          else let committed = filter (\<lambda>i. pi_status i = ItSuccess) (be_results r);
                   st = fold (revert_item now (be_operationType r) rollbackFn) committed
                     \<lparr>rl_reverted = 0, rl_failed = 0, rl_items = [], rl_applied = bt_appliedItems s, rl_world = w\<rparr>;
                   full = (rl_failed st = 0); at_end = now (rl_world st);
                   r1 = r\<lparr>be_results := merge_items (rl_items st) (be_results r),
                      be_state := (if full then BsRolledBack else BsPartial), be_rolledBack := full,
                      be_successfulItems := be_successfulItems r - rl_reverted st, be_failedItems := be_failedItems r + rl_failed st,
                      be_skippedItems := be_skippedItems r + rl_reverted st, be_completedAt := Some at_end\<rparr>
               in (Some \<lparr>bl_batchId = be_batchId r, bl_operationType = be_operationType r, bl_attempted = length committed,
                     bl_reverted = rl_reverted st, bl_failed = rl_failed st, bl_items = rl_items st, bl_completedAt = at_end\<rparr>,
                   recordBatchHistory at_end r1 (s\<lparr>bt_currentResult := Some r1, bt_appliedItems := rl_applied st\<rparr>), rl_world st))"

definition clearResult :: "BatchTransactionService \<Rightarrow> BatchTransactionService" where
  "clearResult s = s\<lparr>bt_currentResult := None\<rparr>"

definition clearIdempotencyKeys :: "BatchTransactionService \<Rightarrow> BatchTransactionService" where
  "clearIdempotencyKeys s = s\<lparr>bt_appliedItems := {}\<rparr>"

definition memoryPressure :: "BatchTransactionService \<Rightarrow> int" where
  "memoryPressure s = (case bt_currentResult s of None \<Rightarrow> 0 | Some r \<Rightarrow> be_totalItems r * 512)"

section \<open>Chunks\<close>

lemma run_chunks_flat:
  "run_chunks now config t atomic act plans offset st = fold (run_item now config t atomic act) (enumerate offset (drop offset plans)) st"
proof (induction now config t atomic act plans offset st rule: run_chunks.induct)
  case (1 now config t atomic act plans offset st)
  let ?n = "nat (max 1 (oc_chunkSize config))"
  show ?case
  proof (cases "length plans \<le> offset")
    case True
    then show ?thesis by (simp add: run_chunks.simps)
  next
    case False
    let ?a = "take ?n (drop offset plans)"
    have rest: "enumerate (offset + ?n) (drop (offset + ?n) plans) = enumerate (offset + length ?a) (drop (offset + ?n) plans)"
      by (cases "offset + ?n \<le> length plans") simp_all
    have "drop offset plans = ?a @ drop (offset + ?n) plans" by (metis append_take_drop_id drop_drop add.commute)
    then have "enumerate offset (drop offset plans) = enumerate offset ?a @ enumerate (offset + ?n) (drop (offset + ?n) plans)"
      unfolding rest by (metis enumerate_append_eq)
    moreover have "run_chunks now config t atomic act plans offset st = run_chunks now config t atomic act plans (offset + ?n)
        (fold (run_item now config t atomic act) (enumerate offset ?a) st)"
      using False by (subst run_chunks.simps) simp
    ultimately show ?thesis using 1 [OF False] by simp
  qed
qed

text \<open>The configuration apart from the size of chunks.\<close>

lemma config_setChunkSize:
  "getOperationConfig t (setChunkSize n s) = (getOperationConfig t s)\<lparr>oc_chunkSize := oc_chunkSize (getOperationConfig t (setChunkSize n s))\<rparr>"
  by (simp add: getOperationConfig_def setChunkSize_def Let_def)

lemma run_item_chunkSize: "run_item now (config\<lparr>oc_chunkSize := k\<rparr>) t atomic act = run_item now config t atomic act"
  by (intro ext) (simp add: run_item_def Let_def split: prod.split)

lemma validate_chunkSize: "validateBatchSizeFor t n (config\<lparr>oc_chunkSize := k\<rparr>) = validateBatchSizeFor t n config"
  by (simp add: validateBatchSizeFor_def)

lemma run_chunks_chunkSize:
  "run_chunks now (config\<lparr>oc_chunkSize := k\<rparr>) t atomic act plans 0 st = run_chunks now config t atomic act plans 0 st"
  unfolding run_chunks_flat run_item_chunkSize ..

lemma setChunkSize_fields [simp]:
  "bt_appliedItems (setChunkSize n s) = bt_appliedItems s" "bt_currentResult (setChunkSize n s) = bt_currentResult s"
  "bt_history (setChunkSize n s) = bt_history s"
  by (simp_all add: setChunkSize_def)

lemma setChunkSize_commutes:
  "recordBatchHistory time r (setChunkSize n s\<lparr>bt_currentResult := c\<rparr>) = setChunkSize n (recordBatchHistory time r (s\<lparr>bt_currentResult := c\<rparr>))"
  "recordBatchHistory time r (setChunkSize n s\<lparr>bt_currentResult := c, bt_appliedItems := a\<rparr>)
     = setChunkSize n (recordBatchHistory time r (s\<lparr>bt_currentResult := c, bt_appliedItems := a\<rparr>))"
  by (simp_all add: recordBatchHistory_def setChunkSize_def)

text \<open>The size of chunks is invisible: a batch gives the same result, leaves the same service (but for the size) and
  the same world whatever chunk size is set.\<close>

theorem chunk_size_is_invisible:
  "run_batch uid now t plans act opts (setChunkSize n s) w =
     (case run_batch uid now t plans act opts s w of (r, s1, w1) \<Rightarrow> (r, setChunkSize n s1, w1))"
proof -
  define c where "c = getOperationConfig t s"
  obtain k where k: "getOperationConfig t (setChunkSize n s) = c\<lparr>oc_chunkSize := k\<rparr>"
    using config_setChunkSize [of t n s] unfolding c_def by blast
  show ?thesis
    unfolding run_batch_def k c_def [symmetric] Let_def validate_chunkSize run_chunks_chunkSize
    by (simp add: setChunkSize_commutes split: option.split prod.split)
qed

section \<open>Accounts\<close>

definition count_status :: "PerItemStatus \<Rightarrow> PerItemResult list \<Rightarrow> int" where
  "count_status st items = int (length (filter (\<lambda>i. pi_status i = st) items))"

lemma count_status_simps [simp]:
  "count_status st [] = 0" "count_status st (xs @ ys) = count_status st xs + count_status st ys"
  "count_status st (x # xs) = (if pi_status x = st then 1 else 0) + count_status st xs"
  by (simp_all add: count_status_def)

lemma count_status_nonneg [simp]: "0 \<le> count_status st items"
  by (simp add: count_status_def)

text \<open>The counters are those of the items, every item is settled, and items are numbered from the start.\<close>

definition counted :: "BatchExecutionResult \<Rightarrow> bool" where
  "counted r \<longleftrightarrow> be_successfulItems r = count_status ItSuccess (be_results r) \<and> be_failedItems r = count_status ItFailed (be_results r)
     \<and> be_skippedItems r = count_status ItSkipped (be_results r) \<and> map pi_index (be_results r) = [0..<length (be_results r)]
     \<and> (\<forall>i\<in>set (be_results r). pi_status i \<in> {ItSuccess, ItFailed, ItSkipped})"

definition accounted_for :: "BatchExecutionResult \<Rightarrow> bool" where
  "accounted_for r \<longleftrightarrow> counted r \<and> (if be_rejectionReason r = None then be_totalItems r = int (length (be_results r)) else be_results r = [])"

lemma counted_add:
  assumes "counted r" "pi_index item = length (be_results r)" "pi_status item \<in> {ItSuccess, ItFailed, ItSkipped}"
  shows "counted (add_item item r)"
  using assms by (auto simp: counted_def add_item_def)

lemma add_item_simps [simp]:
  "be_results (add_item item r) = be_results r @ [item]" "be_totalItems (add_item item r) = be_totalItems r"
  "be_rejectionReason (add_item item r) = be_rejectionReason r" "be_operationType (add_item item r) = be_operationType r"
  "be_rolledBack (add_item item r) = be_rolledBack r" "be_batchId (add_item item r) = be_batchId r"
  by (simp_all add: add_item_def)

lemma item_simps [simp]:
  "pi_index (skipped_item i plan msg) = i" "pi_status (skipped_item i plan msg) = ItSkipped"
  "pi_index (applied_item i plan out b e) = i" "pi_status (applied_item i plan out b e) = (if ap_success out then ItSuccess else ItFailed)"
  by (simp_all add: skipped_item_def applied_item_def)

text \<open>One step of the runner: the item it adds and what it leaves.\<close>

lemma run_item_aborted:
  "ru_aborted st \<Longrightarrow> run_item now config t atomic act (i, plan) st
     = st\<lparr>ru_result := add_item (skipped_item i plan ''Skipped due to atomic failure'') (ru_result st)\<rparr>"
  by (simp add: run_item_def Let_def)

lemma run_item_known:
  "\<not> ru_aborted st \<Longrightarrow> oc_idempotent config \<Longrightarrow> idempotencyKey t (bi_subscriptionId plan) \<in> ru_applied st \<Longrightarrow>
     run_item now config t atomic act (i, plan) st
     = st\<lparr>ru_result := add_item (skipped_item i plan ''Already applied - skipped for idempotency'') (ru_result st)\<rparr>"
  by (simp add: run_item_def Let_def)

lemma run_item_applies:
  assumes "\<not> ru_aborted st" "\<not> (oc_idempotent config \<and> idempotencyKey t (bi_subscriptionId plan) \<in> ru_applied st)"
    and "act plan i (ru_world st) = (answer, w1)"
  shows "run_item now config t atomic act (i, plan) st =
      \<lparr>ru_aborted = (\<not> ap_success (caught answer) \<and> atomic),
       ru_result = add_item (applied_item i plan (caught answer) (now (ru_world st)) (now w1)) (ru_result st),
       ru_applied = (if ap_success (caught answer) \<and> oc_idempotent config
         then insert (idempotencyKey t (bi_subscriptionId plan)) (ru_applied st) else ru_applied st),
       ru_world = w1\<rparr>"
  unfolding run_item_def prod.case Let_def assms(3) if_not_P [OF assms(1)] if_not_P [OF assms(2)] prod.case ..

lemma run_item_result:
  obtains item where "ru_result (run_item now config t atomic act (i, plan) st) = add_item item (ru_result st)"
    "pi_index item = i" "pi_status item \<in> {ItSuccess, ItFailed, ItSkipped}"
proof -
  consider "ru_aborted st" | "\<not> ru_aborted st" "oc_idempotent config" "idempotencyKey t (bi_subscriptionId plan) \<in> ru_applied st"
    | "\<not> ru_aborted st" "\<not> (oc_idempotent config \<and> idempotencyKey t (bi_subscriptionId plan) \<in> ru_applied st)" by blast
  then have "\<exists>item. ru_result (run_item now config t atomic act (i, plan) st) = add_item item (ru_result st)
    \<and> pi_index item = i \<and> pi_status item \<in> {ItSuccess, ItFailed, ItSkipped}"
  proof cases
    case 1
    show ?thesis unfolding run_item_aborted [OF 1]
      by (intro exI [of _ "skipped_item i plan ''Skipped due to atomic failure''"]) simp
  next
    case 2
    show ?thesis unfolding run_item_known [OF 2]
      by (intro exI [of _ "skipped_item i plan ''Already applied - skipped for idempotency''"]) simp
  next
    case 3
    obtain answer w1 where a: "act plan i (ru_world st) = (answer, w1)" by fastforce
    show ?thesis unfolding run_item_applies [where act = act, OF 3 a]
      by (intro exI [of _ "applied_item i plan (caught answer) (now (ru_world st)) (now w1)"]) simp
  qed
  then show ?thesis using that by blast
qed

lemma run_items_counted:
  assumes "counted (ru_result st)" "length (be_results (ru_result st)) = k"
  shows "counted (ru_result (fold (run_item now config t atomic act) (enumerate k plans) st))
    \<and> length (be_results (ru_result (fold (run_item now config t atomic act) (enumerate k plans) st))) = k + length plans
    \<and> be_totalItems (ru_result (fold (run_item now config t atomic act) (enumerate k plans) st)) = be_totalItems (ru_result st)
    \<and> be_rejectionReason (ru_result (fold (run_item now config t atomic act) (enumerate k plans) st)) = be_rejectionReason (ru_result st)"
  using assms
proof (induction plans arbitrary: k st)
  case (Cons plan plans)
  obtain item where item: "ru_result (run_item now config t atomic act (k, plan) st) = add_item item (ru_result st)"
    "pi_index item = k" "pi_status item \<in> {ItSuccess, ItFailed, ItSkipped}"
    by (rule run_item_result)
  have "counted (ru_result (run_item now config t atomic act (k, plan) st))"
    unfolding item(1) using counted_add [OF Cons.prems(1)] item(2, 3) Cons.prems(2) by simp
  from Cons.IH [OF this, of "Suc k"] show ?case using item(1) Cons.prems(2) by simp
qed simp

lemma undo_item_simps:
  "pi_status x \<noteq> ItSuccess \<Longrightarrow> undo_item t x (r, a) = (r\<lparr>be_results := be_results r @ [x]\<rparr>, a)"
  "pi_status x = ItSuccess \<Longrightarrow> undo_item t x (r, a) =
     (r\<lparr>be_results := be_results r @ [x\<lparr>pi_status := ItSkipped, pi_message := Some ''Rolled back (atomic failure)''\<rparr>],
        be_skippedItems := be_skippedItems r + 1\<rparr>, a - {idempotencyKey t (pi_subscriptionId x)})"
  by (simp_all add: undo_item_def)

lemma undo_fold:
  assumes "be_failedItems r = f" "be_successfulItems r = c" "be_skippedItems r = k"
  shows "\<exists>items' applied'. fold (undo_item t) items (r, applied) =
      (r\<lparr>be_results := be_results r @ items', be_skippedItems := k + count_status ItSuccess items\<rparr>, applied')
    \<and> map pi_index items' = map pi_index items \<and> count_status ItSuccess items' = 0
    \<and> count_status ItFailed items' = count_status ItFailed items
    \<and> count_status ItSkipped items' = count_status ItSkipped items + count_status ItSuccess items
    \<and> ((\<forall>i\<in>set items. pi_status i \<in> {ItSuccess, ItFailed, ItSkipped}) \<longrightarrow> (\<forall>i\<in>set items'. pi_status i \<in> {ItSuccess, ItFailed, ItSkipped}))
    \<and> applied' = applied - {idempotencyKey t (pi_subscriptionId i) | i. i \<in> set items \<and> pi_status i = ItSuccess}"
  using assms
proof (induction items arbitrary: r applied k)
  case Nil
  then show ?case by (intro exI [of _ "[]"] exI [of _ applied]) auto
next
  case (Cons x items)
  show ?case
  proof (cases "pi_status x = ItSuccess")
    case False
    let ?r = "r\<lparr>be_results := be_results r @ [x]\<rparr>"
    obtain items' applied' where h: "fold (undo_item t) items (?r, applied) =
        (?r\<lparr>be_results := be_results ?r @ items', be_skippedItems := k + count_status ItSuccess items\<rparr>, applied')"
      "map pi_index items' = map pi_index items" "count_status ItSuccess items' = 0" "count_status ItFailed items' = count_status ItFailed items"
      "count_status ItSkipped items' = count_status ItSkipped items + count_status ItSuccess items"
      "(\<forall>i\<in>set items. pi_status i \<in> {ItSuccess, ItFailed, ItSkipped}) \<longrightarrow> (\<forall>i\<in>set items'. pi_status i \<in> {ItSuccess, ItFailed, ItSkipped})"
      "applied' = applied - {idempotencyKey t (pi_subscriptionId i) | i. i \<in> set items \<and> pi_status i = ItSuccess}"
      using Cons.IH [of ?r k applied] Cons.prems by auto
    show ?thesis
      by (intro exI [of _ "x # items'"] exI [of _ applied']) (use h False in \<open>auto simp: undo_item_simps\<close>)
  next
    case True
    let ?x = "x\<lparr>pi_status := ItSkipped, pi_message := Some ''Rolled back (atomic failure)''\<rparr>"
    let ?r = "r\<lparr>be_results := be_results r @ [?x], be_skippedItems := be_skippedItems r + 1\<rparr>"
    let ?a = "applied - {idempotencyKey t (pi_subscriptionId x)}"
    obtain items' applied' where h: "fold (undo_item t) items (?r, ?a) =
        (?r\<lparr>be_results := be_results ?r @ items', be_skippedItems := k + 1 + count_status ItSuccess items\<rparr>, applied')"
      "map pi_index items' = map pi_index items" "count_status ItSuccess items' = 0" "count_status ItFailed items' = count_status ItFailed items"
      "count_status ItSkipped items' = count_status ItSkipped items + count_status ItSuccess items"
      "(\<forall>i\<in>set items. pi_status i \<in> {ItSuccess, ItFailed, ItSkipped}) \<longrightarrow> (\<forall>i\<in>set items'. pi_status i \<in> {ItSuccess, ItFailed, ItSkipped})"
      "applied' = ?a - {idempotencyKey t (pi_subscriptionId i) | i. i \<in> set items \<and> pi_status i = ItSuccess}"
      using Cons.IH [of ?r "k + 1" ?a] Cons.prems by auto
    show ?thesis
      by (intro exI [of _ "?x # items'"] exI [of _ applied']) (use h True in \<open>auto simp: undo_item_simps\<close>)
  qed
qed
text \<open>The books of a result: failed and skipped items are counted exactly, successful ones exactly as long as no revert has
  failed, and never too low.\<close>

definition books :: "bool \<Rightarrow> BatchExecutionResult \<Rightarrow> bool" where
  "books clean r \<longleftrightarrow> be_failedItems r = count_status ItFailed (be_results r) \<and> be_skippedItems r = count_status ItSkipped (be_results r)
     \<and> count_status ItSuccess (be_results r) \<le> be_successfulItems r
     \<and> (clean \<longrightarrow> be_successfulItems r = count_status ItSuccess (be_results r))
     \<and> map pi_index (be_results r) = [0..<length (be_results r)]
     \<and> (\<forall>i\<in>set (be_results r). pi_status i \<in> {ItSuccess, ItFailed, ItSkipped})
     \<and> (if be_rejectionReason r = None then be_totalItems r = int (length (be_results r)) else be_results r = [] \<and> be_successfulItems r = 0)"

lemma counted_books: "counted r \<Longrightarrow> be_rejectionReason r = None \<Longrightarrow> be_totalItems r = int (length (be_results r)) \<Longrightarrow> books True r"
  by (simp add: counted_def books_def)

lemma counted_fresh: "counted (fresh_result uid t n atomic began opts)"
  by (simp add: counted_def fresh_result_def)

lemma settle_run_books:
  assumes c: "counted (ru_result st)" "be_rejectionReason (ru_result st) = None"
    "be_totalItems (ru_result st) = int (length (be_results (ru_result st)))"
    and s: "settle_run now t atomic began st = (r, applied)"
  shows "books True r \<and> be_rejectionReason r = None \<and> (be_rolledBack r \<longleftrightarrow> atomic \<and> 0 < be_failedItems r)
    \<and> be_failedItems r = be_failedItems (ru_result st) \<and> be_totalItems r = be_totalItems (ru_result st)
    \<and> be_state r = (if be_rolledBack r then BsFailed else if be_failedItems r = 0 then BsCompleted else BsPartial)
    \<and> (be_rolledBack r \<longrightarrow> be_successfulItems r = 0)"
proof (cases "atomic \<and> 0 < be_failedItems (ru_result st)")
  case False
  then have "r = (ru_result st)\<lparr>be_rolledBack := False, be_completedAt := Some (now (ru_world st)), be_durationMs := Some (now (ru_world st) - began),
      be_state := (if be_failedItems (ru_result st) = 0 then BsCompleted else BsPartial)\<rparr>"
    using s by (auto simp: settle_run_def Let_def)
  then show ?thesis using c False by (auto simp: counted_def books_def)
next
  case True
  define r1 where "r1 = (ru_result st)\<lparr>be_rolledBack := True, be_completedAt := Some (now (ru_world st)),
      be_durationMs := Some (now (ru_world st) - began), be_state := BsFailed\<rparr>"
  have u: "undo_atomic t r1 (ru_applied st) = (r, applied)" using s True by (simp add: settle_run_def Let_def r1_def)
  have same: "be_results r1 = be_results (ru_result st)" by (simp add: r1_def)
  let ?r = "r1\<lparr>be_results := []\<rparr>"
  obtain items' applied' where h: "fold (undo_item t) (be_results r1) (?r, ru_applied st) =
      (?r\<lparr>be_results := be_results ?r @ items', be_skippedItems := be_skippedItems ?r + count_status ItSuccess (be_results r1)\<rparr>, applied')"
    "map pi_index items' = map pi_index (be_results r1)" "count_status ItSuccess items' = 0"
    "count_status ItFailed items' = count_status ItFailed (be_results r1)"
    "count_status ItSkipped items' = count_status ItSkipped (be_results r1) + count_status ItSuccess (be_results r1)"
    "(\<forall>i\<in>set (be_results r1). pi_status i \<in> {ItSuccess, ItFailed, ItSkipped}) \<longrightarrow> (\<forall>i\<in>set items'. pi_status i \<in> {ItSuccess, ItFailed, ItSkipped})"
    using undo_fold [OF refl refl refl, of t "be_results r1" ?r "ru_applied st"] by blast
  have len: "length items' = length (be_results r1)" using h(2) by (metis length_map)
  have "r = r1\<lparr>be_results := items', be_skippedItems := be_skippedItems r1 + count_status ItSuccess (be_results r1), be_successfulItems := 0\<rparr>"
    using u unfolding undo_atomic_def h(1) by simp
  then show ?thesis using c True h(2-6) len by (auto simp: counted_def books_def r1_def)
qed

lemma run_batch_facts:
  assumes run: "run_batch uid now t plans act opts s w = (r, s1, w1)"
  shows "books True r \<and> bt_currentResult s1 = Some r \<and> be_totalItems r = int (length plans)
    \<and> (be_rejectionReason r = None \<longleftrightarrow> plans \<noteq> [] \<and> int (length plans) \<le> oc_maxItems (getOperationConfig t s))
    \<and> (be_rejectionReason r \<noteq> None \<longrightarrow> be_state r = BsFailed \<and> w1 = w \<and> bt_appliedItems s1 = bt_appliedItems s)
    \<and> (be_rejectionReason r = None \<longrightarrow> (be_rolledBack r \<longleftrightarrow> the_or (ro_atomic opts) (oc_atomicDefault (getOperationConfig t s)) \<and> 0 < be_failedItems r)
         \<and> be_state r = (if be_rolledBack r then BsFailed else if be_failedItems r = 0 then BsCompleted else BsPartial)
         \<and> (be_rolledBack r \<longrightarrow> be_successfulItems r = 0))"
proof -
  define c where "c = getOperationConfig t s"
  define atomic where "atomic = the_or (ro_atomic opts) (oc_atomicDefault c)"
  define r0 where "r0 = fresh_result uid t (length plans) atomic (now w) opts"
  have r0: "counted r0" "be_results r0 = []" "be_totalItems r0 = int (length plans)" "be_rejectionReason r0 = None"
    unfolding r0_def by (rule counted_fresh) (simp_all add: fresh_result_def)
  have v: "validateBatchSizeFor t (int (length plans)) c = None \<longleftrightarrow> plans \<noteq> [] \<and> int (length plans) \<le> oc_maxItems c"
    by (auto simp: validateBatchSizeFor_def)
  show ?thesis
  proof (cases "validateBatchSizeFor t (int (length plans)) c")
    case (Some reason)
    then have e: "r = refused_result reason (now w) r0" "s1 = recordBatchHistory (now w) r (s\<lparr>bt_currentResult := Some r\<rparr>)" "w1 = w"
      using run Some by (auto simp: run_batch_def c_def [symmetric] atomic_def [symmetric] r0_def [symmetric] Let_def)
    have "books True r" using r0 by (simp add: e(1) refused_result_def counted_def books_def r0_def fresh_result_def)
    then show ?thesis using e r0 v Some by (simp add: refused_result_def recordBatchHistory_def c_def)
  next
    case None
    define st where "st = run_chunks now c t atomic act plans 0 \<lparr>ru_aborted = False, ru_result = r0, ru_applied = bt_appliedItems s, ru_world = w\<rparr>"
    have st: "counted (ru_result st)" "length (be_results (ru_result st)) = length plans" "be_totalItems (ru_result st) = int (length plans)"
      "be_rejectionReason (ru_result st) = None"
      using run_items_counted [of "\<lparr>ru_aborted = False, ru_result = r0, ru_applied = bt_appliedItems s, ru_world = w\<rparr>" 0 now c t atomic act plans] r0
      unfolding st_def run_chunks_flat by simp_all
    obtain q a where q: "settle_run now t atomic (now w) st = (q, a)" by fastforce
    have e: "r = q" "s1 = recordBatchHistory (now (ru_world st)) r (s\<lparr>bt_currentResult := Some r, bt_appliedItems := a\<rparr>)"
      using run None q by (auto simp: run_batch_def c_def [symmetric] atomic_def [symmetric] r0_def [symmetric] st_def [symmetric] Let_def)
    have "be_totalItems (ru_result st) = int (length (be_results (ru_result st)))" using st(2, 3) by simp
    note f = settle_run_books [OF st(1, 4) this q]
    show ?thesis using f e st v None
      by (simp add: recordBatchHistory_def c_def [symmetric] atomic_def [symmetric])
  qed
qed

text \<open>Retrying.\<close>

lemma retried_item_simps [simp]:
  "pi_index (retried_item at_time answer item) = pi_index item"
  "pi_status (retried_item at_time answer item) = (if succeeded answer then ItSuccess else pi_status item)"
  by (simp_all add: retried_item_def succeeded_def split: sum.split)

lemma retry_item_cases:
  assumes "retry_item now sleep config retry retryFn item st = st'"
  shows "\<exists>item' d. d \<in> {0, 1} \<and> pi_index item' = pi_index item
    \<and> (if d = 1 then pi_status item = ItFailed \<and> pi_status item' = ItSuccess else pi_status item' = pi_status item)
    \<and> re_result st' = (re_result st)\<lparr>be_results := be_results (re_result st) @ [item'], be_successfulItems := be_successfulItems (re_result st) + d,
        be_failedItems := be_failedItems (re_result st) - d\<rparr>"
proof (cases "pi_status item \<noteq> ItFailed \<or> rc_maxRetries retry \<le> pi_retryCount item")
  case True
  then show ?thesis using assms by (intro exI [of _ item] exI [of _ 0]) (auto simp: retry_item_def Let_def)
next
  case False
  obtain answer w1 where a: "retryFn item (sleep (rc_retryDelayMs retry * rc_backoffMultiplier retry ^ nat (pi_retryCount item)) (re_world st)) = (answer, w1)"
    by fastforce
  have "re_result st' = (re_result st)\<lparr>be_results := be_results (re_result st) @ [retried_item (now w1) answer item],
      be_successfulItems := be_successfulItems (re_result st) + (if succeeded answer then 1 else 0),
      be_failedItems := be_failedItems (re_result st) - (if succeeded answer then 1 else 0)\<rparr>"
    unfolding assms [symmetric] retry_item_def Let_def if_not_P [OF False] a prod.case by simp
  then show ?thesis using False
    by (intro exI [of _ "retried_item (now w1) answer item"] exI [of _ "if succeeded answer then 1 else 0"]) simp
qed

lemma retry_fold:
  "\<exists>items' d. 0 \<le> d \<and> map pi_index items' = map pi_index items
     \<and> count_status ItSuccess items' = count_status ItSuccess items + d \<and> count_status ItFailed items' = count_status ItFailed items - d
     \<and> count_status ItSkipped items' = count_status ItSkipped items
     \<and> ((\<forall>i\<in>set items. pi_status i \<in> {ItSuccess, ItFailed, ItSkipped}) \<longrightarrow> (\<forall>i\<in>set items'. pi_status i \<in> {ItSuccess, ItFailed, ItSkipped}))
     \<and> re_result (fold (retry_item now sleep config retry retryFn) items st) =
         (re_result st)\<lparr>be_results := be_results (re_result st) @ items', be_successfulItems := be_successfulItems (re_result st) + d,
           be_failedItems := be_failedItems (re_result st) - d\<rparr>"
proof (induction items arbitrary: st)
  case Nil
  then show ?case by (intro exI [of _ "[]"] exI [of _ 0]) simp
next
  case (Cons item items)
  let ?st = "retry_item now sleep config retry retryFn item st"
  obtain item' d1 where 1: "d1 \<in> {0, 1}" "pi_index item' = pi_index item"
    "if d1 = 1 then pi_status item = ItFailed \<and> pi_status item' = ItSuccess else pi_status item' = pi_status item"
    "re_result ?st = (re_result st)\<lparr>be_results := be_results (re_result st) @ [item'], be_successfulItems := be_successfulItems (re_result st) + d1,
        be_failedItems := be_failedItems (re_result st) - d1\<rparr>"
    using retry_item_cases [where now = now and sleep = sleep and config = config and retry = retry and retryFn = retryFn and item = item and st = st, OF refl] by blast
  obtain items' d where 2: "0 \<le> d" "map pi_index items' = map pi_index items"
    "count_status ItSuccess items' = count_status ItSuccess items + d" "count_status ItFailed items' = count_status ItFailed items - d"
    "count_status ItSkipped items' = count_status ItSkipped items"
    "(\<forall>i\<in>set items. pi_status i \<in> {ItSuccess, ItFailed, ItSkipped}) \<longrightarrow> (\<forall>i\<in>set items'. pi_status i \<in> {ItSuccess, ItFailed, ItSkipped})"
    "re_result (fold (retry_item now sleep config retry retryFn) items ?st) =
       (re_result ?st)\<lparr>be_results := be_results (re_result ?st) @ items', be_successfulItems := be_successfulItems (re_result ?st) + d,
         be_failedItems := be_failedItems (re_result ?st) - d\<rparr>"
    using Cons.IH [of ?st] by blast
  show ?case
  proof (intro exI [of _ "item' # items'"] exI [of _ "d1 + d"] conjI)
    show "0 \<le> d1 + d" using 1(1) 2(1) by auto
    show "map pi_index (item' # items') = map pi_index (item # items)" using 1(2) 2(2) by simp
    show "count_status ItSuccess (item' # items') = count_status ItSuccess (item # items) + (d1 + d)"
      "count_status ItFailed (item' # items') = count_status ItFailed (item # items) - (d1 + d)"
      "count_status ItSkipped (item' # items') = count_status ItSkipped (item # items)"
      using 1(1, 3) 2(3-5) by (auto split: if_splits)
    show "(\<forall>i\<in>set (item # items). pi_status i \<in> {ItSuccess, ItFailed, ItSkipped}) \<longrightarrow>
        (\<forall>i\<in>set (item' # items'). pi_status i \<in> {ItSuccess, ItFailed, ItSkipped})"
      using 1(3) 2(6) by (auto split: if_splits)
    show "re_result (fold (retry_item now sleep config retry retryFn) (item # items) st) =
         (re_result st)\<lparr>be_results := be_results (re_result st) @ item' # items', be_successfulItems := be_successfulItems (re_result st) + (d1 + d),
           be_failedItems := be_failedItems (re_result st) - (d1 + d)\<rparr>"
      using 2(7) unfolding 1(4) by (simp add: add.assoc diff_diff_add)
  qed
qed

lemma retry_books:
  assumes "bt_currentResult s = Some r" "books clean r" "retryFailedItems now sleep retryFn s w = (x, s1, w1)"
  shows "\<exists>r1. x = Some r1 \<and> bt_currentResult s1 = Some r1 \<and> books clean r1"
proof (cases "filter (\<lambda>i. pi_status i = ItFailed) (be_results r) = []")
  case True
  then have "x = Some r \<and> s1 = s" using assms(1, 3) unfolding retryFailedItems_def assms(1) option.case if_P [OF True] by auto
  then show ?thesis using assms(1, 2) by simp
next
  case False
  define st where "st = fold (retry_item now sleep (getOperationConfig (be_operationType r) s) (getRetryConfig (be_operationType r) s) retryFn)
      (be_results r) \<lparr>re_result = r\<lparr>be_state := BsProcessing, be_results := []\<rparr>, re_applied = bt_appliedItems s, re_world = w\<rparr>"
  define r1 where "r1 = (re_result st)\<lparr>be_completedAt := Some (now (re_world st)),
      be_state := (if be_failedItems (re_result st) = 0 then BsCompleted else BsPartial)\<rparr>"
  obtain items' d where h: "0 \<le> d" "map pi_index items' = map pi_index (be_results r)"
    "count_status ItSuccess items' = count_status ItSuccess (be_results r) + d" "count_status ItFailed items' = count_status ItFailed (be_results r) - d"
    "count_status ItSkipped items' = count_status ItSkipped (be_results r)"
    "(\<forall>i\<in>set (be_results r). pi_status i \<in> {ItSuccess, ItFailed, ItSkipped}) \<longrightarrow> (\<forall>i\<in>set items'. pi_status i \<in> {ItSuccess, ItFailed, ItSkipped})"
    "re_result st = r\<lparr>be_state := BsProcessing, be_results := items', be_successfulItems := be_successfulItems r + d, be_failedItems := be_failedItems r - d\<rparr>"
    using retry_fold [where items = "be_results r" and now = now and sleep = sleep and retryFn = retryFn
        and config = "getOperationConfig (be_operationType r) s" and retry = "getRetryConfig (be_operationType r) s"
        and st = "\<lparr>re_result = r\<lparr>be_state := BsProcessing, be_results := []\<rparr>, re_applied = bt_appliedItems s, re_world = w\<rparr>"]
    unfolding st_def by auto
  have len: "length items' = length (be_results r)" using h(2) by (metis length_map)
  have nonempty: "be_results r \<noteq> []" using False by auto
  have "x = Some r1 \<and> bt_currentResult s1 = Some r1"
    using assms(3) unfolding retryFailedItems_def assms(1) option.case if_not_P [OF False] Let_def st_def [symmetric] r1_def [symmetric] by auto
  moreover have "books clean r1" using assms(2) h len nonempty by (auto simp: books_def r1_def)
  ultimately show ?thesis by blast
qed
text \<open>Reverting.\<close>

lemma revert_fold:
  "\<exists>items'. map pi_index items' = map pi_index items \<and> (\<forall>i\<in>set items'. pi_status i \<in> {ItFailed, ItSkipped})
     \<and> rl_items (fold (revert_item now t f) items st) = rl_items st @ items'
     \<and> rl_reverted (fold (revert_item now t f) items st) = rl_reverted st + count_status ItSkipped items'
     \<and> rl_failed (fold (revert_item now t f) items st) = rl_failed st + count_status ItFailed items'"
proof (induction items arbitrary: st)
  case (Cons item items)
  obtain answer w1 where a: "f item t (rl_world st) = (answer, w1)" by fastforce
  let ?st = "revert_item now t f item st"
  obtain item' where 1: "pi_index item' = pi_index item" "pi_status item' \<in> {ItFailed, ItSkipped}" "rl_items ?st = rl_items st @ [item']"
    "rl_reverted ?st = rl_reverted st + (if pi_status item' = ItSkipped then 1 else 0)"
    "rl_failed ?st = rl_failed st + (if pi_status item' = ItFailed then 1 else 0)"
    by (cases "succeeded answer") (fastforce simp: revert_item_def a)+
  obtain items' where 2: "map pi_index items' = map pi_index items" "\<forall>i\<in>set items'. pi_status i \<in> {ItFailed, ItSkipped}"
    "rl_items (fold (revert_item now t f) items ?st) = rl_items ?st @ items'"
    "rl_reverted (fold (revert_item now t f) items ?st) = rl_reverted ?st + count_status ItSkipped items'"
    "rl_failed (fold (revert_item now t f) items ?st) = rl_failed ?st + count_status ItFailed items'"
    using Cons.IH [of ?st] by blast
  show ?case by (intro exI [of _ "item' # items'"]) (use 1 2 in simp)
qed simp

lemma lookup_items:
  "map_of (rev (map (\<lambda>i. (pi_index i, i)) (y # ys))) k =
     (case map_of (rev (map (\<lambda>i. (pi_index i, i)) ys)) k of Some z \<Rightarrow> Some z | None \<Rightarrow> if k = pi_index y then Some y else None)"
  by (auto simp: map_add_def split: option.split)

lemma lookup_absent: "k \<notin> set (map pi_index ys) \<Longrightarrow> map_of (rev (map (\<lambda>i. (pi_index i, i)) ys)) k = None"
  by (auto simp: map_of_eq_None_iff)

lemma merge_items_count:
  assumes "distinct (map pi_index results)" "map pi_index items = map pi_index (filter P results)"
  shows "map pi_index (merge_items items results) = map pi_index results
    \<and> count_status st (merge_items items results) = count_status st (filter (\<lambda>i. \<not> P i) results) + count_status st items
    \<and> set (merge_items items results) \<subseteq> set results \<union> set items"
  using assms
proof (induction results arbitrary: items)
  case Nil
  then show ?case by (simp add: merge_items_def)
next
  case (Cons x results)
  have fresh: "pi_index x \<notin> set (map pi_index results)" "distinct (map pi_index results)" using Cons.prems(1) by auto
  show ?case
  proof (cases "P x")
    case True
    then obtain y ys where items: "items = y # ys" "pi_index y = pi_index x" "map pi_index ys = map pi_index (filter P results)"
      using Cons.prems(2) by (cases items) auto
    have "set (map pi_index ys) \<subseteq> set (map pi_index results)" unfolding items(3) by auto
    then have none: "map_of (rev (map (\<lambda>i. (pi_index i, i)) ys)) (pi_index x) = None" using fresh(1) by (intro lookup_absent) blast
    have "pi_index z \<noteq> pi_index y" if "z \<in> set results" for z using that fresh(1) items(2) by (metis image_eqI set_map)
    then have "merge_items items results = merge_items ys results"
      unfolding merge_items_def items(1) lookup_items by (intro map_cong [OF refl]) (simp split: option.split)
    moreover have "merge_items items (x # results) = y # merge_items items results"
      unfolding merge_items_def items(1) using none by (simp add: items(2) map_add_def)
    ultimately show ?thesis using Cons.IH [OF fresh(2) items(3)] True items by auto
  next
    case False
    then have m: "map pi_index items = map pi_index (filter P results)" using Cons.prems(2) by simp
    then have "set (map pi_index items) \<subseteq> set (map pi_index results)" by auto
    then have none: "map_of (rev (map (\<lambda>i. (pi_index i, i)) items)) (pi_index x) = None" using fresh(1) by (intro lookup_absent) blast
    have "merge_items items (x # results) = x # merge_items items results"
      unfolding merge_items_def list.map none by simp
    then show ?thesis using Cons.IH [OF fresh(2) m] False by auto
  qed
qed

lemma filter_status_count:
  "count_status ItSuccess (filter (\<lambda>i. pi_status i \<noteq> ItSuccess) xs) = 0"
  "count_status ItFailed (filter (\<lambda>i. pi_status i \<noteq> ItSuccess) xs) = count_status ItFailed xs"
  "count_status ItSkipped (filter (\<lambda>i. pi_status i \<noteq> ItSuccess) xs) = count_status ItSkipped xs"
  by (induction xs) auto

lemma rollback_facts:
  assumes cur: "bt_currentResult s = Some r" and b: "books clean r" and can: "canRollback s"
    and run: "rollbackBatch now f s w = (x, s1, w1)"
  shows "\<exists>b r1. x = Some b \<and> bt_currentResult s1 = Some r1 \<and> books (clean \<and> bl_failed b = 0) r1
    \<and> 0 \<le> bl_failed b \<and> 0 \<le> bl_reverted b \<and> int (bl_attempted b) = bl_reverted b + bl_failed b
    \<and> int (bl_attempted b) = count_status ItSuccess (be_results r) \<and> count_status ItSuccess (be_results r1) = 0
    \<and> be_successfulItems r1 = be_successfulItems r - bl_reverted b \<and> be_totalItems r1 = be_totalItems r
    \<and> be_operationType r1 = be_operationType r \<and> be_rolledBack r1 = (bl_failed b = 0)
    \<and> be_state r1 = (if bl_failed b = 0 then BsRolledBack else BsPartial)
    \<and> bt_configOverrides s1 = bt_configOverrides s \<and> bt_chunkSizeOverride s1 = bt_chunkSizeOverride s
    \<and> (be_rejectionReason r = None \<longrightarrow> be_rejectionReason r1 = None)"
proof -
  let ?committed = "filter (\<lambda>i. pi_status i = ItSuccess) (be_results r)"
  define st where "st = fold (revert_item now (be_operationType r) f) ?committed
      \<lparr>rl_reverted = 0, rl_failed = 0, rl_items = [], rl_applied = bt_appliedItems s, rl_world = w\<rparr>"
  define r1 where "r1 = r\<lparr>be_results := merge_items (rl_items st) (be_results r),
      be_state := (if rl_failed st = 0 then BsRolledBack else BsPartial), be_rolledBack := (rl_failed st = 0),
      be_successfulItems := be_successfulItems r - rl_reverted st, be_failedItems := be_failedItems r + rl_failed st,
      be_skippedItems := be_skippedItems r + rl_reverted st, be_completedAt := Some (now (rl_world st))\<rparr>"
  define b where "b = \<lparr>bl_batchId = be_batchId r, bl_operationType = be_operationType r, bl_attempted = length ?committed,
      bl_reverted = rl_reverted st, bl_failed = rl_failed st, bl_items = rl_items st, bl_completedAt = now (rl_world st)\<rparr>"
  have out: "x = Some b" "s1 = recordBatchHistory (now (rl_world st)) r1 (s\<lparr>bt_currentResult := Some r1, bt_appliedItems := rl_applied st\<rparr>)"
    using run can unfolding rollbackBatch_def cur option.case Let_def st_def [symmetric] r1_def [symmetric] b_def [symmetric] by auto
  obtain items' where h: "map pi_index items' = map pi_index ?committed" "\<forall>i\<in>set items'. pi_status i \<in> {ItFailed, ItSkipped}"
    "rl_items st = items'" "rl_reverted st = count_status ItSkipped items'" "rl_failed st = count_status ItFailed items'"
    using revert_fold [of ?committed now "be_operationType r" f "\<lparr>rl_reverted = 0, rl_failed = 0, rl_items = [], rl_applied = bt_appliedItems s, rl_world = w\<rparr>"]
    unfolding st_def by auto
  have idx: "map pi_index (be_results r) = [0..<length (be_results r)]" using \<open>books clean r\<close> by (simp add: books_def)
  then have dist: "distinct (map pi_index (be_results r))" by simp
  note m = merge_items_count [OF dist h(1)]
  have len: "length (merge_items items' (be_results r)) = length (be_results r)" by (simp add: merge_items_def)
  have none: "count_status ItSuccess items' = 0" using h(2) by (auto simp: count_status_def filter_empty_conv)
  have all: "int (length ?committed) = count_status ItSkipped items' + count_status ItFailed items'"
  proof -
    have "length items' = length ?committed" using h(1) by (metis length_map)
    moreover have "int (length items') = count_status ItSkipped items' + count_status ItFailed items'"
      using h(2) by (induction items') auto
    ultimately show ?thesis by simp
  qed
  have succ: "int (length ?committed) = count_status ItSuccess (be_results r)" by (simp add: count_status_def)
  have "books (clean \<and> rl_failed st = 0) r1"
  proof -
    have "count_status ItSuccess (merge_items items' (be_results r)) = 0"
      "count_status ItFailed (merge_items items' (be_results r)) = count_status ItFailed (be_results r) + count_status ItFailed items'"
      "count_status ItSkipped (merge_items items' (be_results r)) = count_status ItSkipped (be_results r) + count_status ItSkipped items'"
      using m none filter_status_count [of "be_results r"] by simp_all
    moreover have "\<forall>i\<in>set (merge_items items' (be_results r)). pi_status i \<in> {ItSuccess, ItFailed, ItSkipped}"
      using m h(2) \<open>books clean r\<close> by (auto simp: books_def)
    moreover have "merge_items items' (be_results r) = []" if "be_results r = []" using that by (simp add: merge_items_def)
    moreover have "count_status ItSkipped items' \<le> be_successfulItems r"
    proof -
      have "count_status ItSuccess (be_results r) \<le> be_successfulItems r" using \<open>books clean r\<close> by (simp add: books_def)
      then show ?thesis using all succ count_status_nonneg [of ItFailed items'] by linarith
    qed
    ultimately show ?thesis using \<open>books clean r\<close> m h(3-5) len all succ idx
      by (auto simp: books_def r1_def)
  qed
  moreover have "count_status ItSuccess (be_results r1) = 0"
    using m none filter_status_count [of "be_results r"] by (simp add: r1_def h(3))
  ultimately show ?thesis using out h(3-5) all succ
    by (intro exI [of _ b] exI [of _ r1]) (simp add: b_def r1_def recordBatchHistory_def)
qed

section \<open>Runs of the service\<close>

datatype 'w batch_op =
    RunBatch string "'w \<Rightarrow> int" BatchOperationType "BatchItemPlan list" "'w applier" RunOptions
  | RetryFailed "'w \<Rightarrow> int" "rat \<Rightarrow> 'w \<Rightarrow> 'w" "PerItemResult \<Rightarrow> 'w \<Rightarrow> (string + RetryAnswer) \<times> 'w"
  | Rollback "'w \<Rightarrow> int" "PerItemResult \<Rightarrow> BatchOperationType \<Rightarrow> 'w \<Rightarrow> (string + RetryAnswer) \<times> 'w"
  | SetChunk int
  | SetRetry RetryPatch
  | SetOperation BatchOperationType ConfigPatch
  | ClearResult
  | ClearKeys

text \<open>The first component says whether every revert of the current result has succeeded.\<close>

fun batch_step :: "bool \<times> BatchTransactionService \<times> 'w \<Rightarrow> 'w batch_op \<Rightarrow> bool \<times> BatchTransactionService \<times> 'w" where
  "batch_step (clean, s, w) (RunBatch uid now t plans act opts) =
     (case run_batch uid now t plans act opts s w of (_, s1, w1) \<Rightarrow> (True, s1, w1))"
| "batch_step (clean, s, w) (RetryFailed now sleep f) = (case retryFailedItems now sleep f s w of (_, s1, w1) \<Rightarrow> (clean, s1, w1))"
| "batch_step (clean, s, w) (Rollback now f) =
     (case rollbackBatch now f s w of (x, s1, w1) \<Rightarrow>
        ((case x of None \<Rightarrow> clean | Some b \<Rightarrow> clean \<and> bl_failed b = 0), s1, w1))"
| "batch_step (clean, s, w) (SetChunk n) = (clean, setChunkSize n s, w)"
| "batch_step (clean, s, w) (SetRetry p) = (clean, setRetryConfig p s, w)"
| "batch_step (clean, s, w) (SetOperation t p) = (clean, setOperationConfig t p s, w)"
| "batch_step (clean, s, w) ClearResult = (clean, clearResult s, w)"
| "batch_step (clean, s, w) ClearKeys = (clean, clearIdempotencyKeys s, w)"

definition batch_ok :: "bool \<times> BatchTransactionService \<times> 'w \<Rightarrow> bool" where
  "batch_ok st = (case st of (clean, s, w) \<Rightarrow> (case bt_currentResult s of None \<Rightarrow> True | Some r \<Rightarrow> books clean r))"

lemma batch_ok_step: assumes "batch_ok st" shows "batch_ok (batch_step st e)"
proof -
  obtain clean s w where st: "st = (clean, s, w)" by (cases st)
  show ?thesis
  proof (cases e)
    case (RunBatch uid now t plans act opts)
    obtain r s1 w1 where r: "run_batch uid now t plans act opts s w = (r, s1, w1)" by (cases "run_batch uid now t plans act opts s w")
    show ?thesis using run_batch_facts [OF r] by (simp add: st RunBatch r batch_ok_def)
  next
    case (RetryFailed now sleep f)
    obtain x s1 w1 where r: "retryFailedItems now sleep f s w = (x, s1, w1)" by (cases "retryFailedItems now sleep f s w")
    show ?thesis
    proof (cases "bt_currentResult s")
      case None
      then show ?thesis using r by (auto simp: st RetryFailed batch_ok_def retryFailedItems_def)
    next
      case (Some q)
      then show ?thesis using retry_books [OF Some _ r, of clean] assms by (auto simp: st RetryFailed r batch_ok_def)
    qed
  next
    case (Rollback now f)
    obtain x s1 w1 where r: "rollbackBatch now f s w = (x, s1, w1)" by (cases "rollbackBatch now f s w")
    show ?thesis
    proof (cases "bt_currentResult s = None \<or> \<not> canRollback s")
      case True
      then have "x = None \<and> s1 = s" using r by (auto simp: rollbackBatch_def split: option.splits if_splits)
      then show ?thesis using assms r by (simp add: st Rollback batch_ok_def)
    next
      case False
      then obtain q where q: "bt_currentResult s = Some q" "canRollback s" by auto
      have "books clean q" using assms q by (simp add: st batch_ok_def)
      from rollback_facts [OF q(1) this q(2) r] show ?thesis by (auto simp: st Rollback r batch_ok_def)
    qed
  qed (use assms in \<open>simp_all add: st batch_ok_def setRetryConfig_def setOperationConfig_def clearResult_def clearIdempotencyKeys_def Let_def\<close>)
qed

interpretation batches: machine batch_step batch_ok
  by unfold_locales (rule batch_ok_step)

text \<open>The history is cut to its newest entries at every step.\<close>

definition history_ok :: "bool \<times> BatchTransactionService \<times> 'w \<Rightarrow> bool" where
  "history_ok st \<longleftrightarrow> length (bt_history (fst (snd st))) \<le> 50"

lemma record_history_ok: "length (bt_history (recordBatchHistory now r s)) \<le> 50"
  by (simp add: recordBatchHistory_def MAX_HISTORY_ENTRIES_def)

lemma history_ok_step: "history_ok st \<Longrightarrow> history_ok (batch_step st e)"
proof -
  assume h: "history_ok st"
  obtain clean s w where st: "st = (clean, s, w)" by (cases st)
  show ?thesis
  proof (cases e)
    case (RunBatch uid now t plans act opts)
    then show ?thesis using record_history_ok by (auto simp: st history_ok_def run_batch_def Let_def split: option.split prod.split)
  next
    case (RetryFailed now sleep f)
    then show ?thesis using h by (auto simp: st history_ok_def retryFailedItems_def Let_def split: option.split prod.split)
  next
    case (Rollback now f)
    then show ?thesis using h record_history_ok
      by (auto simp: st history_ok_def rollbackBatch_def Let_def split: option.split prod.split)
  qed (use h in \<open>simp_all add: st history_ok_def setRetryConfig_def setOperationConfig_def setChunkSize_def clearResult_def clearIdempotencyKeys_def Let_def\<close>)
qed

interpretation batch_history: machine batch_step history_ok
  by unfold_locales (rule history_ok_step)

text \<open>C15: In every sequence of batches, retries, rollbacks and configuration changes the current result keeps its books: its
  items are numbered from the start and settled, as many as the batch had unless it was refused whole, the failed and
  skipped ones counted exactly, the successful ones too while no revert has failed, and otherwise never too low. The history
  never holds more than 50 entries.\<close>

theorem batch_books_balance:
  assumes "foldl batch_step (True, newBatchTransactionService chunk, w) es = (clean, s, w1)" "bt_currentResult s = Some r"
  shows "be_failedItems r = count_status ItFailed (be_results r) \<and> be_skippedItems r = count_status ItSkipped (be_results r)
    \<and> count_status ItSuccess (be_results r) \<le> be_successfulItems r
    \<and> (clean \<longrightarrow> be_successfulItems r = count_status ItSuccess (be_results r))
    \<and> map pi_index (be_results r) = [0..<length (be_results r)]
    \<and> (\<forall>i\<in>set (be_results r). pi_status i \<in> {ItSuccess, ItFailed, ItSkipped})
    \<and> (if be_rejectionReason r = None then be_totalItems r = int (length (be_results r)) else be_results r = [] \<and> be_successfulItems r = 0)
    \<and> length (bt_history s) \<le> 50"
proof -
  have "batch_ok (True, newBatchTransactionService chunk, w)"
    by (cases chunk) (simp_all add: batch_ok_def newBatchTransactionService_def Let_def)
  note ok = batches.run_inv [OF this, of es]
  have "history_ok (True, newBatchTransactionService chunk, w)"
    by (cases chunk) (simp_all add: history_ok_def newBatchTransactionService_def setChunkSize_def Let_def)
  from batch_history.run_inv [OF this, of es] ok show ?thesis using assms by (simp add: batch_ok_def books_def history_ok_def)
qed

definition always_ok :: "'a \<Rightarrow> nat \<Rightarrow> 'w \<Rightarrow> (string + ApplyResult) \<times> 'w" where
  "always_ok plan i w = (Inr \<lparr>ap_success = True, ap_id = None, ap_error = None, ap_errorCode = None\<rparr>, w)"

lemma demo_update_run:
  "\<exists>s r. foldl batch_step (True, newBatchTransactionService None, ())
     [RunBatch ''b1'' (\<lambda>_. 0) OpUpdate [simple_plan ''s1'', simple_plan ''s2''] always_ok (run_options None)] = (True, s, ())
   \<and> bt_currentResult s = Some r \<and> be_totalItems r = 2 \<and> be_rejectionReason r = None"
proof -
  obtain r s w where run: "run_batch ''b1'' (\<lambda>_. 0) OpUpdate [simple_plan ''s1'', simple_plan ''s2''] always_ok (run_options None)
     (newBatchTransactionService None) () = (r, s, w)" by (metis prod_cases3)
  show ?thesis using run_batch_facts [OF run] run
    by (simp add: newBatchTransactionService_def getOperationConfig_def no_patch_def Let_def)
qed

lemma batch_books_balance_witness:
  "\<exists>s r. foldl batch_step (True, newBatchTransactionService None, ())
     [RunBatch ''b1'' (\<lambda>_. 0) OpUpdate [simple_plan ''s1'', simple_plan ''s2''] always_ok (run_options None)] = (True, s, ())
   \<and> bt_currentResult s = Some r \<and> length (be_results r) = 2 \<and> be_failedItems r = count_status ItFailed (be_results r)"
proof -
  obtain s r where h: "foldl batch_step (True, newBatchTransactionService None, ())
     [RunBatch ''b1'' (\<lambda>_. 0) OpUpdate [simple_plan ''s1'', simple_plan ''s2''] always_ok (run_options None)] = (True, s, ())"
    "bt_currentResult s = Some r" "be_totalItems r = 2" "be_rejectionReason r = None"
    using demo_update_run by blast
  show ?thesis using batch_books_balance [OF h(1, 2)] h by auto
qed
section \<open>Reverts that fail\<close>

lemma settled_length:
  "\<forall>i\<in>set xs. pi_status i \<in> {ItSuccess, ItFailed, ItSkipped} \<Longrightarrow>
     int (length xs) = count_status ItSuccess xs + count_status ItFailed xs + count_status ItSkipped xs"
  by (induction xs) auto

lemma rollback_nothing:
  assumes "bt_currentResult s = Some r" "count_status ItSuccess (be_results r) = 0"
  shows "snd (snd (rollbackBatch now f s w)) = w"
proof -
  have "filter (\<lambda>i. pi_status i = ItSuccess) (be_results r) = []" using assms(2) by (simp add: count_status_def)
  then show ?thesis by (simp add: rollbackBatch_def assms(1) Let_def)
qed

text \<open>When some items of a batch cannot be reverted, they are still counted as successful and also as failed, so the
  counters exceed the number of items; the batch may be rolled back again, and whatever handler is given then, nothing is
  attempted and the batch is reported as rolled back.\<close>

theorem failed_revert_is_forgotten:
  assumes "bt_currentResult s = Some r" "books True r" "be_rejectionReason r = None" "canRollback s"
    and "rollbackBatch now f s w = (Some b, s1, w1)" "0 < bl_failed b"
  shows "\<exists>r1. bt_currentResult s1 = Some r1 \<and> be_successfulItems r1 = bl_failed b \<and> count_status ItSuccess (be_results r1) = 0
    \<and> be_successfulItems r1 + be_failedItems r1 + be_skippedItems r1 = be_totalItems r1 + bl_failed b \<and> canRollback s1
    \<and> (\<exists>b2 s2 r2. rollbackBatch now g s1 w2 = (Some b2, s2, w2) \<and> bl_attempted b2 = 0 \<and> bt_currentResult s2 = Some r2
         \<and> be_state r2 = BsRolledBack \<and> be_rolledBack r2)"
proof -
  obtain r1 where r1: "bt_currentResult s1 = Some r1" "books False r1" "int (bl_attempted b) = bl_reverted b + bl_failed b"
    "int (bl_attempted b) = count_status ItSuccess (be_results r)" "count_status ItSuccess (be_results r1) = 0"
    "be_successfulItems r1 = be_successfulItems r - bl_reverted b" "be_operationType r1 = be_operationType r" "\<not> be_rolledBack r1"
    "be_state r1 = BsPartial" "bt_configOverrides s1 = bt_configOverrides s" "bt_chunkSizeOverride s1 = bt_chunkSizeOverride s"
    "be_rejectionReason r1 = None"
    using rollback_facts [OF assms(1, 2, 4, 5)] assms(3, 6) by auto
  have succ: "be_successfulItems r1 = bl_failed b" using r1(3, 4, 6) assms(2) by (simp add: books_def)
  have "int (length (be_results r1)) = count_status ItFailed (be_results r1) + count_status ItSkipped (be_results r1)"
    using settled_length [of "be_results r1"] r1(2, 5) by (simp add: books_def)
  then have total: "be_successfulItems r1 + be_failedItems r1 + be_skippedItems r1 = be_totalItems r1 + bl_failed b"
    using r1(2, 12) succ by (simp add: books_def)
  have "getOperationConfig (be_operationType r1) s1 = getOperationConfig (be_operationType r) s"
    by (simp add: getOperationConfig_def r1(7, 10, 11))
  then have can: "canRollback s1" using assms(1, 4, 6) r1(1, 8, 9) succ by (simp add: canRollback_def)
  obtain x s2 w3 where run: "rollbackBatch now g s1 w2 = (x, s2, w3)" by (metis prod_cases3)
  obtain b2 r2 where "x = Some b2" "bt_currentResult s2 = Some r2" "0 \<le> bl_failed b2" "0 \<le> bl_reverted b2"
    "int (bl_attempted b2) = bl_reverted b2 + bl_failed b2" "int (bl_attempted b2) = count_status ItSuccess (be_results r1)"
    "be_rolledBack r2 = (bl_failed b2 = 0)" "be_state r2 = (if bl_failed b2 = 0 then BsRolledBack else BsPartial)"
    using rollback_facts [OF r1(1, 2) can run] by blast
  then have "x = Some b2 \<and> bl_attempted b2 = 0 \<and> bt_currentResult s2 = Some r2 \<and> be_state r2 = BsRolledBack \<and> be_rolledBack r2"
    using r1(5) by auto
  moreover have "w3 = w2" using rollback_nothing [OF r1(1, 5), of now g w2] run by simp
  ultimately show ?thesis using r1(1, 5) succ total can run by blast
qed

definition never_reverts :: "PerItemResult \<Rightarrow> BatchOperationType \<Rightarrow> 'w \<Rightarrow> (string + RetryAnswer) \<times> 'w" where
  "never_reverts item t w = (Inr \<lparr>ra_success = False, ra_error = None\<rparr>, w)"

definition demo_result :: BatchExecutionResult where
  "demo_result = add_item \<lparr>pi_index = 0, pi_subscriptionId = ''s1'', pi_subscriptionName = None, pi_status = ItSuccess, pi_error = None,
     pi_errorCode = None, pi_cancelReason = None, pi_retryCount = 0, pi_completedAt = None, pi_message = None, pi_durationMs = None\<rparr>
     (fresh_result ''b1'' OpUpdate 1 False 0 (run_options None))"

definition demo_batch_service :: BatchTransactionService where
  "demo_batch_service = (newBatchTransactionService None)\<lparr>bt_currentResult := Some (demo_result\<lparr>be_state := BsCompleted\<rparr>)\<rparr>"

lemma failed_revert_is_forgotten_witness:
  "\<exists>b s1 r1 w1. rollbackBatch (\<lambda>_. 0) never_reverts demo_batch_service () = (Some b, s1, w1) \<and> bt_currentResult s1 = Some r1
     \<and> be_successfulItems r1 + be_failedItems r1 + be_skippedItems r1 = be_totalItems r1 + 1"
proof -
  let ?r = "demo_result\<lparr>be_state := BsCompleted\<rparr>"
  have cur: "bt_currentResult demo_batch_service = Some ?r" by (simp add: demo_batch_service_def)
  have books: "books True ?r" "be_rejectionReason ?r = None" by (simp_all add: books_def demo_result_def add_item_def fresh_result_def)
  have can: "canRollback demo_batch_service"
    by (simp add: canRollback_def demo_batch_service_def demo_result_def add_item_def fresh_result_def newBatchTransactionService_def
        getOperationConfig_def no_patch_def Let_def)
  obtain x s1 w1 where run: "rollbackBatch (\<lambda>_. 0) never_reverts demo_batch_service () = (x, s1, w1)" by (metis prod_cases3)
  obtain b where b: "x = Some b" "bl_failed b = 1"
    using run can unfolding rollbackBatch_def cur option.case Let_def
    by (auto simp: revert_item_def never_reverts_def succeeded_def demo_result_def add_item_def fresh_result_def)
  from failed_revert_is_forgotten [OF cur books can run [unfolded b(1)]] b run show ?thesis by auto
qed

section \<open>Atomic batches\<close>

text \<open>The world after items applied one after the other, if all succeed.\<close>

fun all_succeed :: "'w applier \<Rightarrow> BatchItemPlan list \<Rightarrow> nat \<Rightarrow> 'w \<Rightarrow> 'w option" where
  "all_succeed act [] i w = Some w"
| "all_succeed act (p # ps) i w =
     (case act p i w of (answer, w1) \<Rightarrow> if ap_success (caught answer) then all_succeed act ps (Suc i) w1 else None)"

abbreviation key_of :: "BatchOperationType \<Rightarrow> BatchItemPlan \<Rightarrow> string" where
  "key_of t p \<equiv> idempotencyKey t (bi_subscriptionId p)"

lemma idempotencyKey_inj [simp]: "idempotencyKey t x = idempotencyKey t y \<longleftrightarrow> x = y"
  by (simp add: idempotencyKey_def)

lemma run_good:
  assumes "all_succeed act good k (ru_world st) = Some w1" "\<not> ru_aborted st" "distinct (map bi_subscriptionId good)"
    "\<forall>p\<in>set good. key_of t p \<notin> ru_applied st"
    "\<forall>p i w a w'. act p i w = (Inr a, w') \<longrightarrow> ap_id a = None"
  shows "\<exists>items. ru_result (fold (run_item now config t atomic act) (enumerate k good) st) = fold add_item items (ru_result st)
      \<and> (\<forall>i\<in>set items. pi_status i = ItSuccess) \<and> map pi_subscriptionId items = map bi_subscriptionId good
    \<and> ru_world (fold (run_item now config t atomic act) (enumerate k good) st) = w1
    \<and> \<not> ru_aborted (fold (run_item now config t atomic act) (enumerate k good) st)
    \<and> ru_applied (fold (run_item now config t atomic act) (enumerate k good) st)
        = (if oc_idempotent config then ru_applied st \<union> key_of t ` set good else ru_applied st)"
  using assms(1-4)
proof (induction good arbitrary: k st)
  case Nil
  then show ?case by (intro exI [of _ "[]"]) simp
next
  case (Cons p ps)
  obtain answer w2 where a: "act p k (ru_world st) = (answer, w2)" by fastforce
  have ok: "ap_success (caught answer)" "all_succeed act ps (Suc k) w2 = Some w1" using Cons.prems(1) a by (auto split: if_splits)
  then obtain x where x: "answer = Inr x" by (cases answer) (auto simp: caught_def)
  have id: "ap_id x = None" using a x assms(5) by blast
  have new: "\<not> (oc_idempotent config \<and> key_of t p \<in> ru_applied st)" using Cons.prems(4) by simp
  define st1 where "st1 = run_item now config t atomic act (k, p) st"
  let ?item = "applied_item k p (caught answer) (now (ru_world st)) (now w2)"
  have st1: "st1 = \<lparr>ru_aborted = False, ru_result = add_item ?item (ru_result st),
      ru_applied = (if oc_idempotent config then insert (key_of t p) (ru_applied st) else ru_applied st), ru_world = w2\<rparr>"
    unfolding st1_def run_item_applies [where act = act, OF Cons.prems(2) new a] using ok(1) by simp
  have fresh: "\<forall>q\<in>set ps. key_of t q \<notin> ru_applied st1" using Cons.prems(3, 4) by (auto simp: st1) (metis image_eqI)
  have ih: "\<exists>items. ru_result (fold (run_item now config t atomic act) (enumerate (Suc k) ps) st1) = fold add_item items (ru_result st1)
      \<and> (\<forall>i\<in>set items. pi_status i = ItSuccess) \<and> map pi_subscriptionId items = map bi_subscriptionId ps
    \<and> ru_world (fold (run_item now config t atomic act) (enumerate (Suc k) ps) st1) = w1
    \<and> \<not> ru_aborted (fold (run_item now config t atomic act) (enumerate (Suc k) ps) st1)
    \<and> ru_applied (fold (run_item now config t atomic act) (enumerate (Suc k) ps) st1)
        = (if oc_idempotent config then ru_applied st1 \<union> key_of t ` set ps else ru_applied st1)"
    by (rule Cons.IH) (use ok(2) fresh Cons.prems(3) in \<open>simp_all add: st1\<close>)
  then obtain items where items: "ru_result (fold (run_item now config t atomic act) (enumerate (Suc k) ps) st1) = fold add_item items (ru_result st1)"
    "\<forall>i\<in>set items. pi_status i = ItSuccess" "map pi_subscriptionId items = map bi_subscriptionId ps"
    "ru_world (fold (run_item now config t atomic act) (enumerate (Suc k) ps) st1) = w1"
    "\<not> ru_aborted (fold (run_item now config t atomic act) (enumerate (Suc k) ps) st1)"
    "ru_applied (fold (run_item now config t atomic act) (enumerate (Suc k) ps) st1)
        = (if oc_idempotent config then ru_applied st1 \<union> key_of t ` set ps else ru_applied st1)" by blast
  have f: "fold (run_item now config t atomic act) (enumerate k (p # ps)) st = fold (run_item now config t atomic act) (enumerate (Suc k) ps) st1"
    by (simp add: st1_def)
  have it: "pi_status ?item = ItSuccess" "pi_subscriptionId ?item = bi_subscriptionId p"
    using ok(1) id by (simp_all add: applied_item_def caught_def x or_default_def)
  show ?case unfolding f
    by (intro exI [of _ "?item # items"]) (use items it in \<open>simp add: st1\<close>)
qed

lemma run_aborted:
  assumes "ru_aborted st"
  shows "\<exists>items. fold (run_item now config t atomic act) (enumerate k ps) st = st\<lparr>ru_result := fold add_item items (ru_result st)\<rparr>
    \<and> (\<forall>i\<in>set items. pi_status i = ItSkipped)"
  using assms
proof (induction ps arbitrary: k st)
  case Nil
  then show ?case by (intro exI [of _ "[]"]) simp
next
  case (Cons p ps)
  let ?item = "skipped_item k p ''Skipped due to atomic failure''"
  let ?st = "st\<lparr>ru_result := add_item ?item (ru_result st)\<rparr>"
  obtain items where "fold (run_item now config t atomic act) (enumerate (Suc k) ps) ?st = ?st\<lparr>ru_result := fold add_item items (ru_result ?st)\<rparr>"
    "\<forall>i\<in>set items. pi_status i = ItSkipped"
    using Cons.IH [of ?st "Suc k"] Cons.prems by auto
  then show ?case by (intro exI [of _ "?item # items"]) (simp add: run_item_aborted [OF Cons.prems])
qed

lemma fold_add_item: "be_results (fold add_item items r) = be_results r @ items
    \<and> be_failedItems (fold add_item items r) = be_failedItems r + count_status ItFailed items"
  by (induction items arbitrary: r) (auto simp: add_item_def)

text \<open>C3: When an atomic batch fails after some items have succeeded, nothing is compensated: the world stays as those items
  and the failing one left it, though all are reported as rolled back and none as successful; and their keys are
  forgotten, so that the next submission applies them again.\<close>

theorem atomic_failure_keeps_effects:
  assumes plans: "plans = good @ bad # rest" and size: "int (length plans) \<le> oc_maxItems (getOperationConfig t s)"
    and good: "all_succeed act good 0 w = Some w1" and bad: "act bad (length good) w1 = (answer, w2)" "\<not> ap_success (caught answer)"
    and dist: "distinct (map bi_subscriptionId (good @ [bad]))" and fresh: "\<forall>p\<in>set (good @ [bad]). key_of t p \<notin> bt_appliedItems s"
    and noid: "\<forall>p i w a w'. act p i w = (Inr a, w') \<longrightarrow> ap_id a = None"
    and atomic: "the_or (ro_atomic opts) (oc_atomicDefault (getOperationConfig t s))"
  shows "\<exists>r s1. run_batch uid now t plans act opts s w = (r, s1, w2) \<and> be_state r = BsFailed \<and> be_rolledBack r
    \<and> be_successfulItems r = 0 \<and> count_status ItSuccess (be_results r) = 0 \<and> bt_appliedItems s1 = bt_appliedItems s"
proof -
  define c where "c = getOperationConfig t s"
  define A where "A = bt_appliedItems s"
  define r0 where "r0 = fresh_result uid t (length plans) True (now w) opts"
  define st0 where "st0 = \<lparr>ru_aborted = False, ru_result = r0, ru_applied = A, ru_world = w\<rparr>"
  define K where "K = key_of t ` set good"
  define st1 where "st1 = fold (run_item now c t True act) (enumerate 0 good) st0"
  obtain items where 1: "ru_result st1 = fold add_item items r0" "\<forall>i\<in>set items. pi_status i = ItSuccess"
    "map pi_subscriptionId items = map bi_subscriptionId good" "ru_world st1 = w1" "\<not> ru_aborted st1"
    "ru_applied st1 = (if oc_idempotent c then A \<union> K else A)"
    using run_good [of act good 0 st0 w1 t now c True] good dist fresh noid unfolding st1_def K_def by (auto simp: st0_def A_def)
  define st2 where "st2 = run_item now c t True act (length good, bad) st1"
  have new: "\<not> (oc_idempotent c \<and> key_of t bad \<in> ru_applied st1)"
    using fresh dist by (auto simp: 1(6) K_def A_def)
  have bad1: "act bad (length good) (ru_world st1) = (answer, w2)" using bad(1) by (simp add: 1(4))
  have 2: "st2 = \<lparr>ru_aborted = True, ru_result = add_item (applied_item (length good) bad (caught answer) (now w1) (now w2)) (ru_result st1),
      ru_applied = ru_applied st1, ru_world = w2\<rparr>"
    unfolding st2_def run_item_applies [where act = act, OF 1(5) new bad1] using bad(2) by (simp add: 1(4))
  define st where "st = fold (run_item now c t True act) (enumerate (Suc (length good)) rest) st2"
  obtain skipped where 3: "st = st2\<lparr>ru_result := fold add_item skipped (ru_result st2)\<rparr>" "\<forall>i\<in>set skipped. pi_status i = ItSkipped"
    using run_aborted [of st2 now c t True act "Suc (length good)" rest] unfolding st_def by (auto simp: 2)
  have all: "run_chunks now c t True act plans 0 st0 = st"
    unfolding run_chunks_flat plans st_def st2_def st1_def by (simp add: enumerate_append_eq)
  let ?bad = "applied_item (length good) bad (caught answer) (now w1) (now w2)"
  have res: "be_results (ru_result st) = items @ ?bad # skipped" "0 < be_failedItems (ru_result st)"
    using fold_add_item [of skipped "ru_result st2"] fold_add_item [of items r0] bad(2)
    by (auto simp: 3(1) 2 1(1) r0_def fresh_result_def add_item_def) (metis add_nonneg_nonneg count_status_nonneg less_add_one order_le_less_trans add.commute add.left_commute)
  have keys: "{key_of t p |p. p \<in> set good} = {idempotencyKey t (pi_subscriptionId i) |i. i \<in> set (be_results (ru_result st)) \<and> pi_status i = ItSuccess}"
  proof -
    have "pi_status ?bad \<noteq> ItSuccess" using bad(2) by simp
    then have "{i \<in> set (be_results (ru_result st)). pi_status i = ItSuccess} = set items" using 1(2) 3(2) by (auto simp: res(1))
    then have "{idempotencyKey t (pi_subscriptionId i) |i. i \<in> set (be_results (ru_result st)) \<and> pi_status i = ItSuccess}
        = idempotencyKey t ` set (map pi_subscriptionId items)" by auto
    also have "\<dots> = {key_of t p |p. p \<in> set good}" unfolding 1(3) by auto
    finally show ?thesis ..
  qed
  obtain r a where settle: "settle_run now t True (now w) st = (r, a)" by fastforce
  have a: "a = A"
  proof -
    define r1 where "r1 = (ru_result st)\<lparr>be_rolledBack := True, be_completedAt := Some (now (ru_world st)),
        be_durationMs := Some (now (ru_world st) - now w), be_state := BsFailed\<rparr>"
    have u: "undo_atomic t r1 (ru_applied st) = (r, a)" using settle res(2) by (simp add: settle_run_def Let_def r1_def)
    obtain items' where f: "fold (undo_item t) (be_results r1) (r1\<lparr>be_results := []\<rparr>, ru_applied st) =
        (items', ru_applied st - {idempotencyKey t (pi_subscriptionId i) |i. i \<in> set (be_results r1) \<and> pi_status i = ItSuccess})"
      using undo_fold [OF refl refl refl, of t "be_results r1" "r1\<lparr>be_results := []\<rparr>" "ru_applied st"] by blast
    have "a = ru_applied st - {idempotencyKey t (pi_subscriptionId i) |i. i \<in> set (be_results r1) \<and> pi_status i = ItSuccess}"
      using u unfolding undo_atomic_def f by simp
    also have "be_results r1 = be_results (ru_result st)" by (simp add: r1_def)
    also note keys [symmetric]
    also have "ru_applied st = (if oc_idempotent c then A \<union> K else A)" by (simp add: 3(1) 2 1(6))
    finally show ?thesis using fresh by (auto simp: K_def A_def)
  qed
  have valid: "validateBatchSizeFor t (int (length plans)) c = None" using size plans by (simp add: validateBatchSizeFor_def c_def)
  have run: "run_batch uid now t plans act opts s w = (r, recordBatchHistory (now w2) r (s\<lparr>bt_currentResult := Some r, bt_appliedItems := A\<rparr>), w2)"
    using atomic valid all settle a unfolding run_batch_def c_def [symmetric] Let_def valid option.case
    by (simp add: st0_def r0_def A_def) (simp add: 3(1) 2)
  have "counted (ru_result st)" "be_rejectionReason (ru_result st) = None" "be_totalItems (ru_result st) = int (length (be_results (ru_result st)))"
    using run_items_counted [of st0 0 now c t True act plans] counted_fresh [of uid t "length plans" True "now w" opts]
    unfolding all [symmetric] run_chunks_flat by (simp_all add: st0_def r0_def fresh_result_def)
  from settle_run_books [OF this settle] res(2)
  have "be_rolledBack r" "be_state r = BsFailed" "be_successfulItems r = 0" "books True r" by auto
  then show ?thesis using run by (intro exI [of _ r]) (simp add: books_def recordBatchHistory_def A_def)
qed

text \<open>A payment processor that records what it charges and refuses one customer.\<close>

definition charge_all_but :: "string \<Rightarrow> BatchItemPlan \<Rightarrow> nat \<Rightarrow> string list \<Rightarrow> (string + ApplyResult) \<times> string list" where
  "charge_all_but poor plan i seen =
     (if bi_subscriptionId plan = poor then (Inr \<lparr>ap_success = False, ap_id = None, ap_error = None, ap_errorCode = None\<rparr>, seen)
      else (Inr \<lparr>ap_success = True, ap_id = None, ap_error = None, ap_errorCode = None\<rparr>, seen @ [bi_subscriptionId plan]))"

text \<open>Submitting the same atomic charges twice charges the first customer twice.\<close>

lemma atomic_failure_keeps_effects_witness:
  "\<exists>r1 s1 r2 s2. run_batch ''b1'' (\<lambda>_. 0) OpCharge [simple_plan ''rich'', simple_plan ''poor''] (charge_all_but ''poor'') (run_options None)
       (newBatchTransactionService None) [] = (r1, s1, [''rich''])
     \<and> be_rolledBack r1 \<and> be_successfulItems r1 = 0
     \<and> run_batch ''b2'' (\<lambda>_. 0) OpCharge [simple_plan ''rich'', simple_plan ''poor''] (charge_all_but ''poor'') (run_options None)
       s1 [''rich''] = (r2, s2, [''rich'', ''rich''])"
proof -
  let ?p = "[simple_plan ''rich'', simple_plan ''poor'']"
  have cfg: "int (length ?p) \<le> oc_maxItems (getOperationConfig OpCharge s)" "the_or (ro_atomic (run_options None)) (oc_atomicDefault (getOperationConfig OpCharge s))"
    if "bt_configOverrides s = (\<lambda>_. no_patch)" for s
    using that by (simp_all add: getOperationConfig_def no_patch_def run_options_def Let_def)
  have split: "?p = [simple_plan ''rich''] @ simple_plan ''poor'' # []" by simp
  have one: "\<exists>r s1. run_batch u (\<lambda>_. 0) OpCharge ?p (charge_all_but ''poor'') (run_options None) s seen = (r, s1, seen @ [''rich''])
      \<and> be_state r = BsFailed \<and> be_rolledBack r \<and> be_successfulItems r = 0 \<and> count_status ItSuccess (be_results r) = 0
      \<and> bt_appliedItems s1 = bt_appliedItems s"
    if "bt_configOverrides s = (\<lambda>_. no_patch)" "bt_appliedItems s = {}" for u s seen
    by (rule atomic_failure_keeps_effects [OF split cfg(1) [OF that(1)], where answer = "Inr \<lparr>ap_success = False, ap_id = None, ap_error = None, ap_errorCode = None\<rparr>"])
      (use that cfg(2) [OF that(1)] in \<open>auto simp: charge_all_but_def simple_plan_def caught_def split: if_splits\<close>)
  have start: "bt_configOverrides (newBatchTransactionService None) = (\<lambda>_. no_patch)" "bt_appliedItems (newBatchTransactionService None) = {}"
    by (simp_all add: newBatchTransactionService_def Let_def)
  obtain r1 s1 where 1: "run_batch ''b1'' (\<lambda>_. 0) OpCharge ?p (charge_all_but ''poor'') (run_options None) (newBatchTransactionService None) []
      = (r1, s1, [] @ [''rich''])" "be_rolledBack r1" "be_successfulItems r1 = 0" "bt_appliedItems s1 = {}"
    using one [OF start, of "''b1''" "[]"] start by auto
  have "bt_configOverrides s1 = bt_configOverrides (newBatchTransactionService None)"
    using 1(1) by (auto simp: run_batch_def recordBatchHistory_def Let_def split: option.splits prod.splits)
  then obtain r2 s2 where "run_batch ''b2'' (\<lambda>_. 0) OpCharge ?p (charge_all_but ''poor'') (run_options None) s1 [''rich'']
      = (r2, s2, [''rich''] @ [''rich''])"
    using one [of s1 "''b2''" "[''rich'']"] 1(4) start by auto
  then show ?thesis using 1 by auto
qed

section \<open>Idempotency\<close>

text \<open>A function to apply items that also logs the items it applied.\<close>

definition logged :: "'w applier \<Rightarrow> ('w \<times> string list) applier" where
  "logged act plan i wl =
     (case act plan i (fst wl) of (answer, w1) \<Rightarrow>
        (answer, (w1, if ap_success (caught answer) then snd wl @ [bi_subscriptionId plan] else snd wl)))"

definition logged_ok :: "BatchOperationType \<Rightarrow> string set \<Rightarrow> string list \<Rightarrow> bool" where
  "logged_ok t applied seen \<longleftrightarrow> distinct seen \<and> idempotencyKey t ` set seen \<subseteq> applied"

lemma run_logged:
  assumes "oc_idempotent c" "logged_ok t (ru_applied st) (snd (ru_world st))"
  shows "logged_ok t (ru_applied (run_item now c t atomic (logged act) (i, plan) st)) (snd (ru_world (run_item now c t atomic (logged act) (i, plan) st)))"
proof -
  consider "ru_aborted st" | "\<not> ru_aborted st" "oc_idempotent c" "key_of t plan \<in> ru_applied st"
    | "\<not> ru_aborted st" "\<not> (oc_idempotent c \<and> key_of t plan \<in> ru_applied st)" by blast
  then show ?thesis
  proof cases
    case 1
    then show ?thesis using assms(2) by (simp add: run_item_aborted)
  next
    case 2
    then show ?thesis using assms(2) by (simp add: run_item_known)
  next
    case 3
    obtain answer w1 where a: "act plan i (fst (ru_world st)) = (answer, w1)" by fastforce
    have l: "logged act plan i (ru_world st) = (answer, (w1, if ap_success (caught answer) then snd (ru_world st) @ [bi_subscriptionId plan] else snd (ru_world st)))"
      by (simp add: logged_def a)
    show ?thesis unfolding run_item_applies [where act = "logged act", OF 3 l]
      using assms 3(2) by (auto simp: logged_ok_def)
  qed
qed

lemma run_logged_batch:
  assumes "oc_idempotent (getOperationConfig t s)" "logged_ok t (bt_appliedItems s) (snd w)"
    and run: "run_batch uid now t plans (logged act) (run_options (Some False)) s w = (r, s1, w1)"
  shows "getOperationConfig t s1 = getOperationConfig t s \<and> logged_ok t (bt_appliedItems s1) (snd w1)"
proof -
  define c where "c = getOperationConfig t s"
  have fold_ok: "logged_ok t (ru_applied (fold (run_item now c t False (logged act)) (enumerate k ps) st))
      (snd (ru_world (fold (run_item now c t False (logged act)) (enumerate k ps) st)))"
    if "logged_ok t (ru_applied st) (snd (ru_world st))" for k ps st
    using that
  proof (induction ps arbitrary: k st)
    case (Cons p ps)
    then show ?case using run_logged [OF assms(1) [folded c_def] Cons.prems, of now False act k p] by simp
  qed simp
  show ?thesis
  proof (cases "validateBatchSizeFor t (int (length plans)) c")
    case (Some reason)
    have "bt_configOverrides s1 = bt_configOverrides s" "bt_chunkSizeOverride s1 = bt_chunkSizeOverride s"
      "bt_appliedItems s1 = bt_appliedItems s" "w1 = w"
      using run Some by (auto simp: run_batch_def c_def [symmetric] Let_def recordBatchHistory_def)
    then show ?thesis using assms(2) by (simp add: getOperationConfig_def)
  next
    case None
    have "bt_configOverrides s1 = bt_configOverrides s" "bt_chunkSizeOverride s1 = bt_chunkSizeOverride s"
      using run None by (auto simp: run_batch_def c_def [symmetric] Let_def recordBatchHistory_def split: prod.splits)
    moreover have "logged_ok t (bt_appliedItems s1) (snd w1)"
      using run None fold_ok [of "\<lparr>ru_aborted = False, ru_result = fresh_result uid t (length plans) False (now w) (run_options (Some False)),
          ru_applied = bt_appliedItems s, ru_world = w\<rparr>" 0 plans] assms(2)
      by (auto simp: run_batch_def c_def [symmetric] Let_def recordBatchHistory_def run_options_def settle_run_def run_chunks_flat split: prod.splits)
    ultimately show ?thesis by (simp add: getOperationConfig_def)
  qed
qed

text \<open>C14: Over any sequence of batches of one idempotent type that are not atomic, no item is applied successfully twice,
  however often a batch is submitted again and whatever the functions that apply the items answer.\<close>

theorem items_applied_at_most_once:
  assumes "oc_idempotent (getOperationConfig t s)"
  shows "distinct (snd (snd (foldl (\<lambda>(s, w) (uid, plans, act).
    case run_batch uid now t plans (logged act) (run_options (Some False)) s w of (r, s1, w1) \<Rightarrow> (s1, w1)) (s, (w, [])) batches)))"
proof -
  have "distinct (snd (snd (foldl (\<lambda>(s, w) (uid, plans, act).
    case run_batch uid now t plans (logged act) (run_options (Some False)) s w of (r, s1, w1) \<Rightarrow> (s1, w1)) (s, w) batches)))"
    if "oc_idempotent (getOperationConfig t s)" "logged_ok t (bt_appliedItems s) (snd w)" for s w
    using that
  proof (induction batches arbitrary: s w)
    case Nil
    then show ?case by (simp add: logged_ok_def)
  next
    case (Cons b bs)
    obtain uid plans act where b: "b = (uid, plans, act)" by (cases b)
    obtain r s1 w1 where run: "run_batch uid now t plans (logged act) (run_options (Some False)) s w = (r, s1, w1)" by (metis prod_cases3)
    from run_logged_batch [OF Cons.prems run] show ?case using Cons.IH [of s1 w1] Cons.prems(1) by (simp add: b run)
  qed
  then show ?thesis using assms by (simp add: logged_ok_def)
qed

lemma items_applied_at_most_once_witness:
  "distinct (snd (snd (foldl (\<lambda>(s, w) (uid, plans, act).
    case run_batch uid (\<lambda>_. 0) OpCharge plans (logged act) (run_options (Some False)) s w of (r, s1, w1) \<Rightarrow> (s1, w1))
    (newBatchTransactionService None, ((), [])) (replicate 3 (''b'', [simple_plan ''s1''], always_ok)))))"
proof -
  have "oc_idempotent (getOperationConfig OpCharge (newBatchTransactionService None))"
    by (simp add: newBatchTransactionService_def getOperationConfig_def no_patch_def Let_def)
  then show ?thesis by (rule items_applied_at_most_once)
qed
end
