(* ===== verification/BatchReports.thy ===== *)
theory BatchReports
  imports CsvFormat BatchTransactions
begin

text \<open>
  The rest of \<^verbatim>\<open>app/services/batchTransactionService.ts\<close>: analytics over the history of batches, the CSV
  files that describe batches and the one that reports a result, the choice of subscriptions to charge, and
  the streamed creation. The start of a local day (\<open>setHours(0, 0, 0, 0)\<close>) is the argument \<open>day_start\<close>.
  The JSON export is not modelled.
\<close>

section \<open>Analytics\<close>

record BatchAnalyticsSummary =
  sm_batches :: int
  sm_completed :: int
  sm_partial :: int
  sm_failed :: int
  sm_rolledBack :: int
  sm_totalItems :: int
  sm_successfulItems :: int
  sm_failedItems :: int
  sm_skippedItems :: int
  sm_batchSuccessRate :: rat
  sm_itemSuccessRate :: rat
  sm_totalDurationMs :: int
  sm_avgDurationMs :: int
  sm_p95DurationMs :: int
  sm_avgItemDurationMs :: int
  sm_throughputPerSecond :: rat

definition emptyAnalyticsSummary :: BatchAnalyticsSummary where
  "emptyAnalyticsSummary = \<lparr>sm_batches = 0, sm_completed = 0, sm_partial = 0, sm_failed = 0, sm_rolledBack = 0, sm_totalItems = 0,
     sm_successfulItems = 0, sm_failedItems = 0, sm_skippedItems = 0, sm_batchSuccessRate = 0, sm_itemSuccessRate = 0,
     sm_totalDurationMs = 0, sm_avgDurationMs = 0, sm_p95DurationMs = 0, sm_avgItemDurationMs = 0, sm_throughputPerSecond = 0\<rparr>"

definition percentile :: "int list \<Rightarrow> rat \<Rightarrow> int" where
  "percentile xs fraction =
     (if xs = [] then 0
      else xs ! nat (max 0 (min (int (length xs) - 1) (\<lceil>of_nat (length xs) * fraction\<rceil> - 1))))"

text \<open>The loop of \<open>summarize\<close>: the summary, the durations and the number of timed items.\<close>

definition count_entry :: "BatchHistoryEntry \<Rightarrow> BatchAnalyticsSummary \<Rightarrow> BatchAnalyticsSummary" where
  "count_entry e sm =
     sm\<lparr>sm_batches := sm_batches sm + 1, sm_totalItems := sm_totalItems sm + bh_totalItems e,
        sm_successfulItems := sm_successfulItems sm + bh_successfulItems e, sm_failedItems := sm_failedItems sm + bh_failedItems e,
        sm_skippedItems := sm_skippedItems sm + the_or (bh_skippedItems e) 0,
        sm_rolledBack := sm_rolledBack sm + (if bh_rolledBack e = Some True \<or> bh_state e = BsRolledBack then 1 else 0),
        sm_completed := sm_completed sm + (if bh_state e = BsCompleted then 1 else 0),
        sm_partial := sm_partial sm + (if bh_state e = BsPartial then 1 else 0),
        sm_failed := sm_failed sm + (if bh_state e = BsFailed then 1 else 0)\<rparr>"

definition tally_entry :: "BatchHistoryEntry \<Rightarrow> BatchAnalyticsSummary \<times> int list \<times> int \<Rightarrow> BatchAnalyticsSummary \<times> int list \<times> int" where
  "tally_entry e acc =
     (case acc of (sm, durations, timedItems) \<Rightarrow>
        let counts = count_entry e sm
        in case bh_durationMs e of
             Some d \<Rightarrow>
               if 0 \<le> d then (counts\<lparr>sm_totalDurationMs := sm_totalDurationMs sm + d\<rparr>, durations @ [d], timedItems + bh_totalItems e)
               else (counts, durations, timedItems)
           | None \<Rightarrow> (counts, durations, timedItems))"

definition summarize :: "BatchHistoryEntry list \<Rightarrow> BatchAnalyticsSummary" where
  "summarize entries =
     (if entries = [] then emptyAnalyticsSummary
      else case fold tally_entry entries (emptyAnalyticsSummary, [], 0) of
        (sm0, durations, timedItems) \<Rightarrow>
          let sm = sm0\<lparr>sm_batchSuccessRate := of_int (sm_completed sm0) / of_int (sm_batches sm0),
                sm_itemSuccessRate := (if sm_totalItems sm0 = 0 then 0 else of_int (sm_successfulItems sm0) / of_int (sm_totalItems sm0))\<rparr>
          in if durations = [] then sm
             else sm\<lparr>sm_avgDurationMs := js_round (of_int (sm_totalDurationMs sm) / of_nat (length durations)),
                sm_p95DurationMs := percentile (sort durations) (95 / 100),
                sm_avgItemDurationMs := (if timedItems = 0 then 0 else js_round (of_int (sm_totalDurationMs sm) / of_int timedItems)),
                sm_throughputPerSecond := (if sm_totalDurationMs sm = 0 then 0
                  else of_int (js_round (of_int timedItems / of_int (sm_totalDurationMs sm) * 1000 * 100)) / 100)\<rparr>)"

record BatchAnalytics =
  an_overall :: BatchAnalyticsSummary
  an_byOperationType :: "BatchOperationType \<Rightarrow> BatchAnalyticsSummary"

definition computeBatchAnalytics :: "BatchHistoryEntry list \<Rightarrow> BatchAnalytics" where
  "computeBatchAnalytics history =
     \<lparr>an_overall = summarize history, an_byOperationType = (\<lambda>t. summarize (filter (\<lambda>e. bh_operationType e = t) history))\<rparr>"

section \<open>Batches from CSV\<close>

definition parseCsvLine :: "string \<Rightarrow> string list" where
  "parseCsvLine line = parse_cells False [] line"

definition csv_lines :: "string \<Rightarrow> string list" where
  "csv_lines csvContent = filter (\<lambda>l. js_trim l \<noteq> '''') (split_lines [] csvContent)"

definition csv_headerMap :: "string list \<Rightarrow> nat obj" where
  "csv_headerMap headers = foldl (\<lambda>m (i, h). AList.update (js_trim (js_lower h)) i m) [] (enumerate 0 headers)"

text \<open>\<open>values[idx]\<close>: out of range it is undefined.\<close>

definition cell_at :: "string list \<Rightarrow> nat \<Rightarrow> string option" where
  "cell_at values i = (if i < length values then Some (values ! i) else None)"

definition blank_row :: "string list \<Rightarrow> bool" where
  "blank_row values \<longleftrightarrow> values = [] \<or> list_all (\<lambda>v. js_trim v = '''') values"

text \<open>\<open>parseFloat(v) || 0\<close>; the text of an undefined cell is no number.\<close>

definition amount_of :: "string option \<Rightarrow> jsnum" where
  "amount_of v = (case v of None \<Rightarrow> Fin 0 | Some s \<Rightarrow> (case parseFloat s of NaN \<Rightarrow> Fin 0 | x \<Rightarrow> x))"

record BatchCreateInput =
  bc_name :: string
  bc_description :: "string option"
  bc_category :: string
  bc_price :: jsnum
  bc_currency :: string
  bc_billingCycle :: string
  bc_nextBillingDate :: "string option"
  bc_isActive :: bool
  bc_notificationsEnabled :: bool

definition getVal :: "nat obj \<Rightarrow> string list \<Rightarrow> string \<Rightarrow> string option" where
  "getVal headerMap values col =
     (case map_of headerMap col of None \<Rightarrow> None
      | Some i \<Rightarrow> (case cell_at values i of Some v \<Rightarrow> if v = '''' then None else Some v | None \<Rightarrow> None))"

definition create_row :: "nat obj \<Rightarrow> string \<Rightarrow> BatchCreateInput list" where
  "create_row headerMap line =
     (let values = parseCsvLine line; val = getVal headerMap values
      in if blank_row values \<or> \<not> truthy (Option.bind (map_of headerMap ''name'') (cell_at values)) then []
         else [\<lparr>bc_name = or_default (val ''name'') '''', bc_description = val ''description'',
                bc_category = or_default (val ''category'') ''other'',
                bc_price = amount_of (Some (or_default (val ''price'') ''0'')),
                bc_currency = js_upper (or_default (val ''currency'') ''USD''),
                bc_billingCycle = or_default (val ''billingCycle'') ''monthly'',
                bc_nextBillingDate = val ''nextBillingDate'',
                bc_isActive = (map_option js_lower (val ''isActive'') \<noteq> Some ''false''),
                bc_notificationsEnabled = (map_option js_lower (val ''notificationsEnabled'') \<noteq> Some ''false'')\<rparr>])"

definition parse_batch_csv :: "(nat obj \<Rightarrow> string \<Rightarrow> 'a list) \<Rightarrow> string \<Rightarrow> 'a list" where
  "parse_batch_csv row csvContent =
     (case csv_lines csvContent of
        headerLine # line # rest \<Rightarrow> concat (map (row (csv_headerMap (parseCsvLine headerLine))) (line # rest))
      | _ \<Rightarrow> [])"

definition parseBatchCreateCsv :: "string \<Rightarrow> BatchCreateInput list" where
  "parseBatchCreateCsv csvContent = parse_batch_csv create_row csvContent"

record CancelRequest =
  cr_subscriptionId :: string
  cr_reason :: string
  cr_notes :: "string option"

definition id_column :: "nat obj \<Rightarrow> nat option" where
  "id_column headerMap = opt_or (map_of headerMap ''subscriptionid'') (map_of headerMap ''id'')"

definition cancel_row :: "nat obj \<Rightarrow> string \<Rightarrow> CancelRequest list" where
  "cancel_row headerMap line =
     (let values = parseCsvLine line; identifier = Option.bind (id_column headerMap) (cell_at values)
      in if blank_row values \<or> \<not> truthy identifier then []
         else [\<lparr>cr_subscriptionId = js_trim (the_or identifier ''''),
                cr_reason = (case map_of headerMap ''reason'' of None \<Rightarrow> ''other''
                  | Some i \<Rightarrow> or_default (map_option js_trim (cell_at values i)) ''other''),
                cr_notes = (case map_of headerMap ''notes'' of None \<Rightarrow> None | Some i \<Rightarrow> map_option js_trim (cell_at values i))\<rparr>])"

definition parseBatchCancelCsv :: "string \<Rightarrow> CancelRequest list" where
  "parseBatchCancelCsv csvContent = parse_batch_csv cancel_row csvContent"

definition charge_row :: "nat obj \<Rightarrow> string \<Rightarrow> (string \<times> jsnum) list" where
  "charge_row headerMap line =
     (let values = parseCsvLine line; identifier = Option.bind (id_column headerMap) (cell_at values)
      in if blank_row values \<or> \<not> truthy identifier then []
         else [(js_trim (the_or identifier ''''),
                (case opt_or (map_of headerMap ''amount'') (map_of headerMap ''price'') of
                   None \<Rightarrow> Fin 0 | Some i \<Rightarrow> amount_of (cell_at values i)))])"

definition parseBatchChargeCsv :: "string \<Rightarrow> (string \<times> jsnum) list" where
  "parseBatchChargeCsv csvContent = parse_batch_csv charge_row csvContent"

section \<open>The report of a result\<close>

fun status_name :: "PerItemStatus \<Rightarrow> string" where
  "status_name ItPending = ''pending''"
| "status_name ItProcessing = ''processing''"
| "status_name ItSuccess = ''success''"
| "status_name ItFailed = ''failed''"
| "status_name ItSkipped = ''skipped''"

text \<open>\<open>toISOString\<close> of an instant.\<close>

definition isoTime :: "int \<Rightarrow> string" where
  "isoTime ms =
     (let d = ms mod ONE_DAY_MS; two = (\<lambda>n. pad_left 2 (show_nat (nat n)))
      in isoDate ms @ ''T'' @ two (d div 3600000) @ '':'' @ two (d div 60000 mod 60) @ '':'' @ two (d div 1000 mod 60)
         @ ''.'' @ pad_left 3 (show_nat (nat (d mod 1000))) @ ''Z'')"

definition export_headers :: string where
  "export_headers = ''index,subscriptionId,subscriptionName,status,error,errorCode,retryCount,completedAt,durationMs,message''"

definition escape_cell :: "string option \<Rightarrow> string" where
  "escape_cell v = (case v of None \<Rightarrow> '''' | Some s \<Rightarrow> quote_cell s)"

definition export_row :: "PerItemResult \<Rightarrow> string" where
  "export_row r = js_join '',''
     [show_nat (pi_index r), pi_subscriptionId r, escape_cell (pi_subscriptionName r), status_name (pi_status r),
      escape_cell (pi_error r), (case pi_errorCode r of None \<Rightarrow> '''' | Some c \<Rightarrow> show_int c), show_int (pi_retryCount r),
      (case pi_completedAt r of None \<Rightarrow> '''' | Some t \<Rightarrow> isoTime t),
      (case pi_durationMs r of None \<Rightarrow> '''' | Some d \<Rightarrow> show_int d), escape_cell (pi_message r)]"

definition exportBatchResultToCsv :: "BatchExecutionResult \<Rightarrow> string" where
  "exportBatchResultToCsv r = js_join [CHR 0x0A] (export_headers # map export_row (be_results r))"

section \<open>Subscriptions to charge\<close>

definition selectSubscriptionsDueToday :: "(int \<Rightarrow> int) \<Rightarrow> int \<Rightarrow> Subscription list \<Rightarrow> Subscription list" where
  "selectSubscriptionsDueToday day_start now subscriptions =
     filter (\<lambda>s. (case sb_nextBillingDate s of None \<Rightarrow> False | Some d \<Rightarrow> day_start d = day_start now) \<and> sb_isActive s) subscriptions"

definition selectOverdueSubscriptions :: "(int \<Rightarrow> int) \<Rightarrow> int \<Rightarrow> Subscription list \<Rightarrow> Subscription list" where
  "selectOverdueSubscriptions day_start now subscriptions =
     filter (\<lambda>s. (case sb_nextBillingDate s of None \<Rightarrow> False | Some d \<Rightarrow> day_start d < day_start now) \<and> sb_isActive s) subscriptions"

definition buildBatchChargeItems :: "Subscription list \<Rightarrow> (string \<times> jsnum) list" where
  "buildBatchChargeItems subscriptions = map (\<lambda>s. (sb_id s, sb_price s)) subscriptions"

record GasSavings =
  gs_singleTxGas :: int
  gs_batchGas :: int
  gs_saved :: int
  gs_percentSavings :: int

definition calculateBatchGasSavings :: "int \<Rightarrow> int \<Rightarrow> GasSavings" where
  "calculateBatchGasSavings itemCount singleTransactionGas =
     (let batchGas = 50000 + itemCount * 100000; singleTxGas = itemCount * singleTransactionGas;
          saved = max 0 (singleTxGas - batchGas)
      in \<lparr>gs_singleTxGas = singleTxGas, gs_batchGas = batchGas, gs_saved = saved,
          gs_percentSavings = (if singleTxGas = 0 then 0 else js_round (of_int saved / of_int singleTxGas * 100))\<rparr>)"

section \<open>Streamed creation\<close>

text \<open>The callback gets the item and may throw; the signal is read from the world.\<close>

type_synonym 'w item_sink = "PerItemResult \<Rightarrow> 'w \<Rightarrow> string option \<times> 'w"

definition pending_item :: "nat \<Rightarrow> string \<Rightarrow> PerItemResult" where
  "pending_item i name = \<lparr>pi_index = i, pi_subscriptionId = ''pending_'' @ show_nat i, pi_subscriptionName = Some name,
     pi_status = ItPending, pi_error = None, pi_errorCode = None, pi_cancelReason = None, pi_retryCount = 0,
     pi_completedAt = None, pi_message = None, pi_durationMs = None\<rparr>"

fun send_items :: "'w item_sink \<Rightarrow> nat \<Rightarrow> string list \<Rightarrow> 'w \<Rightarrow> string option \<times> 'w" where
  "send_items onResult i [] w = (None, w)"
| "send_items onResult i (name # names) w =
     (case onResult (pending_item i name) w of
        (Some e, w1) \<Rightarrow> (Some e, w1)
      | (None, w1) \<Rightarrow> send_items onResult (Suc i) names w1)"

text \<open>The loop \<open>for (i = 0; i < inputs.length; i += chunkSize)\<close> for a chunk size that is not negative: with zero it
  does not end unless the signal is raised, which is the value \<open>None\<close>.\<close>

partial_function (option) stream_chunks :: "('w \<Rightarrow> bool) \<Rightarrow> 'w item_sink \<Rightarrow> nat \<Rightarrow> string list \<Rightarrow> nat \<Rightarrow> nat \<Rightarrow> 'w
    \<Rightarrow> ((string + nat) \<times> 'w) option" where
  "stream_chunks aborted onResult chunkSize names i totalSent w =
     (if length names \<le> i then Some (Inr totalSent, w)
      else if aborted w then Some (Inr totalSent, w)
      else case send_items onResult i (take chunkSize (drop i names)) w of
        (Some e, w1) \<Rightarrow> Some (Inl e, w1)
      | (None, w1) \<Rightarrow> stream_chunks aborted onResult chunkSize names (i + chunkSize) (totalSent + length (take chunkSize (drop i names))) w1)"

text \<open>Without a chunk size the default is read from a property the class does not have: \<open>i + undefined\<close> is not a number,
  so the first slice is empty and the loop ends after it.\<close>

definition executeBatchCreateStream :: "('w \<Rightarrow> bool) \<Rightarrow> 'w item_sink \<Rightarrow> nat option \<Rightarrow> string list \<Rightarrow> 'w
    \<Rightarrow> ((string + nat \<times> bool) \<times> 'w) option" where
  "executeBatchCreateStream aborted onResult chunkSize names w =
     map_option (\<lambda>(r, w1). (map_sum id (\<lambda>n. (n, \<not> aborted w1)) r, w1))
       (case chunkSize of None \<Rightarrow> Some (Inr 0, w) | Some n \<Rightarrow> stream_chunks aborted onResult n names 0 0 w)"

section \<open>Columns that are never read\<close>

lemma of_char_lower:
  "(of_char (lower_char c) :: nat) = (let n = of_char c in if (65 \<le> n \<and> n \<le> 90) \<or> (192 \<le> n \<and> n \<le> 222 \<and> n \<noteq> 215) then n + 32 else n)"
  by (simp add: lower_char_def Let_def)

lemma lower_not_upper:
  assumes "c \<in> {CHR ''A'', CHR ''B'', CHR ''C'', CHR ''E''}"
  shows "lower_char d \<noteq> c"
proof
  assume "lower_char d = c"
  then have "(of_char (lower_char d) :: nat) = of_char c" by simp
  moreover have "(of_char c :: nat) \<in> {65, 66, 67, 69}" using assms by auto
  ultimately show False unfolding of_char_lower by (auto simp: Let_def split: if_splits)
qed

lemma trim_subset: "set (js_trim s) \<subseteq> set s"
  unfolding js_trim_def by (auto dest!: set_dropWhileD)

lemma headers_lower: "k \<in> dom (map_of (csv_headerMap hs)) \<Longrightarrow> \<exists>h. k = js_trim (js_lower h)"
proof -
  have "k \<in> dom (map_of (foldl (\<lambda>m (i, h). AList.update (js_trim (js_lower h)) i m) m (enumerate n hs)))
      \<Longrightarrow> k \<in> dom (map_of m) \<or> (\<exists>h. k = js_trim (js_lower h))" for m n
  proof (induction hs arbitrary: m n)
    case (Cons h hs)
    from Cons.IH [of "AList.update (js_trim (js_lower h)) n m" "Suc n"] Cons.prems show ?case
      by (auto simp: obj_get_update split: if_splits)
  qed simp
  then show "k \<in> dom (map_of (csv_headerMap hs)) \<Longrightarrow> \<exists>h. k = js_trim (js_lower h)" by (force simp: csv_headerMap_def)
qed

lemma camel_columns_missing:
  assumes "c \<in> {CHR ''A'', CHR ''B'', CHR ''C'', CHR ''E''}" "c \<in> set k"
  shows "map_of (csv_headerMap hs) k = None"
proof (rule ccontr)
  assume "map_of (csv_headerMap hs) k \<noteq> None"
  then obtain h where "k = js_trim (js_lower h)" using headers_lower [of k hs] by auto
  then have "c \<in> set (js_lower h)" using assms(2) trim_subset by blast
  then show False using lower_not_upper [OF assms(1)] by (auto simp: js_lower_def)
qed

lemma camel_values: "getVal (csv_headerMap hs) vs ''billingCycle'' = None" "getVal (csv_headerMap hs) vs ''nextBillingDate'' = None"
    "getVal (csv_headerMap hs) vs ''isActive'' = None" "getVal (csv_headerMap hs) vs ''notificationsEnabled'' = None"
  unfolding getVal_def
  using camel_columns_missing [of "CHR ''C''" "''billingCycle''" hs] camel_columns_missing [of "CHR ''B''" "''nextBillingDate''" hs]
    camel_columns_missing [of "CHR ''A''" "''isActive''" hs] camel_columns_missing [of "CHR ''E''" "''notificationsEnabled''" hs]
  by simp_all

lemma getVal_truthy:
  "truthy (Option.bind (map_of m col) (cell_at vs)) \<Longrightarrow> getVal m vs col = Option.bind (map_of m col) (cell_at vs) \<and> truthy (getVal m vs col)"
  by (cases "map_of m col"; cases "cell_at vs (the (map_of m col))") (simp_all add: getVal_def truthy_def)

lemma create_row_fields:
  assumes "i \<in> set (create_row m line)"
  obtains vs where "truthy (getVal m vs ''name'')" "bc_name i = or_default (getVal m vs ''name'') ''''"
    "bc_billingCycle i = or_default (getVal m vs ''billingCycle'') ''monthly''" "bc_nextBillingDate i = getVal m vs ''nextBillingDate''"
    "bc_isActive i = (map_option js_lower (getVal m vs ''isActive'') \<noteq> Some ''false'')"
    "bc_notificationsEnabled i = (map_option js_lower (getVal m vs ''notificationsEnabled'') \<noteq> Some ''false'')"
proof -
  let ?vs = "parseCsvLine line"
  have ok: "\<not> (blank_row ?vs \<or> \<not> truthy (Option.bind (map_of m ''name'') (cell_at ?vs)))"
  proof
    assume "blank_row ?vs \<or> \<not> truthy (Option.bind (map_of m ''name'') (cell_at ?vs))"
    from assms [unfolded create_row_def Let_def if_P [OF this]] show False by simp
  qed
  note name = getVal_truthy [of m "''name''" ?vs]
  note i = assms [unfolded create_row_def Let_def if_not_P [OF ok] list.set insert_iff empty_iff simp_thms]
  show ?thesis
    by (rule that [of ?vs]) (use name ok in blast, unfold i, simp_all only: BatchCreateInput.simps)
qed

text \<open>Whatever a file of subscriptions to create says, its columns for the billing cycle, the next date, activity and
  notifications are never read: every subscription has a name and is monthly, without a date, active and notified.\<close>

theorem camel_columns_never_read:
  assumes "i \<in> set (parseBatchCreateCsv csv)"
  shows "bc_name i \<noteq> '''' \<and> bc_billingCycle i = ''monthly'' \<and> bc_nextBillingDate i = None \<and> bc_isActive i \<and> bc_notificationsEnabled i"
proof -
  obtain hs line where "i \<in> set (create_row (csv_headerMap hs) line)"
    using assms by (auto simp: parseBatchCreateCsv_def parse_batch_csv_def split: list.splits)
  then show ?thesis
    by (rule create_row_fields) (auto simp: camel_values or_default_def truthy_def split: option.splits)
qed

definition yearly_file :: string where
  "yearly_file = ''name,billingCycle,isActive'' @ [CHR 0x0A] @ ''TV,yearly,false''"

lemma yearly_file_read: "map bc_name (parseBatchCreateCsv yearly_file) = [''TV'']"
proof -
  have "csv_lines yearly_file = [''name,billingCycle,isActive'', ''TV,yearly,false'']" by code_simp
  moreover have "parseCsvLine ''name,billingCycle,isActive'' = [''name'', ''billingCycle'', ''isActive'']" by code_simp
  moreover have "parseCsvLine ''TV,yearly,false'' = [''TV'', ''yearly'', ''false'']" by code_simp
  moreover have "csv_headerMap [''name'', ''billingCycle'', ''isActive''] = [(''name'', 0), (''billingcycle'', 1), (''isactive'', 2)]" by code_simp
  moreover have "blank_row [''TV'', ''yearly'', ''false''] = False" by code_simp
  ultimately show ?thesis
    by (simp add: parseBatchCreateCsv_def parse_batch_csv_def create_row_def Let_def truthy_def cell_at_def getVal_def or_default_def)
qed

lemma camel_columns_never_read_witness:
  "\<exists>i. parseBatchCreateCsv yearly_file = [i] \<and> bc_name i = ''TV'' \<and> bc_billingCycle i = ''monthly'' \<and> bc_isActive i"
proof -
  obtain i where "parseBatchCreateCsv yearly_file = [i]" "bc_name i = ''TV''" using yearly_file_read by (auto simp: map_eq_Cons_conv)
  then show ?thesis using camel_columns_never_read [of i yearly_file] by simp
qed

section \<open>Streaming\<close>

lemma send_items_append:
  "send_items onResult i (xs @ ys) w =
     (case send_items onResult i xs w of (Some e, w1) \<Rightarrow> (Some e, w1) | (None, w1) \<Rightarrow> send_items onResult (i + length xs) ys w1)"
  by (induction xs arbitrary: i w) (auto split: prod.split option.split)

lemma stream_positive:
  assumes "0 < n" "\<And>w. \<not> aborted w"
  shows "stream_chunks aborted onResult n names i sent w =
    Some (case send_items onResult i (drop i names) w of (Some e, w1) \<Rightarrow> (Inl e, w1) | (None, w1) \<Rightarrow> (Inr (sent + (length names - i)), w1))"
proof (induction "length names - i" arbitrary: i sent w rule: less_induct)
  case less
  show ?case
  proof (cases "length names \<le> i")
    case True
    then show ?thesis by (simp add: stream_chunks.simps)
  next
    case False
    let ?chunk = "take n (drop i names)"
    have split: "drop i names = ?chunk @ drop (i + n) names" by (metis append_take_drop_id drop_drop add.commute)
    have len: "length names - (i + n) < length names - i" using False assms(1) by simp
    have off: "send_items onResult (i + length ?chunk) (drop (i + n) names) w1 = send_items onResult (i + n) (drop (i + n) names) w1" for w1
      by (cases "length names \<le> i + n") simp_all
    have sum: "sent + length ?chunk + (length names - (i + n)) = sent + (length names - i)" using False by simp
    show ?thesis
      unfolding stream_chunks.simps [of aborted onResult n names i sent w] split [THEN arg_cong, of "\<lambda>xs. send_items onResult i xs w"]
        send_items_append off less [OF len] sum
      using False assms(2) by (simp split: prod.split option.split)
  qed
qed

lemma stream_zero:
  assumes "stream_chunks aborted onResult n names i sent w = Some y"
  shows "\<not> (n = 0 \<and> i < length names \<and> \<not> aborted w)"
proof (rule stream_chunks.raw_induct
    [where P = "\<lambda>aborted onResult n names i sent w y. \<not> (n = 0 \<and> i < length names \<and> \<not> aborted w)", OF _ assms])
  fix f aborted onResult n names i sent w y
  assume IH: "\<And>aborted onResult n names i sent w y. f aborted onResult n names i sent w = Some y
      \<Longrightarrow> \<not> (n = 0 \<and> i < length names \<and> \<not> aborted w)"
    and body: "(if length names \<le> i then Some (Inr sent, w)
      else if aborted w then Some (Inr sent, w)
      else case send_items onResult i (take n (drop i names)) w of
        (Some e, w1) \<Rightarrow> Some (Inl e, w1)
      | (None, w1) \<Rightarrow> f aborted onResult n names (i + n) (sent + length (take n (drop i names))) w1) = Some y"
  show "\<not> (n = 0 \<and> i < length names \<and> \<not> aborted w)"
  proof
    assume a: "n = 0 \<and> i < length names \<and> \<not> aborted w"
    then have "f aborted onResult n names i sent w = Some y" using body by simp
    then show False using IH a by blast
  qed
qed

text \<open>C40: With a positive chunk size every item is handed to the callback once and in order, until it throws; with size zero
  the loop never ends; and without one nothing is sent though the stream is reported complete.\<close>

theorem stream_sends_all_or_nothing:
  assumes "\<And>w. \<not> aborted w" "names \<noteq> []"
  shows "executeBatchCreateStream aborted onResult chunk names w =
    (case chunk of
       None \<Rightarrow> Some (Inr (0, True), w)
     | Some 0 \<Rightarrow> None
     | Some (Suc n) \<Rightarrow>
         Some (case send_items onResult 0 names w of (Some e, w1) \<Rightarrow> (Inl e, w1) | (None, w1) \<Rightarrow> (Inr (length names, True), w1)))"
proof (cases chunk)
  case None
  then show ?thesis using assms by (simp add: executeBatchCreateStream_def)
next
  case (Some n)
  show ?thesis
  proof (cases n)
    case 0
    have "stream_chunks aborted onResult 0 names 0 0 w = None"
    proof (rule ccontr)
      assume "stream_chunks aborted onResult 0 names 0 0 w \<noteq> None"
      then obtain y where "stream_chunks aborted onResult 0 names 0 0 w = Some y" by blast
      from stream_zero [OF this] show False using assms by simp
    qed
    then show ?thesis by (simp add: executeBatchCreateStream_def Some 0)
  next
    case (Suc k)
    then show ?thesis using stream_positive [of n aborted onResult names 0 0 w] assms
      by (simp add: executeBatchCreateStream_def Some split: prod.split option.split)
  qed
qed

lemma stream_sends_all_or_nothing_witness:
  "executeBatchCreateStream (\<lambda>_. False) (\<lambda>p seen. (None, seen @ [pi_index p])) (Some 2) [''a'', ''b'', ''c''] []
     = Some (Inr (3, True), [0, 1, 2])"
  using stream_sends_all_or_nothing [of "\<lambda>_. False" "[''a'', ''b'', ''c'']" "\<lambda>p seen. (None, seen @ [pi_index p])" "Some 2" "[]"]
  by (simp add: pending_item_def numeral_2_eq_2 numeral_3_eq_3)

section \<open>The sums of the analytics\<close>

lemma count_fields:
  "sm_batches (count_entry e sm) = sm_batches sm + 1"
  "sm_totalItems (count_entry e sm) = sm_totalItems sm + bh_totalItems e"
  "sm_successfulItems (count_entry e sm) = sm_successfulItems sm + bh_successfulItems e"
  "sm_failedItems (count_entry e sm) = sm_failedItems sm + bh_failedItems e"
  "sm_skippedItems (count_entry e sm) = sm_skippedItems sm + the_or (bh_skippedItems e) 0"
  "sm_rolledBack (count_entry e sm) = sm_rolledBack sm + (if bh_rolledBack e = Some True \<or> bh_state e = BsRolledBack then 1 else 0)"
  "sm_completed (count_entry e sm) = sm_completed sm + (if bh_state e = BsCompleted then 1 else 0)"
  "sm_partial (count_entry e sm) = sm_partial sm + (if bh_state e = BsPartial then 1 else 0)"
  "sm_failed (count_entry e sm) = sm_failed sm + (if bh_state e = BsFailed then 1 else 0)"
  "sm_totalDurationMs (count_entry e sm) = sm_totalDurationMs sm"
  by (simp_all add: count_entry_def)

lemma tally_fields:
  "sm_batches (fst (tally_entry e acc)) = sm_batches (fst acc) + 1"
  "sm_totalItems (fst (tally_entry e acc)) = sm_totalItems (fst acc) + bh_totalItems e"
  "sm_successfulItems (fst (tally_entry e acc)) = sm_successfulItems (fst acc) + bh_successfulItems e"
  "sm_failedItems (fst (tally_entry e acc)) = sm_failedItems (fst acc) + bh_failedItems e"
  "sm_skippedItems (fst (tally_entry e acc)) = sm_skippedItems (fst acc) + the_or (bh_skippedItems e) 0"
  "sm_rolledBack (fst (tally_entry e acc)) = sm_rolledBack (fst acc) + (if bh_rolledBack e = Some True \<or> bh_state e = BsRolledBack then 1 else 0)"
  "sm_completed (fst (tally_entry e acc)) = sm_completed (fst acc) + (if bh_state e = BsCompleted then 1 else 0)"
  "sm_partial (fst (tally_entry e acc)) = sm_partial (fst acc) + (if bh_state e = BsPartial then 1 else 0)"
  "sm_failed (fst (tally_entry e acc)) = sm_failed (fst acc) + (if bh_state e = BsFailed then 1 else 0)"
  "sm_totalDurationMs (fst (tally_entry e acc)) = sm_totalDurationMs (fst acc)
    + (case bh_durationMs e of Some d \<Rightarrow> if 0 \<le> d then d else 0 | None \<Rightarrow> 0)"
  by (cases acc; cases "bh_durationMs e"; simp add: tally_entry_def count_fields Let_def)+

definition counters :: "(BatchAnalyticsSummary \<Rightarrow> int) list" where
  "counters = [sm_batches, sm_totalItems, sm_successfulItems, sm_failedItems, sm_skippedItems, sm_rolledBack, sm_completed,
     sm_partial, sm_failed, sm_totalDurationMs]"

lemma summarize_counters: "f \<in> set counters \<Longrightarrow> f (summarize es) = f (fst (fold tally_entry es (emptyAnalyticsSummary, [], 0)))"
  by (cases "fold tally_entry es (emptyAnalyticsSummary, [], 0)")
    (auto simp: counters_def summarize_def Let_def)

lemma deltaI: "(\<And>e acc. f (fst (tally_entry e acc)) = f (fst acc) + w e) \<Longrightarrow> \<exists>w. \<forall>e acc. f (fst (tally_entry e acc)) = (f (fst acc) + w e :: int)"
  by blast

lemma counters_delta: "f \<in> set counters \<Longrightarrow> \<exists>w. \<forall>e acc. f (fst (tally_entry e acc)) = f (fst acc) + w e"
  unfolding counters_def list.set by (elim insertE emptyE) (hypsubst, rule deltaI, rule tally_fields)+

lemma counters_zero: "f \<in> set counters \<Longrightarrow> f emptyAnalyticsSummary = 0"
  unfolding counters_def by (auto simp: emptyAnalyticsSummary_def)

lemma counters_sum:
  assumes "f \<in> set counters"
  shows "\<exists>w. \<forall>es. f (summarize es) = sum_list (map w es)"
proof -
  obtain w where w: "\<And>e acc. f (fst (tally_entry e acc)) = f (fst acc) + w e" using counters_delta [OF assms] by blast
  have "f (fst (fold tally_entry es acc)) = f (fst acc) + sum_list (map w es)" for es acc
    by (induction es arbitrary: acc) (simp_all add: w)
  then have "f (summarize es) = sum_list (map w es)" for es
    by (simp add: summarize_counters [OF assms] counters_zero [OF assms])
  then show ?thesis by blast
qed

abbreviation all_types :: "BatchOperationType list" where
  "all_types \<equiv> [OpCreate, OpUpdate, OpCharge, OpCancel]"

lemma sum_by_type:
  fixes w :: "BatchHistoryEntry \<Rightarrow> int"
  shows "sum_list (map w es) = (\<Sum>t\<leftarrow>all_types. sum_list (map w (filter (\<lambda>e. bh_operationType e = t) es)))"
proof (induction es)
  case (Cons e es)
  then show ?case by (cases "bh_operationType e") simp_all
qed simp

text \<open>Every counter of the overall analytics is the sum of that counter over the four kinds of batches.\<close>

theorem analytics_partition:
  "list_all (\<lambda>f. f (an_overall (computeBatchAnalytics history)) = (\<Sum>t\<leftarrow>all_types. f (an_byOperationType (computeBatchAnalytics history) t))) counters"
proof -
  have "f (an_overall (computeBatchAnalytics history)) = (\<Sum>t\<leftarrow>all_types. f (an_byOperationType (computeBatchAnalytics history) t))"
    if f: "f \<in> set counters" for f
  proof -
    obtain w where w: "\<And>es. f (summarize es) = sum_list (map w es)" using counters_sum [OF f] by blast
    show ?thesis using sum_by_type [of w history] by (simp add: computeBatchAnalytics_def w)
  qed
  then show ?thesis by (simp add: list_all_iff)
qed

section \<open>The percentile\<close>

text \<open>At least the given fraction of the values is at most the percentile, which is one of them.\<close>

lemma percentile_covers:
  assumes "xs \<noteq> []" "0 < q" "q \<le> 1"
  shows "percentile (sort xs) q \<in> set xs
    \<and> q * of_nat (length xs) \<le> of_nat (length (filter (\<lambda>x. x \<le> percentile (sort xs) q) xs))"
proof -
  let ?n = "length xs"
  define k where "k = nat (\<lceil>of_nat ?n * q\<rceil> - 1)"
  have n: "0 < ?n" using assms(1) by simp
  have pos: "0 < of_nat ?n * q" using n assms(2) by simp
  then have c: "1 \<le> \<lceil>of_nat ?n * q\<rceil>" by linarith
  have le: "of_nat ?n * q \<le> of_nat ?n" using assms(3) n by (simp add: mult_le_cancel_left1)
  then have "\<lceil>of_nat ?n * q\<rceil> \<le> int ?n" by (simp add: ceiling_le_iff)
  then have idx: "nat (max 0 (min (int (length (sort xs)) - 1) (\<lceil>of_nat (length (sort xs)) * q\<rceil> - 1))) = k" "k < ?n"
    using c n by (auto simp: k_def nat_less_iff)
  have p: "percentile (sort xs) q = sort xs ! k"
    unfolding percentile_def idx(1) using assms(1) by (metis length_0_conv length_sort)
  have "filter (\<lambda>x. x \<le> sort xs ! k) (take (Suc k) (sort xs)) = take (Suc k) (sort xs)"
    by (rule filter_True) (auto simp: in_set_conv_nth intro!: sorted_nth_mono, use idx(2) in simp)
  then have "Suc k \<le> length (filter (\<lambda>x. x \<le> sort xs ! k) (take (Suc k) (sort xs)))" using idx(2) by simp
  also have "\<dots> \<le> length (filter (\<lambda>x. x \<le> sort xs ! k) (take (Suc k) (sort xs))) + length (filter (\<lambda>x. x \<le> sort xs ! k) (drop (Suc k) (sort xs)))" by simp
  also have "\<dots> = length (filter (\<lambda>x. x \<le> sort xs ! k) (sort xs))"
    by (metis append_take_drop_id filter_append length_append)
  also have "\<dots> = length (filter (\<lambda>x. x \<le> sort xs ! k) xs)"
    by (simp add: filter_sort)
  finally have count: "Suc k \<le> length (filter (\<lambda>x. x \<le> sort xs ! k) xs)" .
  have "of_nat ?n * q \<le> of_int \<lceil>of_nat ?n * q\<rceil>" by simp
  also have "\<dots> = of_nat (Suc k)" using c by (simp add: k_def)
  also have "\<dots> \<le> of_nat (length (filter (\<lambda>x. x \<le> sort xs ! k) xs))" using count by (simp only: of_nat_le_iff)
  finally have "q * of_nat ?n \<le> of_nat (length (filter (\<lambda>x. x \<le> sort xs ! k) xs))" by (simp add: mult.commute)
  moreover have "sort xs ! k \<in> set xs" using idx(2) by (metis length_sort nth_mem set_sort)
  ultimately show ?thesis by (simp add: p)
qed

section \<open>Reading the report back\<close>

lemma parse_line_trim: "cells \<noteq> [] \<Longrightarrow> parseCsvLine (js_join '','' (map quote_cell cells)) = map js_trim cells"
  unfolding parseCsvLine_def
proof (induction cells)
  case (Cons c cells)
  show ?case
  proof (cases cells)
    case Nil
    then show ?thesis using parse_cell [of "[]" c] by simp
  next
    case (Cons d ds)
    have "parse_cells False [] (quote_cell c @ CHR '','' # js_join '','' (map quote_cell (d # ds)))
        = js_trim c # parse_cells False [] (js_join '','' (map quote_cell (d # ds)))"
      using parse_cell [of "CHR '','' # js_join '','' (map quote_cell (d # ds))" c] by simp
    then show ?thesis using Cons Cons.IH by simp
  qed
qed simp

lemma join_quoted_char:
  "\<forall>s\<in>set cells. c \<notin> set s \<Longrightarrow> c \<noteq> CHR '','' \<Longrightarrow> c \<noteq> CHR ''\"'' \<Longrightarrow> c \<notin> set (js_join '','' (map quote_cell cells))"
proof (induction cells)
  case (Cons s cells)
  then have "c \<notin> set (quote_cell s)" using double_quotes_set [of c s] by (auto simp: quote_cell_def)
  then show ?case using Cons by (cases cells) auto
qed simp

definition plain :: "string \<Rightarrow> bool" where
  "plain s \<longleftrightarrow> CHR '','' \<notin> set s \<and> CHR ''\"'' \<notin> set s \<and> CHR 0x0A \<notin> set s \<and> CHR 0x0D \<notin> set s"

lemma plain_quote: "plain s \<Longrightarrow> quote_cell s = s"
  by (simp add: plain_def quote_cell_def)

lemma plain_simps [simp]: "plain []" "plain (c # s) \<longleftrightarrow> c \<notin> {CHR '','', CHR ''\"'', CHR 0x0A, CHR 0x0D} \<and> plain s"
  "plain (s @ t) \<longleftrightarrow> plain s \<and> plain t"
  by (auto simp: plain_def)

lemma plain_digits: "\<forall>c\<in>set s. numeric_char c \<Longrightarrow> plain s"
  by (induction s) (auto simp: numeric_char_def is_digit_def)

lemma plain_show_nat: "plain (show_nat n)"
  by (rule plain_digits) (auto simp: numeric_char_def dest: show_nat_digits)

lemma plain_show_int: "plain (show_int k)"
  by (simp add: show_int_def plain_show_nat)

lemma plain_pad: "plain (pad_left k (show_nat n))"
  by (rule plain_digits) (auto simp: numeric_char_def dest: pad_left_digits)

lemma plain_isoTime: "plain (isoTime t)"
  using isoDate_numeric [of t] plain_digits [of "isoDate t"] by (simp add: isoTime_def Let_def plain_pad)

lemma plain_status: "plain (status_name st)"
  by (cases st) simp_all

definition report_cells :: "PerItemResult \<Rightarrow> string list" where
  "report_cells r =
     [show_nat (pi_index r), pi_subscriptionId r, the_or (pi_subscriptionName r) '''', status_name (pi_status r),
      the_or (pi_error r) '''', (case pi_errorCode r of None \<Rightarrow> '''' | Some c \<Rightarrow> show_int c), show_int (pi_retryCount r),
      (case pi_completedAt r of None \<Rightarrow> '''' | Some t \<Rightarrow> isoTime t),
      (case pi_durationMs r of None \<Rightarrow> '''' | Some d \<Rightarrow> show_int d), the_or (pi_message r) '''']"

text \<open>Items whose id is not quoted by the report and whose texts have no line breaks.\<close>

definition one_line :: "string option \<Rightarrow> bool" where
  "one_line v \<longleftrightarrow> CHR 0x0A \<notin> set (the_or v '''') \<and> CHR 0x0D \<notin> set (the_or v '''')"

definition reportable :: "PerItemResult \<Rightarrow> bool" where
  "reportable r \<longleftrightarrow> trimmed (pi_subscriptionId r) \<and> plain (pi_subscriptionId r) \<and> one_line (pi_subscriptionName r)
     \<and> one_line (pi_error r) \<and> one_line (pi_message r)"

lemma report_row: "reportable r \<Longrightarrow> export_row r = js_join '','' (map quote_cell (report_cells r))"
  by (auto simp: export_row_def report_cells_def reportable_def escape_cell_def plain_quote plain_show_nat plain_show_int plain_isoTime
      plain_status the_or_def split: option.split)

lemma report_cells_lines:
  assumes "reportable r" "c \<in> {CHR 0x0A, CHR 0x0D}"
  shows "\<forall>s\<in>set (report_cells r). c \<notin> set s"
proof -
  have "plain s \<Longrightarrow> c \<notin> set s" for s using assms(2) by (auto simp: plain_def)
  moreover have "one_line v \<Longrightarrow> c \<notin> set (the_or v '''')" for v using assms(2) by (auto simp: one_line_def)
  ultimately show ?thesis using assms(1)
    by (auto simp: report_cells_def reportable_def plain_show_nat plain_show_int plain_isoTime plain_status split: option.split)
qed

lemma report_header: "csv_headerMap (parseCsvLine export_headers) =
    [(''index'', 0), (''subscriptionid'', 1), (''subscriptionname'', 2), (''status'', 3), (''error'', 4), (''errorcode'', 5),
     (''retrycount'', 6), (''completedat'', 7), (''durationms'', 8), (''message'', 9)]"
proof -
  have "parseCsvLine export_headers = [''index'', ''subscriptionId'', ''subscriptionName'', ''status'', ''error'', ''errorCode'',
     ''retryCount'', ''completedAt'', ''durationMs'', ''message'']" unfolding export_headers_def by code_simp
  moreover have "csv_headerMap [''index'', ''subscriptionId'', ''subscriptionName'', ''status'', ''error'', ''errorCode'',
     ''retryCount'', ''completedAt'', ''durationMs'', ''message''] =
    [(''index'', 0), (''subscriptionid'', 1), (''subscriptionname'', 2), (''status'', 3), (''error'', 4), (''errorcode'', 5),
     (''retrycount'', 6), (''completedat'', 7), (''durationms'', 8), (''message'', 9)]" by code_simp
  ultimately show ?thesis by simp
qed

lemma report_row_read:
  assumes "reportable r"
  shows "cancel_row (csv_headerMap (parseCsvLine export_headers)) (export_row r) =
    [\<lparr>cr_subscriptionId = pi_subscriptionId r, cr_reason = ''other'', cr_notes = None\<rparr>]"
proof -
  have id: "trimmed (pi_subscriptionId r)" using assms by (simp add: reportable_def)
  define vs where "vs = parseCsvLine (export_row r)"
  have vs: "vs = map js_trim (report_cells r)" unfolding vs_def report_row [OF assms] by (rule parse_line_trim) (simp add: report_cells_def)
  have cell: "vs ! 1 = pi_subscriptionId r" "length vs = 10" using id by (simp_all add: vs report_cells_def)
  then have mem: "pi_subscriptionId r \<in> set vs" by (metis nth_mem numeral_less_iff one_less_numeral_iff semiring_norm(76))
  have "js_trim (pi_subscriptionId r) \<noteq> []" using id by simp
  then have blank: "\<not> blank_row vs" using mem unfolding blank_row_def list_all_iff by auto
  have found: "Option.bind (id_column (csv_headerMap (parseCsvLine export_headers))) (cell_at vs) = Some (pi_subscriptionId r)"
    using cell by (simp add: report_header id_column_def opt_or_def cell_at_def)
  show ?thesis unfolding cancel_row_def vs_def [symmetric] Let_def found
    using blank id by (simp add: truthy_def report_header)
qed

lemma report_row_line:
  assumes "reportable r"
  shows "CHR 0x0A \<notin> set (export_row r) \<and> export_row r \<noteq> [] \<and> last (export_row r) \<noteq> CHR 0x0D \<and> js_trim (export_row r) \<noteq> []"
proof -
  have lf: "CHR 0x0A \<notin> set (export_row r)" and cr: "CHR 0x0D \<notin> set (export_row r)"
    unfolding report_row [OF assms] by (intro join_quoted_char report_cells_lines [OF assms]; simp)+
  have "CHR '','' \<in> set (export_row r)" by (simp add: export_row_def)
  then have "export_row r \<noteq> []" "js_trim (export_row r) \<noteq> []" using comma_not_space unfolding js_trim_empty by auto
  then show ?thesis using lf cr last_in_set [of "export_row r"] by metis
qed

text \<open>C39: The exported report of a batch can be fed back as a file of cancellations, provided every item's id is trimmed
  and has no comma, quote or line break (the report writes ids as they are), and no name, error or message of an item has a line
  break (the reader splits the file into lines before it looks at quotes); commas and quotes in these texts do no harm. Then
  it names every item of the batch in order, with no reason and no notes, and skips or invents none.\<close>

theorem report_reads_back:
  assumes "\<And>i. i \<in> set (be_results r) \<Longrightarrow> reportable i"
  shows "parseBatchCancelCsv (exportBatchResultToCsv r) =
    map (\<lambda>i. \<lparr>cr_subscriptionId = pi_subscriptionId i, cr_reason = ''other'', cr_notes = None\<rparr>) (be_results r)"
proof -
  have header: "CHR 0x0A \<notin> set export_headers \<and> export_headers \<noteq> [] \<and> last export_headers \<noteq> CHR 0x0D \<and> js_trim export_headers \<noteq> []"
    by (simp add: export_headers_def js_trim_def js_space_def)
  have rows: "CHR 0x0A \<notin> set l \<and> l \<noteq> [] \<and> last l \<noteq> CHR 0x0D \<and> js_trim l \<noteq> []" if "l \<in> set (export_headers # map export_row (be_results r))" for l
    using that header report_row_line assms by auto
  have "split_lines [] (exportBatchResultToCsv r) = export_headers # map export_row (be_results r)"
    unfolding exportBatchResultToCsv_def by (rule split_lines_join) (use rows in auto)
  then have lines: "csv_lines (exportBatchResultToCsv r) = export_headers # map export_row (be_results r)"
    unfolding csv_lines_def using rows by (simp add: filter_id_conv)
  have read: "concat (map (cancel_row (csv_headerMap (parseCsvLine export_headers))) (map export_row items)) =
      map (\<lambda>i. \<lparr>cr_subscriptionId = pi_subscriptionId i, cr_reason = ''other'', cr_notes = None\<rparr>) items"
    if "\<forall>i\<in>set items. reportable i" for items
    using that by (induction items) (simp_all add: report_row_read)
  show ?thesis
  proof (cases "be_results r")
    case Nil
    then show ?thesis by (simp add: parseBatchCancelCsv_def parse_batch_csv_def lines)
  next
    case (Cons i items)
    then show ?thesis using read [of "be_results r"] assms by (simp add: parseBatchCancelCsv_def parse_batch_csv_def lines)
  qed
qed

definition demo_report :: BatchExecutionResult where
  "demo_report = fresh_result ''b'' OpCancel 1 False 0 (run_options None)\<lparr>be_results := [pending_item 0 ''TV'']\<rparr>"

lemma report_reads_back_witness:
  "parseBatchCancelCsv (exportBatchResultToCsv demo_report) = [\<lparr>cr_subscriptionId = ''pending_0'', cr_reason = ''other'', cr_notes = None\<rparr>]"
proof -
  have nat0: "show_nat 0 = ''0''" by code_simp
  have items: "be_results demo_report = [pending_item 0 ''TV'']" by (simp add: demo_report_def)
  have "reportable i" if "i \<in> set (be_results demo_report)" for i
    using that by (simp add: items reportable_def pending_item_def nat0 trimmed_def js_space_def one_line_def)
  then show ?thesis using report_reads_back [of demo_report] by (simp add: items pending_item_def nat0)
qed

text \<open>Neither condition can be dropped: an error text with a line feed makes a second line that is read as an item nobody had in the
  batch, and an id with a comma is read up to the comma.\<close>

definition broken_item :: PerItemResult where
  "broken_item = (pending_item 0 ''TV'')\<lparr>pi_subscriptionId := ''s1'', pi_error := Some (''timeout'' @ [CHR 0x0A] @ ''1,ghost,gone'')\<rparr>"

definition comma_item :: PerItemResult where
  "comma_item = (pending_item 0 ''TV'')\<lparr>pi_subscriptionId := ''s1,s2''\<rparr>"

lemma report_conditions_needed:
  "map cr_subscriptionId (parseBatchCancelCsv (exportBatchResultToCsv (demo_report\<lparr>be_results := [broken_item]\<rparr>))) = [''s1'', ''ghost'']"
  "map cr_subscriptionId (parseBatchCancelCsv (exportBatchResultToCsv (demo_report\<lparr>be_results := [comma_item]\<rparr>))) = [''s1'']"
  by code_simp+

end
