(* ===== verification/PauseBilling.thy ===== *)
theory PauseBilling
  imports Proration
begin

text \<open>
  Pausing subscriptions: the service \<^verbatim>\<open>src/services/pauseBillingService.ts\<close> with its credits, records, limits and
  notifications, and the request handlers \<^verbatim>\<open>backend/billing/controller/pauseBillingController.ts\<close> that use it.
  Days are whole. The ids a request draws are \<open>gen 0, gen 1, \<dots>\<close>, the clock of a request stands still, and
  \<open>year_start\<close> gives the first instant of the local year of an instant. A handler answers an error code with its
  message, or the data of the response.
\<close>

section \<open>Types\<close>

record PauseLimits =
  pl_minDays :: int
  pl_maxDays :: int
  pl_maxPausesPerYear :: int

definition DEFAULT_PAUSE_LIMITS :: PauseLimits where
  "DEFAULT_PAUSE_LIMITS = \<lparr>pl_minDays = 7, pl_maxDays = 90, pl_maxPausesPerYear = 2\<rparr>"

datatype AdjustmentType = PauseCredit | EarlyResumeClawback | ResumeRestart

record BillingAdjustment =
  ba_id :: string
  ba_subscriptionId :: string
  ba_type :: AdjustmentType
  ba_amount :: rat
  ba_currency :: string
  ba_periodDays :: int
  ba_pauseDays :: int
  ba_createdAt :: int
  ba_appliedAt :: "int option"
  ba_nextBillingDate :: "int option"

datatype NotificationType = Paused | ResumeReminder | Resumed | LimitWarning
datatype NotificationChannel = EmailChannel | PushChannel | InAppChannel

record PauseNotification =
  pn_id :: string
  pn_subscriptionId :: string
  pn_type :: NotificationType
  pn_channel :: NotificationChannel
  pn_title :: string
  pn_body :: string
  pn_scheduledFor :: int
  pn_sentAt :: "int option"

record AdjustmentPreview =
  ap_creditAmount :: rat
  ap_periodDays :: int
  ap_pauseDays :: int
  ap_dailyRate :: rat
  ap_currency :: "string option"

record LimitEnforcementResult =
  le_allowed :: bool
  le_reason :: "string option"
  le_warning :: "bool option"

record PauseBillingRecord =
  pr_id :: string
  pr_subscriptionId :: string
  pr_pauseDays :: int
  pr_reason :: "string option"
  pr_pausedAt :: int
  pr_scheduledResumeAt :: int
  pr_resumedAt :: "int option"
  pr_earlyResume :: "bool option"
  pr_creditAmount :: rat
  pr_creditRemaining :: rat
  pr_currency :: string
  pr_active :: bool

record PauseBillingService =
  sv_adjustments :: "BillingAdjustment list"
  sv_notifications :: "PauseNotification list"
  sv_records :: "PauseBillingRecord list"
  sv_limits :: PauseLimits
  sv_defaultChannel :: NotificationChannel

definition newPauseBillingService :: PauseBillingService where
  "newPauseBillingService = \<lparr>sv_adjustments = [], sv_notifications = [], sv_records = [], sv_limits = DEFAULT_PAUSE_LIMITS,
     sv_defaultChannel = EmailChannel\<rparr>"

section \<open>Credits\<close>

definition previewAdjustment :: "rat \<Rightarrow> int \<Rightarrow> int \<Rightarrow> string option \<Rightarrow> AdjustmentPreview" where
  "previewAdjustment price billingCycleDays pauseDays currency =
     (let periodDays = max 1 billingCycleDays; days = max 0 pauseDays
      in \<lparr>ap_creditAmount = cents (of_int days / of_int periodDays * price), ap_periodDays = periodDays, ap_pauseDays = days,
          ap_dailyRate = cents (price / of_int periodDays), ap_currency = currency\<rparr>)"

record PauseParams =
  pp_subscriptionId :: string
  pp_price :: rat
  pp_billingCycleDays :: int
  pp_pauseDays :: int
  pp_currency :: string
  pp_reason :: "string option"
  pp_applyImmediately :: "bool option"

definition createPauseAdjustment :: "(nat \<Rightarrow> string) \<Rightarrow> int \<Rightarrow> PauseParams \<Rightarrow> PauseBillingService \<Rightarrow> BillingAdjustment \<times> PauseBillingService" where
  "createPauseAdjustment gen now params s =
     (let preview = previewAdjustment (pp_price params) (pp_billingCycleDays params) (pp_pauseDays params) (Some (pp_currency params));
          adjustment = \<lparr>ba_id = gen 0, ba_subscriptionId = pp_subscriptionId params, ba_type = PauseCredit,
            ba_amount = ap_creditAmount preview, ba_currency = pp_currency params, ba_periodDays = ap_periodDays preview,
            ba_pauseDays = ap_pauseDays preview, ba_createdAt = now,
            ba_appliedAt = (if pp_applyImmediately params = Some False then None else Some now), ba_nextBillingDate = None\<rparr>;
          record0 = \<lparr>pr_id = gen 1, pr_subscriptionId = pp_subscriptionId params, pr_pauseDays = ap_pauseDays preview,
            pr_reason = pp_reason params, pr_pausedAt = now, pr_scheduledResumeAt = now + ap_pauseDays preview * ONE_DAY_MS,
            pr_resumedAt = None, pr_earlyResume = None, pr_creditAmount = ap_creditAmount preview,
            pr_creditRemaining = ap_creditAmount preview, pr_currency = pp_currency params, pr_active = True\<rparr>
      in (adjustment, s\<lparr>sv_adjustments := sv_adjustments s @ [adjustment], sv_records := sv_records s @ [record0]\<rparr>))"

text \<open>Changing the first record that satisfies a predicate, as the code does through the reference \<open>find\<close> gives it.\<close>

fun update_first :: "('a \<Rightarrow> bool) \<Rightarrow> ('a \<Rightarrow> 'a) \<Rightarrow> 'a list \<Rightarrow> 'a list" where
  "update_first p f [] = []"
| "update_first p f (x # xs) = (if p x then f x # xs else x # update_first p f xs)"

definition paused_record :: "string \<Rightarrow> PauseBillingRecord \<Rightarrow> bool" where
  "paused_record subscriptionId r \<longleftrightarrow> pr_subscriptionId r = subscriptionId \<and> pr_active r"

definition createEarlyResumeAdjustment :: "(nat \<Rightarrow> string) \<Rightarrow> int \<Rightarrow> BillingAdjustment \<Rightarrow> int \<Rightarrow> PauseBillingService
    \<Rightarrow> BillingAdjustment \<times> PauseBillingService" where
  "createEarlyResumeAdjustment gen now original daysUsed s =
     (let pauseDays = max 1 (ba_pauseDays original); used = min (max 0 daysUsed) pauseDays; daysRemaining = pauseDays - used;
          remainingCredit = cents (of_int daysRemaining / of_int pauseDays * ba_amount original);
          clawback = \<lparr>ba_id = gen 0, ba_subscriptionId = ba_subscriptionId original, ba_type = EarlyResumeClawback,
            ba_amount = remainingCredit, ba_currency = ba_currency original, ba_periodDays = ba_periodDays original,
            ba_pauseDays = daysRemaining, ba_createdAt = now, ba_appliedAt = Some now, ba_nextBillingDate = None\<rparr>
      in (clawback, s\<lparr>sv_adjustments := sv_adjustments s @ [clawback],
            sv_records := update_first (paused_record (ba_subscriptionId original))
              (\<lambda>r. r\<lparr>pr_creditRemaining := remainingCredit, pr_resumedAt := Some now, pr_earlyResume := Some True, pr_active := False,
                 pr_pauseDays := used\<rparr>) (sv_records s)\<rparr>))"

record RestartParams =
  rs_subscriptionId :: string
  rs_pauseDays :: int
  rs_currentNextBillingDate :: int
  rs_currency :: string
  rs_billingCycleDays :: int
  rs_amount :: "rat option"
  rs_early :: "bool option"

definition createResumeRestart :: "(nat \<Rightarrow> string) \<Rightarrow> int \<Rightarrow> RestartParams \<Rightarrow> PauseBillingService \<Rightarrow> BillingAdjustment \<times> PauseBillingService" where
  "createResumeRestart gen now params s =
     (let shiftDays = max 0 (rs_pauseDays params); early = the_or (rs_early params) False;
          adjustment = \<lparr>ba_id = gen 0, ba_subscriptionId = rs_subscriptionId params, ba_type = ResumeRestart,
            ba_amount = the_or (rs_amount params) 0, ba_currency = rs_currency params, ba_periodDays = max 1 (rs_billingCycleDays params),
            ba_pauseDays = shiftDays, ba_createdAt = now, ba_appliedAt = Some now,
            ba_nextBillingDate = Some (rs_currentNextBillingDate params + shiftDays * ONE_DAY_MS)\<rparr>
      in (adjustment, s\<lparr>sv_adjustments := sv_adjustments s @ [adjustment],
            sv_records := update_first (paused_record (rs_subscriptionId params))
              (\<lambda>r. (if early then r else r\<lparr>pr_creditRemaining := 0\<rparr>)\<lparr>pr_resumedAt := Some now, pr_earlyResume := Some early, pr_active := False\<rparr>)
              (sv_records s)\<rparr>))"

section \<open>Limits and notifications\<close>

definition refused :: "string \<Rightarrow> LimitEnforcementResult" where
  "refused reason = \<lparr>le_allowed = False, le_reason = Some reason, le_warning = None\<rparr>"

definition enforceLimits :: "(int \<Rightarrow> int) \<Rightarrow> int \<Rightarrow> PauseBillingRecord list \<Rightarrow> int \<Rightarrow> PauseLimits \<Rightarrow> string option \<Rightarrow> LimitEnforcementResult" where
  "enforceLimits year_start now history pauseDays limits subscriptionId =
     (if pauseDays < pl_minDays limits then refused (''Minimum pause duration is '' @ show_int (pl_minDays limits) @ '' days.'')
      else if pl_maxDays limits < pauseDays then refused (''Maximum pause duration is '' @ show_int (pl_maxDays limits) @ '' days.'')
      else
        let scoped = (if truthy subscriptionId then filter (\<lambda>r. Some (pr_subscriptionId r) = subscriptionId) history else history)
        in if list_ex pr_active scoped then refused ''This subscription is already paused.''
           else
             let pausesThisYear = int (length (filter (\<lambda>r. year_start now \<le> pr_pausedAt r) scoped))
             in if pl_maxPausesPerYear limits \<le> pausesThisYear
                then refused (''Maximum of '' @ show_int (pl_maxPausesPerYear limits) @ '' pauses per year reached.'')
                else \<lparr>le_allowed = True, le_reason = None, le_warning = Some (pl_maxPausesPerYear limits - 1 \<le> pausesThisYear)\<rparr>)"

record LimitsPatch =
  lp_minDays :: "int option"
  lp_maxDays :: "int option"
  lp_maxPausesPerYear :: "int option"

definition setLimits :: "LimitsPatch \<Rightarrow> PauseBillingService \<Rightarrow> PauseLimits \<times> PauseBillingService" where
  "setLimits patch s =
     (let l = sv_limits s;
          l1 = \<lparr>pl_minDays = the_or (lp_minDays patch) (pl_minDays l), pl_maxDays = the_or (lp_maxDays patch) (pl_maxDays l),
             pl_maxPausesPerYear = the_or (lp_maxPausesPerYear patch) (pl_maxPausesPerYear l)\<rparr>
      in (l1, s\<lparr>sv_limits := l1\<rparr>))"

definition scheduleNotifications :: "(nat \<Rightarrow> string) \<Rightarrow> int \<Rightarrow> string \<Rightarrow> int \<Rightarrow> int \<Rightarrow> NotificationChannel option \<Rightarrow> PauseBillingService
    \<Rightarrow> PauseNotification list \<times> PauseBillingService" where
  "scheduleNotifications gen now subscriptionId pauseDays resumeAt channel s =
     (let ch = the_or channel (sv_defaultChannel s);
          items =
            [\<lparr>pn_id = gen 0, pn_subscriptionId = subscriptionId, pn_type = Paused, pn_channel = ch, pn_title = ''Subscription paused'',
               pn_body = ''Your subscription has been paused for '' @ show_int pauseDays @ '' days.'', pn_scheduledFor = now, pn_sentAt = Some now\<rparr>,
             \<lparr>pn_id = gen 1, pn_subscriptionId = subscriptionId, pn_type = ResumeReminder, pn_channel = ch, pn_title = ''Pause ending soon'',
               pn_body = ''Your subscription pause ends tomorrow. Billing will restart on resume.'',
               pn_scheduledFor = max (resumeAt - ONE_DAY_MS) now, pn_sentAt = None\<rparr>,
             \<lparr>pn_id = gen 2, pn_subscriptionId = subscriptionId, pn_type = Resumed, pn_channel = ch, pn_title = ''Subscription resumed'',
               pn_body = ''Your subscription has resumed and billing has restarted.'', pn_scheduledFor = resumeAt, pn_sentAt = None\<rparr>]
      in (items, s\<lparr>sv_notifications := sv_notifications s @ items\<rparr>))"

definition scheduleLimitWarning :: "(nat \<Rightarrow> string) \<Rightarrow> int \<Rightarrow> string \<Rightarrow> string \<Rightarrow> NotificationChannel option \<Rightarrow> PauseBillingService
    \<Rightarrow> PauseNotification \<times> PauseBillingService" where
  "scheduleLimitWarning gen now subscriptionId message channel s =
     (let n = \<lparr>pn_id = gen 0, pn_subscriptionId = subscriptionId, pn_type = LimitWarning, pn_channel = the_or channel (sv_defaultChannel s),
        pn_title = ''Pause limit warning'', pn_body = message, pn_scheduledFor = now, pn_sentAt = Some now\<rparr>
      in (n, s\<lparr>sv_notifications := sv_notifications s @ [n]\<rparr>))"

section \<open>Analytics and accessors\<close>

record PauseAnalyticsReport =
  rp_totalPauses :: int
  rp_activePauses :: int
  rp_averagePauseDays :: rat
  rp_totalCreditsIssued :: rat
  rp_totalCreditsRemaining :: rat
  rp_resumeRate :: rat
  rp_earlyResumeRate :: rat
  rp_byReason :: "int obj"

definition days_paused :: "PauseBillingRecord \<Rightarrow> int" where
  "days_paused r = (case pr_resumedAt r of Some t \<Rightarrow> max 0 (ceil_div (t - pr_pausedAt r) ONE_DAY_MS) | None \<Rightarrow> pr_pauseDays r)"

definition pause_getAnalytics :: "PauseBillingRecord list \<Rightarrow> BillingAdjustment list \<Rightarrow> PauseAnalyticsReport" where
  "pause_getAnalytics records adjustments =
     (let n = length records; resumed = filter (\<lambda>r. \<not> pr_active r) records; early = filter (\<lambda>r. pr_earlyResume r = Some True) resumed
      in \<lparr>rp_totalPauses = int n, rp_activePauses = int (length (filter pr_active records)),
          rp_averagePauseDays = (if 0 < n then cents (of_int (sum_list (map days_paused records)) / of_nat n) else 0),
          rp_totalCreditsIssued = cents (rat_sum (map ba_amount (filter (\<lambda>a. ba_type a = PauseCredit) adjustments))),
          rp_totalCreditsRemaining = cents (rat_sum (map pr_creditRemaining records)),
          rp_resumeRate = (if 0 < n then cents (of_nat (length resumed) / of_nat n * 100) else 0),
          rp_earlyResumeRate = (if resumed \<noteq> [] then cents (of_nat (length early) / of_nat (length resumed) * 100) else 0),
          rp_byReason = foldl (\<lambda>m r. let k = the_or (pr_reason r) ''unspecified'' in AList.update k (obj_or 0 m k + 1) m) [] records\<rparr>)"

definition getAdjustments :: "string option \<Rightarrow> PauseBillingService \<Rightarrow> BillingAdjustment list" where
  "getAdjustments subscriptionId s =
     (if truthy subscriptionId then filter (\<lambda>a. Some (ba_subscriptionId a) = subscriptionId) (sv_adjustments s) else sv_adjustments s)"

definition getNotifications :: "string option \<Rightarrow> PauseBillingService \<Rightarrow> PauseNotification list" where
  "getNotifications subscriptionId s =
     (if truthy subscriptionId then filter (\<lambda>a. Some (pn_subscriptionId a) = subscriptionId) (sv_notifications s) else sv_notifications s)"

definition getRecords :: "string option \<Rightarrow> PauseBillingService \<Rightarrow> PauseBillingRecord list" where
  "getRecords subscriptionId s =
     (if truthy subscriptionId then filter (\<lambda>r. Some (pr_subscriptionId r) = subscriptionId) (sv_records s) else sv_records s)"

definition getActivePause :: "string \<Rightarrow> PauseBillingService \<Rightarrow> PauseBillingRecord option" where
  "getActivePause subscriptionId s = js_find (paused_record subscriptionId) (sv_records s)"

text \<open>\<open>xs.sort((a, b) => b.createdAt - a.createdAt)[0]\<close>\<close>

definition latest :: "BillingAdjustment list \<Rightarrow> BillingAdjustment option" where
  "latest xs = (case sort_key (\<lambda>a. - ba_createdAt a) xs of [] \<Rightarrow> None | a # _ \<Rightarrow> Some a)"

definition getPauseCreditAdjustment :: "string \<Rightarrow> PauseBillingService \<Rightarrow> BillingAdjustment option" where
  "getPauseCreditAdjustment subscriptionId s =
     (case getActivePause subscriptionId s of None \<Rightarrow> None
      | Some active \<Rightarrow> latest (filter (\<lambda>a. ba_subscriptionId a = subscriptionId \<and> ba_type a = PauseCredit
          \<and> ba_createdAt a \<le> pr_pausedAt active + 1000) (sv_adjustments s)))"

definition pause_reset :: "PauseBillingService \<Rightarrow> PauseBillingService" where
  "pause_reset s = s\<lparr>sv_adjustments := [], sv_notifications := [], sv_records := [], sv_limits := DEFAULT_PAUSE_LIMITS\<rparr>"

section \<open>Requests\<close>

text \<open>Bodies after decoding: a member of another type than the handler tests for is absent.\<close>

record PauseBody =
  pb_pauseDays :: "int option"
  pb_reason :: "string option"
  pb_price :: "rat option"
  pb_billingCycleDays :: "int option"
  pb_currency :: "string option"

record PauseAnswer =
  pw_adjustment :: BillingAdjustment
  pw_notifications :: "PauseNotification list"
  pw_resumeAt :: int
  pw_record :: "PauseBillingRecord option"

definition handle_pause :: "(int \<Rightarrow> int) \<Rightarrow> (nat \<Rightarrow> string) \<Rightarrow> int \<Rightarrow> string \<Rightarrow> PauseBody \<Rightarrow> PauseBillingService
    \<Rightarrow> ((string \<times> string) + PauseAnswer) \<times> PauseBillingService" where
  "handle_pause year_start gen now subscriptionId body s =
     (case (pb_pauseDays body, pb_price body, pb_billingCycleDays body) of
        (Some pauseDays, Some price, Some cycle) \<Rightarrow>
          if subscriptionId = '''' \<or> \<not> truthy (pb_currency body)
          then (Inl (''VALIDATION_ERROR'', ''pauseDays, price, billingCycleDays, and currency are required''), s)
          else if getActivePause subscriptionId s \<noteq> None then (Inl (''SUBSCRIPTION_PAUSED'', ''This subscription is already paused''), s)
          else
            let check = enforceLimits year_start now (getRecords (Some subscriptionId) s) pauseDays (sv_limits s) (Some subscriptionId)
            in if \<not> le_allowed check then (Inl (''VALIDATION_ERROR'', the_or (le_reason check) ''Pause not allowed''), s)
               else case createPauseAdjustment gen now \<lparr>pp_subscriptionId = subscriptionId, pp_price = price, pp_billingCycleDays = cycle,
                      pp_pauseDays = pauseDays, pp_currency = the_or (pb_currency body) '''', pp_reason = pb_reason body, pp_applyImmediately = None\<rparr> s of
                 (adjustment, s1) \<Rightarrow>
                   let resumeAt = now + pauseDays * ONE_DAY_MS
                   in case scheduleNotifications (\<lambda>k. gen (k + 2)) now subscriptionId pauseDays resumeAt None s1 of
                     (notifications, s2) \<Rightarrow>
                       let s3 = (if le_warning check = Some True
                             then snd (scheduleLimitWarning (\<lambda>k. gen (k + 5)) now subscriptionId
                               ''You are approaching the maximum number of pauses allowed this year.'' None s2) else s2)
                       in (Inr \<lparr>pw_adjustment = adjustment, pw_notifications = notifications, pw_resumeAt = resumeAt,
                             pw_record = getActivePause subscriptionId s3\<rparr>, s3)
      | _ \<Rightarrow> (Inl (''VALIDATION_ERROR'', ''pauseDays, price, billingCycleDays, and currency are required''), s))"

record ResumeBody =
  rb_early :: "bool option"
  rb_currentNextBillingDate :: "int option"
  rb_billingCycleDays :: "int option"
  rb_currency :: "string option"

record ResumeAnswer =
  rw_clawback :: "BillingAdjustment option"
  rw_restart :: BillingAdjustment
  rw_daysUsed :: int
  rw_early :: bool

definition handle_resume :: "(nat \<Rightarrow> string) \<Rightarrow> int \<Rightarrow> string \<Rightarrow> ResumeBody \<Rightarrow> PauseBillingService
    \<Rightarrow> ((string \<times> string) + ResumeAnswer) \<times> PauseBillingService" where
  "handle_resume gen now subscriptionId body s =
     (case getActivePause subscriptionId s of
        None \<Rightarrow> (Inl (''SUBSCRIPTION_NOT_FOUND'', ''No active pause found for this subscription''), s)
      | Some active \<Rightarrow>
          let daysUsed = max 0 (ceil_div (now - pr_pausedAt active) ONE_DAY_MS);
              pauseCredit = latest (filter (\<lambda>a. ba_type a = PauseCredit) (getAdjustments (Some subscriptionId) s));
              early = (rb_early body = Some True \<or> daysUsed < pr_pauseDays active)
          in case (case pauseCredit of
                Some credit \<Rightarrow> if early then (case createEarlyResumeAdjustment gen now credit daysUsed s of (c, s1) \<Rightarrow> (Some c, s1)) else (None, s)
              | None \<Rightarrow> (None, s)) of
            (clawback, s1) \<Rightarrow>
              let shiftDays = (if early then daysUsed else pr_pauseDays active);
                  currentNext = (case rb_currentNextBillingDate body of Some d \<Rightarrow> d
                    | None \<Rightarrow> now + the_or (rb_billingCycleDays body) 30 * ONE_DAY_MS)
              in case createResumeRestart (\<lambda>k. gen (k + 1)) now
                    \<lparr>rs_subscriptionId = subscriptionId, rs_pauseDays = shiftDays, rs_currentNextBillingDate = currentNext,
                     rs_currency = the_or (rb_currency body) (pr_currency active),
                     rs_billingCycleDays = the_or (opt_or (rb_billingCycleDays body) (map_option ba_periodDays pauseCredit)) 30,
                     rs_amount = None, rs_early = Some early\<rparr> s1 of
                 (restart, s2) \<Rightarrow> (Inr \<lparr>rw_clawback = clawback, rw_restart = restart, rw_daysUsed = shiftDays, rw_early = early\<rparr>, s2))"

definition handle_preview :: "(int \<Rightarrow> int) \<Rightarrow> int \<Rightarrow> string \<Rightarrow> int option \<Rightarrow> rat option \<Rightarrow> int option \<Rightarrow> string option \<Rightarrow> PauseBillingService
    \<Rightarrow> (string \<times> string) + AdjustmentPreview \<times> LimitEnforcementResult" where
  "handle_preview year_start now subscriptionId pauseDays price billingCycleDays currency s =
     (case (pauseDays, price) of
        (Some d, Some p) \<Rightarrow>
          if subscriptionId = '''' then Inl (''VALIDATION_ERROR'', ''pauseDays and price query params are required'')
          else Inr (previewAdjustment p (the_or billingCycleDays 30) d (Some (or_default currency ''USD'')),
            enforceLimits year_start now (getRecords (Some subscriptionId) s) d (sv_limits s) (Some subscriptionId))
      | _ \<Rightarrow> Inl (''VALIDATION_ERROR'', ''pauseDays and price query params are required''))"

definition below_one :: "int option \<Rightarrow> bool" where
  "below_one v \<longleftrightarrow> (case v of None \<Rightarrow> False | Some n \<Rightarrow> n < 1)"

definition handle_updateLimits :: "LimitsPatch \<Rightarrow> PauseBillingService \<Rightarrow> ((string \<times> string) + PauseLimits) \<times> PauseBillingService" where
  "handle_updateLimits patch s =
     (if below_one (lp_minDays patch) then (Inl (''VALIDATION_ERROR'', ''minDays must be a positive number''), s)
      else if below_one (lp_maxDays patch) then (Inl (''VALIDATION_ERROR'', ''maxDays must be a positive number''), s)
      else if below_one (lp_maxPausesPerYear patch) then (Inl (''VALIDATION_ERROR'', ''maxPausesPerYear must be a positive number''), s)
      else case setLimits patch s of (l, s1) \<Rightarrow> (Inr l, s1))"

section \<open>Runs\<close>

datatype pause_request =
    PauseIt string PauseBody
  | ResumeIt string ResumeBody
  | UpdateLimits LimitsPatch

text \<open>A request with the time its handler reads: two requests may read the same millisecond, and a clock that is set back
  gives a later request an earlier time.\<close>

definition pause_step :: "(int \<Rightarrow> int) \<Rightarrow> PauseBillingService \<Rightarrow> int \<times> (nat \<Rightarrow> string) \<times> pause_request \<Rightarrow> PauseBillingService" where
  "pause_step year_start s e =
     (case e of (now, gen, request) \<Rightarrow>
        (case request of
           PauseIt x body \<Rightarrow> snd (handle_pause year_start gen now x body s)
         | ResumeIt x body \<Rightarrow> snd (handle_resume gen now x body s)
         | UpdateLimits patch \<Rightarrow> snd (handle_updateLimits patch s)))"

section \<open>The ledger of one subscription\<close>

definition credits_of :: "string \<Rightarrow> PauseBillingService \<Rightarrow> BillingAdjustment list" where
  "credits_of x s = filter (\<lambda>a. ba_subscriptionId a = x \<and> ba_type a = PauseCredit) (sv_adjustments s)"

definition clawbacks_of :: "string \<Rightarrow> PauseBillingService \<Rightarrow> BillingAdjustment list" where
  "clawbacks_of x s = filter (\<lambda>a. ba_subscriptionId a = x \<and> ba_type a = EarlyResumeClawback) (sv_adjustments s)"

definition active_of :: "string \<Rightarrow> PauseBillingService \<Rightarrow> PauseBillingRecord list" where
  "active_of x s = filter (paused_record x) (sv_records s)"

definition total :: "BillingAdjustment list \<Rightarrow> rat" where
  "total xs = sum_list (map ba_amount xs)"

lemma amounts_simps [simp]: "total [] = 0" "total (a # xs) = ba_amount a + total xs" "total (xs @ ys) = total xs + total ys"
  by (simp_all add: total_def)

lemma total_nonneg: "\<forall>a\<in>set xs. 0 \<le> ba_amount a \<Longrightarrow> 0 \<le> total xs"
  by (induction xs) auto

lemma total_last: "xs \<noteq> [] \<Longrightarrow> total xs = total (butlast xs) + ba_amount (last xs)"
  by (metis append_butlast_last_id amounts_simps(1,2,3) add_0_right)

text \<open>At most one record is active, an active pause has a credit, and if the credits were given at increasing times
  and none is negative, what is clawed back does not exceed the credits of the pauses that are over.\<close>

definition in_time_order :: "BillingAdjustment list \<Rightarrow> bool" where
  "in_time_order credits \<longleftrightarrow> sorted_wrt (<) (map ba_createdAt credits)"

definition pause_ledger_ok :: "bool \<Rightarrow> BillingAdjustment list \<Rightarrow> BillingAdjustment list \<Rightarrow> bool" where
  "pause_ledger_ok open_pause credits clawbacks \<longleftrightarrow>
     (\<forall>a\<in>set credits. whole_cents (ba_amount a)) \<and> (open_pause \<longrightarrow> credits \<noteq> []) \<and>
     (in_time_order credits \<and> (\<forall>a\<in>set credits. 0 \<le> ba_amount a) \<longrightarrow>
        (\<forall>a\<in>set clawbacks. 0 \<le> ba_amount a) \<and> total clawbacks \<le> total (if open_pause then butlast credits else credits))"

definition pause_ok :: "PauseBillingService \<Rightarrow> bool" where
  "pause_ok s \<longleftrightarrow> active_of [] s = [] \<and> (\<forall>x. length (active_of x s) \<le> 1
     \<and> pause_ledger_ok (active_of x s \<noteq> []) (credits_of x s) (clawbacks_of x s))"

lemma ledger_pause:
  assumes "pause_ledger_ok False c k" "whole_cents (ba_amount a)"
  shows "pause_ledger_ok True (c @ [a]) k"
  using assms by (auto simp: pause_ledger_ok_def in_time_order_def sorted_wrt_append)

lemma ledger_resume: "pause_ledger_ok True c k \<Longrightarrow> pause_ledger_ok False c k"
proof -
  assume ok: "pause_ledger_ok True c k"
  then have "c \<noteq> []" by (simp add: pause_ledger_ok_def)
  then have "total (butlast c) \<le> total c" if "\<forall>a\<in>set c. 0 \<le> ba_amount a" using that total_last [of c] by simp
  then show ?thesis using ok by (fastforce simp: pause_ledger_ok_def)
qed

lemma ledger_clawback:
  assumes ok: "pause_ledger_ok True c k"
    and a: "in_time_order c \<Longrightarrow> 0 \<le> ba_amount (last c) \<Longrightarrow> 0 \<le> ba_amount a \<and> ba_amount a \<le> ba_amount (last c)"
  shows "pause_ledger_ok False c (k @ [a])"
proof -
  have ne: "c \<noteq> []" using ok by (simp add: pause_ledger_ok_def)
  have "(\<forall>b\<in>set (k @ [a]). 0 \<le> ba_amount b) \<and> total (k @ [a]) \<le> total c"
    if pos: "in_time_order c" "\<forall>b\<in>set c. 0 \<le> ba_amount b"
    using ok pos a total_last [OF ne] ne by (auto simp: pause_ledger_ok_def)
  then show ?thesis using ok ne by (simp add: pause_ledger_ok_def)
qed

text \<open>The latest credit is the last one.\<close>

lemma latest_last:
  assumes "in_time_order c" "c \<noteq> []"
  shows "latest c = Some (last c)"
proof -
  obtain a rest where s: "sort_key (\<lambda>a. - ba_createdAt a) c = a # rest"
    using assms(2) by (metis list.exhaust set_sort set_empty)
  have mem: "a \<in> set c" by (metis s set_sort list.set_intros(1))
  have "sorted (map (\<lambda>a. - ba_createdAt a) (a # rest))" by (metis s sorted_sort_key)
  then have "\<forall>b\<in>set c. ba_createdAt b \<le> ba_createdAt a" using s by (metis (no_types, lifting) set_ConsD set_sort
      sorted_simps(2) list.simps(9) neg_le_iff_le order_refl in_set_conv_nth nth_map length_map nth_mem)
  then have le: "ba_createdAt (last c) \<le> ba_createdAt a" using assms(2) by simp
  have c: "c = butlast c @ [last c]" using assms(2) by simp
  have "sorted_wrt (<) (map ba_createdAt (butlast c) @ [ba_createdAt (last c)])" using assms(1) [unfolded in_time_order_def] by (metis c list.simps(8,9) map_append)
  then have "\<forall>b\<in>set (butlast c). ba_createdAt b < ba_createdAt (last c)" by (simp add: sorted_wrt_append)
  then have "a \<notin> set (butlast c)" using le by auto
  then have "a = last c" using mem c by (metis Un_iff append.assoc in_set_conv_decomp set_append set_ConsD empty_iff empty_set)
  then show ?thesis by (simp add: latest_def s)
qed

lemma latest_member: "c \<noteq> [] \<Longrightarrow> \<exists>a\<in>set c. latest c = Some a"
  unfolding latest_def by (metis list.exhaust list.set_intros(1) list.simps(5) set_empty set_sort)

section \<open>What each operation does to the ledgers\<close>

lemma update_first_same: "\<forall>x\<in>set xs. p x \<longrightarrow> \<not> p (f x) \<Longrightarrow> filter p (update_first p f xs) = tl (filter p xs)"
  by (induction xs) auto

lemma update_first_other: "\<forall>x\<in>set xs. p x \<longrightarrow> \<not> q x \<and> \<not> q (f x) \<Longrightarrow> filter q (update_first p f xs) = filter q xs"
  by (induction xs) auto

lemma getActive_None: "getActivePause x s = None \<longleftrightarrow> active_of x s = []"
  by (simp add: getActivePause_def js_find_None active_of_def filter_empty_conv)

lemma getActive_Some: "getActivePause x s = Some r \<Longrightarrow> active_of x s \<noteq> []"
  using getActive_None [of x s] by simp

lemma create_views:
  assumes "createPauseAdjustment gen now params s = (a, s1)"
  shows "credits_of x s1 = credits_of x s @ (if pp_subscriptionId params = x then [a] else [])" "clawbacks_of x s1 = clawbacks_of x s"
    "length (active_of x s1) = length (active_of x s) + (if pp_subscriptionId params = x then 1 else 0)"
    "ba_createdAt a = now" "whole_cents (ba_amount a)" "sv_limits s1 = sv_limits s"
  using assms by (auto simp: createPauseAdjustment_def Let_def credits_of_def clawbacks_of_def active_of_def paused_record_def
      previewAdjustment_def whole_cents_def cents_def)

lemma notify_views:
  assumes "scheduleNotifications gen now x d t c s = (n, s1)"
  shows "credits_of y s1 = credits_of y s" "clawbacks_of y s1 = clawbacks_of y s" "active_of y s1 = active_of y s" "sv_records s1 = sv_records s"
    "sv_limits s1 = sv_limits s"
  using assms by (auto simp: scheduleNotifications_def Let_def credits_of_def clawbacks_of_def active_of_def)

lemma warn_views:
  "credits_of y (snd (scheduleLimitWarning gen now x m c s)) = credits_of y s"
  "clawbacks_of y (snd (scheduleLimitWarning gen now x m c s)) = clawbacks_of y s"
  "active_of y (snd (scheduleLimitWarning gen now x m c s)) = active_of y s"
  "sv_records (snd (scheduleLimitWarning gen now x m c s)) = sv_records s"
  "sv_limits (snd (scheduleLimitWarning gen now x m c s)) = sv_limits s"
  by (simp_all add: scheduleLimitWarning_def Let_def credits_of_def clawbacks_of_def active_of_def)

lemma early_views:
  assumes "createEarlyResumeAdjustment gen now credit used s = (c, s1)"
  shows "credits_of x s1 = credits_of x s" "clawbacks_of x s1 = clawbacks_of x s @ (if ba_subscriptionId credit = x then [c] else [])"
    "active_of x s1 = (if ba_subscriptionId credit = x then tl (active_of x s) else active_of x s)" "sv_limits s1 = sv_limits s"
proof -
  show "credits_of x s1 = credits_of x s" "clawbacks_of x s1 = clawbacks_of x s @ (if ba_subscriptionId credit = x then [c] else [])"
    "sv_limits s1 = sv_limits s"
    using assms by (auto simp: createEarlyResumeAdjustment_def Let_def credits_of_def clawbacks_of_def)
  show "active_of x s1 = (if ba_subscriptionId credit = x then tl (active_of x s) else active_of x s)"
    using assms by (auto simp: createEarlyResumeAdjustment_def Let_def active_of_def paused_record_def
        intro!: update_first_same update_first_other)
qed

lemma restart_views:
  assumes "createResumeRestart gen now params s = (a, s1)"
  shows "credits_of x s1 = credits_of x s" "clawbacks_of x s1 = clawbacks_of x s"
    "active_of x s1 = (if rs_subscriptionId params = x then tl (active_of x s) else active_of x s)" "sv_limits s1 = sv_limits s"
proof -
  show "credits_of x s1 = credits_of x s" "clawbacks_of x s1 = clawbacks_of x s" "sv_limits s1 = sv_limits s"
    using assms by (auto simp: createResumeRestart_def Let_def credits_of_def clawbacks_of_def)
  show "active_of x s1 = (if rs_subscriptionId params = x then tl (active_of x s) else active_of x s)"
    using assms by (auto simp: createResumeRestart_def Let_def active_of_def paused_record_def
        intro!: update_first_same update_first_other)
qed

section \<open>Clawbacks\<close>

lemma whole_cents_mono: "x \<le> y \<Longrightarrow> whole_cents y \<Longrightarrow> cents x \<le> y"
  using cents_mono [of x y] by (simp add: whole_cents_def)

lemma clawback_bounds:
  assumes "0 \<le> ba_amount credit" "whole_cents (ba_amount credit)" "createEarlyResumeAdjustment gen now credit used s = (c, s1)"
  shows "0 \<le> ba_amount c \<and> ba_amount c \<le> ba_amount credit"
proof -
  define d where "d = max 1 (ba_pauseDays credit)"
  define share where "share = (of_int (d - min (max 0 used) d) / of_int d :: rat)"
  have amount: "ba_amount c = cents (share * ba_amount credit)"
    using assms(3) by (auto simp: createEarlyResumeAdjustment_def Let_def share_def d_def)
  have "0 < d" by (simp add: d_def)
  then have share: "0 \<le> share" "share \<le> 1" by (auto simp: share_def divide_le_eq)
  then have "0 \<le> share * ba_amount credit" "share * ba_amount credit \<le> ba_amount credit"
    using assms(1) by (auto simp: mult_left_le_one_le)
  then show ?thesis unfolding amount by (auto intro: cents_nonneg whole_cents_mono assms(2))
qed

text \<open>An early resume claws back the share of the credit for the days not used, to half a cent: never less than nothing
  and never more than the credit, all of it when no day was used and nothing once every day was.\<close>

theorem clawback_is_unused_share:
  fixes used :: int
  assumes credit: "0 \<le> ba_amount credit" "whole_cents (ba_amount credit)" "1 \<le> ba_pauseDays credit" and days: "0 \<le> used"
    and claw: "createEarlyResumeAdjustment gen now credit used s = (c, s1)"
  shows "0 \<le> ba_amount c \<and> ba_amount c \<le> ba_amount credit
    \<and> \<bar>ba_amount c - of_int (ba_pauseDays credit - min used (ba_pauseDays credit)) / of_int (ba_pauseDays credit) * ba_amount credit\<bar> \<le> 1 / 200
    \<and> ba_pauseDays c = ba_pauseDays credit - min used (ba_pauseDays credit)
    \<and> (used = 0 \<longrightarrow> ba_amount c = ba_amount credit) \<and> (ba_pauseDays credit \<le> used \<longrightarrow> ba_amount c = 0)"
proof -
  define share where "share = (of_int (ba_pauseDays credit - min used (ba_pauseDays credit)) / of_int (ba_pauseDays credit) :: rat)"
  have amount: "ba_amount c = cents (share * ba_amount credit)" "ba_pauseDays c = ba_pauseDays credit - min used (ba_pauseDays credit)"
    using claw credit(3) days by (auto simp: createEarlyResumeAdjustment_def Let_def share_def max_def)
  have share: "0 \<le> share" "share \<le> 1" using credit(3) days by (auto simp: share_def divide_le_eq)
  then have "0 \<le> share * ba_amount credit" "share * ba_amount credit \<le> ba_amount credit"
    using credit(1) by (auto simp: mult_left_le_one_le)
  then have b: "0 \<le> ba_amount c" "ba_amount c \<le> ba_amount credit"
    unfolding amount by (auto intro: cents_nonneg whole_cents_mono credit(2))
  have ends: "used = 0 \<longrightarrow> share = 1" "ba_pauseDays credit \<le> used \<longrightarrow> share = 0" using credit(3) by (auto simp: share_def)
  show ?thesis using b amount(2) ends cents_close [of "share * ba_amount credit"] credit(2)
    unfolding amount(1) share_def [symmetric] by (auto simp: whole_cents_def)
qed

definition pause_demo_credit :: BillingAdjustment where
  "pause_demo_credit = fst (createPauseAdjustment (\<lambda>_. ''a'') 0 \<lparr>pp_subscriptionId = ''s'', pp_price = 30, pp_billingCycleDays = 30,
     pp_pauseDays = 10, pp_currency = ''USD'', pp_reason = None, pp_applyImmediately = None\<rparr> newPauseBillingService)"

lemma clawback_is_unused_share_witness:
  "0 \<le> ba_amount (fst (createEarlyResumeAdjustment (\<lambda>_. ''c'') 0 pause_demo_credit 4 newPauseBillingService))
    \<and> ba_amount (fst (createEarlyResumeAdjustment (\<lambda>_. ''c'') 0 pause_demo_credit 4 newPauseBillingService)) \<le> 10"
proof -
  have c: "ba_amount pause_demo_credit = 10" "ba_pauseDays pause_demo_credit = 10"
    using whole_centsI [of 1000] by (simp_all add: pause_demo_credit_def createPauseAdjustment_def previewAdjustment_def Let_def whole_cents_def)
  obtain x s1 where x: "createEarlyResumeAdjustment (\<lambda>_. ''c'') 0 pause_demo_credit 4 newPauseBillingService = (x, s1)" by fastforce
  have "whole_cents (ba_amount pause_demo_credit)" using whole_centsI [of 1000] by (simp add: c)
  then show ?thesis using clawback_is_unused_share [OF _ _ _ _ x] by (simp add: x c)
qed

section \<open>The invariant of the handlers\<close>

lemma getRecords_scoped: "filter (\<lambda>r. Some (pr_subscriptionId r) = Some x) (getRecords (Some x) s) = filter (\<lambda>r. pr_subscriptionId r = x) (sv_records s)"
  by (simp add: getRecords_def)

lemma handle_pause_cases:
  assumes "handle_pause year_start gen now x body s = (answer, s1)"
  obtains (refused) "s1 = s"
  | (paused) a where "active_of x s = []" "ba_createdAt a = now" "whole_cents (ba_amount a)"
      "\<And>y. credits_of y s1 = credits_of y s @ (if x = y then [a] else [])" "\<And>y. clawbacks_of y s1 = clawbacks_of y s"
      "\<And>y. length (active_of y s1) = length (active_of y s) + (if x = y then 1 else 0)" "sv_limits s1 = sv_limits s"
      "\<exists>r. pr_subscriptionId r = x \<and> pr_pausedAt r = now \<and> sv_records s1 = sv_records s @ [r]"
      "int (length (filter (\<lambda>r. pr_subscriptionId r = x \<and> year_start now \<le> pr_pausedAt r) (sv_records s))) < pl_maxPausesPerYear (sv_limits s)"
proof (cases "s1 = s")
  case False
  obtain days price cycle where b: "pb_pauseDays body = Some days" "pb_price body = Some price" "pb_billingCycleDays body = Some cycle"
    using assms False by (auto simp: handle_pause_def split: option.splits)
  let ?check = "enforceLimits year_start now (getRecords (Some x) s) days (sv_limits s) (Some x)"
  have x: "x \<noteq> ''''" and c: "truthy (pb_currency body)" and none: "getActivePause x s = None" and ok: "le_allowed ?check"
    using assms False by (auto simp: handle_pause_def b Let_def split: if_splits)
  define params where "params = \<lparr>pp_subscriptionId = x, pp_price = price, pp_billingCycleDays = cycle, pp_pauseDays = days,
    pp_currency = the_or (pb_currency body) '''', pp_reason = pb_reason body, pp_applyImmediately = None\<rparr>"
  obtain a s2 where create: "createPauseAdjustment gen now params s = (a, s2)" by fastforce
  obtain n s3 where notify: "scheduleNotifications (\<lambda>k. gen (k + 2)) now x days (now + days * ONE_DAY_MS) None s2 = (n, s3)" by fastforce
  have s1: "s1 = (if le_warning ?check = Some True then snd (scheduleLimitWarning (\<lambda>k. gen (k + 5)) now x
      ''You are approaching the maximum number of pauses allowed this year.'' None s3) else s3)"
    using assms x c none ok unfolding handle_pause_def b prod.case option.case Let_def create [unfolded params_def] notify by simp
  have px: "pp_subscriptionId params = x" by (simp add: params_def)
  note views = create_views [OF create, unfolded px] notify_views [OF notify] warn_views
  have "\<exists>r. pr_subscriptionId r = x \<and> pr_pausedAt r = now \<and> sv_records s2 = sv_records s @ [r]"
    using create by (auto simp: createPauseAdjustment_def Let_def params_def)
  then have recs: "\<exists>r. pr_subscriptionId r = x \<and> pr_pausedAt r = now \<and> sv_records s1 = sv_records s @ [r]"
    by (simp add: s1 views)
  have "int (length (filter (\<lambda>r. year_start now \<le> pr_pausedAt r) (filter (\<lambda>r. pr_subscriptionId r = x) (sv_records s)))) < pl_maxPausesPerYear (sv_limits s)"
    using ok x getRecords_scoped [of x s] unfolding enforceLimits_def
    by (auto simp: refused_def truthy_def Let_def split: if_splits)
  then have lim: "int (length (filter (\<lambda>r. pr_subscriptionId r = x \<and> year_start now \<le> pr_pausedAt r) (sv_records s))) < pl_maxPausesPerYear (sv_limits s)"
    by (simp add: conj_commute)
  show ?thesis
    by (rule paused [of a]) (use none recs lim in \<open>auto simp: getActive_None s1 views\<close>)
qed

lemma pause_okD: "pause_ok s \<Longrightarrow> length (active_of x s) \<le> 1 \<and> pause_ledger_ok (active_of x s \<noteq> []) (credits_of x s) (clawbacks_of x s)"
  unfolding pause_ok_def by blast

lemma handle_resume_cases:
  assumes run: "handle_resume gen now x body s = (answer, s1)" and ok: "pause_ok s"
  obtains (refused) "s1 = s"
  | (resumed) k where "active_of x s \<noteq> []" "\<And>y. credits_of y s1 = credits_of y s"
      "\<And>y. clawbacks_of y s1 = clawbacks_of y s @ (if x = y then k else [])" "active_of x s1 = []"
      "\<And>y. x \<noteq> y \<Longrightarrow> active_of y s1 = active_of y s" "sv_limits s1 = sv_limits s" "pause_ledger_ok False (credits_of x s) (clawbacks_of x s @ k)"
proof (cases "getActivePause x s")
  case None
  then show ?thesis using run refused by (simp add: handle_resume_def)
next
  case (Some active)
  have act: "active_of x s \<noteq> []" by (rule getActive_Some [OF Some])
  have "length (active_of x s) \<le> 1 \<and> pause_ledger_ok (active_of x s \<noteq> []) (credits_of x s) (clawbacks_of x s)"
    using pause_okD [OF ok] .
  then have inv: "length (active_of x s) \<le> 1" "pause_ledger_ok True (credits_of x s) (clawbacks_of x s)" using act by simp_all
  have x: "x \<noteq> []" using ok act by (auto simp: pause_ok_def)
  have gone: "tl (active_of x s) = []" using inv(1) by (cases "active_of x s") auto
  have ne: "credits_of x s \<noteq> []" using inv(2) by (simp add: pause_ledger_ok_def)
  obtain credit where mem: "credit \<in> set (credits_of x s)" and chosen: "latest (credits_of x s) = Some credit"
    using latest_member [OF ne] by blast
  have whole: "whole_cents (ba_amount credit)" using inv(2) mem by (simp add: pause_ledger_ok_def)
  have newest: "credit = last (credits_of x s)" if "in_time_order (credits_of x s)"
    using latest_last [OF that ne] chosen by simp
  have sub: "ba_subscriptionId credit = x" using mem by (simp add: credits_of_def)
  have "filter (\<lambda>a. ba_type a = PauseCredit) (getAdjustments (Some x) s) = credits_of x s"
    using x by (simp add: getAdjustments_def truthy_def credits_of_def conj_commute)
  then have latest: "latest (filter (\<lambda>a. ba_type a = PauseCredit) (getAdjustments (Some x) s)) = Some credit"
    by (simp add: chosen)
  define used where "used = max 0 (ceil_div (now - pr_pausedAt active) ONE_DAY_MS)"
  define early where "early \<longleftrightarrow> rb_early body = Some True \<or> used < pr_pauseDays active"
  obtain c s2 where claw: "createEarlyResumeAdjustment gen now credit used s = (c, s2)" by fastforce
  define s3 where "s3 = (if early then s2 else s)"
  define params where "params = \<lparr>rs_subscriptionId = x, rs_pauseDays = (if early then used else pr_pauseDays active),
    rs_currentNextBillingDate = (case rb_currentNextBillingDate body of Some d \<Rightarrow> d | None \<Rightarrow> now + the_or (rb_billingCycleDays body) 30 * ONE_DAY_MS),
    rs_currency = the_or (rb_currency body) (pr_currency active),
    rs_billingCycleDays = the_or (opt_or (rb_billingCycleDays body) (map_option ba_periodDays (Some credit))) 30,
    rs_amount = None, rs_early = Some early\<rparr>"
  obtain a s4 where restart: "createResumeRestart (\<lambda>k. gen (k + 1)) now params s3 = (a, s4)" by fastforce
  have params: "rs_subscriptionId params = x" by (simp add: params_def)
  have "(if early then (case (c, s2) of (c, s1) \<Rightarrow> (Some c, s1)) else (None, s)) = ((if early then Some c else None), s3)"
    by (simp add: s3_def)
  then have s4: "s4 = s1"
    using run unfolding handle_resume_def Some option.case Let_def latest used_def [symmetric] early_def [symmetric] claw
    by (simp only: prod.case restart [unfolded params_def] prod.inject)
  note late = restart_views [OF restart [unfolded s4], unfolded params]
  show ?thesis
  proof (cases early)
    case True
    note soon = early_views [OF claw, unfolded sub]
    have "pause_ledger_ok False (credits_of x s) (clawbacks_of x s @ [c])"
      by (rule ledger_clawback [OF inv(2)]) (use clawback_bounds [OF _ whole claw] newest in simp)
    then show ?thesis by (intro resumed [of "[c]"]) (use act True gone in \<open>auto simp: late soon s3_def\<close>)
  next
    case False
    then show ?thesis using ledger_resume [OF inv(2)]
      by (intro resumed [of "[]"]) (use act gone in \<open>auto simp: late s3_def\<close>)
  qed
qed

lemma handle_limits_views:
  "credits_of y (snd (handle_updateLimits patch s)) = credits_of y s" "clawbacks_of y (snd (handle_updateLimits patch s)) = clawbacks_of y s"
  "active_of y (snd (handle_updateLimits patch s)) = active_of y s" "sv_records (snd (handle_updateLimits patch s)) = sv_records s"
  by (simp_all add: handle_updateLimits_def setLimits_def Let_def credits_of_def clawbacks_of_def active_of_def)

lemma pause_ok_step: "pause_ok s \<Longrightarrow> pause_ok (pause_step year_start s e)"
proof -
  assume ok: "pause_ok s"
  obtain now gen req where e: "e = (now, gen, req)" by (cases e)
  show ?thesis
  proof (cases req)
    case (PauseIt x body)
    obtain answer s1 where run: "handle_pause year_start gen now x body s = (answer, s1)" by fastforce
    have step: "pause_step year_start s e = s1" by (simp add: e PauseIt pause_step_def run)
    from run have "pause_ok s1"
    proof (cases rule: handle_pause_cases)
      case refused
      then show ?thesis using ok by simp
    next
      case (paused a)
      have empty: "active_of x s = []" and x: "x \<noteq> []"
        using paused(1) run paused(8) by (auto simp: handle_pause_def split: option.splits)
      have "length (active_of y s1) \<le> 1 \<and> pause_ledger_ok (active_of y s1 \<noteq> []) (credits_of y s1) (clawbacks_of y s1)" for y
      proof (cases "x = y")
        case True
        have "pause_ledger_ok False (credits_of x s) (clawbacks_of x s)" using pause_okD [OF ok, of x] empty by simp
        from ledger_pause [OF this paused(3)] show ?thesis
          using paused(6) [of x] empty True by (cases "active_of y s1") (auto simp: paused(4,5))
      next
        case False
        have "active_of y s1 \<noteq> [] \<longleftrightarrow> active_of y s \<noteq> []" using paused(6) [of y] False by (cases "active_of y s1"; cases "active_of y s") auto
        then show ?thesis using ok paused(6) [of y] False by (simp add: pause_ok_def paused(4,5))
      qed
      moreover have "active_of [] s1 = []" using paused(6) [of "[]"] x ok by (auto simp: pause_ok_def)
      ultimately show ?thesis by (simp add: pause_ok_def)
    qed
    then show ?thesis by (simp only: step)
  next
    case (ResumeIt x body)
    obtain answer s1 where run: "handle_resume gen now x body s = (answer, s1)" by fastforce
    have step: "pause_step year_start s e = s1" by (simp add: e ResumeIt pause_step_def run)
    from run ok have "pause_ok s1"
    proof (cases rule: handle_resume_cases)
      case refused
      then show ?thesis using ok by simp
    next
      case (resumed k)
      have "length (active_of y s1) \<le> 1 \<and> pause_ledger_ok (active_of y s1 \<noteq> []) (credits_of y s1) (clawbacks_of y s1)" for y
        using ok resumed by (cases "x = y") (auto simp: pause_ok_def)
      moreover have "active_of [] s1 = []" using ok resumed(4,5) by (cases "x = []") (auto simp: pause_ok_def)
      ultimately show ?thesis by (simp add: pause_ok_def)
    qed
    then show ?thesis by (simp only: step)
  next
    case (UpdateLimits patch)
    then show ?thesis using ok by (simp add: e pause_step_def pause_ok_def handle_limits_views)
  qed
qed

interpretation pauses: machine "pause_step year_start" pause_ok for year_start
  by unfold_locales (rule pause_ok_step)

text \<open>The service after a run of requests to a fresh one.\<close>

definition pauses_after :: "(int \<Rightarrow> int) \<Rightarrow> (int \<times> (nat \<Rightarrow> string) \<times> pause_request) list \<Rightarrow> PauseBillingService" where
  "pauses_after year_start reqs = foldl (pause_step year_start) newPauseBillingService reqs"

text \<open>C18: Whatever pause, resume and limit requests arrive, in whatever order and whatever times the clock shows, a
  subscription has at most one open pause. When the credits the subscription was given are not negative (the prices are
  not) and were given at increasing times (no two in one millisecond, no clock set back between them), what early resumes
  claw back from it is never negative and never more than those credits; and with an open pause, never more than the
  credits before the open one.\<close>

theorem pause_ledgers_sound:
  "length (active_of x (pauses_after year_start reqs)) \<le> 1 \<and>
    (in_time_order (credits_of x (pauses_after year_start reqs)) \<and>
     (\<forall>a\<in>set (credits_of x (pauses_after year_start reqs)). 0 \<le> ba_amount a) \<longrightarrow>
       0 \<le> total (clawbacks_of x (pauses_after year_start reqs))
       \<and> total (clawbacks_of x (pauses_after year_start reqs)) \<le> total (credits_of x (pauses_after year_start reqs))
       \<and> (active_of x (pauses_after year_start reqs) \<noteq> [] \<longrightarrow>
           total (clawbacks_of x (pauses_after year_start reqs)) \<le> total (butlast (credits_of x (pauses_after year_start reqs)))))"
proof -
  let ?s = "pauses_after year_start reqs"
  have "pause_ok newPauseBillingService"
    by (simp add: pause_ok_def newPauseBillingService_def active_of_def credits_of_def clawbacks_of_def pause_ledger_ok_def)
  from pauses.run_inv [OF this, of year_start reqs]
  have ok: "length (active_of x ?s) \<le> 1 \<and> pause_ledger_ok (active_of x ?s \<noteq> []) (credits_of x ?s) (clawbacks_of x ?s)"
    unfolding pauses_after_def by (rule pause_okD)
  have "total (butlast c) \<le> total c" if "\<forall>a\<in>set c. 0 \<le> ba_amount a" for c
    using that total_last [of c] by (cases "c = []") auto
  then show ?thesis using ok total_nonneg [of "clawbacks_of x ?s"]
    by (fastforce simp: pause_ledger_ok_def split: if_splits)
qed

definition pause_body :: PauseBody where
  "pause_body = \<lparr>pb_pauseDays = Some 10, pb_reason = None, pb_price = Some 30, pb_billingCycleDays = Some 30, pb_currency = Some ''USD''\<rparr>"

definition resume_body :: ResumeBody where
  "resume_body = \<lparr>rb_early = Some True, rb_currentNextBillingDate = None, rb_billingCycleDays = None, rb_currency = None\<rparr>"

text \<open>A pause that is resumed at once: the whole credit is clawed back.\<close>

definition demo_requests :: "(int \<times> (nat \<Rightarrow> string) \<times> pause_request) list" where
  "demo_requests = [(0, (\<lambda>_. ''a''), PauseIt ''s'' pause_body), (1, (\<lambda>_. ''b''), ResumeIt ''s'' resume_body)]"

lemma pause_ledgers_sound_witness:
  "0 < total (clawbacks_of ''s'' (pauses_after (\<lambda>t. t) demo_requests))
    \<and> total (clawbacks_of ''s'' (pauses_after (\<lambda>t. t) demo_requests)) \<le> total (credits_of ''s'' (pauses_after (\<lambda>t. t) demo_requests))"
proof -
  have "list_all (\<lambda>a. 0 \<le> ba_amount a) (credits_of ''s'' (pauses_after (\<lambda>t. t) demo_requests))" by code_simp
  moreover have "in_time_order (credits_of ''s'' (pauses_after (\<lambda>t. t) demo_requests))" by code_simp
  moreover have "0 < total (clawbacks_of ''s'' (pauses_after (\<lambda>t. t) demo_requests))" by code_simp
  ultimately show ?thesis using pause_ledgers_sound [of "''s''" "\<lambda>t. t" demo_requests] by (simp add: list_all_iff)
qed

text \<open>Without increasing times it fails: \<open>resume\<close> takes the credit with the largest \<open>createdAt\<close>, and among equal ones
  the first. Two pauses within one millisecond, the second ten times cheaper, are both clawed back at the first's credit.\<close>

definition cheap_body :: PauseBody where
  "cheap_body = pause_body\<lparr>pb_price := Some 3\<rparr>"

lemma tied_credits_clawed_back_twice:
  "total (credits_of ''s'' (pauses_after (\<lambda>t. t)
      [(0, (\<lambda>_. ''a''), PauseIt ''s'' pause_body), (0, (\<lambda>_. ''b''), ResumeIt ''s'' resume_body),
       (0, (\<lambda>_. ''c''), PauseIt ''s'' cheap_body), (0, (\<lambda>_. ''d''), ResumeIt ''s'' resume_body)])) = 11
   \<and> total (clawbacks_of ''s'' (pauses_after (\<lambda>t. t)
      [(0, (\<lambda>_. ''a''), PauseIt ''s'' pause_body), (0, (\<lambda>_. ''b''), ResumeIt ''s'' resume_body),
       (0, (\<lambda>_. ''c''), PauseIt ''s'' cheap_body), (0, (\<lambda>_. ''d''), ResumeIt ''s'' resume_body)])) = 20"
  by (rule conjI; code_simp)

section \<open>The yearly limit\<close>

lemma handle_pause_limits: "sv_limits (snd (handle_pause year_start gen now x body s)) = sv_limits s"
proof -
  obtain answer s1 where run: "handle_pause year_start gen now x body s = (answer, s1)" by fastforce
  then show ?thesis by (cases rule: handle_pause_cases) (simp_all add: run)
qed

lemma update_first_count: "(\<And>r. q (f r) = q r) \<Longrightarrow> length (filter q (update_first p f xs)) = length (filter q xs)"
  by (induction xs) auto

lemma filter_le: "(\<And>r. r \<in> set xs \<Longrightarrow> p r \<Longrightarrow> q r) \<Longrightarrow> length (filter p xs) \<le> length (filter q xs)"
  by (induction xs) (auto simp: le_SucI)

text \<open>Pauses of a subscription in one year.\<close>

definition pauses_in :: "(int \<Rightarrow> int) \<Rightarrow> string \<Rightarrow> int \<Rightarrow> PauseBillingService \<Rightarrow> int" where
  "pauses_in year_start x year s = int (length (filter (\<lambda>r. pr_subscriptionId r = x \<and> year_start (pr_pausedAt r) = year) (sv_records s)))"

lemma resume_pauses: "pauses_in year_start y year (snd (handle_resume gen now x body s)) = pauses_in year_start y year s
    \<and> sv_limits (snd (handle_resume gen now x body s)) = sv_limits s"
proof (cases "getActivePause x s")
  case (Some active)
  have late: "pauses_in year_start y year (snd (createResumeRestart g now p s')) = pauses_in year_start y year s'
      \<and> sv_limits (snd (createResumeRestart g now p s')) = sv_limits s'" for g p s'
    by (simp add: createResumeRestart_def Let_def pauses_in_def update_first_count)
  have soon: "pauses_in year_start y year (snd (createEarlyResumeAdjustment g now p u s')) = pauses_in year_start y year s'
      \<and> sv_limits (snd (createEarlyResumeAdjustment g now p u s')) = sv_limits s'" for g p u s'
    by (simp add: createEarlyResumeAdjustment_def Let_def pauses_in_def update_first_count)
  show ?thesis
    using late soon by (auto simp: handle_resume_def Some Let_def split: prod.split option.split) (metis snd_conv)+
qed (simp add: handle_resume_def)

lemma limits_pauses: "pauses_in year_start y year (snd (handle_updateLimits patch s)) = pauses_in year_start y year s"
  by (simp add: pauses_in_def handle_limits_views)

lemma pause_pauses:
  assumes year: "\<And>t. year_start t \<le> t"
    and inv: "pauses_in year_start y year s \<le> m" and lim: "pl_maxPausesPerYear (sv_limits s) \<le> m"
  shows "pauses_in year_start y year (snd (handle_pause year_start gen now x body s)) \<le> m"
proof -
  obtain answer s1 where run: "handle_pause year_start gen now x body s = (answer, s1)" by fastforce
  then show ?thesis
  proof (cases rule: handle_pause_cases)
    case refused
    then show ?thesis using run inv by simp
  next
    case (paused a)
    obtain r where r: "pr_subscriptionId r = x" "pr_pausedAt r = now" "sv_records s1 = sv_records s @ [r]" using paused(8) by blast
    show ?thesis
    proof (cases "y = x \<and> year = year_start now")
      case True
      have "pauses_in year_start x (year_start now) s \<le> int (length (filter (\<lambda>r. pr_subscriptionId r = x \<and> year_start now \<le> pr_pausedAt r) (sv_records s)))"
        unfolding pauses_in_def of_nat_le_iff by (rule filter_le) (use year in \<open>metis (no_types, lifting)\<close>)
      then show ?thesis using paused(9) lim True run r by (simp add: pauses_in_def)
    next
      case False
      then have "pauses_in year_start y year s1 = pauses_in year_start y year s" using r by (auto simp: pauses_in_def)
      then show ?thesis using inv run by simp
    qed
  qed
qed

text \<open>C19: No year of a subscription has more pauses than the largest yearly limit that was ever in force.\<close>

theorem yearly_pause_limit:
  assumes year: "\<And>t. year_start t \<le> t"
    and limits: "2 \<le> m" "\<And>d gen patch n. (d, gen, UpdateLimits patch) \<in> set reqs \<Longrightarrow> lp_maxPausesPerYear patch = Some n \<Longrightarrow> n \<le> m"
  shows "pauses_in year_start x year (pauses_after year_start reqs) \<le> m"
proof -
  have "pauses_in year_start x year (foldl (pause_step year_start) s reqs) \<le> m"
    if "pauses_in year_start x year s \<le> m" "pl_maxPausesPerYear (sv_limits s) \<le> m" for s
    using that limits(2)
  proof (induction reqs arbitrary: s)
    case (Cons e reqs)
    obtain d gen req where e: "e = (d, gen, req)" by (cases e)
    obtain s1 where step: "pause_step year_start s e = s1" by blast
    have "pauses_in year_start x year s1 \<le> m \<and> pl_maxPausesPerYear (sv_limits s1) \<le> m"
    proof (cases req)
      case (PauseIt y body)
      then show ?thesis using step Cons.prems(1,2) pause_pauses [OF year Cons.prems(1,2)] handle_pause_limits
        by (auto simp: pause_step_def e)
    next
      case (ResumeIt y body)
      then show ?thesis using step Cons.prems(1,2) resume_pauses by (auto simp: pause_step_def e)
    next
      case (UpdateLimits patch)
      have "the_or (lp_maxPausesPerYear patch) (pl_maxPausesPerYear (sv_limits s)) \<le> m"
        using Cons.prems(2,3) by (cases "lp_maxPausesPerYear patch") (auto simp: e UpdateLimits)
      then have "pl_maxPausesPerYear (sv_limits (snd (handle_updateLimits patch s))) \<le> m"
        using Cons.prems(2) by (auto simp: handle_updateLimits_def setLimits_def Let_def)
      then show ?thesis using step Cons.prems(1) limits_pauses by (auto simp: pause_step_def e UpdateLimits)
    qed
    moreover have "n \<le> m" if "(d, gen, UpdateLimits patch) \<in> set reqs" "lp_maxPausesPerYear patch = Some n" for d gen patch n
      using Cons.prems(3) [of d gen patch n] that by simp
    ultimately show ?case using Cons.IH [of s1] step by simp
  qed simp
  from this [of newPauseBillingService] show ?thesis
    using limits(1) by (simp add: pauses_after_def newPauseBillingService_def DEFAULT_PAUSE_LIMITS_def pauses_in_def)
qed

lemma yearly_pause_limit_witness:
  "pauses_in (\<lambda>t. t - t mod 31536000000) ''s'' 0 (pauses_after (\<lambda>t. t - t mod 31536000000) (concat (replicate 4 demo_requests))) \<le> 2"
proof (rule yearly_pause_limit)
  show "t - t mod 31536000000 \<le> t" for t :: int by simp
qed (auto simp: demo_requests_def)
end
