(* ===== verification/Renewal.thy ===== *)
theory Renewal
  imports JsNumber Prelude
begin

text \<open>
  Contract renewals, \<^verbatim>\<open>backend/services/renewal/renewalService.ts\<close> over the types of \<^verbatim>\<open>src/types/renewal.ts\<close>:
  quotes, negotiation, approval chains, signatures, outcomes, milestones and automatic renewal. Every method
  takes the time of the call; those that draw an id take it. Methods that throw answer \<open>Inl\<close> with the message.
\<close>

section \<open>Types\<close>

datatype RenewalMilestone = Day90 | Day60 | Day30 | Expired
datatype RenewalStatus = RnPending | RnNegotiating | RnAwaitingApproval | RnAwaitingSignature | RnSigned | RnAutoRenewed | RnWon | RnLost | RnFrozen
datatype ApprovalRole = SalesManager | Finance | Legal
datatype RenewalType = AutoRenewal | OptIn
datatype WinLossReason = PriceTooHigh | Competitor | BudgetCut | ScopeChange | AcceptedOffer | CustomTermsAgreed | OtherOutcome
datatype SignatureProvider = Docusign | Hellosign

record RenewalMilestoneEvent =
  me_milestone :: RenewalMilestone
  me_triggeredAt :: int
  me_notificationSent :: bool

record RenewalQuote =
  qu_id :: string
  qu_renewalId :: string
  qu_basePlanPrice :: rat
  qu_escalatorPercent :: rat
  qu_discount :: rat
  qu_customPrice :: "rat option"
  qu_finalPrice :: rat
  qu_currency :: string
  qu_generatedAt :: int

record ApprovalStep =
  as_role :: ApprovalRole
  as_approvedBy :: "string option"
  as_approvedAt :: "int option"
  as_rejected :: bool
  as_notes :: "string option"

record ApprovalWorkflow =
  aw_chain :: "ApprovalRole list"
  aw_steps :: "ApprovalStep list"
  aw_currentStep :: nat
  aw_completedAt :: "int option"

record ESignatureRequest =
  es_provider :: SignatureProvider
  es_documentUrl :: string
  es_requestedAt :: int
  es_signedAt :: "int option"
  es_signatureId :: "string option"

record NegotiationWorkspace =
  nw_proposedTerms :: string
  nw_counterTerms :: "string option"
  nw_agreedDiscount :: rat
  nw_customPricing :: "rat option"
  nw_frozenAt :: "int option"
  nw_notes :: string

text \<open>\<open>Partial<NegotiationWorkspace>\<close>: optional members may also be overwritten with undefined.\<close>

record NegotiationPatch =
  np_proposedTerms :: "string option"
  np_counterTerms :: "string option option"
  np_agreedDiscount :: "rat option"
  np_customPricing :: "rat option option"
  np_frozenAt :: "int option option"
  np_notes :: "string option"

record RenewalRecord =
  rr_id :: string
  rr_subscriptionId :: string
  rr_subscriberId :: string
  rr_merchantId :: string
  rr_renewalType :: RenewalType
  rr_status :: RenewalStatus
  rr_milestones :: "RenewalMilestoneEvent list"
  rr_quote :: "RenewalQuote option"
  rr_negotiation :: "NegotiationWorkspace option"
  rr_approval :: "ApprovalWorkflow option"
  rr_eSignature :: "ESignatureRequest option"
  rr_winLossReason :: "WinLossReason option"
  rr_winLossNotes :: "string option"
  rr_contractStartDate :: int
  rr_contractEndDate :: int
  rr_createdAt :: int
  rr_updatedAt :: int

record RenewalService =
  rn_renewals :: "(string, RenewalRecord) jsmap"
  rn_approvalChains :: "(string, ApprovalRole list) jsmap"

definition newRenewalService :: RenewalService where
  "newRenewalService = \<lparr>rn_renewals = [], rn_approvalChains = []\<rparr>"

section \<open>Operations\<close>

definition MILESTONE_DAYS :: "(RenewalMilestone \<times> int) list" where
  "MILESTONE_DAYS = [(Day90, 90), (Day60, 60), (Day30, 30), (Expired, 0)]"

definition not_found :: "string \<Rightarrow> string" where
  "not_found renewalId = ''Renewal '' @ renewalId @ '' not found''"

definition getRenewal :: "string \<Rightarrow> RenewalService \<Rightarrow> string + RenewalRecord" where
  "getRenewal renewalId s = (case map_of (rn_renewals s) renewalId of None \<Rightarrow> Inl (not_found renewalId) | Some r \<Rightarrow> Inr r)"

text \<open>A method body that works on the record the map holds.\<close>

definition with_renewal :: "string \<Rightarrow> (RenewalRecord \<Rightarrow> string + 'a \<times> RenewalRecord) \<Rightarrow> RenewalService \<Rightarrow> (string + 'a) \<times> RenewalService" where
  "with_renewal renewalId body s =
     (case getRenewal renewalId s of
        Inl e \<Rightarrow> (Inl e, s)
      | Inr r \<Rightarrow> (case body r of
            Inl e \<Rightarrow> (Inl e, s)
          | Inr (a, r1) \<Rightarrow> (Inr a, s\<lparr>rn_renewals := AList.update renewalId r1 (rn_renewals s)\<rparr>)))"

definition configureApprovalChain :: "string \<Rightarrow> ApprovalRole list \<Rightarrow> RenewalService \<Rightarrow> RenewalService" where
  "configureApprovalChain merchantId chain s = s\<lparr>rn_approvalChains := AList.update merchantId chain (rn_approvalChains s)\<rparr>"

definition fresh_step :: "ApprovalRole \<Rightarrow> ApprovalStep" where
  "fresh_step role = \<lparr>as_role = role, as_approvedBy = None, as_approvedAt = None, as_rejected = False, as_notes = None\<rparr>"

definition createRenewal :: "string \<Rightarrow> int \<Rightarrow> string \<Rightarrow> string \<Rightarrow> string \<Rightarrow> int \<Rightarrow> RenewalType \<Rightarrow> RenewalService \<Rightarrow> RenewalRecord \<times> RenewalService" where
  "createRenewal uid now subscriptionId subscriberId merchantId contractEndDate renewalType s =
     (let r = \<lparr>rr_id = uid, rr_subscriptionId = subscriptionId, rr_subscriberId = subscriberId, rr_merchantId = merchantId,
            rr_renewalType = renewalType, rr_status = RnPending, rr_milestones = [], rr_quote = None, rr_negotiation = None,
            rr_approval = map_option (\<lambda>chain. \<lparr>aw_chain = chain, aw_steps = map fresh_step chain, aw_currentStep = 0, aw_completedAt = None\<rparr>)
              (map_of (rn_approvalChains s) merchantId),
            rr_eSignature = None, rr_winLossReason = None, rr_winLossNotes = None, rr_contractStartDate = now,
            rr_contractEndDate = contractEndDate, rr_createdAt = now, rr_updatedAt = now\<rparr>
      in (r, s\<lparr>rn_renewals := AList.update uid r (rn_renewals s)\<rparr>))"

definition generateQuote :: "string \<Rightarrow> int \<Rightarrow> string \<Rightarrow> rat \<Rightarrow> rat \<Rightarrow> rat \<Rightarrow> rat option \<Rightarrow> RenewalService \<Rightarrow> (string + RenewalQuote) \<times> RenewalService" where
  "generateQuote uid now renewalId basePlanPrice escalatorPercent discount customPrice =
     with_renewal renewalId (\<lambda>renewal.
       let escalated = basePlanPrice * (1 + escalatorPercent / 100);
           finalPrice = the_or customPrice (escalated * (1 - discount / 100));
           quote = \<lparr>qu_id = uid, qu_renewalId = renewalId, qu_basePlanPrice = basePlanPrice, qu_escalatorPercent = escalatorPercent,
             qu_discount = discount, qu_customPrice = customPrice, qu_finalPrice = max 0 finalPrice, qu_currency = ''USD'', qu_generatedAt = now\<rparr>
       in Inr (quote, renewal\<lparr>rr_quote := Some quote, rr_updatedAt := now\<rparr>))"

definition openNegotiation :: "int \<Rightarrow> string \<Rightarrow> string \<Rightarrow> string \<Rightarrow> RenewalService \<Rightarrow> (string + NegotiationWorkspace) \<times> RenewalService" where
  "openNegotiation now renewalId proposedTerms notes =
     with_renewal renewalId (\<lambda>renewal.
       let workspace = \<lparr>nw_proposedTerms = proposedTerms, nw_counterTerms = None, nw_agreedDiscount = 0, nw_customPricing = None,
             nw_frozenAt = None, nw_notes = notes\<rparr>
       in Inr (workspace, renewal\<lparr>rr_negotiation := Some workspace, rr_status := RnNegotiating, rr_updatedAt := now\<rparr>))"

definition freezeNegotiation :: "int \<Rightarrow> string \<Rightarrow> RenewalService \<Rightarrow> (string + unit) \<times> RenewalService" where
  "freezeNegotiation now renewalId =
     with_renewal renewalId (\<lambda>renewal. case rr_negotiation renewal of
         None \<Rightarrow> Inl ''No active negotiation''
       | Some w \<Rightarrow> Inr ((), renewal\<lparr>rr_negotiation := Some (w\<lparr>nw_frozenAt := Some now\<rparr>), rr_status := RnFrozen, rr_updatedAt := now\<rparr>))"

text \<open>\<open>if (frozenAt)\<close>: a time of zero is falsy.\<close>

definition is_frozen :: "NegotiationWorkspace \<Rightarrow> bool" where
  "is_frozen w \<longleftrightarrow> nw_frozenAt w \<noteq> None \<and> nw_frozenAt w \<noteq> Some 0"

definition updateNegotiation :: "int \<Rightarrow> string \<Rightarrow> NegotiationPatch \<Rightarrow> RenewalService \<Rightarrow> (string + NegotiationWorkspace) \<times> RenewalService" where
  "updateNegotiation now renewalId patch =
     with_renewal renewalId (\<lambda>renewal. case rr_negotiation renewal of
         None \<Rightarrow> Inl ''No active negotiation''
       | Some w \<Rightarrow>
           if is_frozen w then Inl ''Negotiation is frozen''
           else let w1 = \<lparr>nw_proposedTerms = the_or (np_proposedTerms patch) (nw_proposedTerms w),
                  nw_counterTerms = the_or (np_counterTerms patch) (nw_counterTerms w),
                  nw_agreedDiscount = the_or (np_agreedDiscount patch) (nw_agreedDiscount w),
                  nw_customPricing = the_or (np_customPricing patch) (nw_customPricing w),
                  nw_frozenAt = the_or (np_frozenAt patch) (nw_frozenAt w), nw_notes = the_or (np_notes patch) (nw_notes w)\<rparr>
                in Inr (w1, renewal\<lparr>rr_negotiation := Some w1, rr_updatedAt := now\<rparr>))"

definition approve_workflow :: "int \<Rightarrow> string \<Rightarrow> string option \<Rightarrow> ApprovalWorkflow \<Rightarrow> ApprovalWorkflow" where
  "approve_workflow now approvedBy notes aw =
     (let cur = aw_currentStep aw; nextStep = cur + 1
      in aw\<lparr>aw_steps := (aw_steps aw)[cur := (aw_steps aw ! cur)\<lparr>as_approvedBy := Some approvedBy, as_approvedAt := Some now, as_notes := notes\<rparr>],
            aw_currentStep := nextStep,
            aw_completedAt := (if length (aw_steps aw) \<le> nextStep then Some now else aw_completedAt aw)\<rparr>)"

definition approveStep :: "int \<Rightarrow> string \<Rightarrow> string \<Rightarrow> string option \<Rightarrow> RenewalService \<Rightarrow> (string + ApprovalWorkflow) \<times> RenewalService" where
  "approveStep now renewalId approvedBy notes =
     with_renewal renewalId (\<lambda>renewal. case rr_approval renewal of
         None \<Rightarrow> Inl ''No approval workflow configured''
       | Some aw \<Rightarrow>
           if length (aw_steps aw) \<le> aw_currentStep aw then Inl ''Approval already complete''
           else let aw1 = approve_workflow now approvedBy notes aw
                in Inr (aw1, renewal\<lparr>rr_approval := Some aw1,
                     rr_status := (if length (aw_steps aw1) \<le> aw_currentStep aw1 then RnAwaitingSignature else RnAwaitingApproval),
                     rr_updatedAt := now\<rparr>))"

definition rejectStep :: "int \<Rightarrow> string \<Rightarrow> string \<Rightarrow> string option \<Rightarrow> RenewalService \<Rightarrow> (string + unit) \<times> RenewalService" where
  "rejectStep now renewalId rejectedBy notes =
     with_renewal renewalId (\<lambda>renewal. case rr_approval renewal of
         None \<Rightarrow> Inl ''No approval workflow configured''
       | Some aw \<Rightarrow>
           let cur = aw_currentStep aw
           in if length (aw_steps aw) \<le> cur then Inl ''Cannot set properties of undefined''
              else Inr ((), renewal\<lparr>rr_approval := Some (aw\<lparr>aw_steps := (aw_steps aw)[cur := (aw_steps aw ! cur)\<lparr>as_rejected := True,
                       as_approvedBy := Some rejectedBy, as_notes := notes\<rparr>]\<rparr>),
                     rr_status := RnLost, rr_updatedAt := now\<rparr>))"

definition requestESignature :: "int \<Rightarrow> string \<Rightarrow> SignatureProvider \<Rightarrow> string \<Rightarrow> RenewalService \<Rightarrow> (string + ESignatureRequest) \<times> RenewalService" where
  "requestESignature now renewalId provider documentUrl =
     with_renewal renewalId (\<lambda>renewal.
       let sig = \<lparr>es_provider = provider, es_documentUrl = documentUrl, es_requestedAt = now, es_signedAt = None, es_signatureId = None\<rparr>
       in Inr (sig, renewal\<lparr>rr_eSignature := Some sig, rr_status := RnAwaitingSignature, rr_updatedAt := now\<rparr>))"

definition recordSignature :: "int \<Rightarrow> string \<Rightarrow> string \<Rightarrow> RenewalService \<Rightarrow> (string + unit) \<times> RenewalService" where
  "recordSignature now renewalId signatureId =
     with_renewal renewalId (\<lambda>renewal. case rr_eSignature renewal of
         None \<Rightarrow> Inl ''No e-signature request''
       | Some sig \<Rightarrow> Inr ((), renewal\<lparr>rr_eSignature := Some (sig\<lparr>es_signedAt := Some now, es_signatureId := Some signatureId\<rparr>),
             rr_status := RnSigned, rr_updatedAt := now\<rparr>))"

definition recordOutcome :: "int \<Rightarrow> string \<Rightarrow> bool \<Rightarrow> WinLossReason \<Rightarrow> string option \<Rightarrow> RenewalService \<Rightarrow> (string + unit) \<times> RenewalService" where
  "recordOutcome now renewalId won reason notes =
     with_renewal renewalId (\<lambda>renewal. Inr ((), renewal\<lparr>rr_status := (if won then RnWon else RnLost), rr_winLossReason := Some reason,
       rr_winLossNotes := notes, rr_updatedAt := now\<rparr>))"

definition recordMilestone :: "int \<Rightarrow> string \<Rightarrow> RenewalMilestone \<Rightarrow> RenewalService \<Rightarrow> (string + RenewalMilestoneEvent) \<times> RenewalService" where
  "recordMilestone now renewalId milestone =
     with_renewal renewalId (\<lambda>renewal.
       let event = \<lparr>me_milestone = milestone, me_triggeredAt = now, me_notificationSent = False\<rparr>
       in Inr (event, renewal\<lparr>rr_milestones := rr_milestones renewal @ [event], rr_updatedAt := now\<rparr>))"

fun notify_first :: "RenewalMilestone \<Rightarrow> RenewalMilestoneEvent list \<Rightarrow> RenewalMilestoneEvent list" where
  "notify_first m [] = []"
| "notify_first m (e # es) = (if me_milestone e = m then e\<lparr>me_notificationSent := True\<rparr> # es else e # notify_first m es)"

definition markMilestoneNotified :: "string \<Rightarrow> RenewalMilestone \<Rightarrow> RenewalService \<Rightarrow> (string + unit) \<times> RenewalService" where
  "markMilestoneNotified renewalId milestone =
     with_renewal renewalId (\<lambda>renewal. Inr ((), renewal\<lparr>rr_milestones := notify_first milestone (rr_milestones renewal)\<rparr>))"

definition pending_milestones :: "int \<Rightarrow> RenewalRecord \<Rightarrow> RenewalMilestone list" where
  "pending_milestones now renewal =
     map fst (filter (\<lambda>(m, days). rr_contractEndDate renewal - now \<le> days * ONE_DAY_MS \<and> m \<notin> set (map me_milestone (rr_milestones renewal)))
       MILESTONE_DAYS)"

definition getPendingMilestones :: "int \<Rightarrow> string \<Rightarrow> RenewalService \<Rightarrow> string + RenewalMilestone list" where
  "getPendingMilestones now renewalId s = map_sum id (pending_milestones now) (getRenewal renewalId s)"

definition listRenewals :: "string option \<Rightarrow> RenewalService \<Rightarrow> RenewalRecord list" where
  "listRenewals merchantId s =
     (if truthy merchantId then filter (\<lambda>r. Some (rr_merchantId r) = merchantId) (map snd (rn_renewals s)) else map snd (rn_renewals s))"

definition renews_now :: "int \<Rightarrow> RenewalRecord \<Rightarrow> bool" where
  "renews_now now r \<longleftrightarrow> rr_renewalType r = AutoRenewal \<and> rr_status r = RnPending \<and> rr_contractEndDate r - now \<le> 0"

definition auto_renew :: "int \<Rightarrow> RenewalRecord \<Rightarrow> RenewalRecord" where
  "auto_renew now r = (if renews_now now r then r\<lparr>rr_status := RnAutoRenewed, rr_updatedAt := now\<rparr> else r)"

definition processAutoRenewals :: "int \<Rightarrow> RenewalService \<Rightarrow> RenewalRecord list \<times> RenewalService" where
  "processAutoRenewals now s =
     (map (auto_renew now) (filter (renews_now now) (map snd (rn_renewals s))),
      s\<lparr>rn_renewals := map (\<lambda>(k, r). (k, auto_renew now r)) (rn_renewals s)\<rparr>)"

section \<open>The operations as steps\<close>

inductive renewal_step :: "RenewalService \<Rightarrow> RenewalService \<Rightarrow> bool" where
  configure: "renewal_step s (configureApprovalChain m chain s)"
| create: "renewal_step s (snd (createRenewal uid now sub subscriber m end_date kind s))"
| quote: "renewal_step s (snd (generateQuote uid now i base esc disc custom s))"
| negotiate: "renewal_step s (snd (openNegotiation now i terms notes s))"
| freeze: "renewal_step s (snd (freezeNegotiation now i s))"
| revise: "renewal_step s (snd (updateNegotiation now i patch s))"
| approve: "renewal_step s (snd (approveStep now i who comment s))"
| reject: "renewal_step s (snd (rejectStep now i who comment s))"
| request: "renewal_step s (snd (requestESignature now i provider url s))"
| sign: "renewal_step s (snd (recordSignature now i sig s))"
| outcome: "renewal_step s (snd (recordOutcome now i won reason comment s))"
| milestone: "renewal_step s (snd (recordMilestone now i m s))"
| notified: "renewal_step s (snd (markMilestoneNotified i m s))"
| automatic: "renewal_step s (snd (processAutoRenewals now s))"

inductive_cases renewal_stepE: "renewal_step s s1"

definition renewals_reachable :: "RenewalService \<Rightarrow> bool" where
  "renewals_reachable s \<longleftrightarrow> renewal_step\<^sup>*\<^sup>* newRenewalService s"

section \<open>Records that keep a property\<close>

lemma with_renewal_get:
  "map_of (rn_renewals (snd (with_renewal i body s))) k =
     (if k = i then (case map_of (rn_renewals s) i of None \<Rightarrow> None | Some r \<Rightarrow> Some (case body r of Inl e \<Rightarrow> r | Inr (a, r1) \<Rightarrow> r1))
      else map_of (rn_renewals s) k)"
  by (auto simp: with_renewal_def getRenewal_def obj_get_update split: option.split sum.split prod.split)

lemma auto_map: "map_of (map (\<lambda>(k, r). (k, f r)) xs) k = map_option f (map_of xs k)"
  by (induction xs) auto

lemmas renewal_op_defs = generateQuote_def openNegotiation_def freezeNegotiation_def updateNegotiation_def approveStep_def rejectStep_def
  requestESignature_def recordSignature_def recordOutcome_def recordMilestone_def markMilestoneNotified_def

section \<open>Approval chains\<close>

text \<open>The steps are the chain; those before the current one are approved, the others are not, and the workflow is completed
  just when no step is left.\<close>

definition approval_ok :: "ApprovalWorkflow \<Rightarrow> bool" where
  "approval_ok aw \<longleftrightarrow> map as_role (aw_steps aw) = aw_chain aw \<and> aw_currentStep aw \<le> length (aw_steps aw)
     \<and> (\<forall>k < length (aw_steps aw). as_approvedAt (aw_steps aw ! k) \<noteq> None \<longleftrightarrow> k < aw_currentStep aw)
     \<and> (aw_completedAt aw \<noteq> None \<longleftrightarrow> aw_steps aw \<noteq> [] \<and> aw_currentStep aw = length (aw_steps aw))"

definition record_ok :: "RenewalRecord \<Rightarrow> bool" where
  "record_ok r \<longleftrightarrow> (case rr_approval r of None \<Rightarrow> True | Some aw \<Rightarrow> approval_ok aw)"

lemma map_keep: "f y = f (xs ! k) \<Longrightarrow> map f (xs[k := y]) = map f xs"
  by (cases "k < length xs") (simp_all add: map_update list_update_same_conv list_update_beyond)

lemma approve_ok:
  assumes "approval_ok aw" "aw_currentStep aw < length (aw_steps aw)"
  shows "approval_ok (approve_workflow now who comment aw)"
  using assms by (auto simp: approval_ok_def approve_workflow_def Let_def map_keep nth_list_update less_Suc_eq)

lemma reject_ok:
  assumes "approval_ok aw"
  shows "approval_ok (aw\<lparr>aw_steps := (aw_steps aw)[aw_currentStep aw := (aw_steps aw ! aw_currentStep aw)\<lparr>as_rejected := True,
    as_approvedBy := Some who, as_notes := comment\<rparr>]\<rparr>)"
  using assms by (auto simp: approval_ok_def map_keep nth_list_update split: if_splits)

lemma fresh_ok: "approval_ok \<lparr>aw_chain = chain, aw_steps = map fresh_step chain, aw_currentStep = 0, aw_completedAt = None\<rparr>"
  by (auto simp: approval_ok_def fresh_step_def comp_def)

definition renewals_ok :: "RenewalService \<Rightarrow> bool" where
  "renewals_ok s \<longleftrightarrow> (\<forall>k r. map_of (rn_renewals s) k = Some r \<longrightarrow> record_ok r)"

lemma with_renewal_ok:
  assumes "renewals_ok s" "\<And>r a r1. record_ok r \<Longrightarrow> body r = Inr (a, r1) \<Longrightarrow> record_ok r1"
  shows "renewals_ok (snd (with_renewal i body s))"
proof -
  have "record_ok r1" if "map_of (rn_renewals s) k = Some r" "body r = Inr (a, r1)" for k r a r1
    using assms(1) assms(2) [of r a r1] that unfolding renewals_ok_def by blast
  then show ?thesis using assms(1) unfolding renewals_ok_def with_renewal_get by (auto split: if_splits option.splits sum.splits)
qed

lemma renewals_ok_step: "renewal_step s s1 \<Longrightarrow> renewals_ok s \<Longrightarrow> renewals_ok s1"
proof (induction rule: renewal_step.induct)
  case (create s uid now sub subscriber m end_date kind)
  then show ?case by (auto simp: renewals_ok_def createRenewal_def Let_def obj_get_update record_ok_def fresh_ok split: option.splits)
next
  case (automatic s now)
  have "record_ok (auto_renew now r) = record_ok r" for r by (simp add: auto_renew_def record_ok_def)
  with automatic show ?case by (auto simp: renewals_ok_def processAutoRenewals_def auto_map)
next
  case (approve s now i who comment)
  then show ?case unfolding approveStep_def
    by (rule with_renewal_ok) (auto simp: record_ok_def approve_ok Let_def split: option.splits if_splits)
next
  case (reject s now i who comment)
  then show ?case unfolding rejectStep_def
    by (rule with_renewal_ok) (auto simp: record_ok_def reject_ok Let_def split: option.splits if_splits)
next
  case (configure s m chain)
  then show ?case by (simp add: renewals_ok_def configureApprovalChain_def)
qed (unfold renewal_op_defs, (rule with_renewal_ok, assumption, (auto simp: record_ok_def Let_def split: option.splits if_splits)[1])+)

text \<open>C20: In every reachable service the approvals of a renewal follow its chain: the steps are the roles of the chain in
  order, exactly those before the current step carry an approval, and the workflow is completed exactly when all do.\<close>

theorem approvals_follow_chain:
  assumes "renewals_reachable s" "map_of (rn_renewals s) i = Some r" "rr_approval r = Some aw"
  shows "map as_role (aw_steps aw) = aw_chain aw \<and> aw_currentStep aw \<le> length (aw_steps aw)
    \<and> list_all2 (\<lambda>st k. as_approvedAt st \<noteq> None \<longleftrightarrow> k < aw_currentStep aw) (aw_steps aw) [0..<length (aw_steps aw)]
    \<and> (aw_completedAt aw \<noteq> None \<longleftrightarrow> aw_steps aw \<noteq> [] \<and> aw_currentStep aw = length (aw_steps aw))"
proof -
  have "renewal_step\<^sup>*\<^sup>* newRenewalService s" using assms(1) by (simp add: renewals_reachable_def)
  then have "renewals_ok s"
    by (induction rule: rtranclp_induct) (auto simp: renewals_ok_def newRenewalService_def dest: renewals_ok_step [unfolded renewals_ok_def])
  then have "approval_ok aw" using assms(2,3) by (auto simp: renewals_ok_def record_ok_def split: option.splits)
  then show ?thesis by (auto simp: approval_ok_def list_all2_conv_all_nth)
qed

definition demo_renewals :: RenewalService where
  "demo_renewals = snd (createRenewal ''r'' 0 ''sub'' ''ann'' ''shop'' 100 AutoRenewal (configureApprovalChain ''shop'' [Finance, Legal] newRenewalService))"

lemma demo_reachable: "renewals_reachable demo_renewals"
  unfolding renewals_reachable_def demo_renewals_def
  by (rule rtranclp.rtrancl_into_rtrancl [OF rtranclp.rtrancl_into_rtrancl [OF rtranclp.rtrancl_refl]]) (rule configure, rule create)

definition demo_workflow :: ApprovalWorkflow where
  "demo_workflow = \<lparr>aw_chain = [Finance, Legal], aw_steps = map fresh_step [Finance, Legal], aw_currentStep = 0, aw_completedAt = None\<rparr>"

lemma demo_record: "\<exists>r. map_of (rn_renewals demo_renewals) ''r'' = Some r \<and> rr_approval r = Some demo_workflow"
  by (simp add: demo_renewals_def createRenewal_def configureApprovalChain_def newRenewalService_def demo_workflow_def Let_def)

lemma approvals_follow_chain_witness:
  "\<exists>r. map_of (rn_renewals demo_renewals) ''r'' = Some r \<and> rr_approval r = Some demo_workflow
     \<and> map as_role (aw_steps demo_workflow) = [Finance, Legal]"
proof -
  obtain r where r: "map_of (rn_renewals demo_renewals) ''r'' = Some r" "rr_approval r = Some demo_workflow" using demo_record by blast
  from approvals_follow_chain [OF demo_reachable r] show ?thesis using r by (simp add: demo_workflow_def)
qed

text \<open>Several approvals of one renewal, each with its time, its author and its notes.\<close>

definition approve_all :: "string \<Rightarrow> (int \<times> string \<times> string option) list \<Rightarrow> RenewalService \<Rightarrow> RenewalService" where
  "approve_all i acts s = foldl (\<lambda>s (now, who, comment). snd (approveStep now i who comment s)) s acts"

lemma approve_once:
  assumes "map_of (rn_renewals s) i = Some r" "rr_approval r = Some aw" "aw_currentStep aw < length (aw_steps aw)"
  shows "\<exists>r1. map_of (rn_renewals (snd (approveStep now i who comment s))) i = Some r1 \<and> rr_approval r1 = Some (approve_workflow now who comment aw)
    \<and> rr_status r1 = (if Suc (aw_currentStep aw) = length (aw_steps aw) then RnAwaitingSignature else RnAwaitingApproval)"
  using assms by (simp add: approveStep_def with_renewal_get Let_def) (auto simp: approve_workflow_def Let_def)

text \<open>The approval chain takes one approval per role: after \<open>n\<close> approvals of what is left the next step is \<open>n\<close>
  further, each step names who approved it, and the renewal awaits its signature once the chain is through, and
  further approval before that.\<close>

theorem chain_takes_every_approval:
  assumes "map_of (rn_renewals s) i = Some r" "rr_approval r = Some aw" "acts \<noteq> []" "aw_currentStep aw + length acts \<le> length (aw_steps aw)"
  shows "\<exists>r1 aw1. map_of (rn_renewals (approve_all i acts s)) i = Some r1 \<and> rr_approval r1 = Some aw1
    \<and> aw_currentStep aw1 = aw_currentStep aw + length acts \<and> length (aw_steps aw1) = length (aw_steps aw)
    \<and> map as_approvedBy (take (length acts) (drop (aw_currentStep aw) (aw_steps aw1))) = map (\<lambda>(now, who, comment). Some who) acts
    \<and> take (aw_currentStep aw) (aw_steps aw1) = take (aw_currentStep aw) (aw_steps aw)
    \<and> rr_status r1 = (if aw_currentStep aw1 = length (aw_steps aw) then RnAwaitingSignature else RnAwaitingApproval)"
  using assms
proof (induction acts arbitrary: s r aw)
  case (Cons a acts)
  obtain now who comment where a: "a = (now, who, comment)" by (cases a)
  let ?c = "aw_currentStep aw" and ?aw = "approve_workflow now who comment aw"
  have lt: "?c < length (aw_steps aw)" using Cons.prems(4) by simp
  obtain r1 where r1: "map_of (rn_renewals (snd (approveStep now i who comment s))) i = Some r1" "rr_approval r1 = Some ?aw"
    "rr_status r1 = (if Suc ?c = length (aw_steps aw) then RnAwaitingSignature else RnAwaitingApproval)"
    using approve_once [OF Cons.prems(1,2) lt] by blast
  have w: "aw_currentStep ?aw = Suc ?c" "length (aw_steps ?aw) = length (aw_steps aw)" "take ?c (aw_steps ?aw) = take ?c (aw_steps aw)"
    "as_approvedBy (aw_steps ?aw ! ?c) = Some who"
    using lt by (simp_all add: approve_workflow_def Let_def)
  show ?case
  proof (cases "acts = []")
    case True
    have "take 1 (drop ?c (aw_steps ?aw)) = [aw_steps ?aw ! ?c]" using lt w(2) by (simp add: take_Suc_conv_app_nth Cons_nth_drop_Suc [symmetric])
    then show ?thesis using r1 w True a lt by (auto simp: approve_all_def)
  next
    case False
    have le: "aw_currentStep ?aw + length acts \<le> length (aw_steps ?aw)" using Cons.prems(4) w by simp
    obtain r2 aw2 where 2: "map_of (rn_renewals (approve_all i acts (snd (approveStep now i who comment s)))) i = Some r2" "rr_approval r2 = Some aw2"
      "aw_currentStep aw2 = aw_currentStep ?aw + length acts" "length (aw_steps aw2) = length (aw_steps ?aw)"
      "map as_approvedBy (take (length acts) (drop (aw_currentStep ?aw) (aw_steps aw2))) = map (\<lambda>(now, who, comment). Some who) acts"
      "take (aw_currentStep ?aw) (aw_steps aw2) = take (aw_currentStep ?aw) (aw_steps ?aw)"
      "rr_status r2 = (if aw_currentStep aw2 = length (aw_steps ?aw) then RnAwaitingSignature else RnAwaitingApproval)"
      using Cons.IH [OF r1(1,2) False le] by blast
    have head: "aw_steps aw2 ! ?c = aw_steps ?aw ! ?c" using 2(6) w(1) by (metis lessI nth_take)
    have split: "drop ?c (aw_steps aw2) = aw_steps aw2 ! ?c # drop (Suc ?c) (aw_steps aw2)"
      using lt 2(4) w(2) by (simp add: Cons_nth_drop_Suc)
    have start: "take ?c (aw_steps aw2) = take ?c (aw_steps aw)" using 2(6) w(1,3) by (metis take_take min.absorb1 lessI less_imp_le)
    show ?thesis using 2 w head start split by (auto simp: approve_all_def a)
  qed
qed simp

lemma chain_takes_every_approval_witness:
  "\<exists>r. map_of (rn_renewals (approve_all ''r'' [(1, ''ann'', None), (2, ''bob'', None)] demo_renewals)) ''r'' = Some r
     \<and> rr_status r = RnAwaitingSignature"
proof -
  obtain r where r: "map_of (rn_renewals demo_renewals) ''r'' = Some r" "rr_approval r = Some demo_workflow" using demo_record by blast
  have "aw_currentStep demo_workflow + length [(1, ''ann'', None), (2, ''bob'', None)] \<le> length (aw_steps demo_workflow)"
    by (simp add: demo_workflow_def)
  from chain_takes_every_approval [OF r _ this] show ?thesis by (auto simp: demo_workflow_def)
qed

section \<open>What the chain does not prevent\<close>

text \<open>A rejection binds nobody. After it the same step can be approved, which moves the renewal out of the lost state; and
  without any approval a signature can be requested and recorded, and the renewal counts as signed.\<close>

theorem rejection_is_not_final:
  assumes "map_of (rn_renewals s) i = Some r" "rr_approval r = Some aw" "aw_currentStep aw < length (aw_steps aw)"
    and "lost = snd (rejectStep t1 i boss comment s)"
  shows "(\<exists>r1. map_of (rn_renewals lost) i = Some r1 \<and> rr_status r1 = RnLost)
    \<and> (\<exists>r2. map_of (rn_renewals (snd (approveStep t2 i who why lost))) i = Some r2 \<and> rr_status r2 \<noteq> RnLost
          \<and> (\<exists>aw2. rr_approval r2 = Some aw2 \<and> aw_currentStep aw2 = Suc (aw_currentStep aw)))
    \<and> (\<exists>r3. map_of (rn_renewals (snd (recordSignature t3 i sig (snd (requestESignature t2 i provider url lost))))) i = Some r3
          \<and> rr_status r3 = RnSigned \<and> (\<exists>aw3. rr_approval r3 = Some aw3 \<and> aw_currentStep aw3 = aw_currentStep aw
            \<and> as_rejected (aw_steps aw3 ! aw_currentStep aw)))"
  using assms(1-3) unfolding assms(4)
  by (simp add: rejectStep_def approveStep_def requestESignature_def recordSignature_def with_renewal_get Let_def approve_workflow_def)

lemma rejection_is_not_final_witness:
  "\<exists>r. map_of (rn_renewals (snd (recordSignature 3 ''r'' ''x'' (snd (requestESignature 2 ''r'' Docusign ''doc''
     (snd (rejectStep 1 ''r'' ''boss'' None demo_renewals))))))) ''r'' = Some r \<and> rr_status r = RnSigned"
proof -
  obtain r where r: "map_of (rn_renewals demo_renewals) ''r'' = Some r" "rr_approval r = Some demo_workflow" using demo_record by blast
  have "aw_currentStep demo_workflow < length (aw_steps demo_workflow)" by (simp add: demo_workflow_def)
  from rejection_is_not_final [OF r this refl] show ?thesis by blast
qed

text \<open>A frozen negotiation is thawed by opening it again.\<close>

lemma reopening_thaws:
  assumes "map_of (rn_renewals s) i = Some r" "rr_negotiation r = Some w" "0 < now"
  shows "fst (updateNegotiation t2 i patch (snd (freezeNegotiation now i s))) = Inl ''Negotiation is frozen''"
    and "\<exists>w1. fst (updateNegotiation t3 i patch (snd (openNegotiation t2 i terms comment (snd (freezeNegotiation now i s))))) = Inr w1"
proof -
  have f: "map_of (rn_renewals (snd (freezeNegotiation now i s))) i = Some (r\<lparr>rr_negotiation := Some (w\<lparr>nw_frozenAt := Some now\<rparr>),
      rr_status := RnFrozen, rr_updatedAt := now\<rparr>)"
    using assms by (simp add: freezeNegotiation_def with_renewal_get)
  show "fst (updateNegotiation t2 i patch (snd (freezeNegotiation now i s))) = Inl ''Negotiation is frozen''"
    using f assms(3) by (simp add: updateNegotiation_def with_renewal_def [of i _ "snd (freezeNegotiation now i s)"] getRenewal_def is_frozen_def)
  have o: "\<exists>r1 w1. map_of (rn_renewals (snd (openNegotiation t2 i terms comment (snd (freezeNegotiation now i s))))) i = Some r1
      \<and> rr_negotiation r1 = Some w1 \<and> nw_frozenAt w1 = None"
    unfolding openNegotiation_def with_renewal_get using f by (simp add: Let_def)
  then show "\<exists>w1. fst (updateNegotiation t3 i patch (snd (openNegotiation t2 i terms comment (snd (freezeNegotiation now i s))))) = Inr w1"
    unfolding updateNegotiation_def with_renewal_def [of i _ "snd (openNegotiation t2 i terms comment (snd (freezeNegotiation now i s)))"]
    by (auto simp: getRenewal_def is_frozen_def Let_def)
qed

section \<open>Automatic renewal and milestones\<close>

text \<open>Automatic renewal takes every pending contract of that kind that has ended, once: those it answers are renewed in
  the service, all others are as before, and a second run at the same time finds none.\<close>

theorem automatic_renewal_once:
  "(\<forall>k. map_of (rn_renewals (snd (processAutoRenewals now s))) k =
       map_option (\<lambda>r. if renews_now now r then r\<lparr>rr_status := RnAutoRenewed, rr_updatedAt := now\<rparr> else r) (map_of (rn_renewals s) k))
    \<and> length (fst (processAutoRenewals now s)) = length (filter (renews_now now) (map snd (rn_renewals s)))
    \<and> list_all (\<lambda>r. rr_status r = RnAutoRenewed \<and> rr_contractEndDate r \<le> now) (fst (processAutoRenewals now s))
    \<and> fst (processAutoRenewals now (snd (processAutoRenewals now s))) = []"
  by (auto simp: processAutoRenewals_def auto_map auto_renew_def [abs_def] renews_now_def list_all_iff filter_empty_conv split: if_splits)

text \<open>Milestones that are due stay due until they are recorded, and a nearer one brings the farther ones with it.\<close>

lemma milestones_accumulate:
  assumes "m \<in> set (pending_milestones now r)" "now \<le> now1"
  shows "m \<in> set (pending_milestones now1 r)"
  using assms by (auto simp: pending_milestones_def)

lemma milestones_upward:
  assumes "m \<in> set (pending_milestones now r)" "(m, d) \<in> set MILESTONE_DAYS" "(m1, d1) \<in> set MILESTONE_DAYS" "d \<le> d1"
    "m1 \<notin> set (map me_milestone (rr_milestones r))"
  shows "m1 \<in> set (pending_milestones now r)"
  using assms by (auto simp: pending_milestones_def MILESTONE_DAYS_def ONE_DAY_MS_def)
end
