(* ===== verification/Metering.thy ===== *)
theory Metering
  imports JsString
begin

text \<open>
  Rating of metered usage: \<^verbatim>\<open>backend/services/billing/metering.ts\<close> with the graduated walk of
  \<^verbatim>\<open>backend/services/billing/tieredPricingCalculator.ts\<close>. Amounts and units are rationals, so the checks for
  non-finite numbers reduce to those for negative ones; numbers in messages print with at most six decimals.
  A function that throws answers \<open>Inl\<close> with the code and the message of the error.
\<close>

section \<open>Types\<close>

datatype PricingErrorCode = InvalidPlan | InvalidUsage
datatype MeteredPricingModel = FlatModel | GraduatedModel | VolumeModel | PackageModel

fun model_name :: "MeteredPricingModel \<Rightarrow> string" where
  "model_name FlatModel = ''flat''"
| "model_name GraduatedModel = ''graduated''"
| "model_name VolumeModel = ''volume''"
| "model_name PackageModel = ''package''"

record OverageTier =
  ot_upToUnits :: "rat option"
  ot_unitPrice :: rat
  ot_flatFee :: "rat option"

record MeterPricingPlan =
  mp_metric :: string
  mp_model :: MeteredPricingModel
  mp_includedUnits :: rat
  mp_unitPrice :: rat
  mp_tiers :: "OverageTier list option"
  mp_minimumCharge :: "rat option"
  mp_maximumCharge :: "rat option"
  mp_currency :: "string option"

record RatedTierLine =
  tl_upToUnits :: "rat option"
  tl_units :: rat
  tl_unitPrice :: rat
  tl_flatFee :: rat
  tl_amount :: rat

record RatedMeterLine =
  ml_metric :: string
  ml_model :: MeteredPricingModel
  ml_unitsUsed :: rat
  ml_includedUnits :: rat
  ml_billableUnits :: rat
  ml_amount :: rat
  ml_tierLines :: "RatedTierLine list"

record RatedUsageBill =
  ub_subscriptionId :: string
  ub_currency :: string
  ub_period :: "int \<times> int"
  ub_lines :: "RatedMeterLine list"
  ub_subtotal :: rat
  ub_minimumAdjustment :: rat
  ub_maximumAdjustment :: rat
  ub_total :: rat

record PricingTier =
  pt_upToUnits :: "rat option"
  pt_unitPrice :: rat

record TierBreakdownLine =
  tb_tier :: PricingTier
  tb_unitsInTier :: rat
  tb_amount :: rat

type_synonym pricing_error = "PricingErrorCode \<times> string"

section \<open>Validation\<close>

definition negative :: "rat option \<Rightarrow> bool" where
  "negative v \<longleftrightarrow> (case v of None \<Rightarrow> False | Some x \<Rightarrow> x < 0)"

text \<open>The loop of \<open>validateOverageTiers\<close>: the index, the bound before, and the tiers that are left.\<close>

fun check_tiers :: "nat \<Rightarrow> rat \<Rightarrow> OverageTier list \<Rightarrow> string option" where
  "check_tiers i previous [] = None"
| "check_tiers i previous (tier # tiers) =
     (if ot_unitPrice tier < 0 then Some (''Tier '' @ show_nat i @ '' has a negative or non-finite unitPrice'')
      else if negative (ot_flatFee tier) then Some (''Tier '' @ show_nat i @ '' has a negative or non-finite flatFee'')
      else case ot_upToUnits tier of
        None \<Rightarrow>
          if tiers \<noteq> [] then Some ''An unbounded tier (upToUnits: null) must be the last tier''
          else check_tiers (Suc i) previous tiers
      | Some b \<Rightarrow>
          if b \<le> previous then Some (''Tier bounds must strictly ascend; tier '' @ show_nat i @ '' bound '' @ show_num b @ '' follows '' @ show_num previous)
          else check_tiers (Suc i) b tiers)"

definition validateOverageTiers :: "OverageTier list \<Rightarrow> pricing_error option" where
  "validateOverageTiers tiers = map_option (Pair InvalidPlan) (check_tiers 0 0 tiers)"

definition exceeds :: "rat option \<Rightarrow> rat option \<Rightarrow> bool" where
  "exceeds lo hi \<longleftrightarrow> (case (lo, hi) of (Some a, Some b) \<Rightarrow> b < a | _ \<Rightarrow> False)"

definition validateMeterPricingPlan :: "MeterPricingPlan \<Rightarrow> pricing_error option" where
  "validateMeterPricingPlan plan =
     (let meter = ''Meter '' @ [CHR ''\"''] @ mp_metric plan @ [CHR ''\"'']
      in if mp_metric plan = '''' then Some (InvalidPlan, ''Meter pricing plan requires a metric'')
         else if mp_unitPrice plan < 0 then Some (InvalidPlan, meter @ '' has a negative or non-finite unitPrice'')
         else if mp_includedUnits plan < 0 then Some (InvalidPlan, meter @ '' has a negative or non-finite includedUnits'')
         else if mp_model plan \<noteq> FlatModel \<and> (mp_tiers plan = None \<or> mp_tiers plan = Some [])
           then Some (InvalidPlan, meter @ '' uses the '' @ [CHR ''\"''] @ model_name (mp_model plan) @ [CHR ''\"''] @ '' model but defines no tiers'')
         else case Option.bind (mp_tiers plan) validateOverageTiers of
             Some e \<Rightarrow> Some e
           | None \<Rightarrow>
               if exceeds (mp_minimumCharge plan) (mp_maximumCharge plan)
               then Some (InvalidPlan, meter @ '' has a minimumCharge above its maximumCharge'') else None)"

section \<open>The graduated walk\<close>

text \<open>Bounded tiers by bound, then the unbounded; the order of several unbounded ones, which the comparison leaves open,
  is kept.\<close>

definition sort_tiers :: "PricingTier list \<Rightarrow> PricingTier list" where
  "sort_tiers tiers = sort_key (\<lambda>t. the_or (pt_upToUnits t) 0) (filter (\<lambda>t. pt_upToUnits t \<noteq> None) tiers)
     @ filter (\<lambda>t. pt_upToUnits t = None) tiers"

fun walk_tiers :: "rat \<Rightarrow> rat \<Rightarrow> PricingTier list \<Rightarrow> TierBreakdownLine list" where
  "walk_tiers remaining lowerBound [] = []"
| "walk_tiers remaining lowerBound (tier # tiers) =
     (if remaining \<le> 0 then []
      else let unitsInTier = (case pt_upToUnits tier of None \<Rightarrow> remaining | Some b \<Rightarrow> min remaining (b - lowerBound))
           in \<lparr>tb_tier = tier, tb_unitsInTier = unitsInTier, tb_amount = unitsInTier * pt_unitPrice tier\<rparr>
              # walk_tiers (remaining - unitsInTier) (the_or (pt_upToUnits tier) lowerBound) tiers)"

definition tiered_calculate :: "PricingTier list \<Rightarrow> rat \<Rightarrow> TierBreakdownLine list" where
  "tiered_calculate tiers totalUnits = walk_tiers (max 0 totalUnits) 0 (sort_tiers tiers)"

definition buildSimpleTiers :: "rat \<Rightarrow> rat \<Rightarrow> PricingTier list" where
  "buildSimpleTiers includedUnits unitPrice =
     [\<lparr>pt_upToUnits = Some includedUnits, pt_unitPrice = 0\<rparr>, \<lparr>pt_upToUnits = None, pt_unitPrice = unitPrice\<rparr>]"

section \<open>Rating\<close>

definition selectTier :: "OverageTier list \<Rightarrow> rat \<Rightarrow> OverageTier option" where
  "selectTier tiers units =
     (case js_find (\<lambda>t. case ot_upToUnits t of None \<Rightarrow> True | Some b \<Rightarrow> units \<le> b) tiers of
        Some t \<Rightarrow> Some t
      | None \<Rightarrow> if tiers = [] then None else Some (last tiers))"

definition plain_tier :: "OverageTier \<Rightarrow> PricingTier" where
  "plain_tier t = \<lparr>pt_upToUnits = ot_upToUnits t, pt_unitPrice = ot_unitPrice t\<rparr>"

definition overflow_ladder :: "rat \<Rightarrow> OverageTier list \<Rightarrow> PricingTier list" where
  "overflow_ladder unitPrice tiers =
     map plain_tier tiers @ (if tiers = [] \<or> ot_upToUnits (last tiers) \<noteq> None then [\<lparr>pt_upToUnits = None, pt_unitPrice = unitPrice\<rparr>] else [])"

definition band_fee :: "OverageTier list \<Rightarrow> rat option \<Rightarrow> rat" where
  "band_fee tiers bound = (case js_find (\<lambda>t. ot_upToUnits t = bound) tiers of None \<Rightarrow> 0 | Some t \<Rightarrow> the_or (ot_flatFee t) 0)"

definition rateGraduated :: "rat \<Rightarrow> rat \<Rightarrow> OverageTier list \<Rightarrow> RatedTierLine list" where
  "rateGraduated billableUnits unitPrice tiers =
     map (\<lambda>l. \<lparr>tl_upToUnits = pt_upToUnits (tb_tier l), tl_units = tb_unitsInTier l, tl_unitPrice = pt_unitPrice (tb_tier l),
            tl_flatFee = band_fee tiers (pt_upToUnits (tb_tier l)),
            tl_amount = tb_amount l + band_fee tiers (pt_upToUnits (tb_tier l))\<rparr>)
       (filter (\<lambda>l. 0 < tb_unitsInTier l) (tiered_calculate (overflow_ladder unitPrice tiers) billableUnits))"

definition rateVolume :: "rat \<Rightarrow> rat \<Rightarrow> OverageTier list \<Rightarrow> RatedTierLine list" where
  "rateVolume billableUnits unitPrice tiers =
     (let tier = selectTier tiers billableUnits; price = the_or (map_option ot_unitPrice tier) unitPrice;
          flatFee = the_or (Option.bind tier ot_flatFee) 0
      in [\<lparr>tl_upToUnits = Option.bind tier ot_upToUnits, tl_units = billableUnits, tl_unitPrice = price, tl_flatFee = flatFee,
           tl_amount = billableUnits * price + flatFee\<rparr>])"

definition flat_line :: "rat \<Rightarrow> rat \<Rightarrow> RatedTierLine" where
  "flat_line billableUnits unitPrice =
     \<lparr>tl_upToUnits = None, tl_units = billableUnits, tl_unitPrice = unitPrice, tl_flatFee = 0, tl_amount = billableUnits * unitPrice\<rparr>"

definition ratePackage :: "rat \<Rightarrow> rat \<Rightarrow> OverageTier list \<Rightarrow> RatedTierLine list" where
  "ratePackage billableUnits unitPrice tiers =
     (let tier = selectTier tiers billableUnits
      in case Option.bind tier ot_upToUnits of
           None \<Rightarrow> [flat_line billableUnits unitPrice]
         | Some blockSize \<Rightarrow>
             if blockSize \<le> 0 then [flat_line billableUnits unitPrice]
             else let blockPrice = the_or (Option.bind tier ot_flatFee) 0
                  in [\<lparr>tl_upToUnits = Some blockSize, tl_units = billableUnits, tl_unitPrice = blockPrice, tl_flatFee = blockPrice,
                       tl_amount = of_int \<lceil>billableUnits / blockSize\<rceil> * blockPrice\<rparr>])"

definition tier_lines :: "MeterPricingPlan \<Rightarrow> rat \<Rightarrow> RatedTierLine list" where
  "tier_lines plan billableUnits =
     (if billableUnits \<le> 0 then []
      else let tiers = the_or (mp_tiers plan) []
           in case mp_model plan of
                GraduatedModel \<Rightarrow> rateGraduated billableUnits (mp_unitPrice plan) tiers
              | VolumeModel \<Rightarrow> rateVolume billableUnits (mp_unitPrice plan) tiers
              | PackageModel \<Rightarrow> ratePackage billableUnits (mp_unitPrice plan) tiers
              | FlatModel \<Rightarrow> [flat_line billableUnits (mp_unitPrice plan)])"

definition rateMeter :: "MeterPricingPlan \<Rightarrow> rat \<Rightarrow> rat \<Rightarrow> pricing_error + RatedMeterLine" where
  "rateMeter plan unitsUsed prorationFactor =
     (case validateMeterPricingPlan plan of
        Some e \<Rightarrow> Inl e
      | None \<Rightarrow>
          if unitsUsed < 0
          then Inl (InvalidUsage, ''Meter '' @ [CHR ''\"''] @ mp_metric plan @ [CHR ''\"''] @ '' received a negative or non-finite unit count'')
          else
            let factor = min (max prorationFactor 0) 1; includedUnits = of_int \<lfloor>mp_includedUnits plan * factor\<rfloor>;
                billableUnits = max 0 (unitsUsed - includedUnits); ls = tier_lines plan billableUnits
            in Inr \<lparr>ml_metric = mp_metric plan, ml_model = mp_model plan, ml_unitsUsed = unitsUsed, ml_includedUnits = includedUnits,
                 ml_billableUnits = billableUnits, ml_amount = sum_list (map tl_amount ls), ml_tierLines = ls\<rparr>)"

text \<open>The loop of \<open>rateUsage\<close>: lines, subtotal and the two adjustments; the first plan that cannot be rated ends it.\<close>

fun rate_plans :: "(string, rat) jsmap \<Rightarrow> rat \<Rightarrow> MeterPricingPlan list \<Rightarrow> RatedMeterLine list \<times> rat \<times> rat \<times> rat
    \<Rightarrow> pricing_error + RatedMeterLine list \<times> rat \<times> rat \<times> rat" where
  "rate_plans usageByMetric factor [] acc = Inr acc"
| "rate_plans usageByMetric factor (plan # plans) acc =
     (case (rateMeter plan (obj_or 0 usageByMetric (mp_metric plan)) factor, acc) of
        (Inl e, _) \<Rightarrow> Inl e
      | (Inr line, (ls, subtotal, minAdj, maxAdj)) \<Rightarrow>
          let amount = ml_amount line;
              (minAdj1, effective) = (case mp_minimumCharge plan of
                 Some m \<Rightarrow> if amount < m then (minAdj + (m - amount), m) else (minAdj, amount) | None \<Rightarrow> (minAdj, amount));
              maxAdj1 = (case mp_maximumCharge plan of
                 Some m \<Rightarrow> if m < effective then maxAdj + (m - effective) else maxAdj | None \<Rightarrow> maxAdj)
          in rate_plans usageByMetric factor plans (ls @ [line], subtotal + amount, minAdj1, maxAdj1))"

record RateUsageInput =
  ri_subscriptionId :: string
  ri_period :: "int \<times> int"
  ri_usageByMetric :: "(string, rat) jsmap"
  ri_plans :: "MeterPricingPlan list"
  ri_currency :: "string option"
  ri_prorationFactor :: "rat option"

definition rateUsage :: "RateUsageInput \<Rightarrow> pricing_error + RatedUsageBill" where
  "rateUsage input =
     (if snd (ri_period input) < fst (ri_period input) then Inl (InvalidUsage, ''Billing period ends before it starts'')
      else case rate_plans (ri_usageByMetric input) (the_or (ri_prorationFactor input) 1) (ri_plans input) ([], 0, 0, 0) of
        Inl e \<Rightarrow> Inl e
      | Inr (ls, subtotal, minAdj, maxAdj) \<Rightarrow>
          Inr \<lparr>ub_subscriptionId = ri_subscriptionId input,
               ub_currency = the_or (opt_or (ri_currency input) (case ri_plans input of [] \<Rightarrow> None | p # _ \<Rightarrow> mp_currency p)) ''USD'',
               ub_period = ri_period input, ub_lines = ls, ub_subtotal = subtotal, ub_minimumAdjustment = minAdj,
               ub_maximumAdjustment = maxAdj, ub_total = subtotal + minAdj + maxAdj\<rparr>)"

definition quoteMeter :: "MeterPricingPlan \<Rightarrow> rat \<Rightarrow> pricing_error + RatedMeterLine" where
  "quoteMeter plan units = rateMeter plan units 1"

definition marginalUnitPrice :: "MeterPricingPlan \<Rightarrow> rat \<Rightarrow> pricing_error + rat" where
  "marginalUnitPrice plan atUnits =
     (case rateMeter plan atUnits 1 of
        Inl e \<Rightarrow> Inl e
      | Inr here \<Rightarrow> (case rateMeter plan (atUnits + 1) 1 of Inl e \<Rightarrow> Inl e | Inr next_line \<Rightarrow> Inr (ml_amount next_line - ml_amount here)))"

record ContractTier =
  ct_up_to_units :: rat
  ct_unit_price :: rat
  ct_flat_fee :: rat

definition toContractTiers :: "OverageTier list \<Rightarrow> pricing_error + ContractTier list" where
  "toContractTiers tiers =
     (case validateOverageTiers tiers of
        Some e \<Rightarrow> Inl e
      | None \<Rightarrow> Inr (map (\<lambda>t. \<lparr>ct_up_to_units = the_or (ot_upToUnits t) 0, ct_unit_price = ot_unitPrice t,
          ct_flat_fee = the_or (ot_flatFee t) 0\<rparr>) tiers))"

definition buildOverageLadder :: "rat \<Rightarrow> OverageTier list" where
  "buildOverageLadder unitPrice = [\<lparr>ot_upToUnits = None, ot_unitPrice = unitPrice, ot_flatFee = None\<rparr>]"

section \<open>Ladders that pass validation\<close>

lemma check_tiers_distinct:
  "check_tiers i p ts = None \<Longrightarrow> distinct (map ot_upToUnits ts) \<and> (\<forall>t\<in>set ts. \<forall>b. ot_upToUnits t = Some b \<longrightarrow> p < b)"
proof (induction ts arbitrary: i p)
  case (Cons t ts)
  show ?case
  proof (cases "ot_upToUnits t")
    case None
    then show ?thesis using Cons.prems by (auto split: if_splits)
  next
    case (Some b)
    then have b: "p < b" "check_tiers (Suc i) b ts = None" using Cons.prems by (auto split: if_splits)
    from Cons.IH [OF b(2)] have IH: "distinct (map ot_upToUnits ts)" "\<forall>t\<in>set ts. \<forall>c. ot_upToUnits t = Some c \<longrightarrow> b < c" by auto
    then have "Some b \<notin> set (map ot_upToUnits ts)" by force
    then show ?thesis using IH b(1) Some by fastforce
  qed
qed simp

lemma check_tiers_Cons:
  assumes "check_tiers i p (t # ts) = None"
  shows "0 \<le> ot_unitPrice t" "0 \<le> the_or (ot_flatFee t) 0" "ot_upToUnits t = None \<Longrightarrow> ts = []"
    "ot_upToUnits t = Some b \<Longrightarrow> p < b \<and> check_tiers (Suc i) b ts = None"
  using assms by (auto simp: negative_def split: if_splits option.splits)

lemma js_find_distinct: "distinct (map f xs) \<Longrightarrow> x \<in> set xs \<Longrightarrow> js_find (\<lambda>y. f y = f x) xs = Some x"
  by (induction xs) (auto simp: js_find_def image_iff)

lemma band_fees:
  assumes "check_tiers i p ts = None"
  shows "t \<in> set ts \<Longrightarrow> band_fee ts (ot_upToUnits t) = the_or (ot_flatFee t) 0"
    and "ts \<noteq> [] \<Longrightarrow> ot_upToUnits (last ts) \<noteq> None \<Longrightarrow> band_fee ts None = 0"
proof -
  show "t \<in> set ts \<Longrightarrow> band_fee ts (ot_upToUnits t) = the_or (ot_flatFee t) 0"
    using js_find_distinct [of ot_upToUnits ts t] check_tiers_distinct [OF assms] by (simp add: band_fee_def)
  have "\<forall>t\<in>set ts. ot_upToUnits t \<noteq> None" if "ts \<noteq> []" "ot_upToUnits (last ts) \<noteq> None"
    using assms that
  proof (induction ts arbitrary: i p)
    case (Cons t ts)
    show ?case
    proof (cases "ot_upToUnits t")
      case None
      then show ?thesis using Cons.prems check_tiers_Cons(3) [OF Cons.prems(1)] by simp
    next
      case (Some b)
      then show ?thesis using Cons check_tiers_Cons(4) [OF Cons.prems(1) Some] by (cases "ts = []") auto
    qed
  qed simp
  then have "js_find (\<lambda>t. ot_upToUnits t = None) ts = None" if "ts \<noteq> []" "ot_upToUnits (last ts) \<noteq> None"
    unfolding js_find_None using that by blast
  then show "ts \<noteq> [] \<Longrightarrow> ot_upToUnits (last ts) \<noteq> None \<Longrightarrow> band_fee ts None = 0"
    unfolding band_fee_def by simp
qed

lemma overflow_ladder_simps:
  "overflow_ladder up [] = [\<lparr>pt_upToUnits = None, pt_unitPrice = up\<rparr>]"
  "overflow_ladder up (t # ts) = plain_tier t # (if ts = [] \<and> ot_upToUnits t = None then [] else overflow_ladder up ts)"
  by (auto simp: overflow_ladder_def)

text \<open>A valid ladder is already in order.\<close>

lemma sort_valid:
  assumes "check_tiers i p ts = None"
  shows "sort_tiers (overflow_ladder up ts) = overflow_ladder up ts"
proof -
  have split: "\<exists>bs us. overflow_ladder up ts = bs @ us \<and> (\<forall>t\<in>set bs. pt_upToUnits t \<noteq> None) \<and> (\<forall>t\<in>set us. pt_upToUnits t = None)
      \<and> sorted_wrt (<) (map (\<lambda>t. the_or (pt_upToUnits t) 0) bs) \<and> (\<forall>t\<in>set bs. p < the_or (pt_upToUnits t) 0)"
    using assms
  proof (induction ts arbitrary: i p)
    case Nil
    show ?case by (rule exI [of _ "[]"]) (simp add: overflow_ladder_simps)
  next
    case (Cons t ts)
    show ?case
    proof (cases "ot_upToUnits t")
      case None
      then have nil: "ts = []" by (rule check_tiers_Cons(3) [OF Cons.prems])
      show ?thesis
        by (rule exI [of _ "[]"], rule exI [of _ "[plain_tier t]"]) (simp add: overflow_ladder_simps plain_tier_def None nil)
    next
      case (Some b)
      obtain bs us where IH: "overflow_ladder up ts = bs @ us" "\<forall>t\<in>set bs. pt_upToUnits t \<noteq> None" "\<forall>t\<in>set us. pt_upToUnits t = None"
        "sorted_wrt (<) (map (\<lambda>t. the_or (pt_upToUnits t) 0) bs)" "\<forall>t\<in>set bs. b < the_or (pt_upToUnits t) 0"
        using Cons.IH [OF conjunct2 [OF check_tiers_Cons(4) [OF Cons.prems Some]]] by (elim exE conjE) (rule that)
      have b: "p < b" using check_tiers_Cons(4) [OF Cons.prems Some] by simp
      have lad: "overflow_ladder up (t # ts) = (plain_tier t # bs) @ us" using IH(1) Some by (simp add: overflow_ladder_simps)
      have key: "pt_upToUnits (plain_tier t) = Some b" using Some by (simp add: plain_tier_def)
      have gt: "\<forall>x\<in>set bs. p < the_or (pt_upToUnits x) 0" using IH(5) b by fastforce
      show ?thesis
        by (rule exI [of _ "plain_tier t # bs"], rule exI [of _ us]) (use IH(2-5) in \<open>simp add: lad key b gt\<close>)
    qed
  qed
  then obtain bs us where s: "overflow_ladder up ts = bs @ us" "\<forall>t\<in>set bs. pt_upToUnits t \<noteq> None" "\<forall>t\<in>set us. pt_upToUnits t = None"
    "sorted_wrt (<) (map (\<lambda>t. the_or (pt_upToUnits t) 0) bs)" by blast
  have "sorted (map (\<lambda>t. the_or (pt_upToUnits t) 0) bs)" using s(4) by (rule strict_sorted_imp_sorted)
  then have "sort_key (\<lambda>t. the_or (pt_upToUnits t) 0) bs = bs" by (rule sort_key_id_if_sorted)
  moreover have "filter (\<lambda>t. pt_upToUnits t \<noteq> None) (bs @ us) = bs" "filter (\<lambda>t. pt_upToUnits t = None) (bs @ us) = us"
    using s(2,3) by (auto simp: filter_empty_conv filter_id_conv)
  ultimately show ?thesis unfolding s(1) sort_tiers_def by simp
qed

section \<open>Graduated rating band by band\<close>

text \<open>The units of a volume that fall into the band above \<open>lo\<close>, and what all bands cost: each unit at the price of its band,
  the fee of every band that is entered, and the flat rate past a truncated ladder.\<close>

definition band_units :: "rat \<Rightarrow> rat option \<Rightarrow> rat \<Rightarrow> rat" where
  "band_units lo hi u = max 0 ((case hi of None \<Rightarrow> u | Some b \<Rightarrow> min u b) - lo)"

fun graduated_cost :: "rat \<Rightarrow> rat \<Rightarrow> OverageTier list \<Rightarrow> rat \<Rightarrow> rat" where
  "graduated_cost up lo [] u = band_units lo None u * up"
| "graduated_cost up lo (t # ts) u =
     band_units lo (ot_upToUnits t) u * ot_unitPrice t + (if 0 < band_units lo (ot_upToUnits t) u then the_or (ot_flatFee t) 0 else 0)
     + (case ot_upToUnits t of None \<Rightarrow> 0 | Some b \<Rightarrow> graduated_cost up b ts u)"

lemma graduated_cost_zero: "check_tiers i lo ts = None \<Longrightarrow> u \<le> lo \<Longrightarrow> graduated_cost up lo ts u = 0"
proof (induction ts arbitrary: i lo)
  case (Cons t ts)
  then show ?case using check_tiers_Cons(4) [OF Cons.prems(1)]
    by (cases "ot_upToUnits t") (auto simp: band_units_def)
qed (simp add: band_units_def)

definition priced :: "(rat option \<Rightarrow> rat) \<Rightarrow> TierBreakdownLine list \<Rightarrow> rat" where
  "priced fee ls = sum_list (map (\<lambda>l. tb_amount l + fee (pt_upToUnits (tb_tier l))) (filter (\<lambda>l. 0 < tb_unitsInTier l) ls))"

lemma priced_simps [simp]:
  "priced fee [] = 0"
  "priced fee (l # ls) = (if 0 < tb_unitsInTier l then tb_amount l + fee (pt_upToUnits (tb_tier l)) else 0) + priced fee ls"
  by (simp_all add: priced_def)

lemma walk_cost:
  assumes "check_tiers i lo ts = None" "\<forall>t\<in>set ts. fee (ot_upToUnits t) = the_or (ot_flatFee t) 0"
    "ts = [] \<or> ot_upToUnits (last ts) \<noteq> None \<Longrightarrow> fee None = 0"
  shows "priced fee (walk_tiers (u - lo) lo (overflow_ladder up ts)) = graduated_cost up lo ts u"
    and "lo \<le> u \<Longrightarrow> sum_list (map tb_unitsInTier (walk_tiers (u - lo) lo (overflow_ladder up ts))) = u - lo"
proof -
  have "priced fee (walk_tiers (u - lo) lo (overflow_ladder up ts)) = graduated_cost up lo ts u
    \<and> (lo \<le> u \<longrightarrow> sum_list (map tb_unitsInTier (walk_tiers (u - lo) lo (overflow_ladder up ts))) = u - lo)"
    using assms
  proof (induction ts arbitrary: i lo)
    case Nil
    then show ?case by (auto simp: overflow_ladder_simps Let_def band_units_def)
  next
    case (Cons t ts)
    note v = check_tiers_Cons [OF Cons.prems(1)]
    show ?case
    proof (cases "u \<le> lo")
      case True
      then show ?thesis using graduated_cost_zero [OF Cons.prems(1) True] by (simp add: overflow_ladder_simps)
    next
      case over: False
      show ?thesis
      proof (cases "ot_upToUnits t")
        case None
        then show ?thesis using v(3) over Cons.prems(2) by (simp add: overflow_ladder_simps plain_tier_def band_units_def Let_def)
      next
        case (Some b)
        have b: "lo < b" "check_tiers (Suc i) b ts = None" using v(4) [OF Some] by auto
        have fees: "\<forall>t\<in>set ts. fee (ot_upToUnits t) = the_or (ot_flatFee t) 0" using Cons.prems(2) by simp
        have none: "ts = [] \<or> ot_upToUnits (last ts) \<noteq> None \<Longrightarrow> fee None = 0" using Cons.prems(3) Some by (cases "ts = []") auto
        note IH = Cons.IH [OF b(2) fees none]
        have units: "min (u - lo) (b - lo) = min u b - lo" by simp
        show ?thesis
        proof (cases "u \<le> b")
          case True
          then have m: "min u b = u" by simp
          have "walk_tiers 0 b xs = []" for xs by (cases xs) simp_all
          then show ?thesis using over Some True graduated_cost_zero [OF b(2) True] Cons.prems(2) b(1)
            by (simp add: overflow_ladder_simps plain_tier_def band_units_def Let_def units m)
        next
          case False
          then have m: "min u b = b" by simp
          have "u - lo - (b - lo) = u - b" by simp
          then show ?thesis using over Some False IH Cons.prems(2) b(1)
            by (simp add: overflow_ladder_simps plain_tier_def band_units_def Let_def units m)
        qed
      qed
    qed
  qed
  then show "priced fee (walk_tiers (u - lo) lo (overflow_ladder up ts)) = graduated_cost up lo ts u"
    and "lo \<le> u \<Longrightarrow> sum_list (map tb_unitsInTier (walk_tiers (u - lo) lo (overflow_ladder up ts))) = u - lo" by auto
qed

lemma rateGraduated_amount:
  assumes "check_tiers 0 0 ts = None" "0 \<le> u" "ts \<noteq> []"
  shows "sum_list (map tl_amount (rateGraduated u up ts)) = graduated_cost up 0 ts u"
    and "sum_list (map tl_units (rateGraduated u up ts)) = u"
proof -
  let ?ls = "walk_tiers (u - 0) 0 (overflow_ladder up ts)"
  have calc: "tiered_calculate (overflow_ladder up ts) u = ?ls"
    using assms(2) by (simp add: tiered_calculate_def sort_valid [OF assms(1)])
  note w = walk_cost [OF assms(1), of "band_fee ts" u up]
  have "sum_list (map tl_amount (rateGraduated u up ts)) = priced (band_fee ts) ?ls"
    unfolding rateGraduated_def calc priced_def by (simp add: comp_def)
  also have "\<dots> = graduated_cost up 0 ts u"
    by (rule w(1)) (use band_fees [OF assms(1)] assms(3) in auto)
  finally show "sum_list (map tl_amount (rateGraduated u up ts)) = graduated_cost up 0 ts u" .
  have pos: "sum_list (map tb_unitsInTier (filter (\<lambda>l. 0 < tb_unitsInTier l) ls)) = sum_list (map tb_unitsInTier ls)"
    if "\<forall>l\<in>set ls. 0 \<le> tb_unitsInTier l" for ls
    using that by (induction ls) auto
  have nonneg: "\<forall>l\<in>set (walk_tiers r lo (overflow_ladder up xs)). 0 \<le> tb_unitsInTier l" if "check_tiers i lo xs = None" for i r lo xs
    using that
  proof (induction xs arbitrary: i r lo)
    case (Cons t xs)
    then show ?case using check_tiers_Cons(3,4) [OF Cons.prems]
      by (cases "ot_upToUnits t") (auto simp: overflow_ladder_simps plain_tier_def Let_def)
  qed (simp add: overflow_ladder_simps Let_def)
  have "sum_list (map tl_units (rateGraduated u up ts)) = sum_list (map tb_unitsInTier ?ls)"
    unfolding rateGraduated_def calc using pos [OF nonneg [OF assms(1)]] by (simp add: comp_def)
  also have "\<dots> = u" using w(2) band_fees [OF assms(1)] assms by auto
  finally show "sum_list (map tl_units (rateGraduated u up ts)) = u" .
qed

lemma band_units_mono: "u \<le> v \<Longrightarrow> band_units lo hi u \<le> band_units lo hi v"
  by (cases hi) (auto simp: band_units_def)

lemma band_units_nonneg: "0 \<le> band_units lo hi u"
  by (simp add: band_units_def)

lemma graduated_cost_mono:
  assumes "check_tiers i lo ts = None" "0 \<le> up" "u \<le> v"
  shows "graduated_cost up lo ts u \<le> graduated_cost up lo ts v"
  using assms(1)
proof (induction ts arbitrary: i lo)
  case Nil
  show ?case using mult_right_mono [OF band_units_mono [OF assms(3), of lo None] assms(2)] by simp
next
  case (Cons t ts)
  note c = check_tiers_Cons [OF Cons.prems]
  note mono = band_units_mono [OF assms(3), of lo "ot_upToUnits t"]
  have units: "band_units lo (ot_upToUnits t) u * ot_unitPrice t \<le> band_units lo (ot_upToUnits t) v * ot_unitPrice t"
    by (rule mult_right_mono [OF mono c(1)])
  have fee: "(if 0 < band_units lo (ot_upToUnits t) u then the_or (ot_flatFee t) 0 else 0)
      \<le> (if 0 < band_units lo (ot_upToUnits t) v then the_or (ot_flatFee t) 0 else 0)"
    using mono c(2) by simp
  have rest: "(case ot_upToUnits t of None \<Rightarrow> 0 | Some b \<Rightarrow> graduated_cost up b ts u)
      \<le> (case ot_upToUnits t of None \<Rightarrow> 0 | Some b \<Rightarrow> graduated_cost up b ts v)"
    using Cons.IH c(4) by (auto split: option.split)
  show ?case unfolding graduated_cost.simps by (rule add_mono [OF add_mono [OF units fee] rest])
qed

section \<open>Rating one meter\<close>

lemma valid_plan:
  assumes "validateMeterPricingPlan plan = None"
  shows "0 \<le> mp_unitPrice plan" "0 \<le> mp_includedUnits plan"
    "mp_model plan \<noteq> FlatModel \<Longrightarrow> the_or (mp_tiers plan) [] \<noteq> []"
    "check_tiers 0 0 (the_or (mp_tiers plan) []) = None"
    "\<not> exceeds (mp_minimumCharge plan) (mp_maximumCharge plan)"
  using assms unfolding validateMeterPricingPlan_def Let_def
  by (cases "mp_tiers plan"; auto simp: validateOverageTiers_def split: if_splits option.splits)+

lemma rateMeter_Inr:
  assumes "rateMeter plan used factor = Inr line"
  shows "validateMeterPricingPlan plan = None" "0 \<le> used"
    "ml_includedUnits line = of_int \<lfloor>mp_includedUnits plan * min (max factor 0) 1\<rfloor>"
    "ml_billableUnits line = max 0 (used - ml_includedUnits line)"
    "ml_tierLines line = tier_lines plan (ml_billableUnits line)"
    "ml_amount line = sum_list (map tl_amount (tier_lines plan (ml_billableUnits line)))"
    "ml_metric line = mp_metric plan" "ml_model line = mp_model plan" "ml_unitsUsed line = used"
  using assms by (auto simp: rateMeter_def Let_def split: option.splits if_splits)

text \<open>What the two additive models cost, as a function of the billable units alone.\<close>

definition additive_cost :: "MeterPricingPlan \<Rightarrow> rat \<Rightarrow> rat" where
  "additive_cost plan u = (if mp_model plan = GraduatedModel then graduated_cost (mp_unitPrice plan) 0 (the_or (mp_tiers plan) []) u
     else u * mp_unitPrice plan)"

lemma tier_lines_additive:
  assumes "validateMeterPricingPlan plan = None" "mp_model plan = GraduatedModel \<or> mp_model plan = FlatModel" "0 \<le> u"
  shows "sum_list (map tl_amount (tier_lines plan u)) = additive_cost plan u"
    and "sum_list (map tl_units (tier_lines plan u)) = u"
proof -
  note v = valid_plan [OF assms(1)]
  note g = rateGraduated_amount [OF v(4) assms(3)]
  show "sum_list (map tl_amount (tier_lines plan u)) = additive_cost plan u"
  proof (cases "u = 0")
    case True
    then show ?thesis using graduated_cost_zero [OF v(4), of 0] by (simp add: tier_lines_def additive_cost_def)
  next
    case False
    then show ?thesis using assms(2,3) v(3) g(1) by (auto simp: tier_lines_def additive_cost_def flat_line_def)
  qed
  show "sum_list (map tl_units (tier_lines plan u)) = u"
  proof (cases "u = 0")
    case False
    then show ?thesis using assms(2,3) v(3) g(2) by (auto simp: tier_lines_def flat_line_def)
  qed (simp add: tier_lines_def)
qed

lemma additive_cost_mono:
  assumes "validateMeterPricingPlan plan = None" "u \<le> v"
  shows "additive_cost plan u \<le> additive_cost plan v"
  using graduated_cost_mono [OF valid_plan(4) [OF assms(1)] valid_plan(1) [OF assms(1)] assms(2)]
    mult_right_mono [OF assms(2) valid_plan(1) [OF assms(1)]]
  by (simp add: additive_cost_def)

text \<open>C23: Graduated rating is exact. For a plan that passes validation, the walk over the ladder, which sorts the tiers, appends the
  flat rate to a truncated ladder and looks the flat fees up by bound, charges what the band-by-band reference does: every
  billable unit at the price of the band it falls in, and the fee of every band that is entered. The lines split exactly the
  billable units, and using more never costs less.
\<close>

theorem graduated_rating_exact:
  assumes "mp_model plan = GraduatedModel" "rateMeter plan used factor = Inr line"
  shows "ml_amount line = graduated_cost (mp_unitPrice plan) 0 (the_or (mp_tiers plan) []) (ml_billableUnits line)
    \<and> sum_list (map tl_units (ml_tierLines line)) = max 0 (used - of_int \<lfloor>mp_includedUnits plan * min (max factor 0) 1\<rfloor>)
    \<and> (\<forall>used'\<ge>used. \<exists>line'. rateMeter plan used' factor = Inr line' \<and> ml_amount line \<le> ml_amount line')"
proof -
  note r = rateMeter_Inr [OF assms(2)]
  have u: "0 \<le> ml_billableUnits line" using r(4) by simp
  note t = tier_lines_additive [OF r(1) disjI1 [OF assms(1)] u]
  have more: "\<exists>line'. rateMeter plan used' factor = Inr line' \<and> ml_amount line \<le> ml_amount line'" if le: "used \<le> used'" for used'
  proof -
    obtain line' where l: "rateMeter plan used' factor = Inr line'" using r(1,2) le by (simp add: rateMeter_def Let_def)
    note r' = rateMeter_Inr [OF l]
    have "ml_billableUnits line \<le> ml_billableUnits line'" 
      unfolding r(4) r'(4) r(3) r'(3) using le by (intro max.mono) simp_all
    then have "additive_cost plan (ml_billableUnits line) \<le> additive_cost plan (ml_billableUnits line')"
      by (rule additive_cost_mono [OF r(1)])
    moreover have "0 \<le> ml_billableUnits line'" using r'(4) by simp
    note tier_lines_additive(1) [OF r(1) disjI1 [OF assms(1)] this]
    ultimately show ?thesis using l r(6) r'(6) t(1) by simp
  qed
  have amount: "ml_amount line = graduated_cost (mp_unitPrice plan) 0 (the_or (mp_tiers plan) []) (ml_billableUnits line)"
    using t(1) assms(1) unfolding r(6) additive_cost_def by simp
  have units: "sum_list (map tl_units (ml_tierLines line)) = max 0 (used - of_int \<lfloor>mp_includedUnits plan * min (max factor 0) 1\<rfloor>)"
    unfolding r(5) t(2) unfolding r(4) r(3) ..
  show ?thesis by (intro conjI allI impI) (rule amount, rule units, rule more)
qed

definition demo_ladder :: "OverageTier list" where
  "demo_ladder = [\<lparr>ot_upToUnits = Some 100, ot_unitPrice = 2, ot_flatFee = None\<rparr>, \<lparr>ot_upToUnits = Some 500, ot_unitPrice = 1, ot_flatFee = Some 10\<rparr>]"

definition meter_plan :: "MeteredPricingModel \<Rightarrow> MeterPricingPlan" where
  "meter_plan model = \<lparr>mp_metric = ''api'', mp_model = model, mp_includedUnits = 50, mp_unitPrice = 3, mp_tiers = Some demo_ladder,
     mp_minimumCharge = Some 20, mp_maximumCharge = Some 600, mp_currency = None\<rparr>"

lemma meter_plan_valid: "validateMeterPricingPlan (meter_plan model) = None"
  by (simp add: validateMeterPricingPlan_def meter_plan_def demo_ladder_def validateOverageTiers_def negative_def exceeds_def)

lemma demo_rates:
  obtains line where "rateMeter (meter_plan GraduatedModel) 650 1 = Inr line" "ml_billableUnits line = 600"
  by (simp add: rateMeter_def meter_plan_valid Let_def) (simp add: meter_plan_def)

lemma graduated_rating_exact_witness:
  "\<exists>line. rateMeter (meter_plan GraduatedModel) 650 1 = Inr line \<and> ml_amount line = 200 + 410 + 300"
proof -
  obtain line where l: "rateMeter (meter_plan GraduatedModel) 650 1 = Inr line" "ml_billableUnits line = 600" by (rule demo_rates)
  have "mp_model (meter_plan GraduatedModel) = GraduatedModel" by (simp add: meter_plan_def)
  from graduated_rating_exact [OF this l(1)] l(2) have "ml_amount line = graduated_cost 3 0 demo_ladder 600"
    by (simp add: meter_plan_def)
  then show ?thesis using l(1) by (simp add: demo_ladder_def band_units_def)
qed

section \<open>Rating a bill\<close>

text \<open>What one meter contributes to the total: its amount between the minimum and the cap of its plan.\<close>

definition capped :: "MeterPricingPlan \<Rightarrow> rat \<Rightarrow> rat" where
  "capped plan amount =
     (let a = (case mp_minimumCharge plan of None \<Rightarrow> amount | Some m \<Rightarrow> max m amount)
      in case mp_maximumCharge plan of None \<Rightarrow> a | Some m \<Rightarrow> min m a)"

definition within_charges :: "MeterPricingPlan \<Rightarrow> rat \<Rightarrow> bool" where
  "within_charges plan amount \<longleftrightarrow> \<not> exceeds (mp_minimumCharge plan) (Some amount) \<and> \<not> exceeds (Some amount) (mp_maximumCharge plan)"

lemma capped_within: "\<not> exceeds (mp_minimumCharge plan) (mp_maximumCharge plan) \<Longrightarrow> within_charges plan (capped plan amount)"
  by (auto simp: within_charges_def capped_def exceeds_def Let_def split: option.splits)

definition rates_as :: "(string, rat) jsmap \<Rightarrow> rat \<Rightarrow> MeterPricingPlan \<Rightarrow> RatedMeterLine \<Rightarrow> bool" where
  "rates_as usage factor plan line \<longleftrightarrow> rateMeter plan (obj_or 0 usage (mp_metric plan)) factor = Inr line"

definition charges :: "MeterPricingPlan list \<Rightarrow> RatedMeterLine list \<Rightarrow> rat" where
  "charges plans ls = sum_list (map2 (\<lambda>p l. capped p (ml_amount l)) plans ls)"

lemma rate_plans_Inr:
  assumes "rate_plans usage factor plans (ls, s, mn, mx) = Inr (ls', s', mn', mx')"
  shows "\<exists>new. ls' = ls @ new \<and> list_all2 (rates_as usage factor) plans new
    \<and> s' = s + sum_list (map ml_amount new) \<and> s' + mn' + mx' = s + mn + mx + charges plans new \<and> mn \<le> mn' \<and> mx' \<le> mx"
  using assms
proof (induction plans arbitrary: ls s mn mx)
  case Nil
  then show ?case by (simp add: charges_def)
next
  case (Cons plan plans)
  then obtain line where l: "rateMeter plan (obj_or 0 usage (mp_metric plan)) factor = Inr line"
    by (cases "rateMeter plan (obj_or 0 usage (mp_metric plan)) factor") auto
  obtain mn1 mx1 where step: "rate_plans usage factor plans (ls @ [line], s + ml_amount line, mn1, mx1) = Inr (ls', s', mn', mx')"
    and adj: "ml_amount line + mn1 + mx1 = mn + mx + capped plan (ml_amount line)" "mn \<le> mn1" "mx1 \<le> mx"
  proof -
    assume hyp: "\<And>mn1 mx1. rate_plans usage factor plans (ls @ [line], s + ml_amount line, mn1, mx1) = Inr (ls', s', mn', mx')
      \<Longrightarrow> ml_amount line + mn1 + mx1 = mn + mx + capped plan (ml_amount line) \<Longrightarrow> mn \<le> mn1 \<Longrightarrow> mx1 \<le> mx \<Longrightarrow> thesis"
    show thesis
      using Cons.prems unfolding rate_plans.simps l Let_def sum.case prod.case
      by (cases "mp_minimumCharge plan"; cases "mp_maximumCharge plan")
        (auto simp: capped_def split: if_splits intro: hyp)
  qed
  from Cons.IH [OF step] obtain new where n: "ls' = (ls @ [line]) @ new" "list_all2 (rates_as usage factor) plans new"
    "s' = s + ml_amount line + sum_list (map ml_amount new)"
    "s' + mn' + mx' = s + ml_amount line + mn1 + mx1 + charges plans new" "mn1 \<le> mn'" "mx' \<le> mx1" by blast
  have "rates_as usage factor plan line" using l by (simp add: rates_as_def)
  then show ?case
    by (intro exI [of _ "line # new"]) (use n adj in \<open>simp add: charges_def\<close>)
qed

lemma rates_as_within:
  "list_all2 (rates_as usage factor) plans ls \<Longrightarrow> \<forall>(p, l) \<in> set (zip plans ls). within_charges p (capped p (ml_amount l))"
proof (induction rule: list_all2_induct)
  case (Cons p ps l ls)
  then have "validateMeterPricingPlan p = None" unfolding rates_as_def by (intro rateMeter_Inr(1))
  then show ?case using Cons.IH capped_within [OF valid_plan(5)] by simp
qed simp

text \<open>C24: Minimums and caps hold per meter and the bill adds up. A bill that is issued has one line for each plan, rated on the usage
  recorded for its metric. Its total, the subtotal with the two adjustments, is the sum of what the meters cost once each is
  raised to its own minimum and cut at its own cap, and each of those amounts lies between the two; minimums only ever add
  to a bill and caps only ever lower it.
\<close>

theorem bill_respects_meter_caps:
  assumes "rateUsage input = Inr bill"
  shows "list_all2 (rates_as (ri_usageByMetric input) (the_or (ri_prorationFactor input) 1)) (ri_plans input) (ub_lines bill)
    \<and> ub_total bill = charges (ri_plans input) (ub_lines bill)
    \<and> ub_subtotal bill = sum_list (map ml_amount (ub_lines bill))
    \<and> (\<forall>(p, l) \<in> set (zip (ri_plans input) (ub_lines bill)). within_charges p (capped p (ml_amount l)))
    \<and> 0 \<le> ub_minimumAdjustment bill \<and> ub_maximumAdjustment bill \<le> 0"
proof -
  let ?rated = "rate_plans (ri_usageByMetric input) (the_or (ri_prorationFactor input) 1) (ri_plans input) ([], 0, 0, 0)"
  obtain ls s mn mx where l: "?rated = Inr (ls, s, mn, mx)"
    and b: "ub_lines bill = ls" "ub_subtotal bill = s" "ub_minimumAdjustment bill = mn" "ub_maximumAdjustment bill = mx"
      "ub_total bill = s + mn + mx"
    using assms by (auto simp: rateUsage_def split: if_splits sum.splits)
  from rate_plans_Inr [OF l] have n: "list_all2 (rates_as (ri_usageByMetric input) (the_or (ri_prorationFactor input) 1)) (ri_plans input) ls"
    "s = sum_list (map ml_amount ls)" "s + mn + mx = charges (ri_plans input) ls" "0 \<le> mn" "mx \<le> 0" by auto
  show ?thesis unfolding b using n rates_as_within [OF n(1)] by blast
qed

definition demo_usage :: RateUsageInput where
  "demo_usage = \<lparr>ri_subscriptionId = ''s1'', ri_period = (0, 30), ri_usageByMetric = [(''api'', 650)],
     ri_plans = [meter_plan GraduatedModel], ri_currency = None, ri_prorationFactor = None\<rparr>"

lemma bill_respects_meter_caps_witness:
  "\<exists>bill. rateUsage demo_usage = Inr bill \<and> ub_total bill = 600"
proof -
  obtain line where l: "rateMeter (meter_plan GraduatedModel) 650 1 = Inr line" "ml_billableUnits line = 600" by (rule demo_rates)
  have lad: "check_tiers 0 0 demo_ladder = None" by (simp add: demo_ladder_def negative_def)
  have a: "ml_amount line = 910"
    using rateMeter_Inr(6) [OF l(1)] rateGraduated_amount(1) [OF lad, of 600 3] l(2)
    by (simp add: tier_lines_def meter_plan_def demo_ladder_def band_units_def)
  have m: "mp_metric (meter_plan GraduatedModel) = ''api''" "mp_minimumCharge (meter_plan GraduatedModel) = Some 20"
    "mp_maximumCharge (meter_plan GraduatedModel) = Some 600" by (simp_all add: meter_plan_def)
  have look: "obj_or 0 [(''api'', 650)] ''api'' = (650::rat)" by (simp add: obj_or_def)
  obtain bill where b: "rateUsage demo_usage = Inr bill" "ub_lines bill = [line]"
    by (simp add: rateUsage_def demo_usage_def m look l(1) a Let_def)
  have "ub_total bill = charges (ri_plans demo_usage) (ub_lines bill)" using bill_respects_meter_caps [OF b(1)] by blast
  then have "ub_total bill = 600" unfolding b(2) by (simp add: demo_usage_def charges_def capped_def m a)
  then show ?thesis using b(1) by blast
qed

section \<open>The encoding of the contract\<close>

text \<open>On chain a bound of zero stands for the unbounded band. A ladder that passes validation has no bounded tier with that bound,
  so the encoding loses nothing: reading it back gives the ladder, an absent flat fee as a fee of zero.\<close>

definition of_contract_tier :: "ContractTier \<Rightarrow> OverageTier" where
  "of_contract_tier c = \<lparr>ot_upToUnits = (if ct_up_to_units c = 0 then None else Some (ct_up_to_units c)), ot_unitPrice = ct_unit_price c,
     ot_flatFee = Some (ct_flat_fee c)\<rparr>"

lemma contract_tiers_roundtrip:
  assumes "toContractTiers tiers = Inr cs"
  shows "map of_contract_tier cs = map (\<lambda>t. t\<lparr>ot_flatFee := Some (the_or (ot_flatFee t) 0)\<rparr>) tiers"
proof -
  have v: "check_tiers 0 0 tiers = None" and cs: "cs = map (\<lambda>t. \<lparr>ct_up_to_units = the_or (ot_upToUnits t) 0,
      ct_unit_price = ot_unitPrice t, ct_flat_fee = the_or (ot_flatFee t) 0\<rparr>) tiers"
    using assms by (auto simp: toContractTiers_def validateOverageTiers_def split: option.splits)
  have "of_contract_tier \<lparr>ct_up_to_units = the_or (ot_upToUnits t) 0, ct_unit_price = ot_unitPrice t, ct_flat_fee = the_or (ot_flatFee t) 0\<rparr>
      = t\<lparr>ot_flatFee := Some (the_or (ot_flatFee t) 0)\<rparr>" if "t \<in> set tiers" for t
    using check_tiers_distinct [OF v] that by (cases "ot_upToUnits t") (auto simp: of_contract_tier_def)
  then show ?thesis unfolding cs by (simp add: comp_def)
qed

lemma demo_ladder_roundtrip:
  "\<exists>cs. toContractTiers demo_ladder = Inr cs \<and> length cs = 2"
  by (simp add: toContractTiers_def validateOverageTiers_def demo_ladder_def negative_def)
end
