(* ===== verification/KeyRotation.thy ===== *)
theory KeyRotation
  imports JsNumber Prelude
begin

text \<open>
  Rotation of API keys with a grace period: \<^verbatim>\<open>backend/services/shared/apiKeyRotation.ts\<close>. Every method takes the time of the
  call; the random parts of ids and secrets are arguments. The event that a rotation hands to the event bus is appended
  to a list of published events. The metrics are modelled, their rendering as text is not.
\<close>

section \<open>Types\<close>

datatype ApiKeyEnvironment = TestEnvironment | ProductionEnvironment
datatype ApiKeyStatus = KeyActive | KeyGrace | KeyExpired | KeyRevoked

record ManagedApiKey =
  mk_id :: string
  mk_key :: string
  mk_name :: string
  mk_developerId :: string
  mk_environment :: ApiKeyEnvironment
  mk_permissions :: "string list"
  mk_status :: ApiKeyStatus
  mk_createdAt :: int
  mk_expiresAt :: int
  mk_gracePeriodEndsAt :: "int option"
  mk_replacedByKeyId :: "string option"
  mk_replacesKeyId :: "string option"
  mk_revokedAt :: "int option"
  mk_lastUsedAt :: "int option"
  mk_usageCount :: nat

record RotationOptions =
  ro_gracePeriodMs :: "int option"
  ro_newKeyTtlMs :: "int option"
  ro_reason :: "string option"

record RotationResult =
  rs_newKey :: ManagedApiKey
  rs_oldKey :: ManagedApiKey
  rs_gracePeriodEndsAt :: int
  rs_gracePeriodRemainingMs :: int

record RotationRecord =
  rc_id :: string
  rc_developerId :: string
  rc_oldKeyId :: string
  rc_newKeyId :: string
  rc_rotatedAt :: int
  rc_gracePeriodEndsAt :: int
  rc_reason :: "string option"

record ApiKeyValidationResult =
  va_valid :: bool
  va_key :: "ManagedApiKey option"
  va_isGrace :: bool
  va_graceRemainingMs :: int
  va_reason :: "string option"

record ApiKeyRotationMetrics =
  km_totalKeys :: nat
  km_activeKeys :: nat
  km_graceKeys :: nat
  km_expiredKeys :: nat
  km_revokedKeys :: nat
  km_totalRotations :: nat
  km_totalValidations :: nat
  km_gracePeriodHits :: nat

text \<open>The payload of \<open>auth.api_key_rotated\<close> with the aggregate and the correlation it is published under.\<close>

record RotatedEvent =
  re_keyId :: string
  re_merchantId :: string
  re_rotatedAt :: int
  re_expiresAt :: int
  re_aggregateId :: string
  re_correlationId :: string

record ApiKeyRotationService =
  kr_keys :: "(string, ManagedApiKey) jsmap"
  kr_keyIndex :: "(string, string) jsmap"
  kr_rotationHistory :: "RotationRecord list"
  kr_totalValidations :: nat
  kr_gracePeriodHits :: nat
  kr_published :: "RotatedEvent list"

definition newKeyService :: ApiKeyRotationService where
  "newKeyService = \<lparr>kr_keys = [], kr_keyIndex = [], kr_rotationHistory = [], kr_totalValidations = 0, kr_gracePeriodHits = 0, kr_published = []\<rparr>"

section \<open>Operations\<close>

definition DEFAULT_GRACE_PERIOD_MS :: int where
  "DEFAULT_GRACE_PERIOD_MS = 24 * 60 * 60 * 1000"

definition DEFAULT_KEY_TTL_MS :: int where
  "DEFAULT_KEY_TTL_MS = 365 * 24 * 60 * 60 * 1000"

definition generateKeyId :: "string \<Rightarrow> string \<Rightarrow> string" where
  "generateKeyId prefix random = prefix @ ''_'' @ random"

definition generateSecret :: "ApiKeyEnvironment \<Rightarrow> string \<Rightarrow> string" where
  "generateSecret environment random = (if environment = TestEnvironment then ''sk_test_'' else ''sk_live_'') @ random"

definition createKey :: "string \<Rightarrow> string \<Rightarrow> int \<Rightarrow> string \<Rightarrow> string \<Rightarrow> ApiKeyEnvironment \<Rightarrow> string list \<Rightarrow> int
    \<Rightarrow> ApiKeyRotationService \<Rightarrow> ManagedApiKey \<times> ApiKeyRotationService" where
  "createKey idRandom keyRandom now developerId name environment permissions ttlMs s =
     (let kid = generateKeyId ''key'' idRandom; secret = generateSecret environment keyRandom;
          key = \<lparr>mk_id = kid, mk_key = secret, mk_name = name, mk_developerId = developerId, mk_environment = environment,
            mk_permissions = permissions, mk_status = KeyActive, mk_createdAt = now, mk_expiresAt = now + ttlMs,
            mk_gracePeriodEndsAt = None, mk_replacedByKeyId = None, mk_replacesKeyId = None, mk_revokedAt = None,
            mk_lastUsedAt = None, mk_usageCount = 0\<rparr>
      in (key, s\<lparr>kr_keys := AList.update kid key (kr_keys s), kr_keyIndex := AList.update secret kid (kr_keyIndex s)\<rparr>))"

definition rotateKey :: "string \<Rightarrow> string \<Rightarrow> string \<Rightarrow> int \<Rightarrow> string \<Rightarrow> RotationOptions
    \<Rightarrow> ApiKeyRotationService \<Rightarrow> (string + RotationResult) \<times> ApiKeyRotationService" where
  "rotateKey idRandom keyRandom recordRandom now keyId options s =
     (case map_of (kr_keys s) keyId of
        None \<Rightarrow> (Inl (''API key not found: '' @ keyId), s)
      | Some oldKey \<Rightarrow>
          if mk_status oldKey = KeyRevoked then (Inl (''Cannot rotate a revoked key: '' @ keyId), s)
          else if mk_status oldKey = KeyExpired then (Inl (''Cannot rotate an expired key: '' @ keyId), s)
          else
            let gracePeriodMs = the_or (ro_gracePeriodMs options) DEFAULT_GRACE_PERIOD_MS;
                newKeyTtlMs = the_or (ro_newKeyTtlMs options) DEFAULT_KEY_TTL_MS;
                gracePeriodEndsAt = now + gracePeriodMs;
                newKeySecret = generateSecret (mk_environment oldKey) keyRandom; newId = generateKeyId ''key'' idRandom;
                newKey = \<lparr>mk_id = newId, mk_key = newKeySecret, mk_name = mk_name oldKey, mk_developerId = mk_developerId oldKey,
                  mk_environment = mk_environment oldKey, mk_permissions = mk_permissions oldKey, mk_status = KeyActive,
                  mk_createdAt = now, mk_expiresAt = now + newKeyTtlMs, mk_gracePeriodEndsAt = None, mk_replacedByKeyId = None,
                  mk_replacesKeyId = Some (mk_id oldKey), mk_revokedAt = None, mk_lastUsedAt = None, mk_usageCount = 0\<rparr>;
                oldKey1 = oldKey\<lparr>mk_status := KeyGrace, mk_gracePeriodEndsAt := Some gracePeriodEndsAt, mk_replacedByKeyId := Some newId\<rparr>;
                rotation = \<lparr>rc_id = generateKeyId ''rot'' recordRandom, rc_developerId = mk_developerId oldKey, rc_oldKeyId = mk_id oldKey,
                  rc_newKeyId = newId, rc_rotatedAt = now, rc_gracePeriodEndsAt = gracePeriodEndsAt, rc_reason = ro_reason options\<rparr>;
                event = \<lparr>re_keyId = newId, re_merchantId = mk_developerId oldKey, re_rotatedAt = now, re_expiresAt = gracePeriodEndsAt,
                  re_aggregateId = mk_developerId oldKey, re_correlationId = rc_id rotation\<rparr>
            in (Inr \<lparr>rs_newKey = newKey, rs_oldKey = oldKey1, rs_gracePeriodEndsAt = gracePeriodEndsAt, rs_gracePeriodRemainingMs = gracePeriodMs\<rparr>,
                s\<lparr>kr_keys := AList.update newId newKey (AList.update keyId oldKey1 (kr_keys s)),
                  kr_keyIndex := AList.update newKeySecret newId (kr_keyIndex s),
                  kr_rotationHistory := kr_rotationHistory s @ [rotation], kr_published := kr_published s @ [event]\<rparr>))"

text \<open>\<open>key.status === 'grace' && key.gracePeriodEndsAt && now > key.gracePeriodEndsAt\<close>: an end of zero is falsy.\<close>

definition grace_over :: "int \<Rightarrow> ManagedApiKey \<Rightarrow> bool" where
  "grace_over now key \<longleftrightarrow> mk_status key = KeyGrace
     \<and> (case mk_gracePeriodEndsAt key of None \<Rightarrow> False | Some g \<Rightarrow> g \<noteq> 0 \<and> g < now)"

definition refused :: "ManagedApiKey option \<Rightarrow> string \<Rightarrow> ApiKeyValidationResult" where
  "refused key reason = \<lparr>va_valid = False, va_key = key, va_isGrace = False, va_graceRemainingMs = 0, va_reason = Some reason\<rparr>"

text \<open>What the validation makes of the key it found: its answer, the key as it is left, and whether it was a grace hit.\<close>

definition check_key :: "int \<Rightarrow> ManagedApiKey \<Rightarrow> ApiKeyValidationResult \<times> ManagedApiKey" where
  "check_key now key0 =
     (let key = (if grace_over now key0 then key0\<lparr>mk_status := KeyExpired\<rparr> else key0)
      in if mk_status key = KeyRevoked then (refused (Some key) ''revoked'', key)
         else if mk_status key = KeyExpired then (refused (Some key) ''expired'', key)
         else if mk_expiresAt key < now \<and> mk_status key = KeyActive
           then (let k = key\<lparr>mk_status := KeyExpired\<rparr> in (refused (Some k) ''expired'', k))
         else
           let k = key\<lparr>mk_lastUsedAt := Some now, mk_usageCount := Suc (mk_usageCount key)\<rparr>
           in if mk_status k = KeyGrace
              then (\<lparr>va_valid = True, va_key = Some k, va_isGrace = True,
                     va_graceRemainingMs = max 0 (the_or (mk_gracePeriodEndsAt k) now - now), va_reason = None\<rparr>, k)
              else (\<lparr>va_valid = True, va_key = Some k, va_isGrace = False, va_graceRemainingMs = 0, va_reason = None\<rparr>, k))"

definition validateKey :: "int \<Rightarrow> string \<Rightarrow> ApiKeyRotationService \<Rightarrow> (string + ApiKeyValidationResult) \<times> ApiKeyRotationService" where
  "validateKey now secret s0 =
     (let s = s0\<lparr>kr_totalValidations := Suc (kr_totalValidations s0)\<rparr>; found = map_of (kr_keyIndex s) secret
      in if \<not> truthy found then (Inr (refused None ''key_not_found''), s)
         else case map_of (kr_keys s) (the_or found '''') of
             None \<Rightarrow> (Inl ''Cannot read properties of undefined'', s)
           | Some key0 \<Rightarrow>
               let (answer, key) = check_key now key0
               in (Inr answer, s\<lparr>kr_keys := AList.update (the_or found '''') key (kr_keys s),
                    kr_gracePeriodHits := kr_gracePeriodHits s + (if va_isGrace answer then 1 else 0)\<rparr>))"

definition revoke :: "int \<Rightarrow> ManagedApiKey \<Rightarrow> ManagedApiKey" where
  "revoke now key = key\<lparr>mk_status := KeyRevoked, mk_revokedAt := Some now\<rparr>"

definition revokeKey :: "int \<Rightarrow> string \<Rightarrow> ApiKeyRotationService \<Rightarrow> bool \<times> ApiKeyRotationService" where
  "revokeKey now keyId s =
     (case map_of (kr_keys s) keyId of
        None \<Rightarrow> (False, s)
      | Some key \<Rightarrow> if mk_status key = KeyRevoked then (False, s) else (True, s\<lparr>kr_keys := AList.update keyId (revoke now key) (kr_keys s)\<rparr>))"

text \<open>A loop over \<open>keys.values()\<close> that changes the keys it selects and counts them.\<close>

definition change_keys :: "(ManagedApiKey \<Rightarrow> bool) \<Rightarrow> (ManagedApiKey \<Rightarrow> ManagedApiKey) \<Rightarrow> ApiKeyRotationService \<Rightarrow> nat \<times> ApiKeyRotationService" where
  "change_keys p f s =
     (length (filter p (map snd (kr_keys s))), s\<lparr>kr_keys := map (\<lambda>(i, k). (i, if p k then f k else k)) (kr_keys s)\<rparr>)"

definition revokeAllKeys :: "int \<Rightarrow> string \<Rightarrow> ApiKeyRotationService \<Rightarrow> nat \<times> ApiKeyRotationService" where
  "revokeAllKeys now developerId = change_keys (\<lambda>k. mk_developerId k = developerId \<and> mk_status k \<noteq> KeyRevoked) (revoke now)"

definition cleanupExpiredKeys :: "int \<Rightarrow> ApiKeyRotationService \<Rightarrow> nat \<times> ApiKeyRotationService" where
  "cleanupExpiredKeys now =
     change_keys (\<lambda>k. grace_over now k \<or> mk_status k = KeyActive \<and> mk_expiresAt k < now) (\<lambda>k. k\<lparr>mk_status := KeyExpired\<rparr>)"

definition getKey :: "string \<Rightarrow> ApiKeyRotationService \<Rightarrow> ManagedApiKey option" where
  "getKey keyId s = map_of (kr_keys s) keyId"

definition getKeysByDeveloper :: "string \<Rightarrow> ApiKeyRotationService \<Rightarrow> ManagedApiKey list" where
  "getKeysByDeveloper developerId s = filter (\<lambda>k. mk_developerId k = developerId) (map snd (kr_keys s))"

definition getActiveKeysByDeveloper :: "string \<Rightarrow> ApiKeyRotationService \<Rightarrow> ManagedApiKey list" where
  "getActiveKeysByDeveloper developerId s =
     filter (\<lambda>k. mk_status k = KeyActive \<or> mk_status k = KeyGrace) (getKeysByDeveloper developerId s)"

definition getRotationHistory :: "string option \<Rightarrow> ApiKeyRotationService \<Rightarrow> RotationRecord list" where
  "getRotationHistory developerId s =
     (if truthy developerId then filter (\<lambda>r. Some (rc_developerId r) = developerId) (kr_rotationHistory s) else kr_rotationHistory s)"

definition getGracePeriodStatus :: "int \<Rightarrow> string \<Rightarrow> ApiKeyRotationService \<Rightarrow> (int \<times> int \<times> string) option \<times> ApiKeyRotationService" where
  "getGracePeriodStatus now keyId s =
     (case map_of (kr_keys s) keyId of
        None \<Rightarrow> (None, s)
      | Some key \<Rightarrow>
          (case mk_gracePeriodEndsAt key of
             None \<Rightarrow> (None, s)
           | Some g \<Rightarrow>
               if mk_status key \<noteq> KeyGrace \<or> g = 0 then (None, s)
               else if g < now then (None, s\<lparr>kr_keys := AList.update keyId (key\<lparr>mk_status := KeyExpired\<rparr>) (kr_keys s)\<rparr>)
               else (Some (g, g - now, the_or (mk_replacedByKeyId key) ''''), s)))"

definition keys_with :: "ApiKeyStatus \<Rightarrow> ApiKeyRotationService \<Rightarrow> nat" where
  "keys_with status s = length (filter (\<lambda>k. mk_status k = status) (map snd (kr_keys s)))"

definition getKeyMetrics :: "ApiKeyRotationService \<Rightarrow> ApiKeyRotationMetrics" where
  "getKeyMetrics s =
     \<lparr>km_totalKeys = length (kr_keys s), km_activeKeys = keys_with KeyActive s, km_graceKeys = keys_with KeyGrace s,
      km_expiredKeys = keys_with KeyExpired s, km_revokedKeys = keys_with KeyRevoked s,
      km_totalRotations = length (kr_rotationHistory s), km_totalValidations = kr_totalValidations s, km_gracePeriodHits = kr_gracePeriodHits s\<rparr>"

section \<open>Calls and runs\<close>

datatype KeyCall =
    CreateKey string string int string string ApiKeyEnvironment "string list" int
  | RotateKey string string string int string RotationOptions
  | ValidateKey int string
  | RevokeKey int string
  | RevokeAllKeys int string
  | CleanupKeys int
  | GraceStatus int string

text \<open>The random parts do not repeat: the id and the secret of a new key are not in use.\<close>

definition unused :: "string \<Rightarrow> string \<Rightarrow> ApiKeyRotationService \<Rightarrow> bool" where
  "unused idRandom keyRandom s \<longleftrightarrow> map_of (kr_keys s) (generateKeyId ''key'' idRandom) = None
     \<and> map_of (kr_keyIndex s) (generateSecret TestEnvironment keyRandom) = None
     \<and> map_of (kr_keyIndex s) (generateSecret ProductionEnvironment keyRandom) = None"

fun key_call :: "ApiKeyRotationService \<Rightarrow> KeyCall \<Rightarrow> ApiKeyRotationService" where
  "key_call s (CreateKey i r now dev name env perms ttl) = (if unused i r s then snd (createKey i r now dev name env perms ttl s) else s)"
| "key_call s (RotateKey i r rec_random now k opts) = (if unused i r s then snd (rotateKey i r rec_random now k opts s) else s)"
| "key_call s (ValidateKey now secret) = snd (validateKey now secret s)"
| "key_call s (RevokeKey now k) = snd (revokeKey now k s)"
| "key_call s (RevokeAllKeys now dev) = snd (revokeAllKeys now dev s)"
| "key_call s (CleanupKeys now) = snd (cleanupExpiredKeys now s)"
| "key_call s (GraceStatus now k) = snd (getGracePeriodStatus now k s)"

fun call_time :: "KeyCall \<Rightarrow> int" where
  "call_time (CreateKey i r now dev name env perms ttl) = now"
| "call_time (RotateKey i r rec_random now k opts) = now"
| "call_time (ValidateKey now secret) = now"
| "call_time (RevokeKey now k) = now"
| "call_time (RevokeAllKeys now dev) = now"
| "call_time (CleanupKeys now) = now"
| "call_time (GraceStatus now k) = now"

text \<open>The calls that take a key away: its revocation, that of all keys of its developer, and another rotation.\<close>

fun spares :: "ManagedApiKey \<Rightarrow> KeyCall \<Rightarrow> bool" where
  "spares key (RevokeKey now k) = (k \<noteq> mk_id key)"
| "spares key (RevokeAllKeys now dev) = (dev \<noteq> mk_developerId key)"
| "spares key (RotateKey i r rec_random now k opts) = (k \<noteq> mk_id key)"
| "spares key c = True"

section \<open>How a call moves a key\<close>

text \<open>What never changes of a key, and what a status may become.\<close>

definition same_key :: "ManagedApiKey \<Rightarrow> ManagedApiKey \<Rightarrow> bool" where
  "same_key k k1 \<longleftrightarrow> mk_id k1 = mk_id k \<and> mk_key k1 = mk_key k \<and> mk_name k1 = mk_name k \<and> mk_developerId k1 = mk_developerId k
     \<and> mk_environment k1 = mk_environment k \<and> mk_permissions k1 = mk_permissions k \<and> mk_createdAt k1 = mk_createdAt k
     \<and> mk_expiresAt k1 = mk_expiresAt k \<and> mk_replacesKeyId k1 = mk_replacesKeyId k"

definition dead :: "ManagedApiKey \<Rightarrow> bool" where
  "dead k \<longleftrightarrow> mk_status k = KeyRevoked \<or> mk_status k = KeyExpired"

definition key_moves :: "ManagedApiKey \<Rightarrow> ManagedApiKey \<Rightarrow> bool" where
  "key_moves k k1 \<longleftrightarrow> same_key k k1 \<and> (dead k \<longrightarrow> dead k1) \<and> (mk_status k = KeyRevoked \<longrightarrow> mk_status k1 = KeyRevoked)"

lemma key_moves_refl [simp]: "key_moves k k"
  by (simp add: key_moves_def same_key_def)

lemma key_moves_trans: "key_moves a b \<Longrightarrow> key_moves b c \<Longrightarrow> key_moves a c"
  by (simp add: key_moves_def same_key_def)

text \<open>A call leaves a usable key as it is as long as it does not take it away and its own time has not passed.\<close>

definition usable :: "int \<Rightarrow> ManagedApiKey \<Rightarrow> bool" where
  "usable now k \<longleftrightarrow> mk_status k = KeyActive \<and> now \<le> mk_expiresAt k \<or> mk_status k = KeyGrace \<and> \<not> grace_over now k"

definition keeps_window :: "ManagedApiKey \<Rightarrow> ManagedApiKey \<Rightarrow> bool" where
  "keeps_window k k1 \<longleftrightarrow> mk_status k1 = mk_status k \<and> mk_gracePeriodEndsAt k1 = mk_gracePeriodEndsAt k
     \<and> mk_replacedByKeyId k1 = mk_replacedByKeyId k \<and> mk_expiresAt k1 = mk_expiresAt k"

lemma keeps_window_refl [simp]: "keeps_window k k"
  by (simp add: keeps_window_def)

lemma keeps_window_usable: "keeps_window k k1 \<Longrightarrow> usable now k1 = usable now k"
  by (simp add: keeps_window_def usable_def grace_over_def)

lemma usable_earlier: "usable t k \<Longrightarrow> now \<le> t \<Longrightarrow> usable now k"
  by (auto simp: usable_def grace_over_def split: option.splits)

lemma check_key_moves: "key_moves k (snd (check_key now k))"
  by (auto simp: check_key_def Let_def key_moves_def same_key_def dead_def grace_over_def)

lemma check_key_usable: "usable now k \<Longrightarrow> keeps_window k (snd (check_key now k))"
  by (auto simp: check_key_def Let_def usable_def keeps_window_def grace_over_def split: option.splits)

lemma check_key_valid: "va_valid (fst (check_key now k)) = usable now k"
  by (cases "mk_status k") (auto simp: check_key_def Let_def usable_def refused_def grace_over_def split: option.splits)

lemma check_key_grace:
  "usable now k \<Longrightarrow> mk_status k = KeyGrace \<Longrightarrow> va_isGrace (fst (check_key now k))
     \<and> va_graceRemainingMs (fst (check_key now k)) = max 0 (the_or (mk_gracePeriodEndsAt k) now - now)"
  by (auto simp: check_key_def Let_def usable_def)

lemma change_keys_get: "map_of (kr_keys (snd (change_keys p f s))) i = map_option (\<lambda>k. if p k then f k else k) (map_of (kr_keys s) i)"
proof -
  have "map_of (map (\<lambda>(i, k). (i, g k)) xs) i = map_option g (map_of xs i)" for g and xs :: "(string, ManagedApiKey) jsmap"
    by (induction xs) auto
  then show ?thesis by (simp add: change_keys_def)
qed

lemma change_keys_keeps:
  "kr_keyIndex (snd (change_keys p f s)) = kr_keyIndex s" "kr_rotationHistory (snd (change_keys p f s)) = kr_rotationHistory s"
  "obj_ok (kr_keys (snd (change_keys p f s))) = obj_ok (kr_keys s)"
  by (auto simp: change_keys_def obj_ok_def obj_keys_def comp_def split_beta)

section \<open>The invariant\<close>

text \<open>The two maps describe the same keys, and a key that replaces another has its name, owner, environment and permissions.\<close>

definition inherits :: "ManagedApiKey \<Rightarrow> ManagedApiKey \<Rightarrow> bool" where
  "inherits old k \<longleftrightarrow> mk_name k = mk_name old \<and> mk_developerId k = mk_developerId old \<and> mk_environment k = mk_environment old
     \<and> mk_permissions k = mk_permissions old"

definition keys_ok :: "ApiKeyRotationService \<Rightarrow> bool" where
  "keys_ok s \<longleftrightarrow>
     (\<forall>i k. map_of (kr_keys s) i = Some k \<longrightarrow> i \<noteq> '''' \<and> mk_id k = i \<and> map_of (kr_keyIndex s) (mk_key k) = Some i)
     \<and> (\<forall>secret i. map_of (kr_keyIndex s) secret = Some i \<longrightarrow> (\<exists>k. map_of (kr_keys s) i = Some k \<and> mk_key k = secret))
     \<and> (\<forall>i k old. map_of (kr_keys s) i = Some k \<longrightarrow> mk_replacesKeyId k = Some old
          \<longrightarrow> (\<exists>o1. map_of (kr_keys s) old = Some o1 \<and> inherits o1 k))"

lemma keys_okD:
  assumes "keys_ok s" "map_of (kr_keys s) i = Some k"
  shows "i \<noteq> ''''" "mk_id k = i" "map_of (kr_keyIndex s) (mk_key k) = Some i"
  using assms unfolding keys_ok_def by blast+

text \<open>A call that moves every key and adds none keeps the invariant.\<close>

lemma keys_ok_moved:
  assumes "keys_ok s" "kr_keyIndex s1 = kr_keyIndex s"
    "\<And>i. rel_option key_moves (map_of (kr_keys s) i) (map_of (kr_keys s1) i)"
  shows "keys_ok s1"
proof -
  have bwd: "\<exists>k. map_of (kr_keys s) i = Some k \<and> same_key k k1" if "map_of (kr_keys s1) i = Some k1" for i k1
    using assms(3) [of i] that by (cases "map_of (kr_keys s) i") (auto simp: key_moves_def)
  have fwd: "\<exists>k1. map_of (kr_keys s1) i = Some k1 \<and> same_key k k1" if "map_of (kr_keys s) i = Some k" for i k
    using assms(3) [of i] that by (cases "map_of (kr_keys s1) i") (auto simp: key_moves_def)
  show ?thesis unfolding keys_ok_def assms(2)
  proof (intro conjI allI impI)
    fix i k1 assume "map_of (kr_keys s1) i = Some k1"
    from bwd [OF this] obtain k where k: "map_of (kr_keys s) i = Some k" "same_key k k1" by blast
    show "i \<noteq> ''''" "mk_id k1 = i" "map_of (kr_keyIndex s) (mk_key k1) = Some i"
      using keys_okD [OF assms(1) k(1)] k(2) by (simp_all add: same_key_def)
  next
    fix secret i assume "map_of (kr_keyIndex s) secret = Some i"
    then obtain k where k: "map_of (kr_keys s) i = Some k" "mk_key k = secret" using assms(1) unfolding keys_ok_def by blast
    from fwd [OF k(1)] show "\<exists>k. map_of (kr_keys s1) i = Some k \<and> mk_key k = secret" using k(2) by (auto simp: same_key_def)
  next
    fix i k1 old assume k1: "map_of (kr_keys s1) i = Some k1" and r: "mk_replacesKeyId k1 = Some old"
    from bwd [OF k1] obtain k where k: "map_of (kr_keys s) i = Some k" "same_key k k1" by blast
    with r have "mk_replacesKeyId k = Some old" by (simp add: same_key_def)
    then obtain o1 where "map_of (kr_keys s) old = Some o1" "inherits o1 k" using assms(1) k(1) unfolding keys_ok_def by blast
    with fwd [of old o1] k(2) show "\<exists>o1. map_of (kr_keys s1) old = Some o1 \<and> inherits o1 k1"
      by (auto simp: same_key_def inherits_def)
  qed
qed

text \<open>Adding a key under an unused id and secret keeps it too.\<close>

lemma keys_ok_added:
  assumes "keys_ok s" "map_of (kr_keys s) (mk_id key) = None" "map_of (kr_keyIndex s) (mk_key key) = None" "mk_id key \<noteq> ''''"
    "kr_keys s1 = AList.update (mk_id key) key (kr_keys s)" "kr_keyIndex s1 = AList.update (mk_key key) (mk_id key) (kr_keyIndex s)"
    "\<And>old. mk_replacesKeyId key = Some old \<Longrightarrow> \<exists>o1. map_of (kr_keys s) old = Some o1 \<and> inherits o1 key"
  shows "keys_ok s1"
  unfolding keys_ok_def assms(5,6) obj_get_update
proof (intro conjI allI impI)
  fix i k assume k: "((map_of (kr_keys s))(mk_id key \<mapsto> key)) i = Some k"
  show "i \<noteq> ''''" "mk_id k = i" using k assms(4) keys_okD [OF assms(1)] by (auto split: if_splits)
  show "((map_of (kr_keyIndex s))(mk_key key \<mapsto> mk_id key)) (mk_key k) = Some i"
    using k assms(3) keys_okD(3) [OF assms(1)] by (cases "i = mk_id key") force+
next
  fix secret i assume "((map_of (kr_keyIndex s))(mk_key key \<mapsto> mk_id key)) secret = Some i"
  moreover have "\<exists>k. map_of (kr_keys s) i = Some k \<and> mk_key k = secret" if "map_of (kr_keyIndex s) secret = Some i"
    using assms(1) that unfolding keys_ok_def by blast
  ultimately show "\<exists>k. ((map_of (kr_keys s))(mk_id key \<mapsto> key)) i = Some k \<and> mk_key k = secret"
    using assms(2) by (cases "secret = mk_key key") fastforce+
next
  fix i k old assume k: "((map_of (kr_keys s))(mk_id key \<mapsto> key)) i = Some k" "mk_replacesKeyId k = Some old"
  have "\<exists>o1. map_of (kr_keys s) old = Some o1 \<and> inherits o1 k"
  proof (cases "i = mk_id key")
    case True
    then show ?thesis using k assms(7) by simp
  next
    case False
    then show ?thesis using k assms(1) unfolding keys_ok_def by simp
  qed
  then show "\<exists>o1. ((map_of (kr_keys s))(mk_id key \<mapsto> key)) old = Some o1 \<and> inherits o1 k" using assms(2) by auto
qed

lemma rel_update:
  "map_of m i = Some k \<Longrightarrow> key_moves k k1 \<Longrightarrow> rel_option key_moves (map_of m j) (map_of (AList.update i k1 m) j)"
  by (cases "map_of m j") auto

lemma rel_option_key_refl [simp]: "rel_option key_moves x x"
  by (cases x) simp_all

lemma change_keys_moves:
  "(\<And>k. p k \<Longrightarrow> key_moves k (f k)) \<Longrightarrow> rel_option key_moves (map_of (kr_keys s) i) (map_of (kr_keys (snd (change_keys p f s))) i)"
  unfolding change_keys_get by (cases "map_of (kr_keys s) i") simp_all

text \<open>The calls that add no key move the keys there are, and leave the index alone.\<close>

fun adds :: "KeyCall \<Rightarrow> bool" where
  "adds (CreateKey i r now dev name env perms ttl) = True"
| "adds (RotateKey i r rec_random now k opts) = True"
| "adds c = False"

lemma call_moves:
  assumes "\<not> adds c"
  shows "rel_option key_moves (map_of (kr_keys s) i) (map_of (kr_keys (key_call s c)) i) \<and> kr_keyIndex (key_call s c) = kr_keyIndex s"
proof (cases c)
  case (ValidateKey now secret)
  show ?thesis
  proof (cases "truthy (map_of (kr_keyIndex s) secret)")
    case True
    show ?thesis
    proof (cases "map_of (kr_keys s) (the_or (map_of (kr_keyIndex s) secret) '''')")
      case (Some k)
      obtain a k1 where c: "check_key now k = (a, k1)" by (cases "check_key now k")
      have "key_moves k k1" using check_key_moves [of k now] c by simp
      from rel_update [OF Some this] show ?thesis using True Some c ValidateKey by (simp add: validateKey_def Let_def)
    qed (use True ValidateKey in \<open>simp add: validateKey_def Let_def\<close>)
  qed (use ValidateKey in \<open>simp add: validateKey_def Let_def\<close>)
next
  case (RevokeKey now k)
  have "key_moves x (revoke now x)" for x by (simp add: key_moves_def same_key_def revoke_def dead_def)
  then show ?thesis using RevokeKey by (cases "map_of (kr_keys s) k") (auto simp: revokeKey_def intro!: rel_update simp del: obj_get_update)
next
  case (RevokeAllKeys now dev)
  then show ?thesis using change_keys_moves [of _ "revoke now"]
    by (simp add: revokeAllKeys_def change_keys_keeps key_moves_def same_key_def revoke_def dead_def)
next
  case (CleanupKeys now)
  have "key_moves k (k\<lparr>mk_status := KeyExpired\<rparr>)" if "grace_over now k \<or> mk_status k = KeyActive \<and> mk_expiresAt k < now" for k
    using that by (auto simp: key_moves_def same_key_def dead_def grace_over_def)
  then show ?thesis using CleanupKeys by (simp add: cleanupExpiredKeys_def change_keys_keeps change_keys_moves)
next
  case (GraceStatus now k)
  have "key_moves x (x\<lparr>mk_status := KeyExpired\<rparr>)" if "mk_status x = KeyGrace" for x
    using that by (simp add: key_moves_def same_key_def dead_def)
  then show ?thesis using GraceStatus
    by (cases "map_of (kr_keys s) k") (auto simp: getGracePeriodStatus_def split: option.split intro!: rel_update simp del: obj_get_update)
qed (use assms in simp_all)

text \<open>What a rotation that goes through leaves behind.\<close>

definition successor :: "string \<Rightarrow> string \<Rightarrow> int \<Rightarrow> RotationOptions \<Rightarrow> ManagedApiKey \<Rightarrow> ManagedApiKey" where
  "successor idRandom keyRandom now opts old =
     \<lparr>mk_id = generateKeyId ''key'' idRandom, mk_key = generateSecret (mk_environment old) keyRandom, mk_name = mk_name old,
      mk_developerId = mk_developerId old, mk_environment = mk_environment old, mk_permissions = mk_permissions old,
      mk_status = KeyActive, mk_createdAt = now, mk_expiresAt = now + the_or (ro_newKeyTtlMs opts) DEFAULT_KEY_TTL_MS,
      mk_gracePeriodEndsAt = None, mk_replacedByKeyId = None, mk_replacesKeyId = Some (mk_id old), mk_revokedAt = None,
      mk_lastUsedAt = None, mk_usageCount = 0\<rparr>"

definition retired :: "string \<Rightarrow> int \<Rightarrow> RotationOptions \<Rightarrow> ManagedApiKey \<Rightarrow> ManagedApiKey" where
  "retired idRandom now opts old =
     old\<lparr>mk_status := KeyGrace, mk_gracePeriodEndsAt := Some (now + the_or (ro_gracePeriodMs opts) DEFAULT_GRACE_PERIOD_MS),
         mk_replacedByKeyId := Some (generateKeyId ''key'' idRandom)\<rparr>"

lemma rotateKey_cases:
  obtains (fails) e where "rotateKey i r rr now k opts s = (Inl e, s)" "\<And>old. map_of (kr_keys s) k = Some old \<Longrightarrow> dead old"
  | (works) res old s1 where "rotateKey i r rr now k opts s = (Inr res, s1)" "map_of (kr_keys s) k = Some old" "\<not> dead old"
      "rs_newKey res = successor i r now opts old" "rs_oldKey res = retired i now opts old"
      "kr_keys s1 = AList.update (generateKeyId ''key'' i) (successor i r now opts old) (AList.update k (retired i now opts old) (kr_keys s))"
      "kr_keyIndex s1 = AList.update (generateSecret (mk_environment old) r) (generateKeyId ''key'' i) (kr_keyIndex s)"
proof (cases "map_of (kr_keys s) k")
  case None
  then show ?thesis using fails by (simp add: rotateKey_def)
next
  case (Some old)
  show ?thesis
  proof (cases "dead old")
    case True
    then show ?thesis using fails Some by (auto simp: rotateKey_def dead_def)
  next
    case False
    then show ?thesis using works Some
      by (simp add: rotateKey_def Let_def dead_def successor_def retired_def)
  qed
qed

lemma key_id_prefix [simp]: "generateKeyId p i \<noteq> []"
  by (simp add: generateKeyId_def)

lemma retired_moves: "\<not> dead old \<Longrightarrow> key_moves old (retired i now opts old)"
  by (simp add: key_moves_def same_key_def retired_def dead_def)

lemma secret_unused: "unused i r s \<Longrightarrow> map_of (kr_keyIndex s) (generateSecret env r) = None"
  by (cases env) (simp_all add: unused_def)

text \<open>Every call keeps the invariant and moves the keys there are.\<close>

lemma call_keeps_key:
  assumes "map_of (kr_keys s) j = Some key"
  shows "\<exists>k1. map_of (kr_keys (key_call s c)) j = Some k1 \<and> key_moves key k1"
proof (cases c)
  case (CreateKey i r now dev name env perms ttl)
  then show ?thesis using assms by (auto simp: createKey_def Let_def unused_def)
next
  case (RotateKey i r rr now k opts)
  show ?thesis
  proof (cases "unused i r s")
    case True
    show ?thesis
    proof (cases rule: rotateKey_cases [of i r rr now k opts s])
      case (works res old s1)
      have "key_moves old (retired i now opts old)" by (rule retired_moves [OF works(3)])
      then show ?thesis using works True assms RotateKey by (auto simp: unused_def)
    qed (use RotateKey assms in auto)
  qed (use RotateKey assms in simp)
qed (use call_moves [of c s j] assms in \<open>auto simp: option_rel_Some1\<close>)

lemma call_keys_ok: "keys_ok s \<Longrightarrow> keys_ok (key_call s c)"
proof (cases "adds c")
  case False
  assume "keys_ok s"
  then show ?thesis by (rule keys_ok_moved) (use call_moves [OF False] in auto)
next
  case True
  assume ok: "keys_ok s"
  show ?thesis
  proof (cases c)
    case (CreateKey i r now dev name env perms ttl)
    show ?thesis
    proof (cases "unused i r s")
      case True
      obtain key s1 where c: "createKey i r now dev name env perms ttl s = (key, s1)" by (cases "createKey i r now dev name env perms ttl s")
      have "keys_ok s1"
        by (rule keys_ok_added [OF ok, of key])
          (use c secret_unused [OF True, of env] True in \<open>auto simp: createKey_def Let_def unused_def\<close>)
      then show ?thesis using CreateKey True c by simp
    qed (use CreateKey ok in simp)
  next
    case (RotateKey i r rr now k opts)
    show ?thesis
    proof (cases "unused i r s")
      case un: True
      show ?thesis
      proof (cases rule: rotateKey_cases [of i r rr now k opts s])
        case (works res old s1)
        let ?s = "s\<lparr>kr_keys := AList.update k (retired i now opts old) (kr_keys s)\<rparr>"
        have mid: "keys_ok ?s"
          by (rule keys_ok_moved [OF ok]) (simp_all add: rel_update [OF works(2) retired_moves [OF works(3)]] del: obj_get_update)
        have idk: "mk_id old = k" by (rule keys_okD(2) [OF ok works(2)])
        have "keys_ok s1"
          by (rule keys_ok_added [OF mid, of "successor i r now opts old"])
            (use works un secret_unused [OF un] idk in \<open>auto simp: successor_def unused_def retired_def inherits_def\<close>)
        then show ?thesis using RotateKey un works(1) by simp
      qed (use RotateKey ok in simp)
    qed (use RotateKey ok in simp)
  qed (use True in simp_all)
qed

interpretation keys: machine key_call keys_ok
  by unfold_locales (rule call_keys_ok)

lemma new_keys_ok: "keys_ok newKeyService"
  by (simp add: keys_ok_def newKeyService_def)

definition keys_reachable :: "ApiKeyRotationService \<Rightarrow> bool" where
  "keys_reachable s \<longleftrightarrow> (\<exists>calls. s = foldl key_call newKeyService calls)"

lemma reachable_keys_ok: "keys_reachable s \<Longrightarrow> keys_ok s"
  unfolding keys_reachable_def using keys.run_inv [OF new_keys_ok] by blast

lemma run_keeps_key:
  "map_of (kr_keys s) j = Some key \<Longrightarrow> \<exists>k1. map_of (kr_keys (foldl key_call s calls)) j = Some k1 \<and> key_moves key k1"
proof (induction calls arbitrary: s key)
  case (Cons c calls)
  from call_keeps_key [OF Cons.prems] obtain k1 where k1: "map_of (kr_keys (key_call s c)) j = Some k1" "key_moves key k1" by blast
  from Cons.IH [OF k1(1)] key_moves_trans [OF k1(2)] show ?case by auto
qed simp

section \<open>Validation of the keys that are there\<close>

lemma validate_found:
  assumes "keys_ok s" "map_of (kr_keys s) i = Some k"
  shows "fst (validateKey now (mk_key k) s) = Inr (fst (check_key now k))"
  using keys_okD [OF assms] assms(2) by (simp add: validateKey_def Let_def truthy_def split_beta)

lemma validate_missing: "map_of (kr_keyIndex s) secret = None \<Longrightarrow> fst (validateKey now secret s) = Inr (refused None ''key_not_found'')"
  by (simp add: validateKey_def truthy_def)

text \<open>A secret is accepted exactly when it belongs to a key that is active and has not expired, or is in a grace period that
  has not ended, whatever calls came before; the index never leads to a key that is not there.\<close>

theorem key_accepted_exactly:
  assumes "keys_reachable s"
  shows "\<exists>a. fst (validateKey now secret s) = Inr a
    \<and> (va_valid a \<longleftrightarrow> (\<exists>i k. map_of (kr_keys s) i = Some k \<and> mk_key k = secret \<and> usable now k))"
proof (cases "map_of (kr_keyIndex s) secret")
  case None
  have "\<not> (\<exists>i k. map_of (kr_keys s) i = Some k \<and> mk_key k = secret \<and> usable now k)"
    using keys_okD(3) [OF reachable_keys_ok [OF assms]] None by fastforce
  then show ?thesis by (simp add: validate_missing [OF None] refused_def)
next
  case (Some i)
  note ok = reachable_keys_ok [OF assms]
  from Some ok obtain k where k: "map_of (kr_keys s) i = Some k" "mk_key k = secret" unfolding keys_ok_def by blast
  have unique: "j = i" if "map_of (kr_keys s) j = Some l" "mk_key l = secret" for j l
    using keys_okD(3) [OF ok that(1)] that(2) Some by simp
  have "(\<exists>j l. map_of (kr_keys s) j = Some l \<and> mk_key l = secret \<and> usable now l) = usable now k"
    using k unique by fastforce
  then show ?thesis using validate_found [OF ok k(1), of now] k(2) by (simp add: check_key_valid)
qed

definition demo_key_calls :: "KeyCall list" where
  "demo_key_calls = [CreateKey ''1'' ''a'' 5 ''dev'' ''ci'' TestEnvironment [''read''] 100]"

definition demo_keys :: ApiKeyRotationService where
  "demo_keys = foldl key_call newKeyService demo_key_calls"

lemma demo_keys_reachable: "keys_reachable demo_keys"
  unfolding keys_reachable_def demo_keys_def by blast

definition demo_key :: ManagedApiKey where
  "demo_key = \<lparr>mk_id = ''key_1'', mk_key = ''sk_test_a'', mk_name = ''ci'', mk_developerId = ''dev'', mk_environment = TestEnvironment,
     mk_permissions = [''read''], mk_status = KeyActive, mk_createdAt = 5, mk_expiresAt = 105, mk_gracePeriodEndsAt = None,
     mk_replacedByKeyId = None, mk_replacesKeyId = None, mk_revokedAt = None, mk_lastUsedAt = None, mk_usageCount = 0\<rparr>"

lemma demo_keys_state: "kr_keys demo_keys = [(''key_1'', demo_key)]" "kr_keyIndex demo_keys = [(''sk_test_a'', ''key_1'')]"
  by (simp_all add: demo_keys_def demo_key_calls_def newKeyService_def createKey_def unused_def generateKeyId_def generateSecret_def
      demo_key_def Let_def)

theorem key_accepted_exactly_witness:
  "\<exists>a. fst (validateKey 50 ''sk_test_a'' demo_keys) = Inr a \<and> va_valid a"
proof -
  from key_accepted_exactly [OF demo_keys_reachable, of 50 "''sk_test_a''"] obtain a where a: "fst (validateKey 50 ''sk_test_a'' demo_keys) = Inr a"
    "va_valid a \<longleftrightarrow> (\<exists>i k. map_of (kr_keys demo_keys) i = Some k \<and> mk_key k = ''sk_test_a'' \<and> usable 50 k)" by blast
  have "map_of (kr_keys demo_keys) ''key_1'' = Some demo_key" "mk_key demo_key = ''sk_test_a''" "usable 50 demo_key"
    by (simp_all add: demo_keys_state demo_key_def usable_def)
  then show ?thesis using a by blast
qed

text \<open>What a call that does not rotate a key makes of it: it is left alone, used by the validation, revoked, or expired when its
  time has passed.\<close>

fun rotates :: "ManagedApiKey \<Rightarrow> KeyCall \<Rightarrow> bool" where
  "rotates key (RotateKey i r rec_random now k opts) = (k = mk_id key)"
| "rotates key c = False"

definition touched :: "KeyCall \<Rightarrow> ManagedApiKey \<Rightarrow> ManagedApiKey \<Rightarrow> bool" where
  "touched c key k1 \<longleftrightarrow> k1 = key \<or> k1 = snd (check_key (call_time c) key)
     \<or> k1 = revoke (call_time c) key \<and> \<not> spares key c
     \<or> k1 = key\<lparr>mk_status := KeyExpired\<rparr> \<and> \<not> usable (call_time c) key \<and> \<not> dead key"

lemma call_touches:
  assumes "keys_ok s" "map_of (kr_keys s) (mk_id key) = Some key" "\<not> rotates key c"
  shows "\<exists>k1. map_of (kr_keys (key_call s c)) (mk_id key) = Some k1 \<and> touched c key k1"
proof (cases c)
  case (CreateKey i r now dev name env perms ttl)
  then show ?thesis using assms(2) by (auto simp: createKey_def Let_def unused_def touched_def)
next
  case (RotateKey i r rr now k opts)
  show ?thesis
  proof (cases "unused i r s")
    case True
    show ?thesis
      by (cases rule: rotateKey_cases [of i r rr now k opts s])
        (use RotateKey True assms(2,3) in \<open>auto simp: unused_def touched_def\<close>)
  qed (use RotateKey assms(2) in \<open>simp add: touched_def\<close>)
next
  case (ValidateKey now secret)
  show ?thesis
  proof (cases "truthy (map_of (kr_keyIndex s) secret)")
    case True
    then obtain j where j: "map_of (kr_keyIndex s) secret = Some j" "j \<noteq> ''''" by (auto simp: truthy_def split: option.splits)
    then obtain k where k: "map_of (kr_keys s) j = Some k" using assms(1) unfolding keys_ok_def by blast
    then show ?thesis using ValidateKey j assms(2) by (auto simp: validateKey_def Let_def truthy_def split_beta touched_def)
  qed (use ValidateKey assms(2) in \<open>simp add: validateKey_def Let_def touched_def\<close>)
next
  case (RevokeKey now k)
  then show ?thesis using assms(2) by (auto simp: revokeKey_def touched_def split: option.split)
next
  case (RevokeAllKeys now dev)
  then show ?thesis using assms(2) by (simp add: revokeAllKeys_def change_keys_get touched_def)
next
  case (CleanupKeys now)
  then show ?thesis using assms(2)
    by (auto simp: cleanupExpiredKeys_def change_keys_get touched_def usable_def dead_def grace_over_def)
next
  case (GraceStatus now k)
  then show ?thesis using assms(2)
    by (auto simp: getGracePeriodStatus_def touched_def usable_def grace_over_def dead_def split: option.split)
qed

lemma touched_window: "touched c key k1 \<Longrightarrow> usable (call_time c) key \<Longrightarrow> spares key c \<Longrightarrow> keeps_window key k1"
  using check_key_usable by (auto simp: touched_def)

text \<open>A key in its grace period ends it at the same time or earlier.\<close>

definition closing :: "int \<Rightarrow> ManagedApiKey \<Rightarrow> bool" where
  "closing g k \<longleftrightarrow> dead k \<or> mk_status k = KeyGrace \<and> mk_gracePeriodEndsAt k = Some g"

lemma check_key_closing: "closing g k \<Longrightarrow> closing g (snd (check_key now k))"
  by (cases "mk_status k"; cases "grace_over now k") (auto simp: closing_def dead_def check_key_def Let_def)

lemma touched_closing: "touched c key k1 \<Longrightarrow> closing g key \<Longrightarrow> closing g k1"
  using check_key_closing [of g key "call_time c"] by (auto simp: touched_def closing_def dead_def revoke_def)

lemma closing_unusable: "closing g k \<Longrightarrow> g \<noteq> 0 \<Longrightarrow> g < now \<Longrightarrow> \<not> usable now k"
  by (auto simp: closing_def dead_def usable_def grace_over_def)

lemma rotates_same: "same_key k k1 \<Longrightarrow> rotates k1 c = rotates k c"
  by (cases c) (auto simp: same_key_def)

lemma spares_same: "same_key k k1 \<Longrightarrow> spares k1 c = spares k c"
  by (cases c) (auto simp: same_key_def)

lemma spares_rotates: "spares key c \<Longrightarrow> \<not> rotates key c"
  by (cases c) auto

text \<open>Over a run: the key stays, and \<open>Q\<close> with it, when every call of the run keeps \<open>Q\<close>.\<close>

lemma run_touches:
  assumes "keys_ok s" "map_of (kr_keys s) (mk_id key) = Some key" "Q key" "\<forall>c\<in>set calls. \<not> rotates key c"
    "\<And>c k k1. c \<in> set calls \<Longrightarrow> same_key key k \<Longrightarrow> Q k \<Longrightarrow> touched c k k1 \<Longrightarrow> Q k1"
  shows "\<exists>k1. map_of (kr_keys (foldl key_call s calls)) (mk_id key) = Some k1 \<and> same_key key k1 \<and> Q k1"
proof -
  have "\<exists>k1. map_of (kr_keys (foldl key_call s calls)) (mk_id key) = Some k1 \<and> same_key key k1 \<and> Q k1"
    if "keys_ok s" "map_of (kr_keys s) (mk_id key) = Some k" "same_key key k" "Q k" for k
    using that assms(4,5)
  proof (induction calls arbitrary: s k)
    case (Cons c calls)
    have idk: "mk_id k = mk_id key" using Cons.prems(3) by (simp add: same_key_def)
    obtain k1 where k1: "map_of (kr_keys (key_call s c)) (mk_id key) = Some k1" "touched c k k1"
      using call_touches [OF Cons.prems(1), of k c] Cons.prems(2,5) rotates_same [OF Cons.prems(3), of c] idk by auto
    have same: "same_key key k1"
      using call_keeps_key [OF Cons.prems(2), of c] k1(1) Cons.prems(3) by (auto simp: key_moves_def same_key_def)
    have "Q k1" using Cons.prems(6) [OF _ Cons.prems(3,4) k1(2)] by simp
    then show ?case unfolding foldl_Cons
      by (rule Cons.IH [OF call_keys_ok [OF Cons.prems(1)] k1(1) same]) (use Cons.prems(5) in simp, rule Cons.prems(6), simp_all)
  qed simp
  from this [OF assms(1,2) _ assms(3)] show ?thesis by (simp add: same_key_def)
qed

section \<open>Rotation\<close>

text \<open>The state right after a rotation.\<close>

lemma rotated:
  assumes "keys_ok s" "unused i r s" "rotateKey i r rr now k opts s = (Inr res, s1)"
  shows "keys_ok s1" "mk_id (rs_oldKey res) = k" "map_of (kr_keys s1) k = Some (rs_oldKey res)"
    "map_of (kr_keys s1) (mk_id (rs_newKey res)) = Some (rs_newKey res)"
    "mk_status (rs_oldKey res) = KeyGrace" "mk_status (rs_newKey res) = KeyActive"
    "mk_gracePeriodEndsAt (rs_oldKey res) = Some (now + the_or (ro_gracePeriodMs opts) DEFAULT_GRACE_PERIOD_MS)"
    "mk_expiresAt (rs_newKey res) = now + the_or (ro_newKeyTtlMs opts) DEFAULT_KEY_TTL_MS"
    "inherits (rs_oldKey res) (rs_newKey res)"
proof -
  have call: "key_call s (RotateKey i r rr now k opts) = s1" using assms(2,3) by simp
  show "keys_ok s1" using call_keys_ok [OF assms(1), of "RotateKey i r rr now k opts"] unfolding call .
  obtain old where w: "map_of (kr_keys s) k = Some old" "rs_newKey res = successor i r now opts old" "rs_oldKey res = retired i now opts old"
    "kr_keys s1 = AList.update (generateKeyId ''key'' i) (successor i r now opts old) (AList.update k (retired i now opts old) (kr_keys s))"
    by (cases rule: rotateKey_cases [of i r rr now k opts s]) (use assms(3) in auto)
  have "generateKeyId ''key'' i \<noteq> k" using assms(2) w(1) by (auto simp: unused_def)
  then show "map_of (kr_keys s1) k = Some (rs_oldKey res)" using w(3,4) by simp
  show "mk_id (rs_oldKey res) = k" using w(3) keys_okD(2) [OF assms(1) w(1)] by (simp add: retired_def)
  show "map_of (kr_keys s1) (mk_id (rs_newKey res)) = Some (rs_newKey res)" using w(2,4) by (simp add: successor_def)
  show "mk_status (rs_oldKey res) = KeyGrace" "mk_status (rs_newKey res) = KeyActive"
    "mk_gracePeriodEndsAt (rs_oldKey res) = Some (now + the_or (ro_gracePeriodMs opts) DEFAULT_GRACE_PERIOD_MS)"
    "mk_expiresAt (rs_newKey res) = now + the_or (ro_newKeyTtlMs opts) DEFAULT_KEY_TTL_MS"
    "inherits (rs_oldKey res) (rs_newKey res)"
    using w(2,3) by (simp_all add: retired_def successor_def inherits_def)
qed

text \<open>A usable key that a run spares is still accepted at the end of the run.\<close>

lemma spared_key_accepted:
  assumes "keys_ok s" "map_of (kr_keys s) (mk_id key) = Some key" "usable t key" "\<forall>c\<in>set calls. spares key c \<and> call_time c \<le> t"
  shows "\<exists>a. fst (validateKey t (mk_key key) (foldl key_call s calls)) = Inr a \<and> va_valid a
    \<and> (mk_status key = KeyGrace \<longrightarrow> va_isGrace a \<and> va_graceRemainingMs a = max 0 (the_or (mk_gracePeriodEndsAt key) t - t))"
proof -
  have keep: "keeps_window key k1" if "c \<in> set calls" "same_key key k" "keeps_window key k" "touched c k k1" for c k k1
  proof -
    have "usable t k" using assms(3) keeps_window_usable [OF that(3)] by simp
    then have "usable (call_time c) k" using assms(4) that(1) by (blast intro: usable_earlier)
    moreover have "spares k c" using assms(4) that(1) spares_same [OF that(2)] by simp
    ultimately have "keeps_window k k1" using touched_window that(4) by blast
    then show ?thesis using that(3) by (simp add: keeps_window_def)
  qed
  have "\<forall>c\<in>set calls. \<not> rotates key c" using assms(4) spares_rotates by blast
  have "\<exists>k1. map_of (kr_keys (foldl key_call s calls)) (mk_id key) = Some k1 \<and> same_key key k1 \<and> keeps_window key k1"
    by (rule run_touches [OF assms(1,2) keeps_window_refl \<open>\<forall>c\<in>set calls. \<not> rotates key c\<close>]) (rule keep)
  then obtain k1
    where k1: "map_of (kr_keys (foldl key_call s calls)) (mk_id key) = Some k1" "same_key key k1" "keeps_window key k1" by blast
  have use: "usable t k1" using assms(3) keeps_window_usable [OF k1(3)] by simp
  have "fst (validateKey t (mk_key key) (foldl key_call s calls)) = Inr (fst (check_key t k1))"
    using validate_found [OF keys.run_inv [OF assms(1)] k1(1), of t] k1(2) by (simp add: same_key_def)
  then show ?thesis using check_key_valid [of t k1] check_key_grace [OF use] use k1(3) by (simp add: keeps_window_def)
qed

text \<open>C22: Rotation without an outage. After a key is rotated, whatever other calls are made until a time \<open>t\<close>, as long as none of
  them revokes or rotates the two keys: up to the end of the grace period the old secret is accepted, flagged as in grace with
  exactly the time that is left; after it the old secret is refused, for good, even if the keys were never swept; and the new
  secret is accepted until it expires. The new key has the owner, name, environment and permissions of the old one.
\<close>

theorem rotation_overlaps:
  assumes "keys_reachable s" "unused i r s" "rotateKey i r rr now k opts s = (Inr res, s1)"
    "\<forall>c\<in>set calls. spares (rs_oldKey res) c \<and> spares (rs_newKey res) c \<and> call_time c \<le> t"
    "rs_gracePeriodEndsAt res \<noteq> 0"
  shows "(t \<le> rs_gracePeriodEndsAt res \<longrightarrow> (\<exists>a. fst (validateKey t (mk_key (rs_oldKey res)) (foldl key_call s1 calls)) = Inr a
      \<and> va_valid a \<and> va_isGrace a \<and> va_graceRemainingMs a = rs_gracePeriodEndsAt res - t))
    \<and> (rs_gracePeriodEndsAt res < t \<longrightarrow> (\<exists>a. fst (validateKey t (mk_key (rs_oldKey res)) (foldl key_call s1 calls)) = Inr a \<and> \<not> va_valid a))
    \<and> (t \<le> mk_expiresAt (rs_newKey res) \<longrightarrow> (\<exists>a. fst (validateKey t (mk_key (rs_newKey res)) (foldl key_call s1 calls)) = Inr a \<and> va_valid a))
    \<and> inherits (rs_oldKey res) (rs_newKey res)"
proof -
  let ?old = "rs_oldKey res" and ?new = "rs_newKey res" and ?g = "rs_gracePeriodEndsAt res"
  note ok = reachable_keys_ok [OF assms(1)]
  note r = rotated [OF ok assms(2,3)]
  have g: "mk_gracePeriodEndsAt ?old = Some ?g" using r(7) assms(3) by (auto simp: rotateKey_def Let_def split: option.splits if_splits)
  have at: "map_of (kr_keys s1) (mk_id ?old) = Some ?old" using r(2,3) by simp
  have old: "\<forall>c\<in>set calls. spares ?old c \<and> call_time c \<le> t" and new: "\<forall>c\<in>set calls. spares ?new c \<and> call_time c \<le> t"
    using assms(4) by auto
  have inside: "\<exists>a. fst (validateKey t (mk_key ?old) (foldl key_call s1 calls)) = Inr a \<and> va_valid a \<and> va_isGrace a
      \<and> va_graceRemainingMs a = ?g - t" if "t \<le> ?g"
  proof -
    have "usable t ?old" using that g r(5) by (simp add: usable_def grace_over_def)
    from spared_key_accepted [OF r(1) at this old] show ?thesis using r(5) g that by auto
  qed
  have outside: "\<exists>a. fst (validateKey t (mk_key ?old) (foldl key_call s1 calls)) = Inr a \<and> \<not> va_valid a" if "?g < t"
  proof -
    have "closing ?g ?old" using r(5) g by (simp add: closing_def)
    moreover have "\<forall>c\<in>set calls. \<not> rotates ?old c" using old spares_rotates by blast
    ultimately obtain k1 where k1: "map_of (kr_keys (foldl key_call s1 calls)) (mk_id ?old) = Some k1" "same_key ?old k1" "closing ?g k1"
      using run_touches [OF r(1) at, of "closing ?g" calls] touched_closing by blast
    have "fst (validateKey t (mk_key ?old) (foldl key_call s1 calls)) = Inr (fst (check_key t k1))"
      using validate_found [OF keys.run_inv [OF r(1)] k1(1), of t] k1(2) by (simp add: same_key_def)
    then show ?thesis using check_key_valid [of t k1] closing_unusable [OF k1(3) assms(5) that] by simp
  qed
  have fresh: "\<exists>a. fst (validateKey t (mk_key ?new) (foldl key_call s1 calls)) = Inr a \<and> va_valid a" if "t \<le> mk_expiresAt ?new"
  proof -
    have "usable t ?new" using that r(6) by (simp add: usable_def)
    from spared_key_accepted [OF r(1,4) this new] show ?thesis by blast
  qed
  show ?thesis using inside outside fresh r(9) by blast
qed

definition no_options :: RotationOptions where
  "no_options = \<lparr>ro_gracePeriodMs = Some 10, ro_newKeyTtlMs = None, ro_reason = None\<rparr>"

lemma demo_rotation:
  obtains res s1 where "unused ''2'' ''b'' demo_keys" "rotateKey ''2'' ''b'' ''r'' 50 ''key_1'' no_options demo_keys = (Inr res, s1)"
    "rs_gracePeriodEndsAt res = 60" "mk_key (rs_oldKey res) = ''sk_test_a''" "mk_id (rs_oldKey res) = ''key_1''" "mk_id (rs_newKey res) = ''key_2''"
  by (simp add: rotateKey_def demo_keys_state demo_key_def no_options_def Let_def unused_def generateKeyId_def generateSecret_def)

theorem rotation_overlaps_witness:
  "\<exists>res s1 a. rotateKey ''2'' ''b'' ''r'' 50 ''key_1'' no_options demo_keys = (Inr res, s1)
     \<and> fst (validateKey 57 ''sk_test_a'' (foldl key_call s1 [RevokeKey 52 ''key_9'', CleanupKeys 55])) = Inr a
     \<and> va_valid a \<and> va_graceRemainingMs a = 3"
proof -
  obtain res s1 where r: "unused ''2'' ''b'' demo_keys" "rotateKey ''2'' ''b'' ''r'' 50 ''key_1'' no_options demo_keys = (Inr res, s1)"
    "rs_gracePeriodEndsAt res = 60" "mk_key (rs_oldKey res) = ''sk_test_a''" "mk_id (rs_oldKey res) = ''key_1''" "mk_id (rs_newKey res) = ''key_2''"
    by (rule demo_rotation)
  have "\<forall>c\<in>set [RevokeKey 52 ''key_9'', CleanupKeys 55]. spares (rs_oldKey res) c \<and> spares (rs_newKey res) c \<and> call_time c \<le> 57"
    using r(5,6) by simp
  from rotation_overlaps [OF demo_keys_reachable r(1,2) this] r(3,4) show ?thesis using r(2) by auto
qed

section \<open>Dead keys and lineage\<close>

text \<open>A key that is revoked or expired is never accepted again and stays dead, whatever calls follow; it cannot be rotated.\<close>

theorem dead_keys_stay_dead:
  assumes "keys_reachable s" "map_of (kr_keys s) i = Some k" "dead k"
  shows "\<exists>a e s2. fst (validateKey t (mk_key k) (foldl key_call s calls)) = Inr a \<and> \<not> va_valid a
    \<and> rotateKey x y z now i opts (foldl key_call s calls) = (Inl e, s2)"
proof -
  note ok = reachable_keys_ok [OF assms(1)]
  obtain k1 where k1: "map_of (kr_keys (foldl key_call s calls)) i = Some k1" "key_moves k k1" using run_keeps_key [OF assms(2)] by blast
  have d: "dead k1" "mk_key k1 = mk_key k" using k1(2) assms(3) by (auto simp: key_moves_def same_key_def)
  have "fst (validateKey t (mk_key k) (foldl key_call s calls)) = Inr (fst (check_key t k1))"
    using validate_found [OF keys.run_inv [OF ok] k1(1), of t] d(2) by simp
  moreover have "\<not> usable t k1" using d(1) by (auto simp: dead_def usable_def)
  moreover have "\<exists>e s2. rotateKey x y z now i opts (foldl key_call s calls) = (Inl e, s2)"
    by (cases rule: rotateKey_cases [of x y z now i opts "foldl key_call s calls"]) (use k1(1) d(1) in auto)
  ultimately show ?thesis using check_key_valid [of t k1] by blast
qed

theorem dead_keys_stay_dead_witness:
  "\<exists>a. fst (validateKey 7 ''sk_test_a'' (foldl key_call (key_call demo_keys (RevokeKey 6 ''key_1'')) [CleanupKeys 6])) = Inr a \<and> \<not> va_valid a"
proof -
  have "key_call demo_keys (RevokeKey 6 ''key_1'') = foldl key_call newKeyService (demo_key_calls @ [RevokeKey 6 ''key_1''])"
    by (simp add: demo_keys_def)
  then have reach: "keys_reachable (key_call demo_keys (RevokeKey 6 ''key_1''))" unfolding keys_reachable_def by blast
  have k: "map_of (kr_keys (key_call demo_keys (RevokeKey 6 ''key_1''))) ''key_1'' = Some (revoke 6 demo_key)"
    by (simp add: revokeKey_def demo_keys_state) (simp add: demo_key_def)
  have d: "dead (revoke 6 demo_key)" "mk_key (revoke 6 demo_key) = ''sk_test_a''" by (simp_all add: dead_def revoke_def demo_key_def)
  from dead_keys_stay_dead [OF reach k d(1), of 7 "[CleanupKeys 6]" "''''" "''''" "''''" 0 no_options] show ?thesis unfolding d(2) by blast
qed

text \<open>The chain of replacements: each key has the owner, the name, the environment and the permissions of the key it replaced.\<close>

lemma lineage:
  assumes "keys_reachable s" "map_of (kr_keys s) i = Some k" "mk_replacesKeyId k = Some old"
  shows "\<exists>k0. map_of (kr_keys s) old = Some k0 \<and> inherits k0 k"
  using reachable_keys_ok [OF assms(1)] assms(2,3) unfolding keys_ok_def by blast

text \<open>A key that has expired but was not used or swept since is still marked active, so it can be rotated, and with
  the grace period its secret is accepted again.\<close>

lemma late_rotation_revives:
  assumes "keys_reachable s" "unused i r s" "map_of (kr_keys s) k = Some key" "mk_status key = KeyActive" "mk_expiresAt key < now"
    "0 < the_or (ro_gracePeriodMs opts) DEFAULT_GRACE_PERIOD_MS" "0 < now"
  shows "\<exists>a. fst (validateKey now (mk_key key) s) = Inr a \<and> \<not> va_valid a"
    and "\<exists>a. fst (validateKey now (mk_key key) (snd (rotateKey i r rr now k opts s))) = Inr a \<and> va_valid a"
proof -
  note ok = reachable_keys_ok [OF assms(1)]
  have "\<not> usable now key" using assms(4,5) by (simp add: usable_def)
  then show "\<exists>a. fst (validateKey now (mk_key key) s) = Inr a \<and> \<not> va_valid a"
    using validate_found [OF ok assms(3)] check_key_valid by simp
  obtain res s1 where w: "rotateKey i r rr now k opts s = (Inr res, s1)" "rs_oldKey res = retired i now opts key"
    by (cases rule: rotateKey_cases [of i r rr now k opts s]) (use assms(3,4) in \<open>auto simp: dead_def\<close>)
  note r = rotated [OF ok assms(2) w(1)]
  have "usable now (rs_oldKey res)" using r(5,7) assms(6) by (simp add: usable_def grace_over_def)
  moreover have "mk_key (rs_oldKey res) = mk_key key" unfolding w(2) by (simp add: retired_def)
  ultimately show "\<exists>a. fst (validateKey now (mk_key key) (snd (rotateKey i r rr now k opts s))) = Inr a \<and> va_valid a"
    using validate_found [OF r(1,3), of now] check_key_valid [of now "rs_oldKey res"] w(1) by simp
qed

text \<open>The metrics add up: every key has one of the four states.\<close>

lemma metrics_add_up:
  "let m = getKeyMetrics s in km_totalKeys m = km_activeKeys m + km_graceKeys m + km_expiredKeys m + km_revokedKeys m"
proof -
  have "length xs = length (filter (\<lambda>k. mk_status k = KeyActive) xs) + length (filter (\<lambda>k. mk_status k = KeyGrace) xs)
      + length (filter (\<lambda>k. mk_status k = KeyExpired) xs) + length (filter (\<lambda>k. mk_status k = KeyRevoked) xs)" for xs
  proof (induction xs)
    case (Cons k ks)
    then show ?case by (cases "mk_status k") simp_all
  qed simp
  from this [of "map snd (kr_keys s)"] show ?thesis by (simp add: getKeyMetrics_def keys_with_def Let_def)
qed
end
