(* ===== verification/Spec2Isabelle.thy ===== *)
theory Spec2Isabelle
  imports Prelude Crdt CrdtSync CircuitBreaker RpcFallback FairQueue Credit DeadLetter
    RateLimits AtomicBatch Lockout Idempotency JsNumber Dunning
    ProgressiveDunning DunningStages JsString ImportExport CsvFormat
    JsonText AuditLog AccessControl Proration
    PaymentTimeout Promotion BatchTransactions BatchReports
    PauseBilling Renewal Metering KeyRotation
begin

text \<open>
  A model of the core logic of SubTrackr, a subscription manager: its backend services and the parts of its
  client that compute. The program is a set of TypeScript classes, each with its own state in memory, that are
  called by request handlers, by jobs and by the stores of the user interface. The model has one theory per
  class or module, in the vocabulary of the source: an interface is a \<open>record\<close>, a union of literals a
  \<open>datatype\<close>, a class a \<open>record\<close> of its fields with one definition per method, and an exception a branch of a
  sum or option type.

  How the parts interact. A charge that fails goes to the dunning code (\<open>Dunning\<close>, \<open>DunningStages\<close>,
  \<open>ProgressiveDunning\<close>), which retries it through a circuit breaker and falls back to stages and grace periods;
  the calls of a chain go through \<open>RpcFallback\<close>, which owns one \<open>CircuitBreaker\<close> per provider, and a payment that
  the chain does not confirm is followed by \<open>PaymentTimeout\<close>, which reports to the audit log. \<open>Idempotency\<close>
  guards the execution of payments, \<open>Credit\<close> keeps balances, \<open>Proration\<close> and \<open>Promotion\<close> compute prices.
  Background jobs wait in \<open>PriorityQueues\<close>, are chosen by \<open>FairQueue\<close>, are limited by \<open>RateLimits\<close> and end in
  \<open>DeadLetter\<close>. \<open>AccessControl\<close> writes its decisions to \<open>AuditLog\<close>, and \<open>Lockout\<close> guards logins. The client
  runs batches (\<open>AtomicBatch\<close>, \<open>BatchTransactions\<close>, \<open>BatchReports\<close>), imports and exports (\<open>ImportExport\<close>,
  \<open>CsvFormat\<close>), and synchronises entities through replicated types (\<open>Crdt\<close>, \<open>CrdtSync\<close>).

  Theories and sources.
  \<^item> \<open>Prelude\<close>, \<open>JsNumber\<close>, \<open>JsString\<close>, \<open>JsonText\<close>: the language. Objects and Maps as association lists in insertion
    order, \<open>Math.round\<close>, \<open>Array.slice\<close>, \<open>find\<close>, \<open>join\<close>, \<open>trim\<close>, \<open>parseFloat\<close>, \<open>Number\<close>, dates of the calendar,
    \<open>JSON.stringify\<close> and \<open>JSON.parse\<close> with their round trip; and the locales \<open>machine\<close> and \<open>accounted\<close>.
  \<^item> \<open>Convergence\<close>: the locales of state-based replicated data types. \<open>Crdt\<close>: \<^verbatim>\<open>shared/types/crdt.ts\<close>.
    \<open>CrdtSync\<close>: \<^verbatim>\<open>backend/sync/crdtMergeService.ts\<close>.
  \<^item> \<open>CircuitBreaker\<close>, \<open>RpcFallback\<close>: \<^verbatim>\<open>backend/services/rpc/\<close>.
  \<^item> \<open>PriorityQueues\<close>, \<open>FairQueue\<close>, \<open>DeadLetter\<close>, \<open>RateLimits\<close>: \<^verbatim>\<open>backend/shared/queue/\<close> and
    \<^verbatim>\<open>backend/services/shared/tokenBucket.ts\<close>.
  \<^item> \<open>Credit\<close>: \<^verbatim>\<open>backend/services/billing/creditService.ts\<close> and its types.
  \<^item> \<open>Idempotency\<close>: \<^verbatim>\<open>backend/services/idempotencyService.ts\<close>; \<open>PaymentTimeout\<close>: \<^verbatim>\<open>backend/services/paymentTimeoutService.ts\<close>.
  \<^item> \<open>Dunning\<close>: \<^verbatim>\<open>backend/services/billing/dunning.ts\<close>; \<open>DunningStages\<close>: \<^verbatim>\<open>dunningService.ts\<close> beside it;
    \<open>ProgressiveDunning\<close>: \<^verbatim>\<open>src/services/progressiveDunningEngine.ts\<close>.
  \<^item> \<open>Proration\<close>: \<^verbatim>\<open>src/utils/proration.ts\<close>, \<^verbatim>\<open>backend/services/billing/proration.ts\<close>; \<open>Promotion\<close>: \<^verbatim>\<open>src/utils/promotionEngine.ts\<close>.
  \<^item> \<open>Lockout\<close>, \<open>AuditLog\<close>: \<^verbatim>\<open>backend/services/shared/\<close>; \<open>AccessControl\<close>: \<^verbatim>\<open>backend/services/accessControl.ts\<close>.
  \<^item> \<open>AtomicBatch\<close>, \<open>BatchTransactions\<close>, \<open>BatchReports\<close>: \<^verbatim>\<open>app/services/\<close>; \<open>ImportExport\<close>, \<open>CsvFormat\<close>: \<^verbatim>\<open>src/utils/importExport.ts\<close>.
  \<^item> \<open>PauseBilling\<close>: \<^verbatim>\<open>src/services/pauseBillingService.ts\<close> with its handlers \<^verbatim>\<open>backend/billing/controller/pauseBillingController.ts\<close>;
    \<open>Renewal\<close>: \<^verbatim>\<open>backend/services/renewal/renewalService.ts\<close>, an inductive step relation over its operations.
  \<^item> \<open>Metering\<close>: \<^verbatim>\<open>backend/services/billing/metering.ts\<close> and the graduated walk of
    \<^verbatim>\<open>backend/services/billing/tieredPricingCalculator.ts\<close>, against a band-by-band reference.
  \<^item> \<open>KeyRotation\<close>: \<^verbatim>\<open>backend/services/shared/apiKeyRotation.ts\<close>; its properties speak of every sequence of calls.
  What the lemmas show. Each theory proves first that its operations keep the invariant of its state, then what
  every branch of an operation does, errors included, and then properties of whole runs. The contracts that
  several components share are locales. \<open>machine\<close> says that steps keep an invariant, and gives it for runs and
  prefixes; its interpretations are \<open>breaker\<close>, \<open>scheduler\<close>, \<open>lockouts\<close>, \<open>grace\<close>, \<open>funnel\<close>, \<open>dunning\<close>, \<open>access\<close>,
  \<open>timeouts\<close>, \<open>batches\<close>, \<open>batch_history\<close>, \<open>pauses\<close>, \<open>class_queue_runs\<close>. \<open>accounted\<close> adds a quantity that changes by known amounts (\<open>credits\<close>, \<open>funds\<close>).
  \<open>fifo\<close> is the abstract queue that a priority class refines (\<open>class_queue\<close>). \<open>state_crdt\<close> and \<open>abs_crdt\<close> give
  strong eventual consistency from three laws of the merge (\<open>clocks\<close>, \<open>lww_reg\<close>, \<open>lww_map\<close>, \<open>orset\<close>, \<open>pn\<close>,
  \<open>entity\<close>). Several theorems state what the code does where it differs from what its comments say: atomic
  batches that are not undone, roles changed without a check, recoveries that give up at once, columns of a
  file that are never read.

  Numbers and bounds. Integers of the source are \<open>int\<close> (they stay far below \<open>2 ^ 53\<close>); fractions are \<open>rat\<close>,
  so the rounding of binary floating point is not modelled, while \<open>Math.round\<close> and \<open>toFixed\<close> are; where the
  code can produce \<open>NaN\<close> or an infinity from its input, the type \<open>jsnum\<close> has them. Numbers print with at most
  six decimals. \<open>BigInt\<close> division truncates. Strings are lists of Latin-1 characters; dashes and arrows of messages
  are written in ASCII or UTF-8. Loops are structural recursion or \<open>function\<close> with a measure; the reader of JSON
  has fuel \<open>2 * length + 2\<close>, proved enough for every printed document, and the streamed creation is a
  \<open>partial_function\<close> because it need not end.

  Arguments instead of definitions: the clock, random numbers and ids, keyed hashes, \<open>localeCompare\<close>, the
  parsing of dates and the local time zone, the callbacks a caller passes (which act on an abstract world),
  and the answers of the chain. Asynchronous methods are one step where nothing interleaves at their awaits; where
  it matters they are split at the awaits (\<open>Idempotency\<close>, \<open>PaymentTimeout\<close>, \<open>PriorityQueues\<close>), and runs of
  the segments (\<open>segment_step\<close>, \<open>pq_step\<close>) interleave them freely.

  Specifications apart from the code, which the operations refine: the observable view of an entity and what each
  operation writes to it (\<open>write_view\<close>, \<open>joined\<close> in \<open>CrdtSync\<close>), the operations of a batch run one after the other
  (\<open>run_in_turn\<close> in \<open>AtomicBatch\<close>), the working off of due entries by the best rule (\<open>works_off\<close> in
  \<open>ProgressiveDunning\<close>), and the band-by-band price in \<open>Metering\<close>.

  Not modelled: screens, stores and navigation; wallets and chain access, which are calls of libraries that are not
  here; persistence to device storage; telemetry, notifications and calendars; tax tables; invoices and
  accounting formats; fraud scores; search, GraphQL and disaster recovery; the Rust contracts, the Python service
  and the SDKs, which are other programs. \<^verbatim>\<open>backend/services/batchChargeService.ts\<close> does not parse.
\<close>

end
